(* ===== verification/Prelude.thy ===== *)
theory Prelude
  imports Main "HOL-Library.Word"
begin

text \<open>
  Shared material of the development: the types every component uses, the named collections
  the component theories fill, and generic facts on lists and intervals that several
  components need.

  Coordinates (\<open>MWCOORD\<close>, a C \<open>int\<close>) are modelled as \<^typ>\<open>int\<close>.  The modelled code compares and
  copies coordinates, and where it adds them an overflow would be undefined behaviour in C, so
  the unbounded integers agree with every defined execution.
\<close>

type_synonym MWCOORD = int

named_theorems rgn_simps \<open>unfolding rules of the region layer\<close>
named_theorems band_intros \<open>introduction rules for well-formed bands\<close>
named_theorems clip_simps \<open>unfolding rules of the clip layer\<close>
named_theorems queue_simps \<open>unfolding rules of the event queue layer\<close>
named_theorems frame_simps \<open>what an operation leaves unchanged\<close>

section \<open>Splitting a list at the first element that fails a test\<close>

lemma takeWhile_eq_prefix:
  assumes "\<forall>x\<in>set as. P x" and "bs = [] \<or> \<not> P (hd bs)"
  shows "takeWhile P (as @ bs) = as"
  using assms by (cases bs) (auto simp: takeWhile_append takeWhile_eq_all_conv)

lemma dropWhile_eq_suffix:
  assumes "\<forall>x\<in>set as. P x" and "bs = [] \<or> \<not> P (hd bs)"
  shows "dropWhile P (as @ bs) = bs"
  using assms by (cases bs) (auto simp: dropWhile_append)

lemma length_dropWhile_less:
  "xs \<noteq> [] \<Longrightarrow> P (hd xs) \<Longrightarrow> length (dropWhile P xs) < length xs"
  by (cases xs) (auto simp: le_imp_less_Suc length_dropWhile_le)

lemma hd_dropWhile_not: "dropWhile P xs \<noteq> [] \<Longrightarrow> \<not> P (hd (dropWhile P xs))"
  by (induction xs) auto

lemma concat_snoc: "concat (xss @ [xs]) = concat xss @ xs"
  by simp

lemma sorted_wrt_last:
  "sorted_wrt R (xs @ [x]) \<longleftrightarrow> sorted_wrt R xs \<and> (\<forall>y\<in>set xs. R y x)"
  by (auto simp: sorted_wrt_append)

lemma sorted_wrt_hd_all:
  "sorted_wrt R xs \<Longrightarrow> y \<in> set xs \<Longrightarrow> y = hd xs \<or> R (hd xs) y"
  by (cases xs) auto

lemma sorted_wrt_last_all:
  "sorted_wrt R xs \<Longrightarrow> y \<in> set xs \<Longrightarrow> y = last xs \<or> R y (last xs)"
  by (induction xs rule: rev_induct) (auto simp: sorted_wrt_append)

section \<open>Adjacent elements of a list\<close>

text \<open>\<open>adjacent R xs\<close>: every element is related to the next one.\<close>

fun adjacent :: "('a \<Rightarrow> 'a \<Rightarrow> bool) \<Rightarrow> 'a list \<Rightarrow> bool" where
  "adjacent R [] = True"
| "adjacent R [x] = True"
| "adjacent R (x # y # zs) = (R x y \<and> adjacent R (y # zs))"

lemma adjacent_Cons:
  "adjacent R (x # xs) \<longleftrightarrow> xs = [] \<or> (R x (hd xs) \<and> adjacent R xs)"
  by (cases xs) auto

lemma adjacent_append:
  "adjacent R (xs @ ys) \<longleftrightarrow> adjacent R xs \<and> adjacent R ys \<and>
     (xs = [] \<or> ys = [] \<or> R (last xs) (hd ys))"
  by (induction xs) (auto simp: adjacent_Cons)

end
