(* ===== verification/Rgn_Model.thy ===== *)
theory Rgn_Model
  imports Prelude
begin

text \<open>
  The region objects of the graphics engine (\<open>engine/devrgn.c\<close>): the rectangle and region
  records of \<open>include/mwtypes.h\<close>, and one definition per function of the file, in its order.

  \<^item> \<open>numRects\<close> and \<open>rects\<close> together are one list: its length is \<open>numRects\<close>, its elements are
    the rectangles in use.  The unused tail of the allocated array has no meaning in the code.
    \<open>size\<close> (the number of allocated rectangles) is the field \<open>rsize\<close>, kept as the code keeps it.
  \<^item> A pointer that walks an unmodified array is the list that starts where it points; a
    pointer pair (start, end) is the list between them.
  \<^item> Regions live in a store from pointers to regions, because the exported operations compare
    pointers and may be called with an output that is one of the inputs.
  \<^item> The allocator is the C library's and is taken to succeed.
\<close>

section \<open>Rectangles and regions\<close>

record MWRECT =
  rleft :: MWCOORD
  rtop :: MWCOORD
  rright :: MWCOORD
  rbottom :: MWCOORD

datatype region_type = MWREGION_NULL | MWREGION_SIMPLE | MWREGION_COMPLEX

record MWCLIPREGION =
  rsize :: nat
  rtype :: region_type
  rects :: "MWRECT list"
  extents :: MWRECT

definition numRects :: "MWCLIPREGION \<Rightarrow> nat" where
  "numRects r = length (rects r)"

definition mkrect :: "MWCOORD \<Rightarrow> MWCOORD \<Rightarrow> MWCOORD \<Rightarrow> MWCOORD \<Rightarrow> MWRECT" where
  "mkrect l t r b = \<lparr>rleft = l, rtop = t, rright = r, rbottom = b\<rparr>"

definition EXTENTCHECK :: "MWRECT \<Rightarrow> MWRECT \<Rightarrow> bool" where
  "EXTENTCHECK r1 r2 \<longleftrightarrow> rright r1 > rleft r2 \<and> rleft r1 < rright r2 \<and>
     rbottom r1 > rtop r2 \<and> rtop r1 < rbottom r2"

text \<open>\<open>MEMCHECK\<close>: the array is doubled when it is about to be full.\<close>

definition MEMCHECK :: "MWCLIPREGION \<Rightarrow> MWCLIPREGION" where
  "MEMCHECK reg = (if int (numRects reg) \<ge> int (rsize reg) - 1
     then reg\<lparr>rsize := rsize reg * 2\<rparr> else reg)"

definition EMPTY_REGION :: "MWCLIPREGION \<Rightarrow> MWCLIPREGION" where
  "EMPTY_REGION reg = reg\<lparr>rects := [], extents := mkrect 0 0 0 0, rtype := MWREGION_NULL\<rparr>"

definition INRECT :: "MWRECT \<Rightarrow> MWCOORD \<Rightarrow> MWCOORD \<Rightarrow> bool" where
  "INRECT r x y \<longleftrightarrow> rright r > x \<and> rleft r \<le> x \<and> rbottom r > y \<and> rtop r \<le> y"

section \<open>Queries\<close>

fun pt_in_rects :: "MWRECT list \<Rightarrow> MWCOORD \<Rightarrow> MWCOORD \<Rightarrow> bool" where
  "pt_in_rects [] x y = False"
| "pt_in_rects (r # rs) x y = (if INRECT r x y then True else pt_in_rects rs x y)"

definition GdPtInRegion :: "MWCLIPREGION \<Rightarrow> MWCOORD \<Rightarrow> MWCOORD \<Rightarrow> bool" where
  "GdPtInRegion rgn x y =
     (if numRects rgn > 0 \<and> INRECT (extents rgn) x y then pt_in_rects (rects rgn) x y else False)"

datatype rect_in = MWRECT_OUT | MWRECT_ALLIN | MWRECT_PARTIN

text \<open>
  The scan of \<open>GdRectInRegion\<close>: its loop variables are \<open>rx\<close>, \<open>ry\<close>, \<open>partIn\<close> and \<open>partOut\<close>, a
  \<open>break\<close> returns \<open>partIn\<close> and \<open>ry\<close>.  The third part of the body is shared by the two ways of
  getting past the test of the rectangle's top.
\<close>

fun rect_in_scan :: "MWRECT \<Rightarrow> MWRECT list \<Rightarrow> MWCOORD \<Rightarrow> MWCOORD \<Rightarrow> bool \<Rightarrow> bool \<Rightarrow> bool \<times> MWCOORD"
where
  "rect_in_scan rect [] rx ry partIn partOut = (partIn, ry)"
| "rect_in_scan rect (c # cs) rx ry partIn partOut =
    (if rbottom c \<le> ry then rect_in_scan rect cs rx ry partIn partOut
     else if rtop c > ry \<and> (partIn \<or> rtop c \<ge> rbottom rect) then (partIn, ry)
     else
       let partOut1 = (partOut \<or> rtop c > ry);
           ry1 = (if rtop c > ry then rtop c else ry)
       in if rright c \<le> rx then rect_in_scan rect cs rx ry1 partIn partOut1
          else if rleft c > rx \<and> partIn then (partIn, ry1)
          else
            let partOut2 = (partOut1 \<or> rleft c > rx);
                partIn2 = (partIn \<or> rleft c < rright rect)
            in if rleft c < rright rect \<and> partOut2 then (partIn2, ry1)
               else if rright c \<ge> rright rect then
                 let ry2 = rbottom c
                 in if ry2 \<ge> rbottom rect then (partIn2, ry2)
                    else rect_in_scan rect cs (rleft rect) ry2 partIn2 partOut2
               else (partIn2, ry1))"

definition GdRectInRegion :: "MWCLIPREGION \<Rightarrow> MWRECT \<Rightarrow> rect_in" where
  "GdRectInRegion rgn rect =
    (if numRects rgn = 0 \<or> \<not> EXTENTCHECK (extents rgn) rect then MWRECT_OUT
     else
       let (partIn, ry) = rect_in_scan rect (rects rgn) (rleft rect) (rtop rect) False False
       in if partIn then (if ry < rbottom rect then MWRECT_PARTIN else MWRECT_ALLIN)
          else MWRECT_OUT)"

definition EQUALRECT :: "MWRECT \<Rightarrow> MWRECT \<Rightarrow> bool" where
  "EQUALRECT r1 r2 \<longleftrightarrow> rleft r1 = rleft r2 \<and> rright r1 = rright r2 \<and>
     rtop r1 = rtop r2 \<and> rbottom r1 = rbottom r2"

fun equal_rects :: "MWRECT list \<Rightarrow> MWRECT list \<Rightarrow> bool" where
  "equal_rects (a # as) (b # bs) = (if \<not> EQUALRECT a b then False else equal_rects as bs)"
| "equal_rects _ _ = True"

definition GdEqualRegion :: "MWCLIPREGION \<Rightarrow> MWCLIPREGION \<Rightarrow> bool" where
  "GdEqualRegion r1 r2 =
    (if numRects r1 \<noteq> numRects r2 then False
     else if numRects r1 = 0 then True
     else if \<not> EQUALRECT (extents r1) (extents r2) then False
     else equal_rects (rects r1) (rects r2))"

definition GdEmptyRegion :: "MWCLIPREGION \<Rightarrow> bool" where
  "GdEmptyRegion rgn \<longleftrightarrow> numRects rgn = 0"

section \<open>Simple constructors and in-place updates\<close>

text \<open>
  \<open>GdAllocRegion\<close> sets \<open>size\<close> to 1 and empties the region; the fields it writes are all the
  fields there are, so the value does not depend on what the allocator returned.
\<close>

definition GdAllocRegion :: MWCLIPREGION where
  "GdAllocRegion = EMPTY_REGION
     \<lparr>rsize = 1, rtype = MWREGION_NULL, rects = [], extents = mkrect 0 0 0 0\<rparr>"

definition GdSetRectRegion ::
  "MWCLIPREGION \<Rightarrow> MWCOORD \<Rightarrow> MWCOORD \<Rightarrow> MWCOORD \<Rightarrow> MWCOORD \<Rightarrow> MWCLIPREGION" where
  "GdSetRectRegion rgn l t r b =
    (if l \<noteq> r \<and> t \<noteq> b
     then rgn\<lparr>rects := [mkrect l t r b], extents := mkrect l t r b, rtype := MWREGION_SIMPLE\<rparr>
     else EMPTY_REGION rgn)"

definition GdAllocRectRegion ::
  "MWCOORD \<Rightarrow> MWCOORD \<Rightarrow> MWCOORD \<Rightarrow> MWCOORD \<Rightarrow> MWCLIPREGION" where
  "GdAllocRectRegion l t r b = GdSetRectRegion GdAllocRegion l t r b"

definition GdAllocRectRegionIndirect :: "MWRECT \<Rightarrow> MWCLIPREGION" where
  "GdAllocRectRegionIndirect prc = GdAllocRectRegion (rleft prc) (rtop prc) (rright prc) (rbottom prc)"

definition GdSetRectRegionIndirect :: "MWCLIPREGION \<Rightarrow> MWRECT \<Rightarrow> MWCLIPREGION" where
  "GdSetRectRegionIndirect rgn prc =
     GdSetRectRegion rgn (rleft prc) (rtop prc) (rright prc) (rbottom prc)"

definition offset_rect :: "MWCOORD \<Rightarrow> MWCOORD \<Rightarrow> MWRECT \<Rightarrow> MWRECT" where
  "offset_rect x y r = mkrect (rleft r + x) (rtop r + y) (rright r + x) (rbottom r + y)"

definition GdOffsetRegion :: "MWCLIPREGION \<Rightarrow> MWCOORD \<Rightarrow> MWCOORD \<Rightarrow> MWCLIPREGION" where
  "GdOffsetRegion rgn x y =
    (if numRects rgn \<noteq> 0 \<and> (x \<noteq> 0 \<or> y \<noteq> 0)
     then rgn\<lparr>rects := map (offset_rect x y) (rects rgn),
              extents := offset_rect x y (extents rgn)\<rparr>
     else rgn)"

definition GdGetRegionBox :: "MWCLIPREGION \<Rightarrow> region_type \<times> MWRECT" where
  "GdGetRegionBox rgn = (rtype rgn, extents rgn)"

text \<open>
  \<open>GdCopyRegion\<close> on the two region values; the test \<open>dst != src\<close> of the pointers is in the
  operations on the store below.
\<close>

definition copy_region :: "MWCLIPREGION \<Rightarrow> MWCLIPREGION \<Rightarrow> MWCLIPREGION" where
  "copy_region dst src =
     \<lparr>rsize = (if rsize dst < numRects src then numRects src else rsize dst),
      rtype = rtype src, rects = rects src, extents = extents src\<rparr>"

section \<open>Extents and coalescing\<close>

fun extents_scan :: "MWRECT list \<Rightarrow> MWRECT \<Rightarrow> MWRECT" where
  "extents_scan [] e = e"
| "extents_scan (r # rs) e =
    (let e1 = (if rleft r < rleft e then e\<lparr>rleft := rleft r\<rparr> else e);
         e2 = (if rright r > rright e1 then e1\<lparr>rright := rright r\<rparr> else e1)
     in extents_scan rs e2)"

definition REGION_SetExtents :: "MWCLIPREGION \<Rightarrow> MWCLIPREGION" where
  "REGION_SetExtents pReg =
    (if numRects pReg = 0 then pReg\<lparr>extents := mkrect 0 0 0 0\<rparr>
     else
       let pRect = hd (rects pReg); pRectEnd = last (rects pReg)
       in pReg\<lparr>extents := extents_scan (rects pReg)
            (mkrect (rleft pRect) (rtop pRect) (rright pRectEnd) (rbottom pRectEnd))\<rparr>)"

text \<open>The backwards scan for the start of the last band (from the last rectangle).\<close>

fun last_band_start :: "MWRECT list \<Rightarrow> nat \<Rightarrow> nat" where
  "last_band_start rs 0 = 0"
| "last_band_start rs (Suc i) =
    (if rtop (rs ! i) = rtop (rs ! Suc i) then last_band_start rs i else Suc i)"

text \<open>The comparing loop over the two bands: do the rectangles line up?\<close>

fun bands_line_up :: "MWRECT list \<Rightarrow> MWRECT list \<Rightarrow> bool" where
  "bands_line_up (p # ps) (c # cs) =
    (if rleft p \<noteq> rleft c \<or> rright p \<noteq> rright c then False else bands_line_up ps cs)"
| "bands_line_up _ _ = True"

text \<open>The updating loop: the bottoms of the previous band become those of the current one.\<close>

fun extend_band :: "MWRECT list \<Rightarrow> MWRECT list \<Rightarrow> MWRECT list" where
  "extend_band (p # ps) (c # cs) = p\<lparr>rbottom := rbottom c\<rparr> # extend_band ps cs"
| "extend_band ps _ = ps"

definition REGION_Coalesce :: "MWCLIPREGION \<Rightarrow> nat \<Rightarrow> nat \<Rightarrow> MWCLIPREGION \<times> nat" where
  "REGION_Coalesce pReg prevStart curStart =
    (let rs = rects pReg;
         prevNumRects = curStart - prevStart;
         bandtop = rtop (rs ! curStart);
         curBand = takeWhile (\<lambda>r. rtop r = bandtop) (drop curStart rs);
         curNumRects = length curBand;
         rest = drop (curStart + curNumRects) rs;
         curStart1 = (if rest \<noteq> [] then last_band_start rs (length rs - 1) else curStart);
         prevBand = take prevNumRects (drop prevStart rs)
     in if curNumRects = prevNumRects \<and> curNumRects \<noteq> 0 then
          if rbottom (rs ! prevStart) = rtop (rs ! curStart) then
            if \<not> bands_line_up prevBand curBand then (pReg, curStart1)
            else (pReg\<lparr>rects := take prevStart rs @ extend_band prevBand curBand @ rest\<rparr>,
                  if rest = [] then prevStart else curStart1)
          else (pReg, curStart1)
        else (pReg, curStart1))"

section \<open>The band sweep\<close>

type_synonym overlap_fn =
  "MWCLIPREGION \<Rightarrow> MWRECT list \<Rightarrow> MWRECT list \<Rightarrow> MWCOORD \<Rightarrow> MWCOORD \<Rightarrow> MWCLIPREGION"
type_synonym nonoverlap_fn =
  "MWCLIPREGION \<Rightarrow> MWRECT list \<Rightarrow> MWCOORD \<Rightarrow> MWCOORD \<Rightarrow> MWCLIPREGION"

text \<open>A band: from a rectangle to the first one with another top (\<open>r1BandEnd\<close>).\<close>

definition band_of :: "MWRECT list \<Rightarrow> MWRECT list" where
  "band_of r = takeWhile (\<lambda>s. rtop s = rtop (hd r)) r"

definition after_band :: "MWRECT list \<Rightarrow> MWRECT list" where
  "after_band r = dropWhile (\<lambda>s. rtop s = rtop (hd r)) r"

definition coalesce_if_added ::
  "MWCLIPREGION \<Rightarrow> nat \<Rightarrow> nat \<Rightarrow> MWCLIPREGION \<times> nat" where
  "coalesce_if_added reg prevBand curBand =
    (if numRects reg \<noteq> curBand then REGION_Coalesce reg prevBand curBand else (reg, prevBand))"

definition call_nonoverlap ::
  "nonoverlap_fn option \<Rightarrow> MWCLIPREGION \<Rightarrow> MWRECT list \<Rightarrow> MWCOORD \<Rightarrow> MWCOORD \<Rightarrow> MWCLIPREGION" where
  "call_nonoverlap f reg r t b =
    (case f of None \<Rightarrow> reg | Some g \<Rightarrow> if t \<noteq> b then g reg r t b else reg)"

text \<open>The first half of the loop body: the band that does not intersect; returns \<open>ytop\<close>.\<close>

definition region_op_nonoverlap ::
  "nonoverlap_fn option \<Rightarrow> nonoverlap_fn option \<Rightarrow> MWCLIPREGION \<Rightarrow> MWRECT list \<Rightarrow> MWRECT list \<Rightarrow>
   MWCOORD \<Rightarrow> MWCLIPREGION \<times> MWCOORD" where
  "region_op_nonoverlap n1 n2 reg r1 r2 ybot =
    (if rtop (hd r1) < rtop (hd r2) then
       (call_nonoverlap n1 reg (band_of r1) (max (rtop (hd r1)) ybot)
          (min (rbottom (hd r1)) (rtop (hd r2))), rtop (hd r2))
     else if rtop (hd r2) < rtop (hd r1) then
       (call_nonoverlap n2 reg (band_of r2) (max (rtop (hd r2)) ybot)
          (min (rbottom (hd r2)) (rtop (hd r1))), rtop (hd r1))
     else (reg, rtop (hd r1)))"

definition region_op_body ::
  "overlap_fn \<Rightarrow> nonoverlap_fn option \<Rightarrow> nonoverlap_fn option \<Rightarrow> MWCLIPREGION \<Rightarrow> MWRECT list \<Rightarrow>
   MWRECT list \<Rightarrow> MWCOORD \<Rightarrow> nat \<Rightarrow> MWCLIPREGION \<times> MWRECT list \<times> MWRECT list \<times> MWCOORD \<times> nat" where
  "region_op_body ov n1 n2 reg r1 r2 ybot prevBand =
    (let curBand = numRects reg;
         (regA, ytop) = region_op_nonoverlap n1 n2 reg r1 r2 ybot;
         (regB, prevB) = coalesce_if_added regA prevBand curBand;
         ybot1 = min (rbottom (hd r1)) (rbottom (hd r2));
         curBand1 = numRects regB;
         regC = (if ybot1 > ytop then ov regB (band_of r1) (band_of r2) ytop ybot1 else regB);
         (regD, prevD) = coalesce_if_added regC prevB curBand1;
         r1' = (if rbottom (hd r1) = ybot1 then after_band r1 else r1);
         r2' = (if rbottom (hd r2) = ybot1 then after_band r2 else r2)
     in (regD, r1', r2', ybot1, prevD))"

lemma length_after_band: "r \<noteq> [] \<Longrightarrow> length (after_band r) < length r"
  using length_dropWhile_less [of r] by (simp add: after_band_def)

lemma region_op_body_shorter:
  assumes "region_op_body ov n1 n2 reg r1 r2 ybot prevBand = (reg', r1', r2', ybot', prev')"
    and "r1 \<noteq> []" and "r2 \<noteq> []"
  shows "length r1' + length r2' < length r1 + length r2"
proof -
  have "r1' = (if rbottom (hd r1) = min (rbottom (hd r1)) (rbottom (hd r2)) then after_band r1 else r1)"
    "r2' = (if rbottom (hd r2) = min (rbottom (hd r1)) (rbottom (hd r2)) then after_band r2 else r2)"
    using assms(1) by (auto simp: region_op_body_def Let_def split: prod.splits)
  then show ?thesis
    using length_after_band [of r1] length_after_band [of r2] assms(2,3) by (auto simp: min_def)
qed

text \<open>
  The \<open>do ... while\<close> loop.  Its callers enter it with both regions non-empty, so testing
  before the body instead of after it makes no difference.
\<close>

function region_op_loop ::
  "overlap_fn \<Rightarrow> nonoverlap_fn option \<Rightarrow> nonoverlap_fn option \<Rightarrow> MWCLIPREGION \<Rightarrow> MWRECT list \<Rightarrow>
   MWRECT list \<Rightarrow> MWCOORD \<Rightarrow> nat \<Rightarrow> MWCLIPREGION \<times> MWRECT list \<times> MWRECT list \<times> MWCOORD \<times> nat" where
  "region_op_loop ov n1 n2 reg r1 r2 ybot prevBand =
    (if r1 \<noteq> [] \<and> r2 \<noteq> [] then
       (case region_op_body ov n1 n2 reg r1 r2 ybot prevBand of
          (reg', r1', r2', ybot', prev') \<Rightarrow> region_op_loop ov n1 n2 reg' r1' r2' ybot' prev')
     else (reg, r1, r2, ybot, prevBand))"
  by pat_completeness auto
termination
  by (relation "measure (\<lambda>(ov, n1, n2, reg, r1, r2, ybot, prevBand). length r1 + length r2)")
    (auto dest: region_op_body_shorter split: prod.splits)

declare region_op_loop.simps [simp del]

text \<open>The bands that are left of one region when the other one is used up.\<close>

function region_op_rest ::
  "nonoverlap_fn \<Rightarrow> MWCLIPREGION \<Rightarrow> MWRECT list \<Rightarrow> MWCOORD \<Rightarrow> MWCLIPREGION" where
  "region_op_rest f reg r ybot =
    (if r \<noteq> [] then
       region_op_rest f (f reg (band_of r) (max (rtop (hd r)) ybot) (rbottom (hd r)))
         (after_band r) ybot
     else reg)"
  by pat_completeness auto
termination
  by (relation "measure (\<lambda>(f, reg, r, ybot). length r)") (auto intro: length_after_band)

declare region_op_rest.simps [simp del]

text \<open>The final shrinking of the array.\<close>

definition shrink_region :: "MWCLIPREGION \<Rightarrow> MWCLIPREGION" where
  "shrink_region reg =
    (if numRects reg < rsize reg div 2 then
       (if numRects reg \<noteq> 0 then reg\<lparr>rsize := numRects reg\<rparr> else reg\<lparr>rsize := 1\<rparr>)
     else reg)"

text \<open>
  \<open>REGION_RegionOp\<close> computes the new value of \<open>newReg\<close>.  The walking pointers are set up first;
  then \<open>newReg->numRects\<close> is cleared, and only then is the size of the new array computed, from
  the counts the two input pointers show \<^emph>\<open>now\<close>: an input that is the output counts 0.
\<close>

type_synonym rgn_ptr = nat
type_synonym rgn_store = "rgn_ptr \<Rightarrow> MWCLIPREGION"

definition REGION_RegionOp ::
  "rgn_store \<Rightarrow> rgn_ptr \<Rightarrow> rgn_ptr \<Rightarrow> rgn_ptr \<Rightarrow> overlap_fn \<Rightarrow> nonoverlap_fn option \<Rightarrow>
   nonoverlap_fn option \<Rightarrow> MWCLIPREGION" where
  "REGION_RegionOp h newReg reg1 reg2 ov n1 n2 =
    (let h0 = h(newReg := (h newReg)\<lparr>rects := []\<rparr>);
         reg0 = (h0 newReg)\<lparr>rsize := max (numRects (h0 reg1)) (numRects (h0 reg2)) * 2\<rparr>;
         ybot0 = (if rtop (extents (h reg1)) < rtop (extents (h reg2))
                  then rtop (extents (h reg1)) else rtop (extents (h reg2)));
         (reg, r1, r2, ybot, prevBand) =
           region_op_loop ov n1 n2 reg0 (rects (h reg1)) (rects (h reg2)) ybot0 0;
         curBand = numRects reg;
         regE = (if r1 \<noteq> [] then
                   (case n1 of None \<Rightarrow> reg | Some f \<Rightarrow> region_op_rest f reg r1 ybot)
                 else if r2 \<noteq> [] then
                   (case n2 of None \<Rightarrow> reg | Some f \<Rightarrow> region_op_rest f reg r2 ybot)
                 else reg)
     in shrink_region (fst (coalesce_if_added regE prevBand curBand)))"

section \<open>The band functions\<close>

text \<open>\<open>MEMCHECK\<close> followed by the writes that append one rectangle.\<close>

definition add_rect ::
  "MWCLIPREGION \<Rightarrow> MWCOORD \<Rightarrow> MWCOORD \<Rightarrow> MWCOORD \<Rightarrow> MWCOORD \<Rightarrow> MWCLIPREGION" where
  "add_rect reg l t r b =
    (let reg1 = MEMCHECK reg in reg1\<lparr>rects := rects reg1 @ [mkrect l t r b]\<rparr>)"

fun REGION_IntersectO :: overlap_fn where
  "REGION_IntersectO reg (a # as) (b # bs) t bo =
    (let l = max (rleft a) (rleft b);
         r = min (rright a) (rright b);
         reg1 = (if l < r then add_rect reg l t r bo else reg)
     in if rright a < rright b then REGION_IntersectO reg1 as (b # bs) t bo
        else if rright b < rright a then REGION_IntersectO reg1 (a # as) bs t bo
        else REGION_IntersectO reg1 as bs t bo)"
| "REGION_IntersectO reg _ _ t bo = reg"

fun REGION_UnionNonO :: nonoverlap_fn where
  "REGION_UnionNonO reg [] t b = reg"
| "REGION_UnionNonO reg (r # rs) t b = REGION_UnionNonO (add_rect reg (rleft r) t (rright r) b) rs t b"

definition MERGERECT :: "MWCLIPREGION \<Rightarrow> MWRECT \<Rightarrow> MWCOORD \<Rightarrow> MWCOORD \<Rightarrow> MWCLIPREGION" where
  "MERGERECT reg r t b =
    (if numRects reg \<noteq> 0 \<and> rtop (last (rects reg)) = t \<and> rbottom (last (rects reg)) = b \<and>
        rright (last (rects reg)) \<ge> rleft r
     then (if rright (last (rects reg)) < rright r
           then reg\<lparr>rects := butlast (rects reg) @ [(last (rects reg))\<lparr>rright := rright r\<rparr>]\<rparr>
           else reg)
     else add_rect reg (rleft r) t (rright r) b)"

fun REGION_UnionO :: overlap_fn where
  "REGION_UnionO reg (a # as) (b # bs) t bo =
    (if rleft a < rleft b then REGION_UnionO (MERGERECT reg a t bo) as (b # bs) t bo
     else REGION_UnionO (MERGERECT reg b t bo) (a # as) bs t bo)"
| "REGION_UnionO reg (a # as) [] t bo = REGION_UnionO (MERGERECT reg a t bo) as [] t bo"
| "REGION_UnionO reg [] (b # bs) t bo = REGION_UnionO (MERGERECT reg b t bo) [] bs t bo"
| "REGION_UnionO reg [] [] t bo = reg"

fun REGION_SubtractNonO1 :: nonoverlap_fn where
  "REGION_SubtractNonO1 reg [] t b = reg"
| "REGION_SubtractNonO1 reg (r # rs) t b =
     REGION_SubtractNonO1 (add_rect reg (rleft r) t (rright r) b) rs t b"

text \<open>
  The first loop of \<open>REGION_SubtractO\<close>; returns the region, what is left of the minuend, and
  \<open>left\<close>.  In the last branch the code reads \<open>r1->left\<close> right after \<open>r1++\<close> without testing for
  the end of the band: \<open>beyond\<close> is the value it finds there when the band is used up.
\<close>

fun subtract_scan ::
  "MWCOORD \<Rightarrow> MWCLIPREGION \<Rightarrow> MWRECT list \<Rightarrow> MWRECT list \<Rightarrow> MWCOORD \<Rightarrow> MWCOORD \<Rightarrow> MWCOORD \<Rightarrow>
   MWCLIPREGION \<times> MWRECT list \<times> MWCOORD" where
  "subtract_scan beyond reg (a # as) (b # bs) left t bo =
    (if rright b \<le> left then subtract_scan beyond reg (a # as) bs left t bo
     else if rleft b \<le> left then
       (if rright b \<ge> rright a
        then subtract_scan beyond reg as (b # bs) (if as \<noteq> [] then rleft (hd as) else rright b) t bo
        else subtract_scan beyond reg (a # as) bs (rright b) t bo)
     else if rleft b < rright a then
       (let reg1 = add_rect reg left t (rleft b) bo
        in if rright b \<ge> rright a
           then subtract_scan beyond reg1 as (b # bs) (if as \<noteq> [] then rleft (hd as) else rright b) t bo
           else subtract_scan beyond reg1 (a # as) bs (rright b) t bo)
     else
       (let reg1 = (if rright a > left then add_rect reg left t (rright a) bo else reg)
        in subtract_scan beyond reg1 as (b # bs) (if as \<noteq> [] then rleft (hd as) else beyond) t bo))"
| "subtract_scan beyond reg r1 r2 left t bo = (reg, r1, left)"

text \<open>The second loop: the remaining rectangles of the minuend.\<close>

fun subtract_rest ::
  "MWCLIPREGION \<Rightarrow> MWRECT list \<Rightarrow> MWCOORD \<Rightarrow> MWCOORD \<Rightarrow> MWCOORD \<Rightarrow> MWCLIPREGION" where
  "subtract_rest reg [] left t bo = reg"
| "subtract_rest reg (a # as) left t bo =
     subtract_rest (add_rect reg left t (rright a) bo) as
       (if as \<noteq> [] then rleft (hd as) else left) t bo"

definition REGION_SubtractO :: "MWCOORD \<Rightarrow> overlap_fn" where
  "REGION_SubtractO beyond reg r1 r2 t bo =
    (case subtract_scan beyond reg r1 r2 (rleft (hd r1)) t bo of
       (reg1, r1', left) \<Rightarrow> subtract_rest reg1 r1' left t bo)"

section \<open>The exported operations, on the store of regions\<close>

definition GdCopyRegion :: "rgn_store \<Rightarrow> rgn_ptr \<Rightarrow> rgn_ptr \<Rightarrow> rgn_store" where
  "GdCopyRegion h dst src = (if dst \<noteq> src then h(dst := copy_region (h dst) (h src)) else h)"

definition complex_or_null :: "MWCLIPREGION \<Rightarrow> MWCLIPREGION" where
  "complex_or_null reg =
     reg\<lparr>rtype := (if numRects reg \<noteq> 0 then MWREGION_COMPLEX else MWREGION_NULL)\<rparr>"

definition GdIntersectRegion ::
  "rgn_store \<Rightarrow> rgn_ptr \<Rightarrow> rgn_ptr \<Rightarrow> rgn_ptr \<Rightarrow> rgn_store" where
  "GdIntersectRegion h newReg reg1 reg2 =
    (let new =
       (if numRects (h reg1) = 0 \<or> numRects (h reg2) = 0 \<or>
           \<not> EXTENTCHECK (extents (h reg1)) (extents (h reg2))
        then (h newReg)\<lparr>rects := []\<rparr>
        else REGION_RegionOp h newReg reg1 reg2 REGION_IntersectO None None)
     in h(newReg := complex_or_null (REGION_SetExtents new)))"

definition subsumes :: "MWCLIPREGION \<Rightarrow> MWCLIPREGION \<Rightarrow> bool" where
  "subsumes reg1 reg2 \<longleftrightarrow> numRects reg1 = 1 \<and>
     rleft (extents reg1) \<le> rleft (extents reg2) \<and> rtop (extents reg1) \<le> rtop (extents reg2) \<and>
     rright (extents reg1) \<ge> rright (extents reg2) \<and>
     rbottom (extents reg1) \<ge> rbottom (extents reg2)"

definition copy_if_other :: "rgn_store \<Rightarrow> rgn_ptr \<Rightarrow> rgn_ptr \<Rightarrow> rgn_store" where
  "copy_if_other h newReg reg = (if newReg \<noteq> reg then GdCopyRegion h newReg reg else h)"

definition GdUnionRegion ::
  "rgn_store \<Rightarrow> rgn_ptr \<Rightarrow> rgn_ptr \<Rightarrow> rgn_ptr \<Rightarrow> rgn_store" where
  "GdUnionRegion h newReg reg1 reg2 =
    (if reg1 = reg2 \<or> numRects (h reg1) = 0 then copy_if_other h newReg reg2
     else if numRects (h reg2) = 0 then copy_if_other h newReg reg1
     else if subsumes (h reg1) (h reg2) then copy_if_other h newReg reg1
     else if subsumes (h reg2) (h reg1) then copy_if_other h newReg reg2
     else
       let new = REGION_RegionOp h newReg reg1 reg2 REGION_UnionO
                   (Some REGION_UnionNonO) (Some REGION_UnionNonO);
           e1 = extents (h reg1); e2 = extents (h reg2)
       in h(newReg := complex_or_null (new\<lparr>extents :=
            mkrect (min (rleft e1) (rleft e2)) (min (rtop e1) (rtop e2))
              (max (rright e1) (rright e2)) (max (rbottom e1) (rbottom e2))\<rparr>)))"

definition GdSubtractRegion ::
  "MWCOORD \<Rightarrow> rgn_store \<Rightarrow> rgn_ptr \<Rightarrow> rgn_ptr \<Rightarrow> rgn_ptr \<Rightarrow> rgn_store" where
  "GdSubtractRegion beyond h regD regM regS =
    (if numRects (h regM) = 0 \<or> numRects (h regS) = 0 \<or>
        \<not> EXTENTCHECK (extents (h regM)) (extents (h regS))
     then GdCopyRegion h regD regM
     else
       let new = REGION_RegionOp h regD regM regS (REGION_SubtractO beyond)
                   (Some REGION_SubtractNonO1) None
       in h(regD := complex_or_null (REGION_SetExtents new)))"

text \<open>
  The local variable \<open>region\<close> of the next two functions lies at an address of its own
  (\<open>Suc rgn\<close>); it is gone when they return.
\<close>

definition local_rect_region :: "MWRECT \<Rightarrow> MWCLIPREGION" where
  "local_rect_region rect = \<lparr>rsize = 1, rtype = MWREGION_SIMPLE, rects = [rect], extents = rect\<rparr>"

definition GdUnionRectWithRegion :: "rgn_store \<Rightarrow> MWRECT \<Rightarrow> rgn_ptr \<Rightarrow> rgn_store" where
  "GdUnionRectWithRegion h rect rgn =
     h(rgn := GdUnionRegion (h(Suc rgn := local_rect_region rect)) rgn rgn (Suc rgn) rgn)"

definition GdSubtractRectFromRegion ::
  "MWCOORD \<Rightarrow> rgn_store \<Rightarrow> MWRECT \<Rightarrow> rgn_ptr \<Rightarrow> rgn_store" where
  "GdSubtractRectFromRegion beyond h rect rgn =
     h(rgn := GdSubtractRegion beyond (h(Suc rgn := local_rect_region rect)) rgn rgn (Suc rgn) rgn)"

text \<open>
  \<open>tra\<close> and \<open>trb\<close> are fresh allocations, freed before the function returns: two addresses
  that differ from the three arguments and from each other.
\<close>

definition GdXorRegion ::
  "MWCOORD \<Rightarrow> rgn_store \<Rightarrow> rgn_ptr \<Rightarrow> rgn_ptr \<Rightarrow> rgn_ptr \<Rightarrow> rgn_store" where
  "GdXorRegion beyond h dr sra srb =
    (let tra = Suc (max dr (max sra srb)); trb = Suc tra;
         h0 = h(tra := GdAllocRegion, trb := GdAllocRegion);
         h1 = GdSubtractRegion beyond h0 tra sra srb;
         h2 = GdSubtractRegion beyond h1 trb srb sra;
         h3 = GdUnionRegion h2 dr tra trb
     in h(dr := h3 dr))"

section \<open>Regions from bitmaps\<close>

text \<open>
  The variables of \<open>GdAllocBitmapRegion\<close>: the region, \<open>rect.left\<close> (\<open>rect.top\<close>, \<open>rect.bottom\<close>
  follow \<open>y\<close>), \<open>bits\<close>, \<open>inrect\<close>, \<open>bitnum\<close> and \<open>i\<close>.  A read outside of the bitmap, or through
  a null pointer, is undefined: \<open>None\<close>.
\<close>

record bitmap_state =
  bm_rgn :: MWCLIPREGION
  bm_left :: MWCOORD
  bm_bits :: "16 word"
  bm_inrect :: bool
  bm_bitnum :: int
  bm_i :: nat

text \<open>\<open>GdUnionRectWithRegion(&rect, rgn)\<close> on a region that no other pointer names.\<close>

definition union_rect :: "MWRECT \<Rightarrow> MWCLIPREGION \<Rightarrow> MWCLIPREGION" where
  "union_rect rect rgn = GdUnionRectWithRegion (\<lambda>p. rgn) rect 0 0"

definition fetch_bits :: "16 word list \<Rightarrow> bitmap_state \<Rightarrow> bitmap_state option" where
  "fetch_bits bitmap s =
    (if bm_bitnum s = 0 then
       (if bm_i s < length bitmap
        then Some (s\<lparr>bm_bitnum := 15, bm_bits := bitmap ! bm_i s, bm_i := bm_i s + 1\<rparr>)
        else None)
     else Some (s\<lparr>bm_bitnum := bm_bitnum s - 1\<rparr>))"

definition end_run :: "MWCOORD \<Rightarrow> MWCOORD \<Rightarrow> bitmap_state \<Rightarrow> bitmap_state" where
  "end_run y x s =
    (if bm_inrect s
     then s\<lparr>bm_inrect := False, bm_rgn := union_rect (mkrect (bm_left s) y x (y + 1)) (bm_rgn s)\<rparr>
     else s)"

definition use_pixel :: "MWCOORD \<Rightarrow> MWCOORD \<Rightarrow> bitmap_state \<Rightarrow> bitmap_state" where
  "use_pixel y x s =
    (let s1 = (if bit (bm_bits s) 15 then
                 (if \<not> bm_inrect s then s\<lparr>bm_inrect := True, bm_left := x\<rparr> else s)
               else end_run y x s)
     in s1\<lparr>bm_bits := push_bit 1 (bm_bits s1)\<rparr>)"

fun bitmap_row :: "16 word list \<Rightarrow> MWCOORD \<Rightarrow> nat \<Rightarrow> bitmap_state \<Rightarrow> bitmap_state option" where
  "bitmap_row bitmap y 0 s = Some s"
| "bitmap_row bitmap y (Suc n) s =
    (case bitmap_row bitmap y n s of None \<Rightarrow> None | Some s1 \<Rightarrow>
       map_option (use_pixel y (int n)) (fetch_bits bitmap s1))"

fun bitmap_rows :: "16 word list \<Rightarrow> nat \<Rightarrow> nat \<Rightarrow> bitmap_state \<Rightarrow> bitmap_state option" where
  "bitmap_rows bitmap w 0 s = Some s"
| "bitmap_rows bitmap w (Suc n) s =
    (case bitmap_rows bitmap w n s of None \<Rightarrow> None | Some s1 \<Rightarrow>
       map_option (\<lambda>s2. (end_run (int n) (int w) s2)\<lparr>bm_inrect := False, bm_bitnum := 0\<rparr>)
         (bitmap_row bitmap (int n) w s1))"

text \<open>\<open>bitmap[0]\<close> is read before the pointer is tested.\<close>

definition GdAllocBitmapRegion ::
  "16 word list option \<Rightarrow> MWCOORD \<Rightarrow> MWCOORD \<Rightarrow> MWCLIPREGION option" where
  "GdAllocBitmapRegion bitmap width height =
    (case bitmap of None \<Rightarrow> None
     | Some [] \<Rightarrow> None
     | Some (b # bs) \<Rightarrow>
         (if width = 0 \<or> height = 0 then Some GdAllocRegion
          else map_option bm_rgn (bitmap_rows (b # bs) (nat width) (nat height)
                 \<lparr>bm_rgn = GdAllocRegion, bm_left = 0, bm_bits = b, bm_inrect = False,
                  bm_bitnum = 0, bm_i = 0\<rparr>)))"

end
