(* ===== verification/Rgn_Geom.thy ===== *)
theory Rgn_Geom
  imports Rgn_Model
begin

text \<open>
  The abstract side of the region layer: the set of points a list of rectangles covers, bands,
  the y-x-banded form that the comment at the top of \<open>engine/devrgn.c\<close> describes, and the
  canonical (maximally coalesced) form.  The last section shows that the canonical form of a
  point set is unique.
\<close>

section \<open>Points\<close>

definition pts :: "MWRECT list \<Rightarrow> (MWCOORD \<times> MWCOORD) set" where
  "pts rs = {(x, y). \<exists>r\<in>set rs. INRECT r x y}"

definition rect_pts :: "MWRECT \<Rightarrow> (MWCOORD \<times> MWCOORD) set" where
  "rect_pts r = {(x, y). INRECT r x y}"

lemma pts_Nil [simp]: "pts [] = {}"
  by (simp add: pts_def)

lemma pts_Cons [simp]: "pts (r # rs) = rect_pts r \<union> pts rs"
  by (auto simp: pts_def rect_pts_def)

lemma pts_append [simp]: "pts (as @ bs) = pts as \<union> pts bs"
  by (auto simp: pts_def)

lemma pts_concat: "pts (concat bs) = (\<Union>B\<in>set bs. pts B)"
  by (induction bs) auto

lemma in_pts: "(x, y) \<in> pts rs \<longleftrightarrow> (\<exists>r\<in>set rs. INRECT r x y)"
  by (simp add: pts_def)

section \<open>Rows: the horizontal extent of a list of rectangles\<close>

definition inx :: "MWRECT list \<Rightarrow> MWCOORD \<Rightarrow> bool" where
  "inx rs x \<longleftrightarrow> (\<exists>r\<in>set rs. rleft r \<le> x \<and> x < rright r)"

lemma inx_Nil [simp]: "inx [] x = False"
  by (simp add: inx_def)

lemma inx_Cons [simp]: "inx (r # rs) x \<longleftrightarrow> (rleft r \<le> x \<and> x < rright r) \<or> inx rs x"
  by (auto simp: inx_def)

lemma inx_append [simp]: "inx (as @ bs) x \<longleftrightarrow> inx as x \<or> inx bs x"
  by (auto simp: inx_def)

text \<open>
  Rectangles of one band: from left to right, non-empty, and no two of them touch ("no two
  rectangles in a band are allowed to touch").
\<close>

definition xsorted :: "MWRECT list \<Rightarrow> bool" where
  "xsorted rs \<longleftrightarrow> (\<forall>r\<in>set rs. rleft r < rright r) \<and> sorted_wrt (\<lambda>a b. rright a < rleft b) rs"

lemma xsorted_Nil [simp]: "xsorted []"
  by (simp add: xsorted_def)

lemma xsorted_Cons [simp]:
  "xsorted (a # as) \<longleftrightarrow> rleft a < rright a \<and> (\<forall>b\<in>set as. rright a < rleft b) \<and> xsorted as"
  by (auto simp: xsorted_def)

lemma xsorted_append:
  "xsorted (as @ bs) \<longleftrightarrow> xsorted as \<and> xsorted bs \<and> (\<forall>a\<in>set as. \<forall>b\<in>set bs. rright a < rleft b)"
  by (auto simp: xsorted_def sorted_wrt_append)

lemma xsorted_inx_right: "xsorted (a # as) \<Longrightarrow> inx as x \<Longrightarrow> rright a < x"
  by (auto simp: inx_def)

text \<open>The row of an x-sorted list determines its intervals.\<close>

definition spans :: "MWRECT list \<Rightarrow> (MWCOORD \<times> MWCOORD) list" where
  "spans rs = map (\<lambda>r. (rleft r, rright r)) rs"

lemma xsorted_first_left:
  assumes "xsorted (a # as)" and "xsorted (b # bs)" and "\<And>x. inx (a # as) x = inx (b # bs) x"
  shows "rleft a = rleft b"
proof -
  have "inx (b # bs) (rleft a)" using assms(1) assms(3) [of "rleft a"] by simp
  then have "rleft b \<le> rleft a" using assms(2) by (auto simp: inx_def)
  moreover have "inx (a # as) (rleft b)" using assms(2) assms(3) [of "rleft b"] by simp
  then have "rleft a \<le> rleft b" using assms(1) by (auto simp: inx_def)
  ultimately show ?thesis by simp
qed

lemma xsorted_first_right:
  assumes "xsorted (a # as)" and "xsorted (b # bs)" and "\<And>x. inx (a # as) x = inx (b # bs) x"
  shows "rright a \<le> rright b"
proof (rule ccontr)
  assume less: "\<not> rright a \<le> rright b"
  have "rleft a = rleft b" by (rule xsorted_first_left [OF assms])
  then have "inx (a # as) (rright b)" using less assms(2) by simp
  then have "inx (b # bs) (rright b)" using assms(3) by simp
  then show False using assms(2) by (auto simp: inx_def)
qed

lemma spans_unique:
  "xsorted as \<Longrightarrow> xsorted bs \<Longrightarrow> (\<And>x. inx as x = inx bs x) \<Longrightarrow> spans as = spans bs"
proof (induction as arbitrary: bs)
  case Nil
  then show ?case
  proof (cases bs)
    case (Cons b bs')
    then have "inx bs (rleft b)" using Nil.prems(2) by simp
    then show ?thesis using Nil.prems(3) [of "rleft b"] by simp
  qed simp
next
  case (Cons a as)
  show ?case
  proof (cases bs)
    case Nil
    have "inx (a # as) (rleft a)" using Cons.prems(1) by simp
    then show ?thesis using Cons.prems(3) [of "rleft a"] Nil by simp
  next
    case (Cons b bs')
    note bs = this
    have eq: "inx (a # as) x = inx (b # bs') x" for x using Cons.prems(3) bs by simp
    note srt = Cons.prems(1) Cons.prems(2) [unfolded bs]
    have l: "rleft a = rleft b" by (rule xsorted_first_left [OF srt eq])
    have r: "rright a = rright b"
      using xsorted_first_right [OF srt eq] xsorted_first_right [OF srt(2,1) eq [symmetric]] by simp
    have "inx as x = inx bs' x" for x
      using eq [of x] l r xsorted_inx_right [OF srt(1), of x] xsorted_inx_right [OF srt(2), of x]
      by auto
    then have "spans as = spans bs'" using Cons.IH [of bs'] srt by simp
    with l r bs show ?thesis by (simp add: spans_def)
  qed
qed

section \<open>Bands\<close>

text \<open>Non-empty, x-sorted, and all rectangles with the same (proper) vertical extent.\<close>

definition has_rows :: "MWCOORD \<Rightarrow> MWCOORD \<Rightarrow> MWRECT list \<Rightarrow> bool" where
  "has_rows t b B \<longleftrightarrow> (\<forall>r\<in>set B. rtop r = t \<and> rbottom r = b)"

definition is_band :: "MWRECT list \<Rightarrow> bool" where
  "is_band B \<longleftrightarrow> B \<noteq> [] \<and> xsorted B \<and> rtop (hd B) < rbottom (hd B) \<and>
     has_rows (rtop (hd B)) (rbottom (hd B)) B"

abbreviation btop :: "MWRECT list \<Rightarrow> MWCOORD" where "btop B \<equiv> rtop (hd B)"
abbreviation bbot :: "MWRECT list \<Rightarrow> MWCOORD" where "bbot B \<equiv> rbottom (hd B)"

lemma has_rows_hd: "has_rows t b B \<Longrightarrow> B \<noteq> [] \<Longrightarrow> btop B = t \<and> bbot B = b"
  by (simp add: has_rows_def)

lemma is_bandI:
  assumes "B \<noteq> []" and "xsorted B" and "t < b" and "has_rows t b B"
  shows "is_band B"
  using assms has_rows_hd [OF assms(4,1)] by (simp add: is_band_def)

lemma is_bandD:
  "is_band B \<Longrightarrow> B \<noteq> []" "is_band B \<Longrightarrow> xsorted B" "is_band B \<Longrightarrow> btop B < bbot B"
  "is_band B \<Longrightarrow> has_rows (btop B) (bbot B) B"
  by (auto simp: is_band_def)

lemma band_rect: "is_band B \<Longrightarrow> r \<in> set B \<Longrightarrow> rtop r = btop B \<and> rbottom r = bbot B"
  unfolding is_band_def has_rows_def by blast

lemma pts_rows: "has_rows t b B \<Longrightarrow> (x, y) \<in> pts B \<longleftrightarrow> inx B x \<and> t \<le> y \<and> y < b"
  by (auto simp: in_pts inx_def INRECT_def has_rows_def)

lemma pts_band: "is_band B \<Longrightarrow> (x, y) \<in> pts B \<longleftrightarrow> inx B x \<and> btop B \<le> y \<and> y < bbot B"
  by (simp add: pts_rows is_bandD)

lemma band_nonempty_row:
  assumes "is_band B"
  shows "\<exists>x. inx B x"
proof -
  obtain a as where B: "B = a # as" using is_bandD(1) [OF assms] by (cases B) auto
  then have "inx B (rleft a)" using is_bandD(2) [OF assms] by simp
  then show ?thesis by blast
qed

section \<open>Stacks of bands\<close>

definition stack :: "MWRECT list list \<Rightarrow> bool" where
  "stack bs \<longleftrightarrow> (\<forall>B\<in>set bs. is_band B) \<and> sorted_wrt (\<lambda>B C. bbot B \<le> btop C) bs"

lemma stack_Nil [simp]: "stack []"
  by (simp add: stack_def)

lemma stack_Cons:
  "stack (B # bs) \<longleftrightarrow> is_band B \<and> (\<forall>C\<in>set bs. bbot B \<le> btop C) \<and> stack bs"
  by (auto simp: stack_def)

lemma stack_append:
  "stack (as @ bs) \<longleftrightarrow> stack as \<and> stack bs \<and> (\<forall>A\<in>set as. \<forall>B\<in>set bs. bbot A \<le> btop B)"
  by (auto simp: stack_def sorted_wrt_append)

lemma stack_band: "stack bs \<Longrightarrow> B \<in> set bs \<Longrightarrow> is_band B"
  by (simp add: stack_def)

lemma pts_stack_above: "stack bs \<Longrightarrow> (x, y) \<in> pts (concat bs) \<Longrightarrow> \<exists>B\<in>set bs. btop B \<le> y \<and> y < bbot B \<and> inx B x"
  by (auto simp: pts_concat stack_def pts_band)

text \<open>Two adjacent bands that \<open>REGION_Coalesce\<close> would merge.\<close>

definition mergeable :: "MWRECT list \<Rightarrow> MWRECT list \<Rightarrow> bool" where
  "mergeable B C \<longleftrightarrow> bbot B = btop C \<and> spans B = spans C"

definition tight :: "MWRECT list list \<Rightarrow> bool" where
  "tight bs \<longleftrightarrow> adjacent (\<lambda>B C. \<not> mergeable B C) bs"

section \<open>Splitting a list of rectangles into its bands\<close>

function rgn_bands :: "MWRECT list \<Rightarrow> MWRECT list list" where
  "rgn_bands rs = (if rs = [] then [] else band_of rs # rgn_bands (after_band rs))"
  by pat_completeness auto
termination
  by (relation "measure length") (auto intro: length_after_band)

declare rgn_bands.simps [simp del]

lemma rgn_bands_Nil [simp]: "rgn_bands [] = []"
  by (simp add: rgn_bands.simps)

lemma band_of_Nil [simp]: "band_of [] = []" and after_band_Nil [simp]: "after_band [] = []"
  by (simp_all add: band_of_def after_band_def)

lemma band_of_append_after: "band_of rs @ after_band rs = rs"
  by (simp add: band_of_def after_band_def)

lemma concat_rgn_bands: "concat (rgn_bands rs) = rs"
proof (induction rs rule: rgn_bands.induct)
  case (1 rs)
  show ?case
  proof (cases "rs = []")
    case False
    then have "rgn_bands rs = band_of rs # rgn_bands (after_band rs)"
      by (subst rgn_bands.simps) simp
    then show ?thesis using 1 [OF False] by (simp add: band_of_append_after)
  qed simp
qed

lemma stack_next_top:
  assumes "stack (B # bs)" and "concat bs \<noteq> []"
  shows "rtop (hd (concat bs)) \<noteq> btop B"
proof -
  obtain C cs where bs: "bs = C # cs" using assms(2) by (cases bs) auto
  then have C: "is_band C" "bbot B \<le> btop C" and B: "btop B < bbot B"
    using assms(1) by (auto simp: stack_Cons is_bandD)
  have "hd (concat bs) = hd C" using bs C(1) by (simp add: is_bandD(1))
  then show ?thesis using C B by simp
qed

lemma band_of_stack:
  assumes "stack (B # bs)"
  shows "band_of (concat (B # bs)) = B" and "after_band (concat (B # bs)) = concat bs"
proof -
  have B: "is_band B" using assms by (simp add: stack_Cons)
  then have hd: "hd (B @ concat bs) = hd B" by (simp add: is_bandD(1))
  have all: "\<forall>s\<in>set B. rtop s = rtop (hd B)" using band_rect [OF B] by blast
  have nxt: "concat bs = [] \<or> rtop (hd (concat bs)) \<noteq> rtop (hd B)"
    using stack_next_top [OF assms] by blast
  show "band_of (concat (B # bs)) = B"
    using takeWhile_eq_prefix [OF all nxt] by (simp add: band_of_def hd)
  show "after_band (concat (B # bs)) = concat bs"
    using dropWhile_eq_suffix [OF all nxt] by (simp add: after_band_def hd)
qed

lemma rgn_bands_concat: "stack bs \<Longrightarrow> rgn_bands (concat bs) = bs"
proof (induction bs)
  case (Cons B bs)
  then have "B \<noteq> []" by (simp add: stack_Cons is_bandD(1))
  then show ?case
    using Cons band_of_stack [OF Cons.prems] by (simp add: rgn_bands.simps [of "B @ concat bs"] stack_Cons)
qed simp

section \<open>The y-x-banded form and the canonical form\<close>

definition yxbanded :: "MWRECT list \<Rightarrow> bool" where
  "yxbanded rs \<longleftrightarrow> stack (rgn_bands rs)"

definition canonical :: "MWRECT list \<Rightarrow> bool" where
  "canonical rs \<longleftrightarrow> stack (rgn_bands rs) \<and> tight (rgn_bands rs)"

lemma canonical_concat: "stack bs \<Longrightarrow> tight bs \<Longrightarrow> canonical (concat bs)"
  by (simp add: canonical_def rgn_bands_concat)

lemma canonicalE:
  assumes "canonical rs"
  obtains bs where "rs = concat bs" and "stack bs" and "tight bs"
  using assms that [of "rgn_bands rs"] by (simp add: canonical_def concat_rgn_bands)

lemma canonical_Nil [simp]: "canonical []"
  by (simp add: canonical_def tight_def)

text \<open>What the comment calls sorted: a rectangle is in the band of the next one, or above it.\<close>

lemma stack_in_order:
  assumes "stack bs"
  shows "sorted_wrt (\<lambda>a b. (rtop a = rtop b \<and> rbottom a = rbottom b \<and> rright a < rleft b) \<or>
           rbottom a \<le> rtop b) (concat bs)"
  using assms
proof (induction bs)
  case (Cons B bs)
  then have B: "is_band B" and le: "\<forall>C\<in>set bs. bbot B \<le> btop C" and st: "stack bs"
    by (auto simp: stack_Cons)
  have "sorted_wrt (\<lambda>a b. rright a < rleft b) B" using B by (simp add: is_band_def xsorted_def)
  then have inB: "sorted_wrt (\<lambda>a b. (rtop a = rtop b \<and> rbottom a = rbottom b \<and> rright a < rleft b) \<or>
      rbottom a \<le> rtop b) B"
    by (rule sorted_wrt_mono_rel [rotated]) (simp add: band_rect [OF B])
  have "rbottom a \<le> rtop b" if a: "a \<in> set B" and b: "b \<in> set (concat bs)" for a b
  proof -
    from b obtain C where C: "C \<in> set bs" "b \<in> set C" by auto
    show ?thesis using band_rect [OF B a] band_rect [OF stack_band [OF st C(1)] C(2)] le C(1) by simp
  qed
  then show ?case using Cons.IH [OF st] inB by (simp add: sorted_wrt_append)
qed simp

section \<open>The canonical form is unique\<close>

lemma band_from_spans:
  assumes "is_band B"
  shows "B = map (\<lambda>(l, r). mkrect l (btop B) r (bbot B)) (spans B)"
proof -
  have "mkrect (rleft r) (btop B) (rright r) (bbot B) = r" if "r \<in> set B" for r
    using band_rect [OF assms that] by (simp add: mkrect_def)
  then show ?thesis unfolding spans_def map_map comp_def by (simp add: map_idI)
qed

lemma band_unique:
  "is_band B \<Longrightarrow> is_band C \<Longrightarrow> btop B = btop C \<Longrightarrow> bbot B = bbot C \<Longrightarrow> spans B = spans C \<Longrightarrow> B = C"
  using band_from_spans [of B] band_from_spans [of C] by simp

lemma stack_first_row:
  assumes "stack (B # bs)" and "y < bbot B"
  shows "(x, y) \<in> pts (concat (B # bs)) \<longleftrightarrow> btop B \<le> y \<and> inx B x"
proof -
  have B: "is_band B" and le: "\<forall>C\<in>set bs. bbot B \<le> btop C" and st: "stack bs"
    using assms(1) by (auto simp: stack_Cons)
  have "(x, y) \<notin> pts (concat bs)"
    using pts_stack_above [OF st, of x y] le assms(2) by force
  then show ?thesis using pts_band [OF B] assms(2) by auto
qed

lemma stack_other_rows:
  assumes "stack (B # bs)"
  shows "(x, y) \<in> pts (concat bs) \<longleftrightarrow> bbot B \<le> y \<and> (x, y) \<in> pts (concat (B # bs))"
proof -
  have B: "is_band B" and le: "\<forall>C\<in>set bs. bbot B \<le> btop C" and st: "stack bs"
    using assms by (auto simp: stack_Cons)
  show ?thesis using pts_stack_above [OF st, of x y] le pts_band [OF B, of x y] by force
qed

lemma canonical_same_top:
  assumes "stack (B # bs)" and "stack (C # cs)" and eq: "pts (concat (B # bs)) = pts (concat (C # cs))"
  shows "btop C \<le> btop B"
proof -
  have B: "is_band B" using assms(1) by (simp add: stack_Cons)
  obtain x where "inx B x" using band_nonempty_row [OF B] by blast
  then have "(x, btop B) \<in> pts (concat (B # bs))"
    using stack_first_row [OF assms(1), of "btop B" x] is_bandD(3) [OF B] by simp
  then have "(x, btop B) \<in> pts (concat (C # cs))" unfolding eq .
  moreover have "btop C < bbot C" using assms(2) by (simp add: stack_Cons is_bandD)
  ultimately show ?thesis
    using stack_first_row [OF assms(2), of "btop B" x] by fastforce
qed

lemma canonical_same_bottom:
  assumes st: "stack (B # bs)" "stack (C # cs)" and tight: "tight (B # bs)"
    and eq: "pts (concat (B # bs)) = pts (concat (C # cs))"
    and top: "btop B = btop C" and row: "\<And>x. inx B x = inx C x"
  shows "bbot C \<le> bbot B"
proof (rule ccontr)
  assume less: "\<not> bbot C \<le> bbot B"
  have B: "is_band B" and le: "\<forall>D\<in>set bs. bbot B \<le> btop D" and st': "stack bs"
    using st(1) by (auto simp: stack_Cons)
  have row': "(x, bbot B) \<in> pts (concat bs) \<longleftrightarrow> inx B x" for x
    using stack_other_rows [OF st(1), of x "bbot B"] stack_first_row [OF st(2), of "bbot B" x]
      eq less top row [of x] is_bandD(3) [OF B] by auto
  obtain x where "inx B x" using band_nonempty_row [OF B] by blast
  then obtain D where D: "D \<in> set bs" "btop D \<le> bbot B"
    using pts_stack_above [OF st'] row' by blast
  then obtain E es where bs: "bs = E # es" by (cases bs) auto
  have E: "is_band E" using st' bs by (simp add: stack_Cons)
  have top_E: "btop E = bbot B"
    using D le bs st' is_bandD(3) [OF E] by (auto simp: stack_Cons)
  have "inx E x = inx B x" for x
    using stack_first_row [of E es "bbot B" x] st' bs top_E is_bandD(3) [OF E] row' [of x] by simp
  then have "spans B = spans E"
    by (intro spans_unique) (auto simp: is_bandD(2) [OF B] is_bandD(2) [OF E])
  then have "mergeable B E" by (simp add: mergeable_def top_E)
  then show False using tight bs by (simp add: tight_def)
qed

lemma stack_unique:
  "stack bs \<Longrightarrow> tight bs \<Longrightarrow> stack cs \<Longrightarrow> tight cs \<Longrightarrow> pts (concat bs) = pts (concat cs) \<Longrightarrow> bs = cs"
proof (induction bs arbitrary: cs)
  case Nil
  then show ?case
  proof (cases cs)
    case (Cons C cs')
    then have "is_band C" using Nil.prems(3) by (simp add: stack_Cons)
    then obtain x where "inx C x" "btop C < bbot C" using band_nonempty_row is_bandD(3) by blast
    then have "(x, btop C) \<in> pts (concat cs)"
      using stack_first_row [of C cs' "btop C" x] Nil.prems(3) Cons by simp
    then show ?thesis using Nil.prems(5) by simp
  qed simp
next
  case (Cons B bs)
  have B: "is_band B" using Cons.prems(1) by (simp add: stack_Cons)
  show ?case
  proof (cases cs)
    case Nil
    obtain x where "inx B x" using band_nonempty_row [OF B] by blast
    then have "(x, btop B) \<in> pts (concat (B # bs))"
      using stack_first_row [OF Cons.prems(1), of "btop B" x] is_bandD(3) [OF B] by simp
    then show ?thesis using Cons.prems(5) Nil by simp
  next
    case (Cons C cs')
    note cs = this
    note st = \<open>stack (B # bs)\<close> \<open>stack cs\<close> [unfolded cs]
    note eq = \<open>pts (concat (B # bs)) = pts (concat cs)\<close> [unfolded cs]
    have C: "is_band C" using st(2) by (simp add: stack_Cons)
    have top: "btop B = btop C"
      using canonical_same_top [OF st eq] canonical_same_top [OF st(2,1) eq [symmetric]] by simp
    have row: "inx B x = inx C x" for x
      using stack_first_row [OF st(1), of "btop B" x] stack_first_row [OF st(2), of "btop B" x] top
        is_bandD(3) [OF B] is_bandD(3) [OF C] unfolding eq by (simp del: concat.simps)
    have "tight (B # bs)" "tight (C # cs')" using Cons.prems cs by simp_all
    then have bot: "bbot B = bbot C"
      using canonical_same_bottom [OF st _ eq top row]
        canonical_same_bottom [OF st(2,1) _ eq [symmetric] top [symmetric] row [symmetric]] by simp
    have "B = C"
      using band_unique [OF B C top bot] spans_unique [of B C] row is_bandD(2) [OF B] is_bandD(2) [OF C]
      by simp
    moreover have "(x, y) \<in> pts (concat bs) \<longleftrightarrow> (x, y) \<in> pts (concat cs')" for x y
      using stack_other_rows [OF st(1), of x y] stack_other_rows [OF st(2), of x y]
      unfolding eq bot by (simp del: concat.simps)
    then have "pts (concat bs) = pts (concat cs')" by auto
    then have "bs = cs'"
      using Cons.IH [of cs'] Cons.prems cs by (auto simp: stack_Cons tight_def adjacent_Cons)
    ultimately show ?thesis using cs by simp
  qed
qed

lemma canonical_eqI:
  assumes "canonical as" and "canonical bs" and "pts as = pts bs"
  shows "as = bs"
proof -
  have "rgn_bands as = rgn_bands bs"
    using assms unfolding canonical_def by (intro stack_unique) (simp_all add: concat_rgn_bands)
  then show ?thesis by (metis concat_rgn_bands)
qed

end
