(* ===== verification/Rgn_Sweep.thy ===== *)
theory Rgn_Sweep
  imports Rgn_Geom
begin

text \<open>
  The band sweep (\<open>REGION_RegionOp\<close> with \<open>REGION_Coalesce\<close>), proved once for every operation
  that is built on it.  The contract of the functions it calls back is the locale
  \<open>band_sweep\<close>: each appends, for the band it is given, exactly the row that a point-wise
  Boolean operation \<open>P\<close> prescribes.  From the contract the sweep computes the canonical form of
  the point-wise combination of its two inputs.
\<close>

section \<open>Coalescing\<close>

definition taller :: "MWCOORD \<Rightarrow> MWRECT list \<Rightarrow> MWRECT list" where
  "taller b B = map (\<lambda>r. r\<lparr>rbottom := b\<rparr>) B"

lemma taller_simps [simp]:
  "length (taller b B) = length B" "taller b B = [] \<longleftrightarrow> B = []" "spans (taller b B) = spans B"
  "B \<noteq> [] \<Longrightarrow> btop (taller b B) = btop B" "B \<noteq> [] \<Longrightarrow> bbot (taller b B) = b"
  by (auto simp: taller_def spans_def hd_map)

lemma inx_spans: "inx B x \<longleftrightarrow> (\<exists>(l, r)\<in>set (spans B). l \<le> x \<and> x < r)"
  by (auto simp: inx_def spans_def)

lemma inx_spans_cong: "spans B = spans C \<Longrightarrow> inx B x = inx C x"
  by (simp add: inx_spans)

lemma xsorted_spans: "xsorted B \<longleftrightarrow> (\<forall>(l, r)\<in>set (spans B). l < r) \<and>
    sorted_wrt (\<lambda>p q. snd p < fst q) (spans B)"
  by (auto simp: xsorted_def spans_def sorted_wrt_map)

lemma taller_band:
  assumes "is_band B" and "btop B < b"
  shows "is_band (taller b B)"
proof (rule is_bandI [of _ "btop B" b])
  show "taller b B \<noteq> []" using assms by (simp add: is_bandD)
  show "xsorted (taller b B)" using is_bandD(2) [OF assms(1)] by (simp add: xsorted_spans)
  show "has_rows (btop B) b (taller b B)"
    using band_rect [OF assms(1)] by (auto simp: has_rows_def taller_def)
qed (rule assms(2))

lemma bands_line_up_spans:
  "length B = length C \<Longrightarrow> bands_line_up B C \<longleftrightarrow> spans B = spans C"
  by (induction B C rule: list_induct2) (auto simp: spans_def)

lemma extend_band_taller:
  "length B = length C \<Longrightarrow> has_rows t b C \<Longrightarrow> extend_band B C = taller b B"
  by (induction B C rule: list_induct2) (auto simp: taller_def has_rows_def)

text \<open>The stack after coalescing a band \<open>C\<close> that was appended to the stack \<open>bs\<close>.\<close>

definition coalesce_stack :: "MWRECT list list \<Rightarrow> MWRECT list \<Rightarrow> MWRECT list list" where
  "coalesce_stack bs C =
     (if bs \<noteq> [] \<and> mergeable (last bs) C then butlast bs @ [taller (bbot C) (last bs)]
      else bs @ [C])"

definition last_start :: "MWRECT list list \<Rightarrow> nat" where
  "last_start bs = length (concat (butlast bs))"

lemma length_concat_last:
  "bs \<noteq> [] \<Longrightarrow> length (concat bs) = last_start bs + length (last bs)"
proof -
  assume "bs \<noteq> []"
  then have "length (concat bs) = length (concat (butlast bs @ [last bs]))" by simp
  then show ?thesis by (simp add: last_start_def)
qed

lemma concat_last: "bs \<noteq> [] \<Longrightarrow> concat bs = concat (butlast bs) @ last bs"
  by (metis append_butlast_last_id concat_snoc)

lemma stack_tl_band:
  assumes "stack (bs @ C # Ds)"
  shows "takeWhile (\<lambda>r. rtop r = btop C) (C @ concat Ds) = C"
proof -
  have "stack (C # Ds)" using assms by (simp add: stack_append)
  then have "band_of (C @ concat Ds) = C" "C \<noteq> []"
    using band_of_stack(1) [of C Ds] by (auto simp: stack_Cons is_bandD)
  then show ?thesis by (simp add: band_of_def)
qed

lemma REGION_Coalesce_eq:
  assumes "takeWhile (\<lambda>r. rtop r = rtop (rects reg ! cur)) (drop cur (rects reg)) = C"
    and "drop (cur + length C) (rects reg) = R" and "take (cur - prev) (drop prev (rects reg)) = B"
    and "length B = cur - prev" and "C \<noteq> []"
  shows "REGION_Coalesce reg prev cur =
    (let i = (if R \<noteq> [] then last_band_start (rects reg) (length (rects reg) - 1) else cur)
     in if length C = length B \<and> rbottom (rects reg ! prev) = rtop (rects reg ! cur) \<and> bands_line_up B C
        then (reg\<lparr>rects := take prev (rects reg) @ extend_band B C @ R\<rparr>, if R = [] then prev else i)
        else (reg, i))"
proof -
  have B: "take (length B) (drop prev (rects reg)) = B" using assms(3,4) by simp
  show ?thesis
    unfolding REGION_Coalesce_def Let_def assms(1) assms(2) assms(4) [symmetric] B
    using assms(5) by auto
qed

lemma coalesce_rects:
  assumes rs: "rects reg = concat bs @ C @ concat Ds" and st: "stack (bs @ C # Ds)"
  shows "\<exists>i. REGION_Coalesce reg (last_start bs) (length (concat bs)) =
      (reg\<lparr>rects := concat (coalesce_stack bs C @ Ds)\<rparr>, i) \<and>
    (Ds = [] \<longrightarrow> i = last_start (coalesce_stack bs C))"
proof -
  have C: "is_band C" using st by (simp add: stack_append stack_Cons)
  have ne: "C \<noteq> []" by (rule is_bandD(1) [OF C])
  have nth: "rects reg ! length (concat bs) = hd C" using ne by (cases C) (simp_all add: rs nth_append)
  have cur: "takeWhile (\<lambda>r. rtop r = rtop (rects reg ! length (concat bs)))
      (drop (length (concat bs)) (rects reg)) = C"
    unfolding nth using stack_tl_band [OF st] by (simp add: rs)
  have rest: "drop (length (concat bs) + length C) (rects reg) = concat Ds" by (simp add: rs)
  have rest_ne: "concat Ds = [] \<longleftrightarrow> Ds = []"
    using st by (cases Ds) (auto simp: stack_append stack_Cons is_bandD)
  have keep: "reg\<lparr>rects := concat bs @ C @ concat Ds\<rparr> = reg" using rs by simp
  show ?thesis
  proof (cases "bs = []")
    case True
    have "REGION_Coalesce reg 0 (length (concat bs)) = (reg,
        if concat Ds \<noteq> [] then last_band_start (rects reg) (length (rects reg) - 1) else length (concat bs))"
      by (subst REGION_Coalesce_eq [OF cur rest _ _ ne, of 0 "[]"]) (simp_all add: Let_def True ne)
    moreover have "coalesce_stack bs C = [C]" by (simp add: True coalesce_stack_def)
    ultimately show ?thesis using keep rest_ne True by (simp add: last_start_def)
  next
    case False
    have B: "is_band (last bs)" using st False stack_band [of bs "last bs"] by (simp add: stack_append)
    note len = length_concat_last [OF False]
    have prev: "take (length (concat bs) - last_start bs) (drop (last_start bs) (rects reg)) = last bs"
      by (simp add: rs concat_last [OF False] last_start_def)
    have plen: "length (last bs) = length (concat bs) - last_start bs" by (simp add: len)
    have pnth: "rects reg ! last_start bs = hd (last bs)"
      using is_bandD(1) [OF B] by (cases "last bs") (simp_all add: rs concat_last [OF False] last_start_def nth_append)
    have take: "take (last_start bs) (rects reg) = concat (butlast bs)"
      by (simp add: rs concat_last [OF False] last_start_def)
    note eq = REGION_Coalesce_eq [OF cur rest prev plen ne, unfolded pnth nth take]
    have cond: "length C = length (last bs) \<and> bbot (last bs) = btop C \<and> bands_line_up (last bs) C
        \<longleftrightarrow> mergeable (last bs) C"
      using bands_line_up_spans [of "last bs" C]
      by (auto simp: mergeable_def spans_def dest: map_eq_imp_length_eq)
    show ?thesis
    proof (cases "mergeable (last bs) C")
      case True
      then have "length (last bs) = length C" using cond by simp
      then have "extend_band (last bs) C = taller (bbot C) (last bs)"
        by (rule extend_band_taller [OF _ is_bandD(4) [OF C]])
      then show ?thesis
        unfolding eq using True False rest_ne by (simp add: cond Let_def coalesce_stack_def last_start_def)
    next
      case no: False
      then show ?thesis
        unfolding eq using rest_ne keep by (simp add: cond Let_def coalesce_stack_def last_start_def)
    qed
  qed
qed

lemma mergeable_taller_right: "B \<noteq> [] \<Longrightarrow> mergeable A (taller b B) = mergeable A B"
  by (simp add: mergeable_def)

lemma mergeable_taller_left:
  "B \<noteq> [] \<Longrightarrow> spans B = spans C \<Longrightarrow> mergeable (taller (bbot C) B) D = mergeable C D"
  by (simp add: mergeable_def)

lemma coalesce_stack_cases:
  assumes "stack (bs @ C # Ds)"
  obtains (keep) "coalesce_stack bs C = bs @ [C]" "bs = [] \<or> \<not> mergeable (last bs) C"
  | (merge) as B where "bs = as @ [B]" "mergeable B C" "is_band B" "B \<noteq> []"
      "coalesce_stack bs C = as @ [taller (bbot C) B]"
proof (cases "bs \<noteq> [] \<and> mergeable (last bs) C")
  case True
  then have bs: "bs = butlast bs @ [last bs]" by simp
  moreover have "is_band (last bs)" using assms True stack_band [of bs "last bs"] by (simp add: stack_append)
  moreover have "coalesce_stack bs C = butlast bs @ [taller (bbot C) (last bs)]"
    using True by (simp add: coalesce_stack_def)
  ultimately show ?thesis using merge [of "butlast bs" "last bs"] True is_bandD(1) by blast
next
  case False
  then have "coalesce_stack bs C = bs @ [C]" by (auto simp: coalesce_stack_def)
  then show ?thesis using keep False by blast
qed

lemma coalesce_stack_stack:
  assumes "stack (bs @ C # Ds)"
  shows "stack (coalesce_stack bs C @ Ds)"
  using assms
proof (cases rule: coalesce_stack_cases)
  case keep
  then show ?thesis using assms by simp
next
  case (merge as B)
  have C: "is_band C" using assms by (simp add: stack_append stack_Cons)
  have "btop B < bbot C"
    using is_bandD(3) [OF merge(3)] is_bandD(3) [OF C] merge(2) by (simp add: mergeable_def)
  then have "is_band (taller (bbot C) B)" by (rule taller_band [OF merge(3)])
  then show ?thesis using assms merge(1,4,5) by (auto simp: stack_append stack_Cons)
qed

lemma coalesce_stack_tight:
  assumes "stack (bs @ C # Ds)" and "tight bs" and "tight (C # Ds)"
  shows "tight (coalesce_stack bs C @ Ds)"
  using assms(1)
proof (cases rule: coalesce_stack_cases)
  case keep
  then show ?thesis using assms(2,3) by (auto simp: tight_def adjacent_append adjacent_Cons)
next
  case (merge as B)
  have "spans B = spans C" using merge(2) by (simp add: mergeable_def)
  then show ?thesis using assms(2,3) merge(1,4,5)
    by (auto simp: tight_def adjacent_append adjacent_Cons mergeable_taller_right mergeable_taller_left)
qed

lemma coalesce_stack_pts:
  assumes "stack (bs @ C # Ds)"
  shows "pts (concat (coalesce_stack bs C)) = pts (concat bs) \<union> pts C"
  using assms
proof (cases rule: coalesce_stack_cases)
  case keep
  then show ?thesis by simp
next
  case (merge as B)
  have C: "is_band C" using assms by (simp add: stack_append stack_Cons)
  have eq: "bbot B = btop C" "spans B = spans C" using merge(2) by (auto simp: mergeable_def)
  note less = is_bandD(3) [OF merge(3)] is_bandD(3) [OF C]
  have T: "is_band (taller (bbot C) B)" using less eq by (intro taller_band [OF merge(3)]) simp
  have "(x, y) \<in> pts (taller (bbot C) B) \<longleftrightarrow> (x, y) \<in> pts B \<or> (x, y) \<in> pts C" for x y
    using pts_band [OF T, of x y] pts_band [OF merge(3), of x y] pts_band [OF C, of x y] less eq
      inx_spans_cong [of "taller (bbot C) B" B x] inx_spans_cong [OF eq(2), of x] merge(4) by auto
  then have "pts (taller (bbot C) B) = pts B \<union> pts C" by auto
  then show ?thesis using merge(1,5) by auto
qed

lemma coalesce_stack_bottoms:
  assumes "stack (bs @ C # Ds)" and "\<forall>B\<in>set bs. bbot B \<le> bbot C"
  shows "\<forall>B\<in>set (coalesce_stack bs C). bbot B \<le> bbot C"
  using assms(1)
proof (cases rule: coalesce_stack_cases)
  case keep
  then show ?thesis using assms(2) by simp
next
  case (merge as B)
  then show ?thesis using assms(2) by auto
qed

lemma coalesce_stack_length:
  "length (concat (coalesce_stack bs C)) \<le> length (concat bs) + length C"
proof (cases "bs \<noteq> [] \<and> mergeable (last bs) C")
  case True
  then show ?thesis using length_concat_last [of bs] by (simp add: coalesce_stack_def last_start_def)
next
  case False
  then show ?thesis by (auto simp: coalesce_stack_def)
qed

section \<open>What the callbacks append\<close>

text \<open>
  \<open>appends reg reg' t b row\<close>: \<open>reg'\<close> is \<open>reg\<close> with rectangles added that have the rows \<open>t\<close> to
  \<open>b\<close>, are x-sorted and cover exactly \<open>row\<close>, and there is still room in the array.
\<close>

definition appends ::
  "MWCLIPREGION \<Rightarrow> MWCLIPREGION \<Rightarrow> MWCOORD \<Rightarrow> MWCOORD \<Rightarrow> (MWCOORD \<Rightarrow> bool) \<Rightarrow> bool" where
  "appends reg reg' t b row \<longleftrightarrow>
     (\<exists>out. rects reg' = rects reg @ out \<and> xsorted out \<and>
            has_rows t b out \<and> (\<forall>x. inx out x = row x)) \<and>
     (numRects reg < rsize reg \<longrightarrow> numRects reg' < rsize reg')"

text \<open>
  \<open>swept reg bs ybot prev F\<close>: everything of the point set \<open>F\<close> above \<open>ybot\<close> is in the new region,
  in canonical form with the bands \<open>bs\<close>, and \<open>prev\<close> is the index of the last band.
\<close>

definition swept ::
  "MWCLIPREGION \<Rightarrow> MWRECT list list \<Rightarrow> MWCOORD \<Rightarrow> nat \<Rightarrow> (MWCOORD \<times> MWCOORD) set \<Rightarrow> bool" where
  "swept reg bs ybot prev F \<longleftrightarrow> rects reg = concat bs \<and> stack bs \<and> tight bs \<and>
     (\<forall>B\<in>set bs. bbot B \<le> ybot) \<and> prev = last_start bs \<and>
     (\<forall>x y. (x, y) \<in> pts (rects reg) \<longleftrightarrow> (x, y) \<in> F \<and> y < ybot) \<and> numRects reg < rsize reg"

lemma swept_bottoms: "swept reg bs ybot prev F \<Longrightarrow> \<forall>r\<in>set (rects reg). rbottom r \<le> ybot"
proof
  fix r
  assume sw: "swept reg bs ybot prev F" and r: "r \<in> set (rects reg)"
  obtain B where B: "B \<in> set bs" "r \<in> set B" using sw r by (auto simp: swept_def)
  have "is_band B" using sw B(1) by (auto simp: swept_def intro: stack_band)
  then show "rbottom r \<le> ybot" using band_rect [of B r] B sw by (simp add: swept_def)
qed

lemma swept_skip:
  assumes "swept reg bs y0 prev F" and "y0 \<le> b" and "\<And>x y. y0 \<le> y \<Longrightarrow> y < b \<Longrightarrow> (x, y) \<notin> F"
  shows "swept reg bs b prev F"
proof -
  have "(x, y) \<in> F \<and> y < y0 \<longleftrightarrow> (x, y) \<in> F \<and> y < b" for x y
    using assms(2) assms(3) [of y x] by (cases "y < y0") auto
  then show ?thesis using assms(1,2) unfolding swept_def by force
qed

lemma coalesce_if_added_same [simp]:
  "numRects reg = cur \<Longrightarrow> coalesce_if_added reg prev cur = (reg, prev)"
  by (simp add: coalesce_if_added_def)

lemma swept_emit:
  assumes sw: "swept reg bs y0 prev F" and ap: "appends reg reg' t b row"
    and y: "y0 \<le> t" "t < b"
    and row: "\<And>x y. t \<le> y \<Longrightarrow> y < b \<Longrightarrow> (x, y) \<in> F \<longleftrightarrow> row x"
    and gap: "\<And>x y. y0 \<le> y \<Longrightarrow> y < t \<Longrightarrow> (x, y) \<notin> F"
  shows "\<exists>reg'' prev'' bs''. coalesce_if_added reg' prev (numRects reg) = (reg'', prev'') \<and>
    swept reg'' bs'' b prev'' F"
proof -
  obtain out where rects': "rects reg' = rects reg @ out" and out: "xsorted out" "has_rows t b out" "\<And>x. inx out x = row x"
    using ap by (auto simp: appends_def)
  have room: "numRects reg' < rsize reg'" using ap sw by (simp add: appends_def swept_def)
  have sw_t: "swept reg bs t prev F" using sw y(1) gap by (rule swept_skip)
  show ?thesis
  proof (cases "out = []")
    case True
    then have "\<And>x. \<not> row x" using out(3) by simp
    then have "swept reg bs b prev F"
      using row y(2) by (intro swept_skip [OF sw_t]) simp_all
    moreover have "rects reg' = rects reg" using rects' True by simp
    ultimately have "swept reg' bs b prev F" using room by (auto simp: swept_def)
    moreover have "coalesce_if_added reg' prev (numRects reg) = (reg', prev)"
      using rects' True by (simp add: numRects_def)
    ultimately show ?thesis by blast
  next
    case False
    have C: "is_band out" by (rule is_bandI [OF False out(1) y(2) out(2)])
    have tb: "btop out = t" "bbot out = b" using has_rows_hd [OF out(2) False] by simp_all
    have st: "stack (bs @ [out])"
      using sw_t C tb by (auto simp: stack_append stack_Cons swept_def)
    have "rects reg' = concat bs @ out @ concat []" using sw rects' by (simp add: swept_def)
    from coalesce_rects [OF this, of] st obtain i where
      co: "REGION_Coalesce reg' (last_start bs) (length (concat bs)) =
        (reg'\<lparr>rects := concat (coalesce_stack bs out)\<rparr>, i)" "i = last_start (coalesce_stack bs out)"
      by auto
    let ?bs = "coalesce_stack bs out" and ?reg = "reg'\<lparr>rects := concat (coalesce_stack bs out)\<rparr>"
    have "coalesce_if_added reg' prev (numRects reg) = (?reg, last_start ?bs)"
      using co sw rects' False by (simp add: coalesce_if_added_def numRects_def swept_def)
    moreover have "swept ?reg ?bs b (last_start ?bs) F"
    proof -
      have "pts (concat ?bs) = pts (rects reg) \<union> pts out"
        using coalesce_stack_pts [OF st] sw by (simp add: swept_def)
      then have "(x, y) \<in> pts (concat ?bs) \<longleftrightarrow> (x, y) \<in> F \<and> y < b" for x y
        using sw_t pts_rows [OF out(2), of x y] row [of y x] out(3) y(2)
        by (cases "y < t") (auto simp: swept_def)
      moreover have "numRects ?reg < rsize ?reg"
        using room rects' coalesce_stack_length [of bs out] sw
        by (simp add: numRects_def swept_def)
      moreover have "tight ?bs"
        using coalesce_stack_tight [OF st] sw by (simp add: swept_def tight_def)
      moreover have "\<forall>B\<in>set bs. bbot B \<le> bbot out"
        using sw_t tb y(2) by (auto simp: swept_def)
      ultimately show ?thesis
        using coalesce_stack_stack [OF st] coalesce_stack_bottoms [OF st] tb
        by (simp add: swept_def)
    qed
    ultimately show ?thesis by blast
  qed
qed

lemma call_nonoverlap_emit:
  assumes sw: "swept reg bs y0 prev F" and y: "y0 \<le> t" "t \<le> b"
    and row: "\<And>x y. t \<le> y \<Longrightarrow> y < b \<Longrightarrow> (x, y) \<in> F \<longleftrightarrow> n \<noteq> None \<and> inx A x"
    and gap: "\<And>x y. y0 \<le> y \<Longrightarrow> y < t \<Longrightarrow> (x, y) \<notin> F"
    and ap: "\<And>f. n = Some f \<Longrightarrow> appends reg (f reg A t b) t b (inx A)"
  shows "\<exists>regB prevB bsB. coalesce_if_added (call_nonoverlap n reg A t b) prev (numRects reg) =
      (regB, prevB) \<and> swept regB bsB b prevB F"
proof (cases "n = None \<or> t = b")
  case True
  then have "swept reg bs b prev F"
    using row gap y by (intro swept_skip [OF sw]) (auto simp: not_le, meson linorder_not_le)
  moreover have "call_nonoverlap n reg A t b = reg"
    using True by (auto simp: call_nonoverlap_def split: option.splits)
  ultimately show ?thesis by (intro exI [of _ reg] exI [of _ prev] exI [of _ bs]) simp
next
  case False
  then obtain f where f: "n = Some f" and tb: "t < b" using y by auto
  have row': "(x, y) \<in> F \<longleftrightarrow> inx A x" if "t \<le> y" "y < b" for x y using row [OF that] f by simp
  show ?thesis
    using swept_emit [OF sw ap [OF f] y(1) tb row' gap] f tb by (simp add: call_nonoverlap_def)
qed

section \<open>The contract of the callbacks, and the sweep under it\<close>

locale band_sweep =
  fixes ov :: overlap_fn
    and n1 :: "nonoverlap_fn option"
    and n2 :: "nonoverlap_fn option"
    and P :: "bool \<Rightarrow> bool \<Rightarrow> bool"
  assumes P_outside: "\<not> P False False"
    and ov_appends: "xsorted b1 \<Longrightarrow> xsorted b2 \<Longrightarrow> b1 \<noteq> [] \<Longrightarrow> b2 \<noteq> [] \<Longrightarrow> t < b \<Longrightarrow>
      \<forall>r\<in>set (rects reg). rbottom r \<le> t \<Longrightarrow>
      appends reg (ov reg b1 b2 t b) t b (\<lambda>x. P (inx b1 x) (inx b2 x))"
    and n1_appends: "n1 = Some f \<Longrightarrow> xsorted b1 \<Longrightarrow> appends reg (f reg b1 t b) t b (inx b1)"
    and n1_row: "P u False \<longleftrightarrow> n1 \<noteq> None \<and> u"
    and n2_appends: "n2 = Some f \<Longrightarrow> xsorted b2 \<Longrightarrow> appends reg (f reg b2 t b) t b (inx b2)"
    and n2_row: "P False u \<longleftrightarrow> n2 \<noteq> None \<and> u"
begin

definition combined :: "MWRECT list \<Rightarrow> MWRECT list \<Rightarrow> (MWCOORD \<times> MWCOORD) set" where
  "combined R1 R2 = {p. P (p \<in> pts R1) (p \<in> pts R2)}"

lemma in_combined: "p \<in> combined R1 R2 \<longleftrightarrow> P (p \<in> pts R1) (p \<in> pts R2)"
  by (simp add: combined_def)

text \<open>What is still to be read of one input: the bands \<open>q\<close>, which agree with \<open>R\<close> from \<open>ybot\<close> on.\<close>

definition pending :: "MWRECT list list \<Rightarrow> MWRECT list \<Rightarrow> MWCOORD \<Rightarrow> bool" where
  "pending q R ybot \<longleftrightarrow> stack q \<and> tight q \<and> (\<forall>B\<in>set q. ybot < bbot B) \<and>
     (\<forall>x y. ybot \<le> y \<longrightarrow> ((x, y) \<in> pts (concat q) \<longleftrightarrow> (x, y) \<in> pts R))"

lemma pending_first_row:
  "pending (A # q) R ybot \<Longrightarrow> ybot \<le> y \<Longrightarrow> y < bbot A \<Longrightarrow> (x, y) \<in> pts R \<longleftrightarrow> btop A \<le> y \<and> inx A x"
  using stack_first_row [of A q y x] by (simp add: pending_def del: concat.simps)

lemma pending_advance:
  assumes "pending (A # q) R ybot" and "ybot \<le> y" and "y \<le> bbot A"
  shows "pending (if bbot A = y then q else A # q) R y"
    and "bbot A = y \<Longrightarrow> q \<noteq> [] \<Longrightarrow> y \<le> btop (hd q)"
proof -
  have st: "stack (A # q)" using assms(1) by (simp add: pending_def)
  have le: "\<forall>B\<in>set q. bbot A \<le> btop B \<and> btop B < bbot B"
    using st by (auto simp: stack_Cons intro: is_bandD stack_band)
  show "pending (if bbot A = y then q else A # q) R y"
  proof (cases "bbot A = y")
    case True
    have "\<forall>B\<in>set q. y < bbot B" using le True by force
    moreover have "(u, v) \<in> pts (concat q) \<longleftrightarrow> (u, v) \<in> pts R" if "y \<le> v" for u v
      using stack_other_rows [OF st, of u v] assms that True by (simp add: pending_def)
    ultimately show ?thesis using assms(1) True
      by (auto simp: pending_def stack_Cons tight_def adjacent_Cons)
  next
    case False
    have "\<forall>B\<in>set (A # q). y < bbot B" using le assms(3) False by force
    then show ?thesis using assms(1,2) False by (auto simp: pending_def)
  qed
  show "bbot A = y \<Longrightarrow> q \<noteq> [] \<Longrightarrow> y \<le> btop (hd q)" using le by auto
qed

definition sweep_inv ::
  "MWRECT list \<Rightarrow> MWRECT list \<Rightarrow> MWCLIPREGION \<Rightarrow> MWRECT list \<Rightarrow> MWRECT list \<Rightarrow> MWCOORD \<Rightarrow> nat \<Rightarrow> bool"
where
  "sweep_inv R1 R2 reg r1 r2 ybot prev \<longleftrightarrow>
     (\<exists>bs q1 q2. swept reg bs ybot prev (combined R1 R2) \<and> r1 = concat q1 \<and> r2 = concat q2 \<and>
        pending q1 R1 ybot \<and> pending q2 R2 ybot \<and>
        (q1 \<noteq> [] \<and> q2 \<noteq> [] \<longrightarrow> ybot \<le> btop (hd q1) \<or> ybot \<le> btop (hd q2)))"

lemma nonoverlap_step:
  assumes sw: "swept reg bs ybot prev (combined R1 R2)"
    and p1: "pending (A # q1) R1 ybot" and p2: "pending (B # q2) R2 ybot"
    and fr: "ybot \<le> btop A \<or> ybot \<le> btop B"
  shows "\<exists>regA regB prevB bsB.
      region_op_nonoverlap n1 n2 reg (concat (A # q1)) (concat (B # q2)) ybot =
        (regA, max (btop A) (btop B)) \<and>
      coalesce_if_added regA prev (numRects reg) = (regB, prevB) \<and>
      swept regB bsB (min (min (bbot A) (bbot B)) (max (btop A) (btop B))) prevB (combined R1 R2)"
proof -
  have A: "is_band A" and B: "is_band B" using p1 p2 by (auto simp: pending_def stack_Cons)
  have hds: "hd (A @ concat q1) = hd A" "hd (B @ concat q2) = hd B"
    using A B by (simp_all add: is_bandD)
  have bands: "band_of (A @ concat q1) = A" "band_of (B @ concat q2) = B"
    using band_of_stack(1) [of A q1] band_of_stack(1) [of B q2] p1 p2 by (simp_all add: pending_def)
  note less = is_bandD(3) [OF A] is_bandD(3) [OF B]
  have yA: "ybot < bbot A" and yB: "ybot < bbot B" using p1 p2 by (auto simp: pending_def)
  have F: "(x, y) \<in> combined R1 R2 \<longleftrightarrow> P (btop A \<le> y \<and> inx A x) (btop B \<le> y \<and> inx B x)"
    if "ybot \<le> y" "y < bbot A" "y < bbot B" for x y
    using pending_first_row [OF p1 that(1,2)] pending_first_row [OF p2 that(1,3)]
    by (simp add: in_combined)
  let ?m = "min (min (bbot A) (bbot B)) (max (btop A) (btop B))"
  consider (lt) "btop A < btop B" | (gt) "btop B < btop A" | (eq) "btop A = btop B" by linarith
  then show ?thesis
  proof cases
    case lt
    have m: "?m = min (bbot A) (btop B)" using lt less by simp
    have "\<exists>regB prevB bsB. coalesce_if_added (call_nonoverlap n1 reg A (max (btop A) ybot)
        (min (bbot A) (btop B))) prev (numRects reg) = (regB, prevB) \<and>
        swept regB bsB (min (bbot A) (btop B)) prevB (combined R1 R2)"
      using lt fr less yA F n1_appends [OF _ is_bandD(2) [OF A]]
      by (intro call_nonoverlap_emit [OF sw]) (auto simp: n1_row P_outside less_max_iff_disj)
    then show ?thesis using lt m by (simp add: region_op_nonoverlap_def hds bands)
  next
    case gt
    have m: "?m = min (bbot B) (btop A)" using gt less by simp
    have "\<exists>regB prevB bsB. coalesce_if_added (call_nonoverlap n2 reg B (max (btop B) ybot)
        (min (bbot B) (btop A))) prev (numRects reg) = (regB, prevB) \<and>
        swept regB bsB (min (bbot B) (btop A)) prevB (combined R1 R2)"
      using gt fr less yB F n2_appends [OF _ is_bandD(2) [OF B]]
      by (intro call_nonoverlap_emit [OF sw]) (auto simp: n2_row P_outside less_max_iff_disj)
    then show ?thesis using gt m by (simp add: region_op_nonoverlap_def hds bands)
  next
    case eq
    have m: "?m = btop A" using eq less by simp
    have "swept reg bs ?m prev (combined R1 R2)"
      using eq fr m less F by (intro swept_skip [OF sw]) (auto simp: P_outside)
    then show ?thesis using eq by (auto simp: region_op_nonoverlap_def hds)
  qed
qed

lemma overlap_step:
  assumes sw: "swept reg bs (min ybot1 ytop) prev (combined R1 R2)"
    and p1: "pending (A # q1) R1 ybot" and p2: "pending (B # q2) R2 ybot"
    and y: "ybot \<le> ytop" "ytop = max (btop A) (btop B)" "ybot1 = min (bbot A) (bbot B)"
  shows "\<exists>regD prevD bsD.
      coalesce_if_added (if ybot1 > ytop then ov reg A B ytop ybot1 else reg) prev (numRects reg) =
        (regD, prevD) \<and> swept regD bsD ybot1 prevD (combined R1 R2)"
proof (cases "ytop < ybot1")
  case True
  have A: "is_band A" and B: "is_band B" using p1 p2 by (auto simp: pending_def stack_Cons)
  have sw': "swept reg bs ytop prev (combined R1 R2)" using sw True by simp
  have "appends reg (ov reg A B ytop ybot1) ytop ybot1 (\<lambda>x. P (inx A x) (inx B x))"
    using True swept_bottoms [OF sw'] A B by (intro ov_appends) (simp_all add: is_bandD)
  moreover have "(x, v) \<in> combined R1 R2 \<longleftrightarrow> P (inx A x) (inx B x)" if "ytop \<le> v" "v < ybot1" for x v
    using pending_first_row [OF p1, of v x] pending_first_row [OF p2, of v x] that y
    by (simp add: in_combined)
  ultimately show ?thesis using swept_emit [OF sw', of _ ytop ybot1] True by auto
next
  case False
  then show ?thesis using sw by (intro exI [of _ reg] exI [of _ prev] exI [of _ bs]) simp
qed

lemma sweep_body:
  assumes inv: "sweep_inv R1 R2 reg r1 r2 ybot prev" and ne: "r1 \<noteq> []" "r2 \<noteq> []"
    and body: "region_op_body ov n1 n2 reg r1 r2 ybot prev = (reg', r1', r2', ybot', prev')"
  shows "sweep_inv R1 R2 reg' r1' r2' ybot' prev'"
proof -
  obtain bs q1 q2 where sw: "swept reg bs ybot prev (combined R1 R2)"
    and r: "r1 = concat q1" "r2 = concat q2" and p: "pending q1 R1 ybot" "pending q2 R2 ybot"
    and fr: "q1 \<noteq> [] \<and> q2 \<noteq> [] \<longrightarrow> ybot \<le> btop (hd q1) \<or> ybot \<le> btop (hd q2)"
    using inv by (auto simp: sweep_inv_def)
  obtain A q1' where q1: "q1 = A # q1'" using ne r by (cases q1) auto
  obtain B q2' where q2: "q2 = B # q2'" using ne r by (cases q2) auto
  note p1 = p(1) [unfolded q1] and p2 = p(2) [unfolded q2]
  have A: "is_band A" and B: "is_band B" using p1 p2 by (auto simp: pending_def stack_Cons)
  have hds: "hd r1 = hd A" "hd r2 = hd B" using A B r q1 q2 by (simp_all add: is_bandD)
  have bands: "band_of r1 = A" "band_of r2 = B" "after_band r1 = concat q1'" "after_band r2 = concat q2'"
    using band_of_stack [of A q1'] band_of_stack [of B q2'] p1 p2 r q1 q2 by (simp_all add: pending_def)
  define ytop where "ytop = max (btop A) (btop B)"
  define y1 where "y1 = min (bbot A) (bbot B)"
  have fr': "ybot \<le> btop A \<or> ybot \<le> btop B" using fr q1 q2 by simp
  then have yt: "ybot \<le> ytop" by (auto simp: ytop_def)
  have y1: "ybot \<le> y1" using p1 p2 by (auto simp: y1_def pending_def)
  obtain regA regB prevB bsB where A1: "region_op_nonoverlap n1 n2 reg r1 r2 ybot = (regA, ytop)"
    "coalesce_if_added regA prev (numRects reg) = (regB, prevB)"
    "swept regB bsB (min y1 ytop) prevB (combined R1 R2)"
    using nonoverlap_step [OF sw p1 p2 fr'] r q1 q2 by (auto simp: ytop_def y1_def)
  obtain regD prevD bsD where D1:
    "coalesce_if_added (if y1 > ytop then ov regB A B ytop y1 else regB) prevB (numRects regB) = (regD, prevD)"
    "swept regD bsD y1 prevD (combined R1 R2)"
    using overlap_step [OF A1(3) p1 p2 yt ytop_def y1_def] by blast
  let ?q1 = "if bbot A = y1 then q1' else A # q1'" and ?q2 = "if bbot B = y1 then q2' else B # q2'"
  have "region_op_body ov n1 n2 reg r1 r2 ybot prev =
      (regD, if bbot A = y1 then concat q1' else r1, if bbot B = y1 then concat q2' else r2, y1, prevD)"
    unfolding region_op_body_def Let_def hds bands y1_def [symmetric] A1(1) prod.case A1(2) D1(1) ..
  then have "(reg', r1', r2', ybot', prev') =
      (regD, if bbot A = y1 then concat q1' else r1, if bbot B = y1 then concat q2' else r2, y1, prevD)"
    unfolding body .
  then have res: "reg' = regD" "ybot' = y1" "prev' = prevD" "r1' = concat ?q1" "r2' = concat ?q2"
    using r(1) [unfolded q1] r(2) [unfolded q2] by (simp_all split: if_split)
  have yle: "y1 \<le> bbot A" "y1 \<le> bbot B" and ymin: "bbot A = y1 \<or> bbot B = y1"
    by (auto simp: y1_def)
  have "pending ?q1 R1 y1" "pending ?q2 R2 y1"
    by (rule pending_advance(1) [OF p1 y1 yle(1)], rule pending_advance(1) [OF p2 y1 yle(2)])
  moreover have "?q1 \<noteq> [] \<and> ?q2 \<noteq> [] \<longrightarrow> y1 \<le> btop (hd ?q1) \<or> y1 \<le> btop (hd ?q2)"
    using ymin pending_advance(2) [OF p1 y1 yle(1)] pending_advance(2) [OF p2 y1 yle(2)]
    by (cases "bbot A = y1") auto
  ultimately show ?thesis using D1(2) unfolding res sweep_inv_def by blast
qed

lemma sweep_loop:
  "sweep_inv R1 R2 reg r1 r2 ybot prev \<Longrightarrow>
   region_op_loop ov n1 n2 reg r1 r2 ybot prev = (reg', r1', r2', ybot', prev') \<Longrightarrow>
   sweep_inv R1 R2 reg' r1' r2' ybot' prev' \<and> (r1' = [] \<or> r2' = [])"
proof (induction "length r1 + length r2" arbitrary: reg r1 r2 ybot prev rule: less_induct)
  case less
  show ?case
  proof (cases "r1 \<noteq> [] \<and> r2 \<noteq> []")
    case True
    obtain regB s1 s2 yB prevB where
      body: "region_op_body ov n1 n2 reg r1 r2 ybot prev = (regB, s1, s2, yB, prevB)"
      by (cases "region_op_body ov n1 n2 reg r1 r2 ybot prev") auto
    have "region_op_loop ov n1 n2 regB s1 s2 yB prevB = (reg', r1', r2', ybot', prev')"
      using less.prems(2) True body region_op_loop.simps [of ov n1 n2 reg r1 r2 ybot prev] by simp
    moreover have "sweep_inv R1 R2 regB s1 s2 yB prevB"
      using sweep_body [OF less.prems(1) _ _ body] True by simp
    moreover have "length s1 + length s2 < length r1 + length r2"
      using region_op_body_shorter [OF body] True by simp
    ultimately show ?thesis using less.hyps by blast
  next
    case False
    then show ?thesis
      using less.prems region_op_loop.simps [of ov n1 n2 reg r1 r2 ybot prev] by auto
  qed
qed

end

section \<open>The tail of the sweep, and the whole operation\<close>

text \<open>The bands left over: the first one is clipped at \<open>ybot\<close>, the others are copied.\<close>

definition clip_top :: "MWCOORD \<Rightarrow> MWRECT list \<Rightarrow> MWRECT list" where
  "clip_top y A = map (\<lambda>r. r\<lparr>rtop := y\<rparr>) A"

lemma clip_top_band:
  assumes "is_band A" and "y < bbot A"
  shows "is_band (clip_top y A)" and "btop (clip_top y A) = y" and "bbot (clip_top y A) = bbot A"
    and "spans (clip_top y A) = spans A"
proof -
  show sp: "spans (clip_top y A) = spans A" by (simp add: clip_top_def spans_def)
  show tb: "btop (clip_top y A) = y" "bbot (clip_top y A) = bbot A"
    using is_bandD(1) [OF assms(1)] by (simp_all add: clip_top_def hd_map)
  show "is_band (clip_top y A)"
  proof (rule is_bandI [OF _ _ assms(2)])
    show "clip_top y A \<noteq> []" using is_bandD(1) [OF assms(1)] by (simp add: clip_top_def)
    show "xsorted (clip_top y A)" using is_bandD(2) [OF assms(1)] sp by (simp add: xsorted_spans)
    show "has_rows y (bbot A) (clip_top y A)"
      using band_rect [OF assms(1)] by (auto simp: has_rows_def clip_top_def)
  qed
qed

lemma appended_band:
  assumes "appends reg reg' t b (inx A)" and "is_band A" and "is_band C"
    and "btop C = t" "bbot C = b" "spans C = spans A"
  shows "rects reg' = rects reg @ C"
proof -
  obtain out where out: "rects reg' = rects reg @ out" "xsorted out" "has_rows t b out"
      "\<And>x. inx out x = inx A x"
    using assms(1) by (auto simp: appends_def)
  have sp: "spans out = spans A" using spans_unique [OF out(2) is_bandD(2) [OF assms(2)] out(4)] .
  have "out \<noteq> []" using sp is_bandD(1) [OF assms(2)] by (auto simp: spans_def)
  then have "is_band out" "btop out = t" "bbot out = b"
    using has_rows_hd [OF out(3)] is_bandI [OF _ out(2) _ out(3)] is_bandD(3) [OF assms(3)] assms(4,5)
    by auto
  then have "out = C" using band_unique [of out C] assms sp by simp
  then show ?thesis using out(1) by simp
qed

lemma rest_unfold:
  assumes "stack (A # q)"
  shows "region_op_rest f reg (concat (A # q)) y =
    region_op_rest f (f reg A (max (btop A) y) (bbot A)) (concat q) y"
proof -
  have A: "is_band A" using assms by (simp add: stack_Cons)
  have "hd (A @ concat q) = hd A" using A by (simp add: is_bandD)
  then show ?thesis
    using band_of_stack [OF assms] is_bandD(1) [OF A] region_op_rest.simps [of f reg "concat (A # q)" y]
    by simp
qed

lemma region_op_rest_Nil [simp]: "region_op_rest f reg [] y = reg"
  by (simp add: region_op_rest.simps)

definition copies_band :: "nonoverlap_fn \<Rightarrow> bool" where
  "copies_band f \<longleftrightarrow> (\<forall>reg b1 t b. xsorted b1 \<longrightarrow> appends reg (f reg b1 t b) t b (inx b1))"

lemma rest_copies:
  "copies_band f \<Longrightarrow> stack q \<Longrightarrow> \<forall>B\<in>set q. y \<le> btop B \<Longrightarrow>
   rects (region_op_rest f reg (concat q) y) = rects reg @ concat q \<and>
   (numRects reg < rsize reg \<longrightarrow>
    numRects (region_op_rest f reg (concat q) y) < rsize (region_op_rest f reg (concat q) y))"
proof (induction q arbitrary: reg)
  case (Cons B q)
  have B: "is_band B" using Cons.prems(2) by (simp add: stack_Cons)
  have max: "max (btop B) y = btop B" using Cons.prems(3) by simp
  let ?reg = "f reg B (btop B) (bbot B)"
  have ap: "appends reg ?reg (btop B) (bbot B) (inx B)"
    using Cons.prems(1) is_bandD(2) [OF B] by (simp add: copies_band_def)
  have "rects ?reg = rects reg @ B" by (rule appended_band [OF ap B B]) simp_all
  then show ?case
    using Cons.IH [of ?reg] Cons.prems ap max
    by (simp add: rest_unfold [OF Cons.prems(2), unfolded concat.simps] stack_Cons appends_def)
qed simp

lemma rest_clips_first:
  assumes "copies_band f" and "stack (A # q)" and "y < bbot A"
  shows "rects (region_op_rest f reg (concat (A # q)) y) =
      rects reg @ concat (clip_top (max (btop A) y) A # q)"
    and "numRects reg < rsize reg \<longrightarrow> numRects (region_op_rest f reg (concat (A # q)) y) <
      rsize (region_op_rest f reg (concat (A # q)) y)"
proof -
  have A: "is_band A" using assms(2) by (simp add: stack_Cons)
  let ?t = "max (btop A) y" and ?reg = "f reg A (max (btop A) y) (bbot A)"
  have t: "?t < bbot A" using is_bandD(3) [OF A] assms(3) by simp
  note clip = clip_top_band [OF A t]
  have ap: "appends reg ?reg ?t (bbot A) (inx A)"
    using assms(1) is_bandD(2) [OF A] by (simp add: copies_band_def)
  have first: "rects ?reg = rects reg @ clip_top ?t A" by (rule appended_band [OF ap A clip])
  have "stack q" "\<forall>B\<in>set q. y \<le> btop B" using assms(2,3) by (auto simp: stack_Cons)
  note rest = rest_copies [OF assms(1) this, of ?reg]
  show "rects (region_op_rest f reg (concat (A # q)) y) = rects reg @ concat (clip_top ?t A # q)"
    using rest first by (simp add: rest_unfold [OF assms(2), unfolded concat.simps])
  show "numRects reg < rsize reg \<longrightarrow> numRects (region_op_rest f reg (concat (A # q)) y) <
      rsize (region_op_rest f reg (concat (A # q)) y)"
    using rest ap by (simp add: rest_unfold [OF assms(2), unfolded concat.simps] appends_def)
qed

lemma clipped_stack:
  assumes "stack (A # q)" and "tight (A # q)" and "y < bbot A" and "t = max (btop A) y"
  shows "stack (clip_top t A # q)" and "tight (clip_top t A # q)"
    and "(x, v) \<in> pts (concat (clip_top t A # q)) \<longleftrightarrow> (x, v) \<in> pts (concat (A # q)) \<and> y \<le> v"
proof -
  have A: "is_band A" and le: "\<forall>C\<in>set q. bbot A \<le> btop C" and st: "stack q"
    using assms(1) by (auto simp: stack_Cons)
  have t: "t < bbot A" using is_bandD(3) [OF A] assms(3,4) by simp
  note clip = clip_top_band [OF A t]
  show "stack (clip_top t A # q)" using clip le st by (simp add: stack_Cons)
  show "tight (clip_top t A # q)"
    using assms(2) clip by (auto simp: tight_def adjacent_Cons mergeable_def)
  have "(x, v) \<in> pts (clip_top t A) \<longleftrightarrow> (x, v) \<in> pts A \<and> y \<le> v"
    using pts_band [OF clip(1), of x v] pts_band [OF A, of x v] clip inx_spans_cong [OF clip(4), of x]
      assms(4) by auto
  moreover have "y \<le> v" if "(x, v) \<in> pts (concat q)"
    using pts_stack_above [OF st that] le assms(3) by force
  ultimately show "(x, v) \<in> pts (concat (clip_top t A # q)) \<longleftrightarrow>
      (x, v) \<in> pts (concat (A # q)) \<and> y \<le> v" by auto
qed

lemma shrink_region_rects [simp]: "rects (shrink_region reg) = rects reg"
  by (simp add: shrink_region_def)

lemma shrink_region_size:
  "numRects reg < rsize reg \<Longrightarrow>
   numRects (shrink_region reg) \<le> rsize (shrink_region reg) \<and> 0 < rsize (shrink_region reg)"
  by (auto simp: shrink_region_def numRects_def)

text \<open>The result of an operation: canonical, with the given points, and inside its array.\<close>

definition op_result :: "MWCLIPREGION \<Rightarrow> (MWCOORD \<times> MWCOORD) set \<Rightarrow> bool" where
  "op_result reg F \<longleftrightarrow> canonical (rects reg) \<and> pts (rects reg) = F \<and>
     numRects reg \<le> rsize reg \<and> 0 < rsize reg"

lemma op_result_no_rest:
  assumes sw: "swept reg bs y prev F" and out: "\<And>x v. y \<le> v \<Longrightarrow> (x, v) \<notin> F"
  shows "op_result (shrink_region (fst (coalesce_if_added reg prev (numRects reg)))) F"
proof -
  have "(x, v) \<in> pts (rects reg) \<longleftrightarrow> (x, v) \<in> F" for x v
    using sw out [of v x] by (cases "v < y") (auto simp: swept_def)
  then have "pts (rects reg) = F" by auto
  moreover have "canonical (rects reg)" using sw by (simp add: swept_def canonical_concat)
  ultimately show ?thesis using sw shrink_region_size [of reg] by (simp add: op_result_def swept_def)
qed

lemma op_result_rest:
  assumes sw: "swept reg bs y prev F" and f: "copies_band f"
    and q: "stack (A # q)" "tight (A # q)" "y < bbot A"
    and F: "\<And>x v. y \<le> v \<Longrightarrow> (x, v) \<in> F \<longleftrightarrow> (x, v) \<in> pts (concat (A # q))"
    and reg': "reg' = region_op_rest f reg (concat (A # q)) y"
  shows "op_result (shrink_region (fst (coalesce_if_added reg' prev (numRects reg)))) F"
proof -
  define t where "t = max (btop A) y"
  let ?C = "clip_top t A"
  note clip = clipped_stack [OF q t_def]
  have A: "is_band A" using q(1) by (simp add: stack_Cons)
  have tb: "t < bbot A" using q(3) is_bandD(3) [OF A] by (simp add: t_def)
  note C = clip_top_band [OF A tb]
  have rects': "rects reg' = concat bs @ ?C @ concat q"
    using rest_clips_first(1) [OF f q(1,3), of reg] sw by (simp add: reg' t_def swept_def)
  have "\<forall>B\<in>set bs. bbot B \<le> y" using sw by (simp add: swept_def)
  moreover have "\<forall>B\<in>set q. y \<le> btop B" using q(1,3) by (auto simp: stack_Cons)
  ultimately have "\<forall>B\<in>set bs. \<forall>B'\<in>set (?C # q). bbot B \<le> btop B'"
    using C(2) by (auto simp: t_def intro: order_trans)
  then have st: "stack (bs @ ?C # q)" using sw clip(1) by (simp add: stack_append swept_def)
  obtain i where co: "REGION_Coalesce reg' (last_start bs) (length (concat bs)) =
      (reg'\<lparr>rects := concat (coalesce_stack bs ?C @ q)\<rparr>, i)"
    using coalesce_rects [OF rects' st] by blast
  let ?reg = "reg'\<lparr>rects := concat (coalesce_stack bs ?C @ q)\<rparr>"
  have "numRects reg' \<noteq> numRects reg"
    using rects' sw is_bandD(1) [OF C(1)] by (simp add: numRects_def swept_def)
  then have co': "fst (coalesce_if_added reg' prev (numRects reg)) = ?reg"
    using co sw by (simp add: coalesce_if_added_def swept_def numRects_def)
  have "canonical (rects ?reg)"
    using coalesce_stack_stack [OF st] coalesce_stack_tight [OF st _ clip(2)] sw
      canonical_concat [of "coalesce_stack bs ?C @ q"] by (simp add: swept_def)
  moreover have "(x, v) \<in> pts (rects ?reg) \<longleftrightarrow> (x, v) \<in> F" for x v
    using coalesce_stack_pts [OF st] clip(3) [of x v] F [of v x] sw
    by (cases "v < y") (auto simp: swept_def)
  then have "pts (rects ?reg) = F" by auto
  moreover have "numRects reg < rsize reg" "rects reg = concat bs" using sw by (simp_all add: swept_def)
  then have "numRects ?reg < rsize ?reg"
    using rest_clips_first(2) [OF f q(1,3), of reg] coalesce_stack_length [of bs ?C] rects'
    by (simp add: reg' numRects_def)
  ultimately show ?thesis using shrink_region_size [of ?reg] by (simp add: co' op_result_def)
qed

context band_sweep
begin

lemma n1_copies: "n1 = Some f \<Longrightarrow> copies_band f" and n2_copies: "n2 = Some f \<Longrightarrow> copies_band f"
  by (simp_all add: copies_band_def n1_appends n2_appends)

lemma op_result_left1:
  assumes sw: "swept reg bs y prev (combined R1 R2)" and p1: "pending (A # q) R1 y" and p2: "pending [] R2 y"
  shows "op_result (shrink_region (fst (coalesce_if_added
    (case n1 of None \<Rightarrow> reg | Some f \<Rightarrow> region_op_rest f reg (concat (A # q)) y) prev (numRects reg))))
    (combined R1 R2)"
proof (cases n1)
  case None
  have "(x, v) \<notin> combined R1 R2" if "y \<le> v" for x v
    using p2 that None by (simp add: in_combined pending_def n1_row)
  then show ?thesis using op_result_no_rest [OF sw] None by simp
next
  case (Some f)
  have "(x, v) \<in> combined R1 R2 \<longleftrightarrow> (x, v) \<in> pts (concat (A # q))" if "y \<le> v" for x v
    using p1 p2 that Some by (simp add: in_combined pending_def n1_row)
  then show ?thesis
    using op_result_rest [OF sw n1_copies [OF Some] _ _ _ _ refl] p1 Some by (simp add: pending_def)
qed

lemma op_result_left2:
  assumes sw: "swept reg bs y prev (combined R1 R2)" and p1: "pending [] R1 y" and p2: "pending (A # q) R2 y"
  shows "op_result (shrink_region (fst (coalesce_if_added
    (case n2 of None \<Rightarrow> reg | Some f \<Rightarrow> region_op_rest f reg (concat (A # q)) y) prev (numRects reg))))
    (combined R1 R2)"
proof (cases n2)
  case None
  have "(x, v) \<notin> combined R1 R2" if "y \<le> v" for x v
    using p1 that None by (simp add: in_combined pending_def n2_row)
  then show ?thesis using op_result_no_rest [OF sw] None by simp
next
  case (Some f)
  have "(x, v) \<in> combined R1 R2 \<longleftrightarrow> (x, v) \<in> pts (concat (A # q))" if "y \<le> v" for x v
    using p1 p2 that Some by (simp add: in_combined pending_def n2_row)
  then show ?thesis
    using op_result_rest [OF sw n2_copies [OF Some] _ _ _ _ refl] p2 Some by (simp add: pending_def)
qed

lemma sweep_start:
  assumes "canonical R1" "canonical R2" "R1 \<noteq> []" "R2 \<noteq> []" and "rects reg = []" "0 < rsize reg"
    and y: "ybot = min (rtop (hd R1)) (rtop (hd R2))"
  shows "sweep_inv R1 R2 reg R1 R2 ybot 0"
proof -
  obtain q1 where q1: "R1 = concat q1" "stack q1" "tight q1" by (rule canonicalE [OF assms(1)])
  obtain q2 where q2: "R2 = concat q2" "stack q2" "tight q2" by (rule canonicalE [OF assms(2)])
  have pend: "pending q R ybot \<and> q \<noteq> [] \<and> btop (hd q) = rtop (hd R)"
    if q: "R = concat q" "stack q" "tight q" and ne: "R \<noteq> []" and le: "ybot \<le> rtop (hd R)" for q R
  proof -
    obtain A q' where A: "q = A # q'" using q(1) ne by (cases q) auto
    have band: "is_band A" and below: "\<forall>C\<in>set q'. bbot A \<le> btop C" using q(2) A by (auto simp: stack_Cons)
    have hd: "hd R = hd A" using q(1) A is_bandD(1) [OF band] by simp
    have "\<forall>B\<in>set q. ybot < bbot B"
      using A below le hd is_bandD(3) [OF band] q(2)
      by (fastforce dest: stack_band is_bandD(3))
    then show ?thesis using q A hd by (simp add: pending_def)
  qed
  have "(x, v) \<notin> pts R"
    if R: "R = concat q" "stack q" "R \<noteq> []" and v: "v < rtop (hd R)" for R q x v
  proof
    assume "(x, v) \<in> pts R"
    then obtain B where B: "B \<in> set q" "btop B \<le> v" using pts_stack_above R(1,2) by blast
    obtain A q' where A: "q = A # q'" using R(1,3) by (cases q) auto
    then have "is_band A" "\<forall>C\<in>set q'. bbot A \<le> btop C" using R(2) by (auto simp: stack_Cons)
    then have "btop A \<le> btop B" "rtop (hd R) = btop A"
      using A B(1) R(1) is_bandD(3) [of A] is_bandD(1) [of A] by fastforce+
    then show False using B(2) v by simp
  qed
  note outside = this
  have "(x, v) \<notin> combined R1 R2" if "v < ybot" for x v
    using outside [OF q1(1,2) assms(3), of v x] outside [OF q2(1,2) assms(4), of v x] that y
    by (simp add: in_combined P_outside)
  then have "swept reg [] ybot 0 (combined R1 R2)"
    using assms(5,6) by (auto simp: swept_def tight_def last_start_def numRects_def)
  moreover have "ybot = rtop (hd R1) \<or> ybot = rtop (hd R2)" using y by linarith
  ultimately show ?thesis
    using pend [OF q1 assms(3)] pend [OF q2 assms(4)] q1 q2 y
    unfolding sweep_inv_def by (intro exI [of _ "[]"] exI [of _ q1] exI [of _ q2]) auto
qed

theorem region_op_result:
  assumes can: "canonical (rects (h p1))" "canonical (rects (h p2))"
    and ne: "rects (h p1) \<noteq> []" "rects (h p2) \<noteq> []"
    and ext: "rtop (extents (h p1)) = rtop (hd (rects (h p1)))" "rtop (extents (h p2)) = rtop (hd (rects (h p2)))"
    and na: "\<not> (p = p1 \<and> p = p2)"
  shows "op_result (REGION_RegionOp h p p1 p2 ov n1 n2) (combined (rects (h p1)) (rects (h p2)))"
proof -
  let ?reg1 = "h p1" and ?reg2 = "h p2" and ?h0 = "h(p := (h p)\<lparr>rects := []\<rparr>)"
  let ?reg0 = "(?h0 p)\<lparr>rsize := max (numRects (?h0 p1)) (numRects (?h0 p2)) * 2\<rparr>"
  let ?y = "if rtop (extents ?reg1) < rtop (extents ?reg2) then rtop (extents ?reg1) else rtop (extents ?reg2)"
  obtain reg r1 r2 ybot prev where
    loop: "region_op_loop ov n1 n2 ?reg0 (rects ?reg1) (rects ?reg2) ?y 0 = (reg, r1, r2, ybot, prev)"
    by (cases "region_op_loop ov n1 n2 ?reg0 (rects ?reg1) (rects ?reg2) ?y 0") auto
  have "0 < numRects (?h0 p1) \<or> 0 < numRects (?h0 p2)" using ne na by (auto simp: numRects_def)
  then have size: "0 < rsize ?reg0" by auto
  have "sweep_inv (rects ?reg1) (rects ?reg2) ?reg0 (rects ?reg1) (rects ?reg2) ?y 0"
    by (rule sweep_start [OF can ne _ size]) (use ext in simp_all)
  then have "sweep_inv (rects ?reg1) (rects ?reg2) reg r1 r2 ybot prev" and fin: "r1 = [] \<or> r2 = []"
    using sweep_loop loop by blast+
  then obtain bs q1 q2 where sw: "swept reg bs ybot prev (combined (rects ?reg1) (rects ?reg2))"
    and r: "r1 = concat q1" "r2 = concat q2"
    and p: "pending q1 (rects ?reg1) ybot" "pending q2 (rects ?reg2) ybot"
    by (auto simp: sweep_inv_def)
  have nil: "concat q = [] \<longleftrightarrow> q = []" if "pending q R ybot" for q R
    using that by (cases q) (auto simp: pending_def stack_Cons is_bandD)
  let ?regE = "if r1 \<noteq> [] then (case n1 of None \<Rightarrow> reg | Some f \<Rightarrow> region_op_rest f reg r1 ybot)
    else if r2 \<noteq> [] then (case n2 of None \<Rightarrow> reg | Some f \<Rightarrow> region_op_rest f reg r2 ybot) else reg"
  have op: "REGION_RegionOp h p p1 p2 ov n1 n2 =
      shrink_region (fst (coalesce_if_added ?regE prev (numRects reg)))"
    unfolding REGION_RegionOp_def Let_def loop prod.case ..
  show ?thesis
  proof (cases q1)
    case (Cons A q)
    then have q2: "q2 = []" and r1: "r1 \<noteq> []" using fin r nil [OF p(1)] nil [OF p(2)] by auto
    have r1_eq: "concat (A # q) = r1" using r(1) Cons by simp
    show ?thesis
      unfolding op using op_result_left1 [OF sw p(1) [unfolded Cons] p(2) [unfolded q2]] r1
      unfolding r1_eq by simp
  next
    case Nil
    note q1 = this
    show ?thesis
    proof (cases q2)
      case (Cons A q)
      then have ne2: "r2 \<noteq> []" "r1 = []" using r q1 nil [OF p(2)] by auto
      have r2_eq: "concat (A # q) = r2" using r(2) Cons by simp
      show ?thesis
        unfolding op using op_result_left2 [OF sw p(1) [unfolded q1] p(2) [unfolded Cons]] ne2
        unfolding r2_eq by simp
    next
      case Nil
      have "(x, v) \<notin> combined (rects ?reg1) (rects ?reg2)" if "ybot \<le> v" for x v
        using p that q1 Nil by (simp add: in_combined pending_def P_outside)
      then show ?thesis unfolding op using op_result_no_rest [OF sw] r q1 Nil by simp
    qed
  qed
qed

end

end
