(* ===== verification/Rgn_Callbacks.thy ===== *)
theory Rgn_Callbacks
  imports Rgn_Sweep
begin

text \<open>
  The band functions of the three operations (\<open>REGION_IntersectO\<close>, \<open>REGION_UnionO\<close>,
  \<open>REGION_UnionNonO\<close>, \<open>REGION_SubtractO\<close>, \<open>REGION_SubtractNonO1\<close>) satisfy the contract
  \<open>band_sweep\<close>, with conjunction, disjunction and "and not".
\<close>

section \<open>Building blocks of the contract\<close>

lemma room_add_rect:
  "numRects reg < rsize reg \<Longrightarrow> numRects (add_rect reg l t r b) < rsize (add_rect reg l t r b)"
  by (auto simp: add_rect_def MEMCHECK_def numRects_def Let_def)

lemma rects_add_rect [simp]: "rects (add_rect reg l t r b) = rects reg @ [mkrect l t r b]"
  by (auto simp: add_rect_def MEMCHECK_def Let_def)

lemma mkrect_simps [simp]:
  "rleft (mkrect l t r b) = l" "rtop (mkrect l t r b) = t" "rright (mkrect l t r b) = r"
  "rbottom (mkrect l t r b) = b"
  by (simp_all add: mkrect_def)

lemma appends_refl: "appends reg reg t b (\<lambda>x. False)"
  by (auto simp: appends_def has_rows_def intro: exI [of _ "[]"])

lemma appends_add: "l < r \<Longrightarrow> appends reg (add_rect reg l t r b) t b (\<lambda>x. l \<le> x \<and> x < r)"
  using room_add_rect [of reg] by (auto simp: appends_def has_rows_def)

lemma appends_trans:
  assumes "appends reg reg1 t b row1" and "appends reg1 reg2 t b row2"
    and sep: "\<And>x x'. row1 x \<Longrightarrow> row2 x' \<Longrightarrow> x + 1 < x'"
  shows "appends reg reg2 t b (\<lambda>x. row1 x \<or> row2 x)"
proof -
  obtain o1 where o1: "rects reg1 = rects reg @ o1" "xsorted o1" "has_rows t b o1" "\<And>x. inx o1 x = row1 x"
    using assms(1) by (auto simp: appends_def)
  obtain o2 where o2: "rects reg2 = rects reg1 @ o2" "xsorted o2" "has_rows t b o2" "\<And>x. inx o2 x = row2 x"
    using assms(2) by (auto simp: appends_def)
  have "rright p < rleft q" if pq: "p \<in> set o1" "q \<in> set o2" for p q
  proof -
    have "rleft p < rright p" "rleft q < rright q" using o1(2) o2(2) pq by (auto simp: xsorted_def)
    then have "inx o1 (rright p - 1)" "inx o2 (rleft q)" using pq by (auto simp: inx_def)
    then show ?thesis using sep [of "rright p - 1" "rleft q"] o1(4) o2(4) by simp
  qed
  then have "xsorted (o1 @ o2)" using o1(2) o2(2) by (simp add: xsorted_append)
  moreover have "has_rows t b (o1 @ o2)" using o1(3) o2(3) by (auto simp: has_rows_def)
  moreover have "\<forall>x. inx (o1 @ o2) x = (row1 x \<or> row2 x)" using o1(4) o2(4) by simp
  moreover have "rects reg2 = rects reg @ (o1 @ o2)" using o1(1) o2(1) by simp
  ultimately show ?thesis using assms(1,2) unfolding appends_def by blast
qed

lemma appends_cong:
  "appends reg reg' t b row \<Longrightarrow> (\<And>x. row x = row' x) \<Longrightarrow> appends reg reg' t b row'"
  by (simp add: appends_def)

section \<open>The functions for bands of one region\<close>

lemma UnionNonO_appends: "xsorted rs \<Longrightarrow> appends reg (REGION_UnionNonO reg rs t b) t b (inx rs)"
proof (induction rs arbitrary: reg)
  case Nil
  then show ?case using appends_refl by (simp add: inx_def [abs_def])
next
  case (Cons r rs)
  have "appends reg (add_rect reg (rleft r) t (rright r) b) t b (\<lambda>x. rleft r \<le> x \<and> x < rright r)"
    using Cons.prems by (intro appends_add) simp
  moreover have "appends (add_rect reg (rleft r) t (rright r) b) (REGION_UnionNonO reg (r # rs) t b) t b (inx rs)"
    using Cons by simp
  ultimately have "appends reg (REGION_UnionNonO reg (r # rs) t b) t b
      (\<lambda>x. (rleft r \<le> x \<and> x < rright r) \<or> inx rs x)"
    by (rule appends_trans) (use xsorted_inx_right [OF Cons.prems] in fastforce)
  then show ?case by (rule appends_cong) simp
qed

lemma SubtractNonO1_eq: "REGION_SubtractNonO1 reg rs t b = REGION_UnionNonO reg rs t b"
  by (induction rs arbitrary: reg) auto

section \<open>Intersection\<close>

lemma IntersectO_appends:
  "xsorted as \<Longrightarrow> xsorted bs \<Longrightarrow>
   appends reg (REGION_IntersectO reg as bs t bo) t bo (\<lambda>x. inx as x \<and> inx bs x)"
proof (induction reg as bs t bo rule: REGION_IntersectO.induct)
  case (1 reg a as b bs t bo)
  let ?l = "max (rleft a) (rleft b)" and ?r = "min (rright a) (rright b)"
  let ?reg = "if ?l < ?r then add_rect reg ?l t ?r bo else reg"
  have add: "appends reg ?reg t bo (\<lambda>x. ?l \<le> x \<and> x < ?r)"
    using appends_add [of ?l ?r reg t bo] appends_refl [of reg t bo] by (auto elim: appends_cong)
  have A: "\<And>x. inx as x \<Longrightarrow> rright a < x" by (rule xsorted_inx_right [OF "1.prems"(1)])
  have B: "\<And>x. inx bs x \<Longrightarrow> rright b < x" by (rule xsorted_inx_right [OF "1.prems"(2)])
  consider (lt) "rright a < rright b" | (gt) "rright b < rright a" | (eq) "rright a = rright b" by linarith
  then show ?case
  proof cases
    case lt
    then have "appends ?reg (REGION_IntersectO ?reg as (b # bs) t bo) t bo (\<lambda>x. inx as x \<and> inx (b # bs) x)"
      using 1 by (simp add: Let_def)
    from appends_trans [OF add this] show ?thesis
      using lt A B by (fastforce simp: Let_def elim!: appends_cong)
  next
    case gt
    then have "appends ?reg (REGION_IntersectO ?reg (a # as) bs t bo) t bo (\<lambda>x. inx (a # as) x \<and> inx bs x)"
      using 1 by (simp add: Let_def)
    from appends_trans [OF add this] show ?thesis
      using gt A B by (fastforce simp: Let_def elim!: appends_cong)
  next
    case eq
    then have "appends ?reg (REGION_IntersectO ?reg as bs t bo) t bo (\<lambda>x. inx as x \<and> inx bs x)"
      using 1 by (simp add: Let_def)
    from appends_trans [OF add this] show ?thesis
      using eq A B by (fastforce simp: Let_def elim!: appends_cong)
  qed
qed (auto intro: appends_cong [OF appends_refl])

interpretation inter: band_sweep REGION_IntersectO None None "\<lambda>u v. u \<and> v"
  by unfold_locales (auto intro: IntersectO_appends)

section \<open>Difference\<close>

text \<open>The row of a band of the minuend whose first rectangle is used up to \<open>left\<close>.\<close>

definition row_from :: "MWRECT list \<Rightarrow> MWCOORD \<Rightarrow> MWCOORD \<Rightarrow> bool" where
  "row_from r1 left x = (case r1 of [] \<Rightarrow> False | a # as \<Rightarrow> (left \<le> x \<and> x < rright a) \<or> inx as x)"

definition left_ok :: "MWRECT list \<Rightarrow> MWCOORD \<Rightarrow> bool" where
  "left_ok r1 left = (case r1 of [] \<Rightarrow> True | a # as \<Rightarrow> rleft a \<le> left \<and> left < rright a)"

lemma row_from_simps [simp]:
  "row_from [] left x = False"
  "row_from (a # as) left x = ((left \<le> x \<and> x < rright a) \<or> inx as x)"
  by (simp_all add: row_from_def)

lemma left_ok_simps [simp]:
  "left_ok [] left" "left_ok (a # as) left = (rleft a \<le> left \<and> left < rright a)"
  by (simp_all add: left_ok_def)

lemma row_from_next: "row_from as (if as \<noteq> [] then rleft (hd as) else left) x = inx as x"
  by (cases as) auto

lemma left_ok_next: "xsorted as \<Longrightarrow> left_ok as (if as \<noteq> [] then rleft (hd as) else left)"
  by (cases as) auto

lemma subtract_rest_appends:
  "xsorted r1 \<Longrightarrow> left_ok r1 left \<Longrightarrow>
   appends reg (subtract_rest reg r1 left t bo) t bo (row_from r1 left)"
proof (induction reg r1 left t bo rule: subtract_rest.induct)
  case (1 reg left t bo)
  then show ?case using appends_refl by (simp add: row_from_def)
next
  case (2 reg a as left t bo)
  let ?left = "if as \<noteq> [] then rleft (hd as) else left"
  have "appends reg (add_rect reg left t (rright a) bo) t bo (\<lambda>x. left \<le> x \<and> x < rright a)"
    using "2.prems" by (intro appends_add) simp
  moreover have "appends (add_rect reg left t (rright a) bo) (subtract_rest reg (a # as) left t bo) t bo
      (row_from as ?left)"
    using 2 left_ok_next [of as left] by simp
  ultimately have "appends reg (subtract_rest reg (a # as) left t bo) t bo
      (\<lambda>x. (left \<le> x \<and> x < rright a) \<or> row_from as ?left x)"
    by (rule appends_trans)
      (use xsorted_inx_right [OF "2.prems"(1)] in \<open>fastforce simp only: row_from_next\<close>)
  then show ?case by (rule appends_cong) (simp only: row_from_next row_from_simps)
qed

definition subtract_all ::
  "MWCOORD \<Rightarrow> MWCLIPREGION \<Rightarrow> MWRECT list \<Rightarrow> MWRECT list \<Rightarrow> MWCOORD \<Rightarrow> MWCOORD \<Rightarrow> MWCOORD \<Rightarrow> MWCLIPREGION"
where
  "subtract_all beyond reg r1 r2 left t bo =
    (case subtract_scan beyond reg r1 r2 left t bo of
       (reg1, r1', left') \<Rightarrow> subtract_rest reg1 r1' left' t bo)"

text \<open>One unfolding of the scan, with the two loops taken together.\<close>

lemma subtract_all_step:
  "subtract_all beyond reg (a # as) (b # bs) left t bo =
    (let next = \<lambda>d. if as \<noteq> [] then rleft (hd as) else d in
     if rright b \<le> left then subtract_all beyond reg (a # as) bs left t bo
     else if rleft b \<le> left then
       (if rright b \<ge> rright a then subtract_all beyond reg as (b # bs) (next (rright b)) t bo
        else subtract_all beyond reg (a # as) bs (rright b) t bo)
     else if rleft b < rright a then
       (if rright b \<ge> rright a
        then subtract_all beyond (add_rect reg left t (rleft b) bo) as (b # bs) (next (rright b)) t bo
        else subtract_all beyond (add_rect reg left t (rleft b) bo) (a # as) bs (rright b) t bo)
     else subtract_all beyond (if rright a > left then add_rect reg left t (rright a) bo else reg)
            as (b # bs) (next beyond) t bo)"
  by (simp add: subtract_all_def Let_def)

lemma subtract_all_Nil:
  "subtract_all beyond reg [] r2 left t bo = reg"
  "subtract_all beyond reg r1 [] left t bo = subtract_rest reg r1 left t bo"
  by (cases r1; simp add: subtract_all_def)+

lemma subtract_all_appends:
  "xsorted r1 \<Longrightarrow> xsorted r2 \<Longrightarrow> left_ok r1 left \<Longrightarrow>
   appends reg (subtract_all beyond reg r1 r2 left t bo) t bo (\<lambda>x. row_from r1 left x \<and> \<not> inx r2 x)"
proof (induction "length r1 + length r2" arbitrary: reg r1 r2 left rule: less_induct)
  case less
  show ?case
  proof (cases r1)
    case Nil
    then show ?thesis using appends_refl by (simp add: subtract_all_Nil)
  next
    case (Cons a as)
    note r1 = this
    show ?thesis
    proof (cases r2)
      case Nil
      then show ?thesis
        using subtract_rest_appends [OF less.prems(1,3)] by (auto simp: subtract_all_Nil elim: appends_cong)
    next
      case (Cons b bs)
      note r2 = this
      have A: "\<And>x. inx as x \<Longrightarrow> rright a < x"
        by (rule xsorted_inx_right [OF less.prems(1) [unfolded r1]])
      have B: "\<And>x. inx bs x \<Longrightarrow> rright b < x"
        by (rule xsorted_inx_right [OF less.prems(2) [unfolded r2]])
      have xs: "xsorted as" "xsorted bs" "xsorted (a # as)" "xsorted (b # bs)"
        and ab: "rleft a < rright a" "rleft b < rright b" "rleft a \<le> left" "left < rright a"
        using less.prems r1 r2 by simp_all
      have drop_a: "appends g (subtract_all beyond g as (b # bs) (if as \<noteq> [] then rleft (hd as) else d) t bo)
          t bo (\<lambda>x. inx as x \<and> \<not> inx (b # bs) x)" for g d
        using less.hyps [of as "b # bs" "if as \<noteq> [] then rleft (hd as) else d" g] r1 r2 xs
          left_ok_next [OF xs(1), of d] by (simp only: row_from_next) simp
      have drop_b: "appends g (subtract_all beyond g (a # as) bs d t bo) t bo
          (\<lambda>x. row_from (a # as) d x \<and> \<not> inx bs x)" if "rleft a \<le> d" "d < rright a" for g d
        using less.hyps [of "a # as" bs d g] r1 r2 xs that by simp
      consider (skip) "rright b \<le> left"
        | (gone) "left < rright b" "rleft b \<le> left" "rright a \<le> rright b"
        | (cut) "left < rright b" "rleft b \<le> left" "rright b < rright a"
        | (tail) "left < rleft b" "rleft b < rright a" "rright a \<le> rright b"
        | (mid) "left < rleft b" "rleft b < rright a" "rright b < rright a"
        | (clear) "rright a \<le> rleft b"
        using ab by linarith
      then show ?thesis
      proof cases
        case skip
        then show ?thesis
          unfolding r1 r2 subtract_all_step
          using drop_b [of left reg] ab A by (fastforce elim!: appends_cong)
      next
        case gone
        then show ?thesis
          unfolding r1 r2 subtract_all_step
          using drop_a [of reg "rright b"] ab A by (fastforce elim!: appends_cong)
      next
        case cut
        then show ?thesis
          unfolding r1 r2 subtract_all_step
          using drop_b [of "rright b" reg] ab A by (fastforce elim!: appends_cong)
      next
        case tail
        have "appends reg (subtract_all beyond (add_rect reg left t (rleft b) bo) as (b # bs)
            (if as \<noteq> [] then rleft (hd as) else rright b) t bo) t bo
            (\<lambda>x. (left \<le> x \<and> x < rleft b) \<or> (inx as x \<and> \<not> inx (b # bs) x))"
          by (rule appends_trans [OF appends_add [OF tail(1)] drop_a]) (use A tail in fastforce)
        then show ?thesis
          unfolding r1 r2 subtract_all_step
          using tail ab A B by (fastforce elim!: appends_cong)
      next
        case mid
        have "appends reg (subtract_all beyond (add_rect reg left t (rleft b) bo) (a # as) bs (rright b) t bo)
            t bo (\<lambda>x. (left \<le> x \<and> x < rleft b) \<or> (row_from (a # as) (rright b) x \<and> \<not> inx bs x))"
          by (rule appends_trans [OF appends_add [OF mid(1)] drop_b]) (use A ab mid in fastforce)+
        then show ?thesis
          unfolding r1 r2 subtract_all_step
          using mid ab A B by (fastforce elim!: appends_cong)
      next
        case clear
        have "appends reg (subtract_all beyond (add_rect reg left t (rright a) bo) as (b # bs)
            (if as \<noteq> [] then rleft (hd as) else beyond) t bo) t bo
            (\<lambda>x. (left \<le> x \<and> x < rright a) \<or> (inx as x \<and> \<not> inx (b # bs) x))"
          by (rule appends_trans [OF appends_add [OF ab(4)] drop_a]) (use A in fastforce)
        then show ?thesis
          unfolding r1 r2 subtract_all_step
          using clear ab A B by (fastforce elim!: appends_cong)
      qed
    qed
  qed
qed

lemma SubtractO_appends:
  assumes "xsorted r1" and "xsorted r2" and "r1 \<noteq> []"
  shows "appends reg (REGION_SubtractO beyond reg r1 r2 t bo) t bo (\<lambda>x. inx r1 x \<and> \<not> inx r2 x)"
proof -
  have "left_ok r1 (rleft (hd r1))" and row: "\<And>x. row_from r1 (rleft (hd r1)) x = inx r1 x"
    using assms(1,3) by (cases r1; simp)+
  then show ?thesis
    using subtract_all_appends [OF assms(1,2), of "rleft (hd r1)" reg beyond t bo]
    by (simp add: REGION_SubtractO_def subtract_all_def)
qed

interpretation subtract: band_sweep "REGION_SubtractO beyond" "Some REGION_SubtractNonO1" None "\<lambda>u v. u \<and> \<not> v"
  for beyond
  by unfold_locales (auto intro: SubtractO_appends UnionNonO_appends simp: SubtractNonO1_eq)

section \<open>Union\<close>

text \<open>
  While the two bands are merged the new region is \<open>base @ out\<close>: \<open>out\<close> are the rectangles of
  this band so far, \<open>base\<close> the bands above it.
\<close>

definition merging ::
  "MWRECT list \<Rightarrow> MWCLIPREGION \<Rightarrow> MWCLIPREGION \<Rightarrow> MWCOORD \<Rightarrow> MWCOORD \<Rightarrow> (MWCOORD \<Rightarrow> bool) \<Rightarrow> bool" where
  "merging out reg reg' t b row \<longleftrightarrow> rects reg' = rects reg @ out \<and> xsorted out \<and> has_rows t b out \<and>
     (\<forall>x. inx out x = row x) \<and> (numRects reg < rsize reg \<longrightarrow> numRects reg' < rsize reg')"

lemma appends_merging: "appends reg reg' t b row \<longleftrightarrow> (\<exists>out. merging out reg reg' t b row)"
  by (auto simp: appends_def merging_def)

lemma merging_step:
  assumes m: "merging out reg reg' t b row" and r: "rleft r < rright r" and t: "t < b"
    and above: "\<forall>r\<in>set (rects reg). rbottom r \<le> t"
    and left: "\<forall>c\<in>set out. rleft c \<le> rleft r"
  shows "\<exists>out'. merging out' reg (MERGERECT reg' r t b) t b
           (\<lambda>x. row x \<or> (rleft r \<le> x \<and> x < rright r)) \<and> (\<forall>c\<in>set out'. rleft c \<le> rleft r)"
proof (cases "out \<noteq> [] \<and> rright (last out) \<ge> rleft r")
  case False
  have new: "MERGERECT reg' r t b = add_rect reg' (rleft r) t (rright r) b"
  proof (cases "out = []")
    case True
    then have "rects reg' = rects reg" using m by (simp add: merging_def)
    moreover have "rbottom (last (rects reg)) \<le> t" if "rects reg \<noteq> []" using above that by simp
    ultimately show ?thesis using t by (auto simp: MERGERECT_def numRects_def)
  next
    case out: False
    then show ?thesis using False m by (auto simp: MERGERECT_def merging_def)
  qed
  have sep: "rright c < rleft r" if c: "c \<in> set out" for c
  proof -
    have "rright (last out) < rleft r" using False c by auto
    moreover have "sorted_wrt (\<lambda>a b. rright a < rleft b) out" "\<forall>r\<in>set out. rleft r < rright r"
      using m by (auto simp: merging_def xsorted_def)
    ultimately show ?thesis using sorted_wrt_last_all [of _ out c] c last_in_set [of out] by fastforce
  qed
  let ?out = "out @ [mkrect (rleft r) t (rright r) b]"
  have "merging ?out reg (MERGERECT reg' r t b) t b (\<lambda>x. row x \<or> (rleft r \<le> x \<and> x < rright r))"
    using m r sep room_add_rect [of reg'] unfolding merging_def new
    by (auto simp: xsorted_append has_rows_def)
  then show ?thesis using left by (intro exI [of _ ?out]) auto
next
  case True
  then obtain o1 c where out: "out = o1 @ [c]" by (metis append_butlast_last_id)
  have rs: "rects reg' = rects reg @ o1 @ [c]" and c: "rtop c = t" "rbottom c = b" "rleft c < rright c"
    and xs: "xsorted (o1 @ [c])" and rows: "has_rows t b o1"
    using m out by (auto simp: merging_def has_rows_def xsorted_append)
  have cl: "rleft c \<le> rleft r" "rleft r \<le> rright c" using left True out by auto
  let ?c = "if rright c < rright r then c\<lparr>rright := rright r\<rparr> else c"
  have new: "MERGERECT reg' r t b = reg'\<lparr>rects := rects reg @ o1 @ [?c]\<rparr>"
    using rs c cl by (simp add: MERGERECT_def numRects_def butlast_append)
  have "merging (o1 @ [?c]) reg (MERGERECT reg' r t b) t b (\<lambda>x. row x \<or> (rleft r \<le> x \<and> x < rright r))"
    using m xs rows c cl r unfolding merging_def new out
    by (auto simp: xsorted_append has_rows_def numRects_def)
  then show ?thesis using left out by (intro exI [of _ "o1 @ [?c]"]) auto
qed

lemma UnionO_merging:
  "merging out reg reg' t b row \<Longrightarrow> t < b \<Longrightarrow> \<forall>r\<in>set (rects reg). rbottom r \<le> t \<Longrightarrow>
   xsorted as \<Longrightarrow> xsorted bs \<Longrightarrow> \<forall>c\<in>set out. \<forall>r\<in>set as \<union> set bs. rleft c \<le> rleft r \<Longrightarrow>
   \<exists>out'. merging out' reg (REGION_UnionO reg' as bs t b) t b (\<lambda>x. row x \<or> inx as x \<or> inx bs x)"
proof (induction reg' as bs t b arbitrary: out row rule: REGION_UnionO.induct)
  case (4 reg' t b)
  then show ?case by auto
next
  case (2 reg' a as t b)
  obtain out' where o: "merging out' reg (MERGERECT reg' a t b) t b (\<lambda>x. row x \<or> (rleft a \<le> x \<and> x < rright a))"
    "\<forall>c\<in>set out'. rleft c \<le> rleft a"
    using merging_step [OF "2.prems"(1) _ "2.prems"(2,3), of a] "2.prems"(4,6) by auto
  have "\<forall>c\<in>set out'. \<forall>r\<in>set as \<union> set []. rleft c \<le> rleft r" using o(2) "2.prems"(4) by fastforce
  then show ?case using "2.IH" [OF o(1)] "2.prems" by (simp add: disj_assoc)
next
  case (3 reg' b bs t bo)
  obtain out' where o: "merging out' reg (MERGERECT reg' b t bo) t bo (\<lambda>x. row x \<or> (rleft b \<le> x \<and> x < rright b))"
    "\<forall>c\<in>set out'. rleft c \<le> rleft b"
    using merging_step [OF "3.prems"(1) _ "3.prems"(2,3), of b] "3.prems"(5,6) by auto
  have "\<forall>c\<in>set out'. \<forall>r\<in>set [] \<union> set bs. rleft c \<le> rleft r" using o(2) "3.prems"(5) by fastforce
  then show ?case using "3.IH" [OF o(1)] "3.prems" by (simp add: disj_assoc)
next
  case (1 reg' a as b bs t bo)
  show ?case
  proof (cases "rleft a < rleft b")
    case True
    obtain out' where o: "merging out' reg (MERGERECT reg' a t bo) t bo (\<lambda>x. row x \<or> (rleft a \<le> x \<and> x < rright a))"
      "\<forall>c\<in>set out'. rleft c \<le> rleft a"
      using merging_step [OF "1.prems"(1) _ "1.prems"(2,3), of a] "1.prems"(4,6) by auto
    have "\<forall>c\<in>set out'. \<forall>r\<in>set as \<union> set (b # bs). rleft c \<le> rleft r"
      using o(2) "1.prems"(4,5) True by fastforce
    then show ?thesis using "1.IH"(1) [OF True o(1)] "1.prems" True by (simp add: disj_ac)
  next
    case False
    obtain out' where o: "merging out' reg (MERGERECT reg' b t bo) t bo (\<lambda>x. row x \<or> (rleft b \<le> x \<and> x < rright b))"
      "\<forall>c\<in>set out'. rleft c \<le> rleft b"
      using merging_step [OF "1.prems"(1) _ "1.prems"(2,3), of b] "1.prems"(5,6) by auto
    have "\<forall>c\<in>set out'. \<forall>r\<in>set (a # as) \<union> set bs. rleft c \<le> rleft r"
      using o(2) "1.prems"(4,5) False by fastforce
    then show ?thesis using "1.IH"(2) [OF False o(1)] "1.prems" False by (simp add: disj_ac)
  qed
qed

lemma UnionO_appends:
  assumes "xsorted b1" and "xsorted b2" and "t < b" and "\<forall>r\<in>set (rects reg). rbottom r \<le> t"
  shows "appends reg (REGION_UnionO reg b1 b2 t b) t b (\<lambda>x. inx b1 x \<or> inx b2 x)"
proof -
  have "merging [] reg reg t b (\<lambda>x. False)" by (simp add: merging_def has_rows_def)
  from UnionO_merging [OF this assms(3,4,1,2)] show ?thesis by (simp add: appends_merging)
qed

interpretation union: band_sweep REGION_UnionO "Some REGION_UnionNonO" "Some REGION_UnionNonO" "\<lambda>u v. u \<or> v"
  by unfold_locales (auto intro: UnionO_appends UnionNonO_appends)

end
