(* ===== verification/Rgn_Ops.thy ===== *)
theory Rgn_Ops
  imports Rgn_Callbacks
begin

text \<open>
  The exported region operations of \<open>engine/devrgn.c\<close>: the well-formedness invariant of a region
  object (\<open>rgn_ok\<close>), the point set it stands for (\<open>rgn_pts\<close>), and the effect of every operation
  on the store; the output may be one of the inputs (the code breaks when both are).
\<close>

section \<open>Bounding boxes\<close>

definition is_bbox :: "MWRECT \<Rightarrow> (MWCOORD \<times> MWCOORD) set \<Rightarrow> bool" where
  "is_bbox e F \<longleftrightarrow> (\<forall>(x, y)\<in>F. INRECT e x y) \<and>
     (\<exists>y. (rleft e, y) \<in> F) \<and> (\<exists>y. (rright e - 1, y) \<in> F) \<and>
     (\<exists>x. (x, rtop e) \<in> F) \<and> (\<exists>x. (x, rbottom e - 1) \<in> F)"

lemma is_bbox_in: "is_bbox e F \<Longrightarrow> (x, y) \<in> F \<Longrightarrow> INRECT e x y"
  by (auto simp: is_bbox_def)

lemma is_bbox_le:
  assumes "is_bbox e F" and "is_bbox e' F'" and "F \<subseteq> F'"
  shows "rleft e' \<le> rleft e" "rright e \<le> rright e'" "rtop e' \<le> rtop e" "rbottom e \<le> rbottom e'"
proof -
  obtain y1 y2 x1 x2 where "(rleft e, y1) \<in> F" "(rright e - 1, y2) \<in> F" "(x1, rtop e) \<in> F" "(x2, rbottom e - 1) \<in> F"
    using assms(1) by (auto simp: is_bbox_def)
  then have "INRECT e' (rleft e) y1" "INRECT e' (rright e - 1) y2" "INRECT e' x1 (rtop e)"
    "INRECT e' x2 (rbottom e - 1)" using is_bbox_in [OF assms(2)] assms(3) by blast+
  then show "rleft e' \<le> rleft e" "rright e \<le> rright e'" "rtop e' \<le> rtop e" "rbottom e \<le> rbottom e'"
    by (simp_all add: INRECT_def)
qed

lemma is_bbox_unique:
  assumes "is_bbox e F" and "is_bbox e' F"
  shows "e = e'"
  using is_bbox_le [OF assms(1,2)] is_bbox_le [OF assms(2,1)] by (simp add: MWRECT.equality)

lemma is_bbox_nonempty: "is_bbox e F \<Longrightarrow> rleft e < rright e \<and> rtop e < rbottom e"
proof -
  assume e: "is_bbox e F"
  then obtain y x where "(rleft e, y) \<in> F" "(x, rtop e) \<in> F" by (auto simp: is_bbox_def)
  then show ?thesis using is_bbox_in [OF e] by (auto simp: INRECT_def)
qed

lemma is_bbox_rect: "rleft r < rright r \<Longrightarrow> rtop r < rbottom r \<Longrightarrow> is_bbox r (rect_pts r)"
  by (auto simp: is_bbox_def rect_pts_def INRECT_def)

lemma is_bbox_Un:
  assumes "is_bbox e1 F1" and "is_bbox e2 F2"
  shows "is_bbox (mkrect (min (rleft e1) (rleft e2)) (min (rtop e1) (rtop e2))
    (max (rright e1) (rright e2)) (max (rbottom e1) (rbottom e2))) (F1 \<union> F2)"
proof -
  obtain a1 a2 a3 a4 where "(rleft e1, a1) \<in> F1" "(rright e1 - 1, a2) \<in> F1" "(a3, rtop e1) \<in> F1"
    "(a4, rbottom e1 - 1) \<in> F1" using assms(1) by (auto simp: is_bbox_def)
  moreover obtain b1 b2 b3 b4 where "(rleft e2, b1) \<in> F2" "(rright e2 - 1, b2) \<in> F2" "(b3, rtop e2) \<in> F2"
    "(b4, rbottom e2 - 1) \<in> F2" using assms(2) by (auto simp: is_bbox_def)
  moreover have "\<forall>(x, y)\<in>F1 \<union> F2. INRECT (mkrect (min (rleft e1) (rleft e2)) (min (rtop e1) (rtop e2))
    (max (rright e1) (rright e2)) (max (rbottom e1) (rbottom e2))) x y"
    using is_bbox_in [OF assms(1)] is_bbox_in [OF assms(2)] by (fastforce simp: INRECT_def)
  ultimately show ?thesis
    unfolding is_bbox_def mkrect_simps by (auto simp: min_def max_def)
qed

section \<open>Facts about canonical lists\<close>

lemma canonical_rect:
  assumes "canonical rs" and "r \<in> set rs"
  shows "rleft r < rright r" and "rtop r < rbottom r"
proof -
  obtain bs where bs: "rs = concat bs" "stack bs" by (rule canonicalE [OF assms(1)]) blast
  then obtain B where B: "B \<in> set bs" "r \<in> set B" using assms(2) by auto
  have band: "is_band B" using stack_band [OF bs(2) B(1)] .
  show "rleft r < rright r" using band B(2) by (auto simp: is_band_def xsorted_def)
  show "rtop r < rbottom r" using band_rect [OF band B(2)] is_bandD(3) [OF band] by simp
qed

lemma corner_in_pts:
  assumes "canonical rs" and "r \<in> set rs"
  shows "(rleft r, rtop r) \<in> pts rs" and "(rright r - 1, rtop r) \<in> pts rs"
    and "(rleft r, rbottom r - 1) \<in> pts rs"
  using canonical_rect [OF assms] assms(2) by (auto simp: in_pts INRECT_def intro!: bexI [of _ r])

lemma canonical_order:
  assumes "canonical rs"
  shows "sorted_wrt (\<lambda>a b. rtop a \<le> rtop b \<and> rbottom a \<le> rbottom b) rs"
proof -
  obtain bs where bs: "rs = concat bs" "stack bs" by (rule canonicalE [OF assms]) blast
  have "sorted_wrt (\<lambda>a b. (rtop a = rtop b \<and> rbottom a = rbottom b \<and> rright a < rleft b) \<or>
           rbottom a \<le> rtop b) rs"
    using stack_in_order [OF bs(2)] bs(1) by simp
  then show ?thesis
  proof (rule sorted_wrt_mono_rel [rotated])
    fix a b assume ab: "a \<in> set rs" "b \<in> set rs"
      and "(rtop a = rtop b \<and> rbottom a = rbottom b \<and> rright a < rleft b) \<or> rbottom a \<le> rtop b"
    then show "rtop a \<le> rtop b \<and> rbottom a \<le> rbottom b"
      using canonical_rect(2) [OF assms ab(1)] canonical_rect(2) [OF assms ab(2)] by auto
  qed
qed

lemma canonical_top: "canonical rs \<Longrightarrow> r \<in> set rs \<Longrightarrow> rtop (hd rs) \<le> rtop r"
  using sorted_wrt_hd_all [OF canonical_order, of rs r] by auto

lemma canonical_bottom: "canonical rs \<Longrightarrow> r \<in> set rs \<Longrightarrow> rbottom r \<le> rbottom (last rs)"
  using sorted_wrt_last_all [OF canonical_order, of rs r] by auto

lemma pts_empty_iff: "canonical rs \<Longrightarrow> pts rs = {} \<longleftrightarrow> rs = []"
  using corner_in_pts(1) [of rs "hd rs"] by (cases rs) auto

lemma canonical_rect_list: "rleft r < rright r \<Longrightarrow> rtop r < rbottom r \<Longrightarrow> canonical [r]"
  using canonical_concat [of "[[r]]"]
  by (simp add: stack_Cons is_band_def has_rows_def tight_def)

section \<open>The well-formedness of a region object\<close>

definition rgn_pts :: "MWCLIPREGION \<Rightarrow> (MWCOORD \<times> MWCOORD) set" where
  "rgn_pts reg = pts (rects reg)"

definition extents_ok :: "MWCLIPREGION \<Rightarrow> bool" where
  "extents_ok reg \<longleftrightarrow>
     (if rects reg = [] then extents reg = mkrect 0 0 0 0 else is_bbox (extents reg) (rgn_pts reg))"

definition rgn_ok :: "MWCLIPREGION \<Rightarrow> bool" where
  "rgn_ok reg \<longleftrightarrow> canonical (rects reg) \<and> extents_ok reg \<and> numRects reg \<le> rsize reg \<and>
     0 < rsize reg \<and> (rtype reg = MWREGION_NULL \<longleftrightarrow> rects reg = [])"

lemma rgn_okD:
  "rgn_ok reg \<Longrightarrow> canonical (rects reg)" "rgn_ok reg \<Longrightarrow> extents_ok reg"
  "rgn_ok reg \<Longrightarrow> numRects reg \<le> rsize reg" "rgn_ok reg \<Longrightarrow> 0 < rsize reg"
  by (simp_all add: rgn_ok_def)

lemma numRects_0 [simp]: "numRects reg = 0 \<longleftrightarrow> rects reg = []"
  by (simp add: numRects_def)

lemma rgn_bbox: "rgn_ok reg \<Longrightarrow> rects reg \<noteq> [] \<Longrightarrow> is_bbox (extents reg) (rgn_pts reg)"
  by (simp add: rgn_ok_def extents_ok_def)

lemma rgn_pts_empty: "rgn_ok reg \<Longrightarrow> rgn_pts reg = {} \<longleftrightarrow> rects reg = []"
  by (simp add: rgn_pts_def rgn_okD(1) pts_empty_iff)

lemma extents_top:
  assumes "rgn_ok reg" and "rects reg \<noteq> []"
  shows "rtop (extents reg) = rtop (hd (rects reg))"
proof -
  note can = rgn_okD(1) [OF assms(1)] and bb = rgn_bbox [OF assms]
  have "(rleft (hd (rects reg)), rtop (hd (rects reg))) \<in> rgn_pts reg"
    unfolding rgn_pts_def by (rule corner_in_pts(1) [OF can]) (simp add: assms(2))
  then have "rtop (extents reg) \<le> rtop (hd (rects reg))" using is_bbox_in [OF bb] by (simp add: INRECT_def)
  moreover obtain x where "(x, rtop (extents reg)) \<in> pts (rects reg)"
    using bb by (auto simp: is_bbox_def rgn_pts_def)
  then obtain r where r: "r \<in> set (rects reg)" "INRECT r x (rtop (extents reg))" by (auto simp: in_pts)
  then have "rtop (hd (rects reg)) \<le> rtop (extents reg)"
    using canonical_top [OF can r(1)] by (simp add: INRECT_def)
  ultimately show ?thesis by simp
qed

section \<open>Computing the extents\<close>

lemma extents_scan_spec:
  "extents_scan rs e = e\<lparr>rleft := Min (insert (rleft e) (rleft ` set rs)),
                         rright := Max (insert (rright e) (rright ` set rs))\<rparr>"
proof (induction rs arbitrary: e)
  case (Cons r rs)
  let ?e = "e\<lparr>rleft := min (rleft r) (rleft e), rright := max (rright r) (rright e)\<rparr>"
  have "extents_scan (r # rs) e = extents_scan rs ?e"
    by (simp add: Let_def min_def max_def)
  also have "\<dots> = e\<lparr>rleft := Min (insert (rleft e) (rleft ` set (r # rs))),
      rright := Max (insert (rright e) (rright ` set (r # rs)))\<rparr>"
    unfolding Cons.IH by (simp add: insert_commute)
      (cases "rs = []"; simp add: min.assoc max.assoc min.commute max.commute min.left_commute max.left_commute)
  finally show ?case .
qed simp

lemma SetExtents_bbox:
  assumes can: "canonical (rects reg)" and ne: "rects reg \<noteq> []"
  shows "is_bbox (extents (REGION_SetExtents reg)) (pts (rects reg))"
proof -
  let ?rs = "rects reg"
  define e where "e = extents (REGION_SetExtents reg)"
  have e: "e = mkrect (Min (rleft ` set ?rs)) (rtop (hd ?rs)) (Max (rright ` set ?rs)) (rbottom (last ?rs))"
  proof -
    have "insert (rleft (hd ?rs)) (rleft ` set ?rs) = rleft ` set ?rs"
      "insert (rright (last ?rs)) (rright ` set ?rs) = rright ` set ?rs"
      using ne by (auto intro!: insert_absorb imageI)
    then show ?thesis using ne by (simp add: e_def REGION_SetExtents_def extents_scan_spec mkrect_def Let_def)
  qed
  have fin: "finite (rleft ` set ?rs)" "finite (rright ` set ?rs)" by simp_all
  have ne': "rleft ` set ?rs \<noteq> {}" "rright ` set ?rs \<noteq> {}" using ne by simp_all
  obtain l where l: "l \<in> set ?rs" "rleft l = rleft e" using Min_in [OF fin(1) ne'(1)] e by fastforce
  obtain r where r: "r \<in> set ?rs" "rright r = rright e" using Max_in [OF fin(2) ne'(2)] e by fastforce
  have "INRECT e x y" if xy: "(x, y) \<in> pts ?rs" for x y
  proof -
    obtain c where c: "c \<in> set ?rs" "INRECT c x y" using xy unfolding in_pts by blast
    have "rleft e \<le> rleft c" "rright c \<le> rright e" using c(1) e by (simp_all add: Min_le Max_ge)
    moreover have "rtop e \<le> rtop c" "rbottom c \<le> rbottom e"
      using canonical_top [OF can c(1)] canonical_bottom [OF can c(1)] e by simp_all
    ultimately show ?thesis using c(2) by (simp add: INRECT_def)
  qed
  moreover have "hd ?rs \<in> set ?rs" "last ?rs \<in> set ?rs" using ne by simp_all
  ultimately have "is_bbox e (pts ?rs)"
    using corner_in_pts(1) [OF can l(1)] corner_in_pts(2) [OF can r(1)]
      corner_in_pts(1) [OF can \<open>hd ?rs \<in> set ?rs\<close>] corner_in_pts(3) [OF can \<open>last ?rs \<in> set ?rs\<close>]
      l(2) r(2) e unfolding is_bbox_def by auto
  then show ?thesis by (simp add: e_def)
qed

lemma REGION_SetExtents_simps [simp]:
  "rects (REGION_SetExtents reg) = rects reg" "rsize (REGION_SetExtents reg) = rsize reg"
  by (simp_all add: REGION_SetExtents_def Let_def)

lemma complex_or_null_simps [simp]:
  "rects (complex_or_null reg) = rects reg" "rsize (complex_or_null reg) = rsize reg"
  "extents (complex_or_null reg) = extents reg"
  "rtype (complex_or_null reg) = MWREGION_NULL \<longleftrightarrow> rects reg = []"
  by (simp_all add: complex_or_null_def)

lemma finish_with_extents:
  assumes "op_result reg F"
  shows "rgn_ok (complex_or_null (REGION_SetExtents reg))"
    and "rgn_pts (complex_or_null (REGION_SetExtents reg)) = F"
proof -
  show "rgn_ok (complex_or_null (REGION_SetExtents reg))"
  proof (cases "rects reg = []")
    case True
    then have "extents (REGION_SetExtents reg) = mkrect 0 0 0 0" by (simp add: REGION_SetExtents_def)
    then show ?thesis
      using assms True by (simp add: rgn_ok_def op_result_def extents_ok_def numRects_def)
  next
    case False
    then show ?thesis
      using assms SetExtents_bbox [of reg]
      by (simp add: rgn_ok_def op_result_def extents_ok_def rgn_pts_def numRects_def)
  qed
  show "rgn_pts (complex_or_null (REGION_SetExtents reg)) = F"
    using assms by (simp add: rgn_pts_def op_result_def)
qed

section \<open>Intersection\<close>

lemma disjoint_extents:
  assumes "rgn_ok r1" and "rgn_ok r2" and "rects r1 \<noteq> []" and "rects r2 \<noteq> []"
    and "\<not> EXTENTCHECK (extents r1) (extents r2)"
  shows "rgn_pts r1 \<inter> rgn_pts r2 = {}"
proof -
  have "(x, y) \<notin> rgn_pts r1 \<inter> rgn_pts r2" for x y
    using is_bbox_in [OF rgn_bbox [OF assms(1,3)]] is_bbox_in [OF rgn_bbox [OF assms(2,4)]] assms(5)
    by (fastforce simp: INRECT_def EXTENTCHECK_def)
  then show ?thesis by auto
qed

lemma rgn_pts_Nil: "rects r = [] \<Longrightarrow> rgn_pts r = {}"
  by (simp add: rgn_pts_def)

lemma combined_simps:
  "inter.combined R1 R2 = pts R1 \<inter> pts R2"
  "union.combined R1 R2 = pts R1 \<union> pts R2"
  "subtract.combined R1 R2 = pts R1 - pts R2"
  by (auto simp: inter.combined_def union.combined_def subtract.combined_def)

text \<open>The result of a store operation: the new region, its points, and nothing else changed.\<close>

definition stores :: "rgn_store \<Rightarrow> rgn_store \<Rightarrow> rgn_ptr \<Rightarrow> (MWCOORD \<times> MWCOORD) set \<Rightarrow> bool" where
  "stores h h' p F \<longleftrightarrow> rgn_ok (h' p) \<and> rgn_pts (h' p) = F \<and> (\<forall>q. q \<noteq> p \<longrightarrow> h' q = h q)"

lemma storesI: "rgn_ok r \<Longrightarrow> rgn_pts r = F \<Longrightarrow> stores h (h(p := r)) p F"
  by (simp add: stores_def)

lemma stores_refl: "rgn_ok (h p) \<Longrightarrow> rgn_pts (h p) = F \<Longrightarrow> stores h h p F"
  by (simp add: stores_def)

lemma op_result_empty: "0 < rsize reg \<Longrightarrow> op_result (reg\<lparr>rects := []\<rparr>) {}"
  by (simp add: op_result_def numRects_def)

lemma intersect_stores:
  assumes ok: "rgn_ok (h r1)" "rgn_ok (h r2)" "0 < rsize (h d)" and na: "\<not> (d = r1 \<and> d = r2)"
  shows "stores h (GdIntersectRegion h d r1 r2) d (rgn_pts (h r1) \<inter> rgn_pts (h r2))"
proof -
  let ?F = "rgn_pts (h r1) \<inter> rgn_pts (h r2)"
  let ?triv = "numRects (h r1) = 0 \<or> numRects (h r2) = 0 \<or> \<not> EXTENTCHECK (extents (h r1)) (extents (h r2))"
  define new where "new = (if ?triv then (h d)\<lparr>rects := []\<rparr>
    else REGION_RegionOp h d r1 r2 REGION_IntersectO None None)"
  have "op_result new ?F"
  proof (cases ?triv)
    case True
    then have "?F = {}"
      using disjoint_extents [OF ok(1,2)] rgn_pts_Nil [of "h r1"] rgn_pts_Nil [of "h r2"] by auto
    then show ?thesis using True op_result_empty [OF ok(3)] by (simp add: new_def)
  next
    case False
    then have ne: "rects (h r1) \<noteq> []" "rects (h r2) \<noteq> []" by simp_all
    show ?thesis
      using inter.region_op_result [of h, OF rgn_okD(1) [OF ok(1)] rgn_okD(1) [OF ok(2)] ne
          extents_top [OF ok(1) ne(1)] extents_top [OF ok(2) ne(2)] na] False
      by (simp add: new_def combined_simps rgn_pts_def)
  qed
  from finish_with_extents [OF this] show ?thesis
    unfolding GdIntersectRegion_def Let_def new_def [symmetric] by (rule storesI)
qed

section \<open>Copies and union\<close>

lemma copy_region_ok:
  assumes "rgn_ok src" and "0 < rsize dst"
  shows "rgn_ok (copy_region dst src)" and "rgn_pts (copy_region dst src) = rgn_pts src"
  using assms by (auto simp: rgn_ok_def copy_region_def rgn_pts_def extents_ok_def numRects_def)

lemma GdCopyRegion_stores:
  assumes "rgn_ok (h s)" and "0 < rsize (h d)"
  shows "stores h (GdCopyRegion h d s) d (rgn_pts (h s))"
  using copy_region_ok [OF assms] assms(1)
  by (auto simp: GdCopyRegion_def intro: storesI stores_refl)

lemma copy_if_other_stores:
  assumes "rgn_ok (h s)" and "0 < rsize (h d)"
  shows "stores h (copy_if_other h d s) d (rgn_pts (h s))"
  using GdCopyRegion_stores [OF assms] assms(1)
  by (auto simp: copy_if_other_def intro: stores_refl)

lemma subsumes_pts:
  assumes ok: "rgn_ok r1" "rgn_ok r2" and s: "subsumes r1 r2"
  shows "rgn_pts r2 \<subseteq> rgn_pts r1"
proof (cases "rects r2 = []")
  case False
  obtain r where r: "rects r1 = [r]"
    using s by (auto simp: subsumes_def numRects_def length_Suc_conv)
  have "is_bbox (extents r1) (rgn_pts r1)" using rgn_bbox [OF ok(1)] r by simp
  moreover have "is_bbox r (rgn_pts r1)"
    using is_bbox_rect [of r] canonical_rect [OF rgn_okD(1) [OF ok(1)], of r] r by (simp add: rgn_pts_def)
  ultimately have "extents r1 = r" by (rule is_bbox_unique)
  then have p1: "rgn_pts r1 = rect_pts (extents r1)" using r by (simp add: rgn_pts_def)
  have "INRECT (extents r2) x y \<Longrightarrow> INRECT (extents r1) x y" for x y
    using s by (simp add: subsumes_def INRECT_def)
  then show ?thesis
    using is_bbox_in [OF rgn_bbox [OF ok(2) False]] unfolding p1 rect_pts_def by auto
qed (simp add: rgn_pts_Nil)

lemma union_stores:
  assumes ok: "rgn_ok (h r1)" "rgn_ok (h r2)" "0 < rsize (h d)"
  shows "stores h (GdUnionRegion h d r1 r2) d (rgn_pts (h r1) \<union> rgn_pts (h r2))"
proof -
  let ?F = "rgn_pts (h r1) \<union> rgn_pts (h r2)"
  note copy1 = copy_if_other_stores [OF ok(1,3)] and copy2 = copy_if_other_stores [OF ok(2,3)]
  consider (two) "r1 = r2 \<or> rects (h r1) = []" | (one) "r1 \<noteq> r2" "rects (h r1) \<noteq> []" "rects (h r2) = []"
    | (sub1) "r1 \<noteq> r2" "rects (h r1) \<noteq> []" "rects (h r2) \<noteq> []" "subsumes (h r1) (h r2)"
    | (sub2) "r1 \<noteq> r2" "rects (h r1) \<noteq> []" "rects (h r2) \<noteq> []" "\<not> subsumes (h r1) (h r2)" "subsumes (h r2) (h r1)"
    | (op) "r1 \<noteq> r2" "rects (h r1) \<noteq> []" "rects (h r2) \<noteq> []" "\<not> subsumes (h r1) (h r2)" "\<not> subsumes (h r2) (h r1)"
    by blast
  then show ?thesis
  proof cases
    case two
    then have "?F = rgn_pts (h r2)" using rgn_pts_Nil [of "h r1"] by auto
    then show ?thesis using two copy2 by (auto simp: GdUnionRegion_def)
  next
    case one
    then have "?F = rgn_pts (h r1)" using rgn_pts_Nil [of "h r2"] by auto
    then show ?thesis using one copy1 by (simp add: GdUnionRegion_def)
  next
    case sub1
    then have "?F = rgn_pts (h r1)" using subsumes_pts [OF ok(1,2)] by auto
    then show ?thesis using sub1 copy1 by (simp add: GdUnionRegion_def)
  next
    case sub2
    then have "?F = rgn_pts (h r2)" using subsumes_pts [OF ok(2,1)] by auto
    then show ?thesis using sub2 copy2 by (simp add: GdUnionRegion_def)
  next
    case op
    define new where "new = REGION_RegionOp h d r1 r2 REGION_UnionO
      (Some REGION_UnionNonO) (Some REGION_UnionNonO)"
    have res: "op_result new ?F"
      using union.region_op_result [of h, OF rgn_okD(1) [OF ok(1)] rgn_okD(1) [OF ok(2)] op(2,3)
          extents_top [OF ok(1) op(2)] extents_top [OF ok(2) op(3)], of d] op(1)
      by (simp add: new_def combined_simps rgn_pts_def)
    let ?e = "mkrect (min (rleft (extents (h r1))) (rleft (extents (h r2))))
      (min (rtop (extents (h r1))) (rtop (extents (h r2))))
      (max (rright (extents (h r1))) (rright (extents (h r2))))
      (max (rbottom (extents (h r1))) (rbottom (extents (h r2))))"
    have bb: "is_bbox ?e ?F"
      by (rule is_bbox_Un [OF rgn_bbox [OF ok(1) op(2)] rgn_bbox [OF ok(2) op(3)]])
    have ne: "rects new \<noteq> []"
      using res op(2) rgn_pts_empty [OF ok(1)] by (auto simp: op_result_def)
    have "rgn_ok (complex_or_null (new\<lparr>extents := ?e\<rparr>))"
      using res bb ne by (simp add: rgn_ok_def op_result_def extents_ok_def rgn_pts_def numRects_def)
    moreover have "rgn_pts (complex_or_null (new\<lparr>extents := ?e\<rparr>)) = ?F"
      using res by (simp add: rgn_pts_def op_result_def)
    ultimately show ?thesis
      using op unfolding GdUnionRegion_def Let_def new_def by (simp add: storesI)
  qed
qed

section \<open>Difference and symmetric difference\<close>

lemma subtract_stores:
  assumes ok: "rgn_ok (h m)" "rgn_ok (h s)" "0 < rsize (h d)" and na: "\<not> (d = m \<and> d = s)"
  shows "stores h (GdSubtractRegion beyond h d m s) d (rgn_pts (h m) - rgn_pts (h s))"
proof (cases "numRects (h m) = 0 \<or> numRects (h s) = 0 \<or> \<not> EXTENTCHECK (extents (h m)) (extents (h s))")
  case True
  then have "rgn_pts (h m) - rgn_pts (h s) = rgn_pts (h m)"
    using disjoint_extents [OF ok(1,2)] rgn_pts_Nil [of "h m"] rgn_pts_Nil [of "h s"] by auto
  then show ?thesis using True GdCopyRegion_stores [OF ok(1,3)] by (simp add: GdSubtractRegion_def)
next
  case False
  then have ne: "rects (h m) \<noteq> []" "rects (h s) \<noteq> []" by simp_all
  have "op_result (REGION_RegionOp h d m s (REGION_SubtractO beyond) (Some REGION_SubtractNonO1) None)
    (rgn_pts (h m) - rgn_pts (h s))"
    using subtract.region_op_result [of h, OF rgn_okD(1) [OF ok(1)] rgn_okD(1) [OF ok(2)] ne
        extents_top [OF ok(1) ne(1)] extents_top [OF ok(2) ne(2)] na]
    by (simp add: combined_simps rgn_pts_def)
  from finish_with_extents [OF this] show ?thesis
    using False by (simp add: GdSubtractRegion_def storesI)
qed

lemma GdAllocRegion_ok: "rgn_ok GdAllocRegion" and GdAllocRegion_pts: "rgn_pts GdAllocRegion = {}"
  by (simp_all add: GdAllocRegion_def EMPTY_REGION_def rgn_ok_def extents_ok_def numRects_def rgn_pts_def)

lemma xor_stores:
  assumes ok: "rgn_ok (h a)" "rgn_ok (h b)" "0 < rsize (h d)"
  shows "stores h (GdXorRegion beyond h d a b) d
    ((rgn_pts (h a) - rgn_pts (h b)) \<union> (rgn_pts (h b) - rgn_pts (h a)))"
proof -
  let ?tra = "Suc (max d (max a b))" and ?trb = "Suc (Suc (max d (max a b)))"
  have fresh: "\<not> (?tra = a \<and> ?tra = b)" "\<not> (?trb = b \<and> ?trb = a)" by auto
  define h0 where "h0 = h(?tra := GdAllocRegion, ?trb := GdAllocRegion)"
  define h1 where "h1 = GdSubtractRegion beyond h0 ?tra a b"
  define h2 where "h2 = GdSubtractRegion beyond h1 ?trb b a"
  have same0: "h0 a = h a" "h0 b = h b" "h0 d = h d" by (simp_all add: h0_def)
  have "stores h0 h1 ?tra (rgn_pts (h a) - rgn_pts (h b))"
    unfolding h1_def same0 [symmetric]
    by (rule subtract_stores [OF _ _ _ fresh(1)])
      (use same0 ok rgn_okD(4) [OF GdAllocRegion_ok] in \<open>simp_all add: h0_def\<close>)
  then have ta: "rgn_ok (h1 ?tra)" "rgn_pts (h1 ?tra) = rgn_pts (h a) - rgn_pts (h b)"
    and same1: "h1 a = h a" "h1 b = h b" "h1 d = h d" "h1 ?trb = GdAllocRegion"
    using same0 by (auto simp: stores_def h0_def)
  have "stores h1 h2 ?trb (rgn_pts (h b) - rgn_pts (h a))"
    unfolding h2_def same1(1,2) [symmetric]
    by (rule subtract_stores [OF _ _ _ fresh(2)])
      (use same1 ok rgn_okD(4) [OF GdAllocRegion_ok] in \<open>simp_all\<close>)
  then have tb: "rgn_ok (h2 ?trb)" "rgn_pts (h2 ?trb) = rgn_pts (h b) - rgn_pts (h a)"
    and same2: "h2 ?tra = h1 ?tra" "h2 d = h d"
    using same1 by (auto simp: stores_def)
  have "stores h2 (GdUnionRegion h2 d ?tra ?trb) d
    ((rgn_pts (h a) - rgn_pts (h b)) \<union> (rgn_pts (h b) - rgn_pts (h a)))"
    unfolding ta(2) [symmetric] tb(2) [symmetric] same2(1) [symmetric]
    by (rule union_stores) (use same2 ta tb ok in simp_all)
  then show ?thesis
    unfolding GdXorRegion_def Let_def h0_def [symmetric] h1_def [symmetric] h2_def [symmetric]
    by (auto simp: stores_def)
qed

section \<open>Operations with a rectangle\<close>

lemma local_rect_ok:
  assumes "rleft rect < rright rect" and "rtop rect < rbottom rect"
  shows "rgn_ok (local_rect_region rect)" and "rgn_pts (local_rect_region rect) = rect_pts rect"
  using assms canonical_rect_list [OF assms] is_bbox_rect [OF assms]
  by (simp_all add: local_rect_region_def rgn_ok_def extents_ok_def rgn_pts_def numRects_def)

lemma union_rect_stores:
  assumes "rgn_ok (h rgn)" and "rleft rect < rright rect" and "rtop rect < rbottom rect"
  shows "stores h (GdUnionRectWithRegion h rect rgn) rgn (rgn_pts (h rgn) \<union> rect_pts rect)"
proof -
  let ?h = "h(Suc rgn := local_rect_region rect)"
  have "stores ?h (GdUnionRegion ?h rgn rgn (Suc rgn)) rgn (rgn_pts (?h rgn) \<union> rgn_pts (?h (Suc rgn)))"
    using assms local_rect_ok [OF assms(2,3)] rgn_okD(4) [OF assms(1)] by (intro union_stores) simp_all
  then show ?thesis
    using local_rect_ok(2) [OF assms(2,3)] by (simp add: stores_def GdUnionRectWithRegion_def)
qed

lemma subtract_rect_stores:
  assumes "rgn_ok (h rgn)" and "rleft rect < rright rect" and "rtop rect < rbottom rect"
  shows "stores h (GdSubtractRectFromRegion beyond h rect rgn) rgn (rgn_pts (h rgn) - rect_pts rect)"
proof -
  let ?h = "h(Suc rgn := local_rect_region rect)"
  have "stores ?h (GdSubtractRegion beyond ?h rgn rgn (Suc rgn)) rgn (rgn_pts (?h rgn) - rgn_pts (?h (Suc rgn)))"
    using assms local_rect_ok [OF assms(2,3)] rgn_okD(4) [OF assms(1)] by (intro subtract_stores) simp_all
  then show ?thesis
    using local_rect_ok(2) [OF assms(2,3)] by (simp add: stores_def GdSubtractRectFromRegion_def)
qed

section \<open>Constructors and translations\<close>

lemma GdSetRectRegion_ok:
  assumes "0 < rsize rgn" and "l \<le> r" and "t \<le> b"
  shows "rgn_ok (GdSetRectRegion rgn l t r b)"
    and "rgn_pts (GdSetRectRegion rgn l t r b) = {(x, y). l \<le> x \<and> x < r \<and> t \<le> y \<and> y < b}"
proof -
  have "rgn_ok (GdSetRectRegion rgn l t r b) \<and>
    rgn_pts (GdSetRectRegion rgn l t r b) = {(x, y). l \<le> x \<and> x < r \<and> t \<le> y \<and> y < b}"
  proof (cases "l \<noteq> r \<and> t \<noteq> b")
    case True
    then have lt: "rleft (mkrect l t r b) < rright (mkrect l t r b)" "rtop (mkrect l t r b) < rbottom (mkrect l t r b)"
      using assms by simp_all
    have p: "rect_pts (mkrect l t r b) = {(x, y). l \<le> x \<and> x < r \<and> t \<le> y \<and> y < b}"
      by (auto simp: rect_pts_def INRECT_def)
    show ?thesis
      using True canonical_rect_list [OF lt] is_bbox_rect [OF lt] assms p
      by (simp add: GdSetRectRegion_def rgn_ok_def extents_ok_def rgn_pts_def numRects_def)
  next
    case False
    then show ?thesis
      using assms by (auto simp: GdSetRectRegion_def EMPTY_REGION_def rgn_ok_def extents_ok_def rgn_pts_def numRects_def)
  qed
  then show "rgn_ok (GdSetRectRegion rgn l t r b)"
    and "rgn_pts (GdSetRectRegion rgn l t r b) = {(x, y). l \<le> x \<and> x < r \<and> t \<le> y \<and> y < b}" by blast+
qed

end
