(* ===== verification/Rgn_Queries.thy ===== *)
theory Rgn_Queries
  imports Rgn_Ops
begin

text \<open>
  The queries on region objects: point and rectangle containment, equality, translation, and
  regions built from a bitmap.
\<close>

section \<open>Points and equality\<close>

lemma in_rect_pts [simp]: "(x, y) \<in> rect_pts r \<longleftrightarrow> INRECT r x y"
  by (simp add: rect_pts_def)

lemma pt_in_rects_iff: "pt_in_rects rs x y \<longleftrightarrow> (x, y) \<in> pts rs"
  by (induction rs) (auto simp: rect_pts_def)

lemma GdPtInRegion_iff:
  assumes "rgn_ok rgn"
  shows "GdPtInRegion rgn x y \<longleftrightarrow> (x, y) \<in> rgn_pts rgn"
proof (cases "rects rgn = []")
  case True
  then show ?thesis by (simp add: GdPtInRegion_def rgn_pts_Nil)
next
  case False
  then have "(x, y) \<in> rgn_pts rgn \<Longrightarrow> INRECT (extents rgn) x y"
    using is_bbox_in [OF rgn_bbox [OF assms False]] by blast
  then show ?thesis using False by (auto simp: GdPtInRegion_def pt_in_rects_iff rgn_pts_def)
qed

lemma EQUALRECT_iff: "EQUALRECT r1 r2 \<longleftrightarrow> r1 = r2"
  by (auto simp: EQUALRECT_def)

lemma equal_rects_iff: "length as = length bs \<Longrightarrow> equal_rects as bs \<longleftrightarrow> as = bs"
  by (induction as bs rule: equal_rects.induct) (auto simp: EQUALRECT_iff)

lemma rgn_ok_same_pts:
  assumes "rgn_ok r1" and "rgn_ok r2" and "rgn_pts r1 = rgn_pts r2"
  shows "rects r1 = rects r2" and "extents r1 = extents r2"
proof -
  show rs: "rects r1 = rects r2"
    using canonical_eqI [OF rgn_okD(1) [OF assms(1)] rgn_okD(1) [OF assms(2)]] assms(3)
    by (simp add: rgn_pts_def)
  show "extents r1 = extents r2"
  proof (cases "rects r1 = []")
    case True
    then show ?thesis using assms(1,2) rs by (simp add: rgn_ok_def extents_ok_def)
  next
    case False
    then show ?thesis
      using is_bbox_unique rgn_bbox [OF assms(1)] rgn_bbox [OF assms(2)] rs assms(3) by simp
  qed
qed

lemma GdEqualRegion_iff:
  assumes "rgn_ok r1" and "rgn_ok r2"
  shows "GdEqualRegion r1 r2 \<longleftrightarrow> rgn_pts r1 = rgn_pts r2"
proof
  assume "GdEqualRegion r1 r2"
  then show "rgn_pts r1 = rgn_pts r2"
    by (auto simp: GdEqualRegion_def equal_rects_iff numRects_def rgn_pts_def split: if_splits)
next
  assume "rgn_pts r1 = rgn_pts r2"
  then show "GdEqualRegion r1 r2"
    using rgn_ok_same_pts [OF assms]
    by (simp add: GdEqualRegion_def EQUALRECT_iff equal_rects_iff numRects_def)
qed

section \<open>Rectangle containment\<close>

text \<open>Order of a list of rectangles: left to right within a band, bands from top to bottom.\<close>

definition rect_order :: "MWRECT \<Rightarrow> MWRECT \<Rightarrow> bool" where
  "rect_order a b \<longleftrightarrow>
     (rtop a = rtop b \<and> rbottom a = rbottom b \<and> rright a < rleft b) \<or> rbottom a \<le> rtop b"

definition in_order :: "MWRECT list \<Rightarrow> bool" where
  "in_order rs \<longleftrightarrow> sorted_wrt rect_order rs \<and> (\<forall>r\<in>set rs. rleft r < rright r \<and> rtop r < rbottom r)"

lemma canonical_in_order: "canonical rs \<Longrightarrow> in_order rs"
proof -
  assume can: "canonical rs"
  then obtain bs where "rs = concat bs" "stack bs" by (rule canonicalE) blast
  then have "sorted_wrt rect_order rs" using stack_in_order [of bs] by (simp add: rect_order_def [abs_def])
  then show ?thesis using canonical_rect [OF can] by (simp add: in_order_def)
qed

lemma in_order_Cons:
  "in_order (c # cs) \<longleftrightarrow>
     in_order cs \<and> rleft c < rright c \<and> rtop c < rbottom c \<and> (\<forall>d\<in>set cs. rect_order c d)"
  by (auto simp: in_order_def)

text \<open>The row of the first rectangle, and the rows above it.\<close>

lemma first_rect_row:
  assumes "in_order (c # cs)" and "rtop c \<le> y" and "y < rbottom c" and "(x, y) \<in> pts (c # cs)"
  shows "(rleft c \<le> x \<and> x < rright c) \<or> rright c < x"
proof -
  obtain d where d: "d \<in> set (c # cs)" "INRECT d x y" using assms(4) unfolding in_pts by blast
  show ?thesis
  proof (cases "d = c")
    case False
    then have "rect_order c d" using d(1) assms(1) by (auto simp: in_order_Cons)
    then show ?thesis using d(2) assms(3) by (auto simp: rect_order_def INRECT_def)
  qed (use d(2) in \<open>auto simp: INRECT_def\<close>)
qed

lemma first_rect_top:
  assumes "in_order (c # cs)" and "(x, y) \<in> pts (c # cs)"
  shows "rtop c \<le> y"
proof -
  obtain d where d: "d \<in> set (c # cs)" "INRECT d x y" using assms(2) unfolding in_pts by blast
  show ?thesis
  proof (cases "d = c")
    case False
    then have "rect_order c d" "rtop c < rbottom c" using d(1) assms(1) by (auto simp: in_order_Cons)
    then show ?thesis using d(2) by (auto simp: rect_order_def INRECT_def)
  qed (use d(2) in \<open>auto simp: INRECT_def\<close>)
qed

text \<open>
  The state of the scan: \<open>G\<close> is membership in the region, \<open>cs\<close> the rectangles not yet seen.
  Above \<open>ry\<close> the rectangle is inside the region (\<open>partIn\<close>) or outside of it, from \<open>ry\<close> on only
  the remaining rectangles matter.
\<close>

definition scan_inv ::
  "MWRECT \<Rightarrow> (MWCOORD \<Rightarrow> MWCOORD \<Rightarrow> bool) \<Rightarrow> MWRECT list \<Rightarrow> MWCOORD \<Rightarrow> bool \<Rightarrow> bool \<Rightarrow> bool" where
  "scan_inv rect G cs ry pin pout \<longleftrightarrow>
     in_order cs \<and> rtop rect \<le> ry \<and> ry < rbottom rect \<and> \<not> (pin \<and> pout) \<and>
     (\<forall>x y. INRECT rect x y \<and> y < ry \<longrightarrow> (G x y \<longleftrightarrow> pin)) \<and>
     (\<forall>x y. INRECT rect x y \<and> ry \<le> y \<longrightarrow> (G x y \<longleftrightarrow> (x, y) \<in> pts cs)) \<and>
     (pin \<longrightarrow> (\<exists>x y. INRECT rect x y \<and> G x y)) \<and> (pout \<longrightarrow> (\<exists>x y. INRECT rect x y \<and> \<not> G x y)) \<and>
     (\<not> pin \<and> \<not> pout \<longrightarrow> ry = rtop rect)"

definition verdict :: "MWRECT \<Rightarrow> (MWCOORD \<Rightarrow> MWCOORD \<Rightarrow> bool) \<Rightarrow> bool \<times> MWCOORD \<Rightarrow> bool" where
  "verdict rect G res =
    (if \<not> fst res then \<forall>x y. INRECT rect x y \<longrightarrow> \<not> G x y
     else if snd res < rbottom rect
     then (\<exists>x y. INRECT rect x y \<and> G x y) \<and> (\<exists>x y. INRECT rect x y \<and> \<not> G x y)
     else \<forall>x y. INRECT rect x y \<longrightarrow> G x y)"

lemma verdict_part:
  "INRECT rect x y \<Longrightarrow> G x y \<Longrightarrow> INRECT rect x' y' \<Longrightarrow> \<not> G x' y' \<Longrightarrow> ry < rbottom rect \<Longrightarrow>
   verdict rect G (True, ry)"
  by (auto simp: verdict_def)

lemma verdict_out: "(\<And>x y. INRECT rect x y \<Longrightarrow> \<not> G x y) \<Longrightarrow> verdict rect G (False, ry)"
  by (simp add: verdict_def)

text \<open>A rectangle that does not meet the part of \<open>rect\<close> from \<open>ry\<close> on can be skipped.\<close>

lemma scan_inv_skip:
  assumes "scan_inv rect G (c # cs) ry pin pout"
    and "\<And>x y. INRECT rect x y \<Longrightarrow> ry \<le> y \<Longrightarrow> \<not> INRECT c x y"
  shows "scan_inv rect G cs ry pin pout"
proof -
  have "in_order cs" using assms(1) by (simp add: scan_inv_def in_order_Cons)
  moreover have "\<forall>x y. INRECT rect x y \<and> ry \<le> y \<longrightarrow> (G x y \<longleftrightarrow> (x, y) \<in> pts cs)"
    using assms by (auto simp: scan_inv_def rect_pts_def)
  ultimately show ?thesis using assms(1) unfolding scan_inv_def by blast
qed

text \<open>Moving down to the top of the next rectangle: the rows in between are outside.\<close>

lemma scan_inv_gap:
  assumes inv: "scan_inv rect G (c # cs) ry pin pout" and r: "rleft rect < rright rect"
    and top: "rtop c > ry" "\<not> pin" "rtop c < rbottom rect"
  shows "scan_inv rect G (c # cs) (rtop c) False True"
proof -
  have ord: "in_order (c # cs)" using inv by (simp add: scan_inv_def)
  have out: "\<not> G x y" if "INRECT rect x y" "y < rtop c" for x y
    using inv that first_rect_top [OF ord, of x y] top(2) unfolding scan_inv_def by (cases "y < ry") force+
  moreover have "INRECT rect (rleft rect) ry" using inv r by (simp add: scan_inv_def INRECT_def)
  ultimately have "\<exists>x y. INRECT rect x y \<and> \<not> G x y" using top(1) by blast
  then show ?thesis using inv out top unfolding scan_inv_def by force
qed

text \<open>A covered row: the rows of \<open>c\<close> are inside the region.\<close>

lemma scan_inv_covered:
  assumes inv: "scan_inv rect G (c # cs) ry pin False" and r: "rleft rect < rright rect"
    and c: "rtop c \<le> ry" "ry < rbottom c" "rleft c \<le> rleft rect" "rright rect \<le> rright c"
  shows "rbottom c \<ge> rbottom rect \<Longrightarrow> verdict rect G (True, rbottom c)"
    and "rbottom c < rbottom rect \<Longrightarrow> scan_inv rect G cs (rbottom c) True False"
proof -
  have ord: "in_order (c # cs)" using inv by (simp add: scan_inv_def)
  have inside: "G x y" if xy: "INRECT rect x y" "y < rbottom c" for x y
  proof (cases "y < ry")
    case True
    then have "pin" using inv xy by (auto simp: scan_inv_def INRECT_def)
    then show ?thesis using inv xy True by (simp add: scan_inv_def)
  next
    case False
    then have "INRECT c x y" using xy c by (simp add: INRECT_def)
    then show ?thesis using inv xy False by (simp add: scan_inv_def)
  qed
  show "rbottom c \<ge> rbottom rect \<Longrightarrow> verdict rect G (True, rbottom c)"
    using inside by (auto simp: verdict_def INRECT_def)
  assume below: "rbottom c < rbottom rect"
  have "INRECT rect (rleft rect) ry" using inv r by (simp add: scan_inv_def INRECT_def)
  then have ex: "\<exists>x y. INRECT rect x y \<and> G x y" using inside c(2) by blast
  have rest: "G x y \<longleftrightarrow> (x, y) \<in> pts cs" if "INRECT rect x y" "rbottom c \<le> y" for x y
  proof -
    have "\<not> INRECT c x y" "ry \<le> y" using that c by (simp_all add: INRECT_def)
    then show ?thesis using inv that by (simp add: scan_inv_def rect_pts_def)
  qed
  show "scan_inv rect G cs (rbottom c) True False"
    using ord inside ex rest below c inv unfolding scan_inv_def by (simp add: in_order_Cons)
qed

text \<open>A missed row: the band starts to the right of the rectangle.\<close>

lemma scan_inv_missed:
  assumes inv: "scan_inv rect G (c # cs) ry False pout" and r: "rleft rect < rright rect"
    and c: "rtop c \<le> ry" "ry < rbottom c" "rright rect \<le> rleft c"
  shows "rbottom c \<ge> rbottom rect \<Longrightarrow> verdict rect G (False, rbottom c)"
    and "rbottom c < rbottom rect \<Longrightarrow> scan_inv rect G cs (rbottom c) False True"
proof -
  have ord: "in_order (c # cs)" and cne: "rleft c < rright c" using inv by (auto simp: scan_inv_def in_order_Cons)
  have outside: "\<not> G x y" if xy: "INRECT rect x y" "y < rbottom c" for x y
  proof (cases "y < ry")
    case False
    then have "(x, y) \<notin> pts (c # cs)"
      using first_rect_row [OF ord, of y x] xy c cne by (auto simp: INRECT_def)
    then show ?thesis using inv xy False by (simp add: scan_inv_def)
  qed (use inv xy in \<open>simp add: scan_inv_def\<close>)
  show "rbottom c \<ge> rbottom rect \<Longrightarrow> verdict rect G (False, rbottom c)"
    using outside by (auto simp: verdict_def INRECT_def)
  assume below: "rbottom c < rbottom rect"
  have "INRECT rect (rleft rect) ry" using inv r by (simp add: scan_inv_def INRECT_def)
  then have ex: "\<exists>x y. INRECT rect x y \<and> \<not> G x y" using outside c(2) by blast
  have rest: "G x y \<longleftrightarrow> (x, y) \<in> pts cs" if "INRECT rect x y" "rbottom c \<le> y" for x y
  proof -
    have "\<not> INRECT c x y" "ry \<le> y" using that c by (simp_all add: INRECT_def)
    then show ?thesis using inv that by (simp add: scan_inv_def rect_pts_def)
  qed
  show "scan_inv rect G cs (rbottom c) False True"
    using ord outside ex rest below c inv unfolding scan_inv_def by (simp add: in_order_Cons)
qed

lemma rect_in_scan_verdict:
  assumes r: "rleft rect < rright rect"
  shows "scan_inv rect G cs ry pin pout \<Longrightarrow> verdict rect G (rect_in_scan rect cs (rleft rect) ry pin pout)"
proof (induction cs arbitrary: ry pin pout)
  case Nil
  have "INRECT rect (rleft rect) ry" using Nil r by (simp add: scan_inv_def INRECT_def)
  then have row: "\<not> G (rleft rect) ry" using Nil by (simp add: scan_inv_def)
  then have out: "\<exists>x y. INRECT rect x y \<and> \<not> G x y" using \<open>INRECT rect (rleft rect) ry\<close> by blast
  show ?case
  proof (cases pin)
    case True
    then show ?thesis using Nil out by (simp add: scan_inv_def verdict_def)
  next
    case False
    have "\<not> G x y" if "INRECT rect x y" for x y
      using Nil that False by (cases "y < ry") (auto simp: scan_inv_def)
    then show ?thesis using False by (simp add: verdict_out)
  qed
next
  case (Cons c cs)
  note inv0 = Cons.prems
  have ord: "in_order (c # cs)" and ne: "rleft c < rright c" "rtop c < rbottom c"
    using inv0 by (auto simp: scan_inv_def in_order_Cons)
  have here: "INRECT rect (rleft rect) ry" using inv0 r by (simp add: scan_inv_def INRECT_def)
  have G_here: "G x ry \<longleftrightarrow> (x, ry) \<in> pts (c # cs)" if "INRECT rect x ry" for x
    using inv0 that by (simp add: scan_inv_def)
  show ?case
  proof (cases "rbottom c \<le> ry")
    case True
    have "scan_inv rect G cs ry pin pout"
      by (rule scan_inv_skip [OF inv0]) (use True in \<open>simp add: INRECT_def\<close>)
    then show ?thesis using Cons.IH True by simp
  next
    case bot: False
    show ?thesis
    proof (cases "rtop c > ry \<and> (pin \<or> rtop c \<ge> rbottom rect)")
      case True
      have none: "\<not> G x y" if "INRECT rect x y" "ry \<le> y" "y < rtop c" for x y
        using inv0 that first_rect_top [OF ord, of x y] unfolding scan_inv_def by force
      have "verdict rect G (pin, ry)"
      proof (cases pin)
        case True
        have "\<exists>x y. INRECT rect x y \<and> \<not> G x y"
          using here none [OF here] \<open>rtop c > ry \<and> _\<close> by blast
        then show ?thesis using inv0 True by (simp add: verdict_def scan_inv_def)
      next
        case False
        have "\<not> G x y" if "INRECT rect x y" for x y
          using inv0 that False none [OF that] \<open>rtop c > ry \<and> _\<close>
          by (cases "y < ry") (auto simp: scan_inv_def INRECT_def)
        then show ?thesis using False by (simp add: verdict_out)
      qed
      then show ?thesis using True bot by simp
    next
      case False
      define ry1 where "ry1 = (if rtop c > ry then rtop c else ry)"
      define pout1 where "pout1 = (pout \<or> rtop c > ry)"
      have inv: "scan_inv rect G (c # cs) ry1 pin pout1"
      proof (cases "rtop c > ry")
        case True
        then have "\<not> pin" "rtop c < rbottom rect" using False by auto
        then show ?thesis using scan_inv_gap [OF inv0 r True] True by (simp add: ry1_def pout1_def)
      next
        case False
        then show ?thesis using inv0 by (simp add: ry1_def pout1_def)
      qed
      have row: "rtop c \<le> ry1" "ry1 < rbottom c" using bot ne by (auto simp: ry1_def)
      have here1: "INRECT rect x ry1" if "rleft rect \<le> x" "x < rright rect" for x
        using inv that by (simp add: scan_inv_def INRECT_def)
      have G1: "G x ry1 \<longleftrightarrow> (x, ry1) \<in> pts (c # cs)" if "rleft rect \<le> x" "x < rright rect" for x
        using inv here1 [OF that] by (simp add: scan_inv_def)
      have in_c: "G x ry1" if "rleft rect \<le> x" "x < rright rect" "rleft c \<le> x" "x < rright c" for x
        using G1 [OF that(1,2)] that row by (simp add: INRECT_def)
      have out_c: "\<not> G x ry1" if "rleft rect \<le> x" "x < rright rect" "x < rleft c \<or> x = rright c" for x
        using G1 [OF that(1,2)] first_rect_row [OF ord row, of x] that(3) ne by auto
      have ryB: "ry1 < rbottom rect" using inv by (simp add: scan_inv_def)
      have scan: "rect_in_scan rect (c # cs) (rleft rect) ry pin pout =
        (if rright c \<le> rleft rect then rect_in_scan rect cs (rleft rect) ry1 pin pout1
         else if rleft c > rleft rect \<and> pin then (pin, ry1)
         else if rleft c < rright rect \<and> (pout1 \<or> rleft c > rleft rect) then (pin \<or> rleft c < rright rect, ry1)
         else if rright c \<ge> rright rect then
           (if rbottom c \<ge> rbottom rect then (pin \<or> rleft c < rright rect, rbottom c)
            else rect_in_scan rect cs (rleft rect) (rbottom c) (pin \<or> rleft c < rright rect)
              (pout1 \<or> rleft c > rleft rect))
         else (pin \<or> rleft c < rright rect, ry1))"
        using bot False
        by (simp only: rect_in_scan.simps Let_def ry1_def [symmetric] pout1_def [symmetric] if_False)
      consider (skip) "rright c \<le> rleft rect"
        | (gap) "rleft rect < rright c" "rleft c > rleft rect" "pin"
        | (enter) "rleft rect < rright c" "\<not> (rleft c > rleft rect \<and> pin)" "rleft c < rright rect"
            "pout1 \<or> rleft c > rleft rect"
        | (cover) "rleft c \<le> rleft rect" "\<not> pout1" "rright rect \<le> rright c"
        | (short) "rleft rect < rright c" "rleft c \<le> rleft rect" "\<not> pout1" "rright c < rright rect"
        | (miss) "rright rect \<le> rleft c" "\<not> pin"
        using ne r by linarith
      then show ?thesis
      proof cases
        case skip
        have "scan_inv rect G cs ry1 pin pout1"
          by (rule scan_inv_skip [OF inv]) (use skip in \<open>simp add: INRECT_def\<close>)
        then show ?thesis using Cons.IH skip unfolding scan by simp
      next
        case gap
        then have "\<not> G (rleft rect) ry1" using out_c r by simp
        moreover have "\<exists>x y. INRECT rect x y \<and> G x y" using inv gap by (simp add: scan_inv_def)
        ultimately have "verdict rect G (True, ry1)"
          using here1 [of "rleft rect"] r ryB by (auto simp: verdict_def)
        then show ?thesis using gap unfolding scan by simp
      next
        case enter
        have "G (max (rleft rect) (rleft c)) ry1" "INRECT rect (max (rleft rect) (rleft c)) ry1"
          using enter in_c here1 r ne by auto
        moreover have "\<exists>x y. INRECT rect x y \<and> \<not> G x y"
        proof (cases pout1)
          case True
          then show ?thesis using inv by (simp add: scan_inv_def)
        next
          case False
          then have "\<not> G (rleft rect) ry1" using enter(4) out_c [of "rleft rect"] r by simp
          then show ?thesis using here1 [of "rleft rect"] r by blast
        qed
        ultimately have "verdict rect G (True, ry1)" using ryB by (auto simp: verdict_def)
        then show ?thesis using enter unfolding scan by simp
      next
        case cover
        then have inv': "scan_inv rect G (c # cs) ry1 pin False" using inv by simp
        note cov = scan_inv_covered [OF inv' r row cover(1,3)]
        show ?thesis using cov Cons.IH cover r ne unfolding scan by auto
      next
        case short
        have "G (rleft rect) ry1" "\<not> G (rright c) ry1" "INRECT rect (rleft rect) ry1" "INRECT rect (rright c) ry1"
          using short in_c out_c here1 r by auto
        then have "verdict rect G (True, ry1)" using ryB by (metis verdict_part)
        then show ?thesis using short r unfolding scan by simp
      next
        case miss
        then have inv': "scan_inv rect G (c # cs) ry1 False pout1" using inv by simp
        note mis = scan_inv_missed [OF inv' r row miss(1)]
        show ?thesis using mis Cons.IH miss r ne unfolding scan by auto
      qed
    qed
  qed
qed

lemma GdRectInRegion_spec:
  assumes ok: "rgn_ok rgn" and r: "rleft rect < rright rect" "rtop rect < rbottom rect"
  shows "GdRectInRegion rgn rect =
    (if rect_pts rect \<inter> rgn_pts rgn = {} then MWRECT_OUT
     else if rect_pts rect \<subseteq> rgn_pts rgn then MWRECT_ALLIN else MWRECT_PARTIN)"
proof (cases "numRects rgn = 0 \<or> \<not> EXTENTCHECK (extents rgn) rect")
  case True
  have "rect_pts rect \<inter> rgn_pts rgn = {}"
  proof (cases "rects rgn = []")
    case False
    have "is_bbox (extents rgn) (rgn_pts rgn)" by (rule rgn_bbox [OF ok False])
    then show ?thesis
      using True False is_bbox_in [of "extents rgn" "rgn_pts rgn"]
      by (force simp: EXTENTCHECK_def INRECT_def rect_pts_def)
  qed (simp add: rgn_pts_Nil)
  then show ?thesis using True by (simp add: GdRectInRegion_def)
next
  case False
  define G where "G x y = ((x, y) \<in> rgn_pts rgn)" for x y
  have "scan_inv rect G (rects rgn) (rtop rect) False False"
    using canonical_in_order [OF rgn_okD(1) [OF ok]] r
    by (auto simp: scan_inv_def G_def rgn_pts_def INRECT_def)
  then have v: "verdict rect G (rect_in_scan rect (rects rgn) (rleft rect) (rtop rect) False False)"
    by (rule rect_in_scan_verdict [OF r(1)])
  have corner: "INRECT rect (rleft rect) (rtop rect)" using r by (simp add: INRECT_def)
  obtain pin ry where s: "rect_in_scan rect (rects rgn) (rleft rect) (rtop rect) False False = (pin, ry)"
    by (cases "rect_in_scan rect (rects rgn) (rleft rect) (rtop rect) False False")
  have inter: "rect_pts rect \<inter> rgn_pts rgn = {} \<longleftrightarrow> (\<forall>x y. INRECT rect x y \<longrightarrow> \<not> G x y)"
    by (auto simp: G_def rect_pts_def)
  have sub: "rect_pts rect \<subseteq> rgn_pts rgn \<longleftrightarrow> (\<forall>x y. INRECT rect x y \<longrightarrow> G x y)"
    by (auto simp: G_def rect_pts_def)
  show ?thesis
    using v corner False unfolding GdRectInRegion_def s verdict_def inter sub by auto
qed

section \<open>The value read past the band\<close>

text \<open>The value that \<open>REGION_SubtractO\<close> may read past the end of the band is never used.\<close>

lemma subtract_all_beyond:
  "subtract_all beyond reg r1 r2 left t bo = subtract_all beyond' reg r1 r2 left t bo"
proof (induction "length r1 + length r2" arbitrary: reg r1 r2 left rule: less_induct)
  case less
  show ?case
  proof (cases r1)
    case Nil
    then show ?thesis by (simp add: subtract_all_Nil)
  next
    case (Cons a as)
    note r1 = this
    show ?thesis
    proof (cases r2)
      case Nil
      then show ?thesis by (simp add: subtract_all_Nil)
    next
      case (Cons b bs)
      have a: "subtract_all beyond g as (b # bs) (if as \<noteq> [] then rleft (hd as) else d) t bo =
          subtract_all beyond' g as (b # bs) (if as \<noteq> [] then rleft (hd as) else d) t bo" for g d
        using less r1 Cons by simp
      have a': "subtract_all beyond' g as (b # bs) (if as \<noteq> [] then rleft (hd as) else beyond) t bo =
          subtract_all beyond' g as (b # bs) (if as \<noteq> [] then rleft (hd as) else beyond') t bo" for g
        by (cases as) (simp_all add: subtract_all_Nil)
      have b: "subtract_all beyond g (a # as) bs d t bo = subtract_all beyond' g (a # as) bs d t bo" for g d
        using less r1 Cons by simp
      show ?thesis
        unfolding r1 Cons subtract_all_step Let_def a a' b ..
    qed
  qed
qed

lemma SubtractO_beyond: "REGION_SubtractO beyond = REGION_SubtractO beyond'"
  using subtract_all_beyond by (simp add: fun_eq_iff REGION_SubtractO_def subtract_all_def)

end
