(* ===== verification/Rgn_Bitmap.thy ===== *)
theory Rgn_Bitmap
  imports Rgn_Queries
begin

text \<open>
  \<open>GdAllocBitmapRegion\<close> builds the region of the set bits of a bitmap, and \<open>GdOffsetRegion\<close>
  translates a region.
\<close>

section \<open>Translation\<close>

lemma offset_rect_simps [simp]:
  "rleft (offset_rect dx dy r) = rleft r + dx" "rtop (offset_rect dx dy r) = rtop r + dy"
  "rright (offset_rect dx dy r) = rright r + dx" "rbottom (offset_rect dx dy r) = rbottom r + dy"
  by (simp_all add: offset_rect_def)

lemma xsorted_offset: "xsorted (map (offset_rect dx dy) rs) = xsorted rs"
  by (induction rs) auto

lemma is_band_offset: "is_band (map (offset_rect dx dy) B) = is_band B"
proof (cases B)
  case (Cons r rs)
  have "has_rows (rtop r + dy) (rbottom r + dy) (map (offset_rect dx dy) rs) = has_rows (rtop r) (rbottom r) rs"
    by (auto simp: has_rows_def)
  then show ?thesis using xsorted_offset [of dx dy B] Cons by (simp add: is_band_def has_rows_def)
qed (simp add: is_band_def)

lemma spans_offset: "spans (map (offset_rect dx dy) B) = map (\<lambda>(l, r). (l + dx, r + dx)) (spans B)"
  by (simp add: spans_def)

lemma spans_offset_eq:
  "spans (map (offset_rect dx dy) B) = spans (map (offset_rect dx dy) C) \<longleftrightarrow> spans B = spans C"
proof -
  have "inj (\<lambda>(l :: int, r :: int). (l + dx, r + dx))" by (auto simp: inj_on_def)
  then show ?thesis by (simp add: spans_offset inj_map_eq_map)
qed

lemma stack_offset:
  "stack bs \<Longrightarrow> stack (map (map (offset_rect dx dy)) bs)"
proof (induction bs)
  case (Cons B bs)
  have hd: "hd (map (offset_rect dx dy) C) = offset_rect dx dy (hd C)" if "is_band C" for C
    using is_bandD(1) [OF that] by (rule hd_map)
  have "is_band C" if "C \<in> set (B # bs)" for C using Cons.prems that by (rule stack_band)
  then show ?case using Cons hd by (simp add: stack_Cons is_band_offset)
qed simp

lemma tight_offset:
  "stack bs \<Longrightarrow> tight bs \<Longrightarrow> tight (map (map (offset_rect dx dy)) bs)"
proof (induction bs rule: induct_list012)
  case (3 B C bs)
  then have ne: "B \<noteq> []" "C \<noteq> []" by (auto simp: stack_Cons is_bandD)
  have "mergeable (map (offset_rect dx dy) B) (map (offset_rect dx dy) C) = mergeable B C"
    using ne by (simp add: mergeable_def spans_offset_eq hd_map)
  moreover have "stack (C # bs)" "tight (C # bs)" using 3 by (auto simp: stack_Cons tight_def)
  ultimately show ?case using 3 by (simp add: tight_def)
qed (simp_all add: tight_def)

lemma canonical_offset: "canonical rs \<Longrightarrow> canonical (map (offset_rect dx dy) rs)"
proof -
  assume "canonical rs"
  then obtain bs where bs: "rs = concat bs" "stack bs" "tight bs" by (rule canonicalE)
  then show ?thesis
    using canonical_concat [OF stack_offset [OF bs(2), of dx dy] tight_offset [OF bs(2,3), of dx dy]]
    by (simp add: map_concat)
qed

lemma INRECT_offset: "INRECT (offset_rect dx dy r) x y \<longleftrightarrow> INRECT r (x - dx) (y - dy)"
  by (auto simp: INRECT_def)

lemma pts_offset: "(x, y) \<in> pts (map (offset_rect dx dy) rs) \<longleftrightarrow> (x - dx, y - dy) \<in> pts rs"
  by (simp add: in_pts INRECT_offset)

lemma is_bbox_offset:
  assumes "is_bbox e F"
  shows "is_bbox (offset_rect dx dy e) {(x, y). (x - dx, y - dy) \<in> F}"
proof -
  obtain a1 a2 a3 a4 where a: "(rleft e, a1) \<in> F" "(rright e - 1, a2) \<in> F" "(a3, rtop e) \<in> F" "(a4, rbottom e - 1) \<in> F"
    using assms by (auto simp: is_bbox_def)
  have "\<exists>y. (rleft e + dx - dx, y - dy) \<in> F" using a(1) by (intro exI [of _ "a1 + dy"]) simp
  moreover have "\<exists>y. (rright e + dx - 1 - dx, y - dy) \<in> F" using a(2) by (intro exI [of _ "a2 + dy"]) simp
  moreover have "\<exists>x. (x - dx, rtop e + dy - dy) \<in> F" using a(3) by (intro exI [of _ "a3 + dx"]) simp
  moreover have "\<exists>x. (x - dx, rbottom e + dy - 1 - dy) \<in> F" using a(4) by (intro exI [of _ "a4 + dx"]) simp
  ultimately show ?thesis
    using is_bbox_in [OF assms] unfolding is_bbox_def by (simp add: INRECT_offset case_prod_unfold)
qed

lemma GdOffsetRegion_ok:
  assumes "rgn_ok rgn"
  shows "rgn_ok (GdOffsetRegion rgn dx dy)"
    and "rgn_pts (GdOffsetRegion rgn dx dy) = {(x, y). (x - dx, y - dy) \<in> rgn_pts rgn}"
proof -
  have pts: "pts (map (offset_rect dx dy) (rects rgn)) = {(x, y). (x - dx, y - dy) \<in> rgn_pts rgn}"
    using pts_offset by (auto simp: rgn_pts_def)
  show "rgn_pts (GdOffsetRegion rgn dx dy) = {(x, y). (x - dx, y - dy) \<in> rgn_pts rgn}"
    using pts by (auto simp: GdOffsetRegion_def rgn_pts_def)
  show "rgn_ok (GdOffsetRegion rgn dx dy)"
  proof (cases "numRects rgn \<noteq> 0 \<and> (dx \<noteq> 0 \<or> dy \<noteq> 0)")
    case True
    then have "is_bbox (extents rgn) (rgn_pts rgn)" using rgn_bbox [OF assms] by simp
    from is_bbox_offset [OF this, of dx dy] show ?thesis
      using True assms pts canonical_offset [OF rgn_okD(1) [OF assms], of dx dy]
      by (simp add: GdOffsetRegion_def rgn_ok_def extents_ok_def rgn_pts_def numRects_def)
  next
    case False
    then have "GdOffsetRegion rgn dx dy = rgn" by (auto simp: GdOffsetRegion_def)
    then show ?thesis using assms by simp
  qed
qed

section \<open>Bitmaps\<close>

text \<open>The pixel \<open>(x, y)\<close> of a bitmap whose rows have \<open>wpr\<close> words, most significant bit first.\<close>

definition bitmap_pixel :: "16 word list \<Rightarrow> nat \<Rightarrow> nat \<Rightarrow> nat \<Rightarrow> bool" where
  "bitmap_pixel bitmap wpr x y = bit (bitmap ! (y * wpr + x div 16)) (15 - x mod 16)"

definition MWIMAGE_WORDS :: "nat \<Rightarrow> nat" where
  "MWIMAGE_WORDS x = (x + 15) div 16"

definition bitmap_pts :: "16 word list \<Rightarrow> nat \<Rightarrow> nat \<Rightarrow> (MWCOORD \<times> MWCOORD) set" where
  "bitmap_pts bitmap w h =
     {(int x, int y) |x y. x < w \<and> y < h \<and> bitmap_pixel bitmap (MWIMAGE_WORDS w) x y}"

lemma union_rect_ok:
  assumes "rgn_ok rgn" and "l < r" and "t < b"
  shows "rgn_ok (union_rect (mkrect l t r b) rgn)"
    and "rgn_pts (union_rect (mkrect l t r b) rgn) = rgn_pts rgn \<union> rect_pts (mkrect l t r b)"
  using union_rect_stores [of "\<lambda>p. rgn" 0 "mkrect l t r b"] assms
  by (simp_all add: stores_def union_rect_def)

text \<open>
  Inside row \<open>y\<close>, after \<open>n\<close> pixels: which words have been read, what is left of the current one,
  and the points collected so far (\<open>base\<close> are those of the rows above).
\<close>

definition row_inv ::
  "16 word list \<Rightarrow> nat \<Rightarrow> nat \<Rightarrow> (MWCOORD \<times> MWCOORD) set \<Rightarrow> nat \<Rightarrow> bitmap_state \<Rightarrow> bool" where
  "row_inv bitmap wpr y base n s \<longleftrightarrow> rgn_ok (bm_rgn s) \<and>
     bm_i s = y * wpr + (n + 15) div 16 \<and>
     bm_bitnum s = int ((16 - n mod 16) mod 16) \<and>
     (n mod 16 \<noteq> 0 \<longrightarrow> bm_bits s = push_bit (n mod 16) (bitmap ! (y * wpr + n div 16))) \<and>
     (bm_inrect s \<longrightarrow> 0 \<le> bm_left s \<and> bm_left s < int n \<and>
        (\<forall>x<n. bm_left s \<le> int x \<longrightarrow> bitmap_pixel bitmap wpr x y)) \<and>
     rgn_pts (bm_rgn s) = base \<union>
       {(int x, int y) |x. x < n \<and> bitmap_pixel bitmap wpr x y \<and> (bm_inrect s \<longrightarrow> int x < bm_left s)}"

lemma end_run_pts:
  assumes inv: "row_inv bitmap wpr y base n s"
  shows "rgn_ok (bm_rgn (end_run (int y) (int n) s))"
    and "rgn_pts (bm_rgn (end_run (int y) (int n) s)) =
           base \<union> {(int x, int y) |x. x < n \<and> bitmap_pixel bitmap wpr x y}"
proof -
  have "rgn_ok (bm_rgn (end_run (int y) (int n) s)) \<and> rgn_pts (bm_rgn (end_run (int y) (int n) s)) =
           base \<union> {(int x, int y) |x. x < n \<and> bitmap_pixel bitmap wpr x y}"
  proof (cases "bm_inrect s")
    case True
    then have l: "0 \<le> bm_left s" "bm_left s < int n"
      and all: "\<forall>x<n. bm_left s \<le> int x \<longrightarrow> bitmap_pixel bitmap wpr x y"
      and ok: "rgn_ok (bm_rgn s)"
      and pts: "rgn_pts (bm_rgn s) = base \<union>
        {(int x, int y) |x. x < n \<and> bitmap_pixel bitmap wpr x y \<and> int x < bm_left s}"
      using inv by (simp_all add: row_inv_def)
    have run: "rect_pts (mkrect (bm_left s) (int y) (int n) (int y + 1)) =
        {(int x, int y) |x. x < n \<and> bm_left s \<le> int x}"
    proof -
      have "\<exists>x'. x = int x' \<and> x' < n" if "bm_left s \<le> x" "x < int n" for x
        using that l by (intro exI [of _ "nat x"]) auto
      then show ?thesis by (fastforce simp: rect_pts_def INRECT_def)
    qed
    have u: "rgn_ok (union_rect (mkrect (bm_left s) (int y) (int n) (int y + 1)) (bm_rgn s))"
      "rgn_pts (union_rect (mkrect (bm_left s) (int y) (int n) (int y + 1)) (bm_rgn s)) =
       rgn_pts (bm_rgn s) \<union> rect_pts (mkrect (bm_left s) (int y) (int n) (int y + 1))"
      by (rule union_rect_ok [OF ok l(2)]; simp)+
    show ?thesis
      using True u(1) all unfolding end_run_def by (auto simp: u(2) run pts not_less)
  next
    case False
    then show ?thesis using inv by (simp add: end_run_def row_inv_def)
  qed
  then show "rgn_ok (bm_rgn (end_run (int y) (int n) s))"
    and "rgn_pts (bm_rgn (end_run (int y) (int n) s)) =
           base \<union> {(int x, int y) |x. x < n \<and> bitmap_pixel bitmap wpr x y}" by blast+
qed

text \<open>What fetching a bit does to the reading position.\<close>

lemma fetch_bits_row:
  assumes inv: "row_inv bitmap wpr y base n s" and len: "y * wpr + n div 16 < length bitmap"
  shows "\<exists>s'. fetch_bits bitmap s = Some s' \<and> bm_rgn s' = bm_rgn s \<and> bm_left s' = bm_left s \<and>
    bm_inrect s' = bm_inrect s \<and> bm_i s' = y * wpr + (Suc n + 15) div 16 \<and>
    bm_bitnum s' = int ((16 - Suc n mod 16) mod 16) \<and>
    bm_bits s' = push_bit (n mod 16) (bitmap ! (y * wpr + n div 16))"
proof (cases "n mod 16 = 0")
  case True
  then obtain k where n: "n = 16 * k" by auto
  then have "(n + 15) div 16 = k" "(Suc n + 15) div 16 = Suc k" "Suc n mod 16 = 1" "n div 16 = k" by presburger+
  then show ?thesis using inv len True by (simp add: row_inv_def fetch_bits_def)
next
  case False
  define m where "m = n mod 16"
  have m: "0 < m" "m < 16" using False by (simp_all add: m_def)
  have cut: "(16 - m) mod 16 = 16 - m" using m by simp
  have sm: "Suc n mod 16 = (if m = 15 then 0 else Suc m)" by (auto simp: mod_Suc m_def)
  have "int ((16 - Suc n mod 16) mod 16) = int (16 - m) - 1" unfolding sm using m by auto
  moreover have "(Suc n + 15) div 16 = (n + 15) div 16"
  proof -
    have "n + 15 = (m - 1) + (n div 16 + 1) * 16" using m div_mult_mod_eq [of n 16] by (simp add: m_def)
    then have "(n + 15) div 16 = (n div 16 + 1) + (m - 1) div 16" by simp
    then show ?thesis using m by simp
  qed
  ultimately show ?thesis using inv m cut by (simp add: row_inv_def fetch_bits_def flip: m_def)
qed

lemma bit_of_word16:
  fixes w :: "16 word"
  assumes "k < 16"
  shows "bit (push_bit k w) 15 = bit w (15 - k)"
  using assms by (simp add: bit_push_bit_iff)

lemma use_pixel_row:
  assumes inv: "row_inv bitmap wpr y base n s" and len: "y * wpr + n div 16 < length bitmap"
  shows "\<exists>s'. map_option (use_pixel (int y) (int n)) (fetch_bits bitmap s) = Some s' \<and>
    row_inv bitmap wpr y base (Suc n) s'"
proof -
  obtain s1 where f: "fetch_bits bitmap s = Some s1"
    and same: "bm_rgn s1 = bm_rgn s" "bm_left s1 = bm_left s" "bm_inrect s1 = bm_inrect s"
    and pos: "bm_i s1 = y * wpr + (Suc n + 15) div 16" "bm_bitnum s1 = int ((16 - Suc n mod 16) mod 16)"
    and bits: "bm_bits s1 = push_bit (n mod 16) (bitmap ! (y * wpr + n div 16))"
    using fetch_bits_row [OF assms] by blast
  have pix: "bit (bm_bits s1) 15 = bitmap_pixel bitmap wpr n y"
    using bits by (simp add: bit_of_word16 bitmap_pixel_def)
  let ?s = "use_pixel (int y) (int n) s1"
  have ctrl: "bm_i ?s = bm_i s1" "bm_bitnum ?s = bm_bitnum s1" "bm_bits ?s = push_bit 1 (bm_bits s1)"
    by (simp_all add: use_pixel_def end_run_def Let_def)
  have next_bits: "bm_bits ?s = push_bit (Suc n mod 16) (bitmap ! (y * wpr + Suc n div 16))"
    if "Suc n mod 16 \<noteq> 0"
  proof -
    have "Suc n mod 16 = Suc (n mod 16)" "Suc n div 16 = n div 16"
      using that by (simp_all add: mod_Suc div_Suc split: if_splits)
    then show ?thesis using ctrl(3) bits by (simp add: push_bit_push_bit)
  qed
  have less: "x < Suc n \<longleftrightarrow> x < n \<or> x = n" for x by auto
  have "row_inv bitmap wpr y base (Suc n) ?s"
  proof (cases "bitmap_pixel bitmap wpr n y")
    case True
    then have s: "?s = (if \<not> bm_inrect s1 then s1\<lparr>bm_inrect := True, bm_left := int n\<rparr> else s1)
        \<lparr>bm_bits := push_bit 1 (bm_bits s1)\<rparr>"
      using pix by (simp add: use_pixel_def Let_def)
    have fields: "bm_rgn ?s = bm_rgn s" "bm_inrect ?s"
      "bm_left ?s = (if bm_inrect s then bm_left s else int n)"
      using same by (simp_all add: s)
    have run: "0 \<le> bm_left ?s \<and> bm_left ?s < int (Suc n) \<and>
        (\<forall>x<Suc n. bm_left ?s \<le> int x \<longrightarrow> bitmap_pixel bitmap wpr x y)"
    proof (cases "bm_inrect s")
      case True
      then have "0 \<le> bm_left s" "bm_left s < int n"
        "\<forall>x<n. bm_left s \<le> int x \<longrightarrow> bitmap_pixel bitmap wpr x y"
        using inv by (simp_all add: row_inv_def)
      then show ?thesis
        using True \<open>bitmap_pixel bitmap wpr n y\<close> by (auto simp: fields less_Suc_eq)
    qed (use \<open>bitmap_pixel bitmap wpr n y\<close> in \<open>simp add: fields less_Suc_eq\<close>)
    have "int x < bm_left ?s \<longleftrightarrow> x < n \<and> (bm_inrect s \<longrightarrow> int x < bm_left s)" for x
    proof (cases "bm_inrect s")
      case True
      then have "bm_left s < int n" using inv by (simp add: row_inv_def)
      then show ?thesis using True fields(3) by auto
    qed (simp add: fields(3))
    then have "x < Suc n \<and> bitmap_pixel bitmap wpr x y \<and> (bm_inrect ?s \<longrightarrow> int x < bm_left ?s) \<longleftrightarrow>
        x < n \<and> bitmap_pixel bitmap wpr x y \<and> (bm_inrect s \<longrightarrow> int x < bm_left s)" for x
      using fields(2) by (metis less_Suc_eq_le nat_less_le le_eq_less_or_eq less_SucI)
    then have "rgn_pts (bm_rgn ?s) = base \<union> {(int x, int y) |x. x < Suc n \<and>
        bitmap_pixel bitmap wpr x y \<and> (bm_inrect ?s \<longrightarrow> int x < bm_left ?s)}"
      using inv fields(1) by (simp add: row_inv_def)
    moreover have "rgn_ok (bm_rgn ?s)" using inv fields(1) by (simp add: row_inv_def)
    ultimately show ?thesis
      using run pos ctrl(1,2) next_bits unfolding row_inv_def by simp
  next
    case False
    have s: "?s = (end_run (int y) (int n) s1)\<lparr>bm_bits := push_bit 1 (bm_bits s1)\<rparr>"
      using False pix by (simp add: use_pixel_def end_run_def Let_def)
    have er: "bm_rgn (end_run (int y) (int n) s1) = bm_rgn (end_run (int y) (int n) s)"
      using same by (simp add: end_run_def)
    have "\<not> bm_inrect ?s" unfolding s by (simp add: end_run_def)
    moreover have "bm_rgn ?s = bm_rgn (end_run (int y) (int n) s)" using er by (simp add: s)
    moreover have "x < Suc n \<and> bitmap_pixel bitmap wpr x y \<longleftrightarrow> x < n \<and> bitmap_pixel bitmap wpr x y" for x
      using False by (auto simp: less_Suc_eq)
    ultimately show ?thesis
      using end_run_pts [OF inv] pos ctrl(1,2) next_bits unfolding row_inv_def by simp
  qed
  then show ?thesis using f by simp
qed

lemma bitmap_row_inv:
  assumes "row_inv bitmap wpr y base 0 s" and "n \<le> 16 * wpr" and "(y + 1) * wpr \<le> length bitmap"
  shows "\<exists>s'. bitmap_row bitmap (int y) n s = Some s' \<and> row_inv bitmap wpr y base n s'"
  using assms(2)
proof (induction n)
  case 0
  then show ?case using assms(1) by simp
next
  case (Suc n)
  then obtain s1 where s1: "bitmap_row bitmap (int y) n s = Some s1" "row_inv bitmap wpr y base n s1" by auto
  have "n div 16 < wpr" using Suc.prems by (simp add: less_mult_imp_div_less mult.commute Suc_le_eq)
  then have "y * wpr + n div 16 < length bitmap" using assms(3) by simp
  then show ?case using use_pixel_row [OF s1(2)] s1(1) by simp
qed

text \<open>Between two rows.\<close>

definition rows_inv :: "16 word list \<Rightarrow> nat \<Rightarrow> nat \<Rightarrow> bitmap_state \<Rightarrow> bool" where
  "rows_inv bitmap w n s \<longleftrightarrow> rgn_ok (bm_rgn s) \<and> bm_i s = n * MWIMAGE_WORDS w \<and> bm_bitnum s = 0 \<and>
     \<not> bm_inrect s \<and> rgn_pts (bm_rgn s) = bitmap_pts bitmap w n"

lemma bitmap_pts_Suc:
  "bitmap_pts bitmap w (Suc n) = bitmap_pts bitmap w n \<union>
     {(int x, int n) |x. x < w \<and> bitmap_pixel bitmap (MWIMAGE_WORDS w) x n}"
  by (auto simp: bitmap_pts_def less_Suc_eq)

lemma bitmap_rows_inv:
  assumes "rows_inv bitmap w 0 s" and "n * MWIMAGE_WORDS w \<le> length bitmap"
  shows "\<exists>s'. bitmap_rows bitmap w n s = Some s' \<and> rows_inv bitmap w n s'"
  using assms(2)
proof (induction n)
  case 0
  then show ?case using assms(1) by simp
next
  case (Suc n)
  let ?wpr = "MWIMAGE_WORDS w"
  obtain s1 where s1: "bitmap_rows bitmap w n s = Some s1" "rows_inv bitmap w n s1" using Suc by auto
  have "row_inv bitmap ?wpr n (bitmap_pts bitmap w n) 0 s1"
    using s1(2) by (simp add: rows_inv_def row_inv_def)
  moreover have "w \<le> 16 * ?wpr" unfolding MWIMAGE_WORDS_def by presburger
  moreover have "(n + 1) * ?wpr \<le> length bitmap" using Suc.prems by simp
  ultimately obtain s2 where s2: "bitmap_row bitmap (int n) w s1 = Some s2"
    "row_inv bitmap ?wpr n (bitmap_pts bitmap w n) w s2" using bitmap_row_inv by blast
  have "bm_i s2 = Suc n * ?wpr" using s2(2) by (simp add: row_inv_def MWIMAGE_WORDS_def)
  moreover have "bm_i (end_run (int n) (int w) s2) = bm_i s2" by (simp add: end_run_def)
  ultimately have "rows_inv bitmap w (Suc n) ((end_run (int n) (int w) s2)\<lparr>bm_inrect := False, bm_bitnum := 0\<rparr>)"
    using end_run_pts [OF s2(2)] by (simp add: rows_inv_def bitmap_pts_Suc)
  then show ?case using s1(1) s2(1) by simp
qed

lemma bitmap_region_spec:
  assumes "0 < w" and "0 < h" and "h * MWIMAGE_WORDS w \<le> length bitmap"
  shows "\<exists>rgn. GdAllocBitmapRegion (Some bitmap) (int w) (int h) = Some rgn \<and> rgn_ok rgn \<and>
    rgn_pts rgn = bitmap_pts bitmap w h"
proof -
  have "0 < MWIMAGE_WORDS w" using assms(1) unfolding MWIMAGE_WORDS_def by presburger
  then obtain b bs where b: "bitmap = b # bs" using assms(2,3) by (cases bitmap) auto
  let ?s = "\<lparr>bm_rgn = GdAllocRegion, bm_left = 0, bm_bits = b, bm_inrect = False, bm_bitnum = 0, bm_i = 0\<rparr>"
  have "rows_inv bitmap w 0 ?s"
    using GdAllocRegion_ok GdAllocRegion_pts by (simp add: rows_inv_def bitmap_pts_def)
  from bitmap_rows_inv [OF this assms(3)] obtain s' where
    "bitmap_rows bitmap w h ?s = Some s'" "rows_inv bitmap w h s'" by blast
  then show ?thesis using assms(1,2) b by (simp add: GdAllocBitmapRegion_def rows_inv_def)
qed

end
