(* ===== verification/Rgn_Props.thy ===== *)
theory Rgn_Props
  imports Rgn_Bitmap
begin

text \<open>
  The properties of the region component, over the model's definitions, and the interface
  \<open>region_algebra\<close> that the clip and window components use.
\<close>

section \<open>Two sample regions\<close>

text \<open>A store with two overlapping rectangles at 0 and 1, and empty regions elsewhere.\<close>

definition sample_store :: rgn_store where
  "sample_store p = (if p = 0 then GdAllocRectRegion 0 0 10 10
     else if p = 1 then GdAllocRectRegion 5 5 15 15 else GdAllocRegion)"

lemma GdAllocRectRegion_ok:
  "l \<le> r \<Longrightarrow> t \<le> b \<Longrightarrow> rgn_ok (GdAllocRectRegion l t r b)"
  "l \<le> r \<Longrightarrow> t \<le> b \<Longrightarrow>
     rgn_pts (GdAllocRectRegion l t r b) = {(x, y). l \<le> x \<and> x < r \<and> t \<le> y \<and> y < b}"
  unfolding GdAllocRectRegion_def
  by (rule GdSetRectRegion_ok; simp add: rgn_okD(4) [OF GdAllocRegion_ok])+

lemma sample_ok: "rgn_ok (sample_store p)"
  by (simp add: sample_store_def GdAllocRectRegion_ok GdAllocRegion_ok)

section \<open>The boolean operations\<close>

text \<open>
  C1. \<open>GdUnionRegion\<close> stores in its output region exactly the union of the two input point
  sets, in canonical y-x-banded form, with correct extents and within the allocated array, and
  leaves every other region alone; the output may be one of the inputs.
\<close>

theorem GdUnionRegion_correct:
  assumes "rgn_ok (h r1)" and "rgn_ok (h r2)" and "rgn_ok (h d)"
  shows "rgn_ok (GdUnionRegion h d r1 r2 d)
    \<and> rgn_pts (GdUnionRegion h d r1 r2 d) = rgn_pts (h r1) \<union> rgn_pts (h r2)
    \<and> (\<forall>p. p \<noteq> d \<longrightarrow> GdUnionRegion h d r1 r2 p = h p)"
  using union_stores [OF assms(1,2) rgn_okD(4) [OF assms(3)]] by (simp add: stores_def)

theorem GdUnionRegion_correct_witness:
  "rects (GdUnionRegion sample_store 0 0 1 0) =
     [mkrect 0 0 10 5, mkrect 0 5 15 10, mkrect 5 10 15 15]
   \<and> rgn_ok (GdUnionRegion sample_store 0 0 1 0)"
proof
  show "rgn_ok (GdUnionRegion sample_store 0 0 1 0)"
    using GdUnionRegion_correct [of sample_store 0 1 0] sample_ok by blast
  show "rects (GdUnionRegion sample_store 0 0 1 0) =
     [mkrect 0 0 10 5, mkrect 0 5 15 10, mkrect 5 10 15 15]"
    by code_simp
qed

text \<open>
  C2. \<open>GdIntersectRegion\<close> stores exactly the intersection, in canonical form and with recomputed
  extents; the output may be one of the two inputs.
\<close>

theorem GdIntersectRegion_correct:
  assumes "rgn_ok (h r1)" and "rgn_ok (h r2)" and "rgn_ok (h d)" and "\<not> (d = r1 \<and> d = r2)"
  shows "rgn_ok (GdIntersectRegion h d r1 r2 d)
    \<and> rgn_pts (GdIntersectRegion h d r1 r2 d) = rgn_pts (h r1) \<inter> rgn_pts (h r2)
    \<and> (\<forall>p. p \<noteq> d \<longrightarrow> GdIntersectRegion h d r1 r2 p = h p)"
  using intersect_stores [of h, OF assms(1,2) rgn_okD(4) [OF assms(3)] assms(4)] by (simp add: stores_def)

theorem GdIntersectRegion_correct_witness:
  "rects (GdIntersectRegion sample_store 1 0 1 1) = [mkrect 5 5 10 10]
   \<and> rgn_ok (GdIntersectRegion sample_store 1 0 1 1)"
proof
  show "rgn_ok (GdIntersectRegion sample_store 1 0 1 1)"
    using GdIntersectRegion_correct [of sample_store 0 1 1] sample_ok by simp
  show "rects (GdIntersectRegion sample_store 1 0 1 1) = [mkrect 5 5 10 10]"
    by code_simp
qed

text \<open>
  C3. \<open>GdSubtractRegion\<close> stores exactly the points of the minuend that are not in the
  subtrahend, in canonical form, whatever value lies behind the end of the band (\<open>beyond\<close>); the
  output may be one of the two inputs.
\<close>

theorem GdSubtractRegion_correct:
  assumes "rgn_ok (h m)" and "rgn_ok (h s)" and "rgn_ok (h d)" and "\<not> (d = m \<and> d = s)"
  shows "rgn_ok (GdSubtractRegion beyond h d m s d)
    \<and> rgn_pts (GdSubtractRegion beyond h d m s d) = rgn_pts (h m) - rgn_pts (h s)
    \<and> (\<forall>p. p \<noteq> d \<longrightarrow> GdSubtractRegion beyond h d m s p = h p)"
  using subtract_stores [of h, OF assms(1,2) rgn_okD(4) [OF assms(3)] assms(4)] by (simp add: stores_def)

theorem GdSubtractRegion_correct_witness:
  "rects (GdSubtractRegion 77 sample_store 0 0 1 0) = [mkrect 0 0 10 5, mkrect 0 5 5 10]
   \<and> rgn_ok (GdSubtractRegion 77 sample_store 0 0 1 0)"
proof
  show "rgn_ok (GdSubtractRegion 77 sample_store 0 0 1 0)"
    using GdSubtractRegion_correct [of sample_store 0 1 0 77] sample_ok by simp
  show "rects (GdSubtractRegion 77 sample_store 0 0 1 0) = [mkrect 0 0 10 5, mkrect 0 5 5 10]"
    by code_simp
qed

text \<open>
  The \<open>r1->left\<close> that \<open>REGION_SubtractO\<close> reads after stepping past the last rectangle of
  the band never reaches the result: the difference is the same region for every value there.
\<close>

theorem GdSubtractRegion_ignores_overread:
  "GdSubtractRegion beyond h d m s = GdSubtractRegion beyond' h d m s"
  unfolding GdSubtractRegion_def SubtractO_beyond [of beyond beyond'] ..

text \<open>
  \<open>GdXorRegion\<close> stores exactly the symmetric difference, and its two temporary regions leave
  no trace.
\<close>

theorem GdXorRegion_correct:
  assumes "rgn_ok (h a)" and "rgn_ok (h b)" and "rgn_ok (h d)"
  shows "rgn_ok (GdXorRegion beyond h d a b d)
    \<and> rgn_pts (GdXorRegion beyond h d a b d) =
        {p. (p \<in> rgn_pts (h a)) \<noteq> (p \<in> rgn_pts (h b))}
    \<and> (\<forall>p. p \<noteq> d \<longrightarrow> GdXorRegion beyond h d a b p = h p)"
  using xor_stores [OF assms(1,2) rgn_okD(4) [OF assms(3)], of beyond]
  unfolding stores_def by (auto simp: set_eq_iff)

theorem GdXorRegion_correct_witness:
  "rgn_ok (GdXorRegion 0 sample_store 1 0 1 1)
   \<and> rgn_pts (GdXorRegion 0 sample_store 1 0 1 1) =
      {p. (p \<in> rgn_pts (sample_store 0)) \<noteq> (p \<in> rgn_pts (sample_store 1))}"
  using GdXorRegion_correct [of sample_store 0 1 1 0] sample_ok by blast

text \<open>
  The in-place operations with a rectangle, \<open>GdUnionRectWithRegion\<close> and
  \<open>GdSubtractRectFromRegion\<close>, add or remove exactly the points of a non-empty rectangle.
\<close>

theorem rect_operations_correct:
  assumes "rgn_ok (h rgn)" and "rleft rect < rright rect" and "rtop rect < rbottom rect"
  shows "rgn_ok (GdUnionRectWithRegion h rect rgn rgn)
    \<and> rgn_pts (GdUnionRectWithRegion h rect rgn rgn) = rgn_pts (h rgn) \<union> rect_pts rect
    \<and> rgn_ok (GdSubtractRectFromRegion beyond h rect rgn rgn)
    \<and> rgn_pts (GdSubtractRectFromRegion beyond h rect rgn rgn) = rgn_pts (h rgn) - rect_pts rect"
  using union_rect_stores [of h, OF assms] subtract_rect_stores [of h, OF assms, where beyond = beyond]
  by (simp add: stores_def)

theorem rect_operations_correct_witness:
  "rgn_ok (GdUnionRectWithRegion sample_store (mkrect 3 3 20 4) 0 0)
   \<and> rects (GdSubtractRectFromRegion 0 sample_store (mkrect 0 0 10 4) 0 0) = [mkrect 0 4 10 10]"
proof
  show "rgn_ok (GdUnionRectWithRegion sample_store (mkrect 3 3 20 4) 0 0)"
    using rect_operations_correct [of sample_store 0 "mkrect 3 3 20 4"] sample_ok by simp
  show "rects (GdSubtractRectFromRegion 0 sample_store (mkrect 0 0 10 4) 0 0) = [mkrect 0 4 10 10]"
    by code_simp
qed

text \<open>
  The output array always has room, except in one case: when all three arguments are the same
  region, \<open>REGION_RegionOp\<close> reads \<open>numRects\<close> after clearing it and allocates an array of size 0,
  which doubling never enlarges, so the first rectangle is written outside of the array.
\<close>

theorem triple_alias_overflows:
  "rgn_ok (sample_store 0) \<and>
   (let r = GdIntersectRegion sample_store 0 0 0 0 in rsize r < numRects r)"
proof
  show "let r = GdIntersectRegion sample_store 0 0 0 0 in rsize r < numRects r" by code_simp
qed (rule sample_ok)

section \<open>Queries\<close>

text \<open>
  C4. \<open>GdEqualRegion\<close>, which compares rectangle lists, decides equality of point sets: the
  canonical form is unique.
\<close>

theorem GdEqualRegion_correct:
  assumes "rgn_ok r1" and "rgn_ok r2"
  shows "GdEqualRegion r1 r2 \<longleftrightarrow> rgn_pts r1 = rgn_pts r2"
  by (rule GdEqualRegion_iff [OF assms])

theorem GdEqualRegion_correct_witness:
  "rgn_pts (sample_store 0) \<noteq> rgn_pts (sample_store 1)"
proof -
  have "\<not> GdEqualRegion (sample_store 0) (sample_store 1)" by code_simp
  then show ?thesis using GdEqualRegion_correct [OF sample_ok sample_ok] by simp
qed

text \<open>
  Operations that give the same point set give the same rectangles: union and intersection
  are commutative on the representation, although the code treats its operands differently.
\<close>

theorem boolean_operations_commute:
  assumes "rgn_ok (h r1)" and "rgn_ok (h r2)" and "rgn_ok (h d)" and "\<not> (d = r1 \<and> d = r2)"
  shows "rects (GdUnionRegion h d r1 r2 d) = rects (GdUnionRegion h d r2 r1 d)
    \<and> rects (GdIntersectRegion h d r1 r2 d) = rects (GdIntersectRegion h d r2 r1 d)"
proof -
  note size = rgn_okD(4) [OF assms(3)]
  have u: "stores h (GdUnionRegion h d r1 r2) d (rgn_pts (h r1) \<union> rgn_pts (h r2))"
    "stores h (GdUnionRegion h d r2 r1) d (rgn_pts (h r2) \<union> rgn_pts (h r1))"
    by (rule union_stores [of h]; (rule assms size))+
  have i: "stores h (GdIntersectRegion h d r1 r2) d (rgn_pts (h r1) \<inter> rgn_pts (h r2))"
    "stores h (GdIntersectRegion h d r2 r1) d (rgn_pts (h r2) \<inter> rgn_pts (h r1))"
    by (rule intersect_stores [of h]; use assms size in auto)+
  have same: "rects (h1 d) = rects (h2 d)" if "stores h h1 d F1" "stores h h2 d F2" "F1 = F2" for h1 h2 F1 F2
    using that by (auto simp: stores_def intro: rgn_ok_same_pts(1))
  show ?thesis using same [OF u Un_commute] same [OF i Int_commute] by blast
qed

theorem boolean_operations_commute_witness:
  "rects (GdUnionRegion sample_store 2 0 1 2) = rects (GdUnionRegion sample_store 2 1 0 2)"
  using boolean_operations_commute [of sample_store 0 1 2] sample_ok by simp

text \<open>\<open>GdPtInRegion\<close> decides membership in the region.\<close>

theorem GdPtInRegion_correct:
  assumes "rgn_ok rgn"
  shows "GdPtInRegion rgn x y \<longleftrightarrow> (x, y) \<in> rgn_pts rgn"
  by (rule GdPtInRegion_iff [OF assms])

theorem GdPtInRegion_correct_witness:
  "(9, 9) \<in> rgn_pts (sample_store 0) \<and> (10, 9) \<notin> rgn_pts (sample_store 0)"
proof -
  have "GdPtInRegion (sample_store 0) 9 9 \<and> \<not> GdPtInRegion (sample_store 0) 10 9" by code_simp
  then show ?thesis
    using GdPtInRegion_correct [OF sample_ok, of 0 9 9] GdPtInRegion_correct [OF sample_ok, of 0 10 9]
    by simp
qed

text \<open>
  \<open>GdRectInRegion\<close>, which stops its scan at the first rectangle that settles the answer, is
  exact: "out" iff the rectangle misses the region, "all in" iff the region contains it.
\<close>

theorem GdRectInRegion_correct:
  assumes "rgn_ok rgn" and "rleft rect < rright rect" and "rtop rect < rbottom rect"
  shows "GdRectInRegion rgn rect =
    (if rect_pts rect \<inter> rgn_pts rgn = {} then MWRECT_OUT
     else if rect_pts rect \<subseteq> rgn_pts rgn then MWRECT_ALLIN else MWRECT_PARTIN)"
  by (rule GdRectInRegion_spec [OF assms])

theorem GdRectInRegion_correct_witness:
  "rect_pts (mkrect 2 2 8 8) \<subseteq> rgn_pts (sample_store 0)
   \<and> \<not> rect_pts (mkrect 5 5 11 8) \<subseteq> rgn_pts (sample_store 0)"
proof -
  have "GdRectInRegion (sample_store 0) (mkrect 2 2 8 8) = MWRECT_ALLIN"
    "GdRectInRegion (sample_store 0) (mkrect 5 5 11 8) = MWRECT_PARTIN" by code_simp+
  then show ?thesis
    using GdRectInRegion_correct [OF sample_ok, of "mkrect 2 2 8 8" 0]
      GdRectInRegion_correct [OF sample_ok, of "mkrect 5 5 11 8" 0]
    by (simp split: if_splits)
qed

section \<open>Constructors\<close>

text \<open>
  \<open>GdSetRectRegion\<close> gives the region of the rectangle (the empty region when a side is
  empty), and \<open>GdOffsetRegion\<close> translates a region, extents included.
\<close>

theorem set_and_offset_correct:
  assumes "rgn_ok rgn" and "l \<le> r" and "t \<le> b"
  shows "rgn_ok (GdSetRectRegion rgn l t r b)
    \<and> rgn_pts (GdSetRectRegion rgn l t r b) = {(x, y). l \<le> x \<and> x < r \<and> t \<le> y \<and> y < b}
    \<and> rgn_ok (GdOffsetRegion rgn dx dy)
    \<and> rgn_pts (GdOffsetRegion rgn dx dy) = {(x, y). (x - dx, y - dy) \<in> rgn_pts rgn}"
  using GdSetRectRegion_ok [OF rgn_okD(4) [OF assms(1)] assms(2,3)] GdOffsetRegion_ok [OF assms(1)]
  by blast

theorem set_and_offset_correct_witness:
  "rgn_ok (GdSetRectRegion (sample_store 0) 1 2 3 4) \<and> rgn_ok (GdOffsetRegion (sample_store 0) 5 (-3))"
  using set_and_offset_correct [OF sample_ok, of 1 3 2 4 0 5 "-3"] by simp

text \<open>
  C5. \<open>GdAllocBitmapRegion\<close> returns, for a bitmap with enough words for its width and height,
  the region of exactly the set bits; rows start at a word boundary and the most significant bit
  is the leftmost pixel.
\<close>

theorem GdAllocBitmapRegion_correct:
  assumes "0 < w" and "0 < h" and "h * MWIMAGE_WORDS w \<le> length bitmap"
  shows "\<exists>rgn. GdAllocBitmapRegion (Some bitmap) (int w) (int h) = Some rgn \<and> rgn_ok rgn
    \<and> rgn_pts rgn = {(int x, int y) |x y. x < w \<and> y < h \<and>
        bit (bitmap ! (y * MWIMAGE_WORDS w + x div 16)) (15 - x mod 16)}"
  using bitmap_region_spec [OF assms] unfolding bitmap_pts_def bitmap_pixel_def .

theorem GdAllocBitmapRegion_correct_witness:
  "\<exists>rgn. GdAllocBitmapRegion (Some [0x6000, 0xF000]) 4 2 = Some rgn \<and> rgn_ok rgn"
  using GdAllocBitmapRegion_correct [of 4 2 "[0x6000, 0xF000]"] by (auto simp: MWIMAGE_WORDS_def)

end
