(* ===== verification/Scr_Model.thy ===== *)
theory Scr_Model
  imports Prelude
begin

text \<open>
  The generic 32-bit screen driver (\<open>drivers/scr_gen32.c\<close>): pixels, lines, filled rectangles and
  block copies in its four drawing modes.

  \<^item> The target is a 32-bit machine: \<open>unsigned long\<close> and \<open>MWPIXELVAL\<close> are \<^typ>\<open>32 word\<close>, a pixel
    is \<open>A:R:G:B\<close>, one byte each.
  \<^item> Memory is a map from word addresses to words; \<open>psd->addr\<close> is the address of a surface's first
    pixel, so that two surfaces may share memory.
  \<^item> The globals \<open>gr_mode\<close>, \<open>gr_alpha\<close> and \<open>gr_xorcolor\<close> are the record \<open>gr_state\<close>.
  \<^item> A pair of loops over rows and columns is a pass over the list of addresses it visits.
\<close>

unbundle bit_operations_syntax

type_synonym pixel = "32 word"
type_synonym fbmem = "int \<Rightarrow> pixel"

record SCREENDEVICE =
  xres :: MWCOORD
  yres :: MWCOORD
  xvirtres :: MWCOORD
  yvirtres :: MWCOORD
  planes :: int
  bpp :: int
  linelen :: int
  psd_size :: int
  flags :: "32 word"
  addr :: int
  portrait :: int

abbreviation (input) PSF_SCREEN :: "32 word" where "PSF_SCREEN \<equiv> 0x0001"
abbreviation (input) PSF_MEMORY :: "32 word" where "PSF_MEMORY \<equiv> 0x0002"
abbreviation (input) PSF_HAVEBLIT :: "32 word" where "PSF_HAVEBLIT \<equiv> 0x0004"

record gr_state =
  gr_mode :: int
  gr_alpha :: int
  gr_xorcolor :: pixel

abbreviation (input) MWMODE_COPY :: int where "MWMODE_COPY \<equiv> 0"
abbreviation (input) MWMODE_CLEAR :: int where "MWMODE_CLEAR \<equiv> 4"
abbreviation (input) MWMODE_XOR_FGBG :: int where "MWMODE_XOR_FGBG \<equiv> 16"
abbreviation (input) MWMODE_SRC_OVER :: int where "MWMODE_SRC_OVER \<equiv> 17"

section \<open>Pixel arithmetic\<close>

definition DIV255 :: "pixel \<Rightarrow> pixel" where
  "DIV255 value = drop_bit 16 (push_bit 8 value + value + 0xff)"

definition chA :: "pixel \<Rightarrow> pixel" where "chA p = drop_bit 24 p"
definition chR :: "pixel \<Rightarrow> pixel" where "chR p = drop_bit 16 p AND 0xff"
definition chG :: "pixel \<Rightarrow> pixel" where "chG p = drop_bit 8 p AND 0xff"
definition chB :: "pixel \<Rightarrow> pixel" where "chB p = p AND 0xff"

definition argb :: "pixel \<Rightarrow> pixel \<Rightarrow> pixel \<Rightarrow> pixel \<Rightarrow> pixel" where
  "argb a r g b = push_bit 24 a OR push_bit 16 r OR push_bit 8 g OR b"

definition cap255 :: "pixel \<Rightarrow> pixel" where
  "cap255 v = (if v > 0xff then 0xff else v)"

text \<open>The global alpha is applied to a source pixel when it lies in 0..254.\<close>

definition global_alpha_on :: "gr_state \<Rightarrow> bool" where
  "global_alpha_on g \<longleftrightarrow> gr_alpha g < 0xff \<and> gr_alpha g \<ge> 0"

definition scale_alpha :: "gr_state \<Rightarrow> pixel \<Rightarrow> pixel" where
  "scale_alpha g c =
    (if global_alpha_on g
     then push_bit 24 (DIV255 (word_of_int (gr_alpha g) * chA c)) OR (c AND 0xffffff)
     else c)"

text \<open>
  The blending formula that the pixel, line, rectangle and block functions share; \<open>srcR\<close>,
  \<open>srcG\<close> and \<open>srcB\<close> are already multiplied by \<open>srcA\<close>.
\<close>

definition blend :: "pixel \<Rightarrow> pixel \<Rightarrow> pixel \<Rightarrow> pixel \<Rightarrow> pixel \<Rightarrow> pixel" where
  "blend srcA srcR srcG srcB d =
    (let dstA = chA d; dstR = chR d; dstG = chG d; dstB = chB d;
         rDst = 0xff - srcA;
         dstR = DIV255 (dstR * dstA * rDst);
         dstG = DIV255 (dstG * dstA * rDst);
         dstB = DIV255 (dstB * dstA * rDst);
         dstA = DIV255 (srcA * 0xff + dstA * rDst);
         dstR = (srcR + dstR) div dstA;
         dstG = (srcG + dstG) div dstA;
         dstB = (srcB + dstB) div dstA
     in argb (cap255 dstA) (cap255 dstR) (cap255 dstG) (cap255 dstB))"

text \<open>One pixel of the \<open>MWMODE_SRC_OVER\<close> case, for a source pixel that is not transparent.\<close>

definition over_pixel :: "pixel \<Rightarrow> pixel \<Rightarrow> pixel" where
  "over_pixel c d =
    (if chA c = 0xff \<or> chA d = 0 then c
     else blend (chA c) (chR c * chA c) (chG c * chA c) (chB c * chA c) d)"

definition xor_pixel :: "gr_state \<Rightarrow> pixel \<Rightarrow> pixel \<Rightarrow> pixel" where
  "xor_pixel g c d = (c XOR gr_xorcolor g XOR d) OR 0xff000000"

section \<open>Single pixels\<close>

definition pixel_addr :: "SCREENDEVICE \<Rightarrow> MWCOORD \<Rightarrow> MWCOORD \<Rightarrow> int" where
  "pixel_addr psd x y = addr psd + y * linelen psd + x"

definition ScrGen32_DrawPixel ::
  "gr_state \<Rightarrow> SCREENDEVICE \<Rightarrow> fbmem \<Rightarrow> MWCOORD \<Rightarrow> MWCOORD \<Rightarrow> pixel \<Rightarrow> fbmem" where
  "ScrGen32_DrawPixel g psd mem x y c0 =
    (let p = pixel_addr psd x y;
         c = (if gr_mode g \<noteq> MWMODE_XOR_FGBG then scale_alpha g c0 else c0)
     in if gr_mode g = MWMODE_CLEAR then mem(p := 0)
        else if gr_mode g = MWMODE_XOR_FGBG then mem(p := xor_pixel g c (mem p))
        else if gr_mode g = MWMODE_SRC_OVER then
          (if chA c = 0 then mem else mem(p := over_pixel c (mem p)))
        else mem(p := c))"

definition ScrGen32_ReadPixel :: "SCREENDEVICE \<Rightarrow> fbmem \<Rightarrow> MWCOORD \<Rightarrow> MWCOORD \<Rightarrow> pixel" where
  "ScrGen32_ReadPixel psd mem x y = mem (pixel_addr psd x y)"

section \<open>Passes over a list of addresses\<close>

fun store_run :: "pixel \<Rightarrow> int list \<Rightarrow> fbmem \<Rightarrow> fbmem" where
  "store_run c [] mem = mem"
| "store_run c (p # ps) mem = store_run c ps (mem(p := c))"

fun xor_run :: "gr_state \<Rightarrow> pixel \<Rightarrow> int list \<Rightarrow> fbmem \<Rightarrow> fbmem" where
  "xor_run g c [] mem = mem"
| "xor_run g c (p # ps) mem = xor_run g c ps (mem(p := xor_pixel g c (mem p)))"

text \<open>
  The blending loop with its one-entry cache: \<open>dst\<close> is the last blended pixel, \<open>calc\<close> the result
  for it ("same pixels, same result").
\<close>

fun alpha_run :: "pixel \<Rightarrow> int list \<Rightarrow> fbmem \<Rightarrow> pixel \<Rightarrow> pixel \<Rightarrow> fbmem" where
  "alpha_run c [] mem dst calc = mem"
| "alpha_run c (p # ps) mem dst calc =
    (if mem p = dst then alpha_run c ps (mem(p := calc)) dst calc
     else if chA c = 0xff \<or> chA (mem p) = 0 then alpha_run c ps (mem(p := c)) dst calc
     else
       let calc' = blend (chA c) (chR c * chA c) (chG c * chA c) (chB c * chA c) (mem p)
       in alpha_run c ps (mem(p := calc')) (mem p) calc')"

text \<open>
  The common shape of the three \<open>...Alpha\<close> functions; \<open>first\<close> is the address whose complement
  initialises the cache.
\<close>

definition alpha_pass :: "gr_state \<Rightarrow> pixel \<Rightarrow> int \<Rightarrow> int list \<Rightarrow> fbmem \<Rightarrow> fbmem" where
  "alpha_pass g c0 first ps mem =
    (let c = scale_alpha g c0
     in if chA c = 0 then mem else alpha_run c ps mem (NOT (mem first)) (NOT (mem first)))"

text \<open>The addresses of the loops.\<close>

definition horz_addrs :: "SCREENDEVICE \<Rightarrow> MWCOORD \<Rightarrow> MWCOORD \<Rightarrow> MWCOORD \<Rightarrow> int list" where
  "horz_addrs psd x1 x2 y =
     map (\<lambda>i. pixel_addr psd x1 y + int i) [0..<nat (x2 - x1 + 1)]"

definition vert_addrs :: "SCREENDEVICE \<Rightarrow> MWCOORD \<Rightarrow> MWCOORD \<Rightarrow> MWCOORD \<Rightarrow> int list" where
  "vert_addrs psd x y1 y2 =
     map (\<lambda>i. pixel_addr psd x y1 + int i * linelen psd) [0..<nat (y2 - y1 + 1)]"

definition rect_addrs ::
  "SCREENDEVICE \<Rightarrow> MWCOORD \<Rightarrow> MWCOORD \<Rightarrow> MWCOORD \<Rightarrow> MWCOORD \<Rightarrow> int list" where
  "rect_addrs psd x1 y1 x2 y2 =
     concat (map (\<lambda>j. map (\<lambda>i. pixel_addr psd x1 y1 + int j * linelen psd + int i) [0..<nat (x2 - x1 + 1)])
       [0..<nat (y2 - y1 + 1)])"

section \<open>Lines and rectangles\<close>

definition ScrGen32_DrawHorzLineDefault ::
  "gr_state \<Rightarrow> SCREENDEVICE \<Rightarrow> fbmem \<Rightarrow> MWCOORD \<Rightarrow> MWCOORD \<Rightarrow> MWCOORD \<Rightarrow> pixel \<Rightarrow> fbmem" where
  "ScrGen32_DrawHorzLineDefault g psd mem x1 x2 y c =
     store_run (scale_alpha g c) (horz_addrs psd x1 x2 y) mem"

definition ScrGen32_DrawHorzLineXor ::
  "gr_state \<Rightarrow> SCREENDEVICE \<Rightarrow> fbmem \<Rightarrow> MWCOORD \<Rightarrow> MWCOORD \<Rightarrow> MWCOORD \<Rightarrow> pixel \<Rightarrow> fbmem" where
  "ScrGen32_DrawHorzLineXor g psd mem x1 x2 y c = xor_run g c (horz_addrs psd x1 x2 y) mem"

definition ScrGen32_DrawHorzLineAlpha ::
  "gr_state \<Rightarrow> SCREENDEVICE \<Rightarrow> fbmem \<Rightarrow> MWCOORD \<Rightarrow> MWCOORD \<Rightarrow> MWCOORD \<Rightarrow> pixel \<Rightarrow> fbmem" where
  "ScrGen32_DrawHorzLineAlpha g psd mem x1 x2 y c =
     alpha_pass g c (pixel_addr psd x1 y) (horz_addrs psd x1 x2 y) mem"

text \<open>
  The dispatch on the mode, which \<open>DrawHorzLine\<close>, \<open>DrawVertLine\<close> and \<open>FillRect\<close> repeat word for
  word: \<open>dflt\<close>, \<open>xr\<close> and \<open>alph\<close> are the three worker functions, given the colour.
\<close>

definition dispatch_mode ::
  "gr_state \<Rightarrow> pixel \<Rightarrow> (pixel \<Rightarrow> fbmem) \<Rightarrow> (pixel \<Rightarrow> fbmem) \<Rightarrow> (pixel \<Rightarrow> fbmem) \<Rightarrow> fbmem \<Rightarrow> fbmem" where
  "dispatch_mode g c dflt xr alph mem =
    (if gr_mode g = MWMODE_CLEAR then dflt 0
     else if gr_mode g = MWMODE_XOR_FGBG then xr c
     else if gr_mode g = MWMODE_SRC_OVER then
       (if gr_alpha g < 0 then
          (if c AND 0xff000000 = 0xff000000 then dflt c
           else if c AND 0xff000000 > 0 then alph c else mem)
        else
          (if gr_alpha g = 0xff \<and> c AND 0xff000000 = 0xff000000 then dflt c
           else if gr_alpha g > 0 \<and> c AND 0xff000000 > 0 then alph c else mem))
     else dflt c)"

definition ScrGen32_DrawHorzLine ::
  "gr_state \<Rightarrow> SCREENDEVICE \<Rightarrow> fbmem \<Rightarrow> MWCOORD \<Rightarrow> MWCOORD \<Rightarrow> MWCOORD \<Rightarrow> pixel \<Rightarrow> fbmem" where
  "ScrGen32_DrawHorzLine g psd mem x1 x2 y c =
     dispatch_mode g c (ScrGen32_DrawHorzLineDefault g psd mem x1 x2 y)
       (ScrGen32_DrawHorzLineXor g psd mem x1 x2 y) (ScrGen32_DrawHorzLineAlpha g psd mem x1 x2 y) mem"

definition ScrGen32_DrawVertLineDefault ::
  "gr_state \<Rightarrow> SCREENDEVICE \<Rightarrow> fbmem \<Rightarrow> MWCOORD \<Rightarrow> MWCOORD \<Rightarrow> MWCOORD \<Rightarrow> pixel \<Rightarrow> fbmem" where
  "ScrGen32_DrawVertLineDefault g psd mem x y1 y2 c =
     store_run (scale_alpha g c) (vert_addrs psd x y1 y2) mem"

definition ScrGen32_DrawVertLineXor ::
  "gr_state \<Rightarrow> SCREENDEVICE \<Rightarrow> fbmem \<Rightarrow> MWCOORD \<Rightarrow> MWCOORD \<Rightarrow> MWCOORD \<Rightarrow> pixel \<Rightarrow> fbmem" where
  "ScrGen32_DrawVertLineXor g psd mem x y1 y2 c = xor_run g c (vert_addrs psd x y1 y2) mem"

definition ScrGen32_DrawVertLineAlpha ::
  "gr_state \<Rightarrow> SCREENDEVICE \<Rightarrow> fbmem \<Rightarrow> MWCOORD \<Rightarrow> MWCOORD \<Rightarrow> MWCOORD \<Rightarrow> pixel \<Rightarrow> fbmem" where
  "ScrGen32_DrawVertLineAlpha g psd mem x y1 y2 c =
     alpha_pass g c (pixel_addr psd x y1) (vert_addrs psd x y1 y2) mem"

definition ScrGen32_DrawVertLine ::
  "gr_state \<Rightarrow> SCREENDEVICE \<Rightarrow> fbmem \<Rightarrow> MWCOORD \<Rightarrow> MWCOORD \<Rightarrow> MWCOORD \<Rightarrow> pixel \<Rightarrow> fbmem" where
  "ScrGen32_DrawVertLine g psd mem x y1 y2 c =
     dispatch_mode g c (ScrGen32_DrawVertLineDefault g psd mem x y1 y2)
       (ScrGen32_DrawVertLineXor g psd mem x y1 y2) (ScrGen32_DrawVertLineAlpha g psd mem x y1 y2) mem"

definition ScrGen32_FillRectDefault ::
  "gr_state \<Rightarrow> SCREENDEVICE \<Rightarrow> fbmem \<Rightarrow> MWCOORD \<Rightarrow> MWCOORD \<Rightarrow> MWCOORD \<Rightarrow> MWCOORD \<Rightarrow> pixel \<Rightarrow> fbmem" where
  "ScrGen32_FillRectDefault g psd mem x1 y1 x2 y2 c =
     store_run (scale_alpha g c) (rect_addrs psd x1 y1 x2 y2) mem"

definition ScrGen32_FillRectXor ::
  "gr_state \<Rightarrow> SCREENDEVICE \<Rightarrow> fbmem \<Rightarrow> MWCOORD \<Rightarrow> MWCOORD \<Rightarrow> MWCOORD \<Rightarrow> MWCOORD \<Rightarrow> pixel \<Rightarrow> fbmem" where
  "ScrGen32_FillRectXor g psd mem x1 y1 x2 y2 c = xor_run g c (rect_addrs psd x1 y1 x2 y2) mem"

definition ScrGen32_FillRectAlpha ::
  "gr_state \<Rightarrow> SCREENDEVICE \<Rightarrow> fbmem \<Rightarrow> MWCOORD \<Rightarrow> MWCOORD \<Rightarrow> MWCOORD \<Rightarrow> MWCOORD \<Rightarrow> pixel \<Rightarrow> fbmem" where
  "ScrGen32_FillRectAlpha g psd mem x1 y1 x2 y2 c =
     alpha_pass g c (pixel_addr psd x1 y1) (rect_addrs psd x1 y1 x2 y2) mem"

definition ScrGen32_FillRect ::
  "gr_state \<Rightarrow> SCREENDEVICE \<Rightarrow> fbmem \<Rightarrow> MWCOORD \<Rightarrow> MWCOORD \<Rightarrow> MWCOORD \<Rightarrow> MWCOORD \<Rightarrow> pixel \<Rightarrow> fbmem" where
  "ScrGen32_FillRect g psd mem x1 y1 x2 y2 c =
     dispatch_mode g c (ScrGen32_FillRectDefault g psd mem x1 y1 x2 y2)
       (ScrGen32_FillRectXor g psd mem x1 y1 x2 y2) (ScrGen32_FillRectAlpha g psd mem x1 y1 x2 y2) mem"

section \<open>Block copies\<close>

text \<open>The pairs of source and destination addresses, in the order of the loops.\<close>

definition blit_pairs ::
  "SCREENDEVICE \<Rightarrow> MWCOORD \<Rightarrow> MWCOORD \<Rightarrow> MWCOORD \<Rightarrow> MWCOORD \<Rightarrow> SCREENDEVICE \<Rightarrow> MWCOORD \<Rightarrow> MWCOORD \<Rightarrow>
   (int \<times> int) list" where
  "blit_pairs dstPsd dstX dstY width height srcPsd srcX srcY =
     concat (map (\<lambda>j. map (\<lambda>i. (pixel_addr srcPsd srcX srcY + int j * linelen srcPsd + int i,
                               pixel_addr dstPsd dstX dstY + int j * linelen dstPsd + int i))
         [0..<nat width]) [0..<nat height])"

fun copy_run :: "(pixel \<Rightarrow> pixel) \<Rightarrow> (int \<times> int) list \<Rightarrow> fbmem \<Rightarrow> fbmem" where
  "copy_run f [] mem = mem"
| "copy_run f ((s, d) # ps) mem = copy_run f ps (mem(d := f (mem s)))"

definition ScrGen32_BlitDefault ::
  "gr_state \<Rightarrow> SCREENDEVICE \<Rightarrow> fbmem \<Rightarrow> MWCOORD \<Rightarrow> MWCOORD \<Rightarrow> MWCOORD \<Rightarrow> MWCOORD \<Rightarrow>
   SCREENDEVICE \<Rightarrow> MWCOORD \<Rightarrow> MWCOORD \<Rightarrow> fbmem" where
  "ScrGen32_BlitDefault g dstPsd mem dstX dstY width height srcPsd srcX srcY =
     copy_run (scale_alpha g) (blit_pairs dstPsd dstX dstY width height srcPsd srcX srcY) mem"

fun blit_xor_run :: "gr_state \<Rightarrow> (int \<times> int) list \<Rightarrow> fbmem \<Rightarrow> fbmem" where
  "blit_xor_run g [] mem = mem"
| "blit_xor_run g ((s, d) # ps) mem =
    (if mem s AND 0xff000000 \<noteq> 0
     then blit_xor_run g ps (mem(d := (gr_xorcolor g XOR mem s XOR mem d) OR 0xff000000))
     else blit_xor_run g ps mem)"

definition ScrGen32_BlitXor ::
  "gr_state \<Rightarrow> SCREENDEVICE \<Rightarrow> fbmem \<Rightarrow> MWCOORD \<Rightarrow> MWCOORD \<Rightarrow> MWCOORD \<Rightarrow> MWCOORD \<Rightarrow>
   SCREENDEVICE \<Rightarrow> MWCOORD \<Rightarrow> MWCOORD \<Rightarrow> fbmem" where
  "ScrGen32_BlitXor g dstPsd mem dstX dstY width height srcPsd srcX srcY =
     blit_xor_run g (blit_pairs dstPsd dstX dstY width height srcPsd srcX srcY) mem"

text \<open>
  The two loops of \<open>ScrGen32_BlitAlpha\<close>, with their cache of the last pair of pixels (\<open>src\<close>,
  \<open>dst\<close>) and its result; \<open>ga\<close> tells whether the source alpha is scaled by the global alpha.
\<close>

definition blit_src_alpha :: "gr_state \<Rightarrow> bool \<Rightarrow> pixel \<Rightarrow> pixel" where
  "blit_src_alpha g ga s = (if ga then DIV255 (word_of_int (gr_alpha g) * chA s) else chA s)"

fun blit_alpha_run ::
  "gr_state \<Rightarrow> bool \<Rightarrow> (int \<times> int) list \<Rightarrow> fbmem \<Rightarrow> pixel \<Rightarrow> pixel \<Rightarrow> pixel \<Rightarrow> fbmem" where
  "blit_alpha_run g ga [] mem src dst calc = mem"
| "blit_alpha_run g ga ((s, d) # ps) mem src dst calc =
    (if mem s = src \<and> mem d = dst then blit_alpha_run g ga ps (mem(d := calc)) src dst calc
     else
       let srcA = blit_src_alpha g ga (mem s);
           srcR = chR (mem s); srcG = chG (mem s); srcB = chB (mem s)
       in if srcA = 0 then blit_alpha_run g ga ps mem src dst calc
          else if srcA = 0xff \<or> chA (mem d) = 0 then
            blit_alpha_run g ga ps (mem(d := (if ga then argb srcA srcR srcG srcB else mem s))) src dst calc
          else
            let calc' = blend srcA (srcR * srcA) (srcG * srcA) (srcB * srcA) (mem d)
            in blit_alpha_run g ga ps (mem(d := calc')) (mem s) (mem d) calc')"

definition ScrGen32_BlitAlpha ::
  "gr_state \<Rightarrow> SCREENDEVICE \<Rightarrow> fbmem \<Rightarrow> MWCOORD \<Rightarrow> MWCOORD \<Rightarrow> MWCOORD \<Rightarrow> MWCOORD \<Rightarrow>
   SCREENDEVICE \<Rightarrow> MWCOORD \<Rightarrow> MWCOORD \<Rightarrow> fbmem" where
  "ScrGen32_BlitAlpha g dstPsd mem dstX dstY width height srcPsd srcX srcY =
     blit_alpha_run g (global_alpha_on g)
       (blit_pairs dstPsd dstX dstY width height srcPsd srcX srcY) mem 0 0 0"

text \<open>The mode of a block copy is in the top byte of \<open>op\<close> (\<open>MWROP_EXTENSION\<close>).\<close>

definition ScrGen32_Blit ::
  "gr_state \<Rightarrow> SCREENDEVICE \<Rightarrow> fbmem \<Rightarrow> MWCOORD \<Rightarrow> MWCOORD \<Rightarrow> MWCOORD \<Rightarrow> MWCOORD \<Rightarrow>
   SCREENDEVICE \<Rightarrow> MWCOORD \<Rightarrow> MWCOORD \<Rightarrow> 32 word \<Rightarrow> fbmem" where
  "ScrGen32_Blit g dstPsd mem dstX dstY width height srcPsd srcX srcY rop =
    (let m = rop AND 0xff000000
     in if m = push_bit 24 4
        then ScrGen32_FillRectDefault g dstPsd mem dstX dstY (dstX + width - 1) (dstY + height - 1) 0
        else if m = push_bit 24 16
        then ScrGen32_BlitXor g dstPsd mem dstX dstY width height srcPsd srcX srcY
        else if m = push_bit 24 17
        then ScrGen32_BlitAlpha g dstPsd mem dstX dstY width height srcPsd srcX srcY
        else ScrGen32_BlitDefault g dstPsd mem dstX dstY width height srcPsd srcX srcY)"

section \<open>Memory surfaces\<close>

definition ScrGen32_AllocateMemGC :: "SCREENDEVICE \<Rightarrow> SCREENDEVICE option" where
  "ScrGen32_AllocateMemGC psd =
    (if flags psd AND PSF_HAVEBLIT = 0 then None
     else Some (psd\<lparr>flags := (flags psd OR PSF_MEMORY) AND NOT PSF_SCREEN, addr := 0\<rparr>))"

definition ScrGen32_MapMemGC ::
  "SCREENDEVICE \<Rightarrow> MWCOORD \<Rightarrow> MWCOORD \<Rightarrow> int \<Rightarrow> int \<Rightarrow> int \<Rightarrow> int \<Rightarrow> int \<Rightarrow> SCREENDEVICE option" where
  "ScrGen32_MapMemGC memPsd w h pl bp ll sz pAddr =
    (if flags memPsd AND PSF_MEMORY = 0 then None
     else Some (memPsd\<lparr>xres := w, yres := h, xvirtres := w, yvirtres := h, planes := pl, bpp := bp,
                       linelen := ll, psd_size := sz, addr := pAddr\<rparr>))"

end
