(* ===== verification/Scr_Lemmas.thy ===== *)
theory Scr_Lemmas
  imports Scr_Model
begin

unbundle bit_operations_syntax

text \<open>
  Facts about the screen driver: the value every mode gives to one pixel, passes over addresses
  as maps over pixels, the one-entry caches, and the arithmetic of blending over natural numbers.
\<close>

section \<open>The pixel function of a mode\<close>

definition pixel_step :: "gr_state \<Rightarrow> pixel \<Rightarrow> pixel \<Rightarrow> pixel" where
  "pixel_step g c d =
    (if gr_mode g = MWMODE_CLEAR then 0
     else if gr_mode g = MWMODE_XOR_FGBG then xor_pixel g c d
     else if gr_mode g = MWMODE_SRC_OVER then
       (if chA (scale_alpha g c) = 0 then d else over_pixel (scale_alpha g c) d)
     else scale_alpha g c)"

lemma DrawPixel_step:
  "ScrGen32_DrawPixel g psd mem x y c =
     mem(pixel_addr psd x y := pixel_step g c (mem (pixel_addr psd x y)))"
  by (simp add: ScrGen32_DrawPixel_def pixel_step_def Let_def fun_upd_idem)

definition map_run :: "(pixel \<Rightarrow> pixel) \<Rightarrow> int list \<Rightarrow> fbmem \<Rightarrow> fbmem" where
  "map_run f ps mem = fold (\<lambda>p m. m(p := f (m p))) ps mem"

lemma map_run_simps [simp]:
  "map_run f [] mem = mem" "map_run f (p # ps) mem = map_run f ps (mem(p := f (mem p)))"
  by (simp_all add: map_run_def)

lemma map_run_other: "q \<notin> set ps \<Longrightarrow> map_run f ps mem q = mem q"
  by (induction ps arbitrary: mem) auto

lemma map_run_at: "distinct ps \<Longrightarrow> p \<in> set ps \<Longrightarrow> map_run f ps mem p = f (mem p)"
  by (induction ps arbitrary: mem) (auto simp: map_run_other)

lemma map_run_apply:
  "distinct ps \<Longrightarrow> map_run f ps mem = (\<lambda>q. if q \<in> set ps then f (mem q) else mem q)"
  by (auto simp: map_run_at map_run_other)

lemma map_run_id: "(\<And>d. f d = d) \<Longrightarrow> map_run f ps mem = mem"
  by (induction ps arbitrary: mem) auto

lemma store_run_map: "store_run c ps mem = map_run (\<lambda>d. c) ps mem"
  by (induction ps arbitrary: mem) auto

lemma xor_run_map: "xor_run g c ps mem = map_run (xor_pixel g c) ps mem"
  by (induction ps arbitrary: mem) auto

section \<open>The cache of the blending loops\<close>

lemma alpha_run_map:
  "distinct ps \<Longrightarrow> calc = over_pixel c dst \<or> (\<forall>p\<in>set ps. mem p \<noteq> dst) \<Longrightarrow>
   alpha_run c ps mem dst calc = map_run (over_pixel c) ps mem"
proof (induction c ps mem dst calc rule: alpha_run.induct)
  case (2 c p ps mem dst calc)
  have dist: "distinct ps" and keep: "\<And>q v. q \<in> set ps \<Longrightarrow> (mem(p := v)) q = mem q" using "2.prems" by auto
  have rest: "calc = over_pixel c dst \<or> (\<forall>q\<in>set ps. (mem(p := v)) q \<noteq> dst)" for v
    using "2.prems"(2) keep by auto
  show ?case
  proof (cases "mem p = dst")
    case True
    then have calc: "calc = over_pixel c dst" using "2.prems"(2) by simp
    have "alpha_run c ps (mem(p := calc)) dst calc = map_run (over_pixel c) ps (mem(p := calc))"
      by (rule "2.IH"(1) [OF True dist rest])
    then show ?thesis using True calc by simp
  next
    case False
    show ?thesis
    proof (cases "chA c = 0xff \<or> chA (mem p) = 0")
      case True
      then have o: "over_pixel c (mem p) = c" by (simp add: over_pixel_def)
      have "alpha_run c ps (mem(p := c)) dst calc = map_run (over_pixel c) ps (mem(p := c))"
        by (rule "2.IH"(2) [OF False True dist rest])
      then show ?thesis using False True o by simp
    next
      case blend: False
      let ?v = "blend (chA c) (chR c * chA c) (chG c * chA c) (chB c * chA c) (mem p)"
      have o: "over_pixel c (mem p) = ?v" using blend by (simp add: over_pixel_def)
      have "alpha_run c ps (mem(p := ?v)) (mem p) ?v = map_run (over_pixel c) ps (mem(p := ?v))"
        by (rule "2.IH"(3) [OF False blend refl dist]) (simp add: o)
      then show ?thesis using False blend o by (simp add: Let_def)
    qed
  qed
qed simp

lemma word_neq_not: "w \<noteq> NOT (w :: 'a::len word)"
proof
  assume "w = NOT w"
  then have "bit w 0 = bit (NOT w) 0" by simp
  then show False by (simp add: bit_simps)
qed

lemma alpha_run_first:
  assumes "distinct (p # ps)" and "chA (mem p) \<noteq> 0" and "chA c \<noteq> 0xff"
  shows "alpha_run c (p # ps) mem (NOT (mem p)) (NOT (mem p)) = map_run (over_pixel c) (p # ps) mem"
proof -
  let ?v = "blend (chA c) (chR c * chA c) (chG c * chA c) (chB c * chA c) (mem p)"
  have o: "over_pixel c (mem p) = ?v" using assms by (simp add: over_pixel_def)
  have "alpha_run c ps (mem(p := ?v)) (mem p) ?v = map_run (over_pixel c) ps (mem(p := ?v))"
    by (rule alpha_run_map) (use assms(1) o in simp_all)
  then show ?thesis using assms word_neq_not [of "mem p"] o by (simp add: Let_def)
qed

text \<open>When the initial content of the cache cannot be mistaken for a cached pixel.\<close>

definition cache_safe :: "gr_state \<Rightarrow> pixel \<Rightarrow> int list \<Rightarrow> fbmem \<Rightarrow> bool" where
  "cache_safe g c ps mem \<longleftrightarrow> ps = [] \<or>
     (chA (mem (hd ps)) \<noteq> 0 \<and> chA (scale_alpha g c) \<noteq> 0xff) \<or>
     (\<forall>p\<in>set ps. mem p \<noteq> NOT (mem (hd ps)))"

lemma alpha_pass_map:
  assumes "distinct ps" and "cache_safe g c ps mem" and "ps \<noteq> [] \<Longrightarrow> first = hd ps"
  shows "alpha_pass g c first ps mem =
    map_run (\<lambda>d. if chA (scale_alpha g c) = 0 then d else over_pixel (scale_alpha g c) d) ps mem"
proof (cases "chA (scale_alpha g c) = 0 \<or> ps = []")
  case True
  then show ?thesis by (auto simp: alpha_pass_def map_run_id Let_def)
next
  case False
  then obtain p qs where ps: "ps = p # qs" by (cases ps) auto
  have first: "first = p" using assms(3) ps by simp
  have "alpha_run (scale_alpha g c) ps mem (NOT (mem p)) (NOT (mem p)) =
      map_run (over_pixel (scale_alpha g c)) ps mem"
  proof (cases "chA (mem p) \<noteq> 0 \<and> chA (scale_alpha g c) \<noteq> 0xff")
    case True
    then show ?thesis using alpha_run_first [of p qs mem "scale_alpha g c"] assms(1) ps by simp
  next
    case False
    then have "\<forall>q\<in>set ps. mem q \<noteq> NOT (mem p)" using assms(2) ps by (auto simp: cache_safe_def)
    then show ?thesis using alpha_run_map [OF assms(1)] by blast
  qed
  then show ?thesis using False first by (simp add: alpha_pass_def)
qed

section \<open>The dispatch on the mode\<close>

lemma chA_scaled: "chA (push_bit 24 v OR (c AND 0xffffff)) = v AND 0xff" for c :: pixel
proof -
  have m1: "(0xffffff :: pixel) = mask 24" and m2: "(0xff :: pixel) = mask 8" by (simp_all add: mask_eq_exp_minus_1)
  show ?thesis unfolding chA_def m1 m2
    by (rule bit_word_eqI) (auto simp: bit_simps)
qed

lemma alpha_bits:
  fixes c :: pixel
  shows "c AND 0xff000000 = 0xff000000 \<longleftrightarrow> chA c = 0xff" and "c AND 0xff000000 > 0 \<longleftrightarrow> chA c \<noteq> 0"
    and "c AND 0xff000000 = 0 \<longleftrightarrow> chA c = 0"
proof -
  have hi: "(0xff000000 :: pixel) = push_bit 24 (mask 8)" and m: "(0xff :: pixel) = mask 8"
    by (simp_all add: mask_eq_exp_minus_1)
  have split: "c AND 0xff000000 = push_bit 24 (chA c)"
    unfolding hi chA_def by (rule bit_word_eqI) (auto simp: bit_simps)
  have again: "drop_bit 24 (push_bit 24 (chA c)) = chA c"
    unfolding chA_def by (rule bit_word_eqI) (auto simp: bit_simps dest: bit_imp_le_length)
  show "c AND 0xff000000 = 0xff000000 \<longleftrightarrow> chA c = 0xff"
  proof
    assume "c AND 0xff000000 = 0xff000000"
    then have "drop_bit 24 (push_bit 24 (chA c)) = drop_bit 24 (0xff000000 :: pixel)" using split by simp
    then show "chA c = 0xff" unfolding again by simp
  qed (use split in simp)
  show zero: "c AND 0xff000000 = 0 \<longleftrightarrow> chA c = 0"
  proof
    assume "c AND 0xff000000 = 0"
    then have "drop_bit 24 (push_bit 24 (chA c)) = 0" using split by simp
    then show "chA c = 0" unfolding again .
  qed (use split in simp)
  then show "c AND 0xff000000 > 0 \<longleftrightarrow> chA c \<noteq> 0" by (simp add: word_neq_0_conv [symmetric])
qed

lemma DIV255_0 [simp]: "DIV255 0 = 0"
  by (simp add: DIV255_def)

lemma chA_low: "chA (c AND 0xffffff) = 0"
  using chA_scaled [of 0 c] by simp

lemma chA_scale_0: "chA c = 0 \<Longrightarrow> chA (scale_alpha g c) = 0"
  by (simp add: scale_alpha_def chA_scaled chA_low)

lemma chA_scale_transparent: "gr_alpha g = 0 \<Longrightarrow> chA (scale_alpha g c) = 0"
  by (simp add: scale_alpha_def global_alpha_on_def chA_low)

lemma scale_alpha_off: "\<not> global_alpha_on g \<Longrightarrow> scale_alpha g c = c"
  by (simp add: scale_alpha_def)

lemma scale_alpha_black: "scale_alpha g 0 = 0"
  by (simp add: scale_alpha_def chA_def)

lemma dispatch_map:
  assumes dist: "distinct ps"
    and safe: "gr_mode g = MWMODE_SRC_OVER \<Longrightarrow> cache_safe g c ps mem"
    and first: "ps \<noteq> [] \<Longrightarrow> first = hd ps"
  shows "dispatch_mode g c (\<lambda>c. store_run (scale_alpha g c) ps mem) (\<lambda>c. xor_run g c ps mem)
      (\<lambda>c. alpha_pass g c first ps mem) mem = map_run (pixel_step g c) ps mem"
proof -
  consider (clr) "gr_mode g = MWMODE_CLEAR" | (xor) "gr_mode g = MWMODE_XOR_FGBG"
    | (over) "gr_mode g = MWMODE_SRC_OVER" | (copy) "gr_mode g \<notin> {MWMODE_CLEAR, MWMODE_XOR_FGBG, MWMODE_SRC_OVER}"
    by blast
  then show ?thesis
  proof cases
    case clr
    then show ?thesis by (simp add: dispatch_mode_def store_run_map pixel_step_def [abs_def] scale_alpha_black)
  next
    case xor
    then show ?thesis by (simp add: dispatch_mode_def xor_run_map pixel_step_def [abs_def])
  next
    case copy
    then show ?thesis by (simp add: dispatch_mode_def store_run_map pixel_step_def [abs_def])
  next
    case over
    let ?f = "\<lambda>d. if chA (scale_alpha g c) = 0 then d else over_pixel (scale_alpha g c) d"
    have step: "pixel_step g c = ?f" using over by (simp add: pixel_step_def fun_eq_iff)
    have pass: "alpha_pass g c first ps mem = map_run ?f ps mem"
      by (rule alpha_pass_map [OF dist safe [OF over] first])
    have opaque: "store_run (scale_alpha g c) ps mem = map_run ?f ps mem"
      if "\<not> global_alpha_on g" "chA c = 0xff"
      using that by (simp add: scale_alpha_off store_run_map over_pixel_def [abs_def])
    have idle: "map_run ?f ps mem = mem" if "chA c = 0 \<or> gr_alpha g = 0"
      using that by (auto simp: chA_scale_0 chA_scale_transparent map_run_id)
    have d: "dispatch_mode g c D X A mem =
      (if gr_alpha g < 0 then (if chA c = 0xff then D c else if chA c \<noteq> 0 then A c else mem)
       else (if gr_alpha g = 0xff \<and> chA c = 0xff then D c
             else if gr_alpha g > 0 \<and> chA c \<noteq> 0 then A c else mem))" for D X A
      using over by (simp add: dispatch_mode_def alpha_bits)
    show ?thesis
    proof (cases "chA c = 0 \<or> gr_alpha g = 0")
      case True
      have same: "map_run (pixel_step g c) ps mem = mem" unfolding step by (rule idle [OF True])
      show ?thesis unfolding d same using True by auto
    next
      case False
      then show ?thesis unfolding d step pass using opaque by (auto simp: global_alpha_on_def)
    qed
  qed
qed

section \<open>Addresses\<close>

lemma horz_addrs_pixels:
  "horz_addrs psd x1 x2 y = map (\<lambda>i. pixel_addr psd (x1 + int i) y) [0..<nat (x2 - x1 + 1)]"
  by (simp add: horz_addrs_def pixel_addr_def ac_simps)

lemma vert_addrs_pixels:
  "vert_addrs psd x y1 y2 = map (\<lambda>i. pixel_addr psd x (y1 + int i)) [0..<nat (y2 - y1 + 1)]"
  by (simp add: vert_addrs_def pixel_addr_def algebra_simps)

definition rect_pixels :: "MWCOORD \<Rightarrow> MWCOORD \<Rightarrow> MWCOORD \<Rightarrow> MWCOORD \<Rightarrow> (MWCOORD \<times> MWCOORD) list" where
  "rect_pixels x1 y1 x2 y2 = [(x, y). y \<leftarrow> [y1..y2], x \<leftarrow> [x1..x2]]"

lemma map_upto_nat: "map (\<lambda>i. f (a + int i)) [0..<nat (b - a + 1)] = map f [a..b]"
proof -
  have "map (\<lambda>i. a + int i) [0..<nat (b - a + 1)] = [a..b]"
    by (rule nth_equalityI) (auto simp: nth_upto)
  then have "map f (map (\<lambda>i. a + int i) [0..<nat (b - a + 1)]) = map f [a..b]" by simp
  then show ?thesis by (simp add: comp_def)
qed

lemma rect_addrs_pixels:
  "rect_addrs psd x1 y1 x2 y2 = map (\<lambda>(x, y). pixel_addr psd x y) (rect_pixels x1 y1 x2 y2)"
proof -
  have row: "map (\<lambda>i. pixel_addr psd x1 y1 + int j * linelen psd + int i) [0..<nat (x2 - x1 + 1)] =
      map (\<lambda>x. pixel_addr psd x (y1 + int j)) [x1..x2]" for j
    using map_upto_nat [of "\<lambda>x. pixel_addr psd x (y1 + int j)" x1 x2]
    by (simp add: pixel_addr_def algebra_simps)
  show ?thesis
    unfolding rect_addrs_def row
    using map_upto_nat [of "\<lambda>y. map (\<lambda>x. pixel_addr psd x y) [x1..x2]" y1 y2]
    by (simp add: rect_pixels_def map_concat comp_def)
qed

lemma pixel_addr_inj:
  assumes "pixel_addr psd x y = pixel_addr psd x' y'" and "\<bar>x - x'\<bar> < linelen psd"
  shows "x = x' \<and> y = y'"
proof -
  have eq: "(y - y') * linelen psd = x' - x" using assms(1) by (simp add: pixel_addr_def algebra_simps)
  have "y = y'"
  proof (rule ccontr)
    assume "y \<noteq> y'"
    then have "1 \<le> \<bar>y - y'\<bar>" by simp
    then have "linelen psd \<le> \<bar>y - y'\<bar> * \<bar>linelen psd\<bar>"
      by (metis abs_ge_self abs_ge_zero mult_1 mult_right_mono order_trans)
    also have "\<dots> = \<bar>x' - x\<bar>" using eq by (simp flip: abs_mult)
    finally show False using assms(2) by simp
  qed
  then show ?thesis using eq by simp
qed

lemma set_rect_pixels: "(x, y) \<in> set (rect_pixels x1 y1 x2 y2) \<longleftrightarrow> x1 \<le> x \<and> x \<le> x2 \<and> y1 \<le> y \<and> y \<le> y2"
  by (auto simp: rect_pixels_def image_iff)

lemma distinct_rect_pixels: "distinct (rect_pixels x1 y1 x2 y2)"
proof -
  have "distinct (concat (map (\<lambda>y. map (\<lambda>x. (x, y)) [x1..x2]) ys))" if "distinct ys" for ys :: "int list"
    using that by (induction ys) (auto simp: distinct_map inj_on_def)
  then show ?thesis by (simp add: rect_pixels_def)
qed

lemma distinct_rect_addrs:
  assumes "x2 - x1 < linelen psd"
  shows "distinct (rect_addrs psd x1 y1 x2 y2)"
proof -
  have "inj_on (\<lambda>(x, y). pixel_addr psd x y) (set (rect_pixels x1 y1 x2 y2))"
  proof (rule inj_onI, clarify)
    fix x y x' y'
    assume "(x, y) \<in> set (rect_pixels x1 y1 x2 y2)" "(x', y') \<in> set (rect_pixels x1 y1 x2 y2)"
      and eq: "pixel_addr psd x y = pixel_addr psd x' y'"
    then have "\<bar>x - x'\<bar> < linelen psd" using assms by (auto simp: set_rect_pixels)
    then show "x = x' \<and> y = y'" by (rule pixel_addr_inj [OF eq])
  qed
  then show ?thesis using distinct_rect_pixels by (simp add: rect_addrs_pixels distinct_map)
qed

lemma distinct_horz_addrs: "distinct (horz_addrs psd x1 x2 y)"
  by (auto simp: horz_addrs_def distinct_map inj_on_def)

lemma distinct_vert_addrs: "linelen psd \<noteq> 0 \<Longrightarrow> distinct (vert_addrs psd x y1 y2)"
  by (auto simp: vert_addrs_def distinct_map inj_on_def)

lemma hd_rect_addrs: "rect_addrs psd x1 y1 x2 y2 \<noteq> [] \<Longrightarrow> pixel_addr psd x1 y1 = hd (rect_addrs psd x1 y1 x2 y2)"
proof -
  assume ne: "rect_addrs psd x1 y1 x2 y2 \<noteq> []"
  then have "x1 \<le> x2" "y1 \<le> y2" unfolding rect_addrs_pixels rect_pixels_def by (auto simp: not_le)
  then have "rect_pixels x1 y1 x2 y2 = (x1, y1) # tl (rect_pixels x1 y1 x2 y2)"
    by (simp add: rect_pixels_def upto_rec1)
  then show ?thesis unfolding rect_addrs_pixels by (metis case_prod_conv list.sel(1) list.simps(9))
qed

lemma hd_horz_addrs: "horz_addrs psd x1 x2 y \<noteq> [] \<Longrightarrow> pixel_addr psd x1 y = hd (horz_addrs psd x1 x2 y)"
  by (simp add: horz_addrs_def hd_map hd_upt)

lemma hd_vert_addrs: "vert_addrs psd x y1 y2 \<noteq> [] \<Longrightarrow> pixel_addr psd x y1 = hd (vert_addrs psd x y1 y2)"
  by (simp add: vert_addrs_def hd_map hd_upt)

section \<open>Drawing pixel by pixel\<close>

definition draw_pixels ::
  "gr_state \<Rightarrow> SCREENDEVICE \<Rightarrow> pixel \<Rightarrow> (MWCOORD \<times> MWCOORD) list \<Rightarrow> fbmem \<Rightarrow> fbmem" where
  "draw_pixels g psd c ps mem = fold (\<lambda>(x, y) m. ScrGen32_DrawPixel g psd m x y c) ps mem"

lemma draw_pixels_map:
  "draw_pixels g psd c ps mem = map_run (pixel_step g c) (map (\<lambda>(x, y). pixel_addr psd x y) ps) mem"
  by (induction ps arbitrary: mem) (auto simp: draw_pixels_def DrawPixel_step)

end
