(* ===== verification/Scr_Blend.thy ===== *)
theory Scr_Blend
  imports Scr_Lemmas
begin

unbundle bit_operations_syntax

text \<open>
  The arithmetic of blending, over natural numbers: no intermediate result of the 32-bit
  computation overflows, and it never divides by zero.
\<close>

section \<open>Channels as numbers\<close>

lemma unat_chA: "unat (chA p) < 256"
proof -
  have "unat (chA p) = unat p div 2 ^ 24" by (simp add: chA_def drop_bit_eq_div unat_div)
  moreover have "unat p < 2 ^ 32" using unsigned_less [of p, where ?'a = nat] by simp
  ultimately show ?thesis by (simp add: less_mult_imp_div_less)
qed

lemma and_255: "unat (p AND 0xff) < 256" for p :: pixel
proof -
  have "p AND 0xff = take_bit 8 p" by (simp add: take_bit_eq_mask mask_eq_exp_minus_1)
  then have "unat (p AND 0xff) = unat p mod 256" by (simp add: take_bit_eq_mod unat_mod)
  then show ?thesis by simp
qed

lemma unat_chR: "unat (chR p) < 256" and unat_chG: "unat (chG p) < 256" and unat_chB: "unat (chB p) < 256"
  by (simp_all only: chR_def chG_def chB_def and_255)

definition byte :: "pixel \<Rightarrow> bool" where
  "byte v \<longleftrightarrow> unat v < 256"

lemma byte_channels: "byte (chA p)" "byte (chR p)" "byte (chG p)" "byte (chB p)"
  by (simp_all add: byte_def unat_chA unat_chR unat_chG unat_chB)

lemma byte_cap: "byte (cap255 v)"
  by (simp add: byte_def cap255_def word_less_nat_alt)

lemma byte_mask: "byte v \<longleftrightarrow> v AND 0xff = v"
proof -
  have "v AND 0xff = take_bit 8 v" by (simp add: take_bit_eq_mask mask_eq_exp_minus_1)
  moreover have "take_bit 8 v = v \<longleftrightarrow> unat v < 256"
    by (auto simp: take_bit_eq_mod word_unat_eq_iff unat_mod mod_eq_self_iff_div_eq_0)
  ultimately show ?thesis by (simp add: byte_def)
qed

lemma byte_bit: "byte v \<Longrightarrow> bit v n \<Longrightarrow> n < 8"
proof -
  assume "byte v" "bit v n"
  then have "v = take_bit 8 v" by (simp add: byte_mask take_bit_eq_mask mask_eq_exp_minus_1)
  then show ?thesis using \<open>bit v n\<close> by (metis bit_take_bit_iff)
qed

text \<open>The four bytes of a pixel do not overlap.\<close>

lemma channels_argb:
  assumes "byte a" "byte r" "byte g" "byte b"
  shows "chA (argb a r g b) = a" "chR (argb a r g b) = r" "chG (argb a r g b) = g" "chB (argb a r g b) = b"
proof -
  have m: "(0xff :: pixel) = mask 8" by (simp add: mask_eq_exp_minus_1)
  note b8 = byte_bit [OF assms(1)] byte_bit [OF assms(2)] byte_bit [OF assms(3)] byte_bit [OF assms(4)]
  show "chA (argb a r g b) = a"
    unfolding chA_def argb_def
    by (rule bit_word_eqI) (auto simp: bit_simps dest: b8)
  show "chR (argb a r g b) = r"
    unfolding chR_def argb_def m
    by (rule bit_word_eqI) (auto simp: bit_simps dest: b8)
  show "chG (argb a r g b) = g"
    unfolding chG_def argb_def m
    by (rule bit_word_eqI) (auto simp: bit_simps dest: b8)
  show "chB (argb a r g b) = b"
    unfolding chB_def argb_def m
    by (rule bit_word_eqI) (auto simp: bit_simps dest: b8)
qed

section \<open>Division by 255\<close>

definition div255 :: "nat \<Rightarrow> nat" where
  "div255 n = (257 * n + 255) div 65536"

lemma unat_DIV255:
  assumes "257 * unat v + 255 < 2 ^ 32"
  shows "unat (DIV255 v) = div255 (unat v)"
proof -
  have "push_bit 8 v + v + 0xff = 257 * v + 255" by (simp add: push_bit_eq_mult)
  moreover have "unat (257 * v + 255) = 257 * unat v + 255"
    using assms by (simp add: unat_word_ariths)
  ultimately show ?thesis by (simp add: DIV255_def div255_def drop_bit_eq_div unat_div)
qed

lemma div255_exact:
  assumes "k \<le> 255"
  shows "div255 (255 * k) = k"
proof -
  have "257 * (255 * k) + 255 = (255 - k) + k * 65536" using assms by simp
  then have "div255 (255 * k) = k + (255 - k) div 65536" unfolding div255_def by simp
  then show ?thesis by simp
qed

lemma div255_near:
  assumes "k \<le> 65025"
  shows "div255 (255 * k) \<le> k" and "k \<le> div255 (255 * k) + 1"
proof -
  have "div255 (255 * k) < k + 1"
    unfolding div255_def by (subst div_less_iff_less_mult) simp_all
  then show "div255 (255 * k) \<le> k" by simp
  have "k - 1 \<le> div255 (255 * k)"
    unfolding div255_def using assms by (subst less_eq_div_iff_mult_less_eq) simp_all
  then show "k \<le> div255 (255 * k) + 1" by simp
qed

lemma div255_mono: "m \<le> n \<Longrightarrow> div255 m \<le> div255 n"
  by (simp add: div255_def div_le_mono)

lemma mult3_bound:
  fixes d da k :: nat
  assumes "d \<le> 255" and "da \<le> 255" and "k \<le> 255"
  shows "d * da * k \<le> 16581375"
proof -
  have "d * da * k \<le> 255 * 255 * 255" by (intro mult_le_mono assms)
  then show ?thesis by simp
qed

section \<open>The blended pixel\<close>

text \<open>The alpha and a colour channel of the result, as the code computes them, over numbers.\<close>

definition over_alpha :: "nat \<Rightarrow> nat \<Rightarrow> nat" where
  "over_alpha a da = div255 (255 * a + da * (255 - a))"

definition over_channel :: "nat \<Rightarrow> nat \<Rightarrow> nat \<Rightarrow> nat \<Rightarrow> nat" where
  "over_channel a da s d = min 255 ((s * a + div255 (d * da * (255 - a))) div over_alpha a da)"

lemma alpha_sum:
  fixes a da :: nat
  assumes "a \<le> 255" and "da \<le> 255"
  shows "255 * a + da * (255 - a) \<le> 255 * 255"
proof -
  have "255 * a + da * (255 - a) \<le> 255 * a + 255 * (255 - a)"
    by (intro add_left_mono mult_right_mono assms(2)) simp
  also have "\<dots> = 255 * 255" using assms(1) by (simp add: diff_mult_distrib2)
  finally show ?thesis .
qed

lemma over_alpha_bounds:
  assumes "0 < a" and "a \<le> 255" and "da \<le> 255"
  shows "0 < over_alpha a da" and "over_alpha a da \<le> 255" and "a \<le> over_alpha a da"
proof -
  have "255 * a + da * (255 - a) \<le> 255 * 255" by (rule alpha_sum) (rule assms)+
  then show "over_alpha a da \<le> 255"
    using div255_mono div255_exact [of 255] unfolding over_alpha_def by fastforce
  have "div255 (255 * a) \<le> over_alpha a da" unfolding over_alpha_def by (rule div255_mono) simp
  then show "a \<le> over_alpha a da" using div255_exact [OF assms(2)] by simp
  then show "0 < over_alpha a da" using assms(1) by simp
qed

lemma over_alpha_opaque: "a \<le> 255 \<Longrightarrow> over_alpha a 255 = 255"
proof -
  assume "a \<le> 255"
  then have "255 * a + 255 * (255 - a) = 255 * 255" by simp
  then show ?thesis using div255_exact [of 255] by (simp add: over_alpha_def)
qed

lemma unat_sub_255: "byte v \<Longrightarrow> unat (0xff - v) = 255 - unat v"
  by (subst unat_sub) (auto simp: byte_def word_le_nat_alt)

lemma unat_mult_bytes: "byte u \<Longrightarrow> byte v \<Longrightarrow> unat (u * v) = unat u * unat v"
proof -
  assume "byte u" "byte v"
  then have "unat u * unat v \<le> 255 * 255" unfolding byte_def by (intro mult_le_mono) auto
  then show ?thesis by (simp add: unat_word_ariths)
qed

lemma unat_blend_alpha:
  assumes "byte a" "byte da"
  shows "unat (DIV255 (a * 0xff + da * (0xff - a))) = over_alpha (unat a) (unat da)"
proof -
  have b: "unat a \<le> 255" "unat da \<le> 255" using assms by (auto simp: byte_def)
  have le: "255 * unat a + unat da * (255 - unat a) \<le> 65025"
    using alpha_sum [OF b] by simp
  have b2: "byte (0xff - a)" using unat_sub_255 [OF assms(1)] by (simp add: byte_def)
  have "unat (a * 0xff + da * (0xff - a)) = 255 * unat a + unat da * (255 - unat a)"
  proof -
    have "unat (a * 0xff) = 255 * unat a" using unat_mult_bytes [OF assms(1)] by (simp add: byte_def)
    moreover have "unat (da * (0xff - a)) = unat da * (255 - unat a)"
      using unat_mult_bytes [OF assms(2) b2] unat_sub_255 [OF assms(1)] by simp
    ultimately show ?thesis using le by (subst unat_add_lem [THEN iffD1]) simp_all
  qed
  then show ?thesis using le by (subst unat_DIV255) (simp_all add: over_alpha_def)
qed

lemma unat_blend_channel:
  assumes "byte a" "byte da" "byte s" "byte d" and "0 < unat a"
  shows "unat (cap255 ((s * a + DIV255 (d * da * (0xff - a))) div DIV255 (a * 0xff + da * (0xff - a)))) =
    over_channel (unat a) (unat da) (unat s) (unat d)"
proof -
  have b: "unat a \<le> 255" "unat da \<le> 255" "unat s \<le> 255" "unat d \<le> 255" using assms by (auto simp: byte_def)
  let ?k = "unat d * unat da * (255 - unat a)"
  have k: "?k \<le> 16581375" by (rule mult3_bound) (use b in auto)
  have dda: "unat (d * da) = unat d * unat da" by (rule unat_mult_bytes) (rule assms)+
  have sub: "unat (0xff - a) = 255 - unat a" by (rule unat_sub_255 [OF assms(1)])
  have prod: "unat (d * da * (0xff - a)) = ?k"
  proof -
    have "unat (d * da * (0xff - a)) = unat (d * da) * unat (0xff - a) mod 2 ^ 32"
      by (simp add: unat_word_ariths)
    then show ?thesis using k dda sub by simp
  qed
  have div: "unat (DIV255 (d * da * (0xff - a))) = div255 ?k"
    using k prod by (subst unat_DIV255) simp_all
  have le: "div255 ?k \<le> 65025" using div255_mono [OF k] by (simp add: div255_def)
  have sa: "unat (s * a) = unat s * unat a" by (rule unat_mult_bytes) (rule assms)+
  have sale: "unat s * unat a \<le> 255 * 255" using b by (intro mult_le_mono)
  have num: "unat (s * a + DIV255 (d * da * (0xff - a))) = unat s * unat a + div255 ?k"
    using le sale sa div by (subst unat_add_lem [THEN iffD1]) simp_all
  have quot: "unat ((s * a + DIV255 (d * da * (0xff - a))) div DIV255 (a * 0xff + da * (0xff - a))) =
      (unat s * unat a + div255 ?k) div over_alpha (unat a) (unat da)"
    by (simp only: unat_div num unat_blend_alpha [OF assms(1,2)])
  have cap: "unat (cap255 v) = min 255 (unat v)" for v
    by (auto simp: cap255_def word_less_nat_alt)
  show ?thesis by (simp only: cap quot over_channel_def)
qed

lemma over_pixel_channels:
  assumes "0 < unat (chA c)" "unat (chA c) < 255" and "chA d \<noteq> 0"
  shows "unat (chA (over_pixel c d)) = over_alpha (unat (chA c)) (unat (chA d))"
    and "unat (chR (over_pixel c d)) = over_channel (unat (chA c)) (unat (chA d)) (unat (chR c)) (unat (chR d))"
    and "unat (chG (over_pixel c d)) = over_channel (unat (chA c)) (unat (chA d)) (unat (chG c)) (unat (chG d))"
    and "unat (chB (over_pixel c d)) = over_channel (unat (chA c)) (unat (chA d)) (unat (chB c)) (unat (chB d))"
proof -
  have "chA c \<noteq> 0xff" using assms(2) by auto
  then have o: "over_pixel c d = blend (chA c) (chR c * chA c) (chG c * chA c) (chB c * chA c) d"
    using assms(3) by (simp add: over_pixel_def)
  note ch = channels_argb [OF byte_cap byte_cap byte_cap byte_cap]
  note b = byte_channels
  have alpha: "unat (cap255 (DIV255 (chA c * 0xff + chA d * (0xff - chA c)))) =
      over_alpha (unat (chA c)) (unat (chA d))"
  proof -
    have "unat (chA c) \<le> 255" "unat (chA d) \<le> 255"
      using unat_chA [of c] unat_chA [of d] by simp_all
    then have "unat (DIV255 (chA c * 0xff + chA d * (0xff - chA c))) \<le> 255"
      using over_alpha_bounds(2) [OF assms(1)] unat_blend_alpha [OF b(1) [of c] b(1) [of d]] by simp
    then show ?thesis
      using unat_blend_alpha [OF b(1) [of c] b(1) [of d]] by (simp add: cap255_def word_less_nat_alt)
  qed
  show "unat (chA (over_pixel c d)) = over_alpha (unat (chA c)) (unat (chA d))"
    unfolding o blend_def Let_def ch by (rule alpha)
  show "unat (chR (over_pixel c d)) = over_channel (unat (chA c)) (unat (chA d)) (unat (chR c)) (unat (chR d))"
    unfolding o blend_def Let_def ch by (rule unat_blend_channel [OF b(1) b(1) b(2) b(2) assms(1)])
  show "unat (chG (over_pixel c d)) = over_channel (unat (chA c)) (unat (chA d)) (unat (chG c)) (unat (chG d))"
    unfolding o blend_def Let_def ch by (rule unat_blend_channel [OF b(1) b(1) b(3) b(3) assms(1)])
  show "unat (chB (over_pixel c d)) = over_channel (unat (chA c)) (unat (chA d)) (unat (chB c)) (unat (chB d))"
    unfolding o blend_def Let_def ch by (rule unat_blend_channel [OF b(1) b(1) b(4) b(4) assms(1)])
qed

text \<open>Over an opaque background the result is the exact mean, at most one step too dark.\<close>

lemma over_channel_opaque:
  assumes "a \<le> 255" and "s \<le> 255" and "d \<le> 255"
  shows "over_channel a 255 s d \<le> (s * a + d * (255 - a)) div 255"
    and "(s * a + d * (255 - a)) div 255 \<le> over_channel a 255 s d + 1"
proof -
  let ?k = "d * (255 - a)"
  have "?k \<le> 255 * 255" by (rule mult_le_mono) (use assms in auto)
  then have near: "div255 (255 * ?k) \<le> ?k" "?k \<le> div255 (255 * ?k) + 1" using div255_near [of ?k] by simp_all
  have sum: "s * a + ?k \<le> 65025"
  proof -
    have "s * a + d * (255 - a) \<le> 255 * a + 255 * (255 - a)"
      by (intro add_mono mult_le_mono) (use assms in auto)
    then show ?thesis using assms(1) by simp
  qed
  have "(s * a + div255 (255 * ?k)) div 255 \<le> 255" using near sum by simp
  then have oc: "over_channel a 255 s d = (s * a + div255 (255 * ?k)) div 255"
    using over_alpha_opaque [OF assms(1)] by (simp add: over_channel_def mult.commute mult.left_commute)
  show "over_channel a 255 s d \<le> (s * a + d * (255 - a)) div 255"
    unfolding oc by (rule div_le_mono) (use near in simp)
  have "(s * a + ?k) div 255 \<le> (s * a + div255 (255 * ?k) + 255) div 255"
    by (rule div_le_mono) (use near in simp)
  then show "(s * a + d * (255 - a)) div 255 \<le> over_channel a 255 s d + 1" unfolding oc by simp
qed

section \<open>Block copies\<close>

text \<open>No written pixel is read later, and none is written twice.\<close>

definition copy_safe :: "(int \<times> int) list \<Rightarrow> bool" where
  "copy_safe ps \<longleftrightarrow> sorted_wrt (\<lambda>(s, d) (s', d'). d \<noteq> s' \<and> d \<noteq> d') ps"

lemma copy_run_other: "q \<notin> snd ` set ps \<Longrightarrow> copy_run f ps mem q = mem q"
  by (induction f ps mem rule: copy_run.induct) auto

lemma copy_run_at: "copy_safe ps \<Longrightarrow> (s, d) \<in> set ps \<Longrightarrow> copy_run f ps mem d = f (mem s)"
proof (induction f ps mem rule: copy_run.induct)
  case (2 f s' d' ps mem)
  have safe: "copy_safe ps" and first: "\<forall>(s, d)\<in>set ps. d' \<noteq> s \<and> d' \<noteq> d"
    using "2.prems"(1) by (auto simp: copy_safe_def case_prod_unfold)
  show ?case
  proof (cases "(s, d) = (s', d')")
    case True
    then have "d \<notin> snd ` set ps" using first by auto
    then show ?thesis using True by (simp add: copy_run_other)
  next
    case False
    then have in_ps: "(s, d) \<in> set ps" using "2.prems"(2) by auto
    then have "d' \<noteq> s" using first by auto
    have "copy_run f ps (mem(d' := f (mem s'))) d = f ((mem(d' := f (mem s'))) s)"
      by (rule "2.IH" [OF safe in_ps])
    then show ?thesis using \<open>d' \<noteq> s\<close> by (simp only: copy_run.simps fun_upd_other not_sym)
  qed
qed simp

text \<open>One pixel of a block copy in the blending mode.\<close>

definition blit_pixel :: "gr_state \<Rightarrow> bool \<Rightarrow> pixel \<Rightarrow> pixel \<Rightarrow> pixel" where
  "blit_pixel g ga s d =
    (let srcA = blit_src_alpha g ga s in
     if srcA = 0 then d
     else if srcA = 0xff \<or> chA d = 0 then (if ga then argb srcA (chR s) (chG s) (chB s) else s)
     else blend srcA (chR s * srcA) (chG s * srcA) (chB s * srcA) d)"

definition blit_pixels :: "(pixel \<Rightarrow> pixel \<Rightarrow> pixel) \<Rightarrow> (int \<times> int) list \<Rightarrow> fbmem \<Rightarrow> fbmem" where
  "blit_pixels f ps mem = fold (\<lambda>(s, d) m. m(d := f (m s) (m d))) ps mem"

lemma blit_alpha_run_pixels:
  "calc = blit_pixel g ga src dst \<Longrightarrow>
   blit_alpha_run g ga ps mem src dst calc = blit_pixels (blit_pixel g ga) ps mem"
proof (induction g ga ps mem src dst calc rule: blit_alpha_run.induct)
  case (1 g ga mem src dst calc)
  then show ?case by (simp add: blit_pixels_def)
next
  case (2 g ga s d ps mem src dst calc)
  have unf: "blit_pixels f ((s, d) # ps) mem = blit_pixels f ps (mem(d := f (mem s) (mem d)))" for f
    by (simp add: blit_pixels_def)
  let ?A = "blit_src_alpha g ga (mem s)"
  show ?case
  proof (cases "mem s = src \<and> mem d = dst")
    case True
    have "blit_alpha_run g ga ps (mem(d := calc)) src dst calc =
        blit_pixels (blit_pixel g ga) ps (mem(d := calc))"
      by (rule "2.IH"(1) [OF True "2.prems"])
    then show ?thesis using True "2.prems" by (simp add: unf)
  next
    case hit: False
    show ?thesis
    proof (cases "?A = 0")
      case True
      have "blit_alpha_run g ga ps mem src dst calc = blit_pixels (blit_pixel g ga) ps mem"
        by (rule "2.IH"(2) [OF hit refl refl refl refl True "2.prems"])
      moreover have "blit_pixel g ga (mem s) (mem d) = mem d" using True by (simp add: blit_pixel_def)
      moreover have "blit_alpha_run g ga ((s, d) # ps) mem src dst calc = blit_alpha_run g ga ps mem src dst calc"
        using hit True by (simp only: blit_alpha_run.simps Let_def simp_thms if_False if_True)
      ultimately show ?thesis by (simp only: unf fun_upd_triv)
    next
      case alpha: False
      show ?thesis
      proof (cases "?A = 0xff \<or> chA (mem d) = 0")
        case True
        let ?m = "mem(d := (if ga then argb ?A (chR (mem s)) (chG (mem s)) (chB (mem s)) else mem s))"
        have "blit_alpha_run g ga ps ?m src dst calc = blit_pixels (blit_pixel g ga) ps ?m"
          by (rule "2.IH"(3) [OF hit refl refl refl refl alpha True "2.prems"])
        moreover have "blit_pixel g ga (mem s) (mem d) = ?m d"
          using alpha True by (simp add: blit_pixel_def)
        moreover have "blit_alpha_run g ga ((s, d) # ps) mem src dst calc = blit_alpha_run g ga ps ?m src dst calc"
          using hit alpha True by (simp only: blit_alpha_run.simps Let_def if_False if_True)
        ultimately show ?thesis by (simp only: unf fun_upd_same)
      next
        case False
        let ?v = "blend ?A (chR (mem s) * ?A) (chG (mem s) * ?A) (chB (mem s) * ?A) (mem d)"
        have v: "?v = blit_pixel g ga (mem s) (mem d)"
          using alpha False by (simp only: blit_pixel_def Let_def if_False)
        have "blit_alpha_run g ga ps (mem(d := ?v)) (mem s) (mem d) ?v = blit_pixels (blit_pixel g ga) ps (mem(d := ?v))"
          by (rule "2.IH"(4) [OF hit refl refl refl refl alpha False refl v])
        moreover have "blit_alpha_run g ga ((s, d) # ps) mem src dst calc =
            blit_alpha_run g ga ps (mem(d := ?v)) (mem s) (mem d) ?v"
          using hit alpha False by (simp only: blit_alpha_run.simps Let_def if_False)
        ultimately show ?thesis by (simp only: unf v)
      qed
    qed
  qed
qed

lemma blit_pixel_initial: "0 = blit_pixel g ga 0 0"
  by (simp add: blit_pixel_def blit_src_alpha_def chA_def)

end
