(* ===== verification/Scr_Props.thy ===== *)
theory Scr_Props
  imports Scr_Blend
begin

unbundle bit_operations_syntax

text \<open>
  The properties of the screen driver, and the interface \<open>screen_driver\<close> that the mouse cursor
  relies on: what a pixel reads after another one has been written.
\<close>

section \<open>The interface of a screen\<close>

locale screen_driver =
  fixes read :: "'s \<Rightarrow> MWCOORD \<Rightarrow> MWCOORD \<Rightarrow> pixel"
    and draw :: "'s \<Rightarrow> MWCOORD \<Rightarrow> MWCOORD \<Rightarrow> pixel \<Rightarrow> 's"
    and onscreen :: "MWCOORD \<Rightarrow> MWCOORD \<Rightarrow> bool"
  assumes read_draw_same: "onscreen x y \<Longrightarrow> read (draw s x y c) x y = c"
    and read_draw_other: "onscreen x y \<Longrightarrow> onscreen x' y' \<Longrightarrow> (x, y) \<noteq> (x', y') \<Longrightarrow>
      read (draw s x y c) x' y' = read s x' y'"
begin

text \<open>Writing a list of pixels, the later ones last.\<close>

definition draw_list :: "((MWCOORD \<times> MWCOORD) \<times> pixel) list \<Rightarrow> 's \<Rightarrow> 's" where
  "draw_list ws s = fold (\<lambda>((x, y), c) s. draw s x y c) ws s"

definition onscreen_list :: "((MWCOORD \<times> MWCOORD) \<times> pixel) list \<Rightarrow> bool" where
  "onscreen_list ws \<longleftrightarrow> (\<forall>((x, y), c)\<in>set ws. onscreen x y)"

lemma draw_list_Nil [simp]: "draw_list [] s = s"
  by (simp add: draw_list_def)

lemma draw_list_Cons [simp]: "draw_list (((x, y), c) # ws) s = draw_list ws (draw s x y c)"
  by (simp add: draw_list_def)

lemma draw_list_append: "draw_list (us @ ws) s = draw_list ws (draw_list us s)"
  by (simp add: draw_list_def)

lemma read_draw_list_other:
  "onscreen_list ws \<Longrightarrow> onscreen x y \<Longrightarrow> (x, y) \<notin> fst ` set ws \<Longrightarrow> read (draw_list ws s) x y = read s x y"
proof (induction ws arbitrary: s)
  case (Cons w ws)
  obtain x' y' c where w: "w = ((x', y'), c)" by (cases w) auto
  then have "onscreen x' y'" "onscreen_list ws" "(x', y') \<noteq> (x, y)" "(x, y) \<notin> fst ` set ws"
    using Cons.prems by (auto simp: onscreen_list_def)
  then show ?case using Cons.IH [of "draw s x' y' c"] read_draw_other [of x' y' x y s c] Cons.prems(2) w
    by simp
qed simp

lemma read_draw_list:
  "onscreen_list ws \<Longrightarrow> distinct (map fst ws) \<Longrightarrow> ((x, y), c) \<in> set ws \<Longrightarrow> read (draw_list ws s) x y = c"
proof (induction ws arbitrary: s)
  case (Cons w ws)
  obtain x' y' c' where w: "w = ((x', y'), c')" by (cases w) auto
  have on: "onscreen x' y'" "onscreen_list ws" using Cons.prems(1) w by (auto simp: onscreen_list_def)
  show ?case
  proof (cases "((x, y), c) = w")
    case True
    then have "(x, y) \<notin> fst ` set ws" using Cons.prems(2) w by auto
    then show ?thesis using True w on read_draw_list_other [of ws x y] read_draw_same by auto
  next
    case False
    then show ?thesis using Cons on w by auto
  qed
qed simp

text \<open>Writing the values of a picture \<open>b\<close> where it may differ from the screen restores it.\<close>

lemma draw_back:
  assumes on: "\<forall>(x, y)\<in>set ps. onscreen x y"
    and else_same: "\<And>x y. onscreen x y \<Longrightarrow> (x, y) \<notin> set ps \<Longrightarrow> read s x y = b x y"
    and dist: "distinct ps" and xy: "onscreen x y"
  shows "read (draw_list (map (\<lambda>(x, y). ((x, y), b x y)) ps) s) x y = b x y"
proof (cases "(x, y) \<in> set ps")
  case True
  show ?thesis
    by (rule read_draw_list)
      (use on dist True in \<open>auto simp: onscreen_list_def comp_def case_prod_unfold image_iff\<close>)
next
  case False
  let ?ws = "map (\<lambda>(x, y). ((x, y), b x y)) ps"
  have "(x, y) \<notin> fst ` set ?ws" using False by auto
  moreover have "onscreen_list ?ws" using on by (auto simp: onscreen_list_def)
  ultimately have "read (draw_list ?ws s) x y = read s x y" using xy by (intro read_draw_list_other)
  then show ?thesis using else_same [OF xy False] by simp
qed

end

text \<open>
  The driver provides the interface for the pixels of a surface whose lines are at least as long
  as its width, in copy mode and without global alpha.
\<close>

definition plain_copy :: "gr_state \<Rightarrow> gr_state" where
  "plain_copy g = g\<lparr>gr_mode := MWMODE_COPY, gr_alpha := - 1\<rparr>"

definition on_surface :: "SCREENDEVICE \<Rightarrow> MWCOORD \<Rightarrow> MWCOORD \<Rightarrow> bool" where
  "on_surface psd x y \<longleftrightarrow>
     0 \<le> x \<and> x < xvirtres psd \<and> 0 \<le> y \<and> y < yvirtres psd \<and> xvirtres psd \<le> linelen psd"

lemma DrawPixel_plain:
  "ScrGen32_DrawPixel (plain_copy g) psd mem x y c = mem(pixel_addr psd x y := c)"
  by (simp add: DrawPixel_step pixel_step_def plain_copy_def scale_alpha_def global_alpha_on_def)

interpretation gen32: screen_driver "ScrGen32_ReadPixel psd"
  "\<lambda>mem. ScrGen32_DrawPixel (plain_copy g) psd mem" "on_surface psd" for psd g
proof
  fix x y s c
  show "ScrGen32_ReadPixel psd (ScrGen32_DrawPixel (plain_copy g) psd s x y c) x y = c"
    by (simp add: ScrGen32_ReadPixel_def DrawPixel_plain)
next
  fix x y x' y' s c
  assume on: "on_surface psd x y" "on_surface psd x' y'" and ne: "(x, y) \<noteq> (x', y')"
  then have "\<bar>x - x'\<bar> < linelen psd" by (auto simp: on_surface_def)
  then have "pixel_addr psd x' y' \<noteq> pixel_addr psd x y" using pixel_addr_inj [of psd x y x' y'] ne by auto
  then show "ScrGen32_ReadPixel psd (ScrGen32_DrawPixel (plain_copy g) psd s x y c) x' y' = ScrGen32_ReadPixel psd s x' y'"
    by (simp add: ScrGen32_ReadPixel_def DrawPixel_plain)
qed

section \<open>Lines and rectangles\<close>

text \<open>A small surface for the witnesses.\<close>

definition sample_psd :: SCREENDEVICE where
  "sample_psd = \<lparr>xres = 8, yres = 4, xvirtres = 8, yvirtres = 4, planes = 1, bpp = 32, linelen = 8,
     psd_size = 128, flags = 1, addr = 0, portrait = 0\<rparr>"

definition sample_gr :: gr_state where
  "sample_gr = \<lparr>gr_mode = MWMODE_SRC_OVER, gr_alpha = - 1, gr_xorcolor = 0\<rparr>"

text \<open>
  C6. \<open>ScrGen32_FillRect\<close> draws exactly what \<open>ScrGen32_DrawPixel\<close> draws for every pixel of the
  rectangle, in every mode and with every global alpha; in the blending mode, provided the first
  pixel cannot collide with the initial content of the loop's cache (\<open>cache_safe\<close>).
\<close>

theorem fill_rect_pixelwise:
  assumes "x2 - x1 < linelen psd"
    and "gr_mode g = MWMODE_SRC_OVER \<Longrightarrow> cache_safe g c (rect_addrs psd x1 y1 x2 y2) mem"
  shows "ScrGen32_FillRect g psd mem x1 y1 x2 y2 c =
    draw_pixels g psd c (rect_pixels x1 y1 x2 y2) mem"
  using dispatch_map [OF distinct_rect_addrs [OF assms(1)] assms(2) hd_rect_addrs]
  unfolding ScrGen32_FillRect_def ScrGen32_FillRectDefault_def [abs_def] ScrGen32_FillRectXor_def [abs_def]
    ScrGen32_FillRectAlpha_def [abs_def] draw_pixels_map rect_addrs_pixels [symmetric]
  by blast

theorem fill_rect_pixelwise_witness:
  "ScrGen32_FillRect sample_gr sample_psd (\<lambda>a. 0xff102030) 1 1 3 2 0x80ff0000 =
   draw_pixels sample_gr sample_psd 0x80ff0000 (rect_pixels 1 1 3 2) (\<lambda>a. 0xff102030)"
proof (rule fill_rect_pixelwise)
  have "chA (0xff102030 :: pixel) = 0xff" "chA (0x80ff0000 :: pixel) = 0x80" by (simp_all add: chA_def)
  then show "cache_safe sample_gr 0x80ff0000 (rect_addrs sample_psd 1 1 3 2) (\<lambda>a. 0xff102030)"
    by (simp add: cache_safe_def scale_alpha_def sample_gr_def global_alpha_on_def)
qed (simp add: sample_psd_def)

text \<open>
  \<open>ScrGen32_DrawHorzLine\<close> and \<open>ScrGen32_DrawVertLine\<close> agree with drawing their pixels one by
  one, under the same proviso.
\<close>

theorem lines_pixelwise:
  assumes "linelen psd \<noteq> 0"
    and "gr_mode g = MWMODE_SRC_OVER \<Longrightarrow> cache_safe g c (horz_addrs psd x1 x2 y) mem"
    and "gr_mode g = MWMODE_SRC_OVER \<Longrightarrow> cache_safe g c (vert_addrs psd x y1 y2) mem"
  shows "ScrGen32_DrawHorzLine g psd mem x1 x2 y c = draw_pixels g psd c [(x, y). x \<leftarrow> [x1..x2]] mem
    \<and> ScrGen32_DrawVertLine g psd mem x y1 y2 c = draw_pixels g psd c [(x, y). y \<leftarrow> [y1..y2]] mem"
proof
  have h: "horz_addrs psd x1 x2 y = map (\<lambda>(x, y). pixel_addr psd x y) [(x, y). x \<leftarrow> [x1..x2]]"
    unfolding horz_addrs_pixels using map_upto_nat [of "\<lambda>x. pixel_addr psd x y" x1 x2]
    by (simp add: comp_def)
  have v: "vert_addrs psd x y1 y2 = map (\<lambda>(x, y). pixel_addr psd x y) [(x, y). y \<leftarrow> [y1..y2]]"
    unfolding vert_addrs_pixels using map_upto_nat [of "\<lambda>y. pixel_addr psd x y" y1 y2]
    by (simp add: comp_def)
  show "ScrGen32_DrawHorzLine g psd mem x1 x2 y c = draw_pixels g psd c [(x, y). x \<leftarrow> [x1..x2]] mem"
    using dispatch_map [OF distinct_horz_addrs assms(2) hd_horz_addrs]
    unfolding ScrGen32_DrawHorzLine_def ScrGen32_DrawHorzLineDefault_def [abs_def]
      ScrGen32_DrawHorzLineXor_def [abs_def] ScrGen32_DrawHorzLineAlpha_def [abs_def] draw_pixels_map h [symmetric]
    by blast
  show "ScrGen32_DrawVertLine g psd mem x y1 y2 c = draw_pixels g psd c [(x, y). y \<leftarrow> [y1..y2]] mem"
    using dispatch_map [OF distinct_vert_addrs [OF assms(1)] assms(3) hd_vert_addrs]
    unfolding ScrGen32_DrawVertLine_def ScrGen32_DrawVertLineDefault_def [abs_def]
      ScrGen32_DrawVertLineXor_def [abs_def] ScrGen32_DrawVertLineAlpha_def [abs_def] draw_pixels_map v [symmetric]
    by blast
qed

theorem lines_pixelwise_witness:
  "ScrGen32_DrawHorzLine sample_gr sample_psd (\<lambda>a. 0xff102030) 1 3 2 0x80ff0000 =
   draw_pixels sample_gr sample_psd 0x80ff0000 [(x, 2). x \<leftarrow> [1..3]] (\<lambda>a. 0xff102030)"
proof -
  have "chA (0xff102030 :: pixel) = 0xff" "chA (0x80ff0000 :: pixel) = 0x80" by (simp_all add: chA_def)
  then have "cache_safe sample_gr 0x80ff0000 ps (\<lambda>a. 0xff102030)" for ps
    by (simp add: cache_safe_def scale_alpha_def sample_gr_def global_alpha_on_def)
  moreover have "linelen sample_psd \<noteq> 0" by (simp add: sample_psd_def)
  ultimately show ?thesis
    using lines_pixelwise [where psd = sample_psd and g = sample_gr and c = "0x80ff0000" and ?x1.0 = 1
      and ?x2.0 = 3 and y = 2 and mem = "\<lambda>a. 0xff102030" and x = 0 and ?y1.0 = 0 and ?y2.0 = 0] by blast
qed

text \<open>
  The proviso is needed.  The cache starts with the complement of the first pixel and the same
  value as its "result": after a transparent black first pixel, an opaque white pixel of the
  rectangle is taken for a cached one and is left as it is, where \<open>ScrGen32_DrawPixel\<close> blends it.
\<close>

theorem blend_cache_collision:
  "let mem = (\<lambda>a. if a = 0 then 0x00000000 else 0xffffffff);
       filled = ScrGen32_FillRect sample_gr sample_psd mem 0 0 1 0 0x80ff0000;
       drawn = draw_pixels sample_gr sample_psd 0x80ff0000 (rect_pixels 0 0 1 0) mem
   in filled 1 = 0xffffffff \<and> drawn 1 \<noteq> 0xffffffff"
  by code_simp

section \<open>Blending\<close>

text \<open>
  No intermediate 32-bit result of the blending wraps: over a pixel that is not transparent every
  channel is the formula of the code (which approximates the division by 255) over natural numbers;
  the divisor, the new alpha, is positive and at most 255, and not below that of the source.
\<close>

theorem over_pixel_no_wrap:
  assumes "0 < unat (chA c)" and "unat (chA c) < 255" and "chA d \<noteq> 0"
  shows "let a = unat (chA c); da = unat (chA d); out = over_pixel c d in
    unat (chA out) = over_alpha a da \<and> a \<le> over_alpha a da \<and> 0 < over_alpha a da \<and> over_alpha a da \<le> 255
    \<and> unat (chR out) = over_channel a da (unat (chR c)) (unat (chR d))
    \<and> unat (chG out) = over_channel a da (unat (chG c)) (unat (chG d))
    \<and> unat (chB out) = over_channel a da (unat (chB c)) (unat (chB d))"
proof -
  have "unat (chA c) \<le> 255" "unat (chA d) \<le> 255" using unat_chA [of c] unat_chA [of d] by simp_all
  then show ?thesis
    using over_pixel_channels [OF assms] over_alpha_bounds [OF assms(1)] unfolding Let_def by blast
qed

theorem over_pixel_no_wrap_witness:
  "unat (chA (over_pixel 0x80ff0000 0x40204080)) = over_alpha 128 64"
proof -
  have ch: "chA (0x80ff0000 :: pixel) = 128" "chA (0x40204080 :: pixel) = 64" by (simp_all add: chA_def)
  then show ?thesis using over_pixel_no_wrap [of "0x80ff0000" "0x40204080"] by (simp add: Let_def)
qed

text \<open>
  C7. The blending of the driver, which divides by 255 with shifts, is not exact; this bounds its
  error over an opaque background, for a source that is neither transparent nor opaque.  The result stays opaque, and
  each colour channel is the mean of source and background weighted by the source's alpha, rounded
  down to an integer, or one less than that.  It can be one less: white with alpha 128 over opaque white is not white.
\<close>

theorem over_opaque_accurate:
  assumes "0 < unat (chA c)" and "unat (chA c) < 255" and "chA d = 0xff"
  shows "let a = unat (chA c); out = over_pixel c d;
             mean = (\<lambda>s b. (s * a + b * (255 - a)) div 255)
    in chA out = 0xff
      \<and> unat (chR out) \<le> mean (unat (chR c)) (unat (chR d)) \<and> mean (unat (chR c)) (unat (chR d)) \<le> unat (chR out) + 1
      \<and> unat (chG out) \<le> mean (unat (chG c)) (unat (chG d)) \<and> mean (unat (chG c)) (unat (chG d)) \<le> unat (chG out) + 1
      \<and> unat (chB out) \<le> mean (unat (chB c)) (unat (chB d)) \<and> mean (unat (chB c)) (unat (chB d)) \<le> unat (chB out) + 1
      \<and> over_pixel 0x80ffffff 0xffffffff = 0xfffefefe"
proof -
  have da: "unat (chA d) = 255" "chA d \<noteq> 0" using assms(3) by simp_all
  have a: "unat (chA c) \<le> 255" using assms(2) by simp
  have b: "unat (chR p) \<le> 255" "unat (chG p) \<le> 255" "unat (chB p) \<le> 255" for p
    using unat_chR [of p] unat_chG [of p] unat_chB [of p] by simp_all
  note ch = over_pixel_channels [OF assms(1,2) da(2), unfolded da(1)]
  have "unat (chA (over_pixel c d)) = 255" using ch(1) over_alpha_opaque [OF a] by simp
  then have "chA (over_pixel c d) = 0xff" by (simp add: word_unat_eq_iff)
  moreover have "over_pixel 0x80ffffff 0xffffffff = 0xfffefefe" by code_simp
  ultimately show ?thesis
    using over_channel_opaque [OF a b(1) b(1)] over_channel_opaque [OF a b(2) b(2)]
      over_channel_opaque [OF a b(3) b(3)] unfolding Let_def ch(2-4) by blast
qed

theorem over_opaque_accurate_witness: "chA (over_pixel 0x80ff0000 0xff204080) = 0xff"
proof -
  have ch: "chA (0x80ff0000 :: pixel) = 128" "chA (0xff204080 :: pixel) = 0xff" by (simp_all add: chA_def)
  then show ?thesis using over_opaque_accurate [of "0x80ff0000" "0xff204080"] by (simp add: Let_def)
qed

text \<open>
  Drawing a rectangle twice in the XOR mode gives back every pixel of it that was opaque, and
  leaves the pixels outside of it alone.
\<close>

theorem xor_fill_twice:
  assumes "gr_mode g = MWMODE_XOR_FGBG" and "x2 - x1 < linelen psd"
    and "chA (mem p) = 0xff \<or> p \<notin> set (rect_addrs psd x1 y1 x2 y2)"
  shows "ScrGen32_FillRect g psd (ScrGen32_FillRect g psd mem x1 y1 x2 y2 c) x1 y1 x2 y2 c p = mem p"
proof -
  have once: "ScrGen32_FillRect g psd m x1 y1 x2 y2 c = map_run (xor_pixel g c) (rect_addrs psd x1 y1 x2 y2) m" for m
    using assms(1) by (simp add: ScrGen32_FillRect_def dispatch_mode_def ScrGen32_FillRectXor_def xor_run_map)
  note dist = distinct_rect_addrs [OF assms(2), of y1 y2]
  show ?thesis
  proof (cases "p \<in> set (rect_addrs psd x1 y1 x2 y2)")
    case True
    then have m: "mem p AND 0xff000000 = 0xff000000" using assms(3) by (simp add: alpha_bits)
    have "mem p OR (mem p AND 0xff000000) = mem p" by (rule bit_word_eqI) (auto simp only: bit_simps)
    then have top: "mem p OR 0xff000000 = mem p" unfolding m .
    have "xor_pixel g c (xor_pixel g c (mem p)) = mem p OR 0xff000000"
      unfolding xor_pixel_def by (rule bit_word_eqI) (auto simp only: bit_simps)
    then show ?thesis unfolding once map_run_apply [OF dist] using top True by simp
  next
    case False
    then show ?thesis unfolding once by (simp add: map_run_other)
  qed
qed

theorem xor_fill_twice_witness:
  "ScrGen32_FillRect (sample_gr\<lparr>gr_mode := MWMODE_XOR_FGBG\<rparr>) sample_psd
     (ScrGen32_FillRect (sample_gr\<lparr>gr_mode := MWMODE_XOR_FGBG\<rparr>) sample_psd (\<lambda>a. 0xff123456) 0 0 2 1 0x11223344)
     0 0 2 1 0x11223344 9 = 0xff123456"
proof -
  have "chA (0xff123456 :: pixel) = 0xff" by (simp add: chA_def)
  moreover have "2 - 0 < linelen sample_psd" by (simp add: sample_psd_def)
  moreover have "gr_mode (sample_gr\<lparr>gr_mode := MWMODE_XOR_FGBG\<rparr>) = MWMODE_XOR_FGBG" by simp
  ultimately show ?thesis
    using xor_fill_twice [where g = "sample_gr\<lparr>gr_mode := MWMODE_XOR_FGBG\<rparr>" and ?x1.0 = 0 and ?x2.0 = 2
      and psd = sample_psd and mem = "\<lambda>a. 0xff123456" and p = 9 and ?y1.0 = 0 and ?y2.0 = 1 and c = "0x11223344"] by blast
qed

section \<open>Block copies\<close>

lemma blit_pairs_pixels:
  "blit_pairs dp dx dy w h sp sx sy =
    concat (map (\<lambda>j. map (\<lambda>i. (pixel_addr sp (sx + int i) (sy + int j), pixel_addr dp (dx + int i) (dy + int j)))
      [0..<nat w]) [0..<nat h])"
  by (simp add: blit_pairs_def pixel_addr_def algebra_simps)

lemma blit_pairs_mem:
  "(s, d) \<in> set (blit_pairs dp dx dy w h sp sx sy) \<longleftrightarrow>
    (\<exists>i<nat w. \<exists>j<nat h. s = pixel_addr sp (sx + int i) (sy + int j) \<and> d = pixel_addr dp (dx + int i) (dy + int j))"
  unfolding blit_pairs_pixels by (fastforce simp: image_iff)

lemma sorted_wrt_concat_map:
  "(\<And>x. x \<in> set xs \<Longrightarrow> sorted_wrt R (f x)) \<Longrightarrow>
   (\<And>x y a b. x \<in> set xs \<Longrightarrow> y \<in> set xs \<Longrightarrow> S x y \<Longrightarrow> a \<in> set (f x) \<Longrightarrow> b \<in> set (f y) \<Longrightarrow> R a b) \<Longrightarrow>
   sorted_wrt S xs \<Longrightarrow> sorted_wrt R (concat (map f xs))"
proof (induction xs)
  case (Cons x xs)
  have "sorted_wrt R (concat (map f xs))" by (rule Cons.IH) (use Cons.prems in fastforce)+
  moreover have "\<forall>a\<in>set (f x). \<forall>b\<in>set (concat (map f xs)). R a b"
    using Cons.prems(2) [of x] Cons.prems(3) by fastforce
  ultimately show ?case using Cons.prems(1) [of x] by (simp add: sorted_wrt_append)
qed simp

lemma blit_pairs_safe:
  assumes "w \<le> linelen dp" and same: "linelen sp = linelen dp \<and> pixel_addr dp dx dy \<le> pixel_addr sp sx sy"
  shows "copy_safe (blit_pairs dp dx dy w h sp sx sy)"
proof -
  let ?L = "linelen dp" and ?D = "pixel_addr dp dx dy" and ?S = "pixel_addr sp sx sy"
  have le: "?D \<le> ?S" using same by simp
  define f where "f j = map (\<lambda>i. (?S + int j * ?L + int i, ?D + int j * ?L + int i)) [0..<nat w]" for j
  let ?R = "\<lambda>(s, d) (s', d'). d \<noteq> s' \<and> d \<noteq> (d' :: int)"
  have row: "sorted_wrt ?R (f j)" for j
    unfolding f_def sorted_wrt_map by (rule sorted_wrt_mono_rel [OF _ sorted_wrt_upt]) (use le in auto)
  have later: "?R a b" if asm: "j < j'" "a \<in> set (f j)" "b \<in> set (f j')" for j j' a b
  proof -
    obtain i i' where i: "i < nat w" "a = (?S + int j * ?L + int i, ?D + int j * ?L + int i)"
      and i': "i' < nat w" "b = (?S + int j' * ?L + int i', ?D + int j' * ?L + int i')"
      using asm(2,3) by (auto simp: f_def)
    have "0 < w" using i(1) by linarith
    then have "?L \<le> (int j' - int j) * ?L"
      using asm(1) assms(1) mult_right_mono [of 1 "int j' - int j" ?L] by simp
    then have "int j * ?L + int i < int j' * ?L + int i'"
      using i(1) assms(1) by (simp add: left_diff_distrib)
    then show ?thesis using i(2) i'(2) le by auto
  qed
  have "sorted_wrt ?R (concat (map f [0..<nat h]))"
    by (rule sorted_wrt_concat_map [of _ _ _ "(<)"]) (use row later in \<open>auto simp: sorted_wrt_upt\<close>)
  then show ?thesis using same by (simp add: copy_safe_def blit_pairs_def f_def [abs_def])
qed

lemma copy_safe_disjoint:
  "distinct (map snd ps) \<Longrightarrow> fst ` set ps \<inter> snd ` set ps = {} \<Longrightarrow> copy_safe ps"
proof (induction ps)
  case (Cons p ps)
  have "snd p \<noteq> fst q" "snd p \<noteq> snd q" if "q \<in> set ps" for q
    using Cons.prems that by auto
  then have "\<forall>q\<in>set ps. (\<lambda>(s, d) (s', d'). d \<noteq> s' \<and> d \<noteq> d') p q" by (simp add: case_prod_unfold)
  moreover have "copy_safe ps" by (rule Cons.IH) (use Cons.prems in auto)
  ultimately show ?case by (simp add: copy_safe_def)
qed (simp add: copy_safe_def)

text \<open>The sources and the destinations of the pairs are the two blocks, row by row.\<close>

lemma blit_pairs_blocks:
  "map fst (blit_pairs dp dx dy w h sp sx sy) = rect_addrs sp sx sy (sx + w - 1) (sy + h - 1)"
  "map snd (blit_pairs dp dx dy w h sp sx sy) = rect_addrs dp dx dy (dx + w - 1) (dy + h - 1)"
  by (simp_all add: blit_pairs_def rect_addrs_def map_concat comp_def)

definition blocks_apart ::
  "SCREENDEVICE \<Rightarrow> MWCOORD \<Rightarrow> MWCOORD \<Rightarrow> MWCOORD \<Rightarrow> MWCOORD \<Rightarrow> SCREENDEVICE \<Rightarrow> MWCOORD \<Rightarrow> MWCOORD \<Rightarrow> bool" where
  "blocks_apart dp dx dy w h sp sx sy \<longleftrightarrow>
     set (rect_addrs dp dx dy (dx + w - 1) (dy + h - 1)) \<inter> set (rect_addrs sp sx sy (sx + w - 1) (sy + h - 1)) = {}"

lemma blit_pairs_apart:
  assumes "w \<le> linelen dp" and "blocks_apart dp dx dy w h sp sx sy"
  shows "copy_safe (blit_pairs dp dx dy w h sp sx sy)"
proof (rule copy_safe_disjoint)
  show "distinct (map snd (blit_pairs dp dx dy w h sp sx sy))"
    unfolding blit_pairs_blocks by (rule distinct_rect_addrs) (use assms(1) in simp)
  show "fst ` set (blit_pairs dp dx dy w h sp sx sy) \<inter> snd ` set (blit_pairs dp dx dy w h sp sx sy) = {}"
    using assms(2) unfolding blocks_apart_def set_map [symmetric] blit_pairs_blocks by blast
qed

lemma Blit_default:
  "rop AND 0xff000000 \<notin> {push_bit 24 4, push_bit 24 16, push_bit 24 17} \<Longrightarrow>
   ScrGen32_Blit g dp mem dx dy w h sp sx sy rop = ScrGen32_BlitDefault g dp mem dx dy w h sp sx sy"
  by (simp add: ScrGen32_Blit_def Let_def)

text \<open>
  C8. \<open>ScrGen32_Blit\<close> with an operation other than clear, xor and source-over, from a surface to the
  same or to another one.  If the two blocks share no memory, or the surfaces have lines of equal length and the
  destination does not start after the source (then they may overlap), every
  pixel of the destination block gets the source pixel from before the call, with its alpha scaled
  by the global alpha if there is one, and all other memory is unchanged.
\<close>

theorem blit_copies_block:
  assumes rop: "rop AND 0xff000000 \<notin> {push_bit 24 4, push_bit 24 16, push_bit 24 17}"
    and line: "w \<le> linelen dp"
    and order: "blocks_apart dp dx dy w h sp sx sy \<or>
      linelen sp = linelen dp \<and> pixel_addr dp dx dy \<le> pixel_addr sp sx sy"
  shows "let mem' = ScrGen32_Blit g dp mem dx dy w h sp sx sy rop in
    (\<forall>i j. 0 \<le> i \<and> i < w \<and> 0 \<le> j \<and> j < h \<longrightarrow>
      mem' (pixel_addr dp (dx + i) (dy + j)) = scale_alpha g (mem (pixel_addr sp (sx + i) (sy + j))))
    \<and> (\<forall>q. q \<notin> set (rect_addrs dp dx dy (dx + w - 1) (dy + h - 1)) \<longrightarrow> mem' q = mem q)"
  unfolding Let_def Blit_default [OF rop]
proof (intro conjI allI impI)
  have safe: "copy_safe (blit_pairs dp dx dy w h sp sx sy)"
    using order blit_pairs_apart [OF line] blit_pairs_safe [OF line] by blast
  fix i j assume ij: "0 \<le> i \<and> i < w \<and> 0 \<le> j \<and> j < h"
  have "(pixel_addr sp (sx + i) (sy + j), pixel_addr dp (dx + i) (dy + j)) \<in> set (blit_pairs dp dx dy w h sp sx sy)"
    unfolding blit_pairs_mem by (intro exI [of _ "nat i"] conjI exI [of _ "nat j"]) (use ij in auto)
  then show "ScrGen32_BlitDefault g dp mem dx dy w h sp sx sy (pixel_addr dp (dx + i) (dy + j)) =
        scale_alpha g (mem (pixel_addr sp (sx + i) (sy + j)))"
    using copy_run_at [OF safe] by (simp add: ScrGen32_BlitDefault_def)
next
  fix q assume "q \<notin> set (rect_addrs dp dx dy (dx + w - 1) (dy + h - 1))"
  then have "q \<notin> snd ` set (blit_pairs dp dx dy w h sp sx sy)"
    unfolding set_map [symmetric] blit_pairs_blocks .
  then show "ScrGen32_BlitDefault g dp mem dx dy w h sp sx sy q = mem q"
    by (simp add: ScrGen32_BlitDefault_def copy_run_other)
qed

theorem blit_copies_block_witness:
  "ScrGen32_Blit sample_gr sample_psd (\<lambda>a. word_of_int a) 0 0 3 2 sample_psd 1 1 0 (pixel_addr sample_psd 2 1) =
     word_of_int (pixel_addr sample_psd 3 2)
   \<and> ScrGen32_Blit sample_gr sample_psd (\<lambda>a. word_of_int a) 4 2 3 2 (sample_psd\<lparr>addr := 1000, linelen := 5\<rparr>) 1 1 0
       (pixel_addr sample_psd 6 3) = word_of_int (pixel_addr (sample_psd\<lparr>addr := 1000, linelen := 5\<rparr>) 3 2)"
proof -
  let ?other = "sample_psd\<lparr>addr := 1000, linelen := 5\<rparr>"
  have "(0 :: 32 word) AND 0xff000000 \<notin> {push_bit 24 4, push_bit 24 16, push_bit 24 17}" by simp
  note blit = blit_copies_block [OF this, where w = 3 and h = 2 and dp = sample_psd and g = sample_gr
      and mem = "\<lambda>a. word_of_int a", unfolded Let_def, THEN conjunct1, rule_format, of _ _ _ _ _ 2 1]
  have "blocks_apart sample_psd 4 2 3 2 ?other 1 1" by code_simp
  then show ?thesis
    using blit [of 0 0 sample_psd 1 1] blit [of 4 2 ?other 1 1]
    by (simp add: sample_psd_def sample_gr_def pixel_addr_def scale_alpha_def global_alpha_on_def)
qed

text \<open>
  When the destination starts after an overlapping source the copy reads pixels it has already
  overwritten: moving three pixels one to the right repeats the first one.
\<close>

theorem blit_overlap_smears:
  "let mem = (\<lambda>a. if a = 0 then 1 else if a = 1 then 2 else if a = 2 then 3 else 0);
       out = ScrGen32_BlitDefault sample_gr sample_psd mem 1 0 3 1 sample_psd 0 0
   in (out 1, out 2, out 3) = (1, 1, 1)"
  by code_simp

text \<open>
  The cache of \<open>ScrGen32_BlitAlpha\<close> never changes the result: the block copy in the blending
  mode is the pixel-by-pixel blending of the pairs in their order, whatever the two blocks share.
\<close>

theorem blit_alpha_pixelwise:
  "ScrGen32_BlitAlpha g dp mem dx dy w h sp sx sy =
    blit_pixels (blit_pixel g (global_alpha_on g)) (blit_pairs dp dx dy w h sp sx sy) mem"
  unfolding ScrGen32_BlitAlpha_def by (rule blit_alpha_run_pixels [OF blit_pixel_initial])

end
