(* ===== verification/Cur_Model.thy ===== *)
theory Cur_Model
  imports Scr_Props
begin

unbundle bit_operations_syntax

text \<open>
  The software mouse cursor (\<open>engine/devmouse.c\<close>): it is drawn over the screen, with the pixels
  below it saved, and taken away when something is drawn there.

  \<^item> The screen is reached through two driver functions, which are parameters (\<open>screen_ops\<close>); the
    drawing mode and the other drawing globals are passed to the drawing function.
  \<^item> The static arrays \<open>cursavbits\<close>, \<open>cursormask\<close> and \<open>cursorcolor\<close> are maps from indices.  In C they
    have \<open>MWMAX_CURSOR_SIZE * MWMAX_CURSOR_SIZE\<close>, \<open>MWMAX_CURSOR_BUFLEN\<close> and \<open>MWMAX_CURSOR_BUFLEN\<close>
    elements, and no function here tests a size: only \<open>GrNewCursor\<close> refuses larger cursors.  The
    properties therefore have the size as a hypothesis (\<open>cursor_fits\<close>, \<open>image_fits\<close> in \<open>Cur_Props\<close>)
    and state that nothing is written past the end of an array.
\<close>

record 's screen_ops =
  ReadPixel :: "'s \<Rightarrow> MWCOORD \<Rightarrow> MWCOORD \<Rightarrow> pixel"
  DrawPixel :: "gr_state \<Rightarrow> 's \<Rightarrow> MWCOORD \<Rightarrow> MWCOORD \<Rightarrow> pixel \<Rightarrow> 's"

type_synonym imagebits = "16 word"

record cursor =
  curminx :: MWCOORD
  curminy :: MWCOORD
  curmaxx :: MWCOORD
  curmaxy :: MWCOORD
  curvisible :: int
  curneedsrestore :: bool
  cursavx :: MWCOORD
  cursavy :: MWCOORD
  cursavx2 :: MWCOORD
  cursavy2 :: MWCOORD
  curfg :: pixel
  curbg :: pixel
  cursavbits :: "nat \<Rightarrow> pixel"
  cursormask :: "nat \<Rightarrow> imagebits"
  cursorcolor :: "nat \<Rightarrow> imagebits"

definition MWIMAGE_FIRSTBIT :: imagebits where "MWIMAGE_FIRSTBIT = push_bit 15 1"
definition MWIMAGE_NEXTBIT :: "imagebits \<Rightarrow> imagebits" where "MWIMAGE_NEXTBIT m = drop_bit 1 m"
definition MWMAX_CURSOR_SIZE :: nat where "MWMAX_CURSOR_SIZE = 32"

definition MWIMAGE_SIZE :: "nat \<Rightarrow> nat \<Rightarrow> nat" where
  "MWIMAGE_SIZE width height = height * ((width + 15) div 16)"

definition MWMAX_CURSOR_BUFLEN :: nat where
  "MWMAX_CURSOR_BUFLEN = MWIMAGE_SIZE MWMAX_CURSOR_SIZE MWMAX_CURSOR_SIZE"

section \<open>Drawing the cursor\<close>

text \<open>
  The local variables of \<open>GdShowCursor\<close>; \<open>cursorptr\<close> and \<open>maskptr\<close> always advance together and
  are one index.
\<close>

record 's show_state =
  sh_screen :: 's
  sh_saved :: "nat \<Rightarrow> pixel"
  saveptr :: nat
  cursorptr :: nat
  curbit :: imagebits
  cbits :: imagebits
  mbits :: imagebits

definition on_psd :: "SCREENDEVICE \<Rightarrow> MWCOORD \<Rightarrow> MWCOORD \<Rightarrow> bool" where
  "on_psd psd x y \<longleftrightarrow> x \<ge> 0 \<and> x < xvirtres psd \<and> y \<ge> 0 \<and> y < yvirtres psd"

text \<open>\<open>cbits = *cursorptr++; mbits = *maskptr++; curbit = MWIMAGE_FIRSTBIT\<close>\<close>

definition next_word :: "cursor \<Rightarrow> 's show_state \<Rightarrow> 's show_state" where
  "next_word c st = st\<lparr>cbits := cursorcolor c (cursorptr st), mbits := cursormask c (cursorptr st),
     cursorptr := cursorptr st + 1, curbit := MWIMAGE_FIRSTBIT\<rparr>"

definition show_pixel ::
  "'s screen_ops \<Rightarrow> gr_state \<Rightarrow> SCREENDEVICE \<Rightarrow> cursor \<Rightarrow> MWCOORD \<Rightarrow> MWCOORD \<Rightarrow> 's show_state \<Rightarrow> 's show_state"
where
  "show_pixel ops g psd c y x st =
    (let st1 =
       (if on_psd psd x y then
          let oldcolor = ReadPixel ops (sh_screen st) x y;
              newcolor = (if curbit st AND cbits st \<noteq> 0 then curbg c else curfg c);
              st0 = (if curbit st AND mbits st \<noteq> 0 \<and> oldcolor \<noteq> newcolor
                     then st\<lparr>sh_screen := DrawPixel ops g (sh_screen st) x y newcolor\<rparr> else st)
          in st0\<lparr>sh_saved := (sh_saved st)(saveptr st := oldcolor), saveptr := saveptr st + 1\<rparr>
        else st);
         st2 = st1\<lparr>curbit := MWIMAGE_NEXTBIT (curbit st1)\<rparr>
     in if curbit st2 = 0 then next_word c st2 else st2)"

definition show_row ::
  "'s screen_ops \<Rightarrow> gr_state \<Rightarrow> SCREENDEVICE \<Rightarrow> cursor \<Rightarrow> MWCOORD \<Rightarrow> 's show_state \<Rightarrow> 's show_state" where
  "show_row ops g psd c y st =
    fold (show_pixel ops g psd c y) [curminx c..curmaxx c]
      (if curbit st \<noteq> MWIMAGE_FIRSTBIT then next_word c st else st)"

text \<open>
  \<open>GdShowCursor\<close> returns the old \<open>curvisible\<close>; \<open>gr_mode\<close> is set to copy mode for the loop and
  restored after it.
\<close>

definition GdShowCursor ::
  "'s screen_ops \<Rightarrow> gr_state \<Rightarrow> SCREENDEVICE \<Rightarrow> cursor \<Rightarrow> 's \<Rightarrow> int \<times> cursor \<times> 's" where
  "GdShowCursor ops g psd c s =
    (let prevcursor = curvisible c;
         c1 = c\<lparr>curvisible := curvisible c + 1\<rparr>
     in if curvisible c1 \<noteq> 1 then (prevcursor, c1, s)
        else
          let c2 = c1\<lparr>cursavx := curminx c, cursavy := curminy c, cursavx2 := curmaxx c, cursavy2 := curmaxy c\<rparr>;
              st = fold (show_row ops (g\<lparr>gr_mode := MWMODE_COPY\<rparr>) psd c2) [curminy c..curmaxy c]
                \<lparr>sh_screen = s, sh_saved = cursavbits c, saveptr = 0, cursorptr = 0, curbit = 0,
                 cbits = 0, mbits = 0\<rparr>
          in (prevcursor, c2\<lparr>cursavbits := sh_saved st\<rparr>, sh_screen st))"

section \<open>Taking the cursor away\<close>

definition hide_pixel ::
  "'s screen_ops \<Rightarrow> gr_state \<Rightarrow> SCREENDEVICE \<Rightarrow> cursor \<Rightarrow> MWCOORD \<Rightarrow> MWCOORD \<Rightarrow> 's \<times> nat \<Rightarrow> 's \<times> nat" where
  "hide_pixel ops g psd c y x sp =
    (if on_psd psd x y
     then (DrawPixel ops g (fst sp) x y (cursavbits c (snd sp)), snd sp + 1) else sp)"

definition GdHideCursor ::
  "'s screen_ops \<Rightarrow> gr_state \<Rightarrow> SCREENDEVICE \<Rightarrow> cursor \<Rightarrow> 's \<Rightarrow> int \<times> cursor \<times> 's" where
  "GdHideCursor ops g psd c s =
    (let prevcursor = curvisible c;
         c1 = c\<lparr>curvisible := curvisible c - 1\<rparr>
     in if prevcursor \<le> 0 then (prevcursor, c1, s)
        else (prevcursor, c1,
          fst (fold (\<lambda>y. fold (hide_pixel ops (g\<lparr>gr_mode := MWMODE_COPY\<rparr>) psd c y) [cursavx c..cursavx2 c])
            [cursavy c..cursavy2 c] (s, 0))))"

section \<open>Moving, checking and restoring\<close>

definition GdMoveCursor ::
  "'s screen_ops \<Rightarrow> gr_state \<Rightarrow> SCREENDEVICE \<Rightarrow> MWCOORD \<Rightarrow> MWCOORD \<Rightarrow> cursor \<Rightarrow> 's \<Rightarrow> cursor \<times> 's" where
  "GdMoveCursor ops g scrdev newx newy c s =
    (let shiftx = newx - curminx c; shifty = newy - curminy c
     in if shiftx = 0 \<and> shifty = 0 then (c, s)
        else
          let c1 = c\<lparr>curminx := curminx c + shiftx, curmaxx := curmaxx c + shiftx,
                     curminy := curminy c + shifty, curmaxy := curmaxy c + shifty\<rparr>;
              (p1, c2, s2) = GdHideCursor ops g scrdev c1 s;
              (p2, c3, s3) = GdShowCursor ops g scrdev c2 s2
          in (c3, s3))"

record MWCURSOR =
  mc_width :: nat
  mc_height :: nat
  mc_fgcolor :: pixel
  mc_bgcolor :: pixel
  mc_image :: "nat \<Rightarrow> imagebits"
  mc_mask :: "nat \<Rightarrow> imagebits"

text \<open>
  \<open>GdFindColor\<close>, which converts a colour for the surface, is a parameter; \<open>memcpy\<close> overwrites the
  first words of the two arrays.
\<close>

definition GdSetCursor ::
  "'s screen_ops \<Rightarrow> (SCREENDEVICE \<Rightarrow> pixel \<Rightarrow> pixel) \<Rightarrow> gr_state \<Rightarrow> SCREENDEVICE \<Rightarrow> MWCURSOR \<Rightarrow> cursor \<Rightarrow> 's \<Rightarrow>
   cursor \<times> 's" where
  "GdSetCursor ops findcolor g scrdev pc c s =
    (let (p1, c1, s1) = GdHideCursor ops g scrdev c s;
         n = MWIMAGE_SIZE (mc_width pc) (mc_height pc);
         c2 = c1\<lparr>curmaxx := curminx c1 + int (mc_width pc) - 1, curmaxy := curminy c1 + int (mc_height pc) - 1,
                 curfg := findcolor scrdev (mc_fgcolor pc), curbg := findcolor scrdev (mc_bgcolor pc),
                 cursorcolor := (\<lambda>i. if i < n then mc_image pc i else cursorcolor c1 i),
                 cursormask := (\<lambda>i. if i < n then mc_mask pc i else cursormask c1 i)\<rparr>;
         (p2, c3, s3) = GdShowCursor ops g scrdev c2 s1
     in (c3, s3))"

definition GdCheckCursor ::
  "'s screen_ops \<Rightarrow> gr_state \<Rightarrow> SCREENDEVICE \<Rightarrow> MWCOORD \<Rightarrow> MWCOORD \<Rightarrow> MWCOORD \<Rightarrow> MWCOORD \<Rightarrow> cursor \<Rightarrow> 's \<Rightarrow>
   cursor \<times> 's" where
  "GdCheckCursor ops g psd x1 y1 x2 y2 c s =
    (if curvisible c \<le> 0 \<or> flags psd AND PSF_SCREEN = 0 then (c, s)
     else
       let (xa, xb) = (if x1 > x2 then (x2, x1) else (x1, x2));
           (ya, yb) = (if y1 > y2 then (y2, y1) else (y1, y2))
       in if xa > curmaxx c \<or> xb < curminx c \<or> ya > curmaxy c \<or> yb < curminy c then (c, s)
          else
            let (p, c1, s1) = GdHideCursor ops g psd c s
            in (c1\<lparr>curneedsrestore := True\<rparr>, s1))"

definition GdFixCursor ::
  "'s screen_ops \<Rightarrow> gr_state \<Rightarrow> SCREENDEVICE \<Rightarrow> cursor \<Rightarrow> 's \<Rightarrow> cursor \<times> 's" where
  "GdFixCursor ops g psd c s =
    (if curneedsrestore c \<and> flags psd AND PSF_SCREEN \<noteq> 0 then
       let (p, c1, s1) = GdShowCursor ops g psd c s
       in (c1\<lparr>curneedsrestore := False\<rparr>, s1)
     else (c, s))"

end
