(* ===== verification/Cur_Proofs.thy ===== *)
theory Cur_Proofs
  imports Cur_Model
begin

unbundle bit_operations_syntax

text \<open>
  The cursor against an ideal: there is a picture \<open>b\<close> without cursor; the screen is \<open>b\<close> with the
  cursor image on top when the cursor is visible, and \<open>b\<close> itself when it is not.
\<close>

section \<open>Lists of pixels\<close>

lemma fold_concat_fold: "fold f (concat xss) s = fold (fold f) xss s"
  by (induction xss arbitrary: s) auto

lemma upto_as_upt: "[a..b] = map (\<lambda>i. a + int i) [0..<nat (b - a + 1)]"
  by (rule nth_equalityI) (auto simp: nth_upto)

definition pixel_row :: "MWCOORD \<Rightarrow> MWCOORD \<Rightarrow> nat \<Rightarrow> nat \<Rightarrow> (MWCOORD \<times> MWCOORD) list" where
  "pixel_row x0 y0 n j = map (\<lambda>i. (x0 + int i, y0 + int j)) [0..<n]"

lemma rect_pixels_rows:
  "rect_pixels x1 y1 x2 y2 =
     concat (map (pixel_row x1 y1 (nat (x2 - x1 + 1))) [0..<nat (y2 - y1 + 1)])"
  unfolding rect_pixels_def upto_as_upt [of x1 x2] upto_as_upt [of y1 y2]
  by (simp add: comp_def pixel_row_def [abs_def])

section \<open>The bit pointers of the image\<close>

definition image_bit :: "(nat \<Rightarrow> imagebits) \<Rightarrow> nat \<Rightarrow> nat \<Rightarrow> nat \<Rightarrow> bool" where
  "image_bit im w i j = bit (im (j * ((w + 15) div 16) + i div 16)) (15 - i mod 16)"

definition bits_at :: "cursor \<Rightarrow> nat \<Rightarrow> nat \<Rightarrow> nat \<Rightarrow> 's show_state \<Rightarrow> bool" where
  "bits_at c w j i st \<longleftrightarrow>
     (let p = j * ((w + 15) div 16) + i div 16
      in cbits st = cursorcolor c p \<and> mbits st = cursormask c p \<and> cursorptr st = p + 1 \<and>
         curbit st = drop_bit (i mod 16) MWIMAGE_FIRSTBIT)"

definition bits_ready :: "cursor \<Rightarrow> nat \<Rightarrow> nat \<Rightarrow> 's show_state \<Rightarrow> bool" where
  "bits_ready c w j st \<longleftrightarrow>
     (curbit st \<noteq> MWIMAGE_FIRSTBIT \<and> cursorptr st = j * ((w + 15) div 16)) \<or> bits_at c w j 0 st"

lemma firstbit_bit: "bit MWIMAGE_FIRSTBIT n \<longleftrightarrow> n = 15"
  unfolding MWIMAGE_FIRSTBIT_def by (auto simp only: bit_push_bit_iff bit_1_iff word_size) auto

lemma firstbit_drop: "k < 16 \<Longrightarrow> bit (drop_bit k MWIMAGE_FIRSTBIT) n \<longleftrightarrow> n = 15 - k"
  by (auto simp: bit_drop_bit_eq firstbit_bit)

lemma curbit_tests: "k < 16 \<Longrightarrow> drop_bit k MWIMAGE_FIRSTBIT AND m \<noteq> 0 \<longleftrightarrow> bit m (15 - k)"
proof -
  assume k: "k < 16"
  have "drop_bit k MWIMAGE_FIRSTBIT AND m = (if bit m (15 - k) then drop_bit k MWIMAGE_FIRSTBIT else 0)"
    by (rule bit_word_eqI) (auto simp: bit_and_iff firstbit_drop [OF k])
  moreover have "drop_bit k MWIMAGE_FIRSTBIT \<noteq> 0"
    using firstbit_drop [OF k, of "15 - k"] by auto
  ultimately show ?thesis by simp
qed

lemma curbit_next:
  "k < 16 \<Longrightarrow> MWIMAGE_NEXTBIT (drop_bit k MWIMAGE_FIRSTBIT) = drop_bit (Suc k) MWIMAGE_FIRSTBIT"
  by (simp add: MWIMAGE_NEXTBIT_def drop_bit_drop_bit)

lemma curbit_zero: "k \<le> 16 \<Longrightarrow> drop_bit k MWIMAGE_FIRSTBIT = 0 \<longleftrightarrow> k = 16"
proof -
  assume k: "k \<le> 16"
  show ?thesis
  proof (cases "k = 16")
    case True
    have "drop_bit 16 MWIMAGE_FIRSTBIT = 0"
      by (rule bit_word_eqI) (simp add: bit_drop_bit_eq firstbit_bit)
    then show ?thesis using True by simp
  next
    case False
    then have "bit (drop_bit k MWIMAGE_FIRSTBIT) (15 - k)" using k by (simp add: firstbit_drop)
    then show ?thesis using False by auto
  qed
qed

lemma curbit_first: "k < 16 \<Longrightarrow> drop_bit k MWIMAGE_FIRSTBIT = MWIMAGE_FIRSTBIT \<longleftrightarrow> k = 0"
proof -
  assume k: "k < 16"
  have "k = 0" if eq: "drop_bit k MWIMAGE_FIRSTBIT = MWIMAGE_FIRSTBIT"
  proof (rule ccontr)
    assume "k \<noteq> 0"
    then have "\<not> bit (drop_bit k MWIMAGE_FIRSTBIT) 15" using k by (simp add: firstbit_drop)
    then show False using eq by (simp add: firstbit_bit)
  qed
  then show ?thesis by auto
qed

lemma bits_ready_start:
  "bits_ready c w j st \<Longrightarrow> bits_at c w j 0 (if curbit st \<noteq> MWIMAGE_FIRSTBIT then next_word c st else st)"
  by (auto simp: bits_ready_def bits_at_def next_word_def)

lemma bits_row_end:
  assumes "bits_at c w j w st"
  shows "bits_ready c w (Suc j) st"
proof (cases "w mod 16 = 0")
  case True
  then obtain q where "w = 16 * q" by auto
  then have "(w + 15) div 16 = w div 16" by simp
  then show ?thesis using assms True by (simp add: bits_ready_def bits_at_def Let_def algebra_simps)
next
  case False
  have up: "(16 * q + r + 15) div 16 = q + 1" if "0 < r" "r < 16" for q r :: nat
    by (rule div_nat_eqI) (use that in auto)
  have "(w + 15) div 16 = w div 16 + 1"
    using up [of "w mod 16" "w div 16"] False by simp
  moreover have "curbit st \<noteq> MWIMAGE_FIRSTBIT"
    using assms False curbit_first [of "w mod 16"] by (simp add: bits_at_def Let_def)
  ultimately show ?thesis using assms by (simp add: bits_ready_def bits_at_def Let_def)
qed

lemma bits_next_pixel:
  assumes at: "bits_at c w j i st" and same: "cbits st' = cbits st" "mbits st' = mbits st"
    "cursorptr st' = cursorptr st" "curbit st' = MWIMAGE_NEXTBIT (curbit st)"
  shows "bits_at c w j (Suc i) (if curbit st' = 0 then next_word c st' else st')"
proof -
  have cb: "curbit st' = drop_bit (Suc (i mod 16)) MWIMAGE_FIRSTBIT"
    using at same(4) curbit_next [of "i mod 16"] by (simp add: bits_at_def Let_def)
  have "i mod 16 < 16" by simp
  then have zero: "curbit st' = 0 \<longleftrightarrow> i mod 16 = 15"
    unfolding cb using curbit_zero [of "Suc (i mod 16)"] by simp
  show ?thesis
  proof (cases "i mod 16 = 15")
    case True
    then have "Suc i mod 16 = 0" "Suc i div 16 = i div 16 + 1" by (simp_all add: mod_Suc div_Suc)
    then show ?thesis using at same True zero by (simp add: bits_at_def Let_def next_word_def)
  next
    case False
    then have "Suc i mod 16 = Suc (i mod 16)" "Suc i div 16 = i div 16" by (simp_all add: mod_Suc div_Suc)
    then show ?thesis using at same cb False zero by (simp add: bits_at_def Let_def)
  qed
qed

text \<open>The cursor image on top of the picture \<open>b\<close>.\<close>

definition with_cursor :: "cursor \<Rightarrow> (MWCOORD \<Rightarrow> MWCOORD \<Rightarrow> pixel) \<Rightarrow> MWCOORD \<Rightarrow> MWCOORD \<Rightarrow> pixel" where
  "with_cursor c b x y =
    (let w = nat (curmaxx c - curminx c + 1); i = nat (x - curminx c); j = nat (y - curminy c)
     in if image_bit (cursormask c) w i j
        then (if image_bit (cursorcolor c) w i j then curbg c else curfg c)
        else b x y)"

section \<open>The sizes of the arrays\<close>

definition saves_at_most :: "nat \<Rightarrow> 's show_state \<Rightarrow> 's show_state \<Rightarrow> bool" where
  "saves_at_most n st st' \<longleftrightarrow>
     saveptr st' \<le> saveptr st + n \<and> (\<forall>k\<ge>saveptr st + n. sh_saved st' k = sh_saved st k)"

lemma saves_at_most_trans:
  "saves_at_most m st st' \<Longrightarrow> saves_at_most n st' st'' \<Longrightarrow> saves_at_most (m + n) st st''"
  by (auto simp: saves_at_most_def)

lemma saves_at_most_fold:
  assumes "\<And>x st. saves_at_most n st (f x st)"
  shows "saves_at_most (length xs * n) st (fold f xs st)"
proof (induction xs arbitrary: st)
  case Nil
  then show ?case by (simp add: saves_at_most_def)
next
  case (Cons x xs)
  show ?case using saves_at_most_trans [OF assms [of st x] Cons [of "f x st"]] by simp
qed

lemma saves_next_word [simp]: "saves_at_most n st (next_word c st') = saves_at_most n st st'"
  "saves_at_most n (next_word c st) st' = saves_at_most n st st'"
  by (simp_all add: saves_at_most_def next_word_def)

lemma show_pixel_saves: "saves_at_most 1 st (show_pixel ops g psd c y x st)"
  by (auto simp: show_pixel_def saves_at_most_def next_word_def Let_def)

lemma show_row_saves: "saves_at_most (nat (curmaxx c - curminx c + 1)) st (show_row ops g psd c y st)"
  using saves_at_most_fold [where n = 1 and f = "show_pixel ops g psd c y" and xs = "[curminx c..curmaxx c]",
      OF show_pixel_saves, of "if curbit st \<noteq> MWIMAGE_FIRSTBIT then next_word c st else st"]
  by (simp add: show_row_def split: if_splits)

text \<open>\<open>GdShowCursor\<close> saves at most the pixels of the cursor's rectangle, from the start of the array.\<close>

lemma show_saves:
  assumes "GdShowCursor ops g psd c s = (p, c', s')"
    and "nat (curmaxx c - curminx c + 1) * nat (curmaxy c - curminy c + 1) \<le> k"
  shows "cursavbits c' k = cursavbits c k"
proof (cases "curvisible c = 0")
  case True
  let ?c2 = "c\<lparr>curvisible := 1, cursavx := curminx c, cursavy := curminy c, cursavx2 := curmaxx c, cursavy2 := curmaxy c\<rparr>"
  let ?initial = "\<lparr>sh_screen = s, sh_saved = cursavbits c, saveptr = 0, cursorptr = 0, curbit = 0, cbits = 0, mbits = 0\<rparr>"
  define st where "st = fold (show_row ops (g\<lparr>gr_mode := MWMODE_COPY\<rparr>) psd ?c2) [curminy c..curmaxy c] ?initial"
  have c': "c' = ?c2\<lparr>cursavbits := sh_saved st\<rparr>"
    using assms(1) True by (simp add: GdShowCursor_def Let_def st_def)
  have "saves_at_most (nat (curmaxy c - curminy c + 1) * nat (curmaxx c - curminx c + 1)) ?initial st"
    unfolding st_def using saves_at_most_fold [OF show_row_saves [of ?c2], of "[curminy c..curmaxy c]" ?initial]
    by simp
  then show ?thesis using assms(2) by (simp add: c' saves_at_most_def mult.commute)
next
  case False
  then show ?thesis using assms(1) by (auto simp: GdShowCursor_def Let_def)
qed

lemma image_size_le:
  "w \<le> MWMAX_CURSOR_SIZE \<Longrightarrow> h \<le> MWMAX_CURSOR_SIZE \<Longrightarrow> MWIMAGE_SIZE w h \<le> MWMAX_CURSOR_BUFLEN"
  unfolding MWMAX_CURSOR_BUFLEN_def MWIMAGE_SIZE_def by (intro mult_le_mono div_le_mono add_le_mono) simp_all

section \<open>A screen that carries a cursor\<close>

locale cursor_screen = screen_driver read draw onscreen
  for read :: "'s \<Rightarrow> MWCOORD \<Rightarrow> MWCOORD \<Rightarrow> pixel"
    and draw :: "'s \<Rightarrow> MWCOORD \<Rightarrow> MWCOORD \<Rightarrow> pixel \<Rightarrow> 's"
    and onscreen :: "MWCOORD \<Rightarrow> MWCOORD \<Rightarrow> bool" +
  fixes ops :: "'s screen_ops" and g :: gr_state and psd :: SCREENDEVICE
  assumes read_ops: "ReadPixel ops s x y = read s x y"
    and draw_ops: "DrawPixel ops (g\<lparr>gr_mode := MWMODE_COPY\<rparr>) s x y c = draw s x y c"
    and on_ops: "on_psd psd x y \<longleftrightarrow> onscreen x y"
begin

definition visible_pixels :: "(MWCOORD \<times> MWCOORD) list \<Rightarrow> (MWCOORD \<times> MWCOORD) list" where
  "visible_pixels ps = filter (\<lambda>(x, y). onscreen x y) ps"

definition shown_so_far ::
  "cursor \<Rightarrow> (MWCOORD \<Rightarrow> MWCOORD \<Rightarrow> pixel) \<Rightarrow> (MWCOORD \<times> MWCOORD) list \<Rightarrow> 's show_state \<Rightarrow> bool" where
  "shown_so_far c b Q st \<longleftrightarrow>
     saveptr st = length (visible_pixels Q) \<and>
     (\<forall>k<length (visible_pixels Q). sh_saved st k = case_prod b (visible_pixels Q ! k)) \<and>
     (\<forall>x y. onscreen x y \<longrightarrow>
        read (sh_screen st) x y = (if (x, y) \<in> set Q then with_cursor c b x y else b x y))"

lemma show_pixel_step:
  assumes inv: "shown_so_far c b Q st" and at: "bits_at c w j i st"
    and w: "w = nat (curmaxx c - curminx c + 1)"
    and xy: "x = curminx c + int i" "y = curminy c + int j" "(x, y) \<notin> set Q"
  shows "shown_so_far c b (Q @ [(x, y)]) (show_pixel ops (g\<lparr>gr_mode := MWMODE_COPY\<rparr>) psd c y x st)
    \<and> bits_at c w j (Suc i) (show_pixel ops (g\<lparr>gr_mode := MWMODE_COPY\<rparr>) psd c y x st)"
proof -
  let ?m = "image_bit (cursormask c) w i j" and ?k = "image_bit (cursorcolor c) w i j"
  have m: "curbit st AND mbits st \<noteq> 0 \<longleftrightarrow> ?m" and k: "curbit st AND cbits st \<noteq> 0 \<longleftrightarrow> ?k"
    using at curbit_tests [of "i mod 16"] by (simp_all add: bits_at_def image_bit_def Let_def)
  let ?new = "if ?k then curbg c else curfg c"
  have cur: "with_cursor c b x y = (if ?m then ?new else b x y)"
    using xy(1,2) w by (simp add: with_cursor_def)
  define st1 where "st1 = (if onscreen x y then
      (if ?m \<and> read (sh_screen st) x y \<noteq> ?new
       then st\<lparr>sh_screen := draw (sh_screen st) x y ?new\<rparr> else st)
      \<lparr>sh_saved := (sh_saved st)(saveptr st := read (sh_screen st) x y), saveptr := saveptr st + 1\<rparr>
    else st)"
  define st2 where "st2 = st1\<lparr>curbit := MWIMAGE_NEXTBIT (curbit st1)\<rparr>"
  have sp: "show_pixel ops (g\<lparr>gr_mode := MWMODE_COPY\<rparr>) psd c y x st = (if curbit st2 = 0 then next_word c st2 else st2)"
    unfolding show_pixel_def Let_def read_ops draw_ops on_ops m k st2_def st1_def by simp
  have ctrl: "cbits st2 = cbits st" "mbits st2 = mbits st" "cursorptr st2 = cursorptr st"
    "curbit st2 = MWIMAGE_NEXTBIT (curbit st)"
    by (simp_all add: st2_def st1_def)
  have at': "bits_at c w j (Suc i) (if curbit st2 = 0 then next_word c st2 else st2)"
    by (rule bits_next_pixel [OF at ctrl])
  have old: "onscreen x y \<Longrightarrow> read (sh_screen st) x y = b x y"
    using inv xy(3) by (simp add: shown_so_far_def)
  have content: "shown_so_far c b (Q @ [(x, y)]) st1"
  proof (cases "onscreen x y")
    case False
    then have "st1 = st" "visible_pixels (Q @ [(x, y)]) = visible_pixels Q"
      by (simp_all add: st1_def visible_pixels_def)
    then show ?thesis using inv False by (auto simp: shown_so_far_def)
  next
    case True
    let ?D = "visible_pixels Q"
    have vis: "visible_pixels (Q @ [(x, y)]) = ?D @ [(x, y)]" using True by (simp add: visible_pixels_def)
    have saved: "sh_saved st1 = (sh_saved st)(saveptr st := b x y)" "saveptr st1 = saveptr st + 1"
      using True old by (simp_all add: st1_def)
    have scr: "sh_screen st1 = (if ?m \<and> b x y \<noteq> ?new then draw (sh_screen st) x y ?new else sh_screen st)"
      using True old by (simp add: st1_def)
    have at_xy: "read (sh_screen st1) x y = with_cursor c b x y"
      using True old scr cur read_draw_same by auto
    have other: "read (sh_screen st1) x' y' = read (sh_screen st) x' y'"
      if "onscreen x' y'" "(x', y') \<noteq> (x, y)" for x' y'
      using that True scr read_draw_other by auto
    have "read (sh_screen st1) x' y' = (if (x', y') \<in> set (Q @ [(x, y)]) then with_cursor c b x' y' else b x' y')"
      if on: "onscreen x' y'" for x' y'
    proof (cases "(x', y') = (x, y)")
      case True
      then show ?thesis using at_xy by simp
    next
      case False
      then show ?thesis using other [OF on False] inv on by (auto simp: shown_so_far_def)
    qed
    moreover have "saveptr st = length ?D" "\<forall>k<length ?D. sh_saved st k = case_prod b (?D ! k)"
      using inv by (simp_all add: shown_so_far_def)
    ultimately show ?thesis
      unfolding shown_so_far_def vis saved by (auto simp: less_Suc_eq nth_append)
  qed
  then have "shown_so_far c b (Q @ [(x, y)]) (if curbit st2 = 0 then next_word c st2 else st2)"
    by (simp add: shown_so_far_def st2_def next_word_def)
  then show ?thesis using at' unfolding sp by blast
qed

lemma show_row_part:
  assumes inv: "shown_so_far c b Q st" and at: "bits_at c w j 0 st"
    and w: "w = nat (curmaxx c - curminx c + 1)"
    and fresh: "\<forall>x. (x, curminy c + int j) \<notin> set Q"
  shows "let st' = fold (show_pixel ops (g\<lparr>gr_mode := MWMODE_COPY\<rparr>) psd c (curminy c + int j))
           (map (\<lambda>i. curminx c + int i) [0..<n]) st
    in shown_so_far c b (Q @ pixel_row (curminx c) (curminy c) n j) st' \<and> bits_at c w j n st'"
proof (induction n)
  case 0
  then show ?case using inv at by (simp add: pixel_row_def)
next
  case (Suc n)
  let ?y = "curminy c + int j" and ?x = "curminx c + int n"
  let ?st = "fold (show_pixel ops (g\<lparr>gr_mode := MWMODE_COPY\<rparr>) psd c ?y) (map (\<lambda>i. curminx c + int i) [0..<n]) st"
  have IH: "shown_so_far c b (Q @ pixel_row (curminx c) (curminy c) n j) ?st" "bits_at c w j n ?st"
    using Suc by (simp_all add: Let_def)
  have "(?x, ?y) \<notin> set (Q @ pixel_row (curminx c) (curminy c) n j)"
    using fresh by (auto simp: pixel_row_def)
  from show_pixel_step [OF IH w refl refl this] show ?case
    by (simp add: pixel_row_def Let_def)
qed

lemma show_rows_part:
  assumes inv: "shown_so_far c b [] st" and ready: "bits_ready c w 0 st"
    and w: "w = nat (curmaxx c - curminx c + 1)"
  shows "let st' = fold (show_row ops (g\<lparr>gr_mode := MWMODE_COPY\<rparr>) psd c)
           (map (\<lambda>j. curminy c + int j) [0..<m]) st
    in shown_so_far c b (concat (map (pixel_row (curminx c) (curminy c) w) [0..<m])) st' \<and> bits_ready c w m st'"
proof (induction m)
  case 0
  then show ?case using inv ready by simp
next
  case (Suc m)
  let ?Q = "concat (map (pixel_row (curminx c) (curminy c) w) [0..<m])"
  let ?st = "fold (show_row ops (g\<lparr>gr_mode := MWMODE_COPY\<rparr>) psd c) (map (\<lambda>j. curminy c + int j) [0..<m]) st"
  have IH: "shown_so_far c b ?Q ?st" "bits_ready c w m ?st" using Suc by (simp_all add: Let_def)
  let ?initial = "if curbit ?st \<noteq> MWIMAGE_FIRSTBIT then next_word c ?st else ?st"
  have at: "bits_at c w m 0 ?initial" by (rule bits_ready_start [OF IH(2)])
  have inv0: "shown_so_far c b ?Q ?initial" using IH(1) by (simp add: shown_so_far_def next_word_def)
  have fresh: "\<forall>x. (x, curminy c + int m) \<notin> set ?Q" by (auto simp: pixel_row_def)
  have "[curminx c..curmaxx c] = map (\<lambda>i. curminx c + int i) [0..<w]" using w upto_as_upt by simp
  then have row: "show_row ops gg psd c y st' =
      fold (show_pixel ops gg psd c y) (map (\<lambda>i. curminx c + int i) [0..<w])
        (if curbit st' \<noteq> MWIMAGE_FIRSTBIT then next_word c st' else st')" for gg y st'
    unfolding show_row_def by (simp only:)
  show ?case
    using show_row_part [OF inv0 at w fresh, of w] bits_row_end
      row [of "g\<lparr>gr_mode := MWMODE_COPY\<rparr>" "curminy c + int m" ?st]
    by (auto simp: Let_def)
qed

text \<open>What is saved is the picture on the part of the cursor's rectangle that is on the screen.\<close>

definition saved_pixels :: "cursor \<Rightarrow> (MWCOORD \<times> MWCOORD) list" where
  "saved_pixels c = visible_pixels (rect_pixels (cursavx c) (cursavy c) (cursavx2 c) (cursavy2 c))"

text \<open>
  The invariant: when the cursor is visible the saved pixels are those of the picture \<open>b\<close> and the
  rest of the screen is \<open>b\<close>; otherwise the screen is \<open>b\<close>.  The counter is at most 1, and a removed
  cursor that waits to be restored counts as shown.
\<close>

definition cursor_inv :: "(MWCOORD \<Rightarrow> MWCOORD \<Rightarrow> pixel) \<Rightarrow> cursor \<Rightarrow> 's \<Rightarrow> bool" where
  "cursor_inv b c s \<longleftrightarrow>
     curvisible c + (if curneedsrestore c then 1 else 0) \<le> 1 \<and>
     (if 0 < curvisible c then
        (\<forall>k<length (saved_pixels c). cursavbits c k = case_prod b (saved_pixels c ! k)) \<and>
        (\<forall>x y. onscreen x y \<and> (x, y) \<notin> set (saved_pixels c) \<longrightarrow> read s x y = b x y)
      else \<forall>x y. onscreen x y \<longrightarrow> read s x y = b x y)"

lemma show_draws:
  assumes b: "\<forall>x y. onscreen x y \<longrightarrow> read s x y = b x y" and "curvisible c = 0"
    and res: "GdShowCursor ops g psd c s = (p, c', s')"
  shows "curvisible c' = 1" and "curneedsrestore c' = curneedsrestore c"
    and "\<forall>k<length (saved_pixels c'). cursavbits c' k = case_prod b (saved_pixels c' ! k)"
    and "saved_pixels c' = visible_pixels (rect_pixels (curminx c) (curminy c) (curmaxx c) (curmaxy c))"
    and "onscreen x y \<Longrightarrow> read s' x y =
      (if curminx c \<le> x \<and> x \<le> curmaxx c \<and> curminy c \<le> y \<and> y \<le> curmaxy c
       then with_cursor c b x y else b x y)"
proof -
  let ?c2 = "c\<lparr>curvisible := 1, cursavx := curminx c, cursavy := curminy c, cursavx2 := curmaxx c, cursavy2 := curmaxy c\<rparr>"
  let ?initial = "\<lparr>sh_screen = s, sh_saved = cursavbits c, saveptr = 0, cursorptr = 0, curbit = 0, cbits = 0, mbits = 0\<rparr>"
  let ?w = "nat (curmaxx c - curminx c + 1)" and ?h = "nat (curmaxy c - curminy c + 1)"
  let ?R = "rect_pixels (curminx c) (curminy c) (curmaxx c) (curmaxy c)"
  define st where "st = fold (show_row ops (g\<lparr>gr_mode := MWMODE_COPY\<rparr>) psd ?c2) [curminy c..curmaxy c] ?initial"
  have res': "c' = ?c2\<lparr>cursavbits := sh_saved st\<rparr>" "s' = sh_screen st"
    using res assms(2) by (simp_all add: GdShowCursor_def Let_def st_def)
  have "(0 :: imagebits) \<noteq> MWIMAGE_FIRSTBIT" using curbit_zero [of 0] by auto
  then have ready: "bits_ready ?c2 ?w 0 ?initial" by (simp add: bits_ready_def)
  have start: "shown_so_far ?c2 b [] ?initial" using b by (simp add: shown_so_far_def visible_pixels_def)
  have "[curminy c..curmaxy c] = map (\<lambda>j. curminy c + int j) [0..<?h]" by (rule upto_as_upt)
  then have fin: "shown_so_far ?c2 b ?R st"
    using show_rows_part [OF start ready, of ?h] by (simp add: st_def Let_def rect_pixels_rows)
  have sp: "saved_pixels c' = visible_pixels ?R" by (simp add: saved_pixels_def res')
  show "curvisible c' = 1" "curneedsrestore c' = curneedsrestore c" by (simp_all add: res')
  show "saved_pixels c' = visible_pixels ?R" by (rule sp)
  show "\<forall>k<length (saved_pixels c'). cursavbits c' k = case_prod b (saved_pixels c' ! k)"
    using fin unfolding sp by (simp add: shown_so_far_def res')
  have "with_cursor ?c2 b = with_cursor c b" by (simp add: with_cursor_def [abs_def] cong: if_cong)
  then show "onscreen x y \<Longrightarrow> read s' x y =
      (if curminx c \<le> x \<and> x \<le> curmaxx c \<and> curminy c \<le> y \<and> y \<le> curmaxy c
       then with_cursor c b x y else b x y)"
    using fin by (simp add: shown_so_far_def res' set_rect_pixels)
qed

lemma show_inv:
  assumes inv: "cursor_inv b c s" and room: "curvisible c < 1"
    and res: "GdShowCursor ops g psd c s = (p, c', s')"
    and needs: "curvisible c = 0 \<longrightarrow> \<not> curneedsrestore c"
  shows "cursor_inv b c' s'"
proof (cases "curvisible c = 0")
  case True
  then have b: "\<forall>x y. onscreen x y \<longrightarrow> read s x y = b x y" using inv by (simp add: cursor_inv_def)
  note d = show_draws [OF b True res]
  have "read s' x y = b x y" if "onscreen x y" "(x, y) \<notin> set (saved_pixels c')" for x y
    using d(5) [OF that(1)] that unfolding d(4) by (auto simp: visible_pixels_def set_rect_pixels)
  then show ?thesis using d(1,2,3) needs True by (simp add: cursor_inv_def)
next
  case False
  then have "c' = c\<lparr>curvisible := curvisible c + 1\<rparr>" "s' = s"
    using res by (auto simp: GdShowCursor_def Let_def split: if_splits)
  then show ?thesis using inv room False by (simp add: cursor_inv_def)
qed

lemma hide_fold:
  "fold (\<lambda>(x, y). hide_pixel ops (g\<lparr>gr_mode := MWMODE_COPY\<rparr>) psd c y x) L (s, k) =
    (draw_list (zip (visible_pixels L) (map (cursavbits c) [k..<k + length (visible_pixels L)])) s,
     k + length (visible_pixels L))"
proof (induction L arbitrary: s k)
  case Nil
  then show ?case by (simp add: visible_pixels_def)
next
  case (Cons p L)
  obtain x y where p: "p = (x, y)" by (cases p)
  show ?case
  proof (cases "onscreen x y")
    case True
    then have v: "visible_pixels ((x, y) # L) = (x, y) # visible_pixels L" by (simp add: visible_pixels_def)
    have u: "[k..<k + length ((x, y) # visible_pixels L)] = k # [Suc k..<Suc k + length (visible_pixels L)]"
      by (simp add: upt_conv_Cons del: upt_Suc)
    have step: "hide_pixel ops (g\<lparr>gr_mode := MWMODE_COPY\<rparr>) psd c y x (s, k) =
        (draw s x y (cursavbits c k), Suc k)"
      using True by (simp add: hide_pixel_def on_ops draw_ops)
    show ?thesis
      unfolding p v u fold.simps list.map zip_Cons_Cons comp_apply prod.case step Cons
      by (simp del: upt_Suc)
  next
    case False
    then show ?thesis using Cons by (simp add: p hide_pixel_def on_ops visible_pixels_def)
  qed
qed

lemma hide_restores:
  assumes vis: "0 < curvisible c"
    and saved: "\<forall>k<length (saved_pixels c). cursavbits c k = case_prod b (saved_pixels c ! k)"
    and rest: "\<forall>x y. onscreen x y \<and> (x, y) \<notin> set (saved_pixels c) \<longrightarrow> read s x y = b x y"
    and res: "GdHideCursor ops g psd c s = (p, c', s')" and on: "onscreen x y"
  shows "read s' x y = b x y"
proof -
  let ?R = "rect_pixels (cursavx c) (cursavy c) (cursavx2 c) (cursavy2 c)"
  have row: "fold (hide_pixel ops (g\<lparr>gr_mode := MWMODE_COPY\<rparr>) psd c y) xs =
      fold (\<lambda>(x, y). hide_pixel ops (g\<lparr>gr_mode := MWMODE_COPY\<rparr>) psd c y x) (map (\<lambda>x. (x, y)) xs)" for y xs
    by (simp add: fold_map comp_def)
  have "s' = fst (fold (\<lambda>y. fold (hide_pixel ops (g\<lparr>gr_mode := MWMODE_COPY\<rparr>) psd c y) [cursavx c..cursavx2 c])
      [cursavy c..cursavy2 c] (s, 0))"
    using res vis by (simp add: GdHideCursor_def Let_def)
  also have "\<dots> = fst (fold (\<lambda>(x, y). hide_pixel ops (g\<lparr>gr_mode := MWMODE_COPY\<rparr>) psd c y x) ?R (s, 0))"
    unfolding row rect_pixels_def by (simp add: fold_concat_fold fold_map comp_def)
  also have "\<dots> = draw_list (zip (saved_pixels c) (map (cursavbits c) [0..<length (saved_pixels c)])) s"
    by (simp add: hide_fold saved_pixels_def)
  also have "zip (saved_pixels c) (map (cursavbits c) [0..<length (saved_pixels c)]) =
      map (\<lambda>(x, y). ((x, y), b x y)) (saved_pixels c)"
    by (rule nth_equalityI) (use saved in \<open>auto simp: case_prod_unfold\<close>)
  finally have s': "s' = draw_list (map (\<lambda>(x, y). ((x, y), b x y)) (saved_pixels c)) s" .
  show ?thesis
    unfolding s'
    by (rule draw_back) (use rest on distinct_rect_pixels in \<open>auto simp: saved_pixels_def visible_pixels_def\<close>)
qed

lemma hide_fields:
  assumes "GdHideCursor ops g psd c s = (p, c', s')"
  shows "c' = c\<lparr>curvisible := curvisible c - 1\<rparr>" and "p = curvisible c"
  using assms by (auto simp: GdHideCursor_def Let_def split: if_splits)

lemma hide_inv:
  assumes inv: "cursor_inv b c s" and res: "GdHideCursor ops g psd c s = (p, c', s')"
  shows "cursor_inv b c' s'" and "curvisible c' < 1"
    and "curvisible c' + (if curneedsrestore c' then 1 else 0) \<le> 0"
proof -
  note f = hide_fields [OF res]
  have le: "curvisible c + (if curneedsrestore c then 1 else 0) \<le> 1" using inv by (simp add: cursor_inv_def)
  then show "curvisible c' < 1" and "curvisible c' + (if curneedsrestore c' then 1 else 0) \<le> 0"
    by (auto simp: f split: if_splits)
  have "read s' x y = b x y" if on: "onscreen x y" for x y
  proof (cases "0 < curvisible c")
    case True
    then show ?thesis using hide_restores [OF True _ _ res on] inv by (simp add: cursor_inv_def)
  next
    case False
    then have "s' = s" using res by (simp add: GdHideCursor_def Let_def)
    then show ?thesis using inv False on by (simp add: cursor_inv_def)
  qed
  then show "cursor_inv b c' s'" using le by (auto simp: cursor_inv_def f split: if_splits)
qed

text \<open>Fields that hiding and the invariant do not look at may change while the cursor is hidden.\<close>

lemma cursor_inv_hidden_cong:
  assumes "cursor_inv b c s" and "curvisible c \<le> 0" and "curvisible c' = curvisible c"
    and "curneedsrestore c' = curneedsrestore c"
  shows "cursor_inv b c' s"
  using assms by (simp add: cursor_inv_def)

lemma hide_show_inv:
  assumes inv: "cursor_inv b c s" and hide: "GdHideCursor ops g psd c s = (p, c1, s1)"
    and same: "curvisible c2 = curvisible c1" "curneedsrestore c2 = curneedsrestore c1"
    and show': "GdShowCursor ops g psd c2 s1 = (q, c3, s3)"
  shows "cursor_inv b c3 s3" and "curvisible c3 = curvisible c" and "curneedsrestore c3 = curneedsrestore c"
proof -
  note h = hide_inv [OF inv hide] and f = hide_fields [OF hide]
  have inv2: "cursor_inv b c2 s1" by (rule cursor_inv_hidden_cong [OF h(1)]) (use h(2) same in auto)
  show "cursor_inv b c3 s3"
    by (rule show_inv [OF inv2 _ show']) (use h(2,3) same in \<open>auto split: if_splits\<close>)
  show "curvisible c3 = curvisible c" "curneedsrestore c3 = curneedsrestore c"
    using show' same f(1) by (auto simp: GdShowCursor_def Let_def split: if_splits)
qed

lemma move_inv:
  assumes inv: "cursor_inv b c s" and res: "GdMoveCursor ops g psd x y c s = (c', s')"
  shows "cursor_inv b c' s'"
proof (cases "x - curminx c = 0 \<and> y - curminy c = 0")
  case True
  then show ?thesis using assms by (simp add: GdMoveCursor_def Let_def)
next
  case False
  let ?c1 = "c\<lparr>curminx := curminx c + (x - curminx c), curmaxx := curmaxx c + (x - curminx c),
    curminy := curminy c + (y - curminy c), curmaxy := curmaxy c + (y - curminy c)\<rparr>"
  obtain p c2 s2 where h: "GdHideCursor ops g psd ?c1 s = (p, c2, s2)"
    by (cases "GdHideCursor ops g psd ?c1 s") auto
  obtain q c3 s3 where sh: "GdShowCursor ops g psd c2 s2 = (q, c3, s3)"
    by (cases "GdShowCursor ops g psd c2 s2") auto
  have "cursor_inv b ?c1 s" using inv by (simp add: cursor_inv_def saved_pixels_def)
  from hide_show_inv(1) [OF this h refl refl sh] show ?thesis
    using res False h sh unfolding GdMoveCursor_def Let_def by auto
qed

lemma set_inv:
  assumes inv: "cursor_inv b c s" and res: "GdSetCursor ops fc g psd pc c s = (c', s')"
  shows "cursor_inv b c' s'"
proof -
  obtain p c1 s1 where h: "GdHideCursor ops g psd c s = (p, c1, s1)"
    by (cases "GdHideCursor ops g psd c s") auto
  let ?n = "MWIMAGE_SIZE (mc_width pc) (mc_height pc)"
  let ?c2 = "c1\<lparr>curmaxx := curminx c1 + int (mc_width pc) - 1, curmaxy := curminy c1 + int (mc_height pc) - 1,
    curfg := fc psd (mc_fgcolor pc), curbg := fc psd (mc_bgcolor pc),
    cursorcolor := (\<lambda>i. if i < ?n then mc_image pc i else cursorcolor c1 i),
    cursormask := (\<lambda>i. if i < ?n then mc_mask pc i else cursormask c1 i)\<rparr>"
  obtain q c3 s3 where sh: "GdShowCursor ops g psd ?c2 s1 = (q, c3, s3)"
    by (cases "GdShowCursor ops g psd ?c2 s1") auto
  have "cursor_inv b c3 s3" by (rule hide_show_inv(1) [OF inv h _ _ sh]) simp_all
  moreover have "c' = c3" "s' = s3" using res h sh by (simp_all add: GdSetCursor_def Let_def)
  ultimately show ?thesis by simp
qed

lemma check_inv:
  assumes inv: "cursor_inv b c s" and res: "GdCheckCursor ops g psd x1 y1 x2 y2 c s = (c', s')"
  shows "cursor_inv b c' s'"
proof -
  have "(c', s') = (c, s) \<or> (0 < curvisible c \<and> (\<exists>p c1. GdHideCursor ops g psd c s = (p, c1, s') \<and> c' = c1\<lparr>curneedsrestore := True\<rparr>))"
    using res by (auto simp: GdCheckCursor_def Let_def split: if_splits prod.splits)
  then show ?thesis
  proof
    assume "0 < curvisible c \<and> (\<exists>p c1. GdHideCursor ops g psd c s = (p, c1, s') \<and> c' = c1\<lparr>curneedsrestore := True\<rparr>)"
    then obtain p c1 where vis: "0 < curvisible c" and h: "GdHideCursor ops g psd c s = (p, c1, s')"
      and c': "c' = c1\<lparr>curneedsrestore := True\<rparr>" by blast
    have "\<not> curneedsrestore c" using inv vis by (auto simp: cursor_inv_def split: if_splits)
    then show ?thesis using hide_inv [OF inv h] hide_fields [OF h] c' by (auto simp: cursor_inv_def)
  qed (use inv in simp)
qed

lemma fix_inv:
  assumes inv: "cursor_inv b c s" and res: "GdFixCursor ops g psd c s = (c', s')"
  shows "cursor_inv b c' s'"
proof (cases "curneedsrestore c \<and> flags psd AND PSF_SCREEN \<noteq> 0")
  case True
  let ?c = "c\<lparr>curneedsrestore := False\<rparr>"
  obtain p c1 s1 where sh: "GdShowCursor ops g psd c s = (p, c1, s1)"
    by (cases "GdShowCursor ops g psd c s") auto
  have sh': "GdShowCursor ops g psd ?c s = (p, c1\<lparr>curneedsrestore := False\<rparr>, s1)"
  proof -
    have word: "next_word (c0\<lparr>curneedsrestore := False\<rparr>) st = next_word c0 st" for c0 and st :: "'s show_state"
      by (simp add: next_word_def)
    have pixel: "show_pixel ops gg psd (c0\<lparr>curneedsrestore := False\<rparr>) = show_pixel ops gg psd c0" for gg c0
      by (intro ext) (simp add: show_pixel_def word cong: if_cong)
    have row: "show_row ops gg psd (c0\<lparr>curneedsrestore := False\<rparr>) = show_row ops gg psd c0" for gg c0
      by (intro ext) (simp add: show_row_def pixel word)
    have cur_swap: "c\<lparr>curneedsrestore := False, curvisible := v, cursavx := x1, cursavy := y1,
        cursavx2 := x2, cursavy2 := y2\<rparr> =
      c\<lparr>curvisible := v, cursavx := x1, cursavy := y1, cursavx2 := x2, cursavy2 := y2\<rparr>\<lparr>curneedsrestore := False\<rparr>"
      for v x1 y1 x2 y2 by simp
    have row': "show_row ops gg psd (c\<lparr>curneedsrestore := False, curvisible := v, cursavx := x1, cursavy := y1,
        cursavx2 := x2, cursavy2 := y2\<rparr>) =
      show_row ops gg psd (c\<lparr>curvisible := v, cursavx := x1, cursavy := y1, cursavx2 := x2, cursavy2 := y2\<rparr>)"
      for gg v x1 y1 x2 y2
      using row [of gg "c\<lparr>curvisible := v, cursavx := x1, cursavy := y1, cursavx2 := x2, cursavy2 := y2\<rparr>"]
      by (metis (no_types) cur_swap)
    show ?thesis
    proof (cases "curvisible c = 0")
      case True
      then show ?thesis using sh by (auto simp: GdShowCursor_def Let_def row')
    next
      case False
      then show ?thesis using sh by (auto simp: GdShowCursor_def Let_def)
    qed
  qed
  have vis: "curvisible c < 1" using inv True by (simp add: cursor_inv_def)
  have "cursor_inv b ?c s" using inv vis by (simp add: cursor_inv_def)
  then have "cursor_inv b (c1\<lparr>curneedsrestore := False\<rparr>) s1" by (rule show_inv [OF _ _ sh']) (use vis in simp_all)
  then show ?thesis using res True sh by (simp add: GdFixCursor_def)
next
  case False
  then show ?thesis using assms by (auto simp: GdFixCursor_def)
qed

end

end
