(* ===== verification/Cur_Props.thy ===== *)
theory Cur_Props
  imports Cur_Proofs
begin

unbundle bit_operations_syntax

text \<open>
  The contract of the software cursor, and the theorems that its operations keep it on the 32-bit
  driver.
\<close>

section \<open>The contract\<close>

text \<open>
  \<open>cursor_ok on rd b c\<close>: the screen, read by \<open>rd\<close>, is the picture \<open>b\<close> with the cursor on top of it
  while the cursor is visible, and \<open>b\<close> itself otherwise; what is saved is \<open>b\<close> below the cursor.
\<close>

definition cursor_picture :: "cursor \<Rightarrow> (MWCOORD \<Rightarrow> MWCOORD \<Rightarrow> pixel) \<Rightarrow> MWCOORD \<Rightarrow> MWCOORD \<Rightarrow> pixel" where
  "cursor_picture c b x y =
    (if curminx c \<le> x \<and> x \<le> curmaxx c \<and> curminy c \<le> y \<and> y \<le> curmaxy c then with_cursor c b x y else b x y)"

definition saves_rect :: "cursor \<Rightarrow> bool" where
  "saves_rect c \<longleftrightarrow> cursavx c = curminx c \<and> cursavy c = curminy c \<and> cursavx2 c = curmaxx c \<and> cursavy2 c = curmaxy c"

definition cursor_ok ::
  "(MWCOORD \<Rightarrow> MWCOORD \<Rightarrow> bool) \<Rightarrow> (MWCOORD \<Rightarrow> MWCOORD \<Rightarrow> pixel) \<Rightarrow> (MWCOORD \<Rightarrow> MWCOORD \<Rightarrow> pixel) \<Rightarrow>
   cursor \<Rightarrow> bool" where
  "cursor_ok on rd b c \<longleftrightarrow>
     curvisible c + (if curneedsrestore c then 1 else 0) \<le> 1 \<and>
     (if 0 < curvisible c then
        saves_rect c \<and>
        (let ps = filter (\<lambda>(x, y). on x y) (rect_pixels (curminx c) (curminy c) (curmaxx c) (curmaxy c))
         in \<forall>k<length ps. cursavbits c k = case_prod b (ps ! k)) \<and>
        (\<forall>x y. on x y \<longrightarrow> rd x y = cursor_picture c b x y)
      else \<forall>x y. on x y \<longrightarrow> rd x y = b x y)"

text \<open>The picture \<open>b\<close> after drawing in the area \<open>R\<close>, where the screen now reads \<open>rd\<close>.\<close>

definition drawn_over :: "(MWCOORD \<Rightarrow> MWCOORD \<Rightarrow> bool) \<Rightarrow> (MWCOORD \<Rightarrow> MWCOORD \<Rightarrow> pixel) \<Rightarrow>
    (MWCOORD \<Rightarrow> MWCOORD \<Rightarrow> pixel) \<Rightarrow> MWCOORD \<Rightarrow> MWCOORD \<Rightarrow> pixel" where
  "drawn_over R rd b x y = (if R x y then rd x y else b x y)"

lemma cursor_picture_fields:
  assumes "curminx c' = curminx c" "curminy c' = curminy c" "curmaxx c' = curmaxx c" "curmaxy c' = curmaxy c"
    "cursormask c' = cursormask c" "cursorcolor c' = cursorcolor c" "curfg c' = curfg c" "curbg c' = curbg c"
  shows "cursor_picture c' = cursor_picture c"
  by (intro ext) (simp only: cursor_picture_def with_cursor_def assms)

lemma show_fields:
  assumes "GdShowCursor ops g psd c s = (p, c', s')"
  shows "curvisible c' = curvisible c + 1" "curneedsrestore c' = curneedsrestore c" "p = curvisible c"
    "curminx c' = curminx c" "curminy c' = curminy c" "curmaxx c' = curmaxx c" "curmaxy c' = curmaxy c"
    "cursormask c' = cursormask c" "cursorcolor c' = cursorcolor c" "curfg c' = curfg c" "curbg c' = curbg c"
    "curvisible c = 0 \<longrightarrow> saves_rect c'"
    "curvisible c \<noteq> 0 \<longrightarrow> c' = c\<lparr>curvisible := curvisible c + 1\<rparr> \<and> s' = s"
  using assms by (auto simp: GdShowCursor_def Let_def saves_rect_def split: if_splits)

context cursor_screen
begin

lemma cursor_ok_inv:
  "cursor_ok onscreen (read s) b c \<longleftrightarrow>
     cursor_inv b c s \<and>
     (0 < curvisible c \<longrightarrow> saves_rect c \<and> (\<forall>x y. onscreen x y \<longrightarrow> read s x y = cursor_picture c b x y))"
proof (cases "0 < curvisible c \<and> saves_rect c")
  case True
  then have sp: "saved_pixels c = filter (\<lambda>(x, y). onscreen x y)
      (rect_pixels (curminx c) (curminy c) (curmaxx c) (curmaxy c))"
    by (simp add: saved_pixels_def visible_pixels_def saves_rect_def)
  have "(x, y) \<notin> set (saved_pixels c) \<Longrightarrow> onscreen x y \<Longrightarrow> cursor_picture c b x y = b x y" for x y
    unfolding sp by (auto simp: cursor_picture_def set_rect_pixels)
  then show ?thesis using True unfolding cursor_ok_def cursor_inv_def sp by (auto simp: Let_def)
next
  case False
  then show ?thesis by (auto simp: cursor_ok_def cursor_inv_def)
qed

lemma show_ok:
  assumes inv: "cursor_inv b c s" and room: "curvisible c < 1"
    and needs: "curvisible c = 0 \<longrightarrow> \<not> curneedsrestore c"
    and res: "GdShowCursor ops g psd c s = (p, c', s')"
  shows "cursor_ok onscreen (read s') b c'"
proof -
  have "saves_rect c' \<and> (\<forall>x y. onscreen x y \<longrightarrow> read s' x y = cursor_picture c' b x y)" if "0 < curvisible c'"
  proof -
    have vis: "curvisible c = 0" using that room show_fields(1) [OF res] by simp
    then have "\<forall>x y. onscreen x y \<longrightarrow> read s x y = b x y" using inv by (simp add: cursor_inv_def)
    note d = show_draws(5) [OF this vis res]
    have "cursor_picture c' = cursor_picture c" by (intro cursor_picture_fields show_fields [OF res])
    then show ?thesis using d show_fields [OF res] vis by (simp add: cursor_picture_def)
  qed
  then show ?thesis using show_inv [OF inv room res needs] by (simp add: cursor_ok_inv)
qed

lemma hide_ok:
  assumes "cursor_ok onscreen (read s) b c" and "GdHideCursor ops g psd c s = (p, c', s')"
  shows "cursor_ok onscreen (read s') b c'" "curvisible c' < 1"
    "curvisible c' + (if curneedsrestore c' then 1 else 0) \<le> 0"
  using assms hide_inv [of b c s p c' s'] by (simp_all add: cursor_ok_inv)

lemma hide_show_ok:
  assumes ok: "cursor_inv b c s" and hide: "GdHideCursor ops g psd c s = (p, c1, s1)"
    and same: "curvisible c2 = curvisible c1" "curneedsrestore c2 = curneedsrestore c1"
    and show': "GdShowCursor ops g psd c2 s1 = (q, c3, s3)"
  shows "cursor_ok onscreen (read s3) b c3" "curvisible c3 = curvisible c" "curneedsrestore c3 = curneedsrestore c"
proof -
  note h = hide_inv [OF ok hide]
  have "cursor_inv b c2 s1" by (rule cursor_inv_hidden_cong [OF h(1)]) (use h(2) same in auto)
  then show "cursor_ok onscreen (read s3) b c3"
    by (rule show_ok [OF _ _ _ show']) (use h(2,3) same in \<open>auto split: if_splits\<close>)
  show "curvisible c3 = curvisible c" "curneedsrestore c3 = curneedsrestore c"
    by (rule hide_show_inv [OF ok hide same show'])+
qed

lemma move_ok:
  assumes ok: "cursor_ok onscreen (read s) b c" and res: "GdMoveCursor ops g psd x y c s = (c', s')"
  shows "cursor_ok onscreen (read s') b c'"
    and "curminx c' = x" "curminy c' = y" "curmaxx c' - curminx c' = curmaxx c - curminx c"
    "curmaxy c' - curminy c' = curmaxy c - curminy c" "curvisible c' = curvisible c"
proof (atomize (full), goal_cases)
  case 1
  show ?case
  proof (cases "x - curminx c = 0 \<and> y - curminy c = 0")
    case True
    then show ?thesis using assms by (simp add: GdMoveCursor_def Let_def)
  next
    case False
    let ?c1 = "c\<lparr>curminx := curminx c + (x - curminx c), curmaxx := curmaxx c + (x - curminx c),
      curminy := curminy c + (y - curminy c), curmaxy := curmaxy c + (y - curminy c)\<rparr>"
    obtain p c2 s2 where h: "GdHideCursor ops g psd ?c1 s = (p, c2, s2)"
      by (cases "GdHideCursor ops g psd ?c1 s") auto
    obtain q c3 s3 where sh: "GdShowCursor ops g psd c2 s2 = (q, c3, s3)"
      by (cases "GdShowCursor ops g psd c2 s2") auto
    have "cursor_inv b ?c1 s" using ok by (simp add: cursor_ok_inv cursor_inv_def saved_pixels_def)
    note hs = hide_show_ok [OF this h refl refl sh]
    have "c' = c3" "s' = s3" using res False h sh unfolding GdMoveCursor_def Let_def by auto
    then show ?thesis using hs show_fields [OF sh] hide_fields(1) [OF h] by simp
  qed
qed

lemma set_ok:
  assumes ok: "cursor_ok onscreen (read s) b c" and res: "GdSetCursor ops fc g psd pc c s = (c', s')"
  shows "cursor_ok onscreen (read s') b c'" "curvisible c' = curvisible c"
proof -
  obtain p c1 s1 where h: "GdHideCursor ops g psd c s = (p, c1, s1)"
    by (cases "GdHideCursor ops g psd c s") auto
  let ?n = "MWIMAGE_SIZE (mc_width pc) (mc_height pc)"
  let ?c2 = "c1\<lparr>curmaxx := curminx c1 + int (mc_width pc) - 1, curmaxy := curminy c1 + int (mc_height pc) - 1,
    curfg := fc psd (mc_fgcolor pc), curbg := fc psd (mc_bgcolor pc),
    cursorcolor := (\<lambda>i. if i < ?n then mc_image pc i else cursorcolor c1 i),
    cursormask := (\<lambda>i. if i < ?n then mc_mask pc i else cursormask c1 i)\<rparr>"
  obtain q c3 s3 where sh: "GdShowCursor ops g psd ?c2 s1 = (q, c3, s3)"
    by (cases "GdShowCursor ops g psd ?c2 s1") auto
  have inv: "cursor_inv b c s" using ok by (simp add: cursor_ok_inv)
  have "cursor_ok onscreen (read s3) b c3" "curvisible c3 = curvisible c"
    by (rule hide_show_ok [OF inv h _ _ sh]; simp)+
  moreover have "c' = c3" "s' = s3" using res h sh by (simp_all add: GdSetCursor_def Let_def)
  ultimately show "cursor_ok onscreen (read s') b c'" "curvisible c' = curvisible c" by simp_all
qed

text \<open>Drawing in a rectangle that has been checked leaves the cursor's contract intact.\<close>

lemma check_then_draw:
  assumes ok: "cursor_ok onscreen (read s) b c" and scr: "flags psd AND PSF_SCREEN \<noteq> 0"
    and chk: "GdCheckCursor ops g psd x1 y1 x2 y2 c s = (c1, s1)"
    and R: "\<And>x y. R x y \<Longrightarrow> min x1 x2 \<le> x \<and> x \<le> max x1 x2 \<and> min y1 y2 \<le> y \<and> y \<le> max y1 y2"
    and frame: "\<And>x y. onscreen x y \<Longrightarrow> \<not> R x y \<Longrightarrow> read s2 x y = read s1 x y"
  shows "cursor_ok onscreen (read s2) (drawn_over R (read s2) b) c1"
proof (cases "0 < curvisible c")
  case False
  then have "c1 = c" "s1 = s" using chk by (simp_all add: GdCheckCursor_def)
  then show ?thesis using ok False frame by (auto simp: cursor_ok_def drawn_over_def)
next
  case vis: True
  let ?apart = "min x1 x2 > curmaxx c \<or> max x1 x2 < curminx c \<or> min y1 y2 > curmaxy c \<or> max y1 y2 < curminy c"
  have chk': "(c1, s1) = (if ?apart then (c, s)
      else (let (p, c1, s1) = GdHideCursor ops g psd c s in (c1\<lparr>curneedsrestore := True\<rparr>, s1)))"
    using chk vis scr by (auto simp: GdCheckCursor_def Let_def min_def max_def split: if_splits)
  show ?thesis
  proof (cases ?apart)
    case True
    then have eq: "c1 = c" "s1 = s" using chk' by simp_all
    let ?ps = "filter (\<lambda>(x, y). onscreen x y) (rect_pixels (curminx c) (curminy c) (curmaxx c) (curmaxy c))"
    have away: "\<not> R x y" if "curminx c \<le> x" "x \<le> curmaxx c" "curminy c \<le> y" "y \<le> curmaxy c" for x y
      using R [of x y] True that by linarith
    have "case_prod (drawn_over R (read s2) b) (?ps ! k) = case_prod b (?ps ! k)" if "k < length ?ps" for k
    proof -
      obtain x y where xy: "?ps ! k = (x, y)" by fastforce
      have "?ps ! k \<in> set ?ps" using that by (rule nth_mem)
      then have "\<not> R x y" using away xy by (auto simp: set_rect_pixels)
      then show ?thesis using xy by (simp add: drawn_over_def)
    qed
    moreover have "read s2 x y = cursor_picture c (drawn_over R (read s2) b) x y" if on: "onscreen x y" for x y
    proof (cases "R x y")
      case True
      then have "\<not> (curminx c \<le> x \<and> x \<le> curmaxx c \<and> curminy c \<le> y \<and> y \<le> curmaxy c)" using away by blast
      then show ?thesis using True by (auto simp: cursor_picture_def drawn_over_def)
    next
      case False
      then have "read s2 x y = cursor_picture c b x y"
        using frame [OF on] ok vis on by (simp add: eq cursor_ok_def)
      then show ?thesis using False by (simp add: cursor_picture_def with_cursor_def drawn_over_def Let_def)
    qed
    ultimately show ?thesis using ok vis by (simp add: eq cursor_ok_def Let_def)
  next
    case False
    then obtain p c0 where h: "GdHideCursor ops g psd c s = (p, c0, s1)" and c1: "c1 = c0\<lparr>curneedsrestore := True\<rparr>"
      using chk' by (auto split: prod.splits)
    note f = hide_fields(1) [OF h] and ok' = hide_ok [OF ok h]
    have "\<not> curneedsrestore c" using ok vis by (auto simp: cursor_ok_def split: if_splits)
    then have "curvisible c1 = 0" using ok vis by (simp add: c1 f cursor_ok_def)
    moreover have "read s1 x y = b x y" if "onscreen x y" for x y
      using ok'(1,2) that by (simp add: cursor_ok_def)
    ultimately show ?thesis using frame by (simp add: cursor_ok_def drawn_over_def)
  qed
qed

lemma fix_ok:
  assumes ok: "cursor_ok onscreen (read s) b c" and res: "GdFixCursor ops g psd c s = (c', s')"
  shows "cursor_ok onscreen (read s') b c'"
proof (cases "curneedsrestore c \<and> flags psd AND PSF_SCREEN \<noteq> 0")
  case True
  obtain p c1 s1 where sh: "GdShowCursor ops g psd c s = (p, c1, s1)"
    by (cases "GdShowCursor ops g psd c s") auto
  have vis: "curvisible c < 1" using ok True by (simp add: cursor_ok_def)
  have fin: "c' = c1\<lparr>curneedsrestore := False\<rparr>" "s' = s1" using res True sh by (simp_all add: GdFixCursor_def)
  have inv': "cursor_inv b c' s'" by (rule fix_inv [OF _ res]) (use ok in \<open>simp add: cursor_ok_inv\<close>)
  have "saves_rect c' \<and> (\<forall>x y. onscreen x y \<longrightarrow> read s' x y = cursor_picture c' b x y)" if "0 < curvisible c'"
  proof -
    have vis0: "curvisible c = 0" using that vis show_fields(1) [OF sh] fin by simp
    then have "\<forall>x y. onscreen x y \<longrightarrow> read s x y = b x y" using ok by (simp add: cursor_ok_def)
    note d = show_draws(5) [OF this vis0 sh]
    have "cursor_picture c' = cursor_picture c"
      by (rule cursor_picture_fields) (simp_all add: fin show_fields [OF sh])
    then show ?thesis using d show_fields [OF sh] vis0 by (simp add: cursor_picture_def fin saves_rect_def)
  qed
  then show ?thesis using inv' by (simp add: cursor_ok_inv)
next
  case False
  then show ?thesis using assms by (auto simp: GdFixCursor_def)
qed

end

section \<open>The cursor on the 32-bit driver\<close>

definition gen32_ops :: "SCREENDEVICE \<Rightarrow> fbmem screen_ops" where
  "gen32_ops psd = \<lparr>ReadPixel = ScrGen32_ReadPixel psd, DrawPixel = (\<lambda>g. ScrGen32_DrawPixel g psd)\<rparr>"

text \<open>
  What the cursor needs of the surface and of the drawing state: lines as long as the surface is
  wide, and no global alpha.  \<open>wide\<close> and \<open>no_alpha\<close> change nothing when these hold.
\<close>

definition wide :: "SCREENDEVICE \<Rightarrow> SCREENDEVICE" where
  "wide psd = (if xvirtres psd \<le> linelen psd then psd else psd\<lparr>linelen := xvirtres psd\<rparr>)"

definition no_alpha :: "gr_state \<Rightarrow> gr_state" where
  "no_alpha g = (if global_alpha_on g then g\<lparr>gr_alpha := - 1\<rparr> else g)"

lemma on_psd_wide: "on_psd (wide psd) x y \<longleftrightarrow> on_surface (wide psd) x y"
  by (auto simp: on_psd_def on_surface_def wide_def)

lemma DrawPixel_no_alpha:
  "ScrGen32_DrawPixel (no_alpha g\<lparr>gr_mode := MWMODE_COPY\<rparr>) psd = ScrGen32_DrawPixel (plain_copy g) psd"
proof (intro ext, unfold DrawPixel_plain)
  have "scale_alpha (no_alpha g\<lparr>gr_mode := MWMODE_COPY\<rparr>) c = c" for c
    by (auto simp: scale_alpha_def no_alpha_def global_alpha_on_def)
  then show "ScrGen32_DrawPixel (no_alpha g\<lparr>gr_mode := MWMODE_COPY\<rparr>) psd mem x y c a =
      (mem(pixel_addr psd x y := c)) a" for mem x y c a
    by (simp add: ScrGen32_DrawPixel_def Let_def)
qed

interpretation gen32_cursor: cursor_screen "ScrGen32_ReadPixel (wide psd)"
  "\<lambda>mem. ScrGen32_DrawPixel (plain_copy g) (wide psd) mem" "on_surface (wide psd)"
  "gen32_ops (wide psd)" "no_alpha g" "wide psd" for psd g
  by unfold_locales (simp_all add: gen32_ops_def on_psd_wide DrawPixel_no_alpha)

text \<open>The contract on a surface, in one definition.\<close>

definition cursor_on :: "SCREENDEVICE \<Rightarrow> (MWCOORD \<Rightarrow> MWCOORD \<Rightarrow> pixel) \<Rightarrow> cursor \<Rightarrow> fbmem \<Rightarrow> bool" where
  "cursor_on psd b c mem \<longleftrightarrow> cursor_ok (on_psd psd) (ScrGen32_ReadPixel psd mem) b c"

definition plain_surface :: "SCREENDEVICE \<Rightarrow> gr_state \<Rightarrow> bool" where
  "plain_surface psd g \<longleftrightarrow> xvirtres psd \<le> linelen psd \<and> \<not> global_alpha_on g"

lemma plain_surface_same:
  assumes "plain_surface psd g"
  shows "wide psd = psd" "no_alpha g = g" "on_surface psd = on_psd psd"
proof -
  show w: "wide psd = psd" and "no_alpha g = g"
    using assms by (simp_all add: plain_surface_def wide_def no_alpha_def)
  show "on_surface psd = on_psd psd"
    by (intro ext) (use on_psd_wide [of psd] w in simp)
qed

section \<open>The sizes of the arrays\<close>

text \<open>
  The cursors that the arrays of the code can hold, and the statement that nothing is written past
  the end of one.  \<open>GrNewCursor\<close>, which makes every cursor of a client, refuses larger images.
\<close>

definition cursor_fits :: "cursor \<Rightarrow> bool" where
  "cursor_fits c \<longleftrightarrow> curmaxx c - curminx c < int MWMAX_CURSOR_SIZE \<and> curmaxy c - curminy c < int MWMAX_CURSOR_SIZE"

definition image_fits :: "MWCURSOR \<Rightarrow> bool" where
  "image_fits pc \<longleftrightarrow> mc_width pc \<le> MWMAX_CURSOR_SIZE \<and> mc_height pc \<le> MWMAX_CURSOR_SIZE"

definition within_arrays :: "cursor \<Rightarrow> cursor \<Rightarrow> bool" where
  "within_arrays c c' \<longleftrightarrow>
     (\<forall>k\<ge>MWMAX_CURSOR_SIZE * MWMAX_CURSOR_SIZE. cursavbits c' k = cursavbits c k) \<and>
     (\<forall>k\<ge>MWMAX_CURSOR_BUFLEN. cursormask c' k = cursormask c k \<and> cursorcolor c' k = cursorcolor c k)"

lemma within_arrays_trans: "within_arrays c c' \<Longrightarrow> within_arrays c' c'' \<Longrightarrow> within_arrays c c''"
  by (simp add: within_arrays_def)

lemma within_arrays_same:
  "cursavbits c' = cursavbits c \<Longrightarrow> cursormask c' = cursormask c \<Longrightarrow> cursorcolor c' = cursorcolor c \<Longrightarrow> within_arrays c c'"
  by (simp add: within_arrays_def)

lemma cursor_fits_same:
  "curmaxx c' - curminx c' = curmaxx c - curminx c \<Longrightarrow> curmaxy c' - curminy c' = curmaxy c - curminy c \<Longrightarrow>
   cursor_fits c' = cursor_fits c"
  by (simp add: cursor_fits_def)

lemma fits_pixels:
  assumes "cursor_fits c"
  shows "nat (curmaxx c - curminx c + 1) * nat (curmaxy c - curminy c + 1) \<le> MWMAX_CURSOR_SIZE * MWMAX_CURSOR_SIZE"
  using assms by (intro mult_le_mono) (auto simp: cursor_fits_def)

text \<open>What is saved of a picture, and so what hiding reads, lies inside the array as well.\<close>

lemma fits_saved:
  assumes "cursor_fits c"
  shows "length (filter f (rect_pixels (curminx c) (curminy c) (curmaxx c) (curmaxy c)))
    \<le> MWMAX_CURSOR_SIZE * MWMAX_CURSOR_SIZE"
proof -
  have "length (rect_pixels x1 y1 x2 y2) = nat (x2 - x1 + 1) * nat (y2 - y1 + 1)" for x1 y1 x2 y2
    by (simp add: rect_pixels_rows length_concat comp_def pixel_row_def sum_list_triv)
  then show ?thesis using fits_pixels [OF assms] length_filter_le [of f] le_trans by (metis (no_types, lifting))
qed

lemma show_within:
  assumes "cursor_fits c" and sh: "GdShowCursor ops g psd c s = (p, c', s')"
  shows "within_arrays c c'" "cursor_fits c'"
proof -
  note f = show_fields [OF sh]
  have "cursavbits c' k = cursavbits c k" if "MWMAX_CURSOR_SIZE * MWMAX_CURSOR_SIZE \<le> k" for k
    by (rule show_saves [OF sh]) (use fits_pixels [OF assms(1)] that in linarith)
  then show "within_arrays c c'" by (simp add: within_arrays_def f)
  show "cursor_fits c'" using assms(1) by (simp add: cursor_fits_def f)
qed

lemma hide_record:
  "GdHideCursor ops g psd c s = (p, c', s') \<Longrightarrow> c' = c\<lparr>curvisible := curvisible c - 1\<rparr>"
  by (auto simp: GdHideCursor_def Let_def split: if_splits)

lemma hide_within:
  assumes "GdHideCursor ops g psd c s = (p, c', s')"
  shows "within_arrays c c'" "cursor_fits c' = cursor_fits c"
  using hide_record [OF assms] by (simp_all add: within_arrays_def cursor_fits_def)

lemma move_within:
  assumes fits: "cursor_fits c" and res: "GdMoveCursor ops g psd x y c s = (c', s')"
  shows "within_arrays c c' \<and> cursor_fits c'"
proof (cases "x - curminx c = 0 \<and> y - curminy c = 0")
  case True
  then show ?thesis using assms by (simp add: GdMoveCursor_def Let_def within_arrays_def)
next
  case False
  let ?c1 = "c\<lparr>curminx := curminx c + (x - curminx c), curmaxx := curmaxx c + (x - curminx c),
    curminy := curminy c + (y - curminy c), curmaxy := curmaxy c + (y - curminy c)\<rparr>"
  obtain p c2 s2 where h: "GdHideCursor ops g psd ?c1 s = (p, c2, s2)" by (metis prod_cases3)
  obtain q c3 s3 where sh: "GdShowCursor ops g psd c2 s2 = (q, c3, s3)" by (metis prod_cases3)
  have "c' = c3" using res False h sh unfolding GdMoveCursor_def Let_def by auto
  moreover have "cursor_fits ?c1" "within_arrays c ?c1"
    using fits by (simp_all add: cursor_fits_def within_arrays_def)
  ultimately show ?thesis
    using hide_within [OF h] show_within [OF _ sh] within_arrays_trans by blast
qed

lemma set_within:
  assumes "image_fits pc" and res: "GdSetCursor ops fc g psd pc c s = (c', s')"
  shows "within_arrays c c' \<and> cursor_fits c'"
proof -
  let ?n = "MWIMAGE_SIZE (mc_width pc) (mc_height pc)"
  obtain p c1 s1 where h: "GdHideCursor ops g psd c s = (p, c1, s1)" by (metis prod_cases3)
  let ?c2 = "c1\<lparr>curmaxx := curminx c1 + int (mc_width pc) - 1, curmaxy := curminy c1 + int (mc_height pc) - 1,
    curfg := fc psd (mc_fgcolor pc), curbg := fc psd (mc_bgcolor pc),
    cursorcolor := (\<lambda>i. if i < ?n then mc_image pc i else cursorcolor c1 i),
    cursormask := (\<lambda>i. if i < ?n then mc_mask pc i else cursormask c1 i)\<rparr>"
  obtain q c3 s3 where sh: "GdShowCursor ops g psd ?c2 s1 = (q, c3, s3)"
    by (cases "GdShowCursor ops g psd ?c2 s1") auto
  have "?n \<le> MWMAX_CURSOR_BUFLEN" by (rule image_size_le) (use assms(1) in \<open>simp_all add: image_fits_def\<close>)
  then have "within_arrays c1 ?c2" by (simp add: within_arrays_def)
  moreover have "cursor_fits ?c2" using assms(1) by (simp add: cursor_fits_def image_fits_def)
  moreover have "c' = c3" using res h sh by (simp add: GdSetCursor_def Let_def)
  ultimately show ?thesis
    using hide_within [OF h] show_within [OF _ sh] within_arrays_trans by blast
qed

lemma check_within:
  assumes "GdCheckCursor ops g psd x1 y1 x2 y2 c s = (c', s')"
  shows "within_arrays c c'" "cursor_fits c' = cursor_fits c"
proof -
  obtain p c1 s1 where h: "GdHideCursor ops g psd c s = (p, c1, s1)" by (metis prod_cases3)
  then have "c' = c \<or> c' = c1\<lparr>curneedsrestore := True\<rparr>"
    using assms by (auto simp: GdCheckCursor_def Let_def split: if_splits)
  then show "within_arrays c c'" "cursor_fits c' = cursor_fits c"
    using hide_record [OF h] by (auto simp: within_arrays_def cursor_fits_def)
qed

lemma fix_within:
  assumes "cursor_fits c" and "GdFixCursor ops g psd c s = (c', s')"
  shows "within_arrays c c' \<and> cursor_fits c'"
proof -
  obtain p c1 s1 where sh: "GdShowCursor ops g psd c s = (p, c1, s1)" by (metis prod_cases3)
  then have "c' = c \<or> c' = c1\<lparr>curneedsrestore := False\<rparr>"
    using assms by (auto simp: GdFixCursor_def Let_def split: if_splits)
  then show ?thesis
    using show_within [OF assms(1) sh] assms(1) by (auto simp: within_arrays_def cursor_fits_def)
qed

section \<open>Properties\<close>

definition sample_cursor :: cursor where
  "sample_cursor = \<lparr>curminx = 1, curminy = 1, curmaxx = 2, curmaxy = 2, curvisible = 0, curneedsrestore = False,
     cursavx = 0, cursavy = 0, cursavx2 = 0, cursavy2 = 0, curfg = 7, curbg = 9, cursavbits = (\<lambda>_. 0),
     cursormask = (\<lambda>_. 0xc000), cursorcolor = (\<lambda>_. 0x4000)\<rparr>"

lemma sample_plain: "plain_surface sample_psd sample_gr"
  by (simp add: plain_surface_def sample_psd_def sample_gr_def global_alpha_on_def)

lemma sample_fits: "cursor_fits sample_cursor"
  by (simp add: cursor_fits_def sample_cursor_def MWMAX_CURSOR_SIZE_def)

lemma sample_cursor_on: "cursor_on sample_psd (ScrGen32_ReadPixel sample_psd mem) sample_cursor mem"
  by (simp add: cursor_on_def cursor_ok_def sample_cursor_def)

text \<open>
  C11. While no global alpha is set (\<open>plain_surface\<close>, for both calls), for a cursor of at most 32 by 32
  pixels that one \<open>GdShowCursor\<close> makes visible (\<open>curvisible\<close> is 0 and no restore is pending):
  \<open>GdShowCursor\<close> puts exactly the cursor's image on the screen, below the
  mask the foreground or background colour that the image asks for, everywhere else the picture
  that was there; \<open>GdHideCursor\<close> after it restores every pixel of the screen; and nothing is written
  past the end of an array.
\<close>

theorem show_then_hide:
  assumes plain: "plain_surface psd g" and hidden: "curvisible c = 0" and "\<not> curneedsrestore c"
    and sh: "GdShowCursor (gen32_ops psd) g psd c mem = (p, c1, mem1)"
    and hi: "GdHideCursor (gen32_ops psd) g' psd c1 mem1 = (q, c2, mem2)" and plain': "plain_surface psd g'"
    and fits: "cursor_fits c"
  shows "curvisible c1 = 1 \<and> curvisible c2 = 0 \<and> within_arrays c c1 \<and> within_arrays c c2 \<and>
    (on_psd psd x y \<longrightarrow>
       ScrGen32_ReadPixel psd mem1 x y = cursor_picture c (ScrGen32_ReadPixel psd mem) x y \<and>
       ScrGen32_ReadPixel psd mem2 x y = ScrGen32_ReadPixel psd mem x y)"
proof -
  note same = plain_surface_same [OF plain] and same' = plain_surface_same [OF plain']
  let ?b = "ScrGen32_ReadPixel psd mem"
  have "gen32_cursor.cursor_inv psd ?b c mem"
    using hidden assms(3) gen32_cursor.cursor_ok_inv [where psd = psd and s = mem and b = ?b and c = c]
    by (simp add: same cursor_ok_def)
  then have "cursor_on psd ?b c1 mem1"
    using gen32_cursor.show_ok [where psd = psd and g = g and b = ?b, of c mem p c1 mem1] hidden assms(3) sh
    by (simp add: same cursor_on_def)
  moreover from this have "cursor_on psd ?b c2 mem2"
    using gen32_cursor.hide_ok(1) [where psd = psd and g = g' and b = ?b, of mem1 c1 q c2 mem2] hi
    by (simp add: same same' cursor_on_def)
  moreover have "cursor_picture c1 = cursor_picture c" by (intro cursor_picture_fields show_fields [OF sh])
  moreover have "curvisible c1 = 1" using show_fields [OF sh] hidden by simp
  moreover from this have "curvisible c2 = 0"
    using hi by (auto simp: GdHideCursor_def Let_def)
  moreover have "within_arrays c c1" "within_arrays c c2"
    using show_within(1) [OF fits sh] hide_within(1) [OF hi] within_arrays_trans by blast+
  ultimately show ?thesis by (simp add: cursor_on_def cursor_ok_def)
qed

theorem show_then_hide_witness:
  "(let (p, c1, mem1) = GdShowCursor (gen32_ops sample_psd) sample_gr sample_psd sample_cursor (\<lambda>a. word_of_int a);
        (q, c2, mem2) = GdHideCursor (gen32_ops sample_psd) sample_gr sample_psd c1 mem1
    in ScrGen32_ReadPixel sample_psd mem1 1 1 = 7 \<and> ScrGen32_ReadPixel sample_psd mem2 1 1 = 9)"
proof -
  obtain p c1 mem1 where sh: "GdShowCursor (gen32_ops sample_psd) sample_gr sample_psd sample_cursor
      (\<lambda>a. word_of_int a) = (p, c1, mem1)"
    by (cases "GdShowCursor (gen32_ops sample_psd) sample_gr sample_psd sample_cursor (\<lambda>a. word_of_int a)") auto
  obtain q c2 mem2 where hi: "GdHideCursor (gen32_ops sample_psd) sample_gr sample_psd c1 mem1 = (q, c2, mem2)"
    by (cases "GdHideCursor (gen32_ops sample_psd) sample_gr sample_psd c1 mem1") auto
  have "cursor_picture sample_cursor b 1 1 = 7" for b
    by code_simp
  moreover have "ScrGen32_ReadPixel sample_psd (\<lambda>a. word_of_int a) 1 1 = 9" "on_psd sample_psd 1 1" by code_simp+
  moreover have "curvisible sample_cursor = 0" "\<not> curneedsrestore sample_cursor" by (simp_all add: sample_cursor_def)
  ultimately show ?thesis
    using show_then_hide [OF sample_plain _ _ sh hi sample_plain sample_fits, of 1 1]
    by (simp add: sh hi)
qed

text \<open>
  C10. While no global alpha is set (\<open>plain_surface\<close>) and for cursors and images of at most 32 by 32 pixels
  the cursor's contract is an invariant of its operations: moving the cursor and changing its
  image, at any time, leave the screen as the same picture with the cursor (after a move at the requested
  position) on top of it if it is visible, and the saved pixels as those of the picture.  They write
  nothing past the end of an array, and the new cursor again has at most 32 by 32 pixels.
\<close>

theorem move_and_set_keep_picture:
  assumes plain: "plain_surface psd g" and ok: "cursor_on psd b c mem"
    and fits: "cursor_fits c" and image: "image_fits pc"
  shows "(let (c', mem') = GdMoveCursor (gen32_ops psd) g psd x y c mem
          in cursor_on psd b c' mem' \<and> curminx c' = x \<and> curminy c' = y \<and> curvisible c' = curvisible c \<and>
             cursor_fits c' \<and> within_arrays c c')
       \<and> (let (c', mem') = GdSetCursor (gen32_ops psd) fc g psd pc c mem
          in cursor_on psd b c' mem' \<and> curvisible c' = curvisible c \<and> cursor_fits c' \<and> within_arrays c c')"
proof -
  note same = plain_surface_same [OF plain]
  obtain c1 mem1 where m: "GdMoveCursor (gen32_ops psd) g psd x y c mem = (c1, mem1)" by fastforce
  obtain c2 mem2 where st: "GdSetCursor (gen32_ops psd) fc g psd pc c mem = (c2, mem2)" by fastforce
  show ?thesis
    using gen32_cursor.move_ok [where psd = psd and g = g and b = b, of mem c x y c1 mem1]
      gen32_cursor.set_ok [where psd = psd and g = g and b = b, of mem c fc pc c2 mem2] ok m st
      move_within [OF fits m] set_within [OF image st]
    by (simp add: same cursor_on_def)
qed

theorem move_and_set_keep_picture_witness:
  "(let (c', mem') = GdMoveCursor (gen32_ops sample_psd) sample_gr sample_psd 3 0 sample_cursor (\<lambda>_. 0)
    in cursor_on sample_psd (ScrGen32_ReadPixel sample_psd (\<lambda>_. 0)) c' mem')"
  using move_and_set_keep_picture [OF sample_plain sample_cursor_on [of "\<lambda>_. 0"] sample_fits,
      of "\<lparr>mc_width = 1, mc_height = 1, mc_fgcolor = 0, mc_bgcolor = 0, mc_image = \<lambda>_. 0, mc_mask = \<lambda>_. 0\<rparr>"
      3 0 "\<lambda>_ c. c"]
  by (auto simp: image_fits_def MWMAX_CURSOR_SIZE_def split: prod.splits)

text \<open>A cursor that \<open>GdCheckCursor\<close> has hidden is shown again by \<open>GdFixCursor\<close>.\<close>

lemma check_fix_visible:
  assumes scr: "flags psd AND PSF_SCREEN \<noteq> 0" and le: "curvisible c + (if curneedsrestore c then 1 else 0) \<le> 1"
    and chk: "GdCheckCursor ops g psd x1 y1 x2 y2 c s = (c1, s1)" and fixed: "GdFixCursor ops g psd c1 s2 = (c3, s3)"
  shows "curvisible c3 = curvisible c + (if curneedsrestore c then 1 else 0) \<and> \<not> curneedsrestore c3"
proof -
  obtain p c0 s0 where h: "GdHideCursor ops g psd c s = (p, c0, s0)" by (metis prod_cases3)
  have "c1 = c \<or> 0 < curvisible c \<and> c1 = c0\<lparr>curneedsrestore := True\<rparr>"
    using chk h by (auto simp: GdCheckCursor_def Let_def split: if_splits)
  moreover obtain q c2 s2' where sh: "GdShowCursor ops g psd c1 s2 = (q, c2, s2')" by (metis prod_cases3)
  then have "c3 = (if curneedsrestore c1 then c2\<lparr>curneedsrestore := False\<rparr> else c1)"
    using fixed scr by (auto simp: GdFixCursor_def)
  ultimately show ?thesis
    using hide_record [OF h] show_fields(1) [OF sh] le by (auto split: if_splits)
qed

text \<open>
  C9. The drawing protocol of the engine is safe on the screen while no global alpha is set
  (\<open>plain_surface\<close>) and for a cursor of at most 32 by 32 pixels: if a drawing routine first calls \<open>GdCheckCursor\<close>
  for a rectangle, then writes pixels of that rectangle only, and then calls \<open>GdFixCursor\<close>, then
  the result is the cursor over the picture with the drawing in it - whether or not the rectangle
  meets the cursor; the cursor is as visible as before (or shown, if a restore was pending); and
  nothing is written past the end of an array.
\<close>

theorem check_draw_fix:
  assumes plain: "plain_surface psd g" and ok: "cursor_on psd b c mem" and scr: "flags psd AND PSF_SCREEN \<noteq> 0"
    and chk: "GdCheckCursor (gen32_ops psd) g psd x1 y1 x2 y2 c mem = (c1, mem1)"
    and frame: "\<And>x y. on_psd psd x y \<Longrightarrow> \<not> (x1 \<le> x \<and> x \<le> x2 \<and> y1 \<le> y \<and> y \<le> y2) \<Longrightarrow>
      ScrGen32_ReadPixel psd mem2 x y = ScrGen32_ReadPixel psd mem1 x y"
    and fixed: "GdFixCursor (gen32_ops psd) g psd c1 mem2 = (c3, mem3)"
    and fits: "cursor_fits c"
  shows "cursor_on psd (\<lambda>x y. if x1 \<le> x \<and> x \<le> x2 \<and> y1 \<le> y \<and> y \<le> y2
      then ScrGen32_ReadPixel psd mem2 x y else b x y) c3 mem3 \<and>
    curvisible c3 = curvisible c + (if curneedsrestore c then 1 else 0) \<and> \<not> curneedsrestore c3 \<and>
    cursor_fits c3 \<and> within_arrays c c3"
proof -
  note same = plain_surface_same [OF plain]
  let ?R = "\<lambda>x y. x1 \<le> x \<and> x \<le> x2 \<and> y1 \<le> y \<and> y \<le> y2"
  have "cursor_ok (on_psd psd) (ScrGen32_ReadPixel psd mem2) (drawn_over ?R (ScrGen32_ReadPixel psd mem2) b) c1"
    using gen32_cursor.check_then_draw [where psd = psd and g = g and b = b, of mem c x1 y1 x2 y2 c1 mem1 ?R mem2]
      ok scr chk frame by (simp add: same cursor_on_def)
  moreover have "curvisible c3 = curvisible c + (if curneedsrestore c then 1 else 0) \<and> \<not> curneedsrestore c3"
    by (rule check_fix_visible [OF scr _ chk fixed]) (use ok in \<open>simp add: cursor_on_def cursor_ok_def\<close>)
  moreover have "cursor_fits c3 \<and> within_arrays c c3"
    using check_within [OF chk] fix_within [OF _ fixed] fits within_arrays_trans by blast
  ultimately show ?thesis
    using gen32_cursor.fix_ok [where psd = psd and g = g and s = mem2 and c = c1] fixed
    by (simp add: same cursor_on_def drawn_over_def [abs_def])
qed

theorem check_draw_fix_witness:
  "(let (c1, mem1) = GdCheckCursor (gen32_ops sample_psd) sample_gr sample_psd 0 0 1 1 sample_cursor (\<lambda>_. 0);
        mem2 = mem1(0 := 5);
        (c3, mem3) = GdFixCursor (gen32_ops sample_psd) sample_gr sample_psd c1 mem2
    in cursor_on sample_psd (\<lambda>x y. if 0 \<le> x \<and> x \<le> 1 \<and> 0 \<le> y \<and> y \<le> 1
        then ScrGen32_ReadPixel sample_psd mem2 x y else 0) c3 mem3)"
proof -
  let ?c = sample_cursor
  obtain c1 mem1 where chk: "GdCheckCursor (gen32_ops sample_psd) sample_gr sample_psd 0 0 1 1 ?c (\<lambda>_. 0) = (c1, mem1)"
    by fastforce
  obtain c3 mem3 where fx: "GdFixCursor (gen32_ops sample_psd) sample_gr sample_psd c1 (mem1(0 := 5)) = (c3, mem3)"
    by fastforce
  have b: "ScrGen32_ReadPixel sample_psd (\<lambda>_. 0) = (\<lambda>x y. 0)"
    by (intro ext) (simp add: ScrGen32_ReadPixel_def)
  have ok: "cursor_on sample_psd (\<lambda>x y. 0) ?c (\<lambda>_. 0)" using sample_cursor_on [of "\<lambda>_. 0"] by (simp only: b)
  have origin: "x = 0 \<and> y = 0" if "on_psd sample_psd x y" "pixel_addr sample_psd x y = 0" for x y
    using that by (simp add: on_psd_def sample_psd_def pixel_addr_def)
  have frame: "ScrGen32_ReadPixel sample_psd (mem1(0 := 5)) x y = ScrGen32_ReadPixel sample_psd mem1 x y"
    if "on_psd sample_psd x y" "\<not> (0 \<le> x \<and> x \<le> 1 \<and> 0 \<le> y \<and> y \<le> 1)" for x y
    using that origin [of x y] by (auto simp: ScrGen32_ReadPixel_def)
  have "flags sample_psd AND PSF_SCREEN \<noteq> 0" by (simp add: sample_psd_def)
  from check_draw_fix [OF sample_plain ok this chk frame fx sample_fits] show ?thesis by (simp add: chk fx)
qed

text \<open>
  Reading goes one word further: at the last pixel of a row whose width is a multiple of 16 the
  loop of \<open>GdShowCursor\<close> fetches the next word of the image and the mask, also after the last row.
  For a cursor of full size that is the word behind the end of both arrays; it is fetched and not used.
\<close>

theorem show_reads_past_end:
  "let psd = sample_psd\<lparr>xvirtres := 0\<rparr>;
       c = sample_cursor\<lparr>curminx := 0, curminy := 0, curmaxx := 31, curmaxy := 31\<rparr>;
       st = fold (show_row (gen32_ops psd) sample_gr psd c) [0..31]
         \<lparr>sh_screen = (\<lambda>_. 0), sh_saved = (\<lambda>_. 0), saveptr = 0, cursorptr = 0, curbit = 0, cbits = 0, mbits = 0\<rparr>
   in cursor_fits c \<and> cursorptr st = MWMAX_CURSOR_BUFLEN + 1"
  by code_simp

text \<open>
  The hypothesis on the global alpha is needed: \<open>GdShowCursor\<close> and \<open>GdHideCursor\<close> select copy
  mode but do not reset \<open>gr_alpha\<close>.  When the last graphics context had an alpha of 128, hiding
  the cursor does not restore the opaque white pixel that was there: it comes back with half its
  alpha.
\<close>

theorem hide_with_alpha_damages:
  "\<exists>g c mem. plain_surface sample_psd (g\<lparr>gr_alpha := 255\<rparr>) \<and>
    (let (p, c1, mem1) = GdShowCursor (gen32_ops sample_psd) g sample_psd c mem;
         (q, c2, mem2) = GdHideCursor (gen32_ops sample_psd) g sample_psd c1 mem1
     in ScrGen32_ReadPixel sample_psd mem 1 1 = 0xffffffff \<and> ScrGen32_ReadPixel sample_psd mem2 1 1 = 0x80ffffff)"
  by (rule exI [of _ "sample_gr\<lparr>gr_alpha := 128\<rparr>"], rule exI [of _ sample_cursor], rule exI [of _ "\<lambda>_. 0xffffffff"])
    code_simp

end
