(* ===== verification/Mse_Model.thy ===== *)
theory Mse_Model
  imports Cur_Props "HOL-Library.Signed_Division"
begin

unbundle bit_operations_syntax

text \<open>
  The mouse (\<open>engine/devmouse.c\<close>): position, buttons, the allowed rectangle and the filters that a
  driver's samples go through.

  \<^item> The driver \<open>mousedev\<close> is outside the engine: the result of a call of its \<open>Read\<close> is an argument,
    as are the return value of \<open>Open\<close> and the values of \<open>GetDefaultAccel\<close>.
  \<^item> \<open>int\<close> is an unbounded integer; division truncates (\<open>sdiv\<close>), \<open>>>\<close> rounds down.
\<close>

record MWTRANSFORM =
  tr_a :: int
  tr_b :: int
  tr_c :: int
  tr_d :: int
  tr_e :: int
  tr_f :: int
  tr_s :: int

record mouse =
  xpos :: MWCOORD
  ypos :: MWCOORD
  minx :: MWCOORD
  maxx :: MWCOORD
  miny :: MWCOORD
  maxy :: MWCOORD
  scale :: int
  thresh :: int
  buttons :: int
  changed :: bool
  mflags :: "32 word"
  g_trans :: MWTRANSFORM
  jitter_x :: int
  jitter_y :: int
  jitter_count :: int

abbreviation (input) MOUSE_RAW :: "32 word" where "MOUSE_RAW \<equiv> 0x0001"
abbreviation (input) MOUSE_TRANSFORM :: "32 word" where "MOUSE_TRANSFORM \<equiv> 0x0002"

abbreviation (input) MWPORTRAIT_NONE :: int where "MWPORTRAIT_NONE \<equiv> 0"
abbreviation (input) MWPORTRAIT_LEFT :: int where "MWPORTRAIT_LEFT \<equiv> 1"
abbreviation (input) MWPORTRAIT_RIGHT :: int where "MWPORTRAIT_RIGHT \<equiv> 2"
abbreviation (input) MWPORTRAIT_DOWN :: int where "MWPORTRAIT_DOWN \<equiv> 4"

definition MIN_MWCOORD :: MWCOORD where "MIN_MWCOORD = - 32768"
definition MAX_MWCOORD :: MWCOORD where "MAX_MWCOORD = 32767"

definition mouse_raw :: "mouse \<Rightarrow> bool" where
  "mouse_raw m \<longleftrightarrow> mflags m AND MOUSE_RAW \<noteq> 0"

section \<open>Moving\<close>

text \<open>The tests against the rectangle, once for each coordinate.\<close>

definition restrict_coord :: "MWCOORD \<Rightarrow> MWCOORD \<Rightarrow> MWCOORD \<Rightarrow> MWCOORD" where
  "restrict_coord lo hi v = (let v = (if v < lo then lo else v) in if v > hi then hi else v)"

definition GdMoveMouse :: "MWCOORD \<Rightarrow> MWCOORD \<Rightarrow> mouse \<Rightarrow> mouse" where
  "GdMoveMouse newx newy m =
    (let (newx, newy) =
       (if mflags m AND MOUSE_RAW = 0
        then (restrict_coord (minx m) (maxx m) newx, restrict_coord (miny m) (maxy m) newy)
        else (newx, newy))
     in if newx = xpos m \<and> newy = ypos m then m
        else m\<lparr>changed := True, xpos := newx, ypos := newy\<rparr>)"

definition GdRestrictMouse :: "MWCOORD \<Rightarrow> MWCOORD \<Rightarrow> MWCOORD \<Rightarrow> MWCOORD \<Rightarrow> mouse \<Rightarrow> mouse" where
  "GdRestrictMouse newminx newminy newmaxx newmaxy m =
    GdMoveMouse (xpos m) (ypos m)
      (m\<lparr>minx := newminx, miny := newminy, maxx := newmaxx, maxy := newmaxy\<rparr>)"

definition GdSetAccelMouse :: "int \<Rightarrow> int \<Rightarrow> mouse \<Rightarrow> mouse" where
  "GdSetAccelMouse newthresh newscale m =
    m\<lparr>thresh := (if newthresh < 0 then 0 else newthresh), scale := (if newscale < 0 then 0 else newscale)\<rparr>"

text \<open>\<open>None\<close> stands for the null pointer.\<close>

definition GdSetTransform :: "MWTRANSFORM option \<Rightarrow> mouse \<Rightarrow> mouse" where
  "GdSetTransform tr m =
    (if mflags m AND MOUSE_TRANSFORM = 0 then m
     else case tr of
       Some t \<Rightarrow> m\<lparr>g_trans := t, mflags := mflags m AND NOT MOUSE_RAW\<rparr>
     | None \<Rightarrow> m\<lparr>mflags := mflags m OR MOUSE_RAW\<rparr>)"

definition GdGetCursorPos :: "mouse \<Rightarrow> cursor \<Rightarrow> bool \<times> MWCOORD \<times> MWCOORD" where
  "GdGetCursorPos m c = (curvisible c > 0, xpos m, ypos m)"

section \<open>Filters\<close>

text \<open>\<open>accelerate\<close> is the code that \<open>filter_relative\<close> has once for each coordinate.\<close>

definition accelerate :: "int \<Rightarrow> int \<Rightarrow> int \<Rightarrow> int" where
  "accelerate th sc x =
    (let (sign, x) = (if x < 0 then (- 1, - x) else (1, x));
         x = (if x > th then th + (x - th) * sc else x)
     in x * sign)"

definition filter_relative :: "int \<Rightarrow> int \<Rightarrow> int \<Rightarrow> int \<times> int \<Rightarrow> int \<Rightarrow> int \<Rightarrow> int \<times> int" where
  "filter_relative state th sc pos x y =
    (if state \<noteq> 1 then pos else (accelerate th sc x, accelerate th sc y))"

definition filter_relrotate :: "SCREENDEVICE \<Rightarrow> int \<Rightarrow> int \<times> int \<Rightarrow> int \<Rightarrow> int \<Rightarrow> int \<times> int" where
  "filter_relrotate scrdev state pos x y =
    (let (xp, yp) = pos
     in if state = 3 then pos
        else if portrait scrdev = MWPORTRAIT_RIGHT then (xp + y, yp - x)
        else if portrait scrdev = MWPORTRAIT_LEFT then (xp - y, yp + x)
        else if portrait scrdev = MWPORTRAIT_DOWN then (xp + x, yp - y)
        else (xp + x, yp + y))"

definition filter_absrotate :: "SCREENDEVICE \<Rightarrow> int \<Rightarrow> int \<times> int \<Rightarrow> int \<times> int" where
  "filter_absrotate scrdev state pos =
    (let (x, y) = pos
     in if state = 3 then pos
        else if portrait scrdev = MWPORTRAIT_RIGHT then (y, xres scrdev - x - 1)
        else if portrait scrdev = MWPORTRAIT_LEFT then (yres scrdev - y - 1, x)
        else if portrait scrdev = MWPORTRAIT_DOWN then (x, yres scrdev - y - 1)
        else (x, y))"

definition JITTER_SHIFT_BITS :: nat where "JITTER_SHIFT_BITS = 2"
definition JITTER_DEPTH :: int where "JITTER_DEPTH = 2 ^ JITTER_SHIFT_BITS"

definition transform_point :: "MWTRANSFORM \<Rightarrow> int \<Rightarrow> int \<Rightarrow> int \<times> int" where
  "transform_point t jx jy =
    ((tr_a t * jx + tr_b t * jy + tr_c t) sdiv tr_s t,
     (tr_d t * jx + tr_e t * jy + tr_f t) sdiv tr_s t)"

definition jitter_reset :: "mouse \<Rightarrow> mouse" where
  "jitter_reset m = m\<lparr>jitter_count := 0, jitter_x := 0, jitter_y := 0\<rparr>"

text \<open>Returns the C function's value, the position and the new state.\<close>

definition filter_transform :: "int \<Rightarrow> int \<times> int \<Rightarrow> mouse \<Rightarrow> int \<times> (int \<times> int) \<times> mouse" where
  "filter_transform state pos m =
    (if state = 3 then (1, pos, jitter_reset m)
     else if state = 1 then (1, pos, m)
     else if jitter_count m = JITTER_DEPTH then
       (let jx = jitter_x m div 2 ^ JITTER_SHIFT_BITS; jy = jitter_y m div 2 ^ JITTER_SHIFT_BITS
        in if tr_s (g_trans m) \<noteq> 0 \<and> mflags m AND MOUSE_RAW = 0
           then (1, transform_point (g_trans m) jx jy, jitter_reset m)
           else (2, (jx, jy), jitter_reset m))
     else (0, pos, m\<lparr>jitter_x := jitter_x m + fst pos, jitter_y := jitter_y m + snd pos,
                     jitter_count := jitter_count m + 1\<rparr>))"

section \<open>Reading\<close>

text \<open>What the driver's \<open>Read\<close> returns: its status and the variables it sets.\<close>

record sample =
  sm_status :: int
  sm_x :: int
  sm_y :: int
  sm_buttons :: int

text \<open>
  The result is the returned value, \<open>*px\<close>, \<open>*py\<close>, \<open>*pb\<close> and the new state.  \<open>filtered\<close> is the part
  of the body that computes \<open>dx\<close> and \<open>dy\<close>; \<open>None\<close> is its \<open>return 0\<close>.  The accelerated movement \<open>r\<close>
  is computed and not used, as in the code.
\<close>

definition filtered :: "SCREENDEVICE \<Rightarrow> sample \<Rightarrow> mouse \<Rightarrow> (int \<times> int) option \<times> mouse" where
  "filtered scrdev sm m =
    (let status = sm_status sm
     in if status = 1 then
          let r = filter_relative status (thresh m) (scale m) (0, 0) (sm_x sm) (sm_y sm)
          in (Some (filter_relrotate scrdev status (xpos m, ypos m) (sm_x sm) (sm_y sm)), m)
        else
          let (v, pos, m1) =
            (if mflags m AND MOUSE_TRANSFORM \<noteq> 0 then filter_transform status (sm_x sm, sm_y sm) m
             else (1, (sm_x sm, sm_y sm), m))
          in if v = 0 then (None, m1)
             else (Some (if mflags m1 AND MOUSE_RAW = 0 then filter_absrotate scrdev status pos else pos), m1))"

definition GdReadMouse :: "SCREENDEVICE \<Rightarrow> sample \<Rightarrow> mouse \<Rightarrow> int \<times> (MWCOORD \<times> MWCOORD \<times> int) \<times> mouse" where
  "GdReadMouse scrdev sm m =
    (let out = (xpos m, ypos m, buttons m)
     in if changed m then (1, out, m\<lparr>changed := False\<rparr>)
        else if sm_status sm < 0 then (- 1, out, m)
        else if sm_status sm = 0 then (0, out, m)
        else case filtered scrdev sm m of
          (None, m1) \<Rightarrow> (0, out, m1)
        | (Some (dx, dy), m1) \<Rightarrow>
            let m2 = (if buttons m1 \<noteq> sm_buttons sm then m1\<lparr>changed := True, buttons := sm_buttons sm\<rparr> else m1);
                m3 = (if sm_status sm \<noteq> 3 then GdMoveMouse dx dy m2 else m2)
            in if \<not> changed m3 then (0, out, m3)
               else (1, (xpos m3, ypos m3, buttons m3), m3\<lparr>changed := False\<rparr>))"

section \<open>Opening\<close>

text \<open>
  \<open>fd\<close> is what \<open>mousedev.Open\<close> returns, \<open>sc\<close> and \<open>th\<close> what \<open>GetDefaultAccel\<close> stores.
\<close>

definition GdOpenMouse ::
  "'s screen_ops \<Rightarrow> gr_state \<Rightarrow> SCREENDEVICE \<Rightarrow> int \<Rightarrow> int \<Rightarrow> int \<Rightarrow> mouse \<Rightarrow> cursor \<Rightarrow> 's \<Rightarrow>
   int \<times> mouse \<times> cursor \<times> 's" where
  "GdOpenMouse ops g scrdev fd sc th m c s =
    (let m1 = m\<lparr>buttons := 0, xpos := 0, ypos := 0, minx := MIN_MWCOORD, miny := MIN_MWCOORD,
                maxx := MAX_MWCOORD, maxy := MAX_MWCOORD, changed := True\<rparr>;
         c1 = c\<lparr>curvisible := 0, curneedsrestore := False, curminx := minx m1, curminy := miny m1,
                curmaxx := minx m1 + int MWMAX_CURSOR_SIZE - 1, curmaxy := miny m1 + int MWMAX_CURSOR_SIZE - 1\<rparr>
     in if fd = - 1 then (- 1, m1, c1, s)
        else
          let m2 = m1\<lparr>scale := sc, thresh := th, mflags := mflags m1 AND NOT MOUSE_RAW\<rparr>
          in if fd = - 2 then (let (p, c2, s2) = GdHideCursor ops g scrdev c1 s in (fd, m2, c2, s2))
             else (fd, m2, c1, s))"

end
