(* ===== verification/Mse_Props.thy ===== *)
theory Mse_Props
  imports Mse_Model
begin

unbundle bit_operations_syntax

text \<open>
  The properties of the mouse: what \<open>GdReadMouse\<close> makes of the driver's samples, the allowed rectangle, and
  what the filters compute.
\<close>

section \<open>Lemmas\<close>

definition in_box :: "mouse \<Rightarrow> bool" where
  "in_box m \<longleftrightarrow> minx m \<le> xpos m \<and> xpos m \<le> maxx m \<and> miny m \<le> ypos m \<and> ypos m \<le> maxy m"

definition box_ok :: "mouse \<Rightarrow> bool" where
  "box_ok m \<longleftrightarrow> minx m \<le> maxx m \<and> miny m \<le> maxy m"

lemma move_fields [simp]:
  "minx (GdMoveMouse x y m) = minx m" "maxx (GdMoveMouse x y m) = maxx m"
  "miny (GdMoveMouse x y m) = miny m" "maxy (GdMoveMouse x y m) = maxy m"
  "mflags (GdMoveMouse x y m) = mflags m" "buttons (GdMoveMouse x y m) = buttons m"
  by (simp_all add: GdMoveMouse_def Let_def split: prod.split)

lemma move_in_box: "box_ok m \<Longrightarrow> mflags m AND MOUSE_RAW = 0 \<Longrightarrow> in_box (GdMoveMouse x y m)"
  by (auto simp: GdMoveMouse_def restrict_coord_def Let_def in_box_def box_ok_def)

lemma move_changed:
  "changed (GdMoveMouse x y m) \<longleftrightarrow>
     changed m \<or> xpos (GdMoveMouse x y m) \<noteq> xpos m \<or> ypos (GdMoveMouse x y m) \<noteq> ypos m"
  by (auto simp: GdMoveMouse_def Let_def)

text \<open>Only the jitter counters change before the new position is used.\<close>

lemma filtered_fields:
  assumes "filtered scrdev sm m = (p, m1)"
  shows "xpos m1 = xpos m" "ypos m1 = ypos m" "buttons m1 = buttons m" "changed m1 = changed m"
    "mflags m1 = mflags m" "minx m1 = minx m" "maxx m1 = maxx m" "miny m1 = miny m" "maxy m1 = maxy m"
  using assms
  by (auto simp: filtered_def filter_transform_def jitter_reset_def Let_def split: if_splits prod.splits)

lemma read_cases:
  obtains (pending) "changed m" "GdReadMouse scrdev sm m = (1, (xpos m, ypos m, buttons m), m\<lparr>changed := False\<rparr>)"
  | (unchanged) r m1 where "\<not> changed m" "r \<le> 0"
      "GdReadMouse scrdev sm m = (r, (xpos m, ypos m, buttons m), m1)"
      "xpos m1 = xpos m" "ypos m1 = ypos m" "buttons m1 = buttons m" "\<not> changed m1"
      "mflags m1 = mflags m" "minx m1 = minx m" "maxx m1 = maxx m" "miny m1 = miny m" "maxy m1 = maxy m"
  | (moved) m2 m3 where "\<not> changed m" "m3 = m2 \<or> (\<exists>dx dy. m3 = GdMoveMouse dx dy m2)"
      "GdReadMouse scrdev sm m = (1, (xpos m3, ypos m3, buttons m3), m3\<lparr>changed := False\<rparr>)"
      "changed m3" "xpos m2 = xpos m" "ypos m2 = ypos m" "buttons m2 = buttons m3"
      "changed m2 \<longleftrightarrow> buttons m2 \<noteq> buttons m"
      "mflags m2 = mflags m" "minx m2 = minx m" "maxx m2 = maxx m" "miny m2 = miny m" "maxy m2 = maxy m"
proof (cases "changed m \<or> sm_status sm \<le> 0")
  case True
  show ?thesis
  proof (cases "changed m")
    case ch: True
    then show ?thesis using pending by (simp add: GdReadMouse_def)
  next
    case False
    then show ?thesis
      using True unchanged [of "if sm_status sm < 0 then - 1 else 0" m] by (simp add: GdReadMouse_def)
  qed
next
  case F: False
  obtain p m1 where f: "filtered scrdev sm m = (p, m1)" by fastforce
  note ff = filtered_fields [OF f]
  show ?thesis
  proof (cases p)
    case None
    then show ?thesis using F f ff unchanged [of 0 m1] by (simp add: GdReadMouse_def Let_def)
  next
    case (Some d)
    obtain dx dy where d: "d = (dx, dy)" by (cases d)
    define m2 where "m2 = (if buttons m1 \<noteq> sm_buttons sm then m1\<lparr>changed := True, buttons := sm_buttons sm\<rparr> else m1)"
    define m3 where "m3 = (if sm_status sm \<noteq> 3 then GdMoveMouse dx dy m2 else m2)"
    have res: "GdReadMouse scrdev sm m =
        (if \<not> changed m3 then (0, (xpos m, ypos m, buttons m), m3)
         else (1, (xpos m3, ypos m3, buttons m3), m3\<lparr>changed := False\<rparr>))"
      using F by (simp add: GdReadMouse_def f Some d m2_def m3_def Let_def)
    have m2: "xpos m2 = xpos m" "ypos m2 = ypos m" "changed m2 \<longleftrightarrow> buttons m2 \<noteq> buttons m"
      "mflags m2 = mflags m" "minx m2 = minx m" "maxx m2 = maxx m" "miny m2 = miny m" "maxy m2 = maxy m"
      using F by (auto simp: m2_def ff)
    have m3: "m3 = m2 \<or> (\<exists>dx dy. m3 = GdMoveMouse dx dy m2)" by (auto simp: m3_def)
    then have b: "buttons m2 = buttons m3" "mflags m3 = mflags m2" "minx m3 = minx m2" "maxx m3 = maxx m2"
      "miny m3 = miny m2" "maxy m3 = maxy m2" by auto
    show ?thesis
    proof (cases "changed m3")
      case True
      then show ?thesis using moved [of m3 m2] F m2 m3 res b by simp
    next
      case False
      then have "xpos m3 = xpos m2" "ypos m3 = ypos m2" "\<not> changed m2" using m3 move_changed by auto
      then show ?thesis using unchanged [of 0 m3] False F m2 res b by simp
    qed
  qed
qed

text \<open>Setting the acceleration commutes with every step of reading.\<close>

lemma accel_fields [simp]:
  "mflags (GdSetAccelMouse th sc m) = mflags m" "xpos (GdSetAccelMouse th sc m) = xpos m"
  "ypos (GdSetAccelMouse th sc m) = ypos m" "buttons (GdSetAccelMouse th sc m) = buttons m"
  "changed (GdSetAccelMouse th sc m) = changed m" "minx (GdSetAccelMouse th sc m) = minx m"
  "maxx (GdSetAccelMouse th sc m) = maxx m" "miny (GdSetAccelMouse th sc m) = miny m"
  "maxy (GdSetAccelMouse th sc m) = maxy m"
  by (simp_all add: GdSetAccelMouse_def)

lemma accel_update:
  "(GdSetAccelMouse th sc m)\<lparr>changed := b\<rparr> = GdSetAccelMouse th sc (m\<lparr>changed := b\<rparr>)"
  "(GdSetAccelMouse th sc m)\<lparr>buttons := n\<rparr> = GdSetAccelMouse th sc (m\<lparr>buttons := n\<rparr>)"
  "(GdSetAccelMouse th sc m)\<lparr>xpos := x\<rparr> = GdSetAccelMouse th sc (m\<lparr>xpos := x\<rparr>)"
  "(GdSetAccelMouse th sc m)\<lparr>ypos := x\<rparr> = GdSetAccelMouse th sc (m\<lparr>ypos := x\<rparr>)"
  by (simp_all add: GdSetAccelMouse_def)

lemma accel_move: "GdMoveMouse x y (GdSetAccelMouse th sc m) = GdSetAccelMouse th sc (GdMoveMouse x y m)"
  by (simp add: GdMoveMouse_def accel_update)

lemma accel_transform:
  "filter_transform st p (GdSetAccelMouse th sc m) =
    (case filter_transform st p m of (v, q, m') \<Rightarrow> (v, q, GdSetAccelMouse th sc m'))"
  by (simp add: filter_transform_def GdSetAccelMouse_def jitter_reset_def Let_def)

lemma accel_filtered:
  "filtered scrdev sm (GdSetAccelMouse th sc m) =
    (case filtered scrdev sm m of (p, m') \<Rightarrow> (p, GdSetAccelMouse th sc m'))"
  by (simp add: filtered_def accel_transform Let_def split: prod.split)

lemma accel_read:
  "GdReadMouse scrdev sm (GdSetAccelMouse th sc m) =
    (case GdReadMouse scrdev sm m of (r, out, m') \<Rightarrow> (r, out, GdSetAccelMouse th sc m'))"
proof (cases "changed m \<or> sm_status sm \<le> 0")
  case True
  then show ?thesis by (auto simp: GdReadMouse_def accel_update Let_def)
next
  case False
  obtain p m1 where f: "filtered scrdev sm m = (p, m1)" by fastforce
  show ?thesis
  proof (cases p)
    case None
    then show ?thesis using False by (simp add: GdReadMouse_def accel_filtered f)
  next
    case (Some d)
    then show ?thesis using False
      by (simp add: GdReadMouse_def accel_filtered f accel_update accel_move Let_def split: prod.split)
  qed
qed

section \<open>Properties\<close>

definition sample_mouse :: mouse where
  "sample_mouse = \<lparr>xpos = 3, ypos = 2, minx = 0, maxx = 7, miny = 0, maxy = 3, scale = 3, thresh = 5, buttons = 0,
     changed = False, mflags = MOUSE_TRANSFORM,
     g_trans = \<lparr>tr_a = 1, tr_b = 0, tr_c = 0, tr_d = 0, tr_e = 1, tr_f = 0, tr_s = 1\<rparr>,
     jitter_x = 0, jitter_y = 0, jitter_count = 0\<rparr>"

text \<open>What a client sees: a movement turned with the screen, and a position kept in the allowed rectangle.\<close>

definition turned :: "SCREENDEVICE \<Rightarrow> int \<Rightarrow> int \<Rightarrow> int \<times> int" where
  "turned scrdev dx dy =
    (if portrait scrdev = MWPORTRAIT_RIGHT then (dy, - dx)
     else if portrait scrdev = MWPORTRAIT_LEFT then (- dy, dx)
     else if portrait scrdev = MWPORTRAIT_DOWN then (dx, - dy)
     else (dx, dy))"

definition clamped :: "mouse \<Rightarrow> int \<times> int \<Rightarrow> int \<times> int" where
  "clamped m p = (min (maxx m) (max (minx m) (fst p)), min (maxy m) (max (miny m) (snd p)))"

text \<open>The state after reading samples one after the other, and the unclamped path of relative ones.\<close>

definition reads :: "SCREENDEVICE \<Rightarrow> sample list \<Rightarrow> mouse \<Rightarrow> mouse" where
  "reads scrdev sms m = fold (\<lambda>sm m. snd (snd (GdReadMouse scrdev sm m))) sms m"

definition path_end :: "SCREENDEVICE \<Rightarrow> mouse \<Rightarrow> sample list \<Rightarrow> int \<times> int" where
  "path_end scrdev m sms =
    (xpos m + (\<Sum>s\<leftarrow>sms. fst (turned scrdev (sm_x s) (sm_y s))),
     ypos m + (\<Sum>s\<leftarrow>sms. snd (turned scrdev (sm_x s) (sm_y s))))"

lemma move_position:
  "mflags m AND MOUSE_RAW = 0 \<Longrightarrow>
    xpos (GdMoveMouse x y m) = fst (clamped m (x, y)) \<and> ypos (GdMoveMouse x y m) = snd (clamped m (x, y))"
  by (auto simp: GdMoveMouse_def restrict_coord_def clamped_def Let_def min_def max_def)

lemma clamped_fields:
  "minx m1 = minx m \<Longrightarrow> maxx m1 = maxx m \<Longrightarrow> miny m1 = miny m \<Longrightarrow> maxy m1 = maxy m \<Longrightarrow> clamped m1 = clamped m"
  by (intro ext) (simp add: clamped_def)

text \<open>A sample that the filters let through: the position it asks for, clamped, and its buttons.\<close>

lemma read_accepted:
  assumes quiet: "\<not> changed m" and cal: "\<not> mouse_raw m" and st: "0 < sm_status sm"
    and flt: "filtered scrdev sm m = (Some p, m1)"
  shows "\<exists>r m'. GdReadMouse scrdev sm m =
      (r, (xpos m', ypos m', sm_buttons sm), m') \<and> \<not> changed m' \<and> buttons m' = sm_buttons sm \<and>
      (xpos m', ypos m') = (if sm_status sm = 3 then (xpos m, ypos m) else clamped m p) \<and>
      r = (if (xpos m', ypos m', sm_buttons sm) \<noteq> (xpos m, ypos m, buttons m) then 1 else 0) \<and>
      mflags m' = mflags m \<and> minx m' = minx m \<and> maxx m' = maxx m \<and> miny m' = miny m \<and> maxy m' = maxy m"
proof -
  obtain dx dy where p: "p = (dx, dy)" by (cases p)
  note f = filtered_fields [OF flt]
  define m2 where "m2 = (if buttons m1 \<noteq> sm_buttons sm then m1\<lparr>changed := True, buttons := sm_buttons sm\<rparr> else m1)"
  define m3 where "m3 = (if sm_status sm \<noteq> 3 then GdMoveMouse dx dy m2 else m2)"
  have res: "GdReadMouse scrdev sm m =
      (if \<not> changed m3 then (0, (xpos m, ypos m, buttons m), m3)
       else (1, (xpos m3, ypos m3, buttons m3), m3\<lparr>changed := False\<rparr>))"
    using st quiet by (simp add: GdReadMouse_def flt p m2_def m3_def Let_def)
  have m2: "xpos m2 = xpos m" "ypos m2 = ypos m" "buttons m2 = sm_buttons sm"
    "changed m2 \<longleftrightarrow> buttons m \<noteq> sm_buttons sm" "mflags m2 = mflags m"
    "minx m2 = minx m" "maxx m2 = maxx m" "miny m2 = miny m" "maxy m2 = maxy m"
    using quiet by (auto simp: m2_def f)
  have raw: "mflags m2 AND MOUSE_RAW = 0" using cal m2(5) by (simp add: mouse_raw_def)
  have pos: "(xpos m3, ypos m3) = (if sm_status sm = 3 then (xpos m, ypos m) else clamped m p)"
    using move_position [OF raw, of dx dy] clamped_fields [of m2 m] m2 by (simp add: m3_def p)
  have ch: "changed m3 \<longleftrightarrow> (xpos m3, ypos m3, sm_buttons sm) \<noteq> (xpos m, ypos m, buttons m)"
    using m2 move_changed [of dx dy m2] by (auto simp: m3_def)
  have fields: "buttons m3 = sm_buttons sm" "mflags m3 = mflags m" "minx m3 = minx m" "maxx m3 = maxx m"
    "miny m3 = miny m" "maxy m3 = maxy m" using m2 by (simp_all add: m3_def)
  show ?thesis
  proof (cases "changed m3")
    case True
    then show ?thesis using res pos ch fields
      by (intro exI [of _ 1] exI [of _ "m3\<lparr>changed := False\<rparr>"]) simp
  next
    case False
    then have "(xpos m, ypos m, buttons m) = (xpos m3, ypos m3, sm_buttons sm)" using ch by simp
    then show ?thesis using res pos False fields by (intro exI [of _ 0] exI [of _ m3]) simp
  qed
qed

lemma filtered_relative:
  "sm_status sm = 1 \<Longrightarrow> filtered scrdev sm m =
    (Some (xpos m + fst (turned scrdev (sm_x sm) (sm_y sm)), ypos m + snd (turned scrdev (sm_x sm) (sm_y sm))), m)"
  by (simp add: filtered_def filter_relrotate_def turned_def Let_def)

lemma read_single:
  assumes quiet: "\<not> changed m" and cal: "\<not> mouse_raw m"
  shows "case GdReadMouse scrdev sm m of (r, out, m') \<Rightarrow>
      \<not> changed m' \<and> out = (xpos m', ypos m', buttons m') \<and>
      (r = 1 \<longleftrightarrow> out \<noteq> (xpos m, ypos m, buttons m)) \<and> r \<in> {- 1, 0, 1} \<and>
      (sm_status sm \<le> 0 \<longrightarrow> m' = m \<and> (r = - 1 \<longleftrightarrow> sm_status sm < 0)) \<and>
      (sm_status sm = 1 \<longrightarrow> buttons m' = sm_buttons sm \<and>
        (xpos m', ypos m') = clamped m (xpos m + fst (turned scrdev (sm_x sm) (sm_y sm)),
                                        ypos m + snd (turned scrdev (sm_x sm) (sm_y sm)))) \<and>
      (sm_status sm = 2 \<and> mflags m AND MOUSE_TRANSFORM = 0 \<longrightarrow> buttons m' = sm_buttons sm \<and>
        (xpos m', ypos m') = clamped m (filter_absrotate scrdev 2 (sm_x sm, sm_y sm))) \<and>
      (sm_status sm = 3 \<longrightarrow> buttons m' = sm_buttons sm \<and> (xpos m', ypos m') = (xpos m, ypos m))"
proof (cases "0 < sm_status sm")
  case False
  then have "GdReadMouse scrdev sm m = (if sm_status sm < 0 then - 1 else 0, (xpos m, ypos m, buttons m), m)"
    using quiet by (simp add: GdReadMouse_def)
  then show ?thesis using quiet False by auto
next
  case True
  obtain p m1 where f: "filtered scrdev sm m = (p, m1)" by fastforce
  note ff = filtered_fields [OF f]
  show ?thesis
  proof (cases p)
    case None
    then have "sm_status sm \<noteq> 1" "sm_status sm \<noteq> 3" "mflags m AND MOUSE_TRANSFORM \<noteq> 0"
      using f by (auto simp: filtered_def filter_transform_def Let_def split: if_splits)
    then show ?thesis using True quiet f None ff by (simp add: GdReadMouse_def)
  next
    case (Some q)
    have pos: "sm_status sm = 1 \<Longrightarrow> q = (xpos m + fst (turned scrdev (sm_x sm) (sm_y sm)),
        ypos m + snd (turned scrdev (sm_x sm) (sm_y sm)))"
      "sm_status sm = 2 \<Longrightarrow> mflags m AND MOUSE_TRANSFORM = 0 \<Longrightarrow> q = filter_absrotate scrdev 2 (sm_x sm, sm_y sm)"
      using f Some cal filtered_relative [of sm scrdev m] by (auto simp: filtered_def mouse_raw_def Let_def)
    then show ?thesis using read_accepted [OF quiet cal True f [unfolded Some]] True
      by (auto split: if_splits)
  qed
qed

text \<open>Five absolute samples of a transformed mouse: four fill the jitter filter, the fifth is accepted.\<close>

lemma read_fills_filter:
  assumes "\<not> changed m" "sm_status sm = 2" "mflags m AND MOUSE_TRANSFORM \<noteq> 0" "jitter_count m < 4"
  shows "GdReadMouse scrdev sm m = (0, (xpos m, ypos m, buttons m),
    m\<lparr>jitter_x := jitter_x m + sm_x sm, jitter_y := jitter_y m + sm_y sm, jitter_count := jitter_count m + 1\<rparr>)"
  using assms by (simp add: GdReadMouse_def filtered_def filter_transform_def JITTER_DEPTH_def JITTER_SHIFT_BITS_def Let_def)

lemma filtered_calibrated:
  assumes "sm_status sm = 2" "mflags m AND MOUSE_TRANSFORM \<noteq> 0" "jitter_count m = 4" "mflags m AND MOUSE_RAW = 0"
    "tr_s (g_trans m) \<noteq> 0"
  shows "filtered scrdev sm m =
    (Some (filter_absrotate scrdev 2 (transform_point (g_trans m) (jitter_x m div 4) (jitter_y m div 4))), jitter_reset m)"
  using assms
  by (simp add: filtered_def filter_transform_def JITTER_DEPTH_def JITTER_SHIFT_BITS_def jitter_reset_def Let_def)

lemma read_calibrated:
  assumes m: "\<not> changed m" "\<not> mouse_raw m" "mflags m AND MOUSE_TRANSFORM \<noteq> 0" "tr_s (g_trans m) \<noteq> 0"
    and j: "jitter_count m = 0" "jitter_x m = 0" "jitter_y m = 0"
    and st: "\<forall>s\<in>set [s1, s2, s3, s4, s5]. sm_status s = 2"
  shows "let m4 = reads scrdev [s1, s2, s3, s4] m; m5 = reads scrdev [s5] m4 in
      (xpos m4, ypos m4, buttons m4) = (xpos m, ypos m, buttons m) \<and>
      (xpos m5, ypos m5) = clamped m (filter_absrotate scrdev 2 (transform_point (g_trans m)
        ((sm_x s1 + sm_x s2 + sm_x s3 + sm_x s4) div 4) ((sm_y s1 + sm_y s2 + sm_y s3 + sm_y s4) div 4))) \<and>
      buttons m5 = sm_buttons s5"
proof -
  define m4 where "m4 = m\<lparr>jitter_x := sm_x s1 + sm_x s2 + sm_x s3 + sm_x s4,
    jitter_y := sm_y s1 + sm_y s2 + sm_y s3 + sm_y s4, jitter_count := 4\<rparr>"
  have four: "reads scrdev [s1, s2, s3, s4] m = m4"
    using m(1,3) j st by (simp add: reads_def read_fills_filter m4_def)
  have m4: "\<not> changed m4" "\<not> mouse_raw m4" "0 < sm_status s5" "sm_status s5 = 2" "clamped m4 = clamped m"
    "(xpos m4, ypos m4, buttons m4) = (xpos m, ypos m, buttons m)"
    "mflags m4 AND MOUSE_RAW = 0" "tr_s (g_trans m4) \<noteq> 0" "mflags m4 AND MOUSE_TRANSFORM \<noteq> 0"
    using m st clamped_fields [of m4 m] by (simp_all add: m4_def mouse_raw_def)
  have m4_fields: "jitter_x m4 = sm_x s1 + sm_x s2 + sm_x s3 + sm_x s4"
    "jitter_y m4 = sm_y s1 + sm_y s2 + sm_y s3 + sm_y s4" "jitter_count m4 = 4" "g_trans m4 = g_trans m"
    by (simp_all add: m4_def)
  have flt: "filtered scrdev s5 m4 = (Some (filter_absrotate scrdev 2 (transform_point (g_trans m)
      ((sm_x s1 + sm_x s2 + sm_x s3 + sm_x s4) div 4) ((sm_y s1 + sm_y s2 + sm_y s3 + sm_y s4) div 4))), jitter_reset m4)"
    using filtered_calibrated [OF m4(4,9) m4_fields(3) m4(7,8), of scrdev] unfolding m4_fields .
  obtain r m5 where rd: "GdReadMouse scrdev s5 m4 = (r, (xpos m5, ypos m5, sm_buttons s5), m5)"
    and m5: "buttons m5 = sm_buttons s5" "(xpos m5, ypos m5) = clamped m (filter_absrotate scrdev 2
      (transform_point (g_trans m)
      ((sm_x s1 + sm_x s2 + sm_x s3 + sm_x s4) div 4) ((sm_y s1 + sm_y s2 + sm_y s3 + sm_y s4) div 4)))"
    using read_accepted [OF m4(1,2,3) flt] m4(4) unfolding m4(5) by fastforce
  have "reads scrdev [s5] m4 = m5" by (simp add: reads_def rd)
  then show ?thesis using m4(6) m5 unfolding four Let_def by simp
qed

lemma reads_relative:
  assumes "\<not> changed m" "\<not> mouse_raw m" "\<forall>s\<in>set sms. sm_status s = 1"
    and "\<forall>k\<le>length sms. clamped m (path_end scrdev m (take k sms)) = path_end scrdev m (take k sms)"
  shows "(xpos (reads scrdev sms m), ypos (reads scrdev sms m)) = path_end scrdev m sms \<and>
    buttons (reads scrdev sms m) = last (buttons m # map sm_buttons sms)"
  using assms
proof (induction sms arbitrary: m)
  case Nil
  then show ?case by (simp add: reads_def path_end_def)
next
  case (Cons s sms)
  let ?t = "turned scrdev (sm_x s) (sm_y s)"
  have st: "sm_status s = 1" using Cons.prems(3) by simp
  obtain r m' where rd: "GdReadMouse scrdev s m = (r, (xpos m', ypos m', sm_buttons s), m')"
    and m': "\<not> changed m'" "buttons m' = sm_buttons s"
      "(xpos m', ypos m') = clamped m (xpos m + fst ?t, ypos m + snd ?t)"
      "mflags m' = mflags m" "minx m' = minx m" "maxx m' = maxx m" "miny m' = miny m" "maxy m' = maxy m"
    using read_accepted [OF Cons.prems(1,2) _ filtered_relative [OF st, of scrdev m]] st by auto
  have "path_end scrdev m (take 1 (s # sms)) = (xpos m + fst ?t, ypos m + snd ?t)" by (simp add: path_end_def)
  then have pos: "xpos m' = xpos m + fst ?t" "ypos m' = ypos m + snd ?t"
    using Cons.prems(4) [rule_format, of 1] m'(3) by simp_all
  have pe: "path_end scrdev m' ss = path_end scrdev m (s # ss)" for ss by (simp add: path_end_def pos)
  have cl: "clamped m' = clamped m" by (rule clamped_fields) (use m' in simp_all)
  have "clamped m' (path_end scrdev m' (take k sms)) = path_end scrdev m' (take k sms)" if "k \<le> length sms" for k
    using Cons.prems(4) [rule_format, of "Suc k"] that unfolding pe cl by simp
  then have "(xpos (reads scrdev sms m'), ypos (reads scrdev sms m')) = path_end scrdev m' sms \<and>
    buttons (reads scrdev sms m') = last (buttons m' # map sm_buttons sms)"
    using Cons.IH [OF m'(1)] Cons.prems(2,3) m'(4) by (simp add: mouse_raw_def)
  moreover have "reads scrdev (s # sms) m = reads scrdev sms m'" by (simp add: reads_def rd)
  ultimately show ?case unfolding pe m'(2) by simp
qed

text \<open>
  C12. \<open>GdReadMouse\<close> with no report pending and outside raw mode, for the samples that the driver
  delivers.  A relative sample moves the pointer by the movement, turned with the screen, and an
  absolute sample of a mouse without calibration puts it on the sample's place on the turned screen,
  both cut at the allowed rectangle; status 3 leaves the position alone; in the three cases the
  buttons become those of the sample, and the call returns 1 with the new values when one of
  them differs from before, else 0.  No data or a failure of the driver changes nothing.  Relative samples read
  one after the other add up as long as the path stays inside the rectangle.  For a calibrated mouse
  with a fresh filter four absolute samples change neither position nor buttons, and the fifth puts
  the pointer on the calibrated mean of the four before, with the fifth sample's buttons.
\<close>

theorem read_mouse_follows_device:
  assumes quiet: "\<not> changed m" and cal: "\<not> mouse_raw m"
  shows "(case GdReadMouse scrdev sm m of (r, out, m') \<Rightarrow>
      \<not> changed m' \<and> out = (xpos m', ypos m', buttons m') \<and>
      (r = 1 \<longleftrightarrow> out \<noteq> (xpos m, ypos m, buttons m)) \<and> r \<in> {- 1, 0, 1} \<and>
      (sm_status sm \<le> 0 \<longrightarrow> m' = m \<and> (r = - 1 \<longleftrightarrow> sm_status sm < 0)) \<and>
      (sm_status sm = 1 \<longrightarrow> buttons m' = sm_buttons sm \<and>
        (xpos m', ypos m') = clamped m (xpos m + fst (turned scrdev (sm_x sm) (sm_y sm)),
                                        ypos m + snd (turned scrdev (sm_x sm) (sm_y sm)))) \<and>
      (sm_status sm = 2 \<and> mflags m AND MOUSE_TRANSFORM = 0 \<longrightarrow> buttons m' = sm_buttons sm \<and>
        (xpos m', ypos m') = clamped m (filter_absrotate scrdev 2 (sm_x sm, sm_y sm))) \<and>
      (sm_status sm = 3 \<longrightarrow> buttons m' = sm_buttons sm \<and> (xpos m', ypos m') = (xpos m, ypos m)))
    \<and> ((\<forall>s\<in>set sms. sm_status s = 1) \<and>
        (\<forall>k\<le>length sms. clamped m (path_end scrdev m (take k sms)) = path_end scrdev m (take k sms)) \<longrightarrow>
       (xpos (reads scrdev sms m), ypos (reads scrdev sms m)) = path_end scrdev m sms \<and>
       buttons (reads scrdev sms m) = last (buttons m # map sm_buttons sms))
    \<and> ((\<forall>s\<in>set [s1, s2, s3, s4, s5]. sm_status s = 2) \<and> mflags m AND MOUSE_TRANSFORM \<noteq> 0 \<and>
        tr_s (g_trans m) \<noteq> 0 \<and> jitter_count m = 0 \<and> jitter_x m = 0 \<and> jitter_y m = 0 \<longrightarrow>
       (let m4 = reads scrdev [s1, s2, s3, s4] m; m5 = reads scrdev [s5] m4 in
        (xpos m4, ypos m4, buttons m4) = (xpos m, ypos m, buttons m) \<and>
        (xpos m5, ypos m5) = clamped m (filter_absrotate scrdev 2 (transform_point (g_trans m)
          ((sm_x s1 + sm_x s2 + sm_x s3 + sm_x s4) div 4) ((sm_y s1 + sm_y s2 + sm_y s3 + sm_y s4) div 4))) \<and>
        buttons m5 = sm_buttons s5))"
  using read_single [OF assms, where scrdev = scrdev and sm = sm]
    reads_relative [OF assms, where sms = sms and scrdev = scrdev]
    read_calibrated [OF assms, where ?s1.0 = s1 and ?s2.0 = s2 and ?s3.0 = s3 and ?s4.0 = s4 and ?s5.0 = s5
      and scrdev = scrdev] by blast

theorem read_mouse_follows_device_witness:
  "(let m' = reads sample_psd [\<lparr>sm_status = 1, sm_x = 2, sm_y = - 1, sm_buttons = 4\<rparr>,
                              \<lparr>sm_status = 1, sm_x = 1, sm_y = 2, sm_buttons = 1\<rparr>] sample_mouse
    in (xpos m', ypos m', buttons m') = (6, 3, 1))"
proof -
  let ?a = "\<lparr>sm_status = 1, sm_x = 2, sm_y = - 1, sm_buttons = 4\<rparr>"
  let ?b = "\<lparr>sm_status = 1, sm_x = 1, sm_y = 2, sm_buttons = 1\<rparr>"
  have path: "path_end sample_psd sample_mouse [] = (3, 2)" "path_end sample_psd sample_mouse [?a] = (5, 1)"
    "path_end sample_psd sample_mouse [?a, ?b] = (6, 3)"
    by (simp_all add: path_end_def turned_def sample_psd_def sample_mouse_def)
  have box: "clamped sample_mouse p = (min 7 (max 0 (fst p)), min 3 (max 0 (snd p)))" for p
    by (simp add: clamped_def sample_mouse_def)
  have "\<forall>k\<le>length [?a, ?b]. clamped sample_mouse (path_end sample_psd sample_mouse (take k [?a, ?b])) =
      path_end sample_psd sample_mouse (take k [?a, ?b])"
    by (auto simp: le_Suc_eq path box)
  moreover have "\<not> changed sample_mouse" "\<not> mouse_raw sample_mouse" by (simp_all add: sample_mouse_def mouse_raw_def)
  ultimately show ?thesis
    using read_mouse_follows_device [of sample_mouse, where scrdev = sample_psd and sm = ?a and sms = "[?a, ?b]"] path
    by (auto simp: Let_def)
qed

text \<open>
  C13. The position stays in the rectangle of \<open>GdRestrictMouse\<close>, unless the mouse is in raw mode: after
  \<open>GdRestrictMouse\<close> with a rectangle that is not empty it lies inside, and every \<open>GdReadMouse\<close> and
  \<open>GdMoveMouse\<close>, with any sample, keeps it inside.
\<close>

theorem mouse_stays_in_box:
  assumes raw: "\<not> mouse_raw m" and ne: "x1 \<le> x2" "y1 \<le> y2"
  shows "in_box (GdRestrictMouse x1 y1 x2 y2 m)
    \<and> (box_ok m \<and> in_box m \<longrightarrow> in_box (GdMoveMouse x y m) \<and>
        (let m' = snd (snd (GdReadMouse scrdev sm m)) in in_box m' \<and> box_ok m' \<and> \<not> mouse_raw m'))"
proof -
  have raw': "mflags m AND MOUSE_RAW = 0" using raw by (simp add: mouse_raw_def)
  have restrict: "in_box (GdRestrictMouse x1 y1 x2 y2 m)"
    unfolding GdRestrictMouse_def by (rule move_in_box) (use ne raw' in \<open>simp_all add: box_ok_def\<close>)
  have "let m' = snd (snd (GdReadMouse scrdev sm m)) in in_box m' \<and> box_ok m' \<and> \<not> mouse_raw m'"
    if ok: "box_ok m" and inb: "in_box m"
  proof (cases rule: read_cases [of m scrdev sm])
    case pending
    then show ?thesis using ok inb raw by (simp add: in_box_def box_ok_def mouse_raw_def)
  next
    case (unchanged r m1)
    then show ?thesis using ok inb raw by (simp add: in_box_def box_ok_def mouse_raw_def)
  next
    case (moved m2 m3)
    have m2: "box_ok m2" "in_box m2" "mflags m2 AND MOUSE_RAW = 0"
      using moved(5,6,9-13) ok inb raw' by (simp_all add: in_box_def box_ok_def)
    then have "in_box m3" "box_ok m3" "mflags m3 AND MOUSE_RAW = 0"
      using moved(2) move_in_box [of m2] by (auto simp: box_ok_def)
    then show ?thesis using moved(3) by (simp add: in_box_def box_ok_def mouse_raw_def)
  qed
  then show ?thesis using restrict move_in_box [OF _ raw'] by blast
qed

theorem mouse_stays_in_box_witness:
  "in_box (GdRestrictMouse 4 0 5 1 sample_mouse) \<and>
   in_box (snd (snd (GdReadMouse sample_psd \<lparr>sm_status = 1, sm_x = 100, sm_y = - 50, sm_buttons = 1\<rparr> sample_mouse)))"
  using mouse_stays_in_box [of sample_mouse 4 5 0 1 0 0 sample_psd
      "\<lparr>sm_status = 1, sm_x = 100, sm_y = - 50, sm_buttons = 1\<rparr>"]
  by (simp add: mouse_raw_def sample_mouse_def in_box_def box_ok_def Let_def)

text \<open>
  \<open>filter_relative\<close> computes the acceleration that the comment on \<open>GdSetAccelMouse\<close> tabulates,
  and the same backwards; but \<open>GdReadMouse\<close> does not use it: with any threshold and scale it reports
  the same position.
\<close>

theorem acceleration_has_no_effect:
  "map (accelerate 5 3) [0, 4, 5, 6, 9, 20] = [0, 4, 5, 8, 17, 50]
    \<and> (let m' = GdSetAccelMouse th sc m
       in accelerate (thresh m') (scale m') (- x) = - accelerate (thresh m') (scale m') x)
    \<and> GdReadMouse scrdev sm (GdSetAccelMouse th sc m) =
        (case GdReadMouse scrdev sm m of (r, out, m') \<Rightarrow> (r, out, GdSetAccelMouse th sc m'))"
proof (intro conjI)
  show "map (accelerate 5 3) [0, 4, 5, 6, 9, 20] = [0, 4, 5, 8, 17, 50]" by (simp add: accelerate_def)
  show "(let m' = GdSetAccelMouse th sc m
       in accelerate (thresh m') (scale m') (- x) = - accelerate (thresh m') (scale m') x)" by (auto simp: accelerate_def GdSetAccelMouse_def Let_def)
  show "GdReadMouse scrdev sm (GdSetAccelMouse th sc m) =
      (case GdReadMouse scrdev sm m of (r, out, m') \<Rightarrow> (r, out, GdSetAccelMouse th sc m'))"
    by (rule accel_read)
qed

text \<open>
  Rotation: moving the device is the same for relative and absolute samples - the screen position
  of a moved absolute sample is the old one moved by the relative filter; on the quarter turns the
  absolute filter maps the device's area one to one onto the screen, and turning left undoes turning
  right.  For \<open>MWPORTRAIT_DOWN\<close> only \<open>y\<close> is reversed: the filter mirrors, it does not turn.
\<close>

theorem rotation_filters:
  "filter_absrotate scrdev 2 (x + dx, y + dy) = filter_relrotate scrdev 1 (filter_absrotate scrdev 2 (x, y)) dx dy
    \<and> filter_absrotate (scrdev\<lparr>portrait := MWPORTRAIT_LEFT, yres := xres scrdev\<rparr>) 2
        (filter_absrotate (scrdev\<lparr>portrait := MWPORTRAIT_RIGHT\<rparr>) 2 (x, y)) = (x, y)
    \<and> ((0 \<le> x \<and> x < xres scrdev \<and> 0 \<le> y \<and> y < yres scrdev) \<longleftrightarrow>
        (let (x', y') = filter_absrotate (scrdev\<lparr>portrait := MWPORTRAIT_RIGHT\<rparr>) 2 (x, y)
         in 0 \<le> x' \<and> x' < yres scrdev \<and> 0 \<le> y' \<and> y' < xres scrdev))
    \<and> filter_absrotate (scrdev\<lparr>portrait := MWPORTRAIT_DOWN\<rparr>) 2 (x, y) = (x, yres scrdev - y - 1)"
  by (auto simp: filter_absrotate_def filter_relrotate_def Let_def)

text \<open>
  The jitter filter of a transformed mouse: of five absolute samples read one after the other
  from a reset filter, the first four only fill the filter and the fifth yields the mean of the four
  before it (its own coordinates are dropped), sent through the calibration when there is one; after
  it the filter is reset.
\<close>

theorem jitter_filter_averages:
  assumes "jitter_count m = 0" "jitter_x m = 0" "jitter_y m = 0" and st: "st \<noteq> 1" "st \<noteq> 3"
  shows "(let step = (\<lambda>p (v, q, m). filter_transform st p m);
              (v4, q4, m4) = fold step [(x1, y1), (x2, y2), (x3, y3), (x4, y4)] (0, (0, 0), m);
              (v5, q5, m5) = filter_transform st (x5, y5) m4;
              jx = (x1 + x2 + x3 + x4) div 4; jy = (y1 + y2 + y3 + y4) div 4
          in v4 = 0 \<and> v5 \<noteq> 0 \<and> m5 = m \<and>
             q5 = (if tr_s (g_trans m) \<noteq> 0 \<and> \<not> mouse_raw m then transform_point (g_trans m) jx jy else (jx, jy)))"
  using assms
  by (cases m) (simp add: filter_transform_def JITTER_DEPTH_def JITTER_SHIFT_BITS_def jitter_reset_def mouse_raw_def Let_def)

theorem jitter_filter_averages_witness:
  "fst (snd (filter_transform 2 (99, 99)
     (snd (snd (fold (\<lambda>p (v, q, m). filter_transform 2 p m) [(1, 4), (2, 4), (2, 5), (3, 5)] (0, (0, 0), sample_mouse))))))
   = (2, 4)"
proof -
  have "jitter_count sample_mouse = 0" "jitter_x sample_mouse = 0" "jitter_y sample_mouse = 0"
    "transform_point (g_trans sample_mouse) 2 4 = (2, 4)"
    by (simp_all add: sample_mouse_def transform_point_def signed_divide_int_def)
  then show ?thesis
    using jitter_filter_averages [of sample_mouse 2 1 4 2 4 2 5 3 5 99 99]
    by (simp add: Let_def split: prod.splits if_splits)
qed

end
