(* ===== verification/Clip_Model.thy ===== *)
theory Clip_Model
  imports Rgn_Props Mse_Props
begin

unbundle bit_operations_syntax

text \<open>
  Clipping (\<open>engine/devclip2.c\<close>, the variant for dynamic regions): the current clip region, and a
  cache rectangle in which every point gives the same answer.

  \<^item> The clip region is owned by this module: \<open>GdSetClipRegion\<close> destroys the old one and keeps the
    pointer it is given, so the region itself is a field of the state.  The engine draws only after
    a first call (before it, \<open>clipregion\<close> is the null pointer).
  \<^item> A test that succeeds takes the cursor away from the tested place, so the cursor and the screen
    are part of the state (\<open>engine\<close>).
\<close>

record clip_state =
  clipminx :: MWCOORD
  clipminy :: MWCOORD
  clipmaxx :: MWCOORD
  clipmaxy :: MWCOORD
  clipresult :: bool
  clipregion :: MWCLIPREGION

record 's engine =
  clip :: clip_state
  cur :: cursor
  scr :: 's

text \<open>Setting the cache: \<open>clipminx\<close>, \<open>clipminy\<close>, \<open>clipmaxx\<close>, \<open>clipmaxy\<close> and \<open>clipresult\<close>.\<close>

definition set_cache :: "MWCOORD \<Rightarrow> MWCOORD \<Rightarrow> MWCOORD \<Rightarrow> MWCOORD \<Rightarrow> bool \<Rightarrow> clip_state \<Rightarrow> clip_state" where
  "set_cache x1 y1 x2 y2 r cs =
    cs\<lparr>clipminx := x1, clipminy := y1, clipmaxx := x2, clipmaxy := y2, clipresult := r\<rparr>"

definition GdSetClipRegion :: "MWCLIPREGION option \<Rightarrow> clip_state \<Rightarrow> clip_state" where
  "GdSetClipRegion reg cs =
    (let reg = (case reg of None \<Rightarrow> GdAllocRegion | Some r \<Rightarrow> r);
         cs1 = cs\<lparr>clipregion := reg\<rparr>
     in if numRects reg = 0 then set_cache MIN_MWCOORD MIN_MWCOORD MAX_MWCOORD MAX_MWCOORD False cs1
        else
          let r = hd (rects reg)
          in set_cache (rleft r) (rtop r) (rright r - 1) (rbottom r - 1) True cs1)"

definition in_cache :: "clip_state \<Rightarrow> MWCOORD \<Rightarrow> MWCOORD \<Rightarrow> bool" where
  "in_cache cs x y \<longleftrightarrow> x \<ge> clipminx cs \<and> x \<le> clipmaxx cs \<and> y \<ge> clipminy cs \<and> y \<le> clipmaxy cs"

text \<open>The first rectangle that contains the point.\<close>

fun rect_at :: "MWRECT list \<Rightarrow> MWCOORD \<Rightarrow> MWCOORD \<Rightarrow> MWRECT option" where
  "rect_at [] x y = None"
| "rect_at (r # rs) x y =
    (if x \<ge> rleft r \<and> y \<ge> rtop r \<and> x < rright r \<and> y < rbottom r then Some r else rect_at rs x y)"

text \<open>The second scan: the cache of a point that is not plottable shrinks at every rectangle.\<close>

definition avoid_rect :: "MWCOORD \<Rightarrow> MWCOORD \<Rightarrow> MWRECT \<Rightarrow> clip_state \<Rightarrow> clip_state" where
  "avoid_rect x y r cs =
    (let cs = (if x < rleft r \<and> rleft r \<le> clipmaxx cs then cs\<lparr>clipmaxx := rleft r - 1\<rparr> else cs);
         temp = rright r - 1;
         cs = (if x > temp \<and> temp \<ge> clipminx cs then cs\<lparr>clipminx := temp + 1\<rparr> else cs);
         cs = (if y < rtop r \<and> rtop r \<le> clipmaxy cs then cs\<lparr>clipmaxy := rtop r - 1\<rparr> else cs);
         temp = rbottom r - 1;
         cs = (if y > temp \<and> temp \<ge> clipminy cs then cs\<lparr>clipminy := temp + 1\<rparr> else cs)
     in cs)"

text \<open>The new cache for a point outside the old one; its \<open>clipresult\<close> is the answer for the point.\<close>

definition new_cache :: "SCREENDEVICE \<Rightarrow> MWCOORD \<Rightarrow> MWCOORD \<Rightarrow> clip_state \<Rightarrow> clip_state" where
  "new_cache psd x y cs =
    (if x < 0 then set_cache MIN_MWCOORD MIN_MWCOORD (- 1) MAX_MWCOORD False cs
     else if y < 0 then set_cache MIN_MWCOORD MIN_MWCOORD MAX_MWCOORD (- 1) False cs
     else if x \<ge> xvirtres psd then set_cache (xvirtres psd) MIN_MWCOORD MAX_MWCOORD MAX_MWCOORD False cs
     else if y \<ge> yvirtres psd then set_cache MIN_MWCOORD (yvirtres psd) MAX_MWCOORD MAX_MWCOORD False cs
     else if numRects (clipregion cs) = 0
       then set_cache 0 0 (xvirtres psd - 1) (yvirtres psd - 1) True cs
     else case rect_at (rects (clipregion cs)) x y of
       Some r \<Rightarrow> set_cache (rleft r) (rtop r) (rright r - 1) (rbottom r - 1) True cs
     | None \<Rightarrow> fold (avoid_rect x y) (rects (clipregion cs))
         (set_cache MIN_MWCOORD MIN_MWCOORD MAX_MWCOORD MAX_MWCOORD False cs))"

definition check_cursor_at ::
  "'s screen_ops \<Rightarrow> gr_state \<Rightarrow> SCREENDEVICE \<Rightarrow> MWCOORD \<Rightarrow> MWCOORD \<Rightarrow> MWCOORD \<Rightarrow> MWCOORD \<Rightarrow> 's engine \<Rightarrow> 's engine"
where
  "check_cursor_at ops g psd x1 y1 x2 y2 e =
    (let (c, s) = GdCheckCursor ops g psd x1 y1 x2 y2 (cur e) (scr e) in e\<lparr>cur := c, scr := s\<rparr>)"

definition fix_cursor :: "'s screen_ops \<Rightarrow> gr_state \<Rightarrow> SCREENDEVICE \<Rightarrow> 's engine \<Rightarrow> 's engine" where
  "fix_cursor ops g psd e = (let (c, s) = GdFixCursor ops g psd (cur e) (scr e) in e\<lparr>cur := c, scr := s\<rparr>)"

definition GdClipPoint ::
  "'s screen_ops \<Rightarrow> gr_state \<Rightarrow> SCREENDEVICE \<Rightarrow> MWCOORD \<Rightarrow> MWCOORD \<Rightarrow> 's engine \<Rightarrow> bool \<times> 's engine" where
  "GdClipPoint ops g psd x y e =
    (let e1 = (if in_cache (clip e) x y then e else e\<lparr>clip := new_cache psd x y (clip e)\<rparr>)
     in if clipresult (clip e1) then (True, check_cursor_at ops g psd x y x y e1) else (False, e1))"

datatype clip_area = CLIP_VISIBLE | CLIP_INVISIBLE | CLIP_PARTIAL

definition GdClipArea ::
  "'s screen_ops \<Rightarrow> gr_state \<Rightarrow> SCREENDEVICE \<Rightarrow> MWCOORD \<Rightarrow> MWCOORD \<Rightarrow> MWCOORD \<Rightarrow> MWCOORD \<Rightarrow> 's engine \<Rightarrow>
   clip_area \<times> 's engine" where
  "GdClipArea ops g psd x1 y1 x2 y2 e =
    (let e1 = (if in_cache (clip e) x1 y1 then e else snd (GdClipPoint ops g psd x1 y1 e))
     in if in_cache (clip e1) x2 y2 then
          (if \<not> clipresult (clip e1) then (CLIP_INVISIBLE, e1)
           else (CLIP_VISIBLE, check_cursor_at ops g psd x1 y1 x2 y2 e1))
        else (CLIP_PARTIAL, e1))"

end
