(* ===== verification/Clip_Props.thy ===== *)
theory Clip_Props
  imports Clip_Model
begin

unbundle bit_operations_syntax

text \<open>
  The clip cache is sound: as long as the clip region lies inside the device, a test answers whether
  the point is in the region, whatever was tested before.
\<close>

section \<open>The invariant of the cache\<close>

definition inside_device :: "SCREENDEVICE \<Rightarrow> MWCLIPREGION \<Rightarrow> bool" where
  "inside_device psd reg \<longleftrightarrow> (\<forall>(x, y)\<in>rgn_pts reg. on_psd psd x y)"

definition in_range :: "MWCOORD \<Rightarrow> bool" where
  "in_range x \<longleftrightarrow> MIN_MWCOORD \<le> x \<and> x \<le> MAX_MWCOORD"

text \<open>
  Every point of the cache has the cached answer.  For an empty region the cache is the whole
  coordinate range and never changes.
\<close>

definition clip_ok :: "SCREENDEVICE \<Rightarrow> clip_state \<Rightarrow> bool" where
  "clip_ok psd cs \<longleftrightarrow> inside_device psd (clipregion cs) \<and>
     (\<forall>x y. in_cache cs x y \<longrightarrow> (clipresult cs \<longleftrightarrow> (x, y) \<in> rgn_pts (clipregion cs))) \<and>
     (rects (clipregion cs) = [] \<longrightarrow> (\<forall>x y. in_range x \<and> in_range y \<longrightarrow> in_cache cs x y))"

lemma in_cache_set [clip_simps]:
  "in_cache (set_cache x1 y1 x2 y2 r cs) x y \<longleftrightarrow> x1 \<le> x \<and> x \<le> x2 \<and> y1 \<le> y \<and> y \<le> y2"
  "clipresult (set_cache x1 y1 x2 y2 r cs) = r" "clipregion (set_cache x1 y1 x2 y2 r cs) = clipregion cs"
  by (auto simp: in_cache_def set_cache_def)

lemma rect_at_Some: "rect_at rs x y = Some r \<Longrightarrow> r \<in> set rs \<and> INRECT r x y"
  by (induction rs) (auto simp: INRECT_def split: if_splits)

lemma rect_at_None: "rect_at rs x y = None \<longleftrightarrow> (x, y) \<notin> pts rs"
  by (induction rs) (auto simp: rect_pts_def INRECT_def)

lemma rect_cached: "r \<in> set rs \<Longrightarrow> rleft r \<le> x \<Longrightarrow> x \<le> rright r - 1 \<Longrightarrow> rtop r \<le> y \<Longrightarrow> y \<le> rbottom r - 1 \<Longrightarrow>
    (x, y) \<in> pts rs"
  by (auto simp: in_pts INRECT_def)

text \<open>The second scan: the cache keeps the point and loses every rectangle.\<close>

lemma avoid_rect_fields [simp]:
  "clipregion (avoid_rect x y r cs) = clipregion cs" "clipresult (avoid_rect x y r cs) = clipresult cs"
  by (simp_all add: avoid_rect_def Let_def)

lemma avoid_rects_fields [simp]:
  "clipregion (fold (avoid_rect x y) rs cs) = clipregion cs"
  "clipresult (fold (avoid_rect x y) rs cs) = clipresult cs"
  by (induction rs arbitrary: cs) auto

lemma avoid_rect_shrinks: "in_cache (avoid_rect x y r cs) x' y' \<Longrightarrow> in_cache cs x' y'"
  by (auto simp: avoid_rect_def in_cache_def Let_def split: if_splits)

lemma avoid_rect_keeps: "in_cache cs x y \<Longrightarrow> in_cache (avoid_rect x y r cs) x y"
  by (auto simp: avoid_rect_def in_cache_def Let_def)

lemma avoid_rect_out: "\<not> INRECT r x y \<Longrightarrow> in_cache (avoid_rect x y r cs) x' y' \<Longrightarrow> \<not> INRECT r x' y'"
  by (auto simp: avoid_rect_def in_cache_def INRECT_def Let_def split: if_splits)

lemma avoid_rects_shrinks: "in_cache (fold (avoid_rect x y) rs cs) x' y' \<Longrightarrow> in_cache cs x' y'"
  by (induction rs arbitrary: cs) (auto dest: avoid_rect_shrinks)

lemma avoid_rects_keeps: "in_cache cs x y \<Longrightarrow> in_cache (fold (avoid_rect x y) rs cs) x y"
  by (induction rs arbitrary: cs) (auto intro: avoid_rect_keeps)

lemma avoid_rects_out:
  "(x, y) \<notin> pts rs \<Longrightarrow> in_cache (fold (avoid_rect x y) rs cs) x' y' \<Longrightarrow> (x', y') \<notin> pts rs"
proof (induction rs arbitrary: cs)
  case (Cons r rs)
  have rest: "(x', y') \<notin> pts rs" using Cons by auto
  have "in_cache (avoid_rect x y r cs) x' y'" using Cons.prems(2) avoid_rects_shrinks by simp
  then show ?case using rest avoid_rect_out [of r x y cs] Cons.prems(1) by (auto simp: rect_pts_def)
qed simp

lemma set_clip_ok:
  assumes "case reg of None \<Rightarrow> True | Some r \<Rightarrow> inside_device psd r"
  shows "clip_ok psd (GdSetClipRegion reg cs)"
proof -
  define r where "r = (case reg of None \<Rightarrow> GdAllocRegion | Some r \<Rightarrow> r)"
  have ins: "inside_device psd r"
    using assms GdAllocRegion_pts by (auto simp: r_def inside_device_def split: option.splits)
  show ?thesis
  proof (cases "rects r = []")
    case True
    then have e: "GdSetClipRegion reg cs =
        set_cache MIN_MWCOORD MIN_MWCOORD MAX_MWCOORD MAX_MWCOORD False (cs\<lparr>clipregion := r\<rparr>)"
      by (simp add: GdSetClipRegion_def r_def [symmetric])
    show ?thesis using True ins by (auto simp: e clip_ok_def clip_simps rgn_pts_def in_range_def)
  next
    case False
    then obtain h rs where h: "rects r = h # rs" by (cases "rects r") auto
    then have e: "GdSetClipRegion reg cs =
        set_cache (rleft h) (rtop h) (rright h - 1) (rbottom h - 1) True (cs\<lparr>clipregion := r\<rparr>)"
      by (simp add: GdSetClipRegion_def r_def [symmetric] numRects_def)
    have "(x, y) \<in> rgn_pts r"
      if "rleft h \<le> x" "x \<le> rright h - 1" "rtop h \<le> y" "y \<le> rbottom h - 1" for x y
      using rect_cached [of h "rects r" x y] that by (simp add: h rgn_pts_def)
    then show ?thesis using ins h by (auto simp: e clip_ok_def clip_simps)
  qed
qed

lemma off_device_cache:
  assumes off: "\<not> on_psd psd x y" and rng: "in_range x" "in_range y"
  obtains x1 y1 x2 y2 where "new_cache psd x y cs = set_cache x1 y1 x2 y2 False cs"
    "x1 \<le> x" "x \<le> x2" "y1 \<le> y" "y \<le> y2"
    "x2 \<le> - 1 \<or> y2 \<le> - 1 \<or> xvirtres psd \<le> x1 \<or> yvirtres psd \<le> y1"
proof -
  have rng': "MIN_MWCOORD \<le> x" "x \<le> MAX_MWCOORD" "MIN_MWCOORD \<le> y" "y \<le> MAX_MWCOORD"
    using rng by (simp_all add: in_range_def)
  consider "x < 0" | "x \<ge> 0" "y < 0" | "x \<ge> 0" "y \<ge> 0" "x \<ge> xvirtres psd"
    | "x \<ge> 0" "y \<ge> 0" "x < xvirtres psd" "y \<ge> yvirtres psd"
    using off by (fastforce simp: on_psd_def)
  then show ?thesis
  proof cases
    case 1
    show ?thesis
      by (rule that [of MIN_MWCOORD MIN_MWCOORD "- 1" MAX_MWCOORD]) (use 1 rng' in \<open>simp_all add: new_cache_def\<close>)
  next
    case 2
    show ?thesis
      by (rule that [of MIN_MWCOORD MIN_MWCOORD MAX_MWCOORD "- 1"]) (use 2 rng' in \<open>simp_all add: new_cache_def\<close>)
  next
    case 3
    show ?thesis
      by (rule that [of "xvirtres psd" MIN_MWCOORD MAX_MWCOORD MAX_MWCOORD])
        (use 3 rng' in \<open>simp_all add: new_cache_def\<close>)
  next
    case 4
    show ?thesis
      by (rule that [of MIN_MWCOORD "yvirtres psd" MAX_MWCOORD MAX_MWCOORD])
        (use 4 rng' in \<open>simp_all add: new_cache_def\<close>)
  qed
qed

text \<open>A new cache contains the point that made it, and is sound.\<close>

lemma new_cache_ok:
  assumes ok: "clip_ok psd cs" and out: "\<not> in_cache cs x y" and rng: "in_range x" "in_range y"
  shows "clip_ok psd (new_cache psd x y cs)" "in_cache (new_cache psd x y cs) x y"
    "clipregion (new_cache psd x y cs) = clipregion cs"
proof (atomize (full), goal_cases)
  case 1
  have ins: "on_psd psd x' y'" if "(x', y') \<in> rgn_pts (clipregion cs)" for x' y'
    using ok that by (auto simp: clip_ok_def inside_device_def)
  have ne: "rects (clipregion cs) \<noteq> []" using ok out rng by (auto simp: clip_ok_def)
  have idev: "inside_device psd (clipregion cs)" using ok by (simp add: clip_ok_def)
  show ?case
  proof (cases "on_psd psd x y")
    case False
    then obtain x1 y1 x2 y2 where e: "new_cache psd x y cs = set_cache x1 y1 x2 y2 False cs"
      and b: "x1 \<le> x" "x \<le> x2" "y1 \<le> y" "y \<le> y2"
      and off: "x2 \<le> - 1 \<or> y2 \<le> - 1 \<or> xvirtres psd \<le> x1 \<or> yvirtres psd \<le> y1"
      using off_device_cache [OF _ rng] by blast
    have "(x', y') \<notin> rgn_pts (clipregion cs)" if "x1 \<le> x'" "x' \<le> x2" "y1 \<le> y'" "y' \<le> y2" for x' y'
      using ins [of x' y'] off that by (auto simp: on_psd_def)
    then show ?thesis using ne idev b by (auto simp: e clip_ok_def clip_simps)
  next
    case True
    then have e: "new_cache psd x y cs = (case rect_at (rects (clipregion cs)) x y of
       Some r \<Rightarrow> set_cache (rleft r) (rtop r) (rright r - 1) (rbottom r - 1) True cs
     | None \<Rightarrow> fold (avoid_rect x y) (rects (clipregion cs))
         (set_cache MIN_MWCOORD MIN_MWCOORD MAX_MWCOORD MAX_MWCOORD False cs))"
      using ne by (simp add: new_cache_def on_psd_def)
    show ?thesis
    proof (cases "rect_at (rects (clipregion cs)) x y")
      case None
      then have out: "(x, y) \<notin> pts (rects (clipregion cs))" by (simp add: rect_at_None)
      have "in_cache (set_cache MIN_MWCOORD MIN_MWCOORD MAX_MWCOORD MAX_MWCOORD False cs) x y"
        using rng by (simp add: clip_simps in_range_def)
      from avoid_rects_keeps [OF this] avoid_rects_out [OF out] ne idev show ?thesis
        by (auto simp: e None clip_ok_def clip_simps rgn_pts_def)
    next
      case (Some r)
      then have r: "r \<in> set (rects (clipregion cs))" "INRECT r x y" using rect_at_Some by auto
      show ?thesis using r ne idev rect_cached [OF r(1)]
        by (auto simp: e Some clip_ok_def clip_simps rgn_pts_def INRECT_def)
    qed
  qed
qed

section \<open>Points and areas\<close>

lemma check_cursor_clip [simp]: "clip (check_cursor_at ops g psd x1 y1 x2 y2 e) = clip e"
  by (simp add: check_cursor_at_def split: prod.split)

lemma fix_cursor_clip [simp]: "clip (fix_cursor ops g psd e) = clip e"
  by (simp add: fix_cursor_def split: prod.split)

text \<open>What \<open>GdClipPoint\<close> does: the cache is sound and holds the point, the answer is right.\<close>

lemma clip_point:
  assumes ok: "clip_ok psd (clip e)" and rng: "in_range x" "in_range y"
    and res: "GdClipPoint ops g psd x y e = (r, e')"
  shows "clip_ok psd (clip e')" "in_cache (clip e') x y" "clipregion (clip e') = clipregion (clip e)"
    "clipresult (clip e') = r" "r \<longleftrightarrow> (x, y) \<in> rgn_pts (clipregion (clip e))"
    "\<exists>cs. e' = (if r then check_cursor_at ops g psd x y x y (e\<lparr>clip := cs\<rparr>) else e\<lparr>clip := cs\<rparr>)"
proof -
  define cs where "cs = (if in_cache (clip e) x y then clip e else new_cache psd x y (clip e))"
  have e': "r = clipresult cs"
    "e' = (if r then check_cursor_at ops g psd x y x y (e\<lparr>clip := cs\<rparr>) else e\<lparr>clip := cs\<rparr>)"
    using res by (auto simp: GdClipPoint_def Let_def cs_def split: if_splits)
  have clip: "clip e' = cs" by (simp add: e')
  have cs: "clip_ok psd cs" "in_cache cs x y" "clipregion cs = clipregion (clip e)"
    using ok new_cache_ok [OF ok _ rng] by (auto simp: cs_def)
  then show "clip_ok psd (clip e')" "in_cache (clip e') x y" "clipregion (clip e') = clipregion (clip e)"
    "clipresult (clip e') = r" using e'(1) by (simp_all add: clip)
  show "r \<longleftrightarrow> (x, y) \<in> rgn_pts (clipregion (clip e))" using cs e'(1) by (auto simp: clip_ok_def)
  show "\<exists>cs. e' = (if r then check_cursor_at ops g psd x y x y (e\<lparr>clip := cs\<rparr>) else e\<lparr>clip := cs\<rparr>)"
    using e'(2) by blast
qed

text \<open>A rectangle whose corners are in the cache is in the cache.\<close>

lemma in_cache_between:
  "in_cache cs x1 y1 \<Longrightarrow> in_cache cs x2 y2 \<Longrightarrow> x1 \<le> x \<Longrightarrow> x \<le> x2 \<Longrightarrow> y1 \<le> y \<Longrightarrow> y \<le> y2 \<Longrightarrow> in_cache cs x y"
  by (auto simp: in_cache_def)

lemma clip_area:
  assumes ok: "clip_ok psd (clip e)" and rng: "in_range x1" "in_range y1"
    and res: "GdClipArea ops g psd x1 y1 x2 y2 e = (r, e')"
  shows "clip_ok psd (clip e')" "clipregion (clip e') = clipregion (clip e)"
    "r = CLIP_VISIBLE \<Longrightarrow> x1 \<le> x \<Longrightarrow> x \<le> x2 \<Longrightarrow> y1 \<le> y \<Longrightarrow> y \<le> y2 \<Longrightarrow> (x, y) \<in> rgn_pts (clipregion (clip e))"
    "r = CLIP_INVISIBLE \<Longrightarrow> x1 \<le> x \<Longrightarrow> x \<le> x2 \<Longrightarrow> y1 \<le> y \<Longrightarrow> y \<le> y2 \<Longrightarrow> (x, y) \<notin> rgn_pts (clipregion (clip e))"
proof -
  define e1 where "e1 = (if in_cache (clip e) x1 y1 then e else snd (GdClipPoint ops g psd x1 y1 e))"
  obtain r1 e2 where p: "GdClipPoint ops g psd x1 y1 e = (r1, e2)" by fastforce
  note cp = clip_point [OF ok rng p]
  have e1: "clip_ok psd (clip e1)" "in_cache (clip e1) x1 y1" "clipregion (clip e1) = clipregion (clip e)"
    using ok cp by (auto simp: e1_def p)
  have out: "(r, e') = (if in_cache (clip e1) x2 y2 then
          (if \<not> clipresult (clip e1) then (CLIP_INVISIBLE, e1)
           else (CLIP_VISIBLE, check_cursor_at ops g psd x1 y1 x2 y2 e1))
        else (CLIP_PARTIAL, e1))"
    using res by (simp add: GdClipArea_def e1_def [symmetric] Let_def)
  then have "clip e' = clip e1" by (auto split: if_splits)
  then show "clip_ok psd (clip e')" "clipregion (clip e') = clipregion (clip e)" using e1 by simp_all
  have mem: "clipresult (clip e1) \<longleftrightarrow> (x, y) \<in> rgn_pts (clipregion (clip e))"
    if "in_cache (clip e1) x2 y2" "x1 \<le> x" "x \<le> x2" "y1 \<le> y" "y \<le> y2"
    using in_cache_between [OF e1(2) that] e1(1,3) by (simp add: clip_ok_def)
  show "r = CLIP_VISIBLE \<Longrightarrow> x1 \<le> x \<Longrightarrow> x \<le> x2 \<Longrightarrow> y1 \<le> y \<Longrightarrow> y \<le> y2 \<Longrightarrow> (x, y) \<in> rgn_pts (clipregion (clip e))"
    using out mem by (auto split: if_splits)
  show "r = CLIP_INVISIBLE \<Longrightarrow> x1 \<le> x \<Longrightarrow> x \<le> x2 \<Longrightarrow> y1 \<le> y \<Longrightarrow> y \<le> y2 \<Longrightarrow> (x, y) \<notin> rgn_pts (clipregion (clip e))"
    using out mem by (auto split: if_splits)
qed

end
