(* ===== verification/Draw_Model.thy ===== *)
theory Draw_Model
  imports Clip_Props
begin

unbundle bit_operations_syntax

text \<open>
  Clipped drawing of points, rows, columns and rectangles (\<open>engine/devdraw.c\<close>), on top of the clip
  cache and the cursor.

  \<^item> The driver's functions are parameters (\<open>draw_ops\<close>), given the drawing globals.
  \<^item> A loop of \<open>drawrow\<close> or \<open>drawcol\<close> that does not end has the value \<open>None\<close>.
  \<^item> In the dashed loops the loop variable is unsigned and its bound is not: \<open>p <= x2\<close> compares
    unsigned 32-bit numbers.
\<close>

record 's draw_ops =
  point_ops :: "'s screen_ops"
  DrawHorzLine :: "gr_state \<Rightarrow> 's \<Rightarrow> MWCOORD \<Rightarrow> MWCOORD \<Rightarrow> MWCOORD \<Rightarrow> pixel \<Rightarrow> 's"
  DrawVertLine :: "gr_state \<Rightarrow> 's \<Rightarrow> MWCOORD \<Rightarrow> MWCOORD \<Rightarrow> MWCOORD \<Rightarrow> pixel \<Rightarrow> 's"
  FillRect :: "gr_state \<Rightarrow> 's \<Rightarrow> MWCOORD \<Rightarrow> MWCOORD \<Rightarrow> MWCOORD \<Rightarrow> MWCOORD \<Rightarrow> pixel \<Rightarrow> 's"

record draw_ctx =
  dc_gr :: gr_state
  gr_foreground :: pixel
  gr_dashmask :: "32 word"
  gr_dashcount :: nat

definition SAFE_PLUS :: "int \<Rightarrow> int \<Rightarrow> int" where
  "SAFE_PLUS x width = (if x > 0 \<and> width > 0 \<and> x + width > 0x7FFFFFFF then 0x7FFFFFFF else x + width)"

text \<open>\<open>psd->DrawPixel(psd, x, y, gr_foreground)\<close>\<close>

definition put_pixel :: "'s draw_ops \<Rightarrow> draw_ctx \<Rightarrow> MWCOORD \<Rightarrow> MWCOORD \<Rightarrow> 's engine \<Rightarrow> 's engine" where
  "put_pixel d dc x y e = e\<lparr>scr := DrawPixel (point_ops d) (dc_gr dc) (scr e) x y (gr_foreground dc)\<rparr>"

definition drawpoint ::
  "'s draw_ops \<Rightarrow> draw_ctx \<Rightarrow> SCREENDEVICE \<Rightarrow> MWCOORD \<Rightarrow> MWCOORD \<Rightarrow> 's engine \<Rightarrow> 's engine" where
  "drawpoint d dc psd x y e =
    (let (vis, e1) = GdClipPoint (point_ops d) (dc_gr dc) psd x y e
     in if vis then put_pixel d dc x y e1 else e1)"

definition GdPoint ::
  "'s draw_ops \<Rightarrow> draw_ctx \<Rightarrow> SCREENDEVICE \<Rightarrow> MWCOORD \<Rightarrow> MWCOORD \<Rightarrow> 's engine \<Rightarrow> 's engine" where
  "GdPoint d dc psd x y e =
    (let (vis, e1) = GdClipPoint (point_ops d) (dc_gr dc) psd x y e
     in if vis then fix_cursor (point_ops d) (dc_gr dc) psd (put_pixel d dc x y e1) else e1)"

section \<open>Rows and columns\<close>

partial_function (option) row_loop ::
  "'s draw_ops \<Rightarrow> draw_ctx \<Rightarrow> SCREENDEVICE \<Rightarrow> MWCOORD \<Rightarrow> MWCOORD \<Rightarrow> MWCOORD \<Rightarrow> 's engine \<Rightarrow> 's engine option" where
  "row_loop d dc psd x1 x2 y e =
    (if x1 \<le> x2 then
       let (vis, e1) = GdClipPoint (point_ops d) (dc_gr dc) psd x1 y e;
           temp = min (clipmaxx (clip e1)) x2;
           e2 = (if vis then e1\<lparr>scr := DrawHorzLine d (dc_gr dc) (scr e1) x1 temp y (gr_foreground dc)\<rparr> else e1)
       in row_loop d dc psd (temp + 1) x2 y e2
     else Some e)"

partial_function (option) col_loop ::
  "'s draw_ops \<Rightarrow> draw_ctx \<Rightarrow> SCREENDEVICE \<Rightarrow> MWCOORD \<Rightarrow> MWCOORD \<Rightarrow> MWCOORD \<Rightarrow> 's engine \<Rightarrow> 's engine option" where
  "col_loop d dc psd x y1 y2 e =
    (if y1 \<le> y2 then
       let (vis, e1) = GdClipPoint (point_ops d) (dc_gr dc) psd x y1 e;
           temp = min (clipmaxy (clip e1)) y2;
           e2 = (if vis then e1\<lparr>scr := DrawVertLine d (dc_gr dc) (scr e1) x y1 temp (gr_foreground dc)\<rparr> else e1)
       in col_loop d dc psd x (temp + 1) y2 e2
     else Some e)"

text \<open>
  The dashed loops: \<open>for (p = a; p <= b; p++)\<close> with an unsigned 32-bit \<open>p\<close> and a signed \<open>b\<close>, which is
  converted to unsigned for the comparison.  When that gives \<open>UINT_MAX\<close> the loop does not end.
  \<open>as_int\<close> converts \<open>p\<close> back to a coordinate.
\<close>

definition unsigned_range :: "int \<Rightarrow> int \<Rightarrow> int list option" where
  "unsigned_range a b =
    (if b mod 2 ^ 32 = 2 ^ 32 - 1 then None else Some [a mod 2 ^ 32..b mod 2 ^ 32])"

definition as_int :: "int \<Rightarrow> MWCOORD" where
  "as_int p = (if p < 2 ^ 31 then p else p - 2 ^ 32)"

definition dash_step ::
  "'s draw_ops \<Rightarrow> draw_ctx \<Rightarrow> SCREENDEVICE \<Rightarrow> MWCOORD \<times> MWCOORD \<Rightarrow> nat \<times> 's engine \<Rightarrow> nat \<times> 's engine" where
  "dash_step d dc psd p be =
    (let (n, e) = be; (x, y) = p
     in ((n + 1) mod gr_dashcount dc, if bit (gr_dashmask dc) n then drawpoint d dc psd x y e else e))"

definition drawrow ::
  "'s draw_ops \<Rightarrow> draw_ctx \<Rightarrow> SCREENDEVICE \<Rightarrow> MWCOORD \<Rightarrow> MWCOORD \<Rightarrow> MWCOORD \<Rightarrow> 's engine \<Rightarrow> 's engine option" where
  "drawrow d dc psd x1 x2 y e =
    (let (x1, x2) = (if x1 > x2 then (x2, x1) else (x1, x2));
         x1 = (if x1 < 0 then 0 else x1);
         x2 = (if x2 \<ge> xvirtres psd then xvirtres psd - 1 else x2);
         e1 = check_cursor_at (point_ops d) (dc_gr dc) psd x1 y x2 y e
     in if gr_dashcount dc = 0 then row_loop d dc psd x1 x2 y e1
        else map_option (\<lambda>ps. snd (fold (dash_step d dc psd) (map (\<lambda>p. (as_int p, y)) ps) (0, e1))) (unsigned_range x1 x2))"

definition drawcol ::
  "'s draw_ops \<Rightarrow> draw_ctx \<Rightarrow> SCREENDEVICE \<Rightarrow> MWCOORD \<Rightarrow> MWCOORD \<Rightarrow> MWCOORD \<Rightarrow> 's engine \<Rightarrow> 's engine option" where
  "drawcol d dc psd x y1 y2 e =
    (let (y1, y2) = (if y1 > y2 then (y2, y1) else (y1, y2));
         y1 = (if y1 < 0 then 0 else y1);
         y2 = (if y2 \<ge> yvirtres psd then yvirtres psd - 1 else y2);
         e1 = check_cursor_at (point_ops d) (dc_gr dc) psd x y1 x y2 e
     in if gr_dashcount dc = 0 then col_loop d dc psd x y1 y2 e1
        else map_option (\<lambda>ps. snd (fold (dash_step d dc psd) (map (\<lambda>p. (x, as_int p)) ps) (0, e1))) (unsigned_range y1 y2))"

text \<open>The horizontal and vertical cases of \<open>GdLine\<close>, with the adjustment of the last point.\<close>

definition last_point :: "bool \<Rightarrow> MWCOORD \<Rightarrow> MWCOORD \<Rightarrow> MWCOORD \<times> MWCOORD" where
  "last_point bDrawLastPoint a b =
    (if bDrawLastPoint then (a, b) else if a > b then (b + 1, a) else (a, b - 1))"

definition GdLine_straight ::
  "'s draw_ops \<Rightarrow> draw_ctx \<Rightarrow> SCREENDEVICE \<Rightarrow> MWCOORD \<Rightarrow> MWCOORD \<Rightarrow> MWCOORD \<Rightarrow> MWCOORD \<Rightarrow> bool \<Rightarrow> 's engine \<Rightarrow>
   's engine option" where
  "GdLine_straight d dc psd x1 y1 x2 y2 bDrawLastPoint e =
    (if y1 = y2 then
       let (x1, x2) = last_point bDrawLastPoint x1 x2
       in map_option (fix_cursor (point_ops d) (dc_gr dc) psd) (drawrow d dc psd x1 x2 y1 e)
     else
       let (y1, y2) = last_point bDrawLastPoint y1 y2
       in map_option (fix_cursor (point_ops d) (dc_gr dc) psd) (drawcol d dc psd x1 y1 y2 e))"

section \<open>Rectangles\<close>

definition GdRect ::
  "'s draw_ops \<Rightarrow> draw_ctx \<Rightarrow> SCREENDEVICE \<Rightarrow> MWCOORD \<Rightarrow> MWCOORD \<Rightarrow> MWCOORD \<Rightarrow> MWCOORD \<Rightarrow> 's engine \<Rightarrow>
   's engine option" where
  "GdRect d dc psd x y width height e =
    (if width \<le> 0 \<or> height \<le> 0 then Some e
     else
       let maxx = SAFE_PLUS x width - 1; maxy = SAFE_PLUS y height - 1
       in Option.bind (drawrow d dc psd x maxx y e) (\<lambda>e.
          Option.bind (if height > 1 then drawrow d dc psd x maxx maxy e else Some e) (\<lambda>e.
          if height < 3 then Some e
          else
            let y = y + 1; maxy = maxy - 1
            in Option.bind (drawcol d dc psd x y maxy e) (\<lambda>e.
               Option.bind (if width > 1 then drawcol d dc psd maxx y maxy e else Some e) (\<lambda>e.
               Some (fix_cursor (point_ops d) (dc_gr dc) psd e))))))"

text \<open>
  The solid case of \<open>GdFillRect\<close> (\<open>gr_fillmode == MWFILL_SOLID\<close>): one call of the driver when all of
  the rectangle is visible, otherwise one per rectangle of the clip region.
\<close>

definition fill_part ::
  "'s draw_ops \<Rightarrow> draw_ctx \<Rightarrow> MWCOORD \<Rightarrow> MWCOORD \<Rightarrow> MWCOORD \<Rightarrow> MWCOORD \<Rightarrow> MWRECT \<Rightarrow> 's \<Rightarrow> 's" where
  "fill_part d dc x1 y1 width height prc s =
    (let px1 = x1; py1 = y1; px2 = SAFE_PLUS x1 width; py2 = SAFE_PLUS y1 height;
         px1 = (if px1 < rleft prc then rleft prc else px1);
         py1 = (if py1 < rtop prc then rtop prc else py1);
         px2 = (if px2 > rright prc then rright prc else px2);
         py2 = (if py2 > rbottom prc then rbottom prc else py2);
         pw = px2 - px1; ph = py2 - py1
     in if pw > 0 \<and> ph > 0
        then FillRect d (dc_gr dc) s px1 py1 (px1 + pw - 1) (py1 + ph - 1) (gr_foreground dc) else s)"

definition GdFillRect_solid ::
  "'s draw_ops \<Rightarrow> draw_ctx \<Rightarrow> SCREENDEVICE \<Rightarrow> MWCOORD \<Rightarrow> MWCOORD \<Rightarrow> MWCOORD \<Rightarrow> MWCOORD \<Rightarrow> 's engine \<Rightarrow> 's engine" where
  "GdFillRect_solid d dc psd x1 y1 width height e =
    (let x2 = SAFE_PLUS x1 width - 1; y2 = SAFE_PLUS y1 height - 1
     in if width \<le> 0 \<or> height \<le> 0 then e
        else
          let (clp, e1) = GdClipArea (point_ops d) (dc_gr dc) psd x1 y1 x2 y2 e
          in if clp = CLIP_INVISIBLE then e1
             else
               let e2 =
                 (if clp = CLIP_VISIBLE
                  then e1\<lparr>scr := FillRect d (dc_gr dc) (scr e1) x1 y1 x2 y2 (gr_foreground dc)\<rparr>
                  else e1\<lparr>scr := fold (fill_part d dc x1 y1 width height) (rects (clipregion (clip e1))) (scr e1)\<rparr>)
               in fix_cursor (point_ops d) (dc_gr dc) psd e2)"

end
