(* ===== verification/Draw_Proofs.thy ===== *)
theory Draw_Proofs
  imports Draw_Model
begin

unbundle bit_operations_syntax

text \<open>
  What the clipped drawing functions do to the picture below the cursor: inside the clip region every
  requested pixel is painted once, everything else is left alone.
\<close>

section \<open>The cursor away from an area\<close>

definition cursor_clear :: "SCREENDEVICE \<Rightarrow> cursor \<Rightarrow> MWCOORD \<Rightarrow> MWCOORD \<Rightarrow> MWCOORD \<Rightarrow> MWCOORD \<Rightarrow> bool" where
  "cursor_clear psd c x1 y1 x2 y2 \<longleftrightarrow>
     curvisible c \<le> 0 \<or> flags psd AND PSF_SCREEN = 0 \<or>
     min x1 x2 > curmaxx c \<or> max x1 x2 < curminx c \<or> min y1 y2 > curmaxy c \<or> max y1 y2 < curminy c"

lemma check_clear:
  "GdCheckCursor ops g psd x1 y1 x2 y2 c s =
    (if cursor_clear psd c x1 y1 x2 y2 then (c, s)
     else let (p, c1, s1) = GdHideCursor ops g psd c s in (c1\<lparr>curneedsrestore := True\<rparr>, s1))"
  by (simp add: GdCheckCursor_def cursor_clear_def Let_def min_def max_def)

lemma check_at_clear: "cursor_clear psd (cur e) x1 y1 x2 y2 \<Longrightarrow> check_cursor_at ops g psd x1 y1 x2 y2 e = e"
  by (simp add: check_cursor_at_def check_clear)

lemma cursor_clear_sub:
  "cursor_clear psd c x1 y1 x2 y2 \<Longrightarrow> min x1 x2 \<le> min x1' x2' \<Longrightarrow> max x1' x2' \<le> max x1 x2 \<Longrightarrow>
   min y1 y2 \<le> min y1' y2' \<Longrightarrow> max y1' y2' \<le> max y1 y2 \<Longrightarrow> cursor_clear psd c x1' y1' x2' y2'"
  unfolding cursor_clear_def by linarith

text \<open>The contract looks at the picture on the device only.\<close>

lemma cursor_ok_cong:
  assumes "\<And>x y. on x y \<Longrightarrow> b x y = b' x y"
  shows "cursor_ok on rd b c \<longleftrightarrow> cursor_ok on rd b' c"
proof -
  let ?ps = "filter (\<lambda>(x, y). on x y) (rect_pixels (curminx c) (curminy c) (curmaxx c) (curmaxy c))"
  have "case_prod b (?ps ! k) = case_prod b' (?ps ! k)" if "k < length ?ps" for k
  proof -
    obtain x y where xy: "?ps ! k = (x, y)" by fastforce
    then have "on x y" using nth_mem [OF that] by auto
    then show ?thesis using assms xy by simp
  qed
  moreover have "cursor_picture c b x y = cursor_picture c b' x y" if "on x y" for x y
    using assms [OF that] by (simp add: cursor_picture_def with_cursor_def Let_def)
  ultimately show ?thesis using assms by (auto simp: cursor_ok_def Let_def)
qed

section \<open>The interface of a drawing device\<close>

text \<open>
  \<open>paint\<close> is what drawing in the current mode with the current foreground makes of a pixel.  A line or
  rectangle whose ends are on the device paints each of its pixels, once.
\<close>

locale drawing = cursor_screen read draw onscreen "point_ops d" g psd
  for read :: "'s \<Rightarrow> MWCOORD \<Rightarrow> MWCOORD \<Rightarrow> pixel"
    and draw :: "'s \<Rightarrow> MWCOORD \<Rightarrow> MWCOORD \<Rightarrow> pixel \<Rightarrow> 's"
    and onscreen :: "MWCOORD \<Rightarrow> MWCOORD \<Rightarrow> bool"
    and d :: "'s draw_ops" and g :: gr_state and psd :: SCREENDEVICE +
  fixes fg :: pixel and paint :: "pixel \<Rightarrow> pixel"
  assumes paint_point: "onscreen x y \<Longrightarrow> onscreen x' y' \<Longrightarrow>
      read (DrawPixel (point_ops d) g s x y fg) x' y' = (if x' = x \<and> y' = y then paint (read s x' y') else read s x' y')"
    and paint_horz: "onscreen x1 y \<Longrightarrow> onscreen x2 y \<Longrightarrow> onscreen x' y' \<Longrightarrow>
      read (DrawHorzLine d g s x1 x2 y fg) x' y' =
        (if x1 \<le> x' \<and> x' \<le> x2 \<and> y' = y then paint (read s x' y') else read s x' y')"
    and paint_vert: "onscreen x y1 \<Longrightarrow> onscreen x y2 \<Longrightarrow> onscreen x' y' \<Longrightarrow>
      read (DrawVertLine d g s x y1 y2 fg) x' y' =
        (if x' = x \<and> y1 \<le> y' \<and> y' \<le> y2 then paint (read s x' y') else read s x' y')"
    and paint_rect: "onscreen x1 y1 \<Longrightarrow> onscreen x2 y2 \<Longrightarrow> onscreen x' y' \<Longrightarrow>
      read (FillRect d g s x1 y1 x2 y2 fg) x' y' =
        (if x1 \<le> x' \<and> x' \<le> x2 \<and> y1 \<le> y' \<and> y' \<le> y2 then paint (read s x' y') else read s x' y')"
begin

definition painted :: "(MWCOORD \<Rightarrow> MWCOORD \<Rightarrow> bool) \<Rightarrow> 's \<Rightarrow> 's \<Rightarrow> bool" where
  "painted R s s' \<longleftrightarrow>
     (\<forall>x y. onscreen x y \<longrightarrow> read s' x y = (if R x y then paint (read s x y) else read s x y))"

lemma painted_none: "painted R s s" if "\<And>x y. onscreen x y \<Longrightarrow> \<not> R x y"
  using that by (auto simp: painted_def)

lemma painted_then:
  "painted R s s1 \<Longrightarrow> painted R' s1 s2 \<Longrightarrow> (\<And>x y. onscreen x y \<Longrightarrow> \<not> (R x y \<and> R' x y)) \<Longrightarrow>
   painted (\<lambda>x y. R x y \<or> R' x y) s s2"
  by (auto simp: painted_def)

lemma painted_cong: "painted R s s' \<Longrightarrow> (\<And>x y. onscreen x y \<Longrightarrow> R x y = R' x y) \<Longrightarrow> painted R' s s'"
  by (simp add: painted_def)

text \<open>The clip region, and what the drawing functions keep.\<close>

definition plottable :: "'s engine \<Rightarrow> MWCOORD \<Rightarrow> MWCOORD \<Rightarrow> bool" where
  "plottable e x y \<longleftrightarrow> (x, y) \<in> rgn_pts (clipregion (clip e))"

definition clip_same :: "'s engine \<Rightarrow> 's engine \<Rightarrow> bool" where
  "clip_same e e' \<longleftrightarrow> clip_ok psd (clip e') \<and> clipregion (clip e') = clipregion (clip e)"

lemma plottable_same: "clip_same e e' \<Longrightarrow> plottable e' = plottable e"
  by (intro ext) (simp add: clip_same_def plottable_def)

lemma clip_same_trans: "clip_same e e1 \<Longrightarrow> clip_same e1 e2 \<Longrightarrow> clip_same e e2"
  by (simp add: clip_same_def)

lemma plottable_onscreen: "clip_ok psd (clip e) \<Longrightarrow> plottable e x y \<Longrightarrow> onscreen x y"
  by (auto simp: clip_ok_def inside_device_def plottable_def on_ops)

lemma clip_point_clear:
  assumes ok: "clip_ok psd (clip e)" and rng: "in_range x" "in_range y" and clear: "cursor_clear psd (cur e) x y x y"
    and res: "GdClipPoint (point_ops d) g psd x y e = (vis, e1)"
  shows "clip_same e e1" "vis = plottable e x y" "cur e1 = cur e" "scr e1 = scr e"
    "\<And>x'. x \<le> x' \<Longrightarrow> x' \<le> clipmaxx (clip e1) \<Longrightarrow> plottable e x' y = vis" "x \<le> clipmaxx (clip e1)"
    "\<And>y'. y \<le> y' \<Longrightarrow> y' \<le> clipmaxy (clip e1) \<Longrightarrow> plottable e x y' = vis" "y \<le> clipmaxy (clip e1)"
proof -
  note cp = clip_point [OF ok rng res]
  show same: "clip_same e e1" using cp(1,3) by (simp add: clip_same_def)
  show "vis = plottable e x y" using cp(5) by (simp add: plottable_def)
  obtain cs where "e1 = (if vis then check_cursor_at (point_ops d) g psd x y x y (e\<lparr>clip := cs\<rparr>) else e\<lparr>clip := cs\<rparr>)"
    using cp(6) by blast
  then have e1: "e1 = e\<lparr>clip := cs\<rparr>" using check_at_clear [of psd "e\<lparr>clip := cs\<rparr>"] clear by simp
  then show "cur e1 = cur e" "scr e1 = scr e" by simp_all
  show "x \<le> clipmaxx (clip e1)" "y \<le> clipmaxy (clip e1)" using cp(2) by (simp_all add: in_cache_def)
  have mem: "in_cache (clip e1) x' y' \<Longrightarrow> plottable e x' y' = vis" for x' y'
    using cp(1,3,4) by (simp add: clip_ok_def plottable_def)
  show "x \<le> x' \<Longrightarrow> x' \<le> clipmaxx (clip e1) \<Longrightarrow> plottable e x' y = vis" for x'
    by (rule mem) (use cp(2) in \<open>simp add: in_cache_def\<close>)
  show "y \<le> y' \<Longrightarrow> y' \<le> clipmaxy (clip e1) \<Longrightarrow> plottable e x y' = vis" for y'
    by (rule mem) (use cp(2) in \<open>simp add: in_cache_def\<close>)
qed

section \<open>Rows and columns\<close>

definition drawn_as :: "(MWCOORD \<Rightarrow> MWCOORD \<Rightarrow> bool) \<Rightarrow> 's engine \<Rightarrow> 's engine option \<Rightarrow> bool" where
  "drawn_as R e res \<longleftrightarrow>
     (\<exists>e'. res = Some e' \<and> clip_same e e' \<and> cur e' = cur e \<and> painted (\<lambda>x y. R x y \<and> plottable e x y) (scr e) (scr e'))"

lemma drawn_as_segment:
  assumes same: "clip_same e e2" and c: "cur e2 = cur e" and p: "painted (\<lambda>x y. R x y \<and> plottable e x y) (scr e) (scr e2)"
    and rest: "drawn_as R' e2 res" and disj: "\<And>x y. \<not> (R x y \<and> R' x y)"
    and all: "\<And>x y. Q x y \<longleftrightarrow> R x y \<or> R' x y"
  shows "drawn_as Q e res"
proof -
  obtain e' where e': "res = Some e'" "clip_same e2 e'" "cur e' = cur e2"
    "painted (\<lambda>x y. R' x y \<and> plottable e x y) (scr e2) (scr e')"
    using rest plottable_same [OF same] by (auto simp: drawn_as_def)
  have "painted (\<lambda>x y. (R x y \<and> plottable e x y) \<or> (R' x y \<and> plottable e x y)) (scr e) (scr e')"
    by (rule painted_then [OF p e'(4)]) (use disj in blast)
  then have "painted (\<lambda>x y. Q x y \<and> plottable e x y) (scr e) (scr e')"
    by (rule painted_cong) (use all in blast)
  then show ?thesis using e' c clip_same_trans [OF same] by (auto simp: drawn_as_def)
qed

lemma row_loop_drawn:
  assumes "clip_ok psd (clip e)" and "0 \<le> x1" and "x2 \<le> MAX_MWCOORD" and "in_range y"
    and "x1 \<le> x2 \<longrightarrow> cursor_clear psd (cur e) x1 y x2 y" and dc: "dc_gr dc = g" "gr_foreground dc = fg"
  shows "drawn_as (\<lambda>x' y'. x1 \<le> x' \<and> x' \<le> x2 \<and> y' = y) e (row_loop d dc psd x1 x2 y e)"
  using assms(1-5)
proof (induction "nat (x2 - x1 + 1)" arbitrary: x1 e rule: less_induct)
  case less
  show ?case
  proof (cases "x1 \<le> x2")
    case False
    then have "row_loop d dc psd x1 x2 y e = Some e" by (subst row_loop.simps) simp
    then show ?thesis using less.prems False by (auto simp: drawn_as_def clip_same_def intro!: painted_none)
  next
    case True
    obtain vis e1 where cp: "GdClipPoint (point_ops d) g psd x1 y e = (vis, e1)" by fastforce
    let ?temp = "min (clipmaxx (clip e1)) x2"
    let ?e2 = "if vis then e1\<lparr>scr := DrawHorzLine d g (scr e1) x1 ?temp y fg\<rparr> else e1"
    have rng: "in_range x1" using less.prems True by (simp add: in_range_def MIN_MWCOORD_def)
    have clear: "cursor_clear psd (cur e) x1 y x2 y" using less.prems(5) True by simp
    then have "cursor_clear psd (cur e) x1 y x1 y" by (rule cursor_clear_sub) (use True in auto)
    note k = clip_point_clear [OF less.prems(1) rng less.prems(4) this cp]
    have step: "row_loop d dc psd x1 x2 y e = row_loop d dc psd (?temp + 1) x2 y ?e2"
      using True by (subst row_loop.simps) (simp add: cp dc Let_def)
    have same: "clip_same e ?e2" using k(1) by (simp add: clip_same_def)
    have prog: "x1 \<le> ?temp" using k(6) True by simp
    have seg: "plottable e x' y = vis" if "x1 \<le> x'" "x' \<le> ?temp" for x' using k(5) that by simp
    have drawn: "painted (\<lambda>x' y'. (x1 \<le> x' \<and> x' \<le> ?temp \<and> y' = y) \<and> plottable e x' y') (scr e) (scr ?e2)"
    proof (cases vis)
      case v: True
      then have "onscreen x1 y" "onscreen ?temp y"
        using plottable_onscreen [OF less.prems(1)] seg prog by blast+
      then show ?thesis using v seg by (auto simp: painted_def paint_horz k(4))
    next
      case False
      then show ?thesis using seg by (auto simp: k(4) intro!: painted_none)
    qed
    have rest: "drawn_as (\<lambda>x' y'. ?temp + 1 \<le> x' \<and> x' \<le> x2 \<and> y' = y) ?e2 (row_loop d dc psd (?temp + 1) x2 y ?e2)"
    proof (rule less.hyps)
      show "nat (x2 - (?temp + 1) + 1) < nat (x2 - x1 + 1)" using prog True by linarith
      show "clip_ok psd (clip ?e2)" using same by (simp add: clip_same_def)
      show "?temp + 1 \<le> x2 \<longrightarrow> cursor_clear psd (cur ?e2) (?temp + 1) y x2 y"
        using cursor_clear_sub [OF clear] prog k(3) by simp
    qed (use less.prems prog in auto)
    show ?thesis unfolding step
      by (rule drawn_as_segment [OF same _ drawn rest]) (use k(3) prog in auto)
  qed
qed

lemma col_loop_drawn:
  assumes "clip_ok psd (clip e)" and "0 \<le> y1" and "y2 \<le> MAX_MWCOORD" and "in_range x"
    and "y1 \<le> y2 \<longrightarrow> cursor_clear psd (cur e) x y1 x y2" and dc: "dc_gr dc = g" "gr_foreground dc = fg"
  shows "drawn_as (\<lambda>x' y'. x' = x \<and> y1 \<le> y' \<and> y' \<le> y2) e (col_loop d dc psd x y1 y2 e)"
  using assms(1-5)
proof (induction "nat (y2 - y1 + 1)" arbitrary: y1 e rule: less_induct)
  case less
  show ?case
  proof (cases "y1 \<le> y2")
    case False
    then have "col_loop d dc psd x y1 y2 e = Some e" by (subst col_loop.simps) simp
    then show ?thesis using less.prems False by (auto simp: drawn_as_def clip_same_def intro!: painted_none)
  next
    case True
    obtain vis e1 where cp: "GdClipPoint (point_ops d) g psd x y1 e = (vis, e1)" by fastforce
    let ?temp = "min (clipmaxy (clip e1)) y2"
    let ?e2 = "if vis then e1\<lparr>scr := DrawVertLine d g (scr e1) x y1 ?temp fg\<rparr> else e1"
    have rng: "in_range y1" using less.prems True by (simp add: in_range_def MIN_MWCOORD_def)
    have clear: "cursor_clear psd (cur e) x y1 x y2" using less.prems(5) True by simp
    then have "cursor_clear psd (cur e) x y1 x y1" by (rule cursor_clear_sub) (use True in auto)
    note k = clip_point_clear [OF less.prems(1) less.prems(4) rng this cp]
    have step: "col_loop d dc psd x y1 y2 e = col_loop d dc psd x (?temp + 1) y2 ?e2"
      using True by (subst col_loop.simps) (simp add: cp dc Let_def)
    have same: "clip_same e ?e2" using k(1) by (simp add: clip_same_def)
    have prog: "y1 \<le> ?temp" using k(8) True by simp
    have seg: "plottable e x y' = vis" if "y1 \<le> y'" "y' \<le> ?temp" for y' using k(7) that by simp
    have drawn: "painted (\<lambda>x' y'. (x' = x \<and> y1 \<le> y' \<and> y' \<le> ?temp) \<and> plottable e x' y') (scr e) (scr ?e2)"
    proof (cases vis)
      case v: True
      then have "onscreen x y1" "onscreen x ?temp"
        using plottable_onscreen [OF less.prems(1)] seg prog by blast+
      then show ?thesis using v seg by (auto simp: painted_def paint_vert k(4))
    next
      case False
      then show ?thesis using seg by (auto simp: k(4) intro!: painted_none)
    qed
    have rest: "drawn_as (\<lambda>x' y'. x' = x \<and> ?temp + 1 \<le> y' \<and> y' \<le> y2) ?e2 (col_loop d dc psd x (?temp + 1) y2 ?e2)"
    proof (rule less.hyps)
      show "nat (y2 - (?temp + 1) + 1) < nat (y2 - y1 + 1)" using prog True by linarith
      show "clip_ok psd (clip ?e2)" using same by (simp add: clip_same_def)
      show "?temp + 1 \<le> y2 \<longrightarrow> cursor_clear psd (cur ?e2) x (?temp + 1) x y2"
        using cursor_clear_sub [OF clear] prog k(3) by simp
    qed (use less.prems prog in auto)
    show ?thesis unfolding step
      by (rule drawn_as_segment [OF same _ drawn rest]) (use k(3) prog in auto)
  qed
qed

section \<open>The picture\<close>

definition repaint :: "(MWCOORD \<Rightarrow> MWCOORD \<Rightarrow> bool) \<Rightarrow> (MWCOORD \<Rightarrow> MWCOORD \<Rightarrow> pixel) \<Rightarrow> MWCOORD \<Rightarrow> MWCOORD \<Rightarrow> pixel" where
  "repaint R b x y = (if R x y then paint (b x y) else b x y)"

definition shows_picture :: "(MWCOORD \<Rightarrow> MWCOORD \<Rightarrow> pixel) \<Rightarrow> 's engine \<Rightarrow> bool" where
  "shows_picture b e \<longleftrightarrow> cursor_ok onscreen (read (scr e)) b (cur e)"

lemma shows_picture_cong: "shows_picture b e \<Longrightarrow> (\<And>x y. onscreen x y \<Longrightarrow> b x y = b' x y) \<Longrightarrow> shows_picture b' e"
  using cursor_ok_cong [of onscreen b b'] by (simp add: shows_picture_def)

text \<open>After a check the cursor is clear of the area, and the area shows the picture.\<close>

lemma checked:
  assumes ok: "shows_picture b e"
  shows "shows_picture b (check_cursor_at (point_ops d) g psd x1 y1 x2 y2 e)"
    and "cursor_clear psd (cur (check_cursor_at (point_ops d) g psd x1 y1 x2 y2 e)) x1 y1 x2 y2"
proof (atomize (full), cases "cursor_clear psd (cur e) x1 y1 x2 y2")
  case True
  then show "shows_picture b (check_cursor_at (point_ops d) g psd x1 y1 x2 y2 e) \<and>
    cursor_clear psd (cur (check_cursor_at (point_ops d) g psd x1 y1 x2 y2 e)) x1 y1 x2 y2"
    using ok by (simp add: check_at_clear)
next
  case False
  obtain p c1 s1 where h: "GdHideCursor (point_ops d) g psd (cur e) (scr e) = (p, c1, s1)"
    by (cases "GdHideCursor (point_ops d) g psd (cur e) (scr e)") auto
  have e: "check_cursor_at (point_ops d) g psd x1 y1 x2 y2 e = e\<lparr>cur := c1\<lparr>curneedsrestore := True\<rparr>, scr := s1\<rparr>"
    using False h by (simp add: check_cursor_at_def check_clear)
  note f = hide_fields(1) [OF h]
  have vis: "0 < curvisible (cur e)" using False by (simp add: cursor_clear_def)
  then have c: "curvisible c1 = 0" "\<not> curneedsrestore (cur e)"
    using ok by (auto simp: f shows_picture_def cursor_ok_def split: if_splits)
  have "cursor_ok onscreen (read s1) b c1" by (rule hide_ok(1) [OF _ h]) (use ok in \<open>simp add: shows_picture_def\<close>)
  then show "shows_picture b (check_cursor_at (point_ops d) g psd x1 y1 x2 y2 e) \<and>
    cursor_clear psd (cur (check_cursor_at (point_ops d) g psd x1 y1 x2 y2 e)) x1 y1 x2 y2"
    using c by (simp add: e shows_picture_def cursor_ok_def cursor_clear_def)
qed

lemma paint_clear:
  assumes ok: "shows_picture b e" and clear: "cursor_clear psd (cur e) x1 y1 x2 y2"
    and scr: "flags psd AND PSF_SCREEN \<noteq> 0" and p: "painted R (scr e) (scr e')" and c: "cur e' = cur e"
    and R: "\<And>x y. R x y \<Longrightarrow> min x1 x2 \<le> x \<and> x \<le> max x1 x2 \<and> min y1 y2 \<le> y \<and> y \<le> max y1 y2"
  shows "shows_picture (repaint R b) e'"
proof -
  have chk: "GdCheckCursor (point_ops d) g psd x1 y1 x2 y2 (cur e) (scr e) = (cur e, scr e)"
    using clear by (simp add: check_clear)
  have "cursor_ok onscreen (read (scr e')) (drawn_over R (read (scr e')) b) (cur e)"
    by (rule check_then_draw [OF _ scr chk R]) (use ok p in \<open>simp_all add: shows_picture_def painted_def\<close>)
  moreover have "drawn_over R (read (scr e')) b x y = repaint R b x y" if on: "onscreen x y" for x y
  proof (cases "R x y")
    case True
    have "\<not> (curminx (cur e) \<le> x \<and> x \<le> curmaxx (cur e) \<and> curminy (cur e) \<le> y \<and> y \<le> curmaxy (cur e))"
      if "0 < curvisible (cur e)"
      using R [OF True] clear that scr unfolding cursor_clear_def by linarith
    then have "read (scr e) x y = b x y"
      using ok on by (auto simp: shows_picture_def cursor_ok_def cursor_picture_def split: if_splits)
    then show ?thesis using True p on by (simp add: drawn_over_def repaint_def painted_def)
  qed (simp add: drawn_over_def repaint_def)
  ultimately show ?thesis using cursor_ok_cong [of onscreen "drawn_over R (read (scr e')) b"] c
    by (simp add: shows_picture_def)
qed

lemma fixed: "shows_picture b e \<Longrightarrow> shows_picture b (fix_cursor (point_ops d) g psd e)"
  using fix_ok [of "scr e" b "cur e"] by (auto simp: shows_picture_def fix_cursor_def split: prod.split)

lemma repaint_repaint:
  "(\<And>x y. \<not> (R x y \<and> R' x y)) \<Longrightarrow> repaint R' (repaint R b) = repaint (\<lambda>x y. R x y \<or> R' x y) b"
  by (intro ext) (auto simp: repaint_def)

text \<open>The result of a drawing function: the picture with the plottable part of \<open>R\<close> painted.\<close>

definition draws :: "(MWCOORD \<Rightarrow> MWCOORD \<Rightarrow> bool) \<Rightarrow> (MWCOORD \<Rightarrow> MWCOORD \<Rightarrow> pixel) \<Rightarrow> 's engine \<Rightarrow> 's engine option \<Rightarrow> bool"
where
  "draws R b e res \<longleftrightarrow> (\<exists>e'. res = Some e' \<and> clip_same e e' \<and>
     shows_picture (repaint (\<lambda>x y. R x y \<and> plottable e x y) b) e')"

lemma drawn_as_draws:
  assumes ok: "shows_picture b e" and scr: "flags psd AND PSF_SCREEN \<noteq> 0"
    and d: "drawn_as R (check_cursor_at (point_ops d) g psd x1 y1 x2 y2 e) res"
    and R: "\<And>x y. R x y \<Longrightarrow> min x1 x2 \<le> x \<and> x \<le> max x1 x2 \<and> min y1 y2 \<le> y \<and> y \<le> max y1 y2"
    and all: "\<And>x y. plottable e x y \<Longrightarrow> R x y = Q x y"
  shows "draws Q b e res"
proof -
  let ?e1 = "check_cursor_at (point_ops d) g psd x1 y1 x2 y2 e"
  obtain e' where e': "res = Some e'" "clip_same ?e1 e'" "cur e' = cur ?e1"
    "painted (\<lambda>x y. R x y \<and> plottable ?e1 x y) (scr ?e1) (scr e')"
    using d by (auto simp: drawn_as_def)
  have pl: "plottable ?e1 = plottable e" by (intro ext) (simp add: plottable_def)
  have "shows_picture (repaint (\<lambda>x y. R x y \<and> plottable e x y) b) e'"
    by (rule paint_clear [OF checked [OF ok] scr e'(4) [unfolded pl] e'(3)]) (use R in blast)
  moreover have "(\<lambda>x y. R x y \<and> plottable e x y) = (\<lambda>x y. Q x y \<and> plottable e x y)"
    using all by (intro ext) blast
  ultimately show ?thesis using e'(1,2) by (auto simp: draws_def clip_same_def)
qed

definition small_device :: bool where
  "small_device \<longleftrightarrow> flags psd AND PSF_SCREEN \<noteq> 0 \<and> xvirtres psd \<le> MAX_MWCOORD + 1 \<and> yvirtres psd \<le> MAX_MWCOORD + 1"

definition solid_ctx :: "draw_ctx \<Rightarrow> bool" where
  "solid_ctx dc \<longleftrightarrow> dc_gr dc = g \<and> gr_foreground dc = fg \<and> gr_dashcount dc = 0"

lemma drawrow_draws:
  assumes ok: "shows_picture b e" and clp: "clip_ok psd (clip e)" and dev: small_device and dc: "solid_ctx dc"
    and y: "in_range y"
  shows "draws (\<lambda>x' y'. min x1 x2 \<le> x' \<and> x' \<le> max x1 x2 \<and> y' = y) b e (drawrow d dc psd x1 x2 y e)"
proof -
  define l where "l = (let l = min x1 x2 in if l < 0 then 0 else l)"
  define r where "r = (let r = max x1 x2 in if r \<ge> xvirtres psd then xvirtres psd - 1 else r)"
  let ?e1 = "check_cursor_at (point_ops d) g psd l y r y e"
  have eq: "drawrow d dc psd x1 x2 y e = row_loop d dc psd l r y ?e1"
    using dc by (simp add: drawrow_def l_def r_def solid_ctx_def Let_def min_def max_def)
  have scr: "flags psd AND PSF_SCREEN \<noteq> 0" using dev by (simp add: small_device_def)
  have drawn: "drawn_as (\<lambda>x' y'. l \<le> x' \<and> x' \<le> r \<and> y' = y) ?e1 (row_loop d dc psd l r y ?e1)"
    by (rule row_loop_drawn)
      (use clp dev dc y checked(2) [OF ok] in \<open>auto simp: small_device_def solid_ctx_def l_def r_def Let_def\<close>)
  show ?thesis unfolding eq
  proof (rule drawn_as_draws [OF ok scr drawn])
    fix x' y'
    assume "plottable e x' y'"
    then have "on_psd psd x' y'" using plottable_onscreen [OF clp] on_ops by blast
    then show "(l \<le> x' \<and> x' \<le> r \<and> y' = y) = (min x1 x2 \<le> x' \<and> x' \<le> max x1 x2 \<and> y' = y)"
      by (auto simp: l_def r_def on_psd_def Let_def)
  qed auto
qed

lemma drawcol_draws:
  assumes ok: "shows_picture b e" and clp: "clip_ok psd (clip e)" and dev: small_device and dc: "solid_ctx dc"
    and x: "in_range x"
  shows "draws (\<lambda>x' y'. x' = x \<and> min y1 y2 \<le> y' \<and> y' \<le> max y1 y2) b e (drawcol d dc psd x y1 y2 e)"
proof -
  define l where "l = (let l = min y1 y2 in if l < 0 then 0 else l)"
  define r where "r = (let r = max y1 y2 in if r \<ge> yvirtres psd then yvirtres psd - 1 else r)"
  let ?e1 = "check_cursor_at (point_ops d) g psd x l x r e"
  have eq: "drawcol d dc psd x y1 y2 e = col_loop d dc psd x l r ?e1"
    using dc by (simp add: drawcol_def l_def r_def solid_ctx_def Let_def min_def max_def)
  have scr: "flags psd AND PSF_SCREEN \<noteq> 0" using dev by (simp add: small_device_def)
  have drawn: "drawn_as (\<lambda>x' y'. x' = x \<and> l \<le> y' \<and> y' \<le> r) ?e1 (col_loop d dc psd x l r ?e1)"
    by (rule col_loop_drawn)
      (use clp dev dc x checked(2) [OF ok] in \<open>auto simp: small_device_def solid_ctx_def l_def r_def Let_def\<close>)
  show ?thesis unfolding eq
  proof (rule drawn_as_draws [OF ok scr drawn])
    fix x' y'
    assume "plottable e x' y'"
    then have "on_psd psd x' y'" using plottable_onscreen [OF clp] on_ops by blast
    then show "(x' = x \<and> l \<le> y' \<and> y' \<le> r) = (x' = x \<and> min y1 y2 \<le> y' \<and> y' \<le> max y1 y2)"
      by (auto simp: l_def r_def on_psd_def Let_def)
  qed auto
qed

text \<open>Composition: the second function works on the picture the first one left.\<close>

lemma draws_bind:
  assumes first: "draws R b e res"
    and rest: "\<And>e' b'. clip_same e e' \<Longrightarrow> shows_picture b' e' \<Longrightarrow> draws R' b' e' (f e')"
    and disj: "\<And>x y. \<not> (R x y \<and> R' x y)"
  shows "draws (\<lambda>x y. R x y \<or> R' x y) b e (Option.bind res f)"
proof -
  obtain e1 where e1: "res = Some e1" "clip_same e e1"
    "shows_picture (repaint (\<lambda>x y. R x y \<and> plottable e x y) b) e1"
    using first by (auto simp: draws_def)
  obtain e2 where e2: "f e1 = Some e2" "clip_same e1 e2"
    "shows_picture (repaint (\<lambda>x y. R' x y \<and> plottable e1 x y) (repaint (\<lambda>x y. R x y \<and> plottable e x y) b)) e2"
    using rest [OF e1(2,3)] by (auto simp: draws_def)
  have "repaint (\<lambda>x y. R' x y \<and> plottable e1 x y) (repaint (\<lambda>x y. R x y \<and> plottable e x y) b) =
      repaint (\<lambda>x y. (R x y \<or> R' x y) \<and> plottable e x y) b"
    using disj plottable_same [OF e1(2)] by (intro ext) (auto simp: repaint_def)
  then show ?thesis using e1(1) e2 clip_same_trans [OF e1(2) e2(2)] by (auto simp: draws_def)
qed

lemma draws_none: "clip_ok psd (clip e) \<Longrightarrow> shows_picture b e \<Longrightarrow> draws (\<lambda>x y. False) b e (Some e)"
  by (auto simp: draws_def clip_same_def repaint_def [abs_def])

lemma draws_cong: "draws R b e res \<Longrightarrow> (\<And>x y. R x y = R' x y) \<Longrightarrow> draws R' b e res"
proof -
  assume dr: "draws R b e res" and "\<And>x y. R x y = R' x y"
  then have "R = R'" by (intro ext)
  then show ?thesis using dr by simp
qed

lemma draws_fixed: "draws R b e res \<Longrightarrow> draws R b e (map_option (fix_cursor (point_ops d) g psd) res)"
  by (auto simp: draws_def clip_same_def intro!: fixed)

text \<open>A straight line is its points, the last one on demand.\<close>

lemma line_draws:
  assumes ok: "shows_picture b e" and clp: "clip_ok psd (clip e)" and dev: small_device and dc: "solid_ctx dc"
    and rng: "in_range x1" "in_range y1" and straight: "x1 = x2 \<or> y1 = y2" and last: "bDrawLastPoint \<or> (x1, y1) \<noteq> (x2, y2)"
  shows "draws (\<lambda>x y. min x1 x2 \<le> x \<and> x \<le> max x1 x2 \<and> min y1 y2 \<le> y \<and> y \<le> max y1 y2 \<and>
      (bDrawLastPoint \<or> (x, y) \<noteq> (x2, y2))) b e (GdLine_straight d dc psd x1 y1 x2 y2 bDrawLastPoint e)"
proof -
  have g: "dc_gr dc = g" using dc by (simp add: solid_ctx_def)
  obtain l r where lr: "last_point bDrawLastPoint x1 x2 = (l, r)" by fastforce
  obtain t u where tu: "last_point bDrawLastPoint y1 y2 = (t, u)" by fastforce
  show ?thesis
  proof (cases "y1 = y2")
    case True
    have "draws (\<lambda>x y. min l r \<le> x \<and> x \<le> max l r \<and> y = y1) b e (drawrow d dc psd l r y1 e)"
      by (rule drawrow_draws [OF ok clp dev dc rng(2)])
    from draws_fixed [OF this] show ?thesis
      unfolding GdLine_straight_def using True lr last
      by (simp add: g) (erule draws_cong, auto simp: last_point_def split: if_splits)
  next
    case False
    then have x: "x1 = x2" using straight by simp
    have "draws (\<lambda>x y. x = x1 \<and> min t u \<le> y \<and> y \<le> max t u) b e (drawcol d dc psd x1 t u e)"
      by (rule drawcol_draws [OF ok clp dev dc rng(1)])
    from draws_fixed [OF this] show ?thesis
      unfolding GdLine_straight_def using False x tu
      by (simp add: g) (erule draws_cong, auto simp: last_point_def split: if_splits)
  qed
qed

lemma point_draws:
  assumes ok: "shows_picture b e" and clp: "clip_ok psd (clip e)" and dev: small_device and dc: "solid_ctx dc"
    and rng: "in_range x" "in_range y"
  shows "draws (\<lambda>x' y'. x' = x \<and> y' = y) b e (Some (GdPoint d dc psd x y e))"
proof -
  have gf: "dc_gr dc = g" "gr_foreground dc = fg" using dc by (simp_all add: solid_ctx_def)
  have scr: "flags psd AND PSF_SCREEN \<noteq> 0" using dev by (simp add: small_device_def)
  obtain vis e1 where cp: "GdClipPoint (point_ops d) g psd x y e = (vis, e1)" by fastforce
  note k = clip_point [OF clp rng cp]
  have vis: "vis = plottable e x y" using k(5) by (simp add: plottable_def)
  obtain cs where e1: "e1 = (if vis then check_cursor_at (point_ops d) g psd x y x y (e\<lparr>clip := cs\<rparr>) else e\<lparr>clip := cs\<rparr>)"
    using k(6) by blast
  have ok': "shows_picture b (e\<lparr>clip := cs\<rparr>)" using ok by (simp add: shows_picture_def)
  show ?thesis
  proof (cases vis)
    case False
    then have "repaint (\<lambda>x' y'. (x' = x \<and> y' = y) \<and> plottable e x' y') b = b"
      using vis by (intro ext) (auto simp: repaint_def)
    then show ?thesis using False e1 ok' k(1,3) by (simp add: draws_def GdPoint_def gf cp clip_same_def)
  next
    case True
    let ?e2 = "put_pixel d dc x y e1"
    have c1: "shows_picture b e1" "cursor_clear psd (cur e1) x y x y" using checked [OF ok'] True e1 by simp_all
    have on: "onscreen x y" using True vis plottable_onscreen [OF clp] by simp
    have "shows_picture (repaint (\<lambda>x' y'. x' = x \<and> y' = y) b) ?e2"
      by (rule paint_clear [OF c1 scr]) (use on in \<open>auto simp: painted_def put_pixel_def gf paint_point\<close>)
    moreover have "repaint (\<lambda>x' y'. (x' = x \<and> y' = y) \<and> plottable e x' y') b = repaint (\<lambda>x' y'. x' = x \<and> y' = y) b"
      using True vis by (intro ext) (auto simp: repaint_def)
    ultimately show ?thesis
      using True k(1,3) by (auto simp: draws_def GdPoint_def gf cp clip_same_def put_pixel_def intro!: fixed)
  qed
qed

text \<open>The frame of a rectangle: no pixel is drawn twice, so that XOR works.\<close>

definition on_frame :: "MWCOORD \<Rightarrow> MWCOORD \<Rightarrow> MWCOORD \<Rightarrow> MWCOORD \<Rightarrow> MWCOORD \<Rightarrow> MWCOORD \<Rightarrow> bool" where
  "on_frame x1 y1 x2 y2 x y \<longleftrightarrow> x1 \<le> x \<and> x \<le> x2 \<and> y1 \<le> y \<and> y \<le> y2 \<and> (x = x1 \<or> x = x2 \<or> y = y1 \<or> y = y2)"

lemma rect_draws:
  assumes ok: "shows_picture b e" and clp: "clip_ok psd (clip e)" and dev: small_device and dc: "solid_ctx dc"
    and rng: "in_range x" "in_range y" "in_range (x + w - 1)" "in_range (y + h - 1)" and pos: "0 < w" "0 < h"
  shows "draws (on_frame x y (x + w - 1) (y + h - 1)) b e (GdRect d dc psd x y w h e)"
proof -
  let ?r = "x + w - 1" and ?u = "y + h - 1"
  have g: "dc_gr dc = g" using dc by (simp add: solid_ctx_def)
  have plus: "SAFE_PLUS x w = x + w" "SAFE_PLUS y h = y + h"
    using rng by (simp_all add: SAFE_PLUS_def in_range_def MAX_MWCOORD_def)
  let ?body = "\<lambda>e. if h < 3 then Some e else Option.bind (drawcol d dc psd x (y + 1) (?u - 1) e)
    (\<lambda>e. Option.bind (if w > 1 then drawcol d dc psd ?r (y + 1) (?u - 1) e else Some e)
    (\<lambda>e. Some (fix_cursor (point_ops d) g psd e)))"
  let ?bottom = "\<lambda>e. if h > 1 then drawrow d dc psd x ?r ?u e else Some e"
  have eq: "GdRect d dc psd x y w h e = Option.bind (drawrow d dc psd x ?r y e) (\<lambda>e. Option.bind (?bottom e) ?body)"
    using pos unfolding GdRect_def plus g Let_def by simp
  have row: "draws (\<lambda>x' y'. x \<le> x' \<and> x' \<le> ?r \<and> y' = v) b' e' (drawrow d dc psd x ?r v e')"
    if "clip_same e e'" "shows_picture b' e'" "in_range v" for b' e' v
    using drawrow_draws [OF that(2) _ dev dc that(3), of x ?r] that(1) pos by (simp add: clip_same_def)
  have col: "draws (\<lambda>x' y'. x' = v \<and> y + 1 \<le> y' \<and> y' \<le> ?u - 1) b' e' (drawcol d dc psd v (y + 1) (?u - 1) e')"
    if "clip_same e e'" "shows_picture b' e'" "in_range v" "3 \<le> h" for b' e' v
    using drawcol_draws [OF that(2) _ dev dc that(3), of "y + 1" "?u - 1"] that(1,4) by (simp add: clip_same_def)
  have bot: "draws (\<lambda>x' y'. 1 < h \<and> x \<le> x' \<and> x' \<le> ?r \<and> y' = ?u) b' e' (?bottom e')"
    if "clip_same e e'" "shows_picture b' e'" for b' e'
    using row [OF that rng(4)] draws_none [OF _ that(2)] that(1) by (simp add: clip_same_def)
  have right: "draws (\<lambda>x' y'. 1 < w \<and> x' = ?r \<and> y + 1 \<le> y' \<and> y' \<le> ?u - 1) b' e'
      (Option.bind (if w > 1 then drawcol d dc psd ?r (y + 1) (?u - 1) e' else Some e')
        (\<lambda>e. Some (fix_cursor (point_ops d) g psd e)))"
    if "clip_same e e'" "shows_picture b' e'" "3 \<le> h" for b' e'
    using draws_fixed [OF col [OF that(1,2) rng(3) that(3)]] draws_fixed [OF draws_none [OF _ that(2)]] that(1)
    by (simp add: clip_same_def map_conv_bind_option comp_def)
  have sides: "draws (\<lambda>x' y'. 3 \<le> h \<and> (x' = x \<or> (1 < w \<and> x' = ?r)) \<and> y + 1 \<le> y' \<and> y' \<le> ?u - 1) b' e' (?body e')"
    if cs: "clip_same e e'" and sp: "shows_picture b' e'" for b' e'
  proof (cases "h < 3")
    case True
    then show ?thesis using draws_none [OF _ sp] cs by (simp add: clip_same_def)
  next
    case False
    then have h: "3 \<le> h" by simp
    have "draws (\<lambda>x' y'. (x' = x \<and> y + 1 \<le> y' \<and> y' \<le> ?u - 1) \<or>
        (1 < w \<and> x' = ?r \<and> y + 1 \<le> y' \<and> y' \<le> ?u - 1)) b' e' (?body e')"
      using False draws_bind [OF col [OF cs sp rng(1) h] right [OF clip_same_trans [OF cs] _ h]] by simp
    then show ?thesis by (rule draws_cong) (use h in auto)
  qed
  have lower: "draws (\<lambda>x' y'. (1 < h \<and> x \<le> x' \<and> x' \<le> ?r \<and> y' = ?u) \<or>
      (3 \<le> h \<and> (x' = x \<or> (1 < w \<and> x' = ?r)) \<and> y + 1 \<le> y' \<and> y' \<le> ?u - 1)) b' e' (Option.bind (?bottom e') ?body)"
    if "clip_same e e'" "shows_picture b' e'" for b' e'
    by (rule draws_bind [OF bot [OF that] sides [OF clip_same_trans [OF that(1)]]]) auto
  have "clip_same e e" using clp by (simp add: clip_same_def)
  from row [OF this ok rng(2)] have top: "draws (\<lambda>x' y'. x \<le> x' \<and> x' \<le> ?r \<and> y' = y) b e (drawrow d dc psd x ?r y e)" .
  have "draws (\<lambda>x' y'. (x \<le> x' \<and> x' \<le> ?r \<and> y' = y) \<or> ((1 < h \<and> x \<le> x' \<and> x' \<le> ?r \<and> y' = ?u) \<or>
      (3 \<le> h \<and> (x' = x \<or> (1 < w \<and> x' = ?r)) \<and> y + 1 \<le> y' \<and> y' \<le> ?u - 1))) b e (GdRect d dc psd x y w h e)"
    unfolding eq by (rule draws_bind [OF top lower]) auto
  then show ?thesis by (rule draws_cong) (use pos in \<open>auto simp: on_frame_def\<close>)
qed

section \<open>Filled rectangles\<close>

definition in_area :: "MWCOORD \<Rightarrow> MWCOORD \<Rightarrow> MWCOORD \<Rightarrow> MWCOORD \<Rightarrow> MWCOORD \<Rightarrow> MWCOORD \<Rightarrow> bool" where
  "in_area x1 y1 x2 y2 x y \<longleftrightarrow> x1 \<le> x \<and> x \<le> x2 \<and> y1 \<le> y \<and> y \<le> y2"

lemma fill_part_painted:
  assumes dc: "solid_ctx dc" and r: "\<And>x y. INRECT r x y \<Longrightarrow> onscreen x y"
  shows "painted (\<lambda>x y. in_area x1 y1 (SAFE_PLUS x1 w - 1) (SAFE_PLUS y1 h - 1) x y \<and> INRECT r x y) s
    (fill_part d dc x1 y1 w h r s)"
proof -
  let ?l = "max x1 (rleft r)" and ?t = "max y1 (rtop r)"
    and ?r = "min (SAFE_PLUS x1 w) (rright r)" and ?b = "min (SAFE_PLUS y1 h) (rbottom r)"
  have eq: "fill_part d dc x1 y1 w h r s =
      (if ?r - ?l > 0 \<and> ?b - ?t > 0 then FillRect d g s ?l ?t (?r - 1) (?b - 1) fg else s)"
  proof -
    have mx: "(if a < b then b else a) = max a b" and mn: "(if a > b then b else a) = min a b" for a b :: int
      by simp_all
    have g: "dc_gr dc = g" "gr_foreground dc = fg" using dc by (simp_all add: solid_ctx_def)
    have sum: "a + (b - a) - 1 = b - (1 :: int)" for a b by simp
    show ?thesis unfolding fill_part_def Let_def mx mn g sum by (rule refl)
  qed
  show ?thesis
  proof (cases "?r - ?l > 0 \<and> ?b - ?t > 0")
    case True
    then have "onscreen ?l ?t" "onscreen (?r - 1) (?b - 1)" by (intro r; simp add: INRECT_def; linarith)+
    then show ?thesis unfolding eq using True
      by (auto simp: painted_def paint_rect in_area_def INRECT_def)
  next
    case False
    then show ?thesis unfolding eq by (auto intro!: painted_none simp: in_area_def INRECT_def)
  qed
qed

lemma rect_order_disjoint: "rect_order a c \<Longrightarrow> \<not> (INRECT a x y \<and> INRECT c x y)"
  by (auto simp: rect_order_def INRECT_def)

lemma fill_parts_painted:
  assumes dc: "solid_ctx dc" and "in_order rs" and "\<And>x y. (x, y) \<in> pts rs \<Longrightarrow> onscreen x y"
  shows "painted (\<lambda>x y. in_area x1 y1 (SAFE_PLUS x1 w - 1) (SAFE_PLUS y1 h - 1) x y \<and> (x, y) \<in> pts rs) s
    (fold (fill_part d dc x1 y1 w h) rs s)"
  using assms(2,3)
proof (induction rs arbitrary: s)
  case Nil
  then show ?case by (auto intro: painted_none)
next
  case (Cons r rs)
  let ?A = "in_area x1 y1 (SAFE_PLUS x1 w - 1) (SAFE_PLUS y1 h - 1)"
  have ord: "in_order rs" "\<forall>c\<in>set rs. rect_order r c" using Cons.prems(1) by (simp_all add: in_order_Cons)
  have on: "INRECT r x y \<Longrightarrow> onscreen x y" for x y using Cons.prems(2) by (simp add: rect_pts_def)
  have disj: "\<not> (INRECT r x y \<and> (x, y) \<in> pts rs)" for x y
    using ord(2) rect_order_disjoint [of r] by (auto simp: in_pts)
  have rest: "painted (\<lambda>x y. ?A x y \<and> (x, y) \<in> pts rs) (fill_part d dc x1 y1 w h r s)
      (fold (fill_part d dc x1 y1 w h) rs (fill_part d dc x1 y1 w h r s))"
    by (rule Cons.IH [OF ord(1)]) (use Cons.prems(2) in simp)
  have "painted (\<lambda>x y. (?A x y \<and> INRECT r x y) \<or> (?A x y \<and> (x, y) \<in> pts rs)) s
      (fold (fill_part d dc x1 y1 w h) (r # rs) s)"
    using painted_then [OF fill_part_painted [OF dc on] rest] disj by simp
  then show ?case by (rule painted_cong) (auto simp: rect_pts_def)
qed

text \<open>Two checks in a row, the second for an area that contains the first.\<close>

lemma GdClipArea_cursor:
  assumes ok: "shows_picture b e" and clp: "clip_ok psd (clip e)" and rng: "in_range x1" "in_range y1"
    and le: "x1 \<le> x2" "y1 \<le> y2" and res: "GdClipArea (point_ops d) g psd x1 y1 x2 y2 e = (r, e1)"
  shows "shows_picture b e1"
    and "r = CLIP_VISIBLE \<or> cursor_clear psd (cur e) x1 y1 x2 y2 \<Longrightarrow> cursor_clear psd (cur e1) x1 y1 x2 y2"
proof (atomize (full), goal_cases)
  case 1
  define e0 where "e0 = (if in_cache (clip e) x1 y1 then e else snd (GdClipPoint (point_ops d) g psd x1 y1 e))"
  obtain v e2 where cp: "GdClipPoint (point_ops d) g psd x1 y1 e = (v, e2)" by fastforce
  obtain cs where e2: "e2 = (if v then check_cursor_at (point_ops d) g psd x1 y1 x1 y1 (e\<lparr>clip := cs\<rparr>) else e\<lparr>clip := cs\<rparr>)"
    using clip_point(6) [OF clp rng cp] by blast
  have ok2: "shows_picture b (e\<lparr>clip := cs\<rparr>)" using ok by (simp add: shows_picture_def)
  have sp0: "shows_picture b e0" using ok ok2 checked(1) [OF ok2] e2 by (simp add: e0_def cp)
  have c0: "cursor_clear psd (cur e0) x1 y1 x2 y2" if c: "cursor_clear psd (cur e) x1 y1 x2 y2"
  proof -
    have "cursor_clear psd (cur e) x1 y1 x1 y1" by (rule cursor_clear_sub [OF c]) (use le in auto)
    then show ?thesis using c e2 check_at_clear [of psd "e\<lparr>clip := cs\<rparr>"] by (simp add: e0_def cp)
  qed
  have out: "(r, e1) = (if in_cache (clip e0) x2 y2 then
          (if \<not> clipresult (clip e0) then (CLIP_INVISIBLE, e0)
           else (CLIP_VISIBLE, check_cursor_at (point_ops d) g psd x1 y1 x2 y2 e0))
        else (CLIP_PARTIAL, e0))"
    using res by (simp add: GdClipArea_def e0_def [symmetric] Let_def)
  then consider "e1 = e0" "r \<noteq> CLIP_VISIBLE" | "e1 = check_cursor_at (point_ops d) g psd x1 y1 x2 y2 e0"
    by (auto split: if_splits)
  then show ?case
  proof cases
    case 1
    then show ?thesis using sp0 c0 by simp
  next
    case 2
    then show ?thesis using checked [OF sp0] by simp
  qed
qed

lemma fill_draws:
  assumes ok: "shows_picture b e" and clp: "clip_ok psd (clip e)" and can: "canonical (rects (clipregion (clip e)))"
    and dev: small_device and dc: "solid_ctx dc"
    and rng: "in_range x" "in_range y" "in_range (x + w - 1)" "in_range (y + h - 1)" and pos: "0 < w" "0 < h"
    and cursor: "cursor_clear psd (cur e) x y (x + w - 1) (y + h - 1) \<or>
      fst (GdClipArea (point_ops d) g psd x y (x + w - 1) (y + h - 1) e) = CLIP_VISIBLE"
  shows "draws (in_area x y (x + w - 1) (y + h - 1)) b e (Some (GdFillRect_solid d dc psd x y w h e))"
proof -
  let ?r = "x + w - 1" and ?u = "y + h - 1"
  have gf: "dc_gr dc = g" "gr_foreground dc = fg" using dc by (simp_all add: solid_ctx_def)
  have scr: "flags psd AND PSF_SCREEN \<noteq> 0" using dev by (simp add: small_device_def)
  have plus: "SAFE_PLUS x w = x + w" "SAFE_PLUS y h = y + h"
    using rng by (simp_all add: SAFE_PLUS_def in_range_def MAX_MWCOORD_def)
  have le: "x \<le> ?r" "y \<le> ?u" using pos by simp_all
  obtain r e1 where ca: "GdClipArea (point_ops d) g psd x y ?r ?u e = (r, e1)" by fastforce
  note k = clip_area [OF clp rng(1,2) ca] and c = GdClipArea_cursor [OF ok clp rng(1,2) le ca]
  have same: "clip_same e e1" using k(1,2) by (simp add: clip_same_def)
  define e2 where "e2 = (if r = CLIP_VISIBLE then e1\<lparr>scr := FillRect d g (scr e1) x y ?r ?u fg\<rparr>
    else e1\<lparr>scr := fold (fill_part d dc x y w h) (rects (clipregion (clip e1))) (scr e1)\<rparr>)"
  have eq: "GdFillRect_solid d dc psd x y w h e = (if r = CLIP_INVISIBLE then e1 else fix_cursor (point_ops d) g psd e2)"
    using pos by (simp add: GdFillRect_solid_def plus gf ca e2_def)
  show ?thesis
  proof (cases "r = CLIP_INVISIBLE")
    case True
    then have "\<not> plottable e x' y'" if "in_area x y ?r ?u x' y'" for x' y'
      using k(4) [OF True, of x' y'] that by (simp add: in_area_def plottable_def)
    then have "repaint (\<lambda>x' y'. in_area x y ?r ?u x' y' \<and> plottable e x' y') b = b"
      by (intro ext) (auto simp: repaint_def)
    then show ?thesis using True eq c(1) same by (simp add: draws_def)
  next
    case False
    have "painted (\<lambda>x' y'. in_area x y ?r ?u x' y' \<and> plottable e x' y') (scr e1) (scr e2)"
    proof (cases "r = CLIP_VISIBLE")
      case True
      then have all: "plottable e x' y'" if "in_area x y ?r ?u x' y'" for x' y'
        using k(3) [OF True, of x' y'] that by (simp add: in_area_def plottable_def)
      then have "onscreen x y" "onscreen ?r ?u"
        using plottable_onscreen [OF clp] le by (auto simp: in_area_def)
      then show ?thesis using True all by (auto simp: painted_def e2_def paint_rect in_area_def)
    next
      case F: False
      have on: "(x', y') \<in> pts (rects (clipregion (clip e1))) \<Longrightarrow> onscreen x' y'" for x' y'
        using plottable_onscreen [OF clp] k(2) by (simp add: plottable_def rgn_pts_def)
      have "in_order (rects (clipregion (clip e1)))" using can k(2) canonical_in_order by simp
      from fill_parts_painted [OF dc this on, of x y w h] F show ?thesis
        by (simp add: e2_def plus plottable_def rgn_pts_def k(2))
    qed
    moreover have "cursor_clear psd (cur e1) x y ?r ?u" by (rule c(2)) (use cursor ca in auto)
    ultimately have "shows_picture (repaint (\<lambda>x' y'. in_area x y ?r ?u x' y' \<and> plottable e x' y') b) e2"
      by (intro paint_clear [OF c(1) _ scr]) (auto simp: e2_def in_area_def)
    then show ?thesis using False eq same by (auto simp: draws_def clip_same_def e2_def intro!: fixed)
  qed
qed

end

end
