(* ===== verification/Draw_Props.thy ===== *)
theory Draw_Props
  imports Draw_Proofs
begin

unbundle bit_operations_syntax

text \<open>
  The clip cache and the clipped drawing functions on the 32-bit driver: the theorems.
\<close>

section \<open>The 32-bit driver provides the interface\<close>

definition gen32_draw :: "SCREENDEVICE \<Rightarrow> fbmem draw_ops" where
  "gen32_draw psd = \<lparr>point_ops = gen32_ops psd, DrawHorzLine = (\<lambda>g. ScrGen32_DrawHorzLine g psd),
     DrawVertLine = (\<lambda>g. ScrGen32_DrawVertLine g psd), FillRect = (\<lambda>g. ScrGen32_FillRect g psd)\<rparr>"

text \<open>
  The drawing states in which the driver paints pixel by pixel: no global alpha, and an opaque
  colour in the blending mode.  \<open>paintable_gr\<close> changes nothing in these states.
\<close>

definition paintable :: "gr_state \<Rightarrow> pixel \<Rightarrow> bool" where
  "paintable g c \<longleftrightarrow> \<not> global_alpha_on g \<and> gr_alpha g \<le> 0xff \<and> (gr_mode g = MWMODE_SRC_OVER \<longrightarrow> chA c = 0xff)"

definition paintable_gr :: "gr_state \<Rightarrow> pixel \<Rightarrow> gr_state" where
  "paintable_gr g c = (if paintable g c then g else plain_copy g)"

lemma paintable_gr: "paintable (paintable_gr g c) c" "no_alpha (paintable_gr g c) = paintable_gr g c"
proof -
  show p: "paintable (paintable_gr g c) c"
    by (auto simp: paintable_gr_def plain_copy_def paintable_def global_alpha_on_def)
  then show "no_alpha (paintable_gr g c) = paintable_gr g c" by (simp add: no_alpha_def paintable_def)
qed

lemma paintable_dispatch:
  assumes "paintable g c"
  shows "dispatch_mode g c (\<lambda>c. store_run (scale_alpha g c) ps mem) (\<lambda>c. xor_run g c ps mem) A mem =
    map_run (pixel_step g c) ps mem"
proof (cases "gr_mode g = MWMODE_SRC_OVER")
  case True
  then have "chA c = 0xff" "gr_alpha g < 0 \<or> gr_alpha g = 0xff" "\<not> global_alpha_on g"
    using assms by (auto simp: paintable_def global_alpha_on_def)
  then show ?thesis using True alpha_bits(1) [of c]
    by (auto simp: dispatch_mode_def store_run_map pixel_step_def [abs_def] scale_alpha_off over_pixel_def)
next
  case False
  then show ?thesis using assms
    by (auto simp: dispatch_mode_def store_run_map xor_run_map pixel_step_def [abs_def] scale_alpha_black)
qed

lemma surface_addr:
  "pixel_addr psd x' y' = pixel_addr psd x y \<Longrightarrow> on_surface psd x y \<Longrightarrow> on_surface psd x' y' \<Longrightarrow> x' = x \<and> y' = y"
proof -
  assume a: "pixel_addr psd x' y' = pixel_addr psd x y" and on: "on_surface psd x y" "on_surface psd x' y'"
  have "\<bar>x' - x\<bar> < linelen psd" using on by (auto simp: on_surface_def)
  then show ?thesis using pixel_addr_inj [OF a] by simp
qed

lemma map_run_pixels:
  assumes "distinct (map (\<lambda>(x, y). pixel_addr psd x y) ps)" and "on_surface psd x y"
    and on: "\<And>x y. (x, y) \<in> set ps \<Longrightarrow> on_surface psd x y"
  shows "ScrGen32_ReadPixel psd (map_run f (map (\<lambda>(x, y). pixel_addr psd x y) ps) mem) x y =
    (if (x, y) \<in> set ps then f (ScrGen32_ReadPixel psd mem x y) else ScrGen32_ReadPixel psd mem x y)"
proof -
  have "(x', y') = (x, y)" if "(x', y') \<in> set ps" "pixel_addr psd x' y' = pixel_addr psd x y" for x' y'
    using surface_addr [OF that(2) assms(2) on [OF that(1)]] by simp
  then have "pixel_addr psd x y \<in> set (map (\<lambda>(x, y). pixel_addr psd x y) ps) \<longleftrightarrow> (x, y) \<in> set ps"
    by (force simp: image_iff)
  then show ?thesis using assms(1) by (simp add: ScrGen32_ReadPixel_def map_run_apply)
qed

text \<open>A line visits the pixels of a rectangle one pixel high or wide.\<close>

lemma horz_as_rect: "ScrGen32_DrawHorzLine g psd mem x1 x2 y c = map_run (pixel_step g c) (rect_addrs psd x1 y x2 y) mem"
  if "paintable g c"
proof -
  have "horz_addrs psd x1 x2 y = rect_addrs psd x1 y x2 y" by (simp add: horz_addrs_def rect_addrs_def)
  then show ?thesis
    unfolding ScrGen32_DrawHorzLine_def ScrGen32_DrawHorzLineDefault_def [abs_def] ScrGen32_DrawHorzLineXor_def [abs_def]
    using paintable_dispatch [OF that] by simp
qed

lemma vert_as_rect: "ScrGen32_DrawVertLine g psd mem x y1 y2 c = map_run (pixel_step g c) (rect_addrs psd x y1 x y2) mem"
  if "paintable g c"
proof -
  have "concat (map (\<lambda>i. [f i]) is) = map f is" for f :: "nat \<Rightarrow> int" and "is" by (induction "is") simp_all
  then have "vert_addrs psd x y1 y2 = rect_addrs psd x y1 x y2" by (simp add: vert_addrs_def rect_addrs_def)
  then show ?thesis
    unfolding ScrGen32_DrawVertLine_def ScrGen32_DrawVertLineDefault_def [abs_def] ScrGen32_DrawVertLineXor_def [abs_def]
    using paintable_dispatch [OF that] by simp
qed

lemma rect_as_run: "ScrGen32_FillRect g psd mem x1 y1 x2 y2 c = map_run (pixel_step g c) (rect_addrs psd x1 y1 x2 y2) mem"
  if "paintable g c"
  unfolding ScrGen32_FillRect_def ScrGen32_FillRectDefault_def [abs_def] ScrGen32_FillRectXor_def [abs_def]
  by (rule paintable_dispatch [OF that])

lemma run_painted:
  assumes on: "on_surface psd x1 y1" "on_surface psd x2 y2" "on_surface psd x y"
  shows "ScrGen32_ReadPixel psd (map_run f (rect_addrs psd x1 y1 x2 y2) mem) x y =
    (if x1 \<le> x \<and> x \<le> x2 \<and> y1 \<le> y \<and> y \<le> y2 then f (ScrGen32_ReadPixel psd mem x y)
     else ScrGen32_ReadPixel psd mem x y)"
proof -
  have "distinct (rect_addrs psd x1 y1 x2 y2)"
    by (rule distinct_rect_addrs) (use on in \<open>simp add: on_surface_def\<close>)
  moreover have "on_surface psd x' y'" if "(x', y') \<in> set (rect_pixels x1 y1 x2 y2)" for x' y'
    using that on by (auto simp: set_rect_pixels on_surface_def)
  ultimately show ?thesis
    using map_run_pixels [of psd "rect_pixels x1 y1 x2 y2" x y f mem] on(3)
    by (simp add: rect_addrs_pixels set_rect_pixels)
qed

lemma gen32_cursor_paintable:
  "cursor_screen (ScrGen32_ReadPixel (wide psd)) (\<lambda>mem. ScrGen32_DrawPixel (plain_copy (paintable_gr g fg)) (wide psd) mem)
    (on_surface (wide psd)) (gen32_ops (wide psd)) (paintable_gr g fg) (wide psd)"
  using gen32_cursor.cursor_screen_axioms [of psd "paintable_gr g fg"] by (simp only: paintable_gr(2))

interpretation gen32_drawing: drawing "ScrGen32_ReadPixel (wide psd)"
  "\<lambda>mem. ScrGen32_DrawPixel (plain_copy (paintable_gr g fg)) (wide psd) mem" "on_surface (wide psd)"
  "gen32_draw (wide psd)" "paintable_gr g fg" "wide psd" fg "pixel_step (paintable_gr g fg) fg" for psd g fg
proof (intro drawing.intro drawing_axioms.intro, goal_cases)
  case 1
  show ?case using gen32_cursor_paintable by (simp add: gen32_draw_def)
next
  case (2 x y x' y' s)
  then have "pixel_addr (wide psd) x' y' \<noteq> pixel_addr (wide psd) x y" if "(x', y') \<noteq> (x, y)"
    using surface_addr [of "wide psd" x' y' x y] that by auto
  then show ?case by (auto simp: gen32_draw_def gen32_ops_def ScrGen32_ReadPixel_def DrawPixel_step)
next
  case (3 x1 y x2 x' y' s)
  then show ?case
    using run_painted [of "wide psd" x1 y x2 y x' y'] by (auto simp: gen32_draw_def horz_as_rect paintable_gr(1))
next
  case (4 x y1 y2 x' y' s)
  then show ?case
    using run_painted [of "wide psd" x y1 x y2 x' y'] by (auto simp: gen32_draw_def vert_as_rect paintable_gr(1))
next
  case (5 x1 y1 x2 y2 x' y' s)
  then show ?case
    using run_painted [of "wide psd" x1 y1 x2 y2 x' y'] by (auto simp: gen32_draw_def rect_as_run paintable_gr(1))
qed

section \<open>The clip cache\<close>

text \<open>A history of the clip module.\<close>

datatype clip_call = SetRegion "MWCLIPREGION option" | Point MWCOORD MWCOORD | Area MWCOORD MWCOORD MWCOORD MWCOORD

fun clip_step :: "'s screen_ops \<Rightarrow> gr_state \<Rightarrow> SCREENDEVICE \<Rightarrow> clip_call \<Rightarrow> 's engine \<Rightarrow> 's engine" where
  "clip_step ops g psd (SetRegion r) e = e\<lparr>clip := GdSetClipRegion r (clip e)\<rparr>"
| "clip_step ops g psd (Point x y) e = snd (GdClipPoint ops g psd x y e)"
| "clip_step ops g psd (Area x1 y1 x2 y2) e = snd (GdClipArea ops g psd x1 y1 x2 y2 e)"

fun call_ok :: "SCREENDEVICE \<Rightarrow> clip_call \<Rightarrow> bool" where
  "call_ok psd (SetRegion r) \<longleftrightarrow> (case r of None \<Rightarrow> True | Some r \<Rightarrow> inside_device psd r)"
| "call_ok psd (Point x y) \<longleftrightarrow> in_range x \<and> in_range y"
| "call_ok psd (Area x1 y1 x2 y2) \<longleftrightarrow> in_range x1 \<and> in_range y1"

lemma clip_step_ok: "clip_ok psd (clip e) \<Longrightarrow> call_ok psd a \<Longrightarrow> clip_ok psd (clip (clip_step ops g psd a e))"
  by (cases a) (auto simp: set_clip_ok intro: clip_point(1) clip_area(1) prod.collapse [symmetric])

lemma clip_steps_ok:
  "clip_ok psd (clip e) \<Longrightarrow> list_all (call_ok psd) as \<Longrightarrow> clip_ok psd (clip (fold (clip_step ops g psd) as e))"
  by (induction as arbitrary: e) (auto intro: clip_step_ok)

text \<open>
  C14. The clip cache never gives a wrong answer, provided every region that is set lies on the device
  (\<open>inside_device\<close>) and every point and every upper left corner that is tested has coordinates in the range of
  \<open>MIN_MWCOORD\<close> to \<open>MAX_MWCOORD\<close>.  Then, after any sequence of calls that starts with
  \<open>GdSetClipRegion\<close>, \<open>GdClipPoint\<close> answers whether the
  point is in the current region, and \<open>GdClipArea\<close> answers "visible" only for areas inside it and
  "invisible" only for areas outside it.
\<close>

theorem clip_cache_sound:
  assumes "list_all (call_ok psd) (SetRegion r # as)" and "in_range x1" and "in_range y1"
  shows "let e = fold (clip_step ops g psd) (SetRegion r # as) e0; reg = clipregion (clip e);
      (vis, e1) = GdClipPoint ops g psd x1 y1 e; (res, e2) = GdClipArea ops g psd x1 y1 x2 y2 e
    in (vis \<longleftrightarrow> (x1, y1) \<in> rgn_pts reg) \<and> clipregion (clip e1) = reg \<and> clipregion (clip e2) = reg \<and>
       (res = CLIP_VISIBLE \<longrightarrow> (\<forall>x\<in>{x1..x2}. \<forall>y\<in>{y1..y2}. (x, y) \<in> rgn_pts reg)) \<and>
       (res = CLIP_INVISIBLE \<longrightarrow> (\<forall>x\<in>{x1..x2}. \<forall>y\<in>{y1..y2}. (x, y) \<notin> rgn_pts reg))"
proof -
  define e where "e = fold (clip_step ops g psd) (SetRegion r # as) e0"
  have ok: "clip_ok psd (clip e)"
    unfolding e_def using assms(1) by (auto intro!: clip_steps_ok set_clip_ok)
  obtain vis e1 where p: "GdClipPoint ops g psd x1 y1 e = (vis, e1)" by fastforce
  obtain res e2 where a: "GdClipArea ops g psd x1 y1 x2 y2 e = (res, e2)" by fastforce
  note cp = clip_point [OF ok assms(2,3) p] and ca = clip_area [OF ok assms(2,3) a]
  show ?thesis unfolding e_def [symmetric] using cp(3,5) ca by (simp add: p a Let_def)
qed


text \<open>Sample states for the witnesses: one clip rectangle, the cursor hidden.\<close>

definition sample_region :: "MWRECT list \<Rightarrow> MWCLIPREGION" where
  "sample_region rs = \<lparr>rsize = length rs, rtype = MWREGION_SIMPLE, rects = rs, extents = \<lparr>rleft = 0, rtop = 0, rright = 8, rbottom = 4\<rparr>\<rparr>"

definition sample_engine :: "MWRECT list \<Rightarrow> cursor \<Rightarrow> fbmem \<Rightarrow> fbmem engine" where
  "sample_engine rs c mem =
    \<lparr>clip = GdSetClipRegion (Some (sample_region rs))
       \<lparr>clipminx = 0, clipminy = 0, clipmaxx = 0, clipmaxy = 0, clipresult = False, clipregion = GdAllocRegion\<rparr>,
     cur = c, scr = mem\<rparr>"

definition sample_rect :: MWRECT where
  "sample_rect = \<lparr>rleft = 1, rtop = 1, rright = 5, rbottom = 3\<rparr>"

definition sample_ctx :: draw_ctx where
  "sample_ctx = \<lparr>dc_gr = sample_gr, gr_foreground = 0xff123456, gr_dashmask = 1, gr_dashcount = 0\<rparr>"

lemma sample_region_pts: "rgn_pts (sample_region [sample_rect]) = {1..<5} \<times> {1..<3}"
  by (auto simp: sample_region_def rgn_pts_def in_pts INRECT_def sample_rect_def)

lemma sample_inside: "inside_device sample_psd (sample_region [sample_rect])"
  by (auto simp: inside_device_def sample_region_pts on_psd_def sample_psd_def)

theorem clip_cache_sound_witness:
  "let e = fold (clip_step (gen32_ops sample_psd) sample_gr sample_psd)
        [SetRegion (Some (sample_region [sample_rect])), Point 7 3] (sample_engine [] sample_cursor (\<lambda>_. 0));
      (vis, e1) = GdClipPoint (gen32_ops sample_psd) sample_gr sample_psd 1 1 e;
      (res, e2) = GdClipArea (gen32_ops sample_psd) sample_gr sample_psd 1 1 4 2 e
    in (vis \<longleftrightarrow> (1, 1) \<in> rgn_pts (clipregion (clip e))) \<and> clipregion (clip e1) = clipregion (clip e) \<and>
       clipregion (clip e2) = clipregion (clip e)"
proof -
  have "list_all (call_ok sample_psd) [SetRegion (Some (sample_region [sample_rect])), Point 7 3]"
    using sample_inside by (simp add: in_range_def MIN_MWCOORD_def MAX_MWCOORD_def)
  moreover have "in_range 1" by (simp add: in_range_def MIN_MWCOORD_def MAX_MWCOORD_def)
  ultimately show ?thesis
    using clip_cache_sound [of sample_psd "Some (sample_region [sample_rect])" "[Point 7 3]" 1 1
        "gen32_ops sample_psd" sample_gr "sample_engine [] sample_cursor (\<lambda>_. 0)" 4 2]
    unfolding Let_def by (auto split: prod.splits)
qed

text \<open>
  The proviso is needed: the comment says that \<open>GdSetClipRegion\<close> modifies the rectangles to lie on
  the device, but that code is disabled.  A rectangle that reaches beyond the device makes
  \<open>GdClipPoint\<close> answer "visible" for points that are not on the device, and \<open>GdPoint\<close> writes to
  memory behind the surface.
\<close>

theorem clip_region_off_device:
  "\<exists>rs x y. \<not> on_psd sample_psd x y \<and>
     (let e = sample_engine rs sample_cursor (\<lambda>_. 0)
      in fst (GdClipPoint (gen32_ops sample_psd) sample_gr sample_psd x y e) \<and>
         scr (GdPoint (gen32_draw sample_psd) sample_ctx sample_psd x y e) (yvirtres sample_psd * linelen sample_psd + 2) = 0xff123456)"
  by (rule exI [of _ "[\<lparr>rleft = 0, rtop = 0, rright = 100, rbottom = 100\<rparr>]"], rule exI [of _ 2], rule exI [of _ 4]) code_simp

section \<open>Lines and rectangles\<close>

text \<open>
  The states in which the engine draws, and the result: the picture with the visible part of \<open>R\<close>
  painted, the cursor over it, the clip cache sound.
\<close>

definition drawable ::
  "SCREENDEVICE \<Rightarrow> draw_ctx \<Rightarrow> (MWCOORD \<Rightarrow> MWCOORD \<Rightarrow> pixel) \<Rightarrow> fbmem engine \<Rightarrow> bool" where
  "drawable psd dc b e \<longleftrightarrow> xvirtres psd \<le> linelen psd \<and> flags psd AND PSF_SCREEN \<noteq> 0 \<and>
     xvirtres psd \<le> MAX_MWCOORD + 1 \<and> yvirtres psd \<le> MAX_MWCOORD + 1 \<and>
     paintable (dc_gr dc) (gr_foreground dc) \<and> gr_dashcount dc = 0 \<and>
     clip_ok psd (clip e) \<and> cursor_on psd b (cur e) (scr e)"

definition shows_drawn ::
  "SCREENDEVICE \<Rightarrow> draw_ctx \<Rightarrow> (MWCOORD \<Rightarrow> MWCOORD \<Rightarrow> bool) \<Rightarrow> (MWCOORD \<Rightarrow> MWCOORD \<Rightarrow> pixel) \<Rightarrow>
   fbmem engine \<Rightarrow> fbmem engine option \<Rightarrow> bool" where
  "shows_drawn psd dc R b e res \<longleftrightarrow> (\<exists>e'. res = Some e' \<and>
     clip_ok psd (clip e') \<and> clipregion (clip e') = clipregion (clip e) \<and>
     cursor_on psd (\<lambda>x y. if R x y \<and> (x, y) \<in> rgn_pts (clipregion (clip e))
       then pixel_step (dc_gr dc) (gr_foreground dc) (b x y) else b x y) (cur e') (scr e'))"

text \<open>In such a state the interface holds of the surface as it is.\<close>

lemma drawable_drawing:
  assumes "drawable psd dc b e"
  shows "drawing (ScrGen32_ReadPixel psd) (\<lambda>mem. ScrGen32_DrawPixel (plain_copy (dc_gr dc)) psd mem) (on_psd psd)
    (gen32_draw psd) (dc_gr dc) psd (gr_foreground dc) (pixel_step (dc_gr dc) (gr_foreground dc))"
proof -
  have "plain_surface psd (dc_gr dc)" using assms by (simp add: drawable_def plain_surface_def paintable_def)
  then have same: "wide psd = psd" "on_surface psd = on_psd psd" by (simp_all add: plain_surface_same)
  have "paintable_gr (dc_gr dc) (gr_foreground dc) = dc_gr dc" using assms by (simp add: drawable_def paintable_gr_def)
  then show ?thesis
    using gen32_drawing.drawing_axioms [of psd "dc_gr dc" "gr_foreground dc"] by (simp add: same)
qed

lemma drawable_state:
  assumes "drawable psd dc b e"
  shows "drawing.shows_picture (ScrGen32_ReadPixel psd) (on_psd psd) b e" "clip_ok psd (clip e)"
    "drawing.small_device psd" "drawing.solid_ctx (dc_gr dc) (gr_foreground dc) dc"
  using assms
  by (simp_all add: drawable_def cursor_on_def drawing.shows_picture_def [OF drawable_drawing [OF assms]]
      drawing.small_device_def [OF drawable_drawing [OF assms]] drawing.solid_ctx_def [OF drawable_drawing [OF assms]])

lemma draws_shows:
  assumes dr: "drawable psd dc b e"
    and d: "drawing.draws (ScrGen32_ReadPixel psd) (on_psd psd) psd (pixel_step (dc_gr dc) (gr_foreground dc)) R b e res"
  shows "shows_drawn psd dc R b e res"
  using d
  by (auto simp: drawing.draws_def [OF drawable_drawing [OF dr]] drawing.clip_same_def [OF drawable_drawing [OF dr]]
      drawing.shows_picture_def [OF drawable_drawing [OF dr]] drawing.repaint_def [OF drawable_drawing [OF dr], abs_def]
      drawing.plottable_def [OF drawable_drawing [OF dr]] shows_drawn_def cursor_on_def)

lemma sample_drawable:
  "drawable sample_psd sample_ctx (ScrGen32_ReadPixel sample_psd mem) (sample_engine [sample_rect] sample_cursor mem)"
proof -
  have "chA 0xff123456 = 0xff" by code_simp
  then show ?thesis
    using set_clip_ok [where reg = "Some (sample_region [sample_rect])" and psd = sample_psd] sample_inside sample_plain
      sample_cursor_on [of mem]
    by (simp add: drawable_def sample_engine_def sample_ctx_def paintable_def plain_surface_def sample_gr_def
        sample_psd_def MAX_MWCOORD_def)
qed

lemma small_in_range: "- 1000 \<le> x \<Longrightarrow> x \<le> 1000 \<Longrightarrow> in_range x"
  by (simp add: in_range_def MIN_MWCOORD_def MAX_MWCOORD_def)

text \<open>
  C15. Points and straight lines, in a state where the driver paints pixel by pixel (\<open>drawable\<close>: no dashes, no
  global alpha, an opaque colour in the blending mode, the screen as surface, a sound clip cache, and
  the screen shows a picture with the cursor on it), from a start point in the
  coordinate range.  \<open>GdPoint\<close> paints its point and \<open>GdLine\<close> from \<open>(x1, y1)\<close> to
  \<open>(x2, y2)\<close>, horizontal or vertical, every point between the two, the last one only on demand
  (without it the two ends must differ);
  both clipped to the clip region, each point once (so that XOR works), with the cursor over the
  result - and the loops end.
\<close>

theorem line_correct:
  assumes dr: "drawable psd dc b e" and rng: "in_range x1" "in_range y1"
    and straight: "x1 = x2 \<or> y1 = y2" and last: "bDrawLastPoint \<or> (x1, y1) \<noteq> (x2, y2)"
  shows "shows_drawn psd dc (\<lambda>x y. x = x1 \<and> y = y1) b e (Some (GdPoint (gen32_draw psd) dc psd x1 y1 e)) \<and>
    shows_drawn psd dc (\<lambda>x y. min x1 x2 \<le> x \<and> x \<le> max x1 x2 \<and> min y1 y2 \<le> y \<and> y \<le> max y1 y2 \<and>
        (bDrawLastPoint \<or> (x, y) \<noteq> (x2, y2))) b e
      (GdLine_straight (gen32_draw psd) dc psd x1 y1 x2 y2 bDrawLastPoint e)"
proof
  note D = drawable_drawing [OF dr] and st = drawable_state [OF dr]
  show "shows_drawn psd dc (\<lambda>x y. x = x1 \<and> y = y1) b e (Some (GdPoint (gen32_draw psd) dc psd x1 y1 e))"
    by (rule draws_shows [OF dr drawing.point_draws [OF D st rng]])
  show "shows_drawn psd dc (\<lambda>x y. min x1 x2 \<le> x \<and> x \<le> max x1 x2 \<and> min y1 y2 \<le> y \<and> y \<le> max y1 y2 \<and>
        (bDrawLastPoint \<or> (x, y) \<noteq> (x2, y2))) b e
      (GdLine_straight (gen32_draw psd) dc psd x1 y1 x2 y2 bDrawLastPoint e)"
    by (rule draws_shows [OF dr drawing.line_draws [OF D st rng straight last]])
qed

definition frame :: "MWCOORD \<Rightarrow> MWCOORD \<Rightarrow> MWCOORD \<Rightarrow> MWCOORD \<Rightarrow> MWCOORD \<Rightarrow> MWCOORD \<Rightarrow> bool" where
  "frame x y w h x' y' \<longleftrightarrow> x \<le> x' \<and> x' < x + w \<and> y \<le> y' \<and> y' < y + h \<and>
     (x' = x \<or> x' = x + w - 1 \<or> y' = y \<or> y' = y + h - 1)"

theorem line_correct_witness:
  "shows_drawn sample_psd sample_ctx (\<lambda>x y. min 0 6 \<le> x \<and> x \<le> max 0 6 \<and> min 2 2 \<le> y \<and> y \<le> max 2 2 \<and>
      (False \<or> (x, y) \<noteq> (6, 2))) (ScrGen32_ReadPixel sample_psd (\<lambda>_. 0)) (sample_engine [sample_rect] sample_cursor (\<lambda>_. 0))
    (GdLine_straight (gen32_draw sample_psd) sample_ctx sample_psd 0 2 6 2 False (sample_engine [sample_rect] sample_cursor (\<lambda>_. 0)))"
  by (rule line_correct [OF sample_drawable, THEN conjunct2]) (simp_all add: small_in_range)

text \<open>
  The ends must differ: for a line from a point to itself without its last point, an empty line,
  the adjusted coordinates cross and \<open>drawrow\<close> swaps them back, so \<open>GdLine\<close> paints two points, the
  given one and its left neighbour.
\<close>

lemma drawrow_swap: "drawrow d dc psd x1 x2 y e = drawrow d dc psd x2 x1 y e"
  by (cases "x1 = x2") (auto simp: drawrow_def Let_def)

theorem empty_line_paints_two:
  assumes dr: "drawable psd dc b e" and rng: "in_range (x - 1)" "in_range y"
  shows "shows_drawn psd dc (\<lambda>x' y'. x' \<in> {x - 1, x} \<and> y' = y) b e
      (GdLine_straight (gen32_draw psd) dc psd x y x y False e)"
proof -
  note D = drawable_drawing [OF dr] and st = drawable_state [OF dr]
  have "GdLine_straight (gen32_draw psd) dc psd x y x y False e = GdLine_straight (gen32_draw psd) dc psd (x - 1) y x y True e"
    using drawrow_swap [of "gen32_draw psd" dc psd x "x - 1" y e] by (simp add: GdLine_straight_def last_point_def)
  moreover have "(\<lambda>x' y'. min (x - 1) x \<le> x' \<and> x' \<le> max (x - 1) x \<and> min y y \<le> y' \<and> y' \<le> max y y \<and>
      (True \<or> (x', y') \<noteq> (x, y))) = (\<lambda>x' y'. x' \<in> {x - 1, x} \<and> y' = y)"
    by (intro ext) auto
  ultimately show ?thesis
    using draws_shows [OF dr drawing.line_draws [OF D st rng, where ?x2.0 = x and ?y2.0 = y and bDrawLastPoint = True]]
    by simp
qed

theorem empty_line_paints_two_witness:
  "shows_drawn sample_psd sample_ctx (\<lambda>x y. x \<in> {3 - 1, 3} \<and> y = 2) (ScrGen32_ReadPixel sample_psd (\<lambda>_. 0))
    (sample_engine [sample_rect] sample_cursor (\<lambda>_. 0))
    (GdLine_straight (gen32_draw sample_psd) sample_ctx sample_psd 3 2 3 2 False (sample_engine [sample_rect] sample_cursor (\<lambda>_. 0)))"
  by (rule empty_line_paints_two [OF sample_drawable]) (simp_all add: small_in_range)

text \<open>
  \<open>GdRect\<close> paints the frame of the rectangle, clipped, and every point of it once - also the
  corners and the degenerate frames of width or height one.
\<close>

theorem rect_correct:
  assumes dr: "drawable psd dc b e" and rng: "in_range x" "in_range y" "in_range (x + w - 1)" "in_range (y + h - 1)"
    and pos: "0 < w" "0 < h"
  shows "shows_drawn psd dc (frame x y w h) b e (GdRect (gen32_draw psd) dc psd x y w h e)"
proof -
  have "frame x y w h = drawing.on_frame x y (x + w - 1) (y + h - 1)"
    by (intro ext) (auto simp: frame_def drawing.on_frame_def [OF drawable_drawing [OF dr]])
  then show ?thesis
    using draws_shows [OF dr drawing.rect_draws [OF drawable_drawing [OF dr] drawable_state [OF dr] rng pos]] by simp
qed

theorem rect_correct_witness:
  "shows_drawn sample_psd sample_ctx (frame (- 1) 1 4 2) (ScrGen32_ReadPixel sample_psd (\<lambda>_. 0))
    (sample_engine [sample_rect] sample_cursor (\<lambda>_. 0))
    (GdRect (gen32_draw sample_psd) sample_ctx sample_psd (- 1) 1 4 2 (sample_engine [sample_rect] sample_cursor (\<lambda>_. 0)))"
  by (rule rect_correct [OF sample_drawable]) (simp_all add: small_in_range)




section \<open>What goes wrong\<close>

text \<open>
  The proviso on the cursor is needed: when \<open>GdClipArea\<close> answers "partly visible", \<open>GdFillRect\<close>
  paints the parts without \<open>GdCheckCursor\<close>, over a cursor that may be shown there.  Here the cursor
  is on the screen, \<open>GdFillRect\<close> paints pixel \<open>(1, 1)\<close>, and hiding the cursor afterwards brings back
  the pixel from before the fill.
\<close>

theorem fill_over_cursor:
  "\<exists>rs mem. let (p, c, mem1) = GdShowCursor (gen32_ops sample_psd) sample_gr sample_psd sample_cursor mem;
       e = GdFillRect_solid (gen32_draw sample_psd) sample_ctx sample_psd 0 0 3 3 (sample_engine rs c mem1);
       (q, c2, mem2) = GdHideCursor (gen32_ops sample_psd) sample_gr sample_psd (cur e) (scr e)
     in canonical rs \<and> ScrGen32_ReadPixel sample_psd (scr e) 1 1 = 0xff123456 \<and>
        ScrGen32_ReadPixel sample_psd mem2 1 1 = ScrGen32_ReadPixel sample_psd mem 1 1"
proof (rule exI [of _ "[\<lparr>rleft = 0, rtop = 0, rright = 8, rbottom = 2\<rparr>, \<lparr>rleft = 0, rtop = 2, rright = 2, rbottom = 4\<rparr>]"],
    rule exI [of _ "\<lambda>_. 0"])
qed code_simp

text \<open>
  Dashed lines to the left of the device: the loop of \<open>drawrow\<close> compares an unsigned variable
  with a negative bound.  A row that ends at \<open>x = -1\<close> is never finished, and one that ends further
  left runs over every column from 0 on, on the device too.
\<close>

theorem dashed_row_left:
  assumes "gr_dashcount dc \<noteq> 0" and "x1 \<le> x2" and "- (2 ^ 31) \<le> x2" and "x2 < 0" and "0 < xvirtres psd"
  shows "drawrow d dc psd x1 x2 y e =
    (if x2 = - 1 then None
     else Some (snd (fold (dash_step d dc psd) (map (\<lambda>p. (as_int p, y)) [0..x2 + 2 ^ 32])
       (0, check_cursor_at (point_ops d) (dc_gr dc) psd 0 y x2 y e))))"
proof -
  have m: "x2 mod 2 ^ 32 = x2 + 2 ^ 32" using assms by (intro int_mod_pos_eq [of _ _ "- 1"]) simp_all
  then have "unsigned_range 0 x2 = (if x2 = - 1 then None else Some [0..x2 + 2 ^ 32])"
    by (simp add: unsigned_range_def)
  then show ?thesis using assms by (simp add: drawrow_def)
qed

theorem dashed_row_left_witness:
  "drawrow (gen32_draw sample_psd) (sample_ctx\<lparr>gr_dashcount := 4\<rparr>) sample_psd (- 5) (- 1) 0
    (sample_engine [sample_rect] sample_cursor (\<lambda>_. 0)) = None"
  using dashed_row_left [of "sample_ctx\<lparr>gr_dashcount := 4\<rparr>" "- 5" "- 1" sample_psd "gen32_draw sample_psd" 0
      "sample_engine [sample_rect] sample_cursor (\<lambda>_. 0)"] by (simp add: sample_psd_def)

end
