(* ===== verification/Engine_Types.thy ===== *)
theory Engine_Types
  imports Prelude
begin

text \<open>Types of the engine (\<open>include/device.h\<close>, \<open>mwtypes.h\<close>) that its drivers and the server share: colour gradations.\<close>

record MWGRADATION =
  direction :: int
  start_pos :: int
  grad_length :: int

abbreviation (input) GRADATION_NONE :: int where "GRADATION_NONE \<equiv> 0"
abbreviation (input) GRADATION_UP :: int where "GRADATION_UP \<equiv> 1"
abbreviation (input) GRADATION_DOWN :: int where "GRADATION_DOWN \<equiv> 2"
abbreviation (input) GRADATION_LEFT :: int where "GRADATION_LEFT \<equiv> 3"
abbreviation (input) GRADATION_RIGHT :: int where "GRADATION_RIGHT \<equiv> 4"

end
