(* ===== verification/Img_Model.thy ===== *)
theory Img_Model
  imports Scr_Props Engine_Types "HOL-Library.Signed_Division"
begin

unbundle bit_operations_syntax

text \<open>
  Scaled block copies and images of the 32-bit driver (\<open>drivers/scr_gen32.c\<close>).

  \<^item> The scaled copies step through the source with a fixed-point position (16 fraction bits), one
    source pixel per whole unit: \<open>advance\<close>.  A division by zero is \<open>None\<close>.  The positions are unbounded
    integers; in C a source of \<open>0x8000\<close> or more pixels overflows the shift \<open>srcW << 16\<close>, so the property of the scaled copies
    assumes smaller sources.
  \<^item> An image is its header together with its bits, read as bytes or as 32-bit words; the bits are
    the image's own memory, which no drawing function writes.
  \<^item> \<open>pConvTable\<close>, the table from palette indices to pixels, is the function \<open>conv\<close>.
\<close>

section \<open>Scaled block copies\<close>

text \<open>\<open>for (pos += inc; pos >= 0x10000; pos -= 0x10000, p += step) { ; }\<close>\<close>

function advance :: "int \<Rightarrow> int \<Rightarrow> int \<Rightarrow> int \<times> int" where
  "advance pos p step = (if pos \<ge> 0x10000 then advance (pos - 0x10000) (p + step) step else (pos, p))"
  by auto
termination by (relation "measure (\<lambda>(pos, p, step). nat pos)") auto

fun stretch_row :: "nat \<Rightarrow> int \<Rightarrow> int \<Rightarrow> int \<Rightarrow> int \<Rightarrow> (int \<times> int) list" where
  "stretch_row 0 colInc colPos ps pd = []"
| "stretch_row (Suc wi) colInc colPos ps pd =
    (let (colPos', ps') = advance (colPos + colInc) ps 1
     in (ps, pd) # stretch_row wi colInc colPos' ps' (pd + 1))"

fun stretch_rows :: "nat \<Rightarrow> nat \<Rightarrow> int \<Rightarrow> int \<Rightarrow> int \<Rightarrow> int \<Rightarrow> int \<Rightarrow> int \<Rightarrow> int \<Rightarrow> (int \<times> int) list" where
  "stretch_rows w 0 colInc rowInc rowPos pSrc pDst srcLineLength dstLineLength = []"
| "stretch_rows w (Suc hi) colInc rowInc rowPos pSrc pDst srcLineLength dstLineLength =
    (let (rowPos', pSrc') = advance (rowPos + rowInc) pSrc srcLineLength
     in stretch_row w colInc 0 pSrc pDst @
        stretch_rows w hi colInc rowInc rowPos' pSrc' (pDst + dstLineLength) srcLineLength dstLineLength)"

definition stretch_pairs ::
  "SCREENDEVICE \<Rightarrow> MWCOORD \<Rightarrow> MWCOORD \<Rightarrow> MWCOORD \<Rightarrow> MWCOORD \<Rightarrow> SCREENDEVICE \<Rightarrow> MWCOORD \<Rightarrow> MWCOORD \<Rightarrow>
   MWCOORD \<Rightarrow> MWCOORD \<Rightarrow> (int \<times> int) list option" where
  "stretch_pairs dstPsd dstX dstY dstW dstH srcPsd srcX srcY srcW srcH =
    (if dstW = 0 \<or> dstH = 0 then None
     else Some (stretch_rows (nat dstW) (nat dstH) ((srcW * 0x10000) sdiv dstW) ((srcH * 0x10000) sdiv dstH) 0
       (pixel_addr srcPsd srcX srcY) (pixel_addr dstPsd dstX dstY) (linelen srcPsd) (linelen dstPsd)))"

definition ScrGen32_StretchBlitDefault ::
  "gr_state \<Rightarrow> SCREENDEVICE \<Rightarrow> fbmem \<Rightarrow> MWCOORD \<Rightarrow> MWCOORD \<Rightarrow> MWCOORD \<Rightarrow> MWCOORD \<Rightarrow>
   SCREENDEVICE \<Rightarrow> MWCOORD \<Rightarrow> MWCOORD \<Rightarrow> MWCOORD \<Rightarrow> MWCOORD \<Rightarrow> fbmem option" where
  "ScrGen32_StretchBlitDefault g dstPsd mem dstX dstY dstW dstH srcPsd srcX srcY srcW srcH =
    map_option (\<lambda>ps. copy_run (scale_alpha g) ps mem)
      (stretch_pairs dstPsd dstX dstY dstW dstH srcPsd srcX srcY srcW srcH)"

definition ScrGen32_StretchBlitXor ::
  "gr_state \<Rightarrow> SCREENDEVICE \<Rightarrow> fbmem \<Rightarrow> MWCOORD \<Rightarrow> MWCOORD \<Rightarrow> MWCOORD \<Rightarrow> MWCOORD \<Rightarrow>
   SCREENDEVICE \<Rightarrow> MWCOORD \<Rightarrow> MWCOORD \<Rightarrow> MWCOORD \<Rightarrow> MWCOORD \<Rightarrow> fbmem option" where
  "ScrGen32_StretchBlitXor g dstPsd mem dstX dstY dstW dstH srcPsd srcX srcY srcW srcH =
    map_option (\<lambda>ps. blit_xor_run g ps mem)
      (stretch_pairs dstPsd dstX dstY dstW dstH srcPsd srcX srcY srcW srcH)"

definition ScrGen32_StretchBlitAlpha ::
  "gr_state \<Rightarrow> SCREENDEVICE \<Rightarrow> fbmem \<Rightarrow> MWCOORD \<Rightarrow> MWCOORD \<Rightarrow> MWCOORD \<Rightarrow> MWCOORD \<Rightarrow>
   SCREENDEVICE \<Rightarrow> MWCOORD \<Rightarrow> MWCOORD \<Rightarrow> MWCOORD \<Rightarrow> MWCOORD \<Rightarrow> fbmem option" where
  "ScrGen32_StretchBlitAlpha g dstPsd mem dstX dstY dstW dstH srcPsd srcX srcY srcW srcH =
    map_option (\<lambda>ps. blit_alpha_run g (global_alpha_on g) ps mem 0 0 0)
      (stretch_pairs dstPsd dstX dstY dstW dstH srcPsd srcX srcY srcW srcH)"

definition ScrGen32_StretchBlit ::
  "gr_state \<Rightarrow> SCREENDEVICE \<Rightarrow> fbmem \<Rightarrow> MWCOORD \<Rightarrow> MWCOORD \<Rightarrow> MWCOORD \<Rightarrow> MWCOORD \<Rightarrow>
   SCREENDEVICE \<Rightarrow> MWCOORD \<Rightarrow> MWCOORD \<Rightarrow> MWCOORD \<Rightarrow> MWCOORD \<Rightarrow> 32 word \<Rightarrow> fbmem option" where
  "ScrGen32_StretchBlit g dstPsd mem dstX dstY dstW dstH srcPsd srcX srcY srcW srcH rop =
    (let m = rop AND 0xff000000
     in if m = push_bit 24 4
        then Some (ScrGen32_FillRectDefault g dstPsd mem dstX dstY (dstX + dstW - 1) (dstY + dstH - 1) 0)
        else if m = push_bit 24 16
        then ScrGen32_StretchBlitXor g dstPsd mem dstX dstY dstW dstH srcPsd srcX srcY srcW srcH
        else if m = push_bit 24 17
        then ScrGen32_StretchBlitAlpha g dstPsd mem dstX dstY dstW dstH srcPsd srcX srcY srcW srcH
        else ScrGen32_StretchBlitDefault g dstPsd mem dstX dstY dstW dstH srcPsd srcX srcY srcW srcH)"

section \<open>Images\<close>

record MWIMAGEHDR =
  im_bpp :: int
  pitch :: int
  compression :: "32 word"
  transcolor :: int
  image_bytes :: "int \<Rightarrow> 8 word"
  image_words :: "int \<Rightarrow> pixel"

text \<open>
  The pixels of a block in the order of the loops: column and row in the block, offset in the
  image, address on the surface; \<open>sl\<close> is the line length of the image in its units.
\<close>

definition image_items ::
  "SCREENDEVICE \<Rightarrow> MWCOORD \<Rightarrow> MWCOORD \<Rightarrow> MWCOORD \<Rightarrow> MWCOORD \<Rightarrow> int \<Rightarrow> MWCOORD \<Rightarrow> MWCOORD \<Rightarrow>
   (nat \<times> nat \<times> int \<times> int) list" where
  "image_items psd dstX dstY width height sl srcX srcY =
     concat (map (\<lambda>j. map (\<lambda>i. (i, j, srcY * sl + srcX + int j * sl + int i,
                               pixel_addr psd dstX dstY + int j * linelen psd + int i))
         [0..<nat width]) [0..<nat height])"

text \<open>The coloured pixels of an image of 8 bits, without the transparent ones, and of 32 bits.\<close>

definition colours8 ::
  "MWIMAGEHDR \<Rightarrow> (8 word \<Rightarrow> pixel) \<Rightarrow> SCREENDEVICE \<Rightarrow> MWCOORD \<Rightarrow> MWCOORD \<Rightarrow> MWCOORD \<Rightarrow> MWCOORD \<Rightarrow> MWCOORD \<Rightarrow> MWCOORD \<Rightarrow>
   (pixel \<times> int) list" where
  "colours8 im conv psd dstX dstY width height srcX srcY =
     map (\<lambda>(i, j, s, d). (conv (image_bytes im s), d))
       (filter (\<lambda>(i, j, s, d). uint (image_bytes im s) \<noteq> transcolor im)
         (image_items psd dstX dstY width height (pitch im) srcX srcY))"

definition colours32 ::
  "MWIMAGEHDR \<Rightarrow> SCREENDEVICE \<Rightarrow> MWCOORD \<Rightarrow> MWCOORD \<Rightarrow> MWCOORD \<Rightarrow> MWCOORD \<Rightarrow> MWCOORD \<Rightarrow> MWCOORD \<Rightarrow>
   (pixel \<times> int) list" where
  "colours32 im psd dstX dstY width height srcX srcY =
     map (\<lambda>(i, j, s, d). (image_words im s, d))
       (image_items psd dstX dstY width height (drop_bit 2 (pitch im)) srcX srcY)"

fun set_run :: "(pixel \<Rightarrow> pixel) \<Rightarrow> (pixel \<times> int) list \<Rightarrow> fbmem \<Rightarrow> fbmem" where
  "set_run f [] mem = mem"
| "set_run f ((c, d) # ps) mem = set_run f ps (mem(d := f c))"

fun image_xor_run :: "gr_state \<Rightarrow> (pixel \<times> int) list \<Rightarrow> fbmem \<Rightarrow> fbmem" where
  "image_xor_run g [] mem = mem"
| "image_xor_run g ((c, d) # ps) mem =
    image_xor_run g ps (mem(d := (gr_xorcolor g XOR c XOR mem d) OR 0xff000000))"

text \<open>
  The blending loops, with their cache: \<open>alpha\<close> is the alpha of a source pixel and \<open>opaque\<close> what is
  stored when it covers the destination or the destination is transparent.
\<close>

fun image_alpha_run ::
  "(pixel \<Rightarrow> pixel) \<Rightarrow> (pixel \<Rightarrow> pixel) \<Rightarrow> (pixel \<times> int) list \<Rightarrow> fbmem \<Rightarrow> pixel \<Rightarrow> pixel \<Rightarrow> pixel \<Rightarrow> fbmem" where
  "image_alpha_run alpha opaque [] mem src dst calc = mem"
| "image_alpha_run alpha opaque ((c, d) # ps) mem src dst calc =
    (if c = src \<and> mem d = dst then image_alpha_run alpha opaque ps (mem(d := calc)) src dst calc
     else
       let srcA = alpha c; srcR = chR c; srcG = chG c; srcB = chB c
       in if srcA = 0 then image_alpha_run alpha opaque ps mem src dst calc
          else if srcA = 0xff \<or> chA (mem d) = 0 then image_alpha_run alpha opaque ps (mem(d := opaque c)) src dst calc
          else
            let calc' = blend srcA (srcR * srcA) (srcG * srcA) (srcB * srcA) (mem d)
            in image_alpha_run alpha opaque ps (mem(d := calc')) c (mem d) calc')"

definition ScrGen32_Draw8BppImageDefault where
  "ScrGen32_Draw8BppImageDefault g psd mem dstX dstY width height im srcX srcY conv =
     set_run (scale_alpha g) (colours8 im conv psd dstX dstY width height srcX srcY) mem"

definition ScrGen32_Draw8BppImageXor where
  "ScrGen32_Draw8BppImageXor g psd mem dstX dstY width height im srcX srcY conv =
     image_xor_run g (colours8 im conv psd dstX dstY width height srcX srcY) mem"

definition ScrGen32_Draw8BppImageWithGlobalAlpha where
  "ScrGen32_Draw8BppImageWithGlobalAlpha g psd mem dstX dstY width height im srcX srcY conv =
     image_alpha_run (blit_src_alpha g (global_alpha_on g)) (\<lambda>c. c)
       (colours8 im conv psd dstX dstY width height srcX srcY) mem 0 0 0"

definition ScrGen32_Draw32BppImageDefault where
  "ScrGen32_Draw32BppImageDefault g psd mem dstX dstY width height im srcX srcY =
     set_run (scale_alpha g) (colours32 im psd dstX dstY width height srcX srcY) mem"

definition ScrGen32_Draw32BppImageXor where
  "ScrGen32_Draw32BppImageXor g psd mem dstX dstY width height im srcX srcY =
     image_xor_run g (filter (\<lambda>(c, d). c AND 0xff000000 \<noteq> 0) (colours32 im psd dstX dstY width height srcX srcY)) mem"

definition ScrGen32_Draw32BppImageAlpha where
  "ScrGen32_Draw32BppImageAlpha g psd mem dstX dstY width height im srcX srcY =
     (let ga = global_alpha_on g
      in image_alpha_run (blit_src_alpha g ga)
           (\<lambda>c. if ga then argb (blit_src_alpha g ga c) (chR c) (chG c) (chB c) else c)
           (colours32 im psd dstX dstY width height srcX srcY) mem 0 0 0)"


section \<open>Gradation\<close>

text \<open>The strength of a pixel in per cent; \<open>i\<close> and \<open>j\<close> are its column and row in the block.\<close>

definition grad_ratio :: "MWGRADATION \<Rightarrow> MWCOORD \<Rightarrow> MWCOORD \<Rightarrow> nat \<Rightarrow> nat \<Rightarrow> int" where
  "grad_ratio gr dstX dstY i j =
    (let ratio =
       (if direction gr = GRADATION_UP then (dstY + int j - start_pos gr) * 100 sdiv grad_length gr
        else if direction gr = GRADATION_DOWN
          then (grad_length gr - (dstY + int j - start_pos gr)) * 100 sdiv grad_length gr
        else if direction gr = GRADATION_LEFT then (dstX + int i - start_pos gr) * 100 sdiv grad_length gr
        else if direction gr = GRADATION_RIGHT
          then (grad_length gr - (dstX + int i - start_pos gr)) * 100 sdiv grad_length gr
        else 100);
       ratio = (if ratio < 0 then 0 else ratio)
     in if ratio > 100 then 100 else ratio)"

definition grad_alpha :: "pixel \<Rightarrow> int \<Rightarrow> pixel" where
  "grad_alpha srcA ratio = srcA * word_of_int ratio div 100 * 8 div 10"

fun gradation_run ::
  "gr_state \<Rightarrow> (pixel \<times> int \<times> int) list \<Rightarrow> fbmem \<Rightarrow> pixel \<Rightarrow> pixel \<Rightarrow> pixel \<Rightarrow> fbmem" where
  "gradation_run g [] mem src dst calc = mem"
| "gradation_run g ((c, ratio, d) # ps) mem src dst calc =
    (if c = src \<and> mem d = dst then gradation_run g ps (mem(d := calc)) src dst calc
     else
       let srcA0 = blit_src_alpha g (global_alpha_on g) c; srcR = chR c; srcG = chG c; srcB = chB c;
           srcA = grad_alpha srcA0 ratio
       in if srcA0 = 0 then gradation_run g ps mem src dst calc
          else if srcA = 0xff \<or> chA (mem d) = 0 then gradation_run g ps (mem(d := c)) src dst calc
          else
            let calc' = blend srcA (srcR * srcA) (srcG * srcA) (srcB * srcA) (mem d)
            in gradation_run g ps (mem(d := calc')) c (mem d) calc')"

definition ScrGen32_Draw32BppImageGradation where
  "ScrGen32_Draw32BppImageGradation g gr psd mem dstX dstY width height im srcX srcY =
    (if grad_length gr = 0 then mem
     else gradation_run g
       (map (\<lambda>(i, j, s, d). (image_words im s, grad_ratio gr dstX dstY i j, d))
         (image_items psd dstX dstY width height (drop_bit 2 (pitch im)) srcX srcY)) mem 0 0 0)"

section \<open>Any image\<close>

definition ScrGen32_DrawImage ::
  "gr_state \<Rightarrow> MWGRADATION \<Rightarrow> SCREENDEVICE \<Rightarrow> fbmem \<Rightarrow> MWCOORD \<Rightarrow> MWCOORD \<Rightarrow> MWCOORD \<Rightarrow> MWCOORD \<Rightarrow>
   MWIMAGEHDR \<Rightarrow> MWCOORD \<Rightarrow> MWCOORD \<Rightarrow> (8 word \<Rightarrow> pixel) \<Rightarrow> fbmem" where
  "ScrGen32_DrawImage g gr psd mem dstX dstY width height im srcX srcY conv =
    (if direction gr > GRADATION_NONE \<and> im_bpp im = 32
     then ScrGen32_Draw32BppImageGradation g gr psd mem dstX dstY width height im srcX srcY
     else if gr_mode g = MWMODE_CLEAR
     then ScrGen32_FillRectDefault g psd mem dstX dstY (dstX + width - 1) (dstY + height - 1) 0
     else if gr_mode g = MWMODE_XOR_FGBG then
       (if im_bpp im = 8 then ScrGen32_Draw8BppImageXor g psd mem dstX dstY width height im srcX srcY conv
        else if im_bpp im = 32 then ScrGen32_Draw32BppImageXor g psd mem dstX dstY width height im srcX srcY
        else mem)
     else if gr_mode g = MWMODE_SRC_OVER then
       (if im_bpp im = 8 then
          (if gr_alpha g = 0xff \<or> gr_alpha g < 0
           then ScrGen32_Draw8BppImageDefault g psd mem dstX dstY width height im srcX srcY conv
           else if gr_alpha g > 0
           then ScrGen32_Draw8BppImageWithGlobalAlpha g psd mem dstX dstY width height im srcX srcY conv
           else mem)
        else if im_bpp im = 32 then ScrGen32_Draw32BppImageAlpha g psd mem dstX dstY width height im srcX srcY
        else mem)
     else
       (if im_bpp im = 8 then ScrGen32_Draw8BppImageDefault g psd mem dstX dstY width height im srcX srcY conv
        else if im_bpp im = 32 then ScrGen32_Draw32BppImageDefault g psd mem dstX dstY width height im srcX srcY
        else mem))"

definition ScrGen32_CanDrawImage :: "MWIMAGEHDR \<Rightarrow> bool" where
  "ScrGen32_CanDrawImage im = (im_bpp im = 8 \<or> (im_bpp im = 32 \<and> compression im AND 2 \<noteq> 0))"

end
