(* ===== verification/Img_Props.thy ===== *)
theory Img_Props
  imports Img_Model
begin

unbundle bit_operations_syntax

text \<open>
  Scaled copies read the source pixel at the scaled position and stay inside the source; copies without scaling and
  32-bit images are block copies; what the gradation loop makes of uniform pictures.
\<close>

section \<open>The fixed-point positions\<close>

definition scaled_pos :: "int \<Rightarrow> int \<Rightarrow> int \<Rightarrow> int" where
  "scaled_pos i s d = i * ((s * 0x10000) div d) div 0x10000"

lemma advance_small: "pos < 0x10000 \<Longrightarrow> advance pos p step = (pos, p)"
  by (subst advance.simps) simp

lemma advance_large: "0 \<le> pos \<Longrightarrow> advance (pos + 0x10000) p step = advance pos (p + step) step"
  by (subst advance.simps) simp

lemma div_step: "0 < k \<Longrightarrow> p + (q + k) div k * (step :: int) = p + step + q div k * step"
  by (simp only: div_add_self2 less_imp_neq distrib_right mult_1_left)

lemma advance_eq: "0 \<le> pos \<Longrightarrow> advance pos p step = (pos mod 0x10000, p + pos div 0x10000 * step)"
proof (induction "nat pos" arbitrary: pos p rule: less_induct)
  case less
  show ?case
  proof (cases "pos < 0x10000")
    case True
    then show ?thesis using less.prems by (simp only: advance_small mod_pos_pos_trivial div_pos_pos_trivial) simp
  next
    case False
    define q where "q = pos - 0x10000"
    have q: "pos = q + 0x10000" "0 \<le> q" using False by (simp_all only: q_def)
    have "nat q < nat pos" using q by linarith
    from less.hyps [OF this q(2)] show ?thesis
      unfolding q(1) advance_large [OF q(2)] mod_add_self2 by (simp only: div_step zero_less_numeral)
  qed
qed

lemma carry: "0 < k \<Longrightarrow> a div k + (a mod k + b) div k = (a + b) div (k :: int)"
proof -
  assume k: "0 < k"
  have e: "a + b = (a mod k + b) + a div k * k" using div_mult_mod_eq [of a k] by linarith
  show ?thesis unfolding e by (rule div_mult_self1 [symmetric]) (use k in simp)
qed

lemma map_Suc_shift: "map f [0..<Suc n] = f 0 # map (\<lambda>i. f (Suc i)) [0..<n]"
proof -
  have "[0..<Suc n] = 0 # map Suc [0..<n]" unfolding map_Suc_upt by (rule upt_conv_Cons) simp
  then show ?thesis by (simp only: list.map map_map comp_def)
qed

lemma stretch_row_eq:
  "0 \<le> pos \<Longrightarrow> pos < 0x10000 \<Longrightarrow> 0 \<le> inc \<Longrightarrow>
   stretch_row w inc pos ps pd = map (\<lambda>i. (ps + (pos + int i * inc) div 0x10000, pd + int i)) [0..<w]"
proof (induction w arbitrary: pos ps pd)
  case (Suc w)
  define k :: int where "k = 0x10000"
  have k: "0 < k" by (simp add: k_def)
  let ?a = "pos + inc"
  have adv: "advance ?a ps 1 = (?a mod k, ps + ?a div k)"
    using advance_eq [of ?a ps 1] Suc.prems unfolding k_def by (simp only: mult_1_right add_nonneg_nonneg)
  have IH: "stretch_row w inc (?a mod k) (ps + ?a div k) (pd + 1) =
      map (\<lambda>i. (ps + ?a div k + (?a mod k + int i * inc) div k, pd + 1 + int i)) [0..<w]"
    using Suc.IH [folded k_def] k Suc.prems(3) by (simp only: pos_mod_sign pos_mod_bound)
  have step: "ps + ?a div k + (?a mod k + int i * inc) div k = ps + (pos + int (Suc i) * inc) div k" for i
  proof -
    have e: "?a + int i * inc = pos + int (Suc i) * inc" by (simp add: distrib_right)
    show ?thesis unfolding carry [OF k, of ?a "int i * inc", unfolded e, symmetric] by (rule add.assoc)
  qed
  have "pos div k = 0" using Suc.prems(1,2) unfolding k_def [symmetric] by simp
  then show ?case
    unfolding k_def [symmetric] map_Suc_shift stretch_row.simps adv Let_def prod.case IH step by simp
qed simp

lemma stretch_rows_eq:
  "0 \<le> pos \<Longrightarrow> pos < 0x10000 \<Longrightarrow> 0 \<le> cinc \<Longrightarrow> 0 \<le> rinc \<Longrightarrow>
   stretch_rows w h cinc rinc pos ps pd sl dl =
     concat (map (\<lambda>j. map (\<lambda>i. (ps + (pos + int j * rinc) div 0x10000 * sl + int i * cinc div 0x10000,
       pd + int j * dl + int i)) [0..<w]) [0..<h])"
proof (induction h arbitrary: pos ps pd)
  case (Suc h)
  define k :: int where "k = 0x10000"
  have k: "0 < k" by (simp add: k_def)
  let ?a = "pos + rinc"
  have adv: "advance ?a ps sl = (?a mod k, ps + ?a div k * sl)"
    using advance_eq [of ?a ps sl] Suc.prems unfolding k_def by (simp only: add_nonneg_nonneg)
  have IH: "stretch_rows w h cinc rinc (?a mod k) (ps + ?a div k * sl) (pd + dl) sl dl =
      concat (map (\<lambda>j. map (\<lambda>i. (ps + ?a div k * sl + (?a mod k + int j * rinc) div k * sl + int i * cinc div k,
       pd + dl + int j * dl + int i)) [0..<w]) [0..<h])"
    using Suc.IH [folded k_def] k Suc.prems(3,4) by (simp only: pos_mod_sign pos_mod_bound)
  have step: "ps + ?a div k * sl + (?a mod k + int j * rinc) div k * sl = ps + (pos + int (Suc j) * rinc) div k * sl" for j
  proof -
    have e: "?a + int j * rinc = pos + int (Suc j) * rinc" by (simp add: distrib_right)
    show ?thesis unfolding carry [OF k, of ?a "int j * rinc", unfolded e, symmetric]
      by (simp only: distrib_right add.assoc)
  qed
  have d: "pd + dl + int j * dl = pd + int (Suc j) * dl" for j by (simp add: distrib_right)
  have first: "stretch_row w cinc 0 ps pd = map (\<lambda>i. (ps + int i * cinc div k, pd + int i)) [0..<w]"
    using stretch_row_eq [of 0 cinc w ps pd, folded k_def] Suc.prems(3) k by simp
  have "pos div k = 0" using Suc.prems(1,2) unfolding k_def [symmetric] by simp
  then show ?case
    unfolding k_def [symmetric] map_Suc_shift stretch_rows.simps adv Let_def prod.case IH step d first by simp
qed simp

lemma sdiv_pos: "0 \<le> a \<Longrightarrow> 0 < b \<Longrightarrow> a sdiv b = a div (b :: int)"
  by (simp add: signed_divide_int_def sgn_if)

lemma stretch_pairs_eq:
  assumes "0 < dw" "0 < dh" "0 < sw" "0 < sh"
  shows "stretch_pairs dp dx dy dw dh sp sx sy sw sh = Some (concat (map (\<lambda>j. map (\<lambda>i.
      (pixel_addr sp (sx + scaled_pos (int i) sw dw) (sy + scaled_pos (int j) sh dh), pixel_addr dp (dx + int i) (dy + int j)))
      [0..<nat dw]) [0..<nat dh]))"
proof -
  define k :: int where "k = 0x10000"
  define c where "c = (sw * k) div dw"
  define r where "r = (sh * k) div dh"
  have nn: "0 \<le> c" "0 \<le> r" using assms by (simp_all add: c_def r_def k_def pos_imp_zdiv_nonneg_iff)
  have sd: "(sw * k) sdiv dw = c" "(sh * k) sdiv dh = r" using assms by (simp_all add: c_def r_def k_def sdiv_pos)
  have n: "scaled_pos i sw dw = i * c div k" "scaled_pos j sh dh = j * r div k" for i j
    by (simp_all only: scaled_pos_def c_def r_def k_def)
  have s: "pixel_addr sp sx sy + (0 + int j * r) div k * linelen sp + int i * c div k =
      pixel_addr sp (sx + int i * c div k) (sy + int j * r div k)" for i j
    by (simp add: pixel_addr_def algebra_simps)
  have d: "pixel_addr dp dx dy + int j * linelen dp + int i = pixel_addr dp (dx + int i) (dy + int j)" for i j
    by (simp add: pixel_addr_def algebra_simps)
  have "0 \<le> (0 :: int)" "(0 :: int) < k" by (simp_all add: k_def)
  note rows = stretch_rows_eq [folded k_def, OF this nn]
  show ?thesis using assms unfolding stretch_pairs_def k_def [symmetric] sd n rows s d by simp
qed

text \<open>The position is in the source, and at most one pixel left of the exact one.\<close>

lemma scaled_pos_bounds:
  assumes i: "0 \<le> i" "i < d" and s: "0 < s"
  shows "0 \<le> scaled_pos i s d" "scaled_pos i s d < s" "scaled_pos i s d \<le> i * s div d"
    "d \<le> 0x10000 \<Longrightarrow> i * s div d \<le> scaled_pos i s d + 1"
proof -
  define k :: int where "k = 0x10000"
  have k: "0 < k" by (simp add: k_def)
  define c where "c = (s * k) div d"
  have n: "scaled_pos i s d = i * c div k" by (simp only: scaled_pos_def c_def k_def)
  obtain m where m: "s * k = c * d + m" "0 \<le> m" "m < d"
    using that [of "s * k mod d"] i by (simp add: c_def)
  have c: "0 \<le> c" using s k i by (simp add: c_def pos_imp_zdiv_nonneg_iff)
  obtain e where e: "i * c = scaled_pos i s d * k + e" "0 \<le> e" "e < k"
    using that [of "i * c mod k"] k by (simp add: n)
  obtain q f where f: "i * s = q * d + f" "0 \<le> f" "f < d" "q = i * s div d"
    using that [of "i * s div d" "i * s mod d"] i by simp
  show nn: "0 \<le> scaled_pos i s d" using i c k by (simp add: n pos_imp_zdiv_nonneg_iff)
  have low: "scaled_pos i s d * k * d \<le> i * s * k"
  proof -
    have "scaled_pos i s d * k * d \<le> i * c * d" using e(1,2) i by (intro mult_right_mono) simp_all
    also have "\<dots> \<le> i * (c * d + m)" using i m(2) by (simp add: distrib_left)
    finally show ?thesis using m(1) by (simp add: ac_simps)
  qed
  then have "scaled_pos i s d * d * k \<le> i * s * k" by (simp add: ac_simps)
  then have low': "scaled_pos i s d * d \<le> i * s" using k by simp
  have "i * s < s * d" using i s by (simp add: mult.commute)
  then have "scaled_pos i s d * d < s * d" using low' by simp
  then show "scaled_pos i s d < s" using i by simp
  have "scaled_pos i s d * d < (q + 1) * d" using low' f(1,3) by (simp add: distrib_right)
  then have "scaled_pos i s d < q + 1" using i by simp
  then show "scaled_pos i s d \<le> i * s div d" using f(4) by simp
  assume "d \<le> 0x10000"
  then have dk: "d \<le> k" by (simp add: k_def)
  have "q * d * k \<le> i * s * k" using f(1,2) k by (intro mult_right_mono) simp_all
  also have "\<dots> = i * c * d + i * m" using m(1) by (simp add: algebra_simps)
  also have "\<dots> < (scaled_pos i s d * k + k) * d + k * d"
  proof -
    have "i * c * d \<le> (scaled_pos i s d * k + k) * d" using e i by (intro mult_right_mono) simp_all
    moreover have "i * m < k * d" using i m dk by (intro mult_strict_mono') simp_all
    ultimately show ?thesis by simp
  qed
  finally have "q * (d * k) < (scaled_pos i s d + 2) * (d * k)" by (simp add: algebra_simps)
  then have "q < scaled_pos i s d + 2" using i k by (simp add: mult_less_cancel_right)
  then show "i * s div d \<le> scaled_pos i s d + 1" using f(4) by simp
qed

text \<open>Where the increment is an exact fixed-point number, so is the position.\<close>

lemma scaled_pos_exact:
  assumes "0 < d" and "(s * 0x10000) mod d = 0"
  shows "scaled_pos i s d = i * s div d"
proof -
  define k :: int where "k = 0x10000"
  obtain c where c: "s * k = d * c" using assms(2) unfolding k_def by (metis dvd_def mod_0_imp_dvd)
  have "i * s div d = (i * s * k) div (d * k)" by (simp add: k_def)
  also have "i * s * k = d * (i * c)" using c by (simp add: ac_simps)
  also have "d * (i * c) div (d * k) = i * c div k" using assms(1) by simp
  also have "c = (s * k) div d" using c assms(1) by simp
  finally show ?thesis by (simp add: scaled_pos_def k_def)
qed

lemma scaled_pos_same:
  assumes "0 < s"
  shows "scaled_pos i s s = i"
proof -
  define k :: int where "k = 0x10000"
  have "k \<noteq> 0" by (simp add: k_def)
  then have "i * (s * k div s) div k = i" using assms by simp
  then show ?thesis by (simp only: scaled_pos_def k_def)
qed


section \<open>Scaled copies\<close>

lemma stretch_dests:
  assumes "stretch_pairs dp dx dy dw dh sp sx sy sw sh = Some ps" and "0 < dw" "0 < dh" "0 < sw" "0 < sh"
  shows "map snd ps = rect_addrs dp dx dy (dx + dw - 1) (dy + dh - 1)"
proof -
  have ps: "ps = concat (map (\<lambda>j. map (\<lambda>i.
      (pixel_addr sp (sx + scaled_pos (int i) sw dw) (sy + scaled_pos (int j) sh dh), pixel_addr dp (dx + int i) (dy + int j)))
      [0..<nat dw]) [0..<nat dh])"
    using assms by (simp add: stretch_pairs_eq)
  have "pixel_addr dp (dx + int i) (dy + int j) = pixel_addr dp dx dy + int j * linelen dp + int i" for i j
    by (simp add: pixel_addr_def algebra_simps)
  then show ?thesis unfolding ps rect_addrs_def map_concat by (simp add: comp_def)
qed

lemma stretch_pairs_mem:
  assumes "stretch_pairs dp dx dy dw dh sp sx sy sw sh = Some ps" and "0 < dw" "0 < dh" "0 < sw" "0 < sh"
  shows "(s, d) \<in> set ps \<longleftrightarrow> (\<exists>i j. 0 \<le> i \<and> i < dw \<and> 0 \<le> j \<and> j < dh \<and>
    s = pixel_addr sp (sx + scaled_pos i sw dw) (sy + scaled_pos j sh dh) \<and> d = pixel_addr dp (dx + i) (dy + j))"
proof -
  have ps: "ps = concat (map (\<lambda>j. map (\<lambda>i.
      (pixel_addr sp (sx + scaled_pos (int i) sw dw) (sy + scaled_pos (int j) sh dh), pixel_addr dp (dx + int i) (dy + int j)))
      [0..<nat dw]) [0..<nat dh])"
    using assms by (simp add: stretch_pairs_eq)
  have "(s, d) \<in> set ps \<longleftrightarrow> (\<exists>i<nat dw. \<exists>j<nat dh.
    s = pixel_addr sp (sx + scaled_pos (int i) sw dw) (sy + scaled_pos (int j) sh dh) \<and> d = pixel_addr dp (dx + int i) (dy + int j))"
    unfolding ps by (fastforce simp: image_iff)
  also have "\<dots> \<longleftrightarrow> (\<exists>i j. 0 \<le> i \<and> i < dw \<and> 0 \<le> j \<and> j < dh \<and>
    s = pixel_addr sp (sx + scaled_pos i sw dw) (sy + scaled_pos j sh dh) \<and> d = pixel_addr dp (dx + i) (dy + j))"
    by (metis nat_int nat_less_iff of_nat_0_le_iff zless_nat_eq_int_zless zero_le_imp_eq_int nat_0_le)
  finally show ?thesis .
qed

text \<open>
  C17. A scaled copy of a source block of positive size below \<open>0x8000\<close> (the shifted sizes and the accumulators then fit in an
  \<open>int\<close>) to a destination block of positive size that shares no pixel with it and is not wider than a line: it gives every
  pixel \<open>(i, j)\<close> of the destination the source pixel at
  \<open>(scaled_pos i srcW dstW, scaled_pos j srcH dstH)\<close>, its alpha scaled by the global alpha, and changes nothing else.  The
  accumulators never leave the source block.  The position is not rounded to the nearest pixel: it is the exact
  position \<open>i * srcW / dstW\<close> rounded down, or (for destinations up to 65536 pixels) one less, and
  not less when \<open>dstW\<close> divides \<open>srcW << 16\<close>.
\<close>

theorem stretch_copies:
  assumes pos: "0 < dw" "0 < dh" "0 < sw" "0 < sh" and fit: "sw < 0x8000" "sh < 0x8000"
    and line: "dw \<le> linelen dp"
    and disj: "\<And>i j k l. i \<in> {0..<dw} \<Longrightarrow> j \<in> {0..<dh} \<Longrightarrow> k \<in> {0..<sw} \<Longrightarrow> l \<in> {0..<sh} \<Longrightarrow>
      pixel_addr dp (dx + i) (dy + j) \<noteq> pixel_addr sp (sx + k) (sy + l)"
  shows "\<exists>mem'. ScrGen32_StretchBlitDefault g dp mem dx dy dw dh sp sx sy sw sh = Some mem' \<and>
    (\<forall>i\<in>{0..<dw}. \<forall>j\<in>{0..<dh}. mem' (pixel_addr dp (dx + i) (dy + j)) =
      scale_alpha g (mem (pixel_addr sp (sx + scaled_pos i sw dw) (sy + scaled_pos j sh dh)))) \<and>
    (\<forall>q. q \<notin> set (rect_addrs dp dx dy (dx + dw - 1) (dy + dh - 1)) \<longrightarrow> mem' q = mem q) \<and>
    (\<forall>(d, s)\<in>{(dw, sw), (dh, sh)}. \<forall>i\<in>{0..<d}. scaled_pos i s d \<in> {0..<s} \<and>
      scaled_pos i s d \<le> i * s div d \<and> (d \<le> 0x10000 \<longrightarrow> i * s div d \<le> scaled_pos i s d + 1) \<and>
      ((s * 0x10000) mod d = 0 \<longrightarrow> scaled_pos i s d = i * s div d))"
proof -
  obtain ps where ps: "stretch_pairs dp dx dy dw dh sp sx sy sw sh = Some ps"
    using stretch_pairs_eq [OF pos] by blast
  note mem = stretch_pairs_mem [OF ps pos] and dests = stretch_dests [OF ps pos]
  have in_src: "scaled_pos i s d \<in> {0..<s}" if "i \<in> {0..<d}" "0 < s" for i s d
    using that scaled_pos_bounds(1,2) by simp
  have "s \<noteq> d'" if "(s, d) \<in> set ps" "(s', d') \<in> set ps" for s d s' d'
    using that in_src [OF _ pos(3)] in_src [OF _ pos(4)] disj unfolding mem by (metis atLeastLessThan_iff)
  then have "fst ` set ps \<inter> snd ` set ps = {}" by force
  moreover have "distinct (map snd ps)" unfolding dests by (rule distinct_rect_addrs) (use line in simp)
  ultimately have safe: "copy_safe ps" by (intro copy_safe_disjoint)
  have "copy_run (scale_alpha g) ps mem (pixel_addr dp (dx + i) (dy + j)) =
      scale_alpha g (mem (pixel_addr sp (sx + scaled_pos i sw dw) (sy + scaled_pos j sh dh)))"
    if "i \<in> {0..<dw}" "j \<in> {0..<dh}" for i j
    by (rule copy_run_at [OF safe]) (use that mem in auto)
  moreover have "copy_run (scale_alpha g) ps mem q = mem q" if "q \<notin> set (rect_addrs dp dx dy (dx + dw - 1) (dy + dh - 1))" for q
    using that copy_run_other [of q ps] unfolding dests [symmetric] by simp
  ultimately show ?thesis
    using in_src scaled_pos_bounds(3,4) scaled_pos_exact pos
    by (intro exI [of _ "copy_run (scale_alpha g) ps mem"]) (auto simp: ScrGen32_StretchBlitDefault_def ps)
qed

theorem stretch_copies_witness:
  "\<exists>mem'. ScrGen32_StretchBlitDefault sample_gr sample_psd (\<lambda>a. word_of_int a) 4 0 3 2 sample_psd 0 0 4 1 = Some mem' \<and>
    mem' (pixel_addr sample_psd (4 + 2) (0 + 1)) = scale_alpha sample_gr (word_of_int (pixel_addr sample_psd (0 + scaled_pos 2 4 3) (0 + scaled_pos 1 1 2)))"
proof -
  have d: "pixel_addr sample_psd (4 + i) (0 + j) \<noteq> pixel_addr sample_psd (0 + k) (0 + l)"
    if "i \<in> {0..<3}" "j \<in> {0..<2}" "k \<in> {0..<4}" "l \<in> {0..<1}" for i j k l
    using that by (simp add: pixel_addr_def sample_psd_def)
  have "3 \<le> linelen sample_psd" by (simp add: sample_psd_def)
  from stretch_copies [of 3 2 4 1 sample_psd 4 0 sample_psd 0 0 sample_gr "\<lambda>a. word_of_int a", OF _ _ _ _ _ _ this d]
  show ?thesis by fastforce
qed

text \<open>
  Without scaling, the scaled copy is the block copy: \<open>ScrGen32_StretchBlit\<close> with equal sizes is
  \<open>ScrGen32_Blit\<close>, in every mode and for every pair of surfaces and overlapping blocks.
\<close>

theorem stretch_identity:
  assumes "0 < w" and "0 < h"
  shows "ScrGen32_StretchBlit g dp mem dx dy w h sp sx sy w h rop = Some (ScrGen32_Blit g dp mem dx dy w h sp sx sy rop)"
proof -
  have "stretch_pairs dp dx dy w h sp sx sy w h = Some (blit_pairs dp dx dy w h sp sx sy)"
    using assms by (simp add: stretch_pairs_eq blit_pairs_pixels scaled_pos_same)
  then show ?thesis
    by (simp add: ScrGen32_StretchBlit_def ScrGen32_Blit_def ScrGen32_StretchBlitDefault_def
        ScrGen32_StretchBlitXor_def ScrGen32_StretchBlitAlpha_def ScrGen32_BlitDefault_def ScrGen32_BlitXor_def
        ScrGen32_BlitAlpha_def Let_def)
qed

theorem stretch_identity_witness:
  "ScrGen32_StretchBlit sample_gr sample_psd (\<lambda>_. 7) 1 0 2 2 sample_psd 0 1 2 2 0x11000000 =
    Some (ScrGen32_Blit sample_gr sample_psd (\<lambda>_. 7) 1 0 2 2 sample_psd 0 1 0x11000000)"
  by (rule stretch_identity) simp_all


section \<open>Images\<close>

text \<open>A 32-bit image that lies in memory, as a surface.\<close>

definition image_surface :: "MWIMAGEHDR \<Rightarrow> int \<Rightarrow> SCREENDEVICE \<Rightarrow> SCREENDEVICE" where
  "image_surface im a psd = psd\<lparr>addr := a, linelen := drop_bit 2 (pitch im)\<rparr>"

text \<open>The pairs of a block copy and the coloured pixels they stand for.\<close>

lemma colours32_pairs:
  "colours32 im psd dx dy w h sx sy =
     map (\<lambda>(s, d). (image_words im (s - a), d)) (blit_pairs psd dx dy w h (image_surface im a sp) sx sy)"
  by (simp add: colours32_def image_items_def blit_pairs_def image_surface_def pixel_addr_def map_concat comp_def
      algebra_simps)

text \<open>The loops over coloured pixels do what the loops over pairs do, while the sources keep their values.\<close>

definition holds_sources :: "(int \<Rightarrow> pixel) \<Rightarrow> (int \<times> int) list \<Rightarrow> fbmem \<Rightarrow> bool" where
  "holds_sources v ps mem \<longleftrightarrow> (\<forall>(s, d)\<in>set ps. mem s = v s) \<and> fst ` set ps \<inter> snd ` set ps = {}"

lemma holds_sources_Cons:
  "holds_sources v ((s, d) # ps) mem \<Longrightarrow> mem s = v s \<and> holds_sources v ps mem \<and> (\<forall>x. holds_sources v ps (mem(d := x)))"
  by (force simp: holds_sources_def)

lemma set_run_copy:
  "holds_sources v ps mem \<Longrightarrow> set_run f (map (\<lambda>(s, d). (v s, d)) ps) mem = copy_run f ps mem"
  by (induction f ps mem rule: copy_run.induct) (auto dest: holds_sources_Cons)

lemma image_xor_blit:
  "holds_sources v ps mem \<Longrightarrow>
   image_xor_run g (filter (\<lambda>(c, d). c AND 0xff000000 \<noteq> 0) (map (\<lambda>(s, d). (v s, d)) ps)) mem = blit_xor_run g ps mem"
  by (induction g ps mem rule: blit_xor_run.induct) (auto dest!: holds_sources_Cons)

lemma image_alpha_blit:
  "holds_sources v ps mem \<Longrightarrow>
   image_alpha_run (blit_src_alpha g ga) (\<lambda>c. if ga then argb (blit_src_alpha g ga c) (chR c) (chG c) (chB c) else c)
     (map (\<lambda>(s, d). (v s, d)) ps) mem src dst calc = blit_alpha_run g ga ps mem src dst calc"
proof (induction ps arbitrary: mem src dst calc)
  case (Cons p ps)
  obtain s d where p: "p = (s, d)" by fastforce
  note k = holds_sources_Cons [OF Cons.prems [unfolded p]]
  have IH: "image_alpha_run (blit_src_alpha g ga) (\<lambda>c. if ga then argb (blit_src_alpha g ga c) (chR c) (chG c) (chB c) else c)
     (map (\<lambda>(s, d). (v s, d)) ps) mem src dst calc = blit_alpha_run g ga ps mem src dst calc"
    "image_alpha_run (blit_src_alpha g ga) (\<lambda>c. if ga then argb (blit_src_alpha g ga c) (chR c) (chG c) (chB c) else c)
     (map (\<lambda>(s, d). (v s, d)) ps) (mem(d := x)) src dst calc = blit_alpha_run g ga ps (mem(d := x)) src dst calc" for x src dst calc
    using Cons.IH k by blast+
  show ?case unfolding p list.map prod.case image_alpha_run.simps blit_alpha_run.simps Let_def IH
    using k by (simp only: IH)
qed simp

text \<open>
  Drawing a 32-bit image without gradation is the block copy from a surface that holds the
  image's words, in every mode: the two families of loops in the driver agree.
\<close>

theorem image32_is_blit:
  assumes "im_bpp im = 32" and "direction gr \<le> GRADATION_NONE"
    and "holds_sources (\<lambda>s. image_words im (s - a)) (blit_pairs psd dx dy w h (image_surface im a sp) sx sy) mem"
    and "rop = (if gr_mode g = MWMODE_CLEAR then push_bit 24 4 else if gr_mode g = MWMODE_XOR_FGBG then push_bit 24 16
      else if gr_mode g = MWMODE_SRC_OVER then push_bit 24 17 else 0)"
  shows "ScrGen32_DrawImage g gr psd mem dx dy w h im sx sy conv =
    ScrGen32_Blit g psd mem dx dy w h (image_surface im a sp) sx sy rop"
proof -
  note c = colours32_pairs [of im psd dx dy w h sx sy a sp]
  have "ScrGen32_Draw32BppImageDefault g psd mem dx dy w h im sx sy =
      ScrGen32_BlitDefault g psd mem dx dy w h (image_surface im a sp) sx sy"
    unfolding ScrGen32_Draw32BppImageDefault_def ScrGen32_BlitDefault_def c by (rule set_run_copy [OF assms(3)])
  moreover have "ScrGen32_Draw32BppImageXor g psd mem dx dy w h im sx sy =
      ScrGen32_BlitXor g psd mem dx dy w h (image_surface im a sp) sx sy"
    unfolding ScrGen32_Draw32BppImageXor_def ScrGen32_BlitXor_def c by (rule image_xor_blit [OF assms(3)])
  moreover have "ScrGen32_Draw32BppImageAlpha g psd mem dx dy w h im sx sy =
      ScrGen32_BlitAlpha g psd mem dx dy w h (image_surface im a sp) sx sy"
    unfolding ScrGen32_Draw32BppImageAlpha_def ScrGen32_BlitAlpha_def c Let_def by (rule image_alpha_blit [OF assms(3)])
  ultimately show ?thesis using assms(1,2) unfolding assms(4) ScrGen32_DrawImage_def ScrGen32_Blit_def
    by (simp add: Let_def)
qed


definition sample_image :: MWIMAGEHDR where
  "sample_image = \<lparr>im_bpp = 32, pitch = 16, compression = 2, transcolor = - 1, image_bytes = (\<lambda>_. 0),
     image_words = (\<lambda>k. if k = 1 then 0x80ff0000 else 0xff00ff00)\<rparr>"

definition no_gradation :: MWGRADATION where
  "no_gradation = \<lparr>direction = GRADATION_NONE, start_pos = 0, grad_length = 0\<rparr>"

theorem image32_is_blit_witness:
  "ScrGen32_DrawImage sample_gr no_gradation sample_psd (\<lambda>p. if p = 101 then 0x80ff0000 else 0xff00ff00) 1 1 3 2
      sample_image 0 0 (\<lambda>_. 0) =
    ScrGen32_Blit sample_gr sample_psd (\<lambda>p. if p = 101 then 0x80ff0000 else 0xff00ff00) 1 1 3 2
      (image_surface sample_image 100 sample_psd) 0 0 (push_bit 24 17)"
proof (rule image32_is_blit)
  show "holds_sources (\<lambda>s. image_words sample_image (s - 100))
      (blit_pairs sample_psd 1 1 3 2 (image_surface sample_image 100 sample_psd) 0 0)
      (\<lambda>p. if p = 101 then 0x80ff0000 else 0xff00ff00)"
    by code_simp
qed (simp_all add: sample_image_def no_gradation_def sample_gr_def)

section \<open>Gradation\<close>

lemma byte_src_alpha: "byte (blit_src_alpha g (global_alpha_on g) c)"
proof (cases "global_alpha_on g")
  case True
  define a where "a = nat (gr_alpha g)"
  have a: "a < 255" "word_of_int (gr_alpha g) = (word_of_nat a :: pixel)"
    using True by (auto simp: a_def global_alpha_on_def)
  have c: "unat (chA c) < 256" by (rule unat_chA)
  have prod: "a * unat (chA c) \<le> 254 * 255" using a(1) c by (intro mult_le_mono) simp_all
  have "unat (word_of_nat a * chA c) = a * unat (chA c)"
    using a(1) prod by (simp add: unat_word_ariths unat_of_nat)
  moreover have "div255 (a * unat (chA c)) \<le> div255 (255 * 254)" using prod by (intro div255_mono) simp
  moreover have "div255 (255 * 254) = 254" by (rule div255_exact) simp
  ultimately have "unat (DIV255 (word_of_nat a * chA c)) < 256" using prod by (subst unat_DIV255) simp_all
  then show ?thesis using True a(2) by (simp add: byte_def blit_src_alpha_def)
next
  case False
  then show ?thesis by (simp add: blit_src_alpha_def byte_channels)
qed

lemma grad_alpha_small:
  assumes "byte a" and "0 \<le> r" "r \<le> 100"
  shows "grad_alpha a r \<noteq> 0xff"
proof -
  define k where "k = nat r"
  have k: "k \<le> 100" "word_of_int r = (word_of_nat k :: pixel)" using assms by (auto simp: k_def)
  have a: "unat a \<le> 255" using assms(1) by (simp add: byte_def)
  have m: "unat a * k \<le> 255 * 100" using a k(1) by (intro mult_le_mono) simp_all
  have u1: "unat (a * word_of_nat k) = unat a * k" using k(1) m by (simp add: unat_word_ariths unat_of_nat)
  define q where "q = unat a * k div 100"
  have q: "q \<le> 255" using div_le_mono [OF m, of 100] by (simp add: q_def)
  have "unat (a * word_of_nat k div 100) = q" by (simp add: unat_div u1 q_def)
  then have u2: "unat (a * word_of_nat k div 100 * 8) = q * 8" using q by (simp add: unat_word_ariths)
  have "q * 8 div 10 \<le> 255 * 8 div 10" using q by (intro div_le_mono mult_le_mono1)
  then have "unat (grad_alpha a r) < 255" unfolding grad_alpha_def k(2) by (simp add: unat_div u2)
  then show ?thesis by auto
qed

lemma grad_ratio_bounds: "0 \<le> grad_ratio gr dx dy i j" "grad_ratio gr dx dy i j \<le> 100"
  unfolding grad_ratio_def Let_def by simp_all

lemma gradation_hits:
  "\<forall>p\<in>set ps. fst p = c \<and> mem (snd (snd p)) = dst \<Longrightarrow> distinct (map (\<lambda>p. snd (snd p)) ps) \<Longrightarrow>
   gradation_run g ps mem c dst calc = store_run calc (map (\<lambda>p. snd (snd p)) ps) mem"
proof (induction ps arbitrary: mem)
  case (Cons p ps)
  obtain r d where p: "p = (c, r, d)" using Cons.prems(1) by (cases p) auto
  have "snd (snd q) \<noteq> d" if "q \<in> set ps" for q using Cons.prems(2) that by (force simp: p)
  then have "\<forall>q\<in>set ps. fst q = c \<and> (mem(d := calc)) (snd (snd q)) = dst" using Cons.prems(1) by simp
  from Cons.IH [OF this] show ?case using Cons.prems by (simp add: p del: fun_upd_apply)
qed simp

lemma image_items_dests:
  "map (\<lambda>(i, j, s, d). d) (image_items psd dx dy w h sl sx sy) = rect_addrs psd dx dy (dx + w - 1) (dy + h - 1)"
  by (simp add: image_items_def rect_addrs_def map_concat comp_def)

lemma image_items_first:
  assumes "0 < w" "0 < h"
  shows "\<exists>s d rest. image_items psd dx dy w h sl sx sy = (0, 0, s, d) # rest"
proof -
  have "[0..<nat w] = 0 # [1..<nat w]" "[0..<nat h] = 0 # [1..<nat h]"
    using assms by (simp_all add: upt_conv_Cons)
  then show ?thesis by (simp add: image_items_def)
qed

text \<open>
  The cache of the gradation loop ignores the strength of the gradation: an image of one colour
  over a background of one (not transparent) colour is not graded at all.  Whatever the direction and the
  length, every pixel gets the value computed for the first one.
\<close>

theorem gradation_uniform:
  assumes "direction gr > GRADATION_NONE" and "im_bpp im = 32" and "grad_length gr \<noteq> 0" and "0 < w" and "0 < h"
    and line: "w \<le> linelen psd" and image: "\<And>k. image_words im k = c"
    and dst: "\<And>p. p \<in> set (rect_addrs psd dx dy (dx + w - 1) (dy + h - 1)) \<Longrightarrow> mem p = d0"
    and vis: "blit_src_alpha g (global_alpha_on g) c \<noteq> 0" "chA d0 \<noteq> 0"
  shows "ScrGen32_DrawImage g gr psd mem dx dy w h im sx sy conv =
    (let a = grad_alpha (blit_src_alpha g (global_alpha_on g) c) (grad_ratio gr dx dy 0 0)
     in store_run (blend a (chR c * a) (chG c * a) (chB c * a) d0) (rect_addrs psd dx dy (dx + w - 1) (dy + h - 1)) mem)"
proof -
  let ?items = "image_items psd dx dy w h (drop_bit 2 (pitch im)) sx sy"
  let ?ps = "map (\<lambda>(i, j, s, d). (image_words im s, grad_ratio gr dx dy i j, d)) ?items"
  let ?a = "grad_alpha (blit_src_alpha g (global_alpha_on g) c) (grad_ratio gr dx dy 0 0)"
  let ?calc = "blend ?a (chR c * ?a) (chG c * ?a) (chB c * ?a) d0"
  obtain s d rest where first: "?items = (0, 0, s, d) # rest" using image_items_first [OF assms(4,5)] by blast
  define qs where "qs = map (\<lambda>(i, j, s, d). (image_words im s, grad_ratio gr dx dy i j, d)) rest"
  have ps: "?ps = (c, grad_ratio gr dx dy 0 0, d) # qs" by (simp add: first image qs_def)
  have dests: "map (\<lambda>p. snd (snd p)) ?ps = rect_addrs psd dx dy (dx + w - 1) (dy + h - 1)"
    unfolding image_items_dests [of psd dx dy w h "drop_bit 2 (pitch im)" sx sy, symmetric] by (simp add: case_prod_unfold comp_def)
  then have dl: "rect_addrs psd dx dy (dx + w - 1) (dy + h - 1) = d # map (\<lambda>p. snd (snd p)) qs" unfolding ps by simp
  have "distinct (rect_addrs psd dx dy (dx + w - 1) (dy + h - 1))" by (rule distinct_rect_addrs) (use line in simp)
  then have dist: "d \<notin> set (map (\<lambda>p. snd (snd p)) qs)" "distinct (map (\<lambda>p. snd (snd p)) qs)" unfolding dl by simp_all
  have d0: "mem d = d0" by (rule dst) (simp add: dl)
  have small: "?a \<noteq> 0xff" using grad_alpha_small [OF byte_src_alpha] grad_ratio_bounds by blast
  have hit: "\<not> (c = 0 \<and> mem d = 0)" using vis(2) d0 by (auto simp: chA_def)
  have "gradation_run g qs (mem(d := ?calc)) c d0 ?calc = store_run ?calc (map (\<lambda>p. snd (snd p)) qs) (mem(d := ?calc))"
  proof (rule gradation_hits [OF _ dist(2)], intro ballI conjI)
    fix q assume q: "q \<in> set qs"
    then show "fst q = c" by (auto simp: qs_def image)
    have "snd (snd q) \<noteq> d" using dist(1) q by auto
    then show "(mem(d := ?calc)) (snd (snd q)) = d0" using dst q by (simp add: dl)
  qed
  moreover have "gradation_run g ?ps mem 0 0 0 = gradation_run g qs (mem(d := ?calc)) c d0 ?calc"
    unfolding ps gradation_run.simps Let_def using small vis hit by (simp only: d0 if_False simp_thms)
  ultimately have "gradation_run g ?ps mem 0 0 0 = store_run ?calc (rect_addrs psd dx dy (dx + w - 1) (dy + h - 1)) mem"
    by (simp only: dl store_run.simps)
  then show ?thesis
    using assms(1-3) by (simp only: ScrGen32_DrawImage_def ScrGen32_Draw32BppImageGradation_def Let_def simp_thms if_True if_False)
qed


theorem gradation_uniform_witness:
  "let im = sample_image\<lparr>image_words := \<lambda>_. 0xffff0000\<rparr>; gr = \<lparr>direction = GRADATION_UP, start_pos = 0, grad_length = 2\<rparr>;
       out = ScrGen32_DrawImage sample_gr gr sample_psd (\<lambda>_. 0xff000000) 0 0 1 2 im 0 0 (\<lambda>_. 0)
   in grad_ratio gr 0 0 0 1 = 50 \<and> out (pixel_addr sample_psd 0 1) = 0xff000000"
proof -
  let ?im = "sample_image\<lparr>image_words := \<lambda>_. 0xffff0000\<rparr>"
    and ?gr = "\<lparr>direction = GRADATION_UP, start_pos = 0, grad_length = 2\<rparr>"
  have v: "blit_src_alpha sample_gr (global_alpha_on sample_gr) 0xffff0000 \<noteq> 0" "chA 0xff000000 \<noteq> 0" by code_simp+
  have "1 \<le> linelen sample_psd" by (simp add: sample_psd_def)
  from gradation_uniform [of ?gr ?im 1 2 sample_psd "0xffff0000" 0 0 "\<lambda>_. 0xff000000" "0xff000000" sample_gr, OF _ _ _ _ _ this _ _ v]
  have eq: "ScrGen32_DrawImage sample_gr ?gr sample_psd (\<lambda>_. 0xff000000) 0 0 1 2 ?im 0 0 (\<lambda>_. 0) =
    (let a = grad_alpha (blit_src_alpha sample_gr (global_alpha_on sample_gr) 0xffff0000) (grad_ratio ?gr 0 0 0 0)
     in store_run (blend a (chR 0xffff0000 * a) (chG 0xffff0000 * a) (chB 0xffff0000 * a) 0xff000000)
       (rect_addrs sample_psd 0 0 (0 + 1 - 1) (0 + 2 - 1)) (\<lambda>_. 0xff000000))"
    by (simp add: sample_image_def)
  show ?thesis unfolding Let_def eq by code_simp
qed

end
