(* ===== verification/Evt_Model.thy ===== *)
theory Evt_Model
  imports Prelude "HOL-Library.Monad_Syntax"
begin

text \<open>
  The event queues of the server (\<open>nanox/srvevent.c\<close>, \<open>nanox/srvfunc.c\<close>): singly linked lists with a
  head and a tail pointer per client, and one list of free elements.

  \<^item> A pointer to an element is a \<open>nat\<close>, the null pointer \<open>None\<close>; \<open>lnext\<close> and \<open>event\<close> are the fields
    of the elements in memory, \<open>clients\<close> the client structures.
  \<^item> \<open>NANOX_MALLOC\<close> hands out the elements of \<open>malloc\<close> one after the other and fails when there are
    none left.
  \<^item> The value \<open>None\<close> of an operation stands for a crash: a dereferenced null pointer, or a walk along a
    list that never ends.
  \<^item> Events are constructors with the fields the server fills in.  Identifiers are natural numbers;
    times are left out (\<open>GsGetTickCount\<close>).
\<close>

type_synonym client_ptr = nat
type_synonym GR_WINDOW_ID = nat

datatype button_dir = BUTTON_DOWN | BUTTON_UP
datatype mouse_kind = MOUSE_MOTION | MOUSE_POSITION
datatype key_dir = KEY_DOWN | KEY_UP
datatype general_kind = MOUSE_ENTER | MOUSE_EXIT | FOCUS_IN | FOCUS_OUT | PORTRAIT_CHANGED
datatype update_kind = UPDATE | CHLD_UPDATE

record mouse_data =
  e_wid :: GR_WINDOW_ID
  e_subwid :: GR_WINDOW_ID
  e_rootx :: MWCOORD
  e_rooty :: MWCOORD
  e_x :: MWCOORD
  e_y :: MWCOORD
  e_buttons :: "32 word"
  e_modifiers :: "32 word"

datatype GR_EVENT =
    EVENT_NONE
  | EVENT_ERROR string int GR_WINDOW_ID
  | EVENT_EXPOSURE GR_WINDOW_ID MWCOORD MWCOORD MWCOORD MWCOORD
  | EVENT_BUTTON button_dir mouse_data "32 word"
  | EVENT_MOUSE mouse_kind mouse_data
  | EVENT_KEYSTROKE key_dir mouse_data int int bool
  | EVENT_GENERAL general_kind GR_WINDOW_ID GR_WINDOW_ID
  | EVENT_UPDATE update_kind int GR_WINDOW_ID GR_WINDOW_ID MWCOORD MWCOORD MWCOORD MWCOORD
  | EVENT_TIMEOUT
  | EVENT_SCREENSAVER bool
  | EVENT_CLIENT_DATA_REQ GR_WINDOW_ID GR_WINDOW_ID nat nat
  | EVENT_CLIENT_DATA GR_WINDOW_ID GR_WINDOW_ID nat nat "8 word list"
  | EVENT_SELECTION_CHANGED GR_WINDOW_ID
  | EVENT_TIMER GR_WINDOW_ID nat

record gr_client =
  eventhead :: "nat option"
  eventtail :: "nat option"

record evq =
  lnext :: "nat \<Rightarrow> nat option"
  event :: "nat \<Rightarrow> GR_EVENT"
  clients :: "client_ptr \<Rightarrow> gr_client"
  eventfree :: "nat option"
  malloc :: "nat list"
  curclient :: "client_ptr option"
  curfunc :: "string option"

abbreviation (input) GR_ERROR_MALLOC_FAILED :: int where "GR_ERROR_MALLOC_FAILED \<equiv> 4"

section \<open>Allocation\<close>

text \<open>A new element from the free list, or from \<open>malloc\<close>.\<close>

definition take_element :: "evq \<Rightarrow> nat option \<times> evq" where
  "take_element s =
    (case eventfree s of
       Some elp \<Rightarrow> (Some elp, s\<lparr>eventfree := lnext s elp\<rparr>)
     | None \<Rightarrow> (case malloc s of [] \<Rightarrow> (None, s) | elp # m \<Rightarrow> (Some elp, s\<lparr>malloc := m\<rparr>)))"

text \<open>Adding an element at the end of a client's list.\<close>

definition link_last :: "client_ptr \<Rightarrow> nat \<Rightarrow> evq \<Rightarrow> evq" where
  "link_last c elp s =
    (let cl = clients s c;
         s1 = (if eventhead cl \<noteq> None then
                 (case eventtail cl of
                    None \<Rightarrow> s\<lparr>clients := (clients s)(c := cl\<lparr>eventtail := Some elp\<rparr>)\<rparr>
                  | Some t \<Rightarrow> s\<lparr>lnext := (lnext s)(t := Some elp)\<rparr>)
               else s\<lparr>clients := (clients s)(c := cl\<lparr>eventhead := Some elp\<rparr>)\<rparr>)
     in s1\<lparr>clients := (clients s1)(c := (clients s1 c)\<lparr>eventtail := Some elp\<rparr>),
           lnext := (lnext s1)(elp := None), event := (event s1)(elp := EVENT_NONE)\<rparr>)"

text \<open>
  When there is no memory, \<open>GsAllocEvent\<close> calls \<open>GsError\<close> with \<open>GR_ERROR_MALLOC_FAILED\<close>, which only prints
  a message for this code.
\<close>

definition GsAllocEvent :: "client_ptr \<Rightarrow> evq \<Rightarrow> nat option \<times> evq" where
  "GsAllocEvent c s =
    (case take_element s of
       (None, s1) \<Rightarrow> (None, s1)
     | (Some elp, s1) \<Rightarrow> (Some elp, link_last c elp s1))"

text \<open>\<open>ep = GsAllocEvent(client); if (ep == NULL) continue; ep->type = ...\<close>\<close>

definition post_event :: "client_ptr \<Rightarrow> GR_EVENT \<Rightarrow> evq \<Rightarrow> evq" where
  "post_event c e s =
    (case GsAllocEvent c s of
       (None, s1) \<Rightarrow> s1
     | (Some ep, s1) \<Rightarrow> s1\<lparr>event := (event s1)(ep := e)\<rparr>)"

text \<open>
  \<open>GsError\<close>: the name is cut to the 25 bytes of \<open>GR_FUNC_NAME\<close>.  The result of \<open>GsAllocEvent\<close> is
  used without a test.
\<close>

definition GsError :: "int \<Rightarrow> GR_WINDOW_ID \<Rightarrow> evq \<Rightarrow> evq option" where
  "GsError code ident s =
    (case curclient s of
       None \<Rightarrow> Some s
     | Some c \<Rightarrow>
         if code = GR_ERROR_MALLOC_FAILED then Some s
         else case GsAllocEvent c s of
             (None, s1) \<Rightarrow> None
           | (Some ep, s1) \<Rightarrow>
               let fname = (case curfunc s1 of None \<Rightarrow> [] | Some f \<Rightarrow> take 24 f)
               in Some (s1\<lparr>event := (event s1)(ep := EVENT_ERROR fname code ident)\<rparr>))"

section \<open>Removal\<close>

text \<open>The loop over a list with its trailing pointer, up to the first element that satisfies \<open>P\<close>.\<close>

partial_function (option) find_event ::
  "(GR_EVENT \<Rightarrow> bool) \<Rightarrow> evq \<Rightarrow> nat option \<Rightarrow> nat option \<Rightarrow> (nat option \<times> nat) option option" where
  "find_event P s prevelp elp =
    (if elp = None then Some None
     else if P (event s (the elp)) then Some (Some (prevelp, the elp))
     else find_event P s elp (lnext s (the elp)))"

definition unlink_event :: "client_ptr \<Rightarrow> nat option \<Rightarrow> nat \<Rightarrow> evq \<Rightarrow> evq" where
  "unlink_event c prevelp elp s =
    (let s1 = (case prevelp of
                 Some p \<Rightarrow> s\<lparr>lnext := (lnext s)(p := lnext s elp)\<rparr>
               | None \<Rightarrow> s\<lparr>clients := (clients s)(c := (clients s c)\<lparr>eventhead := lnext s elp\<rparr>)\<rparr>);
         s2 = (if eventtail (clients s1 c) = Some elp
               then s1\<lparr>clients := (clients s1)(c := (clients s1 c)\<lparr>eventtail := prevelp\<rparr>)\<rparr> else s1)
     in s2\<lparr>lnext := (lnext s2)(elp := eventfree s2), eventfree := Some elp\<rparr>)"

definition free_event :: "(GR_EVENT \<Rightarrow> bool) \<Rightarrow> client_ptr \<Rightarrow> evq \<Rightarrow> evq option" where
  "free_event P c s =
    (find_event P s None (eventhead (clients s c)) \<bind>
      (\<lambda>r. Some (case r of None \<Rightarrow> s | Some (prevelp, elp) \<Rightarrow> unlink_event c prevelp elp s)))"

fun enclosed_exposure :: "GR_WINDOW_ID \<Rightarrow> MWCOORD \<Rightarrow> MWCOORD \<Rightarrow> MWCOORD \<Rightarrow> MWCOORD \<Rightarrow> GR_EVENT \<Rightarrow> bool" where
  "enclosed_exposure wid x y width height (EVENT_EXPOSURE w ex ey ew eh) \<longleftrightarrow>
     w = wid \<and> \<not> (ex < x \<or> ey < y \<or> ex + ew > x + width \<or> ey + eh > y + height)"
| "enclosed_exposure wid x y width height _ \<longleftrightarrow> False"

definition GsFreeExposureEvent ::
  "client_ptr \<Rightarrow> GR_WINDOW_ID \<Rightarrow> MWCOORD \<Rightarrow> MWCOORD \<Rightarrow> MWCOORD \<Rightarrow> MWCOORD \<Rightarrow> evq \<Rightarrow> evq option" where
  "GsFreeExposureEvent c wid x y width height s = free_event (enclosed_exposure wid x y width height) c s"

fun same_position :: "GR_WINDOW_ID \<Rightarrow> GR_WINDOW_ID \<Rightarrow> GR_EVENT \<Rightarrow> bool" where
  "same_position wid subwid (EVENT_MOUSE MOUSE_POSITION d) \<longleftrightarrow> e_wid d = wid \<and> e_subwid d = subwid"
| "same_position wid subwid _ \<longleftrightarrow> False"

definition GsFreePositionEvent :: "client_ptr \<Rightarrow> GR_WINDOW_ID \<Rightarrow> GR_WINDOW_ID \<Rightarrow> evq \<Rightarrow> evq option" where
  "GsFreePositionEvent c wid subwid s = free_event (same_position wid subwid) c s"

text \<open>
  \<open>GrPeekEvent\<close> and \<open>CheckNextEvent\<close> for the current client \<open>c\<close>.  \<open>poll\<close> is \<open>GsSelect(-1)\<close>, which
  looks at the devices and may queue new events.
\<close>

definition GrPeekEvent :: "(evq \<Rightarrow> evq) \<Rightarrow> client_ptr \<Rightarrow> evq \<Rightarrow> GR_EVENT option \<times> evq" where
  "GrPeekEvent poll c s =
    (let s1 = (if eventhead (clients s c) = None then poll s else s)
     in (map_option (event s1) (eventhead (clients s1 c)), s1))"

definition CheckNextEvent :: "(evq \<Rightarrow> evq) \<Rightarrow> bool \<Rightarrow> client_ptr \<Rightarrow> evq \<Rightarrow> GR_EVENT \<times> evq" where
  "CheckNextEvent poll doCheckEvent c s =
    (case GrPeekEvent poll c s of
       (None, s1) \<Rightarrow> (EVENT_NONE, s1)
     | (Some ep, s1) \<Rightarrow>
         let elp = the (eventhead (clients s1 c));
             ep' = (if doCheckEvent \<and> event s1 elp = EVENT_TIMEOUT then EVENT_NONE else ep);
             cl = clients s1 c;
             cl' = cl\<lparr>eventhead := lnext s1 elp,
                      eventtail := (if eventtail cl = Some elp then None else eventtail cl)\<rparr>
         in (ep', s1\<lparr>clients := (clients s1)(c := cl'),
                     lnext := (lnext s1)(elp := eventfree s1), eventfree := Some elp\<rparr>))"

end
