(* ===== verification/Evt_Queue.thy ===== *)
theory Evt_Queue
  imports Evt_Model
begin

text \<open>
  The linked lists implement queues.  \<open>queues s qs fs\<close> describes the memory: following the pointers
  from the head of client \<open>c\<close> visits the elements \<open>qs c\<close>, the free list has the elements \<open>fs\<close>, and no element is
  in two places.  Every operation is then an operation on lists of events.
\<close>

section \<open>Following pointers\<close>

fun chain :: "(nat \<Rightarrow> nat option) \<Rightarrow> nat option \<Rightarrow> nat list \<Rightarrow> bool" where
  "chain nx p [] \<longleftrightarrow> p = None"
| "chain nx p (a # as) \<longleftrightarrow> p = Some a \<and> chain nx (nx a) as"

lemma chain_upd: "x \<notin> set as \<Longrightarrow> chain (nx(x := y)) p as = chain nx p as"
  by (induction as arbitrary: p) auto

lemma chain_cong: "(\<And>a. a \<in> set as \<Longrightarrow> nx a = nx' a) \<Longrightarrow> chain nx p as = chain nx' p as"
  by (induction as arbitrary: p) auto

lemma chain_hd: "chain nx p as \<Longrightarrow> p = None \<longleftrightarrow> as = []"
  by (cases as) auto

lemma chain_snoc:
  assumes "chain nx p as" and "distinct as" and "x \<notin> set as"
  shows "chain (nx(x := None, last as := (if as = [] then None else Some x))) (if as = [] then Some x else p) (as @ [x])"
  using assms
proof (induction as arbitrary: p)
  case (Cons a as)
  show ?case
  proof (cases "as = []")
    case False
    then have "a \<noteq> last as" using Cons.prems(2) by auto
    then show ?thesis using Cons False by auto
  qed (use Cons.prems in auto)
qed simp

text \<open>Taking an element out of the middle.\<close>

lemma chain_remove:
  assumes "chain nx p (as @ x # bs)" and "distinct (as @ x # bs)"
  shows "chain (if as = [] then nx else nx(last as := nx x)) (if as = [] then nx x else p) (as @ bs)"
  using assms
proof (induction as arbitrary: p)
  case Nil
  then show ?case by simp
next
  case (Cons a as)
  show ?case
  proof (cases "as = []")
    case True
    then show ?thesis using Cons.prems chain_upd [of a bs nx "nx x"] by (auto simp: fun_upd_def)
  next
    case False
    then have "a \<noteq> last as" using Cons.prems(2) by auto
    then show ?thesis using Cons False by auto
  qed
qed

section \<open>The state of the queues\<close>

definition queues :: "evq \<Rightarrow> (client_ptr \<Rightarrow> nat list) \<Rightarrow> nat list \<Rightarrow> bool" where
  "queues s qs fs \<longleftrightarrow>
     (\<forall>c. chain (lnext s) (eventhead (clients s c)) (qs c) \<and> distinct (qs c) \<and>
          eventtail (clients s c) = (if qs c = [] then None else Some (last (qs c)))) \<and>
     chain (lnext s) (eventfree s) fs \<and> distinct (fs @ malloc s) \<and>
     (\<forall>c d. c \<noteq> d \<longrightarrow> set (qs c) \<inter> set (qs d) = {}) \<and>
     (\<forall>c. set (qs c) \<inter> set (fs @ malloc s) = {})"

lemma queuesD:
  assumes "queues s qs fs"
  shows "chain (lnext s) (eventhead (clients s c)) (qs c)" "distinct (qs c)"
    "eventtail (clients s c) = (if qs c = [] then None else Some (last (qs c)))"
    "chain (lnext s) (eventfree s) fs" "distinct fs" "distinct (malloc s)" "set fs \<inter> set (malloc s) = {}"
    "c \<noteq> d \<Longrightarrow> set (qs c) \<inter> set (qs d) = {}" "set (qs c) \<inter> set fs = {}" "set (qs c) \<inter> set (malloc s) = {}"
  using assms by (auto simp: queues_def)

text \<open>The walk is determined by the memory.\<close>

lemma chain_unique: "chain nx p as \<Longrightarrow> chain nx p bs \<Longrightarrow> as = bs"
proof (induction as arbitrary: p bs)
  case Nil
  then show ?case by (cases bs) auto
next
  case (Cons a as)
  then show ?case by (cases bs) auto
qed

lemma queues_unique: "queues s qs fs \<Longrightarrow> queues s qs' fs' \<Longrightarrow> qs = qs' \<and> fs = fs'"
  by (auto simp: queues_def fun_eq_iff intro: chain_unique)


section \<open>Allocation\<close>

definition queue_room :: "evq \<Rightarrow> nat list \<Rightarrow> nat" where
  "queue_room s fs = length fs + length (malloc s)"

lemma take_element_queues:
  assumes q: "queues s qs fs"
  obtains (empty) "take_element s = (None, s)" "queue_room s fs = 0"
  | (elem) elp s1 fs1 where "take_element s = (Some elp, s1)" "queues s1 qs fs1" "elp \<notin> set fs1" "elp \<notin> set (malloc s1)"
      "\<And>c. elp \<notin> set (qs c)" "queue_room s fs = Suc (queue_room s1 fs1)" "event s1 = event s"
      "clients s1 = clients s" "lnext s1 = lnext s" "curclient s1 = curclient s" "curfunc s1 = curfunc s"
proof (cases fs)
  case (Cons f fs1)
  have "eventfree s = Some f" using queuesD(4) [OF q] Cons by simp
  then have t: "take_element s = (Some f, s\<lparr>eventfree := lnext s f\<rparr>)" by (simp add: take_element_def)
  have "queues (s\<lparr>eventfree := lnext s f\<rparr>) qs fs1" using q Cons by (auto simp: queues_def)
  then show ?thesis
    by (rule elem [OF t]) (use queuesD [OF q] Cons in \<open>auto simp: queue_room_def queues_def\<close>)
next
  case Nil
  then have none: "eventfree s = None" using queuesD(4) [OF q] by simp
  show ?thesis
  proof (cases "malloc s")
    case Nil
    then show ?thesis using empty none \<open>fs = []\<close> by (simp add: take_element_def queue_room_def)
  next
    case (Cons m ms)
    then have t: "take_element s = (Some m, s\<lparr>malloc := ms\<rparr>)" using none by (simp add: take_element_def)
    have "queues (s\<lparr>malloc := ms\<rparr>) qs []" using q Cons \<open>fs = []\<close> by (auto simp: queues_def)
    then show ?thesis
      by (rule elem [OF t]) (use queuesD [OF q] Cons \<open>fs = []\<close> in \<open>auto simp: queue_room_def queues_def\<close>)
  qed
qed

lemma client_upd:
  "cl\<lparr>eventtail := t\<rparr> = \<lparr>eventhead = eventhead cl, eventtail = t\<rparr>" for cl :: gr_client
  by (cases cl) simp

lemma link_last_queues:
  assumes q: "queues s qs fs" and new: "elp \<notin> set fs" "elp \<notin> set (malloc s)" "\<And>c. elp \<notin> set (qs c)"
  shows "queues (link_last c elp s) (qs(c := qs c @ [elp])) fs"
    and "event (link_last c elp s) = (event s)(elp := EVENT_NONE)" "malloc (link_last c elp s) = malloc s"
    and "curclient (link_last c elp s) = curclient s" "curfunc (link_last c elp s) = curfunc s"
proof -
  note D = queuesD [OF q]
  let ?s = "link_last c elp s"
  have ne: "eventhead (clients s c) = None \<longleftrightarrow> qs c = []" using chain_hd [OF D(1)] .
  have eq: "?s = s\<lparr>clients := (clients s)(c := \<lparr>eventhead = (if qs c = [] then Some elp else eventhead (clients s c)), eventtail = Some elp\<rparr>),
      lnext := (if qs c = [] then (lnext s)(elp := None) else (lnext s)(last (qs c) := Some elp, elp := None)),
      event := (event s)(elp := EVENT_NONE)\<rparr>"
    using ne D(3) [of c] by (cases "qs c = []") (auto simp: link_last_def Let_def client_upd)
  show "event ?s = (event s)(elp := EVENT_NONE)" "malloc ?s = malloc s" "curclient ?s = curclient s" "curfunc ?s = curfunc s"
    by (simp_all add: eq)
  have other: "lnext ?s a = lnext s a" if "a \<noteq> elp" "a \<notin> set (qs c)" for a
    using that by (auto simp: eq)
  have mine: "chain (lnext ?s) (eventhead (clients ?s c)) (qs c @ [elp])"
  proof (cases "qs c = []")
    case False
    then have "elp \<noteq> last (qs c)" using new(3) [of c] by auto
    then show ?thesis using False chain_snoc [OF D(1,2) new(3), of c] by (simp add: eq fun_upd_twist)
  qed (simp add: eq)
  have rest: "chain (lnext ?s) (eventhead (clients ?s d)) (qs d)" if "d \<noteq> c" for d
  proof -
    have "lnext ?s a = lnext s a" if "a \<in> set (qs d)" for a
      using other [of a] new(3) [of d] D(8) [of d c] \<open>d \<noteq> c\<close> that by auto
    then show ?thesis using D(1) [of d] chain_cong [of "qs d" "lnext ?s" "lnext s"] that by (simp add: eq)
  qed
  have free: "chain (lnext ?s) (eventfree ?s) fs"
  proof -
    have "lnext ?s a = lnext s a" if "a \<in> set fs" for a using other [of a] new(1) D(9) [of c] that by auto
    then show ?thesis using D(4) chain_cong [of fs "lnext ?s" "lnext s"] by (simp add: eq)
  qed
  have tail: "eventtail (clients ?s d) = (if (qs(c := qs c @ [elp])) d = [] then None else Some (last ((qs(c := qs c @ [elp])) d)))" for d
    using D(3) [of d] by (simp add: eq)
  show "queues ?s (qs(c := qs c @ [elp])) fs"
    unfolding queues_def
  proof (intro conjI allI impI)
    fix d
    show "chain (lnext ?s) (eventhead (clients ?s d)) ((qs(c := qs c @ [elp])) d)" using mine rest [of d] by simp
    show "distinct ((qs(c := qs c @ [elp])) d)" using D(2) [of d] D(2) [of c] new(3) [of c] by auto
    show "set ((qs(c := qs c @ [elp])) d) \<inter> set (fs @ malloc ?s) = {}"
      using D(9,10) [of d] D(9,10) [of c] new(1,2) by (auto simp: eq)
    show "set ((qs(c := qs c @ [elp])) d) \<inter> set ((qs(c := qs c @ [elp])) d') = {}" if "d \<noteq> d'" for d'
      using D(8) [OF that] D(8) [of c d'] D(8) [of d c] new(3) that by auto
  qed (use tail free D in \<open>simp_all add: eq\<close>)
qed

text \<open>Posting an event puts it at the end of the client's queue, unless memory has run out.\<close>

lemma post_event_queues:
  assumes q: "queues s qs fs"
  obtains (full) "post_event c e s = s" "queue_room s fs = 0"
  | (posted) elp fs1 where "queues (post_event c e s) (qs(c := qs c @ [elp])) fs1"
      "event (post_event c e s) = (event s)(elp := e)" "\<And>c. elp \<notin> set (qs c)"
      "queue_room s fs = Suc (queue_room (post_event c e s) fs1)"
proof (rule take_element_queues [OF q])
  assume "take_element s = (None, s)" "queue_room s fs = 0"
  then show ?thesis by (intro full) (simp_all add: post_event_def GsAllocEvent_def)
next
  fix elp s1 fs1
  assume t: "take_element s = (Some elp, s1)" and q1: "queues s1 qs fs1"
    and new: "elp \<notin> set fs1" "elp \<notin> set (malloc s1)" "\<And>c. elp \<notin> set (qs c)"
    and room: "queue_room s fs = Suc (queue_room s1 fs1)" and ev: "event s1 = event s"
  note L = link_last_queues [OF q1 new]
  have eq: "post_event c e s = (link_last c elp s1)\<lparr>event := (event (link_last c elp s1))(elp := e)\<rparr>"
    by (simp add: post_event_def GsAllocEvent_def t)
  show ?thesis
  proof (rule posted)
    show "queues (post_event c e s) (qs(c := qs c @ [elp])) fs1" using L(1) [of c] by (simp add: eq queues_def)
    show "event (post_event c e s) = (event s)(elp := e)" by (simp add: eq L(2) ev)
    show "queue_room s fs = Suc (queue_room (post_event c e s) fs1)" using room L(3) by (simp add: eq queue_room_def)
  qed (rule new(3))
qed


section \<open>Removal\<close>

fun remove_first :: "('a \<Rightarrow> bool) \<Rightarrow> 'a list \<Rightarrow> 'a list" where
  "remove_first P [] = []"
| "remove_first P (x # xs) = (if P x then xs else x # remove_first P xs)"

lemma remove_first_none: "\<forall>x\<in>set xs. \<not> P x \<Longrightarrow> remove_first P xs = xs"
  by (induction xs) auto

lemma remove_first_split: "\<forall>x\<in>set us. \<not> P x \<Longrightarrow> P x \<Longrightarrow> remove_first P (us @ x # vs) = us @ vs"
  by (induction us) auto

lemma find_event_chain:
  assumes "chain (lnext s) p as"
  shows "(find_event P s prevelp p = Some None \<and> (\<forall>a\<in>set as. \<not> P (event s a))) \<or>
    (\<exists>us x vs. as = us @ x # vs \<and> P (event s x) \<and> (\<forall>a\<in>set us. \<not> P (event s a)) \<and>
       find_event P s prevelp p = Some (Some (if us = [] then prevelp else Some (last us), x)))"
  using assms
proof (induction as arbitrary: p prevelp)
  case Nil
  then show ?case by (simp add: find_event.simps)
next
  case (Cons a as)
  then have p: "p = Some a" "chain (lnext s) (lnext s a) as" by simp_all
  show ?case
  proof (cases "P (event s a)")
    case True
    then have "find_event P s prevelp p = Some (Some (prevelp, a))" by (simp add: p(1) find_event.simps)
    then show ?thesis using True by (intro disjI2 exI [of _ "[]"]) simp
  next
    case False
    have step: "find_event P s prevelp p = find_event P s (Some a) (lnext s a)"
      using False by (simp add: p(1) find_event.simps [of P s prevelp])
    from Cons.IH [OF p(2), of "Some a"] show ?thesis
    proof (elim disjE exE conjE)
      fix us x vs
      assume u: "as = us @ x # vs" "P (event s x)" "\<forall>a\<in>set us. \<not> P (event s a)"
        "find_event P s (Some a) (lnext s a) = Some (Some (if us = [] then Some a else Some (last us), x))"
      then show ?thesis using False step by (intro disjI2 exI [of _ "a # us"]) auto
    qed (use False step in auto)
  qed
qed

lemma unlink_event_queues:
  assumes q: "queues s qs fs" and split: "qs c = us @ x # vs"
  shows "queues (unlink_event c (if us = [] then None else Some (last us)) x s) (qs(c := us @ vs)) (x # fs)"
    and "event (unlink_event c (if us = [] then None else Some (last us)) x s) = event s"
    and "malloc (unlink_event c (if us = [] then None else Some (last us)) x s) = malloc s"
proof -
  note D = queuesD [OF q]
  let ?prev = "if us = [] then None else Some (last us)"
  let ?s = "unlink_event c ?prev x s"
  have dist: "distinct (us @ x # vs)" using D(2) [of c] split by simp
  let ?nx = "if us = [] then lnext s else (lnext s)(last us := lnext s x)"
  have eq: "?s = s\<lparr>clients := (clients s)(c := \<lparr>eventhead = (if us = [] then lnext s x else eventhead (clients s c)),
        eventtail = (if vs = [] then ?prev else eventtail (clients s c))\<rparr>),
      lnext := ?nx(x := eventfree s), eventfree := Some x\<rparr>"
  proof -
    have tail: "eventtail (clients s c) = Some x \<longleftrightarrow> vs = []"
      using D(3) [of c] dist by (auto simp: split)
    show ?thesis using tail by (cases "clients s c"; cases "us = []") (auto simp: unlink_event_def Let_def fun_eq_iff)
  qed
  show "event ?s = event s" "malloc ?s = malloc s" by (simp_all add: eq)
  have mine: "chain (lnext ?s) (eventhead (clients ?s c)) (us @ vs)"
  proof -
    have "chain ?nx (if us = [] then lnext s x else eventhead (clients s c)) (us @ vs)"
      using chain_remove [of "lnext s" "eventhead (clients s c)" us x vs] D(1) [of c] dist by (simp add: split)
    moreover have "x \<notin> set (us @ vs)" using dist by auto
    ultimately show ?thesis using chain_upd [of x "us @ vs" ?nx] by (simp add: eq)
  qed
  have other: "lnext ?s a = lnext s a" if "a \<notin> set (qs c)" for a
    using that split by (auto simp: eq)
  have rest: "chain (lnext ?s) (eventhead (clients ?s d)) (qs d)" if "d \<noteq> c" for d
  proof -
    have "lnext ?s a = lnext s a" if "a \<in> set (qs d)" for a
      using other [of a] D(8) [OF \<open>d \<noteq> c\<close>] that by blast
    then have "chain (lnext ?s) p (qs d) = chain (lnext s) p (qs d)" for p by (rule chain_cong)
    moreover have "eventhead (clients ?s d) = eventhead (clients s d)" using that by (simp add: eq)
    ultimately show ?thesis using D(1) [of d] by simp
  qed
  have free: "chain (lnext ?s) (eventfree ?s) (x # fs)"
  proof -
    have "lnext ?s a = lnext s a" if "a \<in> set fs" for a using other [of a] D(9) [of c] that by blast
    then have "chain (lnext ?s) p fs = chain (lnext s) p fs" for p by (rule chain_cong)
    moreover have "eventfree ?s = Some x" "lnext ?s x = eventfree s" by (simp_all add: eq)
    ultimately show ?thesis using D(4) by simp
  qed
  have tail: "eventtail (clients ?s d) = (if (qs(c := us @ vs)) d = [] then None else Some (last ((qs(c := us @ vs)) d)))" for d
    using D(3) [of d] by (auto simp: eq split)
  have sub: "set ((qs(c := us @ vs)) d) \<subseteq> set (qs d)" for d by (auto simp: split)
  have x: "x \<in> set (qs c)" by (simp add: split)
  show "queues ?s (qs(c := us @ vs)) (x # fs)"
    unfolding queues_def
  proof (intro conjI allI impI)
    fix d
    show "chain (lnext ?s) (eventhead (clients ?s d)) ((qs(c := us @ vs)) d)" using mine rest [of d] by simp
    show "distinct ((qs(c := us @ vs)) d)" using D(2) [of d] dist by simp
    have "x \<notin> set ((qs(c := us @ vs)) d)" using x dist D(8) [of d c] by (cases "d = c") auto
    then show "set ((qs(c := us @ vs)) d) \<inter> set ((x # fs) @ malloc ?s) = {}"
      using sub [of d] D(9,10) [of d] by (auto simp: eq)
    show "set ((qs(c := us @ vs)) d) \<inter> set ((qs(c := us @ vs)) d') = {}" if "d \<noteq> d'" for d'
      using sub [of d] sub [of d'] D(8) [OF that] by blast
    show "distinct ((x # fs) @ malloc ?s)" using D(5,6,7) D(9,10) [of c] x by (auto simp: eq)
  qed (use tail free in simp_all)
qed

text \<open>
  \<open>GsFreeExposureEvent\<close> and \<open>GsFreePositionEvent\<close>: the walk ends, and the first event that satisfies the
  condition is out of the queue and on the free list.
\<close>

lemma free_event_queues:
  assumes q: "queues s qs fs"
  obtains s' qs' fs' where "free_event P c s = Some s'" "queues s' qs' fs'" "event s' = event s"
    "map (event s) (qs' c) = remove_first P (map (event s) (qs c))" "\<forall>d. d \<noteq> c \<longrightarrow> qs' d = qs d"
    "set (qs' c) \<subseteq> set (qs c)"
    "queue_room s' fs' = queue_room s fs + (if \<exists>e\<in>set (map (event s) (qs c)). P e then 1 else 0)"
proof -
  from find_event_chain [OF queuesD(1) [OF q, of c], of P None] show ?thesis
  proof (elim disjE exE conjE)
    assume "find_event P s None (eventhead (clients s c)) = Some None" "\<forall>a\<in>set (qs c). \<not> P (event s a)"
    then show ?thesis by (intro that [of s qs fs] q) (auto simp: free_event_def remove_first_none)
  next
    fix us x vs
    assume u: "qs c = us @ x # vs" "P (event s x)" "\<forall>a\<in>set us. \<not> P (event s a)"
      "find_event P s None (eventhead (clients s c)) = Some (Some (if us = [] then None else Some (last us), x))"
    note un = unlink_event_queues [OF q u(1)]
    have "remove_first P (map (event s) (qs c)) = map (event s) (us @ vs)"
      using u(2,3) remove_first_split [of "map (event s) us" P "event s x" "map (event s) vs"] by (simp add: u(1))
    then show ?thesis
      by (intro that [OF _ un(1,2)]) (use u un(3) in \<open>auto simp: free_event_def queue_room_def\<close>)
  qed
qed

text \<open>Taking the first event.\<close>

lemma CheckNextEvent_unlink:
  assumes "qs c = x # xs" and q: "queues s qs fs"
  shows "CheckNextEvent poll doCheckEvent c s =
    (if doCheckEvent \<and> event s x = EVENT_TIMEOUT then EVENT_NONE else event s x, unlink_event c None x s)"
proof -
  have h: "eventhead (clients s c) = Some x" using queuesD(1) [OF q, of c] assms(1) by simp
  have "(clients s c)\<lparr>eventhead := lnext s x, eventtail := (if eventtail (clients s c) = Some x then None else eventtail (clients s c))\<rparr> =
    (if eventtail (clients s c) = Some x then (clients s c)\<lparr>eventhead := lnext s x, eventtail := None\<rparr>
     else (clients s c)\<lparr>eventhead := lnext s x\<rparr>)"
    by (cases "clients s c") simp
  then show ?thesis by (simp add: CheckNextEvent_def GrPeekEvent_def h Let_def unlink_event_def)
qed

end
