(* ===== verification/Evt_Props.thy ===== *)
theory Evt_Props
  imports Evt_Queue
begin

text \<open>
  The event queues as an interface, its interpretation on the linked lists, and the theorems.
\<close>

section \<open>The interface\<close>

text \<open>
  \<open>pending s c\<close> are the events of client \<open>c\<close> in their order, \<open>room s\<close> the number of events that can
  still be queued.  \<open>drop P c\<close> takes out the first event of \<open>c\<close> that satisfies \<open>P\<close>, \<open>next_event c\<close> the first
  one.
\<close>

locale event_queue =
  fixes ok :: "'s \<Rightarrow> bool"
    and pending :: "'s \<Rightarrow> client_ptr \<Rightarrow> GR_EVENT list"
    and room :: "'s \<Rightarrow> nat"
    and post :: "client_ptr \<Rightarrow> GR_EVENT \<Rightarrow> 's \<Rightarrow> 's"
    and drop_event :: "(GR_EVENT \<Rightarrow> bool) \<Rightarrow> client_ptr \<Rightarrow> 's \<Rightarrow> 's option"
  assumes post_ok: "ok s \<Longrightarrow> ok (post c e s)"
    and post_pending: "ok s \<Longrightarrow> pending (post c e s) = (if room s = 0 then pending s else (pending s)(c := pending s c @ [e]))"
    and post_room: "ok s \<Longrightarrow> room (post c e s) = room s - 1"
    and drop_spec: "ok s \<Longrightarrow> \<exists>s'. drop_event P c s = Some s' \<and> ok s' \<and>
      pending s' = (pending s)(c := remove_first P (pending s c)) \<and>
      room s' = room s + (if \<exists>e\<in>set (pending s c). P e then 1 else 0)"
begin

text \<open>Posting a list of events: as many as there is room for, in their order.\<close>

lemma post_all:
  "ok s \<Longrightarrow> ok (fold (\<lambda>(c, e). post c e) ps s) \<and>
     pending (fold (\<lambda>(c, e). post c e) ps s) =
       (\<lambda>c. pending s c @ map snd (filter (\<lambda>p. fst p = c) (take (room s) ps))) \<and>
     room (fold (\<lambda>(c, e). post c e) ps s) = room s - length ps"
proof (induction ps arbitrary: s)
  case (Cons p ps)
  obtain c e where p: "p = (c, e)" by fastforce
  have ok: "ok (post c e s)" using Cons.prems post_ok by blast
  show ?case
  proof (cases "room s")
    case 0
    then show ?thesis
      using Cons.IH [OF ok] post_pending [OF Cons.prems, of c e] post_room [OF Cons.prems, of c e] by (auto simp: p)
  next
    case (Suc n)
    then show ?thesis
      using Cons.IH [OF ok] post_pending [OF Cons.prems, of c e] post_room [OF Cons.prems, of c e]
      by (auto simp: p fun_eq_iff)
  qed
qed simp

lemma post_all_room:
  assumes "ok s" and "length ps \<le> room s"
  shows "pending (fold (\<lambda>(c, e). post c e) ps s) c = pending s c @ map snd (filter (\<lambda>p. fst p = c) ps)"
  using post_all [OF assms(1), of ps] assms(2) by simp

text \<open>Replacing: drop an older event, then post the new one.\<close>

lemma replace_spec:
  assumes "ok s"
  shows "\<exists>s'. map_option (post c e) (drop_event P c s) = Some s' \<and> ok s' \<and>
    pending s' = (if room s = 0 \<and> (\<forall>e\<in>set (pending s c). \<not> P e) then pending s
      else (pending s)(c := remove_first P (pending s c) @ [e]))"
proof -
  obtain s1 where s1: "drop_event P c s = Some s1" "ok s1" "pending s1 = (pending s)(c := remove_first P (pending s c))"
    "room s1 = room s + (if \<exists>e\<in>set (pending s c). P e then 1 else 0)" using drop_spec [OF assms] by blast
  show ?thesis
  proof (cases "\<exists>e\<in>set (pending s c). P e")
    case True
    then show ?thesis using s1 post_ok [OF s1(2)] post_pending [OF s1(2), of c e] by auto
  next
    case False
    then have "remove_first P (pending s c) = pending s c" by (simp add: remove_first_none)
    then show ?thesis using False s1 post_ok [OF s1(2)] post_pending [OF s1(2), of c e] by auto
  qed
qed

end

section \<open>The linked lists provide the interface\<close>

partial_function (option) walk :: "(nat \<Rightarrow> nat option) \<Rightarrow> nat option \<Rightarrow> nat list option" where
  "walk nx p = (if p = None then Some [] else Option.bind (walk nx (nx (the p))) (\<lambda>as. Some (the p # as)))"

lemma walk_chain: "chain nx p as \<Longrightarrow> walk nx p = Some as"
proof (induction as arbitrary: p)
  case Nil
  then show ?case by (simp add: walk.simps)
next
  case (Cons a as)
  then show ?case by (subst walk.simps) simp
qed

definition evq_ok :: "evq \<Rightarrow> bool" where
  "evq_ok s \<longleftrightarrow> (\<exists>qs fs. queues s qs fs)"

definition pending_events :: "evq \<Rightarrow> client_ptr \<Rightarrow> GR_EVENT list" where
  "pending_events s c = (case walk (lnext s) (eventhead (clients s c)) of None \<Rightarrow> [] | Some as \<Rightarrow> map (event s) as)"

definition event_room :: "evq \<Rightarrow> nat" where
  "event_room s = (case walk (lnext s) (eventfree s) of None \<Rightarrow> 0 | Some as \<Rightarrow> length as) + length (malloc s)"

lemma queues_abs:
  assumes "queues s qs fs"
  shows "evq_ok s" "pending_events s c = map (event s) (qs c)" "event_room s = queue_room s fs"
  using assms walk_chain [OF queuesD(1) [OF assms, of c]] walk_chain [OF queuesD(4) [OF assms]]
  by (auto simp: evq_ok_def pending_events_def event_room_def queue_room_def)

lemma post_event_abs:
  assumes "evq_ok s"
  shows "evq_ok (post_event c e s)"
    "pending_events (post_event c e s) = (if event_room s = 0 then pending_events s
      else (pending_events s)(c := pending_events s c @ [e]))"
    "event_room (post_event c e s) = event_room s - 1"
proof (atomize (full), goal_cases)
  case 1
  obtain qs fs where q: "queues s qs fs" using assms by (auto simp: evq_ok_def)
  note Q = queues_abs [OF q]
  show ?case
  proof (rule post_event_queues [OF q, of c e])
    assume "post_event c e s = s" "queue_room s fs = 0"
    then show ?thesis using Q by (simp add: fun_eq_iff)
  next
    fix elp fs1
    assume p: "queues (post_event c e s) (qs(c := qs c @ [elp])) fs1" "event (post_event c e s) = (event s)(elp := e)"
      "\<And>c. elp \<notin> set (qs c)" "queue_room s fs = Suc (queue_room (post_event c e s) fs1)"
    have "map ((event s)(elp := e)) (qs d) = map (event s) (qs d)" for d using p(3) [of d] by (auto simp: map_eq_conv)
    then show ?thesis using Q queues_abs [OF p(1)] p(2,4) by (auto simp: fun_eq_iff)
  qed
qed

lemma free_event_abs:
  assumes "evq_ok s"
  shows "\<exists>s'. free_event P c s = Some s' \<and> evq_ok s' \<and>
    pending_events s' = (pending_events s)(c := remove_first P (pending_events s c)) \<and>
    event_room s' = event_room s + (if \<exists>e\<in>set (pending_events s c). P e then 1 else 0)"
proof -
  obtain qs fs where q: "queues s qs fs" using assms by (auto simp: evq_ok_def)
  note Q = queues_abs [OF q]
  obtain s' qs' fs' where f: "free_event P c s = Some s'" "queues s' qs' fs'" "event s' = event s"
    "map (event s) (qs' c) = remove_first P (map (event s) (qs c))" "\<forall>d. d \<noteq> c \<longrightarrow> qs' d = qs d"
    "queue_room s' fs' = queue_room s fs + (if \<exists>e\<in>set (map (event s) (qs c)). P e then 1 else 0)"
    by (rule free_event_queues [OF q, of P c]) blast
  have "pending_events s' = (pending_events s)(c := remove_first P (pending_events s c))"
    using queues_abs(2) [OF f(2)] Q(2) f(3,4,5) by (auto simp: fun_eq_iff)
  then show ?thesis using f(1,6) queues_abs(1,3) [OF f(2)] Q by auto
qed

interpretation evq: event_queue evq_ok pending_events event_room post_event free_event
  by unfold_locales (simp_all add: post_event_abs free_event_abs)

lemma CheckNextEvent_abs:
  assumes "evq_ok s" and "pending_events s c \<noteq> []"
  shows "evq_ok (snd (CheckNextEvent poll chk c s))"
    "pending_events (snd (CheckNextEvent poll chk c s)) = (pending_events s)(c := tl (pending_events s c))"
    "event_room (snd (CheckNextEvent poll chk c s)) = Suc (event_room s)"
    "fst (CheckNextEvent poll chk c s) =
      (if chk \<and> hd (pending_events s c) = EVENT_TIMEOUT then EVENT_NONE else hd (pending_events s c))"
proof (atomize (full), goal_cases)
  case 1
  obtain qs fs where q: "queues s qs fs" using assms by (auto simp: evq_ok_def)
  note Q = queues_abs [OF q]
  obtain x xs where x: "qs c = x # xs" using assms(2) Q(2) [of c] by (cases "qs c") auto
  note u = unlink_event_queues [OF q, of c "[]" x xs, simplified, OF x]
  note C = CheckNextEvent_unlink [OF x q, of poll chk]
  have "pending_events (unlink_event c None x s) = (pending_events s)(c := tl (pending_events s c))"
    using queues_abs(2) [OF u(1)] Q(2) u(2) x by (auto simp: fun_eq_iff)
  then show ?case using C queues_abs(1,3) [OF u(1)] Q u(3) x by (simp add: queue_room_def)
qed


section \<open>Refinement\<close>

text \<open>The calls of the server on its queues, on the linked lists and on lists of events.\<close>

datatype queue_call =
    Post client_ptr GR_EVENT
  | FreeExposure client_ptr GR_WINDOW_ID MWCOORD MWCOORD MWCOORD MWCOORD
  | FreePosition client_ptr GR_WINDOW_ID GR_WINDOW_ID
  | NextEvent client_ptr

fun queue_step :: "queue_call \<Rightarrow> evq \<Rightarrow> evq option" where
  "queue_step (Post c e) s = Some (post_event c e s)"
| "queue_step (FreeExposure c wid x y w h) s = GsFreeExposureEvent c wid x y w h s"
| "queue_step (FreePosition c wid subwid) s = GsFreePositionEvent c wid subwid s"
| "queue_step (NextEvent c) s = Some (snd (CheckNextEvent (\<lambda>s. s) True c s))"

fun list_step :: "queue_call \<Rightarrow> (client_ptr \<Rightarrow> GR_EVENT list) \<times> nat \<Rightarrow> (client_ptr \<Rightarrow> GR_EVENT list) \<times> nat" where
  "list_step (Post c e) (q, n) = (if n = 0 then (q, n) else (q(c := q c @ [e]), n - 1))"
| "list_step (FreeExposure c wid x y w h) (q, n) =
    (q(c := remove_first (enclosed_exposure wid x y w h) (q c)), if list_ex (enclosed_exposure wid x y w h) (q c) then n + 1 else n)"
| "list_step (FreePosition c wid subwid) (q, n) =
    (q(c := remove_first (same_position wid subwid) (q c)), if list_ex (same_position wid subwid) (q c) then n + 1 else n)"
| "list_step (NextEvent c) (q, n) = (q(c := tl (q c)), if q c = [] then n else n + 1)"

fun run_calls :: "queue_call list \<Rightarrow> evq \<Rightarrow> evq option" where
  "run_calls [] s = Some s"
| "run_calls (a # as) s = queue_step a s \<bind> run_calls as"

definition queue_abs :: "evq \<Rightarrow> (client_ptr \<Rightarrow> GR_EVENT list) \<times> nat" where
  "queue_abs s = (pending_events s, event_room s)"

lemma CheckNextEvent_none:
  assumes "evq_ok s" and "pending_events s c = []"
  shows "CheckNextEvent (\<lambda>s. s) chk c s = (EVENT_NONE, s)"
proof -
  obtain qs fs where q: "queues s qs fs" using assms by (auto simp: evq_ok_def)
  then have "eventhead (clients s c) = None" using queuesD(1) [OF q, of c] queues_abs(2) [OF q, of c] assms(2) by simp
  then show ?thesis by (simp add: CheckNextEvent_def GrPeekEvent_def)
qed

lemma queue_step_abs:
  assumes "evq_ok s"
  shows "\<exists>s'. queue_step a s = Some s' \<and> evq_ok s' \<and> queue_abs s' = list_step a (queue_abs s)"
proof (cases a)
  case (Post c e)
  then show ?thesis using post_event_abs [OF assms, of c e] by (simp add: queue_abs_def)
next
  case (FreeExposure c wid x y w h)
  then show ?thesis using free_event_abs [OF assms, of "enclosed_exposure wid x y w h" c]
    by (auto simp: GsFreeExposureEvent_def queue_abs_def list_ex_iff)
next
  case (FreePosition c wid subwid)
  then show ?thesis using free_event_abs [OF assms, of "same_position wid subwid" c]
    by (auto simp: GsFreePositionEvent_def queue_abs_def list_ex_iff)
next
  case (NextEvent c)
  then show ?thesis
    using CheckNextEvent_abs [OF assms, of c] CheckNextEvent_none [OF assms, of c] assms
    by (cases "pending_events s c = []") (simp_all add: queue_abs_def fun_upd_idem)
qed

text \<open>The server's initial state: no events, an empty free list.\<close>

definition initial_queues :: "nat \<Rightarrow> evq" where
  "initial_queues n = \<lparr>lnext = (\<lambda>_. None), event = (\<lambda>_. EVENT_NONE), clients = (\<lambda>_. \<lparr>eventhead = None, eventtail = None\<rparr>),
     eventfree = None, malloc = [0..<n], curclient = None, curfunc = None\<rparr>"

lemma initial_queues_ok: "queues (initial_queues n) (\<lambda>_. []) []"
  by (simp add: queues_def initial_queues_def)

text \<open>
  C18. The linked lists with their head, tail and free pointers implement one list of events per
  client: after any sequence of calls from the initial state, with any amount of memory, every call has returned, and
  following the pointers yields the events that the operations on lists yield, in order; no element is lost or shared.
\<close>

theorem queues_refine_lists:
  "\<exists>s. run_calls as (initial_queues n) = Some s \<and> evq_ok s \<and> queue_abs s = fold list_step as (\<lambda>_. [], n)"
proof -
  have run: "evq_ok s \<Longrightarrow> \<exists>s'. run_calls as s = Some s' \<and> evq_ok s' \<and> queue_abs s' = fold list_step as (queue_abs s)" for s
  proof (induction as arbitrary: s)
    case (Cons a as)
    obtain s1 where "queue_step a s = Some s1" "evq_ok s1" "queue_abs s1 = list_step a (queue_abs s)"
      using queue_step_abs [OF Cons.prems] by blast
    then show ?case using Cons.IH [of s1] by simp
  qed simp
  have "queue_abs (initial_queues n) = (\<lambda>_. [], n)"
    using queues_abs [OF initial_queues_ok [of n]] by (simp add: queue_abs_def queue_room_def initial_queues_def fun_eq_iff)
  then show ?thesis using run [of "initial_queues n"] queues_abs(1) [OF initial_queues_ok [of n]] by simp
qed

text \<open>
  \<open>GsError\<close> does not test the result of \<open>GsAllocEvent\<close>: when the memory for events has run out,
  an error on behalf of a client crashes the server, unless it reports the lack of memory itself; otherwise
  the client gets the error event.
\<close>

theorem error_needs_memory:
  assumes "evq_ok s" and "curclient s = Some c" and "code \<noteq> GR_ERROR_MALLOC_FAILED"
  shows "(event_room s = 0 \<longrightarrow> GsError code ident s = None) \<and>
    (event_room s \<noteq> 0 \<longrightarrow> (\<exists>s' nm. GsError code ident s = Some s' \<and> evq_ok s' \<and>
      pending_events s' = (pending_events s)(c := pending_events s c @ [EVENT_ERROR nm code ident])))"
proof -
  obtain qs fs where q: "queues s qs fs" using assms(1) by (auto simp: evq_ok_def)
  note Q = queues_abs [OF q]
  define e where "e = EVENT_ERROR (case curfunc s of None \<Rightarrow> [] | Some f \<Rightarrow> take 24 f) code ident"
  show ?thesis
  proof (rule take_element_queues [OF q])
    assume "take_element s = (None, s)" "queue_room s fs = 0"
    then show ?thesis using assms Q by (simp add: GsError_def GsAllocEvent_def)
  next
    fix elp s1 fs1
    assume t: "take_element s = (Some elp, s1)" "queues s1 qs fs1" "elp \<notin> set fs1" "elp \<notin> set (malloc s1)"
      "\<And>c. elp \<notin> set (qs c)" "queue_room s fs = Suc (queue_room s1 fs1)" "curfunc s1 = curfunc s"
    have "GsError code ident s = Some (post_event c e s)"
      using assms(2,3) link_last_queues(5) [OF t(2-5), of c] t(1,7)
      by (simp add: GsError_def GsAllocEvent_def post_event_def e_def Let_def)
    then show ?thesis using post_event_abs [OF assms(1), of c e] t(6) Q(3) by (auto simp: e_def)
  qed
qed

theorem error_needs_memory_witness:
  "GsError 5 7 ((initial_queues 0)\<lparr>curclient := Some 1\<rparr>) = None"
proof -
  have q: "queues ((initial_queues 0)\<lparr>curclient := Some 1\<rparr>) (\<lambda>_. []) []"
    using initial_queues_ok [of 0] by (simp add: queues_def)
  have "event_room ((initial_queues 0)\<lparr>curclient := Some 1\<rparr>) = 0"
    using queues_abs(3) [OF q] by (simp add: queue_room_def initial_queues_def)
  then show ?thesis using error_needs_memory [OF queues_abs(1) [OF q], of 1 5 7] by simp
qed

end
