(* ===== verification/Rgn_Algebra.thy ===== *)
theory Rgn_Algebra
  imports Rgn_Props
begin

text \<open>
  Regions as values: the operations on two regions that overwrite the first, and the interface through which
  the windows use them.
\<close>

text \<open>\<open>GdIntersectRegion(vis, vis, rgn)\<close> and \<open>GdSubtractRegion(vis, vis, rgn)\<close>, the two regions at the addresses 0 and 1.\<close>

definition intersect_region :: "MWCLIPREGION \<Rightarrow> MWCLIPREGION \<Rightarrow> MWCLIPREGION" where
  "intersect_region vis rgn = GdIntersectRegion ((\<lambda>_. rgn)(0 := vis)) 0 0 1 0"

definition subtract_region :: "MWCOORD \<Rightarrow> MWCLIPREGION \<Rightarrow> MWCLIPREGION \<Rightarrow> MWCLIPREGION" where
  "subtract_region beyond vis rgn = GdSubtractRegion beyond ((\<lambda>_. rgn)(0 := vis)) 0 0 1 0"

lemma intersect_region_ok:
  assumes "rgn_ok vis" and "rgn_ok rgn"
  shows "rgn_ok (intersect_region vis rgn)" "rgn_pts (intersect_region vis rgn) = rgn_pts vis \<inter> rgn_pts rgn"
  using intersect_stores [of "(\<lambda>_. rgn)(0 := vis)" 0 1 0] assms rgn_okD(4) [OF assms(1)]
  by (simp_all add: intersect_region_def stores_def)

lemma subtract_region_ok:
  assumes "rgn_ok vis" and "rgn_ok rgn"
  shows "rgn_ok (subtract_region beyond vis rgn)" "rgn_pts (subtract_region beyond vis rgn) = rgn_pts vis - rgn_pts rgn"
  using subtract_stores [of "(\<lambda>_. rgn)(0 := vis)" 0 1 0 beyond] assms rgn_okD(4) [OF assms(1)]
  by (simp_all add: subtract_region_def stores_def)

section \<open>The interface\<close>

locale region_algebra =
  fixes ok :: "'r \<Rightarrow> bool"
    and pts_of :: "'r \<Rightarrow> (MWCOORD \<times> MWCOORD) set"
    and inter :: "'r \<Rightarrow> 'r \<Rightarrow> 'r"
    and minus_rgn :: "'r \<Rightarrow> 'r \<Rightarrow> 'r"
    and shift :: "'r \<Rightarrow> MWCOORD \<Rightarrow> MWCOORD \<Rightarrow> 'r"
    and set_rect :: "'r \<Rightarrow> MWCOORD \<Rightarrow> MWCOORD \<Rightarrow> MWCOORD \<Rightarrow> MWCOORD \<Rightarrow> 'r"
  assumes inter_ok: "ok r \<Longrightarrow> ok s \<Longrightarrow> ok (inter r s) \<and> pts_of (inter r s) = pts_of r \<inter> pts_of s"
    and minus_ok: "ok r \<Longrightarrow> ok s \<Longrightarrow> ok (minus_rgn r s) \<and> pts_of (minus_rgn r s) = pts_of r - pts_of s"
    and shift_ok: "ok r \<Longrightarrow> ok (shift r dx dy) \<and> pts_of (shift r dx dy) = {(x, y). (x - dx, y - dy) \<in> pts_of r}"
    and set_rect_ok: "ok r \<Longrightarrow> x1 \<le> x2 \<Longrightarrow> y1 \<le> y2 \<Longrightarrow>
      ok (set_rect r x1 y1 x2 y2) \<and> pts_of (set_rect r x1 y1 x2 y2) = {(x, y). x1 \<le> x \<and> x < x2 \<and> y1 \<le> y \<and> y < y2}"
begin

text \<open>Cutting away an optional region, moved to its place.\<close>

lemma minus_shifted:
  assumes "ok r" and "\<And>s. ro = Some s \<Longrightarrow> ok s"
  shows "ok (case ro of None \<Rightarrow> r | Some s \<Rightarrow> minus_rgn r (shift s dx dy)) \<and>
    pts_of (case ro of None \<Rightarrow> r | Some s \<Rightarrow> minus_rgn r (shift s dx dy)) =
      pts_of r - (case ro of None \<Rightarrow> {} | Some s \<Rightarrow> {(x, y). (x - dx, y - dy) \<in> pts_of s})"
proof (cases ro)
  case (Some s)
  then show ?thesis using shift_ok [OF assms(2) [OF Some], of dx dy] minus_ok [OF assms(1), of "shift s dx dy"] by simp
qed (use assms in simp)

lemma inter_shifted:
  assumes "ok r" and "\<And>s. ro = Some s \<Longrightarrow> ok s"
  shows "ok (case ro of None \<Rightarrow> r | Some s \<Rightarrow> inter r (shift s dx dy)) \<and>
    pts_of (case ro of None \<Rightarrow> r | Some s \<Rightarrow> inter r (shift s dx dy)) =
      pts_of r \<inter> (case ro of None \<Rightarrow> UNIV | Some s \<Rightarrow> {(x, y). (x - dx, y - dy) \<in> pts_of s})"
proof (cases ro)
  case (Some s)
  then show ?thesis using shift_ok [OF assms(2) [OF Some], of dx dy] inter_ok [OF assms(1), of "shift s dx dy"] by simp
qed (use assms in simp)

text \<open>Moving a region and moving it back gives the same points.\<close>

lemma shift_back: "ok r \<Longrightarrow> pts_of (shift (shift r dx dy) (- dx) (- dy)) = pts_of r"
  using shift_ok [of r dx dy] shift_ok [of "shift r dx dy" "- dx" "- dy"] by simp

end

interpretation rgn: region_algebra rgn_ok rgn_pts intersect_region "subtract_region beyond" GdOffsetRegion GdSetRectRegion
  by unfold_locales (simp_all add: intersect_region_ok subtract_region_ok GdOffsetRegion_ok GdSetRectRegion_ok rgn_okD(4))

text \<open>The object itself comes back, not only its points.\<close>

lemma GdOffsetRegion_back: "GdOffsetRegion (GdOffsetRegion rgn dx dy) (- dx) (- dy) = rgn"
proof (cases "numRects rgn \<noteq> 0 \<and> (dx \<noteq> 0 \<or> dy \<noteq> 0)")
  case True
  have "offset_rect (- dx) (- dy) (offset_rect dx dy r) = r" for r by (simp add: offset_rect_def)
  then have "map (offset_rect (- dx) (- dy)) (map (offset_rect dx dy) (rects rgn)) = rects rgn" by (auto intro!: map_idI)
  then show ?thesis using True by (simp add: GdOffsetRegion_def numRects_def offset_rect_def comp_def)
qed (auto simp: GdOffsetRegion_def)

end
