(* ===== verification/Win_Model.thy ===== *)
theory Win_Model
  imports Rgn_Algebra Clip_Model Evt_Model
begin

text \<open>
  The windows of the server: the window tree (\<open>nanox/serv.h\<close>), the search for windows
  (\<open>nanox/srvutil.c\<close>) and the clip region of a window (\<open>nanox/srvclip2.c\<close>).

  \<^item> A pointer to a window is a \<open>nat\<close>, the null pointer \<open>None\<close>; \<open>win\<close> is the memory.  The links
    \<open>parent\<close>, \<open>children\<close>, \<open>siblings\<close> and \<open>next\<close> are pointers as in the code.
  \<^item> The list of clients that selected events of a window belongs to the window and is kept as a list;
    so is the clip region of a shaped window.
  \<^item> The value \<open>None\<close> of an operation is a dereferenced null pointer, or a walk that never ends.
  \<^item> The engine's clip region is the field \<open>eng_clip\<close>.
\<close>

type_synonym win_ptr = nat

record event_client =
  eventmask :: "32 word"
  client :: client_ptr

type_synonym pixmap_ptr = nat

record gr_pixmap =
  p_id :: GR_WINDOW_ID
  p_width :: MWCOORD
  p_height :: MWCOORD
  p_next :: "pixmap_ptr option"

record gr_window =
  w_x :: MWCOORD
  w_y :: MWCOORD
  w_width :: MWCOORD
  w_height :: MWCOORD
  w_id :: GR_WINDOW_ID
  w_layer :: nat
  w_next :: "win_ptr option"
  w_owner :: client_ptr
  w_parent :: "win_ptr option"
  w_children :: "win_ptr option"
  w_siblings :: "win_ptr option"
  w_bordersize :: MWCOORD
  w_bordercolor :: "32 word"
  w_background :: "32 word"
  w_bgpixmap :: "pixmap_ptr option"
  w_bgpixmapflags :: "32 word"
  w_nopropmask :: "32 word"
  w_eventclients :: "event_client list"
  w_cursorid :: nat
  w_mapped :: bool
  w_realized :: bool
  w_output :: bool
  w_props :: "32 word"
  w_title :: "string option"
  w_clipregion :: "MWCLIPREGION option"

record gr_windows =
  win :: "win_ptr \<Rightarrow> gr_window"
  listwp :: "nat \<Rightarrow> win_ptr option"
  rootwp :: "nat \<Rightarrow> win_ptr"
  scrNumberOfLayers :: nat
  clipwp :: "win_ptr option"
  cachewindowid :: GR_WINDOW_ID
  cachewp :: "win_ptr option"
  eng_clip :: clip_state

abbreviation (input) GR_WM_PROPS_NOFOCUS :: "32 word" where "GR_WM_PROPS_NOFOCUS \<equiv> 0x00000002"
abbreviation (input) GR_WM_PROPS_TRANSPARENT :: "32 word" where "GR_WM_PROPS_TRANSPARENT \<equiv> 0x00000080"

section \<open>Searching\<close>

text \<open>The loop over a list of windows, \<open>for (wp = listwp[layer]; wp; wp = wp->next)\<close>.\<close>

partial_function (option) find_by_id ::
  "(win_ptr \<Rightarrow> gr_window) \<Rightarrow> GR_WINDOW_ID \<Rightarrow> win_ptr option \<Rightarrow> win_ptr option option" where
  "find_by_id W ident wp =
    (if wp = None then Some None
     else if w_id (W (the wp)) = ident then Some wp
     else find_by_id W ident (w_next (W (the wp))))"

fun find_in_layers ::
  "(win_ptr \<Rightarrow> gr_window) \<Rightarrow> (nat \<Rightarrow> win_ptr option) \<Rightarrow> GR_WINDOW_ID \<Rightarrow> nat list \<Rightarrow> win_ptr option option" where
  "find_in_layers W lw ident [] = Some None"
| "find_in_layers W lw ident (layer # layers) =
    Option.bind (find_by_id W ident (lw layer)) (\<lambda>r.
      if r \<noteq> None then Some r else find_in_layers W lw ident layers)"

definition GsFindWindow ::
  "GR_WINDOW_ID \<Rightarrow> 'a gr_windows_scheme \<Rightarrow> (win_ptr option \<times> 'a gr_windows_scheme) option" where
  "GsFindWindow ident s =
    (case find (\<lambda>layer. ident = layer + 1) [0..<scrNumberOfLayers s] of
       Some layer \<Rightarrow> Some (Some (rootwp s layer), s)
     | None \<Rightarrow>
         if ident = cachewindowid s \<and> ident \<noteq> 0 then Some (cachewp s, s)
         else Option.bind (find_in_layers (win s) (listwp s) ident [0..<scrNumberOfLayers s]) (\<lambda>r.
           Some (case r of
             None \<Rightarrow> (None, s)
           | Some wp \<Rightarrow> (Some wp, s\<lparr>cachewindowid := ident, cachewp := Some wp\<rparr>))))"

text \<open>The window at a point: down the tree, along the siblings.\<close>

definition holds_point :: "gr_window \<Rightarrow> MWCOORD \<Rightarrow> MWCOORD \<Rightarrow> bool" where
  "holds_point w x y \<longleftrightarrow> w_realized w \<and>
    (case w_clipregion w of
       None \<Rightarrow> w_x w \<le> x \<and> w_y w \<le> y \<and> w_x w + w_width w > x \<and> w_y w + w_height w > y
     | Some rgn \<Rightarrow> GdPtInRegion rgn (x - w_x w) (y - w_y w))"

partial_function (option) find_visible ::
  "(win_ptr \<Rightarrow> gr_window) \<Rightarrow> MWCOORD \<Rightarrow> MWCOORD \<Rightarrow> win_ptr option \<Rightarrow> win_ptr \<Rightarrow> win_ptr option" where
  "find_visible W x y wp retwp =
    (if wp = None then Some retwp
     else if holds_point (W (the wp)) x y then find_visible W x y (w_children (W (the wp))) (the wp)
     else find_visible W x y (w_siblings (W (the wp))) retwp)"

definition GsFindVisibleWindow :: "MWCOORD \<Rightarrow> MWCOORD \<Rightarrow> 'a gr_windows_scheme \<Rightarrow> win_ptr option" where
  "GsFindVisibleWindow x y s = find_visible (win s) x y (Some (rootwp s 0)) (rootwp s 0)"

definition GsCheckOverlap :: "gr_window \<Rightarrow> gr_window \<Rightarrow> bool" where
  "GsCheckOverlap topwp botwp =
    (if \<not> w_output topwp \<or> \<not> w_realized topwp \<or> \<not> w_realized botwp then False
     else
       let bs = w_bordersize topwp;
           minx1 = w_x topwp - bs; miny1 = w_y topwp - bs;
           maxx1 = w_x topwp + w_width topwp + bs - 1; maxy1 = w_y topwp + w_height topwp + bs - 1;
           bs = w_bordersize botwp;
           minx2 = w_x botwp - bs; miny2 = w_y botwp - bs;
           maxx2 = w_x botwp + w_width botwp + bs - 1; maxy2 = w_y botwp + w_height botwp + bs - 1
       in \<not> (minx1 > maxx2 \<or> minx2 > maxx1 \<or> miny1 > maxy2 \<or> miny2 > maxy1))"

section \<open>The clip region of a window\<close>

text \<open>One step of the walk upwards: the rectangle is cut at the parent's.\<close>

fun cut_to_parent ::
  "gr_window \<Rightarrow> MWCOORD \<times> MWCOORD \<times> MWCOORD \<times> MWCOORD \<Rightarrow> MWCOORD \<times> MWCOORD \<times> MWCOORD \<times> MWCOORD" where
  "cut_to_parent pwp (x, y, width, height) =
    (let diff = w_x pwp - x;
         (x, width) = (if diff > 0 then (w_x pwp, width - diff) else (x, width));
         diff = (w_x pwp + w_width pwp) - (x + width);
         width = (if diff < 0 then width + diff else width);
         diff = w_y pwp - y;
         (y, height) = (if diff > 0 then (w_y pwp, height - diff) else (y, height));
         diff = (w_y pwp + w_height pwp) - (y + height);
         height = (if diff < 0 then height + diff else height)
     in (x, y, width, height))"

partial_function (option) cut_to_parents ::
  "(win_ptr \<Rightarrow> gr_window) \<Rightarrow> win_ptr \<Rightarrow> win_ptr \<Rightarrow> MWCOORD \<times> MWCOORD \<times> MWCOORD \<times> MWCOORD \<Rightarrow>
   (MWCOORD \<times> MWCOORD \<times> MWCOORD \<times> MWCOORD) option" where
  "cut_to_parents W root pwp box =
    (if pwp = root then Some box
     else if w_parent (W pwp) = None then None
     else cut_to_parents W root (the (w_parent (W pwp))) (cut_to_parent (W (the (w_parent (W pwp)))) box))"

text \<open>The windows of the loop \<open>for (; sibwp != wp; sibwp = sibwp->siblings)\<close>.\<close>

partial_function (option) siblings_to ::
  "(win_ptr \<Rightarrow> gr_window) \<Rightarrow> win_ptr option \<Rightarrow> win_ptr option \<Rightarrow> win_ptr list option" where
  "siblings_to W sibwp wp =
    (if sibwp = wp then Some []
     else if sibwp = None then None
     else Option.bind (siblings_to W (w_siblings (W (the sibwp))) wp) (\<lambda>ws. Some (the sibwp # ws)))"

definition obscures :: "gr_window \<Rightarrow> bool" where
  "obscures w \<longleftrightarrow> w_realized w \<and> w_output w \<and> w_props w AND GR_WM_PROPS_TRANSPARENT = 0"

definition border_region :: "gr_window \<Rightarrow> MWCLIPREGION \<Rightarrow> MWCLIPREGION" where
  "border_region sib r =
    (let bs = w_bordersize sib
     in GdSetRectRegion r (w_x sib - bs) (w_y sib - bs) (w_x sib + w_width sib + bs) (w_y sib + w_height sib + bs))"

text \<open>
  The bodies of the two loops over obscuring windows.  The clip region of the sibling is moved to its
  place and back, which leaves it as it was.  The second loop tests the clip region of the window
  itself and uses that of the child.
\<close>

definition cut_sibling ::
  "MWCOORD \<Rightarrow> gr_window \<Rightarrow> MWCLIPREGION \<times> MWCLIPREGION \<Rightarrow> MWCLIPREGION \<times> MWCLIPREGION" where
  "cut_sibling beyond sib = (\<lambda>(r, vis).
    if \<not> obscures sib then (r, vis)
    else
      let r = border_region sib r;
          vis = subtract_region beyond vis r
      in (r, case w_clipregion sib of
           None \<Rightarrow> vis
         | Some rgn \<Rightarrow> subtract_region beyond vis (GdOffsetRegion rgn (w_x sib) (w_y sib))))"

definition cut_child ::
  "MWCOORD \<Rightarrow> gr_window \<Rightarrow> gr_window \<Rightarrow> MWCLIPREGION \<times> MWCLIPREGION \<Rightarrow> (MWCLIPREGION \<times> MWCLIPREGION) option" where
  "cut_child beyond wp sib = (\<lambda>(r, vis).
    if \<not> obscures sib then Some (r, vis)
    else
      let r = border_region sib r;
          vis = subtract_region beyond vis r
      in if w_clipregion wp = None then Some (r, vis)
         else case w_clipregion sib of
           None \<Rightarrow> None
         | Some rgn \<Rightarrow> Some (r, subtract_region beyond vis (GdOffsetRegion rgn (w_x sib) (w_y sib))))"

definition cut_siblings ::
  "MWCOORD \<Rightarrow> (win_ptr \<Rightarrow> gr_window) \<Rightarrow> win_ptr list \<Rightarrow> MWCLIPREGION \<times> MWCLIPREGION \<Rightarrow> MWCLIPREGION \<times> MWCLIPREGION" where
  "cut_siblings beyond W ws rv = fold (\<lambda>sibwp. cut_sibling beyond (W sibwp)) ws rv"

fun cut_children ::
  "MWCOORD \<Rightarrow> (win_ptr \<Rightarrow> gr_window) \<Rightarrow> gr_window \<Rightarrow> win_ptr list \<Rightarrow> MWCLIPREGION \<times> MWCLIPREGION \<Rightarrow>
   (MWCLIPREGION \<times> MWCLIPREGION) option" where
  "cut_children beyond W wp [] rv = Some rv"
| "cut_children beyond W wp (sibwp # ws) rv =
    Option.bind (cut_child beyond wp (W sibwp) rv) (cut_children beyond W wp ws)"

text \<open>The loop \<open>while (pwp != NULL)\<close>; \<open>excl\<close> is the flag \<open>GR_MODE_EXCLUDECHILDREN\<close>.\<close>

partial_function (option) cut_obscured ::
  "MWCOORD \<Rightarrow> (win_ptr \<Rightarrow> gr_window) \<Rightarrow> win_ptr \<Rightarrow> bool \<Rightarrow> win_ptr \<Rightarrow> MWCLIPREGION \<times> MWCLIPREGION \<Rightarrow>
   (MWCLIPREGION \<times> MWCLIPREGION) option" where
  "cut_obscured beyond W root excl wp rv =
    (if w_parent (W wp) = None then
       Option.bind (siblings_to W (if excl then None else w_children (W root)) None) (\<lambda>ws.
         Some (cut_siblings beyond W ws rv))
     else
       Option.bind (siblings_to W (w_children (W (the (w_parent (W wp))))) (Some wp)) (\<lambda>ws.
         if the (w_parent (W wp)) = root then Some (cut_siblings beyond W ws rv)
         else cut_obscured beyond W root excl (the (w_parent (W wp))) (cut_siblings beyond W ws rv)))"

definition GsSetClipWindow ::
  "MWCOORD \<Rightarrow> win_ptr \<Rightarrow> MWCLIPREGION option \<Rightarrow> bool \<Rightarrow> 'a gr_windows_scheme \<Rightarrow> 'a gr_windows_scheme option" where
  "GsSetClipWindow beyond wp userregion excl s =
    (let W = win s; w = W wp; root = rootwp s (w_layer w)
     in if \<not> w_realized w \<or> \<not> w_output w then Some s
     else
       Option.bind (cut_to_parents W root wp (w_x w, w_y w, w_width w, w_height w)) (\<lambda>(x, y, width, height).
       let s1 = s\<lparr>clipwp := Some wp\<rparr>
       in if width \<le> 0 \<or> height \<le> 0 then Some (s1\<lparr>eng_clip := GdSetClipRegion None (eng_clip s1)\<rparr>)
       else
         let vis = GdAllocRectRegion x y (x + width) (y + height);
             vis = (case w_clipregion w of
                      None \<Rightarrow> vis
                    | Some rgn \<Rightarrow> intersect_region vis (GdOffsetRegion rgn (w_x w) (w_y w)))
         in Option.bind (cut_obscured beyond W root excl wp (GdAllocRegion, vis)) (\<lambda>rv.
            Option.bind
              (if wp \<noteq> root \<and> \<not> excl
               then Option.bind (siblings_to W (w_children w) None) (\<lambda>ws. cut_children beyond W w ws rv)
               else Some rv) (\<lambda>(r, vis).
            let vis = (case userregion of
                         None \<Rightarrow> vis
                       | Some rgn \<Rightarrow> intersect_region vis (GdOffsetRegion rgn (w_x w) (w_y w)))
            in Some (s1\<lparr>eng_clip := GdSetClipRegion (Some vis) (eng_clip s1)\<rparr>)))))"

end
