(* ===== verification/Dlv_Model.thy ===== *)
theory Dlv_Model
  imports Win_Model Engine_Types
begin

text \<open>
  The delivery of events to the clients (\<open>nanox/srvevent.c\<close>) and the windows that have the mouse and the
  keyboard focus (\<open>nanox/srvutil.c\<close>).

  \<^item> The record \<open>server\<close> extends the window state by the static variables of the server.
  \<^item> Calls to the engine that move the mouse or the cursor are recorded in \<open>engine_calls\<close>, in their order; the
    operations themselves are those of \<open>Cur_Model\<close> and \<open>Mse_Model\<close>.
  \<^item> Timers are compiled out (\<open>MW_FEATURE_TIMERS\<close> is 0).
  \<^item> \<open>GsTerminate\<close> does not return: \<open>terminated\<close> is set, and the handler ends.
  \<^item> The value \<open>None\<close> of an operation is a dereferenced null pointer, or a walk that never ends.
\<close>

record grabbed_key =
  g_owner :: client_ptr
  g_type :: int
  g_wid :: GR_WINDOW_ID
  g_key :: int

record gr_cursor =
  cur_id :: nat
  hotx :: MWCOORD
  hoty :: MWCOORD

type_synonym cursor_ptr = nat

text \<open>
  The engine's drawing functions, and its calls; a drawing, to the screen or to a pixmap, is recorded with the clip region in force.
  The argument of \<open>CallSetDash\<close> is \<open>None\<close> where the code passes null pointers.
\<close>

datatype surface = ScreenSurface | PixmapSurface pixmap_ptr

datatype draw_call =
    DrawFillRect MWCOORD MWCOORD MWCOORD MWCOORD
  | DrawLine MWCOORD MWCOORD MWCOORD MWCOORD bool
  | DrawPoint MWCOORD MWCOORD
  | DrawRect MWCOORD MWCOORD MWCOORD MWCOORD
  | DrawPoly "(MWCOORD \<times> MWCOORD) list"
  | DrawFillPoly "(MWCOORD \<times> MWCOORD) list"
  | DrawBitmap MWCOORD MWCOORD MWCOORD MWCOORD "16 word list"
  | DrawBlit MWCOORD MWCOORD MWCOORD MWCOORD pixmap_ptr MWCOORD MWCOORD
  | DrawStretchBlit MWCOORD MWCOORD MWCOORD MWCOORD pixmap_ptr MWCOORD MWCOORD MWCOORD MWCOORD

datatype engine_call =
    CallMoveCursor MWCOORD MWCOORD
  | CallMoveMouse MWCOORD MWCOORD
  | CallSetCursor cursor_ptr
  | CallSetMode int
  | CallSetFillMode int
  | CallSetForegroundColor "32 word"
  | CallSetDash "(32 word \<times> int) option"
  | CallSetForegroundPixelVal "32 word"
  | CallSetBackgroundColor "32 word"
  | CallSetBackgroundPixelVal "32 word"
  | CallSetXorColor "32 word"
  | CallSetUseBackground bool
  | CallSetGlobalAlpha int
  | CallSetGradationOption MWGRADATION
  | CallSetTSOffset int int
  | CallSetStippleBitmap "16 word list option" MWCOORD MWCOORD
  | CallSetTilePixmap "surface option" MWCOORD MWCOORD
  | CallSetFont "nat option"
  | CallDraw MWCLIPREGION draw_call
  | CallDrawPixmap pixmap_ptr MWCLIPREGION draw_call

record server = gr_windows +
  evqueues :: evq
  focuswp :: win_ptr
  mousewp :: win_ptr
  grabbuttonwp :: "win_ptr option"
  cursorx :: MWCOORD
  cursory :: MWCOORD
  curbuttons :: "32 word"
  focusfixed :: bool
  screensaver_active :: bool
  list_grabbed_keys :: "grabbed_key list"
  cursors :: "cursor_ptr \<Rightarrow> gr_cursor"
  listcursorp :: "cursor_ptr list"
  stdcursor :: cursor_ptr
  curcursor :: "cursor_ptr option"
  curgcp :: "nat option"
  pixmaps :: "pixmap_ptr \<Rightarrow> gr_pixmap"
  listpp :: "pixmap_ptr option"
  cachepixmapid :: GR_WINDOW_ID
  cachepp :: "pixmap_ptr option"
  selection_wid :: GR_WINDOW_ID
  nextid :: nat
  free_windows :: "win_ptr list"
  engine_calls :: "engine_call list"
  terminated :: bool

abbreviation (input) GR_ROOT_WINDOW_ID :: GR_WINDOW_ID where "GR_ROOT_WINDOW_ID \<equiv> 1"
abbreviation (input) GR_UPDATE_ACTIVATE :: int where "GR_UPDATE_ACTIVATE \<equiv> 6"
abbreviation (input) GR_GRAB_HOTKEY_EXCLUSIVE :: int where "GR_GRAB_HOTKEY_EXCLUSIVE \<equiv> 0"
abbreviation (input) GR_GRAB_HOTKEY :: int where "GR_GRAB_HOTKEY \<equiv> 1"
abbreviation (input) GR_GRAB_EXCLUSIVE :: int where "GR_GRAB_EXCLUSIVE \<equiv> 2"
abbreviation (input) GR_GRAB_EXCLUSIVE_MOUSE :: int where "GR_GRAB_EXCLUSIVE_MOUSE \<equiv> 3"
abbreviation (input) GR_BUTTON_L :: "32 word" where "GR_BUTTON_L \<equiv> 4"
abbreviation (input) GR_BUTTON_R :: "32 word" where "GR_BUTTON_R \<equiv> 1"

section \<open>Events to the clients of one window\<close>

text \<open>\<open>GR_EVENTMASK\<close> and the event types of \<open>nano-X.h\<close>.\<close>

definition GR_EVENTMASK :: "nat \<Rightarrow> 32 word" where
  "GR_EVENTMASK n = push_bit n 1"

abbreviation (input) GR_EVENT_MASK_EXPOSURE :: "32 word" where "GR_EVENT_MASK_EXPOSURE \<equiv> GR_EVENTMASK 1"
abbreviation (input) GR_EVENT_MASK_BUTTON_UP :: "32 word" where "GR_EVENT_MASK_BUTTON_UP \<equiv> GR_EVENTMASK 3"
abbreviation (input) GR_EVENT_MASK_MOUSE_POSITION :: "32 word" where "GR_EVENT_MASK_MOUSE_POSITION \<equiv> GR_EVENTMASK 7"
abbreviation (input) GR_EVENT_MASK_KEY_DOWN :: "32 word" where "GR_EVENT_MASK_KEY_DOWN \<equiv> GR_EVENTMASK 8"
abbreviation (input) GR_EVENT_MASK_UPDATE :: "32 word" where "GR_EVENT_MASK_UPDATE \<equiv> GR_EVENTMASK 13"
abbreviation (input) GR_EVENT_MASK_CHLD_UPDATE :: "32 word" where "GR_EVENT_MASK_CHLD_UPDATE \<equiv> GR_EVENTMASK 14"
abbreviation (input) GR_EVENT_MASK_SCREENSAVER :: "32 word" where "GR_EVENT_MASK_SCREENSAVER \<equiv> GR_EVENTMASK 18"
abbreviation (input) GR_EVENT_MASK_PORTRAIT_CHANGED :: "32 word" where "GR_EVENT_MASK_PORTRAIT_CHANGED \<equiv> GR_EVENTMASK 22"

fun button_type :: "button_dir \<Rightarrow> nat" where
  "button_type BUTTON_DOWN = 2" | "button_type BUTTON_UP = 3"

fun mouse_type :: "mouse_kind \<Rightarrow> nat" where
  "mouse_type MOUSE_MOTION = 6" | "mouse_type MOUSE_POSITION = 7"

fun key_type :: "key_dir \<Rightarrow> nat" where
  "key_type KEY_DOWN = 8" | "key_type KEY_UP = 9"

fun general_type :: "general_kind \<Rightarrow> nat" where
  "general_type MOUSE_ENTER = 4" | "general_type MOUSE_EXIT = 5" | "general_type FOCUS_IN = 10"
| "general_type FOCUS_OUT = 11" | "general_type PORTRAIT_CHANGED = 22"

definition selects :: "32 word \<Rightarrow> event_client \<Rightarrow> bool" where
  "selects emask ecp \<longleftrightarrow> eventmask ecp AND emask \<noteq> 0"

text \<open>The loop \<open>for (ecp = wp->eventclients; ecp; ecp = ecp->next)\<close> with the same event for every client.\<close>

definition deliver_to :: "32 word \<Rightarrow> GR_EVENT \<Rightarrow> event_client list \<Rightarrow> evq \<Rightarrow> evq" where
  "deliver_to emask e ecs q = fold (\<lambda>ecp q. if \<not> selects emask ecp then q else post_event (client ecp) e q) ecs q"

text \<open>The same loop, freeing an older event of the client first.\<close>

fun deliver_replacing ::
  "32 word \<Rightarrow> (client_ptr \<Rightarrow> evq \<Rightarrow> evq option) \<Rightarrow> GR_EVENT \<Rightarrow> event_client list \<Rightarrow> evq \<Rightarrow> evq option" where
  "deliver_replacing emask free e [] q = Some q"
| "deliver_replacing emask free e (ecp # ecs) q =
    (if \<not> selects emask ecp then deliver_replacing emask free e ecs q
     else Option.bind (free (client ecp) q) (\<lambda>q.
       deliver_replacing emask free e ecs (post_event (client ecp) e q)))"

definition GsDeliverExposureEvent ::
  "win_ptr \<Rightarrow> MWCOORD \<Rightarrow> MWCOORD \<Rightarrow> MWCOORD \<Rightarrow> MWCOORD \<Rightarrow> server \<Rightarrow> server option" where
  "GsDeliverExposureEvent wp x y width height s =
    (let w = win s wp
     in if \<not> w_realized w \<or> \<not> w_output w then Some s
     else map_option (\<lambda>q. s\<lparr>evqueues := q\<rparr>)
       (deliver_replacing GR_EVENT_MASK_EXPOSURE (\<lambda>c. GsFreeExposureEvent c (w_id w) x y width height)
         (EVENT_EXPOSURE (w_id w) x y width height) (w_eventclients w) (evqueues s)))"

definition GsDeliverUpdateEvent ::
  "win_ptr \<Rightarrow> int \<Rightarrow> MWCOORD \<Rightarrow> MWCOORD \<Rightarrow> MWCOORD \<Rightarrow> MWCOORD \<Rightarrow> server \<Rightarrow> server" where
  "GsDeliverUpdateEvent wp utype x y width height s =
    (let w = win s wp;
         (x, y) = (case w_parent w of None \<Rightarrow> (x, y) | Some p \<Rightarrow> (x - w_x (win s p), y - w_y (win s p)));
         q = deliver_to GR_EVENT_MASK_UPDATE (EVENT_UPDATE UPDATE utype (w_id w) (w_id w) x y width height)
               (w_eventclients w) (evqueues s)
     in case w_parent w of
          None \<Rightarrow> s\<lparr>evqueues := q\<rparr>
        | Some p \<Rightarrow> s\<lparr>evqueues :=
            deliver_to GR_EVENT_MASK_CHLD_UPDATE (EVENT_UPDATE CHLD_UPDATE utype (w_id (win s p)) (w_id w) x y width height)
              (w_eventclients (win s p)) q\<rparr>)"

definition GsDeliverGeneralEvent :: "win_ptr \<Rightarrow> general_kind \<Rightarrow> win_ptr option \<Rightarrow> server \<Rightarrow> server" where
  "GsDeliverGeneralEvent wp type other s =
    (let m = GR_EVENTMASK (general_type type)
     in if m = 0 then s
     else s\<lparr>evqueues := deliver_to m
       (EVENT_GENERAL type (w_id (win s wp)) (case other of None \<Rightarrow> 0 | Some p \<Rightarrow> w_id (win s p)))
       (w_eventclients (win s wp)) (evqueues s)\<rparr>)"

definition GsDeliverScreenSaverEvent :: "bool \<Rightarrow> server \<Rightarrow> server" where
  "GsDeliverScreenSaverEvent activate s =
    s\<lparr>evqueues := deliver_to GR_EVENT_MASK_SCREENSAVER (EVENT_SCREENSAVER activate)
       (w_eventclients (win s (rootwp s 0))) (evqueues s)\<rparr>"

definition GsActivateScreenSaver :: "server \<Rightarrow> server" where
  "GsActivateScreenSaver s = GsDeliverScreenSaverEvent True (s\<lparr>screensaver_active := True\<rparr>)"

definition GsResetScreenSaver :: "server \<Rightarrow> server" where
  "GsResetScreenSaver s =
    (if screensaver_active s then GsDeliverScreenSaverEvent False (s\<lparr>screensaver_active := False\<rparr>) else s)"

text \<open>The loop over all windows of a layer.\<close>

partial_function (option) portrait_events :: "(win_ptr \<Rightarrow> gr_window) \<Rightarrow> win_ptr option \<Rightarrow> evq \<Rightarrow> evq option" where
  "portrait_events W wp q =
    (if wp = None then Some q
     else portrait_events W (w_next (W (the wp)))
       (deliver_to GR_EVENT_MASK_PORTRAIT_CHANGED (EVENT_GENERAL PORTRAIT_CHANGED (w_id (W (the wp))) 0)
         (w_eventclients (W (the wp))) q))"

definition GsDeliverPortraitChangedEvent :: "nat \<Rightarrow> server \<Rightarrow> server option" where
  "GsDeliverPortraitChangedEvent layer s =
    map_option (\<lambda>q. s\<lparr>evqueues := q\<rparr>) (portrait_events (win s) (listwp s layer) (evqueues s))"

section \<open>Mouse and focus windows\<close>

definition GsFindCursor :: "nat \<Rightarrow> server \<Rightarrow> cursor_ptr option" where
  "GsFindCursor cursorid s = find (\<lambda>cp. cur_id (cursors s cp) = cursorid) (listcursorp s)"

definition GsCheckCursor :: "server \<Rightarrow> server" where
  "GsCheckCursor s =
    (let wp = (case grabbuttonwp s of None \<Rightarrow> mousewp s | Some wp \<Rightarrow> wp);
         cp = (case GsFindCursor (w_cursorid (win s wp)) s of None \<Rightarrow> stdcursor s | Some cp \<Rightarrow> cp)
     in if Some cp = curcursor s then s
     else s\<lparr>curcursor := Some cp,
            engine_calls := engine_calls s @
              [CallMoveCursor (cursorx s - hotx (cursors s cp)) (cursory s - hoty (cursors s cp)), CallSetCursor cp]\<rparr>)"

definition GsCheckMouseWindow :: "server \<Rightarrow> server option" where
  "GsCheckMouseWindow s =
    Option.bind
      (case grabbuttonwp s of
         None \<Rightarrow> GsFindVisibleWindow (cursorx s) (cursory s) s
       | Some wp \<Rightarrow> Some wp) (\<lambda>wp.
    if wp = mousewp s then Some s
    else
      let s = GsDeliverGeneralEvent (mousewp s) MOUSE_EXIT None s;
          s = s\<lparr>mousewp := wp\<rparr>
      in Some (GsDeliverGeneralEvent wp MOUSE_ENTER None s))"

text \<open>The top-level window of a window.\<close>

partial_function (option) top_level :: "(win_ptr \<Rightarrow> gr_window) \<Rightarrow> win_ptr \<Rightarrow> win_ptr option" where
  "top_level W pwp =
    (if w_parent (W pwp) = None then Some pwp
     else if w_id (W (the (w_parent (W pwp)))) = GR_ROOT_WINDOW_ID then Some pwp
     else top_level W (the (w_parent (W pwp))))"

definition GsWpNotifyActivate :: "win_ptr \<Rightarrow> server \<Rightarrow> server option" where
  "GsWpNotifyActivate wp s =
    Option.bind (top_level (win s) wp) (\<lambda>pwp.
      Some (if w_id (win s pwp) \<noteq> GR_ROOT_WINDOW_ID
            then GsDeliverUpdateEvent pwp GR_UPDATE_ACTIVATE 0 0 0 0 s else s))"

definition GsWpSetFocus :: "win_ptr \<Rightarrow> server \<Rightarrow> server option" where
  "GsWpSetFocus wp s =
    (if wp = focuswp s then Some s
     else
       Option.bind (GsWpNotifyActivate (focuswp s) (GsDeliverGeneralEvent (focuswp s) FOCUS_OUT (Some wp) s)) (\<lambda>s.
         let oldfocus = focuswp s; s = s\<lparr>focuswp := wp\<rparr>
         in GsWpNotifyActivate (focuswp s) (GsDeliverGeneralEvent wp FOCUS_IN (Some oldfocus) s)))"

text \<open>\<open>for (wp = mousewp; ; wp = wp->parent)\<close>: the window that gets the focus.\<close>

partial_function (option) focus_target :: "(win_ptr \<Rightarrow> gr_window) \<Rightarrow> win_ptr \<Rightarrow> win_ptr option \<Rightarrow> win_ptr option" where
  "focus_target W root wp =
    (if wp = None then None
     else if w_props (W (the wp)) AND GR_WM_PROPS_NOFOCUS \<noteq> 0 then focus_target W root (w_parent (W (the wp)))
     else if list_ex (selects GR_EVENT_MASK_KEY_DOWN) (w_eventclients (W (the wp))) then Some (the wp)
     else if the wp = root \<or> w_nopropmask (W (the wp)) AND GR_EVENT_MASK_KEY_DOWN \<noteq> 0 then Some root
     else focus_target W root (w_parent (W (the wp))))"

definition GsCheckFocusWindow :: "server \<Rightarrow> server option" where
  "GsCheckFocusWindow s =
    (if focusfixed s then Some s
     else Option.bind (focus_target (win s) (rootwp s 0) (Some (mousewp s))) (\<lambda>wp. GsWpSetFocus wp s))"

definition GrMoveCursor :: "MWCOORD \<Rightarrow> MWCOORD \<Rightarrow> server \<Rightarrow> server option" where
  "GrMoveCursor x y s =
    (let s = (if x \<noteq> cursorx s \<or> y \<noteq> cursory s then
                (case curcursor s of
                   None \<Rightarrow> s
                 | Some cp \<Rightarrow> s\<lparr>engine_calls := engine_calls s @
                     [CallMoveCursor (x - hotx (cursors s cp)) (y - hoty (cursors s cp)), CallMoveMouse x y]\<rparr>)
                \<lparr>cursorx := x, cursory := y\<rparr>
              else s)
     in Option.bind (GsCheckMouseWindow s) (\<lambda>s.
        Option.bind (GsCheckFocusWindow s) (\<lambda>s. Some (GsCheckCursor s))))"

section \<open>Mouse events\<close>

definition mouse_info :: "server \<Rightarrow> win_ptr \<Rightarrow> GR_WINDOW_ID \<Rightarrow> 32 word \<Rightarrow> 32 word \<Rightarrow> mouse_data" where
  "mouse_info s wp subwid btns modifiers =
    \<lparr>e_wid = w_id (win s wp), e_subwid = subwid, e_rootx = cursorx s, e_rooty = cursory s,
     e_x = cursorx s - w_x (win s wp), e_y = cursory s - w_y (win s wp), e_buttons = btns, e_modifiers = modifiers\<rparr>"

text \<open>The end of the walk upwards: the root window, or a window that does not propagate the event.\<close>

definition stops_at :: "server \<Rightarrow> 32 word \<Rightarrow> win_ptr \<Rightarrow> bool" where
  "stops_at s emask wp \<longleftrightarrow> wp = rootwp s (w_layer (win s wp)) \<or> w_nopropmask (win s wp) AND emask \<noteq> 0"

definition motion_at ::
  "server \<Rightarrow> mouse_kind \<Rightarrow> GR_WINDOW_ID \<Rightarrow> 32 word \<Rightarrow> 32 word \<Rightarrow> win_ptr \<Rightarrow> evq \<Rightarrow> evq option" where
  "motion_at s type subwid btns modifiers wp q =
    (let e = EVENT_MOUSE type (mouse_info s wp subwid btns modifiers)
     in deliver_replacing (GR_EVENTMASK (mouse_type type))
          (\<lambda>c q. if type = MOUSE_POSITION then GsFreePositionEvent c (w_id (win s wp)) subwid q else Some q)
          e (w_eventclients (win s wp)) q)"

partial_function (option) motion_up ::
  "server \<Rightarrow> mouse_kind \<Rightarrow> GR_WINDOW_ID \<Rightarrow> 32 word \<Rightarrow> 32 word \<Rightarrow> win_ptr \<Rightarrow> evq \<Rightarrow> evq option" where
  "motion_up s type subwid btns modifiers wp q =
    Option.bind (motion_at s type subwid btns modifiers wp q) (\<lambda>q.
      if stops_at s (GR_EVENTMASK (mouse_type type)) wp \<or> grabbuttonwp s \<noteq> None then Some q
      else if w_parent (win s wp) = None then None
      else motion_up s type subwid btns modifiers (the (w_parent (win s wp))) q)"

definition GsDeliverMotionEvent :: "mouse_kind \<Rightarrow> 32 word \<Rightarrow> 32 word \<Rightarrow> server \<Rightarrow> server option" where
  "GsDeliverMotionEvent type btns modifiers s =
    (if GR_EVENTMASK (mouse_type type) = 0 then Some s
     else
       let wp = (case grabbuttonwp s of None \<Rightarrow> mousewp s | Some wp \<Rightarrow> wp)
       in map_option (\<lambda>q. s\<lparr>evqueues := q\<rparr>)
            (motion_up s type (w_id (win s (mousewp s))) btns modifiers wp (evqueues s)))"

text \<open>The clients of one window: the first one that wants both button events grabs the pointer.\<close>

definition button_at ::
  "server \<Rightarrow> button_dir \<Rightarrow> GR_WINDOW_ID \<Rightarrow> 32 word \<Rightarrow> 32 word \<Rightarrow> 32 word \<Rightarrow> win_ptr \<Rightarrow>
   win_ptr option \<times> evq \<Rightarrow> win_ptr option \<times> evq" where
  "button_at s type subwid btns changebuttons modifiers wp =
    fold (\<lambda>ecp (grab, q).
      if \<not> selects (GR_EVENTMASK (button_type type)) ecp then (grab, q)
      else
        let grab = (if type = BUTTON_DOWN \<and> grab = None \<and> selects GR_EVENT_MASK_BUTTON_UP ecp then Some wp else grab)
        in (grab, post_event (client ecp)
              (EVENT_BUTTON type (mouse_info s wp subwid btns modifiers) changebuttons) q))
      (w_eventclients (win s wp))"

partial_function (option) button_up ::
  "server \<Rightarrow> button_dir \<Rightarrow> GR_WINDOW_ID \<Rightarrow> 32 word \<Rightarrow> 32 word \<Rightarrow> 32 word \<Rightarrow> win_ptr \<Rightarrow>
   win_ptr option \<times> evq \<Rightarrow> (win_ptr option \<times> evq) option" where
  "button_up s type subwid btns changebuttons modifiers wp gq =
    (if fst (button_at s type subwid btns changebuttons modifiers wp gq) \<noteq> None \<or>
        stops_at s (GR_EVENTMASK (button_type type)) wp
     then Some (button_at s type subwid btns changebuttons modifiers wp gq)
     else if w_parent (win s wp) = None then None
     else button_up s type subwid btns changebuttons modifiers (the (w_parent (win s wp)))
       (button_at s type subwid btns changebuttons modifiers wp gq))"

definition GsDeliverButtonEvent ::
  "button_dir \<Rightarrow> 32 word \<Rightarrow> 32 word \<Rightarrow> 32 word \<Rightarrow> server \<Rightarrow> server option" where
  "GsDeliverButtonEvent type btns changebuttons modifiers s =
    (if GR_EVENTMASK (button_type type) = 0 then Some s
     else
       let wp = (case grabbuttonwp s of None \<Rightarrow> mousewp s | Some wp \<Rightarrow> wp)
       in Option.bind (button_up s type (w_id (win s (mousewp s))) btns changebuttons modifiers wp
            (grabbuttonwp s, evqueues s)) (\<lambda>(grab, q).
          let s = s\<lparr>grabbuttonwp := grab, evqueues := q\<rparr>
          in if grab \<noteq> None \<and> btns = 0
             then GrMoveCursor (cursorx s) (cursory s) (s\<lparr>grabbuttonwp := None\<rparr>)
             else Some s))"

text \<open>Raw mode: the loop over the clients also walks upwards.\<close>

fun raw_position ::
  "server \<Rightarrow> MWCOORD \<Rightarrow> MWCOORD \<Rightarrow> 32 word \<Rightarrow> 32 word \<Rightarrow> GR_WINDOW_ID \<Rightarrow> event_client list \<Rightarrow> win_ptr option \<Rightarrow>
   evq \<Rightarrow> evq option" where
  "raw_position s rx ry btns modifiers subwid [] wp q = Some q"
| "raw_position s rx ry btns modifiers subwid (ecp # ecs) wp q =
    (if \<not> selects GR_EVENT_MASK_MOUSE_POSITION ecp then raw_position s rx ry btns modifiers subwid ecs wp q
     else case wp of
       None \<Rightarrow> None
     | Some w \<Rightarrow>
         Option.bind (GsFreePositionEvent (client ecp) (w_id (win s w)) subwid q) (\<lambda>q.
         case GsAllocEvent (client ecp) q of
           (None, q) \<Rightarrow> raw_position s rx ry btns modifiers subwid ecs wp q
         | (Some ep, q) \<Rightarrow>
             let q = q\<lparr>event := (event q)(ep := EVENT_MOUSE MOUSE_POSITION
                   \<lparr>e_wid = w_id (win s w), e_subwid = subwid, e_rootx = rx, e_rooty = ry, e_x = 0, e_y = 0,
                    e_buttons = btns, e_modifiers = modifiers\<rparr>)\<rparr>
             in if stops_at s GR_EVENT_MASK_MOUSE_POSITION w then Some q
                else raw_position s rx ry btns modifiers subwid ecs (w_parent (win s w)) q))"

fun raw_button ::
  "server \<Rightarrow> MWCOORD \<Rightarrow> MWCOORD \<Rightarrow> button_dir \<Rightarrow> 32 word \<Rightarrow> 32 word \<Rightarrow> 32 word \<Rightarrow> GR_WINDOW_ID \<Rightarrow> event_client list \<Rightarrow>
   win_ptr option \<Rightarrow> evq \<Rightarrow> evq option" where
  "raw_button s rx ry etype btns cbuttons modifiers subwid [] wp q = Some q"
| "raw_button s rx ry etype btns cbuttons modifiers subwid (ecp # ecs) wp q =
    (if \<not> selects (GR_EVENTMASK (button_type etype)) ecp
     then raw_button s rx ry etype btns cbuttons modifiers subwid ecs wp q
     else case GsAllocEvent (client ecp) q of
       (None, q) \<Rightarrow> raw_button s rx ry etype btns cbuttons modifiers subwid ecs wp q
     | (Some ep, q) \<Rightarrow>
         (case wp of
           None \<Rightarrow> None
         | Some w \<Rightarrow>
             let q = q\<lparr>event := (event q)(ep := EVENT_BUTTON etype
                   \<lparr>e_wid = w_id (win s w), e_subwid = subwid, e_rootx = rx, e_rooty = ry, e_x = 0, e_y = 0,
                    e_buttons = btns, e_modifiers = modifiers\<rparr> cbuttons)\<rparr>
             in if stops_at s (GR_EVENTMASK (button_type etype)) w then Some q
                else raw_button s rx ry etype btns cbuttons modifiers subwid ecs (w_parent (win s w)) q))"

text \<open>Both values of \<open>cbuttons\<close> are the released buttons.\<close>

definition raw_buttons ::
  "server \<Rightarrow> MWCOORD \<Rightarrow> MWCOORD \<Rightarrow> 32 word \<Rightarrow> 32 word \<Rightarrow> button_dir \<Rightarrow> evq \<Rightarrow> evq option" where
  "raw_buttons s rx ry btns modifiers etype q =
    (let cbuttons = (if etype = BUTTON_DOWN then curbuttons s AND NOT btns else NOT btns AND curbuttons s)
     in if cbuttons = 0 then Some q
     else raw_button s rx ry etype btns cbuttons modifiers (w_id (win s (mousewp s)))
       (w_eventclients (win s (mousewp s))) (Some (mousewp s)) q)"

definition GsDeliverRawMouseEvent ::
  "MWCOORD \<Rightarrow> MWCOORD \<Rightarrow> 32 word \<Rightarrow> 32 word \<Rightarrow> server \<Rightarrow> server option" where
  "GsDeliverRawMouseEvent rx ry btns modifiers s =
    Option.bind (raw_position s rx ry btns modifiers (w_id (win s (mousewp s)))
      (w_eventclients (win s (mousewp s))) (Some (mousewp s)) (evqueues s)) (\<lambda>q.
    Option.bind (raw_buttons s rx ry btns modifiers BUTTON_DOWN q) (\<lambda>q.
    Option.bind (raw_buttons s rx ry btns modifiers BUTTON_UP q) (\<lambda>q.
    Some (s\<lparr>evqueues := q, curbuttons := btns\<rparr>))))"

text \<open>\<open>raw\<close> is the flag \<open>MOUSE_RAW\<close> of the mouse device, \<open>modifiers\<close> what \<open>GdGetModifierInfo\<close> reads.\<close>

definition GsHandleMouseStatus ::
  "bool \<Rightarrow> 32 word \<Rightarrow> MWCOORD \<Rightarrow> MWCOORD \<Rightarrow> 32 word \<Rightarrow> server \<Rightarrow> server option" where
  "GsHandleMouseStatus raw modifiers newx newy newbuttons s =
    (if raw then GsDeliverRawMouseEvent newx newy newbuttons modifiers s
     else
       Option.bind
         (if newx \<noteq> cursorx s \<or> newy \<noteq> cursory s then
            Option.bind (GrMoveCursor newx newy (GsResetScreenSaver s)) (\<lambda>s.
            Option.bind (GsDeliverMotionEvent MOUSE_MOTION newbuttons modifiers s)
              (GsDeliverMotionEvent MOUSE_POSITION newbuttons modifiers))
          else Some s) (\<lambda>s.
       let changebuttons = curbuttons s AND NOT newbuttons
       in Option.bind
         (if changebuttons \<noteq> 0
          then GsDeliverButtonEvent BUTTON_UP newbuttons changebuttons modifiers (GsResetScreenSaver s)
          else Some s) (\<lambda>s.
       let changebuttons = NOT (curbuttons s) AND newbuttons
       in if changebuttons \<noteq> 0 \<and> newbuttons AND (GR_BUTTON_L OR GR_BUTTON_R) = (GR_BUTTON_L OR GR_BUTTON_R)
          then Some (s\<lparr>terminated := True\<rparr>)
          else
            Option.bind
              (if changebuttons \<noteq> 0
               then GsDeliverButtonEvent BUTTON_DOWN newbuttons changebuttons modifiers (GsResetScreenSaver s)
               else Some s) (\<lambda>s.
            Some (s\<lparr>curbuttons := newbuttons\<rparr>)))))"

section \<open>Keys\<close>

text \<open>The loop over the grabbed keys: it returns, ends at an exclusive grab, or passes all of them.\<close>

datatype grab_result = GrabReturn | GrabKey grabbed_key | GrabNone

definition hotkey_event :: "server \<Rightarrow> key_dir \<Rightarrow> int \<Rightarrow> 32 word \<Rightarrow> int \<Rightarrow> grabbed_key \<Rightarrow> GR_EVENT" where
  "hotkey_event s type keyvalue modifiers scancode k =
    EVENT_KEYSTROKE type
      \<lparr>e_wid = g_wid k, e_subwid = g_wid k, e_rootx = cursorx s, e_rooty = cursory s, e_x = cursorx s, e_y = cursory s,
       e_buttons = curbuttons s, e_modifiers = modifiers\<rparr> keyvalue scancode True"

fun grabbed_keys ::
  "(grabbed_key \<Rightarrow> GR_EVENT) \<Rightarrow> int \<Rightarrow> grabbed_key list \<Rightarrow> evq \<Rightarrow> grab_result \<times> evq" where
  "grabbed_keys ev keyvalue [] q = (GrabNone, q)"
| "grabbed_keys ev keyvalue (k # ks) q =
    (if g_key k = keyvalue then
       if g_type k = GR_GRAB_HOTKEY \<or> g_type k = GR_GRAB_HOTKEY_EXCLUSIVE then
         (case GsAllocEvent (g_owner k) q of
            (None, q) \<Rightarrow> grabbed_keys ev keyvalue ks q
          | (Some ep, q) \<Rightarrow>
              let q = q\<lparr>event := (event q)(ep := ev k)\<rparr>
              in if g_type k = GR_GRAB_HOTKEY_EXCLUSIVE then (GrabReturn, q) else grabbed_keys ev keyvalue ks q)
       else (GrabKey k, q)
     else grabbed_keys ev keyvalue ks q)"

text \<open>\<open>while (kwp != wp && kwp != rootwp[kwp->layer]) kwp = kwp->parent;\<close>\<close>

partial_function (option) ancestor_until :: "server \<Rightarrow> win_ptr \<Rightarrow> win_ptr \<Rightarrow> win_ptr option" where
  "ancestor_until s wp kwp =
    (if kwp = wp \<or> kwp = rootwp s (w_layer (win s kwp)) then Some kwp
     else if w_parent (win s kwp) = None then None
     else ancestor_until s wp (the (w_parent (win s kwp))))"

partial_function (option) keystroke_up ::
  "server \<Rightarrow> 32 word \<Rightarrow> (win_ptr \<Rightarrow> GR_EVENT) \<Rightarrow> win_ptr \<Rightarrow> win_ptr \<Rightarrow> evq \<Rightarrow> evq option" where
  "keystroke_up s emask ev kwp wp q =
    (if find (selects emask) (w_eventclients (win s wp)) \<noteq> None
     then Some (post_event (client (the (find (selects emask) (w_eventclients (win s wp))))) (ev wp) q)
     else if stops_at s emask wp \<or> wp = kwp then Some q
     else if w_parent (win s wp) = None then None
     else keystroke_up s emask ev kwp (the (w_parent (win s wp))) q)"

definition key_event :: "server \<Rightarrow> key_dir \<Rightarrow> int \<Rightarrow> 32 word \<Rightarrow> int \<Rightarrow> GR_WINDOW_ID \<Rightarrow> win_ptr \<Rightarrow> GR_EVENT" where
  "key_event s type keyvalue modifiers scancode subwid wp =
    EVENT_KEYSTROKE type (mouse_info s wp subwid (curbuttons s) modifiers) keyvalue scancode False"

definition GsDeliverKeyboardEvent ::
  "GR_WINDOW_ID \<Rightarrow> key_dir \<Rightarrow> int \<Rightarrow> 32 word \<Rightarrow> int \<Rightarrow> server \<Rightarrow> server option" where
  "GsDeliverKeyboardEvent wid type keyvalue modifiers scancode s =
    (let m = GR_EVENTMASK (key_type type)
     in if m = 0 then Some s
     else
       let s = GsResetScreenSaver s;
           (r, q) = grabbed_keys (hotkey_event s type keyvalue modifiers scancode) keyvalue (list_grabbed_keys s) (evqueues s);
           s = s\<lparr>evqueues := q\<rparr>;
           send = (\<lambda>kwp wp subwid s. map_option (\<lambda>q. s\<lparr>evqueues := q\<rparr>)
             (keystroke_up s m (key_event s type keyvalue modifiers scancode subwid) kwp wp (evqueues s)))
       in case r of
            GrabReturn \<Rightarrow> Some s
          | GrabKey k \<Rightarrow>
              Option.bind (GsFindWindow (g_wid k) s) (\<lambda>(r, s).
              case r of
                None \<Rightarrow> Some s
              | Some wp \<Rightarrow>
                  Option.bind (ancestor_until s wp (focuswp s)) (\<lambda>kwp.
                  if kwp \<noteq> wp \<and> (g_type k \<noteq> GR_GRAB_EXCLUSIVE_MOUSE \<or> wp \<noteq> mousewp s) then Some s
                  else send kwp wp (w_id (win s wp)) s))
          | GrabNone \<Rightarrow>
              Option.bind (if wid \<noteq> 0 then GsFindWindow wid s else Some (Some (focuswp s), s)) (\<lambda>(r, s).
              case r of
                None \<Rightarrow> Some s
              | Some kwp \<Rightarrow>
                  Option.bind (ancestor_until s kwp (mousewp s)) (\<lambda>tempwp.
                  let wp = (if tempwp \<noteq> kwp then kwp else mousewp s)
                  in send kwp wp (w_id (win s wp)) s)))"

text \<open>
  \<open>GrGrabKey\<close> and \<open>GrUngrabKey\<close> for the current client \<open>c\<close>.  \<open>mem\<close> says whether \<open>NANOX_MALLOC\<close> succeeds.  The scan
  of the list returns the result of the call when it ends early.
\<close>

fun grab_scan :: "client_ptr \<Rightarrow> GR_WINDOW_ID \<Rightarrow> int \<Rightarrow> int \<Rightarrow> grabbed_key list \<Rightarrow> bool option" where
  "grab_scan c ident key type [] = None"
| "grab_scan c ident key type (k # ks) =
    (if g_key k = key then
       if g_wid k = ident \<and> g_type k = type \<and> g_owner k = c then Some True
       else if type \<noteq> GR_GRAB_HOTKEY \<and> g_type k \<noteq> GR_GRAB_HOTKEY then Some False
       else grab_scan c ident key type ks
     else grab_scan c ident key type ks)"

definition GrGrabKey :: "bool \<Rightarrow> client_ptr \<Rightarrow> GR_WINDOW_ID \<Rightarrow> int \<Rightarrow> int \<Rightarrow> server \<Rightarrow> bool \<times> server" where
  "GrGrabKey mem c ident key type s =
    (if \<not> (0 \<le> type \<and> type \<le> GR_GRAB_EXCLUSIVE_MOUSE) then (False, s)
     else case grab_scan c ident key type (list_grabbed_keys s) of
       Some r \<Rightarrow> (r, s)
     | None \<Rightarrow>
         if \<not> mem then (False, s)
         else
           let k = \<lparr>g_owner = c, g_type = type, g_wid = ident, g_key = key\<rparr>
           in (True, s\<lparr>list_grabbed_keys :=
             (if type \<noteq> GR_GRAB_HOTKEY \<or> list_grabbed_keys s = [] then k # list_grabbed_keys s
              else list_grabbed_keys s @ [k])\<rparr>))"

fun ungrab :: "client_ptr \<Rightarrow> GR_WINDOW_ID \<Rightarrow> int \<Rightarrow> grabbed_key list \<Rightarrow> grabbed_key list" where
  "ungrab c ident key [] = []"
| "ungrab c ident key (k # ks) =
    (if g_key k = key \<and> g_wid k = ident \<and> g_owner k = c then ks else k # ungrab c ident key ks)"

definition GrUngrabKey :: "client_ptr \<Rightarrow> GR_WINDOW_ID \<Rightarrow> int \<Rightarrow> server \<Rightarrow> server" where
  "GrUngrabKey c ident key s = s\<lparr>list_grabbed_keys := ungrab c ident key (list_grabbed_keys s)\<rparr>"

end
