(* ===== verification/Win_Tree.thy ===== *)
theory Win_Tree
  imports Win_Model Evt_Queue
begin

text \<open>
  The window tree that the pointers describe.  \<open>window_tree W root t\<close> says that following \<open>children\<close> and
  \<open>siblings\<close> from \<open>root\<close> visits the tree \<open>t\<close> and that the \<open>parent\<close> pointers lead back.  The lineage of a window
  is its list of ancestors, itself first, each with its earlier siblings, which are above it.  Each loop of the
  code is an operation on the lineage.
\<close>

section \<open>Trees\<close>

datatype wtree = Node (root_of: win_ptr) (subtrees: "wtree list")

fun nodes :: "wtree \<Rightarrow> win_ptr list" where
  "nodes (Node v ts) = v # concat (map nodes ts)"

abbreviation forest_nodes :: "wtree list \<Rightarrow> win_ptr list" where
  "forest_nodes ts \<equiv> concat (map nodes ts)"

fun linked :: "(win_ptr \<Rightarrow> gr_window) \<Rightarrow> wtree \<Rightarrow> bool" where
  "linked W (Node v ts) \<longleftrightarrow>
     chain (\<lambda>p. w_siblings (W p)) (w_children (W v)) (map root_of ts) \<and>
     (\<forall>t\<in>set ts. w_parent (W (root_of t)) = Some v \<and> linked W t)"

definition window_tree :: "(win_ptr \<Rightarrow> gr_window) \<Rightarrow> win_ptr \<Rightarrow> wtree \<Rightarrow> bool" where
  "window_tree W root t \<longleftrightarrow> root_of t = root \<and> w_parent (W root) = None \<and> w_siblings (W root) = None \<and>
     linked W t \<and> distinct (nodes t)"

lemma root_in_nodes [simp]: "root_of t \<in> set (nodes t)"
  by (cases t) simp

lemma roots_in_forest: "root_of ` set ts \<subseteq> set (forest_nodes ts)"
proof
  fix x assume "x \<in> root_of ` set ts"
  then obtain t where "t \<in> set ts" "x = root_of t" by blast
  then show "x \<in> set (forest_nodes ts)" using root_in_nodes [of t] by (auto simp del: root_in_nodes)
qed

text \<open>The lineage of \<open>w\<close>; \<open>es\<close> are the earlier siblings of the tree's root.\<close>

fun lineage :: "wtree \<Rightarrow> win_ptr \<Rightarrow> win_ptr list \<Rightarrow> (win_ptr \<times> win_ptr list) list"
  and lineage_in :: "wtree list \<Rightarrow> win_ptr \<Rightarrow> win_ptr list \<Rightarrow> (win_ptr \<times> win_ptr list) list" where
  "lineage (Node v ts) w es = (if v = w then [(v, es)] else lineage_in ts w [] @ [(v, es)])"
| "lineage_in [] w es = []"
| "lineage_in (t # ts) w es = (if w \<in> set (nodes t) then lineage t w es else lineage_in ts w (es @ [root_of t]))"

fun child_list :: "wtree \<Rightarrow> win_ptr \<Rightarrow> win_ptr list"
  and child_list_in :: "wtree list \<Rightarrow> win_ptr \<Rightarrow> win_ptr list" where
  "child_list (Node v ts) w = (if v = w then map root_of ts else child_list_in ts w)"
| "child_list_in [] w = []"
| "child_list_in (t # ts) w = (if w \<in> set (nodes t) then child_list t w else child_list_in ts w)"

section \<open>The lineage follows the pointers\<close>

lemma siblings_to_end: "chain (\<lambda>p. w_siblings (W p)) p as \<Longrightarrow> siblings_to W p None = Some as"
proof (induction as arbitrary: p)
  case (Cons a as)
  then show ?case by (subst siblings_to.simps) simp
qed (simp add: siblings_to.simps)

lemma siblings_to_before:
  assumes "chain (\<lambda>p. w_siblings (W p)) p (as @ b # bs)" and "b \<notin> set as"
  shows "siblings_to W p (Some b) = Some as"
  using assms
proof (induction as arbitrary: p)
  case Nil
  then show ?case by (simp add: siblings_to.simps)
next
  case (Cons a as)
  then show ?case by (subst siblings_to.simps) simp
qed

definition climbs :: "(win_ptr \<Rightarrow> gr_window) \<Rightarrow> win_ptr \<times> win_ptr list \<Rightarrow> win_ptr \<times> win_ptr list \<Rightarrow> bool" where
  "climbs W a b \<longleftrightarrow> w_parent (W (fst a)) = Some (fst b) \<and>
     siblings_to W (w_children (W (fst b))) (Some (fst a)) = Some (snd a)"

lemma lineage_last:
  "w \<in> set (nodes t) \<Longrightarrow> lineage t w es \<noteq> [] \<and> last (lineage t w es) = (root_of t, es)"
  by (cases t) simp

lemma lineage_in_last:
  assumes "w \<in> set (forest_nodes ts)"
  shows "\<exists>as t bs. ts = as @ t # bs \<and> w \<in> set (nodes t) \<and> lineage_in ts w es = lineage t w (es @ map root_of as)"
  using assms
proof (induction ts arbitrary: es)
  case (Cons t ts)
  show ?case
  proof (cases "w \<in> set (nodes t)")
    case True
    then show ?thesis by (intro exI [of _ "[]"] exI [of _ t] exI [of _ ts]) simp
  next
    case False
    then have "w \<in> set (forest_nodes ts)" using Cons.prems by simp
    from Cons.IH [OF this, of "es @ [root_of t]"]
    obtain as t' bs where "ts = as @ t' # bs" "w \<in> set (nodes t')"
      "lineage_in ts w (es @ [root_of t]) = lineage t' w ((es @ [root_of t]) @ map root_of as)" by blast
    then show ?thesis using False by (intro exI [of _ "t # as"] exI [of _ t'] exI [of _ bs]) simp
  qed
qed simp

lemma lineage_hd:
  "w \<in> set (nodes t) \<Longrightarrow> fst (hd (lineage t w es)) = w \<and> lineage t w es \<noteq> []"
proof (induction "length (nodes t)" arbitrary: t es rule: less_induct)
  case less
  obtain v ts where t: "t = Node v ts" by (cases t)
  show ?case
  proof (cases "v = w")
    case False
    then have "w \<in> set (forest_nodes ts)" using less.prems t by simp
    from lineage_in_last [OF this, of "[]"]
    obtain as t' bs where ts: "ts = as @ t' # bs" "w \<in> set (nodes t')" "lineage_in ts w [] = lineage t' w (map root_of as)"
      by auto
    have "length (nodes t') < length (nodes t)" using ts(1) t by simp
    from less.hyps [OF this ts(2)] show ?thesis using ts(3) False t by simp
  qed (use t in simp)
qed

lemma lineage_climbs:
  "w \<in> set (nodes t) \<Longrightarrow> linked W t \<Longrightarrow> distinct (nodes t) \<Longrightarrow> adjacent (climbs W) (lineage t w es)"
proof (induction "length (nodes t)" arbitrary: t es rule: less_induct)
  case less
  obtain v ts where t: "t = Node v ts" by (cases t)
  show ?case
  proof (cases "v = w")
    case False
    then have w: "w \<in> set (forest_nodes ts)" using less.prems t by simp
    from lineage_in_last [OF w, of "[]"]
    obtain as t' bs where ts: "ts = as @ t' # bs" "w \<in> set (nodes t')" "lineage_in ts w [] = lineage t' w (map root_of as)"
      by auto
    have len: "length (nodes t') < length (nodes t)" using ts(1) t by simp
    have sub: "linked W t'" "distinct (nodes t')" using less.prems t ts(1) by auto
    have "root_of t' \<notin> set (map root_of as)"
    proof
      assume "root_of t' \<in> set (map root_of as)"
      then have "root_of t' \<in> set (forest_nodes as) \<inter> set (nodes t')" using roots_in_forest [of as] by auto
      then show False using less.prems(3) t ts(1) by auto
    qed
    then have "climbs W (root_of t', map root_of as) (v, es)"
      using less.prems(2) t ts(1) siblings_to_before [of W "w_children (W v)" "map root_of as" "root_of t'" "map root_of bs"]
      by (simp add: climbs_def)
    then show ?thesis
      using less.hyps [OF len ts(2) sub, of "map root_of as"] lineage_last [OF ts(2), of "map root_of as"] False t ts(3)
      by (simp add: adjacent_append)
  qed (use t in simp)
qed

lemma lineage_nodes:
  "w \<in> set (nodes t) \<Longrightarrow> fst ` set (lineage t w es) \<subseteq> set (nodes t) \<and> \<Union> (set ` snd ` set (butlast (lineage t w es))) \<subseteq> set (nodes t)"
proof (induction "length (nodes t)" arbitrary: t es rule: less_induct)
  case less
  obtain v ts where t: "t = Node v ts" by (cases t)
  show ?case
  proof (cases "v = w")
    case False
    then have w: "w \<in> set (forest_nodes ts)" using less.prems t by simp
    from lineage_in_last [OF w, of "[]"]
    obtain as t' bs where ts: "ts = as @ t' # bs" "w \<in> set (nodes t')" "lineage_in ts w [] = lineage t' w (map root_of as)"
      by auto
    let ?l = "lineage t' w (map root_of as)"
    have len: "length (nodes t') < length (nodes t)" using ts(1) t by simp
    note l = lineage_last [OF ts(2), of "map root_of as"]
    have "?l = butlast ?l @ [(root_of t', map root_of as)]" using l append_butlast_last_id [of ?l] by simp
    then have "set ?l = insert (root_of t', map root_of as) (set (butlast ?l))"
      by (metis list.simps(15) rotate1.simps(2) set_rotate1)
    then have "\<Union> (set ` snd ` set ?l) \<subseteq> set (map root_of as) \<union> set (nodes t')" "fst ` set ?l \<subseteq> set (nodes t')"
      using less.hyps [OF len ts(2), of "map root_of as"] by auto
    moreover have "set (map root_of as) \<subseteq> set (nodes t)" "set (nodes t') \<subseteq> set (nodes t)"
      using roots_in_forest [of as] t ts(1) by auto
    ultimately have "fst ` set ?l \<subseteq> set (nodes t)" "\<Union> (set ` snd ` set ?l) \<subseteq> set (nodes t)" by blast+
    then show ?thesis using False t ts(3) l by (simp add: butlast_append)
  qed (use t in simp)
qed

text \<open>The children of a window.\<close>

lemma child_list_in_split:
  assumes "w \<in> set (forest_nodes ts)"
  shows "\<exists>t\<in>set ts. w \<in> set (nodes t) \<and> child_list_in ts w = child_list t w"
  using assms by (induction ts) auto

lemma child_list_chain:
  "w \<in> set (nodes t) \<Longrightarrow> linked W t \<Longrightarrow>
    chain (\<lambda>p. w_siblings (W p)) (w_children (W w)) (child_list t w) \<and> set (child_list t w) \<subseteq> set (nodes t)"
proof (induction "length (nodes t)" arbitrary: t rule: less_induct)
  case less
  obtain v ts where t: "t = Node v ts" by (cases t)
  show ?case
  proof (cases "v = w")
    case True
    then show ?thesis using less.prems t roots_in_forest [of ts] by auto
  next
    case False
    then have w: "w \<in> set (forest_nodes ts)" using less.prems t by simp
    from child_list_in_split [OF this]
    obtain t' where ts: "t' \<in> set ts" "w \<in> set (nodes t')" "child_list_in ts w = child_list t' w" by blast
    have "length (nodes t') < length (nodes t)" using split_list [OF ts(1)] t by auto
    from less.hyps [OF this ts(2)] show ?thesis using less.prems ts(1,3) t False by auto
  qed
qed

end
