(* ===== verification/Win_Clip.thy ===== *)
theory Win_Clip
  imports Win_Tree
begin

text \<open>
  The loops of \<open>GsSetClipWindow\<close> as operations on sets of points, along the lineage of the window.
\<close>

section \<open>Points\<close>

definition win_rect :: "gr_window \<Rightarrow> (MWCOORD \<times> MWCOORD) set" where
  "win_rect w = {(a, b). w_x w \<le> a \<and> a < w_x w + w_width w \<and> w_y w \<le> b \<and> b < w_y w + w_height w}"

definition border_rect :: "gr_window \<Rightarrow> (MWCOORD \<times> MWCOORD) set" where
  "border_rect w = {(a, b). w_x w - w_bordersize w \<le> a \<and> a < w_x w + w_width w + w_bordersize w \<and>
     w_y w - w_bordersize w \<le> b \<and> b < w_y w + w_height w + w_bordersize w}"

definition shape_pts :: "gr_window \<Rightarrow> (MWCOORD \<times> MWCOORD) set" where
  "shape_pts w = (case w_clipregion w of None \<Rightarrow> {} | Some rgn \<Rightarrow> {(x, y). (x - w_x w, y - w_y w) \<in> rgn_pts rgn})"

text \<open>What an obscuring window covers; a child's shape counts when its parent is shaped or the root.\<close>

definition cover :: "gr_window \<Rightarrow> (MWCOORD \<times> MWCOORD) set" where
  "cover w = (if obscures w then border_rect w \<union> shape_pts w else {})"

definition child_cover :: "bool \<Rightarrow> gr_window \<Rightarrow> (MWCOORD \<times> MWCOORD) set" where
  "child_cover shaped w = (if obscures w then border_rect w \<union> (if shaped then shape_pts w else {}) else {})"

definition win_ok :: "gr_window \<Rightarrow> bool" where
  "win_ok w \<longleftrightarrow> 0 < w_width w \<and> 0 < w_height w \<and> 0 \<le> w_bordersize w \<and>
     (\<forall>rgn. w_clipregion w = Some rgn \<longrightarrow> rgn_ok rgn)"

fun box_pts :: "MWCOORD \<times> MWCOORD \<times> MWCOORD \<times> MWCOORD \<Rightarrow> (MWCOORD \<times> MWCOORD) set" where
  "box_pts (x, y, width, height) = {(a, b). x \<le> a \<and> a < x + width \<and> y \<le> b \<and> b < y + height}"

section \<open>The rectangle cut at the parents\<close>

lemma cut_to_parent_pts: "box_pts (cut_to_parent pwp box) = box_pts box \<inter> win_rect pwp"
  by (cases box) (auto simp: win_rect_def Let_def)

lemma cut_to_parents_lineage:
  assumes "adjacent (climbs W) ps" and "ps \<noteq> []" and "fst (last ps) = root" and "root \<notin> fst ` set (butlast ps)"
  shows "\<exists>box'. cut_to_parents W root (fst (hd ps)) box = Some box' \<and>
    box_pts box' = box_pts box \<inter> (\<Inter>a\<in>set (tl ps). win_rect (W (fst a)))"
  using assms
proof (induction ps arbitrary: box)
  case (Cons a ps)
  show ?case
  proof (cases "ps = []")
    case True
    then show ?thesis using Cons.prems by (subst cut_to_parents.simps) simp
  next
    case False
    then have c: "climbs W a (hd ps)" "adjacent (climbs W) ps" and ne: "fst a \<noteq> root"
      using Cons.prems by (auto simp: adjacent_Cons)
    let ?b = "cut_to_parent (W (fst (hd ps))) box"
    have eq: "cut_to_parents W root (fst a) box = cut_to_parents W root (fst (hd ps)) ?b"
      using c(1) ne by (subst cut_to_parents.simps) (simp add: climbs_def)
    obtain box' where b: "cut_to_parents W root (fst (hd ps)) ?b = Some box'"
      "box_pts box' = box_pts ?b \<inter> (\<Inter>a\<in>set (tl ps). win_rect (W (fst a)))"
      using Cons.IH [OF c(2) False, of ?b] Cons.prems False by auto
    have "set ps = insert (hd ps) (set (tl ps))" using False by (cases ps) auto
    then have "box_pts box' = box_pts box \<inter> (\<Inter>a\<in>set ps. win_rect (W (fst a)))"
      using b(2) by (simp only: cut_to_parent_pts INF_insert Int_assoc)
    then show ?thesis using b(1) eq by simp
  qed
qed simp

section \<open>The obscuring windows\<close>

definition good :: "MWCLIPREGION \<times> MWCLIPREGION \<Rightarrow> bool" where
  "good rv \<longleftrightarrow> rgn_ok (fst rv) \<and> rgn_ok (snd rv)"

lemma border_region_ok:
  assumes "win_ok w" and "rgn_ok r"
  shows "rgn_ok (border_region w r)" "rgn_pts (border_region w r) = border_rect w"
  using assms rgn.set_rect_ok [OF assms(2), of "w_x w - w_bordersize w" "w_x w + w_width w + w_bordersize w"
      "w_y w - w_bordersize w" "w_y w + w_height w + w_bordersize w"]
  by (auto simp: border_region_def border_rect_def win_ok_def Let_def)

lemma cut_sibling_pts:
  assumes "win_ok sib" and "good rv"
  shows "good (cut_sibling beyond sib rv)"
    "rgn_pts (snd (cut_sibling beyond sib rv)) = rgn_pts (snd rv) - cover sib"
proof (atomize (full), goal_cases)
  case 1
  obtain r vis where rv: "rv = (r, vis)" by (cases rv)
  have ok: "rgn_ok r" "rgn_ok vis" using assms(2) by (simp_all add: good_def rv)
  note b = border_region_ok [OF assms(1) ok(1)]
  let ?v = "subtract_region beyond vis (border_region sib r)"
  have v: "rgn_ok ?v" "rgn_pts ?v = rgn_pts vis - border_rect sib" using rgn.minus_ok [OF ok(2) b(1), where beyond = beyond] b(2) by simp_all
  have "w_clipregion sib = Some s \<Longrightarrow> rgn_ok s" for s using assms(1) by (simp add: win_ok_def)
  from rgn.minus_shifted [OF v(1) this, where beyond = beyond and dx = "w_x sib" and dy = "w_y sib"] show ?case
    using ok b(1) v(2) by (auto simp: rv cut_sibling_def good_def cover_def shape_pts_def Let_def split: option.splits)
qed

lemma cut_siblings_pts:
  assumes "\<forall>w\<in>set ws. win_ok (W w)" and "good rv"
  shows "good (cut_siblings beyond W ws rv)"
    "rgn_pts (snd (cut_siblings beyond W ws rv)) = rgn_pts (snd rv) - (\<Union>w\<in>set ws. cover (W w))"
proof (atomize (full), goal_cases)
  case 1
  show ?case using assms
  proof (induction ws arbitrary: rv)
    case (Cons w ws)
    then show ?case using cut_sibling_pts [of "W w" rv beyond] by (auto simp: cut_siblings_def)
  qed (simp add: cut_siblings_def)
qed

lemma cut_child_pts:
  assumes "win_ok sib" and "good rv" and "obscures sib \<Longrightarrow> w_clipregion wp \<noteq> None \<Longrightarrow> w_clipregion sib \<noteq> None"
  shows "\<exists>rv'. cut_child beyond wp sib rv = Some rv' \<and> good rv' \<and>
    rgn_pts (snd rv') = rgn_pts (snd rv) - child_cover (w_clipregion wp \<noteq> None) sib"
proof -
  obtain r vis where rv: "rv = (r, vis)" by (cases rv)
  have ok: "rgn_ok r" "rgn_ok vis" using assms(2) by (simp_all add: good_def rv)
  note b = border_region_ok [OF assms(1) ok(1)]
  note v = rgn.minus_ok [OF ok(2) b(1), where beyond = beyond]
  have "rgn_ok s \<Longrightarrow> good (r', subtract_region beyond vis' (GdOffsetRegion s dx dy)) \<and>
     rgn_pts (subtract_region beyond vis' (GdOffsetRegion s dx dy)) = rgn_pts vis' - {(x, y). (x - dx, y - dy) \<in> rgn_pts s}"
    if "rgn_ok r'" "rgn_ok vis'" for s r' vis' dx dy
    using that rgn.shift_ok [of s dx dy] rgn.minus_ok [of vis' "GdOffsetRegion s dx dy", where beyond = beyond] by (auto simp: good_def)
  then show ?thesis
    using assms(1,3) ok b v
    by (auto simp: rv cut_child_def good_def child_cover_def shape_pts_def Let_def win_ok_def split: option.splits)
qed

lemma cut_children_pts:
  assumes "\<forall>w\<in>set ws. win_ok (W w)" and "good rv"
    and "\<forall>w\<in>set ws. obscures (W w) \<and> w_clipregion wp \<noteq> None \<longrightarrow> w_clipregion (W w) \<noteq> None"
  shows "\<exists>rv'. cut_children beyond W wp ws rv = Some rv' \<and> good rv' \<and>
    rgn_pts (snd rv') = rgn_pts (snd rv) - (\<Union>w\<in>set ws. child_cover (w_clipregion wp \<noteq> None) (W w))"
  using assms
proof (induction ws arbitrary: rv)
  case (Cons w ws)
  obtain rv1 where r: "cut_child beyond wp (W w) rv = Some rv1" "good rv1"
    "rgn_pts (snd rv1) = rgn_pts (snd rv) - child_cover (w_clipregion wp \<noteq> None) (W w)"
    using cut_child_pts [of "W w" rv wp beyond] Cons.prems by auto
  then show ?case using Cons.IH [OF _ r(2)] Cons.prems by (auto simp del: not_None_eq)
qed simp

lemma cut_children_crash:
  assumes "w_clipregion wp \<noteq> None" and "\<exists>w\<in>set ws. obscures (W w) \<and> w_clipregion (W w) = None"
  shows "cut_children beyond W wp ws rv = None"
  using assms(2)
proof (induction ws arbitrary: rv)
  case (Cons w ws)
  show ?case
  proof (cases "obscures (W w) \<and> w_clipregion (W w) = None")
    case True
    then have "cut_child beyond wp (W w) rv = None" using assms(1) by (cases rv) (simp add: cut_child_def Let_def)
    then show ?thesis by simp
  next
    case False
    then show ?thesis using Cons by (cases "cut_child beyond wp (W w) rv") auto
  qed
qed simp

text \<open>The loop over the parents, below the root.\<close>

lemma cut_obscured_lineage:
  assumes "adjacent (climbs W) ps" and "2 \<le> length ps" and "fst (last ps) = root" and "root \<notin> fst ` set (butlast ps)"
  shows "cut_obscured beyond W root excl (fst (hd ps)) rv =
    Some (fold (\<lambda>a. cut_siblings beyond W (snd a)) (butlast ps) rv)"
  using assms
proof (induction ps arbitrary: rv)
  case (Cons a ps)
  have ne: "ps \<noteq> []" using Cons.prems(2) by auto
  then have c: "climbs W a (hd ps)" "adjacent (climbs W) ps" using Cons.prems by (auto simp: adjacent_Cons)
  have step: "cut_obscured beyond W root excl (fst a) rv =
    (if fst (hd ps) = root then Some (cut_siblings beyond W (snd a) rv)
     else cut_obscured beyond W root excl (fst (hd ps)) (cut_siblings beyond W (snd a) rv))"
    using c(1) by (subst cut_obscured.simps) (simp add: climbs_def)
  show ?case
  proof (cases "tl ps = []")
    case True
    then show ?thesis using step Cons.prems(3) ne by (cases ps) auto
  next
    case False
    then have l: "2 \<le> length ps" by (cases ps) (auto simp: Suc_le_eq)
    have "hd ps \<in> set (butlast ps)" using False ne by (cases ps) auto
    then have "fst (hd ps) \<noteq> root" using Cons.prems(4) ne by auto
    then show ?thesis using step Cons.IH [OF c(2) l] Cons.prems(3,4) ne by auto
  qed
qed simp

lemma fold_siblings_pts:
  assumes "\<forall>a\<in>set ps. \<forall>w\<in>set (snd a). win_ok (W w)" and "good rv"
  shows "good (fold (\<lambda>a. cut_siblings beyond W (snd a)) ps rv)"
    "rgn_pts (snd (fold (\<lambda>a. cut_siblings beyond W (snd a)) ps rv)) =
      rgn_pts (snd rv) - (\<Union>a\<in>set ps. \<Union>w\<in>set (snd a). cover (W w))"
proof (atomize (full), goal_cases)
  case 1
  show ?case using assms
  proof (induction ps arbitrary: rv)
    case (Cons a ps)
    then show ?case using cut_siblings_pts [of "snd a" W rv beyond] by auto
  qed simp
qed

end
