(* ===== verification/Win_Props.thy ===== *)
theory Win_Props
  imports Win_Clip
begin

text \<open>
  The theorems on windows: the clip region of a window, the window under the mouse, and their agreement; the
  search by identifier with its cache.
\<close>

section \<open>The lineage in a window tree\<close>

lemma tree_lineage:
  assumes "window_tree W root t" and "w \<in> set (nodes t)"
  shows "adjacent (climbs W) (lineage t w [])" "lineage t w [] \<noteq> []" "fst (hd (lineage t w [])) = w"
    "last (lineage t w []) = (root, [])" "root \<notin> fst ` set (butlast (lineage t w []))"
    "\<forall>a\<in>set (lineage t w []). set (snd a) \<subseteq> set (nodes t)"
    "lineage t w [] = (if w = root then [(root, [])] else butlast (lineage t w []) @ [(root, [])])"
    "w \<noteq> root \<Longrightarrow> 2 \<le> length (lineage t w [])"
proof -
  note wt = assms(1) [unfolded window_tree_def]
  obtain ts where t: "t = Node root ts" using wt by (cases t) auto
  show adj: "adjacent (climbs W) (lineage t w [])" using lineage_climbs [OF assms(2)] wt by blast
  show ne: "lineage t w [] \<noteq> []" and hd: "fst (hd (lineage t w [])) = w" using lineage_hd [OF assms(2)] by blast+
  show l: "last (lineage t w []) = (root, [])" using lineage_last [OF assms(2)] wt by blast
  show "root \<notin> fst ` set (butlast (lineage t w []))"
  proof (cases "w = root")
    case False
    then have w: "w \<in> set (forest_nodes ts)" using assms(2) t by simp
    from lineage_in_last [OF w, of "[]"]
    obtain as t' bs where ts: "ts = as @ t' # bs" "w \<in> set (nodes t')" "lineage_in ts w [] = lineage t' w (map root_of as)" by auto
    have "root \<notin> set (nodes t')" using wt t ts(1) by auto
    then show ?thesis using lineage_nodes [OF ts(2), of "map root_of as"] t False ts(3) by (auto simp: image_iff)
  qed (simp add: t)
  show eq: "lineage t w [] = (if w = root then [(root, [])] else butlast (lineage t w []) @ [(root, [])])"
    using append_butlast_last_id [OF ne] l by (simp add: t)
  show "\<forall>a\<in>set (lineage t w []). set (snd a) \<subseteq> set (nodes t)"
  proof
    fix a assume "a \<in> set (lineage t w [])"
    then have "a \<in> set (butlast (lineage t w [])) \<or> a = (root, [])"
      using eq by (metis Un_iff empty_iff list.set(1) set_ConsD set_append)
    then show "set (snd a) \<subseteq> set (nodes t)" using lineage_nodes [OF assms(2), of "[]"] by auto
  qed
  show "2 \<le> length (lineage t w [])" if "w \<noteq> root"
    using that eq hd by (cases "butlast (lineage t w [])") auto
qed

section \<open>The clip region\<close>

text \<open>
  The visible points of a window: inside the window and all its ancestors, not covered by an earlier sibling of
  one of these nor by a child of the window, inside the window's own shape and inside the user's region.
\<close>

definition visible_pts ::
  "(win_ptr \<Rightarrow> gr_window) \<Rightarrow> wtree \<Rightarrow> win_ptr \<Rightarrow> bool \<Rightarrow> MWCLIPREGION option \<Rightarrow> (MWCOORD \<times> MWCOORD) set" where
  "visible_pts W t w excl userregion =
    {p. (\<forall>(a, es)\<in>set (lineage t w []). p \<in> win_rect (W a) \<and> (\<forall>e\<in>set es. p \<notin> cover (W e))) \<and>
        (excl \<or> (\<forall>c\<in>set (child_list t w). p \<notin> child_cover (w = root_of t \<or> w_clipregion (W w) \<noteq> None) (W c))) \<and>
        (w_clipregion (W w) \<noteq> None \<longrightarrow> p \<in> shape_pts (W w)) \<and>
        (\<forall>rgn. userregion = Some rgn \<longrightarrow> (fst p - w_x (W w), snd p - w_y (W w)) \<in> rgn_pts rgn)}"

definition windows_ok :: "(win_ptr \<Rightarrow> gr_window) \<Rightarrow> wtree \<Rightarrow> bool" where
  "windows_ok W t \<longleftrightarrow> (\<forall>v\<in>set (nodes t). win_ok (W v))"

definition shape_agrees :: "(win_ptr \<Rightarrow> gr_window) \<Rightarrow> wtree \<Rightarrow> win_ptr \<Rightarrow> bool" where
  "shape_agrees W t w \<longleftrightarrow> w = root_of t \<or> w_clipregion (W w) = None \<or>
     (\<forall>c\<in>set (child_list t w). obscures (W c) \<longrightarrow> w_clipregion (W c) \<noteq> None)"

lemma clip_region_set:
  "clip_state.clipregion (GdSetClipRegion reg cs) = (case reg of None \<Rightarrow> GdAllocRegion | Some r \<Rightarrow> r)"
  by (simp add: GdSetClipRegion_def set_cache_def Let_def split: option.split)

lemma GdAllocRegion_pts: "rgn_pts GdAllocRegion = {}"
  by (simp add: GdAllocRegion_def EMPTY_REGION_def rgn_pts_def)

lemma child_cover_True: "child_cover True w = cover w"
  by (simp add: child_cover_def cover_def)

text \<open>The first walk computes the rectangle that is common to the window and its ancestors.\<close>

lemma cut_to_parents_tree:
  assumes "window_tree W root t" and "w \<in> set (nodes t)"
  obtains x y width height where
    "cut_to_parents W root w (w_x (W w), w_y (W w), w_width (W w), w_height (W w)) = Some (x, y, width, height)"
    "box_pts (x, y, width, height) = (\<Inter>a\<in>set (lineage t w []). win_rect (W (fst a)))"
proof -
  let ?b = "(w_x (W w), w_y (W w), w_width (W w), w_height (W w))"
  note L = tree_lineage [OF assms]
  have "set (lineage t w []) = insert (hd (lineage t w [])) (set (tl (lineage t w [])))" using L(2) by (cases "lineage t w []") auto
  moreover have "box_pts ?b = win_rect (W w)" by (simp add: win_rect_def)
  moreover obtain b where "cut_to_parents W root w ?b = Some b"
    "box_pts b = box_pts ?b \<inter> (\<Inter>a\<in>set (tl (lineage t w [])). win_rect (W (fst a)))"
    using cut_to_parents_lineage [OF L(1,2), of root ?b] L(3,4,5) by auto
  ultimately show ?thesis using that L(3) by (cases b) simp
qed

text \<open>The part of the function after the walk to the root.\<close>

lemma obscured_pts:
  assumes wt: "window_tree W root t" and w: "w \<in> set (nodes t)" and ok: "windows_ok W t"
    and ag: "excl \<or> shape_agrees W t w" and rv: "good rv"
  shows "\<exists>rv'. Option.bind (cut_obscured beyond W root excl w rv)
      (\<lambda>rv. if w \<noteq> root \<and> \<not> excl
        then Option.bind (siblings_to W (w_children (W w)) None) (\<lambda>ws. cut_children beyond W (W w) ws rv) else Some rv) = Some rv' \<and>
    good rv' \<and> rgn_pts (snd rv') = rgn_pts (snd rv)
      - (\<Union>a\<in>set (lineage t w []). \<Union>e\<in>set (snd a). cover (W e))
      - (if excl then {} else \<Union>c\<in>set (child_list t w). child_cover (w = root_of t \<or> w_clipregion (W w) \<noteq> None) (W c))"
proof -
  note L = tree_lineage [OF wt w]
  have root: "root_of t = root" "linked W t" "w_parent (W root) = None" using wt by (simp_all add: window_tree_def)
  have ch: "siblings_to W (w_children (W w)) None = Some (child_list t w)" "set (child_list t w) \<subseteq> set (nodes t)"
    using child_list_chain [OF w root(2)] siblings_to_end by blast+
  have okc: "\<forall>c\<in>set (child_list t w). win_ok (W c)" using ok ch(2) by (auto simp: windows_ok_def)
  have oka: "\<forall>a\<in>set (lineage t w []). \<forall>e\<in>set (snd a). win_ok (W e)" using ok L(6) by (auto simp: windows_ok_def)
  show ?thesis
  proof (cases "w = root")
    case True
    let ?ws = "if excl then [] else child_list t root"
    have "siblings_to W (if excl then None else w_children (W root)) None = Some ?ws"
      using ch(1) True siblings_to_end [of W None "[]"] by simp
    then have "cut_obscured beyond W root excl w rv = Some (cut_siblings beyond W ?ws rv)"
      using root(3) True by (subst cut_obscured.simps) simp
    moreover have "\<forall>c\<in>set ?ws. win_ok (W c)" using okc True by simp
    moreover have "lineage t w [] = [(root, [])]" using L(7) True by simp
    ultimately show ?thesis using cut_siblings_pts [of ?ws W rv beyond] rv True root(1) by (auto simp: child_cover_True)
  next
    case False
    let ?rv = "fold (\<lambda>a. cut_siblings beyond W (snd a)) (butlast (lineage t w [])) rv"
    have b: "\<forall>a\<in>set (butlast (lineage t w [])). \<forall>e\<in>set (snd a). win_ok (W e)" using oka by (auto dest: in_set_butlastD)
    note F = fold_siblings_pts [OF b rv, of beyond]
    have "set (lineage t w []) = insert (root, []) (set (butlast (lineage t w [])))"
      using arg_cong [OF L(7), of set] False by simp
    then have un: "(\<Union>a\<in>set (lineage t w []). \<Union>e\<in>set (snd a). cover (W e)) =
      (\<Union>a\<in>set (butlast (lineage t w [])). \<Union>e\<in>set (snd a). cover (W e))" by simp
    have c: "cut_obscured beyond W root excl w rv = Some ?rv"
      using cut_obscured_lineage [OF L(1) L(8) [OF False], of root beyond excl rv] L(3,4,5) by simp
    show ?thesis
    proof (cases excl)
      case True
      then show ?thesis using F c un by auto
    next
      case f: False
      then have "\<forall>c\<in>set (child_list t w). obscures (W c) \<and> w_clipregion (W w) \<noteq> None \<longrightarrow> w_clipregion (W c) \<noteq> None"
        using ag False root(1) by (auto simp: shape_agrees_def)
      from cut_children_pts [OF okc F(1) this, of beyond] show ?thesis
        using c ch(1) f F(2) False root(1) un by auto
    qed
  qed
qed

lemma set_clip_visible:
  assumes "window_tree (win s) root t" and "w \<in> set (nodes t)" and "windows_ok (win s) t"
    and "rootwp s (w_layer (win s w)) = root" and "w_realized (win s w)" and "w_output (win s w)"
    and "excl \<or> shape_agrees (win s) t w" and "\<And>rgn. userregion = Some rgn \<Longrightarrow> rgn_ok rgn"
  shows "\<exists>ec. GsSetClipWindow beyond w userregion excl s = Some (s\<lparr>clipwp := Some w, eng_clip := ec\<rparr>) \<and>
    rgn_ok (clip_state.clipregion ec) \<and>
    rgn_pts (clip_state.clipregion ec) = visible_pts (win s) t w excl userregion"
proof -
  let ?W = "win s"
  let ?w = "?W w"
  note L = tree_lineage [OF assms(1,2)]
  define vis where "vis = visible_pts ?W t w excl userregion"
  obtain x y width height where box:
    "cut_to_parents ?W root w (w_x ?w, w_y ?w, w_width ?w, w_height ?w) = Some (x, y, width, height)"
    "box_pts (x, y, width, height) = (\<Inter>a\<in>set (lineage t w []). win_rect (?W (fst a)))"
    by (rule cut_to_parents_tree [OF assms(1,2)])
  show ?thesis
  proof (cases "width \<le> 0 \<or> height \<le> 0")
    case True
    then have "box_pts (x, y, width, height) = {}" by auto
    then have "vis = {}" using box(2) by (fastforce simp: vis_def visible_pts_def)
    moreover have "GsSetClipWindow beyond w userregion excl s =
      Some (s\<lparr>clipwp := Some w, eng_clip := GdSetClipRegion None (eng_clip s)\<rparr>)"
      using True box(1) assms(4,5,6) by (simp add: GsSetClipWindow_def Let_def)
    ultimately show ?thesis
      by (intro exI [of _ "GdSetClipRegion None (eng_clip s)"]) (simp add: vis_def clip_region_set GdAllocRegion_pts GdAllocRegion_ok)
  next
    case False
    let ?v0 = "GdAllocRectRegion x y (x + width) (y + height)"
    define v1 where "v1 = (case w_clipregion ?w of None \<Rightarrow> ?v0 | Some rgn \<Rightarrow> intersect_region ?v0 (GdOffsetRegion rgn (w_x ?w) (w_y ?w)))"
    have sh: "w_clipregion ?w = Some rgn \<Longrightarrow> rgn_ok rgn" for rgn using assms(2,3) by (auto simp: windows_ok_def win_ok_def)
    have v0: "rgn_ok ?v0" "rgn_pts ?v0 = box_pts (x, y, width, height)" using False by (simp_all add: GdAllocRectRegion_ok)
    have v1: "rgn_ok v1" "rgn_pts v1 = box_pts (x, y, width, height) \<inter> (if w_clipregion ?w = None then UNIV else shape_pts ?w)"
      using rgn.inter_shifted [OF v0(1) sh, where dx = "w_x ?w" and dy = "w_y ?w"] v0(2)
      by (auto simp: v1_def shape_pts_def split: option.splits)
    have "good (GdAllocRegion, v1)" using v1(1) GdAllocRegion_ok by (simp add: good_def)
    from obscured_pts [OF assms(1,2,3,7) this, of beyond]
    obtain r v2 where v2: "Option.bind (cut_obscured beyond ?W root excl w (GdAllocRegion, v1))
      (\<lambda>rv. if w \<noteq> root \<and> \<not> excl
        then Option.bind (siblings_to ?W (w_children ?w) None) (\<lambda>ws. cut_children beyond ?W ?w ws rv) else Some rv) = Some (r, v2)"
      "rgn_ok v2" "rgn_pts v2 = rgn_pts v1 - (\<Union>a\<in>set (lineage t w []). \<Union>e\<in>set (snd a). cover (?W e))
      - (if excl then {} else \<Union>c\<in>set (child_list t w). child_cover (w = root_of t \<or> w_clipregion ?w \<noteq> None) (?W c))"
      by (auto simp: good_def)
    let ?v3 = "case userregion of None \<Rightarrow> v2 | Some rgn \<Rightarrow> intersect_region v2 (GdOffsetRegion rgn (w_x ?w) (w_y ?w))"
    note v3 = rgn.inter_shifted [OF v2(2) assms(8), where dx = "w_x ?w" and dy = "w_y ?w"]
    obtain rv where rv: "cut_obscured beyond ?W root excl w (GdAllocRegion, v1) = Some rv"
      "(if w \<noteq> root \<and> \<not> excl
        then Option.bind (siblings_to ?W (w_children ?w) None) (\<lambda>ws. cut_children beyond ?W ?w ws rv) else Some rv) = Some (r, v2)"
      using v2(1) by (auto simp only: bind_eq_Some_conv)
    have set: "GsSetClipWindow beyond w userregion excl s =
      Some (s\<lparr>clipwp := Some w, eng_clip := GdSetClipRegion (Some ?v3) (eng_clip s)\<rparr>)"
      unfolding GsSetClipWindow_def Let_def assms(4) box(1) bind.bind_lunit prod.case v1_def [symmetric] rv
      using False assms(5,6) by simp
    have "rgn_pts ?v3 = rgn_pts v2 \<inter> (case userregion of None \<Rightarrow> UNIV | Some rgn \<Rightarrow> {(a, b). (a - w_x ?w, b - w_y ?w) \<in> rgn_pts rgn})"
      using v3 by blast
    also have "\<dots> = vis"
      unfolding v2(3) v1(2) box(2) vis_def visible_pts_def by (auto split: option.splits if_splits)
    finally show ?thesis
      using set v3 by (intro exI [of _ "GdSetClipRegion (Some ?v3) (eng_clip s)"]) (simp add: vis_def clip_region_set)
  qed
qed

text \<open>
  C19. \<open>GsSetClipWindow\<close> computes exactly the visible part of a window: the points inside the window and all its
  ancestors that no higher opaque sibling of one of these and no child covers, borders included, inside the window's shape
  and the user's region.  The region it hands to the engine is well-formed, both walks end, and nothing but the clip
  region and the current clip window changes.
\<close>

theorem GsSetClipWindow_correct:
  assumes "window_tree (win s) root t" and "w \<in> set (nodes t)" and "windows_ok (win s) t"
    and "rootwp s (w_layer (win s w)) = root" and "w_realized (win s w)" and "w_output (win s w)"
    and "excl \<or> shape_agrees (win s) t w" and "\<And>rgn. userregion = Some rgn \<Longrightarrow> rgn_ok rgn"
  shows "\<exists>ec. GsSetClipWindow beyond w userregion excl s = Some (s\<lparr>clipwp := Some w, eng_clip := ec\<rparr>) \<and>
    rgn_ok (clip_state.clipregion ec) \<and>
    rgn_pts (clip_state.clipregion ec) = visible_pts (win s) t w excl userregion"
  by (rule set_clip_visible [OF assms])

text \<open>Three windows: a root, and two children of it that overlap, 1 above 2.\<close>

definition sample_window :: "win_ptr \<Rightarrow> MWCOORD \<Rightarrow> MWCOORD \<Rightarrow> MWCOORD \<Rightarrow> MWCOORD \<Rightarrow> gr_window" where
  "sample_window p x y width height =
    \<lparr>w_x = x, w_y = y, w_width = width, w_height = height, w_id = p + 1, w_layer = 0, w_next = None, w_owner = 0,
     w_parent = None, w_children = None, w_siblings = None, w_bordersize = 0, w_bordercolor = 0, w_background = 0,
     w_bgpixmap = None, w_bgpixmapflags = 0,
     w_nopropmask = 0, w_eventclients = [], w_cursorid = 0, w_mapped = True, w_realized = True, w_output = True,
     w_props = 0, w_title = None, w_clipregion = None\<rparr>"

definition sample_windows :: gr_windows where
  "sample_windows =
    \<lparr>win = (\<lambda>p. if p = 0 then (sample_window 0 0 0 100 100)\<lparr>w_children := Some 1\<rparr>
       else if p = 1 then (sample_window 1 10 10 20 20)\<lparr>w_parent := Some 0, w_siblings := Some 2, w_next := Some 0\<rparr>
       else (sample_window 2 20 20 30 30)\<lparr>w_parent := Some 0, w_next := Some 1\<rparr>),
     listwp = (\<lambda>_. Some 2), rootwp = (\<lambda>_. 0), scrNumberOfLayers = 1, clipwp = None, cachewindowid = 0, cachewp = None,
     eng_clip = \<lparr>clipminx = 0, clipminy = 0, clipmaxx = 0, clipmaxy = 0, clipresult = False, clipregion = GdAllocRegion\<rparr>\<rparr>"

abbreviation (input) sample_tree :: wtree where "sample_tree \<equiv> Node 0 [Node 1 [], Node 2 []]"

lemma sample_tree_ok: "window_tree (win sample_windows) 0 sample_tree" "windows_ok (win sample_windows) sample_tree"
  by (simp_all add: window_tree_def windows_ok_def win_ok_def sample_windows_def sample_window_def)

theorem GsSetClipWindow_correct_witness:
  "\<exists>ec. GsSetClipWindow 0 2 None False sample_windows = Some (sample_windows\<lparr>clipwp := Some 2, eng_clip := ec\<rparr>) \<and>
    (40, 40) \<in> rgn_pts (clip_state.clipregion ec) \<and> (25, 25) \<notin> rgn_pts (clip_state.clipregion ec)"
proof -
  have "\<exists>ec. GsSetClipWindow 0 2 None False sample_windows = Some (sample_windows\<lparr>clipwp := Some 2, eng_clip := ec\<rparr>) \<and>
    rgn_ok (clip_state.clipregion ec) \<and>
    rgn_pts (clip_state.clipregion ec) = visible_pts (win sample_windows) sample_tree 2 False None"
    by (rule GsSetClipWindow_correct [OF sample_tree_ok(1) _ sample_tree_ok(2)])
      (simp_all add: sample_windows_def sample_window_def shape_agrees_def)
  moreover have "(40, 40) \<in> visible_pts (win sample_windows) sample_tree 2 False None"
    "(25, 25) \<notin> visible_pts (win sample_windows) sample_tree 2 False None"
    by (simp_all add: visible_pts_def sample_windows_def sample_window_def win_rect_def cover_def obscures_def
        border_rect_def shape_pts_def)
  ultimately show ?thesis by metis
qed

text \<open>
  C20. The second loop over obscuring windows tests the clip region of the window itself but moves the clip region of the child:
  a shaped window with a visible opaque child that has no shape crashes the server when it is drawn to.
\<close>

theorem shaped_parent_crashes:
  assumes "window_tree (win s) root t" and "w \<in> set (nodes t)" and "windows_ok (win s) t"
    and "rootwp s (w_layer (win s w)) = root" and "w \<noteq> root"
    and "w_realized (win s w)" and "w_output (win s w)" and "w_clipregion (win s w) \<noteq> None"
    and "c \<in> set (child_list t w)" and "obscures (win s c)" and "w_clipregion (win s c) = None"
    and "(\<Inter>a\<in>set (lineage t w []). win_rect (win s (fst a))) \<noteq> {}"
  shows "GsSetClipWindow beyond w userregion False s = None"
proof -
  let ?W = "win s"
  let ?w = "?W w"
  note L = tree_lineage [OF assms(1,2)]
  have root: "linked ?W t" using assms(1) by (simp add: window_tree_def)
  obtain x y width height where box:
    "cut_to_parents ?W root w (w_x ?w, w_y ?w, w_width ?w, w_height ?w) = Some (x, y, width, height)"
    "box_pts (x, y, width, height) = (\<Inter>a\<in>set (lineage t w []). win_rect (?W (fst a)))"
    by (rule cut_to_parents_tree [OF assms(1,2)])
  have "box_pts (x, y, width, height) \<noteq> {}" using box(2) assms(12) by (simp only: not_False_eq_True)
  then have "\<not> (width \<le> 0 \<or> height \<le> 0)" by auto
  moreover have "cut_obscured beyond ?W root False w rv =
      Some (fold (\<lambda>a. cut_siblings beyond ?W (snd a)) (butlast (lineage t w [])) rv)" for rv
    using cut_obscured_lineage [OF L(1) L(8) [OF assms(5)], of root] L(3,4,5) by simp
  moreover have "siblings_to ?W (w_children ?w) None = Some (child_list t w)"
    using child_list_chain [OF assms(2) root] siblings_to_end by blast
  moreover have "cut_children beyond ?W ?w (child_list t w) rv = None" for rv
    using cut_children_crash [OF assms(8), of "child_list t w"] assms(9-11) by blast
  ultimately show ?thesis
    unfolding GsSetClipWindow_def Let_def assms(4) box(1) bind.bind_lunit prod.case
    using assms(5,6,7) by simp
qed

definition shaped_windows :: gr_windows where
  "shaped_windows = sample_windows\<lparr>win :=
    (\<lambda>p. if p = 0 then (sample_window 0 0 0 100 100)\<lparr>w_children := Some 1\<rparr>
       else if p = 1 then (sample_window 1 10 10 20 20)
         \<lparr>w_parent := Some 0, w_children := Some 2, w_clipregion := Some (GdAllocRectRegion 0 0 10 10)\<rparr>
       else (sample_window 2 12 12 4 4)\<lparr>w_parent := Some 1\<rparr>)\<rparr>"

theorem shaped_parent_crashes_witness: "GsSetClipWindow 0 1 None False shaped_windows = None"
proof -
  let ?t = "Node 0 [Node 1 [Node 2 []]]"
  have t: "window_tree (win shaped_windows) 0 ?t" "windows_ok (win shaped_windows) ?t"
    by (simp_all add: window_tree_def windows_ok_def win_ok_def shaped_windows_def sample_windows_def sample_window_def
        GdAllocRectRegion_ok)
  have "(15, 15) \<in> (\<Inter>a\<in>set (lineage ?t 1 []). win_rect (win shaped_windows (fst a)))"
    by (simp add: shaped_windows_def sample_window_def win_rect_def)
  then have "(\<Inter>a\<in>set (lineage ?t 1 []). win_rect (win shaped_windows (fst a))) \<noteq> {}" by blast
  then show ?thesis
    by (intro shaped_parent_crashes [OF t(1) _ t(2), of 1 2])
      (simp_all add: shaped_windows_def sample_windows_def sample_window_def obscures_def)
qed

end
