(* ===== verification/Win_Hit.thy ===== *)
theory Win_Hit
  imports Win_Props
begin

text \<open>
  The window under a point (\<open>GsFindVisibleWindow\<close>), its agreement with the clip regions, and the search by
  identifier with its cache (\<open>GsFindWindow\<close>).
\<close>

section \<open>The window under a point\<close>

definition on_top :: "(win_ptr \<Rightarrow> gr_window) \<Rightarrow> MWCOORD \<Rightarrow> MWCOORD \<Rightarrow> (win_ptr \<times> win_ptr list) list \<Rightarrow> win_ptr list \<Rightarrow> bool" where
  "on_top W x y ps cs \<longleftrightarrow>
     (\<forall>(a, es)\<in>set ps. holds_point (W a) x y \<and> (\<forall>e\<in>set es. \<not> holds_point (W e) x y)) \<and>
     (\<forall>c\<in>set cs. \<not> holds_point (W c) x y)"

abbreviation tree_chain :: "(win_ptr \<Rightarrow> gr_window) \<Rightarrow> win_ptr option \<Rightarrow> wtree list \<Rightarrow> bool" where
  "tree_chain W p ts \<equiv> chain (\<lambda>p. w_siblings (W p)) p (map root_of ts) \<and> (\<forall>t\<in>set ts. linked W t)"

lemma find_visible_hits:
  assumes "tree_chain W p ts" and "distinct (forest_nodes ts)" and "\<forall>e\<in>set es. \<not> holds_point (W e) x y"
  shows "\<exists>r. find_visible W x y p ret = Some r \<and>
    (r = ret \<and> (\<forall>t\<in>set ts. \<not> holds_point (W (root_of t)) x y) \<or>
     r \<in> set (forest_nodes ts) \<and> on_top W x y (lineage_in ts r es) (child_list_in ts r))"
  using assms
proof (induction "length (forest_nodes ts)" arbitrary: p ts es ret rule: less_induct)
  case less
  show ?case
  proof (cases ts)
    case Nil
    then show ?thesis using less.prems by (subst find_visible.simps) simp
  next
    case (Cons t ts')
    obtain v us where t: "t = Node v us" by (cases t)
    have p: "p = Some v" "tree_chain W (w_siblings (W v)) ts'" "tree_chain W (w_children (W v)) us"
      using less.prems(1) Cons t by auto
    have dist: "distinct (forest_nodes us)" "distinct (forest_nodes ts')" "v \<notin> set (forest_nodes us)"
      "set (nodes t) \<inter> set (forest_nodes ts') = {}" using less.prems(2) Cons t by auto
    show ?thesis
    proof (cases "holds_point (W v) x y")
      case True
      have eq: "find_visible W x y p ret = find_visible W x y (w_children (W v)) v"
        using True p(1) by (subst find_visible.simps) simp
      have "length (forest_nodes us) < length (forest_nodes ts)" using Cons t by simp
      from less.hyps [OF this p(3) dist(1), of "[]" v]
      obtain r where r: "find_visible W x y (w_children (W v)) v = Some r"
        "r = v \<and> (\<forall>t\<in>set us. \<not> holds_point (W (root_of t)) x y) \<or>
         r \<in> set (forest_nodes us) \<and> on_top W x y (lineage_in us r []) (child_list_in us r)" by auto
      from r(2) show ?thesis
      proof
        assume "r = v \<and> (\<forall>t\<in>set us. \<not> holds_point (W (root_of t)) x y)"
        then have "on_top W x y (lineage_in ts r es) (child_list_in ts r)" "r \<in> set (forest_nodes ts)"
          using True less.prems(3) Cons t by (auto simp: on_top_def)
        then show ?thesis using eq r(1) by auto
      next
        assume h: "r \<in> set (forest_nodes us) \<and> on_top W x y (lineage_in us r []) (child_list_in us r)"
        then have "r \<noteq> v" using dist(3) by auto
        then have "on_top W x y (lineage_in ts r es) (child_list_in ts r)" "r \<in> set (forest_nodes ts)"
          using True h less.prems(3) Cons t by (auto simp: on_top_def)
        then show ?thesis using eq r(1) by auto
      qed
    next
      case False
      have eq: "find_visible W x y p ret = find_visible W x y (w_siblings (W v)) ret"
        using False p(1) by (subst find_visible.simps) simp
      have "length (forest_nodes ts') < length (forest_nodes ts)" using Cons t by simp
      moreover have "\<forall>e\<in>set (es @ [v]). \<not> holds_point (W e) x y" using less.prems(3) False by auto
      ultimately obtain r where r: "find_visible W x y (w_siblings (W v)) ret = Some r"
        "r = ret \<and> (\<forall>t\<in>set ts'. \<not> holds_point (W (root_of t)) x y) \<or>
         r \<in> set (forest_nodes ts') \<and> on_top W x y (lineage_in ts' r (es @ [v])) (child_list_in ts' r)"
        using less.hyps [OF _ p(2) dist(2)] by blast
      have "r \<in> set (forest_nodes ts') \<Longrightarrow> r \<notin> set (nodes t)" using dist(4) by blast
      then show ?thesis using eq r False Cons t by auto
    qed
  qed
qed

lemma find_visible_unique:
  assumes "tree_chain W p ts" and "distinct (forest_nodes ts)" and "w \<in> set (forest_nodes ts)"
    and "on_top W x y (lineage_in ts w es) (child_list_in ts w)"
  shows "find_visible W x y p ret = Some w"
  using assms
proof (induction "length (forest_nodes ts)" arbitrary: p ts es ret rule: less_induct)
  case less
  obtain t ts' where Cons: "ts = t # ts'" using less.prems(3) by (cases ts) auto
  obtain v us where t: "t = Node v us" by (cases t)
  have p: "p = Some v" "tree_chain W (w_siblings (W v)) ts'" "tree_chain W (w_children (W v)) us"
    using less.prems(1) Cons t by auto
  have dist: "distinct (forest_nodes us)" "distinct (forest_nodes ts')" using less.prems(2) Cons t by auto
  have len: "length (forest_nodes us) < length (forest_nodes ts)" "length (forest_nodes ts') < length (forest_nodes ts)"
    using Cons t by simp_all
  show ?case
  proof (cases "w \<in> set (nodes t)")
    case True
    then have "holds_point (W v) x y" using less.prems(4) Cons t by (auto simp: on_top_def split: if_splits)
    then have eq: "find_visible W x y p ret = find_visible W x y (w_children (W v)) v"
      using p(1) by (subst find_visible.simps) simp
    show ?thesis
    proof (cases "v = w")
      case vw: True
      then have "\<forall>u\<in>set us. \<not> holds_point (W (root_of u)) x y"
        using less.prems(4) Cons t True by (auto simp: on_top_def)
      then have none: "\<not> (r \<in> set (forest_nodes us) \<and> on_top W x y (lineage_in us r []) (child_list_in us r))" for r
      proof (intro notI, elim conjE)
        assume no: "\<forall>u\<in>set us. \<not> holds_point (W (root_of u)) x y" and r: "r \<in> set (forest_nodes us)"
          and top: "on_top W x y (lineage_in us r []) (child_list_in us r)"
        from lineage_in_last [OF r, of "[]"] obtain as u bs where
          u: "us = as @ u # bs" "r \<in> set (nodes u)" "lineage_in us r [] = lineage u r (map root_of as)" by auto
        note lineage_last [OF u(2), of "map root_of as"]
        then have "(root_of u, map root_of as) \<in> set (lineage_in us r [])" using u(3) last_in_set by metis
        then have "holds_point (W (root_of u)) x y" using top by (auto simp: on_top_def)
        then show False using no u(1) by auto
      qed
      obtain r where r: "find_visible W x y (w_children (W v)) v = Some r"
         "r = v \<and> (\<forall>t\<in>set us. \<not> holds_point (W (root_of t)) x y) \<or>
          r \<in> set (forest_nodes us) \<and> on_top W x y (lineage_in us r []) (child_list_in us r)"
        using find_visible_hits [OF p(3) dist(1), of "[]" x y v] by auto
      then have "r = v" using none [of r] by blast
      then show ?thesis using eq r(1) vw by simp
    next
      case False
      then have w: "w \<in> set (forest_nodes us)" using True t by auto
      have "on_top W x y (lineage_in us w []) (child_list_in us w)"
        using less.prems(4) Cons t True False by (auto simp: on_top_def)
      then show ?thesis using less.hyps [OF len(1) p(3) dist(1) w] eq by simp
    qed
  next
    case False
    then have w: "w \<in> set (forest_nodes ts')" using less.prems(3) Cons by simp
    have top: "on_top W x y (lineage_in ts' w (es @ [v])) (child_list_in ts' w)"
      using less.prems(4) Cons t False by simp
    from lineage_in_last [OF w, of "es @ [v]"] obtain as u bs where
      u: "ts' = as @ u # bs" "w \<in> set (nodes u)" "lineage_in ts' w (es @ [v]) = lineage u w ((es @ [v]) @ map root_of as)" by auto
    have "(root_of u, (es @ [v]) @ map root_of as) \<in> set (lineage_in ts' w (es @ [v]))"
      using lineage_last [OF u(2), of "(es @ [v]) @ map root_of as"] u(3) last_in_set by metis
    then have "\<not> holds_point (W v) x y" using top by (auto simp: on_top_def)
    then have "find_visible W x y p ret = find_visible W x y (w_siblings (W v)) ret"
      using p(1) by (subst find_visible.simps) simp
    then show ?thesis using less.hyps [OF len(2) p(2) dist(2) w top] by simp
  qed
qed

lemma tree_chain_root:
  "window_tree W root t \<Longrightarrow> tree_chain W (Some root) [t] \<and> distinct (forest_nodes [t])"
  by (auto simp: window_tree_def)

text \<open>
  C21. \<open>GsFindVisibleWindow\<close> ends and finds the window on top at a point: the one that holds the point together with all
  its ancestors while no earlier sibling of one of these and no child of it does.  There is exactly one such window when the
  root holds the point; otherwise the root is returned.
\<close>

theorem GsFindVisibleWindow_correct:
  assumes "window_tree (win s) (rootwp s 0) t"
  shows "if holds_point (win s (rootwp s 0)) x y
    then \<exists>!w. w \<in> set (nodes t) \<and> on_top (win s) x y (lineage t w []) (child_list t w) \<and> GsFindVisibleWindow x y s = Some w
    else GsFindVisibleWindow x y s = Some (rootwp s 0)"
proof -
  let ?W = "win s"
  let ?root = "rootwp s 0"
  note T = tree_chain_root [OF assms]
  have root: "root_of t = ?root" using assms by (simp add: window_tree_def)
  obtain r where r: "GsFindVisibleWindow x y s = Some r"
    "r = ?root \<and> \<not> holds_point (?W ?root) x y \<or>
     r \<in> set (nodes t) \<and> on_top ?W x y (lineage t r []) (child_list t r)"
    using find_visible_hits [OF conjunct1 [OF T] conjunct2 [OF T], of "[]" x y ?root] root
    by (auto simp: GsFindVisibleWindow_def)
  show ?thesis
  proof (cases "holds_point (?W ?root) x y")
    case False
    have "(?root, []) \<in> set (lineage t r [])" if "r \<in> set (nodes t)"
      using lineage_last [OF that, of "[]"] root last_in_set by metis
    then have "r = ?root" using r(2) False by (auto simp: on_top_def)
    then show ?thesis using r(1) False by simp
  qed (use r in auto)
qed

theorem GsFindVisibleWindow_correct_witness: "GsFindVisibleWindow 25 25 sample_windows = Some 1"
proof -
  have root: "rootwp sample_windows 0 = 0" by (simp add: sample_windows_def)
  have h: "holds_point (win sample_windows 0) 25 25" by (simp add: sample_windows_def sample_window_def holds_point_def)
  have "\<exists>!w. w \<in> set (nodes sample_tree) \<and> on_top (win sample_windows) 25 25 (lineage sample_tree w []) (child_list sample_tree w) \<and>
    GsFindVisibleWindow 25 25 sample_windows = Some w"
    using GsFindVisibleWindow_correct [of sample_windows sample_tree 25 25] sample_tree_ok(1)
    unfolding root by (simp only: h if_True simp_thms)
  then obtain w where w: "w \<in> set (nodes sample_tree)" "GsFindVisibleWindow 25 25 sample_windows = Some w"
    "on_top (win sample_windows) 25 25 (lineage sample_tree w []) (child_list sample_tree w)" by blast
  have "w = 1" using w(1,3) by (auto simp: on_top_def sample_windows_def sample_window_def holds_point_def)
  then show ?thesis using w(2) by simp
qed

section \<open>Seeing and touching\<close>

definition plain :: "gr_window \<Rightarrow> bool" where
  "plain w \<longleftrightarrow> obscures w \<and> w_bordersize w = 0 \<and> w_clipregion w = None"

lemma plain_covers:
  assumes "plain w"
  shows "cover w = win_rect w" "child_cover shaped w = win_rect w" "holds_point w x y \<longleftrightarrow> (x, y) \<in> win_rect w"
  using assms by (auto simp: plain_def cover_def child_cover_def shape_pts_def border_rect_def win_rect_def holds_point_def obscures_def)

text \<open>
  C22. What is seen is what is hit, in a tree on layer 0 whose windows are all visible output windows of positive size
  that are opaque, without borders and without shapes: a point of the root window belongs
  to the clip region that \<open>GsSetClipWindow\<close> computes for a window just when \<open>GsFindVisibleWindow\<close> finds this window at the
  point.  The two functions walk the tree in opposite directions.
\<close>

theorem clip_matches_hit:
  assumes "window_tree (win s) (rootwp s 0) t" and "w \<in> set (nodes t)" and "w_layer (win s w) = 0"
    and "\<forall>v\<in>set (nodes t). win_ok (win s v) \<and> plain (win s v)"
  shows "\<exists>ec. GsSetClipWindow beyond w None False s = Some (s\<lparr>clipwp := Some w, eng_clip := ec\<rparr>) \<and>
    (\<forall>x y. (x, y) \<in> rgn_pts (clip_state.clipregion ec) \<longleftrightarrow>
       (x, y) \<in> win_rect (win s (rootwp s 0)) \<and> GsFindVisibleWindow x y s = Some w)"
proof -
  let ?W = "win s"
  let ?root = "rootwp s 0"
  note L = tree_lineage [OF assms(1,2)]
  have root: "linked ?W t" "root_of t = ?root" using assms(1) by (simp_all add: window_tree_def)
  have ok: "windows_ok ?W t" using assms(4) by (simp add: windows_ok_def)
  have w: "plain (?W w)" "w_realized (?W w)" "w_output (?W w)" using assms(2,4) by (auto simp: plain_def obscures_def)
  have nd: "a \<in> set (nodes t)" "set es \<subseteq> set (nodes t)" if "(a, es) \<in> set (lineage t w [])" for a es
    using that lineage_nodes [OF assms(2), of "[]"] L(6) by force+
  have ch: "set (child_list t w) \<subseteq> set (nodes t)" using child_list_chain [OF assms(2) root(1)] by blast
  have P: "cover (?W v) = win_rect (?W v)" "child_cover b (?W v) = win_rect (?W v)"
    "holds_point (?W v) x y \<longleftrightarrow> (x, y) \<in> win_rect (?W v)" if "v \<in> set (nodes t)" for v b x y
    using plain_covers assms(4) that by auto
  have "visible_pts ?W t w False None = {(x, y). on_top ?W x y (lineage t w []) (child_list t w)}"
    using nd ch w(1) P by (auto simp: visible_pts_def on_top_def plain_def subset_iff)
  moreover have "on_top ?W x y (lineage t w []) (child_list t w) \<longleftrightarrow>
    (x, y) \<in> win_rect (?W ?root) \<and> GsFindVisibleWindow x y s = Some w" for x y
  proof
    assume top: "on_top ?W x y (lineage t w []) (child_list t w)"
    have "(?root, []) \<in> set (lineage t w [])" using L(2,4) last_in_set by metis
    then have "holds_point (?W ?root) x y" using top by (auto simp: on_top_def)
    moreover have "GsFindVisibleWindow x y s = Some w"
      using find_visible_unique [of ?W "Some ?root" "[t]" w x y "[]" ?root] tree_chain_root [OF assms(1)] assms(2) top
      by (simp add: GsFindVisibleWindow_def)
    ultimately show "(x, y) \<in> win_rect (?W ?root) \<and> GsFindVisibleWindow x y s = Some w"
      using P(3) root_in_nodes [of t] root(2) by simp
  next
    assume h: "(x, y) \<in> win_rect (?W ?root) \<and> GsFindVisibleWindow x y s = Some w"
    then have "holds_point (?W ?root) x y" using P(3) root_in_nodes [of t] root(2) by simp
    then show "on_top ?W x y (lineage t w []) (child_list t w)"
      using find_visible_hits [of ?W "Some ?root" "[t]" "[]" x y ?root] tree_chain_root [OF assms(1)] h root(2)
      by (auto simp: GsFindVisibleWindow_def)
  qed
  moreover have "shape_agrees ?W t w" using w(1) by (simp add: shape_agrees_def plain_def)
  then obtain ec where "GsSetClipWindow beyond w None False s = Some (s\<lparr>clipwp := Some w, eng_clip := ec\<rparr>)"
    "rgn_pts (clip_state.clipregion ec) = visible_pts ?W t w False None"
    using set_clip_visible [OF assms(1,2) ok _ w(2,3), of False None beyond] assms(3) by auto
  ultimately show ?thesis by (intro exI [of _ ec]) auto
qed

theorem clip_matches_hit_witness:
  "\<exists>ec. GsSetClipWindow 0 2 None False sample_windows = Some (sample_windows\<lparr>clipwp := Some 2, eng_clip := ec\<rparr>) \<and>
    (\<forall>x y. (x, y) \<in> rgn_pts (clip_state.clipregion ec) \<longleftrightarrow>
       (x, y) \<in> win_rect (win sample_windows 0) \<and> GsFindVisibleWindow x y sample_windows = Some 2)"
proof -
  have root: "rootwp sample_windows 0 = 0" by (simp add: sample_windows_def)
  have "\<forall>v\<in>set (nodes sample_tree). win_ok (win sample_windows v) \<and> plain (win sample_windows v)"
    by (simp add: sample_windows_def sample_window_def win_ok_def plain_def obscures_def)
  then show ?thesis
    using clip_matches_hit [of sample_windows sample_tree 2 0] sample_tree_ok(1)
    by (simp add: root) (simp add: sample_windows_def sample_window_def)
qed

section \<open>Searching by identifier\<close>

text \<open>
  \<open>ws layer\<close> is the list of the windows of a layer.  Identifiers are unique, and the cache holds a window of the
  lists with the cached identifier.
\<close>

definition all_windows :: "'a gr_windows_scheme \<Rightarrow> (nat \<Rightarrow> win_ptr list) \<Rightarrow> win_ptr list" where
  "all_windows s ws = concat (map ws [0..<scrNumberOfLayers s])"

definition registry :: "'a gr_windows_scheme \<Rightarrow> (nat \<Rightarrow> win_ptr list) \<Rightarrow> bool" where
  "registry s ws \<longleftrightarrow>
     (\<forall>layer < scrNumberOfLayers s. chain (\<lambda>p. w_next (win s p)) (listwp s layer) (ws layer) \<and>
        rootwp s layer \<in> set (ws layer) \<and> w_id (win s (rootwp s layer)) = layer + 1) \<and>
     inj_on (\<lambda>p. w_id (win s p)) (set (all_windows s ws))"

definition cache_ok :: "'a gr_windows_scheme \<Rightarrow> (nat \<Rightarrow> win_ptr list) \<Rightarrow> bool" where
  "cache_ok s ws \<longleftrightarrow> (cachewindowid s \<noteq> 0 \<longrightarrow>
     (\<exists>w\<in>set (all_windows s ws). cachewp s = Some w \<and> w_id (win s w) = cachewindowid s))"

lemma all_windows_cache [simp]:
  "all_windows (s\<lparr>cachewindowid := cid, cachewp := cw\<rparr>) ws = all_windows s ws" "all_windows (s\<lparr>cachewp := cw\<rparr>) ws = all_windows s ws"
  "all_windows (s\<lparr>cachewindowid := cid\<rparr>) ws = all_windows s ws"
  by (simp_all add: all_windows_def)

lemma find_by_id_list:
  "chain (\<lambda>p. w_next (W p)) p ws \<Longrightarrow> find_by_id W ident p = Some (find (\<lambda>w. w_id (W w) = ident) ws)"
proof (induction ws arbitrary: p)
  case (Cons w ws)
  then show ?case by (subst find_by_id.simps) simp
qed (simp add: find_by_id.simps)

lemma find_in_layers_list:
  assumes "\<forall>l\<in>set ls. chain (\<lambda>p. w_next (W p)) (lw l) (ws l)"
  shows "find_in_layers W lw ident ls = Some (find (\<lambda>w. w_id (W w) = ident) (concat (map ws ls)))"
  using assms
proof (induction ls)
  case (Cons l ls)
  have app: "find P (as @ bs) = (case find P as of None \<Rightarrow> find P bs | Some x \<Rightarrow> Some x)" for P and as bs :: "win_ptr list"
    by (induction as) auto
  show ?case using Cons find_by_id_list [of W "lw l" "ws l" ident]
    by (auto simp: app split: option.split)
qed simp

lemma find_window:
  assumes "registry s ws" and "cache_ok s ws"
  shows "\<exists>r cid cw. GsFindWindow ident s = Some (r, s\<lparr>cachewindowid := cid, cachewp := cw\<rparr>) \<and>
    (\<forall>w. r = Some w \<longleftrightarrow> w \<in> set (all_windows s ws) \<and> w_id (win s w) = ident) \<and>
    cache_ok (s\<lparr>cachewindowid := cid, cachewp := cw\<rparr>) ws"
proof -
  have inj: "v = w" if "v \<in> set (all_windows s ws)" "w \<in> set (all_windows s ws)" "w_id (win s v) = w_id (win s w)" for v w
    using assms(1) that by (auto simp: registry_def dest: inj_onD)
  have lay: "set (ws l) \<subseteq> set (all_windows s ws)" if "l < scrNumberOfLayers s" for l
    using that by (auto simp: all_windows_def)
  show ?thesis
  proof (cases "find (\<lambda>l. ident = l + 1) [0..<scrNumberOfLayers s]")
    case (Some l)
    then have l: "l < scrNumberOfLayers s" "ident = l + 1" by (auto simp: find_Some_iff)
    then have r: "rootwp s l \<in> set (all_windows s ws)" "w_id (win s (rootwp s l)) = ident"
      using assms(1) lay [OF l(1)] by (auto simp: registry_def)
    show ?thesis
      using Some assms(2) r inj
      by - (rule exI [of _ "Some (rootwp s l)"], rule exI [of _ "cachewindowid s"], rule exI [of _ "cachewp s"], auto simp: GsFindWindow_def)
  next
    case None
    show ?thesis
    proof (cases "ident = cachewindowid s \<and> ident \<noteq> 0")
      case True
      then obtain w where "w \<in> set (all_windows s ws)" "cachewp s = Some w" "w_id (win s w) = ident"
        using assms(2) by (auto simp: cache_ok_def)
      then show ?thesis
        using None True assms(2) inj
        by - (rule exI [of _ "Some w"], rule exI [of _ "cachewindowid s"], rule exI [of _ "cachewp s"], auto simp: GsFindWindow_def cache_ok_def)
    next
      case False
      have f: "find_in_layers (win s) (listwp s) ident [0..<scrNumberOfLayers s] =
        Some (find (\<lambda>w. w_id (win s w) = ident) (all_windows s ws))"
        unfolding all_windows_def by (rule find_in_layers_list) (use assms(1) in \<open>simp add: registry_def\<close>)
      show ?thesis
      proof (cases "find (\<lambda>w. w_id (win s w) = ident) (all_windows s ws)")
        case n: None
        then have "\<not> (w \<in> set (all_windows s ws) \<and> w_id (win s w) = ident)" for w by (auto simp: find_None_iff)
        moreover have "GsFindWindow ident s = Some (None, s)" using None False f n by (auto simp: GsFindWindow_def)
        ultimately show ?thesis using assms(2)
          by - (rule exI [of _ None], rule exI [of _ "cachewindowid s"], rule exI [of _ "cachewp s"], simp)
      next
        case (Some w)
        then have "w \<in> set (all_windows s ws)" "w_id (win s w) = ident" by (auto simp: find_Some_iff)
        then show ?thesis using None False f Some inj
          by - (rule exI [of _ "Some w"], rule exI [of _ ident], rule exI [of _ "Some w"], auto simp: GsFindWindow_def cache_ok_def)
      qed
    qed
  qed
qed

text \<open>
  C23. \<open>GsFindWindow\<close> finds exactly the window with the given identifier, on any layer, whatever the cache of the last search
  holds; it returns the null pointer when there is no such window, ends, keeps the cache valid and changes nothing else.
\<close>

theorem GsFindWindow_correct:
  assumes "registry s ws" and "cache_ok s ws"
  shows "\<exists>r cid cw. GsFindWindow ident s = Some (r, s\<lparr>cachewindowid := cid, cachewp := cw\<rparr>) \<and>
    (\<forall>w. r = Some w \<longleftrightarrow> w \<in> set (all_windows s ws) \<and> w_id (win s w) = ident) \<and>
    cache_ok (s\<lparr>cachewindowid := cid, cachewp := cw\<rparr>) ws"
  by (rule find_window [OF assms])

theorem GsFindWindow_correct_witness:
  "\<exists>s'. GsFindWindow 3 sample_windows = Some (Some 2, s')"
proof -
  have r: "registry sample_windows (\<lambda>_. [2, 1, 0])" "cache_ok sample_windows (\<lambda>_. [2, 1, 0])"
    by (simp_all add: registry_def cache_ok_def all_windows_def sample_windows_def sample_window_def inj_on_def)
  have "2 \<in> set (all_windows sample_windows (\<lambda>_. [2, 1, 0])) \<and> w_id (win sample_windows 2) = 3"
    by (simp add: all_windows_def sample_windows_def sample_window_def)
  then show ?thesis using GsFindWindow_correct [OF r, of 3] by metis
qed

end
