(* ===== verification/Dlv_Lemmas.thy ===== *)
theory Dlv_Lemmas
  imports Dlv_Model Win_Hit Evt_Props
begin

text \<open>
  The loops of the delivery as lists of messages, and the walks to the root along the lineage of a window.
\<close>

section \<open>Messages\<close>

text \<open>
  \<open>sent ps q q'\<close>: the messages \<open>ps\<close> (client and event) were queued one after the other, as far as there was memory.
\<close>

definition sent :: "(client_ptr \<times> GR_EVENT) list \<Rightarrow> evq \<Rightarrow> evq \<Rightarrow> bool" where
  "sent ps q q' \<longleftrightarrow> evq_ok q' \<and>
     pending_events q' = (\<lambda>c. pending_events q c @ map snd (filter (\<lambda>p. fst p = c) (take (event_room q) ps))) \<and>
     event_room q' = event_room q - length ps"

lemma sent_ok: "sent ps q q' \<Longrightarrow> evq_ok q'"
  by (simp add: sent_def)

lemma sent_Nil: "evq_ok q \<Longrightarrow> sent [] q q"
  by (simp add: sent_def)

lemma sent_append: "sent ps q q1 \<Longrightarrow> sent ps' q1 q2 \<Longrightarrow> sent (ps @ ps') q q2"
  by (simp add: sent_def fun_eq_iff)

lemma sent_fold: "evq_ok q \<Longrightarrow> sent ps q (fold (\<lambda>(c, e). post_event c e) ps q)"
  using evq.post_all [of q ps] by (simp add: sent_def)

lemma sent_post: "evq_ok q \<Longrightarrow> sent [(c, e)] q (post_event c e q)"
  using sent_fold [of q "[(c, e)]"] by simp

text \<open>With enough memory every message arrives, in order.\<close>

lemma sent_all:
  "sent ps q q' \<Longrightarrow> length ps \<le> event_room q \<Longrightarrow>
    pending_events q' c = pending_events q c @ map snd (filter (\<lambda>p. fst p = c) ps)"
  by (simp add: sent_def)

definition messages :: "32 word \<Rightarrow> GR_EVENT \<Rightarrow> event_client list \<Rightarrow> (client_ptr \<times> GR_EVENT) list" where
  "messages m e ecs = map (\<lambda>ecp. (client ecp, e)) (filter (selects m) ecs)"

lemma deliver_to_fold: "deliver_to m e ecs q = fold (\<lambda>(c, e). post_event c e) (messages m e ecs) q"
  by (induction ecs arbitrary: q) (auto simp: deliver_to_def messages_def)

lemma deliver_to_sent: "evq_ok q \<Longrightarrow> sent (messages m e ecs) q (deliver_to m e ecs q)"
  by (simp add: deliver_to_fold sent_fold)

lemma deliver_replacing_none:
  "deliver_replacing m (\<lambda>c. Some) e ecs q = Some (deliver_to m e ecs q)"
  by (induction ecs arbitrary: q) (simp_all add: deliver_to_def)

text \<open>A predicate that holds for the pending events of every client.\<close>

definition all_pending :: "(GR_EVENT list \<Rightarrow> bool) \<Rightarrow> evq \<Rightarrow> bool" where
  "all_pending P q \<longleftrightarrow> evq_ok q \<and> (\<forall>c. P (pending_events q c))"

text \<open>Without memory every message is lost.\<close>

lemma alloc_event:
  assumes "evq_ok q"
  shows "event_room q = 0 \<Longrightarrow> GsAllocEvent c q = (None, q)"
    "event_room q \<noteq> 0 \<Longrightarrow> \<exists>ep q'. GsAllocEvent c q = (Some ep, q')"
proof -
  obtain qs fs where q: "queues q qs fs" using assms by (auto simp: evq_ok_def)
  have "if event_room q = 0 then GsAllocEvent c q = (None, q) else \<exists>ep q'. GsAllocEvent c q = (Some ep, q')"
    by (rule take_element_queues [OF q]) (auto simp: GsAllocEvent_def queues_abs(3) [OF q])
  then show "event_room q = 0 \<Longrightarrow> GsAllocEvent c q = (None, q)"
    "event_room q \<noteq> 0 \<Longrightarrow> \<exists>ep q'. GsAllocEvent c q = (Some ep, q')" by simp_all
qed

lemma sent_full: "sent ps q q' \<Longrightarrow> event_room q = 0 \<Longrightarrow> sent ps' q q'"
  by (simp add: sent_def)

section \<open>Walking upwards\<close>

text \<open>The windows up to the first one that stops the walk.\<close>

fun up_to_stop :: "('a \<Rightarrow> bool) \<Rightarrow> 'a list \<Rightarrow> 'a list" where
  "up_to_stop P [] = []"
| "up_to_stop P (w # ws) = (if P w then [w] else w # up_to_stop P ws)"

definition ancestors :: "wtree \<Rightarrow> win_ptr \<Rightarrow> win_ptr list" where
  "ancestors t w = map fst (lineage t w [])"

definition parent_chain :: "(win_ptr \<Rightarrow> gr_window) \<Rightarrow> win_ptr \<Rightarrow> win_ptr list \<Rightarrow> bool" where
  "parent_chain W root ws \<longleftrightarrow> ws \<noteq> [] \<and> last ws = root \<and> adjacent (\<lambda>a b. w_parent (W a) = Some b) ws"

lemma adjacent_map: "adjacent (\<lambda>a b. R (f a) (f b)) xs \<Longrightarrow> adjacent R (map f xs)"
  by (induction xs) (auto simp: adjacent_Cons hd_map)

lemma adjacent_mono: "adjacent R xs \<Longrightarrow> (\<And>a b. R a b \<Longrightarrow> S a b) \<Longrightarrow> adjacent S xs"
  by (induction xs) (auto simp: adjacent_Cons)

lemma ancestors_chain:
  assumes "window_tree W root t" and "w \<in> set (nodes t)"
  shows "parent_chain W root (ancestors t w)" "hd (ancestors t w) = w" "set (ancestors t w) \<subseteq> set (nodes t)"
proof -
  note L = tree_lineage [OF assms]
  have "adjacent (\<lambda>a b. w_parent (W (fst a)) = Some (fst b)) (lineage t w [])"
    by (rule adjacent_mono [OF L(1)]) (simp add: climbs_def)
  then have "adjacent (\<lambda>a b. w_parent (W a) = Some b) (ancestors t w)"
    unfolding ancestors_def by (rule adjacent_map)
  then show "parent_chain W root (ancestors t w)"
    using L(2,4) by (simp add: parent_chain_def ancestors_def last_map)
  show "hd (ancestors t w) = w" using L(2,3) by (simp add: ancestors_def hd_map)
  show "set (ancestors t w) \<subseteq> set (nodes t)" using lineage_nodes [OF assms(2), of "[]"] by (simp add: ancestors_def)
qed

lemma parent_chain_Cons:
  "parent_chain W root (w # ws) \<longleftrightarrow> (if ws = [] then w = root else w_parent (W w) = Some (hd ws) \<and> parent_chain W root ws)"
  by (auto simp: parent_chain_def adjacent_Cons)

text \<open>Induction along the chain of parents.\<close>

lemma parent_chain_induct [consumes 1, case_names root step]:
  assumes "parent_chain W root ws"
    and "P [root]"
    and "\<And>w v ws. w_parent (W w) = Some v \<Longrightarrow> parent_chain W root (v # ws) \<Longrightarrow> P (v # ws) \<Longrightarrow> P (w # v # ws)"
  shows "P ws"
  using assms(1)
proof (induction ws)
  case Nil
  then show ?case by (simp add: parent_chain_def)
next
  case (Cons w ws)
  show ?case
  proof (cases ws)
    case Nil
    then show ?thesis using Cons.prems assms(2) by (simp add: parent_chain_Cons)
  next
    case (Cons v vs)
    then show ?thesis using Cons.IH Cons.prems assms(3) [of w v vs] by (simp add: parent_chain_Cons)
  qed
qed

section \<open>The server's state\<close>

text \<open>The window tree of the first layer, and the windows the server remembers are in it.\<close>

definition server_tree :: "server \<Rightarrow> wtree \<Rightarrow> bool" where
  "server_tree s t \<longleftrightarrow> window_tree (win s) (rootwp s 0) t \<and> (\<forall>w\<in>set (nodes t). w_layer (win s w) = 0) \<and>
     w_props (win s (rootwp s 0)) AND GR_WM_PROPS_NOFOCUS = 0 \<and> mousewp s \<in> set (nodes t) \<and> focuswp s \<in> set (nodes t) \<and>
     (\<forall>w. grabbuttonwp s = Some w \<longrightarrow> w \<in> set (nodes t))"

lemma ancestors_server:
  assumes "server_tree s t" and "w \<in> set (nodes t)"
  shows "parent_chain (win s) (rootwp s 0) (ancestors t w)" "hd (ancestors t w) = w"
    "\<forall>v\<in>set (ancestors t w). stops_at s m v \<longleftrightarrow> v = rootwp s 0 \<or> w_nopropmask (win s v) AND m \<noteq> 0"
proof -
  have "window_tree (win s) (rootwp s 0) t" using assms(1) by (simp add: server_tree_def)
  note A = ancestors_chain [OF this assms(2)]
  show "parent_chain (win s) (rootwp s 0) (ancestors t w)" "hd (ancestors t w) = w" by (rule A)+
  show "\<forall>v\<in>set (ancestors t w). stops_at s m v \<longleftrightarrow> v = rootwp s 0 \<or> w_nopropmask (win s v) AND m \<noteq> 0"
    using A(3) assms(1) by (auto simp: stops_at_def server_tree_def)
qed

end
