(* ===== verification/Dlv_Walks.thy ===== *)
theory Dlv_Walks
  imports Dlv_Lemmas
begin

text \<open>
  The operations of the delivery, each described by the messages it sends.
\<close>

section \<open>Updates, focus and mouse windows\<close>

definition update_messages ::
  "(win_ptr \<Rightarrow> gr_window) \<Rightarrow> win_ptr \<Rightarrow> int \<Rightarrow> MWCOORD \<Rightarrow> MWCOORD \<Rightarrow> MWCOORD \<Rightarrow> MWCOORD \<Rightarrow> (client_ptr \<times> GR_EVENT) list" where
  "update_messages W wp utype x y width height =
    (case w_parent (W wp) of
       None \<Rightarrow> messages GR_EVENT_MASK_UPDATE (EVENT_UPDATE UPDATE utype (w_id (W wp)) (w_id (W wp)) x y width height)
         (w_eventclients (W wp))
     | Some p \<Rightarrow>
         messages GR_EVENT_MASK_UPDATE
           (EVENT_UPDATE UPDATE utype (w_id (W wp)) (w_id (W wp)) (x - w_x (W p)) (y - w_y (W p)) width height) (w_eventclients (W wp))
         @ messages GR_EVENT_MASK_CHLD_UPDATE
           (EVENT_UPDATE CHLD_UPDATE utype (w_id (W p)) (w_id (W wp)) (x - w_x (W p)) (y - w_y (W p)) width height) (w_eventclients (W p)))"

lemma update_sent:
  assumes "evq_ok (evqueues s)"
  shows "\<exists>q. GsDeliverUpdateEvent wp utype x y width height s = s\<lparr>evqueues := q\<rparr> \<and>
    sent (update_messages (win s) wp utype x y width height) (evqueues s) q"
proof (cases "w_parent (win s wp)")
  case None
  then show ?thesis using deliver_to_sent [OF assms] by (auto simp: GsDeliverUpdateEvent_def update_messages_def Let_def)
next
  case (Some p)
  let ?e = "\<lambda>k i. EVENT_UPDATE k utype i (w_id (win s wp)) (x - w_x (win s p)) (y - w_y (win s p)) width height"
  note s1 = deliver_to_sent [OF assms, of GR_EVENT_MASK_UPDATE "?e UPDATE (w_id (win s wp))" "w_eventclients (win s wp)"]
  note s2 = deliver_to_sent [OF sent_ok [OF s1], of GR_EVENT_MASK_CHLD_UPDATE "?e CHLD_UPDATE (w_id (win s p))" "w_eventclients (win s p)"]
  show ?thesis using Some sent_append [OF s1 s2] by (auto simp: GsDeliverUpdateEvent_def update_messages_def Let_def)
qed

definition general_messages :: "(win_ptr \<Rightarrow> gr_window) \<Rightarrow> win_ptr \<Rightarrow> general_kind \<Rightarrow> win_ptr option \<Rightarrow> (client_ptr \<times> GR_EVENT) list" where
  "general_messages W wp type other =
    messages (GR_EVENTMASK (general_type type))
      (EVENT_GENERAL type (w_id (W wp)) (case other of None \<Rightarrow> 0 | Some p \<Rightarrow> w_id (W p))) (w_eventclients (W wp))"

lemma general_mask [simp]: "GR_EVENTMASK (general_type type) \<noteq> 0"
  by (cases type) (simp_all add: GR_EVENTMASK_def)

lemma button_mask [simp]: "GR_EVENTMASK (button_type type) \<noteq> 0"
  by (cases type) (simp_all add: GR_EVENTMASK_def)

lemma mouse_mask [simp]: "GR_EVENTMASK (mouse_type type) \<noteq> 0"
  by (cases type) (simp_all add: GR_EVENTMASK_def)

lemma key_mask [simp]: "GR_EVENTMASK (key_type type) \<noteq> 0"
  by (cases type) (simp_all add: GR_EVENTMASK_def)

lemma general_sent:
  assumes "evq_ok (evqueues s)"
  shows "\<exists>q. GsDeliverGeneralEvent wp type other s = s\<lparr>evqueues := q\<rparr> \<and> sent (general_messages (win s) wp type other) (evqueues s) q"
  using deliver_to_sent [OF assms] by (auto simp: GsDeliverGeneralEvent_def general_messages_def Let_def)

text \<open>The window that holds the activation of a window.\<close>

fun top_of :: "(win_ptr \<Rightarrow> gr_window) \<Rightarrow> win_ptr list \<Rightarrow> win_ptr" where
  "top_of W [w] = w"
| "top_of W (w # v # ws) = (if w_id (W v) = GR_ROOT_WINDOW_ID then w else top_of W (v # ws))"
| "top_of W [] = undefined"

lemma top_level_chain: "parent_chain W root ws \<Longrightarrow> w_parent (W root) = None \<Longrightarrow> top_level W (hd ws) = Some (top_of W ws)"
proof (induction rule: parent_chain_induct)
  case root
  then show ?case by (subst top_level.simps) simp
next
  case (step w v ws)
  then show ?case by (subst top_level.simps) simp
qed

definition activate_messages :: "(win_ptr \<Rightarrow> gr_window) \<Rightarrow> wtree \<Rightarrow> win_ptr \<Rightarrow> (client_ptr \<times> GR_EVENT) list" where
  "activate_messages W t wp =
    (let p = top_of W (ancestors t wp)
     in if w_id (W p) = GR_ROOT_WINDOW_ID then [] else update_messages W p GR_UPDATE_ACTIVATE 0 0 0 0)"

lemma activate_sent:
  assumes "window_tree (win s) root t" and "wp \<in> set (nodes t)" and "evq_ok (evqueues s)"
  shows "\<exists>q. GsWpNotifyActivate wp s = Some (s\<lparr>evqueues := q\<rparr>) \<and> sent (activate_messages (win s) t wp) (evqueues s) q"
proof -
  note A = ancestors_chain [OF assms(1,2)]
  have top: "top_level (win s) wp = Some (top_of (win s) (ancestors t wp))"
    using top_level_chain [OF A(1)] A(2) assms(1) by (simp add: window_tree_def)
  show ?thesis
  proof (cases "w_id (win s (top_of (win s) (ancestors t wp))) = GR_ROOT_WINDOW_ID")
    case True
    then show ?thesis using top sent_Nil [OF assms(3)] by (intro exI [of _ "evqueues s"]) (simp add: GsWpNotifyActivate_def activate_messages_def)
  next
    case False
    then show ?thesis using top update_sent [OF assms(3)] by (auto simp: GsWpNotifyActivate_def activate_messages_def Let_def)
  qed
qed

definition mouse_switch :: "(win_ptr \<Rightarrow> gr_window) \<Rightarrow> win_ptr \<Rightarrow> win_ptr \<Rightarrow> (client_ptr \<times> GR_EVENT) list" where
  "mouse_switch W old new =
    (if old = new then [] else general_messages W old MOUSE_EXIT None @ general_messages W new MOUSE_ENTER None)"

definition focus_switch :: "(win_ptr \<Rightarrow> gr_window) \<Rightarrow> wtree \<Rightarrow> win_ptr \<Rightarrow> win_ptr \<Rightarrow> (client_ptr \<times> GR_EVENT) list" where
  "focus_switch W t old new =
    (if old = new then []
     else general_messages W old FOCUS_OUT (Some new) @ activate_messages W t old @
          general_messages W new FOCUS_IN (Some old) @ activate_messages W t new)"

lemma set_focus_sent:
  assumes wt: "window_tree (win s) root t" and w: "wp \<in> set (nodes t)" "focuswp s \<in> set (nodes t)" and ok: "evq_ok (evqueues s)"
  shows "\<exists>q. GsWpSetFocus wp s = Some (s\<lparr>focuswp := wp, evqueues := q\<rparr>) \<and>
    sent (focus_switch (win s) t (focuswp s) wp) (evqueues s) q"
proof (cases "wp = focuswp s")
  case True
  then show ?thesis using sent_Nil [OF ok] by (intro exI [of _ "evqueues s"]) (simp add: GsWpSetFocus_def focus_switch_def)
next
  case False
  let ?old = "focuswp s"
  obtain q1 where q1: "GsDeliverGeneralEvent ?old FOCUS_OUT (Some wp) s = s\<lparr>evqueues := q1\<rparr>"
    "sent (general_messages (win s) ?old FOCUS_OUT (Some wp)) (evqueues s) q1" using general_sent [OF ok] by blast
  obtain q2 where q2: "GsWpNotifyActivate ?old (s\<lparr>evqueues := q1\<rparr>) = Some (s\<lparr>evqueues := q2\<rparr>)"
    "sent (activate_messages (win s) t ?old) q1 q2"
    using activate_sent [of "s\<lparr>evqueues := q1\<rparr>", OF _ w(2)] wt sent_ok [OF q1(2)] by auto
  let ?s2 = "s\<lparr>evqueues := q2, focuswp := wp\<rparr>"
  obtain q3 where q3: "GsDeliverGeneralEvent wp FOCUS_IN (Some ?old) ?s2 = ?s2\<lparr>evqueues := q3\<rparr>"
    "sent (general_messages (win s) wp FOCUS_IN (Some ?old)) q2 q3"
    using general_sent [of ?s2 wp FOCUS_IN "Some ?old"] sent_ok [OF q2(2)] by auto
  obtain q4 where q4: "GsWpNotifyActivate wp (?s2\<lparr>evqueues := q3\<rparr>) = Some (?s2\<lparr>evqueues := q4\<rparr>)"
    "sent (activate_messages (win s) t wp) q3 q4"
    using activate_sent [of "?s2\<lparr>evqueues := q3\<rparr>", OF _ w(1)] wt sent_ok [OF q3(2)] by auto
  have "GsWpSetFocus wp s = Some (s\<lparr>focuswp := wp, evqueues := q4\<rparr>)"
    using False q1(1) q2(1) q3(1) q4(1) by (simp add: GsWpSetFocus_def Let_def)
  moreover have "sent (focus_switch (win s) t ?old wp) (evqueues s) q4"
    using False sent_append [OF q1(2) sent_append [OF q2(2) sent_append [OF q3(2) q4(2)]]] by (simp add: focus_switch_def)
  ultimately show ?thesis by blast
qed

text \<open>The window that gets the focus.\<close>

definition accepts_focus :: "(win_ptr \<Rightarrow> gr_window) \<Rightarrow> win_ptr \<Rightarrow> bool" where
  "accepts_focus W v \<longleftrightarrow> w_props (W v) AND GR_WM_PROPS_NOFOCUS = 0"

definition wants_keys :: "(win_ptr \<Rightarrow> gr_window) \<Rightarrow> win_ptr \<Rightarrow> bool" where
  "wants_keys W v \<longleftrightarrow> list_ex (selects GR_EVENT_MASK_KEY_DOWN) (w_eventclients (W v))"

definition focus_of :: "(win_ptr \<Rightarrow> gr_window) \<Rightarrow> win_ptr \<Rightarrow> win_ptr list \<Rightarrow> win_ptr" where
  "focus_of W root ws =
    (case find (\<lambda>v. accepts_focus W v \<and> (wants_keys W v \<or> v = root \<or> w_nopropmask (W v) AND GR_EVENT_MASK_KEY_DOWN \<noteq> 0)) ws of
       None \<Rightarrow> root
     | Some v \<Rightarrow> if wants_keys W v then v else root)"

lemma focus_target_chain:
  "parent_chain W root ws \<Longrightarrow> accepts_focus W root \<Longrightarrow> focus_target W root (Some (hd ws)) = Some (focus_of W root ws)"
proof (induction rule: parent_chain_induct)
  case root
  then show ?case by (subst focus_target.simps) (simp add: focus_of_def accepts_focus_def wants_keys_def)
next
  case (step w v ws)
  then show ?case by (subst focus_target.simps) (simp add: focus_of_def accepts_focus_def wants_keys_def)
qed

lemma focus_of_node: "focus_of W root ws \<in> insert root (set ws)"
  by (auto simp: focus_of_def find_Some_iff split: option.splits)

section \<open>Moving the cursor\<close>

text \<open>The window the mouse is in, and the cursor shape of a window.\<close>

definition mouse_window :: "server \<Rightarrow> MWCOORD \<Rightarrow> MWCOORD \<Rightarrow> win_ptr" where
  "mouse_window s x y = (case grabbuttonwp s of None \<Rightarrow> the (GsFindVisibleWindow x y s) | Some g \<Rightarrow> g)"

definition cursor_of :: "server \<Rightarrow> win_ptr \<Rightarrow> cursor_ptr" where
  "cursor_of s wp = (case GsFindCursor (w_cursorid (win s wp)) s of None \<Rightarrow> stdcursor s | Some cp \<Rightarrow> cp)"

lemma visible_window_node:
  assumes "window_tree (win s) (rootwp s 0) t"
  shows "\<exists>w\<in>set (nodes t). GsFindVisibleWindow x y s = Some w"
proof -
  have "rootwp s 0 \<in> set (nodes t)" using assms root_in_nodes [of t] by (simp add: window_tree_def del: root_in_nodes)
  then show ?thesis
    using find_visible_hits [of "win s" "Some (rootwp s 0)" "[t]" "[]" x y "rootwp s 0"] tree_chain_root [OF assms]
    by (auto simp: GsFindVisibleWindow_def)
qed

lemma mouse_window_node:
  assumes "server_tree s t"
  shows "mouse_window s x y \<in> set (nodes t)"
  using assms visible_window_node [of s t x y] by (auto simp: mouse_window_def server_tree_def split: option.split)

lemma check_mouse_tree:
  assumes st: "window_tree (win s) (rootwp s 0) t" and ok: "evq_ok (evqueues s)"
  shows "\<exists>q. GsCheckMouseWindow s = Some (s\<lparr>mousewp := mouse_window s (cursorx s) (cursory s), evqueues := q\<rparr>) \<and>
    sent (mouse_switch (win s) (mousewp s) (mouse_window s (cursorx s) (cursory s))) (evqueues s) q"
proof -
  let ?w = "mouse_window s (cursorx s) (cursory s)"
  have w: "(case grabbuttonwp s of None \<Rightarrow> GsFindVisibleWindow (cursorx s) (cursory s) s | Some wp \<Rightarrow> Some wp) = Some ?w"
    using visible_window_node [OF st, of "cursorx s" "cursory s"] by (auto simp: mouse_window_def split: option.split)
  show ?thesis
  proof (cases "?w = mousewp s")
    case True
    then show ?thesis using w sent_Nil [OF ok] by (intro exI [of _ "evqueues s"]) (simp add: GsCheckMouseWindow_def mouse_switch_def)
  next
    case False
    obtain q1 where q1: "GsDeliverGeneralEvent (mousewp s) MOUSE_EXIT None s = s\<lparr>evqueues := q1\<rparr>"
      "sent (general_messages (win s) (mousewp s) MOUSE_EXIT None) (evqueues s) q1" using general_sent [OF ok] by blast
    let ?s1 = "s\<lparr>evqueues := q1, mousewp := ?w\<rparr>"
    obtain q2 where q2: "GsDeliverGeneralEvent ?w MOUSE_ENTER None ?s1 = ?s1\<lparr>evqueues := q2\<rparr>"
      "sent (general_messages (win s) ?w MOUSE_ENTER None) q1 q2"
      using general_sent [of ?s1 ?w MOUSE_ENTER None] sent_ok [OF q1(2)] by auto
    have "GsCheckMouseWindow s = Some (s\<lparr>mousewp := ?w, evqueues := q2\<rparr>)"
      using False w q1(1) q2(1) by (simp add: GsCheckMouseWindow_def Let_def)
    then show ?thesis using False sent_append [OF q1(2) q2(2)] by (auto simp: mouse_switch_def)
  qed
qed

lemma check_mouse_sent:
  assumes "server_tree s t" and "evq_ok (evqueues s)"
  shows "\<exists>q. GsCheckMouseWindow s = Some (s\<lparr>mousewp := mouse_window s (cursorx s) (cursory s), evqueues := q\<rparr>) \<and>
    sent (mouse_switch (win s) (mousewp s) (mouse_window s (cursorx s) (cursory s))) (evqueues s) q"
  by (rule check_mouse_tree [where t = t, OF _ assms(2)]) (use assms(1) in \<open>simp add: server_tree_def\<close>)

definition focus_window :: "server \<Rightarrow> wtree \<Rightarrow> win_ptr \<Rightarrow> win_ptr" where
  "focus_window s t wp = (if focusfixed s then focuswp s else focus_of (win s) (rootwp s 0) (ancestors t wp))"

lemma focus_window_node:
  assumes "server_tree s t" and "wp \<in> set (nodes t)"
  shows "focus_window s t wp \<in> set (nodes t)"
proof -
  have wt: "window_tree (win s) (rootwp s 0) t" using assms(1) by (simp add: server_tree_def)
  have "rootwp s 0 \<in> set (nodes t)" using wt root_in_nodes [of t] by (simp add: window_tree_def del: root_in_nodes)
  then show ?thesis
    using assms(1) ancestors_chain(3) [OF wt assms(2)] focus_of_node [of "win s" "rootwp s 0" "ancestors t wp"]
    by (auto simp: focus_window_def server_tree_def)
qed

lemma check_focus_sent:
  assumes st: "server_tree s t" and ok: "evq_ok (evqueues s)"
  shows "\<exists>q. GsCheckFocusWindow s = Some (s\<lparr>focuswp := focus_window s t (mousewp s), evqueues := q\<rparr>) \<and>
    sent (focus_switch (win s) t (focuswp s) (focus_window s t (mousewp s))) (evqueues s) q"
proof (cases "focusfixed s")
  case True
  then show ?thesis using sent_Nil [OF ok]
    by (intro exI [of _ "evqueues s"]) (simp add: GsCheckFocusWindow_def focus_window_def focus_switch_def)
next
  case False
  have wt: "window_tree (win s) (rootwp s 0) t" and m: "mousewp s \<in> set (nodes t)" "focuswp s \<in> set (nodes t)"
    using st by (simp_all add: server_tree_def)
  have "focus_target (win s) (rootwp s 0) (Some (mousewp s)) = Some (focus_window s t (mousewp s))"
    using focus_target_chain [OF ancestors_chain(1) [OF wt m(1)]] ancestors_chain(2) [OF wt m(1)] st False
    by (simp add: server_tree_def accepts_focus_def focus_window_def)
  then show ?thesis
    using set_focus_sent [OF wt focus_window_node [OF st m(1)] m(2) ok] False by (simp add: GsCheckFocusWindow_def)
qed

text \<open>\<open>GsCheckCursor\<close> and the first part of \<open>GrMoveCursor\<close> change only what the screen shows.\<close>

lemma check_cursor:
  "GsCheckCursor s = s\<lparr>curcursor := curcursor (GsCheckCursor s), engine_calls := engine_calls (GsCheckCursor s)\<rparr>"
  "curcursor (GsCheckCursor s) = Some (cursor_of s (case grabbuttonwp s of None \<Rightarrow> mousewp s | Some wp \<Rightarrow> wp))"
  by (simp_all add: GsCheckCursor_def cursor_of_def Let_def)

lemma move_cursor_sent:
  fixes x y :: MWCOORD
  assumes st: "server_tree s t" and ok: "evq_ok (evqueues s)"
  defines "m \<equiv> mouse_window s x y"
  defines "f \<equiv> focus_window s t m"
  shows "\<exists>q ec. GrMoveCursor x y s = Some (s\<lparr>cursorx := x, cursory := y, mousewp := m, focuswp := f, evqueues := q,
      curcursor := Some (cursor_of s m), engine_calls := ec\<rparr>) \<and>
    sent (mouse_switch (win s) (mousewp s) m @ focus_switch (win s) t (focuswp s) f) (evqueues s) q"
proof -
  obtain ec1 where s1: "(if x \<noteq> cursorx s \<or> y \<noteq> cursory s then
      (case curcursor s of None \<Rightarrow> s | Some cp \<Rightarrow> s\<lparr>engine_calls := engine_calls s @
        [CallMoveCursor (x - hotx (cursors s cp)) (y - hoty (cursors s cp)), CallMoveMouse x y]\<rparr>)\<lparr>cursorx := x, cursory := y\<rparr>
      else s) = s\<lparr>cursorx := x, cursory := y, engine_calls := ec1\<rparr>"
  proof (cases "(x \<noteq> cursorx s \<or> y \<noteq> cursory s) \<and> curcursor s \<noteq> None")
    case True
    then show ?thesis using that [of "engine_calls s @ [CallMoveCursor (x - hotx (cursors s (the (curcursor s))))
      (y - hoty (cursors s (the (curcursor s)))), CallMoveMouse x y]"] by auto
  next
    case False
    then show ?thesis using that [of "engine_calls s"] by auto
  qed
  let ?s1 = "s\<lparr>cursorx := x, cursory := y, engine_calls := ec1\<rparr>"
  have m1: "mouse_window ?s1 x y = m" by (simp add: m_def mouse_window_def GsFindVisibleWindow_def split: option.split)
  have st1: "server_tree ?s1 t" using st by (simp add: server_tree_def)
  have mn: "m \<in> set (nodes t)" using mouse_window_node [OF st] by (simp add: m_def)
  obtain q1 where q1: "GsCheckMouseWindow ?s1 = Some (?s1\<lparr>mousewp := m, evqueues := q1\<rparr>)"
    "sent (mouse_switch (win s) (mousewp s) m) (evqueues s) q1"
    using check_mouse_sent [OF st1] ok m1 by auto
  let ?s2 = "?s1\<lparr>mousewp := m, evqueues := q1\<rparr>"
  have st2: "server_tree ?s2 t" using st mn by (simp add: server_tree_def)
  have f2: "focus_window ?s2 t (mousewp ?s2) = f" by (simp add: f_def focus_window_def)
  obtain q2 where q2: "GsCheckFocusWindow ?s2 = Some (?s2\<lparr>focuswp := f, evqueues := q2\<rparr>)"
    "sent (focus_switch (win s) t (focuswp s) f) q1 q2"
    using check_focus_sent [OF st2] sent_ok [OF q1(2)] f2 by auto
  let ?s3 = "?s2\<lparr>focuswp := f, evqueues := q2\<rparr>"
  have "(case grabbuttonwp ?s3 of None \<Rightarrow> mousewp ?s3 | Some wp \<Rightarrow> wp) = m"
    by (simp add: m_def mouse_window_def split: option.split)
  then have "curcursor (GsCheckCursor ?s3) = Some (cursor_of s m)"
    using check_cursor(2) [of ?s3] by (simp add: cursor_of_def GsFindCursor_def cong: option.case_cong)
  then have c: "GsCheckCursor ?s3 = ?s3\<lparr>curcursor := Some (cursor_of s m), engine_calls := engine_calls (GsCheckCursor ?s3)\<rparr>"
    using check_cursor(1) [of ?s3] by simp
  have "GrMoveCursor x y s = Some (GsCheckCursor ?s3)"
    unfolding GrMoveCursor_def s1 by (simp add: q1(1) q2(1))
  then show ?thesis
    using c sent_append [OF q1(2) q2(2)]
    by (intro exI [of _ q2] exI [of _ "engine_calls (GsCheckCursor ?s3)"]) simp
qed

end
