(* ===== verification/Dlv_Mouse.thy ===== *)
theory Dlv_Mouse
  imports Dlv_Walks
begin

text \<open>
  Motion and button events by the messages they send, the queued positions, and the invariant of the mouse handler.
\<close>

section \<open>Motion\<close>

definition motion_messages ::
  "server \<Rightarrow> mouse_kind \<Rightarrow> 32 word \<Rightarrow> 32 word \<Rightarrow> win_ptr list \<Rightarrow> (client_ptr \<times> GR_EVENT) list" where
  "motion_messages s type btns modifiers ws =
    concat (map (\<lambda>w. messages (GR_EVENTMASK (mouse_type type))
      (EVENT_MOUSE type (mouse_info s w (w_id (win s (mousewp s))) btns modifiers)) (w_eventclients (win s w))) ws)"

text \<open>The windows that get a motion or button event: the grabbing one, or from the mouse window upwards.\<close>

definition mouse_path :: "server \<Rightarrow> wtree \<Rightarrow> (win_ptr \<Rightarrow> bool) \<Rightarrow> win_ptr list" where
  "mouse_path s t stop = (case grabbuttonwp s of None \<Rightarrow> up_to_stop stop (ancestors t (mousewp s)) | Some g \<Rightarrow> [g])"

lemma root_stops: "server_tree s t \<Longrightarrow> stops_at s m (rootwp s 0)"
proof -
  assume st: "server_tree s t"
  then have "rootwp s 0 \<in> set (nodes t)" using root_in_nodes [of t] by (simp add: server_tree_def window_tree_def del: root_in_nodes)
  then show ?thesis using st by (simp add: stops_at_def server_tree_def)
qed

lemma motion_up_sent:
  assumes "parent_chain (win s) root ws" and "stops_at s (GR_EVENTMASK 6) root" and "grabbuttonwp s = None"
  shows "evq_ok q \<Longrightarrow> \<exists>q'. motion_up s MOUSE_MOTION (w_id (win s (mousewp s))) btns modifiers (hd ws) q = Some q' \<and>
    sent (motion_messages s MOUSE_MOTION btns modifiers (up_to_stop (stops_at s (GR_EVENTMASK 6)) ws)) q q'"
  using assms(1)
proof (induction arbitrary: q rule: parent_chain_induct)
  case root
  let ?e = "EVENT_MOUSE MOUSE_MOTION (mouse_info s root (w_id (win s (mousewp s))) btns modifiers)"
  have "motion_up s MOUSE_MOTION (w_id (win s (mousewp s))) btns modifiers root q =
      Some (deliver_to (GR_EVENTMASK 6) ?e (w_eventclients (win s root)) q)"
    using assms(2) by (subst motion_up.simps) (simp add: motion_at_def deliver_replacing_none)
  then show ?case using deliver_to_sent [OF root.prems, of "GR_EVENTMASK 6" ?e "w_eventclients (win s root)"] assms(2)
    by (simp add: motion_messages_def)
next
  case (step w v ws)
  let ?e = "EVENT_MOUSE MOUSE_MOTION (mouse_info s w (w_id (win s (mousewp s))) btns modifiers)"
  let ?q1 = "deliver_to (GR_EVENTMASK 6) ?e (w_eventclients (win s w)) q"
  have s1: "sent (messages (GR_EVENTMASK 6) ?e (w_eventclients (win s w))) q ?q1"
    by (rule deliver_to_sent [OF step.prems])
  have eq: "motion_up s MOUSE_MOTION (w_id (win s (mousewp s))) btns modifiers w q =
    (if stops_at s (GR_EVENTMASK 6) w then Some ?q1
     else motion_up s MOUSE_MOTION (w_id (win s (mousewp s))) btns modifiers v ?q1)"
    using step.hyps(1) assms(3) by (subst motion_up.simps) (simp add: motion_at_def deliver_replacing_none)
  show ?case
  proof (cases "stops_at s (GR_EVENTMASK 6) w")
    case True
    then show ?thesis using eq s1 by (simp add: motion_messages_def)
  next
    case False
    then show ?thesis using eq step.IH [OF sent_ok [OF s1]] sent_append [OF s1] by (auto simp: motion_messages_def)
  qed
qed

lemma motion_sent:
  assumes st: "server_tree s t" and ok: "evq_ok (evqueues s)"
  shows "\<exists>q. GsDeliverMotionEvent MOUSE_MOTION btns modifiers s = Some (s\<lparr>evqueues := q\<rparr>) \<and>
    sent (motion_messages s MOUSE_MOTION btns modifiers (mouse_path s t (stops_at s (GR_EVENTMASK 6)))) (evqueues s) q"
proof (cases "grabbuttonwp s")
  case None
  have "mousewp s \<in> set (nodes t)" using st by (simp add: server_tree_def)
  from ancestors_server [OF st this]
  show ?thesis
    using motion_up_sent [OF _ root_stops [OF st] None ok] None
    by (fastforce simp: GsDeliverMotionEvent_def mouse_path_def simp del: mouse_type.simps)
next
  case (Some g)
  let ?e = "EVENT_MOUSE MOUSE_MOTION (mouse_info s g (w_id (win s (mousewp s))) btns modifiers)"
  have "motion_up s MOUSE_MOTION (w_id (win s (mousewp s))) btns modifiers g (evqueues s) =
      Some (deliver_to (GR_EVENTMASK 6) ?e (w_eventclients (win s g)) (evqueues s))"
    using Some by (subst motion_up.simps) (simp add: motion_at_def deliver_replacing_none)
  then show ?thesis
    using deliver_to_sent [OF ok, of "GR_EVENTMASK 6" ?e "w_eventclients (win s g)"] Some
    by (auto simp: GsDeliverMotionEvent_def mouse_path_def motion_messages_def GR_EVENTMASK_def)
qed

section \<open>Positions\<close>

text \<open>At most one position is pending for a client, window and subwindow.\<close>

definition one_position :: "GR_EVENT list \<Rightarrow> bool" where
  "one_position es \<longleftrightarrow> (\<forall>wid subwid. length (filter (same_position wid subwid) es) \<le> 1)"

fun is_position :: "GR_EVENT \<Rightarrow> bool" where
  "is_position (EVENT_MOUSE MOUSE_POSITION d) \<longleftrightarrow> True"
| "is_position _ \<longleftrightarrow> False"

lemma not_position: "\<not> is_position e \<Longrightarrow> \<not> same_position wid subwid e"
  by (cases "(wid, subwid, e)" rule: same_position.cases) auto

lemma sent_positions:
  assumes "all_pending one_position q" and "sent ps q q'" and "\<forall>p\<in>set ps. \<not> is_position (snd p)"
  shows "all_pending one_position q'"
proof -
  have np: "\<forall>p\<in>set ps. \<not> same_position wid subwid (snd p)" for wid subwid using assms(3) not_position by blast
  have "filter (same_position wid subwid) (map snd (filter (\<lambda>p. fst p = c) (take n ps))) = []" for wid subwid c n
    using np [of wid subwid] by (fastforce simp: filter_empty_conv dest: in_set_takeD)
  then show ?thesis using assms(1,2) by (simp add: all_pending_def sent_def one_position_def)
qed

lemma filter_remove_first_same: "filter P (remove_first P es) = tl (filter P es)"
  by (induction es) auto

lemma filter_remove_first_le: "length (filter Q (remove_first P es)) \<le> length (filter Q es)"
  by (induction es) auto

lemma one_position_remove: "one_position es \<Longrightarrow> one_position (remove_first P es)"
  by (meson one_position_def filter_remove_first_le order.trans)

lemma one_position_replace:
  assumes "one_position es" and "e_wid d = wid" and "e_subwid d = subwid"
  shows "one_position (remove_first (same_position wid subwid) es @ [EVENT_MOUSE MOUSE_POSITION d])"
  unfolding one_position_def
proof (intro allI)
  fix w' s'
  have le: "length (filter (same_position w' s') (remove_first (same_position wid subwid) es)) \<le> 1"
    using one_position_remove [OF assms(1), of "same_position wid subwid"] by (simp add: one_position_def)
  have "length (filter (same_position wid subwid) es) \<le> 1" using assms(1) by (simp add: one_position_def)
  then have "filter (same_position wid subwid) (remove_first (same_position wid subwid) es) = []"
    by (simp add: filter_remove_first_same) (metis One_nat_def diff_is_0_eq length_0_conv length_tl)
  then show "length (filter (same_position w' s') (remove_first (same_position wid subwid) es @ [EVENT_MOUSE MOUSE_POSITION d])) \<le> 1"
    using assms(2,3) le by auto
qed

lemma replace_position:
  assumes "all_pending one_position q" and "e_wid d = wid" and "e_subwid d = subwid"
  shows "\<exists>q1. GsFreePositionEvent c wid subwid q = Some q1 \<and> evq_ok q1 \<and>
    all_pending one_position (post_event c (EVENT_MOUSE MOUSE_POSITION d) q1)"
proof -
  obtain q1 where q1: "GsFreePositionEvent c wid subwid q = Some q1" "evq_ok q1"
    "pending_events q1 = (pending_events q)(c := remove_first (same_position wid subwid) (pending_events q c))"
    using free_event_abs [of q "same_position wid subwid" c] assms(1) by (auto simp: GsFreePositionEvent_def all_pending_def)
  have "one_position (pending_events q d)" for d using assms(1) by (simp add: all_pending_def)
  then have "one_position (pending_events (post_event c (EVENT_MOUSE MOUSE_POSITION d) q1) c')" for c'
    using post_event_abs [OF q1(2), of c "EVENT_MOUSE MOUSE_POSITION d"] q1(3) one_position_replace [OF _ assms(2,3)] one_position_remove
    by auto
  then show ?thesis using q1(1,2) post_event_abs(1) [OF q1(2)] by (auto simp: all_pending_def)
qed

lemma motion_at_position:
  assumes "all_pending one_position q"
  shows "\<exists>q'. motion_at s MOUSE_POSITION subwid btns modifiers wp q = Some q' \<and> all_pending one_position q'"
proof -
  let ?d = "mouse_info s wp subwid btns modifiers"
  let ?F = "\<lambda>c q. if MOUSE_POSITION = MOUSE_POSITION then GsFreePositionEvent c (w_id (win s wp)) subwid q else Some q"
  have "\<exists>q'. deliver_replacing m ?F (EVENT_MOUSE MOUSE_POSITION ?d) ecs q = Some q' \<and> all_pending one_position q'" for m ecs
    using assms
  proof (induction ecs arbitrary: q)
    case (Cons ecp ecs)
    show ?case
    proof (cases "selects m ecp")
      case True
      obtain q1 where "GsFreePositionEvent (client ecp) (w_id (win s wp)) subwid q = Some q1"
        "all_pending one_position (post_event (client ecp) (EVENT_MOUSE MOUSE_POSITION ?d) q1)"
        using replace_position [OF Cons.prems, of ?d "w_id (win s wp)" subwid "client ecp"] by (auto simp: mouse_info_def)
      then show ?thesis using True Cons.IH by simp
    qed (use Cons in simp)
  qed simp
  then show ?thesis by (simp add: motion_at_def Let_def)
qed

lemma motion_up_position:
  assumes "parent_chain (win s) root ws" and "stops_at s (GR_EVENTMASK 7) root"
  shows "all_pending one_position q \<Longrightarrow>
    \<exists>q'. motion_up s MOUSE_POSITION subwid btns modifiers (hd ws) q = Some q' \<and> all_pending one_position q'"
  using assms(1)
proof (induction arbitrary: q rule: parent_chain_induct)
  case root
  then show ?case using motion_at_position [OF root.prems, of s subwid btns modifiers root] assms(2)
    by (subst motion_up.simps) auto
next
  case (step w v ws)
  obtain q1 where "motion_at s MOUSE_POSITION subwid btns modifiers w q = Some q1" "all_pending one_position q1"
    using motion_at_position [OF step.prems] by blast
  then show ?case using step.IH [of q1] step.hyps(1) by (subst motion_up.simps) auto
qed

lemma position_delivered:
  assumes st: "server_tree s t" and ok: "all_pending one_position (evqueues s)"
  shows "\<exists>q. GsDeliverMotionEvent MOUSE_POSITION btns modifiers s = Some (s\<lparr>evqueues := q\<rparr>) \<and> all_pending one_position q"
proof -
  let ?wp = "case grabbuttonwp s of None \<Rightarrow> mousewp s | Some wp \<Rightarrow> wp"
  have "?wp \<in> set (nodes t)" using st by (auto simp: server_tree_def split: option.split)
  note A = ancestors_server [OF st this]
  obtain q where "motion_up s MOUSE_POSITION (w_id (win s (mousewp s))) btns modifiers ?wp (evqueues s) = Some q" "all_pending one_position q"
    using motion_up_position [OF A(1) root_stops [OF st] ok] A(2) by fastforce
  then show ?thesis by (intro exI [of _ q]) (simp add: GsDeliverMotionEvent_def GR_EVENTMASK_def)
qed

section \<open>Buttons\<close>

text \<open>A window grabs the pointer at a press when one of its clients selected both button events.\<close>

definition grabs :: "server \<Rightarrow> button_dir \<Rightarrow> win_ptr \<Rightarrow> bool" where
  "grabs s type w \<longleftrightarrow> type = BUTTON_DOWN \<and>
     (\<exists>ecp\<in>set (w_eventclients (win s w)). selects (GR_EVENTMASK 2) ecp \<and> selects GR_EVENT_MASK_BUTTON_UP ecp)"

definition button_message :: "server \<Rightarrow> button_dir \<Rightarrow> 32 word \<Rightarrow> 32 word \<Rightarrow> 32 word \<Rightarrow> win_ptr \<Rightarrow> GR_EVENT" where
  "button_message s type btns changebuttons modifiers w =
    EVENT_BUTTON type (mouse_info s w (w_id (win s (mousewp s))) btns modifiers) changebuttons"

definition button_messages ::
  "server \<Rightarrow> button_dir \<Rightarrow> 32 word \<Rightarrow> 32 word \<Rightarrow> 32 word \<Rightarrow> win_ptr list \<Rightarrow> (client_ptr \<times> GR_EVENT) list" where
  "button_messages s type btns changebuttons modifiers ws =
    concat (map (\<lambda>w. messages (GR_EVENTMASK (button_type type)) (button_message s type btns changebuttons modifiers w)
      (w_eventclients (win s w))) ws)"

lemma button_at_eq:
  "button_at s type (w_id (win s (mousewp s))) btns changebuttons modifiers wp (g, q) =
    (if g = None \<and> grabs s type wp then Some wp else g,
     deliver_to (GR_EVENTMASK (button_type type)) (button_message s type btns changebuttons modifiers wp) (w_eventclients (win s wp)) q)"
proof -
  let ?m = "GR_EVENTMASK (button_type type)"
  let ?e = "button_message s type btns changebuttons modifiers wp"
  have "fold (\<lambda>ecp (grab, q).
      if \<not> selects ?m ecp then (grab, q)
      else (if type = BUTTON_DOWN \<and> grab = None \<and> selects GR_EVENT_MASK_BUTTON_UP ecp then Some wp else grab, post_event (client ecp) ?e q))
    ecs (g, q) =
    (if g = None \<and> type = BUTTON_DOWN \<and> (\<exists>ecp\<in>set ecs. selects (GR_EVENTMASK 2) ecp \<and> selects GR_EVENT_MASK_BUTTON_UP ecp)
     then Some wp else g, deliver_to ?m ?e ecs q)" for ecs
    by (induction ecs arbitrary: g q) (auto simp: deliver_to_def)
  from this [of "w_eventclients (win s wp)"] show ?thesis
    unfolding button_at_def button_message_def grabs_def Let_def .
qed

definition button_stop :: "server \<Rightarrow> button_dir \<Rightarrow> win_ptr \<Rightarrow> bool" where
  "button_stop s type w \<longleftrightarrow> grabs s type w \<or> stops_at s (GR_EVENTMASK (button_type type)) w"

lemma button_up_sent:
  assumes "parent_chain (win s) root ws" and "stops_at s (GR_EVENTMASK (button_type type)) root"
  shows "evq_ok q \<Longrightarrow>
    \<exists>q'. button_up s type (w_id (win s (mousewp s))) btns changebuttons modifiers (hd ws) (None, q) =
      Some (let w = last (up_to_stop (button_stop s type) ws) in if grabs s type w then Some w else None, q') \<and>
    sent (button_messages s type btns changebuttons modifiers (up_to_stop (button_stop s type) ws)) q q'"
  using assms(1)
proof (induction arbitrary: q rule: parent_chain_induct)
  case root
  let ?q1 = "deliver_to (GR_EVENTMASK (button_type type)) (button_message s type btns changebuttons modifiers root)
    (w_eventclients (win s root)) q"
  have "button_up s type (w_id (win s (mousewp s))) btns changebuttons modifiers root (None, q) =
    Some (if grabs s type root then Some root else None, ?q1)"
    using assms(2) by (subst button_up.simps) (simp add: button_at_eq)
  then show ?case
    using deliver_to_sent [OF root.prems, of "GR_EVENTMASK (button_type type)"] assms(2)
    by (auto simp: button_messages_def button_stop_def)
next
  case (step w v ws)
  let ?q1 = "deliver_to (GR_EVENTMASK (button_type type)) (button_message s type btns changebuttons modifiers w)
    (w_eventclients (win s w)) q"
  have s1: "sent (messages (GR_EVENTMASK (button_type type)) (button_message s type btns changebuttons modifiers w) (w_eventclients (win s w))) q ?q1"
    by (rule deliver_to_sent [OF step.prems])
  have eq: "button_up s type (w_id (win s (mousewp s))) btns changebuttons modifiers w (None, q) =
    (if button_stop s type w then Some (if grabs s type w then Some w else None, ?q1)
     else button_up s type (w_id (win s (mousewp s))) btns changebuttons modifiers v (None, ?q1))"
    using step.hyps(1) by (subst button_up.simps) (auto simp: button_at_eq button_stop_def)
  show ?case
  proof (cases "button_stop s type w")
    case True
    then show ?thesis using eq s1 by (simp add: button_messages_def)
  next
    case False
    define r where "r = up_to_stop (button_stop s type) (v # ws)"
    have r: "up_to_stop (button_stop s type) (w # v # ws) = w # r" "r \<noteq> []" using False by (simp_all add: r_def)
    obtain q2 where "button_up s type (w_id (win s (mousewp s))) btns changebuttons modifiers v (None, ?q1) =
        Some (let w = last r in if grabs s type w then Some w else None, q2)"
      "sent (button_messages s type btns changebuttons modifiers r) ?q1 q2"
      using step.IH [OF sent_ok [OF s1]] by (auto simp: r_def [symmetric] simp del: up_to_stop.simps)
    then show ?thesis
      using False eq r sent_append [OF s1] by (simp add: button_messages_def del: up_to_stop.simps)
  qed
qed

text \<open>The grab after the walk.\<close>

definition grab_after :: "server \<Rightarrow> wtree \<Rightarrow> button_dir \<Rightarrow> win_ptr option" where
  "grab_after s t type =
    (case grabbuttonwp s of
       Some g \<Rightarrow> Some g
     | None \<Rightarrow> let w = last (mouse_path s t (button_stop s type)) in if grabs s type w then Some w else None)"

lemma button_sent:
  assumes st: "server_tree s t" and ok: "evq_ok (evqueues s)"
  shows "\<exists>q. GsDeliverButtonEvent type btns changebuttons modifiers s =
      (if grab_after s t type \<noteq> None \<and> btns = 0
       then GrMoveCursor (cursorx s) (cursory s) (s\<lparr>evqueues := q, grabbuttonwp := None\<rparr>)
       else Some (s\<lparr>grabbuttonwp := grab_after s t type, evqueues := q\<rparr>)) \<and>
    sent (button_messages s type btns changebuttons modifiers (mouse_path s t (button_stop s type))) (evqueues s) q"
proof (cases "grabbuttonwp s")
  case None
  have "mousewp s \<in> set (nodes t)" using st by (simp add: server_tree_def)
  note A = ancestors_server [OF st this]
  obtain q where "button_up s type (w_id (win s (mousewp s))) btns changebuttons modifiers (mousewp s) (None, evqueues s) =
      Some (grab_after s t type, q)"
    "sent (button_messages s type btns changebuttons modifiers (mouse_path s t (button_stop s type))) (evqueues s) q"
    using button_up_sent [OF A(1) root_stops [OF st] ok, where btns = btns and changebuttons = changebuttons and modifiers = modifiers] A(2) None
    by (auto simp: grab_after_def mouse_path_def)
  then show ?thesis using None by (auto simp: GsDeliverButtonEvent_def Let_def)
next
  case (Some g)
  have "button_up s type (w_id (win s (mousewp s))) btns changebuttons modifiers g (Some g, evqueues s) =
    Some (Some g, deliver_to (GR_EVENTMASK (button_type type)) (button_message s type btns changebuttons modifiers g)
      (w_eventclients (win s g)) (evqueues s))"
    by (subst button_up.simps) (simp add: button_at_eq)
  then show ?thesis
    using Some deliver_to_sent [OF ok, of "GR_EVENTMASK (button_type type)"]
    by (auto simp: GsDeliverButtonEvent_def grab_after_def mouse_path_def button_messages_def Let_def)
qed

end
