(* ===== verification/Dlv_Props.thy ===== *)
theory Dlv_Props
  imports Dlv_Mouse
begin

text \<open>
  The theorems on mouse events: what is delivered to whom, the windows that have the mouse and the focus, the implicit grab,
  and raw mode.
\<close>

section \<open>The steps of the mouse handler\<close>

definition quiet :: "(client_ptr \<times> GR_EVENT) list \<Rightarrow> bool" where
  "quiet ps \<longleftrightarrow> (\<forall>p\<in>set ps. \<not> is_position (snd p))"

lemma quiet_messages [simp]: "\<not> is_position e \<Longrightarrow> quiet (messages m e ecs)"
  by (auto simp: quiet_def messages_def)

lemma quiet_append [simp]: "quiet (ps @ qs) \<longleftrightarrow> quiet ps \<and> quiet qs"
  by (auto simp: quiet_def)

lemma quiet_Nil [simp]: "quiet []"
  by (simp add: quiet_def)

lemma quiet_concat: "(\<And>w. quiet (f w)) \<Longrightarrow> quiet (concat (map f ws))"
  by (induction ws) simp_all

lemma quiet_switches [simp]: "quiet (mouse_switch W a b)" "quiet (focus_switch W t a b)"
  by (simp_all add: mouse_switch_def focus_switch_def general_messages_def activate_messages_def update_messages_def Let_def
      split: option.split)

lemma quiet_button [simp]: "quiet (button_messages s type btns changebuttons modifiers ws)"
  unfolding button_messages_def by (rule quiet_concat) (simp add: button_message_def)

lemma quiet_motion [simp]: "quiet (motion_messages s MOUSE_MOTION btns modifiers ws)"
  unfolding motion_messages_def by (rule quiet_concat) simp

text \<open>What every step of the handler keeps; \<open>follows\<close> says that the mouse window is the one under the cursor.\<close>

definition core :: "server \<Rightarrow> wtree \<Rightarrow> bool" where
  "core s t \<longleftrightarrow> server_tree s t \<and> all_pending one_position (evqueues s)"

definition follows :: "server \<Rightarrow> bool" where
  "follows s \<longleftrightarrow> (grabbuttonwp s = None \<longrightarrow> GsFindVisibleWindow (cursorx s) (cursory s) s = Some (mousewp s))"

lemma coreD: "core s t \<Longrightarrow> server_tree s t" "core s t \<Longrightarrow> evq_ok (evqueues s)" "core s t \<Longrightarrow> all_pending one_position (evqueues s)"
  by (simp_all add: core_def all_pending_def)

lemma core_sent:
  assumes "core s t" and "sent ps (evqueues s) q" and "quiet ps"
  shows "all_pending one_position q"
  using sent_positions [OF coreD(3) [OF assms(1)] assms(2)] assms(3) by (simp add: quiet_def)

lemma reset_saver:
  assumes "core s t"
  shows "\<exists>q. GsResetScreenSaver s = s\<lparr>screensaver_active := False, evqueues := q\<rparr> \<and> all_pending one_position q"
proof (cases "screensaver_active s")
  case True
  let ?p = "messages GR_EVENT_MASK_SCREENSAVER (EVENT_SCREENSAVER False) (w_eventclients (win s (rootwp s 0)))"
  have "sent ?p (evqueues s) (deliver_to GR_EVENT_MASK_SCREENSAVER (EVENT_SCREENSAVER False) (w_eventclients (win s (rootwp s 0))) (evqueues s))"
    by (rule deliver_to_sent [OF coreD(2) [OF assms]])
  from core_sent [OF assms this] show ?thesis using True by (auto simp: GsResetScreenSaver_def GsDeliverScreenSaverEvent_def)
next
  case False
  then show ?thesis using coreD(3) [OF assms] by (intro exI [of _ "evqueues s"]) (simp add: GsResetScreenSaver_def)
qed

lemma find_visible_cong:
  "win s' = win s \<Longrightarrow> rootwp s' = rootwp s \<Longrightarrow> GsFindVisibleWindow x y (s' :: server) = GsFindVisibleWindow x y (s :: server)"
  by (simp add: GsFindVisibleWindow_def)

lemma followsI:
  fixes s s' :: server
  assumes "win s' = win s" and "rootwp s' = rootwp s"
    and "grabbuttonwp s' = None \<Longrightarrow> GsFindVisibleWindow (cursorx s') (cursory s') s = Some (mousewp s')"
  shows "follows s'"
  using assms find_visible_cong [OF assms(1,2)] by (simp add: follows_def)

text \<open>One step: it returns, and keeps the windows.\<close>

definition step_to :: "server option \<Rightarrow> server \<Rightarrow> wtree \<Rightarrow> server \<Rightarrow> bool" where
  "step_to r s t s' \<longleftrightarrow> r = Some s' \<and> core s' t \<and> follows s' \<and> win s' = win s \<and> curbuttons s' = curbuttons s \<and> terminated s' = terminated s"

lemma move_step:
  assumes "core s t"
  shows "\<exists>s'. step_to (GrMoveCursor x y s) s t s' \<and> cursorx s' = x \<and> cursory s' = y \<and> grabbuttonwp s' = grabbuttonwp s"
proof -
  let ?m = "mouse_window s x y"
  let ?f = "focus_window s t ?m"
  obtain q ec where q: "GrMoveCursor x y s = Some (s\<lparr>cursorx := x, cursory := y, mousewp := ?m, focuswp := ?f, evqueues := q,
      curcursor := Some (cursor_of s ?m), engine_calls := ec\<rparr>)"
    "sent (mouse_switch (win s) (mousewp s) ?m @ focus_switch (win s) t (focuswp s) ?f) (evqueues s) q"
    using move_cursor_sent [OF coreD(1,2) [OF assms]] by blast
  have nodes: "?m \<in> set (nodes t)" "?f \<in> set (nodes t)"
    using mouse_window_node focus_window_node coreD(1) [OF assms] by blast+
  obtain w where w: "GsFindVisibleWindow x y s = Some w"
    using visible_window_node [of s t x y] coreD(1) [OF assms] by (auto simp: server_tree_def)
  let ?s = "s\<lparr>cursorx := x, cursory := y, mousewp := ?m, focuswp := ?f, evqueues := q,
      curcursor := Some (cursor_of s ?m), engine_calls := ec\<rparr>"
  have "core ?s t" using core_sent [OF assms q(2)] coreD(1) [OF assms] nodes by (simp add: core_def server_tree_def)
  moreover have "follows ?s" by (rule followsI [of _ s]) (simp_all add: w mouse_window_def)
  ultimately show ?thesis using q(1) by (intro exI [of _ ?s]) (simp add: step_to_def)
qed

lemma grab_after_node:
  assumes "server_tree s t" and "grab_after s t type = Some g"
  shows "g \<in> set (nodes t)"
proof (cases "grabbuttonwp s")
  case None
  have m: "mousewp s \<in> set (nodes t)" and wt: "window_tree (win s) (rootwp s 0) t" using assms(1) by (simp_all add: server_tree_def)
  note A = ancestors_chain [OF wt m]
  have "set (up_to_stop P ws) \<subseteq> set ws \<and> (ws \<noteq> [] \<longrightarrow> up_to_stop P ws \<noteq> [])" for P and ws :: "win_ptr list"
    by (induction ws) auto
  then have "last (mouse_path s t (button_stop s type)) \<in> set (ancestors t (mousewp s))"
    using None A(1) last_in_set by (simp add: mouse_path_def parent_chain_def) blast
  then show ?thesis using assms(2) None A(3) by (auto simp: grab_after_def Let_def split: if_splits)
next
  case (Some g')
  then show ?thesis using assms by (simp add: grab_after_def server_tree_def)
qed

lemma button_step:
  assumes c: "core s t" and f: "follows s"
  shows "\<exists>s'. step_to (GsDeliverButtonEvent type btns changebuttons modifiers s) s t s' \<and>
    cursorx s' = cursorx s \<and> cursory s' = cursory s \<and>
    grabbuttonwp s' = (if btns = 0 then None else grab_after s t type)"
proof -
  obtain q where q: "GsDeliverButtonEvent type btns changebuttons modifiers s =
      (if grab_after s t type \<noteq> None \<and> btns = 0
       then GrMoveCursor (cursorx s) (cursory s) (s\<lparr>evqueues := q, grabbuttonwp := None\<rparr>)
       else Some (s\<lparr>grabbuttonwp := grab_after s t type, evqueues := q\<rparr>))"
    "sent (button_messages s type btns changebuttons modifiers (mouse_path s t (button_stop s type))) (evqueues s) q"
    using button_sent [OF coreD(1,2) [OF c]] by blast
  have pos: "all_pending one_position q" by (rule core_sent [OF c q(2)]) simp
  show ?thesis
  proof (cases "grab_after s t type \<noteq> None \<and> btns = 0")
    case True
    let ?s1 = "s\<lparr>evqueues := q, grabbuttonwp := None\<rparr>"
    have "core ?s1 t" using pos coreD(1) [OF c] by (simp add: core_def server_tree_def)
    from move_step [OF this, of "cursorx s" "cursory s"] True q(1) show ?thesis by (auto simp: step_to_def)
  next
    case False
    let ?s1 = "s\<lparr>grabbuttonwp := grab_after s t type, evqueues := q\<rparr>"
    have "core ?s1 t" using pos coreD(1) [OF c] grab_after_node [OF coreD(1) [OF c]] by (auto simp: core_def server_tree_def)
    moreover have "follows ?s1"
    proof -
      have "grab_after s t type = None \<Longrightarrow> grabbuttonwp s = None" by (cases "grabbuttonwp s") (simp_all add: grab_after_def)
      then show ?thesis using f by (intro followsI [of ?s1 s]) (simp_all add: follows_def)
    qed
    ultimately have "step_to (GsDeliverButtonEvent type btns changebuttons modifiers s) s t ?s1"
      unfolding step_to_def q(1) if_not_P [OF False] by simp
    moreover have "grab_after s t type = (if btns = 0 then None else grab_after s t type)" using False by auto
    ultimately show ?thesis by (intro exI [of _ ?s1]) simp
  qed
qed

lemma saver_step:
  assumes "core s t" and "follows s"
  shows "step_to (Some (GsResetScreenSaver s)) s t (GsResetScreenSaver s)"
    "cursorx (GsResetScreenSaver s) = cursorx s" "cursory (GsResetScreenSaver s) = cursory s"
    "grabbuttonwp (GsResetScreenSaver s) = grabbuttonwp s"
proof -
  obtain q where q: "GsResetScreenSaver s = s\<lparr>screensaver_active := False, evqueues := q\<rparr>" "all_pending one_position q"
    using reset_saver [OF assms(1)] by blast
  let ?s = "s\<lparr>screensaver_active := False, evqueues := q\<rparr>"
  have "follows ?s" using assms(2) by (intro followsI [of ?s s]) (simp_all add: follows_def)
  then show "step_to (Some (GsResetScreenSaver s)) s t (GsResetScreenSaver s)"
    using q coreD(1) [OF assms(1)] by (simp add: step_to_def core_def server_tree_def)
  show "cursorx (GsResetScreenSaver s) = cursorx s" "cursory (GsResetScreenSaver s) = cursory s"
    "grabbuttonwp (GsResetScreenSaver s) = grabbuttonwp s" by (simp_all add: q(1))
qed

lemma motion_step:
  assumes "core s t" and "follows s"
  shows "\<exists>q. GsDeliverMotionEvent type btns modifiers s = Some (s\<lparr>evqueues := q\<rparr>) \<and>
    step_to (GsDeliverMotionEvent type btns modifiers s) s t (s\<lparr>evqueues := q\<rparr>)"
proof -
  obtain q where q: "GsDeliverMotionEvent type btns modifiers s = Some (s\<lparr>evqueues := q\<rparr>)" "all_pending one_position q"
  proof (cases type)
    case MOUSE_MOTION
    then show ?thesis
      using motion_sent [OF coreD(1,2) [OF assms(1)], of btns modifiers] core_sent [OF assms(1)] that by auto
  next
    case MOUSE_POSITION
    then show ?thesis using position_delivered [OF coreD(1,3) [OF assms(1)], of btns modifiers] that by auto
  qed
  have "follows (s\<lparr>evqueues := q\<rparr>)"
    using assms(2) by (intro followsI [of "s\<lparr>evqueues := q\<rparr>" s]) (simp_all add: follows_def)
  then show ?thesis using q coreD(1) [OF assms(1)] by (intro exI [of _ q]) (simp add: step_to_def core_def server_tree_def)
qed

text \<open>The first part of the handler: the move.\<close>

lemma handler_move:
  assumes "core s t" and "follows s"
  shows "\<exists>s'. step_to
    (if newx \<noteq> cursorx s \<or> newy \<noteq> cursory s then
       Option.bind (GrMoveCursor newx newy (GsResetScreenSaver s)) (\<lambda>s.
       Option.bind (GsDeliverMotionEvent MOUSE_MOTION newbuttons modifiers s)
         (GsDeliverMotionEvent MOUSE_POSITION newbuttons modifiers))
     else Some s) s t s' \<and> cursorx s' = newx \<and> cursory s' = newy \<and> grabbuttonwp s' = grabbuttonwp s"
proof (cases "newx \<noteq> cursorx s \<or> newy \<noteq> cursory s")
  case True
  note S = saver_step [OF assms]
  obtain s2 where s2: "step_to (GrMoveCursor newx newy (GsResetScreenSaver s)) (GsResetScreenSaver s) t s2"
    "cursorx s2 = newx" "cursory s2 = newy" "grabbuttonwp s2 = grabbuttonwp (GsResetScreenSaver s)"
    using move_step [of "GsResetScreenSaver s" t newx newy] S(1) by (auto simp: step_to_def)
  then have c2: "core s2 t" "follows s2" by (simp_all add: step_to_def)
  obtain q3 where q3: "step_to (GsDeliverMotionEvent MOUSE_MOTION newbuttons modifiers s2) s2 t (s2\<lparr>evqueues := q3\<rparr>)"
    using motion_step [OF c2] by blast
  let ?s3 = "s2\<lparr>evqueues := q3\<rparr>"
  have c3: "core ?s3 t" "follows ?s3" using q3 by (simp_all add: step_to_def)
  obtain q4 where q4: "step_to (GsDeliverMotionEvent MOUSE_POSITION newbuttons modifiers ?s3) ?s3 t (?s3\<lparr>evqueues := q4\<rparr>)"
    using motion_step [OF c3] by blast
  show ?thesis
    using True S s2 q3 q4 by (intro exI [of _ "?s3\<lparr>evqueues := q4\<rparr>"]) (simp add: step_to_def)
next
  case False
  then show ?thesis using assms by (intro exI [of _ s]) (simp add: step_to_def)
qed

text \<open>A button event with its guard.\<close>

lemma handler_button:
  assumes "core s t" and "follows s"
  shows "\<exists>s'. step_to (if changebuttons \<noteq> 0
      then GsDeliverButtonEvent type btns changebuttons modifiers (GsResetScreenSaver s) else Some s) s t s' \<and>
    cursorx s' = cursorx s \<and> cursory s' = cursory s \<and>
    (changebuttons = 0 \<longrightarrow> s' = s) \<and> (changebuttons \<noteq> 0 \<and> btns = 0 \<longrightarrow> grabbuttonwp s' = None) \<and>
    (type = BUTTON_UP \<and> btns \<noteq> 0 \<longrightarrow> grabbuttonwp s' = grabbuttonwp s)"
proof (cases "changebuttons = 0")
  case True
  then show ?thesis using assms by (intro exI [of _ s]) (simp add: step_to_def)
next
  case False
  note S = saver_step [OF assms]
  have c1: "core (GsResetScreenSaver s) t" "follows (GsResetScreenSaver s)" using S(1) by (simp_all add: step_to_def)
  have "grab_after s1 t BUTTON_UP = grabbuttonwp s1" for s1
    by (cases "grabbuttonwp s1") (simp_all add: grab_after_def grabs_def Let_def)
  then show ?thesis
    using button_step [OF c1, of type btns changebuttons modifiers] S False by (auto simp: step_to_def)
qed

section \<open>Theorems\<close>

text \<open>
  C25. \<open>GrMoveCursor\<close> always returns, and afterwards the cursor is at the given place, the mouse window is the grabbing window or
  else the one \<open>GsFindVisibleWindow\<close> finds there, the focus window is, unless the focus is fixed, the first ancestor of it that takes
  key events, and the cursor has the shape of the mouse window; exactly the leave, enter, focus and activation
  events for these changes are queued, in this order, as far as there is memory.
\<close>

theorem move_cursor_correct:
  assumes "server_tree s t" and "evq_ok (evqueues s)"
  shows "\<exists>s' m f. GrMoveCursor x y s = Some s' \<and>
    m = (case grabbuttonwp s of None \<Rightarrow> the (GsFindVisibleWindow x y s) | Some g \<Rightarrow> g) \<and>
    f = (if focusfixed s then focuswp s else focus_of (win s) (rootwp s 0) (ancestors t m)) \<and>
    cursorx s' = x \<and> cursory s' = y \<and> mousewp s' = m \<and> focuswp s' = f \<and> curcursor s' = Some (cursor_of s m) \<and>
    win s' = win s \<and> grabbuttonwp s' = grabbuttonwp s \<and>
    sent (mouse_switch (win s) (mousewp s) m @ focus_switch (win s) t (focuswp s) f) (evqueues s) (evqueues s')"
proof -
  let ?m = "mouse_window s x y"
  let ?f = "focus_window s t ?m"
  obtain q ec where q: "GrMoveCursor x y s = Some (s\<lparr>cursorx := x, cursory := y, mousewp := ?m, focuswp := ?f, evqueues := q,
      curcursor := Some (cursor_of s ?m), engine_calls := ec\<rparr>)"
    "sent (mouse_switch (win s) (mousewp s) ?m @ focus_switch (win s) t (focuswp s) ?f) (evqueues s) q"
    using move_cursor_sent [OF assms] by blast
  show ?thesis
    by (rule exI, rule exI [of _ ?m], rule exI [of _ ?f], rule conjI [OF q(1)])
      (use q(2) in \<open>simp add: mouse_window_def focus_window_def\<close>)
qed

text \<open>
  C24. The mouse handler always returns and keeps its invariant: the windows it remembers are windows of the tree, the mouse
  window is the one under the cursor unless the pointer is grabbed, the pointer is grabbed only while a button is down,
  and for every client, window and subwindow at most one position is pending.  It ends at the new position with the new buttons,
  unless left and right are down together, which ends the server.
\<close>

theorem mouse_handler_invariant:
  assumes "core s t" and "follows s" and "grabbuttonwp s \<noteq> None \<longrightarrow> curbuttons s \<noteq> 0"
  shows "\<exists>s'. GsHandleMouseStatus False modifiers newx newy newbuttons s = Some s' \<and> core s' t \<and> follows s' \<and>
    cursorx s' = newx \<and> cursory s' = newy \<and>
    (if NOT (curbuttons s) AND newbuttons \<noteq> 0 \<and> newbuttons AND (GR_BUTTON_L OR GR_BUTTON_R) = (GR_BUTTON_L OR GR_BUTTON_R)
     then terminated s'
     else terminated s' = terminated s \<and> curbuttons s' = newbuttons \<and> (grabbuttonwp s' = None \<or> curbuttons s' \<noteq> 0))"
proof -
  let ?up = "curbuttons s AND NOT newbuttons"
  let ?down = "NOT (curbuttons s) AND newbuttons"
  obtain s1 where s1: "step_to
    (if newx \<noteq> cursorx s \<or> newy \<noteq> cursory s then
       Option.bind (GrMoveCursor newx newy (GsResetScreenSaver s)) (\<lambda>s.
       Option.bind (GsDeliverMotionEvent MOUSE_MOTION newbuttons modifiers s)
         (GsDeliverMotionEvent MOUSE_POSITION newbuttons modifiers))
     else Some s) s t s1" "cursorx s1 = newx" "cursory s1 = newy" "grabbuttonwp s1 = grabbuttonwp s"
    using handler_move [OF assms(1,2)] by blast
  have c1: "core s1 t" "follows s1" "curbuttons s1 = curbuttons s" "terminated s1 = terminated s" using s1(1) by (simp_all add: step_to_def)
  obtain s2 where s2: "step_to (if ?up \<noteq> 0
      then GsDeliverButtonEvent BUTTON_UP newbuttons ?up modifiers (GsResetScreenSaver s1) else Some s1) s1 t s2"
    "cursorx s2 = cursorx s1" "cursory s2 = cursory s1" "?up = 0 \<longrightarrow> s2 = s1"
    "?up \<noteq> 0 \<and> newbuttons = 0 \<longrightarrow> grabbuttonwp s2 = None" "newbuttons \<noteq> 0 \<longrightarrow> grabbuttonwp s2 = grabbuttonwp s1"
    using handler_button [OF c1(1,2), of ?up BUTTON_UP newbuttons modifiers] by blast
  have c2: "core s2 t" "follows s2" "curbuttons s2 = curbuttons s" "terminated s2 = terminated s" using s2(1) c1 by (simp_all add: step_to_def)
  have g2: "grabbuttonwp s2 = None \<or> newbuttons \<noteq> 0" using s2(4,5) assms(3) s1(4) by (cases "?up = 0") auto
  obtain s3 where s3: "step_to (if ?down \<noteq> 0
      then GsDeliverButtonEvent BUTTON_DOWN newbuttons ?down modifiers (GsResetScreenSaver s2) else Some s2) s2 t s3"
    "cursorx s3 = cursorx s2" "cursory s3 = cursory s2" "?down = 0 \<longrightarrow> s3 = s2"
    using handler_button [OF c2(1,2), of ?down BUTTON_DOWN newbuttons modifiers] by blast
  let ?s4 = "s3\<lparr>curbuttons := newbuttons\<rparr>"
  have c3: "core s3 t" "follows s3" "terminated s3 = terminated s" using s3(1) c2 by (simp_all add: step_to_def)
  have c4: "core ?s4 t" "follows ?s4"
    using c3(1,2) followsI [of ?s4 s3] by (simp_all add: core_def server_tree_def follows_def)
  have g4: "grabbuttonwp s3 = None \<or> newbuttons \<noteq> 0" using g2 s3(4) by (cases "?down = 0") auto
  let ?stop = "?down \<noteq> 0 \<and> newbuttons AND (GR_BUTTON_L OR GR_BUTTON_R) = (GR_BUTTON_L OR GR_BUTTON_R)"
  have H: "GsHandleMouseStatus False modifiers newx newy newbuttons s =
    (if ?stop then Some (s2\<lparr>terminated := True\<rparr>) else Some ?s4)"
  proof -
    note e1 = s1(1) [unfolded step_to_def, THEN conjunct1]
    note e2 = s2(1) [unfolded step_to_def, THEN conjunct1]
    note e3 = s3(1) [unfolded step_to_def, THEN conjunct1]
    show ?thesis
      unfolding GsHandleMouseStatus_def Let_def if_False e1 bind.bind_lunit c1(3) e2 c2(3) e3 ..
  qed
  show ?thesis
  proof (cases ?stop)
    case True
    have "core (s2\<lparr>terminated := True\<rparr>) t" "follows (s2\<lparr>terminated := True\<rparr>)"
      using c2(1,2) followsI [of "s2\<lparr>terminated := True\<rparr>" s2] by (simp_all add: core_def server_tree_def follows_def)
    then show ?thesis unfolding H if_P [OF True] using s1(2,3) s2(2,3) by simp
  next
    case False
    show ?thesis unfolding H if_not_P [OF False] using c3(3) c4 g4 s1(2,3) s2(2,3) s3(2,3) by simp
  qed
qed

text \<open>
  The sample windows with clients: client 7 selected all mouse and key events of window 1 and motion in the root window.  The mouse is
  in window 1.
\<close>

definition sample_server :: server where
  "sample_server =
    \<lparr>win = (win sample_windows)
       (0 := (win sample_windows 0)\<lparr>w_eventclients := [\<lparr>eventmask = 0x40, client = 7\<rparr>]\<rparr>,
        1 := (win sample_windows 1)\<lparr>w_eventclients := [\<lparr>eventmask = 0xFFF, client = 7\<rparr>]\<rparr>),
     listwp = listwp sample_windows, rootwp = (\<lambda>_. 0), scrNumberOfLayers = 1, clipwp = None, cachewindowid = 0, cachewp = None,
     eng_clip = eng_clip sample_windows, evqueues = initial_queues 100, focuswp = 0, mousewp = 1, grabbuttonwp = None,
     cursorx = 25, cursory = 25, curbuttons = 0, focusfixed = False, screensaver_active = False, list_grabbed_keys = [],
     cursors = (\<lambda>_. \<lparr>cur_id = 0, hotx = 0, hoty = 0\<rparr>), listcursorp = [], stdcursor = 0, curcursor = Some 0, curgcp = None,
     pixmaps = (\<lambda>_. \<lparr>p_id = 0, p_width = 1, p_height = 1, p_next = None\<rparr>), listpp = None, cachepixmapid = 0, cachepp = None,
     selection_wid = 0, nextid = 11, free_windows = [3, 4, 5],
     engine_calls = [], terminated = False\<rparr>"

lemma sample_server_win:
  "w_eventclients (win sample_server 0) = [\<lparr>eventmask = 0x40, client = 7\<rparr>]"
  "w_eventclients (win sample_server 1) = [\<lparr>eventmask = 0xFFF, client = 7\<rparr>]"
  "w_nopropmask (win sample_server v) = 0" "w_layer (win sample_server v) = 0"
  by (simp_all add: sample_server_def sample_windows_def sample_window_def)

lemma sample_server_tree: "server_tree sample_server sample_tree"
  by (simp add: server_tree_def window_tree_def sample_server_def sample_windows_def sample_window_def)

lemma sample_core: "core sample_server sample_tree"
proof -
  have "all_pending one_position (initial_queues 100)"
    using queues_abs [OF initial_queues_ok [of 100]] by (simp add: all_pending_def one_position_def)
  then show ?thesis using sample_server_tree by (simp add: core_def) (simp add: sample_server_def)
qed

lemma sample_visible: "GsFindVisibleWindow 25 25 sample_server = Some 1"
proof -
  have "tree_chain (win sample_server) (Some 0) [sample_tree]"
    by (simp add: sample_server_def sample_windows_def sample_window_def)
  moreover have "on_top (win sample_server) 25 25 (lineage_in [sample_tree] 1 []) (child_list_in [sample_tree] 1)"
    by (simp add: on_top_def holds_point_def sample_server_def sample_windows_def sample_window_def)
  ultimately show ?thesis
    using find_visible_unique [of "win sample_server" "Some 0" "[sample_tree]" 1 25 25 "[]" 0]
    by (simp add: GsFindVisibleWindow_def) (simp add: sample_server_def)
qed

lemma sample_follows: "follows sample_server"
  using sample_visible by (simp add: follows_def) (simp add: sample_server_def)

theorem move_cursor_correct_witness:
  "\<exists>s'. GrMoveCursor 25 25 sample_server = Some s' \<and> mousewp s' = 1 \<and> cursorx s' = 25"
proof -
  have "grabbuttonwp sample_server = None" by (simp add: sample_server_def)
  then show ?thesis
    using move_cursor_correct [OF sample_server_tree coreD(2) [OF sample_core], of 25 25] sample_visible by auto
qed

theorem mouse_handler_invariant_witness:
  "\<exists>s'. GsHandleMouseStatus False 0 40 40 1 sample_server = Some s' \<and> cursorx s' = 40 \<and> curbuttons s' = 1 \<and> follows s'"
proof -
  have "grabbuttonwp sample_server = None" "curbuttons sample_server = 0" by (simp_all add: sample_server_def)
  then show ?thesis
    using mouse_handler_invariant [OF sample_core sample_follows, of 0 40 40 1] by auto
qed

text \<open>
  A motion event is queued, without end of the walk ever missing, for every client of every window that selected it, from the
  mouse window up to the first window that does not propagate it, or up to the root; while the pointer is
  grabbed only for the clients of the grabbing window.  A client that selected the event in several of these windows
  gets it several times.
\<close>

theorem motion_delivered:
  fixes btns modifiers :: "32 word"
  assumes "server_tree s t" and "evq_ok (evqueues s)"
  defines "ws \<equiv> (case grabbuttonwp s of None \<Rightarrow> up_to_stop (stops_at s (GR_EVENTMASK 6)) (ancestors t (mousewp s)) | Some g \<Rightarrow> [g])"
  defines "ev \<equiv> (\<lambda>w. EVENT_MOUSE MOUSE_MOTION (mouse_info s w (w_id (win s (mousewp s))) btns modifiers))"
  shows "\<exists>q. GsDeliverMotionEvent MOUSE_MOTION btns modifiers s = Some (s\<lparr>evqueues := q\<rparr>) \<and>
    sent (concat (map (\<lambda>w. map (\<lambda>ecp. (client ecp, ev w)) (filter (selects (GR_EVENTMASK 6)) (w_eventclients (win s w)))) ws))
      (evqueues s) q"
  using motion_sent [OF assms(1,2), of btns modifiers]
  by (simp add: ws_def ev_def motion_messages_def messages_def mouse_path_def)

theorem motion_delivered_witness:
  "\<exists>q. GsDeliverMotionEvent MOUSE_MOTION 0 0 sample_server = Some (sample_server\<lparr>evqueues := q\<rparr>) \<and>
    length (pending_events q 7) = 2"
proof -
  have m: "mousewp sample_server = 1" "grabbuttonwp sample_server = None" "rootwp sample_server 0 = 0" by (simp_all add: sample_server_def)
  let ?ev = "\<lambda>w. EVENT_MOUSE MOUSE_MOTION (mouse_info sample_server w (w_id (win sample_server 1)) 0 0)"
  have sel: "selects (GR_EVENTMASK 6) \<lparr>eventmask = 0x40, client = 7\<rparr>" "selects (GR_EVENTMASK 6) \<lparr>eventmask = 0xFFF, client = 7\<rparr>"
    by (simp_all add: selects_def GR_EVENTMASK_def)
  have path: "up_to_stop (stops_at sample_server (GR_EVENTMASK 6)) (ancestors sample_tree 1) = [1, 0]"
    by (simp add: ancestors_def stops_at_def m sample_server_win)
  obtain q where q: "GsDeliverMotionEvent MOUSE_MOTION 0 0 sample_server = Some (sample_server\<lparr>evqueues := q\<rparr>)"
    "sent [(7, ?ev 1), (7, ?ev 0)] (evqueues sample_server) q"
    using motion_delivered [OF sample_server_tree coreD(2) [OF sample_core], of 0 0] m(1,2) path sel sample_server_win(1,2) by auto
  have "event_room (evqueues sample_server) = 100" "pending_events (evqueues sample_server) 7 = []"
    using queues_abs(2,3) [OF initial_queues_ok [of 100]] by (simp_all add: sample_server_def queue_room_def initial_queues_def)
  then show ?thesis using q sent_all [OF q(2), of 7] by auto
qed

text \<open>
  C26. A button event goes from the mouse window upwards to every client that selected it, up to the first window that grabs or stops it;
  each window on this way queues it for each of its selecting clients, so that a client can get several instances, although the
  comment at \<open>GsDeliverButtonEvent\<close> promises one, for the lowest window.
  A press grabs the pointer for the first window on this way with a client that selected both button events.  While the pointer
  is grabbed only the grabbing window gets button events, and when the last button is released the grab ends and the cursor is moved
  anew to find the mouse and focus windows.
\<close>

theorem button_delivered:
  fixes type :: button_dir and btns changebuttons modifiers :: "32 word"
  assumes "server_tree s t" and "evq_ok (evqueues s)"
  defines "stop \<equiv> (\<lambda>w. grabs s type w \<or> stops_at s (GR_EVENTMASK (button_type type)) w)"
  defines "ws \<equiv> (case grabbuttonwp s of None \<Rightarrow> up_to_stop stop (ancestors t (mousewp s)) | Some g \<Rightarrow> [g])"
  defines "grab \<equiv> (case grabbuttonwp s of Some g \<Rightarrow> Some g | None \<Rightarrow> if grabs s type (last ws) then Some (last ws) else None)"
  shows "\<exists>q. sent (button_messages s type btns changebuttons modifiers ws) (evqueues s) q \<and>
    GsDeliverButtonEvent type btns changebuttons modifiers s =
      (if grab \<noteq> None \<and> btns = 0
       then GrMoveCursor (cursorx s) (cursory s) (s\<lparr>evqueues := q, grabbuttonwp := None\<rparr>)
       else Some (s\<lparr>grabbuttonwp := grab, evqueues := q\<rparr>))"
proof -
  have ws: "ws = mouse_path s t (button_stop s type)" unfolding ws_def mouse_path_def stop_def button_stop_def ..
  have "grab = grab_after s t type"
    unfolding grab_def grab_after_def ws Let_def by (simp split: option.split)
  then show ?thesis using button_sent [OF assms(1,2), of type btns changebuttons modifiers] ws by blast
qed

theorem button_delivered_witness:
  "\<exists>q. GsDeliverButtonEvent BUTTON_DOWN 1 1 0 sample_server = Some (sample_server\<lparr>grabbuttonwp := Some 1, evqueues := q\<rparr>)"
proof -
  have m: "mousewp sample_server = 1" "grabbuttonwp sample_server = None" by (simp_all add: sample_server_def)
  have "grabs sample_server BUTTON_DOWN 1"
    by (simp add: grabs_def sample_server_win(2) selects_def GR_EVENTMASK_def del: One_nat_def)
  then have "last (up_to_stop (\<lambda>w. grabs sample_server BUTTON_DOWN w \<or> stops_at sample_server (GR_EVENTMASK (button_type BUTTON_DOWN)) w)
      (ancestors sample_tree 1)) = 1" by (simp add: ancestors_def)
  then show ?thesis
    using button_delivered [OF sample_server_tree coreD(2) [OF sample_core], of BUTTON_DOWN 1 1 0] m
      \<open>grabs sample_server BUTTON_DOWN 1\<close> by auto
qed

text \<open>
  Raw mode confuses presses and releases: when no button is released no button event is queued, so a press is never
  reported; and when buttons are released, a client of the mouse window that selected both button events gets a press and a release, both for the
  released buttons.
\<close>

theorem raw_buttons_confused:
  fixes rx ry :: MWCOORD and btns modifiers :: "32 word"
  assumes "evq_ok (evqueues s)" and "w_eventclients (win s (mousewp s)) = [ecp]"
    and "selects (GR_EVENTMASK 2) ecp" and "selects GR_EVENT_MASK_BUTTON_UP ecp" and "\<not> selects GR_EVENT_MASK_MOUSE_POSITION ecp"
    and "2 \<le> event_room (evqueues s)"
  defines "released \<equiv> curbuttons s AND NOT btns"
  defines "d \<equiv> \<lparr>e_wid = w_id (win s (mousewp s)), e_subwid = w_id (win s (mousewp s)), e_rootx = rx, e_rooty = ry, e_x = 0, e_y = 0,
    e_buttons = btns, e_modifiers = modifiers\<rparr>"
  shows "\<exists>q. GsDeliverRawMouseEvent rx ry btns modifiers s = Some (s\<lparr>evqueues := q, curbuttons := btns\<rparr>) \<and>
    pending_events q (client ecp) = pending_events (evqueues s) (client ecp) @
      (if released = 0 then [] else [EVENT_BUTTON BUTTON_DOWN d released, EVENT_BUTTON BUTTON_UP d released])"
proof -
  let ?c = "client ecp"
  have pos: "raw_position s rx ry btns modifiers sw [ecp] wp q = Some q" for sw wp q using assms(5) by simp
  have one: "raw_button s rx ry ty btns cb modifiers (w_id (win s (mousewp s))) [ecp] (Some (mousewp s)) q =
    Some (post_event ?c (EVENT_BUTTON ty d cb) q)" if "ty = BUTTON_DOWN \<or> ty = BUTTON_UP" for ty cb q
  proof -
    have "selects (GR_EVENTMASK (button_type ty)) ecp" using that assms(3,4) by auto
    then show ?thesis by (auto simp: post_event_def d_def Let_def split: prod.split option.split)
  qed
  have raw: "raw_buttons s rx ry btns modifiers ty q = Some (if released = 0 then q else post_event ?c (EVENT_BUTTON ty d released) q)" for ty q
    using one [of ty] by (cases ty) (simp_all add: raw_buttons_def released_def assms(2) word_bw_comms Let_def)
  show ?thesis
  proof (cases "released = 0")
    case True
    then show ?thesis by (intro exI [of _ "evqueues s"]) (simp add: GsDeliverRawMouseEvent_def assms(2) pos raw del: raw_position.simps)
  next
    case False
    let ?q1 = "post_event ?c (EVENT_BUTTON BUTTON_DOWN d released) (evqueues s)"
    let ?q2 = "post_event ?c (EVENT_BUTTON BUTTON_UP d released) ?q1"
    have "sent [(?c, EVENT_BUTTON BUTTON_DOWN d released), (?c, EVENT_BUTTON BUTTON_UP d released)] (evqueues s) ?q2"
      using sent_append [OF sent_post [OF assms(1)] sent_post [OF sent_ok [OF sent_post [OF assms(1)]]]] by simp
    from sent_all [OF this, of ?c] show ?thesis
      using False assms(6)
      by (intro exI [of _ ?q2]) (simp add: GsDeliverRawMouseEvent_def assms(2) pos raw del: raw_position.simps)
  qed
qed

definition raw_server :: server where
  "raw_server = sample_server\<lparr>win := (win sample_server)(1 := (win sample_server 1)\<lparr>w_eventclients := [\<lparr>eventmask = 0xC, client = 7\<rparr>]\<rparr>),
     curbuttons := 1\<rparr>"

theorem raw_buttons_confused_witness:
  "\<exists>q d. GsDeliverRawMouseEvent 0 0 0 0 raw_server = Some (raw_server\<lparr>evqueues := q, curbuttons := 0\<rparr>) \<and>
    pending_events q 7 = [EVENT_BUTTON BUTTON_DOWN d 1, EVENT_BUTTON BUTTON_UP d 1]"
proof -
  have "event_room (evqueues raw_server) = 100" "pending_events (evqueues raw_server) 7 = []" "evq_ok (evqueues raw_server)"
    using queues_abs [OF initial_queues_ok [of 100]] by (simp_all add: raw_server_def sample_server_def queue_room_def initial_queues_def)
  moreover have "w_eventclients (win raw_server (mousewp raw_server)) = [\<lparr>eventmask = 0xC, client = 7\<rparr>]" "curbuttons raw_server = 1"
    by (simp_all add: raw_server_def sample_server_def)
  moreover have "selects (GR_EVENTMASK 2) \<lparr>eventmask = 0xC, client = 7\<rparr>" "selects (GR_EVENTMASK 3) \<lparr>eventmask = 0xC, client = 7\<rparr>"
    "\<not> selects (GR_EVENTMASK 7) \<lparr>eventmask = 0xC, client = 7\<rparr>"
    by (simp_all add: selects_def GR_EVENTMASK_def)
  ultimately show ?thesis
    using raw_buttons_confused [of raw_server "\<lparr>eventmask = 0xC, client = 7\<rparr>" 0 0 0 0] by auto
qed

end
