(* ===== verification/Dlv_Keys.thy ===== *)
theory Dlv_Keys
  imports Dlv_Props
begin

text \<open>
  The grabbed keys and the delivery of key events.
\<close>

section \<open>The list of grabbed keys\<close>

text \<open>
  What the comments of \<open>GrGrabKey\<close> and \<open>GsDeliverKeyboardEvent\<close> ask for: the types are valid, and of the grabs of
  one key only the first can be of another type than \<open>GR_GRAB_HOTKEY\<close>.
\<close>

definition grabs_ok :: "grabbed_key list \<Rightarrow> bool" where
  "grabs_ok ks \<longleftrightarrow> sorted_wrt (\<lambda>a b. g_key a = g_key b \<longrightarrow> g_type b = GR_GRAB_HOTKEY) ks \<and>
     (\<forall>k\<in>set ks. 0 \<le> g_type k \<and> g_type k \<le> GR_GRAB_EXCLUSIVE_MOUSE)"

text \<open>A grab can be added when it, or every other grab of the key, is of type \<open>GR_GRAB_HOTKEY\<close>.\<close>

definition grab_free :: "int \<Rightarrow> int \<Rightarrow> grabbed_key list \<Rightarrow> bool" where
  "grab_free key type ks \<longleftrightarrow> type = GR_GRAB_HOTKEY \<or> (\<forall>k\<in>set ks. g_key k = key \<longrightarrow> g_type k = GR_GRAB_HOTKEY)"

lemma grab_scan_found:
  assumes "grabs_ok ks"
  shows "grab_scan c ident key type ks =
    (if \<lparr>g_owner = c, g_type = type, g_wid = ident, g_key = key\<rparr> \<in> set ks then Some True
     else if grab_free key type ks then None else Some False)"
  using assms
proof (induction ks)
  case Nil
  then show ?case by (simp add: grab_free_def)
next
  case (Cons k ks)
  let ?k = "\<lparr>g_owner = c, g_type = type, g_wid = ident, g_key = key\<rparr>"
  have ok: "grabs_ok ks" using Cons.prems by (simp add: grabs_ok_def)
  have k: "?k = k \<longleftrightarrow> g_key k = key \<and> g_wid k = ident \<and> g_type k = type \<and> g_owner k = c"
    by (cases k) auto
  have rest: "\<forall>k'\<in>set ks. g_key k' = g_key k \<longrightarrow> g_type k' = GR_GRAB_HOTKEY" using Cons.prems by (auto simp: grabs_ok_def)
  show ?case
  proof (cases "g_key k = key \<and> g_type k \<noteq> GR_GRAB_HOTKEY \<and> type \<noteq> GR_GRAB_HOTKEY")
    case True
    then have "?k \<notin> set ks" using rest by auto
    then show ?thesis using True k by (auto simp: grab_free_def)
  next
    case False
    then have "grab_free key type (k # ks) = grab_free key type ks" by (auto simp: grab_free_def)
    then show ?thesis using False k Cons.IH [OF ok] by auto
  qed
qed

lemma ungrab_sorted: "sorted_wrt R ks \<Longrightarrow> sorted_wrt R (ungrab c ident key ks)" "set (ungrab c ident key ks) \<subseteq> set ks"
proof (induction ks)
  case (Cons k ks)
  { case 1 then show ?case using Cons.IH by auto }
  { case 2 show ?case using Cons.IH(2) by auto }
qed simp_all

section \<open>The loop over the grabbed keys\<close>

definition hot_messages :: "(grabbed_key \<Rightarrow> GR_EVENT) \<Rightarrow> grabbed_key list \<Rightarrow> (client_ptr \<times> GR_EVENT) list" where
  "hot_messages ev ks = map (\<lambda>k. (g_owner k, ev k)) ks"

lemma grabbed_key_step:
  "grabbed_keys ev keyvalue (k # ks) q =
    (if g_key k \<noteq> keyvalue then grabbed_keys ev keyvalue ks q
     else if g_type k \<noteq> GR_GRAB_HOTKEY \<and> g_type k \<noteq> GR_GRAB_HOTKEY_EXCLUSIVE then (GrabKey k, q)
     else if g_type k = GR_GRAB_HOTKEY_EXCLUSIVE \<and> fst (GsAllocEvent (g_owner k) q) \<noteq> None
       then (GrabReturn, post_event (g_owner k) (ev k) q)
     else grabbed_keys ev keyvalue ks (post_event (g_owner k) (ev k) q))"
  by (auto simp: post_event_def Let_def split: prod.split option.split)

lemma grabbed_hotkeys:
  assumes "evq_ok q" and "\<forall>k\<in>set ks. g_key k = keyvalue \<longrightarrow> g_type k = GR_GRAB_HOTKEY \<or>
    g_type k = GR_GRAB_HOTKEY_EXCLUSIVE \<and> event_room q = 0"
  shows "\<exists>q'. grabbed_keys ev keyvalue ks q = (GrabNone, q') \<and>
    sent (hot_messages ev (filter (\<lambda>k. g_key k = keyvalue) ks)) q q'"
  using assms
proof (induction ks arbitrary: q)
  case Nil
  then show ?case by (simp add: hot_messages_def sent_Nil)
next
  case (Cons k ks)
  show ?case
  proof (cases "g_key k = keyvalue")
    case True
    let ?q = "post_event (g_owner k) (ev k) q"
    have s1: "sent [(g_owner k, ev k)] q ?q" by (rule sent_post [OF Cons.prems(1)])
    have "event_room q = 0 \<Longrightarrow> event_room ?q = 0" using s1 by (simp add: sent_def)
    moreover have "grabbed_keys ev keyvalue (k # ks) q = grabbed_keys ev keyvalue ks ?q"
      using Cons.prems True alloc_event(1) [OF Cons.prems(1), of "g_owner k"] unfolding grabbed_key_step by auto
    ultimately show ?thesis
      using Cons.IH [OF sent_ok [OF s1]] Cons.prems(2) True sent_append [OF s1] by (fastforce simp: hot_messages_def)
  next
    case False
    then show ?thesis using Cons by simp
  qed
qed

text \<open>
  The grabs of a key decide: the owner of an exclusive hotkey alone gets the event, otherwise all owners of hotkeys.
\<close>

definition exclusive_hotkey :: "int \<Rightarrow> grabbed_key list \<Rightarrow> grabbed_key option" where
  "exclusive_hotkey keyvalue ks = find (\<lambda>k. g_key k = keyvalue \<and> g_type k = GR_GRAB_HOTKEY_EXCLUSIVE) ks"

lemma grabbed_keys_sent:
  assumes "grabs_ok ks" and "evq_ok q" and "\<forall>k\<in>set ks. g_key k = keyvalue \<longrightarrow> g_type k \<le> GR_GRAB_HOTKEY"
  shows "\<exists>r q'. grabbed_keys ev keyvalue ks q = (r, q') \<and>
    r = (if exclusive_hotkey keyvalue ks \<noteq> None \<and> event_room q \<noteq> 0 then GrabReturn else GrabNone) \<and>
    sent (hot_messages ev (case exclusive_hotkey keyvalue ks of
        Some k \<Rightarrow> [k] | None \<Rightarrow> filter (\<lambda>k. g_key k = keyvalue) ks)) q q'"
proof (cases "event_room q = 0")
  case True
  have "\<forall>k\<in>set ks. g_key k = keyvalue \<longrightarrow> g_type k = GR_GRAB_HOTKEY \<or> g_type k = GR_GRAB_HOTKEY_EXCLUSIVE \<and> event_room q = 0"
    using assms(1,3) True by (force simp: grabs_ok_def)
  from grabbed_hotkeys [OF assms(2) this, of ev] show ?thesis using True sent_full by fastforce
next
  case False
  show ?thesis
    using assms(1,3)
  proof (induction ks)
    case Nil
    then show ?case using assms(2) by (simp add: exclusive_hotkey_def hot_messages_def sent_Nil)
  next
    case (Cons k ks)
    have ok: "grabs_ok ks" using Cons.prems(1) by (simp add: grabs_ok_def)
    show ?case
    proof (cases "g_key k = keyvalue")
      case True
      have t: "g_type k = GR_GRAB_HOTKEY \<or> g_type k = GR_GRAB_HOTKEY_EXCLUSIVE"
        using Cons.prems True by (force simp: grabs_ok_def)
      have hot: "\<forall>k'\<in>set ks. g_key k' = keyvalue \<longrightarrow> g_type k' = GR_GRAB_HOTKEY"
        using Cons.prems(1) True by (auto simp: grabs_ok_def)
      show ?thesis
      proof (cases "g_type k = GR_GRAB_HOTKEY_EXCLUSIVE")
        case True
        then have "grabbed_keys ev keyvalue (k # ks) q = (GrabReturn, post_event (g_owner k) (ev k) q)"
          using \<open>g_key k = keyvalue\<close> alloc_event(2) [OF assms(2) False, of "g_owner k"] unfolding grabbed_key_step by auto
        then show ?thesis
          using True \<open>g_key k = keyvalue\<close> False sent_post [OF assms(2), of "g_owner k" "ev k"]
          by (simp add: exclusive_hotkey_def hot_messages_def)
      next
        case notex: False
        then have "exclusive_hotkey keyvalue (k # ks) = None"
          using hot by (auto simp: exclusive_hotkey_def find_None_iff)
        moreover have "\<forall>k'\<in>set (k # ks). g_key k' = keyvalue \<longrightarrow> g_type k' = GR_GRAB_HOTKEY \<or>
            g_type k' = GR_GRAB_HOTKEY_EXCLUSIVE \<and> event_room q = 0" using hot t notex by auto
        ultimately show ?thesis using grabbed_hotkeys [OF assms(2), of "k # ks" keyvalue ev] by auto
      qed
    next
      case False
      have "exclusive_hotkey keyvalue (k # ks) = exclusive_hotkey keyvalue ks"
        "filter (\<lambda>k. g_key k = keyvalue) (k # ks) = filter (\<lambda>k. g_key k = keyvalue) ks"
        "grabbed_keys ev keyvalue (k # ks) q = grabbed_keys ev keyvalue ks q"
        using False by (simp_all add: exclusive_hotkey_def)
      then show ?thesis using Cons.IH [OF ok] Cons.prems(2) by (simp only: list.set_intros(2) simp_thms ball_simps insert_iff list.set) blast
    qed
  qed
qed

section \<open>Walking upwards with a key\<close>

lemma ancestor_until_chain:
  assumes "parent_chain (win s) root ws" and "w_parent (win s root) = None"
    and "\<forall>v\<in>set ws. v = rootwp s (w_layer (win s v)) \<longleftrightarrow> v = root"
  shows "ancestor_until s k (hd ws) = Some (if k \<in> set ws then k else root)"
  using assms(1,3)
proof (induction rule: parent_chain_induct)
  case root
  then show ?case by (subst ancestor_until.simps) auto
next
  case (step w v ws)
  have "w \<noteq> root" using step.hyps(1) assms(2) by auto
  then show ?case using step by (subst ancestor_until.simps) auto
qed

text \<open>The message of the last window of the walk: its first client that selected the key, if there is one.\<close>

definition key_message :: "server \<Rightarrow> 32 word \<Rightarrow> (win_ptr \<Rightarrow> GR_EVENT) \<Rightarrow> win_ptr \<Rightarrow> (client_ptr \<times> GR_EVENT) list" where
  "key_message s m ev w = (case find (selects m) (w_eventclients (win s w)) of None \<Rightarrow> [] | Some ecp \<Rightarrow> [(client ecp, ev w)])"

definition key_stop :: "server \<Rightarrow> 32 word \<Rightarrow> win_ptr \<Rightarrow> win_ptr \<Rightarrow> bool" where
  "key_stop s m k w \<longleftrightarrow> list_ex (selects m) (w_eventclients (win s w)) \<or> stops_at s m w \<or> w = k"

lemma keystroke_up_sent:
  assumes "parent_chain (win s) root ws" and "stops_at s m root" and "evq_ok q"
  shows "\<exists>q'. keystroke_up s m ev k (hd ws) q = Some q' \<and>
    sent (key_message s m ev (last (up_to_stop (key_stop s m k) ws))) q q'"
  using assms(1)
proof (induction rule: parent_chain_induct)
  case root
  show ?case
    using assms(2) sent_Nil [OF assms(3)] sent_post [OF assms(3)]
    by (subst keystroke_up.simps) (auto simp: key_message_def split: option.split)
next
  case (step w v ws)
  have ex: "list_ex (selects m) (w_eventclients (win s w)) \<longleftrightarrow> find (selects m) (w_eventclients (win s w)) \<noteq> None"
    by (auto simp: list_ex_iff find_None_iff)
  have eq: "keystroke_up s m ev k w q =
    (if list_ex (selects m) (w_eventclients (win s w))
     then Some (post_event (client (the (find (selects m) (w_eventclients (win s w))))) (ev w) q)
     else if stops_at s m w \<or> w = k then Some q else keystroke_up s m ev k v q)"
    using step.hyps(1) by (subst keystroke_up.simps) (auto simp: ex)
  show ?case
  proof (cases "key_stop s m k w")
    case True
    then show ?thesis using eq ex sent_Nil [OF assms(3)] sent_post [OF assms(3)]
      by (auto simp: key_stop_def key_message_def)
  next
    case False
    have "up_to_stop (key_stop s m k) (v # ws) \<noteq> []" by simp
    then have "last (up_to_stop (key_stop s m k) (w # v # ws)) = last (up_to_stop (key_stop s m k) (v # ws))"
      unfolding up_to_stop.simps(2) [of _ w] if_not_P [OF False] by simp
    moreover have "keystroke_up s m ev k w q = keystroke_up s m ev k v q" using False eq by (simp add: key_stop_def)
    ultimately show ?thesis using step.IH by (simp del: up_to_stop.simps)
  qed
qed

text \<open>The messages at the end of the screen saver.\<close>

definition saver_messages :: "server \<Rightarrow> (client_ptr \<times> GR_EVENT) list" where
  "saver_messages s = (if screensaver_active s
     then messages GR_EVENT_MASK_SCREENSAVER (EVENT_SCREENSAVER False) (w_eventclients (win s (rootwp s 0))) else [])"

lemma saver_sent:
  assumes "evq_ok (evqueues s)"
  shows "\<exists>q. GsResetScreenSaver s = s\<lparr>screensaver_active := False, evqueues := q\<rparr> \<and> sent (saver_messages s) (evqueues s) q"
proof (cases "screensaver_active s")
  case True
  then show ?thesis
    using deliver_to_sent [OF assms, of GR_EVENT_MASK_SCREENSAVER "EVENT_SCREENSAVER False" "w_eventclients (win s (rootwp s 0))"]
    by (auto simp: GsResetScreenSaver_def GsDeliverScreenSaverEvent_def saver_messages_def)
next
  case False
  then show ?thesis using sent_Nil [OF assms]
    by (intro exI [of _ "evqueues s"]) (simp add: GsResetScreenSaver_def saver_messages_def)
qed

text \<open>Where a key goes when the window \<open>k\<close> has the focus: the mouse window if it is below \<open>k\<close>, otherwise \<open>k\<close>.\<close>

definition key_start :: "server \<Rightarrow> wtree \<Rightarrow> win_ptr \<Rightarrow> win_ptr" where
  "key_start s t k = (if k \<in> set (ancestors t (mousewp s)) then mousewp s else k)"

definition key_window :: "server \<Rightarrow> 32 word \<Rightarrow> wtree \<Rightarrow> win_ptr \<Rightarrow> win_ptr" where
  "key_window s m t k = last (up_to_stop (key_stop s m k) (ancestors t (key_start s t k)))"

lemma key_walk:
  assumes st: "server_tree s t" and k: "k \<in> set (nodes t)" and ok: "evq_ok q"
  shows "ancestor_until s k (mousewp s) = Some (if k \<in> set (ancestors t (mousewp s)) then k else rootwp s 0)"
    "\<exists>q'. keystroke_up s m ev k (key_start s t k) q = Some q' \<and> sent (key_message s m ev (key_window s m t k)) q q'"
proof -
  have m: "mousewp s \<in> set (nodes t)" and wt: "window_tree (win s) (rootwp s 0) t" using st by (simp_all add: server_tree_def)
  have lay: "v = rootwp s (w_layer (win s v)) \<longleftrightarrow> v = rootwp s 0" if "v \<in> set (nodes t)" for v
    using st that by (simp add: server_tree_def)
  note A = ancestors_chain [OF wt m]
  show "ancestor_until s k (mousewp s) = Some (if k \<in> set (ancestors t (mousewp s)) then k else rootwp s 0)"
  proof -
    have "\<forall>v\<in>set (ancestors t (mousewp s)). v = rootwp s (w_layer (win s v)) \<longleftrightarrow> v = rootwp s 0" using A(3) lay by blast
    then show ?thesis using ancestor_until_chain [OF A(1), of k] A(2) wt by (simp add: window_tree_def)
  qed
  have "key_start s t k \<in> set (nodes t)" using m k by (simp add: key_start_def)
  note B = ancestors_chain [OF wt this]
  show "\<exists>q'. keystroke_up s m ev k (key_start s t k) q = Some q' \<and> sent (key_message s m ev (key_window s m t k)) q q'"
    using keystroke_up_sent [OF B(1) root_stops [OF st] ok, where k = k and ev = ev] B(2) by (simp add: key_window_def)
qed

section \<open>Theorems\<close>

text \<open>
  C28. \<open>GrGrabKey\<close> and \<open>GrUngrabKey\<close> keep the order of the grabs that the delivery of keys needs.  A grab succeeds exactly when
  its type is valid and it is already there, or can be added besides the other grabs of the key and there is memory; then it is in the
  list, and all others stay.
\<close>

theorem grab_list_invariant:
  assumes "grabs_ok (list_grabbed_keys s)"
  shows "grabs_ok (list_grabbed_keys (GrUngrabKey c ident key s)) \<and>
    (case GrGrabKey mem c ident key type s of (r, s') \<Rightarrow>
      let k = \<lparr>g_owner = c, g_type = type, g_wid = ident, g_key = key\<rparr>; ks = list_grabbed_keys s
      in grabs_ok (list_grabbed_keys s') \<and>
         r = (0 \<le> type \<and> type \<le> GR_GRAB_EXCLUSIVE_MOUSE \<and> (k \<in> set ks \<or> mem \<and> grab_free key type ks)) \<and>
         set (list_grabbed_keys s') = (if r then insert k (set ks) else set ks) \<and>
         s' = s\<lparr>list_grabbed_keys := list_grabbed_keys s'\<rparr>)"
proof
  show "grabs_ok (list_grabbed_keys (GrUngrabKey c ident key s))"
    using assms ungrab_sorted by (fastforce simp: GrUngrabKey_def grabs_ok_def)
next
  let ?k = "\<lparr>g_owner = c, g_type = type, g_wid = ident, g_key = key\<rparr>"
  let ?ks = "list_grabbed_keys s"
  have front: "grabs_ok (?k # ?ks)" if "0 \<le> type" "type \<le> GR_GRAB_EXCLUSIVE_MOUSE" "\<forall>k\<in>set ?ks. g_key k = key \<longrightarrow> g_type k = GR_GRAB_HOTKEY"
    using assms that by (auto simp: grabs_ok_def)
  have hind: "grabs_ok (?ks @ [?k])" if "type = GR_GRAB_HOTKEY"
    using assms that by (auto simp: grabs_ok_def sorted_wrt_append)
  show "case GrGrabKey mem c ident key type s of (r, s') \<Rightarrow>
      let k = ?k; ks = ?ks
      in grabs_ok (list_grabbed_keys s') \<and>
         r = (0 \<le> type \<and> type \<le> GR_GRAB_EXCLUSIVE_MOUSE \<and> (k \<in> set ks \<or> mem \<and> grab_free key type ks)) \<and>
         set (list_grabbed_keys s') = (if r then insert k (set ks) else set ks) \<and>
         s' = s\<lparr>list_grabbed_keys := list_grabbed_keys s'\<rparr>"
    using assms front hind
    by (auto simp: GrGrabKey_def grab_scan_found Let_def grab_free_def)
qed

text \<open>
  C27. A key that no window grabbed exclusively: the owner of an exclusive hotkey alone gets it, if there is one; otherwise the
  owners of its hotkeys get it, in the order of their grabs, and then at most one client: the first that selected it in
  the lowest window, from the mouse window up to the focus window (or in the focus window alone, when the mouse is not
  below it), as long as every window on the way propagates it.  The call always returns, and changes nothing else
  but the screen saver.
\<close>

theorem key_delivered:
  fixes type :: key_dir and keyvalue scancode :: int and modifiers :: "32 word"
  assumes "server_tree s t" and "evq_ok (evqueues s)" and "grabs_ok (list_grabbed_keys s)"
    and "\<forall>k\<in>set (list_grabbed_keys s). g_key k = keyvalue \<longrightarrow> g_type k \<le> GR_GRAB_HOTKEY"
  defines "w \<equiv> key_window s (GR_EVENTMASK (key_type type)) t (focuswp s)"
  shows "\<exists>q. GsDeliverKeyboardEvent 0 type keyvalue modifiers scancode s = Some (s\<lparr>screensaver_active := False, evqueues := q\<rparr>) \<and>
    sent (saver_messages s @
      (case exclusive_hotkey keyvalue (list_grabbed_keys s) of
         Some k \<Rightarrow> [(g_owner k, hotkey_event s type keyvalue modifiers scancode k)]
       | None \<Rightarrow>
           map (\<lambda>k. (g_owner k, hotkey_event s type keyvalue modifiers scancode k))
             (filter (\<lambda>k. g_key k = keyvalue) (list_grabbed_keys s)) @
           (case find (selects (GR_EVENTMASK (key_type type))) (w_eventclients (win s w)) of
              None \<Rightarrow> []
            | Some ecp \<Rightarrow> [(client ecp, key_event s type keyvalue modifiers scancode (w_id (win s (key_start s t (focuswp s)))) w)])))
      (evqueues s) q"
proof -
  let ?m = "GR_EVENTMASK (key_type type)"
  let ?hot = "hotkey_event s type keyvalue modifiers scancode"
  let ?ev = "key_event s type keyvalue modifiers scancode (w_id (win s (key_start s t (focuswp s))))"
  let ?ex = "exclusive_hotkey keyvalue (list_grabbed_keys s)"
  let ?ps = "hot_messages ?hot (case ?ex of Some k \<Rightarrow> [k] | None \<Rightarrow> filter (\<lambda>k. g_key k = keyvalue) (list_grabbed_keys s))"
  have k: "focuswp s \<in> set (nodes t)" using assms(1) by (simp add: server_tree_def)
  obtain q1 where q1: "GsResetScreenSaver s = s\<lparr>screensaver_active := False, evqueues := q1\<rparr>" "sent (saver_messages s) (evqueues s) q1"
    using saver_sent [OF assms(2)] by blast
  obtain r q2 where q2: "grabbed_keys ?hot keyvalue (list_grabbed_keys s) q1 = (r, q2)"
    "r = (if ?ex \<noteq> None \<and> event_room q1 \<noteq> 0 then GrabReturn else GrabNone)" "sent ?ps q1 q2"
    using grabbed_keys_sent [OF assms(3) sent_ok [OF q1(2)] assms(4)] by blast
  let ?s2 = "s\<lparr>screensaver_active := False, evqueues := q2\<rparr>"
  have st2: "server_tree ?s2 t" using assms(1) by (simp add: server_tree_def)
  have hot: "hotkey_event (s\<lparr>screensaver_active := False, evqueues := q1\<rparr>) type keyvalue modifiers scancode = ?hot"
    by (simp add: hotkey_event_def fun_eq_iff)
  have same: "key_window ?s2 ?m t (focuswp s) = w" "key_start ?s2 t (focuswp s) = key_start s t (focuswp s)"
    "key_event ?s2 type keyvalue modifiers scancode sub = key_event s type keyvalue modifiers scancode sub"
    "key_message ?s2 ?m ?ev w = key_message s ?m ?ev w" for sub
    by (simp_all add: w_def key_window_def key_start_def key_stop_def [abs_def] stops_at_def key_event_def mouse_info_def key_message_def fun_eq_iff)
  obtain q3 where q3: "keystroke_up ?s2 ?m ?ev (focuswp s) (key_start s t (focuswp s)) q2 = Some q3" "sent (key_message s ?m ?ev w) q2 q3"
    using key_walk(2) [OF st2 k sent_ok [OF q2(3)], of ?m ?ev] same by auto
  have walk: "ancestor_until ?s2 (focuswp s) (mousewp s) =
      Some (if focuswp s \<in> set (ancestors t (mousewp s)) then focuswp s else rootwp s 0)"
    using key_walk(1) [OF st2 k sent_ok [OF q2(3)]] by simp
  have root: "focuswp s = rootwp s 0 \<Longrightarrow> focuswp s \<in> set (ancestors t (mousewp s))"
    using ancestors_server(1) [OF assms(1)] assms(1) last_in_set unfolding parent_chain_def server_tree_def by metis
  have D: "GsDeliverKeyboardEvent 0 type keyvalue modifiers scancode s =
    Some (case r of GrabReturn \<Rightarrow> ?s2 | GrabKey k \<Rightarrow> undefined | GrabNone \<Rightarrow> s\<lparr>screensaver_active := False, evqueues := q3\<rparr>)"
  proof (cases "?ex \<noteq> None \<and> event_room q1 \<noteq> 0")
    case True
    then show ?thesis using q1(1) q2(1,2) hot by (simp add: GsDeliverKeyboardEvent_def)
  next
    case False
    show ?thesis
    proof (cases "focuswp s \<in> set (ancestors t (mousewp s))")
      case True
      then show ?thesis using False q1(1) q2(1,2) q3(1) hot walk same(3)
        by (simp add: GsDeliverKeyboardEvent_def key_start_def Let_def)
    next
      case away: False
      then have "rootwp s 0 \<noteq> focuswp s" using root by auto
      then show ?thesis using away False q1(1) q2(1,2) q3(1) hot walk same(3)
        by (simp add: GsDeliverKeyboardEvent_def key_start_def Let_def)
    qed
  qed
  have full: "sent (?ps @ key_message s ?m ?ev w) q1 q3" by (rule sent_append [OF q2(3) q3(2)])
  let ?all = "case ?ex of Some k \<Rightarrow> [(g_owner k, ?hot k)] | None \<Rightarrow> ?ps @ key_message s ?m ?ev w"
  have "\<exists>q. GsDeliverKeyboardEvent 0 type keyvalue modifiers scancode s = Some (s\<lparr>screensaver_active := False, evqueues := q\<rparr>) \<and> sent ?all q1 q"
  proof (cases "?ex \<noteq> None \<and> event_room q1 \<noteq> 0")
    case True
    then show ?thesis using D q2(2,3) by (intro exI [of _ q2]) (auto simp: hot_messages_def)
  next
    case False
    have "sent ?all q1 q3"
    proof (cases ?ex)
      case None then show ?thesis using full by simp
    next
      case (Some k)
      then have "event_room q1 = 0" using False by simp
      from sent_full [OF full this] show ?thesis .
    qed
    then show ?thesis using False D q2(2) by (intro exI [of _ q3]) auto
  qed
  then obtain q where q: "GsDeliverKeyboardEvent 0 type keyvalue modifiers scancode s = Some (s\<lparr>screensaver_active := False, evqueues := q\<rparr>)"
    "sent ?all q1 q" by blast
  show ?thesis
    using q(1) sent_append [OF q1(2) q(2)]
    by (intro exI [of _ q]) (simp add: hot_messages_def key_message_def cong: option.case_cong)
qed

definition hotkey_server :: server where
  "hotkey_server = sample_server\<lparr>list_grabbed_keys := [\<lparr>g_owner = 3, g_type = GR_GRAB_HOTKEY, g_wid = 9, g_key = 65\<rparr>]\<rparr>"

lemma hotkey_server:
  "server_tree hotkey_server sample_tree" "evq_ok (evqueues hotkey_server)" "grabs_ok (list_grabbed_keys hotkey_server)"
  "event_room (evqueues hotkey_server) = 100" "pending_events (evqueues hotkey_server) c = []"
proof -
  show "server_tree hotkey_server sample_tree" using sample_server_tree by (simp add: hotkey_server_def server_tree_def)
  show "evq_ok (evqueues hotkey_server)" using coreD(2) [OF sample_core] by (simp add: hotkey_server_def)
  show "grabs_ok (list_grabbed_keys hotkey_server)" by (simp add: hotkey_server_def grabs_ok_def)
  show "event_room (evqueues hotkey_server) = 100" "pending_events (evqueues hotkey_server) c = []"
    using queues_abs(2,3) [OF initial_queues_ok [of 100]]
    by (simp_all add: hotkey_server_def sample_server_def queue_room_def initial_queues_def)
qed

theorem grab_list_invariant_witness:
  "\<not> fst (GrGrabKey True 4 9 65 GR_GRAB_EXCLUSIVE (hotkey_server\<lparr>list_grabbed_keys :=
      \<lparr>g_owner = 4, g_type = GR_GRAB_HOTKEY_EXCLUSIVE, g_wid = 9, g_key = 65\<rparr> # list_grabbed_keys hotkey_server\<rparr>))"
proof -
  let ?s = "hotkey_server\<lparr>list_grabbed_keys :=
      \<lparr>g_owner = 4, g_type = GR_GRAB_HOTKEY_EXCLUSIVE, g_wid = 9, g_key = 65\<rparr> # list_grabbed_keys hotkey_server\<rparr>"
  have "grabs_ok (list_grabbed_keys ?s)" by (simp add: hotkey_server_def grabs_ok_def)
  from grab_list_invariant [OF this, where c = 4 and ident = 9 and key = 65 and mem = True and type = GR_GRAB_EXCLUSIVE] show ?thesis
    by (auto simp: grab_free_def hotkey_server_def Let_def split: prod.splits)
qed

theorem key_delivered_witness:
  "\<exists>q. GsDeliverKeyboardEvent 0 KEY_DOWN 65 0 30 hotkey_server = Some (hotkey_server\<lparr>screensaver_active := False, evqueues := q\<rparr>) \<and>
    pending_events q 3 = [hotkey_event hotkey_server KEY_DOWN 65 0 30 \<lparr>g_owner = 3, g_type = GR_GRAB_HOTKEY, g_wid = 9, g_key = 65\<rparr>] \<and>
    pending_events q 7 = [key_event hotkey_server KEY_DOWN 65 0 30 (w_id (win hotkey_server 1)) 1]"
proof -
  let ?m = "GR_EVENTMASK (key_type KEY_DOWN)"
  have w: "mousewp hotkey_server = 1" "focuswp hotkey_server = 0" "screensaver_active hotkey_server = False"
    "w_eventclients (win hotkey_server 1) = [\<lparr>eventmask = 0xFFF, client = 7\<rparr>]"
    "list_grabbed_keys hotkey_server = [\<lparr>g_owner = 3, g_type = GR_GRAB_HOTKEY, g_wid = 9, g_key = 65\<rparr>]"
    using sample_server_win(2) by (simp_all add: hotkey_server_def) (simp_all add: sample_server_def)
  have anc: "ancestors sample_tree 1 = [1, 0]" by (simp add: ancestors_def)
  have sel: "selects ?m \<lparr>eventmask = 0xFFF, client = 7\<rparr>" by (simp add: selects_def GR_EVENTMASK_def)
  have st: "key_start hotkey_server sample_tree 0 = 1" using anc w(1) by (simp add: key_start_def)
  have kw: "key_window hotkey_server ?m sample_tree 0 = 1"
    using st anc sel w(4) by (simp add: key_window_def key_stop_def del: One_nat_def)
  let ?k = "\<lparr>g_owner = 3, g_type = GR_GRAB_HOTKEY, g_wid = 9, g_key = 65\<rparr>"
  let ?ps = "[(3, hotkey_event hotkey_server KEY_DOWN 65 0 30 ?k), (7, key_event hotkey_server KEY_DOWN 65 0 30 (w_id (win hotkey_server 1)) 1)]"
  obtain q where q: "GsDeliverKeyboardEvent 0 KEY_DOWN 65 0 30 hotkey_server = Some (hotkey_server\<lparr>screensaver_active := False, evqueues := q\<rparr>)"
    "sent ?ps (evqueues hotkey_server) q"
    using key_delivered [OF hotkey_server(1,2,3), of 65 KEY_DOWN 0 30] w st kw sel
    by (auto simp: exclusive_hotkey_def saver_messages_def simp del: One_nat_def)
  then show ?thesis using sent_all [OF q(2)] hotkey_server(4,5) by auto
qed

end
