(* ===== verification/Wop_Model.thy ===== *)
theory Wop_Model
  imports Dlv_Model Draw_Model
begin

text \<open>
  The operations on windows: drawing of backgrounds and borders, exposure, realizing and unrealizing
  (\<open>nanox/srvutil.c\<close>), and the calls of the clients that create, map, raise, lower, move, resize, reparent and destroy windows
  (\<open>nanox/srvfunc.c\<close>).

  \<^item> The recursive functions walk along \<open>children\<close> and \<open>siblings\<close>.  Each is one \<open>partial_function\<close> with a flag: it treats one
    window, or (\<open>later\<close>) this window and its later siblings, the loop over the children.
  \<^item> \<open>NANOX_MALLOC\<close> for a window takes the first element of \<open>free_windows\<close>, \<open>NANOX_FREE\<close> puts it back.
  \<^item> The screen devices of the layers are not distinguished; \<open>beyond\<close> is the parameter of \<open>GsSetClipWindow\<close>.
  \<^item> Where the code adds coordinates without \<open>SAFE_PLUS\<close> (the places in \<open>NewWindow\<close> and \<open>GrReparentWindow\<close>) the sums are
    unbounded integers; in C they must fit in an \<open>int\<close>.
\<close>

abbreviation (input) GR_WM_PROPS_NOBACKGROUND :: "32 word" where "GR_WM_PROPS_NOBACKGROUND \<equiv> 0x00000001"
abbreviation (input) GR_BACKGROUND_CENTER :: "32 word" where "GR_BACKGROUND_CENTER \<equiv> 1"
abbreviation (input) GR_BACKGROUND_TOPLEFT :: "32 word" where "GR_BACKGROUND_TOPLEFT \<equiv> 2"
abbreviation (input) GR_BACKGROUND_STRETCH :: "32 word" where "GR_BACKGROUND_STRETCH \<equiv> 4"
abbreviation (input) GR_BACKGROUND_TRANS :: "32 word" where "GR_BACKGROUND_TRANS \<equiv> 8"
abbreviation (input) GR_UPDATE_MAP :: int where "GR_UPDATE_MAP \<equiv> 1"
abbreviation (input) GR_UPDATE_UNMAP :: int where "GR_UPDATE_UNMAP \<equiv> 2"
abbreviation (input) GR_UPDATE_MOVE :: int where "GR_UPDATE_MOVE \<equiv> 3"
abbreviation (input) GR_UPDATE_SIZE :: int where "GR_UPDATE_SIZE \<equiv> 4"
abbreviation (input) GR_UPDATE_UNMAPTEMP :: int where "GR_UPDATE_UNMAPTEMP \<equiv> 5"
abbreviation (input) GR_UPDATE_DESTROY :: int where "GR_UPDATE_DESTROY \<equiv> 7"
abbreviation (input) GR_UPDATE_REPARENT :: int where "GR_UPDATE_REPARENT \<equiv> 8"
abbreviation (input) GR_ERROR_BAD_WINDOW_ID :: int where "GR_ERROR_BAD_WINDOW_ID \<equiv> 1"
abbreviation (input) GR_ERROR_BAD_WINDOW_SIZE :: int where "GR_ERROR_BAD_WINDOW_SIZE \<equiv> 5"
abbreviation (input) GR_ERROR_INPUT_ONLY_WINDOW :: int where "GR_ERROR_INPUT_ONLY_WINDOW \<equiv> 8"
abbreviation (input) GR_ERROR_ILLEGAL_ON_ROOT_WINDOW :: int where "GR_ERROR_ILLEGAL_ON_ROOT_WINDOW \<equiv> 9"
abbreviation (input) GR_ERROR_UNMAPPED_FOCUS_WINDOW :: int where "GR_ERROR_UNMAPPED_FOCUS_WINDOW \<equiv> 12"

definition engine :: "engine_call list \<Rightarrow> server \<Rightarrow> server" where
  "engine cs s = s\<lparr>engine_calls := engine_calls s @ cs\<rparr>"

definition add_draws :: "draw_call list \<Rightarrow> server \<Rightarrow> server" where
  "add_draws ds s = engine (map (CallDraw (clip_state.clipregion (eng_clip s))) ds) s"

definition server_error :: "int \<Rightarrow> GR_WINDOW_ID \<Rightarrow> server \<Rightarrow> server option" where
  "server_error code ident s = map_option (\<lambda>q. s\<lparr>evqueues := q\<rparr>) (GsError code ident (evqueues s))"

definition upd_win :: "win_ptr \<Rightarrow> (gr_window \<Rightarrow> gr_window) \<Rightarrow> server \<Rightarrow> server" where
  "upd_win wp f s = s\<lparr>win := (win s)(wp := f (win s wp))\<rparr>"

section \<open>Backgrounds and borders\<close>

text \<open>The values of a loop counter, \<open>for (; from < limit; from += step)\<close>.\<close>

function counts :: "int \<Rightarrow> int \<Rightarrow> int \<Rightarrow> int list" where
  "counts from step limit = (if from < limit \<and> 0 < step then from # counts (from + step) step limit else [])"
  by pat_completeness auto
termination by (relation "measure (\<lambda>(from, step, limit). nat (limit - from))") auto

declare counts.simps [simp del]

text \<open>
  The body of the two loops over the tiles: one dimension of a tile gives its source and destination and the size.  The flag is set for the
  second dimension, where the test of the size against the area tests the width instead.
\<close>

definition tile_range ::
  "bool \<Rightarrow> MWCOORD \<Rightarrow> MWCOORD \<Rightarrow> MWCOORD \<Rightarrow> MWCOORD \<Rightarrow> MWCOORD \<Rightarrow> MWCOORD \<times> MWCOORD \<times> MWCOORD" where
  "tile_range second wx tile dest a len =
    (if tile \<ge> a \<and> tile + dest \<le> a + len then (0, tile + wx, dest)
     else
       let (from, c) = (if a > tile then (a - tile, dest - (a - tile)) else (0, a + len - tile));
           c = (if \<not> second \<and> c > len then len else c);
           c = (if c > dest then dest else c)
       in (from, wx + tile + from, c))"

definition tile_draw ::
  "gr_window \<Rightarrow> pixmap_ptr \<Rightarrow> MWCOORD \<Rightarrow> MWCOORD \<Rightarrow> MWCOORD \<Rightarrow> MWCOORD \<Rightarrow> MWCOORD \<Rightarrow> MWCOORD \<Rightarrow> MWCOORD \<Rightarrow> MWCOORD \<Rightarrow>
   draw_call list" where
  "tile_draw w pm pmwidth pmheight x y width height tilex tiley =
    (if tilex > x + width \<or> x > tilex + pmwidth then []
     else
       let destwidth = (if tilex + pmwidth > w_width w then w_width w - tilex else pmwidth);
           destheight = (if tiley + pmheight > w_height w then w_height w - tiley else pmheight);
           (fromx, cx, cwidth) = tile_range False (w_x w) tilex destwidth x width;
           (fromy, cy, cheight) = tile_range True (w_y w) tiley destheight y height;
           cwidth = (if \<not> (tiley \<ge> y \<and> tiley + destheight \<le> y + height) \<and> cwidth > width then width else cwidth)
       in if cwidth > 0 \<and> cheight > 0 then [DrawBlit cx cy cwidth cheight pm fromx fromy] else [])"

text \<open>The value \<open>None\<close> is a loop that never ends: a step of zero.\<close>

definition GsWpTileBackgroundPixmap ::
  "gr_window \<Rightarrow> gr_pixmap \<Rightarrow> pixmap_ptr \<Rightarrow> MWCOORD \<Rightarrow> MWCOORD \<Rightarrow> MWCOORD \<Rightarrow> MWCOORD \<Rightarrow> draw_call list option" where
  "GsWpTileBackgroundPixmap w p pm x y width height =
    (let pmwidth = (if p_width p > w_width w then w_width w else p_width p);
         pmheight = (if p_height p > w_height w then w_height w else p_height p)
     in if pmheight \<le> 0 \<and> 0 < w_height w \<or> pmwidth \<le> 0 \<and> 0 < w_width w \<and> 0 < w_height w then None
     else Some (concat (map (\<lambda>tiley.
       if tiley > y + height \<or> y > tiley + pmheight then []
       else concat (map (\<lambda>tilex. tile_draw w pm pmwidth pmheight x y width height tilex tiley) (counts 0 pmwidth (w_width w))))
       (counts 0 pmheight (w_height w)))))"

text \<open>The gaps around a pixmap at one place.\<close>

definition background_gaps ::
  "gr_window \<Rightarrow> MWCOORD \<Rightarrow> MWCOORD \<Rightarrow> MWCOORD \<Rightarrow> MWCOORD \<Rightarrow> MWCOORD \<Rightarrow> MWCOORD \<Rightarrow> MWCOORD \<Rightarrow> MWCOORD \<Rightarrow> draw_call list" where
  "background_gaps w pixmapx pixmapy pmwidth pmheight x y width height =
    (let left = (if x < pixmapx then [DrawFillRect (w_x w + x) (w_y w + y) (min (pixmapx - x) width) height] else []);
         right = (if x + width > pixmapx + pmwidth
           then [DrawFillRect (if x < pixmapx + pmwidth then pixmapx + pmwidth + w_x w else x + w_x w) (w_y w + y)
                   (min (x + width - (pixmapx + pmwidth)) width) height] else []);
         destx = (if x < pixmapx then pixmapx + w_x w else x + w_x w);
         fillwidth = (if x + width > pixmapx + pmwidth then pixmapx + pmwidth - destx else x + width - destx);
         above = (if y < pixmapy \<and> fillwidth > 0 \<and> min (pixmapy - y) height > 0
           then [DrawFillRect destx (w_y w + y) fillwidth (min (pixmapy - y) height)] else []);
         below = (if y + height > pixmapy + pmheight \<and> fillwidth > 0 \<and> min (y + height - (pixmapy + pmheight)) height > 0
           then [DrawFillRect destx (if y < pixmapy + pmheight then pixmapy + pmheight + w_y w else y + w_y w) fillwidth
                   (min (y + height - (pixmapy + pmheight)) height)] else [])
     in left @ right @ above @ below)"

definition GsWpDrawBackgroundPixmap ::
  "gr_window \<Rightarrow> gr_pixmap \<Rightarrow> pixmap_ptr \<Rightarrow> MWCOORD \<Rightarrow> MWCOORD \<Rightarrow> MWCOORD \<Rightarrow> MWCOORD \<Rightarrow> draw_call list option" where
  "GsWpDrawBackgroundPixmap w p pm x y width height =
    (let flags = w_bgpixmapflags w
     in if flags AND (GR_BACKGROUND_TOPLEFT OR GR_BACKGROUND_STRETCH) = 0 \<and> flags AND GR_BACKGROUND_CENTER = 0
     then GsWpTileBackgroundPixmap w p pm x y width height
     else
       let center = (flags AND (GR_BACKGROUND_TOPLEFT OR GR_BACKGROUND_STRETCH) = 0);
           pixmapx = (if center \<and> p_width p < w_width w then (w_width w - p_width p) div 2 else 0);
           pixmapy = (if center \<and> p_height p < w_height w then (w_height w - p_height p) div 2 else 0);
           pmwidth = (if p_width p > w_width w then w_width w else p_width p);
           pmheight = (if p_height p > w_height w then w_height w else p_height p);
           (destx, fromx, destwidth) = (if x > pixmapx then (x, x - pixmapx, pixmapx + pmwidth - x) else (pixmapx, 0, x + width - pixmapx));
           (desty, fromy, destheight) = (if y > pixmapy then (y, y - pixmapy, pixmapy + pmheight - y) else (pixmapy, 0, y + height - pixmapy));
           image = (if destwidth > 0 \<and> destheight > 0 then
               [if flags AND GR_BACKGROUND_STRETCH \<noteq> 0
                then DrawStretchBlit (destx + w_x w) (desty + w_y w) destwidth destheight pm fromx fromy (p_width p) (p_height p)
                else DrawBlit (destx + w_x w) (desty + w_y w) destwidth destheight pm fromx fromy] else [])
       in Some (image @
            (if flags AND (GR_BACKGROUND_TRANS OR GR_BACKGROUND_STRETCH) \<noteq> 0 then []
             else background_gaps w pixmapx pixmapy pmwidth pmheight x y width height)))"


definition GsWpClearWindow ::
  "MWCOORD \<Rightarrow> win_ptr \<Rightarrow> MWCOORD \<Rightarrow> MWCOORD \<Rightarrow> MWCOORD \<Rightarrow> MWCOORD \<Rightarrow> bool \<Rightarrow> server \<Rightarrow> server option" where
  "GsWpClearWindow beyond wp x y width height exposeflag s =
    (let w = win s wp
     in if \<not> w_realized w \<or> \<not> w_output w then Some s
     else
       let (x, width) = (if x < 0 then (0, width + x) else (x, width));
           (y, height) = (if y < 0 then (0, height + y) else (y, height));
           width = (if x + width > w_width w then w_width w - x else width);
           height = (if y + height > w_height w then w_height w - y else height)
       in if x \<ge> w_width w \<or> y \<ge> w_height w \<or> width \<le> 0 \<or> height \<le> 0 then Some s
       else do {
         s \<leftarrow> GsSetClipWindow beyond wp None False s;
         let s = engine [CallSetFillMode 0] (s\<lparr>curgcp := None\<rparr>);
         s \<leftarrow> (if w_props w AND GR_WM_PROPS_NOBACKGROUND \<noteq> 0 then Some s
            else do {
              let s = engine [CallSetMode 0, CallSetForegroundColor (w_background w)] s;
              ds \<leftarrow> (case w_bgpixmap w of
                  Some pm \<Rightarrow> GsWpDrawBackgroundPixmap w (pixmaps s pm) pm x y width height
                | None \<Rightarrow> Some [DrawFillRect (w_x w + x) (w_y w + y) width height]);
              Some (add_draws ds s)
            });
         if exposeflag then GsDeliverExposureEvent wp x y width height s else Some s
       })"

definition border_draws :: "gr_window \<Rightarrow> draw_call list" where
  "border_draws w =
    (let bs = w_bordersize w; width = w_width w; height = w_height w;
         lminx = w_x w - bs; rminx = w_x w + width; tminy = w_y w - bs; bminy = w_y w + height;
         topy = w_y w; boty = bminy - 1
     in if bs = 1 then
          [DrawLine lminx tminy rminx tminy True, DrawLine lminx bminy rminx bminy True,
           DrawLine lminx topy lminx boty True, DrawLine rminx topy rminx boty True]
        else
          [DrawFillRect lminx tminy (width + bs * 2) bs, DrawFillRect lminx bminy (width + bs * 2) bs,
           DrawFillRect lminx topy bs height, DrawFillRect rminx topy bs height])"

definition grow_window :: "gr_window \<Rightarrow> gr_window" where
  "grow_window w =
    (let bs = w_bordersize w
     in w\<lparr>w_x := w_x w - bs, w_y := w_y w - bs, w_width := w_width w + bs * 2, w_height := w_height w + bs * 2,
          w_bordersize := 0\<rparr>)"

definition shrink_window :: "MWCOORD \<Rightarrow> gr_window \<Rightarrow> gr_window" where
  "shrink_window bs w =
    w\<lparr>w_x := w_x w + bs, w_y := w_y w + bs, w_width := w_width w - bs * 2, w_height := w_height w - bs * 2,
      w_bordersize := bs\<rparr>"

definition GsDrawBorder :: "MWCOORD \<Rightarrow> win_ptr \<Rightarrow> server \<Rightarrow> server option" where
  "GsDrawBorder beyond wp s =
    (let w = win s wp; bs = w_bordersize w
     in if bs \<le> 0 then Some s
     else do {
       let s = (upd_win wp grow_window s)\<lparr>clipwp := None\<rparr>;
       s \<leftarrow> GsSetClipWindow beyond wp None False s;
       let s = add_draws (border_draws w)
         (engine [CallSetMode 0, CallSetForegroundColor (w_bordercolor w), CallSetDash None, CallSetFillMode 0] (s\<lparr>curgcp := None\<rparr>));
       Some ((upd_win wp (shrink_window bs) s)\<lparr>clipwp := None\<rparr>)
     })"

text \<open>The body of \<open>GsExposeArea\<close> before the loop over the children; the flag says whether the area reaches the window.\<close>

definition expose_reaches :: "gr_window \<Rightarrow> MWCOORD \<Rightarrow> MWCOORD \<Rightarrow> MWCOORD \<Rightarrow> MWCOORD \<Rightarrow> bool" where
  "expose_reaches w rootx rooty width height \<longleftrightarrow>
    \<not> (rootx \<ge> w_x w + w_width w + w_bordersize w \<or> rooty \<ge> w_y w + w_height w + w_bordersize w \<or>
       rootx + width \<le> w_x w - w_bordersize w \<or> rooty + height \<le> w_y w - w_bordersize w)"

definition expose_window :: "MWCOORD \<Rightarrow> win_ptr \<Rightarrow> MWCOORD \<Rightarrow> MWCOORD \<Rightarrow> MWCOORD \<Rightarrow> MWCOORD \<Rightarrow> server \<Rightarrow> server option" where
  "expose_window beyond wp rootx rooty width height s =
    (let w = win s wp
     in do {
       s \<leftarrow> (if rootx < w_x w \<or> rooty < w_y w \<or> rootx + width > w_x w + w_width w \<or> rooty + height > w_y w + w_height w
              then GsDrawBorder beyond wp s else Some s);
       GsWpClearWindow beyond wp (rootx - w_x (win s wp)) (rooty - w_y (win s wp)) width height True s
     })"

partial_function (option) expose_windows ::
  "MWCOORD \<Rightarrow> MWCOORD \<Rightarrow> MWCOORD \<Rightarrow> MWCOORD \<Rightarrow> MWCOORD \<Rightarrow> win_ptr option \<Rightarrow> bool \<Rightarrow> win_ptr option \<Rightarrow> server \<Rightarrow> server option" where
  "expose_windows beyond rootx rooty width height stopwp later wp s =
    (if wp = None then Some s
     else Option.bind
       (if \<not> w_realized (win s (the wp)) \<or> wp = stopwp \<or> \<not> w_output (win s (the wp)) \<or>
           \<not> expose_reaches (win s (the wp)) rootx rooty width height then Some s
        else Option.bind (expose_window beyond (the wp) rootx rooty width height s) (\<lambda>s.
          expose_windows beyond rootx rooty width height stopwp True (w_children (win s (the wp))) s))
       (\<lambda>s. if later then expose_windows beyond rootx rooty width height stopwp True (w_siblings (win s (the wp))) s else Some s))"

definition GsExposeArea ::
  "MWCOORD \<Rightarrow> win_ptr \<Rightarrow> MWCOORD \<Rightarrow> MWCOORD \<Rightarrow> MWCOORD \<Rightarrow> MWCOORD \<Rightarrow> win_ptr option \<Rightarrow> server \<Rightarrow> server option" where
  "GsExposeArea beyond wp rootx rooty width height stopwp s = expose_windows beyond rootx rooty width height stopwp False (Some wp) s"

section \<open>Realizing and unrealizing\<close>

text \<open>The loop \<open>while (sibwp->siblings)\<close> of \<open>GsWpUnrealizeWindow\<close>.\<close>

partial_function (option) expose_lower ::
  "MWCOORD \<Rightarrow> MWCOORD \<Rightarrow> MWCOORD \<Rightarrow> MWCOORD \<Rightarrow> MWCOORD \<Rightarrow> win_ptr option \<Rightarrow> server \<Rightarrow> server option" where
  "expose_lower beyond x y width height sibwp s =
    (if sibwp = None then Some s
     else Option.bind (GsExposeArea beyond (the sibwp) x y width height None s) (\<lambda>s.
       expose_lower beyond x y width height (w_siblings (win s (the sibwp))) s))"

text \<open>What is done after the children are unrealized; first the end, which clears and redraws what the window covered.\<close>

definition uncover :: "MWCOORD \<Rightarrow> win_ptr \<Rightarrow> server \<Rightarrow> server option" where
  "uncover beyond wp s =
    (let w = win s wp; bs = w_bordersize w
     in case w_parent w of
         None \<Rightarrow> None
       | Some pwp \<Rightarrow>
           if \<not> w_realized (win s pwp) \<or> \<not> w_output w then Some s
           else do {
             s \<leftarrow> GsWpClearWindow beyond pwp (w_x w - w_x (win s pwp) - bs) (w_y w - w_y (win s pwp) - bs)
                   (w_width w + bs * 2) (w_height w + bs * 2) True s;
             expose_lower beyond (w_x w - bs) (w_y w - bs) (w_width w + bs * 2) (w_height w + bs * 2) (w_siblings (win s wp)) s
           })"

definition unrealize_rest :: "MWCOORD \<Rightarrow> bool \<Rightarrow> win_ptr \<Rightarrow> server \<Rightarrow> server option" where
  "unrealize_rest beyond temp_unmap wp s =
    do {
      s \<leftarrow> (if \<not> temp_unmap \<and> wp = mousewp s then map_option GsCheckCursor (GsCheckMouseWindow s) else Some s);
      s \<leftarrow> (if \<not> temp_unmap \<and> wp = focuswp s
            then (if focusfixed s then Some (s\<lparr>focuswp := rootwp s (w_layer (win s wp))\<rparr>)
                  else GsCheckFocusWindow (s\<lparr>focusfixed := False\<rparr>))
            else Some s);
      uncover beyond wp (GsDeliverUpdateEvent wp (if temp_unmap then GR_UPDATE_UNMAPTEMP else GR_UPDATE_UNMAP) 0 0 0 0 s)
    }"

partial_function (option) unrealize_windows ::
  "MWCOORD \<Rightarrow> bool \<Rightarrow> bool \<Rightarrow> win_ptr option \<Rightarrow> server \<Rightarrow> server option" where
  "unrealize_windows beyond temp_unmap later wp s =
    (if wp = None then Some s
     else Option.bind
       (if the wp = rootwp s (w_layer (win s (the wp)))
        then server_error GR_ERROR_ILLEGAL_ON_ROOT_WINDOW (w_id (win s (the wp))) s
        else if \<not> w_realized (win s (the wp)) then Some (if wp = clipwp s then s\<lparr>clipwp := None\<rparr> else s)
        else Option.bind
          (unrealize_windows beyond temp_unmap True (w_children (win s (the wp)))
            (upd_win (the wp) (\<lambda>w. w\<lparr>w_realized := False\<rparr>) (if wp = clipwp s then s\<lparr>clipwp := None\<rparr> else s)))
          (unrealize_rest beyond temp_unmap (the wp)))
       (\<lambda>s. if later then unrealize_windows beyond temp_unmap True (w_siblings (win s (the wp))) s else Some s))"

definition GsWpUnrealizeWindow :: "MWCOORD \<Rightarrow> win_ptr \<Rightarrow> bool \<Rightarrow> server \<Rightarrow> server option" where
  "GsWpUnrealizeWindow beyond wp temp_unmap s = unrealize_windows beyond temp_unmap False (Some wp) s"

text \<open>The part of \<open>GsWpRealizeWindow\<close> between the tests and the loop over the children.\<close>

definition realize_shown :: "MWCOORD \<Rightarrow> bool \<Rightarrow> win_ptr \<Rightarrow> server \<Rightarrow> server option" where
  "realize_shown beyond temp wp s =
    do {
      let s = upd_win wp (\<lambda>w. w\<lparr>w_realized := True\<rparr>) s;
      s \<leftarrow> (if temp then Some s
            else do { s \<leftarrow> GsCheckMouseWindow s; s \<leftarrow> GsCheckFocusWindow s; Some (GsCheckCursor s) });
      (if w_output (win s wp)
       then do { s \<leftarrow> GsDrawBorder beyond wp s;
                 GsWpClearWindow beyond wp 0 0 (w_width (win s wp)) (w_height (win s wp)) True s }
       else Some s)
    }"

partial_function (option) realize_windows ::
  "MWCOORD \<Rightarrow> bool \<Rightarrow> bool \<Rightarrow> win_ptr option \<Rightarrow> server \<Rightarrow> server option" where
  "realize_windows beyond temp later wp s =
    (if wp = None then Some s
     else Option.bind
       (if the wp = rootwp s (w_layer (win s (the wp)))
        then server_error GR_ERROR_ILLEGAL_ON_ROOT_WINDOW (w_id (win s (the wp))) s
        else if w_realized (win s (the wp)) then Some s
        else Option.bind
          (Some (if temp then s
            else GsDeliverUpdateEvent (the wp) GR_UPDATE_MAP (w_x (win s (the wp))) (w_y (win s (the wp)))
              (w_width (win s (the wp))) (w_height (win s (the wp))) s)) (\<lambda>s.
          if \<not> w_mapped (win s (the wp)) then Some s
          else if w_parent (win s (the wp)) = None then None
          else if \<not> w_realized (win s (the (w_parent (win s (the wp))))) then Some s
          else Option.bind (realize_shown beyond temp (the wp) s) (\<lambda>s.
            realize_windows beyond temp True (w_children (win s (the wp))) s)))
       (\<lambda>s. if later then realize_windows beyond temp True (w_siblings (win s (the wp))) s else Some s))"

definition GsWpRealizeWindow :: "MWCOORD \<Rightarrow> win_ptr \<Rightarrow> bool \<Rightarrow> server \<Rightarrow> server option" where
  "GsWpRealizeWindow beyond wp temp s = realize_windows beyond temp False (Some wp) s"


definition GsRedrawScreen :: "MWCOORD \<Rightarrow> nat \<Rightarrow> server \<Rightarrow> server option" where
  "GsRedrawScreen beyond layer s =
    (let r = win s (rootwp s layer) in GsExposeArea beyond (rootwp s layer) 0 0 (w_width r) (w_height r) None s)"

section \<open>Destroying\<close>

definition GsDeliverSelectionChangedEvent :: "GR_WINDOW_ID \<Rightarrow> GR_WINDOW_ID \<Rightarrow> server \<Rightarrow> server option" where
  "GsDeliverSelectionChangedEvent old_owner new_owner s =
    Option.bind (GsFindWindow old_owner s) (\<lambda>(r, s).
      case r of
        None \<Rightarrow> Some s
      | Some wp \<Rightarrow> Some (s\<lparr>evqueues := deliver_to (GR_EVENTMASK 20) (EVENT_SELECTION_CHANGED new_owner)
          (w_eventclients (win s wp)) (evqueues s)\<rparr>))"

text \<open>The element before a given one: \<open>while (prevwp->siblings != wp) prevwp = prevwp->siblings;\<close>\<close>

partial_function (option) before :: "(win_ptr \<Rightarrow> win_ptr option) \<Rightarrow> win_ptr \<Rightarrow> win_ptr \<Rightarrow> win_ptr option" where
  "before nx p target =
    (if nx p = Some target then Some p else if nx p = None then None else before nx (the (nx p)) target)"

definition unlink_sibling :: "win_ptr \<Rightarrow> server \<Rightarrow> server option" where
  "unlink_sibling wp s =
    (case w_parent (win s wp) of
       None \<Rightarrow> None
     | Some p \<Rightarrow>
         if w_children (win s p) = Some wp then Some (upd_win p (\<lambda>w. w\<lparr>w_children := w_siblings (win s wp)\<rparr>) s)
         else Option.bind (w_children (win s p)) (\<lambda>first.
           Option.bind (before (\<lambda>q. w_siblings (win s q)) first wp) (\<lambda>prev.
             Some (upd_win prev (\<lambda>w. w\<lparr>w_siblings := w_siblings (win s wp)\<rparr>) s))))"

definition unlink_window :: "nat \<Rightarrow> win_ptr \<Rightarrow> server \<Rightarrow> server option" where
  "unlink_window layer wp s =
    (if listwp s layer = Some wp then Some (s\<lparr>listwp := (listwp s)(layer := w_next (win s wp))\<rparr>)
     else Option.bind (listwp s layer) (\<lambda>first.
       Option.bind (before (\<lambda>q. w_next (win s q)) first wp) (\<lambda>prev.
         Some (upd_win prev (\<lambda>w. w\<lparr>w_next := w_next (win s wp)\<rparr>) s))))"

text \<open>The steps of \<open>GsWpDestroyWindow\<close> before and after the loop over the children.\<close>

definition destroy_start :: "MWCOORD \<Rightarrow> win_ptr \<Rightarrow> server \<Rightarrow> server option" where
  "destroy_start beyond wp s =
    do {
      s \<leftarrow> (if selection_wid s = w_id (win s wp)
            then GsDeliverSelectionChangedEvent (selection_wid s) 0 (s\<lparr>selection_wid := 0\<rparr>) else Some s);
      s \<leftarrow> (if w_realized (win s wp) then GsWpUnrealizeWindow beyond wp False s else Some s);
      Some (GsDeliverUpdateEvent wp GR_UPDATE_DESTROY (w_x (win s wp)) (w_y (win s wp)) (w_width (win s wp)) (w_height (win s wp)) s)
    }"

definition forget_window :: "nat \<Rightarrow> win_ptr \<Rightarrow> server \<Rightarrow> server" where
  "forget_window layer wp s =
    (let s = (if Some wp = clipwp s then s\<lparr>clipwp := None\<rparr> else s);
         s = (if Some wp = grabbuttonwp s then s\<lparr>grabbuttonwp := None\<rparr> else s);
         s = (if Some wp = cachewp s then s\<lparr>cachewindowid := 0, cachewp := None\<rparr> else s)
     in if wp = focuswp s then s\<lparr>focuswp := rootwp s layer\<rparr> else s)"

definition destroy_end :: "nat \<Rightarrow> win_ptr \<Rightarrow> server \<Rightarrow> server option" where
  "destroy_end layer wp s =
    do {
      let s = upd_win wp (\<lambda>w. w\<lparr>w_eventclients := []\<rparr>) s;
      s \<leftarrow> unlink_sibling wp s;
      let s = upd_win wp (\<lambda>w. w\<lparr>w_siblings := None\<rparr>) s;
      s \<leftarrow> unlink_window layer wp s;
      let s = upd_win wp (\<lambda>w. w\<lparr>w_next := None\<rparr>) s;
      s \<leftarrow> GsCheckMouseWindow (forget_window layer wp s);
      Some (s\<lparr>list_grabbed_keys := filter (\<lambda>k. g_wid k \<noteq> w_id (win s wp)) (list_grabbed_keys s),
              free_windows := wp # free_windows s\<rparr>)
    }"

text \<open>With \<open>loop\<close> this is the loop \<open>while (wp->children) GsWpDestroyWindow(wp->children)\<close>.\<close>

partial_function (option) destroy_windows :: "MWCOORD \<Rightarrow> bool \<Rightarrow> win_ptr \<Rightarrow> server \<Rightarrow> server option" where
  "destroy_windows beyond loop wp s =
    (if loop then
       (if w_children (win s wp) = None then Some s
        else Option.bind (destroy_windows beyond False (the (w_children (win s wp))) s) (destroy_windows beyond True wp))
     else if wp = rootwp s (w_layer (win s wp)) then server_error GR_ERROR_ILLEGAL_ON_ROOT_WINDOW (w_id (win s wp)) s
     else Option.bind (destroy_start beyond wp s) (\<lambda>s1.
       Option.bind (destroy_windows beyond True wp s1) (destroy_end (w_layer (win s wp)) wp)))"

definition GsWpDestroyWindow :: "MWCOORD \<Rightarrow> win_ptr \<Rightarrow> server \<Rightarrow> server option" where
  "GsWpDestroyWindow beyond wp s = destroy_windows beyond False wp s"

text \<open>Pixmaps.\<close>

partial_function (option) find_pixmap :: "(pixmap_ptr \<Rightarrow> gr_pixmap) \<Rightarrow> GR_WINDOW_ID \<Rightarrow> pixmap_ptr option \<Rightarrow> pixmap_ptr option option" where
  "find_pixmap P ident pp =
    (if pp = None then Some None
     else if p_id (P (the pp)) = ident then Some pp
     else find_pixmap P ident (p_next (P (the pp))))"

definition GsFindPixmap :: "GR_WINDOW_ID \<Rightarrow> server \<Rightarrow> (pixmap_ptr option \<times> server) option" where
  "GsFindPixmap ident s =
    (if ident = cachepixmapid s \<and> ident \<noteq> 0 then Some (cachepp s, s)
     else Option.bind (find_pixmap (pixmaps s) ident (listpp s)) (\<lambda>r.
       Some (case r of None \<Rightarrow> (None, s) | Some pp \<Rightarrow> (Some pp, s\<lparr>cachepixmapid := ident, cachepp := Some pp\<rparr>))))"

definition destroy_pixmap :: "pixmap_ptr \<Rightarrow> server \<Rightarrow> server option" where
  "destroy_pixmap pp s =
    do {
      s \<leftarrow> (if listpp s = Some pp then Some (s\<lparr>listpp := p_next (pixmaps s pp)\<rparr>)
            else do {
              first \<leftarrow> listpp s;
              prev \<leftarrow> before (\<lambda>q. p_next (pixmaps s q)) first pp;
              Some (s\<lparr>pixmaps := (pixmaps s)(prev := (pixmaps s prev)\<lparr>p_next := p_next (pixmaps s pp)\<rparr>)\<rparr>)
            });
      Some (if Some pp = cachepp s then s\<lparr>cachepixmapid := 0, cachepp := None\<rparr> else s)
    }"

definition GrDestroyWindow :: "MWCOORD \<Rightarrow> GR_WINDOW_ID \<Rightarrow> server \<Rightarrow> server option" where
  "GrDestroyWindow beyond wid s =
    Option.bind (GsFindWindow wid s) (\<lambda>(r, s).
      case r of
        Some wp \<Rightarrow> GsWpDestroyWindow beyond wp s
      | None \<Rightarrow> Option.bind (GsFindPixmap wid s) (\<lambda>(r, s).
          case r of None \<Rightarrow> Some s | Some pp \<Rightarrow> destroy_pixmap pp s))"

section \<open>The order of windows\<close>

text \<open>The walk of \<open>GrRaiseWindow\<close>: the sibling just before the window, and whether one of the earlier ones overlaps it.\<close>

partial_function (option) overlap_before ::
  "(win_ptr \<Rightarrow> gr_window) \<Rightarrow> win_ptr \<Rightarrow> win_ptr \<Rightarrow> bool \<Rightarrow> (win_ptr \<times> bool) option" where
  "overlap_before W prevwp wp overlap =
    (if w_siblings (W prevwp) = Some wp then Some (prevwp, overlap \<or> GsCheckOverlap (W prevwp) (W wp))
     else if w_siblings (W prevwp) = None then None
     else overlap_before W (the (w_siblings (W prevwp))) wp (overlap \<or> GsCheckOverlap (W prevwp) (W wp)))"

definition GrRaiseWindow :: "MWCOORD \<Rightarrow> GR_WINDOW_ID \<Rightarrow> server \<Rightarrow> server option" where
  "GrRaiseWindow beyond wid s =
    Option.bind (GsFindWindow wid s) (\<lambda>(r, s).
      case r of
        None \<Rightarrow> Some s
      | Some wp \<Rightarrow>
          if wp = rootwp s (w_layer (win s wp)) then Some s
          else do {
            p \<leftarrow> w_parent (win s wp);
            first \<leftarrow> w_children (win s p);
            if first = wp then Some s
            else do {
              (prevwp, overlap) \<leftarrow> overlap_before (win s) first wp False;
              let s = upd_win prevwp (\<lambda>w. w\<lparr>w_siblings := w_siblings (win s wp)\<rparr>) s;
              let s = upd_win wp (\<lambda>w. w\<lparr>w_siblings := w_children (win s p)\<rparr>) s;
              let s = upd_win p (\<lambda>w. w\<lparr>w_children := Some wp\<rparr>) s;
              if overlap
              then Option.bind (GsDrawBorder beyond wp s) (\<lambda>s.
                let w = win s wp in GsExposeArea beyond wp (w_x w) (w_y w) (w_width w) (w_height w) None s)
              else Some s
            }
          })"

partial_function (option) last_sibling :: "(win_ptr \<Rightarrow> gr_window) \<Rightarrow> win_ptr \<Rightarrow> win_ptr option" where
  "last_sibling W wp =
    (if w_siblings (W wp) = None then Some wp else last_sibling W (the (w_siblings (W wp))))"

partial_function (option) expose_covered :: "MWCOORD \<Rightarrow> win_ptr \<Rightarrow> win_ptr option \<Rightarrow> server \<Rightarrow> server option" where
  "expose_covered beyond wp expwp s =
    (if expwp = None \<or> expwp = Some wp then Some s
     else Option.bind
       (if GsCheckOverlap (win s wp) (win s (the expwp))
        then GsExposeArea beyond (the expwp) (w_x (win s wp) - w_bordersize (win s wp)) (w_y (win s wp) - w_bordersize (win s wp))
          (w_width (win s wp) + w_bordersize (win s wp) * 2) (w_height (win s wp) + w_bordersize (win s wp) * 2) None s
        else Some s) (\<lambda>s.
       expose_covered beyond wp (w_siblings (win s (the expwp))) s))"

definition GrLowerWindow :: "MWCOORD \<Rightarrow> GR_WINDOW_ID \<Rightarrow> server \<Rightarrow> server option" where
  "GrLowerWindow beyond wid s =
    Option.bind (GsFindWindow wid s) (\<lambda>(r, s).
      case r of
        None \<Rightarrow> Some s
      | Some wp \<Rightarrow>
          if wp = rootwp s (w_layer (win s wp)) \<or> w_siblings (win s wp) = None then Some s
          else do {
            p \<leftarrow> w_parent (win s wp);
            first \<leftarrow> w_children (win s p);
            prevwp \<leftarrow> (if first \<noteq> wp then before (\<lambda>q. w_siblings (win s q)) first wp else Some first);
            let expwp = w_siblings (win s wp);
            sibwp \<leftarrow> last_sibling (win s) wp;
            let s = (if prevwp = wp then upd_win p (\<lambda>w. w\<lparr>w_children := w_siblings (win s wp)\<rparr>) s
                     else upd_win prevwp (\<lambda>w. w\<lparr>w_siblings := w_siblings (win s wp)\<rparr>) s);
            let s = upd_win sibwp (\<lambda>w. w\<lparr>w_siblings := Some wp\<rparr>) s;
            let s = upd_win wp (\<lambda>w. w\<lparr>w_siblings := None\<rparr>) s;
            expose_covered beyond wp expwp s
          })"


section \<open>Places and sizes\<close>

partial_function (option) offset_windows :: "MWCOORD \<Rightarrow> MWCOORD \<Rightarrow> bool \<Rightarrow> win_ptr option \<Rightarrow> server \<Rightarrow> server option" where
  "offset_windows offx offy later wp s =
    (if wp = None then Some s
     else Option.bind
       (offset_windows offx offy True (w_children (win s (the wp)))
         (upd_win (the wp) (\<lambda>w. w\<lparr>w_x := SAFE_PLUS (w_x w) offx, w_y := SAFE_PLUS (w_y w) offy\<rparr>) s)) (\<lambda>s.
       if later then offset_windows offx offy True (w_siblings (win s (the wp))) s else Some s))"

definition OffsetWindow :: "win_ptr \<Rightarrow> MWCOORD \<Rightarrow> MWCOORD \<Rightarrow> server \<Rightarrow> server option" where
  "OffsetWindow wp offx offy s = offset_windows offx offy False (Some wp) s"

definition update_event :: "win_ptr \<Rightarrow> int \<Rightarrow> server \<Rightarrow> server" where
  "update_event wp utype s =
    (let w = win s wp in GsDeliverUpdateEvent wp utype (w_x w) (w_y w) (w_width w) (w_height w) s)"

partial_function (option) move_events :: "bool \<Rightarrow> win_ptr option \<Rightarrow> server \<Rightarrow> server option" where
  "move_events later wp s =
    (if wp = None then Some s
     else Option.bind
       (move_events True (w_children (win s (the wp))) (update_event (the wp) GR_UPDATE_MOVE s)) (\<lambda>s.
       if later then move_events True (w_siblings (win s (the wp))) s else Some s))"

definition DeliverUpdateMoveEventAndChildren :: "win_ptr \<Rightarrow> server \<Rightarrow> server option" where
  "DeliverUpdateMoveEventAndChildren wp s = move_events False (Some wp) s"

definition GrMoveWindow :: "MWCOORD \<Rightarrow> GR_WINDOW_ID \<Rightarrow> MWCOORD \<Rightarrow> MWCOORD \<Rightarrow> server \<Rightarrow> server option" where
  "GrMoveWindow beyond wid x y s =
    Option.bind (GsFindWindow wid s) (\<lambda>(r, s).
      case r of
        None \<Rightarrow> Some s
      | Some wp \<Rightarrow>
          if wp = rootwp s (w_layer (win s wp)) then server_error GR_ERROR_ILLEGAL_ON_ROOT_WINDOW wid s
          else do {
            p \<leftarrow> w_parent (win s wp);
            let w = win s wp;
            let x = SAFE_PLUS x (w_x (win s p));
            let y = SAFE_PLUS y (w_y (win s p));
            let offx = x - w_x w;
            let offy = y - w_y w;
            if w_x w = x \<and> w_y w = y then Some s
            else if w_mapped w \<and> w_children (win s p) = Some wp
            then do {
              s \<leftarrow> OffsetWindow wp offx offy s;
              let s = s\<lparr>clipwp := None\<rparr>;
              let w1 = win s wp;
              let X = min (w_x w) (w_x w1);
              let Y = min (w_y w) (w_y w1);
              let W = SAFE_PLUS (max (w_x w) (w_x w1)) (w_width w1) - X;
              let H = SAFE_PLUS (max (w_y w) (w_y w1)) (w_height w1) - Y;
              s \<leftarrow> GsExposeArea beyond (rootwp s (w_layer w1)) X Y W H None s;
              DeliverUpdateMoveEventAndChildren wp s
            }
            else do {
              s \<leftarrow> GsWpUnrealizeWindow beyond wp True s;
              s \<leftarrow> OffsetWindow wp offx offy s;
              s \<leftarrow> GsWpRealizeWindow beyond wp False s;
              DeliverUpdateMoveEventAndChildren wp s
            }
          })"

definition GrResizeWindow :: "MWCOORD \<Rightarrow> GR_WINDOW_ID \<Rightarrow> MWCOORD \<Rightarrow> MWCOORD \<Rightarrow> server \<Rightarrow> server option" where
  "GrResizeWindow beyond wid width height s =
    Option.bind (GsFindWindow wid s) (\<lambda>(r, s).
      case r of
        None \<Rightarrow> Some s
      | Some wp \<Rightarrow>
          let w = win s wp; resize = upd_win wp (\<lambda>w. w\<lparr>w_width := width, w_height := height\<rparr>)
          in if wp = rootwp s (w_layer w) then server_error GR_ERROR_ILLEGAL_ON_ROOT_WINDOW wid s
          else if width \<le> 0 \<or> height \<le> 0 then server_error GR_ERROR_BAD_WINDOW_SIZE wid s
          else if w_width w = width \<and> w_height w = height then Some s
          else if \<not> w_realized w \<or> \<not> w_output w then Some (resize s)
          else do {
            s \<leftarrow> GsWpUnrealizeWindow beyond wp True s;
            let s = resize s;
            let s = GsDeliverUpdateEvent wp GR_UPDATE_SIZE (w_x (win s wp)) (w_y (win s wp)) width height s;
            GsWpRealizeWindow beyond wp False s
          })"

definition link_child :: "win_ptr \<Rightarrow> win_ptr \<Rightarrow> server \<Rightarrow> server" where
  "link_child wp pwp s =
    (let s = upd_win wp (\<lambda>w. w\<lparr>w_parent := Some pwp\<rparr>) s;
         s = upd_win wp (\<lambda>w. w\<lparr>w_siblings := w_children (win s pwp)\<rparr>) s
     in upd_win pwp (\<lambda>w. w\<lparr>w_children := Some wp\<rparr>) s)"

definition GrReparentWindow ::
  "MWCOORD \<Rightarrow> GR_WINDOW_ID \<Rightarrow> GR_WINDOW_ID \<Rightarrow> MWCOORD \<Rightarrow> MWCOORD \<Rightarrow> server \<Rightarrow> server option" where
  "GrReparentWindow beyond wid pwid x y s =
    Option.bind (GsFindWindow wid s) (\<lambda>(r, s). Option.bind (GsFindWindow pwid s) (\<lambda>(r', s).
      case (r, r') of
        (Some wp, Some pwp) \<Rightarrow>
          if wp = pwp then Some s
          else if wp = rootwp s (w_layer (win s wp)) then server_error GR_ERROR_ILLEGAL_ON_ROOT_WINDOW wid s
          else do {
            let offx = x + w_x (win s pwp) - w_x (win s wp);
            let offy = y + w_y (win s pwp) - w_y (win s wp);
            s \<leftarrow> GsWpUnrealizeWindow beyond wp True s;
            s \<leftarrow> unlink_sibling wp s;
            let s = link_child wp pwp s;
            s \<leftarrow> (if offx \<noteq> 0 \<or> offy \<noteq> 0 then OffsetWindow wp offx offy s else Some s);
            s \<leftarrow> GsWpRealizeWindow beyond wp True s;
            Some (update_event wp GR_UPDATE_REPARENT s)
          }
      | _ \<Rightarrow> Some s))"

section \<open>New windows, mapping, focus and events\<close>

definition NewWindow ::
  "win_ptr \<Rightarrow> MWCOORD \<Rightarrow> MWCOORD \<Rightarrow> MWCOORD \<Rightarrow> MWCOORD \<Rightarrow> MWCOORD \<Rightarrow> 32 word \<Rightarrow> 32 word \<Rightarrow> client_ptr \<Rightarrow> server \<Rightarrow>
   (win_ptr option \<times> server) option" where
  "NewWindow pwp x y width height bordersize background bordercolor c s =
    (if width \<le> 0 \<or> height \<le> 0 \<or> bordersize < 0 then map_option (Pair None) (server_error GR_ERROR_BAD_WINDOW_SIZE 0 s)
     else case free_windows s of
       [] \<Rightarrow> map_option (Pair None) (server_error GR_ERROR_MALLOC_FAILED 0 s)
     | wp # rest \<Rightarrow>
         let p = win s pwp;
             n = (nextid s + 1) mod 2 ^ 32;
             w = \<lparr>w_x = w_x p + x, w_y = w_y p + y, w_width = width, w_height = height, w_id = nextid s, w_layer = w_layer p,
                  w_next = listwp s (w_layer p), w_owner = c, w_parent = Some pwp, w_children = None, w_siblings = w_children p,
                  w_bordersize = bordersize, w_bordercolor = bordercolor, w_background = background, w_bgpixmap = None,
                  w_bgpixmapflags = 0, w_nopropmask = 0, w_eventclients = [], w_cursorid = w_cursorid p, w_mapped = False,
                  w_realized = False, w_output = True, w_props = 0, w_title = None, w_clipregion = None\<rparr>;
             s = s\<lparr>free_windows := rest, nextid := (if n = 0 then GR_ROOT_WINDOW_ID + 10 else n), win := (win s)(wp := w)\<rparr>;
             s = upd_win pwp (\<lambda>w. w\<lparr>w_children := Some wp\<rparr>) s
         in Some (Some wp, s\<lparr>listwp := (listwp s)(w_layer p := Some wp)\<rparr>))"

definition GrNewWindow ::
  "GR_WINDOW_ID \<Rightarrow> MWCOORD \<Rightarrow> MWCOORD \<Rightarrow> MWCOORD \<Rightarrow> MWCOORD \<Rightarrow> MWCOORD \<Rightarrow> 32 word \<Rightarrow> 32 word \<Rightarrow> client_ptr \<Rightarrow> server \<Rightarrow>
   (GR_WINDOW_ID \<times> server) option" where
  "GrNewWindow parent x y width height bordersize background bordercolor c s =
    Option.bind (GsFindWindow parent s) (\<lambda>(r, s).
      case r of
        None \<Rightarrow> Some (0, s)
      | Some pwp \<Rightarrow>
          if \<not> w_output (win s pwp) then map_option (Pair 0) (server_error GR_ERROR_INPUT_ONLY_WINDOW (w_id (win s pwp)) s)
          else map_option (\<lambda>(r, s). (case r of None \<Rightarrow> 0 | Some wp \<Rightarrow> w_id (win s wp), s))
            (NewWindow pwp x y width height bordersize background bordercolor c s))"

definition GrNewInputWindow ::
  "GR_WINDOW_ID \<Rightarrow> MWCOORD \<Rightarrow> MWCOORD \<Rightarrow> MWCOORD \<Rightarrow> MWCOORD \<Rightarrow> client_ptr \<Rightarrow> server \<Rightarrow> (GR_WINDOW_ID \<times> server) option" where
  "GrNewInputWindow parent x y width height c s =
    Option.bind (GsFindWindow parent s) (\<lambda>(r, s).
      case r of
        None \<Rightarrow> Some (0, s)
      | Some pwp \<Rightarrow>
          map_option (\<lambda>(r, s). case r of
              None \<Rightarrow> (0, s)
            | Some wp \<Rightarrow> (w_id (win s wp), upd_win wp (\<lambda>w. w\<lparr>w_output := False\<rparr>) s))
            (NewWindow pwp x y width height 0 0xFF000000 0xFF000000 c s))"

definition GrMapWindow :: "MWCOORD \<Rightarrow> GR_WINDOW_ID \<Rightarrow> server \<Rightarrow> server option" where
  "GrMapWindow beyond wid s =
    Option.bind (GsFindWindow wid s) (\<lambda>(r, s).
      case r of
        None \<Rightarrow> Some s
      | Some wp \<Rightarrow>
          if w_mapped (win s wp) then Some s
          else GsWpRealizeWindow beyond wp False (upd_win wp (\<lambda>w. w\<lparr>w_mapped := True\<rparr>) s))"

definition GrUnmapWindow :: "MWCOORD \<Rightarrow> GR_WINDOW_ID \<Rightarrow> server \<Rightarrow> server option" where
  "GrUnmapWindow beyond wid s =
    Option.bind (GsFindWindow wid s) (\<lambda>(r, s).
      case r of
        None \<Rightarrow> Some s
      | Some wp \<Rightarrow>
          if \<not> w_mapped (win s wp) then Some s
          else map_option (upd_win wp (\<lambda>w. w\<lparr>w_mapped := False\<rparr>)) (GsWpUnrealizeWindow beyond wp False s))"

definition GsPrepareWindow :: "MWCOORD \<Rightarrow> GR_WINDOW_ID \<Rightarrow> server \<Rightarrow> (win_ptr option \<times> server) option" where
  "GsPrepareWindow beyond wid s =
    Option.bind (GsFindWindow wid s) (\<lambda>(r, s).
      case r of
        None \<Rightarrow> Some (None, s)
      | Some wp \<Rightarrow>
          if \<not> w_output (win s wp) then map_option (Pair None) (server_error GR_ERROR_INPUT_ONLY_WINDOW wid s)
          else if \<not> w_realized (win s wp) then Some (None, s)
          else if Some wp \<noteq> clipwp s then map_option (Pair (Some wp)) (GsSetClipWindow beyond wp None False s)
          else Some (Some wp, s))"

definition GrClearArea ::
  "MWCOORD \<Rightarrow> GR_WINDOW_ID \<Rightarrow> MWCOORD \<Rightarrow> MWCOORD \<Rightarrow> MWCOORD \<Rightarrow> MWCOORD \<Rightarrow> bool \<Rightarrow> server \<Rightarrow> server option" where
  "GrClearArea beyond wid x y width height exposeflag s =
    Option.bind (GsPrepareWindow beyond wid s) (\<lambda>(r, s).
      case r of
        None \<Rightarrow> Some s
      | Some wp \<Rightarrow>
          GsWpClearWindow beyond wp x y (if width = 0 then w_width (win s wp) else width)
            (if height = 0 then w_height (win s wp) else height) exposeflag s)"

definition GrGetFocus :: "server \<Rightarrow> GR_WINDOW_ID" where
  "GrGetFocus s = w_id (win s (focuswp s))"

definition GrSetFocus :: "GR_WINDOW_ID \<Rightarrow> server \<Rightarrow> server option" where
  "GrSetFocus wid s =
    Option.bind (GsFindWindow wid s) (\<lambda>(r, s).
      case r of
        None \<Rightarrow> Some s
      | Some wp \<Rightarrow>
          if \<not> w_realized (win s wp) then server_error GR_ERROR_UNMAPPED_FOCUS_WINDOW wid s
          else if w_props (win s wp) AND GR_WM_PROPS_NOFOCUS \<noteq> 0 then Some s
          else GsWpSetFocus wp (s\<lparr>focusfixed := (wp \<noteq> rootwp s (w_layer (win s wp)))\<rparr>))"

definition GrSetWindowCursor :: "GR_WINDOW_ID \<Rightarrow> nat \<Rightarrow> server \<Rightarrow> server option" where
  "GrSetWindowCursor wid cid s =
    Option.bind (GsFindWindow wid s) (\<lambda>(r, s).
      case r of
        None \<Rightarrow> Some s
      | Some wp \<Rightarrow>
          (case (if cid = 0 then Some (stdcursor s) else GsFindCursor cid s) of
             None \<Rightarrow> Some s
           | Some cp \<Rightarrow>
               let s = upd_win wp (\<lambda>w. w\<lparr>w_cursorid := cid\<rparr>) s;
                   s = (if Some cp = curcursor s \<or> curcursor s = None
                        then engine [CallMoveCursor (cursorx s - hotx (cursors s cp)) (cursory s - hoty (cursors s cp)), CallSetCursor cp] s
                        else s)
               in Some (GsCheckCursor s)))"

text \<open>The events for a client that newly selects the updates of the root window's children.\<close>

partial_function (option) map_events :: "win_ptr option \<Rightarrow> server \<Rightarrow> server option" where
  "map_events wp s =
    (if wp = None then Some s
     else map_events (w_next (win s (the wp)))
       (if w_realized (win s (the wp)) then update_event (the wp) GR_UPDATE_MAP s else s))"

fun replace_mask :: "client_ptr \<Rightarrow> 32 word \<Rightarrow> event_client list \<Rightarrow> event_client list option" where
  "replace_mask c emask [] = None"
| "replace_mask c emask (ecp # ecs) =
    (if client ecp = c then Some (ecp\<lparr>eventmask := emask\<rparr> # ecs)
     else map_option ((#) ecp) (replace_mask c emask ecs))"

definition GrSelectEvents :: "bool \<Rightarrow> client_ptr \<Rightarrow> GR_WINDOW_ID \<Rightarrow> 32 word \<Rightarrow> server \<Rightarrow> server option" where
  "GrSelectEvents mem c wid emask s =
    Option.bind (GsFindWindow wid s) (\<lambda>(r, s).
      case r of
        None \<Rightarrow> Some s
      | Some wp \<Rightarrow>
          (case replace_mask c emask (w_eventclients (win s wp)) of
             Some ecs \<Rightarrow> Some (upd_win wp (\<lambda>w. w\<lparr>w_eventclients := ecs\<rparr>) s)
           | None \<Rightarrow>
               if \<not> mem then server_error GR_ERROR_MALLOC_FAILED wid s
               else
                 let s = upd_win wp (\<lambda>w. w\<lparr>w_eventclients := \<lparr>eventmask = emask, client = c\<rparr> # w_eventclients w\<rparr>) s
                 in if w_parent (win s wp) = None \<and> emask AND GR_EVENT_MASK_CHLD_UPDATE \<noteq> 0
                    then map_events (listwp s (w_layer (win s wp))) s
                    else Some s))"

text \<open>The properties set by a window manager; \<open>mem\<close> says whether the memory for a title is there.\<close>

record wm_properties =
  wm_flags :: "32 word"
  wm_props :: "32 word"
  wm_title :: "string option"
  wm_background :: "32 word"
  wm_bordersize :: MWCOORD
  wm_bordercolor :: "32 word"

definition GrSetWMProperties :: "MWCOORD \<Rightarrow> bool \<Rightarrow> GR_WINDOW_ID \<Rightarrow> wm_properties \<Rightarrow> server \<Rightarrow> server option" where
  "GrSetWMProperties beyond mem wid props s =
    Option.bind (GsFindWindow wid s) (\<lambda>(r, s).
      case r of
        None \<Rightarrow> server_error GR_ERROR_BAD_WINDOW_ID wid s
      | Some wp \<Rightarrow> do {
          let s = (if wm_flags props AND 0x0001 \<noteq> 0 then upd_win wp (\<lambda>w. w\<lparr>w_props := wm_props props\<rparr>) s else s);
          s \<leftarrow> (if wm_flags props AND 0x0002 \<noteq> 0
                then do {
                  s \<leftarrow> (if wm_title props = None \<or> wm_title props = Some [] then Some (upd_win wp (\<lambda>w. w\<lparr>w_title := None\<rparr>) s)
                        else if \<not> mem then server_error GR_ERROR_MALLOC_FAILED wid (upd_win wp (\<lambda>w. w\<lparr>w_title := None\<rparr>) s)
                        else Some (upd_win wp (\<lambda>w. w\<lparr>w_title := wm_title props\<rparr>) s));
                  GsWpNotifyActivate (focuswp s) s
                }
                else Some s);
          s \<leftarrow> (if wm_flags props AND 0x0004 \<noteq> 0 \<and> w_background (win s wp) \<noteq> wm_background props
                then let s = upd_win wp (\<lambda>w. w\<lparr>w_background := wm_background props\<rparr>) s; w = win s wp
                     in GsExposeArea beyond wp (w_x w) (w_y w) (w_width w) (w_height w) None s
                else Some s);
          s \<leftarrow> (if wm_flags props AND 0x0008 \<noteq> 0 \<and> w_bordersize (win s wp) \<noteq> wm_bordersize props
                then do {
                  s \<leftarrow> GsWpUnrealizeWindow beyond wp True s;
                  GsWpRealizeWindow beyond wp True (upd_win wp (\<lambda>w. w\<lparr>w_bordersize := wm_bordersize props\<rparr>) s)
                }
                else Some s);
          (if wm_flags props AND 0x0010 \<noteq> 0 \<and> w_bordercolor (win s wp) \<noteq> wm_bordercolor props
           then let s = upd_win wp (\<lambda>w. w\<lparr>w_bordercolor := wm_bordercolor props\<rparr>) s
                in if w_bordersize (win s wp) \<noteq> 0 then GsDrawBorder beyond wp s else Some s
           else Some s)
        })"

end
