(* ===== verification/Wop_Draw.thy ===== *)
theory Wop_Draw
  imports Wop_Model Dlv_Keys
begin

text \<open>
  The operations that only draw: they return in every well-formed state, and change nothing but the clip window, the pending
  events and what is told to the engine.
\<close>

section \<open>Well-formed states\<close>

text \<open>Windows that can be drawn: no window has a shape (see \<open>shaped_parent_crashes\<close>), and background pixmaps are not empty.\<close>

definition windows_drawable :: "server \<Rightarrow> wtree \<Rightarrow> bool" where
  "windows_drawable s t \<longleftrightarrow> (\<forall>v\<in>set (nodes t). win_ok (win s v) \<and> w_clipregion (win s v) = None \<and>
     (\<forall>pm. w_bgpixmap (win s v) = Some pm \<longrightarrow> 0 < p_width (pixmaps s pm) \<and> 0 < p_height (pixmaps s pm)))"

definition base :: "server \<Rightarrow> wtree \<Rightarrow> bool" where
  "base s t \<longleftrightarrow> server_tree s t \<and> windows_drawable s t \<and> evq_ok (evqueues s) \<and> (\<forall>w. clipwp s = Some w \<longrightarrow> w \<in> set (nodes t))"

lemma baseD:
  assumes "base s t"
  shows "server_tree s t" "windows_drawable s t" "evq_ok (evqueues s)" "window_tree (win s) (rootwp s 0) t" "linked (win s) t"
    "v \<in> set (nodes t) \<Longrightarrow> w_layer (win s v) = 0"
  using assms by (simp_all add: base_def server_tree_def window_tree_def)

text \<open>A state without what drawing changes.\<close>

definition undrawn :: "server \<Rightarrow> server" where
  "undrawn s = s\<lparr>clipwp := None, eng_clip := undefined, evqueues := undefined, curgcp := None, engine_calls := []\<rparr>"

definition redraw :: "wtree \<Rightarrow> server \<Rightarrow> server \<Rightarrow> bool" where
  "redraw t s s' \<longleftrightarrow> undrawn s' = undrawn s \<and> base s' t"

lemma undrawn_fields:
  assumes "undrawn s' = undrawn s"
  shows "win s' = win s" "listwp s' = listwp s" "rootwp s' = rootwp s" "scrNumberOfLayers s' = scrNumberOfLayers s"
    "cachewindowid s' = cachewindowid s" "cachewp s' = cachewp s" "focuswp s' = focuswp s" "mousewp s' = mousewp s"
    "grabbuttonwp s' = grabbuttonwp s" "cursorx s' = cursorx s" "cursory s' = cursory s" "focusfixed s' = focusfixed s"
    "pixmaps s' = pixmaps s" "list_grabbed_keys s' = list_grabbed_keys s" "nextid s' = nextid s" "free_windows s' = free_windows s"
    "selection_wid s' = selection_wid s" "curcursor s' = curcursor s"
proof -
  have *: "f (undrawn s') = f (undrawn s)" for f :: "server \<Rightarrow> 'a" using assms by simp
  show "win s' = win s" "listwp s' = listwp s" "rootwp s' = rootwp s" "scrNumberOfLayers s' = scrNumberOfLayers s"
    "cachewindowid s' = cachewindowid s" "cachewp s' = cachewp s" "focuswp s' = focuswp s" "mousewp s' = mousewp s"
    "grabbuttonwp s' = grabbuttonwp s" "cursorx s' = cursorx s" "cursory s' = cursory s" "focusfixed s' = focusfixed s"
    "pixmaps s' = pixmaps s" "list_grabbed_keys s' = list_grabbed_keys s" "nextid s' = nextid s" "free_windows s' = free_windows s"
    "selection_wid s' = selection_wid s" "curcursor s' = curcursor s"
    using arg_cong [OF assms, of win] arg_cong [OF assms, of listwp] arg_cong [OF assms, of rootwp]
      arg_cong [OF assms, of scrNumberOfLayers] arg_cong [OF assms, of cachewindowid] arg_cong [OF assms, of cachewp]
      arg_cong [OF assms, of focuswp] arg_cong [OF assms, of mousewp] arg_cong [OF assms, of grabbuttonwp]
      arg_cong [OF assms, of cursorx] arg_cong [OF assms, of cursory] arg_cong [OF assms, of focusfixed]
      arg_cong [OF assms, of pixmaps] arg_cong [OF assms, of list_grabbed_keys] arg_cong [OF assms, of nextid]
      arg_cong [OF assms, of free_windows] arg_cong [OF assms, of selection_wid] arg_cong [OF assms, of curcursor]
    by (simp_all add: undrawn_def)
qed

lemma undrawn_updates [simp]:
  "undrawn (s\<lparr>clipwp := a\<rparr>) = undrawn s" "undrawn (s\<lparr>eng_clip := b\<rparr>) = undrawn s" "undrawn (s\<lparr>evqueues := c\<rparr>) = undrawn s"
  "undrawn (s\<lparr>curgcp := d\<rparr>) = undrawn s" "undrawn (s\<lparr>engine_calls := e\<rparr>) = undrawn s" "undrawn (engine cs s) = undrawn s"
  "undrawn (add_draws ds s) = undrawn s"
  by (simp_all add: undrawn_def engine_def add_draws_def)

lemma server_tree_cong:
  assumes "server_tree s t" and "win s' = win s" and "rootwp s' = rootwp s" and "mousewp s' = mousewp s"
    and "focuswp s' = focuswp s" and "grabbuttonwp s' = grabbuttonwp s"
  shows "server_tree s' t"
  using assms by (simp add: server_tree_def)

lemma redrawI:
  assumes "undrawn s' = undrawn s" and "base s t" and "evq_ok (evqueues s')" and "clipwp s' = clipwp s \<or> clipwp s' = None \<or> clipwp s' \<in> Some ` set (nodes t)"
  shows "redraw t s s'"
proof -
  note F = undrawn_fields [OF assms(1)]
  have "server_tree s' t" by (rule server_tree_cong [OF baseD(1) [OF assms(2)]]) (simp_all add: F)
  moreover have "windows_drawable s' t" using baseD(2) [OF assms(2)] by (simp add: windows_drawable_def F)
  moreover have "\<forall>w. clipwp s' = Some w \<longrightarrow> w \<in> set (nodes t)" using assms(2,4) by (auto simp: base_def)
  ultimately show ?thesis using assms(1,3) unfolding redraw_def base_def by blast
qed

lemma redraw_refl: "base s t \<Longrightarrow> redraw t s s"
  by (simp add: redraw_def)

lemma redraw_trans: "redraw t s s1 \<Longrightarrow> redraw t s1 s2 \<Longrightarrow> redraw t s s2"
  by (simp add: redraw_def)

lemma redraw_base: "redraw t s s' \<Longrightarrow> base s' t"
  by (simp add: redraw_def)

lemma redraw_win: "redraw t s s' \<Longrightarrow> win s' = win s"
  unfolding redraw_def by (rule undrawn_fields(1)) (erule conjunct1)

text \<open>Drawing in the frame of \<open>Option.bind\<close>.\<close>

lemma redraw_bind:
  assumes "\<exists>s1. r = Some s1 \<and> redraw t s s1" and "\<And>s1. redraw t s s1 \<Longrightarrow> base s1 t \<Longrightarrow> \<exists>s2. f s1 = Some s2 \<and> redraw t s1 s2"
  shows "\<exists>s2. Option.bind r f = Some s2 \<and> redraw t s s2"
proof -
  obtain s1 where s1: "r = Some s1" "redraw t s s1" using assms(1) by blast
  obtain s2 where "f s1 = Some s2" "redraw t s1 s2" using assms(2) [OF s1(2) redraw_base [OF s1(2)]] by blast
  then show ?thesis using s1 redraw_trans by auto
qed

section \<open>Clip regions, backgrounds and borders\<close>

lemma clip_total:
  assumes wt: "window_tree (win s) root t" and w: "w \<in> set (nodes t)" and r: "rootwp s (w_layer (win s w)) = root"
    and plain: "w_clipregion (win s w) = None"
  shows "\<exists>cw ec. GsSetClipWindow beyond w None False s = Some (s\<lparr>clipwp := cw, eng_clip := ec\<rparr>) \<and> (cw = clipwp s \<or> cw = Some w)"
proof -
  let ?W = "win s"
  let ?w = "?W w"
  note L = tree_lineage [OF wt w]
  have root: "linked ?W t" "w_parent (?W root) = None" using wt by (simp_all add: window_tree_def)
  obtain x y width height where box:
    "cut_to_parents ?W root w (w_x ?w, w_y ?w, w_width ?w, w_height ?w) = Some (x, y, width, height)"
    by (rule cut_to_parents_tree [OF wt w]) blast
  have ch: "siblings_to ?W (w_children ?w) None = Some (child_list t w)"
    using child_list_chain [OF w root(1)] siblings_to_end by blast
  have ob: "\<exists>rv'. cut_obscured beyond ?W root False w rv = Some rv'" for rv
  proof (cases "w = root")
    case True
    then show ?thesis using ch root(2) by (subst cut_obscured.simps) simp
  next
    case False
    then show ?thesis using cut_obscured_lineage [OF L(1) L(8) [OF False], of root beyond False rv] L(3,4,5) by auto
  qed
  have child: "\<exists>rv'. cut_children beyond ?W ?w ws rv = Some rv'" for ws rv
    by (induction ws arbitrary: rv) (auto simp: cut_child_def plain Let_def split: prod.split)
  show ?thesis
  proof (cases "\<not> w_realized ?w \<or> \<not> w_output ?w")
    case True
    then show ?thesis by (intro exI [of _ "clipwp s"] exI [of _ "eng_clip s"]) (simp add: GsSetClipWindow_def)
  next
    case False
    show ?thesis
    proof (cases "width \<le> 0 \<or> height \<le> 0")
      case True
      then show ?thesis using False box r
        by (intro exI [of _ "Some w"] exI [of _ "GdSetClipRegion None (eng_clip s)"]) (simp add: GsSetClipWindow_def)
    next
      case ne: False
      obtain rv1 where rv1: "cut_obscured beyond ?W root False w (GdAllocRegion, GdAllocRectRegion x y (x + width) (y + height)) = Some rv1"
        using ob by blast
      obtain r2 v2 where rv2: "(if w \<noteq> root then Option.bind (siblings_to ?W (w_children ?w) None) (\<lambda>ws. cut_children beyond ?W ?w ws rv1)
          else Some rv1) = Some (r2, v2)"
        using ch child by (cases rv1) (fastforce split: if_splits)
      have "GsSetClipWindow beyond w None False s = Some (s\<lparr>clipwp := Some w, eng_clip := GdSetClipRegion (Some v2) (eng_clip s)\<rparr>)"
        using False ne box r plain rv1 rv2 by (simp add: GsSetClipWindow_def)
      then show ?thesis by blast
    qed
  qed
qed

lemma set_clip_redraw:
  assumes "base s t" and "w \<in> set (nodes t)"
  shows "\<exists>s'. GsSetClipWindow beyond w None False s = Some s' \<and> redraw t s s'"
proof -
  have "w_clipregion (win s w) = None" "rootwp s (w_layer (win s w)) = rootwp s 0"
    using assms baseD(2,6) [OF assms(1)] by (simp_all add: windows_drawable_def)
  from clip_total [OF baseD(4) [OF assms(1)] assms(2) this(2,1), of beyond]
  obtain cw ec where "GsSetClipWindow beyond w None False s = Some (s\<lparr>clipwp := cw, eng_clip := ec\<rparr>)" "cw = clipwp s \<or> cw = Some w" by blast
  then show ?thesis
    using assms baseD(3) [OF assms(1)] by (intro exI [of _ "s\<lparr>clipwp := cw, eng_clip := ec\<rparr>"]) (auto intro!: redrawI)
qed

lemma engine_redraw: "base s t \<Longrightarrow> redraw t s (engine cs s)"
  by (rule redrawI) (simp_all add: engine_def baseD(3))

lemma add_draws_redraw: "base s t \<Longrightarrow> redraw t s (add_draws ds s)"
  by (rule redrawI) (simp_all add: engine_def add_draws_def baseD(3))

lemma background_total:
  assumes "win_ok w" and "0 < p_width p" and "0 < p_height p"
  shows "\<exists>ds. GsWpDrawBackgroundPixmap w p pm x y width height = Some ds"
proof -
  have "\<exists>ds. GsWpTileBackgroundPixmap w p pm x y width height = Some ds"
    using assms by (simp add: GsWpTileBackgroundPixmap_def win_ok_def Let_def)
  then show ?thesis by (simp add: GsWpDrawBackgroundPixmap_def Let_def split: prod.split)
qed

lemma deliver_replacing_ok:
  assumes "\<And>c q. evq_ok q \<Longrightarrow> \<exists>q'. free c q = Some q' \<and> evq_ok q'"
  shows "evq_ok q \<Longrightarrow> \<exists>q'. deliver_replacing m free e ecs q = Some q' \<and> evq_ok q'"
proof (induction ecs arbitrary: q)
  case (Cons ecp ecs)
  show ?case
  proof (cases "selects m ecp")
    case True
    obtain q1 where q1: "free (client ecp) q = Some q1" "evq_ok q1" using assms [OF Cons.prems] by blast
    show ?thesis using Cons.IH [OF post_event_abs(1) [OF q1(2)]] q1(1) True by simp
  qed (use Cons in simp)
qed simp

lemma exposure_redraw:
  assumes "base s t"
  shows "\<exists>s'. GsDeliverExposureEvent wp x y width height s = Some s' \<and> redraw t s s'"
proof (cases "w_realized (win s wp) \<and> w_output (win s wp)")
  case True
  have "\<exists>q'. GsFreeExposureEvent c wid x y width height q = Some q' \<and> evq_ok q'" if "evq_ok q" for c wid q
    using free_event_abs [OF that] by (auto simp: GsFreeExposureEvent_def)
  from deliver_replacing_ok [where free = "\<lambda>c. GsFreeExposureEvent c (w_id (win s wp)) x y width height", OF this baseD(3) [OF assms]]
  obtain q where "deliver_replacing GR_EVENT_MASK_EXPOSURE (\<lambda>c. GsFreeExposureEvent c (w_id (win s wp)) x y width height)
    (EVENT_EXPOSURE (w_id (win s wp)) x y width height) (w_eventclients (win s wp)) (evqueues s) = Some q" "evq_ok q" by blast
  then show ?thesis using True assms
    by (intro exI [of _ "s\<lparr>evqueues := q\<rparr>"]) (auto simp: GsDeliverExposureEvent_def intro!: redrawI)
next
  case False
  then show ?thesis using redraw_refl [OF assms] by (auto simp: GsDeliverExposureEvent_def)
qed

lemma update_redraw:
  assumes "base s t"
  shows "redraw t s (GsDeliverUpdateEvent wp utype x y width height s)"
proof -
  obtain q ps where "GsDeliverUpdateEvent wp utype x y width height s = s\<lparr>evqueues := q\<rparr>" "sent ps (evqueues s) q"
    using update_sent [OF baseD(3) [OF assms]] by blast
  then show ?thesis using assms sent_ok by (auto intro!: redrawI)
qed


lemma clear_redraw:
  assumes b: "base s t" and w: "wp \<in> set (nodes t)"
  shows "\<exists>s'. GsWpClearWindow beyond wp x y width height flag s = Some s' \<and> redraw t s s'"
proof -
  let ?w = "win s wp"
  have ok: "win_ok ?w" "\<And>pm. w_bgpixmap ?w = Some pm \<Longrightarrow> 0 < p_width (pixmaps s pm) \<and> 0 < p_height (pixmaps s pm)"
    using baseD(2) [OF b] w by (simp_all add: windows_drawable_def)
  define fill where "fill = (\<lambda>a b c d s. if w_props ?w AND GR_WM_PROPS_NOBACKGROUND \<noteq> 0 then Some s
    else Option.bind (case w_bgpixmap ?w of
        Some pm \<Rightarrow> GsWpDrawBackgroundPixmap ?w (pixmaps (engine [CallSetMode 0, CallSetForegroundColor (w_background ?w)] s) pm) pm a b c d
      | None \<Rightarrow> Some [DrawFillRect (w_x ?w + a) (w_y ?w + b) c d])
      (\<lambda>ds. Some (add_draws ds (engine [CallSetMode 0, CallSetForegroundColor (w_background ?w)] s))))"
  have fill: "\<exists>s2. fill a b c d s1 = Some s2 \<and> redraw t s1 s2" if s1: "redraw t s s1" for a b c d s1
  proof (cases "w_props ?w AND GR_WM_PROPS_NOBACKGROUND \<noteq> 0")
    case True
    then show ?thesis using redraw_refl [OF redraw_base [OF s1]] by (simp add: fill_def)
  next
    case False
    have "pixmaps s1 = pixmaps s" using s1 undrawn_fields(13) [of s1 s] by (simp add: redraw_def)
    then obtain ds where "(case w_bgpixmap ?w of
        Some pm \<Rightarrow> GsWpDrawBackgroundPixmap ?w (pixmaps s1 pm) pm a b c d
      | None \<Rightarrow> Some [DrawFillRect (w_x ?w + a) (w_y ?w + b) c d]) = Some ds"
    proof (cases "w_bgpixmap ?w")
      case (Some pm)
      from background_total [OF ok(1), of "pixmaps s pm" pm a b c d] show ?thesis
        using that Some ok(2) \<open>pixmaps s1 = pixmaps s\<close> by auto
    qed (use that in simp)
    then show ?thesis
      using False redraw_trans [OF engine_redraw add_draws_redraw, OF redraw_base [OF s1] redraw_base [OF engine_redraw], OF redraw_base [OF s1]]
      by (auto simp: fill_def engine_def [of _ s1] cong: option.case_cong)
  qed
  have body: "\<exists>s'. Option.bind (GsSetClipWindow beyond wp None False s) (\<lambda>s.
      Option.bind (fill a b c d (engine [CallSetFillMode 0] (s\<lparr>curgcp := None\<rparr>))) (\<lambda>s.
      if flag then GsDeliverExposureEvent wp a b c d s else Some s)) = Some s' \<and> redraw t s s'" for a b c d
  proof (rule redraw_bind [OF set_clip_redraw [OF b w]], rule redraw_bind)
    fix s1 assume s1: "redraw t s s1" "base s1 t"
    let ?s2 = "engine [CallSetFillMode 0] (s1\<lparr>curgcp := None\<rparr>)"
    have s2: "redraw t s1 ?s2" using s1(2) by (intro redrawI) (simp_all add: baseD(3) engine_def)
    show "\<exists>s2. fill a b c d ?s2 = Some s2 \<and> redraw t s1 s2"
      using fill [OF redraw_trans [OF s1(1) s2], of a b c d] redraw_trans [OF s2] by blast
  next
    fix s2 assume "base s2 t"
    then show "\<exists>s'. (if flag then GsDeliverExposureEvent wp a b c d s2 else Some s2) = Some s' \<and> redraw t s2 s'"
      using exposure_redraw redraw_refl by simp
  qed
  show ?thesis
    unfolding GsWpClearWindow_def Let_def fill_def [symmetric]
    using redraw_refl [OF b] body unfolding fill_def by (auto split: prod.split)
qed

lemma shrink_grow: "shrink_window (w_bordersize w) (grow_window w) = w"
  by (simp add: shrink_window_def grow_window_def Let_def)

text \<open>Changing what the tree does not depend on.\<close>

lemma linked_cong:
  assumes "\<And>v. v \<in> set (nodes t) \<Longrightarrow> w_children (W' v) = w_children (W v) \<and> w_siblings (W' v) = w_siblings (W v) \<and> w_parent (W' v) = w_parent (W v)"
  shows "linked W' t \<longleftrightarrow> linked W t"
  using assms
proof (induction t)
  case (Node v ts)
  have "chain (\<lambda>p. w_siblings (W' p)) q (map root_of us) = chain (\<lambda>p. w_siblings (W p)) q (map root_of us)" if "set us \<subseteq> set ts" for q us
    using that
  proof (induction us arbitrary: q)
    case (Cons u us)
    have "root_of u \<in> set (nodes (Node v ts))" using Cons.prems roots_in_forest [of ts] by auto
    then have "w_siblings (W' (root_of u)) = w_siblings (W (root_of u))" using Node.prems by blast
    then show ?case using Cons by auto
  qed simp
  moreover have "w_parent (W' (root_of u)) = w_parent (W (root_of u))" "linked W' u \<longleftrightarrow> linked W u" if "u \<in> set ts" for u
  proof -
    have sub: "set (nodes u) \<subseteq> set (nodes (Node v ts))" using that by auto
    show "w_parent (W' (root_of u)) = w_parent (W (root_of u))" using Node.prems sub root_in_nodes [of u] by blast
    show "linked W' u \<longleftrightarrow> linked W u" using Node.IH [OF that] Node.prems sub by blast
  qed
  ultimately show ?case using Node.prems by simp
qed

lemma border_redraw:
  assumes b: "base s t" and w: "wp \<in> set (nodes t)"
  shows "\<exists>s'. GsDrawBorder beyond wp s = Some s' \<and> redraw t s s'"
proof (cases "w_bordersize (win s wp) \<le> 0")
  case True
  then show ?thesis using redraw_refl [OF b] by (simp add: GsDrawBorder_def)
next
  case False
  let ?s1 = "(upd_win wp grow_window s)\<lparr>clipwp := None\<rparr>"
  have "linked (win ?s1) t \<longleftrightarrow> linked (win s) t"
    by (rule linked_cong) (simp add: upd_win_def grow_window_def Let_def)
  then have "server_tree ?s1 t" using baseD(1) [OF b]
    by (simp add: server_tree_def window_tree_def) (auto simp: upd_win_def grow_window_def Let_def)
  moreover have "windows_drawable ?s1 t"
    using baseD(2) [OF b] False unfolding windows_drawable_def
    by (auto simp: upd_win_def grow_window_def win_ok_def Let_def)
  ultimately have b1: "base ?s1 t" using baseD(3) [OF b] by (simp add: base_def upd_win_def)
  obtain s2 where s2: "GsSetClipWindow beyond wp None False ?s1 = Some s2" "redraw t ?s1 s2"
    using set_clip_redraw [OF b1 w] by blast
  let ?cs = "[CallSetMode 0, CallSetForegroundColor (w_bordercolor (win s wp)), CallSetDash None, CallSetFillMode 0]"
  let ?s3 = "add_draws (border_draws (win s wp)) (engine ?cs (s2\<lparr>curgcp := None\<rparr>))"
  let ?s4 = "(upd_win wp (shrink_window (w_bordersize (win s wp))) ?s3)\<lparr>clipwp := None\<rparr>"
  have u3: "undrawn ?s3 = undrawn ?s1" using s2(2) by (simp add: redraw_def)
  have "win ?s3 = win ?s1" by (rule undrawn_fields(1) [OF u3])
  then have "(win ?s3)(wp := shrink_window (w_bordersize (win s wp)) (win ?s3 wp)) = win s"
    by (simp add: upd_win_def shrink_grow)
  then have "undrawn ?s4 = (undrawn ?s3)\<lparr>win := win s\<rparr>" by (simp add: undrawn_def upd_win_def)
  also have "\<dots> = undrawn s" unfolding u3 by (simp add: undrawn_def upd_win_def)
  finally have "undrawn ?s4 = undrawn s" .
  moreover have "evq_ok (evqueues ?s4)"
    using baseD(3) [OF redraw_base [OF s2(2)]] by (simp add: upd_win_def engine_def add_draws_def)
  ultimately have "redraw t s ?s4" by (intro redrawI [OF _ b]) simp_all
  moreover have "GsDrawBorder beyond wp s = Some ?s4"
    using False s2(1) by (simp add: GsDrawBorder_def Let_def)
  ultimately show ?thesis by blast
qed

section \<open>Subtrees\<close>

fun subs :: "wtree \<Rightarrow> wtree list" where
  "subs (Node v ts) = Node v ts # concat (map subs ts)"

lemma subs_self [simp]: "t \<in> set (subs t)"
  by (cases t) simp

lemma subs_child: "Node v ts \<in> set (subs t) \<Longrightarrow> u \<in> set ts \<Longrightarrow> u \<in> set (subs t)"
  by (induction t) fastforce

lemma subs_linked: "linked W t \<Longrightarrow> u \<in> set (subs t) \<Longrightarrow> linked W u"
  by (induction t) auto

lemma subs_nodes: "u \<in> set (subs t) \<Longrightarrow> set (nodes u) \<subseteq> set (nodes t)"
  by (induction t) fastforce

lemma subs_root: "u \<in> set (subs t) \<Longrightarrow> root_of u \<in> set (nodes t)"
  using subs_nodes [of u t] root_in_nodes [of u] by blast

lemma subs_distinct: "distinct (nodes t) \<Longrightarrow> u \<in> set (subs t) \<Longrightarrow> distinct (nodes u)"
proof (induction t)
  case (Node v ts)
  show ?case
  proof (cases "u = Node v ts")
    case False
    then obtain t where t: "t \<in> set ts" "u \<in> set (subs t)" using Node.prems(2) by auto
    have "distinct (nodes t)" using Node.prems(1) t(1) split_list [OF t(1)] by auto
    then show ?thesis using Node.IH t by blast
  qed (use Node.prems in simp)
qed

lemma node_sub: "v \<in> set (nodes t) \<Longrightarrow> \<exists>u\<in>set (subs t). root_of u = v"
  by (induction t) auto

lemma subs_parent: "u \<in> set (subs t) \<Longrightarrow> u \<noteq> t \<Longrightarrow> \<exists>p as bs. Node p (as @ u # bs) \<in> set (subs t)"
proof (induction t)
  case (Node v ts)
  then obtain t' where t': "t' \<in> set ts" "u \<in> set (subs t')" by auto
  show ?case
  proof (cases "u = t'")
    case True
    then show ?thesis using split_list [OF t'(1)] by fastforce
  next
    case False
    then obtain p as bs where "Node p (as @ u # bs) \<in> set (subs t')" using Node.IH [OF t'(1) t'(2)] by blast
    then have "Node p (as @ u # bs) \<in> set (subs (Node v ts))" using t'(1) by auto
    then show ?thesis by blast
  qed
qed

lemma subs_trans: "u \<in> set (subs t) \<Longrightarrow> w \<in> set (subs u) \<Longrightarrow> w \<in> set (subs t)"
  by (induction t) auto

lemma subs_roots_nodes: "map root_of (subs t) = nodes t"
proof (induction t)
  case (Node v ts)
  have "map (\<lambda>u. map root_of (subs u)) ts = map nodes ts" by (rule map_cong [OF refl Node.IH])
  then have "concat (map (\<lambda>u. map root_of (subs u)) ts) = forest_nodes ts" by (rule arg_cong)
  then show ?case by (simp only: subs.simps nodes.simps list.map map_concat map_map o_def wtree.sel)
qed

lemma sub_same:
  assumes "distinct (nodes t)" and "a \<in> set (subs t)" and "u \<in> set (subs t)" and "root_of a \<in> set (nodes u)"
  shows "a \<in> set (subs u)"
proof -
  obtain a' where a': "a' \<in> set (subs u)" "root_of a' = root_of a" using node_sub [OF assms(4)] by blast
  have "inj_on root_of (set (subs t))" using assms(1) subs_roots_nodes [of t] distinct_map by metis
  then have "a' = a" using a' assms(2) subs_trans [OF assms(3)] by (auto dest: inj_onD)
  then show ?thesis using a'(1) by simp
qed

lemma chain_from: "chain nx p (as @ a # bs) \<Longrightarrow> chain nx (nx a) bs"
  by (induction as arbitrary: p) auto


lemma base_forest:
  assumes "base s t" and "Node v ts \<in> set (subs t)"
  shows "chain (\<lambda>p. w_siblings (win s p)) (w_children (win s v)) (map root_of ts)" "set ts \<subseteq> set (subs t)"
    "v \<in> set (nodes t)" "u \<in> set ts \<Longrightarrow> w_parent (win s (root_of u)) = Some v"
  using subs_linked [OF baseD(5) [OF assms(1)] assms(2)] subs_child [OF assms(2)] subs_root [OF assms(2)] by auto

text \<open>The later siblings of a window.\<close>

lemma later_siblings:
  assumes "linked W t" and "u \<in> set (subs t)" and "u \<noteq> t"
  obtains p as bs where "Node p (as @ u # bs) \<in> set (subs t)" "w_parent (W (root_of u)) = Some p"
    "chain (\<lambda>p. w_siblings (W p)) (w_siblings (W (root_of u))) (map root_of bs)"
proof -
  obtain p as bs where p: "Node p (as @ u # bs) \<in> set (subs t)" using subs_parent [OF assms(2,3)] by blast
  from subs_linked [OF assms(1) p] show ?thesis
    using that [OF p] chain_from [of "\<lambda>p. w_siblings (W p)" "w_children (W p)" "map root_of as" "root_of u" "map root_of bs"] by auto
qed

section \<open>Walking along siblings\<close>

text \<open>
  The loops over siblings call a function for each window and follow \<open>siblings\<close> in the state it leaves.  \<open>R us s s'\<close>
  says what the call does for the subtrees \<open>us\<close>; a call must keep the sibling links.
\<close>

locale forest_walk =
  fixes one :: "win_ptr \<Rightarrow> server \<Rightarrow> server option"
    and many :: "win_ptr option \<Rightarrow> server \<Rightarrow> server option"
    and R :: "wtree list \<Rightarrow> server \<Rightarrow> server \<Rightarrow> bool"
    and ok :: "server \<Rightarrow> bool"
  assumes many_None: "many None s = Some s"
    and many_Some: "many (Some v) s = Option.bind (one v s) (\<lambda>s. many (w_siblings (win s v)) s)"
    and R_Nil: "ok s \<Longrightarrow> R [] s s"
    and R_Cons: "R [u] s s1 \<Longrightarrow> R us s1 s2 \<Longrightarrow> R (u # us) s s2"
    and R_ok: "R us s s1 \<Longrightarrow> ok s1"
    and R_siblings: "R us s s1 \<Longrightarrow> w_siblings (win s1 v) = w_siblings (win s v)"
begin

lemma visit_all:
  assumes "\<And>u s. u \<in> set us \<Longrightarrow> ok s \<Longrightarrow> P u s \<Longrightarrow> \<exists>s'. one (root_of u) s = Some s' \<and> R [u] s s'"
    and "\<And>as u bs u' s s'. us = as @ u # bs \<Longrightarrow> u' \<in> set bs \<Longrightarrow> P u' s \<Longrightarrow> R [u] s s' \<Longrightarrow> P u' s'"
    and "chain (\<lambda>p. w_siblings (win s p)) p (map root_of us)" and "ok s" and "\<forall>u\<in>set us. P u s"
  shows "\<exists>s'. many p s = Some s' \<and> R us s s'"
  using assms
proof (induction us arbitrary: p s)
  case Nil
  then show ?case using many_None R_Nil by simp
next
  case (Cons u us)
  have p: "p = Some (root_of u)" "chain (\<lambda>p. w_siblings (win s p)) (w_siblings (win s (root_of u))) (map root_of us)"
    using Cons.prems(3) by simp_all
  obtain s1 where s1: "one (root_of u) s = Some s1" "R [u] s s1"
    using Cons.prems(1) [of u s] Cons.prems(4,5) by auto
  have "\<exists>s'. many (w_siblings (win s1 (root_of u))) s1 = Some s' \<and> R us s1 s'"
  proof (rule Cons.IH)
    show "chain (\<lambda>p. w_siblings (win s1 p)) (w_siblings (win s1 (root_of u))) (map root_of us)"
      using p(2) R_siblings [OF s1(2)] by simp
    show "\<forall>u'\<in>set us. P u' s1" using Cons.prems(2) [of "[]" u us] Cons.prems(5) s1(2) by auto
    show "P u'' s''" if "us = as @ u' # bs" "u'' \<in> set bs" "P u'' s'" "R [u'] s' s''" for as u' bs u'' s' s''
      using Cons.prems(2) [of "u # as" u' bs u'' s' s''] that by simp
  qed (use Cons.prems(1) R_ok [OF s1(2)] in auto)
  then show ?case using p(1) s1 many_Some R_Cons [OF s1(2)] by auto
qed

end

section \<open>Exposing an area\<close>

lemma expose_window_redraw:
  assumes "base s t" and "wp \<in> set (nodes t)"
  shows "\<exists>s'. expose_window beyond wp rx ry width height s = Some s' \<and> redraw t s s'"
  unfolding expose_window_def Let_def
proof (rule redraw_bind)
  show "\<exists>s1. (if rx < w_x (win s wp) \<or> ry < w_y (win s wp) \<or> rx + width > w_x (win s wp) + w_width (win s wp) \<or>
      ry + height > w_y (win s wp) + w_height (win s wp) then GsDrawBorder beyond wp s else Some s) = Some s1 \<and> redraw t s s1"
    using border_redraw [OF assms] redraw_refl [OF assms(1)] by simp
qed (rule clear_redraw [OF _ assms(2)])

lemma expose_step:
  "expose_windows beyond rx ry width height stopwp True (Some v) s =
    Option.bind (expose_windows beyond rx ry width height stopwp False (Some v) s)
      (\<lambda>s. expose_windows beyond rx ry width height stopwp True (w_siblings (win s v)) s)"
  by (subst expose_windows.simps, subst (3) expose_windows.simps) simp

interpretation expose_walk: forest_walk "\<lambda>v. expose_windows beyond rx ry width height stopwp False (Some v)"
    "expose_windows beyond rx ry width height stopwp True" "\<lambda>us. redraw t" "\<lambda>s. base s t"
  for beyond rx ry width height stopwp t
proof unfold_locales
  show "expose_windows beyond rx ry width height stopwp True None s = Some s" for s by (simp add: expose_windows.simps)
qed (auto simp: expose_step redraw_refl redraw_base redraw_win intro: redraw_trans)

lemma expose_redraw_sub:
  assumes "u \<in> set (subs t)" and "base s t"
  shows "\<exists>s'. expose_windows beyond rx ry width height stopwp False (Some (root_of u)) s = Some s' \<and> redraw t s s'"
  using assms
proof (induction u arbitrary: s)
  case (Node v ts)
  note F = base_forest [OF Node.prems(2,1)]
  have kids: "\<exists>s'. expose_windows beyond rx ry width height stopwp True (w_children (win s1 v)) s1 = Some s' \<and> redraw t s1 s'"
    if s1: "redraw t s s1" for s1
    by (rule expose_walk.visit_all [where P = "\<lambda>_ _. True"])
      (use F(1,2) Node.IH redraw_win [OF s1] redraw_base [OF s1] in auto)
  let ?body = "Option.bind (expose_window beyond v rx ry width height s) (\<lambda>s.
    expose_windows beyond rx ry width height stopwp True (w_children (win s v)) s)"
  have "\<exists>s'. ?body = Some s' \<and> redraw t s s'"
  proof (rule redraw_bind [OF expose_window_redraw [OF Node.prems(2) F(3)]])
    fix s1 assume "redraw t s s1"
    from kids [OF this] show "\<exists>s2. expose_windows beyond rx ry width height stopwp True (w_children (win s1 v)) s1 = Some s2 \<and> redraw t s1 s2" .
  qed
  then show ?case using redraw_refl [OF Node.prems(2)] by (subst expose_windows.simps) auto
qed

lemma expose_redraw:
  assumes "base s t" and "v \<in> set (nodes t)"
  shows "\<exists>s'. GsExposeArea beyond v rx ry width height stopwp s = Some s' \<and> redraw t s s'"
  using expose_redraw_sub [OF _ assms(1)] node_sub [OF assms(2)] by (auto simp: GsExposeArea_def)

lemma expose_lower_redraw:
  assumes "set (map root_of us) \<subseteq> set (nodes t)"
  shows "base s t \<Longrightarrow> chain (\<lambda>p. w_siblings (win s p)) p (map root_of us) \<Longrightarrow>
    \<exists>s'. expose_lower beyond x y width height p s = Some s' \<and> redraw t s s'"
  using assms
proof (induction us arbitrary: p s)
  case Nil
  then show ?case using redraw_refl by (simp add: expose_lower.simps)
next
  case (Cons u us)
  have p: "p = Some (root_of u)" using Cons.prems(2) by simp
  have "\<exists>s'. Option.bind (GsExposeArea beyond (root_of u) x y width height None s)
      (\<lambda>s. expose_lower beyond x y width height (w_siblings (win s (root_of u))) s) = Some s' \<and> redraw t s s'"
  proof (rule redraw_bind [OF expose_redraw])
    fix s1 assume s1: "redraw t s s1" "base s1 t"
    then show "\<exists>s2. expose_lower beyond x y width height (w_siblings (win s1 (root_of u))) s1 = Some s2 \<and> redraw t s1 s2"
      using Cons.IH [of s1 "w_siblings (win s1 (root_of u))"] Cons.prems by (simp add: redraw_win [OF s1(1)])
  qed (use Cons.prems in simp_all)
  then show ?case by (subst expose_lower.simps) (simp add: p)
qed

lemma subs_roots: "set ts \<subseteq> set (subs t) \<Longrightarrow> set (map root_of ts) \<subseteq> set (nodes t)"
  using subs_root by fastforce

end
