(* ===== verification/Wop_Map.thy ===== *)
theory Wop_Map
  imports Wop_Draw
begin

text \<open>
  Realizing and unrealizing windows: which windows of the tree are visible afterwards.
\<close>

section \<open>States that differ in what is visible\<close>

text \<open>A state without what depends on the visible windows.\<close>

definition unseen :: "server \<Rightarrow> server" where
  "unseen s = (undrawn s)\<lparr>win := (\<lambda>v. (win s v)\<lparr>w_realized := False\<rparr>), mousewp := 0, focuswp := 0, curcursor := None\<rparr>"

definition seen :: "wtree \<Rightarrow> server \<Rightarrow> server \<Rightarrow> bool" where
  "seen t s s' \<longleftrightarrow> unseen s' = unseen s \<and> base s' t"

lemma unseen_win:
  assumes "unseen s' = unseen s"
  shows "win s' v = (win s v)\<lparr>w_realized := w_realized (win s' v)\<rparr>"
proof -
  have "win (unseen s') v = win (unseen s) v" using assms by simp
  then have "(win s' v)\<lparr>w_realized := False\<rparr> = (win s v)\<lparr>w_realized := False\<rparr>" by (simp add: unseen_def)
  then have "((win s' v)\<lparr>w_realized := False\<rparr>)\<lparr>w_realized := w_realized (win s' v)\<rparr> =
    ((win s v)\<lparr>w_realized := False\<rparr>)\<lparr>w_realized := w_realized (win s' v)\<rparr>" by simp
  then show ?thesis by simp
qed

lemma unseen_links:
  assumes "unseen s' = unseen s"
  shows "w_children (win s' v) = w_children (win s v)" "w_siblings (win s' v) = w_siblings (win s v)"
    "w_parent (win s' v) = w_parent (win s v)" "w_mapped (win s' v) = w_mapped (win s v)" "w_layer (win s' v) = w_layer (win s v)"
    "w_id (win s' v) = w_id (win s v)" "w_next (win s' v) = w_next (win s v)" "w_output (win s' v) = w_output (win s v)"
    "w_props (win s' v) = w_props (win s v)" "w_clipregion (win s' v) = w_clipregion (win s v)" "w_bgpixmap (win s' v) = w_bgpixmap (win s v)"
    "w_x (win s' v) = w_x (win s v)" "w_y (win s' v) = w_y (win s v)" "w_width (win s' v) = w_width (win s v)"
    "w_height (win s' v) = w_height (win s v)" "w_bordersize (win s' v) = w_bordersize (win s v)"
  by (subst unseen_win [OF assms, of v], simp)+

lemma unseen_fields:
  assumes "unseen s' = unseen s"
  shows "listwp s' = listwp s" "rootwp s' = rootwp s" "scrNumberOfLayers s' = scrNumberOfLayers s"
    "cachewindowid s' = cachewindowid s" "cachewp s' = cachewp s" "grabbuttonwp s' = grabbuttonwp s" "focusfixed s' = focusfixed s"
    "pixmaps s' = pixmaps s" "list_grabbed_keys s' = list_grabbed_keys s" "nextid s' = nextid s" "free_windows s' = free_windows s"
    "selection_wid s' = selection_wid s"
  using arg_cong [OF assms, of listwp] arg_cong [OF assms, of rootwp]
      arg_cong [OF assms, of scrNumberOfLayers] arg_cong [OF assms, of cachewindowid] arg_cong [OF assms, of cachewp]
      arg_cong [OF assms, of grabbuttonwp] arg_cong [OF assms, of focusfixed]
      arg_cong [OF assms, of pixmaps] arg_cong [OF assms, of list_grabbed_keys] arg_cong [OF assms, of nextid]
      arg_cong [OF assms, of free_windows] arg_cong [OF assms, of selection_wid]
  by (simp_all add: unseen_def undrawn_def)

lemma seenI:
  assumes u: "unseen s' = unseen s" and b: "base s t" and "evq_ok (evqueues s')"
    and "clipwp s' = clipwp s \<or> clipwp s' = None \<or> clipwp s' \<in> Some ` set (nodes t)"
    and m: "mousewp s' \<in> set (nodes t)" "focuswp s' \<in> set (nodes t)"
  shows "seen t s s'"
proof -
  note F = unseen_fields [OF u] and L = unseen_links [OF u]
  have "linked (win s') t" using baseD(5) [OF b] linked_cong [of t "win s'" "win s"] L(1-3) by simp
  then have "server_tree s' t" using baseD(1) [OF b] m by (simp add: server_tree_def window_tree_def F L)
  moreover have "windows_drawable s' t" using baseD(2) [OF b] unfolding windows_drawable_def win_ok_def by (simp add: F L)
  moreover have "\<forall>w. clipwp s' = Some w \<longrightarrow> w \<in> set (nodes t)" using assms(2,4) by (auto simp: base_def)
  ultimately show ?thesis using u assms(3) unfolding seen_def base_def by blast
qed

lemma seen_refl: "base s t \<Longrightarrow> seen t s s"
  by (simp add: seen_def)

lemma seen_trans: "seen t s s1 \<Longrightarrow> seen t s1 s2 \<Longrightarrow> seen t s s2"
  by (simp add: seen_def)

lemma seen_base: "seen t s s' \<Longrightarrow> base s' t"
  by (simp add: seen_def)

lemma seen_unseen: "seen t s s' \<Longrightarrow> unseen s' = unseen s"
  by (simp add: seen_def)

lemma redraw_seen: "redraw t s s' \<Longrightarrow> seen t s s'"
proof -
  assume r: "redraw t s s'"
  then have u: "undrawn s' = undrawn s" "base s' t" by (simp_all add: redraw_def)
  have "unseen s' = unseen s" using u(1) undrawn_fields(1) [OF u(1)] by (simp add: unseen_def)
  then show ?thesis using u(2) by (simp add: seen_def)
qed

text \<open>Steps that change no window: drawing, and a new mouse or focus window.\<close>

definition look :: "wtree \<Rightarrow> server \<Rightarrow> server \<Rightarrow> bool" where
  "look t s s' \<longleftrightarrow> seen t s s' \<and> win s' = win s"

lemma look_refl: "base s t \<Longrightarrow> look t s s"
  by (simp add: look_def seen_refl)

lemma look_trans: "look t s s1 \<Longrightarrow> look t s1 s2 \<Longrightarrow> look t s s2"
  using seen_trans by (simp add: look_def) blast

lemma look_base: "look t s s' \<Longrightarrow> base s' t"
  by (simp add: look_def seen_def)

lemma look_win: "look t s s' \<Longrightarrow> win s' = win s"
  by (simp add: look_def)

lemma redraw_look: "redraw t s s' \<Longrightarrow> look t s s'"
  by (simp add: look_def redraw_seen redraw_win)

lemma look_bind:
  assumes "\<exists>s1. r = Some s1 \<and> look t s s1" and "\<And>s1. look t s s1 \<Longrightarrow> base s1 t \<Longrightarrow> \<exists>s2. f s1 = Some s2 \<and> look t s1 s2"
  shows "\<exists>s2. Option.bind r f = Some s2 \<and> look t s s2"
proof -
  obtain s1 where s1: "r = Some s1" "look t s s1" using assms(1) by blast
  obtain s2 where "f s1 = Some s2" "look t s1 s2" using assms(2) [OF s1(2) look_base [OF s1(2)]] by blast
  then show ?thesis using s1 look_trans by auto
qed

lemma look_some: "look t s s' \<Longrightarrow> \<exists>s1. Some s' = Some s1 \<and> look t s s1"
  by simp

lemma redraw_looks: "\<exists>s'. r = Some s' \<and> redraw t s s' \<Longrightarrow> \<exists>s'. r = Some s' \<and> look t s s'"
  using redraw_look by blast

lemma mouse_look:
  assumes b: "base s t"
  shows "\<exists>s'. GsCheckMouseWindow s = Some s' \<and> look t s s'"
proof -
  let ?m = "mouse_window s (cursorx s) (cursory s)"
  obtain q where q: "GsCheckMouseWindow s = Some (s\<lparr>mousewp := ?m, evqueues := q\<rparr>)" "evq_ok q"
    using check_mouse_sent [OF baseD(1,3) [OF b]] sent_ok by blast
  have "?m \<in> set (nodes t)" by (rule mouse_window_node [OF baseD(1) [OF b]])
  moreover have "focuswp s \<in> set (nodes t)" using baseD(1) [OF b] by (simp add: server_tree_def)
  ultimately have "seen t s (s\<lparr>mousewp := ?m, evqueues := q\<rparr>)"
    by (intro seenI b) (simp_all add: q(2) unseen_def undrawn_def)
  then show ?thesis using q(1) by (auto simp: look_def)
qed

lemma focus_look:
  assumes b: "base s t"
  shows "\<exists>s'. GsCheckFocusWindow s = Some s' \<and> look t s s'"
proof -
  have m: "mousewp s \<in> set (nodes t)" using baseD(1) [OF b] by (simp add: server_tree_def)
  let ?f = "focus_window s t (mousewp s)"
  obtain q where q: "GsCheckFocusWindow s = Some (s\<lparr>focuswp := ?f, evqueues := q\<rparr>)" "evq_ok q"
    using check_focus_sent [OF baseD(1,3) [OF b]] sent_ok by blast
  have "?f \<in> set (nodes t)" by (rule focus_window_node [OF baseD(1) [OF b] m])
  then have "seen t s (s\<lparr>focuswp := ?f, evqueues := q\<rparr>)"
    using m by (intro seenI b) (simp_all add: q(2) unseen_def undrawn_def)
  then show ?thesis using q(1) by (auto simp: look_def)
qed

lemma cursor_look:
  assumes b: "base s t"
  shows "look t s (GsCheckCursor s)"
proof -
  note c = check_cursor(1) [of s]
  have "unseen (GsCheckCursor s) = unseen s" by (subst c) (simp add: unseen_def undrawn_def)
  moreover have "evqueues (GsCheckCursor s) = evqueues s" "clipwp (GsCheckCursor s) = clipwp s"
    "mousewp (GsCheckCursor s) = mousewp s" "focuswp (GsCheckCursor s) = focuswp s" "win (GsCheckCursor s) = win s"
    by (subst c, simp)+
  ultimately show ?thesis
    using baseD(1,3) [OF b] by (simp add: look_def) (intro seenI b, simp_all add: server_tree_def)
qed

lemma set_focus_look:
  assumes b: "base s t" and "f \<in> set (nodes t)"
  shows "look t s (s\<lparr>focuswp := f\<rparr>)"
  using assms(2) baseD(1,3) [OF b] by (simp add: look_def) (intro seenI b, simp_all add: server_tree_def unseen_def undrawn_def)


lemma base_root: "base s t \<Longrightarrow> rootwp s 0 \<in> set (nodes t)"
  using baseD(4) root_in_nodes [of t] by (auto simp: window_tree_def)

lemma update_look: "base s t \<Longrightarrow> look t s (GsDeliverUpdateEvent wp utype x y width height s)"
  by (rule redraw_look [OF update_redraw])

section \<open>Unrealizing\<close>

lemma uncover_look:
  assumes b: "base s t" and u: "u \<in> set (subs t)" "u \<noteq> t"
  shows "\<exists>s'. uncover beyond (root_of u) s = Some s' \<and> look t s s'"
proof -
  let ?w = "win s (root_of u)"
  let ?bs = "w_bordersize ?w"
  obtain p as bs where p: "Node p (as @ u # bs) \<in> set (subs t)" "w_parent ?w = Some p"
    "chain (\<lambda>p. w_siblings (win s p)) (w_siblings ?w) (map root_of bs)"
    by (rule later_siblings [OF baseD(5) [OF b] u])
  have pn: "p \<in> set (nodes t)" using subs_root [OF p(1)] by simp
  have sub: "set (map root_of bs) \<subseteq> set (nodes t)" using subs_child [OF p(1)] subs_root by fastforce
  have "\<exists>s'. Option.bind (GsWpClearWindow beyond p (w_x ?w - w_x (win s p) - ?bs) (w_y ?w - w_y (win s p) - ?bs)
        (w_width ?w + ?bs * 2) (w_height ?w + ?bs * 2) True s)
      (\<lambda>s'. expose_lower beyond (w_x ?w - ?bs) (w_y ?w - ?bs) (w_width ?w + ?bs * 2) (w_height ?w + ?bs * 2)
        (w_siblings (win s' (root_of u))) s') = Some s' \<and> look t s s'"
  proof (rule look_bind [OF redraw_looks [OF clear_redraw [OF b pn]]], rule redraw_looks, rule expose_lower_redraw [OF sub])
    fix s1 assume "look t s s1"
    then show "chain (\<lambda>p. w_siblings (win s1 p)) (w_siblings (win s1 (root_of u))) (map root_of bs)"
      using p(3) look_win by simp
  qed
  then show ?thesis using p(2) look_refl [OF b] by (auto simp: uncover_def Let_def)
qed

lemma unrealize_rest_look:
  assumes b: "base s t" and u: "u \<in> set (subs t)" "u \<noteq> t"
  shows "\<exists>s'. unrealize_rest beyond temp_unmap (root_of u) s = Some s' \<and> look t s s'"
  unfolding unrealize_rest_def
proof (rule look_bind, goal_cases mouse rest)
  case mouse
  obtain s1 where s1: "GsCheckMouseWindow s = Some s1" "look t s s1" using mouse_look [OF b] by blast
  then show ?case using look_trans [OF s1(2) cursor_look [OF look_base [OF s1(2)]]] look_refl [OF b] by simp
next
  case (rest s1)
  note b1 = rest(2)
  show ?case
  proof (rule look_bind, goal_cases focus uncover)
    case focus
    have root: "rootwp s1 (w_layer (win s1 (root_of u))) = rootwp s1 0" using baseD(6) [OF b1 subs_root [OF u(1)]] by simp
    have "\<exists>s'. (if focusfixed s1 then Some (s1\<lparr>focuswp := rootwp s1 0\<rparr>) else GsCheckFocusWindow (s1\<lparr>focusfixed := False\<rparr>)) = Some s' \<and>
      look t s1 s'"
    proof (cases "focusfixed s1")
      case False
      then have eq: "s1\<lparr>focusfixed := False\<rparr> = s1" by simp
      show ?thesis unfolding if_not_P [OF False] eq by (rule focus_look [OF b1])
    qed (use set_focus_look [OF b1 base_root [OF b1]] in simp)
    then show ?case unfolding root using look_refl [OF b1] by (cases "\<not> temp_unmap \<and> root_of u = focuswp s1") simp_all
  next
    case (uncover s2)
    let ?s = "GsDeliverUpdateEvent (root_of u) (if temp_unmap then GR_UPDATE_UNMAPTEMP else GR_UPDATE_UNMAP) 0 0 0 0 s2"
    have l: "look t s2 ?s" by (rule update_look [OF uncover(2)])
    then show ?case using uncover_look [OF look_base [OF l] u] look_trans [OF l] by blast
  qed
qed


text \<open>A hidden window has no visible descendants.\<close>

definition closed :: "server \<Rightarrow> wtree \<Rightarrow> bool" where
  "closed s u \<longleftrightarrow> (\<forall>w\<in>set (subs u). \<not> w_realized (win s (root_of w)) \<longrightarrow> (\<forall>v\<in>set (nodes w). \<not> w_realized (win s v)))"

text \<open>What unrealizing does: the windows of \<open>us\<close> are hidden.\<close>

definition hides :: "wtree \<Rightarrow> wtree list \<Rightarrow> server \<Rightarrow> server \<Rightarrow> bool" where
  "hides t us s s' \<longleftrightarrow> seen t s s' \<and>
     (\<forall>v. w_realized (win s' v) \<longleftrightarrow> w_realized (win s v) \<and> v \<notin> set (forest_nodes us))"

lemma unrealize_step:
  "unrealize_windows beyond temp_unmap True (Some v) s =
    Option.bind (unrealize_windows beyond temp_unmap False (Some v) s)
      (\<lambda>s. unrealize_windows beyond temp_unmap True (w_siblings (win s v)) s)"
  by (subst unrealize_windows.simps, subst (3) unrealize_windows.simps) simp

interpretation unrealize_walk: forest_walk "\<lambda>v. unrealize_windows beyond temp_unmap False (Some v)"
    "unrealize_windows beyond temp_unmap True" "hides t" "\<lambda>s. base s t"
  for beyond temp_unmap t
proof unfold_locales
  show "unrealize_windows beyond temp_unmap True None s = Some s" for s by (simp add: unrealize_windows.simps)
  show "hides t (u # us) s s2" if "hides t [u] s s1" "hides t us s1 s2" for u us s s1 s2
    using that seen_trans by (auto simp: hides_def)
  show "w_siblings (win s1 v) = w_siblings (win s v)" if "hides t us s s1" for us s s1 v
    using that unseen_links(2) [of s1 s v] by (simp add: hides_def seen_def)
qed (auto simp: unrealize_step hides_def seen_refl intro: seen_base)

lemma closed_hides:
  assumes "hides t us s s'" and "distinct (nodes t)" and "u \<in> set (subs t)" and "set us \<subseteq> set (subs t)" and "closed s u"
  shows "closed s' u"
  unfolding closed_def
proof (intro ballI impI)
  fix w v assume w: "w \<in> set (subs u)" and h: "\<not> w_realized (win s' (root_of w))" and v: "v \<in> set (nodes w)"
  show "\<not> w_realized (win s' v)"
  proof (cases "w_realized (win s (root_of w))")
    case True
    then obtain u' where u': "u' \<in> set us" "root_of w \<in> set (nodes u')" using h assms(1) by (auto simp: hides_def)
    then have "w \<in> set (subs u')" using sub_same [OF assms(2) subs_trans [OF assms(3) w]] assms(4) by blast
    then have "v \<in> set (forest_nodes us)" using v u'(1) subs_nodes by fastforce
    then show ?thesis using assms(1) by (simp add: hides_def)
  next
    case False
    then show ?thesis using assms(1,5) w v by (auto simp: hides_def closed_def)
  qed
qed

lemma clip_none_seen: "base s t \<Longrightarrow> seen t s (if b then s\<lparr>clipwp := None\<rparr> else s)"
  by (auto intro!: redraw_seen redrawI simp: baseD(3))

lemma hide_seen:
  assumes "base s t" and "wp \<in> set (nodes t)"
  shows "seen t s (upd_win wp (\<lambda>w. w\<lparr>w_realized := b\<rparr>) s)"
proof (rule seenI [OF _ assms(1)])
  show "unseen (upd_win wp (\<lambda>w. w\<lparr>w_realized := b\<rparr>) s) = unseen s"
    by (simp add: unseen_def undrawn_def upd_win_def fun_eq_iff)
qed (use baseD(1,3) [OF assms(1)] in \<open>simp_all add: upd_win_def server_tree_def\<close>)

lemma hides_look: "hides t us s s1 \<Longrightarrow> look t s1 s2 \<Longrightarrow> hides t us s s2"
  using seen_trans by (auto simp: hides_def look_def)

lemma unrealize_hides:
  assumes "u \<in> set (subs t)" and "u \<noteq> t" and "base s t" and "closed s u"
  shows "\<exists>s'. unrealize_windows beyond temp_unmap False (Some (root_of u)) s = Some s' \<and> hides t [u] s s'"
  using assms
proof (induction u arbitrary: s)
  case (Node v ts)
  note b = Node.prems(3) and sub = Node.prems(1)
  have d: "distinct (nodes t)" using baseD(4) [OF b] by (simp add: window_tree_def)
  have notroot: "v \<noteq> rootwp s (w_layer (win s v))"
  proof
    assume "v = rootwp s (w_layer (win s v))"
    then have "w_parent (win s v) = None" using baseD(4,6) [OF b] subs_root [OF sub] by (simp add: window_tree_def)
    then show False using later_siblings [OF baseD(5) [OF b] sub Node.prems(2)] by fastforce
  qed
  let ?s1 = "if Some v = clipwp s then s\<lparr>clipwp := None\<rparr> else s"
  have s1: "seen t s ?s1" "win ?s1 = win s" by (rule clip_none_seen [OF b]) simp
  show ?case
  proof (cases "w_realized (win s v)")
    case False
    then have "\<forall>x\<in>set (nodes (Node v ts)). \<not> w_realized (win s x)" using Node.prems(4) by (simp add: closed_def)
    then have "hides t [Node v ts] s ?s1" using s1 by (auto simp: hides_def)
    then show ?thesis using False notroot by (subst unrealize_windows.simps) auto
  next
    case True
    let ?s2 = "upd_win v (\<lambda>w. w\<lparr>w_realized := False\<rparr>) ?s1"
    have s2: "seen t s ?s2" by (rule seen_trans [OF s1(1) hide_seen [OF seen_base [OF s1(1)]]]) (use subs_root [OF sub] in simp)
    have r2: "w_realized (win ?s2 x) \<longleftrightarrow> w_realized (win s x) \<and> x \<noteq> v" for x using s1(2) by (simp add: upd_win_def)
    note L = unseen_links [OF seen_unseen [OF s2]]
    have h2: "hides t [] ?s2 ?s2" using seen_base [OF s2] by (simp add: hides_def seen_refl)
    have nv: "v \<notin> set (nodes u)" if "u \<in> set ts" for u using subs_distinct [OF d sub] that by auto
    have cl: "closed ?s2 u" if "u \<in> set ts" for u
    proof -
      have "root_of w \<noteq> v" if "w \<in> set (subs u)" for w using nv [OF \<open>u \<in> set ts\<close>] subs_root [OF that] by auto
      moreover have "w \<in> set (subs (Node v ts))" if "w \<in> set (subs u)" for w using that \<open>u \<in> set ts\<close> by auto
      ultimately show ?thesis using Node.prems(4) unfolding closed_def r2 by blast
    qed
    have "\<exists>s3. unrealize_windows beyond temp_unmap True (w_children (win ?s2 v)) ?s2 = Some s3 \<and> hides t ts ?s2 s3"
    proof (rule unrealize_walk.visit_all [where P = "\<lambda>u s. closed s u"])
      fix u s' assume u: "u \<in> set ts" and s': "base s' t" "closed s' u"
      have "u \<noteq> t"
      proof
        assume "u = t"
        then have "v \<in> set (nodes u)" using subs_root [OF sub] by simp
        then show False using nv [OF u] by simp
      qed
      then show "\<exists>s''. unrealize_windows beyond temp_unmap False (Some (root_of u)) s' = Some s'' \<and> hides t [u] s' s''"
        using Node.IH [OF u subs_child [OF sub u] _ s'] by blast
    next
      fix as u bs u' s' s'' assume "ts = as @ u # bs" "u' \<in> set bs" "closed s' u'" "hides t [u] s' s''"
      then show "closed s'' u'" using closed_hides [OF _ d, of "[u]" s' s'' u'] subs_child [OF sub] by simp
    next
      show "chain (\<lambda>p. w_siblings (win ?s2 p)) (w_children (win ?s2 v)) (map root_of ts)"
        using base_forest(1) [OF b sub] by (simp only: L)
    qed (use seen_base [OF s2] cl in auto)
    then obtain s3 where s3: "unrealize_windows beyond temp_unmap True (w_children (win ?s2 v)) ?s2 = Some s3" "hides t ts ?s2 s3"
      by blast
    have b3: "base s3 t" using s3(2) seen_base by (auto simp: hides_def)
    obtain s4 where s4: "unrealize_rest beyond temp_unmap v s3 = Some s4" "look t s3 s4"
      using unrealize_rest_look [OF b3 sub Node.prems(2)] by auto
    have "hides t [Node v ts] s s3" using s3(2) seen_trans [OF s2] r2 by (auto simp: hides_def)
    then have "hides t [Node v ts] s s4" using hides_look s4(2) by blast
    moreover have "unrealize_windows beyond temp_unmap False (Some v) s = Some s4"
    proof -
      have "w_children (win s v) = w_children (win ?s2 v)" by (simp only: L)
      then show ?thesis using True notroot s3(1) s4(1) by (subst unrealize_windows.simps) simp
    qed
    ultimately show ?thesis by auto
  qed
qed


section \<open>Realizing\<close>

text \<open>The windows of a subtree that are mapped with all their ancestors in it.\<close>

fun shown :: "(win_ptr \<Rightarrow> gr_window) \<Rightarrow> wtree \<Rightarrow> win_ptr set" where
  "shown W (Node v ts) = (if w_mapped (W v) then insert v (\<Union>u\<in>set ts. shown W u) else {})"

lemma shown_nodes: "shown W u \<subseteq> set (nodes u)"
  by (induction u) auto

lemma shown_cong: "(\<And>v. v \<in> set (nodes u) \<Longrightarrow> w_mapped (W v) = w_mapped (W' v)) \<Longrightarrow> shown W u = shown W' u"
  by (induction u) auto

definition shows_all :: "wtree \<Rightarrow> wtree list \<Rightarrow> server \<Rightarrow> server \<Rightarrow> bool" where
  "shows_all t us s s' \<longleftrightarrow> seen t s s' \<and>
     (\<forall>v. w_realized (win s' v) \<longleftrightarrow> w_realized (win s v) \<or> (\<exists>u\<in>set us. v \<in> shown (win s) u))"

lemma seen_shown: "seen t s s' \<Longrightarrow> shown (win s') u = shown (win s) u"
  by (rule shown_cong) (simp add: unseen_links(4) [OF seen_unseen])

lemma realize_step:
  "realize_windows beyond temp True (Some v) s =
    Option.bind (realize_windows beyond temp False (Some v) s)
      (\<lambda>s. realize_windows beyond temp True (w_siblings (win s v)) s)"
  by (subst realize_windows.simps, subst (3) realize_windows.simps) simp

interpretation realize_walk: forest_walk "\<lambda>v. realize_windows beyond temp False (Some v)"
    "realize_windows beyond temp True" "shows_all t" "\<lambda>s. base s t"
  for beyond temp t
proof unfold_locales
  show "realize_windows beyond temp True None s = Some s" for s by (simp add: realize_windows.simps)
  show "shows_all t (u # us) s s2" if r: "shows_all t [u] s s1" "shows_all t us s1 s2" for u us s s1 s2
  proof -
    have "shown (win s1) u' = shown (win s) u'" for u' by (rule seen_shown [of t]) (use r in \<open>simp add: shows_all_def\<close>)
    then show ?thesis using r seen_trans by (auto simp: shows_all_def)
  qed
  show "w_siblings (win s1 v) = w_siblings (win s v)" if "shows_all t us s s1" for us s s1 v
    using that unseen_links(2) [of s1 s v] by (simp add: shows_all_def seen_def)
qed (auto simp: realize_step shows_all_def seen_refl intro: seen_base)

lemma shows_look: "shows_all t us s s1 \<Longrightarrow> look t s1 s2 \<Longrightarrow> shows_all t us s s2"
  using seen_trans by (auto simp: shows_all_def look_def)

lemma realize_shown_look:
  assumes b: "base s t" and w: "wp \<in> set (nodes t)"
  shows "\<exists>s'. realize_shown beyond temp wp s = Some s' \<and> look t (upd_win wp (\<lambda>w. w\<lparr>w_realized := True\<rparr>) s) s'"
  unfolding realize_shown_def Let_def
proof (rule look_bind, goal_cases mouse draw)
  case mouse
  let ?s = "upd_win wp (\<lambda>w. w\<lparr>w_realized := True\<rparr>) s"
  have b1: "base ?s t" by (rule seen_base [OF hide_seen [OF b w]])
  have "\<exists>s'. Option.bind (GsCheckMouseWindow ?s) (\<lambda>s. Option.bind (GsCheckFocusWindow s) (\<lambda>s. Some (GsCheckCursor s))) = Some s' \<and>
    look t ?s s'"
    by (rule look_bind [OF mouse_look [OF b1]], rule look_bind [OF focus_look], assumption, rule look_some, rule cursor_look)
  then show ?case using look_refl [OF b1] by simp
next
  case (draw s1)
  have "\<exists>s'. Option.bind (GsDrawBorder beyond wp s1)
      (\<lambda>s. GsWpClearWindow beyond wp 0 0 (w_width (win s wp)) (w_height (win s wp)) True s) = Some s' \<and> look t s1 s'"
    by (rule look_bind [OF redraw_looks [OF border_redraw [OF draw(2) w]]], rule redraw_looks, rule clear_redraw [OF _ w])
  then show ?case using look_refl [OF draw(2)] by simp
qed

lemma sub_not_root:
  assumes "base s t" and "u \<in> set (subs t)" and "u \<noteq> t"
  shows "root_of u \<noteq> rootwp s (w_layer (win s (root_of u)))" "\<exists>p. w_parent (win s (root_of u)) = Some p"
proof -
  obtain p where p: "w_parent (win s (root_of u)) = Some p" using later_siblings [OF baseD(5) [OF assms(1)] assms(2,3)] by blast
  then show "root_of u \<noteq> rootwp s (w_layer (win s (root_of u)))" "\<exists>p. w_parent (win s (root_of u)) = Some p"
    using baseD(4,6) [OF assms(1)] subs_root [OF assms(2)] by (auto simp: window_tree_def)
qed

text \<open>The event for a window that is to be mapped.\<close>

lemma map_event_look:
  "base s t \<Longrightarrow> look t s (if temp then s
     else GsDeliverUpdateEvent v GR_UPDATE_MAP (w_x (win s v)) (w_y (win s v)) (w_width (win s v)) (w_height (win s v)) s)"
  using update_look look_refl by simp

lemma realize_hidden:
  assumes b: "base s t" and u: "u \<in> set (subs t)" "u \<noteq> t" and p: "w_parent (win s (root_of u)) = Some p"
    and "\<not> w_realized (win s (root_of u))" and "\<not> w_mapped (win s (root_of u)) \<or> \<not> w_realized (win s p)"
  shows "\<exists>s'. realize_windows beyond temp False (Some (root_of u)) s = Some s' \<and> look t s s'"
  using sub_not_root(1) [OF b u] map_event_look [OF b, of temp "root_of u"] look_win [OF map_event_look [OF b, of temp "root_of u"]] p assms(5,6)
  by (subst realize_windows.simps) auto

lemma realize_shows:
  assumes "u \<in> set (subs t)" and "u \<noteq> t" and "base s t" and "\<forall>v\<in>set (nodes u). \<not> w_realized (win s v)"
    and "w_parent (win s (root_of u)) = Some p" and "w_realized (win s p)"
  shows "\<exists>s'. realize_windows beyond temp False (Some (root_of u)) s = Some s' \<and> shows_all t [u] s s'"
  using assms
proof (induction u arbitrary: s p)
  case (Node v ts)
  note b = Node.prems(3) and sub = Node.prems(1)
  have d: "distinct (nodes t)" using baseD(4) [OF b] by (simp add: window_tree_def)
  show ?case
  proof (cases "w_mapped (win s v)")
    case False
    have "\<exists>s'. realize_windows beyond temp False (Some (root_of (Node v ts))) s = Some s' \<and> look t s s'"
      by (rule realize_hidden [OF b sub Node.prems(2,5)]) (use Node.prems(4) False in simp_all)
    then show ?thesis using False by (auto simp: shows_all_def look_def)
  next
    case True
    let ?s1 = "if temp then s
      else GsDeliverUpdateEvent v GR_UPDATE_MAP (w_x (win s v)) (w_y (win s v)) (w_width (win s v)) (w_height (win s v)) s"
    have s1: "look t s ?s1" by (rule map_event_look [OF b])
    have vn: "v \<in> set (nodes t)" using subs_root [OF sub] by simp
    let ?s2 = "upd_win v (\<lambda>w. w\<lparr>w_realized := True\<rparr>) ?s1"
    obtain s3 where s3: "realize_shown beyond temp v ?s1 = Some s3" "look t ?s2 s3"
      using realize_shown_look [OF look_base [OF s1] vn] by blast
    have seen3: "seen t s s3"
      using seen_trans [OF seen_trans [OF _ hide_seen [OF look_base [OF s1] vn]]] s1 s3(2) unfolding look_def by blast
    have r3: "w_realized (win s3 x) \<longleftrightarrow> w_realized (win s x) \<or> x = v" for x
      using look_win [OF s3(2)] look_win [OF s1] by (simp add: upd_win_def)
    note L = unseen_links [OF seen_unseen [OF seen3]]
    have nv: "v \<notin> set (nodes u)" if "u \<in> set ts" for u using subs_distinct [OF d sub] that by auto
    let ?P = "\<lambda>u s. w_parent (win s (root_of u)) = Some v \<and> w_realized (win s v) \<and> (\<forall>x\<in>set (nodes u). \<not> w_realized (win s x))"
    have "\<exists>s4. realize_windows beyond temp True (w_children (win s3 v)) s3 = Some s4 \<and> shows_all t ts s3 s4"
    proof (rule realize_walk.visit_all [where P = ?P])
      fix u s' assume u: "u \<in> set ts" and s': "base s' t" "?P u s'"
      have "u \<noteq> t"
      proof
        assume "u = t"
        then have "v \<in> set (nodes u)" using subs_root [OF sub] by simp
        then show False using nv [OF u] by simp
      qed
      then show "\<exists>s''. realize_windows beyond temp False (Some (root_of u)) s' = Some s'' \<and> shows_all t [u] s' s''"
        using Node.IH [OF u subs_child [OF sub u] _ s'(1)] s'(2) by blast
    next
      fix as u bs u' s' s'' assume a: "ts = as @ u # bs" "u' \<in> set bs" "?P u' s'" "shows_all t [u] s' s''"
      have "set (nodes u) \<inter> set (nodes u') = {}" using subs_distinct [OF d sub] a(1,2) by auto
      then have "x \<notin> shown (win s') u" if "x \<in> set (nodes u')" for x using shown_nodes [of "win s'" u] that by blast
      moreover have "w_parent (win s'' (root_of u')) = w_parent (win s' (root_of u'))"
        using a(4) unseen_links(3) [of s'' s' "root_of u'"] by (simp add: shows_all_def seen_def)
      ultimately show "?P u' s''" using a(3,4) by (auto simp: shows_all_def)
    next
      show "chain (\<lambda>p. w_siblings (win s3 p)) (w_children (win s3 v)) (map root_of ts)"
        using base_forest(1) [OF b sub] by (simp only: L)
      show "\<forall>u\<in>set ts. ?P u s3" using base_forest(4) [OF b sub] Node.prems(4) nv by (auto simp: L r3)
    qed (rule seen_base [OF seen3])
    then obtain s4 where s4: "realize_windows beyond temp True (w_children (win s3 v)) s3 = Some s4" "shows_all t ts s3 s4" by blast
    have "shows_all t [Node v ts] s s4"
      using s4(2) seen_trans [OF seen3] seen_shown [OF seen3] r3 True by (auto simp: shows_all_def)
    moreover have "realize_windows beyond temp False (Some v) s = Some s4"
    proof -
      note w = look_win [OF s1]
      show ?thesis
        using True sub_not_root(1) [OF b sub Node.prems(2)] Node.prems(4-6) s3(1) s4(1) w
        by (subst realize_windows.simps) (cases temp, simp_all)
    qed
    ultimately show ?thesis by auto
  qed
qed

end
