(* ===== verification/Wop_Vis.thy ===== *)
theory Wop_Vis
  imports Wop_Map
begin

text \<open>
  The invariant of the window operations, and which windows are visible: exactly those that are mapped with all their
  ancestors below the root window.
\<close>

section \<open>Visible windows\<close>

definition visible :: "(win_ptr \<Rightarrow> gr_window) \<Rightarrow> wtree \<Rightarrow> win_ptr \<Rightarrow> bool" where
  "visible W t v \<longleftrightarrow> (\<forall>a\<in>set (butlast (ancestors t v)). w_mapped (W a))"

definition vis_ok :: "server \<Rightarrow> wtree \<Rightarrow> bool" where
  "vis_ok s t \<longleftrightarrow> (\<forall>v\<in>set (nodes t). w_realized (win s v) \<longleftrightarrow> visible (win s) t v)"

text \<open>The same window by window: a window is visible when it is mapped and its parent is visible.\<close>

definition local_vis :: "server \<Rightarrow> win_ptr \<Rightarrow> bool" where
  "local_vis s v \<longleftrightarrow> (\<forall>p. w_parent (win s v) = Some p \<longrightarrow> (w_realized (win s v) \<longleftrightarrow> w_mapped (win s v) \<and> w_realized (win s p)))"

lemma parent_chain_unique:
  assumes "w_parent (W root) = None"
  shows "parent_chain W root ws \<Longrightarrow> parent_chain W root ws' \<Longrightarrow> hd ws = hd ws' \<Longrightarrow> ws = ws'"
proof (induction ws arbitrary: ws')
  case Nil
  then show ?case by (simp add: parent_chain_def)
next
  case (Cons w ws)
  then obtain vs where ws': "ws' = w # vs" by (cases ws') (auto simp: parent_chain_def)
  show ?case
  proof (cases "ws = []")
    case True
    then show ?thesis using Cons.prems(1,2) assms ws' by (auto simp: parent_chain_Cons split: if_splits)
  next
    case False
    then have "vs \<noteq> []" using Cons.prems(1,2) assms ws' by (auto simp: parent_chain_Cons split: if_splits)
    then show ?thesis using Cons.IH [of vs] Cons.prems(1,2) ws' False by (simp add: parent_chain_Cons)
  qed
qed

lemma ancestors_parent:
  assumes "window_tree W root t" and "v \<in> set (nodes t)"
  shows "w_parent (W v) = None \<Longrightarrow> v = root \<and> ancestors t v = [root]"
    "w_parent (W v) = Some p \<Longrightarrow> p \<in> set (nodes t) \<and> v \<noteq> root \<and> ancestors t v = v # ancestors t p"
proof -
  note A = ancestors_chain [OF assms]
  have none: "w_parent (W root) = None" using assms(1) by (simp add: window_tree_def)
  obtain ws where ws: "ancestors t v = v # ws" using A(1,2) by (cases "ancestors t v") (auto simp: parent_chain_def)
  { assume "w_parent (W v) = None"
    then show "v = root \<and> ancestors t v = [root]" using A(1) ws by (auto simp: parent_chain_Cons split: if_splits) }
  { assume p: "w_parent (W v) = Some p"
    then have c: "ws \<noteq> []" "hd ws = p" "parent_chain W root ws" "v \<noteq> root" using A(1) ws none by (auto simp: parent_chain_Cons split: if_splits)
    then have pn: "p \<in> set (nodes t)" using A(3) ws hd_in_set [of ws] by auto
    note B = ancestors_chain [OF assms(1) pn]
    have "ws = ancestors t p" by (rule parent_chain_unique [OF none c(3) B(1)]) (simp add: c(2) B(2))
    then show "p \<in> set (nodes t) \<and> v \<noteq> root \<and> ancestors t v = v # ancestors t p" using pn c(4) ws by simp }
qed

lemma visible_parent:
  assumes "window_tree W root t" and "v \<in> set (nodes t)"
  shows "w_parent (W v) = None \<Longrightarrow> visible W' t v"
    "w_parent (W v) = Some p \<Longrightarrow> visible W' t v \<longleftrightarrow> w_mapped (W' v) \<and> visible W' t p"
proof -
  { assume "w_parent (W v) = None"
    then have "ancestors t v = [root]" using ancestors_parent(1) [OF assms] by blast
    then show "visible W' t v" by (simp add: visible_def) }
  { assume p: "w_parent (W v) = Some p"
    note P = ancestors_parent(2) [OF assms p]
    have "ancestors t p \<noteq> []" using ancestors_chain(1) [OF assms(1)] P by (auto simp: parent_chain_def)
    then show "visible W' t v \<longleftrightarrow> w_mapped (W' v) \<and> visible W' t p" using P by (auto simp: visible_def) }
qed

lemma vis_local:
  assumes wt: "window_tree (win s) root t"
  shows "vis_ok s t \<longleftrightarrow> w_realized (win s root) \<and> (\<forall>v\<in>set (nodes t). local_vis s v)"
proof
  have rn: "root \<in> set (nodes t)" "w_parent (win s root) = None" using wt root_in_nodes [of t] by (auto simp: window_tree_def)
  { assume v: "vis_ok s t"
    then show "w_realized (win s root) \<and> (\<forall>v\<in>set (nodes t). local_vis s v)"
      using rn visible_parent [OF wt] ancestors_parent(2) [OF wt] by (auto simp: vis_ok_def local_vis_def) }
  assume l: "w_realized (win s root) \<and> (\<forall>v\<in>set (nodes t). local_vis s v)"
  have "w_realized (win s v) \<longleftrightarrow> visible (win s) t v" if "v \<in> set (nodes t)" for v
    using that
  proof (induction "length (ancestors t v)" arbitrary: v rule: less_induct)
    case less
    show ?case
    proof (cases "w_parent (win s v)")
      case None
      then show ?thesis using visible_parent(1) [OF wt less.prems] ancestors_parent(1) [OF wt less.prems] l by simp
    next
      case (Some p)
      note P = ancestors_parent(2) [OF wt less.prems Some]
      then have "w_realized (win s p) \<longleftrightarrow> visible (win s) t p" using less.hyps by simp
      then show ?thesis using visible_parent(2) [OF wt less.prems Some] l less.prems Some by (simp add: local_vis_def)
    qed
  qed
  then show "vis_ok s t" by (simp add: vis_ok_def)
qed

text \<open>A subtree is left only through its root.\<close>

lemma forest_disjoint:
  "distinct (forest_nodes ts) \<Longrightarrow> c \<in> set ts \<Longrightarrow> c' \<in> set ts \<Longrightarrow> c \<noteq> c' \<Longrightarrow> set (nodes c) \<inter> set (nodes c') = {}"
  by (induction ts) fastforce+

lemma shown_child:
  assumes "distinct (nodes (Node x ts))" and "c \<in> set ts" and "y \<in> set (nodes c)"
  shows "y \<in> shown W (Node x ts) \<longleftrightarrow> w_mapped (W x) \<and> y \<in> shown W c"
proof -
  have "y \<notin> shown W c'" if "c' \<in> set ts" "c' \<noteq> c" for c'
    using forest_disjoint [of ts c c'] assms that shown_nodes [of W c'] by auto
  moreover have "x \<noteq> y" using assms by auto
  ultimately show ?thesis using assms(2) by auto
qed

lemma parent_inside:
  assumes "linked W u" and "distinct (nodes u)" and "v \<in> set (nodes u)" and "v \<noteq> root_of u"
  shows "\<exists>p\<in>set (nodes u). w_parent (W v) = Some p \<and> (v \<in> shown W' u \<longleftrightarrow> w_mapped (W' v) \<and> p \<in> shown W' u)"
  using assms
proof (induction u)
  case (Node x ts)
  then obtain c where c: "c \<in> set ts" "v \<in> set (nodes c)" by auto
  have d: "distinct (nodes c)" "linked W c" "w_parent (W (root_of c)) = Some x" using Node.prems(1,2) c(1) split_list [OF c(1)] by auto
  note only = shown_child [OF Node.prems(2) c(1)]
  show ?case
  proof (cases "v = root_of c")
    case True
    have "v \<in> shown W' c \<longleftrightarrow> w_mapped (W' v)" using True by (cases c) auto
    then show ?thesis using only [OF c(2)] d(3) True by auto
  next
    case False
    obtain p where p: "p \<in> set (nodes c)" "w_parent (W v) = Some p" "v \<in> shown W' c \<longleftrightarrow> w_mapped (W' v) \<and> p \<in> shown W' c"
      using Node.IH [OF c(1) d(2,1) c(2) False] by blast
    then show ?thesis using only [OF c(2)] only [OF p(1)] c(1) by auto
  qed
qed

lemma parent_outside:
  assumes "window_tree W root t" and "u \<in> set (subs t)" and "v \<in> set (nodes t)" and "v \<notin> set (nodes u)" and "w_parent (W v) = Some p"
  shows "p \<notin> set (nodes u)"
proof
  assume p: "p \<in> set (nodes u)"
  have wt: "linked W t" "distinct (nodes t)" "w_parent (W (root_of t)) = None" using assms(1) by (auto simp: window_tree_def)
  obtain a where a: "a \<in> set (subs t)" "root_of a = v" using node_sub [OF assms(3)] by blast
  then have "a \<noteq> t" using wt(3) assms(5) by auto
  then obtain q as bs where q: "Node q (as @ a # bs) \<in> set (subs t)" "w_parent (W v) = Some q"
    using later_siblings [OF wt(1) a(1)] a(2) by metis
  then have "Node q (as @ a # bs) \<in> set (subs u)" using sub_same [OF wt(2) q(1) assms(2)] p assms(5) by simp
  from subs_nodes [OF this] show False using assms(4) a(2) root_in_nodes [of a] by auto
qed

lemma local_closed:
  assumes "linked (win s) u" and "\<forall>v\<in>set (nodes u). local_vis s v"
  shows "closed s u"
proof -
  have "\<not> w_realized (win s (root_of u)) \<Longrightarrow> \<forall>v\<in>set (nodes u). \<not> w_realized (win s v)"
    if "linked (win s) u" "\<forall>v\<in>set (nodes u). local_vis s v" for u
    using that
  proof (induction u)
    case (Node x ts)
    have "\<forall>v\<in>set (nodes c). \<not> w_realized (win s v)" if c: "c \<in> set ts" for c
    proof -
      have "root_of c \<in> set (nodes c)" by simp
      then have "root_of c \<in> set (nodes (Node x ts))" using c by (auto simp del: root_in_nodes)
      then have "\<not> w_realized (win s (root_of c))" using Node.prems c by (auto simp: local_vis_def)
      then show ?thesis using Node.IH [OF c] Node.prems c by auto
    qed
    then show ?case using Node.prems(1) by auto
  qed
  then show ?thesis using assms subs_linked [OF assms(1)] subs_nodes [of _ u] unfolding closed_def by blast
qed

section \<open>Hiding and showing a subtree\<close>

lemma local_seen:
  assumes "seen t s s'" and "w_realized (win s' v) \<longleftrightarrow> w_realized (win s v)"
    and "\<And>p. w_parent (win s v) = Some p \<Longrightarrow> w_realized (win s' p) \<longleftrightarrow> w_realized (win s p)"
  shows "local_vis s' v \<longleftrightarrow> local_vis s v"
  using assms unseen_links(3,4) [OF seen_unseen [OF assms(1)], of v] by (auto simp: local_vis_def)

text \<open>A subtree is hidden, and all other windows are as visible as they should be.\<close>

definition hidden_at :: "server \<Rightarrow> wtree \<Rightarrow> wtree \<Rightarrow> bool" where
  "hidden_at s t u \<longleftrightarrow> (\<forall>v\<in>set (nodes u). \<not> w_realized (win s v)) \<and> w_realized (win s (rootwp s 0)) \<and>
     (\<forall>v\<in>set (nodes t) - set (nodes u). local_vis s v)"

lemma root_outside:
  assumes "base s t" and "u \<in> set (subs t)" and "u \<noteq> t"
  shows "rootwp s 0 \<notin> set (nodes u)"
proof
  have wt: "distinct (nodes t)" "root_of t = rootwp s 0" using baseD(4) [OF assms(1)] by (simp_all add: window_tree_def)
  assume "rootwp s 0 \<in> set (nodes u)"
  then have "t \<in> set (subs u)" using sub_same [OF wt(1) _ assms(2), of t] wt(2) by simp
  then have "length (nodes t) \<le> length (nodes u)"
    using subs_nodes [of t u] wt(1) card_mono [of "set (nodes u)" "set (nodes t)"] distinct_card [of "nodes t"] card_length [of "nodes u"]
    by simp
  moreover have "length (nodes u) < length (nodes t)" if "u \<in> set (subs t)" "u \<noteq> t" for u t
    using that
  proof (induction t)
    case (Node v ts)
    then obtain c where c: "c \<in> set ts" "u \<in> set (subs c)" by auto
    have "length (nodes c) < length (nodes (Node v ts))" using split_list [OF c(1)] by auto
    then show ?case using Node.IH [OF c(1,2)] by (cases "u = c") auto
  qed
  ultimately show False using assms(2,3) by fastforce
qed

lemma unrealize_hidden:
  assumes b: "base s t" and v: "vis_ok s t" and u: "u \<in> set (subs t)" "u \<noteq> t"
  shows "\<exists>s'. GsWpUnrealizeWindow beyond (root_of u) temp s = Some s' \<and> seen t s s' \<and> hidden_at s' t u"
proof -
  note wt = baseD(4) [OF b]
  have l: "w_realized (win s (rootwp s 0))" "\<forall>v\<in>set (nodes t). local_vis s v" using v vis_local [OF wt] by auto
  have "closed s u" by (rule local_closed) (use subs_linked [OF baseD(5) [OF b] u(1)] subs_nodes [OF u(1)] l(2) in auto)
  from unrealize_hides [OF u b this, of beyond temp]
  obtain s' where s': "GsWpUnrealizeWindow beyond (root_of u) temp s = Some s'" "seen t s s'"
    "\<And>v. w_realized (win s' v) \<longleftrightarrow> w_realized (win s v) \<and> v \<notin> set (nodes u)"
    by (auto simp: GsWpUnrealizeWindow_def hides_def)
  have "local_vis s' v" if "v \<in> set (nodes t)" "v \<notin> set (nodes u)" for v
    using local_seen [OF s'(2), of v] s'(3) that parent_outside [OF wt u(1) that] l(2) by blast
  then have "hidden_at s' t u"
    using s'(3) root_outside [OF b u] l(1) unseen_fields(2) [OF seen_unseen [OF s'(2)]] by (auto simp: hidden_at_def)
  then show ?thesis using s' by blast
qed

lemma realize_visible:
  assumes b: "base s t" and h: "hidden_at s t u" and u: "u \<in> set (subs t)" "u \<noteq> t"
  shows "\<exists>s'. GsWpRealizeWindow beyond (root_of u) temp s = Some s' \<and> seen t s s' \<and> vis_ok s' t"
proof -
  note wt = baseD(4) [OF b]
  have hid: "\<forall>v\<in>set (nodes u). \<not> w_realized (win s v)" "w_realized (win s (rootwp s 0))"
    "\<forall>v\<in>set (nodes t) - set (nodes u). local_vis s v" using h by (simp_all add: hidden_at_def)
  obtain p where p: "w_parent (win s (root_of u)) = Some p" using sub_not_root(2) [OF b u] by blast
  define X where "X = (if w_realized (win s p) then shown (win s) u else {})"
  have X: "X \<subseteq> set (nodes u)" using shown_nodes [of "win s" u] by (simp add: X_def)
  obtain s' where s': "realize_windows beyond temp False (Some (root_of u)) s = Some s'" "seen t s s'"
    "\<And>v. w_realized (win s' v) \<longleftrightarrow> w_realized (win s v) \<or> v \<in> X"
  proof (cases "w_realized (win s p)")
    case True
    then show ?thesis using realize_shows [OF u b hid(1) p True, of beyond temp] that by (auto simp: shows_all_def X_def)
  next
    case False
    have "\<not> w_realized (win s (root_of u))" using hid(1) root_in_nodes [of u] by blast
    from realize_hidden [OF b u p this, of beyond temp] False show ?thesis using that by (auto simp: look_def X_def)
  qed
  note L = unseen_links(3,4) [OF seen_unseen [OF s'(2)]]
  have pn: "p \<notin> set (nodes u)"
  proof
    assume "p \<in> set (nodes u)"
    moreover obtain as bs where "Node p (as @ u # bs) \<in> set (subs t)"
      using later_siblings [OF baseD(5) [OF b] u] p by (metis option.sel)
    moreover have d: "distinct (nodes t)" using wt by (simp add: window_tree_def)
    ultimately have "Node p (as @ u # bs) \<in> set (subs u)" using sub_same [OF d _ u(1), of "Node p (as @ u # bs)"] by simp
    then have "set (nodes (Node p (as @ u # bs))) \<subseteq> set (nodes u)" by (rule subs_nodes)
    moreover have "distinct (nodes (Node p (as @ u # bs)))" using subs_distinct [OF d] \<open>Node p (as @ u # bs) \<in> set (subs t)\<close> by blast
    ultimately show False by auto
  qed
  have "local_vis s' v" if v: "v \<in> set (nodes t)" for v
  proof (cases "v \<in> set (nodes u)")
    case False
    then show ?thesis using local_seen [OF s'(2), of v] s'(3) X parent_outside [OF wt u(1) v False] hid(3) v by blast
  next
    case in_u: True
    show ?thesis
    proof (cases "v = root_of u")
      case True
      have "v \<in> shown (win s) u \<longleftrightarrow> w_mapped (win s v)" using True by (cases u) auto
      then show ?thesis using True p hid(1) in_u X pn by (auto simp: local_vis_def L s'(3) X_def)
    next
      case False
      obtain q where q: "q \<in> set (nodes u)" "w_parent (win s v) = Some q"
        "v \<in> shown (win s) u \<longleftrightarrow> w_mapped (win s v) \<and> q \<in> shown (win s) u"
        using parent_inside [OF subs_linked [OF baseD(5) [OF b] u(1)] _ in_u False] subs_distinct [OF _ u(1)] wt
        by (auto simp: window_tree_def)
      then show ?thesis using hid(1) in_u by (auto simp: local_vis_def L s'(3) X_def)
    qed
  qed
  moreover have "w_realized (win s' (rootwp s 0))" using hid(2) s'(3) by simp
  ultimately have "vis_ok s' t"
    using vis_local [OF baseD(4) [OF seen_base [OF s'(2)]]] unseen_fields(2) [OF seen_unseen [OF s'(2)]] by simp
  then show ?thesis using s' by (auto simp: GsWpRealizeWindow_def)
qed

end
