(* ===== verification/Wop_Place.thy ===== *)
theory Wop_Place
  imports Wop_Vis
begin

text \<open>
  The state of the server between the calls of its clients, and the calls that leave the tree as it is: mapping, unmapping, resizing and
  moving windows.
\<close>

section \<open>The invariant of the server\<close>

text \<open>
  Besides the tree and what is visible: one layer, whose list holds exactly the windows of the tree, with distinct identifiers; a valid cache;
  and free memory apart from the windows.
\<close>

definition window_list :: "server \<Rightarrow> wtree \<Rightarrow> win_ptr list \<Rightarrow> bool" where
  "window_list s t ws \<longleftrightarrow> scrNumberOfLayers s = 1 \<and> registry s (\<lambda>_. ws) \<and> set ws = set (nodes t) \<and> distinct ws"

definition cached :: "server \<Rightarrow> wtree \<Rightarrow> bool" where
  "cached s t \<longleftrightarrow> (cachewindowid s \<noteq> 0 \<longrightarrow> (\<exists>w\<in>set (nodes t). cachewp s = Some w \<and> w_id (win s w) = cachewindowid s))"

definition server_ok :: "server \<Rightarrow> wtree \<Rightarrow> bool" where
  "server_ok s t \<longleftrightarrow> base s t \<and> vis_ok s t \<and> (\<exists>ws. window_list s t ws) \<and> cached s t \<and>
     distinct (free_windows s) \<and> set (free_windows s) \<inter> set (nodes t) = {}"

text \<open>The part of it that does not speak of visibility: while a subtree is destroyed only this part holds.\<close>

definition tree_ok :: "server \<Rightarrow> wtree \<Rightarrow> bool" where
  "tree_ok s t \<longleftrightarrow> base s t \<and> (\<exists>ws. window_list s t ws) \<and> cached s t \<and>
     distinct (free_windows s) \<and> set (free_windows s) \<inter> set (nodes t) = {}"

lemma server_ok_tree: "server_ok s t \<longleftrightarrow> tree_ok s t \<and> vis_ok s t"
  by (auto simp: server_ok_def tree_ok_def)

lemma server_okD:
  assumes "server_ok s t"
  shows "base s t" "vis_ok s t" "\<exists>ws. window_list s t ws" "cached s t" "window_tree (win s) (rootwp s 0) t" "distinct (nodes t)"
    "linked (win s) t"
  using assms baseD(4) [of s t] by (auto simp: server_ok_def window_tree_def)

lemma window_list_iff:
  "window_list s t ws \<longleftrightarrow> scrNumberOfLayers s = 1 \<and> chain (\<lambda>p. w_next (win s p)) (listwp s 0) ws \<and> rootwp s 0 \<in> set ws \<and>
     w_id (win s (rootwp s 0)) = 1 \<and> inj_on (\<lambda>p. w_id (win s p)) (set ws) \<and> set ws = set (nodes t) \<and> distinct ws"
proof (cases "scrNumberOfLayers s = 1")
  case True
  then have "all_windows s (\<lambda>_. ws) = ws" by (simp add: all_windows_def)
  then show ?thesis using True by (auto simp: window_list_def registry_def)
qed (simp add: window_list_def)

text \<open>The invariant depends on the windows only through their links, identifiers and visibility.\<close>

lemma window_list_cong:
  assumes "window_list s t ws" and "\<And>v. w_next (win s' v) = w_next (win s v)" and "\<And>v. w_id (win s' v) = w_id (win s v)"
    and "listwp s' = listwp s" and "rootwp s' = rootwp s" and "scrNumberOfLayers s' = scrNumberOfLayers s"
  shows "window_list s' t ws"
  using assms(1) unfolding window_list_iff assms(2-6) .

lemma server_okI:
  assumes "server_ok s t" and "base s' t" and "vis_ok s' t"
    and "\<And>v. w_next (win s' v) = w_next (win s v)" and "\<And>v. w_id (win s' v) = w_id (win s v)"
    and "listwp s' = listwp s" and "rootwp s' = rootwp s" and "scrNumberOfLayers s' = scrNumberOfLayers s"
    and "cachewindowid s' = cachewindowid s" and "cachewp s' = cachewp s" and "free_windows s' = free_windows s"
  shows "server_ok s' t"
  using assms window_list_cong [of s t _ s'] by (auto simp: server_ok_def cached_def)

lemma server_ok_seen:
  assumes "server_ok s t" and "seen t s s'" and "vis_ok s' t"
  shows "server_ok s' t"
proof -
  note U = seen_unseen [OF assms(2)]
  show ?thesis
    by (rule server_okI [OF assms(1) seen_base [OF assms(2)] assms(3)]) (simp_all add: unseen_fields [OF U] unseen_links [OF U])
qed

lemma vis_ok_win:
  assumes "vis_ok s t" and "\<And>v. w_realized (win s' v) = w_realized (win s v)" and "\<And>v. w_mapped (win s' v) = w_mapped (win s v)"
  shows "vis_ok s' t"
  using assms by (simp add: vis_ok_def visible_def)

lemma server_ok_look:
  assumes "server_ok s t" and "look t s s'"
  shows "server_ok s' t"
proof (rule server_ok_seen [OF assms(1)])
  show "seen t s s'" using assms(2) by (simp add: look_def)
  show "vis_ok s' t" by (rule vis_ok_win [OF server_okD(2) [OF assms(1)]]) (simp_all add: look_win [OF assms(2)])
qed

text \<open>Finding a window.\<close>

definition with_cache :: "GR_WINDOW_ID \<Rightarrow> win_ptr option \<Rightarrow> server \<Rightarrow> server" where
  "with_cache cid cw s = s\<lparr>cachewindowid := cid, cachewp := cw\<rparr>"

lemma find_tree:
  assumes c: "tree_ok s t"
  obtains r cid cw where "GsFindWindow ident s = Some (r, with_cache cid cw s)" "tree_ok (with_cache cid cw s) t"
    "\<forall>v. r = Some v \<longleftrightarrow> v \<in> set (nodes t) \<and> w_id (win s v) = ident"
proof -
  obtain ws where ws: "window_list s t ws" using c by (auto simp: tree_ok_def)
  have all: "set (all_windows s (\<lambda>_. ws)) = set (nodes t)" using ws by (simp add: window_list_def all_windows_def)
  have "registry s (\<lambda>_. ws)" "cache_ok s (\<lambda>_. ws)"
    using ws c by (simp_all add: window_list_def cache_ok_def tree_ok_def cached_def all)
  note F = find_window [OF this, of ident, folded with_cache_def]
  obtain r cid cw where f: "GsFindWindow ident s = Some (r, with_cache cid cw s)"
    "\<forall>v. r = Some v \<longleftrightarrow> v \<in> set (all_windows s (\<lambda>_. ws)) \<and> w_id (win s v) = ident"
    "cache_ok (with_cache cid cw s) (\<lambda>_. ws)" using F by (elim exE conjE)
  have "base (with_cache cid cw s) t" using c by (simp add: tree_ok_def base_def server_tree_def windows_drawable_def with_cache_def)
  moreover have "cached (with_cache cid cw s) t"
    using f(3) all by (simp add: cache_ok_def cached_def with_cache_def)
  moreover have "window_list (with_cache cid cw s) t ws" by (rule window_list_cong [OF ws]) (simp_all add: with_cache_def)
  ultimately have "tree_ok (with_cache cid cw s) t" using c by (auto simp: tree_ok_def with_cache_def)
  then show ?thesis using that [OF f(1)] f(2) all by simp
qed

lemma find_node:
  assumes ok: "server_ok s t" and w: "w \<in> set (nodes t)"
  obtains cid cw where "GsFindWindow (w_id (win s w)) s = Some (Some w, with_cache cid cw s)" "server_ok (with_cache cid cw s) t"
proof -
  have c: "tree_ok s t" using ok by (simp add: server_ok_tree)
  obtain r cid cw where f: "GsFindWindow (w_id (win s w)) s = Some (r, with_cache cid cw s)" "tree_ok (with_cache cid cw s) t"
    "\<forall>v. r = Some v \<longleftrightarrow> v \<in> set (nodes t) \<and> w_id (win s v) = w_id (win s w)" by (rule find_tree [OF c])
  have "vis_ok (with_cache cid cw s) t" using server_okD(2) [OF ok] by (simp add: vis_ok_def visible_def with_cache_def)
  then show ?thesis using that f w by (simp add: server_ok_tree)
qed

lemma with_cache_fields [simp]:
  "win (with_cache cid cw s) = win s" "rootwp (with_cache cid cw s) = rootwp s" "listwp (with_cache cid cw s) = listwp s"
  "focuswp (with_cache cid cw s) = focuswp s" "mousewp (with_cache cid cw s) = mousewp s" "grabbuttonwp (with_cache cid cw s) = grabbuttonwp s"
  "evqueues (with_cache cid cw s) = evqueues s" "free_windows (with_cache cid cw s) = free_windows s" "nextid (with_cache cid cw s) = nextid s"
  by (simp_all add: with_cache_def)

section \<open>Changing one window\<close>

lemma upd_win_fields [simp]:
  "win (upd_win w f s) = (win s)(w := f (win s w))" "rootwp (upd_win w f s) = rootwp s" "listwp (upd_win w f s) = listwp s"
  "mousewp (upd_win w f s) = mousewp s" "focuswp (upd_win w f s) = focuswp s" "grabbuttonwp (upd_win w f s) = grabbuttonwp s"
  "evqueues (upd_win w f s) = evqueues s" "clipwp (upd_win w f s) = clipwp s" "pixmaps (upd_win w f s) = pixmaps s"
  "scrNumberOfLayers (upd_win w f s) = scrNumberOfLayers s" "cachewindowid (upd_win w f s) = cachewindowid s"
  "cachewp (upd_win w f s) = cachewp s" "free_windows (upd_win w f s) = free_windows s" "nextid (upd_win w f s) = nextid s"
  "selection_wid (upd_win w f s) = selection_wid s" "list_grabbed_keys (upd_win w f s) = list_grabbed_keys s"
  by (simp_all add: upd_win_def)

text \<open>Two windows with the same links and attributes; place, size and visibility may differ.\<close>

definition same_links :: "gr_window \<Rightarrow> gr_window \<Rightarrow> bool" where
  "same_links w w' \<longleftrightarrow> w_children w' = w_children w \<and> w_siblings w' = w_siblings w \<and> w_parent w' = w_parent w \<and> w_next w' = w_next w \<and>
     w_layer w' = w_layer w \<and> w_id w' = w_id w \<and> w_props w' = w_props w \<and> w_clipregion w' = w_clipregion w \<and> w_bgpixmap w' = w_bgpixmap w \<and>
     (win_ok w \<longrightarrow> win_ok w')"

lemma base_win:
  assumes b: "base s t" and w: "\<And>v. same_links (win s v) (win s' v)" and "rootwp s' = rootwp s" and "mousewp s' = mousewp s"
    and "focuswp s' = focuswp s" and "grabbuttonwp s' = grabbuttonwp s" and "clipwp s' = clipwp s \<or> clipwp s' = None" and "evqueues s' = evqueues s"
    and "pixmaps s' = pixmaps s"
  shows "base s' t"
proof -
  have l: "linked (win s') t" using baseD(5) [OF b] linked_cong [of t "win s'" "win s"] w by (simp add: same_links_def)
  have "server_tree s' t" using baseD(1) [OF b] l w assms(3-6) by (simp add: server_tree_def window_tree_def same_links_def)
  moreover have "windows_drawable s' t" using baseD(2) [OF b] w assms(9) by (simp add: windows_drawable_def same_links_def)
  ultimately show ?thesis using b assms(7,8) by (auto simp: base_def)
qed

lemma base_upd:
  assumes "base s t" and "same_links (win s w) (f (win s w))"
  shows "base (upd_win w f s) t"
  by (rule base_win [OF assms(1)]) (use assms(2) in \<open>auto simp: same_links_def\<close>)

lemma server_ok_upd:
  assumes "server_ok s t" and "same_links (win s w) (f (win s w))" and "vis_ok (upd_win w f s) t"
  shows "server_ok (upd_win w f s) t"
  by (rule server_okI [OF assms(1) base_upd [where f = f, OF server_okD(1) [OF assms(1)] assms(2)] assms(3)])
    (use assms(2) in \<open>auto simp: same_links_def\<close>)

text \<open>The windows are as in \<open>W\<close>, apart from what is visible.\<close>

definition windows_are :: "(win_ptr \<Rightarrow> gr_window) \<Rightarrow> server \<Rightarrow> bool" where
  "windows_are W s \<longleftrightarrow> (\<forall>v. win s v = (W v)\<lparr>w_realized := w_realized (win s v)\<rparr>)"

lemma windows_are_seen: "windows_are W s \<Longrightarrow> seen t s s' \<Longrightarrow> windows_are W s'"
  unfolding windows_are_def
proof
  fix v assume w: "\<forall>v. win s v = (W v)\<lparr>w_realized := w_realized (win s v)\<rparr>" and s: "seen t s s'"
  obtain r where r: "win s v = (W v)\<lparr>w_realized := r\<rparr>" using w by blast
  have "win s' v = (win s v)\<lparr>w_realized := w_realized (win s' v)\<rparr>" by (rule unseen_win [OF seen_unseen [OF s]])
  then show "win s' v = (W v)\<lparr>w_realized := w_realized (win s' v)\<rparr>" unfolding r by simp
qed

lemma windows_are_refl: "windows_are (win s) s"
  by (simp add: windows_are_def)

lemma windows_are_look: "windows_are W s \<Longrightarrow> look t s s' \<Longrightarrow> windows_are W s'"
  using windows_are_seen by (auto simp: look_def)

lemma windows_are_upd:
  assumes "windows_are W s" and "\<And>x r. f (x\<lparr>w_realized := r\<rparr>) = (f x)\<lparr>w_realized := r\<rparr>"
  shows "windows_are (W(w := f (W w))) (upd_win w f s)"
proof -
  have "f (win s w) = (f (W w))\<lparr>w_realized := w_realized (f (win s w))\<rparr>"
  proof -
    obtain r where r: "win s w = (W w)\<lparr>w_realized := r\<rparr>" using assms(1) unfolding windows_are_def by blast
    show ?thesis unfolding r assms(2) by simp
  qed
  then show ?thesis using assms(1) by (simp add: windows_are_def)
qed

lemma sub_of:
  assumes "server_ok s t" and "w \<in> set (nodes t)" and "w \<noteq> rootwp s 0"
  obtains u where "u \<in> set (subs t)" "root_of u = w" "u \<noteq> t"
proof -
  obtain u where u: "u \<in> set (subs t)" "root_of u = w" using node_sub [OF assms(2)] by blast
  then have "u \<noteq> t" using server_okD(5) [OF assms(1)] assms(3) by (auto simp: window_tree_def)
  then show ?thesis using that u by blast
qed

section \<open>Mapping and unmapping\<close>

text \<open>A hidden subtree stays hidden while its windows change.\<close>

lemma hidden_upd:
  assumes "hidden_at s t u" and "w \<in> set (nodes u)" and "same_links (win s w) (f (win s w))"
    and "w_realized (f (win s w)) = w_realized (win s w)" and "\<not> w_realized (win s w)"
  shows "hidden_at (upd_win w f s) t u"
proof -
  have "local_vis (upd_win w f s) v" if "v \<in> set (nodes t) - set (nodes u)" for v
  proof -
    have "v \<noteq> w" "local_vis s v" using assms(1,2) that by (auto simp: hidden_at_def)
    then show ?thesis using assms(4) by (auto simp: local_vis_def)
  qed
  then show ?thesis using assms by (auto simp: hidden_at_def)
qed

lemma hidden_seen:
  assumes "hidden_at s t u" and "look t s s'"
  shows "hidden_at s' t u"
  using assms unseen_fields(2) [of s' s] by (simp add: hidden_at_def look_def local_vis_def seen_def)

lemma map_window:
  assumes ok: "server_ok s t" and w: "w \<in> set (nodes t)" "w \<noteq> rootwp s 0"
  shows "\<exists>s'. GrMapWindow beyond (w_id (win s w)) s = Some s' \<and> server_ok s' t \<and>
    windows_are ((win s)(w := (win s w)\<lparr>w_mapped := True\<rparr>)) s'"
proof -
  obtain cid cw where f: "GsFindWindow (w_id (win s w)) s = Some (Some w, with_cache cid cw s)" "server_ok (with_cache cid cw s) t"
    by (rule find_node [OF ok w(1)])
  let ?s = "with_cache cid cw s"
  show ?thesis
  proof (cases "w_mapped (win s w)")
    case True
    then have "(win s w)\<lparr>w_mapped := True\<rparr> = win s w" by simp
    then have "(win s)(w := (win s w)\<lparr>w_mapped := True\<rparr>) = win s" by simp
    then show ?thesis using True f windows_are_refl [of ?s] by (intro exI [of _ ?s]) (simp add: GrMapWindow_def)
  next
    case False
    obtain u where u: "u \<in> set (subs t)" "root_of u = w" "u \<noteq> t" by (rule sub_of [OF ok w])
    note wt = server_okD(5) [OF f(2)]
    have vis: "w_realized (win s (rootwp s 0))" "\<forall>v\<in>set (nodes t). local_vis ?s v"
      using server_okD(2) [OF f(2)] vis_local [OF wt] by auto
    obtain p where p: "w_parent (win s w) = Some p" using sub_not_root(2) [OF server_okD(1) [OF f(2)] u(1,3)] u(2) by auto
    have "\<not> w_realized (win s w)" using vis(2) w(1) p False by (auto simp: local_vis_def)
    moreover have "closed ?s u"
      by (rule local_closed) (use subs_linked [OF server_okD(7) [OF f(2)] u(1)] subs_nodes [OF u(1)] vis(2) in auto)
    ultimately have hid: "\<forall>v\<in>set (nodes u). \<not> w_realized (win s v)" using u(2) by (auto simp: closed_def)
    then have "hidden_at ?s t u" using vis by (simp add: hidden_at_def)
    then have h: "hidden_at (upd_win w (\<lambda>w. w\<lparr>w_mapped := True\<rparr>) ?s) t u"
      by (rule hidden_upd) (use u(2) root_in_nodes [of u] hid in \<open>auto simp: same_links_def win_ok_def simp del: root_in_nodes\<close>)
    have b: "base (upd_win w (\<lambda>w. w\<lparr>w_mapped := True\<rparr>) ?s) t"
      by (rule base_upd [OF server_okD(1) [OF f(2)]]) (simp add: same_links_def win_ok_def)
    obtain s' where s': "GsWpRealizeWindow beyond w False (upd_win w (\<lambda>w. w\<lparr>w_mapped := True\<rparr>) ?s) = Some s'"
      "seen t (upd_win w (\<lambda>w. w\<lparr>w_mapped := True\<rparr>) ?s) s'" "vis_ok s' t"
      using realize_visible [OF b h u(1,3)] u(2) by auto
    note U = seen_unseen [OF s'(2)]
    have "server_ok s' t"
      by (rule server_okI [OF f(2) seen_base [OF s'(2)] s'(3)]) (simp_all add: unseen_fields [OF U] unseen_links [OF U])
    moreover have "windows_are ((win s)(w := (win s w)\<lparr>w_mapped := True\<rparr>)) s'"
      by (rule windows_are_seen [OF _ s'(2)]) (simp add: windows_are_def)
    ultimately show ?thesis using f(1) False s'(1) by (intro exI [of _ s']) (simp add: GrMapWindow_def)
  qed
qed

text \<open>A hidden subtree whose root is not mapped is as hidden as it should be.\<close>

lemma hidden_vis:
  assumes b: "base s t" and u: "u \<in> set (subs t)" and h: "hidden_at s t u" and m: "\<not> w_mapped (win s (root_of u))"
  shows "vis_ok s t"
proof -
  have "local_vis s v" if v: "v \<in> set (nodes t)" for v
  proof (cases "v \<in> set (nodes u)")
    case True
    show ?thesis
    proof (cases "v = root_of u")
      case False
      have "distinct (nodes u)" using subs_distinct [OF _ u] baseD(4) [OF b] by (simp add: window_tree_def)
      from parent_inside [OF subs_linked [OF baseD(5) [OF b] u] this True False] show ?thesis
        using h True by (auto simp: hidden_at_def local_vis_def)
    qed (use h True m in \<open>auto simp: hidden_at_def local_vis_def\<close>)
  qed (use h v in \<open>auto simp: hidden_at_def\<close>)
  then show ?thesis using vis_local [OF baseD(4) [OF b]] h by (simp add: hidden_at_def)
qed

lemma unmap_window:
  assumes ok: "server_ok s t" and w: "w \<in> set (nodes t)" "w \<noteq> rootwp s 0"
  shows "\<exists>s'. GrUnmapWindow beyond (w_id (win s w)) s = Some s' \<and> server_ok s' t \<and>
    windows_are ((win s)(w := (win s w)\<lparr>w_mapped := False\<rparr>)) s'"
proof -
  obtain cid cw where f: "GsFindWindow (w_id (win s w)) s = Some (Some w, with_cache cid cw s)" "server_ok (with_cache cid cw s) t"
    by (rule find_node [OF ok w(1)])
  let ?s = "with_cache cid cw s" and ?f = "\<lambda>w. w\<lparr>w_mapped := False\<rparr>"
  show ?thesis
  proof (cases "w_mapped (win s w)")
    case False
    then have "(win s w)\<lparr>w_mapped := False\<rparr> = win s w" by simp
    then have "(win s)(w := (win s w)\<lparr>w_mapped := False\<rparr>) = win s" by simp
    then show ?thesis using False f windows_are_refl [of ?s] by (intro exI [of _ ?s]) (simp add: GrUnmapWindow_def)
  next
    case True
    obtain u where u: "u \<in> set (subs t)" "root_of u = w" "u \<noteq> t" by (rule sub_of [OF ok w])
    obtain s' where s': "GsWpUnrealizeWindow beyond w False ?s = Some s'" "seen t ?s s'" "hidden_at s' t u"
      using unrealize_hidden [OF server_okD(1,2) [OF f(2)] u(1,3)] u(2) by auto
    have un: "w \<in> set (nodes u)" using u(2) root_in_nodes [of u] by simp
    have nr: "\<not> w_realized (win s' w)" using s'(3) un by (simp add: hidden_at_def)
    note b = base_upd [where f = ?f, OF seen_base [OF s'(2)], of w]
    have b: "base (upd_win w ?f s') t" by (rule b) (simp add: same_links_def win_ok_def)
    have h: "hidden_at (upd_win w ?f s') t u" by (rule hidden_upd [OF s'(3) un]) (simp_all add: same_links_def win_ok_def nr)
    have v: "vis_ok (upd_win w ?f s') t" by (rule hidden_vis [OF b u(1) h]) (simp add: u(2))
    note U = seen_unseen [OF s'(2)]
    have "server_ok (upd_win w ?f s') t"
      by (rule server_okI [OF f(2) b v]) (simp_all add: unseen_fields [OF U] unseen_links [OF U])
    moreover have "windows_are (win s) s'" by (rule windows_are_seen [OF _ s'(2)]) (simp add: windows_are_def)
    then have "windows_are ((win s)(w := ?f (win s w))) (upd_win w ?f s')" by (rule windows_are_upd) simp
    ultimately show ?thesis using f(1) True s'(1) by (intro exI [of _ "upd_win w ?f s'"]) (simp add: GrUnmapWindow_def)
  qed
qed

section \<open>Sizes\<close>

lemma resize_window:
  assumes ok: "server_ok s t" and w: "w \<in> set (nodes t)" "w \<noteq> rootwp s 0" and size: "0 < width" "0 < height"
  shows "\<exists>s'. GrResizeWindow beyond (w_id (win s w)) width height s = Some s' \<and> server_ok s' t \<and>
    windows_are ((win s)(w := (win s w)\<lparr>w_width := width, w_height := height\<rparr>)) s'"
proof -
  obtain cid cw where f: "GsFindWindow (w_id (win s w)) s = Some (Some w, with_cache cid cw s)" "server_ok (with_cache cid cw s) t"
    by (rule find_node [OF ok w(1)])
  let ?s = "with_cache cid cw s" and ?f = "\<lambda>w. w\<lparr>w_width := width, w_height := height\<rparr>"
  note goal = GrResizeWindow_def f(1) w(2) baseD(6) [OF server_okD(1) [OF ok] w(1)]
  have l: "same_links x (?f x)" for x using size by (simp add: same_links_def win_ok_def)
  consider (same) "w_width (win s w) = width \<and> w_height (win s w) = height"
    | (unseen) "\<not> (w_width (win s w) = width \<and> w_height (win s w) = height)" "\<not> w_realized (win s w) \<or> \<not> w_output (win s w)"
    | (seen) "\<not> (w_width (win s w) = width \<and> w_height (win s w) = height)" "w_realized (win s w) \<and> w_output (win s w)" by blast
  then show ?thesis
  proof cases
    case same
    then have "(win s w)\<lparr>w_width := width, w_height := height\<rparr> = win s w" by auto
    then have "(win s)(w := ?f (win s w)) = win s" by simp
    then show ?thesis using same size f windows_are_refl [of ?s] by (intro exI [of _ ?s]) (simp add: goal Let_def)
  next
    case unseen
    have "server_ok (upd_win w ?f ?s) t"
      by (rule server_ok_upd [where f = ?f, OF f(2)]) (rule l, rule vis_ok_win [OF server_okD(2) [OF f(2)]], simp_all)
    moreover have "windows_are ((win s)(w := ?f (win s w))) (upd_win w ?f ?s)" by (simp add: windows_are_def)
    ultimately show ?thesis using unseen size by (intro exI [of _ "upd_win w ?f ?s"]) (auto simp: goal Let_def)
  next
    case seen
    obtain u where u: "u \<in> set (subs t)" "root_of u = w" "u \<noteq> t" by (rule sub_of [OF ok w])
    obtain s1 where s1: "GsWpUnrealizeWindow beyond w True ?s = Some s1" "seen t ?s s1" "hidden_at s1 t u"
      using unrealize_hidden [OF server_okD(1,2) [OF f(2)] u(1,3)] u(2) by auto
    have un: "w \<in> set (nodes u)" using u(2) root_in_nodes [of u] by simp
    have nr: "\<not> w_realized (win s1 w)" using s1(3) un by (simp add: hidden_at_def)
    let ?s2 = "upd_win w ?f s1"
    have b2: "base ?s2 t" by (rule base_upd [where f = ?f, OF seen_base [OF s1(2)], OF l])
    have h2: "hidden_at ?s2 t u" by (rule hidden_upd [where f = ?f, OF s1(3) un l]) (simp_all add: nr)
    let ?s3 = "GsDeliverUpdateEvent w GR_UPDATE_SIZE (w_x (win ?s2 w)) (w_y (win ?s2 w)) width height ?s2"
    have s3: "look t ?s2 ?s3" by (rule update_look [OF b2])
    obtain s4 where s4: "GsWpRealizeWindow beyond w False ?s3 = Some s4" "seen t ?s3 s4" "vis_ok s4 t"
      using realize_visible [OF look_base [OF s3] hidden_seen [OF h2 s3] u(1,3)] u(2) by auto
    have m: "server_ok s4 t"
    proof -
      note U = seen_unseen [OF s1(2)] and U4 = seen_unseen [OF seen_trans [OF s3 [unfolded look_def, THEN conjunct1] s4(2)]]
      show ?thesis
        by (rule server_okI [OF f(2) seen_base [OF s4(2)] s4(3)])
          (auto simp: unseen_fields [OF U4] unseen_links [OF U4] unseen_fields [OF U] unseen_links [OF U])
    qed
    have "windows_are (win s) s1" by (rule windows_are_seen [OF _ s1(2)]) (simp add: windows_are_def)
    then have "windows_are ((win s)(w := ?f (win s w))) ?s2" by (rule windows_are_upd) simp
    then have "windows_are ((win s)(w := ?f (win s w))) s4" using windows_are_seen [OF windows_are_look [OF _ s3] s4(2)] by blast
    then show ?thesis using m seen size s1(1) s4(1) by (intro exI [of _ s4]) (auto simp: goal Let_def)
  qed
qed

end
