(* ===== verification/Wop_Move.thy ===== *)
theory Wop_Move
  imports Wop_Place
begin

text \<open>
  Moving a window: all windows of its subtree are shifted by the same distance, whether they are redrawn in place or hidden
  and shown again.
\<close>

section \<open>Shifted windows\<close>

definition shift :: "MWCOORD \<Rightarrow> MWCOORD \<Rightarrow> gr_window \<Rightarrow> gr_window" where
  "shift dx dy w = w\<lparr>w_x := SAFE_PLUS (w_x w) dx, w_y := SAFE_PLUS (w_y w) dy\<rparr>"

definition shifted :: "MWCOORD \<Rightarrow> MWCOORD \<Rightarrow> win_ptr set \<Rightarrow> (win_ptr \<Rightarrow> gr_window) \<Rightarrow> win_ptr \<Rightarrow> gr_window" where
  "shifted dx dy V W v = (if v \<in> V then shift dx dy (W v) else W v)"

lemma shift_fields [simp]:
  "w_realized (shift dx dy w) = w_realized w" "w_mapped (shift dx dy w) = w_mapped w" "w_parent (shift dx dy w) = w_parent w"
  "w_next (shift dx dy w) = w_next w" "w_id (shift dx dy w) = w_id w" "w_layer (shift dx dy w) = w_layer w"
  by (simp_all add: shift_def)

lemma shifted_fields [simp]:
  "w_realized (shifted dx dy V W v) = w_realized (W v)" "w_mapped (shifted dx dy V W v) = w_mapped (W v)"
  "w_parent (shifted dx dy V W v) = w_parent (W v)" "w_next (shifted dx dy V W v) = w_next (W v)"
  "w_id (shifted dx dy V W v) = w_id (W v)" "w_layer (shifted dx dy V W v) = w_layer (W v)"
  by (simp_all add: shifted_def)

lemma same_links_shift: "same_links w (shift dx dy w)"
  by (simp add: same_links_def shift_def win_ok_def)

lemma shifted_zero: "shifted 0 0 V W = W"
  by (rule ext) (simp add: shifted_def shift_def SAFE_PLUS_def)

lemma base_shifted:
  assumes "base s t"
  shows "base (s\<lparr>win := shifted dx dy V (win s)\<rparr>) t"
  by (rule base_win [OF assms]) (simp_all add: shifted_def same_links_shift, simp add: same_links_def)

lemma fold_shift:
  "distinct vs \<Longrightarrow> fold (\<lambda>v W. W(v := shift dx dy (W v))) vs W = shifted dx dy (set vs) W"
proof (induction vs arbitrary: W)
  case (Cons v vs)
  then show ?case by (intro ext) (simp add: shifted_def)
qed (simp add: shifted_def fun_eq_iff)

text \<open>The walk over a forest shifts its windows one after the other.\<close>

definition moved :: "MWCOORD \<Rightarrow> MWCOORD \<Rightarrow> wtree \<Rightarrow> wtree list \<Rightarrow> server \<Rightarrow> server \<Rightarrow> bool" where
  "moved dx dy t us s s' \<longleftrightarrow> base s' t \<and> s' = s\<lparr>win := fold (\<lambda>v W. W(v := shift dx dy (W v))) (forest_nodes us) (win s)\<rparr>"

lemma fold_shift_siblings: "w_siblings (fold (\<lambda>v W. W(v := shift dx dy (W v))) vs W v) = w_siblings (W v)"
  by (induction vs arbitrary: W) (auto simp: shift_def)

lemma offset_step:
  "offset_windows dx dy True (Some v) s =
    Option.bind (offset_windows dx dy False (Some v) s) (\<lambda>s. offset_windows dx dy True (w_siblings (win s v)) s)"
  by (subst offset_windows.simps, subst (3) offset_windows.simps) simp

interpretation offset_walk: forest_walk "\<lambda>v. offset_windows dx dy False (Some v)" "offset_windows dx dy True" "moved dx dy t" "\<lambda>s. base s t"
  for dx dy t
proof unfold_locales
  show "offset_windows dx dy True None s = Some s" for s by (simp add: offset_windows.simps)
qed (auto simp: offset_step moved_def fold_shift_siblings)

lemma offset_moved:
  assumes "u \<in> set (subs t)" and "base s t"
  shows "\<exists>s'. offset_windows dx dy False (Some (root_of u)) s = Some s' \<and> moved dx dy t [u] s s'"
  using assms
proof (induction u arbitrary: s)
  case (Node v ts)
  note F = base_forest [OF Node.prems(2,1)]
  let ?s = "upd_win v (shift dx dy) s"
  have b: "base ?s t" by (rule base_upd [where f = "shift dx dy", OF Node.prems(2) same_links_shift])
  have "\<exists>s'. offset_windows dx dy True (w_children (win ?s v)) ?s = Some s' \<and> moved dx dy t ts ?s s'"
    by (rule offset_walk.visit_all [where P = "\<lambda>_ _. True"]) (use base_forest [OF b Node.prems(1)] Node.IH b in auto)
  then obtain s' where s': "offset_windows dx dy True (w_children (win ?s v)) ?s = Some s'" "moved dx dy t ts ?s s'" by blast
  have "moved dx dy t [Node v ts] s s'" using s'(2) by (auto simp: moved_def upd_win_def)
  moreover have "offset_windows dx dy False (Some v) s = Some s'"
    using s'(1) by (subst offset_windows.simps) (simp add: upd_win_def shift_def [abs_def])
  ultimately show ?case by simp
qed

lemma OffsetWindow_total:
  assumes "u \<in> set (subs t)" and "base s t"
  shows "OffsetWindow (root_of u) dx dy s = Some (s\<lparr>win := shifted dx dy (set (nodes u)) (win s)\<rparr>)"
proof -
  have "distinct (nodes u)" using subs_distinct [OF _ assms(1)] baseD(4) [OF assms(2)] by (simp add: window_tree_def)
  then show ?thesis using offset_moved [OF assms, of dx dy] by (auto simp: OffsetWindow_def moved_def fold_shift)
qed

text \<open>The events for the moved windows.\<close>

lemma events_step:
  "move_events True (Some v) s =
    Option.bind (move_events False (Some v) s) (\<lambda>s. move_events True (w_siblings (win s v)) s)"
  by (subst move_events.simps, subst (3) move_events.simps) simp

interpretation events_walk: forest_walk "\<lambda>v. move_events False (Some v)" "move_events True" "\<lambda>us. look t" "\<lambda>s. base s t" for t
proof unfold_locales
  show "move_events True None s = Some s" for s by (simp add: move_events.simps)
qed (auto simp: events_step look_refl look_base look_win intro: look_trans)

lemma events_look:
  assumes "u \<in> set (subs t)" and "base s t"
  shows "\<exists>s'. DeliverUpdateMoveEventAndChildren (root_of u) s = Some s' \<and> look t s s'"
  unfolding DeliverUpdateMoveEventAndChildren_def using assms
proof (induction u arbitrary: s)
  case (Node v ts)
  let ?s = "update_event v GR_UPDATE_MOVE s"
  have l: "look t s ?s" unfolding update_event_def Let_def by (rule update_look [OF Node.prems(2)])
  have "\<exists>s'. move_events True (w_children (win ?s v)) ?s = Some s' \<and> look t ?s s'"
    by (rule events_walk.visit_all [where P = "\<lambda>_ _. True"]) (use base_forest [OF look_base [OF l] Node.prems(1)] Node.IH look_base [OF l] in auto)
  then show ?case using look_trans [OF l] look_win [OF l] by (subst move_events.simps) auto
qed

section \<open>Moving a window\<close>

lemma windows_are_shifted:
  assumes "windows_are W s"
  shows "windows_are (shifted dx dy V W) (s\<lparr>win := shifted dx dy V (win s)\<rparr>)"
  unfolding windows_are_def
proof
  fix v
  obtain r where r: "win s v = (W v)\<lparr>w_realized := r\<rparr>" using assms unfolding windows_are_def by blast
  show "win (s\<lparr>win := shifted dx dy V (win s)\<rparr>) v
    = (shifted dx dy V W v)\<lparr>w_realized := w_realized (win (s\<lparr>win := shifted dx dy V (win s)\<rparr>) v)\<rparr>"
    by (simp add: shifted_def shift_def r)
qed

lemma windows_are_win: "windows_are W s \<Longrightarrow> win s' = win s \<Longrightarrow> windows_are W s'"
  by (simp add: windows_are_def)

lemma server_ok_shifted:
  assumes "server_ok s t"
  shows "server_ok (s\<lparr>win := shifted dx dy V (win s)\<rparr>) t"
proof (rule server_okI [OF assms base_shifted [OF server_okD(1) [OF assms]]])
  show "vis_ok (s\<lparr>win := shifted dx dy V (win s)\<rparr>) t" by (rule vis_ok_win [OF server_okD(2) [OF assms]]) simp_all
qed simp_all

lemma server_ok_clip: "server_ok s t \<Longrightarrow> server_ok (s\<lparr>clipwp := None\<rparr>) t"
  by (rule server_ok_look) (auto intro!: redraw_look redrawI simp: server_okD(1) baseD(3) [OF server_okD(1)])

lemma move_in_place:
  assumes ok: "server_ok s t" and u: "u \<in> set (subs t)"
  shows "\<exists>s'. Option.bind (OffsetWindow (root_of u) dx dy s) (\<lambda>s. Option.bind
      (GsExposeArea beyond (rootwp s 0) (X s) (Y s) (W s) (H s) None (s\<lparr>clipwp := None\<rparr>)) (DeliverUpdateMoveEventAndChildren (root_of u)))
      = Some s' \<and> server_ok s' t \<and> windows_are (shifted dx dy (set (nodes u)) (win s)) s'"
proof -
  let ?s1 = "s\<lparr>win := shifted dx dy (set (nodes u)) (win s)\<rparr>" and ?s2 = "s\<lparr>win := shifted dx dy (set (nodes u)) (win s), clipwp := None\<rparr>"
  have ok2: "server_ok ?s2 t" using server_ok_clip [OF server_ok_shifted [OF ok]] by simp
  have root: "rootwp s 0 \<in> set (nodes t)" by (rule base_root [OF server_okD(1) [OF ok]])
  obtain s3 where s3: "GsExposeArea beyond (rootwp s 0) (X ?s1) (Y ?s1) (W ?s1) (H ?s1) None ?s2 = Some s3" "look t ?s2 s3"
    using redraw_looks [OF expose_redraw [OF server_okD(1) [OF ok2] root]] by blast
  obtain s4 where s4: "DeliverUpdateMoveEventAndChildren (root_of u) s3 = Some s4" "look t s3 s4"
    using events_look [OF u look_base [OF s3(2)]] by blast
  note l = look_trans [OF s3(2) s4(2)]
  have "windows_are (shifted dx dy (set (nodes u)) (win s)) ?s2" by (simp add: windows_are_def)
  from windows_are_look [OF this l] show ?thesis
    using OffsetWindow_total [OF u server_okD(1) [OF ok]] s3(1) s4(1) server_ok_look [OF ok2 l] by simp
qed

lemma hidden_shifted: "hidden_at s t u \<Longrightarrow> hidden_at (s\<lparr>win := shifted dx dy V (win s)\<rparr>) t u"
  by (simp add: hidden_at_def local_vis_def)

lemma move_hidden:
  assumes ok: "server_ok s t" and u: "u \<in> set (subs t)" "u \<noteq> t"
  shows "\<exists>s'. Option.bind (GsWpUnrealizeWindow beyond (root_of u) True s) (\<lambda>s. Option.bind (OffsetWindow (root_of u) dx dy s)
      (\<lambda>s. Option.bind (GsWpRealizeWindow beyond (root_of u) False s) (DeliverUpdateMoveEventAndChildren (root_of u))))
      = Some s' \<and> server_ok s' t \<and> windows_are (shifted dx dy (set (nodes u)) (win s)) s'"
proof -
  obtain s1 where s1: "GsWpUnrealizeWindow beyond (root_of u) True s = Some s1" "seen t s s1" "hidden_at s1 t u"
    using unrealize_hidden [OF server_okD(1,2) [OF ok] u] by blast
  let ?s2 = "s1\<lparr>win := shifted dx dy (set (nodes u)) (win s1)\<rparr>"
  have b2: "base ?s2 t" by (rule base_shifted [OF seen_base [OF s1(2)]])
  obtain s3 where s3: "GsWpRealizeWindow beyond (root_of u) False ?s2 = Some s3" "seen t ?s2 s3" "vis_ok s3 t"
    using realize_visible [OF b2 hidden_shifted [OF s1(3)] u] by blast
  obtain s4 where s4: "DeliverUpdateMoveEventAndChildren (root_of u) s3 = Some s4" "look t s3 s4"
    using events_look [OF u(1) seen_base [OF s3(2)]] by blast
  note U = seen_unseen [OF s1(2)] and U3 = seen_unseen [OF s3(2)]
  have "server_ok s3 t"
    by (rule server_okI [OF ok seen_base [OF s3(2)] s3(3)])
      (simp_all add: unseen_fields [OF U3] unseen_links [OF U3] unseen_fields [OF U] unseen_links [OF U])
  moreover have "windows_are (win s) s1" by (rule windows_are_seen [OF windows_are_refl s1(2)])
  then have "windows_are (shifted dx dy (set (nodes u)) (win s)) s3"
    using windows_are_seen [OF windows_are_shifted s3(2)] by blast
  ultimately show ?thesis
    using s1(1) OffsetWindow_total [OF u(1) seen_base [OF s1(2)]] s3(1) s4(1) server_ok_look [OF _ s4(2)] windows_are_look [OF _ s4(2)] by simp
qed

lemma move_window:
  assumes ok: "server_ok s t" and u: "u \<in> set (subs t)" "u \<noteq> t" and w: "root_of u = w" and p: "w_parent (win s w) = Some p"
    and dx: "dx = SAFE_PLUS x (w_x (win s p)) - w_x (win s w)" and dy: "dy = SAFE_PLUS y (w_y (win s p)) - w_y (win s w)"
  shows "\<exists>s'. GrMoveWindow beyond (w_id (win s w)) x y s = Some s' \<and> server_ok s' t \<and>
    windows_are (shifted dx dy (set (nodes u)) (win s)) s'"
proof -
  have wn: "w \<in> set (nodes t)" using subs_root [OF u(1)] w by simp
  obtain cid cw where f: "GsFindWindow (w_id (win s w)) s = Some (Some w, with_cache cid cw s)" "server_ok (with_cache cid cw s) t"
    by (rule find_node [OF ok wn])
  let ?s = "with_cache cid cw s"
  have nr: "w \<noteq> rootwp s (w_layer (win s w))" using sub_not_root(1) [OF server_okD(1) [OF ok] u] w by simp
  note goal = GrMoveWindow_def f(1) p
  show ?thesis
  proof (cases "dx = 0 \<and> dy = 0")
    case True
    then have "w_x (win s w) = SAFE_PLUS x (w_x (win s p)) \<and> w_y (win s w) = SAFE_PLUS y (w_y (win s p))" by (simp add: dx dy)
    then show ?thesis using True f nr windows_are_refl [of ?s]
      by (intro exI [of _ ?s]) (simp add: goal Let_def shifted_zero)
  next
    case False
    then have ne: "\<not> (w_x (win s w) = SAFE_PLUS x (w_x (win s p)) \<and> w_y (win s w) = SAFE_PLUS y (w_y (win s p)))" by (auto simp: dx dy)
    have lay: "w_layer (win s w) = 0" by (rule baseD(6) [OF server_okD(1) [OF ok] wn])
    show ?thesis
    proof (cases "w_mapped (win s w) \<and> w_children (win s p) = Some w")
      case True
      let ?w = "win s w"
      from move_in_place [OF f(2) u(1), of dx dy beyond "\<lambda>s. min (w_x ?w) (w_x (win s w))" "\<lambda>s. min (w_y ?w) (w_y (win s w))"
          "\<lambda>s. SAFE_PLUS (max (w_x ?w) (w_x (win s w))) (w_width (win s w)) - min (w_x ?w) (w_x (win s w))"
          "\<lambda>s. SAFE_PLUS (max (w_y ?w) (w_y (win s w))) (w_height (win s w)) - min (w_y ?w) (w_y (win s w))"]
      show ?thesis using True ne nr OffsetWindow_total [OF u(1) server_okD(1) [OF f(2)]]
        by (auto simp: goal Let_def w dx [symmetric] dy [symmetric] lay)
    next
      case False
      from move_hidden [OF f(2) u, of beyond dx dy] show ?thesis
        using False ne nr by (auto simp: goal Let_def w dx [symmetric] dy [symmetric])
    qed
  qed
qed

end
