(* ===== verification/Wop_Edit.thy ===== *)
theory Wop_Edit
  imports Wop_Move "HOL-Library.Multiset"
begin

text \<open>
  Relinking the tree: the children of one window are replaced by another forest.  Raising, lowering, creating and destroying
  windows are such edits.
\<close>

text \<open>The windows of a forest, as a set that the simplifier does not take apart.\<close>

definition windows :: "wtree list \<Rightarrow> win_ptr set" where
  "windows ts = set (forest_nodes ts)"

lemma windows_simps [simp]:
  "windows [] = {}" "windows (t # ts) = set (nodes t) \<union> windows ts" "windows (ts @ us) = windows ts \<union> windows us"
  by (simp_all add: windows_def)

lemma windows_mem: "t \<in> set ts \<Longrightarrow> x \<in> set (nodes t) \<Longrightarrow> x \<in> windows ts"
  by (auto simp: windows_def)

lemma nodes_windows: "set (nodes (Node v ts)) = insert v (windows ts)"
  by (simp add: windows_def)

lemma distinct_around:
  assumes "distinct (nodes (Node v (xs @ c # ys)))"
  shows "distinct (nodes c)" "\<forall>x\<in>set (nodes c). x \<noteq> v \<and> x \<notin> windows xs \<and> x \<notin> windows ys"
  using assms by (auto simp: windows_def)

section \<open>Replacing the children of a window\<close>

fun with_children :: "win_ptr \<Rightarrow> wtree list \<Rightarrow> wtree \<Rightarrow> wtree" where
  "with_children p us (Node v ts) = Node v (if v = p then us else map (with_children p us) ts)"

lemma root_with [simp]: "root_of (with_children p us t) = root_of t"
  by (cases t) simp

lemma with_other: "p \<notin> set (nodes t) \<Longrightarrow> with_children p us t = t"
  by (induction t) (auto intro: map_idI)

lemma map_with_other: "p \<notin> windows ts \<Longrightarrow> map (with_children p us) ts = ts"
  by (induction ts) (auto simp: with_other)

lemma sub_unique:
  assumes "distinct (nodes t)" and "a \<in> set (subs t)" and "b \<in> set (subs t)" and "root_of a = root_of b"
  shows "a = b"
proof -
  have "inj_on root_of (set (subs t))" using assms(1) subs_roots_nodes [of t] distinct_map by metis
  then show ?thesis using assms(2-4) by (auto dest: inj_onD)
qed

text \<open>A subtree is the whole tree or lies below one child, and its windows are not elsewhere.\<close>

lemma sub_below:
  assumes "distinct (nodes (Node v ts))" and "a \<in> set (subs (Node v ts))" and "a \<noteq> Node v ts"
  obtains xs c ys where "ts = xs @ c # ys" "a \<in> set (subs c)" "distinct (nodes c)"
    "\<forall>x\<in>set (nodes a). x \<noteq> v \<and> x \<notin> windows xs \<and> x \<notin> windows ys"
proof -
  obtain c where c: "c \<in> set ts" "a \<in> set (subs c)" using assms(2,3) by auto
  obtain xs ys where ts: "ts = xs @ c # ys" using split_list [OF c(1)] by blast
  note d = distinct_around [OF assms(1) [unfolded ts]]
  have "set (nodes a) \<subseteq> set (nodes c)" by (rule subs_nodes [OF c(2)])
  then show ?thesis using that [OF ts c(2) d(1)] d(2) by blast
qed

lemma with_below:
  assumes "\<forall>x\<in>set (nodes a). x \<noteq> v \<and> x \<notin> windows xs \<and> x \<notin> windows ys" and "p \<in> set (nodes a)"
  shows "with_children p us (Node v (xs @ c # ys)) = Node v (xs @ with_children p us c # ys)"
proof -
  note p = bspec [OF assms]
  then have "p \<noteq> v" "map (with_children p us) xs = xs" "map (with_children p us) ys = ys" using map_with_other by blast+
  then show ?thesis by simp
qed

lemma with_nodes:
  assumes "distinct (nodes t)" and "Node p ts \<in> set (subs t)"
  shows "mset (nodes (with_children p us t)) + mset (forest_nodes ts) = mset (nodes t) + mset (forest_nodes us)"
  using assms
proof (induction t)
  case (Node v vs)
  show ?case
  proof (cases "Node p ts = Node v vs")
    case False
    obtain xs c ys where c: "vs = xs @ c # ys" "Node p ts \<in> set (subs c)" "distinct (nodes c)"
      "\<forall>x\<in>set (nodes (Node p ts)). x \<noteq> v \<and> x \<notin> windows xs \<and> x \<notin> windows ys"
      by (rule sub_below [OF Node.prems False])
    have "mset (nodes (with_children p us c)) + mset (forest_nodes ts) = mset (nodes c) + mset (forest_nodes us)"
      using Node.IH [of c] c(1-3) by simp
    then show ?thesis unfolding c(1) by (subst with_below [OF c(4)]) (auto simp: union_ac)
  qed simp
qed

lemma with_sub:
  assumes "distinct (nodes t)" and "Node p ts \<in> set (subs t)"
  shows "Node p us \<in> set (subs (with_children p us t))"
  using assms
proof (induction t)
  case (Node v vs)
  show ?case
  proof (cases "Node p ts = Node v vs")
    case False
    obtain xs c ys where c: "vs = xs @ c # ys" "Node p ts \<in> set (subs c)" "distinct (nodes c)"
      "\<forall>x\<in>set (nodes (Node p ts)). x \<noteq> v \<and> x \<notin> windows xs \<and> x \<notin> windows ys"
      by (rule sub_below [OF Node.prems False])
    have "Node p us \<in> set (subs (with_children p us c))" using Node.IH [of c] c(1-3) by simp
    then show ?thesis unfolding c(1) by (subst with_below [OF c(4)]) auto
  qed simp
qed

lemma with_with:
  assumes "distinct (nodes t)" and "Node p ts \<in> set (subs t)"
  shows "with_children p us (with_children p vs t) = with_children p us t"
  using assms
proof (induction t)
  case (Node v ws)
  show ?case
  proof (cases "Node p ts = Node v ws")
    case False
    obtain xs c ys where c: "ws = xs @ c # ys" "Node p ts \<in> set (subs c)" "distinct (nodes c)"
      "\<forall>x\<in>set (nodes (Node p ts)). x \<noteq> v \<and> x \<notin> windows xs \<and> x \<notin> windows ys"
      by (rule sub_below [OF Node.prems False])
    have "with_children p us (with_children p vs c) = with_children p us c" using Node.IH [of c] c(1-3) by simp
    then show ?thesis unfolding c(1) by (simp add: with_below [OF c(4)] del: with_children.simps)
  qed simp
qed

text \<open>An edit below one of the children of \<open>p\<close>, followed by one of the children of \<open>p\<close>.\<close>

lemma with_inner:
  assumes "distinct (nodes t)" and "Node p (as @ Node w ts # bs) \<in> set (subs t)"
  shows "Node p (as @ Node w us # bs) \<in> set (subs (with_children w us t))"
    "with_children p vs (with_children w us t) = with_children p vs t"
proof -
  let ?a = "Node p (as @ Node w ts # bs)"
  have "Node p (as @ Node w us # bs) \<in> set (subs (with_children w us t)) \<and>
    with_children p vs (with_children w us t) = with_children p vs t"
    using assms
  proof (induction t)
    case (Node v ws)
    show ?case
    proof (cases "?a = Node v ws")
      case True
      then have ws: "v = p" "ws = as @ Node w ts # bs" by simp_all
      then have e: "with_children w us (Node v ws) = Node p (as @ Node w us # bs)"
        using distinct_around(2) [of p as "Node w ts" bs] Node.prems(1) map_with_other [of w as us] map_with_other [of w bs us] by simp
      show ?thesis unfolding e by (simp add: ws)
    next
      case False
      obtain xs c ys where c: "ws = xs @ c # ys" "?a \<in> set (subs c)" "distinct (nodes c)"
        "\<forall>x\<in>set (nodes ?a). x \<noteq> v \<and> x \<notin> windows xs \<and> x \<notin> windows ys"
        by (rule sub_below [OF Node.prems False])
      have "Node p (as @ Node w us # bs) \<in> set (subs (with_children w us c)) \<and>
        with_children p vs (with_children w us c) = with_children p vs c" using Node.IH [of c] c(1-3) by simp
      then show ?thesis unfolding c(1) by (simp add: with_below [OF c(4)] del: with_children.simps)
    qed
  qed
  then show "Node p (as @ Node w us # bs) \<in> set (subs (with_children w us t))"
    "with_children p vs (with_children w us t) = with_children p vs t" by simp_all
qed

section \<open>Edits and links\<close>

text \<open>The edited tree is linked when the links of the new forest are right and the others have not changed.\<close>

lemma linked_with:
  assumes "distinct (nodes t)" and "Node p ts \<in> set (subs t)" and "linked W t" and "linked W' (Node p us)"
    and "\<And>v. v \<in> set (nodes t) \<Longrightarrow> v \<notin> set (forest_nodes ts) \<Longrightarrow>
      w_siblings (W' v) = w_siblings (W v) \<and> w_parent (W' v) = w_parent (W v) \<and> (v \<noteq> p \<longrightarrow> w_children (W' v) = w_children (W v))"
  shows "linked W' (with_children p us t)"
  using assms
proof (induction t)
  case (Node v vs)
  show ?case
  proof (cases "Node p ts = Node v vs")
    case True
    then show ?thesis using Node.prems(4) by simp
  next
    case False
    obtain xs c ys where c: "vs = xs @ c # ys" "Node p ts \<in> set (subs c)" "distinct (nodes c)"
      "\<forall>x\<in>set (nodes (Node p ts)). x \<noteq> v \<and> x \<notin> windows xs \<and> x \<notin> windows ys"
      by (rule sub_below [OF Node.prems(1,2) False])
    have fn: "set (forest_nodes ts) \<subseteq> set (nodes (Node p ts))" "p \<in> set (nodes (Node p ts))" by auto
    have other: "w_children (W' x) = w_children (W x) \<and> w_siblings (W' x) = w_siblings (W x) \<and> w_parent (W' x) = w_parent (W x)"
      if "x \<in> set (nodes (Node v vs))" "x \<notin> set (nodes (Node p ts))" for x
      using Node.prems(5) [OF that(1)] that(2) fn by auto
    have rootc: "root_of c \<in> set (nodes (Node v vs))" using c(1) by auto
    have "root_of c \<notin> set (forest_nodes ts)"
    proof
      assume f: "root_of c \<in> set (forest_nodes ts)"
      then have "c \<in> set (subs (Node p ts))" using sub_same [OF c(3) subs_self c(2)] fn(1) by auto
      moreover have "c \<noteq> Node p ts" using f c(3) by (auto simp: distinct.simps)
      ultimately obtain d where "d \<in> set ts" "c \<in> set (subs d)" by auto
      then have "p \<in> set (nodes d)" using subs_nodes [of c d] subs_root [OF c(2)] by auto
      moreover have "distinct (nodes (Node p ts))" by (rule subs_distinct [OF c(3,2)])
      ultimately show False using \<open>d \<in> set ts\<close> by auto
    qed
    then have rc: "w_siblings (W' (root_of c)) = w_siblings (W (root_of c))" "w_parent (W' (root_of c)) = w_parent (W (root_of c))"
      using Node.prems(5) [OF rootc] by simp_all
    have lc: "linked W' (with_children p us c)"
      using Node.IH [of c] c(1-3) Node.prems(3-5) by simp
    have side: "linked W' d" "w_siblings (W' (root_of d)) = w_siblings (W (root_of d))" "w_parent (W' (root_of d)) = w_parent (W (root_of d))"
      if "d \<in> set xs \<union> set ys" for d
    proof -
      have sub: "x \<in> set (nodes (Node v vs)) \<and> x \<notin> set (nodes (Node p ts))" if "x \<in> set (nodes d)" for x
      proof
        have x: "x \<in> windows xs \<union> windows ys" using windows_mem [OF _ that] \<open>d \<in> set xs \<union> set ys\<close> by blast
        then show "x \<in> set (nodes (Node v vs))" unfolding c(1) nodes_windows by auto
        show "x \<notin> set (nodes (Node p ts))" using x c(4) by blast
      qed
      show "linked W' d" using linked_cong [of d W' W] other sub Node.prems(3) \<open>d \<in> set xs \<union> set ys\<close> c(1) by auto
      show "w_siblings (W' (root_of d)) = w_siblings (W (root_of d))" "w_parent (W' (root_of d)) = w_parent (W (root_of d))"
        using other [of "root_of d"] sub [of "root_of d"] by simp_all
    qed
    have "chain (\<lambda>p. w_siblings (W' p)) q (map root_of as) = chain (\<lambda>p. w_siblings (W p)) q (map root_of as)"
      if "set as \<subseteq> set vs" for q as
      using that
    proof (induction as arbitrary: q)
      case (Cons a as)
      have "w_siblings (W' (root_of a)) = w_siblings (W (root_of a))" using Cons.prems side rc c(1) by auto
      then show ?case using Cons by auto
    qed simp
    moreover have "w_children (W' v) = w_children (W v)" using other [of v] c(4) by auto
    ultimately have "chain (\<lambda>p. w_siblings (W' p)) (w_children (W' v)) (map root_of vs)" using Node.prems(3) by simp
    then have "linked W' (Node v (xs @ with_children p us c # ys))"
      using lc side rc Node.prems(3) c(1) by auto
    then show ?thesis unfolding c(1) by (subst with_below [OF c(4) fn(2)]) assumption
  qed
qed

text \<open>The sibling and the parent of the root of a tree are not links of the tree.\<close>

lemma linked_below:
  assumes "distinct (nodes t)"
    and "\<And>v. v \<in> set (nodes t) \<Longrightarrow> w_children (W' v) = w_children (W v)"
    and "\<And>v. v \<in> set (nodes t) \<Longrightarrow> v \<noteq> root_of t \<Longrightarrow> w_siblings (W' v) = w_siblings (W v) \<and> w_parent (W' v) = w_parent (W v)"
  shows "linked W' t \<longleftrightarrow> linked W t"
proof (cases t)
  case (Node v ts)
  have sub: "x \<in> set (nodes t)" "x \<noteq> root_of t" if "u \<in> set ts" "x \<in> set (nodes u)" for u x
    using assms(1) that Node by auto
  have kid: "linked W' u \<longleftrightarrow> linked W u" "w_siblings (W' (root_of u)) = w_siblings (W (root_of u))"
    "w_parent (W' (root_of u)) = w_parent (W (root_of u))" if u: "u \<in> set ts" for u
  proof -
    show "linked W' u \<longleftrightarrow> linked W u" by (rule linked_cong) (use sub [OF u] assms(2,3) in blast)
    show "w_siblings (W' (root_of u)) = w_siblings (W (root_of u))" "w_parent (W' (root_of u)) = w_parent (W (root_of u))"
      using sub [OF u root_in_nodes] assms(2,3) by blast+
  qed
  have "chain (\<lambda>p. w_siblings (W' p)) q (map root_of ts) = chain (\<lambda>p. w_siblings (W p)) q (map root_of ts)" for q
    by (rule chain_cong) (use kid(2) in auto)
  moreover have "w_children (W' v) = w_children (W v)" using assms(2) [of v] Node by simp
  ultimately show ?thesis using kid unfolding Node by simp
qed

text \<open>The links of an edit: every new child is an old one or a linked tree of its own.\<close>

lemma linked_edit:
  assumes d: "distinct (nodes t)" and sub: "Node p ts \<in> set (subs t)" and l: "linked W t"
    and chn: "chain (\<lambda>v. w_siblings (W' v)) (w_children (W' p)) (map root_of us)"
    and us: "\<And>u. u \<in> set us \<Longrightarrow> u \<in> set ts \<or> linked W' u \<and> w_parent (W' (root_of u)) = Some p"
    and par: "\<And>v. v \<in> set (nodes t) \<Longrightarrow> w_parent (W' v) = w_parent (W v)"
    and chi: "\<And>v. v \<in> set (nodes t) \<Longrightarrow> v \<noteq> p \<Longrightarrow> w_children (W' v) = w_children (W v)"
    and sib: "\<And>v. v \<in> set (nodes t) \<Longrightarrow> v \<notin> root_of ` set ts \<Longrightarrow> w_siblings (W' v) = w_siblings (W v)"
  shows "linked W' (with_children p us t)"
proof -
  have dp: "distinct (nodes (Node p ts))" by (rule subs_distinct [OF d sub])
  have lp: "linked W (Node p ts)" by (rule subs_linked [OF l sub])
  have "linked W' u" if u: "u \<in> set ts" for u
  proof -
    have du: "distinct (nodes u)" using dp split_list [OF u] by auto
    have vt: "v \<in> set (nodes t)" "v \<noteq> p" if "v \<in> set (nodes u)" for v
      using dp u that subs_nodes [OF subs_child [OF sub u]] by auto
    have other: "v \<notin> root_of ` set ts" if v: "v \<in> set (nodes u)" "v \<noteq> root_of u" for v
    proof
      assume "v \<in> root_of ` set ts"
      then obtain c where c: "c \<in> set ts" "v = root_of c" by blast
      then have "c \<noteq> u" "v \<in> set (nodes c)" using v(2) by auto
      then show False using forest_disjoint [of ts c u] dp c(1) u v(1) by auto
    qed
    have "linked W' u \<longleftrightarrow> linked W u"
    proof (rule linked_below [OF du])
      fix v assume v: "v \<in> set (nodes u)"
      show "w_children (W' v) = w_children (W v)" using chi vt [OF v] by blast
      show "w_siblings (W' v) = w_siblings (W v) \<and> w_parent (W' v) = w_parent (W v)" if "v \<noteq> root_of u"
        using par sib vt(1) [OF v] other [OF v that] by blast
    qed
    then show ?thesis using lp u by simp
  qed
  moreover have "w_parent (W' (root_of u)) = Some p" if "u \<in> set ts" for u
    using par [OF subs_root [OF subs_child [OF sub that]]] lp that by simp
  ultimately have "linked W' (Node p us)" using chn us by auto
  then show ?thesis
  proof (rule linked_with [OF d sub l])
    fix v assume v: "v \<in> set (nodes t)" "v \<notin> set (forest_nodes ts)"
    then have "v \<notin> root_of ` set ts" using roots_in_forest [of ts] by blast
    then show "w_siblings (W' v) = w_siblings (W v) \<and> w_parent (W' v) = w_parent (W v) \<and> (v \<noteq> p \<longrightarrow> w_children (W' v) = w_children (W v))"
      using v(1) par chi sib by blast
  qed
qed

end
