(* ===== verification/Wop_Order.thy ===== *)
theory Wop_Order
  imports Wop_Edit
begin

text \<open>
  Raising and lowering: the children of one window are put into another order, all other windows stay as they are.
\<close>

section \<open>Another order of the children\<close>

definition relinked :: "(win_ptr \<Rightarrow> gr_window) \<Rightarrow> (win_ptr \<Rightarrow> gr_window) \<Rightarrow> bool" where
  "relinked W W' \<longleftrightarrow> (\<forall>v. W' v = (W v)\<lparr>w_children := w_children (W' v), w_siblings := w_siblings (W' v)\<rparr>)"

lemma relinkedD:
  assumes "relinked W W'"
  shows "w_parent (W' v) = w_parent (W v)" "w_next (W' v) = w_next (W v)" "w_id (W' v) = w_id (W v)" "w_layer (W' v) = w_layer (W v)"
    "w_props (W' v) = w_props (W v)" "w_clipregion (W' v) = w_clipregion (W v)" "w_bgpixmap (W' v) = w_bgpixmap (W v)"
    "win_ok (W' v) = win_ok (W v)" "w_realized (W' v) = w_realized (W v)" "w_mapped (W' v) = w_mapped (W v)"
proof -
  obtain a b where w: "W' v = (W v)\<lparr>w_children := a, w_siblings := b\<rparr>" using assms unfolding relinked_def by blast
  show "w_parent (W' v) = w_parent (W v)" "w_next (W' v) = w_next (W v)" "w_id (W' v) = w_id (W v)" "w_layer (W' v) = w_layer (W v)"
    "w_props (W' v) = w_props (W v)" "w_clipregion (W' v) = w_clipregion (W v)" "w_bgpixmap (W' v) = w_bgpixmap (W v)"
    "win_ok (W' v) = win_ok (W v)" "w_realized (W' v) = w_realized (W v)" "w_mapped (W' v) = w_mapped (W v)"
    unfolding w by (simp_all add: win_ok_def)
qed

lemma mset_forest:
  assumes "mset us = mset ts"
  shows "mset (forest_nodes us) = mset (forest_nodes ts)"
proof -
  have "mset (forest_nodes us) = sum_mset (image_mset (\<lambda>u. mset (nodes u)) (mset us))" for us
    by (induction us) auto
  then show ?thesis using assms by metis
qed

text \<open>What is needed of a state with the children of \<open>p\<close> in the order \<open>us\<close>.\<close>

definition reordered :: "win_ptr \<Rightarrow> wtree list \<Rightarrow> wtree list \<Rightarrow> server \<Rightarrow> server \<Rightarrow> bool" where
  "reordered p ts us s s' \<longleftrightarrow> mset us = mset ts \<and> s' = s\<lparr>win := win s'\<rparr> \<and> relinked (win s) (win s') \<and>
     chain (\<lambda>v. w_siblings (win s' v)) (w_children (win s' p)) (map root_of us) \<and>
     (\<forall>v. v \<noteq> p \<longrightarrow> w_children (win s' v) = w_children (win s v)) \<and>
     (\<forall>v. v \<notin> root_of ` set ts \<longrightarrow> w_siblings (win s' v) = w_siblings (win s v))"

lemma reordered_fields:
  assumes "s' = s\<lparr>win := W\<rparr>"
  shows "rootwp s' = rootwp s" "listwp s' = listwp s" "scrNumberOfLayers s' = scrNumberOfLayers s" "cachewindowid s' = cachewindowid s"
    "cachewp s' = cachewp s" "free_windows s' = free_windows s" "mousewp s' = mousewp s" "focuswp s' = focuswp s"
    "grabbuttonwp s' = grabbuttonwp s" "clipwp s' = clipwp s" "evqueues s' = evqueues s" "pixmaps s' = pixmaps s"
  unfolding assms by simp_all

lemma base_reordered:
  assumes b: "base s t" and sub: "Node p ts \<in> set (subs t)" and r: "reordered p ts us s s'"
  shows "base s' (with_children p us t)" "set (nodes (with_children p us t)) = set (nodes t)"
proof -
  note R = r [unfolded reordered_def]
  note F = reordered_fields [OF R [THEN conjunct2, THEN conjunct1]]
  have kept: "\<forall>v. v \<noteq> p \<longrightarrow> w_children (win s' v) = w_children (win s v)"
    "\<forall>v. v \<notin> root_of ` set ts \<longrightarrow> w_siblings (win s' v) = w_siblings (win s v)" using R by blast+
  have rel: "relinked (win s) (win s')" using R by blast
  note D = relinkedD [OF rel]
  have wt: "distinct (nodes t)" "linked (win s) t" "root_of t = rootwp s 0" "w_parent (win s (root_of t)) = None"
    "w_siblings (win s (root_of t)) = None" using baseD(4) [OF b] by (simp_all add: window_tree_def)
  have us: "mset (forest_nodes us) = mset (forest_nodes ts)" by (rule mset_forest) (use R in blast)
  then have "mset (nodes (with_children p us t)) = mset (nodes t)" using with_nodes [OF wt(1) sub, of us] by simp
  then show n: "set (nodes (with_children p us t)) = set (nodes t)" by (rule mset_eq_setD)
  have d: "distinct (nodes (with_children p us t))"
    using \<open>mset (nodes (with_children p us t)) = mset (nodes t)\<close> wt(1) by (metis mset_eq_imp_distinct_iff)
  have set_us: "set us = set ts" by (rule mset_eq_setD) (use R in blast)
  have lp: "linked (win s) (Node p ts)" by (rule subs_linked [OF wt(2) sub])
  have l: "linked (win s') (with_children p us t)"
    by (rule linked_edit [OF wt(1) sub wt(2)]) (use R set_us D(1) in blast)+
  have "root_of t \<notin> root_of ` set ts"
  proof
    assume "root_of t \<in> root_of ` set ts"
    then obtain c where "c \<in> set ts" "root_of t = root_of c" by blast
    then show False using lp wt(4) by auto
  qed
  then have "window_tree (win s') (rootwp s 0) (with_children p us t)"
    using l d wt(3-5) R by (simp add: window_tree_def D)
  then have "server_tree s' (with_children p us t)" using baseD(1) [OF b] by (simp add: server_tree_def F D n)
  moreover have "windows_drawable s' (with_children p us t)" using baseD(2) [OF b] by (simp add: windows_drawable_def F D n)
  ultimately show "base s' (with_children p us t)" using b by (auto simp: base_def F n)
qed

lemma server_ok_reordered:
  assumes ok: "server_ok s t" and sub: "Node p ts \<in> set (subs t)" and r: "reordered p ts us s s'"
  shows "server_ok s' (with_children p us t)"
proof -
  note b = base_reordered [OF server_okD(1) [OF ok] sub r]
  note F = reordered_fields [OF r [unfolded reordered_def, THEN conjunct2, THEN conjunct1]]
  note D = relinkedD [OF r [unfolded reordered_def, THEN conjunct2, THEN conjunct2, THEN conjunct1]]
  have "vis_ok s' (with_children p us t)"
    using server_okD(2) [OF ok] by (simp add: vis_local [OF baseD(4) [OF b(1)]] vis_local [OF server_okD(5) [OF ok]] local_vis_def D F b(2))
  moreover obtain ws where "window_list s t ws" using server_okD(3) [OF ok] by blast
  then have "window_list s' (with_children p us t) ws" unfolding window_list_iff F D b(2) .
  ultimately show ?thesis using ok b by (auto simp: server_ok_def cached_def F D)
qed

section \<open>Walks along the children\<close>

lemma distinct_roots: "distinct (forest_nodes ts) \<Longrightarrow> distinct (map root_of ts)"
proof (induction ts)
  case (Cons t ts)
  have "root_of t \<notin> set (forest_nodes ts)" using Cons.prems root_in_nodes [of t] by (simp del: root_in_nodes) blast
  then show ?case using Cons roots_in_forest [of ts] by auto
qed simp

lemma kids:
  assumes "base s t" and "Node p ts \<in> set (subs t)"
  shows "chain (\<lambda>v. w_siblings (win s v)) (w_children (win s p)) (map root_of ts)" "distinct (map root_of ts)" "p \<notin> root_of ` set ts"
    "u \<in> set ts \<Longrightarrow> w_parent (win s (root_of u)) = Some p" "u \<in> set ts \<Longrightarrow> root_of u \<in> set (nodes t)" "u \<in> set ts \<Longrightarrow> root_of u \<noteq> rootwp s 0"
    "p \<in> set (nodes t)" "u \<in> set ts \<Longrightarrow> u \<in> set (subs t)" "u \<in> set ts \<Longrightarrow> u \<noteq> t"
proof -
  have wt: "distinct (nodes t)" "w_parent (win s (rootwp s 0)) = None" "root_of t = rootwp s 0"
    using baseD(4) [OF assms(1)] by (simp_all add: window_tree_def)
  have d: "distinct (nodes (Node p ts))" by (rule subs_distinct [OF wt(1) assms(2)])
  show "distinct (map root_of ts)" using d by (intro distinct_roots) simp
  show "p \<notin> root_of ` set ts" using d roots_in_forest [of ts] by auto
  note F = base_forest [OF assms]
  show "chain (\<lambda>v. w_siblings (win s v)) (w_children (win s p)) (map root_of ts)" "p \<in> set (nodes t)" by (rule F)+
  { assume u: "u \<in> set ts"
    show p: "w_parent (win s (root_of u)) = Some p" by (rule F(4) [OF u])
    then show "root_of u \<noteq> rootwp s 0" using wt(2) by auto
    then show "u \<noteq> t" using wt(3) by auto
    show s: "u \<in> set (subs t)" using F(2) u by blast
    show "root_of u \<in> set (nodes t)" by (rule subs_root [OF s]) }
qed

lemma before_last:
  "chain nx (Some p) (as @ x # bs) \<Longrightarrow> distinct (as @ x # bs) \<Longrightarrow> as \<noteq> [] \<Longrightarrow> before nx p x = Some (last as)"
proof (induction as arbitrary: p)
  case (Cons a as)
  show ?case
  proof (cases as)
    case Nil
    then show ?thesis using Cons.prems by (subst before.simps) auto
  next
    case (Cons b cs)
    then show ?thesis using Cons.IH [of b] Cons.prems by (subst before.simps) auto
  qed
qed simp

lemma overlap_before_last:
  "chain (\<lambda>v. w_siblings (W v)) (Some p) (as @ x # bs) \<Longrightarrow> distinct (as @ x # bs) \<Longrightarrow> as \<noteq> [] \<Longrightarrow>
    overlap_before W p x o' = Some (last as, o' \<or> (\<exists>a\<in>set as. GsCheckOverlap (W a) (W x)))"
proof (induction as arbitrary: p o')
  case (Cons a as)
  show ?case
  proof (cases as)
    case Nil
    then show ?thesis using Cons.prems by (subst overlap_before.simps) auto
  next
    case (Cons b cs)
    then show ?thesis using Cons.IH [of b "o' \<or> GsCheckOverlap (W a) (W x)"] Cons.prems by (subst overlap_before.simps) auto
  qed
qed simp

lemma last_sibling_last:
  "chain (\<lambda>v. w_siblings (W v)) (w_siblings (W x)) bs \<Longrightarrow> last_sibling W x = Some (if bs = [] then x else last bs)"
proof (induction bs arbitrary: x)
  case (Cons b bs)
  then show ?case using Cons.IH [of b] by (subst last_sibling.simps) auto
qed (simp add: last_sibling.simps)

section \<open>Raising a window\<close>

lemma with_same: "distinct (nodes t) \<Longrightarrow> Node p ts \<in> set (subs t) \<Longrightarrow> with_children p ts t = t"
proof (induction t)
  case (Node v vs)
  show ?case
  proof (cases "Node p ts = Node v vs")
    case False
    obtain xs c ys where c: "vs = xs @ c # ys" "Node p ts \<in> set (subs c)" "distinct (nodes c)"
      "\<forall>x\<in>set (nodes (Node p ts)). x \<noteq> v \<and> x \<notin> windows xs \<and> x \<notin> windows ys"
      by (rule sub_below [OF Node.prems False])
    have "with_children p ts c = c" using Node.IH [of c] c(1-3) by simp
    then show ?thesis unfolding c(1) by (subst with_below [OF c(4)]) auto
  qed simp
qed

text \<open>The links after a window is moved to the front.\<close>

lemma raise_links:
  assumes k: "chain (\<lambda>v. w_siblings (W v)) (w_children (W p)) (as @ w # bs)" "distinct (as @ w # bs)" "p \<notin> set (as @ w # bs)"
    and as: "as \<noteq> []"
    and W': "W' = (W(last as := (W (last as))\<lparr>w_siblings := w_siblings (W w)\<rparr>))(w := (W w)\<lparr>w_siblings := w_children (W p)\<rparr>,
      p := (W p)\<lparr>w_children := Some w\<rparr>)"
  shows "chain (\<lambda>v. w_siblings (W' v)) (w_children (W' p)) (w # as @ bs)"
proof -
  have "chain ((\<lambda>v. w_siblings (W v))(last as := w_siblings (W w))) (w_children (W p)) (as @ bs)"
    using chain_remove [OF k(1,2)] as by simp
  then have "chain (\<lambda>v. w_siblings (W' v)) (w_children (W p)) (as @ bs)"
    by (rule iffD1 [OF chain_cong, rotated]) (use k(2,3) as in \<open>auto simp: W'\<close>)
  moreover have "w \<noteq> p" using k(3) by auto
  ultimately show ?thesis by (simp add: W')
qed

lemma raise_reordered:
  assumes b: "base s t" and sub: "Node p (as @ u # bs) \<in> set (subs t)" and as: "as \<noteq> []" and first: "w_children (win s p) = Some first"
    and s': "s' = upd_win p (\<lambda>w. w\<lparr>w_children := Some (root_of u)\<rparr>) (upd_win (root_of u) (\<lambda>w. w\<lparr>w_siblings := Some first\<rparr>)
        (upd_win (last (map root_of as)) (\<lambda>w. w\<lparr>w_siblings := w_siblings (win s (root_of u))\<rparr>) s))"
  shows "reordered p (as @ u # bs) (u # as @ bs) s s'" "last (map root_of as) \<noteq> p"
proof -
  let ?w = "root_of u" and ?A = "map root_of as" and ?l = "last (map root_of as)"
  note K = kids [OF b sub]
  have k: "chain (\<lambda>v. w_siblings (win s v)) (w_children (win s p)) (?A @ ?w # map root_of bs)" "distinct (?A @ ?w # map root_of bs)"
    "p \<notin> set (?A @ ?w # map root_of bs)" using K(1-3) by auto
  have A: "?A \<noteq> []" using as by simp
  have "?l \<in> set ?A" by (rule last_in_set [OF A])
  then have l: "?l \<in> set ?A" "?l \<noteq> ?w" "?l \<noteq> p" "?w \<noteq> p" using k(2,3) by auto
  then show "?l \<noteq> p" by simp
  let ?W = "((win s)(?l := (win s ?l)\<lparr>w_siblings := w_siblings (win s ?w)\<rparr>))(?w := (win s ?w)\<lparr>w_siblings := w_children (win s p)\<rparr>,
      p := (win s p)\<lparr>w_children := Some ?w\<rparr>)"
  have win': "s' = s\<lparr>win := ?W\<rparr>" using l by (simp add: s' upd_win_def first)
  show "reordered p (as @ u # bs) (u # as @ bs) s s'"
    unfolding reordered_def
  proof (intro conjI allI impI)
    show "chain (\<lambda>v. w_siblings (win s' v)) (w_children (win s' p)) (map root_of (u # as @ bs))"
      using raise_links [OF k A, of ?W] win' by simp
    show "w_siblings (win s' v) = w_siblings (win s v)" if "v \<notin> root_of ` set (as @ u # bs)" for v
      using that l by (auto simp: win')
    show "relinked (win s) (win s')" using l by (auto simp: relinked_def win')
  qed (use l in \<open>auto simp: win'\<close>)
qed

lemma raise_window:
  assumes ok: "server_ok s t" and sub: "Node p (as @ u # bs) \<in> set (subs t)"
  shows "\<exists>s'. GrRaiseWindow beyond (w_id (win s (root_of u))) s = Some s' \<and> server_ok s' (with_children p (u # as @ bs) t) \<and>
    relinked (win s) (win s')"
proof -
  let ?w = "root_of u" and ?A = "map root_of as" and ?t = "with_children p (u # as @ bs) t"
  note K = kids [OF server_okD(1) [OF ok] sub]
  have uin: "u \<in> set (as @ u # bs)" by simp
  obtain cid cw where f: "GsFindWindow (w_id (win s ?w)) s = Some (Some ?w, with_cache cid cw s)" "server_ok (with_cache cid cw s) t"
    by (rule find_node [OF ok K(5) [OF uin]])
  let ?s = "with_cache cid cw s"
  have nr: "?w \<noteq> rootwp s (w_layer (win s ?w))" using K(6) [OF uin] baseD(6) [OF server_okD(1) [OF ok] K(5) [OF uin]] by simp
  show ?thesis
  proof (cases "as = []")
    case True
    then have "w_children (win s p) = Some ?w" using K(1) by simp
    moreover have "?t = t" using with_same [OF server_okD(6) [OF ok] sub] True by simp
    ultimately show ?thesis using f nr K(4) [OF uin] by (intro exI [of _ ?s]) (simp add: GrRaiseWindow_def relinked_def)
  next
    case as: False
    then obtain first where first: "w_children (win s p) = Some first" "first \<noteq> ?w" using K(1,2) by (cases as) auto
    let ?l = "last ?A" and ?over = "\<exists>a\<in>set ?A. GsCheckOverlap (win s a) (win s ?w)"
    define s1 where "s1 = upd_win p (\<lambda>w. w\<lparr>w_children := Some ?w\<rparr>) (upd_win ?w (\<lambda>w. w\<lparr>w_siblings := Some first\<rparr>)
        (upd_win ?l (\<lambda>w. w\<lparr>w_siblings := w_siblings (win s ?w)\<rparr>) ?s))"
    have r: "reordered p (as @ u # bs) (u # as @ bs) ?s s1" "?l \<noteq> p"
      by (rule raise_reordered [OF server_okD(1) [OF f(2)] sub as, of first s1]; simp add: first s1_def)+
    note ok1 = server_ok_reordered [OF f(2) sub r(1)]
    have rel: "relinked (win s) (win s1)" using r(1) by (simp add: reordered_def)
    have wn: "?w \<in> set (nodes ?t)" using base_reordered(2) [OF server_okD(1) [OF f(2)] sub r(1)] K(5) [OF uin] by simp
    have ov: "overlap_before (win s) first ?w False = Some (?l, ?over)"
      using overlap_before_last [of "win s" first ?A ?w "map root_of bs" False] K(1,2) first(1) as by simp
    have "\<exists>s'. Option.bind (GsDrawBorder beyond ?w s1) (\<lambda>s.
        GsExposeArea beyond ?w (w_x (win s ?w)) (w_y (win s ?w)) (w_width (win s ?w)) (w_height (win s ?w)) None s) = Some s' \<and> look ?t s1 s'"
      by (rule look_bind [OF redraw_looks [OF border_redraw [OF server_okD(1) [OF ok1] wn]]], rule redraw_looks, rule expose_redraw [OF _ wn])
    then obtain s' where s': "(if ?over then Option.bind (GsDrawBorder beyond ?w s1) (\<lambda>s. GsExposeArea beyond ?w (w_x (win s ?w))
        (w_y (win s ?w)) (w_width (win s ?w)) (w_height (win s ?w)) None s) else Some s1) = Some s'" "look ?t s1 s'"
      using look_refl [OF server_okD(1) [OF ok1]] by (cases ?over) auto
    have "GrRaiseWindow beyond (w_id (win s ?w)) s = Some s'"
      using s'(1) r(2) by (auto simp: GrRaiseWindow_def f(1) nr K(4) [OF uin] first ov s1_def [symmetric] Let_def split: if_splits)
    moreover have "relinked (win s) (win s')" using rel look_win [OF s'(2)] by simp
    ultimately show ?thesis using server_ok_look [OF ok1 s'(2)] by blast
  qed
qed

section \<open>Lowering a window\<close>

text \<open>Taking a window out of the list of its siblings.\<close>

definition unlinked :: "win_ptr \<Rightarrow> win_ptr list \<Rightarrow> win_ptr \<Rightarrow> server \<Rightarrow> server" where
  "unlinked p as w s =
    (if as = [] then upd_win p (\<lambda>v. v\<lparr>w_children := w_siblings (win s w)\<rparr>) s
     else upd_win (last as) (\<lambda>v. v\<lparr>w_siblings := w_siblings (win s w)\<rparr>) s)"

lemma unlinked_fields:
  "unlinked p as w s = s\<lparr>win := win (unlinked p as w s)\<rparr>" "relinked (win s) (win (unlinked p as w s))"
  "v \<notin> set as \<Longrightarrow> w_siblings (win (unlinked p as w s) v) = w_siblings (win s v)"
  "v \<noteq> p \<Longrightarrow> w_children (win (unlinked p as w s) v) = w_children (win s v)"
  by (auto simp: unlinked_def upd_win_def relinked_def)

lemma unlinked_chain:
  assumes "chain (\<lambda>v. w_siblings (win s v)) (w_children (win s p)) (as @ w # bs)" and "distinct (as @ w # bs)" and "p \<notin> set (as @ w # bs)"
  shows "chain (\<lambda>v. w_siblings (win (unlinked p as w s) v)) (w_children (win (unlinked p as w s) p)) (as @ bs)"
proof (cases "as = []")
  case True
  have "chain (\<lambda>v. w_siblings (win s v)) (w_siblings (win s w)) bs" using assms(1) True by simp
  moreover have "(\<lambda>v. w_siblings (win (unlinked p as w s) v)) = (\<lambda>v. w_siblings (win s v))" using True by (auto simp: unlinked_def)
  ultimately show ?thesis using True by (simp add: unlinked_def)
next
  case False
  then have "last as \<noteq> p" using assms(3) by auto
  moreover have "(\<lambda>v. w_siblings (win (unlinked p as w s) v)) = (\<lambda>v. w_siblings (win s v))(last as := w_siblings (win s w))"
    using False by (auto simp: unlinked_def)
  ultimately show ?thesis using chain_remove [OF assms(1,2)] False by (simp add: unlinked_def)
qed

lemma lower_reordered:
  assumes b: "base s t" and sub: "Node p (as @ u # bs) \<in> set (subs t)" and bs: "bs \<noteq> []"
    and s': "s' = upd_win (root_of u) (\<lambda>w. w\<lparr>w_siblings := None\<rparr>) (upd_win (last (map root_of bs)) (\<lambda>w. w\<lparr>w_siblings := Some (root_of u)\<rparr>)
        (unlinked p (map root_of as) (root_of u) s))"
  shows "reordered p (as @ u # bs) (as @ bs @ [u]) s s'"
proof -
  let ?w = "root_of u" and ?A = "map root_of as" and ?B = "map root_of bs"
  let ?l = "last ?B" and ?s1 = "unlinked p ?A ?w s"
  note K = kids [OF b sub]
  have k: "chain (\<lambda>v. w_siblings (win s v)) (w_children (win s p)) (?A @ ?w # ?B)" "distinct (?A @ ?w # ?B)"
    "p \<notin> set (?A @ ?w # ?B)" using K(1-3) by auto
  have c1: "chain (\<lambda>v. w_siblings (win ?s1 v)) (w_children (win ?s1 p)) (?A @ ?B)" by (rule unlinked_chain [OF k])
  have B: "?B \<noteq> []" using bs by simp
  then have ll: "last (?A @ ?B) = ?l" by simp
  have "?l \<in> set ?B" by (rule last_in_set [OF B])
  then have l: "?l \<in> set ?B" "?l \<noteq> ?w" "?l \<noteq> p" "?w \<noteq> p" using k(2,3) by auto
  note U = unlinked_fields [where p = p and as = ?A and w = ?w and s = s]
  have kept: "w_children (win s' v) = w_children (win ?s1 v)" for v by (simp add: s')
  have "distinct (?A @ ?B)" "?w \<notin> set (?A @ ?B)" using k(2) by auto
  from chain_snoc [OF c1 this] have "chain ((\<lambda>v. w_siblings (win ?s1 v))(?w := None, ?l := Some ?w)) (w_children (win ?s1 p)) (?A @ ?B @ [?w])"
    using B ll by simp
  moreover have "(\<lambda>v. w_siblings (win s' v)) = (\<lambda>v. w_siblings (win ?s1 v))(?w := None, ?l := Some ?w)"
    using l(2) by (auto simp: s' fun_eq_iff)
  ultimately have c: "chain (\<lambda>v. w_siblings (win s' v)) (w_children (win s' p)) (map root_of (as @ bs @ [u]))" by (simp add: kept)
  have w: "win s' = (win ?s1)(?l := (win ?s1 ?l)\<lparr>w_siblings := Some ?w\<rparr>, ?w := (win ?s1 ?w)\<lparr>w_siblings := None\<rparr>)" using l(2) by (simp add: s')
  show ?thesis
    unfolding reordered_def
  proof (intro conjI allI impI)
    show "s' = s\<lparr>win := win s'\<rparr>"
    proof -
      have "s' = ?s1\<lparr>win := win s'\<rparr>" using l(2) by (simp add: s' upd_win_def)
      also have "\<dots> = s\<lparr>win := win s'\<rparr>" using arg_cong [OF U(1), of "\<lambda>r. r\<lparr>win := win s'\<rparr>"] by simp
      finally show ?thesis .
    qed
    show "relinked (win s) (win s')"
      unfolding relinked_def
    proof
      fix v
      obtain a b where "win ?s1 v = (win s v)\<lparr>w_children := a, w_siblings := b\<rparr>" using U(2) unfolding relinked_def by blast
      then show "win s' v = (win s v)\<lparr>w_children := w_children (win s' v), w_siblings := w_siblings (win s' v)\<rparr>" using l(2) by (auto simp: w)
    qed
    show "w_siblings (win s' v) = w_siblings (win s v)" if "v \<notin> root_of ` set (as @ u # bs)" for v
    proof -
      have "v \<noteq> ?w" "v \<noteq> ?l" "v \<notin> set ?A" using that l(1) by auto
      then show ?thesis using U(3) by (simp add: w)
    qed
    show "w_children (win s' v) = w_children (win s v)" if "v \<noteq> p" for v using U(4) [OF that] by (simp add: kept)
  qed (use c in simp_all)
qed

lemma expose_covered_redraw:
  "base s t \<Longrightarrow> chain (\<lambda>v. w_siblings (win s v)) q (vs @ [w]) \<Longrightarrow> set vs \<subseteq> set (nodes t) \<Longrightarrow> w \<notin> set vs \<Longrightarrow>
    \<exists>s'. expose_covered beyond w q s = Some s' \<and> redraw t s s'"
proof (induction vs arbitrary: q s)
  case Nil
  then show ?case using redraw_refl by (subst expose_covered.simps) simp
next
  case (Cons v vs)
  have q: "q = Some v" "v \<noteq> w" using Cons.prems(2,4) by auto
  let ?one = "\<lambda>s. if GsCheckOverlap (win s w) (win s v)
    then GsExposeArea beyond v (w_x (win s w) - w_bordersize (win s w)) (w_y (win s w) - w_bordersize (win s w))
      (w_width (win s w) + w_bordersize (win s w) * 2) (w_height (win s w) + w_bordersize (win s w) * 2) None s
    else Some s"
  have "\<exists>s'. ?one s = Some s' \<and> redraw t s s'" using expose_redraw [OF Cons.prems(1), of v] redraw_refl [OF Cons.prems(1)] Cons.prems(3) by simp
  then have "\<exists>s'. Option.bind (?one s) (\<lambda>s. expose_covered beyond w (w_siblings (win s v)) s) = Some s' \<and> redraw t s s'"
  proof (rule redraw_bind)
    fix s1 assume s1: "redraw t s s1" "base s1 t"
    show "\<exists>s2. expose_covered beyond w (w_siblings (win s1 v)) s1 = Some s2 \<and> redraw t s1 s2"
      by (rule Cons.IH [OF s1(2)]) (use Cons.prems(2-4) redraw_win [OF s1(1)] in auto)
  qed
  then show ?case using q by (subst expose_covered.simps) (cases "GsCheckOverlap (win s w) (win s v)"; simp)
qed

lemma lower_window:
  assumes ok: "server_ok s t" and sub: "Node p (as @ u # bs) \<in> set (subs t)"
  shows "\<exists>s'. GrLowerWindow beyond (w_id (win s (root_of u))) s = Some s' \<and> server_ok s' (with_children p (as @ bs @ [u]) t) \<and>
    relinked (win s) (win s')"
proof -
  let ?w = "root_of u" and ?A = "map root_of as" and ?B = "map root_of bs" and ?t = "with_children p (as @ bs @ [u]) t"
  note K = kids [OF server_okD(1) [OF ok] sub]
  have uin: "u \<in> set (as @ u # bs)" by simp
  obtain cid cw where f: "GsFindWindow (w_id (win s ?w)) s = Some (Some ?w, with_cache cid cw s)" "server_ok (with_cache cid cw s) t"
    by (rule find_node [OF ok K(5) [OF uin]])
  let ?s = "with_cache cid cw s"
  have nr: "?w \<noteq> rootwp s (w_layer (win s ?w))" using K(6) [OF uin] baseD(6) [OF server_okD(1) [OF ok] K(5) [OF uin]] by simp
  have k: "chain (\<lambda>v. w_siblings (win s v)) (w_children (win s p)) (?A @ ?w # ?B)" "distinct (?A @ ?w # ?B)" using K(1,2) by auto
  have cB: "chain (\<lambda>v. w_siblings (win s v)) (w_siblings (win s ?w)) ?B" by (rule chain_from [OF k(1)])
  show ?thesis
  proof (cases "bs = []")
    case True
    then have "w_siblings (win s ?w) = None" using cB by simp
    moreover have "?t = t" using with_same [OF server_okD(6) [OF ok] sub] True by simp
    ultimately show ?thesis using f by (intro exI [of _ ?s]) (simp add: GrLowerWindow_def relinked_def)
  next
    case bs: False
    then obtain b where b: "w_siblings (win s ?w) = Some b" using cB by (cases bs) auto
    define s1 where "s1 = upd_win ?w (\<lambda>w. w\<lparr>w_siblings := None\<rparr>) (upd_win (last ?B) (\<lambda>w. w\<lparr>w_siblings := Some ?w\<rparr>) (unlinked p ?A ?w ?s))"
    note r = lower_reordered [OF server_okD(1) [OF f(2)] sub bs s1_def]
    note ok1 = server_ok_reordered [OF f(2) sub r]
    note n = base_reordered(2) [OF server_okD(1) [OF f(2)] sub r]
    have rel: "relinked (win s) (win s1)" using r by (simp add: reordered_def)
    obtain first where first: "w_children (win s p) = Some first" using k(1) by (cases as) auto
    obtain prev where prev: "(if first \<noteq> ?w then before (\<lambda>q. w_siblings (win s q)) first ?w else Some first) = Some prev"
      "(if prev = ?w then upd_win p (\<lambda>v. v\<lparr>w_children := w_siblings (win s ?w)\<rparr>) ?s
        else upd_win prev (\<lambda>v. v\<lparr>w_siblings := w_siblings (win s ?w)\<rparr>) ?s) = unlinked p ?A ?w ?s"
    proof (cases as)
      case Nil
      then have "first = ?w" using k(1) first by simp
      then show ?thesis using that [of ?w] Nil by (simp add: unlinked_def)
    next
      case (Cons a as')
      then have "first \<noteq> ?w" "last ?A \<noteq> ?w" using k first last_in_set [of ?A] by auto
      then show ?thesis using that [of "last ?A"] before_last [of _ first ?A ?w ?B] k first Cons by (simp add: unlinked_def del: last.simps)
    qed
    have lst: "last_sibling (win s) ?w = Some (last ?B)" using last_sibling_last [OF cB] bs by simp
    have "chain (\<lambda>v. w_siblings (win s1 v)) (w_children (win s1 p)) (?A @ ?B @ [?w])" using r by (simp add: reordered_def)
    then have cs: "chain (\<lambda>v. w_siblings (win s1 v)) (Some b) (?B @ [?w])"
    proof -
      have "?B \<noteq> []" "hd ?B = b" using bs b cB by (cases bs; simp)+
      moreover have "chain nx q (xs @ ys) \<Longrightarrow> ys \<noteq> [] \<Longrightarrow> chain nx (Some (hd ys)) ys" for nx q xs and ys :: "nat list"
        by (induction xs arbitrary: q) (cases ys, auto)
      ultimately show ?thesis
        using \<open>chain _ _ (?A @ ?B @ [?w])\<close> by (metis append_is_Nil_conv hd_append2)
    qed
    have "\<exists>s'. expose_covered beyond ?w (Some b) s1 = Some s' \<and> redraw ?t s1 s'"
      by (rule expose_covered_redraw [OF server_okD(1) [OF ok1] cs]) (use n K(5) k(2) in auto)
    then obtain s' where s': "expose_covered beyond ?w (Some b) s1 = Some s'" "look ?t s1 s'" using redraw_look by blast
    have "GrLowerWindow beyond (w_id (win s ?w)) s = Some s'"
      using s'(1) prev
      by (cases "first = ?w"; cases "prev = ?w") (simp_all add: GrLowerWindow_def f(1) nr K(4) [OF uin] first b lst s1_def Let_def)
    moreover have "relinked (win s) (win s')" using rel look_win [OF s'(2)] by simp
    ultimately show ?thesis using server_ok_look [OF ok1 s'(2)] by blast
  qed
qed

end
