(* ===== verification/Wop_New.thy ===== *)
theory Wop_New
  imports Wop_Order
begin

text \<open>
  New windows: a leaf in front of the children of its parent, not mapped, and with an identifier of its own.
\<close>

section \<open>A new leaf\<close>

text \<open>Identifiers are given out in increasing order.\<close>

definition ids_below :: "server \<Rightarrow> wtree \<Rightarrow> bool" where
  "ids_below s t \<longleftrightarrow> (\<forall>v\<in>set (nodes t). w_id (win s v) < nextid s)"

definition new_leaf :: "server \<Rightarrow> win_ptr \<Rightarrow> win_ptr \<Rightarrow> server \<Rightarrow> bool" where
  "new_leaf s p n s' \<longleftrightarrow>
     (\<forall>v. v \<noteq> n \<longrightarrow> v \<noteq> p \<longrightarrow> win s' v = win s v) \<and> win s' p = (win s p)\<lparr>w_children := Some n\<rparr> \<and>
     w_parent (win s' n) = Some p \<and> w_children (win s' n) = None \<and> w_siblings (win s' n) = w_children (win s p) \<and>
     w_layer (win s' n) = 0 \<and> w_id (win s' n) = nextid s \<and> w_next (win s' n) = listwp s 0 \<and> win_ok (win s' n) \<and>
     w_clipregion (win s' n) = None \<and> w_bgpixmap (win s' n) = None \<and> \<not> w_mapped (win s' n) \<and> \<not> w_realized (win s' n) \<and>
     free_windows s = n # free_windows s' \<and> listwp s' = (listwp s)(0 := Some n) \<and>
     rootwp s' = rootwp s \<and> mousewp s' = mousewp s \<and> focuswp s' = focuswp s \<and> grabbuttonwp s' = grabbuttonwp s \<and> clipwp s' = clipwp s \<and>
     evqueues s' = evqueues s \<and> pixmaps s' = pixmaps s \<and> scrNumberOfLayers s' = scrNumberOfLayers s \<and>
     cachewindowid s' = cachewindowid s \<and> cachewp s' = cachewp s"

lemma new_leafD:
  assumes "new_leaf s p n s'"
  shows "v \<noteq> n \<Longrightarrow> v \<noteq> p \<Longrightarrow> win s' v = win s v" "win s' p = (win s p)\<lparr>w_children := Some n\<rparr>"
    "w_parent (win s' n) = Some p" "w_children (win s' n) = None" "w_siblings (win s' n) = w_children (win s p)"
    "w_layer (win s' n) = 0" "w_id (win s' n) = nextid s" "w_next (win s' n) = listwp s 0" "win_ok (win s' n)"
    "w_clipregion (win s' n) = None" "w_bgpixmap (win s' n) = None" "\<not> w_mapped (win s' n)" "\<not> w_realized (win s' n)"
    "free_windows s = n # free_windows s'" "listwp s' = (listwp s)(0 := Some n)"
    "rootwp s' = rootwp s" "mousewp s' = mousewp s" "focuswp s' = focuswp s" "grabbuttonwp s' = grabbuttonwp s" "clipwp s' = clipwp s"
    "evqueues s' = evqueues s" "pixmaps s' = pixmaps s" "scrNumberOfLayers s' = scrNumberOfLayers s"
    "cachewindowid s' = cachewindowid s" "cachewp s' = cachewp s"
  using assms by (simp_all add: new_leaf_def)

lemma server_ok_leaf:
  assumes ok: "server_ok s t" and sub: "Node p ts \<in> set (subs t)" and l: "new_leaf s p n s'"
    and fresh: "\<forall>v\<in>set (nodes t). w_id (win s v) \<noteq> nextid s"
  shows "server_ok s' (with_children p (Node n [] # ts) t)" "set (nodes (with_children p (Node n [] # ts) t)) = insert n (set (nodes t))"
proof -
  let ?t = "with_children p (Node n [] # ts) t"
  note D = new_leafD [OF l] and b = server_okD(1) [OF ok]
  have nt: "n \<notin> set (nodes t)" "distinct (free_windows s)" "set (free_windows s) \<inter> set (nodes t) = {}"
    using ok D(14) by (auto simp: server_ok_def)
  have wt: "distinct (nodes t)" "linked (win s) t" "root_of t = rootwp s 0" "w_parent (win s (root_of t)) = None"
    "w_siblings (win s (root_of t)) = None" using baseD(4) [OF b] by (simp_all add: window_tree_def)
  note K = kids [OF b sub]
  have pn: "p \<noteq> n" using K(7) nt(1) by blast
  have m: "mset (nodes ?t) = add_mset n (mset (nodes t))" using with_nodes [OF wt(1) sub, of "Node n [] # ts"] by simp
  show set_t: "set (nodes ?t) = insert n (set (nodes t))" using m by (metis set_mset_add_mset_insert set_mset_mset)
  have dt: "distinct (nodes ?t)" using m nt(1) wt(1) by (metis distinct.simps(2) mset.simps(2) mset_eq_imp_distinct_iff)
  have old: "w_siblings (win s' v) = w_siblings (win s v)" "w_parent (win s' v) = w_parent (win s v)" "w_layer (win s' v) = w_layer (win s v)"
    "w_id (win s' v) = w_id (win s v)" "w_next (win s' v) = w_next (win s v)" "w_realized (win s' v) = w_realized (win s v)"
    "w_mapped (win s' v) = w_mapped (win s v)" "w_props (win s' v) = w_props (win s v)" "win_ok (win s' v) = win_ok (win s v)"
    "w_clipregion (win s' v) = w_clipregion (win s v)" "w_bgpixmap (win s' v) = w_bgpixmap (win s v)"
    "v \<noteq> p \<Longrightarrow> w_children (win s' v) = w_children (win s v)" if "v \<in> set (nodes t)" for v
  proof -
    have "v \<noteq> n" using that nt(1) by blast
    then have "win s' v = win s v \<or> v = p \<and> win s' v = (win s v)\<lparr>w_children := Some n\<rparr>" using D(1,2) by blast
    then show "w_siblings (win s' v) = w_siblings (win s v)" "w_parent (win s' v) = w_parent (win s v)" "w_layer (win s' v) = w_layer (win s v)"
      "w_id (win s' v) = w_id (win s v)" "w_next (win s' v) = w_next (win s v)" "w_realized (win s' v) = w_realized (win s v)"
      "w_mapped (win s' v) = w_mapped (win s v)" "w_props (win s' v) = w_props (win s v)" "win_ok (win s' v) = win_ok (win s v)"
      "w_clipregion (win s' v) = w_clipregion (win s v)" "w_bgpixmap (win s' v) = w_bgpixmap (win s v)"
      "v \<noteq> p \<Longrightarrow> w_children (win s' v) = w_children (win s v)" by (auto simp: win_ok_def)
  qed
  have lt: "linked (win s') ?t"
  proof (rule linked_edit [OF wt(1) sub wt(2)])
    have "chain (\<lambda>v. w_siblings (win s' v)) q (map root_of ts) = chain (\<lambda>v. w_siblings (win s v)) q (map root_of ts)" for q
      by (rule chain_cong) (use old(1) K(5) in auto)
    then show "chain (\<lambda>v. w_siblings (win s' v)) (w_children (win s' p)) (map root_of (Node n [] # ts))" using K(1) by (simp add: D)
  qed (use old D(3,4) in auto)
  have root: "rootwp s 0 \<in> set (nodes t)" by (rule base_root [OF b])
  have wt': "window_tree (win s') (rootwp s' 0) ?t"
    using lt dt wt(3-5) old(1,2) [OF root] by (simp add: window_tree_def D)
  have "server_tree s' ?t"
    using baseD(1) [OF b] wt' old(3,8) root by (auto simp: server_tree_def D set_t)
  moreover have "windows_drawable s' ?t" using baseD(2) [OF b] old(9-11) by (auto simp: windows_drawable_def D set_t)
  ultimately have b': "base s' ?t" using b by (auto simp: base_def D set_t)
  have "vis_ok s' ?t"
  proof -
    have v: "w_realized (win s (rootwp s 0))" "\<forall>v\<in>set (nodes t). local_vis s v"
      using server_okD(2) [OF ok] vis_local [OF server_okD(5) [OF ok]] by auto
    have "local_vis s' v" if "v \<in> set (nodes t)" for v
      using v(2) that old(2,6,7) ancestors_parent(2) [OF server_okD(5) [OF ok] that] by (auto simp: local_vis_def)
    moreover have "local_vis s' n" using D(12,13) by (simp add: local_vis_def)
    ultimately show ?thesis using vis_local [OF wt'] v(1) old(6) [OF root] by (simp add: D set_t)
  qed
  moreover have "\<exists>ws. window_list s' ?t ws"
  proof -
    obtain ws where ws: "window_list s t ws" using server_okD(3) [OF ok] by blast
    note W = ws [unfolded window_list_iff]
    have c: "chain (\<lambda>v. w_next (win s' v)) q ws = chain (\<lambda>v. w_next (win s v)) q ws" for q
      by (rule chain_cong) (use W old(5) in auto)
    have "inj_on (\<lambda>v. w_id (win s' v)) (set ws)" using W old(4) by (auto simp: inj_on_def)
    then have "inj_on (\<lambda>v. w_id (win s' v)) (set (n # ws))" using W fresh old(4) by (auto simp: D)
    then have "window_list s' ?t (n # ws)" using W c nt(1) old(4) [OF root] root unfolding window_list_iff by (simp add: D set_t)
    then show ?thesis by blast
  qed
  moreover have "cached s' ?t" using server_okD(4) [OF ok] old(4) by (auto simp: cached_def D set_t)
  moreover have "distinct (free_windows s')" "set (free_windows s') \<inter> set (nodes ?t) = {}" using nt D(14) by (auto simp: set_t)
  ultimately show "server_ok s' ?t" using b' by (simp add: server_ok_def)
qed

section \<open>Creating a window\<close>

lemma new_window:
  assumes ok: "server_ok s t" and sub: "Node p ts \<in> set (subs t)" and out: "w_output (win s p)"
    and size: "0 < width" "0 < height" "0 \<le> bordersize" and free: "free_windows s = n # rest" and ids: "\<forall>v\<in>set (nodes t). w_id (win s v) \<noteq> nextid s"
  shows "\<exists>s'. GrNewWindow (w_id (win s p)) x y width height bordersize bg bc c s = Some (nextid s, s') \<and>
    server_ok s' (with_children p (Node n [] # ts) t) \<and> w_id (win s' n) = nextid s \<and>
    (w_x (win s' n), w_y (win s' n), w_width (win s' n), w_height (win s' n)) = (w_x (win s p) + x, w_y (win s p) + y, width, height) \<and>
    (ids_below s t \<longrightarrow> nextid s + 1 < 2 ^ 32 \<longrightarrow> ids_below s' (with_children p (Node n [] # ts) t))"
proof -
  let ?t = "with_children p (Node n [] # ts) t"
  note K = kids [OF server_okD(1) [OF ok] sub]
  obtain cid cw where f: "GsFindWindow (w_id (win s p)) s = Some (Some p, with_cache cid cw s)" "server_ok (with_cache cid cw s) t"
    by (rule find_node [OF ok K(7)])
  let ?s = "with_cache cid cw s"
  have "n \<notin> set (nodes t)" using ok free by (auto simp: server_ok_def)
  then have pn: "p \<noteq> n" using K(7) by blast
  have lay: "w_layer (win s p) = 0" by (rule baseD(6) [OF server_okD(1) [OF ok] K(7)])
  have sz: "\<not> (width \<le> 0 \<or> height \<le> 0 \<or> bordersize < 0)" using size by simp
  define s' where "s' = snd (the (NewWindow p x y width height bordersize bg bc c ?s))"
  have eq: "NewWindow p x y width height bordersize bg bc c ?s = Some (Some n, s')"
    unfolding s'_def by (simp add: NewWindow_def sz free Let_def del: upd_win_fields)
  have leaf: "new_leaf ?s p n s'"
    using size by (simp add: s'_def NewWindow_def sz free Let_def new_leaf_def win_ok_def pn pn [symmetric] lay)
  have place: "(w_x (win s' n), w_y (win s' n), w_width (win s' n), w_height (win s' n)) = (w_x (win s p) + x, w_y (win s p) + y, width, height)"
    by (simp add: s'_def NewWindow_def sz free Let_def pn pn [symmetric] lay)
  have next_id: "nextid s' = nextid s + 1" if "nextid s + 1 < 2 ^ 32"
    using that by (simp add: s'_def NewWindow_def sz free Let_def)
  note s' = eq leaf place next_id
  have fresh: "\<forall>v\<in>set (nodes t). w_id (win ?s v) \<noteq> nextid ?s" using ids by simp
  note L = server_ok_leaf [OF f(2) sub s'(2) fresh] and D = new_leafD [OF s'(2)]
  have "ids_below s' ?t" if below: "ids_below s t" and "nextid s + 1 < 2 ^ 32"
  proof -
    have "w_id (win s' v) < nextid s + 1" if "v \<in> set (nodes t)" for v
    proof -
      have "v \<noteq> n" using that \<open>n \<notin> set (nodes t)\<close> by blast
      then have "w_id (win s' v) = w_id (win s v)" using D(1) [of v] D(2) by (cases "v = p") auto
      then show ?thesis using below that by (auto simp: ids_below_def)
    qed
    then show ?thesis using s'(4) [OF that(2)] by (auto simp: ids_below_def L(2) D)
  qed
  then show ?thesis using f(1) out s'(1,3) L(1) D(7) by (intro exI [of _ s']) (simp add: GrNewWindow_def)
qed

end
