(* ===== verification/Wop_Destroy.thy ===== *)
theory Wop_Destroy
  imports Wop_New
begin

text \<open>
  Destroying a window: its subtree leaves the tree and the list of windows, and nothing in the server refers to it any more.
\<close>

section \<open>Steps that keep the windows\<close>

lemma tree_okD:
  assumes "tree_ok s t"
  shows "base s t" "\<exists>ws. window_list s t ws" "cached s t" "distinct (free_windows s)" "set (free_windows s) \<inter> set (nodes t) = {}"
    "window_tree (win s) (rootwp s 0) t" "distinct (nodes t)" "linked (win s) t"
  using assms baseD(4) [of s t] by (auto simp: tree_ok_def window_tree_def)

lemma tree_ok_look:
  assumes "tree_ok s t" and "look t s s'"
  shows "tree_ok s' t"
proof -
  have l: "seen t s s'" "win s' = win s" using assms(2) by (simp_all add: look_def)
  note U = unseen_fields [OF seen_unseen [OF l(1)]]
  obtain ws where "window_list s t ws" using assms(1) by (auto simp: tree_ok_def)
  then have "window_list s' t ws" by (rule window_list_cong) (simp_all add: U l(2))
  then show ?thesis using assms(1) seen_base [OF l(1)] by (auto simp: tree_ok_def cached_def U l(2))
qed

lemma tree_ok_events: "tree_ok s t \<Longrightarrow> evq_ok q \<Longrightarrow> tree_ok (s\<lparr>evqueues := q\<rparr>) t"
  by (rule tree_ok_look) (auto intro!: redraw_look redrawI simp: tree_ok_def)

lemma tree_ok_selection: "tree_ok s t \<Longrightarrow> tree_ok (s\<lparr>selection_wid := 0\<rparr>) t"
  by (simp add: tree_ok_def base_def server_tree_def windows_drawable_def window_list_iff cached_def)

text \<open>The first part of the destruction of a window that is not shown.\<close>

definition same_windows :: "server \<Rightarrow> server \<Rightarrow> bool" where
  "same_windows s s' \<longleftrightarrow> win s' = win s \<and> rootwp s' = rootwp s \<and> free_windows s' = free_windows s \<and> list_grabbed_keys s' = list_grabbed_keys s"

lemma selection_tree_ok:
  assumes "tree_ok s t"
  shows "\<exists>s'. GsDeliverSelectionChangedEvent old new s = Some s' \<and> tree_ok s' t \<and> same_windows s s'"
proof -
  obtain r cid cw where f: "GsFindWindow old s = Some (r, with_cache cid cw s)" "tree_ok (with_cache cid cw s) t"
    by (rule find_tree [OF assms])
  show ?thesis
  proof (cases r)
    case None
    then show ?thesis using f by (auto simp: GsDeliverSelectionChangedEvent_def same_windows_def with_cache_def)
  next
    case (Some wp)
    have "evq_ok (evqueues (with_cache cid cw s))" using f(2) by (simp add: tree_ok_def base_def)
    then have "evq_ok (deliver_to (GR_EVENTMASK 20) (EVENT_SELECTION_CHANGED new) (w_eventclients (win s wp)) (evqueues s))"
      using deliver_to_sent sent_ok by (fastforce simp: with_cache_def)
    from tree_ok_events [OF f(2) this] show ?thesis
      using f(1) Some by (auto simp: GsDeliverSelectionChangedEvent_def same_windows_def with_cache_def)
  qed
qed

lemma start_tree_ok:
  assumes c: "tree_ok s t" and h: "\<not> w_realized (win s w)"
  shows "\<exists>s'. destroy_start beyond w s = Some s' \<and> tree_ok s' t \<and> same_windows s s'"
proof -
  obtain s1 where s1: "(if selection_wid s = w_id (win s w) then GsDeliverSelectionChangedEvent (selection_wid s) 0 (s\<lparr>selection_wid := 0\<rparr>)
      else Some s) = Some s1" "tree_ok s1 t" "same_windows s s1"
  proof (cases "selection_wid s = w_id (win s w)")
    case True
    then show ?thesis using selection_tree_ok [OF tree_ok_selection [OF c], of "selection_wid s" 0] that by (auto simp: same_windows_def)
  qed (use that [of s] c in \<open>simp add: same_windows_def\<close>)
  have h1: "\<not> w_realized (win s1 w)" using h s1(3) by (simp add: same_windows_def)
  let ?s = "GsDeliverUpdateEvent w GR_UPDATE_DESTROY (w_x (win s1 w)) (w_y (win s1 w)) (w_width (win s1 w)) (w_height (win s1 w)) s1"
  have r: "redraw t s1 ?s" by (rule update_redraw) (use s1(2) in \<open>simp add: tree_ok_def\<close>)
  have "undrawn ?s = undrawn s1" using r by (simp add: redraw_def)
  note F = undrawn_fields [OF this]
  have "destroy_start beyond w s = Some ?s" using s1(1) h1 by (simp add: destroy_start_def)
  moreover have "tree_ok ?s t" by (rule tree_ok_look [OF s1(2) redraw_look [OF r]])
  moreover have "same_windows s ?s" using s1(3) unfolding same_windows_def F(1,3,14,16) .
  ultimately show ?thesis by blast
qed

section \<open>Taking a window out of the lists\<close>

lemma unlink_sibling_total:
  assumes k: "chain (\<lambda>v. w_siblings (win s v)) (w_children (win s p)) (as @ w # bs)" "distinct (as @ w # bs)" and p: "w_parent (win s w) = Some p"
  shows "unlink_sibling w s = Some (unlinked p as w s)"
proof (cases as)
  case Nil
  then show ?thesis using k p by (simp add: unlink_sibling_def unlinked_def)
next
  case (Cons a as')
  then have f: "w_children (win s p) = Some a" "a \<noteq> w" using k by auto
  have "before (\<lambda>q. w_siblings (win s q)) a w = Some (last as)" by (rule before_last [of _ a as w bs]) (use k f Cons in auto)
  then show ?thesis using f p Cons by (simp add: unlink_sibling_def unlinked_def)
qed

definition unlisted :: "win_ptr list \<Rightarrow> win_ptr \<Rightarrow> server \<Rightarrow> server" where
  "unlisted xs w s =
    (if xs = [] then s\<lparr>listwp := (listwp s)(0 := w_next (win s w))\<rparr>
     else upd_win (last xs) (\<lambda>v. v\<lparr>w_next := w_next (win s w)\<rparr>) s)"

lemma unlink_window_total:
  assumes k: "chain (\<lambda>v. w_next (win s v)) (listwp s 0) (xs @ w # ys)" "distinct (xs @ w # ys)"
  shows "unlink_window 0 w s = Some (unlisted xs w s)"
proof (cases xs)
  case Nil
  then show ?thesis using k by (simp add: unlink_window_def unlisted_def)
next
  case (Cons a xs')
  then have f: "listwp s 0 = Some a" "a \<noteq> w" using k by auto
  have "before (\<lambda>q. w_next (win s q)) a w = Some (last xs)" by (rule before_last [of _ a xs w ys]) (use k f Cons in auto)
  then show ?thesis using f Cons by (simp add: unlink_window_def unlisted_def)
qed

lemma unlisted_chain:
  assumes "chain (\<lambda>v. w_next (win s v)) (listwp s 0) (xs @ w # ys)" and "distinct (xs @ w # ys)"
  shows "chain (\<lambda>v. w_next (win (unlisted xs w s) v)) (listwp (unlisted xs w s) 0) (xs @ ys)"
proof (cases "xs = []")
  case False
  then have "(\<lambda>v. w_next (win (unlisted xs w s) v)) = (\<lambda>v. w_next (win s v))(last xs := w_next (win s w))" by (auto simp: unlisted_def)
  then show ?thesis using chain_remove [OF assms] False by (simp add: unlisted_def)
qed (use assms(1) in \<open>simp add: unlisted_def\<close>)

text \<open>A window that is in none of the lists any more.\<close>

definition detached :: "win_ptr \<Rightarrow> win_ptr list \<Rightarrow> win_ptr list \<Rightarrow> win_ptr \<Rightarrow> server \<Rightarrow> server" where
  "detached p as xs w s =
    upd_win w (\<lambda>w. w\<lparr>w_next := None\<rparr>) (unlisted xs w (upd_win w (\<lambda>w. w\<lparr>w_siblings := None\<rparr>)
      (unlinked p as w (upd_win w (\<lambda>w. w\<lparr>w_eventclients := []\<rparr>) s))))"

lemma detached_end:
  assumes "chain (\<lambda>v. w_siblings (win s v)) (w_children (win s p)) (as @ w # bs)" "distinct (as @ w # bs)" and "w_parent (win s w) = Some p"
    and "chain (\<lambda>v. w_next (win s v)) (listwp s 0) (xs @ w # ys)" "distinct (xs @ w # ys)"
  shows "destroy_end 0 w s = Option.bind (GsCheckMouseWindow (forget_window 0 w (detached p as xs w s)))
    (\<lambda>s. Some (s\<lparr>list_grabbed_keys := filter (\<lambda>k. g_wid k \<noteq> w_id (win s w)) (list_grabbed_keys s), free_windows := w # free_windows s\<rparr>))"
proof -
  let ?s1 = "upd_win w (\<lambda>w. w\<lparr>w_eventclients := []\<rparr>) s"
  let ?s3 = "upd_win w (\<lambda>w. w\<lparr>w_siblings := None\<rparr>) (unlinked p as w ?s1)"
  have same: "w_siblings (win ?s1 v) = w_siblings (win s v)" "w_children (win ?s1 v) = w_children (win s v)"
    "w_parent (win ?s1 v) = w_parent (win s v)" "w_next (win ?s3 v) = w_next (win s v)" for v by (auto simp: unlinked_def)
  have l: "listwp ?s3 = listwp s" by (simp add: unlinked_def)
  have "unlink_sibling w ?s1 = Some (unlinked p as w ?s1)" by (rule unlink_sibling_total [of _ p as w bs]) (simp_all only: same assms)
  moreover have "unlink_window 0 w ?s3 = Some (unlisted xs w ?s3)" by (rule unlink_window_total [of _ xs w ys]) (simp_all only: same l assms)
  ultimately show ?thesis by (simp add: destroy_end_def detached_def)
qed

lemma win_ok_links [simp]:
  "win_ok (w\<lparr>w_next := a\<rparr>) = win_ok w" "win_ok (w\<lparr>w_siblings := a\<rparr>) = win_ok w" "win_ok (w\<lparr>w_children := a\<rparr>) = win_ok w"
  "win_ok (w\<lparr>w_eventclients := ecs\<rparr>) = win_ok w"
  by (simp_all add: win_ok_def)

lemma unlisted_fields:
  fixes w xs s
  defines "s' \<equiv> unlisted xs w s"
  shows "w_parent (win s' v) = w_parent (win s v)" "w_id (win s' v) = w_id (win s v)" "w_layer (win s' v) = w_layer (win s v)"
    "w_props (win s' v) = w_props (win s v)" "w_realized (win s' v) = w_realized (win s v)" "w_mapped (win s' v) = w_mapped (win s v)"
    "win_ok (win s' v) = win_ok (win s v)" "w_clipregion (win s' v) = w_clipregion (win s v)" "w_bgpixmap (win s' v) = w_bgpixmap (win s v)"
    "w_children (win s' v) = w_children (win s v)" "w_siblings (win s' v) = w_siblings (win s v)"
    "rootwp s' = rootwp s" "mousewp s' = mousewp s" "focuswp s' = focuswp s" "grabbuttonwp s' = grabbuttonwp s" "clipwp s' = clipwp s"
    "cachewindowid s' = cachewindowid s" "cachewp s' = cachewp s" "free_windows s' = free_windows s" "evqueues s' = evqueues s"
    "pixmaps s' = pixmaps s" "scrNumberOfLayers s' = scrNumberOfLayers s" "list_grabbed_keys s' = list_grabbed_keys s"
  unfolding s'_def unlisted_def by simp_all

lemma unlinked_server:
  fixes p w as s
  defines "s' \<equiv> unlinked p as w s"
  shows "rootwp s' = rootwp s" "mousewp s' = mousewp s" "focuswp s' = focuswp s" "grabbuttonwp s' = grabbuttonwp s" "clipwp s' = clipwp s"
    "cachewindowid s' = cachewindowid s" "cachewp s' = cachewp s" "free_windows s' = free_windows s" "evqueues s' = evqueues s"
    "pixmaps s' = pixmaps s" "scrNumberOfLayers s' = scrNumberOfLayers s" "list_grabbed_keys s' = list_grabbed_keys s"
  unfolding s'_def unlinked_def by simp_all

lemma detached_fields:
  fixes w p as xs s
  defines "s' \<equiv> detached p as xs w s"
  shows "w_parent (win s' v) = w_parent (win s v)" "w_id (win s' v) = w_id (win s v)" "w_layer (win s' v) = w_layer (win s v)"
    "w_props (win s' v) = w_props (win s v)" "w_realized (win s' v) = w_realized (win s v)" "w_mapped (win s' v) = w_mapped (win s v)"
    "win_ok (win s' v) = win_ok (win s v)" "w_clipregion (win s' v) = w_clipregion (win s v)" "w_bgpixmap (win s' v) = w_bgpixmap (win s v)"
    "v \<noteq> p \<Longrightarrow> w_children (win s' v) = w_children (win s v)"
    "v \<notin> set as \<Longrightarrow> v \<noteq> w \<Longrightarrow> w_siblings (win s' v) = w_siblings (win s v)"
    "rootwp s' = rootwp s" "mousewp s' = mousewp s" "focuswp s' = focuswp s" "grabbuttonwp s' = grabbuttonwp s" "clipwp s' = clipwp s"
    "cachewindowid s' = cachewindowid s" "cachewp s' = cachewp s" "free_windows s' = free_windows s" "evqueues s' = evqueues s"
    "pixmaps s' = pixmaps s" "scrNumberOfLayers s' = scrNumberOfLayers s" "list_grabbed_keys s' = list_grabbed_keys s"
  unfolding s'_def detached_def
  by (simp_all add: unlisted_fields unlinked_server relinkedD [OF unlinked_fields(2)] unlinked_fields(3,4))

lemma detached_siblings:
  assumes k: "chain (\<lambda>v. w_siblings (win s v)) (w_children (win s p)) (as @ w # bs)" "distinct (as @ w # bs)" "p \<notin> set (as @ w # bs)"
  shows "chain (\<lambda>v. w_siblings (win (detached p as xs w s) v)) (w_children (win (detached p as xs w s) p)) (as @ bs)"
proof -
  let ?s1 = "upd_win w (\<lambda>w. w\<lparr>w_eventclients := []\<rparr>) s"
  have same: "w_siblings (win ?s1 v) = w_siblings (win s v)" "w_children (win ?s1 v) = w_children (win s v)" for v by auto
  have "chain (\<lambda>v. w_siblings (win (unlinked p as w ?s1) v)) (w_children (win (unlinked p as w ?s1) p)) (as @ bs)"
    by (rule unlinked_chain) (simp_all only: same k not_False_eq_True)
  moreover have "w_children (win (detached p as xs w s) p) = w_children (win (unlinked p as w ?s1) p)"
    by (simp add: detached_def unlisted_fields)
  moreover have kept: "w_siblings (win (detached p as xs w s) v) = w_siblings (win (unlinked p as w ?s1) v)" if "v \<noteq> w" for v
    using that by (simp add: detached_def unlisted_fields)
  then have "chain (\<lambda>v. w_siblings (win (detached p as xs w s) v)) q (as @ bs)
    = chain (\<lambda>v. w_siblings (win (unlinked p as w ?s1) v)) q (as @ bs)" for q
    by (intro chain_cong kept) (use k(2) in auto)
  ultimately show ?thesis by simp
qed

lemma detached_next:
  assumes k: "chain (\<lambda>v. w_next (win s v)) (listwp s 0) (xs @ w # ys)" "distinct (xs @ w # ys)"
  shows "chain (\<lambda>v. w_next (win (detached p as xs w s) v)) (listwp (detached p as xs w s) 0) (xs @ ys)"
proof -
  let ?s3 = "upd_win w (\<lambda>w. w\<lparr>w_siblings := None\<rparr>) (unlinked p as w (upd_win w (\<lambda>w. w\<lparr>w_eventclients := []\<rparr>) s))"
  have same: "w_next (win ?s3 v) = w_next (win s v)" "listwp ?s3 = listwp s" for v by (auto simp: unlinked_def)
  have "chain (\<lambda>v. w_next (win (unlisted xs w ?s3) v)) (listwp (unlisted xs w ?s3) 0) (xs @ ys)"
    by (rule unlisted_chain) (simp_all only: same k)
  moreover have "chain (\<lambda>v. w_next (win (detached p as xs w s) v)) q (xs @ ys) = chain (\<lambda>v. w_next (win (unlisted xs w ?s3) v)) q (xs @ ys)" for q
    by (rule chain_cong) (use k(2) in \<open>auto simp: detached_def\<close>)
  ultimately show ?thesis by (simp add: detached_def)
qed

section \<open>Destroying a leaf\<close>

lemma mouse_window_in:
  assumes "window_tree (win s) (rootwp s 0) t" and "\<forall>g. grabbuttonwp s = Some g \<longrightarrow> g \<in> set (nodes t)"
  shows "mouse_window s x y \<in> set (nodes t)"
  using assms(2) visible_window_node [OF assms(1), of x y] by (auto simp: mouse_window_def split: option.split)

lemma forget_fields:
  fixes w s
  defines "s' \<equiv> forget_window 0 w s"
  shows "win s' = win s" "rootwp s' = rootwp s" "listwp s' = listwp s" "scrNumberOfLayers s' = scrNumberOfLayers s" "mousewp s' = mousewp s"
    "evqueues s' = evqueues s" "pixmaps s' = pixmaps s" "free_windows s' = free_windows s" "list_grabbed_keys s' = list_grabbed_keys s"
    "focuswp s' = (if w = focuswp s then rootwp s 0 else focuswp s)" "clipwp s' = (if Some w = clipwp s then None else clipwp s)"
    "grabbuttonwp s' = (if Some w = grabbuttonwp s then None else grabbuttonwp s)"
    "cachewindowid s' = (if Some w = cachewp s then 0 else cachewindowid s)" "cachewp s' = (if Some w = cachewp s then None else cachewp s)"
  unfolding s'_def forget_window_def Let_def by auto

text \<open>What the destruction of the windows \<open>V\<close> leaves as it was.\<close>

definition destroyed :: "win_ptr set \<Rightarrow> server \<Rightarrow> server \<Rightarrow> bool" where
  "destroyed V s s' \<longleftrightarrow> rootwp s' = rootwp s \<and> set (free_windows s') = V \<union> set (free_windows s) \<and>
     set (list_grabbed_keys s') \<subseteq> set (list_grabbed_keys s) \<and>
     (\<forall>k\<in>set (list_grabbed_keys s'). \<forall>v\<in>V. g_wid k \<noteq> w_id (win s v)) \<and>
     (\<forall>v. w_parent (win s' v) = w_parent (win s v) \<and> w_id (win s' v) = w_id (win s v) \<and>
       w_realized (win s' v) = w_realized (win s v) \<and> w_mapped (win s' v) = w_mapped (win s v))"

lemma end_tree:
  assumes c: "tree_ok s t" and sub: "Node p (as @ Node w [] # bs) \<in> set (subs t)"
  defines "t' \<equiv> with_children p (as @ bs) t"
  shows "window_tree (win (detached p (map root_of as) xs w s)) (rootwp s 0) t'" "set (nodes t') = set (nodes t) - {w}" "w \<noteq> rootwp s 0"
proof -
  let ?s = "detached p (map root_of as) xs w s"
  note K = kids [OF tree_okD(1) [OF c] sub] and F = detached_fields [where p = p and as = "map root_of as" and xs = xs and w = w and s = s]
  have wt: "distinct (nodes t)" "linked (win s) t" "root_of t = rootwp s 0" "w_parent (win s (root_of t)) = None"
    "w_siblings (win s (root_of t)) = None" using tree_okD(6) [OF c] by (simp_all add: window_tree_def)
  have win: "Node w [] \<in> set (as @ Node w [] # bs)" by simp
  have m: "add_mset w (mset (nodes t')) = mset (nodes t)"
    using with_nodes [OF wt(1) sub, of "as @ bs"] by (simp add: t'_def)
  then have "distinct (w # nodes t')" using wt(1) by (metis mset.simps(2) mset_eq_imp_distinct_iff)
  then have dt: "distinct (nodes t')" "w \<notin> set (nodes t')" by simp_all
  have "set (nodes t) = insert w (set (nodes t'))" using m by (metis set_mset_add_mset_insert set_mset_mset)
  then show "set (nodes t') = set (nodes t) - {w}" using dt(2) by auto
  show "w \<noteq> rootwp s 0" using K(6) [OF win] by simp
  have roots: "rootwp s 0 \<notin> root_of ` set (as @ Node w [] # bs)"
  proof
    assume "rootwp s 0 \<in> root_of ` set (as @ Node w [] # bs)"
    then obtain u where u: "u \<in> set (as @ Node w [] # bs)" "rootwp s 0 = root_of u" by (rule imageE)
    show False using K(6) [OF u(1)] u(2) by simp
  qed
  have "linked (win ?s) t'"
    unfolding t'_def
  proof (rule linked_edit [OF wt(1) sub wt(2)])
    show "chain (\<lambda>v. w_siblings (win ?s v)) (w_children (win ?s p)) (map root_of (as @ bs))"
      using detached_siblings [of s p "map root_of as" w "map root_of bs" xs] K(1-3) by (simp add: image_Un)
    show "w_siblings (win ?s v) = w_siblings (win s v)" if "v \<notin> root_of ` set (as @ Node w [] # bs)" for v
      by (rule F(11)) (use that in auto)
    show "w_parent (win ?s v) = w_parent (win s v)" for v by (rule F(1))
    show "w_children (win ?s v) = w_children (win s v)" if "v \<noteq> p" for v by (rule F(10) [OF that])
  qed auto
  then show "window_tree (win ?s) (rootwp s 0) t'"
    using dt(1) wt(3-5) F(11) [of "rootwp s 0"] roots by (auto simp: window_tree_def F t'_def image_Un)
qed

lemma end_tree_ok:
  assumes c: "tree_ok s t" and sub: "Node p (as @ Node w [] # bs) \<in> set (subs t)"
  defines "t' \<equiv> with_children p (as @ bs) t"
  shows "\<exists>s'. destroy_end 0 w s = Some s' \<and> tree_ok s' t' \<and> destroyed {w} s s'"
proof -
  obtain ws0 where ws0: "window_list s t ws0" using tree_okD(2) [OF c] by blast
  note W = ws0 [unfolded window_list_iff]
  note K = kids [OF tree_okD(1) [OF c] sub]
  have "Node w [] \<in> set (as @ Node w [] # bs)" by simp
  note wf = K(4) [OF this] K(5) [OF this]
  have "w \<in> set ws0" using W wf(2) by simp
  then obtain xs ys where xs: "ws0 = xs @ w # ys" by (meson split_list)
  let ?s5 = "detached p (map root_of as) xs w s"
  let ?s6 = "forget_window 0 w ?s5"
  note F = detached_fields [where p = p and as = "map root_of as" and xs = xs and w = w and s = s]
  note G = forget_fields [of w ?s5]
  note T = end_tree(1) [OF c sub, of xs, folded t'_def] end_tree(2,3) [OF c sub, folded t'_def]
  have b: "base s t" by (rule tree_okD(1) [OF c])
  have root: "rootwp s 0 \<in> set (nodes t')" using base_root [OF b] T(2,3) by auto
  have wt: "window_tree (win ?s6) (rootwp ?s6 0) t'" using T(1) by (simp add: G F)
  have "evq_ok (evqueues ?s6)" using baseD(3) [OF b] by (simp add: G F)
  from check_mouse_tree [OF wt this] obtain q where q: "GsCheckMouseWindow ?s6
      = Some (?s6\<lparr>mousewp := mouse_window ?s6 (cursorx ?s6) (cursory ?s6), evqueues := q\<rparr>)" "evq_ok q" using sent_ok by blast
  have grab: "\<forall>g. grabbuttonwp ?s6 = Some g \<longrightarrow> g \<in> set (nodes t')"
    using baseD(1) [OF b] T(2) by (auto simp: G F server_tree_def)
  let ?m = "mouse_window ?s6 (cursorx ?s6) (cursory ?s6)"
  have m: "?m \<in> set (nodes t')" by (rule mouse_window_in [OF wt grab])
  let ?s8 = "?s6\<lparr>mousewp := ?m, evqueues := q, list_grabbed_keys := filter (\<lambda>k. g_wid k \<noteq> w_id (win s w)) (list_grabbed_keys s),
      free_windows := w # free_windows s\<rparr>"
  have e: "destroy_end 0 w s = Some ?s8"
    using detached_end [of s p "map root_of as" w "map root_of bs" xs ys] K(1,2) wf(1) W xs q(1) by (simp add: G F)
  have "focuswp ?s6 \<in> set (nodes t')" using baseD(1) [OF b] root T(2) by (auto simp: server_tree_def forget_fields detached_fields)
  then have "server_tree ?s8 t'"
    using baseD(1) [OF b] wt m grab root T(2) by (simp add: server_tree_def G(1,2) F(3,4,12))
  moreover have "windows_drawable ?s8 t'" using baseD(2) [OF b] T(2) by (simp add: windows_drawable_def G F) blast
  moreover have "\<forall>v. clipwp ?s8 = Some v \<longrightarrow> v \<in> set (nodes t')" using b T(2) by (auto simp: base_def G F)
  ultimately have b': "base ?s8 t'" using q(2) by (simp add: base_def)
  have "window_list ?s8 t' (xs @ ys)"
  proof -
    have "chain (\<lambda>v. w_next (win ?s5 v)) (listwp ?s5 0) (xs @ ys)" by (rule detached_next) (use W xs in simp_all)
    moreover have "set (xs @ ys) = set (nodes t')" using W xs T(2) by auto
    moreover have "inj_on (\<lambda>v. w_id (win s v)) (set (xs @ ys))" using W xs by (auto simp: inj_on_def)
    ultimately show ?thesis using W xs root unfolding window_list_iff by (simp add: G F)
  qed
  moreover have "cached ?s8 t'" using tree_okD(3) [OF c] T(2) by (auto simp: cached_def G F)
  ultimately have "tree_ok ?s8 t'" using b' tree_okD(4,5) [OF c] wf(2) T(2) by (auto simp: tree_ok_def)
  moreover have "destroyed {w} s ?s8" by (auto simp: destroyed_def G F)
  ultimately show ?thesis using e by blast
qed

section \<open>Destroying a subtree\<close>

lemma destroyed_trans:
  assumes "destroyed V s s1" and "destroyed V' s1 s2"
  shows "destroyed (V \<union> V') s s2"
proof -
  have "\<forall>k\<in>set (list_grabbed_keys s2). \<forall>v\<in>V \<union> V'. g_wid k \<noteq> w_id (win s v)"
    using assms unfolding destroyed_def by (metis UnE subsetD)
  then show ?thesis using assms unfolding destroyed_def by auto
qed

lemma same_windows_destroyed: "same_windows s s' \<Longrightarrow> destroyed {} s s'"
  by (simp add: same_windows_def destroyed_def)

lemma destroyed_realized: "destroyed V s s' \<Longrightarrow> w_realized (win s' v) = w_realized (win s v)"
  by (simp add: destroyed_def)

text \<open>The loop over the children, when the destruction of one child is understood.\<close>

lemma destroy_loop:
  assumes one: "\<And>c s t us. c \<in> set ts \<Longrightarrow> tree_ok s t \<Longrightarrow> Node w (c # us) \<in> set (subs t) \<Longrightarrow> \<forall>v\<in>set (nodes c). \<not> w_realized (win s v) \<Longrightarrow>
      \<exists>s'. Option.bind (destroy_windows beyond True (root_of c) s) (destroy_end 0 (root_of c)) = Some s' \<and>
        tree_ok s' (with_children w us t) \<and> destroyed (set (nodes c)) s s'"
  shows "set us \<subseteq> set ts \<Longrightarrow> tree_ok s t \<Longrightarrow> Node w us \<in> set (subs t) \<Longrightarrow> \<forall>v\<in>windows us. \<not> w_realized (win s v) \<Longrightarrow>
      \<exists>s'. destroy_windows beyond True w s = Some s' \<and> tree_ok s' (with_children w [] t) \<and> destroyed (windows us) s s'"
proof (induction us arbitrary: s t)
  case Nil
  note K = kids [OF tree_okD(1) [OF Nil.prems(2)] Nil.prems(3)]
  have "with_children w [] t = t" by (rule with_same [OF tree_okD(7) [OF Nil.prems(2)] Nil.prems(3)])
  then show ?case using K(1) Nil.prems(2) by (subst destroy_windows.simps) (simp add: destroyed_def)
next
  case (Cons c us)
  note K = kids [OF tree_okD(1) [OF Cons.prems(2)] Cons.prems(3)]
  have c: "c \<in> set (c # us)" by simp
  have "\<not> w_realized (win s (root_of c))" using Cons.prems(4) root_in_nodes [of c] by (simp del: root_in_nodes)
  then obtain s1 where s1: "destroy_start beyond (root_of c) s = Some s1" "tree_ok s1 t" "same_windows s s1"
    using start_tree_ok [OF Cons.prems(2)] by blast
  have w1: "win s1 = win s" using s1(3) by (simp add: same_windows_def)
  obtain s2 where s2: "Option.bind (destroy_windows beyond True (root_of c) s1) (destroy_end 0 (root_of c)) = Some s2"
    "tree_ok s2 (with_children w us t)" "destroyed (set (nodes c)) s1 s2"
    using one [OF _ s1(2) Cons.prems(3)] Cons.prems(1,4) w1 by auto
  have lay: "w_layer (win s (root_of c)) = 0" by (rule baseD(6) [OF tree_okD(1) [OF Cons.prems(2)] K(5) [OF c]])
  have d: "destroy_windows beyond False (root_of c) s = Some s2"
    using s1(1) s2(1) K(6) [OF c] lay by (subst destroy_windows.simps) simp
  have sub: "Node w us \<in> set (subs (with_children w us t))" by (rule with_sub [OF tree_okD(7) [OF Cons.prems(2)] Cons.prems(3)])
  have "\<forall>v\<in>windows us. \<not> w_realized (win s2 v)" using Cons.prems(4) destroyed_realized [OF s2(3)] w1 by simp
  then obtain s3 where s3: "destroy_windows beyond True w s2 = Some s3" "tree_ok s3 (with_children w [] (with_children w us t))"
    "destroyed (windows us) s2 s3" using Cons.IH [OF _ s2(2) sub] Cons.prems(1) by auto
  have "with_children w [] (with_children w us t) = with_children w [] t"
    by (rule with_with [OF tree_okD(7) [OF Cons.prems(2)] Cons.prems(3)])
  moreover have "destroy_windows beyond True w s = Some s3"
    using K(1) d s3(1) by (subst destroy_windows.simps) simp
  moreover have "destroyed (windows (c # us)) s s3"
    using destroyed_trans [OF destroyed_trans [OF same_windows_destroyed [OF s1(3)] s2(3)] s3(3)] by simp
  ultimately show ?case using s3(2) by auto
qed

lemma destroy_rest:
  "tree_ok s t \<Longrightarrow> Node p (as @ u # bs) \<in> set (subs t) \<Longrightarrow> \<forall>v\<in>set (nodes u). \<not> w_realized (win s v) \<Longrightarrow>
    \<exists>s'. Option.bind (destroy_windows beyond True (root_of u) s) (destroy_end 0 (root_of u)) = Some s' \<and>
      tree_ok s' (with_children p (as @ bs) t) \<and> destroyed (set (nodes u)) s s'"
proof (induction u arbitrary: s t p as bs)
  case (Node w ts)
  have sub: "Node w ts \<in> set (subs t)" by (rule subs_child [OF Node.prems(2)]) simp
  have one: "\<exists>s'. Option.bind (destroy_windows beyond True (root_of c) s) (destroy_end 0 (root_of c)) = Some s' \<and>
      tree_ok s' (with_children w us t) \<and> destroyed (set (nodes c)) s s'"
    if "c \<in> set ts" "tree_ok s t" "Node w (c # us) \<in> set (subs t)" "\<forall>v\<in>set (nodes c). \<not> w_realized (win s v)" for c s t us
    using Node.IH [OF that(1,2), of w "[]" us] that(3,4) by simp
  have hid: "\<forall>v\<in>windows ts. \<not> w_realized (win s v)" "\<not> w_realized (win s w)" using Node.prems(3) by (simp_all add: windows_def)
  obtain s1 where s1: "destroy_windows beyond True w s = Some s1" "tree_ok s1 (with_children w [] t)" "destroyed (windows ts) s s1"
    using destroy_loop [where ts = ts and us = ts and beyond = beyond, OF one _ Node.prems(1) sub hid(1)] by blast
  note I = with_inner [OF tree_okD(7) [OF Node.prems(1)] Node.prems(2)]
  obtain s2 where s2: "destroy_end 0 w s1 = Some s2" "tree_ok s2 (with_children p (as @ bs) (with_children w [] t))" "destroyed {w} s1 s2"
    using end_tree_ok [OF s1(2) I(1)] by blast
  have "destroyed (set (nodes (Node w ts))) s s2" using destroyed_trans [OF s1(3) s2(3)] by (simp only: nodes_windows Un_insert_right Un_empty_right)
  then show ?case using s1(1) s2(1,2) I(2) by auto
qed

text \<open>A window that is not shown hides its subtree.\<close>

lemma unshown_hidden:
  assumes b: "base s t" and v: "vis_ok s t" and u: "u \<in> set (subs t)" and h: "\<not> w_realized (win s (root_of u))"
  shows "hidden_at s t u"
proof -
  have l: "w_realized (win s (rootwp s 0))" "\<forall>v\<in>set (nodes t). local_vis s v" using v vis_local [OF baseD(4) [OF b]] by auto
  have "closed s u" by (rule local_closed) (use subs_linked [OF baseD(5) [OF b] u] subs_nodes [OF u] l(2) in auto)
  then have "\<forall>v\<in>set (nodes u). \<not> w_realized (win s v)" using h subs_self [of u] unfolding closed_def by blast
  then show ?thesis using l by (simp add: hidden_at_def)
qed

lemma start_shown:
  assumes ok: "server_ok s t" and u: "u \<in> set (subs t)" "u \<noteq> t"
  shows "\<exists>s'. destroy_start beyond (root_of u) s = Some s' \<and> tree_ok s' t \<and> hidden_at s' t u \<and> windows_are (win s) s' \<and>
    rootwp s' = rootwp s \<and> free_windows s' = free_windows s \<and> list_grabbed_keys s' = list_grabbed_keys s"
proof -
  let ?w = "root_of u"
  have c: "tree_ok s t" "vis_ok s t" using ok by (simp_all add: server_ok_tree)
  obtain s1 where s1: "(if selection_wid s = w_id (win s ?w) then GsDeliverSelectionChangedEvent (selection_wid s) 0 (s\<lparr>selection_wid := 0\<rparr>)
      else Some s) = Some s1" "tree_ok s1 t" "same_windows s s1"
  proof (cases "selection_wid s = w_id (win s ?w)")
    case True
    then show ?thesis using selection_tree_ok [OF tree_ok_selection [OF c(1)], of "selection_wid s" 0] that by (auto simp: same_windows_def)
  qed (use that [of s] c in \<open>simp add: same_windows_def\<close>)
  have w1: "win s1 = win s" using s1(3) by (simp add: same_windows_def)
  have v1: "vis_ok s1 t" by (rule vis_ok_win [OF c(2)]) (simp_all add: w1)
  obtain s2 where s2: "(if w_realized (win s1 ?w) then GsWpUnrealizeWindow beyond ?w False s1 else Some s1) = Some s2" "seen t s1 s2"
    "hidden_at s2 t u"
  proof (cases "w_realized (win s1 ?w)")
    case True
    then show ?thesis using unrealize_hidden [OF tree_okD(1) [OF s1(2)] v1 u] that by auto
  next
    case False
    then show ?thesis using that [of s1] unshown_hidden [OF tree_okD(1) [OF s1(2)] v1 u(1) False] seen_refl [OF tree_okD(1) [OF s1(2)]] by simp
  qed
  note U = seen_unseen [OF s2(2)]
  obtain ws where "window_list s1 t ws" using s1(2) by (auto simp: tree_ok_def)
  then have "window_list s2 t ws" by (rule window_list_cong) (simp_all add: unseen_fields [OF U] unseen_links [OF U])
  then have c2: "tree_ok s2 t" using s1(2) seen_base [OF s2(2)] by (auto simp: tree_ok_def cached_def unseen_fields [OF U] unseen_links [OF U])
  let ?s3 = "GsDeliverUpdateEvent ?w GR_UPDATE_DESTROY (w_x (win s2 ?w)) (w_y (win s2 ?w)) (w_width (win s2 ?w)) (w_height (win s2 ?w)) s2"
  have r: "redraw t s2 ?s3" by (rule update_redraw [OF tree_okD(1) [OF c2]])
  note l = redraw_look [OF r]
  have "undrawn ?s3 = undrawn s2" using r by (simp add: redraw_def)
  note F = undrawn_fields [OF this]
  have "destroy_start beyond ?w s = Some ?s3" using s1(1) s2(1) by (simp add: destroy_start_def)
  moreover have "tree_ok ?s3 t" "hidden_at ?s3 t u" using tree_ok_look [OF c2 l] hidden_seen [OF s2(3) l] by simp_all
  moreover have "windows_are (win s) ?s3"
    by (rule windows_are_look [OF windows_are_seen [OF _ s2(2)] l]) (simp add: windows_are_def w1)
  moreover have "rootwp ?s3 = rootwp s" "free_windows ?s3 = free_windows s" "list_grabbed_keys ?s3 = list_grabbed_keys s"
    using s1(3) unfolding same_windows_def F by (simp_all add: unseen_fields [OF U])
  ultimately show ?thesis by blast
qed

lemma destroy_window:
  assumes ok: "server_ok s t" and sub: "Node p (as @ u # bs) \<in> set (subs t)"
  defines "t' \<equiv> with_children p (as @ bs) t"
  shows "\<exists>s'. GsWpDestroyWindow beyond (root_of u) s = Some s' \<and> server_ok s' t' \<and> set (nodes t') = set (nodes t) - set (nodes u) \<and>
    set (free_windows s') = set (nodes u) \<union> set (free_windows s) \<and>
    (\<forall>k\<in>set (list_grabbed_keys s'). \<forall>v\<in>set (nodes u). g_wid k \<noteq> w_id (win s v))"
proof -
  note K = kids [OF server_okD(1) [OF ok] sub]
  have uin: "u \<in> set (as @ u # bs)" by simp
  note us = K(8) [OF uin] K(9) [OF uin]
  obtain s1 where s1: "destroy_start beyond (root_of u) s = Some s1" "tree_ok s1 t" "hidden_at s1 t u" "windows_are (win s) s1"
    "rootwp s1 = rootwp s" "free_windows s1 = free_windows s" "list_grabbed_keys s1 = list_grabbed_keys s"
    using start_shown [OF ok us] by blast
  have hid: "\<forall>v\<in>set (nodes u). \<not> w_realized (win s1 v)" using s1(3) by (simp add: hidden_at_def)
  obtain s2 where s2: "Option.bind (destroy_windows beyond True (root_of u) s1) (destroy_end 0 (root_of u)) = Some s2"
    "tree_ok s2 t'" "destroyed (set (nodes u)) s1 s2"
    using destroy_rest [OF s1(2) sub hid] unfolding t'_def by blast
  have lay: "w_layer (win s (root_of u)) = 0" by (rule baseD(6) [OF server_okD(1) [OF ok] K(5) [OF uin]])
  have "GsWpDestroyWindow beyond (root_of u) s = Some s2"
    using s1(1) s2(1) K(6) [OF uin] lay unfolding GsWpDestroyWindow_def by (subst destroy_windows.simps) simp
  moreover have nt: "set (nodes t') = set (nodes t) - set (nodes u)"
  proof -
    have "mset (nodes t') + mset (nodes u) = mset (nodes t)"
      using with_nodes [OF server_okD(6) [OF ok] sub, of "as @ bs"] by (simp add: t'_def)
    then have m: "mset (nodes t' @ nodes u) = mset (nodes t)" by simp
    then have "distinct (nodes t' @ nodes u)" using server_okD(6) [OF ok] mset_eq_imp_distinct_iff by blast
    moreover have "set (nodes t' @ nodes u) = set (nodes t)" using m by (rule mset_eq_setD)
    ultimately show ?thesis by auto
  qed
  moreover have "vis_ok s2 t'"
  proof -
    have "local_vis s2 v" if "v \<in> set (nodes t')" for v
      using s1(3) s2(3) that nt by (simp add: hidden_at_def destroyed_def local_vis_def)
    moreover have "w_realized (win s2 (rootwp s2 0))" using s1(3,5) s2(3) by (simp add: hidden_at_def destroyed_def)
    ultimately show ?thesis using vis_local [OF tree_okD(6) [OF s2(2)]] by simp
  qed
  moreover have "w_id (win s1 v) = w_id (win s v)" for v
  proof -
    obtain r where "win s1 v = (win s v)\<lparr>w_realized := r\<rparr>" using s1(4) unfolding windows_are_def by blast
    then show ?thesis by simp
  qed
  ultimately show ?thesis using s2(2,3) s1(6) by (auto simp: server_ok_tree destroyed_def)
qed

end
