(* ===== verification/Wop_Reparent.thy ===== *)
theory Wop_Reparent
  imports Wop_Destroy
begin

text \<open>
  Reparenting: a window with all windows inside it becomes the first child of another window.  When that window is inside the one to be
  moved, the links turn into a cycle and the server does not return.
\<close>

section \<open>Links without an end\<close>

text \<open>Every window of the set has a child in the set: a walk that enters it has to go on for ever.\<close>

definition endless :: "(win_ptr \<Rightarrow> gr_window) \<Rightarrow> win_ptr set \<Rightarrow> bool" where
  "endless W Z \<longleftrightarrow> (\<forall>v\<in>Z. \<exists>ws. chain (\<lambda>v. w_siblings (W v)) (w_children (W v)) ws \<and> set ws \<inter> Z \<noteq> {})"

definition links :: "(win_ptr \<Rightarrow> gr_window) \<Rightarrow> win_ptr \<Rightarrow> win_ptr option \<times> win_ptr option" where
  "links W v = (w_children (W v), w_siblings (W v))"

lemma links_eq:
  assumes "links W' = links W"
  shows "w_children (W' v) = w_children (W v)" "w_siblings (W' v) = w_siblings (W v)"
  using fun_cong [OF assms, of v] by (simp_all add: links_def)

text \<open>A walk that returns has met no window of such a set.\<close>

definition avoids :: "bool \<Rightarrow> win_ptr option \<Rightarrow> server \<Rightarrow> server \<Rightarrow> bool" where
  "avoids later wp s s' \<longleftrightarrow> links (win s') = links (win s) \<and>
     (\<forall>Z. endless (win s) Z \<longrightarrow> (\<forall>v\<in>Z. wp \<noteq> Some v) \<and>
        (\<forall>ws. later \<longrightarrow> chain (\<lambda>v. w_siblings (win s v)) wp ws \<longrightarrow> set ws \<inter> Z = {}))"

lemma chain_None: "chain nx None ws \<Longrightarrow> ws = []"
  by (cases ws) auto

lemma avoids_step:
  assumes k: "links (win s0) = links (win s)" and c: "avoids True (w_children (win s v)) s0 s1"
    and r: "if later then avoids True (w_siblings (win s v)) s1 s' else s' = s1"
  shows "avoids later (Some v) s s'"
proof -
  have k1: "links (win s1) = links (win s)" using c k by (simp add: avoids_def)
  then have k': "links (win s') = links (win s)" using r by (auto simp: avoids_def split: if_splits)
  note L = links_eq [OF k] links_eq [OF k1]
  have e: "endless (win s0) Z = endless (win s) Z" "endless (win s1) Z = endless (win s) Z" for Z by (simp_all add: endless_def L)
  { fix Z assume Z: "endless (win s) Z"
    have "v \<notin> Z"
    proof
      assume "v \<in> Z"
      then obtain ws where "chain (\<lambda>v. w_siblings (win s v)) (w_children (win s v)) ws" "set ws \<inter> Z \<noteq> {}"
        using Z unfolding endless_def by blast
      then show False using c Z e by (simp add: avoids_def L)
    qed
    moreover have "set ws \<inter> Z = {}" if ws: "later" "chain (\<lambda>v. w_siblings (win s v)) (Some v) ws" for ws
    proof -
      obtain vs where vs: "ws = v # vs" "chain (\<lambda>v. w_siblings (win s v)) (w_siblings (win s v)) vs" using ws(2) by (cases ws) auto
      then show ?thesis using r ws(1) Z e \<open>v \<notin> Z\<close> by (simp add: avoids_def L)
    qed
    ultimately have "(\<forall>x\<in>Z. Some v \<noteq> Some x) \<and> (\<forall>ws. later \<longrightarrow> chain (\<lambda>v. w_siblings (win s v)) (Some v) ws \<longrightarrow> set ws \<inter> Z = {})" by auto }
  then show ?thesis using k' by (simp add: avoids_def)
qed

lemma offset_avoids:
  assumes "offset_windows offx offy later wp s = Some s'"
  shows "avoids later wp s s'"
proof (rule offset_windows.raw_induct [where P = "\<lambda>offx offy later wp s s'. avoids later wp s s'", OF _ assms])
  fix offset_windows :: "MWCOORD \<Rightarrow> MWCOORD \<Rightarrow> bool \<Rightarrow> win_ptr option \<Rightarrow> server \<Rightarrow> server option" and offx offy later wp s s'
  let ?shift = "\<lambda>w. w\<lparr>w_x := SAFE_PLUS (w_x w) offx, w_y := SAFE_PLUS (w_y w) offy\<rparr>"
  assume IH: "\<And>offx offy later wp s s'. offset_windows offx offy later wp s = Some s' \<Longrightarrow> avoids later wp s s'"
    and body: "(if wp = None then Some s else Option.bind (offset_windows offx offy True (w_children (win s (the wp))) (upd_win (the wp) ?shift s))
      (\<lambda>s. if later then offset_windows offx offy True (w_siblings (win s (the wp))) s else Some s)) = Some s'"
  show "avoids later wp s s'"
  proof (cases wp)
    case None
    have "s' = s" using body None by simp
    then show ?thesis unfolding avoids_def None by (auto dest: chain_None)
  next
    case (Some v)
    then obtain s1 where s1: "offset_windows offx offy True (w_children (win s v)) (upd_win v ?shift s) = Some s1"
      "(if later then offset_windows offx offy True (w_siblings (win s1 v)) s1 else Some s1) = Some s'"
      using body unfolding Some option.sel by (auto simp: bind_eq_Some_conv)
    note c = IH [OF s1(1)]
    have k: "links (win (upd_win v ?shift s)) = links (win s)" by (rule ext) (simp add: links_def)
    then have "links (win s1) = links (win s)" using c by (simp add: avoids_def)
    then have "if later then avoids True (w_siblings (win s v)) s1 s' else s' = s1"
      using s1(2) IH [of offx offy True "w_siblings (win s1 v)" s1 s'] links_eq [of "win s1" "win s" v] by (auto split: if_splits)
    then show ?thesis unfolding Some by (rule avoids_step [OF k c])
  qed
qed

lemma offset_endless: "endless (win s) Z \<Longrightarrow> v \<in> Z \<Longrightarrow> OffsetWindow v offx offy s = None"
  using offset_avoids [of offx offy False "Some v" s] unfolding OffsetWindow_def avoids_def by (metis option.exhaust)

section \<open>The links after a window is moved to another parent\<close>

lemma link_child_fields:
  assumes "q \<noteq> w"
  shows "w_siblings (win (link_child w q s) v) = (if v = w then w_children (win s q) else w_siblings (win s v))"
    "w_children (win (link_child w q s) v) = (if v = q then Some w else w_children (win s v))"
    "w_parent (win (link_child w q s) v) = (if v = w then Some q else w_parent (win s v))"
  using assms by (auto simp: link_child_def Let_def)

text \<open>The windows on the way from the moved window down to its new parent.\<close>

definition way :: "wtree \<Rightarrow> win_ptr \<Rightarrow> win_ptr set" where
  "way u q = root_of ` {a \<in> set (subs u). q \<in> set (nodes a)}"

lemma way_sub:
  assumes "v \<in> way u q"
  obtains vs where "Node v vs \<in> set (subs u)" "q \<in> set (nodes (Node v vs))"
proof -
  obtain a where a: "a \<in> set (subs u)" "q \<in> set (nodes a)" "v = root_of a" using assms unfolding way_def by blast
  obtain x vs where "a = Node x vs" by (cases a)
  then show ?thesis using that [of vs] a by simp
qed

lemma reparent_endless:
  assumes b: "base s t" and sub: "Node p (as @ u # bs) \<in> set (subs t)" and q: "q \<in> set (nodes u)" "q \<noteq> root_of u"
  shows "endless (win (link_child (root_of u) q (unlinked p (map root_of as) (root_of u) s))) (way u q)"
  unfolding endless_def
proof
  let ?w = "root_of u" let ?s2 = "unlinked p (map root_of as) ?w s" let ?W = "win (link_child ?w q ?s2)"
  note L = link_child_fields [OF q(2), of ?s2]
  fix v assume "v \<in> way u q"
  then obtain vs where a: "Node v vs \<in> set (subs u)" "q \<in> set (nodes (Node v vs))" by (rule way_sub)
  have u: "u \<in> set (subs t)" using kids(8) [OF b sub] by simp
  have d: "distinct (nodes (Node p (as @ u # bs)))" using subs_distinct [OF _ sub] baseD(4) [OF b] by (simp add: window_tree_def)
  have du: "distinct (nodes u)" and out: "p \<notin> set (nodes u)" "root_of ` set as \<inter> set (nodes u) = {}"
    using distinct_around [OF d] roots_in_forest [of as] unfolding windows_def by blast+
  have dv: "distinct (nodes (Node v vs))" by (rule subs_distinct [OF du a(1)])
  have vu: "set (nodes (Node v vs)) \<subseteq> set (nodes u)" by (rule subs_nodes [OF a(1)])
  have av: "Node v vs \<in> set (subs t)" using u a(1) by (rule subs_trans)
  note K = kids [OF b av]
  have wvs: "?w \<notin> root_of ` set vs"
  proof
    assume "?w \<in> root_of ` set vs"
    then obtain c where c: "c \<in> set vs" "root_of c = ?w" by auto
    then have cs: "c \<in> set (subs u)" using a(1) subs_child by blast
    then have "c = u" using sub_unique [OF du cs subs_self] c(2) by simp
    then have "v \<in> set (nodes c)" using vu by auto
    then show False using dv c(1) by auto
  qed
  have sib: "w_siblings (?W x) = w_siblings (win s x)" if "x \<in> root_of ` set vs" for x
  proof -
    have "x \<in> set (nodes u)" using that roots_in_forest [of vs] vu by auto
    then have "x \<notin> set (map root_of as)" "x \<noteq> ?w" using that wvs out(2) by (simp, blast)+
    then show ?thesis by (simp add: L(1) unlinked_fields(3) del: set_map)
  qed
  have chn: "chain (\<lambda>v. w_siblings (?W v)) o' (map root_of vs) = chain (\<lambda>v. w_siblings (win s v)) o' (map root_of vs)" for o'
    by (rule chain_cong) (use sib in auto)
  have vp: "v \<noteq> p" "q \<noteq> p" using vu out(1) q(1) by auto
  show "\<exists>ws. chain (\<lambda>v. w_siblings (?W v)) (w_children (?W v)) ws \<and> set ws \<inter> way u q \<noteq> {}"
  proof (cases "v = q")
    case True
    have "chain (\<lambda>v. w_siblings (?W v)) (w_children (?W v)) (?w # map root_of vs)"
      using chn K(1) True vp by (simp add: L unlinked_fields(4))
    moreover have "?w \<in> way u q" using q(1) by (auto simp: way_def)
    ultimately show ?thesis by (intro exI [of _ "?w # map root_of vs"]) auto
  next
    case False
    then obtain c where c: "c \<in> set vs" "q \<in> set (nodes c)" using a(2) by auto
    then have "root_of c \<in> way u q" using subs_child [OF a(1)] by (auto simp: way_def)
    moreover have "chain (\<lambda>v. w_siblings (?W v)) (w_children (?W v)) (map root_of vs)"
      using chn K(1) False vp by (simp add: L unlinked_fields(4))
    ultimately show ?thesis using c(1) by (intro exI [of _ "map root_of vs"]) auto
  qed
qed

section \<open>A new parent outside the window\<close>

text \<open>The windows are the same but for their links.\<close>

definition rehung :: "(win_ptr \<Rightarrow> gr_window) \<Rightarrow> (win_ptr \<Rightarrow> gr_window) \<Rightarrow> bool" where
  "rehung W W' \<longleftrightarrow> (\<forall>v. W' v = (W v)\<lparr>w_children := w_children (W' v), w_siblings := w_siblings (W' v), w_parent := w_parent (W' v)\<rparr>)"

lemma rehungD:
  assumes "rehung W W'"
  shows "w_next (W' v) = w_next (W v)" "w_id (W' v) = w_id (W v)" "w_layer (W' v) = w_layer (W v)"
    "w_props (W' v) = w_props (W v)" "w_clipregion (W' v) = w_clipregion (W v)" "w_bgpixmap (W' v) = w_bgpixmap (W v)"
    "win_ok (W' v) = win_ok (W v)" "w_realized (W' v) = w_realized (W v)" "w_mapped (W' v) = w_mapped (W v)"
    "w_x (W' v) = w_x (W v)" "w_y (W' v) = w_y (W v)"
proof -
  obtain a b c where w: "W' v = (W v)\<lparr>w_children := a, w_siblings := b, w_parent := c\<rparr>" using assms unfolding rehung_def by blast
  show "w_next (W' v) = w_next (W v)" "w_id (W' v) = w_id (W v)" "w_layer (W' v) = w_layer (W v)"
    "w_props (W' v) = w_props (W v)" "w_clipregion (W' v) = w_clipregion (W v)" "w_bgpixmap (W' v) = w_bgpixmap (W v)"
    "win_ok (W' v) = win_ok (W v)" "w_realized (W' v) = w_realized (W v)" "w_mapped (W' v) = w_mapped (W v)"
    "w_x (W' v) = w_x (W v)" "w_y (W' v) = w_y (W v)"
    unfolding w by (simp_all add: win_ok_def)
qed

lemma base_rehung:
  assumes b: "base s t" and s': "s' = s\<lparr>win := win s'\<rparr>" and r: "rehung (win s) (win s')"
    and w: "window_tree (win s') (rootwp s 0) t'" and n: "set (nodes t') = set (nodes t)"
  shows "base s' t'"
proof -
  note F = reordered_fields [OF s'] and D = rehungD [OF r]
  have "server_tree s' t'" using baseD(1) [OF b] w by (simp add: server_tree_def F D n)
  moreover have "windows_drawable s' t'" using baseD(2) [OF b] by (simp add: windows_drawable_def F D n)
  ultimately show ?thesis using b by (auto simp: base_def F n)
qed

text \<open>The state and the tree after a subtree is taken out and put in elsewhere.\<close>

definition moved_child :: "win_ptr \<Rightarrow> win_ptr list \<Rightarrow> win_ptr \<Rightarrow> win_ptr \<Rightarrow> server \<Rightarrow> server" where
  "moved_child p as w q s = link_child w q (unlinked p as w s)"

lemma moved_child_fields:
  assumes "q \<noteq> w"
  shows "moved_child p as w q s = s\<lparr>win := win (moved_child p as w q s)\<rparr>" "rehung (win s) (win (moved_child p as w q s))"
proof -
  let ?s1 = "unlinked p as w s"
  have l: "link_child w q s = s\<lparr>win := win (link_child w q s)\<rparr>" for s by (simp add: link_child_def upd_win_def Let_def)
  obtain W where W: "?s1 = s\<lparr>win := W\<rparr>" using unlinked_fields(1) by blast
  show "moved_child p as w q s = s\<lparr>win := win (moved_child p as w q s)\<rparr>"
    unfolding moved_child_def by (subst l) (simp add: W)
  have m: "win (moved_child p as w q s) v = (if v = w then (W w)\<lparr>w_parent := Some q, w_siblings := w_children (W q)\<rparr>
    else if v = q then (W q)\<lparr>w_children := Some w\<rparr> else W v)" for v
    using assms by (simp add: moved_child_def link_child_def Let_def W)
  show "rehung (win s) (win (moved_child p as w q s))"
    unfolding rehung_def
  proof
    fix v
    obtain a b where "W v = (win s v)\<lparr>w_children := a, w_siblings := b\<rparr>"
      using unlinked_fields(2) [of s p as w] unfolding relinked_def W by simp blast
    then show "win (moved_child p as w q s) v = (win s v)\<lparr>w_children := w_children (win (moved_child p as w q s) v),
      w_siblings := w_siblings (win (moved_child p as w q s) v), w_parent := w_parent (win (moved_child p as w q s) v)\<rparr>"
      using assms by (cases "v = w"; cases "v = q") (simp_all add: m)
  qed
qed

lemma tree_without:
  assumes b: "base s t" and sub: "Node p (as @ u # bs) \<in> set (subs t)"
  defines "s1 \<equiv> unlinked p (map root_of as) (root_of u) s" and "t1 \<equiv> with_children p (as @ bs) t"
  shows "linked (win s1) t1" "linked (win s) u" "distinct (nodes t1)" "mset (nodes t1) + mset (nodes u) = mset (nodes t)"
    "set (nodes t1) \<inter> set (nodes u) = {}" "p \<notin> set (nodes u)" "root_of ` set as \<inter> set (nodes u) = {}" "distinct (nodes u)"
proof -
  have wt: "distinct (nodes t)" "linked (win s) t" using baseD(4) [OF b] by (simp_all add: window_tree_def)
  note K = kids [OF b sub]
  have d: "distinct (nodes (Node p (as @ u # bs)))" by (rule subs_distinct [OF wt(1) sub])
  show "distinct (nodes u)" "p \<notin> set (nodes u)" "root_of ` set as \<inter> set (nodes u) = {}"
    using distinct_around [OF d] roots_in_forest [of as] unfolding windows_def by blast+
  show "linked (win s) u" using subs_linked [OF wt(2) K(8)] by simp
  show m: "mset (nodes t1) + mset (nodes u) = mset (nodes t)" using with_nodes [OF wt(1) sub, of "as @ bs"] by (simp add: t1_def)
  then have "mset (nodes t1 @ nodes u) = mset (nodes t)" by simp
  then have "distinct (nodes t1 @ nodes u)" using wt(1) by (metis mset_eq_imp_distinct_iff)
  then show "distinct (nodes t1)" "set (nodes t1) \<inter> set (nodes u) = {}" by simp_all
  have k: "chain (\<lambda>v. w_siblings (win s v)) (w_children (win s p)) (map root_of as @ root_of u # map root_of bs)"
    "distinct (map root_of as @ root_of u # map root_of bs)" "p \<notin> set (map root_of as @ root_of u # map root_of bs)"
    using K(1-3) by auto
  note U = unlinked_fields [where p = p and as = "map root_of as" and w = "root_of u" and s = s, folded s1_def]
  show "linked (win s1) t1"
    unfolding t1_def
  proof (rule linked_edit [OF wt(1) sub wt(2)])
    show "chain (\<lambda>v. w_siblings (win s1 v)) (w_children (win s1 p)) (map root_of (as @ bs))"
      using unlinked_chain [OF k] by (simp add: s1_def)
    show "w_siblings (win s1 v) = w_siblings (win s v)" if "v \<notin> root_of ` set (as @ u # bs)" for v
      unfolding s1_def by (rule unlinked_fields(3)) (use that in auto)
  qed (use relinkedD(1) [OF U(2)] U(4) in \<open>auto simp: s1_def\<close>)
qed

lemma tree_moved:
  assumes b: "base s t" and sub: "Node p (as @ u # bs) \<in> set (subs t)"
  defines "t1 \<equiv> with_children p (as @ bs) t" and "w \<equiv> root_of u"
  assumes q: "Node q qs \<in> set (subs t1)"
  defines "s2 \<equiv> moved_child p (map root_of as) w q s" and "t2 \<equiv> with_children q (u # qs) t1"
  shows "base s2 t2" "set (nodes t2) = set (nodes t)" "u \<in> set (subs t2)" "u \<noteq> t2" "q \<noteq> w"
proof -
  let ?s1 = "unlinked p (map root_of as) w s"
  note T = tree_without [OF b sub, folded t1_def w_def]
  have wt: "root_of t = rootwp s 0" "w_parent (win s (root_of t)) = None" "w_siblings (win s (root_of t)) = None"
    using baseD(4) [OF b] by (simp_all add: window_tree_def)
  note K = kids [OF b sub]
  have qn: "q \<in> set (nodes t1)" using subs_root [OF q] by simp
  have wu: "w \<in> set (nodes u)" by (simp add: w_def)
  then show qw: "q \<noteq> w" using qn T(5) by blast
  have m: "mset (nodes t2) + mset (forest_nodes qs) = mset (nodes t1) + mset (forest_nodes (u # qs))"
    unfolding t2_def by (rule with_nodes [OF T(3) q])
  then have m2: "mset (nodes t2) = mset (nodes t)" using T(4) by simp
  then show n2: "set (nodes t2) = set (nodes t)" by (rule mset_eq_setD)
  have d2: "distinct (nodes t2)" using m2 baseD(4) [OF b] by (metis mset_eq_imp_distinct_iff window_tree_def)
  note L = link_child_fields [OF qw, of ?s1, folded moved_child_def, folded s2_def]
  note U = unlinked_fields [where p = p and as = "map root_of as" and w = w and s = s]
  have wt1: "w \<notin> set (nodes t1)" using wu T(5) by blast
  have lu: "linked (win s2) u"
  proof -
    have "linked (win s2) u \<longleftrightarrow> linked (win s) u"
    proof (rule linked_below [OF T(8)])
      fix v assume v: "v \<in> set (nodes u)"
      then have vn: "v \<noteq> p" "v \<noteq> q" "v \<notin> set (map root_of as)" using T(5-7) qn by auto
      then show "w_children (win s2 v) = w_children (win s v)" by (simp add: L U(4))
      assume "v \<noteq> root_of u"
      then show "w_siblings (win s2 v) = w_siblings (win s v) \<and> w_parent (win s2 v) = w_parent (win s v)"
        using vn by (simp add: L U(3) relinkedD(1) [OF U(2)] w_def [symmetric] del: set_map)
    qed
    then show ?thesis using T(2) by simp
  qed
  have l2: "linked (win s2) t2"
    unfolding t2_def
  proof (rule linked_edit [OF T(3) q T(1)])
    have cq: "chain (\<lambda>v. w_siblings (win ?s1 v)) (w_children (win ?s1 q)) (map root_of qs)"
      using subs_linked [OF T(1) q] by simp
    have "w \<notin> set (map root_of qs)" using subs_root [OF subs_child [OF q]] wt1 by auto
    then have "chain (\<lambda>v. w_siblings (win s2 v)) o' (map root_of qs) = chain (\<lambda>v. w_siblings (win ?s1 v)) o' (map root_of qs)" for o'
      by (intro chain_cong) (auto simp: L)
    then show "chain (\<lambda>v. w_siblings (win s2 v)) (w_children (win s2 q)) (map root_of (u # qs))" using cq by (simp add: L w_def)
    show "c \<in> set qs \<or> linked (win s2) c \<and> w_parent (win s2 (root_of c)) = Some q" if "c \<in> set (u # qs)" for c
      using that lu by (auto simp: L w_def)
    show "w_parent (win s2 v) = w_parent (win ?s1 v)" if "v \<in> set (nodes t1)" for v
      using that wt1 by (auto simp: L relinkedD(1) [OF U(2)])
    show "w_siblings (win s2 v) = w_siblings (win ?s1 v)" if "v \<in> set (nodes t1)" for v using that wt1 by (auto simp: L)
  qed (simp add: L)
  have rw: "root_of t \<noteq> w" "root_of t \<notin> set (map root_of as)" using K(6) [symmetric] wt(1) unfolding w_def by auto
  have "window_tree (win s2) (rootwp s 0) t2"
    using l2 d2 wt rw U(3) [of "root_of t"] relinkedD(1) [OF U(2), of "root_of t"]
    by (simp add: window_tree_def t2_def t1_def L del: set_map)
  then show "base s2 t2"
    unfolding s2_def by (rule base_rehung [OF b moved_child_fields [OF qw] _ n2])
  have "Node q (u # qs) \<in> set (subs t2)" unfolding t2_def by (rule with_sub [OF T(3) q])
  then show "u \<in> set (subs t2)" by (rule subs_child) simp
  have "root_of t2 = root_of t" by (simp add: t2_def t1_def)
  then show "u \<noteq> t2" using rw(1) unfolding w_def by metis
qed

lemma hidden_moved:
  assumes h: "hidden_at s t u" and q: "q \<noteq> root_of u" and n: "set (nodes t2) = set (nodes t)"
  shows "hidden_at (moved_child p as (root_of u) q s) t2 u"
proof -
  let ?s2 = "moved_child p as (root_of u) q s"
  note M = moved_child_fields [OF q, where p = p and as = as and s = s] and D = rehungD [OF M(2)]
  have r: "rootwp ?s2 = rootwp s" by (rule reordered_fields(1) [OF M(1)])
  have "w_parent (win ?s2 v) = w_parent (win s v)" if "v \<notin> set (nodes u)" for v
    using that link_child_fields(3) [OF q, of "unlinked p as (root_of u) s" v] relinkedD(1) [OF unlinked_fields(2)]
    by (auto simp: moved_child_def)
  then show ?thesis using h by (auto simp: hidden_at_def r D n local_vis_def)
qed

lemma server_ok_moved:
  assumes ok: "server_ok s t" and b: "base s' t'" and v: "vis_ok s' t'" and n: "set (nodes t') = set (nodes t)"
    and "\<And>v. w_next (win s' v) = w_next (win s v)" and "\<And>v. w_id (win s' v) = w_id (win s v)"
    and "listwp s' = listwp s" and "rootwp s' = rootwp s" and "scrNumberOfLayers s' = scrNumberOfLayers s"
    and "cachewindowid s' = cachewindowid s" and "cachewp s' = cachewp s" and "free_windows s' = free_windows s"
  shows "server_ok s' t'"
proof -
  obtain ws where "window_list s t ws" using server_okD(3) [OF ok] by blast
  then have "window_list s' t' ws" unfolding window_list_iff assms(4-9) .
  then show ?thesis using ok b v unfolding server_ok_def cached_def assms(4-12) by blast
qed

text \<open>The windows are as in \<open>W\<close>, apart from their links and what is visible.\<close>

definition attributes_are :: "(win_ptr \<Rightarrow> gr_window) \<Rightarrow> server \<Rightarrow> bool" where
  "attributes_are W s \<longleftrightarrow> (\<forall>v. win s v = (W v)\<lparr>w_children := w_children (win s v), w_siblings := w_siblings (win s v),
     w_parent := w_parent (win s v), w_realized := w_realized (win s v)\<rparr>)"

lemma attributesI:
  assumes "\<And>v. win s v = (W v)\<lparr>w_children := a v, w_siblings := b v, w_parent := c v, w_realized := r v\<rparr>"
  shows "attributes_are W s"
  unfolding attributes_are_def
proof
  fix v
  show "win s v = (W v)\<lparr>w_children := w_children (win s v), w_siblings := w_siblings (win s v),
    w_parent := w_parent (win s v), w_realized := w_realized (win s v)\<rparr>"
    unfolding assms [of v] by simp
qed

lemma attributesD:
  assumes "attributes_are W s"
  obtains a b c r where "win s v = (W v)\<lparr>w_children := a, w_siblings := b, w_parent := c, w_realized := r\<rparr>"
  using assms unfolding attributes_are_def by blast

lemma attributes_seen:
  assumes "attributes_are W s" and "seen t s s'"
  shows "attributes_are W s'"
  unfolding attributes_are_def
proof
  fix v
  obtain a b c r where w: "win s v = (W v)\<lparr>w_children := a, w_siblings := b, w_parent := c, w_realized := r\<rparr>"
    by (rule attributesD [OF assms(1)])
  obtain r' where "win s' v = (win s v)\<lparr>w_realized := r'\<rparr>" using unseen_win [OF seen_unseen [OF assms(2)], of v] by blast
  then show "win s' v = (W v)\<lparr>w_children := w_children (win s' v), w_siblings := w_siblings (win s' v),
    w_parent := w_parent (win s' v), w_realized := w_realized (win s' v)\<rparr>" unfolding w by simp
qed

lemma attributes_rehung:
  assumes "attributes_are W s" and "rehung (win s) (win s')"
  shows "attributes_are W s'"
  unfolding attributes_are_def
proof
  fix v
  obtain a b c r where w: "win s v = (W v)\<lparr>w_children := a, w_siblings := b, w_parent := c, w_realized := r\<rparr>"
    by (rule attributesD [OF assms(1)])
  obtain a' b' c' where "win s' v = (win s v)\<lparr>w_children := a', w_siblings := b', w_parent := c'\<rparr>"
    using assms(2) unfolding rehung_def by blast
  then show "win s' v = (W v)\<lparr>w_children := w_children (win s' v), w_siblings := w_siblings (win s' v),
    w_parent := w_parent (win s' v), w_realized := w_realized (win s' v)\<rparr>" unfolding w by simp
qed

lemma attributes_shifted:
  assumes "attributes_are W s"
  shows "attributes_are (shifted dx dy V W) (s\<lparr>win := shifted dx dy V (win s)\<rparr>)"
  unfolding attributes_are_def
proof
  fix v
  obtain a b c r where w: "win s v = (W v)\<lparr>w_children := a, w_siblings := b, w_parent := c, w_realized := r\<rparr>"
    by (rule attributesD [OF assms])
  have "shifted dx dy V (win s) v = (shifted dx dy V W v)\<lparr>w_children := a, w_siblings := b, w_parent := c, w_realized := r\<rparr>"
    by (simp add: shifted_def shift_def w)
  then show "win (s\<lparr>win := shifted dx dy V (win s)\<rparr>) v = (shifted dx dy V W v)
    \<lparr>w_children := w_children (win (s\<lparr>win := shifted dx dy V (win s)\<rparr>) v), w_siblings := w_siblings (win (s\<lparr>win := shifted dx dy V (win s)\<rparr>) v),
     w_parent := w_parent (win (s\<lparr>win := shifted dx dy V (win s)\<rparr>) v), w_realized := w_realized (win (s\<lparr>win := shifted dx dy V (win s)\<rparr>) v)\<rparr>"
    by simp
qed

lemma reparent_window:
  assumes ok: "server_ok s t" and sub: "Node p (as @ u # bs) \<in> set (subs t)"
    and q: "Node q qs \<in> set (subs (with_children p (as @ bs) t))"
    and dx: "dx = x + w_x (win s q) - w_x (win s (root_of u))" and dy: "dy = y + w_y (win s q) - w_y (win s (root_of u))"
  shows "\<exists>s'. GrReparentWindow beyond (w_id (win s (root_of u))) (w_id (win s q)) x y s = Some s' \<and>
    server_ok s' (with_children q (u # qs) (with_children p (as @ bs) t)) \<and> attributes_are (shifted dx dy (set (nodes u)) (win s)) s'"
proof -
  let ?w = "root_of u" let ?t2 = "with_children q (u # qs) (with_children p (as @ bs) t)"
  note K = kids [OF server_okD(1) [OF ok] sub]
  have uin: "u \<in> set (as @ u # bs)" by simp
  obtain cid cw where f: "GsFindWindow (w_id (win s ?w)) s = Some (Some ?w, with_cache cid cw s)" "server_ok (with_cache cid cw s) t"
    by (rule find_node [OF ok K(5) [OF uin]])
  have "q \<in># mset (nodes (with_children p (as @ bs) t))" using subs_root [OF q] by simp
  then have "q \<in># mset (nodes t)" using tree_without(4) [OF server_okD(1) [OF ok] sub] by (metis union_iff)
  then have qn: "q \<in> set (nodes t)" by simp
  obtain cid2 cw2 where f2: "GsFindWindow (w_id (win s q)) (with_cache cid cw s) = Some (Some q, with_cache cid2 cw2 (with_cache cid cw s))"
    "server_ok (with_cache cid2 cw2 (with_cache cid cw s)) t" using find_node [OF f(2) qn] by auto
  let ?s = "with_cache cid2 cw2 (with_cache cid cw s)"
  have b: "base ?s t" by (rule server_okD(1) [OF f2(2)])
  obtain s1 where s1: "GsWpUnrealizeWindow beyond ?w True ?s = Some s1" "seen t ?s s1" "hidden_at s1 t u"
    using unrealize_hidden [OF b server_okD(2) [OF f2(2)] K(8,9) [OF uin]] by blast
  note b1 = seen_base [OF s1(2)] and U1 = seen_unseen [OF s1(2)]
  let ?A = "map root_of as" let ?s2 = "moved_child p ?A ?w q s1"
  note K1 = kids [OF b1 sub]
  have ul: "unlink_sibling ?w s1 = Some (unlinked p ?A ?w s1)"
    by (rule unlink_sibling_total [where bs = "map root_of bs"]) (use K1(1,2) K1(4) [OF uin] in simp_all)
  note T = tree_moved [OF b1 sub q]
  let ?s3 = "?s2\<lparr>win := shifted dx dy (set (nodes u)) (win ?s2)\<rparr>"
  have o: "(if dx \<noteq> 0 \<or> dy \<noteq> 0 then OffsetWindow ?w dx dy ?s2 else Some ?s2) = Some ?s3"
    using OffsetWindow_total [OF T(3,1), of dx dy] by (simp add: shifted_zero)
  have b3: "base ?s3 ?t2" by (rule base_shifted [OF T(1)])
  obtain s4 where s4: "GsWpRealizeWindow beyond ?w True ?s3 = Some s4" "seen ?t2 ?s3 s4" "vis_ok s4 ?t2"
    using realize_visible [OF b3 hidden_shifted [OF hidden_moved [OF s1(3) T(5,2)]] T(3,4)] by blast
  note U4 = seen_unseen [OF s4(2)]
  note M = moved_child_fields [OF T(5), where p = p and as = ?A and s = s1]
  note F = reordered_fields [OF M(1)] and D = rehungD [OF M(2)]
  have ok4: "server_ok s4 ?t2"
    by (rule server_ok_moved [OF f2(2) seen_base [OF s4(2)] s4(3) T(2)])
      (simp_all add: unseen_fields [OF U4] unseen_links [OF U4] unseen_fields [OF U1] unseen_links [OF U1] F D)
  have "look ?t2 s4 (update_event ?w GR_UPDATE_REPARENT s4)"
    unfolding update_event_def Let_def by (rule update_look [OF seen_base [OF s4(2)]])
  note l = this
  have "attributes_are (win ?s) ?s" by (simp add: attributes_are_def)
  then have "attributes_are (win s) ?s2" using attributes_rehung [OF attributes_seen [OF _ s1(2)] M(2)] by simp
  from attributes_seen [OF attributes_shifted [OF this] s4(2)] attributes_seen l
  have "attributes_are (shifted dx dy (set (nodes u)) (win s)) (update_event ?w GR_UPDATE_REPARENT s4)"
    by (auto simp: look_def)
  moreover have "?w \<noteq> q" "?w \<noteq> rootwp s (w_layer (win s ?w))"
    using T(5) K(6) [OF uin] baseD(6) [OF server_okD(1) [OF ok] K(5) [OF uin]] by auto
  ultimately show ?thesis
    using f(1) f2(1) s1(1) ul o s4(1) server_ok_look [OF ok4 l]
    by (cases "dx \<noteq> 0 \<or> dy \<noteq> 0") (simp_all add: GrReparentWindow_def moved_child_def Let_def dx [symmetric] dy [symmetric])
qed

lemma reparent_inside:
  assumes ok: "server_ok s t" and sub: "Node p (as @ u # bs) \<in> set (subs t)" and q: "q \<in> set (nodes u)" "q \<noteq> root_of u"
    and d: "x + w_x (win s q) \<noteq> w_x (win s (root_of u)) \<or> y + w_y (win s q) \<noteq> w_y (win s (root_of u))"
  shows "GrReparentWindow beyond (w_id (win s (root_of u))) (w_id (win s q)) x y s = None"
proof -
  let ?w = "root_of u"
  note K = kids [OF server_okD(1) [OF ok] sub]
  have uin: "u \<in> set (as @ u # bs)" by simp
  have qn: "q \<in> set (nodes t)" using subs_nodes [OF K(8) [OF uin]] q(1) by blast
  obtain cid cw where f: "GsFindWindow (w_id (win s ?w)) s = Some (Some ?w, with_cache cid cw s)" "server_ok (with_cache cid cw s) t"
    by (rule find_node [OF ok K(5) [OF uin]])
  obtain cid2 cw2 where f2: "GsFindWindow (w_id (win s q)) (with_cache cid cw s) = Some (Some q, with_cache cid2 cw2 (with_cache cid cw s))"
    "server_ok (with_cache cid2 cw2 (with_cache cid cw s)) t" using find_node [OF f(2) qn] by auto
  let ?s = "with_cache cid2 cw2 (with_cache cid cw s)"
  obtain s1 where s1: "GsWpUnrealizeWindow beyond ?w True ?s = Some s1" "seen t ?s s1"
    using unrealize_hidden [OF server_okD(1,2) [OF f2(2)] K(8,9) [OF uin]] by blast
  note b1 = seen_base [OF s1(2)]
  let ?A = "map root_of as"
  note K1 = kids [OF b1 sub]
  have ul: "unlink_sibling ?w s1 = Some (unlinked p ?A ?w s1)"
    by (rule unlink_sibling_total [where bs = "map root_of bs"]) (use K1(1,2) K1(4) [OF uin] in simp_all)
  have "?w \<in> way u q" using q(1) by (auto simp: way_def)
  with reparent_endless [OF b1 sub q] have "OffsetWindow ?w dx dy (link_child ?w q (unlinked p ?A ?w s1)) = None" for dx dy
    by (rule offset_endless)
  moreover have "?w \<noteq> rootwp s (w_layer (win s ?w))"
    using K(6) [OF uin] baseD(6) [OF server_okD(1) [OF ok] K(5) [OF uin]] by auto
  ultimately show ?thesis using f(1) f2(1) s1(1) ul q(2) d by (auto simp: GrReparentWindow_def Let_def)
qed

section \<open>Which windows are inside a window\<close>

text \<open>The walk up from a window; \<open>None\<close> stands for a walk without an end.\<close>

partial_function (option) inside :: "(win_ptr \<Rightarrow> gr_window) \<Rightarrow> win_ptr \<Rightarrow> win_ptr \<Rightarrow> bool option" where
  "inside W w v =
    (if v = w then Some True
     else case w_parent (W v) of None \<Rightarrow> Some False | Some p \<Rightarrow> inside W w p)"

lemma inside_nodes:
  assumes wt: "window_tree W root t" and u: "u \<in> set (subs t)" and v: "v \<in> set (nodes t)"
  shows "inside W (root_of u) v = Some (v \<in> set (nodes u))"
  using v
proof (induction "length (ancestors t v)" arbitrary: v rule: less_induct)
  case less
  have lu: "linked W u" "distinct (nodes u)" using wt u subs_linked subs_distinct by (auto simp: window_tree_def)
  show ?case
  proof (cases "v = root_of u")
    case False
    show ?thesis
    proof (cases "w_parent (W v)")
      case None
      then have "v \<notin> set (nodes u)" using parent_inside [OF lu _ False, of W] by auto
      then show ?thesis using None False by (subst inside.simps) simp
    next
      case (Some p)
      note P = ancestors_parent(2) [OF wt less.prems Some]
      then have "inside W (root_of u) p = Some (p \<in> set (nodes u))" using less.hyps by simp
      moreover have "p \<in> set (nodes u) \<longleftrightarrow> v \<in> set (nodes u)"
        using parent_inside [OF lu _ False, of W] parent_outside [OF wt u less.prems _ Some] Some by auto
      ultimately show ?thesis using Some False by (subst inside.simps) simp
    qed
  qed (subst inside.simps, simp)
qed

lemma outside_sub:
  assumes b: "base s t" and sub: "Node p (as @ u # bs) \<in> set (subs t)" and q: "q \<in> set (nodes t)" "q \<notin> set (nodes u)"
  obtains qs where "Node q qs \<in> set (subs (with_children p (as @ bs) t))"
proof -
  have "q \<in># mset (nodes (with_children p (as @ bs) t)) + mset (nodes u)" unfolding tree_without(4) [OF b sub] using q(1) by simp
  then have "q \<in> set (nodes (with_children p (as @ bs) t))" using q(2) by simp
  then obtain a where a: "a \<in> set (subs (with_children p (as @ bs) t))" "root_of a = q" using node_sub by blast
  obtain qs where "a = Node q qs" using a(2) by (cases a) simp
  then show ?thesis using that a(1) by blast
qed

end
