(* ===== verification/Wop_Props.thy ===== *)
theory Wop_Props
  imports Wop_Reparent
begin

text \<open>
  The properties of the window operations: one invariant for all calls of clients, and what each call does.
\<close>

section \<open>Calls of clients\<close>

datatype window_call =
    MapCall GR_WINDOW_ID
  | UnmapCall GR_WINDOW_ID
  | MoveCall GR_WINDOW_ID MWCOORD MWCOORD
  | ResizeCall GR_WINDOW_ID MWCOORD MWCOORD
  | RaiseCall GR_WINDOW_ID
  | LowerCall GR_WINDOW_ID
  | NewCall GR_WINDOW_ID MWCOORD MWCOORD MWCOORD MWCOORD MWCOORD "32 word" "32 word" client_ptr
  | DestroyCall GR_WINDOW_ID
  | ReparentCall GR_WINDOW_ID GR_WINDOW_ID MWCOORD MWCOORD

fun client_call :: "MWCOORD \<Rightarrow> window_call \<Rightarrow> server \<Rightarrow> server option" where
  "client_call beyond (MapCall wid) s = GrMapWindow beyond wid s"
| "client_call beyond (UnmapCall wid) s = GrUnmapWindow beyond wid s"
| "client_call beyond (MoveCall wid x y) s = GrMoveWindow beyond wid x y s"
| "client_call beyond (ResizeCall wid width height) s = GrResizeWindow beyond wid width height s"
| "client_call beyond (RaiseCall wid) s = GrRaiseWindow beyond wid s"
| "client_call beyond (LowerCall wid) s = GrLowerWindow beyond wid s"
| "client_call beyond (NewCall parent x y width height bordersize bg bc c) s =
     map_option snd (GrNewWindow parent x y width height bordersize bg bc c s)"
| "client_call beyond (DestroyCall wid) s = GrDestroyWindow beyond wid s"
| "client_call beyond (ReparentCall wid pwid x y) s = GrReparentWindow beyond wid pwid x y s"

text \<open>The window that a call finds.\<close>

definition named :: "GR_WINDOW_ID \<Rightarrow> server \<Rightarrow> win_ptr option" where
  "named ident s = Option.bind (GsFindWindow ident s) fst"

text \<open>
  Calls without an error: they name a window that is not the root window, the sizes are positive, and for a new window memory is
  there and the next identifier is not in use (\<open>nextid\<close> wraps around without a test).  A new parent must not be inside the window.
\<close>

fun permitted :: "window_call \<Rightarrow> server \<Rightarrow> bool" where
  "permitted (ResizeCall wid width height) s \<longleftrightarrow> named wid s \<notin> {None, Some (rootwp s 0)} \<and> 0 < width \<and> 0 < height"
| "permitted (NewCall parent x y width height bordersize bg bc c) s \<longleftrightarrow>
     (case named parent s of None \<Rightarrow> False | Some p \<Rightarrow> w_output (win s p)) \<and> 0 < width \<and> 0 < height \<and> 0 \<le> bordersize \<and>
     free_windows s \<noteq> [] \<and> named (nextid s) s = None"
| "permitted (MapCall wid) s \<longleftrightarrow> named wid s \<notin> {None, Some (rootwp s 0)}"
| "permitted (UnmapCall wid) s \<longleftrightarrow> named wid s \<notin> {None, Some (rootwp s 0)}"
| "permitted (MoveCall wid x y) s \<longleftrightarrow> named wid s \<notin> {None, Some (rootwp s 0)}"
| "permitted (RaiseCall wid) s \<longleftrightarrow> named wid s \<notin> {None, Some (rootwp s 0)}"
| "permitted (LowerCall wid) s \<longleftrightarrow> named wid s \<notin> {None, Some (rootwp s 0)}"
| "permitted (DestroyCall wid) s \<longleftrightarrow> named wid s \<notin> {None, Some (rootwp s 0)}"
| "permitted (ReparentCall wid pwid x y) s \<longleftrightarrow> named wid s \<notin> {None, Some (rootwp s 0)} \<and>
     (case (named wid s, named pwid s) of (Some w, Some q) \<Rightarrow> inside (win s) w q = Some False | _ \<Rightarrow> False)"

lemma named_node:
  assumes "server_ok s t"
  shows "named ident s = Some w \<longleftrightarrow> w \<in> set (nodes t) \<and> w_id (win s w) = ident"
proof -
  obtain r cid cw where f: "GsFindWindow ident s = Some (r, with_cache cid cw s)"
    "\<forall>v. r = Some v \<longleftrightarrow> v \<in> set (nodes t) \<and> w_id (win s v) = ident"
    by (rule find_tree [of s t]) (use assms in \<open>simp add: server_ok_tree\<close>)
  then show ?thesis by (simp add: named_def)
qed

lemma named_sub:
  assumes ok: "server_ok s t" and n: "named ident s \<notin> {None, Some (rootwp s 0)}"
  obtains p as u bs where "Node p (as @ u # bs) \<in> set (subs t)" "w_id (win s (root_of u)) = ident"
    "root_of u \<in> set (nodes t)" "root_of u \<noteq> rootwp s 0" "w_parent (win s (root_of u)) = Some p" "u \<in> set (subs t)" "u \<noteq> t"
proof -
  obtain w where "named ident s = Some w" "w \<noteq> rootwp s 0" using n by auto
  then have w: "w \<in> set (nodes t)" "w \<noteq> rootwp s 0" "w_id (win s w) = ident" using named_node [OF ok] by auto
  obtain u where u: "u \<in> set (subs t)" "root_of u = w" "u \<noteq> t" by (rule sub_of [OF ok w(1,2)])
  obtain p as bs where p: "Node p (as @ u # bs) \<in> set (subs t)" "w_parent (win s (root_of u)) = Some p"
    using later_siblings [OF server_okD(7) [OF ok] u(1,3)] by metis
  show ?thesis by (rule that [OF p(1)]) (use u w p(2) in simp_all)
qed

lemma node_children: "w \<in> set (nodes t) \<Longrightarrow> \<exists>ts. Node w ts \<in> set (subs t)"
  using node_sub [of w t] by (metis wtree.exhaust_sel)

lemma destroy_call:
  assumes ok: "server_ok s t" and sub: "Node p (as @ u # bs) \<in> set (subs t)"
  defines "t' \<equiv> with_children p (as @ bs) t"
  shows "\<exists>s'. GrDestroyWindow beyond (w_id (win s (root_of u))) s = Some s' \<and> server_ok s' t' \<and> set (nodes t') = set (nodes t) - set (nodes u) \<and>
    set (free_windows s') = set (nodes u) \<union> set (free_windows s) \<and>
    (\<forall>k\<in>set (list_grabbed_keys s'). \<forall>v\<in>set (nodes u). g_wid k \<noteq> w_id (win s v))"
proof -
  have "u \<in> set (as @ u # bs)" by simp
  note wn = kids(5) [OF server_okD(1) [OF ok] sub this]
  obtain cid cw where f: "GsFindWindow (w_id (win s (root_of u))) s = Some (Some (root_of u), with_cache cid cw s)"
    "server_ok (with_cache cid cw s) t" by (rule find_node [OF ok wn])
  show ?thesis using destroy_window [OF f(2) sub, of beyond] f(1) unfolding t'_def by (simp add: GrDestroyWindow_def)
qed

lemma call_ok:
  assumes ok: "server_ok s t" and "permitted c s"
  shows "\<exists>s' t'. client_call beyond c s = Some s' \<and> server_ok s' t'"
proof (cases c)
  case (NewCall parent x y width height bordersize bg bc cl)
  then obtain p n rest where p: "named parent s = Some p" "w_output (win s p)" "free_windows s = n # rest" "0 < width" "0 < height"
    "0 \<le> bordersize" "named (nextid s) s = None" using assms(2) by (auto split: option.splits simp: neq_Nil_conv)
  have pn: "p \<in> set (nodes t)" "w_id (win s p) = parent" using p(1) named_node [OF ok] by auto
  then obtain ts where "Node p ts \<in> set (subs t)" using node_children by blast
  moreover have "\<forall>v\<in>set (nodes t). w_id (win s v) \<noteq> nextid s" using p(7) named_node [OF ok] by (metis option.distinct(1))
  ultimately show ?thesis using new_window [OF ok _ p(2,4-6,3)] pn(2) NewCall by fastforce
next
  case (MapCall wid)
  then have "named wid s \<notin> {None, Some (rootwp s 0)}" using assms(2) by simp
  then obtain p as u bs where u: "Node p (as @ u # bs) \<in> set (subs t)" "w_id (win s (root_of u)) = wid"
    "root_of u \<in> set (nodes t)" "root_of u \<noteq> rootwp s 0" "w_parent (win s (root_of u)) = Some p" "u \<in> set (subs t)" "u \<noteq> t"
    by (rule named_sub [OF ok])
  show ?thesis using map_window [OF ok u(3,4), of beyond] u(2) MapCall by auto
next
  case (UnmapCall wid)
  then have "named wid s \<notin> {None, Some (rootwp s 0)}" using assms(2) by simp
  then obtain p as u bs where u: "Node p (as @ u # bs) \<in> set (subs t)" "w_id (win s (root_of u)) = wid"
    "root_of u \<in> set (nodes t)" "root_of u \<noteq> rootwp s 0" "w_parent (win s (root_of u)) = Some p" "u \<in> set (subs t)" "u \<noteq> t"
    by (rule named_sub [OF ok])
  show ?thesis using unmap_window [OF ok u(3,4), of beyond] u(2) UnmapCall by auto
next
  case (MoveCall wid x y)
  then have "named wid s \<notin> {None, Some (rootwp s 0)}" using assms(2) by simp
  then obtain p as u bs where u: "Node p (as @ u # bs) \<in> set (subs t)" "w_id (win s (root_of u)) = wid"
    "root_of u \<in> set (nodes t)" "root_of u \<noteq> rootwp s 0" "w_parent (win s (root_of u)) = Some p" "u \<in> set (subs t)" "u \<noteq> t"
    by (rule named_sub [OF ok])
  show ?thesis using move_window [OF ok u(6,7) refl u(5) refl refl, of beyond x y] u(2) MoveCall by auto
next
  case (ResizeCall wid width height)
  then have "named wid s \<notin> {None, Some (rootwp s 0)}" using assms(2) by simp
  then obtain p as u bs where u: "Node p (as @ u # bs) \<in> set (subs t)" "w_id (win s (root_of u)) = wid"
    "root_of u \<in> set (nodes t)" "root_of u \<noteq> rootwp s 0" "w_parent (win s (root_of u)) = Some p" "u \<in> set (subs t)" "u \<noteq> t"
    by (rule named_sub [OF ok])
  show ?thesis using resize_window [OF ok u(3,4), of width height beyond] u(2) ResizeCall assms(2) by auto
next
  case (RaiseCall wid)
  then have "named wid s \<notin> {None, Some (rootwp s 0)}" using assms(2) by simp
  then obtain p as u bs where u: "Node p (as @ u # bs) \<in> set (subs t)" "w_id (win s (root_of u)) = wid"
    "root_of u \<in> set (nodes t)" "root_of u \<noteq> rootwp s 0" "w_parent (win s (root_of u)) = Some p" "u \<in> set (subs t)" "u \<noteq> t"
    by (rule named_sub [OF ok])
  show ?thesis using raise_window [OF ok u(1), of beyond] u(2) RaiseCall by auto
next
  case (LowerCall wid)
  then have "named wid s \<notin> {None, Some (rootwp s 0)}" using assms(2) by simp
  then obtain p as u bs where u: "Node p (as @ u # bs) \<in> set (subs t)" "w_id (win s (root_of u)) = wid"
    "root_of u \<in> set (nodes t)" "root_of u \<noteq> rootwp s 0" "w_parent (win s (root_of u)) = Some p" "u \<in> set (subs t)" "u \<noteq> t"
    by (rule named_sub [OF ok])
  show ?thesis using lower_window [OF ok u(1), of beyond] u(2) LowerCall by auto
next
  case (DestroyCall wid)
  then have "named wid s \<notin> {None, Some (rootwp s 0)}" using assms(2) by simp
  then obtain p as u bs where u: "Node p (as @ u # bs) \<in> set (subs t)" "w_id (win s (root_of u)) = wid"
    "root_of u \<in> set (nodes t)" "root_of u \<noteq> rootwp s 0" "w_parent (win s (root_of u)) = Some p" "u \<in> set (subs t)" "u \<noteq> t"
    by (rule named_sub [OF ok])
  show ?thesis using destroy_call [OF ok u(1), of beyond] u(2) DestroyCall by auto
next
  case (ReparentCall wid pwid x y)
  then have "named wid s \<notin> {None, Some (rootwp s 0)}" using assms(2) by simp
  then obtain p as u bs where u: "Node p (as @ u # bs) \<in> set (subs t)" "w_id (win s (root_of u)) = wid"
    "root_of u \<in> set (nodes t)" "root_of u \<noteq> rootwp s 0" "w_parent (win s (root_of u)) = Some p" "u \<in> set (subs t)" "u \<noteq> t"
    by (rule named_sub [OF ok])
  have "named wid s = Some (root_of u)" using named_node [OF ok] u(2,3) by blast
  then obtain q where q: "named pwid s = Some q" "inside (win s) (root_of u) q = Some False"
    using assms(2) ReparentCall by (auto split: option.splits)
  then have qn: "q \<in> set (nodes t)" "w_id (win s q) = pwid" using named_node [OF ok] by auto
  then have "q \<notin> set (nodes u)" using inside_nodes [OF server_okD(5) [OF ok] u(6)] q(2) by simp
  then obtain qs where "Node q qs \<in> set (subs (with_children p (as @ bs) t))" using outside_sub [OF server_okD(1) [OF ok] u(1) qn(1)] by blast
  from reparent_window [OF ok u(1) this refl refl, of beyond x y] show ?thesis using u(2) qn(2) ReparentCall by auto
qed

section \<open>A server with four windows\<close>

text \<open>The sample windows, with a window 3 inside window 1 that is not mapped.\<close>

definition client_server :: server where
  "client_server = sample_server
     \<lparr>win := (win sample_server)
        (1 := (win sample_server 1)\<lparr>w_children := Some 3\<rparr>,
         3 := (sample_window 3 12 12 5 5)\<lparr>w_parent := Some 1, w_mapped := False, w_realized := False, w_next := Some 2\<rparr>),
      listwp := (\<lambda>_. Some 3), free_windows := [4, 5]\<rparr>"

abbreviation (input) client_tree :: wtree where "client_tree \<equiv> Node 0 [Node 1 [Node 3 []], Node 2 []]"

lemmas client_defs = client_server_def sample_server_def sample_windows_def sample_window_def

lemma client_server_ok: "server_ok client_server client_tree"
proof -
  have t: "window_tree (win client_server) (rootwp client_server 0) client_tree" by (simp add: window_tree_def client_defs)
  have "server_tree client_server client_tree" using t unfolding server_tree_def by (intro conjI) (assumption, simp_all add: client_defs)
  moreover have "windows_drawable client_server client_tree" by (simp add: windows_drawable_def win_ok_def client_defs)
  moreover have "evq_ok (evqueues client_server)" using initial_queues_ok [of 100] by (auto simp: evq_ok_def client_defs)
  ultimately have "base client_server client_tree" unfolding base_def by (intro conjI) (assumption+, simp add: client_defs)
  moreover have "vis_ok client_server client_tree" unfolding vis_local [OF t] local_vis_def by (simp add: client_defs)
  moreover have "window_list client_server client_tree [3, 2, 1, 0]" unfolding window_list_iff by (simp add: client_defs) auto
  moreover have "cached client_server client_tree" by (simp add: cached_def client_defs)
  ultimately show ?thesis by (auto simp: server_ok_def client_defs)
qed

section \<open>The properties\<close>

text \<open>The states that a server reaches by permitted calls.\<close>

inductive serves :: "MWCOORD \<Rightarrow> server \<Rightarrow> server \<Rightarrow> bool" for beyond where
  serves_none: "serves beyond s s"
| serves_call: "serves beyond s s1 \<Longrightarrow> permitted c s1 \<Longrightarrow> client_call beyond c s1 = Some s2 \<Longrightarrow> serves beyond s s2"

lemma serves_ok: "serves beyond s s' \<Longrightarrow> server_ok s t \<Longrightarrow> \<exists>t'. server_ok s' t'"
proof (induction rule: serves.induct)
  case (serves_call s s1 c s2)
  then obtain t1 where "server_ok s1 t1" by blast
  from call_ok [OF this serves_call.hyps(2), of beyond] serves_call.hyps(3) show ?case by auto
qed blast

text \<open>
  C29. After any sequence of permitted calls to map, unmap, move, resize, raise, lower, reparent, create and destroy windows the
  next permitted call returns.  Permitted are calls that name an existing window, other than the root window unless it is the parent of a new
  window or the new parent of a moved one, with positive sizes; a new window needs memory, a parent that is no input window and an identifier not in use; and
  a new parent must not be inside the window (see \<open>reparent_into_itself\<close>).  And the invariant \<open>server_ok\<close> holds again: the parent, child and sibling pointers form a
  tree whose windows are exactly those of the list of all windows, with different identifiers; a window is visible just when it and all
  its ancestors below the root are mapped; and the mouse, focus, grab, clip and cached windows are windows of the tree, apart from free
  memory.
\<close>

theorem client_calls_invariant:
  assumes "server_ok s t" and "serves beyond s s1" and "permitted c s1"
  shows "\<exists>s2 t2. client_call beyond c s1 = Some s2 \<and> server_ok s2 t2"
proof -
  obtain t1 where "server_ok s1 t1" using serves_ok [OF assms(2,1)] by blast
  from call_ok [OF this assms(3)] show ?thesis .
qed

lemma client_nodes: "set (nodes client_tree) = {0, 1, 2, 3}" "rootwp client_server 0 = 0"
  by (auto simp: client_defs)

lemma client_ids: "w_id (win client_server 1) = 2" "w_id (win client_server 2) = 3" "w_id (win client_server 3) = 4"
  by (simp_all add: client_defs)

lemma client_named: "named 4 client_server = Some 3" "named 2 client_server = Some 1"
  using named_node [OF client_server_ok, of 4 3] named_node [OF client_server_ok, of 2 1] client_ids by auto

theorem client_calls_invariant_witness:
  "\<exists>s1 s2 t2. GrMapWindow 0 4 client_server = Some s1 \<and> permitted (DestroyCall 4) s1 \<and> GrDestroyWindow 0 4 s1 = Some s2 \<and> server_ok s2 t2"
proof -
  have p: "permitted (MapCall 4) client_server" by (simp add: client_named client_nodes(2))
  obtain s1 where s1: "GrMapWindow 0 4 client_server = Some s1" "server_ok s1 client_tree"
    "windows_are ((win client_server)(3 := (win client_server 3)\<lparr>w_mapped := True\<rparr>)) s1"
    using map_window [OF client_server_ok, of 3 0] client_nodes client_ids by auto
  have s: "serves 0 client_server s1" by (rule serves_call [OF serves_none p]) (simp add: s1(1))
  obtain r where "win s1 3 = ((win client_server)(3 := (win client_server 3)\<lparr>w_mapped := True\<rparr>)) 3\<lparr>w_realized := r\<rparr>"
    using s1(3) unfolding windows_are_def by blast
  then have "w_id (win s1 3) = 4" using client_ids by simp
  then have n: "named 4 s1 = Some 3" using named_node [OF s1(2)] by simp
  have "rootwp s1 0 = 0" using server_okD(5) [OF s1(2)] by (simp add: window_tree_def)
  then have q: "permitted (DestroyCall 4) s1" using n by simp
  show ?thesis using client_calls_invariant [OF client_server_ok s q] s1(1) q by auto
qed

text \<open>
  C31. \<open>GrMapWindow\<close> and \<open>GrUnmapWindow\<close> set and clear the flag of one window, leave all other attributes of all windows as they are,
  and show or hide exactly the windows whose visibility the flag decides.
\<close>

theorem map_unmap_correct:
  assumes "server_ok s t" and "w \<in> set (nodes t)" and "w \<noteq> rootwp s 0"
  shows "\<exists>s1 s2. GrMapWindow beyond (w_id (win s w)) s = Some s1 \<and> GrUnmapWindow beyond (w_id (win s w)) s = Some s2 \<and>
    (\<forall>v. win s1 v = (win s v)\<lparr>w_mapped := (w_mapped (win s v) \<or> v = w), w_realized := w_realized (win s1 v)\<rparr>) \<and>
    (\<forall>v. win s2 v = (win s v)\<lparr>w_mapped := (w_mapped (win s v) \<and> v \<noteq> w), w_realized := w_realized (win s2 v)\<rparr>) \<and>
    (\<forall>v\<in>set (nodes t). w_realized (win s1 v) = visible (win s1) t v) \<and> (\<forall>v\<in>set (nodes t). w_realized (win s2 v) = visible (win s2) t v)"
proof -
  have one: "win s' v = (win s v)\<lparr>w_mapped := (if v = w then m else w_mapped (win s v)), w_realized := w_realized (win s' v)\<rparr>"
    if "windows_are ((win s)(w := (win s w)\<lparr>w_mapped := m\<rparr>)) s'" for s' m v
    using that unfolding windows_are_def by (cases "v = w") (auto dest: spec [of _ v])
  obtain s1 where s1: "GrMapWindow beyond (w_id (win s w)) s = Some s1" "server_ok s1 t"
    "windows_are ((win s)(w := (win s w)\<lparr>w_mapped := True\<rparr>)) s1" using map_window [OF assms] by blast
  have m1: "win s1 v = (win s v)\<lparr>w_mapped := (w_mapped (win s v) \<or> v = w), w_realized := w_realized (win s1 v)\<rparr>" for v
    using one [OF s1(3), of v] by (cases "v = w") simp_all
  obtain s2 where s2: "GrUnmapWindow beyond (w_id (win s w)) s = Some s2" "server_ok s2 t"
    "windows_are ((win s)(w := (win s w)\<lparr>w_mapped := False\<rparr>)) s2" using unmap_window [OF assms] by blast
  have m2: "win s2 v = (win s v)\<lparr>w_mapped := (w_mapped (win s v) \<and> v \<noteq> w), w_realized := w_realized (win s2 v)\<rparr>" for v
    using one [OF s2(3), of v] by (cases "v = w") simp_all
  show ?thesis
    by (intro exI [of _ s1] exI [of _ s2] conjI)
      (use s1(1) s2(1) m1 m2 server_okD(2) [OF s1(2)] server_okD(2) [OF s2(2)] in \<open>auto simp: vis_ok_def\<close>)
qed

theorem map_unmap_correct_witness:
  "\<exists>s1. GrMapWindow 0 4 client_server = Some s1 \<and> \<not> w_realized (win client_server 3) \<and> w_realized (win s1 3)"
proof -
  have tree: "3 \<in> set (nodes client_tree)" "3 \<noteq> rootwp client_server 0" by (simp_all add: client_defs)
  obtain s1 where s1: "GrMapWindow 0 4 client_server = Some s1" "w_realized (win s1 3) = visible (win s1) client_tree 3"
    "\<forall>v. win s1 v = (win client_server v)\<lparr>w_mapped := (w_mapped (win client_server v) \<or> v = 3), w_realized := w_realized (win s1 v)\<rparr>"
    using map_unmap_correct [OF client_server_ok tree, of 0] client_ids tree(1) by metis
  have m: "w_mapped (win s1 v) \<longleftrightarrow> w_mapped (win client_server v) \<or> v = 3" for v
  proof -
    obtain r where "win s1 v = (win client_server v)\<lparr>w_mapped := (w_mapped (win client_server v) \<or> v = 3), w_realized := r\<rparr>" using s1(3) by blast
    then show ?thesis by simp
  qed
  have "visible (win s1) client_tree 3" by (simp add: visible_def ancestors_def m) (simp add: client_defs)
  then show ?thesis using s1(1,2) by (intro exI [of _ s1]) (simp add: client_defs)
qed

text \<open>
  C32. \<open>GrMoveWindow\<close> shifts a window and all windows inside it by the same distance, to the place given relative to its parent, and
  \<open>GrResizeWindow\<close> changes the size of one window to a positive one.  No other attribute of any window record changes, and the same windows of the tree are
  visible.  (The mouse and the focus window may change, and events are queued.)
\<close>

theorem move_resize_correct:
  assumes "server_ok s t" and "u \<in> set (subs t)" and "u \<noteq> t" and "root_of u = w" and "w_parent (win s w) = Some p"
    and "dx = SAFE_PLUS x (w_x (win s p)) - w_x (win s w)" and "dy = SAFE_PLUS y (w_y (win s p)) - w_y (win s w)"
    and "0 < width" and "0 < height"
  shows "\<exists>s1 s2. GrMoveWindow beyond (w_id (win s w)) x y s = Some s1 \<and> GrResizeWindow beyond (w_id (win s w)) width height s = Some s2 \<and>
    (\<forall>v. win s1 v = (if v \<in> set (nodes u) then (win s v)\<lparr>w_x := SAFE_PLUS (w_x (win s v)) dx, w_y := SAFE_PLUS (w_y (win s v)) dy,
      w_realized := w_realized (win s1 v)\<rparr> else (win s v)\<lparr>w_realized := w_realized (win s1 v)\<rparr>)) \<and>
    (\<forall>v. win s2 v = (if v = w then (win s v)\<lparr>w_width := width, w_height := height, w_realized := w_realized (win s2 v)\<rparr>
      else (win s v)\<lparr>w_realized := w_realized (win s2 v)\<rparr>)) \<and>
    (\<forall>v\<in>set (nodes t). w_realized (win s1 v) = w_realized (win s v) \<and> w_realized (win s2 v) = w_realized (win s v))"
proof -
  have wn: "w \<in> set (nodes t)" using subs_root [OF assms(2)] assms(4) by simp
  have wr: "w \<noteq> rootwp s 0" using assms(5) server_okD(5) [OF assms(1)] by (auto simp: window_tree_def)
  obtain s1 where s1: "GrMoveWindow beyond (w_id (win s w)) x y s = Some s1" "server_ok s1 t" "windows_are (shifted dx dy (set (nodes u)) (win s)) s1"
    using move_window [OF assms(1-7)] by blast
  obtain s2 where s2: "GrResizeWindow beyond (w_id (win s w)) width height s = Some s2" "server_ok s2 t"
    "windows_are ((win s)(w := (win s w)\<lparr>w_width := width, w_height := height\<rparr>)) s2"
    using resize_window [OF assms(1) wn wr assms(8,9)] by blast
  have m1: "win s1 v = (shifted dx dy (set (nodes u)) (win s) v)\<lparr>w_realized := w_realized (win s1 v)\<rparr>" for v
    using s1(3) unfolding windows_are_def by blast
  have m2: "win s2 v = (((win s)(w := (win s w)\<lparr>w_width := width, w_height := height\<rparr>)) v)\<lparr>w_realized := w_realized (win s2 v)\<rparr>" for v
    using s2(3) unfolding windows_are_def by blast
  have "w_mapped (win s1 v) = w_mapped (win s v)" "w_mapped (win s2 v) = w_mapped (win s v)" for v
    by (subst m1, simp) (subst m2, simp)
  then have "w_realized (win s1 v) = w_realized (win s v) \<and> w_realized (win s2 v) = w_realized (win s v)" if "v \<in> set (nodes t)" for v
    using that server_okD(2) [OF assms(1)] server_okD(2) [OF s1(2)] server_okD(2) [OF s2(2)] by (simp add: vis_ok_def visible_def)
  moreover have "\<forall>v. win s1 v = (if v \<in> set (nodes u) then (win s v)\<lparr>w_x := SAFE_PLUS (w_x (win s v)) dx, w_y := SAFE_PLUS (w_y (win s v)) dy,
      w_realized := w_realized (win s1 v)\<rparr> else (win s v)\<lparr>w_realized := w_realized (win s1 v)\<rparr>)"
  proof
    fix v show "win s1 v = (if v \<in> set (nodes u) then (win s v)\<lparr>w_x := SAFE_PLUS (w_x (win s v)) dx, w_y := SAFE_PLUS (w_y (win s v)) dy,
      w_realized := w_realized (win s1 v)\<rparr> else (win s v)\<lparr>w_realized := w_realized (win s1 v)\<rparr>)"
      using m1 [of v] by (cases "v \<in> set (nodes u)") (simp_all add: shifted_def shift_def)
  qed
  moreover have "\<forall>v. win s2 v = (if v = w then (win s v)\<lparr>w_width := width, w_height := height, w_realized := w_realized (win s2 v)\<rparr>
      else (win s v)\<lparr>w_realized := w_realized (win s2 v)\<rparr>)"
  proof
    fix v show "win s2 v = (if v = w then (win s v)\<lparr>w_width := width, w_height := height, w_realized := w_realized (win s2 v)\<rparr>
      else (win s v)\<lparr>w_realized := w_realized (win s2 v)\<rparr>)" using m2 [of v] by (cases "v = w") simp_all
  qed
  ultimately show ?thesis using s1(1) s2(1) by blast
qed

theorem move_resize_correct_witness:
  "\<exists>s1. GrMoveWindow 0 2 15 16 client_server = Some s1 \<and> w_x (win s1 1) = 15 \<and> w_y (win s1 3) = 18"
proof -
  have h: "Node 1 [Node 3 []] \<in> set (subs client_tree)" "Node 1 [Node 3 []] \<noteq> client_tree" "w_parent (win client_server 1) = Some 0"
    "5 = SAFE_PLUS 15 (w_x (win client_server 0)) - w_x (win client_server 1)"
    "6 = SAFE_PLUS 16 (w_y (win client_server 0)) - w_y (win client_server 1)" by (simp_all add: SAFE_PLUS_def client_defs)
  obtain s1 where s1: "GrMoveWindow 0 (w_id (win client_server 1)) 15 16 client_server = Some s1"
    "\<forall>v. win s1 v = (if v \<in> set (nodes (Node 1 [Node 3 []])) then (win client_server v)\<lparr>w_x := SAFE_PLUS (w_x (win client_server v)) 5,
       w_y := SAFE_PLUS (w_y (win client_server v)) 6, w_realized := w_realized (win s1 v)\<rparr>
     else (win client_server v)\<lparr>w_realized := w_realized (win s1 v)\<rparr>)"
    using move_resize_correct [OF client_server_ok h(1,2) _ h(3-5), of 1 1 0] by auto
  obtain r r' where "win s1 1 = (win client_server 1)\<lparr>w_x := SAFE_PLUS (w_x (win client_server 1)) 5,
       w_y := SAFE_PLUS (w_y (win client_server 1)) 6, w_realized := r\<rparr>"
    "win s1 3 = (win client_server 3)\<lparr>w_x := SAFE_PLUS (w_x (win client_server 3)) 5,
       w_y := SAFE_PLUS (w_y (win client_server 3)) 6, w_realized := r'\<rparr>" using s1(2) [THEN spec, of 1] s1(2) [THEN spec, of 3] by auto
  then show ?thesis using s1(1) client_ids by (intro exI [of _ s1]) (simp add: SAFE_PLUS_def, simp add: client_defs)
qed

text \<open>
  C33. \<open>GrRaiseWindow\<close> puts a window in front of the other children of its parent, \<open>GrLowerWindow\<close> behind them; the order of the others
  and all links of other windows stay, and no window changes in anything but its links.
\<close>

theorem raise_lower_correct:
  assumes "server_ok s t" and "Node p (as @ u # bs) \<in> set (subs t)"
  shows "\<exists>s1 s2. GrRaiseWindow beyond (w_id (win s (root_of u))) s = Some s1 \<and> server_ok s1 (with_children p (u # as @ bs) t) \<and>
    GrLowerWindow beyond (w_id (win s (root_of u))) s = Some s2 \<and> server_ok s2 (with_children p (as @ bs @ [u]) t) \<and>
    (\<forall>v. win s1 v = (win s v)\<lparr>w_children := w_children (win s1 v), w_siblings := w_siblings (win s1 v)\<rparr>) \<and>
    (\<forall>v. win s2 v = (win s v)\<lparr>w_children := w_children (win s2 v), w_siblings := w_siblings (win s2 v)\<rparr>)"
  using raise_window [OF assms, of beyond] lower_window [OF assms, of beyond] unfolding relinked_def by blast

theorem raise_lower_correct_witness:
  "\<exists>s1. GrRaiseWindow 0 3 client_server = Some s1 \<and> w_children (win s1 0) = Some 2 \<and> w_siblings (win s1 2) = Some 1"
proof -
  have sub: "Node 0 ([Node 1 [Node 3 []]] @ Node 2 [] # []) \<in> set (subs client_tree)" by simp
  obtain s1 where s1: "GrRaiseWindow 0 (w_id (win client_server 2)) client_server = Some s1"
    "server_ok s1 (with_children 0 (Node 2 [] # [Node 1 [Node 3 []]] @ []) client_tree)"
    using raise_lower_correct [OF client_server_ok sub, of 0] by (auto simp del: with_children.simps)
  have "linked (win s1) (Node 0 [Node 2 [], Node 1 [Node 3 []]])" using server_okD(7) [OF s1(2)] by (simp del: linked.simps)
  then show ?thesis using s1(1) client_ids(2) by (intro exI [of _ s1]) simp
qed

text \<open>
  C34. \<open>GrNewWindow\<close> returns an identifier that no window has, and the new window is the first child of its parent, placed relative to it
  and not shown; the other windows keep their order.  As long as the counter does not wrap around, the next identifier is new as well.
\<close>

theorem GrNewWindow_correct:
  assumes "server_ok s t" and "Node p ts \<in> set (subs t)" and "w_output (win s p)" and "0 < width" and "0 < height" and "0 \<le> bordersize"
    and "free_windows s = n # rest" and "ids_below s t" and "nextid s + 1 < 2 ^ 32"
  shows "\<exists>s'. GrNewWindow (w_id (win s p)) x y width height bordersize bg bc c s = Some (nextid s, s') \<and>
    server_ok s' (with_children p (Node n [] # ts) t) \<and> ids_below s' (with_children p (Node n [] # ts) t) \<and>
    (\<forall>v\<in>set (nodes t). w_id (win s v) \<noteq> nextid s) \<and> w_id (win s' n) = nextid s \<and>
    (w_x (win s' n), w_y (win s' n), w_width (win s' n), w_height (win s' n)) = (w_x (win s p) + x, w_y (win s p) + y, width, height)"
proof -
  have fresh: "\<forall>v\<in>set (nodes t). w_id (win s v) \<noteq> nextid s" using assms(8) by (auto simp: ids_below_def)
  from new_window [OF assms(1-7) fresh] fresh assms(8,9) show ?thesis by blast
qed

theorem GrNewWindow_correct_witness:
  "\<exists>s'. GrNewWindow 2 1 2 3 4 0 0 0 7 client_server = Some (11, s') \<and> w_children (win s' 1) = Some 4 \<and> w_x (win s' 4) = 11"
proof -
  have sub: "Node 1 [Node 3 []] \<in> set (subs client_tree)" by simp
  have h: "w_output (win client_server 1)" "free_windows client_server = 4 # [5]" "ids_below client_server client_tree"
    "nextid client_server + 1 < 2 ^ 32" "nextid client_server = 11" "w_x (win client_server 1) = 10" by (simp_all add: ids_below_def client_defs)
  obtain s' where s': "GrNewWindow (w_id (win client_server 1)) 1 2 3 4 0 0 0 7 client_server = Some (nextid client_server, s')"
    "server_ok s' (with_children 1 (Node 4 [] # [Node 3 []]) client_tree)" "w_x (win s' 4) = w_x (win client_server 1) + 1"
    using GrNewWindow_correct [OF client_server_ok sub h(1) _ _ _ h(2-4), of 3 4 0 1 2 0 0 7] by (auto simp del: with_children.simps One_nat_def)
  have "linked (win s') (Node 0 [Node 1 [Node 4 [], Node 3 []], Node 2 []])"
    using server_okD(7) [OF s'(2)] by (simp del: linked.simps)
  then show ?thesis using s'(1,3) client_ids(1) h(5,6) by (intro exI [of _ s']) simp
qed

text \<open>
  C30. \<open>GrDestroyWindow\<close> ends, and takes exactly the windows of a subtree out of the tree and the list of windows; their memory is free, no
  grabbed key names them, and mouse, focus, grab, clip and cached window are windows that are left (\<open>server_ok\<close> for the smaller tree).
\<close>

theorem GrDestroyWindow_correct:
  assumes "server_ok s t" and "Node p (as @ u # bs) \<in> set (subs t)"
  shows "\<exists>s'. GrDestroyWindow beyond (w_id (win s (root_of u))) s = Some s' \<and> server_ok s' (with_children p (as @ bs) t) \<and>
    set (nodes (with_children p (as @ bs) t)) = set (nodes t) - set (nodes u) \<and>
    set (free_windows s') = set (nodes u) \<union> set (free_windows s) \<and>
    {mousewp s', focuswp s'} \<union> set_option (grabbuttonwp s') \<union> set_option (clipwp s') \<subseteq> set (nodes t) - set (nodes u) \<and>
    (\<forall>k\<in>set (list_grabbed_keys s'). \<forall>v\<in>set (nodes u). g_wid k \<noteq> w_id (win s v))"
proof -
  obtain s' where s': "GrDestroyWindow beyond (w_id (win s (root_of u))) s = Some s'" "server_ok s' (with_children p (as @ bs) t)"
    "set (nodes (with_children p (as @ bs) t)) = set (nodes t) - set (nodes u)" "set (free_windows s') = set (nodes u) \<union> set (free_windows s)"
    "\<forall>k\<in>set (list_grabbed_keys s'). \<forall>v\<in>set (nodes u). g_wid k \<noteq> w_id (win s v)" using destroy_call [OF assms, of beyond] by blast
  have "{mousewp s', focuswp s'} \<union> set_option (grabbuttonwp s') \<union> set_option (clipwp s') \<subseteq> set (nodes (with_children p (as @ bs) t))"
    using server_okD(1) [OF s'(2)] by (auto simp: base_def server_tree_def simp del: with_children.simps)
  then show ?thesis using s' by auto
qed

theorem GrDestroyWindow_correct_witness:
  "\<exists>s'. GrDestroyWindow 0 2 client_server = Some s' \<and> mousewp client_server = 1 \<and> mousewp s' \<in> {0, 2} \<and> {1, 3} \<subseteq> set (free_windows s')"
proof -
  have sub: "Node 0 ([] @ Node 1 [Node 3 []] # [Node 2 []]) \<in> set (subs client_tree)" by simp
  obtain s' where "GrDestroyWindow 0 (w_id (win client_server 1)) client_server = Some s'"
    "set (free_windows s') = set (nodes (Node 1 [Node 3 []])) \<union> set (free_windows client_server)"
    "mousewp s' \<in> set (nodes client_tree) - set (nodes (Node 1 [Node 3 []]))"
    using GrDestroyWindow_correct [OF client_server_ok sub, of 0] by (auto simp del: with_children.simps One_nat_def)
  moreover have "mousewp client_server = 1" by (simp add: client_defs)
  ultimately show ?thesis using client_ids(1) by (intro exI [of _ s']) auto
qed

text \<open>
  C35. When the new parent is not inside the window, \<open>GrReparentWindow\<close> takes the window with all windows inside it out of its place in the
  tree and makes it the first child of the new parent, shifts these windows by the same distance, to the place given relative to the new
  parent, changes no other attribute of any window and keeps the invariant; windows are visible as the new ancestors demand.
\<close>

theorem GrReparentWindow_correct:
  assumes "server_ok s t" and "Node p (as @ u # bs) \<in> set (subs t)" and "root_of u = w" and "Node q qs \<in> set (subs (with_children p (as @ bs) t))"
    and "dx = x + w_x (win s q) - w_x (win s w)" and "dy = y + w_y (win s q) - w_y (win s w)"
  shows "\<exists>s'. GrReparentWindow beyond (w_id (win s w)) (w_id (win s q)) x y s = Some s' \<and>
    server_ok s' (with_children q (u # qs) (with_children p (as @ bs) t)) \<and> w_parent (win s' w) = Some q \<and> w_children (win s' q) = Some w \<and>
    (\<forall>v. \<exists>a b c r. win s' v = (if v \<in> set (nodes u) then (win s v)\<lparr>w_x := SAFE_PLUS (w_x (win s v)) dx, w_y := SAFE_PLUS (w_y (win s v)) dy\<rparr>
      else win s v)\<lparr>w_children := a, w_siblings := b, w_parent := c, w_realized := r\<rparr>)"
proof -
  obtain s' where s': "GrReparentWindow beyond (w_id (win s w)) (w_id (win s q)) x y s = Some s'"
    "server_ok s' (with_children q (u # qs) (with_children p (as @ bs) t))" "attributes_are (shifted dx dy (set (nodes u)) (win s)) s'"
    using reparent_window [OF assms(1,2,4), of dx x dy y beyond] assms(3,5,6) by blast
  have "Node q (u # qs) \<in> set (subs (with_children q (u # qs) (with_children p (as @ bs) t)))"
    by (rule with_sub [OF tree_without(3) [OF server_okD(1) [OF assms(1)] assms(2)] assms(4)])
  from subs_linked [OF server_okD(7) [OF s'(2)] this]
  have "w_parent (win s' w) = Some q" "w_children (win s' q) = Some w" using assms(3) by simp_all
  moreover have "\<forall>v. \<exists>a b c r. win s' v = (shifted dx dy (set (nodes u)) (win s) v)\<lparr>w_children := a, w_siblings := b, w_parent := c, w_realized := r\<rparr>"
    using s'(3) unfolding attributes_are_def by blast
  ultimately show ?thesis using s'(1,2) unfolding shifted_def shift_def by blast
qed

theorem GrReparentWindow_correct_witness:
  "\<exists>s'. GrReparentWindow 0 4 3 1 2 client_server = Some s' \<and> w_parent (win s' 3) = Some 2 \<and> w_children (win s' 2) = Some 3 \<and>
    w_x (win s' 3) = w_x (win client_server 2) + 1"
proof -
  have sub: "Node 1 ([] @ Node 3 [] # []) \<in> set (subs client_tree)" "root_of (Node 3 []) = 3"
    "Node 2 [] \<in> set (subs (with_children 1 ([] @ []) client_tree))" by simp_all
  obtain s' where s': "GrReparentWindow 0 (w_id (win client_server 3)) (w_id (win client_server 2)) 1 2 client_server = Some s'"
    "w_parent (win s' 3) = Some 2" "w_children (win s' 2) = Some 3"
    "\<forall>v. \<exists>a b c r. win s' v = (if v \<in> set (nodes (Node 3 [])) then (win client_server v)
        \<lparr>w_x := SAFE_PLUS (w_x (win client_server v)) (1 + w_x (win client_server 2) - w_x (win client_server 3)),
         w_y := SAFE_PLUS (w_y (win client_server v)) (2 + w_y (win client_server 2) - w_y (win client_server 3))\<rparr>
      else win client_server v)\<lparr>w_children := a, w_siblings := b, w_parent := c, w_realized := r\<rparr>"
    using GrReparentWindow_correct [OF client_server_ok sub refl refl, of 0 1 2] by blast
  obtain a b c r where "win s' 3 = (win client_server 3)
        \<lparr>w_x := SAFE_PLUS (w_x (win client_server 3)) (1 + w_x (win client_server 2) - w_x (win client_server 3)),
         w_y := SAFE_PLUS (w_y (win client_server 3)) (2 + w_y (win client_server 2) - w_y (win client_server 3)),
         w_children := a, w_siblings := b, w_parent := c, w_realized := r\<rparr>" using s'(4) [THEN spec, of 3] by auto
  then have "w_x (win s' 3) = w_x (win client_server 2) + 1" by (simp add: SAFE_PLUS_def client_defs)
  then show ?thesis using s'(1-3) client_ids by (intro exI [of _ s']) simp
qed

text \<open>
  C36. When the new parent is inside the window and not the window itself, and the new place differs from the old one, the call does not return: \<open>GrReparentWindow\<close> links the window below its
  own descendant without a test, and \<open>OffsetWindow\<close> then walks around this cycle of children for ever.
\<close>

theorem reparent_into_itself:
  assumes "server_ok s t" and "Node p (as @ u # bs) \<in> set (subs t)" and "root_of u = w" and "q \<in> set (nodes u)" and "q \<noteq> w"
    and "x + w_x (win s q) \<noteq> w_x (win s w) \<or> y + w_y (win s q) \<noteq> w_y (win s w)"
  shows "GrReparentWindow beyond (w_id (win s w)) (w_id (win s q)) x y s = None"
  using reparent_inside [OF assms(1,2,4), of x y beyond] assms(3,5,6) by blast

theorem reparent_into_itself_witness: "GrReparentWindow 0 2 4 1 2 client_server = None"
proof -
  have sub: "Node 0 ([] @ Node 1 [Node 3 []] # [Node 2 []]) \<in> set (subs client_tree)" "root_of (Node 1 [Node 3 []]) = 1"
    "3 \<in> set (nodes (Node 1 [Node 3 []]))" "(3::win_ptr) \<noteq> 1" by simp_all
  have "1 + w_x (win client_server 3) \<noteq> w_x (win client_server 1) \<or> 2 + w_y (win client_server 3) \<noteq> w_y (win client_server 1)"
    by (simp add: client_defs)
  from reparent_into_itself [OF client_server_ok sub this, of 0] show ?thesis unfolding client_ids .
qed

end
