(* ===== verification/Reg_Model.thy ===== *)
theory Reg_Model
  imports Wop_Model
begin

text \<open>
  The regions of the clients (\<open>nanox/srvfunc.c\<close>): each has an identifier and refers to a region of the engine.

  \<^item> The list \<open>listregionp\<close> is a list of records; the regions of the engine lie in a store, since one region may be destination
    and source of an operation.
  \<^item> \<open>free_rgns\<close> are the addresses that \<open>GdAllocRegion\<close> may return; it returns a null pointer when there is none.  The flag
    \<open>mem\<close> says whether there is memory for the record.
  \<^item> The value \<open>None\<close> of an operation is a dereferenced null pointer.  The counter \<open>nextregionid\<close> is unbounded,
    and so are the sums of coordinates (\<open>x + width\<close> in \<open>GrUnionRectWithRegion\<close>), which in C must fit in an \<open>int\<close>.
\<close>

record gr_region =
  r_id :: nat
  r_rgn :: "rgn_ptr option"
  r_owner :: "client_ptr option"

record gr_regions =
  rgns :: rgn_store
  free_rgns :: "rgn_ptr list"
  listregionp :: "gr_region list"
  nextregionid :: nat

definition GsFindRegion :: "nat \<Rightarrow> 'a gr_regions_scheme \<Rightarrow> gr_region option" where
  "GsFindRegion regionid g = find (\<lambda>r. r_id r = regionid) (listregionp g)"

definition GrNewRegion :: "bool \<Rightarrow> 'a gr_regions_scheme \<Rightarrow> server \<Rightarrow> (nat \<times> 'a gr_regions_scheme \<times> server) option" where
  "GrNewRegion mem g s =
    (if \<not> mem then map_option (\<lambda>s. (0, g, s)) (server_error GR_ERROR_MALLOC_FAILED 0 s)
     else
       let (rgn, g) = (case free_rgns g of
               [] \<Rightarrow> (None, g)
             | p # ps \<Rightarrow> (Some p, g\<lparr>free_rgns := ps, rgns := (rgns g)(p := GdAllocRegion)\<rparr>));
           regionp = \<lparr>r_id = nextregionid g, r_rgn = rgn, r_owner = curclient (evqueues s)\<rparr>
       in Some (r_id regionp, g\<lparr>nextregionid := nextregionid g + 1, listregionp := regionp # listregionp g\<rparr>, s))"

definition GrDestroyRegion :: "nat \<Rightarrow> 'a gr_regions_scheme \<Rightarrow> 'a gr_regions_scheme" where
  "GrDestroyRegion region g =
    (case GsFindRegion region g of
       None \<Rightarrow> g
     | Some regionp \<Rightarrow>
         g\<lparr>listregionp := remove1 regionp (listregionp g),
           free_rgns := (case r_rgn regionp of None \<Rightarrow> free_rgns g | Some p \<Rightarrow> p # free_rgns g)\<rparr>)"

text \<open>An operation of the engine on the region that an identifier stands for.\<close>

definition on_region :: "nat \<Rightarrow> (rgn_store \<Rightarrow> rgn_ptr \<Rightarrow> rgn_store) \<Rightarrow> 'a gr_regions_scheme \<Rightarrow> 'a gr_regions_scheme option" where
  "on_region region f g =
    (case GsFindRegion region g of
       None \<Rightarrow> Some g
     | Some regionp \<Rightarrow> (case r_rgn regionp of None \<Rightarrow> None | Some p \<Rightarrow> Some (g\<lparr>rgns := f (rgns g) p\<rparr>)))"

definition GrUnionRectWithRegion ::
  "nat \<Rightarrow> MWCOORD \<Rightarrow> MWCOORD \<Rightarrow> MWCOORD \<Rightarrow> MWCOORD \<Rightarrow> 'a gr_regions_scheme \<Rightarrow> 'a gr_regions_scheme option" where
  "GrUnionRectWithRegion region x y width height g =
    on_region region (\<lambda>h rgn. GdUnionRectWithRegion h (mkrect x y (x + width) (y + height)) rgn) g"

definition GrOffsetRegion :: "nat \<Rightarrow> MWCOORD \<Rightarrow> MWCOORD \<Rightarrow> 'a gr_regions_scheme \<Rightarrow> 'a gr_regions_scheme option" where
  "GrOffsetRegion region dx dy g = on_region region (\<lambda>h rgn. h(rgn := GdOffsetRegion (h rgn) dx dy)) g"

text \<open>The common part of the four operations on three regions.\<close>

definition on_regions ::
  "(rgn_store \<Rightarrow> rgn_ptr \<Rightarrow> rgn_ptr \<Rightarrow> rgn_ptr \<Rightarrow> rgn_store) \<Rightarrow> nat \<Rightarrow> nat \<Rightarrow> nat \<Rightarrow> 'a gr_regions_scheme \<Rightarrow>
   'a gr_regions_scheme option" where
  "on_regions f dst_rgn src_rgn1 src_rgn2 g =
    (case GsFindRegion dst_rgn g of
       None \<Rightarrow> Some g
     | Some regionp \<Rightarrow>
         (case GsFindRegion src_rgn1 g of
            None \<Rightarrow> Some g
          | Some srcregionp1 \<Rightarrow>
              (case GsFindRegion src_rgn2 g of
                 None \<Rightarrow> Some g
               | Some srcregionp2 \<Rightarrow>
                   (case (r_rgn regionp, r_rgn srcregionp1, r_rgn srcregionp2) of
                      (Some d, Some a, Some b) \<Rightarrow> Some (g\<lparr>rgns := f (rgns g) d a b\<rparr>)
                    | _ \<Rightarrow> None))))"

definition GrUnionRegion :: "nat \<Rightarrow> nat \<Rightarrow> nat \<Rightarrow> 'a gr_regions_scheme \<Rightarrow> 'a gr_regions_scheme option" where
  "GrUnionRegion dst_rgn src_rgn1 src_rgn2 g = on_regions GdUnionRegion dst_rgn src_rgn1 src_rgn2 g"

definition GrSubtractRegion :: "MWCOORD \<Rightarrow> nat \<Rightarrow> nat \<Rightarrow> nat \<Rightarrow> 'a gr_regions_scheme \<Rightarrow> 'a gr_regions_scheme option" where
  "GrSubtractRegion beyond dst_rgn src_rgn1 src_rgn2 g = on_regions (GdSubtractRegion beyond) dst_rgn src_rgn1 src_rgn2 g"

definition GrXorRegion :: "MWCOORD \<Rightarrow> nat \<Rightarrow> nat \<Rightarrow> nat \<Rightarrow> 'a gr_regions_scheme \<Rightarrow> 'a gr_regions_scheme option" where
  "GrXorRegion beyond dst_rgn src_rgn1 src_rgn2 g = on_regions (GdXorRegion beyond) dst_rgn src_rgn1 src_rgn2 g"

definition GrIntersectRegion :: "nat \<Rightarrow> nat \<Rightarrow> nat \<Rightarrow> 'a gr_regions_scheme \<Rightarrow> 'a gr_regions_scheme option" where
  "GrIntersectRegion dst_rgn src_rgn1 src_rgn2 g = on_regions GdIntersectRegion dst_rgn src_rgn1 src_rgn2 g"

section \<open>Queries\<close>

definition ask_region :: "nat \<Rightarrow> 'b \<Rightarrow> (MWCLIPREGION \<Rightarrow> 'b) \<Rightarrow> 'a gr_regions_scheme \<Rightarrow> 'b option" where
  "ask_region region otherwise f g =
    (case GsFindRegion region g of
       None \<Rightarrow> Some otherwise
     | Some regionp \<Rightarrow> map_option (\<lambda>p. f (rgns g p)) (r_rgn regionp))"

definition GrPointInRegion :: "nat \<Rightarrow> MWCOORD \<Rightarrow> MWCOORD \<Rightarrow> 'a gr_regions_scheme \<Rightarrow> bool option" where
  "GrPointInRegion region x y g = ask_region region False (\<lambda>rgn. GdPtInRegion rgn x y) g"

definition GrRectInRegion :: "nat \<Rightarrow> MWCOORD \<Rightarrow> MWCOORD \<Rightarrow> MWCOORD \<Rightarrow> MWCOORD \<Rightarrow> 'a gr_regions_scheme \<Rightarrow> rect_in option" where
  "GrRectInRegion region x y w h g = ask_region region MWRECT_OUT (\<lambda>rgn. GdRectInRegion rgn (mkrect x y (x + w) (y + h))) g"

definition GrEmptyRegion :: "nat \<Rightarrow> 'a gr_regions_scheme \<Rightarrow> bool option" where
  "GrEmptyRegion region g = ask_region region True GdEmptyRegion g"

definition GrEqualRegion :: "nat \<Rightarrow> nat \<Rightarrow> 'a gr_regions_scheme \<Rightarrow> bool option" where
  "GrEqualRegion rgn1 rgn2 g =
    (case (GsFindRegion rgn1 g, GsFindRegion rgn2 g) of
       (None, None) \<Rightarrow> Some True
     | (Some prgn1, Some prgn2) \<Rightarrow>
         (case (r_rgn prgn1, r_rgn prgn2) of
            (Some p, Some q) \<Rightarrow> Some (GdEqualRegion (rgns g p) (rgns g q))
          | _ \<Rightarrow> None)
     | _ \<Rightarrow> Some False)"

text \<open>The bounding box, as place and size; \<open>None\<close> inside is \<open>MWREGION_ERROR\<close> with a rectangle of zeros.\<close>

definition GrGetRegionBox :: "nat \<Rightarrow> 'a gr_regions_scheme \<Rightarrow> (region_type option \<times> MWCOORD \<times> MWCOORD \<times> MWCOORD \<times> MWCOORD) option" where
  "GrGetRegionBox region g =
    ask_region region (None, 0, 0, 0, 0) (\<lambda>rgn.
      let (ret_val, rc) = GdGetRegionBox rgn
      in (Some ret_val, rleft rc, rtop rc, rright rc - rleft rc, rbottom rc - rtop rc)) g"

end
