(* ===== verification/Gc_Model.thy ===== *)
theory Gc_Model
  imports Reg_Model
begin

text \<open>
  Graphics contexts (\<open>nanox/srvfunc.c\<close>), the preparation of a drawing (\<open>GsPrepareDrawing\<close>, \<open>nanox/srvutil.c\<close>), the drawing
  requests of the clients, and the static variables of the engine that they set (\<open>engine/devdraw.c\<close>, \<open>devstipple.c\<close>, \<open>devfont.c\<close>).

  \<^item> The contexts lie at addresses; \<open>listgcp\<close> is a list of addresses, \<open>free_gcs\<close> holds those that \<open>NANOX_MALLOC\<close> may return.
  \<^item> \<open>bitmaps\<close> is the memory for stipple patterns: \<open>None\<close> is memory that is not allocated, and using or freeing it is the value
    \<open>None\<close> of an operation, like a dereferenced null pointer.
  \<^item> Memory that the engine allocates for itself is there; the counter \<open>nextgcid\<close> is unbounded.
  \<^item> The calls to the engine are recorded in \<open>engine_calls\<close>; \<open>settings\<close> reads off this record which values the variables of the
    engine have.
\<close>

section \<open>The settings of the engine\<close>

record draw_settings =
  gr_foreground :: "32 word"
  gr_background :: "32 word"
  gr_xorcolor :: "32 word"
  gr_usebg :: bool
  gr_mode :: int
  gr_alpha :: int
  gr_gradation :: MWGRADATION
  gr_dashmask :: "32 word"
  gr_dashcount :: int
  gr_fillmode :: int
  gr_stipple :: "16 word list option \<times> MWCOORD \<times> MWCOORD"
  gr_tile :: "surface option \<times> MWCOORD \<times> MWCOORD"
  gr_ts_offset :: "int \<times> int"
  gr_pfont :: "nat option"

definition initial_settings :: draw_settings where
  "initial_settings =
    \<lparr>gr_foreground = 0, gr_background = 0, gr_xorcolor = 0, gr_usebg = False, gr_mode = 0, gr_alpha = -1,
     gr_gradation = \<lparr>direction = 0, start_pos = -1, grad_length = -1\<rparr>, gr_dashmask = 0, gr_dashcount = 0, gr_fillmode = 0,
     gr_stipple = (None, 0, 0), gr_tile = (None, 0, 0), gr_ts_offset = (0, 0), gr_pfont = None\<rparr>"

text \<open>\<open>GdFindColor\<close> on a device with pixels of the format \<open>MWPF_TRUECOLOR8888\<close>.\<close>

definition GdFindColor :: "32 word \<Rightarrow> 32 word" where
  "GdFindColor c = push_bit 16 (c AND 0xff) OR (c AND 0xff00ff00) OR drop_bit 16 (c AND 0xff0000)"

text \<open>Most of the operations return the old value.\<close>

definition GdSetMode :: "int \<Rightarrow> draw_settings \<Rightarrow> int \<times> draw_settings" where
  "GdSetMode mode d = (gr_mode d, d\<lparr>gr_mode := mode\<rparr>)"

definition GdSetGlobalAlpha :: "int \<Rightarrow> draw_settings \<Rightarrow> int \<times> draw_settings" where
  "GdSetGlobalAlpha alpha d =
    (gr_alpha d, d\<lparr>gr_alpha := (if alpha < 0 then -1 else if alpha > 255 then 255 else alpha)\<rparr>)"

definition GdSetGradationOption :: "MWGRADATION \<Rightarrow> draw_settings \<Rightarrow> int \<times> draw_settings" where
  "GdSetGradationOption gradationOption d = (start_pos (gr_gradation d), d\<lparr>gr_gradation := gradationOption\<rparr>)"

definition GdSetFillMode :: "int \<Rightarrow> draw_settings \<Rightarrow> int \<times> draw_settings" where
  "GdSetFillMode mode d = (gr_fillmode d, d\<lparr>gr_fillmode := mode\<rparr>)"

definition GdSetUseBackground :: "bool \<Rightarrow> draw_settings \<Rightarrow> bool \<times> draw_settings" where
  "GdSetUseBackground flag d = (gr_usebg d, d\<lparr>gr_usebg := flag\<rparr>)"

definition GdSetForegroundPixelVal :: "32 word \<Rightarrow> draw_settings \<Rightarrow> 32 word \<times> draw_settings" where
  "GdSetForegroundPixelVal fg d = (gr_foreground d, d\<lparr>gr_foreground := fg\<rparr>)"

definition GdSetBackgroundPixelVal :: "32 word \<Rightarrow> draw_settings \<Rightarrow> 32 word \<times> draw_settings" where
  "GdSetBackgroundPixelVal bg d = (gr_background d, d\<lparr>gr_background := bg\<rparr>)"

definition GdSetForegroundColor :: "32 word \<Rightarrow> draw_settings \<Rightarrow> 32 word \<times> draw_settings" where
  "GdSetForegroundColor fg d = (gr_foreground d, d\<lparr>gr_foreground := GdFindColor fg\<rparr>)"

definition GdSetXorColor :: "32 word \<Rightarrow> draw_settings \<Rightarrow> 32 word \<times> draw_settings" where
  "GdSetXorColor xorcolor d = (gr_xorcolor d, d\<lparr>gr_xorcolor := GdFindColor xorcolor\<rparr>)"

definition GdSetBackgroundColor :: "32 word \<Rightarrow> draw_settings \<Rightarrow> 32 word \<times> draw_settings" where
  "GdSetBackgroundColor bg d = (gr_background d, d\<lparr>gr_background := GdFindColor bg\<rparr>)"

text \<open>\<open>GdSetDash\<close> stores the old values where its arguments point to; with null pointers it does nothing.\<close>

definition GdSetDash :: "(32 word \<times> int) option \<Rightarrow> draw_settings \<Rightarrow> (32 word \<times> int) option \<times> draw_settings" where
  "GdSetDash dash d =
    (case dash of
       None \<Rightarrow> (None, d)
     | Some (dmask, dcount) \<Rightarrow> (Some (gr_dashmask d, gr_dashcount d), d\<lparr>gr_dashmask := dmask, gr_dashcount := dcount\<rparr>))"

definition GdSetStippleBitmap :: "16 word list option \<Rightarrow> MWCOORD \<Rightarrow> MWCOORD \<Rightarrow> draw_settings \<Rightarrow> draw_settings" where
  "GdSetStippleBitmap stipple width height d =
    d\<lparr>gr_stipple := (case stipple of None \<Rightarrow> (None, 0, 0) | Some bits \<Rightarrow> (Some bits, width, height))\<rparr>"

definition GdSetTilePixmap :: "surface option \<Rightarrow> MWCOORD \<Rightarrow> MWCOORD \<Rightarrow> draw_settings \<Rightarrow> draw_settings" where
  "GdSetTilePixmap src width height d =
    d\<lparr>gr_tile := (case src of None \<Rightarrow> (None, 0, 0) | Some psd \<Rightarrow> (Some psd, width, height))\<rparr>"

definition GdSetTSOffset :: "int \<Rightarrow> int \<Rightarrow> draw_settings \<Rightarrow> draw_settings" where
  "GdSetTSOffset x y d = d\<lparr>gr_ts_offset := (x, y)\<rparr>"

definition GdSetFont :: "nat option \<Rightarrow> draw_settings \<Rightarrow> nat option \<times> draw_settings" where
  "GdSetFont pfont d = (gr_pfont d, d\<lparr>gr_pfont := pfont\<rparr>)"

text \<open>What a recorded call does to the settings.\<close>

fun apply_call :: "engine_call \<Rightarrow> draw_settings \<Rightarrow> draw_settings" where
  "apply_call (CallSetMode mode) d = snd (GdSetMode mode d)"
| "apply_call (CallSetFillMode mode) d = snd (GdSetFillMode mode d)"
| "apply_call (CallSetForegroundColor c) d = snd (GdSetForegroundColor c d)"
| "apply_call (CallSetBackgroundColor c) d = snd (GdSetBackgroundColor c d)"
| "apply_call (CallSetForegroundPixelVal v) d = snd (GdSetForegroundPixelVal v d)"
| "apply_call (CallSetBackgroundPixelVal v) d = snd (GdSetBackgroundPixelVal v d)"
| "apply_call (CallSetXorColor c) d = snd (GdSetXorColor c d)"
| "apply_call (CallSetUseBackground flag) d = snd (GdSetUseBackground flag d)"
| "apply_call (CallSetGlobalAlpha alpha) d = snd (GdSetGlobalAlpha alpha d)"
| "apply_call (CallSetGradationOption o') d = snd (GdSetGradationOption o' d)"
| "apply_call (CallSetDash dash) d = snd (GdSetDash dash d)"
| "apply_call (CallSetTSOffset x y) d = GdSetTSOffset x y d"
| "apply_call (CallSetStippleBitmap stipple width height) d = GdSetStippleBitmap stipple width height d"
| "apply_call (CallSetTilePixmap src width height) d = GdSetTilePixmap src width height d"
| "apply_call (CallSetFont pfont) d = snd (GdSetFont pfont d)"
| "apply_call _ d = d"

definition settings :: "server \<Rightarrow> draw_settings" where
  "settings s = fold apply_call (engine_calls s) initial_settings"

section \<open>Graphics contexts\<close>

abbreviation (input) GR_MODE_DRAWMASK :: "32 word" where "GR_MODE_DRAWMASK \<equiv> 0x00FF"
abbreviation (input) GR_MODE_EXCLUDECHILDREN :: "32 word" where "GR_MODE_EXCLUDECHILDREN \<equiv> 0x0100"
abbreviation (input) GR_MAX_MODE :: "32 word" where "GR_MAX_MODE \<equiv> 25"
abbreviation (input) GR_LINE_SOLID :: int where "GR_LINE_SOLID \<equiv> 0"
abbreviation (input) GR_LINE_ONOFF_DASH :: int where "GR_LINE_ONOFF_DASH \<equiv> 1"
abbreviation (input) GR_FILL_SOLID :: int where "GR_FILL_SOLID \<equiv> 0"
abbreviation (input) GR_FILL_STIPPLE :: int where "GR_FILL_STIPPLE \<equiv> 1"
abbreviation (input) GR_FILL_OPAQUE_STIPPLE :: int where "GR_FILL_OPAQUE_STIPPLE \<equiv> 2"
abbreviation (input) GR_FILL_TILE :: int where "GR_FILL_TILE \<equiv> 3"
abbreviation (input) GR_ERROR_BAD_GC_ID :: int where "GR_ERROR_BAD_GC_ID \<equiv> 2"
abbreviation (input) GR_ERROR_BAD_DRAWING_MODE :: int where "GR_ERROR_BAD_DRAWING_MODE \<equiv> 13"
abbreviation (input) GR_ERROR_BAD_LINE_ATTRIBUTE :: int where "GR_ERROR_BAD_LINE_ATTRIBUTE \<equiv> 14"
abbreviation (input) GR_ERROR_BAD_FILL_MODE :: int where "GR_ERROR_BAD_FILL_MODE \<equiv> 15"
type_synonym gc_ptr = nat

record gr_gc =
  gc_id :: nat
  gc_mode :: "32 word"
  gc_alpha :: int
  gc_gradation :: MWGRADATION
  gc_regionid :: nat
  gc_xoff :: MWCOORD
  gc_yoff :: MWCOORD
  gc_fontid :: nat
  gc_foreground :: "32 word"
  gc_background :: "32 word"
  gc_xorcolor :: "32 word"
  gc_fgispixelval :: bool
  gc_bgispixelval :: bool
  gc_usebackground :: bool
  gc_exposure :: bool
  gc_linestyle :: int
  gc_dashmask :: "32 word"
  gc_dashcount :: int
  gc_fillmode :: int
  gc_stipple :: "nat option \<times> MWCOORD \<times> MWCOORD"
  gc_tile :: "surface option \<times> MWCOORD \<times> MWCOORD"
  gc_ts_offset :: "int \<times> int"
  gc_changed :: bool
  gc_owner :: "client_ptr option"

record gr_font =
  f_id :: nat
  f_pfont :: nat

record gc_server = gr_regions +
  gcs :: "gc_ptr \<Rightarrow> gr_gc"
  listgcp :: "gc_ptr list"
  cachegcid :: nat
  cachegcp :: "gc_ptr option"
  nextgcid :: nat
  free_gcs :: "gc_ptr list"
  bitmaps :: "nat \<Rightarrow> 16 word list option"
  free_bitmaps :: "nat list"
  listfontp :: "gr_font list"
  stdfont :: "nat option"

definition upd_gc :: "gc_ptr \<Rightarrow> (gr_gc \<Rightarrow> gr_gc) \<Rightarrow> gc_server \<Rightarrow> gc_server" where
  "upd_gc gp f g = g\<lparr>gcs := (gcs g)(gp := f (gcs g gp))\<rparr>"

definition GsFindGC :: "nat \<Rightarrow> gc_server \<Rightarrow> server \<Rightarrow> (gc_ptr option \<times> gc_server \<times> server) option" where
  "GsFindGC gcid g s =
    (if gcid = cachegcid g \<and> gcid \<noteq> 0 then Some (cachegcp g, g, s)
     else case find (\<lambda>gp. gc_id (gcs g gp) = gcid) (listgcp g) of
       Some gp \<Rightarrow> Some (Some gp, g\<lparr>cachegcid := gcid, cachegcp := Some gp\<rparr>, s)
     | None \<Rightarrow> map_option (\<lambda>s. (None, g, s)) (server_error GR_ERROR_BAD_GC_ID gcid s))"

definition GsFindFont :: "nat \<Rightarrow> gc_server \<Rightarrow> gr_font option" where
  "GsFindFont fontid g = find (\<lambda>f. f_id f = fontid) (listfontp g)"

definition default_gc :: "nat \<Rightarrow> client_ptr option \<Rightarrow> gr_gc" where
  "default_gc ident owner =
    \<lparr>gc_id = ident, gc_mode = 0, gc_alpha = -1, gc_gradation = \<lparr>direction = GRADATION_NONE, start_pos = -1, grad_length = -1\<rparr>,
     gc_regionid = 0, gc_xoff = 0, gc_yoff = 0, gc_fontid = 0, gc_foreground = 0xFFFFFFFF, gc_background = 0xFF000000, gc_xorcolor = 0,
     gc_fgispixelval = False, gc_bgispixelval = False, gc_usebackground = True, gc_exposure = True, gc_linestyle = GR_LINE_SOLID,
     gc_dashmask = 0, gc_dashcount = 0, gc_fillmode = GR_FILL_SOLID, gc_stipple = (None, 0, 0), gc_tile = (None, 0, 0),
     gc_ts_offset = (0, 0), gc_changed = True, gc_owner = owner\<rparr>"

definition add_gc :: "gc_ptr \<Rightarrow> gc_ptr list \<Rightarrow> gr_gc \<Rightarrow> gc_server \<Rightarrow> gc_server" where
  "add_gc gp rest gc g =
    g\<lparr>gcs := (gcs g)(gp := gc), free_gcs := rest, nextgcid := nextgcid g + 1, listgcp := gp # listgcp g\<rparr>"

definition GrNewGC :: "gc_server \<Rightarrow> server \<Rightarrow> (nat \<times> gc_server \<times> server) option" where
  "GrNewGC g s =
    (case free_gcs g of
       [] \<Rightarrow> map_option (\<lambda>s. (0, g, s)) (server_error GR_ERROR_MALLOC_FAILED 0 s)
     | gp # rest \<Rightarrow> Some (nextgcid g, add_gc gp rest (default_gc (nextgcid g) (curclient (evqueues s))) g, s))"

text \<open>\<open>NANOX_FREE\<close> of the bitmap of a stipple.\<close>

definition free_stipple :: "nat option \<Rightarrow> gc_server \<Rightarrow> gc_server option" where
  "free_stipple b g =
    (case b of
       None \<Rightarrow> Some g
     | Some p \<Rightarrow> if bitmaps g p = None then None
                 else Some (g\<lparr>bitmaps := (bitmaps g)(p := None), free_bitmaps := p # free_bitmaps g\<rparr>))"

definition GrDestroyGC :: "nat \<Rightarrow> gc_server \<Rightarrow> server \<Rightarrow> (gc_server \<times> server) option" where
  "GrDestroyGC gc g s =
    Option.bind (GsFindGC gc g s) (\<lambda>(r, g, s).
      case r of
        None \<Rightarrow> Some (g, s)
      | Some gp \<Rightarrow>
          let g = (if gc = cachegcid g then g\<lparr>cachegcid := 0, cachegcp := None\<rparr> else g);
              s = (if curgcp s = Some gp then s\<lparr>curgcp := None\<rparr> else s);
              g = g\<lparr>listgcp := remove1 gp (listgcp g)\<rparr>
          in map_option (\<lambda>g. (g\<lparr>free_gcs := gp # free_gcs g\<rparr>, s)) (free_stipple (fst (gc_stipple (gcs g gp))) g))"

definition GrCopyGC :: "nat \<Rightarrow> gc_server \<Rightarrow> server \<Rightarrow> (nat \<times> gc_server \<times> server) option" where
  "GrCopyGC gc g s =
    Option.bind (GsFindGC gc g s) (\<lambda>(r, g, s).
      case r of
        None \<Rightarrow> Some (0, g, s)
      | Some old \<Rightarrow>
          (case free_gcs g of
             [] \<Rightarrow> map_option (\<lambda>s. (0, g, s)) (server_error GR_ERROR_MALLOC_FAILED 0 s)
           | gp # rest \<Rightarrow>
               Some (nextgcid g, add_gc gp rest ((gcs g old)\<lparr>gc_id := nextgcid g, gc_changed := True,
                 gc_owner := curclient (evqueues s)\<rparr>) g, s)))"

text \<open>
  The operations that set an attribute look up the context and change it.  The change is a function that returns \<open>None\<close> when the
  context is left as it is.
\<close>

definition set_gc :: "nat \<Rightarrow> (gr_gc \<Rightarrow> gr_gc option) \<Rightarrow> gc_server \<Rightarrow> server \<Rightarrow> (gc_server \<times> server) option" where
  "set_gc gc f g s =
    Option.bind (GsFindGC gc g s) (\<lambda>(r, g, s).
      Some (case r of
        None \<Rightarrow> (g, s)
      | Some gp \<Rightarrow> (case f (gcs g gp) of None \<Rightarrow> (g, s) | Some p \<Rightarrow> (upd_gc gp (\<lambda>_. p\<lparr>gc_changed := True\<rparr>) g, s))))"

definition GrSetGCForeground :: "nat \<Rightarrow> 32 word \<Rightarrow> gc_server \<Rightarrow> server \<Rightarrow> (gc_server \<times> server) option" where
  "GrSetGCForeground gc foreground =
    set_gc gc (\<lambda>p. if gc_foreground p \<noteq> foreground \<or> gc_fgispixelval p
      then Some (p\<lparr>gc_foreground := foreground, gc_fgispixelval := False\<rparr>) else None)"

definition GrSetGCBackground :: "nat \<Rightarrow> 32 word \<Rightarrow> gc_server \<Rightarrow> server \<Rightarrow> (gc_server \<times> server) option" where
  "GrSetGCBackground gc background =
    set_gc gc (\<lambda>p. if gc_background p \<noteq> background \<or> gc_bgispixelval p
      then Some (p\<lparr>gc_background := background, gc_bgispixelval := False\<rparr>) else None)"

definition GrSetGCForegroundPixelVal :: "nat \<Rightarrow> 32 word \<Rightarrow> gc_server \<Rightarrow> server \<Rightarrow> (gc_server \<times> server) option" where
  "GrSetGCForegroundPixelVal gc foreground =
    set_gc gc (\<lambda>p. if gc_foreground p \<noteq> foreground \<or> \<not> gc_fgispixelval p
      then Some (p\<lparr>gc_foreground := foreground, gc_fgispixelval := True\<rparr>) else None)"

definition GrSetGCBackgroundPixelVal :: "nat \<Rightarrow> 32 word \<Rightarrow> gc_server \<Rightarrow> server \<Rightarrow> (gc_server \<times> server) option" where
  "GrSetGCBackgroundPixelVal gc background =
    set_gc gc (\<lambda>p. if gc_background p \<noteq> background \<or> \<not> gc_bgispixelval p
      then Some (p\<lparr>gc_background := background, gc_bgispixelval := True\<rparr>) else None)"

definition GrSetGCUseBackground :: "nat \<Rightarrow> bool \<Rightarrow> gc_server \<Rightarrow> server \<Rightarrow> (gc_server \<times> server) option" where
  "GrSetGCUseBackground gc flag =
    set_gc gc (\<lambda>p. if gc_usebackground p \<noteq> flag then Some (p\<lparr>gc_usebackground := flag\<rparr>) else None)"

definition GrSetGCMode :: "nat \<Rightarrow> 32 word \<Rightarrow> gc_server \<Rightarrow> server \<Rightarrow> (gc_server \<times> server) option" where
  "GrSetGCMode gc mode g s =
    Option.bind (GsFindGC gc g s) (\<lambda>(r, g, s).
      case r of
        None \<Rightarrow> Some (g, s)
      | Some gp \<Rightarrow>
          if gc_mode (gcs g gp) = mode then Some (g, s)
          else if mode AND GR_MODE_DRAWMASK > GR_MAX_MODE
          then map_option (Pair g) (server_error GR_ERROR_BAD_DRAWING_MODE gc s)
          else Some (upd_gc gp (\<lambda>p. p\<lparr>gc_mode := mode, gc_changed := True\<rparr>) g, s))"

definition GrSetGCAlpha :: "nat \<Rightarrow> int \<Rightarrow> gc_server \<Rightarrow> server \<Rightarrow> (gc_server \<times> server) option" where
  "GrSetGCAlpha gc alpha =
    (let alpha = (if alpha < 0 then -1 else if alpha > 255 then 255 else alpha)
     in set_gc gc (\<lambda>p. if gc_alpha p \<noteq> alpha then Some (p\<lparr>gc_alpha := alpha\<rparr>) else None))"

definition GrSetGCGradationOption :: "nat \<Rightarrow> int \<Rightarrow> int \<Rightarrow> int \<Rightarrow> gc_server \<Rightarrow> server \<Rightarrow> (gc_server \<times> server) option" where
  "GrSetGCGradationOption gc startpos len dir =
    set_gc gc (\<lambda>p. if start_pos (gc_gradation p) = startpos \<and> grad_length (gc_gradation p) = len \<and> direction (gc_gradation p) = dir then None
      else Some (p\<lparr>gc_gradation := \<lparr>direction = dir, start_pos = startpos, grad_length = len\<rparr>\<rparr>))"

definition GrSetGCXor :: "nat \<Rightarrow> 32 word \<Rightarrow> gc_server \<Rightarrow> server \<Rightarrow> (gc_server \<times> server) option" where
  "GrSetGCXor gc xorcolor = set_gc gc (\<lambda>p. if gc_xorcolor p = xorcolor then None else Some (p\<lparr>gc_xorcolor := xorcolor\<rparr>))"

definition GrSetGCLineAttributes :: "nat \<Rightarrow> int \<Rightarrow> gc_server \<Rightarrow> server \<Rightarrow> (gc_server \<times> server) option" where
  "GrSetGCLineAttributes gc linestyle g s =
    Option.bind (GsFindGC gc g s) (\<lambda>(r, g, s).
      case r of
        None \<Rightarrow> Some (g, s)
      | Some gp \<Rightarrow>
          if linestyle = GR_LINE_SOLID \<or> linestyle = GR_LINE_ONOFF_DASH
          then Some (upd_gc gp (\<lambda>p. p\<lparr>gc_linestyle := linestyle, gc_changed := True\<rparr>) g, s)
          else map_option (Pair g) (server_error GR_ERROR_BAD_LINE_ATTRIBUTE gc s))"

text \<open>The bits of a dash pattern: \<open>dash_run\<close> is the inner loop, \<open>dash_bits\<close> the outer one.\<close>

fun dash_run :: "nat \<Rightarrow> bool \<Rightarrow> 32 word \<Rightarrow> nat \<Rightarrow> 32 word \<times> nat" where
  "dash_run 0 onoff dmask dcount = (dmask, dcount)"
| "dash_run (Suc b) onoff dmask dcount =
    (let dmask = (if onoff then dmask OR push_bit dcount 1 else dmask)
     in if dcount + 1 = 32 then (dmask, dcount + 1) else dash_run b onoff dmask (dcount + 1))"

fun dash_bits :: "int list \<Rightarrow> bool \<Rightarrow> 32 word \<Rightarrow> nat \<Rightarrow> 32 word \<times> nat" where
  "dash_bits [] onoff dmask dcount = (dmask, dcount)"
| "dash_bits (d # ds) onoff dmask dcount =
    (let (dmask, dcount) = dash_run (nat d) onoff dmask dcount
     in if dcount = 32 then (dmask, dcount) else dash_bits ds (\<not> onoff) dmask dcount)"

definition GrSetGCDash :: "nat \<Rightarrow> int list \<Rightarrow> gc_server \<Rightarrow> server \<Rightarrow> (gc_server \<times> server) option" where
  "GrSetGCDash gc dashes =
    (let (dmask, dcount) = dash_bits dashes True 0 0
     in set_gc gc (\<lambda>p. Some (p\<lparr>gc_dashmask := dmask, gc_dashcount := int dcount\<rparr>)))"

definition GrSetGCFillMode :: "nat \<Rightarrow> int \<Rightarrow> gc_server \<Rightarrow> server \<Rightarrow> (gc_server \<times> server) option" where
  "GrSetGCFillMode gc fillmode g s =
    Option.bind (GsFindGC gc g s) (\<lambda>(r, g, s).
      case r of
        None \<Rightarrow> Some (g, s)
      | Some gp \<Rightarrow>
          if fillmode \<in> {GR_FILL_SOLID, GR_FILL_STIPPLE, GR_FILL_OPAQUE_STIPPLE, GR_FILL_TILE}
          then Some (upd_gc gp (\<lambda>p. p\<lparr>gc_fillmode := fillmode, gc_changed := True\<rparr>) g, s)
          else map_option (Pair g) (server_error GR_ERROR_BAD_FILL_MODE gc s))"

text \<open>\<open>MWIMAGE_SIZE\<close>: the number of words of a bitmap.\<close>

definition MWIMAGE_SIZE :: "int \<Rightarrow> int \<Rightarrow> int" where
  "MWIMAGE_SIZE width height = height * ((width + 15) div 16)"

text \<open>
  The result of the allocation is not tested: copying to a null pointer, past the end of the given bitmap or with a negative size is
  \<open>None\<close>.
\<close>

definition GrSetGCStipple ::
  "nat \<Rightarrow> 16 word list option \<Rightarrow> MWCOORD \<Rightarrow> MWCOORD \<Rightarrow> gc_server \<Rightarrow> server \<Rightarrow> (gc_server \<times> server) option" where
  "GrSetGCStipple gc bitmap width height g s =
    Option.bind (GsFindGC gc g s) (\<lambda>(r, g, s).
      case r of
        None \<Rightarrow> Some (g, s)
      | Some gp \<Rightarrow> do {
          g \<leftarrow> free_stipple (fst (gc_stipple (gcs g gp))) g;
          (case bitmap of
             None \<Rightarrow> Some (upd_gc gp (\<lambda>p. p\<lparr>gc_stipple := (None, 0, 0), gc_changed := True\<rparr>) g, s)
           | Some bits \<Rightarrow>
               (case free_bitmaps g of
                  [] \<Rightarrow> None
                | b # rest \<Rightarrow>
                    let size = MWIMAGE_SIZE width height
                    in if width < 0 \<or> height < 0 \<or> int (length bits) < size then None
                       else Some (upd_gc gp (\<lambda>p. p\<lparr>gc_stipple := (Some b, width, height), gc_changed := True\<rparr>)
                         (g\<lparr>bitmaps := (bitmaps g)(b := Some (take (nat size) bits)), free_bitmaps := rest\<rparr>), s)))
        })"

definition GrSetGCTile :: "nat \<Rightarrow> GR_WINDOW_ID \<Rightarrow> MWCOORD \<Rightarrow> MWCOORD \<Rightarrow> gc_server \<Rightarrow> server \<Rightarrow> (gc_server \<times> server) option" where
  "GrSetGCTile gc pixmap width height g s =
    Option.bind (GsFindGC gc g s) (\<lambda>(r, g, s).
      case r of
        None \<Rightarrow> Some (g, s)
      | Some gp \<Rightarrow>
          if pixmap = 0 then Some (upd_gc gp (\<lambda>p. p\<lparr>gc_tile := (None, 0, 0), gc_changed := True\<rparr>) g, s)
          else do {
            (r, s) \<leftarrow> GsFindWindow pixmap s;
            (case r of
               Some w \<Rightarrow> Some (upd_gc gp (\<lambda>p. p\<lparr>gc_tile := (Some ScreenSurface, width, height), gc_changed := True\<rparr>) g, s)
             | None \<Rightarrow> do {
                 (r, s) \<leftarrow> GsFindPixmap pixmap s;
                 Some (upd_gc gp (\<lambda>p. p\<lparr>gc_tile := (case r of None \<Rightarrow> (None, 0, 0)
                   | Some pm \<Rightarrow> (Some (PixmapSurface pm), width, height)), gc_changed := True\<rparr>) g, s)
               })
          })"

definition GrSetGCTSOffset :: "nat \<Rightarrow> MWCOORD \<Rightarrow> MWCOORD \<Rightarrow> gc_server \<Rightarrow> server \<Rightarrow> (gc_server \<times> server) option" where
  "GrSetGCTSOffset gc xoff yoff = set_gc gc (\<lambda>p. Some (p\<lparr>gc_ts_offset := (xoff, yoff)\<rparr>))"

definition GrSetGCGraphicsExposure :: "nat \<Rightarrow> bool \<Rightarrow> gc_server \<Rightarrow> server \<Rightarrow> (gc_server \<times> server) option" where
  "GrSetGCGraphicsExposure gc exposure = set_gc gc (\<lambda>p. Some (p\<lparr>gc_exposure := exposure\<rparr>))"

definition GrSetGCFont :: "nat \<Rightarrow> nat \<Rightarrow> gc_server \<Rightarrow> server \<Rightarrow> (gc_server \<times> server) option" where
  "GrSetGCFont gc font = set_gc gc (\<lambda>p. if gc_fontid p \<noteq> font then Some (p\<lparr>gc_fontid := font\<rparr>) else None)"

definition GrGetGCFont :: "nat \<Rightarrow> gc_server \<Rightarrow> server \<Rightarrow> (nat \<times> gc_server \<times> server) option" where
  "GrGetGCFont gc g s =
    Option.bind (GsFindGC gc g s) (\<lambda>(r, g, s). Some (case r of None \<Rightarrow> 0 | Some gp \<Rightarrow> gc_fontid (gcs g gp), g, s))"

definition GrSetGCRegion :: "nat \<Rightarrow> nat \<Rightarrow> gc_server \<Rightarrow> server \<Rightarrow> (gc_server \<times> server) option" where
  "GrSetGCRegion gc region = set_gc gc (\<lambda>p. Some (p\<lparr>gc_regionid := region\<rparr>))"

definition GrSetGCClipOrigin :: "nat \<Rightarrow> int \<Rightarrow> int \<Rightarrow> gc_server \<Rightarrow> server \<Rightarrow> (gc_server \<times> server) option" where
  "GrSetGCClipOrigin gc xoff yoff = set_gc gc (\<lambda>p. Some (p\<lparr>gc_xoff := xoff, gc_yoff := yoff\<rparr>))"

section \<open>Preparing a drawing\<close>

text \<open>The region of a context, if it has one, as \<open>regionp->rgn\<close>, which may be a null pointer.\<close>

definition user_region :: "gr_gc \<Rightarrow> gc_server \<Rightarrow> MWCLIPREGION option option" where
  "user_region gc g =
    (if gc_regionid gc = 0 then None
     else map_option (\<lambda>regionp. map_option (rgns g) (r_rgn regionp)) (GsFindRegion (gc_regionid gc) g))"

text \<open>The calls that hand a context to the engine.\<close>

definition gc_calls :: "gr_gc \<Rightarrow> gc_server \<Rightarrow> engine_call list option" where
  "gc_calls gc g =
    (let (b, width, height) = gc_stipple gc; (psd, twidth, theight) = gc_tile gc
     in do {
       fill \<leftarrow> (if gc_fillmode gc = GR_FILL_STIPPLE \<or> gc_fillmode gc = GR_FILL_OPAQUE_STIPPLE
          then (case b of
              None \<Rightarrow> Some [CallSetStippleBitmap None width height]
            | Some p \<Rightarrow> map_option (\<lambda>bits. [CallSetStippleBitmap (Some bits) width height]) (bitmaps g p))
          else Some (if gc_fillmode gc = GR_FILL_TILE then [CallSetTilePixmap psd twidth theight] else []));
       Some ([if gc_fgispixelval gc then CallSetForegroundPixelVal (gc_foreground gc) else CallSetForegroundColor (gc_foreground gc),
              if gc_bgispixelval gc then CallSetBackgroundPixelVal (gc_background gc) else CallSetBackgroundColor (gc_background gc),
              CallSetMode (uint (gc_mode gc AND GR_MODE_DRAWMASK)), CallSetGlobalAlpha (gc_alpha gc),
              CallSetGradationOption (gc_gradation gc), CallSetXorColor (gc_xorcolor gc), CallSetUseBackground (gc_usebackground gc),
              CallSetDash (Some (if gc_linestyle gc = GR_LINE_SOLID then (0, 0) else (gc_dashmask gc, gc_dashcount gc))),
              CallSetFillMode (gc_fillmode gc), CallSetTSOffset (fst (gc_ts_offset gc)) (snd (gc_ts_offset gc))]
             @ fill @ [CallSetFont (case GsFindFont (gc_fontid gc) g of None \<Rightarrow> stdfont g | Some f \<Rightarrow> Some (f_pfont f))])
     })"

text \<open>The gradation of a context is moved to the window's place, in the context itself.\<close>

definition move_gradation :: "gr_window \<Rightarrow> gr_gc \<Rightarrow> gr_gc" where
  "move_gradation w gc =
    (let gr = gc_gradation gc;
         gr = (if direction gr = GRADATION_UP \<or> direction gr = GRADATION_DOWN then gr\<lparr>start_pos := start_pos gr + w_y w\<rparr> else gr);
         gr = (if direction gr = GRADATION_LEFT \<or> direction gr = GRADATION_RIGHT then gr\<lparr>start_pos := start_pos gr + w_x w\<rparr> else gr)
     in gc\<lparr>gc_gradation := gr\<rparr>)"

datatype drawable = DrawableWindow win_ptr | DrawablePixmap pixmap_ptr

text \<open>The last part of \<open>GsPrepareDrawing\<close>: a changed context is handed to the engine.\<close>

definition enable_gc :: "gc_ptr \<Rightarrow> drawable \<Rightarrow> gc_server \<Rightarrow> server \<Rightarrow> (drawable option \<times> gc_server \<times> server) option" where
  "enable_gc gp dp g s =
    (if \<not> gc_changed (gcs g gp) then Some (Some dp, g, s)
     else
       let g = (case dp of DrawableWindow wp \<Rightarrow> upd_gc gp (move_gradation (win s wp)) g | _ \<Rightarrow> g)
       in map_option (\<lambda>cs. (Some dp, upd_gc gp (\<lambda>p. p\<lparr>gc_changed := False\<rparr>) g, engine cs s)) (gc_calls (gcs g gp) g))"

definition clip_pixmap :: "gr_gc \<Rightarrow> gc_server \<Rightarrow> pixmap_ptr \<Rightarrow> server \<Rightarrow> server option" where
  "clip_pixmap gc g pp s =
    (let reg = GdAllocRectRegion 0 0 (p_width (pixmaps s pp)) (p_height (pixmaps s pp))
     in map_option (\<lambda>reg. s\<lparr>eng_clip := GdSetClipRegion (Some reg) (eng_clip s), clipwp := None\<rparr>)
       (case user_region gc g of
          None \<Rightarrow> Some reg
        | Some rgn \<Rightarrow> map_option (intersect_region reg) rgn))"

definition clip_window :: "MWCOORD \<Rightarrow> gr_gc \<Rightarrow> gc_server \<Rightarrow> win_ptr \<Rightarrow> server \<Rightarrow> server option" where
  "clip_window beyond gc g wp s =
    (let clip = (\<lambda>r. GsSetClipWindow beyond wp r (gc_mode gc AND NOT GR_MODE_DRAWMASK AND GR_MODE_EXCLUDECHILDREN \<noteq> 0) s)
     in if Some wp \<noteq> clipwp s \<or> gc_changed gc
     then (case user_region gc g of
         None \<Rightarrow> clip None
       | Some rgn \<Rightarrow>
           if gc_xoff gc \<noteq> 0 \<or> gc_yoff gc \<noteq> 0
           then Option.bind rgn (\<lambda>rgn. clip (Some (GdOffsetRegion (copy_region GdAllocRegion rgn) (gc_xoff gc) (gc_yoff gc))))
           else clip rgn)
     else Some s)"

definition GsPrepareDrawing ::
  "MWCOORD \<Rightarrow> GR_WINDOW_ID \<Rightarrow> nat \<Rightarrow> gc_server \<Rightarrow> server \<Rightarrow> (drawable option \<times> gc_server \<times> server) option" where
  "GsPrepareDrawing beyond ident gcid g s =
    Option.bind (GsFindGC gcid g s) (\<lambda>(r, g, s).
      case r of
        None \<Rightarrow> Some (None, g, s)
      | Some gp \<Rightarrow> do {
          let (g, s) = (if curgcp s \<noteq> Some gp
            then (upd_gc gp (\<lambda>p. p\<lparr>gc_changed := True\<rparr>) g, s\<lparr>curgcp := Some gp\<rparr>) else (g, s));
          (r, s) \<leftarrow> GsFindWindow ident s;
          (case r of
             None \<Rightarrow> do {
               (r, s) \<leftarrow> GsFindPixmap ident s;
               (case r of
                  None \<Rightarrow> Some (None, g, s)
                | Some pp \<Rightarrow> Option.bind (clip_pixmap (gcs g gp) g pp s) (enable_gc gp (DrawablePixmap pp) g))
             }
           | Some wp \<Rightarrow>
               if \<not> w_output (win s wp) then map_option (\<lambda>s. (None, g, s)) (server_error GR_ERROR_INPUT_ONLY_WINDOW ident s)
               else if \<not> w_realized (win s wp) then Some (None, g, s)
               else Option.bind (clip_window beyond (gcs g gp) g wp s) (enable_gc gp (DrawableWindow wp) g))
        })"

section \<open>Drawing requests\<close>

text \<open>The place \<open>dp->x\<close>, \<open>dp->y\<close> of a drawable; it is zero for a pixmap.\<close>

definition dp_x :: "drawable \<Rightarrow> server \<Rightarrow> MWCOORD" where
  "dp_x dp s = (case dp of DrawableWindow wp \<Rightarrow> w_x (win s wp) | DrawablePixmap pp \<Rightarrow> 0)"

definition dp_y :: "drawable \<Rightarrow> server \<Rightarrow> MWCOORD" where
  "dp_y dp s = (case dp of DrawableWindow wp \<Rightarrow> w_y (win s wp) | DrawablePixmap pp \<Rightarrow> 0)"

definition draw_on :: "drawable \<Rightarrow> draw_call list \<Rightarrow> server \<Rightarrow> server" where
  "draw_on dp ds s =
    (case dp of
       DrawableWindow wp \<Rightarrow> add_draws ds s
     | DrawablePixmap pp \<Rightarrow> engine (map (CallDrawPixmap pp (clip_state.clipregion (eng_clip s))) ds) s)"

text \<open>The frame of the requests: the drawing calls may depend on the place of the drawable.\<close>

definition request ::
  "MWCOORD \<Rightarrow> GR_WINDOW_ID \<Rightarrow> nat \<Rightarrow> (MWCOORD \<Rightarrow> MWCOORD \<Rightarrow> draw_call list) \<Rightarrow> gc_server \<Rightarrow> server \<Rightarrow> (gc_server \<times> server) option" where
  "request beyond ident gc f g s =
    map_option (\<lambda>(r, g, s). case r of None \<Rightarrow> (g, s) | Some dp \<Rightarrow> (g, draw_on dp (f (dp_x dp s) (dp_y dp s)) s))
      (GsPrepareDrawing beyond ident gc g s)"

abbreviation (input) MIN_COORD :: int where "MIN_COORD \<equiv> -32768"
abbreviation (input) MAX_COORD :: int where "MAX_COORD \<equiv> 32767"

text \<open>The third test looks at \<open>x1\<close>, which the first has already brought into its range.\<close>

definition line_call :: "MWCOORD \<Rightarrow> MWCOORD \<Rightarrow> MWCOORD \<Rightarrow> MWCOORD \<Rightarrow> MWCOORD \<Rightarrow> MWCOORD \<Rightarrow> draw_call" where
  "line_call x1 y1 x2 y2 dx dy =
    (let x1 = (if x1 > MAX_COORD then MAX_COORD else if x1 < MIN_COORD then MIN_COORD else x1);
         y1 = (if y1 > MAX_COORD then MAX_COORD else if y1 < MIN_COORD then MIN_COORD else y1);
         x2 = (if x2 > MAX_COORD then MAX_COORD else if x1 < MIN_COORD then MIN_COORD else x2);
         y2 = (if y2 > MAX_COORD then MAX_COORD else if y2 < MIN_COORD then MIN_COORD else y2)
     in DrawLine (dx + x1) (dy + y1) (dx + x2) (dy + y2) True)"

definition GrLine ::
  "MWCOORD \<Rightarrow> GR_WINDOW_ID \<Rightarrow> nat \<Rightarrow> MWCOORD \<Rightarrow> MWCOORD \<Rightarrow> MWCOORD \<Rightarrow> MWCOORD \<Rightarrow> gc_server \<Rightarrow> server \<Rightarrow> (gc_server \<times> server) option" where
  "GrLine beyond ident gc x1 y1 x2 y2 = request beyond ident gc (\<lambda>dx dy. [line_call x1 y1 x2 y2 dx dy])"

definition GrRect ::
  "MWCOORD \<Rightarrow> GR_WINDOW_ID \<Rightarrow> nat \<Rightarrow> MWCOORD \<Rightarrow> MWCOORD \<Rightarrow> MWCOORD \<Rightarrow> MWCOORD \<Rightarrow> gc_server \<Rightarrow> server \<Rightarrow> (gc_server \<times> server) option" where
  "GrRect beyond ident gc x y width height = request beyond ident gc (\<lambda>dx dy. [DrawRect (dx + x) (dy + y) width height])"

definition GrFillRect ::
  "MWCOORD \<Rightarrow> GR_WINDOW_ID \<Rightarrow> nat \<Rightarrow> MWCOORD \<Rightarrow> MWCOORD \<Rightarrow> MWCOORD \<Rightarrow> MWCOORD \<Rightarrow> gc_server \<Rightarrow> server \<Rightarrow> (gc_server \<times> server) option" where
  "GrFillRect beyond ident gc x y width height = request beyond ident gc (\<lambda>dx dy. [DrawFillRect (dx + x) (dy + y) width height])"

definition GrBitmap ::
  "MWCOORD \<Rightarrow> GR_WINDOW_ID \<Rightarrow> nat \<Rightarrow> MWCOORD \<Rightarrow> MWCOORD \<Rightarrow> MWCOORD \<Rightarrow> MWCOORD \<Rightarrow> 16 word list \<Rightarrow> gc_server \<Rightarrow> server \<Rightarrow>
   (gc_server \<times> server) option" where
  "GrBitmap beyond ident gc x y width height imagebits =
    request beyond ident gc (\<lambda>dx dy. [DrawBitmap (dx + x) (dy + y) width height imagebits])"

definition GrPoint :: "MWCOORD \<Rightarrow> GR_WINDOW_ID \<Rightarrow> nat \<Rightarrow> MWCOORD \<Rightarrow> MWCOORD \<Rightarrow> gc_server \<Rightarrow> server \<Rightarrow> (gc_server \<times> server) option" where
  "GrPoint beyond ident gc x y = request beyond ident gc (\<lambda>dx dy. [DrawPoint (dx + x) (dy + y)])"

definition GrPoints ::
  "MWCOORD \<Rightarrow> GR_WINDOW_ID \<Rightarrow> nat \<Rightarrow> (MWCOORD \<times> MWCOORD) list \<Rightarrow> gc_server \<Rightarrow> server \<Rightarrow> (gc_server \<times> server) option" where
  "GrPoints beyond ident gc pointtable = request beyond ident gc (\<lambda>dx dy. map (\<lambda>(x, y). DrawPoint (x + dx) (y + dy)) pointtable)"

definition clamp_point :: "MWCOORD \<Rightarrow> MWCOORD \<Rightarrow> MWCOORD \<times> MWCOORD \<Rightarrow> MWCOORD \<times> MWCOORD" where
  "clamp_point dx dy p =
    ((if fst p > MAX_COORD then MAX_COORD else if fst p < MIN_COORD then MIN_COORD else fst p) + dx,
     (if snd p > MAX_COORD then MAX_COORD else if snd p < MIN_COORD then MIN_COORD else snd p) + dy)"

text \<open>The flag says whether there is memory for the moved points.\<close>

definition GrPoly ::
  "MWCOORD \<Rightarrow> bool \<Rightarrow> GR_WINDOW_ID \<Rightarrow> nat \<Rightarrow> (MWCOORD \<times> MWCOORD) list \<Rightarrow> gc_server \<Rightarrow> server \<Rightarrow> (gc_server \<times> server) option" where
  "GrPoly beyond mem ident gc pointtable =
    request beyond ident gc (\<lambda>dx dy. if mem then [DrawPoly (map (clamp_point dx dy) pointtable)] else [])"

definition GrFillPoly ::
  "MWCOORD \<Rightarrow> bool \<Rightarrow> GR_WINDOW_ID \<Rightarrow> nat \<Rightarrow> (MWCOORD \<times> MWCOORD) list \<Rightarrow> gc_server \<Rightarrow> server \<Rightarrow> (gc_server \<times> server) option" where
  "GrFillPoly beyond mem ident gc pointtable =
    request beyond ident gc (\<lambda>dx dy. if mem then [DrawFillPoly (map (clamp_point dx dy) pointtable)] else [])"

section \<open>Fonts\<close>

text \<open>\<open>GrDestroyFont\<close>; \<open>GdDestroyFont\<close> is part of the font drivers.\<close>

definition GrDestroyFont :: "nat \<Rightarrow> gc_server \<Rightarrow> server \<Rightarrow> gc_server \<times> server" where
  "GrDestroyFont fontid g s =
    (case GsFindFont fontid g of
       None \<Rightarrow> (g, s)
     | Some f \<Rightarrow>
         (g\<lparr>listfontp := remove1 f (listfontp g)\<rparr>,
          if gr_pfont (settings s) = Some (f_pfont f) then engine [CallSetFont None] s else s))"

end
