(* ===== verification/Gc_Quiet.thy ===== *)
theory Gc_Quiet
  imports Gc_Model Wop_Props
begin

text \<open>
  The window operations and the settings of the engine.  The server believes that the engine has the settings of the context
  \<open>curgcp\<close>; an operation that tells other settings to the engine sets \<open>curgcp\<close> to a null pointer.  \<open>quietly s r\<close> is the judgement
  about one operation, with a rule for each construct; the recursive functions are treated by fixed-point induction.
\<close>

section \<open>The judgement\<close>

definition quiet :: "server \<Rightarrow> server \<Rightarrow> bool" where
  "quiet s s' \<longleftrightarrow> curgcp s' = None \<or> curgcp s' = curgcp s \<and> settings s' = settings s"

definition quietly :: "server \<Rightarrow> server option \<Rightarrow> bool" where
  "quietly s r \<longleftrightarrow> (\<forall>s'. r = Some s' \<longrightarrow> quiet s s')"

definition quietly_pair :: "server \<Rightarrow> ('a \<times> server) option \<Rightarrow> bool" where
  "quietly_pair s r \<longleftrightarrow> (\<forall>x s'. r = Some (x, s') \<longrightarrow> quiet s s')"

named_theorems quiets

lemma quiet_refl [simp]: "quiet s s"
  by (simp add: quiet_def)

lemma quiet_trans: "quiet s s1 \<Longrightarrow> quiet s1 s2 \<Longrightarrow> quiet s s2"
  by (auto simp: quiet_def)

lemma settings_engine: "settings (engine cs s) = fold apply_call cs (settings s)"
  by (simp add: settings_def engine_def)

lemma curgcp_engine [simp]: "curgcp (engine cs s) = curgcp s"
  by (simp add: engine_def)

text \<open>Calls that leave the settings alone.\<close>

lemma fold_neutral: "(\<And>c. c \<in> set cs \<Longrightarrow> apply_call c = id) \<Longrightarrow> fold apply_call cs d = d"
  by (induction cs arbitrary: d) auto

lemma neutral_calls [simp]:
  "apply_call (CallMoveCursor x y) = id" "apply_call (CallSetCursor cp) = id" "apply_call (CallMoveMouse x y) = id"
  "apply_call (CallDraw rgn d) = id" "apply_call (CallDrawPixmap pp rgn d) = id"
  by auto

lemma settings_draws [simp]: "settings (add_draws ds s) = settings s"
  unfolding add_draws_def settings_engine by (rule fold_neutral) auto

lemma curgcp_draws [simp]: "curgcp (add_draws ds s) = curgcp s"
  by (simp add: add_draws_def)

lemma quiet_same: "curgcp s' = curgcp s \<Longrightarrow> engine_calls s' = engine_calls s \<Longrightarrow> quiet s s'"
  by (simp add: quiet_def settings_def)

lemma quiet_off: "curgcp s' = None \<Longrightarrow> quiet s s'"
  by (simp add: quiet_def)

lemma quietly_None [quiets, simp]: "quietly s None"
  by (simp add: quietly_def)

lemma quietly_Some: "quietly s (Some s') \<longleftrightarrow> quiet s s'"
  by (simp add: quietly_def)

lemma quietly_done [quiets, simp]: "quietly s (Some s)"
  by (simp add: quietly_def)

lemma quietly_bind [quiets]: "quietly s r \<Longrightarrow> (\<And>s1. quietly s1 (f s1)) \<Longrightarrow> quietly s (Option.bind r f)"
  by (cases r) (auto simp: quietly_def intro: quiet_trans)

lemma quietly_first: "quiet s s1 \<Longrightarrow> quietly s1 r \<Longrightarrow> quietly s r"
  by (auto simp: quietly_def intro: quiet_trans)

lemma quietly_bind_pair [quiets]:
  "quietly_pair s r \<Longrightarrow> (\<And>x s1. quietly s1 (f (x, s1))) \<Longrightarrow> quietly s (Option.bind r f)"
  by (cases r) (auto simp: quietly_def quietly_pair_def intro: quiet_trans)

lemma quietly_value [quiets]: "(\<And>x. quietly s (f x)) \<Longrightarrow> quietly s (Option.bind r f)"
  by (cases r) simp_all

lemma quietly_if [quiets]: "(b \<Longrightarrow> quietly s r) \<Longrightarrow> (\<not> b \<Longrightarrow> quietly s r') \<Longrightarrow> quietly s (if b then r else r')"
  by simp

lemma quietly_option [quiets]:
  "(x = None \<Longrightarrow> quietly s r) \<Longrightarrow> (\<And>y. x = Some y \<Longrightarrow> quietly s (f y)) \<Longrightarrow> quietly s (case x of None \<Rightarrow> r | Some y \<Rightarrow> f y)"
  by (cases x) simp_all

lemma quietly_map: "(\<And>y. quiet s (f y)) \<Longrightarrow> quietly s (map_option f r)"
  by (auto simp: quietly_def)

lemma quietly_map_quiet: "quietly s r \<Longrightarrow> (\<And>s1. quiet s1 (f s1)) \<Longrightarrow> quietly s (map_option f r)"
  unfolding quietly_def by (auto intro: quiet_trans)

text \<open>Changes of other fields.\<close>

lemma quiet_fields [simp]:
  "quiet s (s\<lparr>clipwp := a\<rparr>)" "quiet s (s\<lparr>eng_clip := b\<rparr>)" "quiet s (s\<lparr>evqueues := c\<rparr>)" "quiet s (upd_win wp f s)"
  "quiet s (s\<lparr>focuswp := d\<rparr>)" "quiet s (s\<lparr>mousewp := e\<rparr>)" "quiet s (s\<lparr>focusfixed := h\<rparr>)" "quiet s (s\<lparr>selection_wid := i\<rparr>)"
  "quiet s (s\<lparr>listpp := j\<rparr>)" "quiet s (s\<lparr>pixmaps := k\<rparr>)" "quiet s (s\<lparr>cachepixmapid := l, cachepp := m\<rparr>)"
  "quiet s (s\<lparr>listwp := n\<rparr>)" "quiet s (s\<lparr>curgcp := None\<rparr>)" "quiet s (s\<lparr>cachewindowid := l, cachewp := a\<rparr>)"
  "quiet s (s\<lparr>free_windows := q, list_grabbed_keys := r\<rparr>)" "quiet s (s\<lparr>grabbuttonwp := a\<rparr>)"
  "quiet s (s\<lparr>clipwp := a, eng_clip := b\<rparr>)"
  by (rule quiet_same quiet_off; simp add: upd_win_def)+

lemma quiet_engine: "(\<And>c. c \<in> set cs \<Longrightarrow> apply_call c = id) \<Longrightarrow> quiet s (engine cs s)"
  by (simp add: quiet_def settings_engine fold_neutral)

lemma quiet_upd [simp]: "quiet s (upd_win wp f s') \<longleftrightarrow> quiet s s'" "quiet s (s'\<lparr>clipwp := a\<rparr>) \<longleftrightarrow> quiet s s'"
  by (simp_all add: quiet_def upd_win_def settings_def)

lemma quietly_at: "quietly s1 r \<Longrightarrow> quiet s s1 \<Longrightarrow> quietly s r"
  by (rule quietly_first)

section \<open>Searching and events\<close>

lemma quiet_find_window [quiets]: "quietly_pair s (GsFindWindow ident s)"
  unfolding quietly_pair_def GsFindWindow_def
  by (auto simp: bind_eq_Some_conv split: if_splits option.splits)

lemma quiet_find_pixmap [quiets]: "quietly_pair s (GsFindPixmap ident s)"
  unfolding quietly_pair_def GsFindPixmap_def
  by (auto simp: bind_eq_Some_conv split: if_splits option.splits)

lemma quiet_server_error [quiets]: "quietly s (server_error code ident s)"
  unfolding server_error_def by (rule quietly_map) simp

lemma quiet_exposure [quiets]: "quietly s (GsDeliverExposureEvent wp x y width height s)"
  unfolding GsDeliverExposureEvent_def Let_def by (intro quiets quietly_map) simp

lemma quiet_update [simp]: "quiet s (GsDeliverUpdateEvent wp utype x y width height s)"
  unfolding GsDeliverUpdateEvent_def Let_def by (rule quiet_same) (simp_all split: prod.split option.split)

lemma quiet_update_event [simp]: "quiet s (update_event wp utype s)"
  unfolding update_event_def Let_def by simp

lemma quiet_general [simp]: "quiet s (GsDeliverGeneralEvent wp type other s)"
  unfolding GsDeliverGeneralEvent_def Let_def by simp

lemma quiet_activate [quiets]: "quietly s (GsWpNotifyActivate wp s)"
  unfolding GsWpNotifyActivate_def by (intro quietly_value) (simp add: quietly_Some)

lemma quiet_set_focus [quiets]: "quietly s (GsWpSetFocus wp s)"
proof -
  have *: "quietly s1 (let oldfocus = focuswp s1; s' = s1\<lparr>focuswp := wp\<rparr>
      in GsWpNotifyActivate (focuswp s') (GsDeliverGeneralEvent wp FOCUS_IN (Some oldfocus) s'))" for s1
    unfolding Let_def by (rule quietly_first [OF quiet_trans quiet_activate]) (rule quiet_fields(5), rule quiet_general)
  show ?thesis unfolding GsWpSetFocus_def
    by (intro quietly_if quietly_done quietly_bind *) (rule quietly_first [OF quiet_general quiet_activate])
qed

lemma quiet_check_focus [quiets]: "quietly s (GsCheckFocusWindow s)"
  unfolding GsCheckFocusWindow_def by (intro quietly_if quietly_done quietly_value quiet_set_focus)

lemma quiet_check_mouse [quiets]: "quietly s (GsCheckMouseWindow s)"
  unfolding GsCheckMouseWindow_def Let_def quietly_Some
  by (intro quietly_value quietly_if quietly_done)
    (simp only: quietly_Some, rule quiet_trans [OF quiet_trans [OF quiet_general quiet_fields(6)] quiet_general])

lemma quiet_check_cursor [simp]: "quiet s (GsCheckCursor s)"
  by (simp add: GsCheckCursor_def quiet_def settings_def Let_def)

section \<open>Drawing and exposing\<close>

lemma quiet_clip [quiets]: "quietly s (GsSetClipWindow beyond wp r excl s)"
  unfolding GsSetClipWindow_def Let_def
  by (intro quietly_if quietly_done quietly_value) (auto simp: quietly_def bind_eq_Some_conv Let_def split: if_splits prod.splits)

lemma quietly_off: "(\<And>s'. r = Some s' \<Longrightarrow> curgcp s' = None) \<Longrightarrow> quietly s r"
  by (simp add: quietly_def quiet_def)

lemma quietly_then_off: "(\<And>s1 s'. f s1 = Some s' \<Longrightarrow> curgcp s' = None) \<Longrightarrow> quietly s (Option.bind r f)"
  by (rule quietly_off) (auto simp: bind_eq_Some_conv)

lemma exposure_curgcp: "GsDeliverExposureEvent wp x y width height s = Some s' \<Longrightarrow> curgcp s' = curgcp s"
  by (auto simp: GsDeliverExposureEvent_def Let_def split: if_splits)

lemma quiet_clear [quiets]: "quietly s (GsWpClearWindow beyond wp x y width height exposeflag s)"
  unfolding GsWpClearWindow_def Let_def case_prod_unfold
  by (intro quietly_if quietly_done quietly_then_off)
    (auto simp: bind_eq_Some_conv dest!: exposure_curgcp split: if_splits option.splits)

lemma quiet_border [quiets]: "quietly s (GsDrawBorder beyond wp s)"
  unfolding GsDrawBorder_def Let_def
  by (intro quietly_if quietly_done quietly_then_off) (auto simp: upd_win_def)

lemma quiet_expose_window [quiets]: "quietly s (expose_window beyond wp rootx rooty width height s)"
  unfolding expose_window_def Let_def by (intro quiets)

lemma quiet_expose_windows [quiets]: "quietly s (expose_windows beyond rootx rooty width height stopwp later wp s)"
proof -
  have "quiet s s'" if "expose_windows beyond rootx rooty width height stopwp later wp s = Some s'" for s'
  proof (rule expose_windows.raw_induct [where P = "\<lambda>beyond rootx rooty width height stopwp later wp s s'. quiet s s'", OF _ that], goal_cases)
    case (1 f beyond rootx rooty width height stopwp later wp s s')
    have f: "quietly s1 (f beyond rootx rooty width height stopwp b v s1)" for b v s1
      using 1(1) by (simp add: quietly_def)
    have "quietly s (Some s')" unfolding 1(2) [symmetric] by (intro quiets f)
    then show ?case by (simp add: quietly_Some)
  qed
  then show ?thesis by (simp add: quietly_def)
qed

lemma quiet_expose_area [quiets]: "quietly s (GsExposeArea beyond wp rootx rooty width height stopwp s)"
  unfolding GsExposeArea_def by (rule quiet_expose_windows)

lemma quiet_expose_lower [quiets]: "quietly s (expose_lower beyond x y width height sibwp s)"
proof -
  have "quiet s s'" if "expose_lower beyond x y width height sibwp s = Some s'" for s'
  proof (rule expose_lower.raw_induct [where P = "\<lambda>beyond x y width height sibwp s s'. quiet s s'"
      and xa = "((((((beyond, x), y), width), height), sibwp), s)", unfolded prod.case, OF _ that], goal_cases)
    case (1 f beyond x y width height sibwp s s')
    have f: "quietly s1 (f beyond x y width height v s1)" for v s1
      using 1(1) by (simp add: quietly_def)
    have "quietly s (Some s')" unfolding 1(2) [symmetric] by (intro quiets f)
    then show ?case by (simp add: quietly_Some)
  qed
  then show ?thesis by (simp add: quietly_def)
qed

lemma quiet_expose_covered [quiets]: "quietly s (expose_covered beyond wp expwp s)"
proof -
  have "quiet s s'" if "expose_covered beyond wp expwp s = Some s'" for s'
  proof (rule expose_covered.raw_induct [where P = "\<lambda>beyond wp expwp s s'. quiet s s'", OF _ that], goal_cases)
    case (1 f beyond wp expwp s s')
    have f: "quietly s1 (f beyond wp v s1)" for v s1 using 1(1) by (simp add: quietly_def)
    have "quietly s (Some s')" unfolding 1(2) [symmetric] by (intro quiets f)
    then show ?case by (simp add: quietly_Some)
  qed
  then show ?thesis by (simp add: quietly_def)
qed

section \<open>Realizing and unrealizing\<close>

lemma quiet_uncover [quiets]: "quietly s (uncover beyond wp s)"
  unfolding uncover_def Let_def by (intro quiets)

lemma quiet_unrealize_rest: "quietly s (unrealize_rest beyond temp_unmap wp s)"
  unfolding unrealize_rest_def
  by (intro quiets quietly_map_quiet quiet_check_cursor quietly_first [OF quiet_update quiet_uncover]
      quietly_first [OF quiet_fields(7) quiet_check_focus]) (simp add: quietly_Some)

lemma quiet_unrealize_windows [quiets]: "quietly s (unrealize_windows beyond temp_unmap later wp s)"
proof -
  have "quiet s s'" if "unrealize_windows beyond temp_unmap later wp s = Some s'" for s'
  proof (rule unrealize_windows.raw_induct [where P = "\<lambda>beyond temp_unmap later wp s s'. quiet s s'", OF _ that], goal_cases)
    case (1 f beyond temp_unmap later wp s s')
    have f: "quietly s1 (f beyond temp_unmap b v s1)" for b v s1 using 1(1) by (simp add: quietly_def)
    have g: "quiet s1 (if wp = clipwp s1 then s1\<lparr>clipwp := None\<rparr> else s1)" for s1 by simp
    have "quietly s (Some s')" unfolding 1(2) [symmetric]
      by (intro quiets f quiet_unrealize_rest quietly_first [OF quiet_trans [OF g quiet_fields(4)] f]) (simp add: quietly_Some g)
    then show ?case by (simp add: quietly_Some)
  qed
  then show ?thesis by (simp add: quietly_def)
qed

lemma quiet_unrealize [quiets]: "quietly s (GsWpUnrealizeWindow beyond wp temp_unmap s)"
  unfolding GsWpUnrealizeWindow_def by (rule quiet_unrealize_windows)

lemma quiet_realize_shown [quiets]: "quietly s (realize_shown beyond temp wp s)"
proof -
  have c: "quietly s1 (Some (GsCheckCursor s1))" for s1 by (simp add: quietly_Some)
  show ?thesis unfolding realize_shown_def Let_def
    by (rule quietly_first [OF quiet_fields(4) [of s wp "\<lambda>w. w\<lparr>w_realized := True\<rparr>"]]) (intro quiets c)
qed

lemma quiet_realize_windows [quiets]: "quietly s (realize_windows beyond temp later wp s)"
proof -
  have "quiet s s'" if "realize_windows beyond temp later wp s = Some s'" for s'
  proof (rule realize_windows.raw_induct [where P = "\<lambda>beyond temp later wp s s'. quiet s s'", OF _ that], goal_cases)
    case (1 f beyond temp later wp s s')
    have f: "quietly s1 (f beyond temp b v s1)" for b v s1 using 1(1) by (simp add: quietly_def)
    have g: "quietly s1 (Some (if temp then s1 else GsDeliverUpdateEvent p t x y w h s1))" for p t x y w h s1
      by (simp add: quietly_Some)
    have "quietly s (Some s')" unfolding 1(2) [symmetric] by (intro quiets f g)
    then show ?case by (simp add: quietly_Some)
  qed
  then show ?thesis by (simp add: quietly_def)
qed

lemma quiet_realize [quiets]: "quietly s (GsWpRealizeWindow beyond wp temp s)"
  unfolding GsWpRealizeWindow_def by (rule quiet_realize_windows)

section \<open>Destroying\<close>

lemma quiet_selection [quiets]: "quietly s (GsDeliverSelectionChangedEvent old new s)"
  unfolding GsDeliverSelectionChangedEvent_def
  by (intro quietly_bind_pair quiet_find_window) (simp add: quietly_Some split: option.split)

lemma quiet_destroy_start [quiets]: "quietly s (destroy_start beyond wp s)"
  unfolding destroy_start_def
  by (intro quiets quietly_first [OF quiet_fields(8) quiet_selection]) (simp add: quietly_Some)

lemma quiet_unlink_sibling [quiets]: "quietly s (unlink_sibling wp s)"
  unfolding unlink_sibling_def by (intro quiets) (simp_all add: quietly_Some)

lemma quiet_unlink_window [quiets]: "quietly s (unlink_window layer wp s)"
  unfolding unlink_window_def by (intro quiets) (simp_all add: quietly_Some)

lemma quiet_forget [simp]: "quiet s (forget_window layer wp s)"
  unfolding forget_window_def Let_def by (intro quiet_same) auto

lemma quiet_destroy_end: "quietly s (destroy_end layer wp s)"
proof -
  have e: "quietly s1 (Some (s1\<lparr>list_grabbed_keys := a, free_windows := b\<rparr>))" for s1 a b
    unfolding quietly_Some by (rule quiet_same) simp_all
  show ?thesis unfolding destroy_end_def Let_def
    by (rule quietly_first [OF quiet_fields(4)], rule quietly_bind [OF quiet_unlink_sibling],
        rule quietly_first [OF quiet_fields(4)], rule quietly_bind [OF quiet_unlink_window],
        rule quietly_first [OF quiet_fields(4)], rule quietly_bind [OF quietly_first [OF quiet_forget quiet_check_mouse] e])
qed

lemma quiet_destroy_windows: "quietly s (destroy_windows beyond loop wp s)"
proof -
  have "quiet s s'" if "destroy_windows beyond loop wp s = Some s'" for s'
  proof (rule destroy_windows.raw_induct [where P = "\<lambda>beyond loop wp s s'. quiet s s'", OF _ that], goal_cases)
    case (1 f beyond loop wp s s')
    have f: "quietly s1 (f beyond b v s1)" for b v s1 using 1(1) by (simp add: quietly_def)
    have "quietly s (Some s')" unfolding 1(2) [symmetric] by (intro quiets f quiet_destroy_end)
    then show ?case by (simp add: quietly_Some)
  qed
  then show ?thesis by (simp add: quietly_def)
qed

lemma quiet_destroy_pixmap [quiets]: "quietly s (destroy_pixmap pp s)"
  unfolding destroy_pixmap_def by (intro quietly_bind quietly_if quietly_value) (simp_all add: quietly_Some)

lemma quiet_GrDestroyWindow: "quietly s (GrDestroyWindow beyond wid s)"
  unfolding GrDestroyWindow_def GsWpDestroyWindow_def
  by (intro quietly_bind_pair quiet_find_window)
    (simp split: option.split, intro conjI allI impI quietly_bind_pair quiet_find_pixmap quiet_destroy_windows,
     simp split: option.split add: quiet_destroy_pixmap)

section \<open>Order, places and sizes\<close>

lemma quiet_raise: "quietly s (GrRaiseWindow beyond wid s)"
  unfolding GrRaiseWindow_def Let_def case_prod_unfold
  by (intro quietly_bind_pair quiet_find_window)
    (simp, intro quietly_option quietly_if quietly_done quietly_value quietly_at [OF quietly_bind [OF quiet_border quiet_expose_area]];
     simp add: quietly_Some)

lemma quiet_lower: "quietly s (GrLowerWindow beyond wid s)"
  unfolding GrLowerWindow_def Let_def
  by (intro quietly_bind_pair quiet_find_window)
    (simp, intro quietly_option quietly_if quietly_done quietly_value quietly_at [OF quiet_expose_covered]; simp)

lemma quiet_offset [quiets]: "quietly s (OffsetWindow wp offx offy s)"
proof -
  have "quiet s s'" if "offset_windows offx offy later w s = Some s'" for later w s'
  proof (rule offset_windows.raw_induct [where P = "\<lambda>offx offy later wp s s'. quiet s s'", OF _ that], goal_cases)
    case (1 f offx offy later wp s s')
    have f: "quietly s1 (f offx offy b v s1)" for b v s1 using 1(1) by (simp add: quietly_def)
    have "quietly s (Some s')" unfolding 1(2) [symmetric] by (intro quiets f quietly_at [OF f]) simp
    then show ?case by (simp add: quietly_Some)
  qed
  then show ?thesis by (simp add: OffsetWindow_def quietly_def)
qed

lemma quiet_move_events [quiets]: "quietly s (DeliverUpdateMoveEventAndChildren wp s)"
proof -
  have "quiet s s'" if "move_events later w s = Some s'" for later w s'
  proof (rule move_events.raw_induct [where P = "\<lambda>later wp s s'. quiet s s'", OF _ that], goal_cases)
    case (1 f later wp s s')
    have f: "quietly s1 (f b v s1)" for b v s1 using 1(1) by (simp add: quietly_def)
    have "quietly s (Some s')" unfolding 1(2) [symmetric] by (intro quiets f quietly_at [OF f]) simp
    then show ?case by (simp add: quietly_Some)
  qed
  then show ?thesis by (simp add: DeliverUpdateMoveEventAndChildren_def quietly_def)
qed

lemma quiet_move: "quietly s (GrMoveWindow beyond wid x y s)"
  unfolding GrMoveWindow_def Let_def
  by (intro quietly_bind_pair quiet_find_window)
    (simp, intro quietly_option quietly_if quietly_done quiet_server_error quietly_value quietly_bind [OF quiet_unrealize]
      quietly_bind [OF quiet_offset] quietly_bind [OF quiet_realize] quietly_at [OF quietly_bind [OF quiet_expose_area]] quiet_move_events;
     simp)

lemma quiet_resize: "quietly s (GrResizeWindow beyond wid width height s)"
  unfolding GrResizeWindow_def Let_def
  by (intro quietly_bind_pair quiet_find_window)
    (simp, intro quietly_option quietly_if quietly_done quiet_server_error quietly_bind [OF quiet_unrealize] quietly_at [OF quiet_realize];
     simp add: quietly_Some quiet_trans [OF _ quiet_update])

lemma quiet_link_child [simp]: "quiet s (link_child wp pwp s)"
  by (simp add: link_child_def Let_def)

lemma quiet_reparent: "quietly s (GrReparentWindow beyond wid pwid x y s)"
proof -
  have e: "quietly s1 (Some (update_event wp t s1))" for wp t s1 by (simp add: quietly_Some)
  have o: "quietly s1 (if b then OffsetWindow wp offx offy (link_child wp pwp s1) else Some (link_child wp pwp s1))"
    for b wp offx offy pwp s1
    by (intro quietly_if quietly_at [OF quiet_offset]) (simp_all add: quietly_Some)
  show ?thesis unfolding GrReparentWindow_def Let_def
    by (intro quietly_bind_pair quiet_find_window)
      (simp only: prod.case, intro quietly_bind_pair quiet_find_window, simp split: option.split,
       intro allI impI conjI quietly_if quietly_done quiet_server_error quietly_bind [OF quiet_unrealize]
        quietly_bind [OF quiet_unlink_sibling] quietly_bind [OF quiet_realize] quietly_bind [OF o] e)
qed

section \<open>New windows and mapping\<close>

lemma quiet_NewWindow: "quietly_pair s (NewWindow pwp x y width height bordersize background bordercolor c s)"
  using quiet_server_error [of s]
  by (auto simp: quietly_pair_def quietly_def NewWindow_def Let_def upd_win_def quiet_def settings_def
      split: if_splits list.splits)

lemma quiet_GrNewWindow: "quietly_pair s (GrNewWindow parent x y width height bordersize background bordercolor c s)"
proof -
  have bind: "quietly_pair s (Option.bind r f)"
    if "quietly_pair s r" "\<And>x s1. quietly_pair s1 (f (x, s1))" for r and f :: "win_ptr option \<times> server \<Rightarrow> (nat \<times> server) option"
    using that by (cases r) (auto simp: quietly_pair_def intro: quiet_trans)
  have err: "quietly_pair s1 (map_option (Pair 0) (server_error code ident s1))" for code ident s1
    using quiet_server_error by (auto simp: quietly_pair_def quietly_def)
  have new: "quietly_pair s1 (map_option (\<lambda>(r, s). (f r s, s)) r)" if "quietly_pair s1 r"
    for s1 f and r :: "(win_ptr option \<times> server) option"
    using that by (auto simp: quietly_pair_def)
  have "quietly_pair s1 (Some (0 :: nat, s1))" for s1 by (simp add: quietly_pair_def)
  then show ?thesis unfolding GrNewWindow_def
    by (intro bind quiet_find_window) (simp add: err new [OF quiet_NewWindow] split: option.split)
qed

lemma quiet_map: "quietly s (GrMapWindow beyond wid s)"
  unfolding GrMapWindow_def
  by (intro quietly_bind_pair quiet_find_window)
    (simp, intro quietly_option quietly_if quietly_done quietly_at [OF quiet_realize]; simp)

lemma quiet_unmap: "quietly s (GrUnmapWindow beyond wid s)"
  unfolding GrUnmapWindow_def
  by (intro quietly_bind_pair quiet_find_window)
    (simp, intro quietly_option quietly_if quietly_done quietly_map_quiet quiet_unrealize; simp)

text \<open>Every call of a client that changes windows.\<close>

lemma quiet_call: "quietly s (client_call beyond c s)"
proof (cases c)
  case (NewCall parent x y width height bordersize bg bc cl)
  show ?thesis using quiet_GrNewWindow [of s parent x y width height bordersize bg bc cl]
    by (auto simp: NewCall quietly_def quietly_pair_def)
qed (simp_all add: quiet_map quiet_unmap quiet_move quiet_resize quiet_raise quiet_lower quiet_GrDestroyWindow quiet_reparent)

end
