(* ===== verification/Reg_Props.thy ===== *)
theory Reg_Props
  imports Reg_Model Rgn_Props
begin

text \<open>
  The regions of the clients refine a map from identifiers to sets of points: each operation on identifiers does to the map what its
  name says, also when the same region is destination and source.
\<close>

section \<open>Well-formed regions\<close>

definition region_ptrs :: "'a gr_regions_scheme \<Rightarrow> rgn_ptr list" where
  "region_ptrs g = map (the \<circ> r_rgn) (listregionp g)"

definition regions_ok :: "'a gr_regions_scheme \<Rightarrow> bool" where
  "regions_ok g \<longleftrightarrow> distinct (map r_id (listregionp g)) \<and> distinct (region_ptrs g @ free_rgns g) \<and>
     (\<forall>r\<in>set (listregionp g). r_rgn r \<noteq> None \<and> rgn_ok (rgns g (the (r_rgn r))) \<and> r_id r < nextregionid g)"

text \<open>The set of points that an identifier stands for.\<close>

definition region_map :: "'a gr_regions_scheme \<Rightarrow> nat \<rightharpoonup> (MWCOORD \<times> MWCOORD) set" where
  "region_map g ident = map_option (\<lambda>r. rgn_pts (rgns g (the (r_rgn r)))) (GsFindRegion ident g)"

lemma find_region:
  assumes "regions_ok g"
  shows "GsFindRegion ident g = Some r \<longleftrightarrow> r \<in> set (listregionp g) \<and> r_id r = ident"
proof
  assume "GsFindRegion ident g = Some r"
  then show "r \<in> set (listregionp g) \<and> r_id r = ident" by (auto simp: GsFindRegion_def find_Some_iff)
next
  assume r: "r \<in> set (listregionp g) \<and> r_id r = ident"
  then obtain q where q: "GsFindRegion ident g = Some q" unfolding GsFindRegion_def by (cases "find (\<lambda>r. r_id r = ident) (listregionp g)") (auto simp: find_None_iff)
  then have "q \<in> set (listregionp g)" "r_id q = ident" by (auto simp: GsFindRegion_def find_Some_iff)
  then have "q = r" using r assms by (auto simp: regions_ok_def distinct_map dest: inj_onD)
  then show "GsFindRegion ident g = Some r" using q by simp
qed

lemma find_no_region: "GsFindRegion ident g = None \<longleftrightarrow> (\<forall>r\<in>set (listregionp g). r_id r \<noteq> ident)"
  by (auto simp: GsFindRegion_def find_None_iff)

lemma found_region:
  assumes "regions_ok g" and "GsFindRegion ident g = Some r"
  obtains p where "r_rgn r = Some p" "rgn_ok (rgns g p)" "region_map g ident = Some (rgn_pts (rgns g p))"
proof -
  have "r \<in> set (listregionp g)" using find_region [OF assms(1)] assms(2) by blast
  then obtain p where "r_rgn r = Some p" "rgn_ok (rgns g p)" using assms(1) by (auto simp: regions_ok_def)
  then show ?thesis using that assms(2) by (simp add: region_map_def)
qed

lemma region_map_None: "region_map g ident = None \<longleftrightarrow> GsFindRegion ident g = None"
  by (simp add: region_map_def)

text \<open>Two identifiers stand for the same address only when they are equal.\<close>

lemma same_region:
  assumes "regions_ok g" and "GsFindRegion a g = Some r" and "GsFindRegion b g = Some q" and "r_rgn r = r_rgn q"
  shows "a = b"
proof -
  have in_list: "r \<in> set (listregionp g)" "q \<in> set (listregionp g)" "r_id r = a" "r_id q = b" using find_region [OF assms(1)] assms(2,3) by blast+
  have "inj_on (the \<circ> r_rgn) (set (listregionp g))" using assms(1) by (auto simp: regions_ok_def region_ptrs_def distinct_map)
  from inj_onD [OF this _ in_list(1,2)] have "r = q" using assms(4) by simp
  then show ?thesis using in_list(3,4) by simp
qed

text \<open>An operation that stores a set of points at the address of one region.\<close>

lemma store_region:
  assumes ok: "regions_ok g" and r: "GsFindRegion d g = Some r" and p: "r_rgn r = Some p" and h: "stores (rgns g) h p P"
  shows "regions_ok (g\<lparr>rgns := h\<rparr>)" "region_map (g\<lparr>rgns := h\<rparr>) = (region_map g)(d \<mapsto> P)"
proof -
  let ?g = "g\<lparr>rgns := h\<rparr>"
  have keep: "\<And>q. q \<noteq> p \<Longrightarrow> h q = rgns g q" "rgn_ok (h p)" "rgn_pts (h p) = P" using h by (simp_all add: stores_def)
  have f: "GsFindRegion i ?g = GsFindRegion i g" for i by (simp add: GsFindRegion_def)
  show "regions_ok ?g"
    using ok keep unfolding regions_ok_def region_ptrs_def
    by (simp add: Ball_def) metis
  show "region_map ?g = (region_map g)(d \<mapsto> P)"
  proof
    fix i
    show "region_map ?g i = ((region_map g)(d \<mapsto> P)) i"
    proof (cases "GsFindRegion i g")
      case None
      then show ?thesis using r f by (auto simp: region_map_def)
    next
      case (Some q)
      then obtain pq where pq: "r_rgn q = Some pq" using found_region [OF ok Some] by metis
      show ?thesis
      proof (cases "i = d")
        case True
        then show ?thesis using r p keep(3) f by (simp add: region_map_def)
      next
        case False
        then have "pq \<noteq> p" using same_region [OF ok Some r] pq p by auto
        then show ?thesis using Some pq keep(1) f False by (simp add: region_map_def)
      qed
    qed
  qed
qed

section \<open>Calls and their meaning\<close>

datatype region_call =
    NewRegion
  | DestroyRegion nat
  | UnionRect nat MWCOORD MWCOORD MWCOORD MWCOORD
  | OffsetRegion nat MWCOORD MWCOORD
  | UnionRegions nat nat nat
  | SubtractRegions nat nat nat
  | XorRegions nat nat nat
  | IntersectRegions nat nat nat

fun region_step :: "MWCOORD \<Rightarrow> region_call \<Rightarrow> 'a gr_regions_scheme \<Rightarrow> server \<Rightarrow> ('a gr_regions_scheme \<times> server) option" where
  "region_step beyond NewRegion g s = map_option snd (GrNewRegion True g s)"
| "region_step beyond (DestroyRegion r) g s = Some (GrDestroyRegion r g, s)"
| "region_step beyond (UnionRect r x y width height) g s = map_option (\<lambda>g. (g, s)) (GrUnionRectWithRegion r x y width height g)"
| "region_step beyond (OffsetRegion r dx dy) g s = map_option (\<lambda>g. (g, s)) (GrOffsetRegion r dx dy g)"
| "region_step beyond (UnionRegions d a b) g s = map_option (\<lambda>g. (g, s)) (GrUnionRegion d a b g)"
| "region_step beyond (SubtractRegions d a b) g s = map_option (\<lambda>g. (g, s)) (GrSubtractRegion beyond d a b g)"
| "region_step beyond (XorRegions d a b) g s = map_option (\<lambda>g. (g, s)) (GrXorRegion beyond d a b g)"
| "region_step beyond (IntersectRegions d a b) g s = map_option (\<lambda>g. (g, s)) (GrIntersectRegion d a b g)"

definition combine ::
  "((MWCOORD \<times> MWCOORD) set \<Rightarrow> (MWCOORD \<times> MWCOORD) set \<Rightarrow> (MWCOORD \<times> MWCOORD) set) \<Rightarrow> nat \<Rightarrow> nat \<Rightarrow> nat \<Rightarrow>
   (nat \<rightharpoonup> (MWCOORD \<times> MWCOORD) set) \<Rightarrow> nat \<rightharpoonup> (MWCOORD \<times> MWCOORD) set" where
  "combine f d a b m = (case (m d, m a, m b) of (Some _, Some A, Some B) \<Rightarrow> m(d \<mapsto> f A B) | _ \<Rightarrow> m)"

text \<open>The meaning of a call; \<open>n\<close> is the next identifier.\<close>

fun region_spec :: "nat \<Rightarrow> region_call \<Rightarrow> (nat \<rightharpoonup> (MWCOORD \<times> MWCOORD) set) \<Rightarrow> nat \<rightharpoonup> (MWCOORD \<times> MWCOORD) set" where
  "region_spec n NewRegion m = m(n \<mapsto> {})"
| "region_spec n (DestroyRegion r) m = m(r := None)"
| "region_spec n (UnionRect r x y width height) m =
    (case m r of None \<Rightarrow> m | Some P \<Rightarrow> m(r \<mapsto> P \<union> {(a, b). x \<le> a \<and> a < x + width \<and> y \<le> b \<and> b < y + height}))"
| "region_spec n (OffsetRegion r dx dy) m =
    (case m r of None \<Rightarrow> m | Some P \<Rightarrow> m(r \<mapsto> {(a, b). (a - dx, b - dy) \<in> P}))"
| "region_spec n (UnionRegions d a b) m = combine (\<union>) d a b m"
| "region_spec n (SubtractRegions d a b) m = combine (-) d a b m"
| "region_spec n (XorRegions d a b) m = combine (\<lambda>A B. (A - B) \<union> (B - A)) d a b m"
| "region_spec n (IntersectRegions d a b) m = combine (\<inter>) d a b m"

text \<open>
  There is memory for a new region; a rectangle is not empty; and the destination of an intersection or a difference is not both its
  sources, where the engine overruns its buffer.
\<close>

fun region_call_ok :: "region_call \<Rightarrow> 'a gr_regions_scheme \<Rightarrow> bool" where
  "region_call_ok NewRegion g \<longleftrightarrow> free_rgns g \<noteq> []"
| "region_call_ok (UnionRect r x y width height) g \<longleftrightarrow> 0 < width \<and> 0 < height"
| "region_call_ok (SubtractRegions d a b) g \<longleftrightarrow> \<not> (d = a \<and> d = b)"
| "region_call_ok (IntersectRegions d a b) g \<longleftrightarrow> \<not> (d = a \<and> d = b)"
| "region_call_ok _ g \<longleftrightarrow> True"

section \<open>The operations\<close>

lemma new_region:
  assumes ok: "regions_ok g" and "free_rgns g \<noteq> []"
  shows "\<exists>g'. GrNewRegion True g s = Some (nextregionid g, g', s) \<and> regions_ok g' \<and> region_map g' = (region_map g)(nextregionid g \<mapsto> {})"
proof -
  obtain p ps where p: "free_rgns g = p # ps" using assms(2) by (cases "free_rgns g") auto
  define r where "r = \<lparr>r_id = nextregionid g, r_rgn = Some p, r_owner = curclient (evqueues s)\<rparr>"
  define g' where "g' = g\<lparr>free_rgns := ps, rgns := (rgns g)(p := GdAllocRegion), nextregionid := nextregionid g + 1,
    listregionp := r # listregionp g\<rparr>"
  have e: "GrNewRegion True g s = Some (nextregionid g, g', s)" by (simp add: GrNewRegion_def p g'_def r_def Let_def)
  have a: "rgn_ok GdAllocRegion" "rgn_pts GdAllocRegion = {}" by (rule GdAllocRegion_ok, rule Rgn_Ops.GdAllocRegion_pts)
  have other: "the (r_rgn q) \<noteq> p \<and> r_id q \<noteq> nextregionid g" if "q \<in> set (listregionp g)" for q
    using ok that p by (auto simp: regions_ok_def region_ptrs_def)
  have "distinct (map r_id (listregionp g'))" "distinct (region_ptrs g' @ free_rgns g')"
    using ok p other by (auto simp: regions_ok_def region_ptrs_def g'_def r_def)
  moreover have "\<forall>q\<in>set (listregionp g'). r_rgn q \<noteq> None \<and> rgn_ok (rgns g' (the (r_rgn q))) \<and> r_id q < nextregionid g'"
    using ok other a(1) by (auto simp: regions_ok_def g'_def r_def less_Suc_eq)
  ultimately have ok': "regions_ok g'" by (simp add: regions_ok_def)
  have "region_map g' i = ((region_map g)(nextregionid g \<mapsto> {})) i" for i
  proof (cases "i = nextregionid g")
    case False
    then have "GsFindRegion i g' = GsFindRegion i g" by (simp add: GsFindRegion_def g'_def r_def)
    moreover have "the (r_rgn q) \<noteq> p" if "GsFindRegion i g = Some q" for q using other that find_region [OF ok] by blast
    ultimately show ?thesis using False by (cases "GsFindRegion i g") (simp_all add: region_map_def, simp add: g'_def)
  qed (use a(2) in \<open>simp add: region_map_def GsFindRegion_def g'_def r_def\<close>)
  then have "region_map g' = (region_map g)(nextregionid g \<mapsto> {})" by (rule ext)
  with e ok' show ?thesis by blast
qed

lemma destroy_region:
  assumes ok: "regions_ok g"
  shows "regions_ok (GrDestroyRegion d g)" "region_map (GrDestroyRegion d g) = (region_map g)(d := None)"
proof -
  have "regions_ok (GrDestroyRegion d g) \<and> region_map (GrDestroyRegion d g) = (region_map g)(d := None)"
  proof (cases "GsFindRegion d g")
    case None
    then show ?thesis using ok by (auto simp: GrDestroyRegion_def region_map_def)
  next
    case (Some r)
    obtain p where p: "r_rgn r = Some p" using found_region [OF ok Some] by metis
    have rin: "r \<in> set (listregionp g)" "r_id r = d" using Some find_region [OF ok] by blast+
    have dl: "distinct (listregionp g)" using ok by (auto simp: regions_ok_def distinct_map)
    let ?g = "GrDestroyRegion d g"
    have g: "?g = g\<lparr>listregionp := remove1 r (listregionp g), free_rgns := p # free_rgns g\<rparr>" by (simp add: GrDestroyRegion_def Some p)
    obtain as bs where l: "listregionp g = as @ r # bs" "r \<notin> set as" using split_list_first [OF rin(1)] by blast
    then have l': "remove1 r (listregionp g) = as @ bs" by (simp add: remove1_append)
    have "distinct (map r_id (as @ bs))" "distinct (map (the \<circ> r_rgn) (as @ bs) @ p # free_rgns g)"
      using ok p unfolding regions_ok_def region_ptrs_def l by auto
    moreover have "\<forall>q\<in>set (as @ bs). r_rgn q \<noteq> None \<and> rgn_ok (rgns g (the (r_rgn q))) \<and> r_id q < nextregionid g"
      using ok unfolding regions_ok_def l by simp
    ultimately have "regions_ok ?g" unfolding regions_ok_def region_ptrs_def g by (simp add: l')
    moreover have "region_map ?g i = ((region_map g)(d := None)) i" for i
    proof (cases "i = d")
      case True
      have "\<forall>q\<in>set (as @ bs). r_id q \<noteq> d" using ok rin(2) unfolding regions_ok_def l by (auto simp: image_iff)
      then have "GsFindRegion d ?g = None" unfolding find_no_region by (simp add: g l')
      then show ?thesis using True by (simp add: region_map_def)
    next
      case False
      then have "find (\<lambda>r. r_id r = i) (as @ bs) = find (\<lambda>r. r_id r = i) (as @ r # bs)" using rin(2) by (induction as) auto
      then have "GsFindRegion i ?g = GsFindRegion i g" unfolding GsFindRegion_def l(1) [symmetric] by (simp add: g l')
      then show ?thesis using False by (simp add: region_map_def g)
    qed
    then have "region_map ?g = (region_map g)(d := None)" by (rule ext)
    ultimately show ?thesis by blast
  qed
  then show "regions_ok (GrDestroyRegion d g)" "region_map (GrDestroyRegion d g) = (region_map g)(d := None)" by simp_all
qed

lemma on_region_ok:
  assumes ok: "regions_ok g" and f: "\<And>p. rgn_ok (rgns g p) \<Longrightarrow> stores (rgns g) (f (rgns g) p) p (F (rgn_pts (rgns g p)))"
  shows "\<exists>g'. on_region d f g = Some g' \<and> regions_ok g' \<and>
    region_map g' = (case region_map g d of None \<Rightarrow> region_map g | Some P \<Rightarrow> (region_map g)(d \<mapsto> F P))"
proof (cases "GsFindRegion d g")
  case None
  then show ?thesis using ok by (simp add: on_region_def region_map_def)
next
  case (Some r)
  obtain p where p: "r_rgn r = Some p" "rgn_ok (rgns g p)" "region_map g d = Some (rgn_pts (rgns g p))" by (rule found_region [OF ok Some])
  from store_region [OF ok Some p(1) f [OF p(2)]] show ?thesis using Some p(1,3) by (simp add: on_region_def)
qed

lemma on_regions_ok:
  assumes ok: "regions_ok g"
    and f: "\<And>p q r. rgn_ok (rgns g p) \<Longrightarrow> rgn_ok (rgns g q) \<Longrightarrow> rgn_ok (rgns g r) \<Longrightarrow> (guard \<Longrightarrow> \<not> (p = q \<and> p = r)) \<Longrightarrow>
      stores (rgns g) (f (rgns g) p q r) p (F (rgn_pts (rgns g q)) (rgn_pts (rgns g r)))"
    and apart: "guard \<Longrightarrow> \<not> (d = a \<and> d = b)"
  shows "\<exists>g'. on_regions f d a b g = Some g' \<and> regions_ok g' \<and> region_map g' = combine F d a b (region_map g)"
proof (cases "GsFindRegion d g \<noteq> None \<and> GsFindRegion a g \<noteq> None \<and> GsFindRegion b g \<noteq> None")
  case False
  then have "on_regions f d a b g = Some g" by (auto simp: on_regions_def split: option.split)
  moreover have "combine F d a b (region_map g) = region_map g"
    using False by (auto simp: combine_def region_map_def split: option.split)
  ultimately show ?thesis using ok by simp
next
  case True
  then obtain rd ra rb where r: "GsFindRegion d g = Some rd" "GsFindRegion a g = Some ra" "GsFindRegion b g = Some rb" by auto
  obtain p where p: "r_rgn rd = Some p" "rgn_ok (rgns g p)" "region_map g d = Some (rgn_pts (rgns g p))" by (rule found_region [OF ok r(1)])
  obtain q where q: "r_rgn ra = Some q" "rgn_ok (rgns g q)" "region_map g a = Some (rgn_pts (rgns g q))" by (rule found_region [OF ok r(2)])
  obtain o' where o: "r_rgn rb = Some o'" "rgn_ok (rgns g o')" "region_map g b = Some (rgn_pts (rgns g o'))" by (rule found_region [OF ok r(3)])
  have "\<not> (p = q \<and> p = o')" if "guard"
    using apart [OF that] same_region [OF ok r(1,2)] same_region [OF ok r(1,3)] p(1) q(1) o(1) by auto
  from store_region [OF ok r(1) p(1) f [OF p(2) q(2) o(2) this]]
  show ?thesis using r p(1,3) q(1,3) o(1,3) by (simp add: on_regions_def combine_def)
qed

lemma union_rect_set: "rect_pts (mkrect x y (x + width) (y + height)) = {(a, b). x \<le> a \<and> a < x + width \<and> y \<le> b \<and> b < y + height}"
  by (auto simp: rect_pts_def INRECT_def mkrect_def)

lemma store_offset:
  assumes "rgn_ok (h p)"
  shows "stores h (h(p := GdOffsetRegion (h p) dx dy)) p {(a, b). (a - dx, b - dy) \<in> rgn_pts (h p)}"
  using GdOffsetRegion_ok [OF assms, of dx dy] by (simp add: stores_def)

lemma region_step_refines:
  assumes ok: "regions_ok g" and c: "region_call_ok c g"
  shows "\<exists>g' s'. region_step beyond c g s = Some (g', s') \<and> regions_ok g' \<and> region_map g' = region_spec (nextregionid g) c (region_map g)"
proof (cases c)
  case NewRegion
  then show ?thesis using new_region [OF ok, of s] c by auto
next
  case (DestroyRegion d)
  then show ?thesis using destroy_region [OF ok, of d] by simp
next
  case (UnionRect d x y width height)
  then have "0 < width" "0 < height" using c by simp_all
  then have "stores (rgns g) (GdUnionRectWithRegion (rgns g) (mkrect x y (x + width) (y + height)) p) p
      (rgn_pts (rgns g p) \<union> {(a, b). x \<le> a \<and> a < x + width \<and> y \<le> b \<and> b < y + height})" if "rgn_ok (rgns g p)" for p
    using union_rect_stores [of "rgns g" p "mkrect x y (x + width) (y + height)"] that unfolding union_rect_set by (simp add: mkrect_def)
  from on_region_ok [where f = "\<lambda>h rgn. GdUnionRectWithRegion h (mkrect x y (x + width) (y + height)) rgn" and d = d
      and F = "\<lambda>P. P \<union> {(a, b). x \<le> a \<and> a < x + width \<and> y \<le> b \<and> b < y + height}", OF ok this]
  show ?thesis using UnionRect by (auto simp: GrUnionRectWithRegion_def)
next
  case (OffsetRegion d dx dy)
  then show ?thesis
    using on_region_ok [where f = "\<lambda>h rgn. h(rgn := GdOffsetRegion (h rgn) dx dy)" and F = "\<lambda>P. {(a, b). (a - dx, b - dy) \<in> P}" and d = d,
        OF ok store_offset] by (auto simp: GrOffsetRegion_def)
next
  case (UnionRegions d a b)
  then show ?thesis
    using on_regions_ok [OF ok, of False GdUnionRegion "(\<union>)" d a b] union_stores [of "rgns g"] rgn_okD(4)
    by (auto simp: GrUnionRegion_def)
next
  case (SubtractRegions d a b)
  then show ?thesis
    using on_regions_ok [OF ok, of True "GdSubtractRegion beyond" "(-)" d a b] subtract_stores [of "rgns g"] rgn_okD(4) c
    by (auto simp: GrSubtractRegion_def)
next
  case (XorRegions d a b)
  then show ?thesis
    using on_regions_ok [OF ok, of False "GdXorRegion beyond" "\<lambda>A B. (A - B) \<union> (B - A)" d a b] xor_stores [of "rgns g"] rgn_okD(4)
    by (auto simp: GrXorRegion_def)
next
  case (IntersectRegions d a b)
  then show ?thesis
    using on_regions_ok [OF ok, of True GdIntersectRegion "(\<inter>)" d a b] intersect_stores [of "rgns g"] rgn_okD(4) c
    by (auto simp: GrIntersectRegion_def)
qed

section \<open>Queries\<close>

lemma ask_region_ok:
  assumes "regions_ok g" and "\<And>rgn. rgn_ok rgn \<Longrightarrow> f rgn = F (rgn_pts rgn)"
  shows "ask_region ident otherwise f g = Some (case region_map g ident of None \<Rightarrow> otherwise | Some P \<Rightarrow> F P)"
proof (cases "GsFindRegion ident g")
  case None
  then show ?thesis by (simp add: ask_region_def region_map_def)
next
  case (Some r)
  obtain p where "r_rgn r = Some p" "rgn_ok (rgns g p)" "region_map g ident = Some (rgn_pts (rgns g p))" by (rule found_region [OF assms(1) Some])
  then show ?thesis using Some assms(2) by (simp add: ask_region_def)
qed

lemma equal_region_ok:
  assumes ok: "regions_ok g"
  shows "GrEqualRegion a b g = Some (region_map g a = region_map g b)"
proof (cases "GsFindRegion a g = None \<or> GsFindRegion b g = None")
  case True
  then show ?thesis by (auto simp: GrEqualRegion_def region_map_def split: option.splits)
next
  case False
  then obtain r q where r: "GsFindRegion a g = Some r" "GsFindRegion b g = Some q" by auto
  obtain p where p: "r_rgn r = Some p" "rgn_ok (rgns g p)" "region_map g a = Some (rgn_pts (rgns g p))" by (rule found_region [OF ok r(1)])
  obtain p' where p': "r_rgn q = Some p'" "rgn_ok (rgns g p')" "region_map g b = Some (rgn_pts (rgns g p'))" by (rule found_region [OF ok r(2)])
  show ?thesis using r p p' GdEqualRegion_iff by (simp add: GrEqualRegion_def)
qed

lemma empty_region: "rgn_ok rgn \<Longrightarrow> GdEmptyRegion rgn \<longleftrightarrow> rgn_pts rgn = {}"
proof -
  assume "rgn_ok rgn"
  moreover have "numRects GdAllocRegion = 0" by (simp add: GdAllocRegion_def EMPTY_REGION_def)
  ultimately show ?thesis using GdEqualRegion_iff [of rgn GdAllocRegion] GdAllocRegion_ok Rgn_Ops.GdAllocRegion_pts
    by (simp add: GdEmptyRegion_def GdEqualRegion_def del: numRects_0 split: if_splits)
qed

section \<open>The property\<close>

text \<open>
  C37. The operations of clients on their regions refine operations on a map from identifiers to sets of points, except a new region
  without memory, the union with an empty rectangle, and a difference or intersection that names one region three times, where the
  engine overruns its buffer (\<open>region_call_ok\<close>).  Each other call returns, keeps
  the regions well-formed and changes the map as its name says, also when regions are named twice or do not exist; and the queries
  answer from the map.
\<close>

theorem region_calls_refine:
  assumes "regions_ok g" and "region_call_ok c g"
  shows "(\<exists>g' s'. region_step beyond c g s = Some (g', s') \<and> regions_ok g' \<and> region_map g' = region_spec (nextregionid g) c (region_map g)) \<and>
    GrPointInRegion a x y g = Some (case region_map g a of None \<Rightarrow> False | Some P \<Rightarrow> (x, y) \<in> P) \<and>
    GrEmptyRegion a g = Some (case region_map g a of None \<Rightarrow> True | Some P \<Rightarrow> P = {}) \<and>
    GrEqualRegion a b g = Some (region_map g a = region_map g b)"
  using region_step_refines [OF assms, of beyond s] ask_region_ok [OF assms(1), of "\<lambda>rgn. GdPtInRegion rgn x y" "\<lambda>P. (x, y) \<in> P" a False]
    ask_region_ok [OF assms(1), of GdEmptyRegion "\<lambda>P. P = {}" a True] GdPtInRegion_iff empty_region equal_region_ok [OF assms(1), of a b]
  by (simp add: GrPointInRegion_def GrEmptyRegion_def)

definition client_regions :: gr_regions where
  "client_regions =
    \<lparr>rgns = (\<lambda>p. if p = 0 then GdAllocRectRegion 0 0 10 10 else if p = 1 then GdAllocRectRegion 5 5 15 15 else GdAllocRegion),
     free_rgns = [2, 3], listregionp = [\<lparr>r_id = 1001, r_rgn = Some 1, r_owner = None\<rparr>, \<lparr>r_id = 1000, r_rgn = Some 0, r_owner = None\<rparr>],
     nextregionid = 1002\<rparr>"

theorem region_calls_refine_witness:
  "\<forall>s. \<exists>g'. region_step 0 (IntersectRegions 1000 1000 1001) client_regions s = Some (g', s) \<and> GrPointInRegion 1000 7 7 g' = Some True \<and>
     GrPointInRegion 1000 3 3 g' = Some False"
proof
  fix s
  have r: "rgn_ok (GdAllocRectRegion 0 0 10 10)" "rgn_pts (GdAllocRectRegion 0 0 10 10) = {(a, b). 0 \<le> a \<and> a < 10 \<and> 0 \<le> b \<and> b < 10}"
    "rgn_ok (GdAllocRectRegion 5 5 15 15)" "rgn_pts (GdAllocRectRegion 5 5 15 15) = {(a, b). 5 \<le> a \<and> a < 15 \<and> 5 \<le> b \<and> b < 15}"
    by (simp_all add: GdAllocRectRegion_ok)
  have ok: "regions_ok client_regions" using r(1,3) by (simp add: regions_ok_def region_ptrs_def client_regions_def)
  have c: "region_call_ok (IntersectRegions 1000 1000 1001) client_regions" by simp
  obtain g' s' where g': "region_step 0 (IntersectRegions 1000 1000 1001) client_regions s = Some (g', s')" "regions_ok g'"
    "region_map g' = region_spec (nextregionid client_regions) (IntersectRegions 1000 1000 1001) (region_map client_regions)"
    using region_calls_refine [OF ok c, of 0 s] by blast
  have "s' = s" using g'(1) by auto
  have "region_map client_regions 1000 = Some {(a, b). 0 \<le> a \<and> a < 10 \<and> 0 \<le> b \<and> b < 10}"
    "region_map client_regions 1001 = Some {(a, b). 5 \<le> a \<and> a < 15 \<and> 5 \<le> b \<and> b < 15}"
    using r(2,4) by (simp_all add: region_map_def GsFindRegion_def client_regions_def)
  then have "region_map g' 1000 = Some ({(a, b). 0 \<le> a \<and> a < 10 \<and> 0 \<le> b \<and> b < 10} \<inter> {(a, b). 5 \<le> a \<and> a < 15 \<and> 5 \<le> b \<and> b < 15})"
    by (simp add: g'(3) combine_def)
  then have "GrPointInRegion 1000 7 7 g' = Some True" "GrPointInRegion 1000 3 3 g' = Some False"
    using region_calls_refine [OF g'(2), of NewRegion] region_calls_refine [OF g'(2), of "DestroyRegion 0"] by simp_all
  then show "\<exists>g'. region_step 0 (IntersectRegions 1000 1000 1001) client_regions s = Some (g', s) \<and> GrPointInRegion 1000 7 7 g' = Some True \<and>
     GrPointInRegion 1000 3 3 g' = Some False" using g'(1) \<open>s' = s\<close> by blast
qed

end
