(* ===== verification/Gc_Agree.thy ===== *)
theory Gc_Agree
  imports Gc_Quiet Reg_Props
begin

text \<open>
  Well-formed graphics contexts, and when the settings of the engine are those of a context: what \<open>gc_calls\<close> hands to the engine is
  what the context asks for.
\<close>

section \<open>Well-formed contexts\<close>

definition stipple_of :: "gc_server \<Rightarrow> gc_ptr \<Rightarrow> nat option" where
  "stipple_of g gp = fst (gc_stipple (gcs g gp))"

text \<open>Each context is listed once and has its own identifier and its own bitmap.\<close>

definition gcs_ok :: "gc_server \<Rightarrow> bool" where
  "gcs_ok g \<longleftrightarrow> distinct (listgcp g @ free_gcs g) \<and> inj_on (\<lambda>gp. gc_id (gcs g gp)) (set (listgcp g)) \<and> 0 < nextgcid g \<and>
    (\<forall>gp\<in>set (listgcp g). 0 < gc_id (gcs g gp) \<and> gc_id (gcs g gp) < nextgcid g \<and> -1 \<le> gc_alpha (gcs g gp) \<and> gc_alpha (gcs g gp) \<le> 255) \<and>
    (cachegcid g \<noteq> 0 \<longrightarrow> (\<exists>gp\<in>set (listgcp g). cachegcp g = Some gp \<and> gc_id (gcs g gp) = cachegcid g)) \<and>
    distinct (free_bitmaps g) \<and>
    (\<forall>gp\<in>set (listgcp g). \<forall>b. stipple_of g gp = Some b \<longrightarrow> bitmaps g b \<noteq> None \<and> b \<notin> set (free_bitmaps g)) \<and>
    (\<forall>gp\<in>set (listgcp g). \<forall>gp'\<in>set (listgcp g). gp \<noteq> gp' \<longrightarrow> stipple_of g gp = None \<or> stipple_of g gp \<noteq> stipple_of g gp')"

text \<open>The settings of the engine that a context asks for.  When the font in use is destroyed, the engine is left without one.\<close>

definition font_of :: "gr_gc \<Rightarrow> gc_server \<Rightarrow> nat option" where
  "font_of gc g = (case GsFindFont (gc_fontid gc) g of None \<Rightarrow> stdfont g | Some f \<Rightarrow> Some (f_pfont f))"

definition agrees :: "gr_gc \<Rightarrow> gc_server \<Rightarrow> draw_settings \<Rightarrow> bool" where
  "agrees gc g d \<longleftrightarrow>
    gr_foreground d = (if gc_fgispixelval gc then gc_foreground gc else GdFindColor (gc_foreground gc)) \<and>
    gr_background d = (if gc_bgispixelval gc then gc_background gc else GdFindColor (gc_background gc)) \<and>
    gr_mode d = uint (gc_mode gc AND GR_MODE_DRAWMASK) \<and> gr_alpha d = gc_alpha gc \<and> gr_gradation d = gc_gradation gc \<and>
    gr_xorcolor d = GdFindColor (gc_xorcolor gc) \<and> gr_usebg d = gc_usebackground gc \<and>
    (gr_dashmask d, gr_dashcount d) = (if gc_linestyle gc = GR_LINE_SOLID then (0, 0) else (gc_dashmask gc, gc_dashcount gc)) \<and>
    gr_fillmode d = gc_fillmode gc \<and> gr_ts_offset d = gc_ts_offset gc \<and>
    (gc_fillmode gc \<in> {GR_FILL_STIPPLE, GR_FILL_OPAQUE_STIPPLE} \<longrightarrow> gr_stipple d =
      (case gc_stipple gc of (None, _, _) \<Rightarrow> (None, 0, 0) | (Some b, width, height) \<Rightarrow> (bitmaps g b, width, height))) \<and>
    (gc_fillmode gc = GR_FILL_TILE \<longrightarrow> gr_tile d =
      (case gc_tile gc of (None, _, _) \<Rightarrow> (None, 0, 0) | (Some psd, width, height) \<Rightarrow> (Some psd, width, height))) \<and>
    (gr_pfont d = font_of gc g \<or> gr_pfont d = None)"

text \<open>What the server believes: the context \<open>curgcp\<close>, unless it is changed, is the one that the engine has.\<close>

definition believed :: "gc_server \<Rightarrow> server \<Rightarrow> bool" where
  "believed g s \<longleftrightarrow> (\<forall>gp. curgcp s = Some gp \<longrightarrow> gp \<in> set (listgcp g) \<and>
     (\<not> gc_changed (gcs g gp) \<longrightarrow> agrees (gcs g gp) g (settings s)))"

text \<open>What single calls and the calls for a fill pattern do.\<close>

lemma apply_simps [simp]:
  "apply_call (if b then CallSetForegroundPixelVal x else CallSetForegroundColor x) d = d\<lparr>gr_foreground := (if b then x else GdFindColor x)\<rparr>"
  "apply_call (if b then CallSetBackgroundPixelVal x else CallSetBackgroundColor x) d = d\<lparr>gr_background := (if b then x else GdFindColor x)\<rparr>"
  "apply_call (CallSetDash (Some p)) d = d\<lparr>gr_dashmask := fst p, gr_dashcount := snd p\<rparr>"
  "apply_call (CallSetMode mode) d = d\<lparr>gr_mode := mode\<rparr>"
  "-1 \<le> alpha \<Longrightarrow> alpha \<le> 255 \<Longrightarrow> apply_call (CallSetGlobalAlpha alpha) d = d\<lparr>gr_alpha := alpha\<rparr>"
  "apply_call (CallSetFont f) d = d\<lparr>gr_pfont := f\<rparr>" "apply_call (CallSetFillMode mode) d = d\<lparr>gr_fillmode := mode\<rparr>"
  "apply_call (CallSetTSOffset a c) d = d\<lparr>gr_ts_offset := (a, c)\<rparr>"
  "apply_call (CallSetXorColor x) d = d\<lparr>gr_xorcolor := GdFindColor x\<rparr>"
  "apply_call (CallSetUseBackground b) d = d\<lparr>gr_usebg := b\<rparr>" "apply_call (CallSetGradationOption o') d = d\<lparr>gr_gradation := o'\<rparr>"
  by (auto simp: GdSetMode_def GdSetFillMode_def GdSetForegroundColor_def GdSetBackgroundColor_def GdSetForegroundPixelVal_def
      GdSetBackgroundPixelVal_def GdSetXorColor_def GdSetUseBackground_def GdSetGlobalAlpha_def GdSetGradationOption_def GdSetDash_def
      GdSetTSOffset_def GdSetFont_def split: prod.splits)

definition fill_calls :: "gr_gc \<Rightarrow> gc_server \<Rightarrow> engine_call list option" where
  "fill_calls gc g =
    (if gc_fillmode gc = GR_FILL_STIPPLE \<or> gc_fillmode gc = GR_FILL_OPAQUE_STIPPLE
     then (case gc_stipple gc of
         (None, width, height) \<Rightarrow> Some [CallSetStippleBitmap None width height]
       | (Some p, width, height) \<Rightarrow> map_option (\<lambda>bits. [CallSetStippleBitmap (Some bits) width height]) (bitmaps g p))
     else Some (if gc_fillmode gc = GR_FILL_TILE then (case gc_tile gc of (psd, width, height) \<Rightarrow> [CallSetTilePixmap psd width height]) else []))"

lemma fill_calls_fields:
  assumes "fill_calls gc g = Some cs"
  shows "\<exists>st ti. fold apply_call cs d = d\<lparr>gr_stipple := st, gr_tile := ti\<rparr> \<and>
    (gc_fillmode gc \<in> {GR_FILL_STIPPLE, GR_FILL_OPAQUE_STIPPLE} \<longrightarrow> st =
      (case gc_stipple gc of (None, _, _) \<Rightarrow> (None, 0, 0) | (Some b, width, height) \<Rightarrow> (bitmaps g b, width, height))) \<and>
    (gc_fillmode gc = GR_FILL_TILE \<longrightarrow> ti =
      (case gc_tile gc of (None, _, _) \<Rightarrow> (None, 0, 0) | (Some psd, width, height) \<Rightarrow> (Some psd, width, height)))"
proof -
  consider "gc_fillmode gc \<in> {GR_FILL_STIPPLE, GR_FILL_OPAQUE_STIPPLE}" | "gc_fillmode gc = GR_FILL_TILE"
    | "gc_fillmode gc \<notin> {GR_FILL_STIPPLE, GR_FILL_OPAQUE_STIPPLE, GR_FILL_TILE}" by blast
  then show ?thesis
  proof cases
    case 1
    define st where "st = (case gc_stipple gc of (None, _, _) \<Rightarrow> (None, 0, 0) | (Some b, width, height) \<Rightarrow> (bitmaps g b, width, height))"
    have "fold apply_call cs d = d\<lparr>gr_stipple := st\<rparr>"
      using 1 assms by (auto simp: fill_calls_def GdSetStippleBitmap_def st_def split: prod.splits option.splits)
    moreover have "d\<lparr>gr_stipple := st\<rparr> = d\<lparr>gr_stipple := st, gr_tile := gr_tile d\<rparr>" by (cases d) simp
    moreover have "gc_fillmode gc \<noteq> GR_FILL_TILE" using 1 by auto
    ultimately show ?thesis unfolding st_def [symmetric] by (intro exI [of _ st] exI [of _ "gr_tile d"]) argo
  next
    case 2
    define ti where "ti = (case gc_tile gc of (None, _, _) \<Rightarrow> (None, 0, 0) | (Some psd, width, height) \<Rightarrow> (Some psd, width, height))"
    have "fold apply_call cs d = d\<lparr>gr_tile := ti\<rparr>"
      using 2 assms by (auto simp: fill_calls_def GdSetTilePixmap_def ti_def split: prod.splits option.splits)
    moreover have "d\<lparr>gr_tile := ti\<rparr> = d\<lparr>gr_stipple := gr_stipple d, gr_tile := ti\<rparr>" by (cases d) simp
    moreover have "gc_fillmode gc \<notin> {GR_FILL_STIPPLE, GR_FILL_OPAQUE_STIPPLE}" using 2 by auto
    ultimately show ?thesis unfolding ti_def [symmetric] by (intro exI [of _ "gr_stipple d"] exI [of _ ti]) argo
  next
    case 3
    then have "fold apply_call cs d = d" using assms by (auto simp: fill_calls_def)
    then show ?thesis using 3 by (intro exI [of _ "gr_stipple d"] exI [of _ "gr_tile d"]) simp
  qed
qed

lemma gc_calls_split:
  "gc_calls gc g = map_option (\<lambda>fill.
    [if gc_fgispixelval gc then CallSetForegroundPixelVal (gc_foreground gc) else CallSetForegroundColor (gc_foreground gc),
     if gc_bgispixelval gc then CallSetBackgroundPixelVal (gc_background gc) else CallSetBackgroundColor (gc_background gc),
     CallSetMode (uint (gc_mode gc AND GR_MODE_DRAWMASK)), CallSetGlobalAlpha (gc_alpha gc),
     CallSetGradationOption (gc_gradation gc), CallSetXorColor (gc_xorcolor gc), CallSetUseBackground (gc_usebackground gc),
     CallSetDash (Some (if gc_linestyle gc = GR_LINE_SOLID then (0, 0) else (gc_dashmask gc, gc_dashcount gc))),
     CallSetFillMode (gc_fillmode gc), CallSetTSOffset (fst (gc_ts_offset gc)) (snd (gc_ts_offset gc))]
    @ fill @ [CallSetFont (font_of gc g)]) (fill_calls gc g)"
  unfolding gc_calls_def fill_calls_def font_of_def by (simp add: Let_def case_prod_unfold map_option_case split: option.split)

lemma gc_calls_agree:
  assumes "gc_calls gc g = Some cs" and "-1 \<le> gc_alpha gc" and "gc_alpha gc \<le> 255"
  shows "agrees gc g (fold apply_call cs d)" "gr_pfont (fold apply_call cs d) = font_of gc g"
proof -
  define e where "e = d\<lparr>gr_foreground := (if gc_fgispixelval gc then gc_foreground gc else GdFindColor (gc_foreground gc)),
    gr_background := (if gc_bgispixelval gc then gc_background gc else GdFindColor (gc_background gc)),
    gr_mode := uint (gc_mode gc AND GR_MODE_DRAWMASK), gr_alpha := gc_alpha gc, gr_gradation := gc_gradation gc,
    gr_xorcolor := GdFindColor (gc_xorcolor gc), gr_usebg := gc_usebackground gc,
    gr_dashmask := fst (if gc_linestyle gc = GR_LINE_SOLID then (0, 0) else (gc_dashmask gc, gc_dashcount gc)),
    gr_dashcount := snd (if gc_linestyle gc = GR_LINE_SOLID then (0, 0) else (gc_dashmask gc, gc_dashcount gc)),
    gr_fillmode := gc_fillmode gc, gr_ts_offset := gc_ts_offset gc\<rparr>"
  obtain fill where fill: "fill_calls gc g = Some fill"
    and cs: "fold apply_call cs d = (fold apply_call fill e)\<lparr>gr_pfont := font_of gc g\<rparr>"
    using assms by (auto simp: gc_calls_split e_def simp del: apply_call.simps)
  obtain st ti where f: "fold apply_call fill e = e\<lparr>gr_stipple := st, gr_tile := ti\<rparr>"
    "gc_fillmode gc \<in> {GR_FILL_STIPPLE, GR_FILL_OPAQUE_STIPPLE} \<longrightarrow> st =
      (case gc_stipple gc of (None, _, _) \<Rightarrow> (None, 0, 0) | (Some b, width, height) \<Rightarrow> (bitmaps g b, width, height))"
    "gc_fillmode gc = GR_FILL_TILE \<longrightarrow> ti =
      (case gc_tile gc of (None, _, _) \<Rightarrow> (None, 0, 0) | (Some psd, width, height) \<Rightarrow> (Some psd, width, height))"
    using fill_calls_fields [OF fill, of e] by blast
  show "gr_pfont (fold apply_call cs d) = font_of gc g" by (simp add: cs)
  show "agrees gc g (fold apply_call cs d)" unfolding agrees_def cs f(1)
    by (intro conjI; (rule f(2) | rule f(3) | simp add: e_def); fail?) (use f(2,3) in \<open>simp_all add: e_def\<close>)
qed

lemma gc_calls_total:
  assumes "gcs_ok g" and "gp \<in> set (listgcp g)"
  shows "\<exists>cs. gc_calls (gcs g gp) g = Some cs"
proof -
  have "bitmaps g b \<noteq> None" if "gc_stipple (gcs g gp) = (Some b, w, h)" for b w h
  proof -
    have "stipple_of g gp = Some b" by (simp add: stipple_of_def that)
    then show ?thesis using assms by (auto simp: gcs_ok_def)
  qed
  then show ?thesis unfolding gc_calls_split fill_calls_def by (auto split: prod.split option.split)
qed

text \<open>The context depends on the server only through its bitmap and its font.\<close>

lemma agrees_cong:
  assumes "agrees gc g d" and "\<And>b. fst (gc_stipple gc) = Some b \<Longrightarrow> bitmaps g' b = bitmaps g b" and "listfontp g' = listfontp g"
    and "stdfont g' = stdfont g"
  shows "agrees gc g' d"
proof -
  have "font_of gc g' = font_of gc g" using assms(3,4) unfolding font_of_def GsFindFont_def by (simp only: assms(3,4))
  note f = this
  have "(case gc_stipple gc of (None, _, _) \<Rightarrow> (None, 0, 0) | (Some b, width, height) \<Rightarrow> (bitmaps g' b, width, height)) =
      (case gc_stipple gc of (None, _, _) \<Rightarrow> (None, 0, 0) | (Some b, width, height) \<Rightarrow> (bitmaps g b, width, height))"
    using assms(2) by (auto split: option.split prod.split)
  then show ?thesis using assms(1) [unfolded agrees_def] unfolding agrees_def f by argo
qed

section \<open>Finding contexts\<close>

definition named_gc :: "nat \<Rightarrow> gc_server \<Rightarrow> gc_ptr option" where
  "named_gc gcid g = find (\<lambda>gp. gc_id (gcs g gp) = gcid) (listgcp g)"

definition gc_cached :: "nat \<Rightarrow> gc_ptr option \<Rightarrow> gc_server \<Rightarrow> gc_server" where
  "gc_cached cid cp g = g\<lparr>cachegcid := cid, cachegcp := cp\<rparr>"

lemma named_gc_iff:
  assumes "gcs_ok g"
  shows "named_gc gcid g = Some gp \<longleftrightarrow> gp \<in> set (listgcp g) \<and> gc_id (gcs g gp) = gcid"
proof
  assume "named_gc gcid g = Some gp"
  then show "gp \<in> set (listgcp g) \<and> gc_id (gcs g gp) = gcid" by (auto simp: named_gc_def find_Some_iff)
next
  assume gp: "gp \<in> set (listgcp g) \<and> gc_id (gcs g gp) = gcid"
  then obtain gp' where f: "named_gc gcid g = Some gp'" by (cases "named_gc gcid g") (auto simp: named_gc_def find_None_iff)
  then have "gp' \<in> set (listgcp g)" "gc_id (gcs g gp') = gcid" by (auto simp: named_gc_def find_Some_iff)
  moreover have "inj_on (\<lambda>gp. gc_id (gcs g gp)) (set (listgcp g))" using assms by (simp add: gcs_ok_def)
  ultimately have "gp' = gp" using gp by (auto dest: inj_onD)
  then show "named_gc gcid g = Some gp" using f by simp
qed

lemma gc_cached_simps [simp]:
  "gcs (gc_cached cid cp g) = gcs g" "listgcp (gc_cached cid cp g) = listgcp g" "bitmaps (gc_cached cid cp g) = bitmaps g"
  "free_gcs (gc_cached cid cp g) = free_gcs g" "free_bitmaps (gc_cached cid cp g) = free_bitmaps g"
  "nextgcid (gc_cached cid cp g) = nextgcid g" "listfontp (gc_cached cid cp g) = listfontp g" "stdfont (gc_cached cid cp g) = stdfont g"
  "listregionp (gc_cached cid cp g) = listregionp g" "rgns (gc_cached cid cp g) = rgns g" "free_rgns (gc_cached cid cp g) = free_rgns g"
  "nextregionid (gc_cached cid cp g) = nextregionid g"
  by (simp_all add: gc_cached_def)

lemma named_gc_cached [simp]: "named_gc gcid (gc_cached cid cp g) = named_gc gcid g"
  by (simp add: named_gc_def)

lemma agrees_cached: "agrees gc (gc_cached cid cp g) d \<longleftrightarrow> agrees gc g d"
  by (rule iffI; erule agrees_cong) simp_all

lemma believed_cached [simp]: "believed (gc_cached cid cp g) s \<longleftrightarrow> believed g s"
  by (simp add: believed_def agrees_cached)

lemma regions_cached [simp]: "regions_ok (gc_cached cid cp g) \<longleftrightarrow> regions_ok g"
  by (simp add: regions_ok_def region_ptrs_def)

text \<open>The search returns the named context and caches it.\<close>

lemma find_gc_cached:
  assumes ok: "gcs_ok g" and gp: "named_gc gcid g = Some gp"
  shows "GsFindGC gcid g s = Some (Some gp, gc_cached gcid (Some gp) g, s)" "gcs_ok (gc_cached gcid (Some gp) g)" "gcid \<noteq> 0"
proof -
  have m: "gp \<in> set (listgcp g)" "gc_id (gcs g gp) = gcid" using gp named_gc_iff [OF ok] by auto
  then show "gcid \<noteq> 0" using ok by (auto simp: gcs_ok_def)
  show "gcs_ok (gc_cached gcid (Some gp) g)" using ok m by (auto simp: gcs_ok_def stipple_of_def gc_cached_def)
  show "GsFindGC gcid g s = Some (Some gp, gc_cached gcid (Some gp) g, s)"
  proof (cases "gcid = cachegcid g \<and> gcid \<noteq> 0")
    case True
    then obtain gp' where "gp' \<in> set (listgcp g)" "cachegcp g = Some gp'" "gc_id (gcs g gp') = gcid" using ok by (auto simp: gcs_ok_def)
    then have "cachegcp g = Some gp" using named_gc_iff [OF ok, of gcid gp'] gp by simp
    moreover have "gc_cached (cachegcid g) (cachegcp g) g = g" by (simp add: gc_cached_def)
    ultimately show ?thesis using True by (simp add: GsFindGC_def)
  next
    case False
    then show ?thesis using gp unfolding GsFindGC_def if_not_P [OF False] named_gc_def by (simp add: gc_cached_def)
  qed
qed

lemma find_gc:
  assumes "gcs_ok g" and "named_gc gcid g = Some gp"
  obtains cid cp where "GsFindGC gcid g s = Some (Some gp, gc_cached cid cp g, s)" "gcs_ok (gc_cached cid cp g)"
  using find_gc_cached [OF assms] by blast

end
