(* ===== verification/Gc_Calls.thy ===== *)
theory Gc_Calls
  imports Gc_Agree
begin

text \<open>
  The calls of the clients for graphics contexts, regions, drawing and windows keep one invariant: contexts, regions and windows are
  well-formed, and the engine has the settings of the context that the server believes it has.
\<close>

definition gui_ok :: "gc_server \<Rightarrow> server \<Rightarrow> wtree \<Rightarrow> bool" where
  "gui_ok g s t \<longleftrightarrow> gcs_ok g \<and> regions_ok g \<and> server_ok s t \<and> believed g s"

lemma gui_okD:
  assumes "gui_ok g s t"
  shows "gcs_ok g" "regions_ok g" "server_ok s t" "believed g s"
  using assms by (simp_all add: gui_ok_def)

lemma gcs_okD:
  assumes "gcs_ok g" and "gp \<in> set (listgcp g)"
  shows "0 < gc_id (gcs g gp)" "gc_id (gcs g gp) < nextgcid g" "-1 \<le> gc_alpha (gcs g gp)" "gc_alpha (gcs g gp) \<le> 255" "gp \<notin> set (free_gcs g)"
  using assms by (auto simp: gcs_ok_def)

section \<open>Changes that the settings do not depend on\<close>

lemma believed_cong:
  assumes "believed g s" and "curgcp s' = curgcp s" and "settings s' = settings s"
  shows "believed g s'"
  using assms by (simp add: believed_def)

lemma believed_quiet:
  assumes "believed g s" and "quiet s s'"
  shows "believed g s'"
  using assms by (auto simp: believed_def quiet_def)

lemma server_ok_undrawn:
  assumes "server_ok s t" and "undrawn s' = undrawn s" and "evq_ok (evqueues s')"
    and "clipwp s' = clipwp s \<or> clipwp s' = None \<or> clipwp s' \<in> Some ` set (nodes t)"
  shows "server_ok s' t"
  by (rule server_ok_look [OF assms(1)], rule redraw_look, rule redrawI) (use assms server_okD(1) in auto)

lemma server_ok_evq: "server_ok s t \<Longrightarrow> evq_ok (evqueues s)"
  using server_okD(1) by (blast dest: baseD(3))

text \<open>An error can be reported when there is a client and memory for an event.\<close>

definition can_report :: "server \<Rightarrow> bool" where
  "can_report s \<longleftrightarrow> curclient (evqueues s) \<noteq> None \<and> event_room (evqueues s) \<noteq> 0"

lemma report:
  assumes ok: "gui_ok g s t" and c: "can_report s" "code \<noteq> GR_ERROR_MALLOC_FAILED"
  shows "\<exists>q. server_error code ident s = Some (s\<lparr>evqueues := q\<rparr>) \<and> gui_ok g (s\<lparr>evqueues := q\<rparr>) t"
proof -
  obtain q where q: "GsError code ident (evqueues s) = Some q" "evq_ok q"
    using error_needs_memory [OF server_ok_evq [OF gui_okD(3) [OF ok]] _ c(2)] c(1) by (auto simp: can_report_def)
  have "server_ok (s\<lparr>evqueues := q\<rparr>) t" by (rule server_ok_undrawn [OF gui_okD(3) [OF ok]]) (simp_all add: q)
  moreover have "believed g (s\<lparr>evqueues := q\<rparr>)" by (rule believed_cong [OF gui_okD(4) [OF ok]]) (simp_all add: settings_def)
  ultimately show ?thesis using gui_okD(1,2) [OF ok] q(1) by (intro exI [of _ q]) (simp add: server_error_def gui_ok_def)
qed

section \<open>Changing one context\<close>

lemma upd_gc_simps [simp]:
  "listgcp (upd_gc gp f g) = listgcp g" "free_gcs (upd_gc gp f g) = free_gcs g" "nextgcid (upd_gc gp f g) = nextgcid g"
  "cachegcid (upd_gc gp f g) = cachegcid g" "cachegcp (upd_gc gp f g) = cachegcp g" "bitmaps (upd_gc gp f g) = bitmaps g"
  "free_bitmaps (upd_gc gp f g) = free_bitmaps g" "listfontp (upd_gc gp f g) = listfontp g" "stdfont (upd_gc gp f g) = stdfont g"
  "regions_ok (upd_gc gp f g) \<longleftrightarrow> regions_ok g" "gcs (upd_gc gp f g) = (gcs g)(gp := f (gcs g gp))"
  "listregionp (upd_gc gp f g) = listregionp g" "rgns (upd_gc gp f g) = rgns g" "free_rgns (upd_gc gp f g) = free_rgns g"
  "nextregionid (upd_gc gp f g) = nextregionid g"
  by (simp_all add: upd_gc_def regions_ok_def region_ptrs_def)

text \<open>A change that keeps the identifier and the bitmap.\<close>

definition like :: "gr_gc \<Rightarrow> gr_gc \<Rightarrow> bool" where
  "like gc gc' \<longleftrightarrow> gc_id gc' = gc_id gc \<and> fst (gc_stipple gc') = fst (gc_stipple gc) \<and> -1 \<le> gc_alpha gc' \<and> gc_alpha gc' \<le> 255"

lemma gcs_ok_like:
  assumes ok: "gcs_ok g" and l: "like (gcs g gp) (f (gcs g gp))"
  shows "gcs_ok (upd_gc gp f g)"
proof -
  have i: "(\<lambda>gp'. gc_id (gcs (upd_gc gp f g) gp')) = (\<lambda>gp'. gc_id (gcs g gp'))"
    and st: "stipple_of (upd_gc gp f g) = stipple_of g"
    using l by (auto simp: like_def stipple_of_def)
  have id: "gc_id (gcs (upd_gc gp f g) gp') = gc_id (gcs g gp')" for gp' using fun_cong [OF i] by simp
  have a: "-1 \<le> gc_alpha (gcs (upd_gc gp f g) gp')" "gc_alpha (gcs (upd_gc gp f g) gp') \<le> 255" if "gp' \<in> set (listgcp g)" for gp'
    using l gcs_okD(3,4) [OF ok that] by (auto simp: like_def)
  show ?thesis using ok a unfolding gcs_ok_def id st upd_gc_simps(1-7) by blast
qed

lemma agrees_other: "agrees gc (upd_gc gp f g) d \<longleftrightarrow> agrees gc g d"
  by (rule iffI; erule agrees_cong) simp_all

lemma believed_changed:
  assumes "believed g s" and "gc_changed (f (gcs g gp))"
  shows "believed (upd_gc gp f g) s"
  using assms by (simp add: believed_def agrees_other)

lemma change_gc:
  assumes ok: "gui_ok g s t" and "like (gcs g gp) (f (gcs g gp))" and "gc_changed (f (gcs g gp))"
  shows "gui_ok (upd_gc gp f g) s t"
  using gui_okD [OF ok] gcs_ok_like [where f = f, OF gui_okD(1) [OF ok] assms(2)] believed_changed [where f = f and gp = gp, OF _ assms(3)]
  by (simp add: gui_ok_def)

section \<open>The frame of the operations\<close>

definition findable :: "nat \<Rightarrow> gc_server \<Rightarrow> server \<Rightarrow> bool" where
  "findable gc g s \<longleftrightarrow> named_gc gc g \<noteq> None \<or> can_report s"

lemma no_gc:
  assumes ok: "gui_ok g s t" and n: "named_gc gc g = None" and c: "can_report s"
  shows "\<exists>q. GsFindGC gc g s = Some (None, g, s\<lparr>evqueues := q\<rparr>) \<and> gui_ok g (s\<lparr>evqueues := q\<rparr>) t"
proof -
  have miss: "\<not> (gc = cachegcid g \<and> gc \<noteq> 0)"
  proof
    assume "gc = cachegcid g \<and> gc \<noteq> 0"
    then obtain gp where "gp \<in> set (listgcp g)" "gc_id (gcs g gp) = gc" using gui_okD(1) [OF ok] by (auto simp: gcs_ok_def)
    then have "named_gc gc g = Some gp" using named_gc_iff [OF gui_okD(1) [OF ok]] by blast
    then show False using n by simp
  qed
  obtain q where "server_error GR_ERROR_BAD_GC_ID gc s = Some (s\<lparr>evqueues := q\<rparr>)" "gui_ok g (s\<lparr>evqueues := q\<rparr>) t"
    using report [OF ok c, of GR_ERROR_BAD_GC_ID gc] by auto
  then show ?thesis using n unfolding GsFindGC_def if_not_P [OF miss] by (intro exI [of _ q]) (simp add: named_gc_def)
qed

lemma gui_ok_cached: "gui_ok g s t \<Longrightarrow> gcs_ok (gc_cached cid cp g) \<Longrightarrow> gui_ok (gc_cached cid cp g) s t"
  by (simp add: gui_ok_def)

lemma gc_search:
  assumes ok: "gui_ok g s t" and f: "findable gc g s"
  obtains (missing) q where "GsFindGC gc g s = Some (None, g, s\<lparr>evqueues := q\<rparr>)" "gui_ok g (s\<lparr>evqueues := q\<rparr>) t"
  | (found) gp cid cp where "named_gc gc g = Some gp" "gp \<in> set (listgcp g)" "GsFindGC gc g s = Some (Some gp, gc_cached cid cp g, s)"
      "gui_ok (gc_cached cid cp g) s t"
proof (cases "named_gc gc g")
  case None
  then show ?thesis using no_gc [OF ok None] f missing by (auto simp: findable_def)
next
  case (Some gp)
  obtain cid cp where "GsFindGC gc g s = Some (Some gp, gc_cached cid cp g, s)" "gcs_ok (gc_cached cid cp g)"
    by (rule find_gc [OF gui_okD(1) [OF ok] Some])
  then show ?thesis using found [OF Some] gui_ok_cached [OF ok] named_gc_iff [OF gui_okD(1) [OF ok], of gc gp] Some by simp
qed

lemma with_gc:
  assumes ok: "gui_ok g s t" and f: "findable gc g s"
    and body: "\<And>gp cid cp. named_gc gc g = Some gp \<Longrightarrow> gp \<in> set (listgcp g) \<Longrightarrow> gui_ok (gc_cached cid cp g) s t \<Longrightarrow>
      \<exists>g' s'. body gp (gc_cached cid cp g) s = Some (g', s') \<and> gui_ok g' s' t"
  shows "\<exists>g' s'. Option.bind (GsFindGC gc g s) (\<lambda>(r, g, s). case r of None \<Rightarrow> Some (g, s) | Some gp \<Rightarrow> body gp g s) = Some (g', s') \<and>
    gui_ok g' s' t"
  by (rule gc_search [OF ok f]) (auto dest: body)

lemma set_gc_ok:
  assumes ok: "gui_ok g s t" and f: "findable gc g s"
    and l: "\<And>p p'. f p = Some p' \<Longrightarrow> -1 \<le> gc_alpha p \<Longrightarrow> gc_alpha p \<le> 255 \<Longrightarrow> like p p'"
  shows "\<exists>g' s'. set_gc gc f g s = Some (g', s') \<and> gui_ok g' s' t"
proof -
  let ?body = "\<lambda>gp g s. Some (case f (gcs g gp) of None \<Rightarrow> (g, s) | Some p \<Rightarrow> (upd_gc gp (\<lambda>_. p\<lparr>gc_changed := True\<rparr>) g, s))"
  have eq: "set_gc gc f g s =
    Option.bind (GsFindGC gc g s) (\<lambda>(r, g, s). case r of None \<Rightarrow> Some (g, s) | Some gp \<Rightarrow> ?body gp g s)"
    unfolding set_gc_def by (rule arg_cong2 [where f = Option.bind]) (auto split: option.split)
  show ?thesis unfolding eq
  proof (rule with_gc [OF ok f])
    fix gp cid cp
    let ?g = "gc_cached cid cp g"
    assume gp: "gp \<in> set (listgcp g)" and ok': "gui_ok ?g s t"
    show "\<exists>g' s'. ?body gp ?g s = Some (g', s') \<and> gui_ok g' s' t"
    proof (cases "f (gcs g gp)")
      case None
      then show ?thesis using ok' by simp
    next
      case (Some p)
      then have "like (gcs g gp) p" using l gcs_okD(3,4) [OF gui_okD(1) [OF ok] gp] by blast
      then have "gui_ok (upd_gc gp (\<lambda>_. p\<lparr>gc_changed := True\<rparr>) ?g) s t" by (intro change_gc [OF ok']) (simp_all add: like_def)
      then show ?thesis using Some by simp
    qed
  qed
qed

section \<open>Attributes\<close>

datatype attribute =
    Foreground "32 word"
  | Background "32 word"
  | ForegroundPixelVal "32 word"
  | BackgroundPixelVal "32 word"
  | UseBackground bool
  | Mode "32 word"
  | Alpha int
  | GradationOption int int int
  | Xor "32 word"
  | LineAttributes int
  | Dash "int list"
  | FillMode int
  | Stipple "16 word list option" MWCOORD MWCOORD
  | Tile GR_WINDOW_ID MWCOORD MWCOORD
  | TSOffset MWCOORD MWCOORD
  | GraphicsExposure bool
  | Font nat
  | ClipRegion nat
  | ClipOrigin int int

fun set_attribute :: "nat \<Rightarrow> attribute \<Rightarrow> gc_server \<Rightarrow> server \<Rightarrow> (gc_server \<times> server) option" where
  "set_attribute gc (Foreground c) = GrSetGCForeground gc c"
| "set_attribute gc (Background c) = GrSetGCBackground gc c"
| "set_attribute gc (ForegroundPixelVal v) = GrSetGCForegroundPixelVal gc v"
| "set_attribute gc (BackgroundPixelVal v) = GrSetGCBackgroundPixelVal gc v"
| "set_attribute gc (UseBackground flag) = GrSetGCUseBackground gc flag"
| "set_attribute gc (Mode mode) = GrSetGCMode gc mode"
| "set_attribute gc (Alpha alpha) = GrSetGCAlpha gc alpha"
| "set_attribute gc (GradationOption start len dir) = GrSetGCGradationOption gc start len dir"
| "set_attribute gc (Xor c) = GrSetGCXor gc c"
| "set_attribute gc (LineAttributes style) = GrSetGCLineAttributes gc style"
| "set_attribute gc (Dash dashes) = GrSetGCDash gc dashes"
| "set_attribute gc (FillMode mode) = GrSetGCFillMode gc mode"
| "set_attribute gc (Stipple bits width height) = GrSetGCStipple gc bits width height"
| "set_attribute gc (Tile pixmap width height) = GrSetGCTile gc pixmap width height"
| "set_attribute gc (TSOffset x y) = GrSetGCTSOffset gc x y"
| "set_attribute gc (GraphicsExposure b) = GrSetGCGraphicsExposure gc b"
| "set_attribute gc (Font font) = GrSetGCFont gc font"
| "set_attribute gc (ClipRegion region) = GrSetGCRegion gc region"
| "set_attribute gc (ClipOrigin x y) = GrSetGCClipOrigin gc x y"

text \<open>
  When an operation can be served: a value that is refused needs an error event; a stipple must have as many bits as it says, and
  memory; a tile is a window, or none.
\<close>

fun attribute_ok :: "attribute \<Rightarrow> gc_server \<Rightarrow> server \<Rightarrow> bool" where
  "attribute_ok (Mode mode) g s \<longleftrightarrow> mode AND GR_MODE_DRAWMASK \<le> GR_MAX_MODE \<or> can_report s"
| "attribute_ok (LineAttributes style) g s \<longleftrightarrow> style \<in> {GR_LINE_SOLID, GR_LINE_ONOFF_DASH} \<or> can_report s"
| "attribute_ok (FillMode mode) g s \<longleftrightarrow> mode \<in> {GR_FILL_SOLID, GR_FILL_STIPPLE, GR_FILL_OPAQUE_STIPPLE, GR_FILL_TILE} \<or> can_report s"
| "attribute_ok (Stipple (Some bits) width height) g s \<longleftrightarrow>
     0 \<le> width \<and> 0 \<le> height \<and> MWIMAGE_SIZE width height \<le> int (length bits) \<and> free_bitmaps g \<noteq> []"
| "attribute_ok (Tile pixmap width height) g s \<longleftrightarrow> pixmap = 0 \<or> named pixmap s \<noteq> None"
| "attribute_ok a g s \<longleftrightarrow> True"

text \<open>Releasing the bitmap of a context, and giving it a new one.\<close>

lemma gcs_ok_stipple:
  assumes "gcs_ok g" and "gp \<in> set (listgcp g)" and "stipple_of g gp = Some b"
  shows "bitmaps g b \<noteq> None" "b \<notin> set (free_bitmaps g)" "\<And>gp'. gp' \<in> set (listgcp g) \<Longrightarrow> gp' \<noteq> gp \<Longrightarrow> stipple_of g gp' \<noteq> Some b"
  using assms unfolding gcs_ok_def by (blast, blast, metis option.distinct(1))

lemma free_stipple_ok:
  assumes ok: "gcs_ok g" and gp: "gp \<in> set (listgcp g)"
  obtains B F where "\<And>e. bitmaps e = bitmaps g \<Longrightarrow> free_bitmaps e = free_bitmaps g \<Longrightarrow> free_stipple (stipple_of g gp) e = Some (e\<lparr>bitmaps := B, free_bitmaps := F\<rparr>)" "distinct F"
    "\<And>gp' b. gp' \<in> set (listgcp g) \<Longrightarrow> gp' \<noteq> gp \<Longrightarrow> stipple_of g gp' = Some b \<Longrightarrow> B b = bitmaps g b \<and> b \<notin> set F"
    "set (free_bitmaps g) \<subseteq> set F"
proof (cases "stipple_of g gp")
  case None
  show ?thesis
  proof (rule that [where B = "bitmaps g" and F = "free_bitmaps g"])
    fix e :: gc_server
    assume e: "bitmaps e = bitmaps g" "free_bitmaps e = free_bitmaps g"
    show "free_stipple (stipple_of g gp) e = Some (e\<lparr>bitmaps := bitmaps g, free_bitmaps := free_bitmaps g\<rparr>)"
      unfolding e [symmetric] by (simp add: None free_stipple_def)
  next
    show "distinct (free_bitmaps g)" using ok by (simp add: gcs_ok_def)
    show "bitmaps g b = bitmaps g b \<and> b \<notin> set (free_bitmaps g)" if "gp' \<in> set (listgcp g)" "stipple_of g gp' = Some b" for gp' b
      using gcs_ok_stipple(2) [OF ok that] by simp
  qed simp
next
  case (Some b)
  note st = gcs_ok_stipple [OF ok gp Some]
  show ?thesis
  proof (rule that [where B = "(bitmaps g)(b := None)" and F = "b # free_bitmaps g"])
    fix e :: gc_server
    assume "bitmaps e = bitmaps g" "free_bitmaps e = free_bitmaps g"
    then show "free_stipple (stipple_of g gp) e = Some (e\<lparr>bitmaps := (bitmaps g)(b := None), free_bitmaps := b # free_bitmaps g\<rparr>)"
      using st(1) by (auto simp: Some free_stipple_def)
  next
    show "distinct (b # free_bitmaps g)" using ok st(2) by (simp add: gcs_ok_def)
    show "((bitmaps g)(b := None)) c = bitmaps g c \<and> c \<notin> set (b # free_bitmaps g)"
      if "gp' \<in> set (listgcp g)" "gp' \<noteq> gp" "stipple_of g gp' = Some c" for gp' c
      using gcs_ok_stipple(2) [OF ok that(1,3)] st(3) [OF that(1,2)] that(3) by auto
  qed auto
qed

text \<open>A context gets another bitmap; the others keep theirs.\<close>

lemma change_stipple:
  assumes ok: "gui_ok g s t" and gp: "gp \<in> set (listgcp g)"
    and others: "\<And>gp' b. gp' \<in> set (listgcp g) \<Longrightarrow> gp' \<noteq> gp \<Longrightarrow> stipple_of g gp' = Some b \<Longrightarrow> B b = bitmaps g b \<and> b \<notin> set F"
    and F: "distinct F" and own: "\<And>b. fst st = Some b \<Longrightarrow> B b \<noteq> None \<and> b \<notin> set F \<and> (\<forall>gp'\<in>set (listgcp g). gp' \<noteq> gp \<longrightarrow> stipple_of g gp' \<noteq> Some b)"
  shows "gui_ok (upd_gc gp (\<lambda>p. p\<lparr>gc_stipple := st, gc_changed := True\<rparr>) (g\<lparr>bitmaps := B, free_bitmaps := F\<rparr>)) s t" (is "gui_ok ?g s t")
proof -
  note G = gui_okD [OF ok]
  have st: "stipple_of ?g gp' = (if gp' = gp then fst st else stipple_of g gp')" for gp' by (simp add: stipple_of_def)
  have id: "gc_id (gcs ?g gp') = gc_id (gcs g gp')" "gc_alpha (gcs ?g gp') = gc_alpha (gcs g gp')" for gp' by simp_all
  have l: "listgcp ?g = listgcp g" "free_gcs ?g = free_gcs g" "nextgcid ?g = nextgcid g" "cachegcid ?g = cachegcid g"
    "cachegcp ?g = cachegcp g" "bitmaps ?g = B" "free_bitmaps ?g = F" by simp_all
  have mem: "\<forall>gp'\<in>set (listgcp g). \<forall>b. stipple_of ?g gp' = Some b \<longrightarrow> B b \<noteq> None \<and> b \<notin> set F"
    using others own gcs_ok_stipple(1) [OF G(1)] by (auto simp: st)
  have apart: "\<forall>gp1\<in>set (listgcp g). \<forall>gp2\<in>set (listgcp g). gp1 \<noteq> gp2 \<longrightarrow> stipple_of ?g gp1 = None \<or> stipple_of ?g gp1 \<noteq> stipple_of ?g gp2"
  proof (intro ballI impI)
    fix gp1 gp2
    assume m: "gp1 \<in> set (listgcp g)" "gp2 \<in> set (listgcp g)" "gp1 \<noteq> gp2"
    show "stipple_of ?g gp1 = None \<or> stipple_of ?g gp1 \<noteq> stipple_of ?g gp2"
    proof (cases "stipple_of ?g gp1")
      case (Some b)
      then show ?thesis
        using m own [of b] gcs_ok_stipple(3) [OF G(1) m(1), of b gp2] by (cases "gp1 = gp"; cases "gp2 = gp") (auto simp: st)
    qed simp
  qed
  have "gcs_ok ?g" using G(1) F mem apart unfolding gcs_ok_def l id by blast
  moreover have "regions_ok ?g" using G(2) by (simp add: regions_ok_def region_ptrs_def)
  moreover have "believed ?g s"
    unfolding believed_def
  proof (intro allI impI)
    fix gp'
    assume c: "curgcp s = Some gp'"
    then have b: "gp' \<in> set (listgcp g)" "\<not> gc_changed (gcs g gp') \<Longrightarrow> agrees (gcs g gp') g (settings s)" using G(4) by (auto simp: believed_def)
    have "agrees (gcs ?g gp') ?g (settings s)" if "\<not> gc_changed (gcs ?g gp')"
    proof -
      have ne: "gp' \<noteq> gp" using that by auto
      then have "agrees (gcs g gp') g (settings s)" using b(2) that by simp
      then have "agrees (gcs g gp') ?g (settings s)"
        by (rule agrees_cong) (use others [OF b(1) ne] in \<open>simp_all add: stipple_of_def\<close>)
      then show ?thesis using ne by simp
    qed
    then show "gp' \<in> set (listgcp ?g) \<and> (\<not> gc_changed (gcs ?g gp') \<longrightarrow> agrees (gcs ?g gp') ?g (settings s))" using b(1) by simp
  qed
  ultimately show ?thesis using G(3) by (simp add: gui_ok_def)
qed

lemma stipple_ok:
  assumes ok: "gui_ok g s t" and f: "findable gc g s" and a: "attribute_ok (Stipple bitmap width height) g s"
  shows "\<exists>g' s'. GrSetGCStipple gc bitmap width height g s = Some (g', s') \<and> gui_ok g' s' t"
  unfolding GrSetGCStipple_def
proof (rule with_gc [OF ok f])
  fix gp cid cp
  let ?g = "gc_cached cid cp g"
  assume gp: "gp \<in> set (listgcp g)" and ok': "gui_ok ?g s t"
  have gp': "gp \<in> set (listgcp ?g)" using gp by simp
  obtain F B where free: "\<And>e. bitmaps e = bitmaps ?g \<Longrightarrow> free_bitmaps e = free_bitmaps ?g \<Longrightarrow>
      free_stipple (stipple_of ?g gp) e = Some (e\<lparr>bitmaps := B, free_bitmaps := F\<rparr>)" "distinct F"
    "\<And>gp' b. gp' \<in> set (listgcp ?g) \<Longrightarrow> gp' \<noteq> gp \<Longrightarrow> stipple_of ?g gp' = Some b \<Longrightarrow> B b = bitmaps ?g b \<and> b \<notin> set F"
    "set (free_bitmaps ?g) \<subseteq> set F"
    by (rule free_stipple_ok [OF gui_okD(1) [OF ok'] gp']) (rule that)
  note free' = free(1) [OF refl refl, unfolded stipple_of_def gc_cached_simps(1)]
  show "\<exists>g' s'. Option.bind (free_stipple (fst (gc_stipple (gcs ?g gp))) ?g) (\<lambda>g. case bitmap of
      None \<Rightarrow> Some (upd_gc gp (\<lambda>p. p\<lparr>gc_stipple := (None, 0, 0), gc_changed := True\<rparr>) g, s)
    | Some bits \<Rightarrow> (case free_bitmaps g of [] \<Rightarrow> None | b # rest \<Rightarrow>
        let size = MWIMAGE_SIZE width height in if width < 0 \<or> height < 0 \<or> int (length bits) < size then None
        else Some (upd_gc gp (\<lambda>p. p\<lparr>gc_stipple := (Some b, width, height), gc_changed := True\<rparr>)
          (g\<lparr>bitmaps := (bitmaps g)(b := Some (take (nat size) bits)), free_bitmaps := rest\<rparr>), s))) = Some (g', s') \<and> gui_ok g' s' t"
  proof (cases bitmap)
    case None
    have "gui_ok (upd_gc gp (\<lambda>p. p\<lparr>gc_stipple := (None, 0, 0), gc_changed := True\<rparr>) (?g\<lparr>bitmaps := B, free_bitmaps := F\<rparr>)) s t"
      by (rule change_stipple [OF ok' gp' free(3,2)]) auto
    then show ?thesis using None by (simp add: free')
  next
    case (Some bits)
    then have a: "0 \<le> width" "0 \<le> height" "MWIMAGE_SIZE width height \<le> int (length bits)" "free_bitmaps g \<noteq> []" using a by simp_all
    obtain b rest where F: "F = b # rest" using a(4) free(4) by (cases F) auto
    let ?B = "B(b := Some (take (nat (MWIMAGE_SIZE width height)) bits))"
    have "gui_ok (upd_gc gp (\<lambda>p. p\<lparr>gc_stipple := (Some b, width, height), gc_changed := True\<rparr>) (?g\<lparr>bitmaps := ?B, free_bitmaps := rest\<rparr>)) s t"
    proof (rule change_stipple [OF ok' gp'])
      fix gp' c
      assume "gp' \<in> set (listgcp ?g)" "gp' \<noteq> gp" "stipple_of ?g gp' = Some c"
      then show "?B c = bitmaps ?g c \<and> c \<notin> set rest" using free(3) F by fastforce
    next
      fix c
      assume "fst (Some b, width, height) = Some c"
      then show "?B c \<noteq> None \<and> c \<notin> set rest \<and> (\<forall>gp'\<in>set (listgcp ?g). gp' \<noteq> gp \<longrightarrow> stipple_of ?g gp' \<noteq> Some c)"
        using free(2,3) F by fastforce
    qed (use free(2) F in simp)
    then show ?thesis using Some F a by (simp add: free' Let_def)
  qed
qed

text \<open>The cache of the windows is no part of what the contexts depend on.\<close>

lemma gui_ok_server:
  assumes "gui_ok g s t" and "server_ok s' t" and "curgcp s' = curgcp s" and "engine_calls s' = engine_calls s"
  shows "gui_ok g s' t"
  using gui_okD [OF assms(1)] believed_cong [OF gui_okD(4) [OF assms(1)] assms(3)] assms(2,4) by (simp add: gui_ok_def settings_def)

lemma find_named:
  assumes ok: "gui_ok g s t" and n: "named ident s = Some w"
  obtains cid cw where "GsFindWindow ident s = Some (Some w, with_cache cid cw s)" "gui_ok g (with_cache cid cw s) t" "w \<in> set (nodes t)"
proof -
  have w: "w \<in> set (nodes t)" "w_id (win s w) = ident" using n named_node [OF gui_okD(3) [OF ok]] by auto
  obtain cid cw where f: "GsFindWindow (w_id (win s w)) s = Some (Some w, with_cache cid cw s)" "server_ok (with_cache cid cw s) t"
    by (rule find_node [OF gui_okD(3) [OF ok] w(1)])
  have "gui_ok g (with_cache cid cw s) t" by (rule gui_ok_server [OF ok f(2)]) (simp_all add: with_cache_def)
  then show ?thesis using that f(1) w by simp
qed

lemma tile_ok:
  assumes ok: "gui_ok g s t" and f: "findable gc g s" and a: "attribute_ok (Tile pixmap width height) g s"
  shows "\<exists>g' s'. GrSetGCTile gc pixmap width height g s = Some (g', s') \<and> gui_ok g' s' t"
  unfolding GrSetGCTile_def
proof (rule with_gc [OF ok f], goal_cases)
  case (1 gp cid cp)
  let ?g = "gc_cached cid cp g"
  have l: "gui_ok (upd_gc gp (\<lambda>p. p\<lparr>gc_tile := x, gc_changed := True\<rparr>) ?g) s1 t" if "gui_ok ?g s1 t" for x s1
    by (rule change_gc [OF that]) (use gcs_okD(3,4) [OF gui_okD(1) [OF ok] 1(2)] in \<open>simp_all add: like_def\<close>)
  show ?case
  proof (cases "pixmap = 0")
    case True
    then show ?thesis using l [OF 1(3)] by simp
  next
    case False
    then obtain w where "named pixmap s = Some w" using a by auto
    then obtain cid' cw where "GsFindWindow pixmap s = Some (Some w, with_cache cid' cw s)" "gui_ok ?g (with_cache cid' cw s) t"
      by (rule find_named [OF 1(3)])
    then show ?thesis using False l by simp
  qed
qed

lemma set_attribute_ok:
  assumes ok: "gui_ok g s t" and f: "findable gc g s" and a: "attribute_ok a g s"
  shows "\<exists>g' s'. set_attribute gc a g s = Some (g', s') \<and> gui_ok g' s' t"
proof -
  note set = set_gc_ok [OF ok f]
  have change: "\<exists>g' s'. Option.bind (GsFindGC gc g s) (\<lambda>(r, g, s). case r of None \<Rightarrow> Some (g, s) | Some gp \<Rightarrow>
      if b (gcs g gp) then Some (g, s) else if b' then Some (upd_gc gp (\<lambda>p. (h p)\<lparr>gc_changed := True\<rparr>) g, s)
      else map_option (Pair g) (server_error code gc s)) = Some (g', s') \<and> gui_ok g' s' t"
    if "b' \<or> can_report s" "code \<noteq> GR_ERROR_MALLOC_FAILED" "\<And>p. -1 \<le> gc_alpha p \<Longrightarrow> gc_alpha p \<le> 255 \<Longrightarrow> like p (h p)" for b b' h code
  proof (rule with_gc [OF ok f], goal_cases)
    case (1 gp cid cp)
    have "gui_ok (upd_gc gp (\<lambda>p. (h p)\<lparr>gc_changed := True\<rparr>) (gc_cached cid cp g)) s t"
      by (rule change_gc [OF 1(3)]) (use that(3) gcs_okD(3,4) [OF gui_okD(1) [OF ok] 1(2)] in \<open>auto simp: like_def\<close>)
    then show ?case using 1(3) report [OF 1(3) _ that(2)] that(1) by fastforce
  qed
  show ?thesis
  proof (cases a)
    case (Mode mode)
    have swap: "(if \<not> P then x else y) = (if P then y else x)" for P and x y :: "(gc_server \<times> server) option" by simp
    have m: "\<not> GR_MAX_MODE < mode AND GR_MODE_DRAWMASK \<or> can_report s" using a Mode by auto
    show ?thesis unfolding Mode set_attribute.simps GrSetGCMode_def
      by (rule change [OF m, of GR_ERROR_BAD_DRAWING_MODE "\<lambda>p. p\<lparr>gc_mode := mode\<rparr>" "\<lambda>p. gc_mode p = mode", unfolded swap])
        (simp_all add: like_def)
  next
    case (LineAttributes style)
    have m: "(style = GR_LINE_SOLID \<or> style = GR_LINE_ONOFF_DASH) \<or> can_report s" using a LineAttributes by auto
    show ?thesis unfolding LineAttributes set_attribute.simps GrSetGCLineAttributes_def
      by (rule change [OF m, of GR_ERROR_BAD_LINE_ATTRIBUTE "\<lambda>p. p\<lparr>gc_linestyle := style\<rparr>" "\<lambda>p. False", unfolded if_False])
        (simp_all add: like_def)
  next
    case (FillMode mode)
    have m: "mode \<in> {GR_FILL_SOLID, GR_FILL_STIPPLE, GR_FILL_OPAQUE_STIPPLE, GR_FILL_TILE} \<or> can_report s" using a FillMode by auto
    show ?thesis unfolding FillMode set_attribute.simps GrSetGCFillMode_def
      by (rule change [OF m, of GR_ERROR_BAD_FILL_MODE "\<lambda>p. p\<lparr>gc_fillmode := mode\<rparr>" "\<lambda>p. False", unfolded if_False])
        (simp_all add: like_def)
  next
    case (Stipple bits width height)
    then show ?thesis using stipple_ok [OF ok f] a by simp
  next
    case (Tile pixmap width height)
    then show ?thesis using tile_ok [OF ok f] a by simp
  qed (use set in \<open>auto simp: like_def Let_def GrSetGCForeground_def GrSetGCBackground_def GrSetGCForegroundPixelVal_def
      GrSetGCBackgroundPixelVal_def GrSetGCUseBackground_def GrSetGCAlpha_def GrSetGCGradationOption_def GrSetGCXor_def GrSetGCDash_def
      GrSetGCTSOffset_def GrSetGCGraphicsExposure_def GrSetGCFont_def GrSetGCRegion_def GrSetGCClipOrigin_def
      split: if_splits prod.splits intro!: set\<close>)
qed

section \<open>Making and destroying contexts\<close>

lemma add_gc_ok:
  assumes ok: "gui_ok g s t" and f: "free_gcs g = gp # rest" and gc: "gc_id gc = nextgcid g" "-1 \<le> gc_alpha gc" "gc_alpha gc \<le> 255"
    "fst (gc_stipple gc) = None"
  shows "gui_ok (add_gc gp rest gc g) s t" (is "gui_ok ?g s t")
proof -
  note G = gui_okD [OF ok]
  have new: "gp \<notin> set (listgcp g)" "distinct (gp # rest)" "set (gp # rest) \<inter> set (listgcp g) = {}" using G(1) f by (auto simp: gcs_ok_def)
  have old: "gcs ?g gp' = gcs g gp'" if "gp' \<in> set (listgcp g)" for gp' using that new(1) by (auto simp: add_gc_def)
  have own: "gcs ?g gp = gc" by (simp add: add_gc_def)
  have l: "listgcp ?g = gp # listgcp g" "free_gcs ?g = rest" "nextgcid ?g = nextgcid g + 1" "cachegcid ?g = cachegcid g"
    "cachegcp ?g = cachegcp g" "bitmaps ?g = bitmaps g" "free_bitmaps ?g = free_bitmaps g" by (simp_all add: add_gc_def)
  have st: "stipple_of ?g gp = None" "\<And>gp'. gp' \<in> set (listgcp g) \<Longrightarrow> stipple_of ?g gp' = stipple_of g gp'"
    using gc(4) old own by (simp_all add: stipple_of_def)
  have ids: "gc_id (gcs g gp') \<noteq> nextgcid g" if "gp' \<in> set (listgcp g)" for gp' using gcs_okD(2) [OF G(1) that] by simp
  have "inj_on (\<lambda>gp. gc_id (gcs ?g gp)) (set (gp # listgcp g))"
  proof -
    have "inj_on (\<lambda>gp. gc_id (gcs ?g gp)) (set (listgcp g))"
      using G(1) old by (auto simp: gcs_ok_def inj_on_def)
    moreover have "gc_id (gcs ?g gp) \<notin> (\<lambda>gp. gc_id (gcs ?g gp)) ` (set (listgcp g) - {gp})"
    proof
      assume "gc_id (gcs ?g gp) \<in> (\<lambda>gp. gc_id (gcs ?g gp)) ` (set (listgcp g) - {gp})"
      then obtain q where "q \<in> set (listgcp g)" "gc_id (gcs ?g gp) = gc_id (gcs ?g q)" by blast
      then show False using ids [of q] old [of q] own gc(1) by simp
    qed
    ultimately show ?thesis by simp
  qed
  moreover have "\<forall>gp'\<in>set (gp # listgcp g). 0 < gc_id (gcs ?g gp') \<and> gc_id (gcs ?g gp') < nextgcid g + 1 \<and> -1 \<le> gc_alpha (gcs ?g gp') \<and>
      gc_alpha (gcs ?g gp') \<le> 255"
  proof
    fix gp'
    assume "gp' \<in> set (gp # listgcp g)"
    then consider "gp' = gp" | "gp' \<in> set (listgcp g)" by auto
    then show "0 < gc_id (gcs ?g gp') \<and> gc_id (gcs ?g gp') < nextgcid g + 1 \<and> -1 \<le> gc_alpha (gcs ?g gp') \<and> gc_alpha (gcs ?g gp') \<le> 255"
    proof cases
      case 1
      then show ?thesis using G(1) gc own by (simp add: gcs_ok_def)
    next
      case 2
      then show ?thesis using gcs_okD [OF G(1) 2] old by simp
    qed
  qed
  moreover have "cachegcid g \<noteq> 0 \<longrightarrow> (\<exists>gp'\<in>set (gp # listgcp g). cachegcp g = Some gp' \<and> gc_id (gcs ?g gp') = cachegcid g)"
    using G(1) old by (auto simp: gcs_ok_def)
  moreover have "\<forall>gp'\<in>set (gp # listgcp g). \<forall>b. stipple_of ?g gp' = Some b \<longrightarrow> bitmaps g b \<noteq> None \<and> b \<notin> set (free_bitmaps g)"
    using G(1) st by (auto simp: gcs_ok_def)
  moreover have "\<forall>gp1\<in>set (gp # listgcp g). \<forall>gp2\<in>set (gp # listgcp g). gp1 \<noteq> gp2 \<longrightarrow>
      stipple_of ?g gp1 = None \<or> stipple_of ?g gp1 \<noteq> stipple_of ?g gp2"
    using G(1) st by (auto simp: gcs_ok_def)
  moreover have "distinct ((gp # listgcp g) @ rest)" using G(1) new f by (auto simp: gcs_ok_def)
  moreover have "distinct (free_bitmaps g)" "0 < nextgcid g + 1" using G(1) by (simp_all add: gcs_ok_def)
  ultimately have "gcs_ok ?g" unfolding gcs_ok_def l by blast
  moreover have "regions_ok ?g" using G(2) by (simp add: regions_ok_def region_ptrs_def add_gc_def)
  moreover have "believed ?g s" unfolding believed_def
  proof (intro allI impI)
    fix gp'
    assume "curgcp s = Some gp'"
    then have b: "gp' \<in> set (listgcp g)" "\<not> gc_changed (gcs g gp') \<Longrightarrow> agrees (gcs g gp') g (settings s)" using G(4) by (auto simp: believed_def)
    have "agrees (gcs g gp') ?g d" if "agrees (gcs g gp') g d" for d by (rule agrees_cong [OF that]) (simp_all add: add_gc_def)
    then show "gp' \<in> set (listgcp ?g) \<and> (\<not> gc_changed (gcs ?g gp') \<longrightarrow> agrees (gcs ?g gp') ?g (settings s))"
      using b old [OF b(1)] l(1) by simp
  qed
  ultimately show ?thesis using G(3) by (simp add: gui_ok_def)
qed

lemma new_gc_ok:
  assumes ok: "gui_ok g s t" and f: "free_gcs g \<noteq> []"
  shows "\<exists>g'. GrNewGC g s = Some (nextgcid g, g', s) \<and> gui_ok g' s t \<and> named_gc (nextgcid g) g' \<noteq> None"
proof -
  obtain gp rest where f: "free_gcs g = gp # rest" using f by (cases "free_gcs g") auto
  let ?g = "add_gc gp rest (default_gc (nextgcid g) (curclient (evqueues s))) g"
  have "gui_ok ?g s t" by (rule add_gc_ok [OF ok f]) (simp_all add: default_gc_def)
  moreover have "named_gc (nextgcid g) ?g = Some gp" by (simp add: named_gc_def add_gc_def default_gc_def)
  ultimately show ?thesis using f by (simp add: GrNewGC_def)
qed

lemma copy_gc_ok:
  assumes ok: "gui_ok g s t" and n: "named_gc gc g = Some gp" and st: "stipple_of g gp = None" and f: "free_gcs g \<noteq> []"
  shows "\<exists>r g' s'. GrCopyGC gc g s = Some (r, g', s') \<and> gui_ok g' s' t"
proof -
  obtain cid cp where found: "GsFindGC gc g s = Some (Some gp, gc_cached cid cp g, s)" "gcs_ok (gc_cached cid cp g)"
    by (rule find_gc [OF gui_okD(1) [OF ok] n])
  obtain q rest where f: "free_gcs g = q # rest" using f by (cases "free_gcs g") auto
  have gp: "gp \<in> set (listgcp g)" using n named_gc_iff [OF gui_okD(1) [OF ok]] by blast
  have "gui_ok (add_gc q rest ((gcs g gp)\<lparr>gc_id := nextgcid g, gc_changed := True, gc_owner := curclient (evqueues s)\<rparr>) (gc_cached cid cp g)) s t"
    by (rule add_gc_ok [OF gui_ok_cached [OF ok found(2)]]) (use f st gcs_okD(3,4) [OF gui_okD(1) [OF ok] gp] in \<open>simp_all add: stipple_of_def\<close>)
  then show ?thesis using found(1) f by (simp add: GrCopyGC_def)
qed

end
