(* ===== verification/Gc_Draw.thy ===== *)
theory Gc_Draw
  imports Gc_Calls
begin

text \<open>
  Destroying contexts and fonts, and the preparation of a drawing: a context that is not the one of the engine, or that has changed, is
  handed over, and the clip region is computed anew.
\<close>

section \<open>Destroying\<close>

lemma drop_gc_ok:
  assumes ok: "gui_ok g s t" and gp: "gp \<in> set (listgcp g)" and B: "distinct F"
    "\<And>gp' b. gp' \<in> set (listgcp g) \<Longrightarrow> gp' \<noteq> gp \<Longrightarrow> stipple_of g gp' = Some b \<Longrightarrow> B b = bitmaps g b \<and> b \<notin> set F"
    and c: "cid \<noteq> 0 \<Longrightarrow> \<exists>gp'\<in>set (listgcp g). gp' \<noteq> gp \<and> cp = Some gp' \<and> gc_id (gcs g gp') = cid"
    and s': "s' = (if curgcp s = Some gp then s\<lparr>curgcp := None\<rparr> else s)"
  shows "gui_ok (g\<lparr>cachegcid := cid, cachegcp := cp, listgcp := remove1 gp (listgcp g), bitmaps := B, free_bitmaps := F, free_gcs := gp # free_gcs g\<rparr>) s' t"
    (is "gui_ok ?g s' t")
proof -
  note G = gui_okD [OF ok]
  have d: "distinct (listgcp g)" using G(1) by (auto simp: gcs_ok_def)
  have set: "set (remove1 gp (listgcp g)) = set (listgcp g) - {gp}" using d by simp
  have l: "listgcp ?g = remove1 gp (listgcp g)" "free_gcs ?g = gp # free_gcs g" "nextgcid ?g = nextgcid g" "cachegcid ?g = cid"
    "cachegcp ?g = cp" "bitmaps ?g = B" "free_bitmaps ?g = F" "gcs ?g = gcs g" by simp_all
  have st: "stipple_of ?g = stipple_of g" by (simp add: stipple_of_def fun_eq_iff)
  have "distinct (remove1 gp (listgcp g) @ gp # free_gcs g)" using G(1) d gp by (auto simp: gcs_ok_def)
  moreover have "inj_on (\<lambda>gp. gc_id (gcs g gp)) (set (remove1 gp (listgcp g)))" using G(1) set by (auto simp: gcs_ok_def inj_on_def)
  moreover have "cid \<noteq> 0 \<longrightarrow> (\<exists>gp'\<in>set (remove1 gp (listgcp g)). cp = Some gp' \<and> gc_id (gcs g gp') = cid)" using c set by auto
  moreover have "\<forall>gp'\<in>set (remove1 gp (listgcp g)). \<forall>b. stipple_of g gp' = Some b \<longrightarrow> B b \<noteq> None \<and> b \<notin> set F"
    using B(2) gcs_ok_stipple(1) [OF G(1)] set by fastforce
  moreover have "0 < nextgcid g" "\<forall>gp'\<in>set (remove1 gp (listgcp g)). 0 < gc_id (gcs g gp') \<and> gc_id (gcs g gp') < nextgcid g \<and>
      -1 \<le> gc_alpha (gcs g gp') \<and> gc_alpha (gcs g gp') \<le> 255"
    "\<forall>gp1\<in>set (remove1 gp (listgcp g)). \<forall>gp2\<in>set (remove1 gp (listgcp g)). gp1 \<noteq> gp2 \<longrightarrow> stipple_of g gp1 = None \<or> stipple_of g gp1 \<noteq> stipple_of g gp2"
    using G(1) set by (simp_all add: gcs_ok_def)
  ultimately have "gcs_ok ?g" using B(1) unfolding gcs_ok_def l st by blast
  moreover have "regions_ok ?g" using G(2) by (simp add: regions_ok_def region_ptrs_def)
  moreover have "server_ok s' t"
    by (rule server_ok_undrawn [OF G(3)]) (use server_ok_evq [OF G(3)] in \<open>simp_all add: s'\<close>)
  moreover have "believed ?g s'" unfolding believed_def
  proof (intro allI impI)
    fix gp'
    assume "curgcp s' = Some gp'"
    then have ne: "gp' \<noteq> gp" "curgcp s = Some gp'" "s' = s" by (auto simp: s' split: if_splits)
    then have b: "gp' \<in> set (listgcp g)" "\<not> gc_changed (gcs g gp') \<Longrightarrow> agrees (gcs g gp') g (settings s)" using G(4) by (auto simp: believed_def)
    have "agrees (gcs g gp') ?g d" if "agrees (gcs g gp') g d" for d
      by (rule agrees_cong [OF that]) (use B(2) [OF b(1) ne(1)] in \<open>simp_all add: stipple_of_def\<close>)
    then show "gp' \<in> set (listgcp ?g) \<and> (\<not> gc_changed (gcs ?g gp') \<longrightarrow> agrees (gcs ?g gp') ?g (settings s'))"
      using b ne set by simp
  qed
  ultimately show ?thesis by (simp add: gui_ok_def)
qed

lemma destroy_gc_ok:
  assumes ok: "gui_ok g s t" and f: "findable gc g s"
  shows "\<exists>g' s'. GrDestroyGC gc g s = Some (g', s') \<and> gui_ok g' s' t"
  unfolding GrDestroyGC_def
proof (rule with_gc [OF ok f], goal_cases)
  case (1 gp cid cp)
  let ?g = "gc_cached cid cp g"
  let ?cid = "if gc = cid then 0 else cid" and ?cp = "if gc = cid then None else cp" and ?s = "if curgcp s = Some gp then s\<lparr>curgcp := None\<rparr> else s"
  have gp: "gp \<in> set (listgcp ?g)" using 1(2) by simp
  obtain B F where free: "\<And>e. bitmaps e = bitmaps ?g \<Longrightarrow> free_bitmaps e = free_bitmaps ?g \<Longrightarrow>
      free_stipple (stipple_of ?g gp) e = Some (e\<lparr>bitmaps := B, free_bitmaps := F\<rparr>)" "distinct F"
    "\<And>gp' b. gp' \<in> set (listgcp ?g) \<Longrightarrow> gp' \<noteq> gp \<Longrightarrow> stipple_of ?g gp' = Some b \<Longrightarrow> B b = bitmaps ?g b \<and> b \<notin> set F"
    by (rule free_stipple_ok [OF gui_okD(1) [OF 1(3)] gp]) (rule that)
  have c: "\<exists>gp'\<in>set (listgcp ?g). gp' \<noteq> gp \<and> ?cp = Some gp' \<and> gc_id (gcs ?g gp') = ?cid" if "?cid \<noteq> 0"
  proof -
    have "cachegcid ?g = cid" "cachegcp ?g = cp" by (simp_all add: gc_cached_def)
    then have "cid \<noteq> 0 \<longrightarrow> (\<exists>gp'\<in>set (listgcp ?g). cp = Some gp' \<and> gc_id (gcs ?g gp') = cid)"
      using gui_okD(1) [OF 1(3)] unfolding gcs_ok_def by metis
    moreover have "gc_id (gcs ?g gp) = gc" using 1(1) named_gc_iff [OF gui_okD(1) [OF ok]] by auto
    ultimately show ?thesis using that by (auto split: if_splits)
  qed
  let ?r = "\<lambda>g. g\<lparr>cachegcid := ?cid, cachegcp := ?cp, listgcp := remove1 gp (listgcp g), bitmaps := B, free_bitmaps := F,
    free_gcs := gp # free_gcs g\<rparr>"
  let ?k = "if gc = cachegcid ?g then ?g\<lparr>cachegcid := 0, cachegcp := None\<rparr> else ?g"
  let ?h = "?k\<lparr>listgcp := remove1 gp (listgcp ?k)\<rparr>"
  have gui: "gui_ok (?r ?g) ?s t" by (rule drop_gc_ok [OF 1(3) gp free(2,3) c refl])
  have "gcs ?h = gcs ?g" "bitmaps ?h = bitmaps ?g" "free_bitmaps ?h = free_bitmaps ?g" by simp_all
  then have "free_stipple (fst (gc_stipple (gcs ?h gp))) ?h = Some (?h\<lparr>bitmaps := B, free_bitmaps := F\<rparr>)"
    using free(1) [of ?h] by (simp only: stipple_of_def)
  moreover have "?h\<lparr>bitmaps := B, free_bitmaps := F, free_gcs := gp # free_gcs (?h\<lparr>bitmaps := B, free_bitmaps := F\<rparr>)\<rparr> = ?r ?g"
    by (simp add: gc_cached_def)
  ultimately have "map_option (\<lambda>g. (g\<lparr>free_gcs := gp # free_gcs g\<rparr>, ?s)) (free_stipple (fst (gc_stipple (gcs ?h gp))) ?h) = Some (?r ?g, ?s)"
    by (simp only: option.map)
  then show ?case using gui unfolding Let_def by blast
qed

lemma find_remove1: "find P xs \<noteq> Some x \<Longrightarrow> find P (remove1 x xs) = find P xs"
  by (induction xs) auto

lemma destroy_font_ok:
  assumes ok: "gui_ok g s t"
  shows "gui_ok (fst (GrDestroyFont fontid g s)) (snd (GrDestroyFont fontid g s)) t"
proof (cases "GsFindFont fontid g")
  case None
  then show ?thesis using ok by (simp add: GrDestroyFont_def)
next
  case (Some f)
  note G = gui_okD [OF ok]
  let ?g = "g\<lparr>listfontp := remove1 f (listfontp g)\<rparr>"
  let ?s = "if gr_pfont (settings s) = Some (f_pfont f) then engine [CallSetFont None] s else s"
  have "gcs_ok ?g" using G(1) by (simp add: gcs_ok_def stipple_of_def)
  moreover have "regions_ok ?g" using G(2) by (simp add: regions_ok_def region_ptrs_def)
  moreover have "server_ok ?s t" by (rule server_ok_undrawn [OF G(3)]) (use server_ok_evq [OF G(3)] in \<open>simp_all add: engine_def\<close>)
  moreover have "agrees gc ?g (settings ?s)" if "agrees gc g (settings s)" for gc
  proof -
    have keep: "agrees gc ?g (d\<lparr>gr_pfont := p\<rparr>)" if "agrees gc g d" "p = None \<or> p = font_of gc ?g" for d p
    proof -
      have b: "bitmaps ?g = bitmaps g" by simp
      show ?thesis using that unfolding agrees_def b by auto
    qed
    show ?thesis
    proof (cases "gr_pfont (settings s) = Some (f_pfont f)")
      case True
      then have "settings ?s = (settings s)\<lparr>gr_pfont := None\<rparr>" by (simp add: settings_engine GdSetFont_def)
      then show ?thesis using keep [OF that] by simp
    next
      case False
      have "gr_pfont (settings s) = None \<or> gr_pfont (settings s) = font_of gc ?g"
      proof (cases "GsFindFont (gc_fontid gc) g = Some f")
        case True
        then show ?thesis using that False by (auto simp: agrees_def font_of_def)
      next
        case other: False
        then have "GsFindFont (gc_fontid gc) ?g = GsFindFont (gc_fontid gc) g"
          by (simp add: GsFindFont_def find_remove1)
        then have "font_of gc ?g = font_of gc g" by (simp add: font_of_def cong: option.case_cong)
        then show ?thesis using that unfolding agrees_def by argo
      qed
      then show ?thesis using keep [OF that, of "gr_pfont (settings s)"] False by simp
    qed
  qed
  note ag = this
  have c: "curgcp ?s = curgcp s" by simp
  have "believed ?g ?s" unfolding believed_def c using ag G(4) [unfolded believed_def] by simp
  ultimately show ?thesis using Some by (simp add: GrDestroyFont_def gui_ok_def)
qed

section \<open>Handing a context over\<close>

lemma agrees_changed: "agrees (gc\<lparr>gc_changed := b\<rparr>) g d \<longleftrightarrow> agrees gc g d"
  by (simp add: agrees_def font_of_def)

lemma engine_ok:
  assumes "server_ok s t"
  shows "server_ok (engine cs s) t"
  by (rule server_ok_undrawn [OF assms]) (use server_ok_evq [OF assms] in \<open>simp_all add: engine_def\<close>)

lemma like_gradation: "-1 \<le> gc_alpha gc \<Longrightarrow> gc_alpha gc \<le> 255 \<Longrightarrow> like gc (move_gradation w gc)"
  by (simp add: like_def move_gradation_def Let_def)

lemma changed_gradation [simp]: "gc_changed (move_gradation w gc) = gc_changed gc"
  by (simp add: move_gradation_def Let_def)

text \<open>The gradation of a context in an engine that draws in a window.\<close>

definition shown_gc :: "drawable \<Rightarrow> server \<Rightarrow> gr_gc \<Rightarrow> gr_gc" where
  "shown_gc dp s gc = (case dp of DrawableWindow wp \<Rightarrow> move_gradation (win s wp) gc | DrawablePixmap pp \<Rightarrow> gc)"

lemma enable_ok:
  assumes ok: "gui_ok g s t" and c: "curgcp s = Some gp"
  shows "\<exists>g' cs. enable_gc gp dp g s = Some (Some dp, g', engine cs s) \<and> gui_ok g' (engine cs s) t \<and>
    gcs g' = (gcs g)(gp := (if gc_changed (gcs g gp) then shown_gc dp s (gcs g gp) else gcs g gp)\<lparr>gc_changed := False\<rparr>) \<and>
    listgcp g' = listgcp g \<and> agrees (gcs g' gp) g' (settings (engine cs s)) \<and>
    (gc_changed (gcs g gp) \<longrightarrow> gr_pfont (settings (engine cs s)) = font_of (gcs g gp) g)"
proof (cases "gc_changed (gcs g gp)")
  case False
  have "engine [] s = s" by (simp add: engine_def)
  moreover have "agrees (gcs g gp) g (settings s)" using gui_okD(4) [OF ok] c False by (simp add: believed_def)
  moreover have "(gcs g)(gp := (gcs g gp)\<lparr>gc_changed := False\<rparr>) = gcs g" using False by (cases "gcs g gp") (auto simp: fun_eq_iff)
  ultimately show ?thesis using ok False by (intro exI [of _ g] exI [of _ "[]"]) (simp add: enable_gc_def)
next
  case True
  note G = gui_okD [OF ok]
  let ?gc = "shown_gc dp s (gcs g gp)"
  define g1 where "g1 = (case dp of DrawableWindow wp \<Rightarrow> upd_gc gp (move_gradation (win s wp)) g | _ \<Rightarrow> g)"
  have gp: "gp \<in> set (listgcp g)" using G(4) c by (simp add: believed_def)
  note a = gcs_okD(3,4) [OF G(1) gp]
  have g1: "gui_ok g1 s t"
  proof (cases dp)
    case (DrawableWindow wp)
    have "gui_ok (upd_gc gp (move_gradation (win s wp)) g) s t"
      by (rule change_gc [where f = "move_gradation (win s wp)", OF ok like_gradation [OF a]]) (simp add: True)
    then show ?thesis by (simp add: g1_def DrawableWindow)
  next
    case DrawablePixmap
    then show ?thesis using ok by (simp add: g1_def)
  qed
  have f1: "gcs g1 = (gcs g)(gp := ?gc)" "listgcp g1 = listgcp g" "listfontp g1 = listfontp g" "stdfont g1 = stdfont g"
    by (auto simp: g1_def shown_gc_def fun_eq_iff split: drawable.split)
  have gp1: "gp \<in> set (listgcp g1)" using gp f1 by simp
  obtain cs where cs: "gc_calls (gcs g1 gp) g1 = Some cs" using gc_calls_total [OF gui_okD(1) [OF g1] gp1] by blast
  let ?h = "\<lambda>p. p\<lparr>gc_changed := False\<rparr>"
  let ?g = "upd_gc gp ?h g1" and ?s = "engine cs s"
  note agree = gc_calls_agree [OF cs gcs_okD(3,4) [OF gui_okD(1) [OF g1] gp1], of "settings s"]
  have ag: "agrees (gcs ?g gp) ?g (settings ?s)"
    using agree(1) by (simp add: agrees_other agrees_changed settings_engine)
  have "gcs_ok ?g"
    by (rule gcs_ok_like [OF gui_okD(1) [OF g1]]) (use gcs_okD(3,4) [OF gui_okD(1) [OF g1] gp1] in \<open>simp add: like_def\<close>)
  moreover have "believed ?g ?s" using ag gp1 c by (simp add: believed_def)
  ultimately have gui: "gui_ok ?g ?s t" using gui_okD(2) [OF g1] engine_ok [OF G(3)] by (simp add: gui_ok_def)
  have fon: "font_of ?gc g = font_of (gcs g gp) g"
    by (simp add: font_of_def shown_gc_def move_gradation_def Let_def split: drawable.split)
  have "font_of (gcs g1 gp) g1 = font_of (gcs g gp) g" using fon f1 by (simp add: font_of_def GsFindFont_def cong: option.case_cong)
  then have "gr_pfont (settings ?s) = font_of (gcs g gp) g" using agree(2) by (simp add: settings_engine)
  moreover have "enable_gc gp dp g s = Some (Some dp, ?g, ?s)" using True cs unfolding enable_gc_def g1_def by (simp add: Let_def)
  ultimately show ?thesis using gui ag True f1 by (intro exI [of _ ?g] exI [of _ cs]) (simp add: fun_eq_iff)
qed

section \<open>The clip region of a drawing\<close>

text \<open>The points of the screen that a context lets be drawn in a window: the visible points, cut by the region of the context at its place.\<close>

definition context_pts :: "gr_gc \<Rightarrow> gc_server \<Rightarrow> (win_ptr \<Rightarrow> gr_window) \<Rightarrow> wtree \<Rightarrow> win_ptr \<Rightarrow> (MWCOORD \<times> MWCOORD) set" where
  "context_pts gc g W t w =
    {(x, y) \<in> visible_pts W t w (gc_mode gc AND NOT GR_MODE_DRAWMASK AND GR_MODE_EXCLUDECHILDREN \<noteq> 0) None.
      \<forall>P. gc_regionid gc \<noteq> 0 \<longrightarrow> region_map g (gc_regionid gc) = Some P \<longrightarrow> (x - w_x (W w) - gc_xoff gc, y - w_y (W w) - gc_yoff gc) \<in> P}"

lemma user_region_ok:
  assumes ok: "regions_ok g"
  obtains (none) "user_region gc g = None" "gc_regionid gc = 0 \<or> region_map g (gc_regionid gc) = None"
  | (some) rgn where "user_region gc g = Some (Some rgn)" "rgn_ok rgn" "gc_regionid gc \<noteq> 0" "region_map g (gc_regionid gc) = Some (rgn_pts rgn)"
proof (cases "gc_regionid gc = 0 \<or> GsFindRegion (gc_regionid gc) g = None")
  case True
  then show ?thesis by (intro none) (auto simp: user_region_def region_map_def)
next
  case False
  then obtain r where r: "GsFindRegion (gc_regionid gc) g = Some r" "gc_regionid gc \<noteq> 0" by auto
  obtain p where "r_rgn r = Some p" "rgn_ok (rgns g p)" "region_map g (gc_regionid gc) = Some (rgn_pts (rgns g p))"
    by (rule found_region [OF ok r(1)])
  then show ?thesis using r by (intro some) (simp_all add: user_region_def)
qed

lemma clip_ok:
  assumes ok: "gui_ok g s t" and w: "w \<in> set (nodes t)" and r: "w_realized (win s w)" "w_output (win s w)"
  shows "\<exists>ec. clip_window beyond gc g w s =
      Some (if Some w \<noteq> clipwp s \<or> gc_changed gc then s\<lparr>clipwp := Some w, eng_clip := ec\<rparr> else s) \<and>
    rgn_pts (clip_state.clipregion ec) = context_pts gc g (win s) t w"
proof -
  note G = gui_okD [OF ok] and S = server_okD [OF gui_okD(3) [OF ok]]
  let ?excl = "gc_mode gc AND NOT GR_MODE_DRAWMASK AND GR_MODE_EXCLUDECHILDREN \<noteq> 0"
  have wo: "windows_ok (win s) t" "shape_agrees (win s) t w"
    using baseD(2) [OF S(1)] w by (auto simp: windows_drawable_def windows_ok_def shape_agrees_def)
  have root: "rootwp s (w_layer (win s w)) = rootwp s 0" using baseD(6) [OF S(1) w] by simp
  have clip: "\<exists>ec. GsSetClipWindow beyond w u ?excl s = Some (s\<lparr>clipwp := Some w, eng_clip := ec\<rparr>) \<and>
      rgn_pts (clip_state.clipregion ec) = visible_pts (win s) t w ?excl u" if "\<And>rgn. u = Some rgn \<Longrightarrow> rgn_ok rgn" for u
    using set_clip_visible [OF S(5) w wo(1) root r disjI2 [OF wo(2)] that, of u beyond] by blast
  show ?thesis
  proof (rule user_region_ok [OF G(2), of gc])
    assume "user_region gc g = None" "gc_regionid gc = 0 \<or> region_map g (gc_regionid gc) = None"
    moreover from this have "context_pts gc g (win s) t w = visible_pts (win s) t w ?excl None" by (auto simp: context_pts_def)
    ultimately show ?thesis using clip [of None] by (auto simp: clip_window_def Let_def)
  next
    fix rgn
    assume u: "user_region gc g = Some (Some rgn)" "rgn_ok rgn" "gc_regionid gc \<noteq> 0" "region_map g (gc_regionid gc) = Some (rgn_pts rgn)"
    define r where "r = (if gc_xoff gc \<noteq> 0 \<or> gc_yoff gc \<noteq> 0 then GdOffsetRegion (copy_region GdAllocRegion rgn) (gc_xoff gc) (gc_yoff gc) else rgn)"
    have copy: "rgn_ok (copy_region GdAllocRegion rgn)" "rgn_pts (copy_region GdAllocRegion rgn) = rgn_pts rgn"
      using copy_region_ok [of rgn GdAllocRegion] u(2) by (simp_all add: GdAllocRegion_def EMPTY_REGION_def)
    have ro: "rgn_ok r" using u(2) GdOffsetRegion_ok [OF copy(1), of "gc_xoff gc" "gc_yoff gc"] by (simp add: r_def)
    have rp: "(x, y) \<in> rgn_pts r \<longleftrightarrow> (x - gc_xoff gc, y - gc_yoff gc) \<in> rgn_pts rgn" for x y
      using GdOffsetRegion_ok [OF copy(1), of "gc_xoff gc" "gc_yoff gc"] copy(2) by (auto simp: r_def)
    have "visible_pts (win s) t w ?excl (Some r) = context_pts gc g (win s) t w"
      using u(3,4) unfolding context_pts_def visible_pts_def by (auto simp: rp)
    then show ?thesis using clip [of "Some r"] ro u(1) by (auto simp: clip_window_def Let_def r_def)
  qed
qed

section \<open>Preparing a drawing in a window\<close>

text \<open>The first step: the context becomes the one of the engine.\<close>

definition chosen :: "gc_ptr \<Rightarrow> gc_server \<Rightarrow> server \<Rightarrow> gc_server \<times> server" where
  "chosen gp g s = (if curgcp s \<noteq> Some gp then (upd_gc gp (\<lambda>p. p\<lparr>gc_changed := True\<rparr>) g, s\<lparr>curgcp := Some gp\<rparr>) else (g, s))"

lemma chosen_ok:
  assumes ok: "gui_ok g s t" and gp: "gp \<in> set (listgcp g)" and c: "chosen gp g s = (g1, s1)"
  shows "gui_ok g1 s1 t" "curgcp s1 = Some gp" "listgcp g1 = listgcp g" "region_map g1 = region_map g" "win s1 = win s" "clipwp s1 = clipwp s"
    "gcs g1 = (gcs g)(gp := (gcs g gp)\<lparr>gc_changed := (curgcp s \<noteq> Some gp \<or> gc_changed (gcs g gp))\<rparr>)"
    "font_of gc g1 = font_of gc g"
proof -
  have same: "(gcs g)(gp := (gcs g gp)\<lparr>gc_changed := gc_changed (gcs g gp)\<rparr>) = gcs g" by (cases "gcs g gp") (auto simp: fun_eq_iff)
  have "gui_ok g1 s1 t"
  proof (cases "curgcp s = Some gp")
    case True
    then show ?thesis using ok c by (simp add: chosen_def)
  next
    case False
    then have g1: "g1 = upd_gc gp (\<lambda>p. p\<lparr>gc_changed := True\<rparr>) g" "s1 = s\<lparr>curgcp := Some gp\<rparr>" using c by (simp_all add: chosen_def)
    have "gui_ok g1 s t" unfolding g1
      by (rule change_gc [OF ok]) (use gcs_okD(3,4) [OF gui_okD(1) [OF ok] gp] in \<open>simp_all add: like_def\<close>)
    moreover have "server_ok s1 t"
      by (rule server_ok_undrawn [OF gui_okD(3) [OF ok]]) (use server_ok_evq [OF gui_okD(3) [OF ok]] in \<open>simp_all add: g1\<close>)
    moreover have "believed g1 s1" using gp by (simp add: believed_def g1)
    ultimately show ?thesis by (simp add: gui_ok_def)
  qed
  then show "gui_ok g1 s1 t" "curgcp s1 = Some gp" "listgcp g1 = listgcp g" "region_map g1 = region_map g" "win s1 = win s" "clipwp s1 = clipwp s"
    "gcs g1 = (gcs g)(gp := (gcs g gp)\<lparr>gc_changed := (curgcp s \<noteq> Some gp \<or> gc_changed (gcs g gp))\<rparr>)"
    "font_of gc g1 = font_of gc g"
    using c same by (auto simp: chosen_def font_of_def GsFindFont_def region_map_def GsFindRegion_def fun_eq_iff split: if_splits cong: option.case_cong)
qed

lemma prepare_unfold:
  assumes "GsFindGC gcid g s = Some (Some gp, g0, s)"
  shows "GsPrepareDrawing beyond ident gcid g s =
    (case chosen gp g0 s of (g, s) \<Rightarrow> Option.bind (GsFindWindow ident s) (\<lambda>(r, s). case r of
        None \<Rightarrow> Option.bind (GsFindPixmap ident s) (\<lambda>(r, s). case r of
            None \<Rightarrow> Some (None, g, s)
          | Some pp \<Rightarrow> Option.bind (clip_pixmap (gcs g gp) g pp s) (enable_gc gp (DrawablePixmap pp) g))
      | Some wp \<Rightarrow>
          if \<not> w_output (win s wp) then map_option (\<lambda>s. (None, g, s)) (server_error GR_ERROR_INPUT_ONLY_WINDOW ident s)
          else if \<not> w_realized (win s wp) then Some (None, g, s)
          else Option.bind (clip_window beyond (gcs g gp) g wp s) (enable_gc gp (DrawableWindow wp) g)))"
  by (simp add: GsPrepareDrawing_def assms chosen_def Let_def)

lemma context_pts_changed: "context_pts (gc\<lparr>gc_changed := b\<rparr>) g W t w = context_pts gc g W t w"
  by (simp add: context_pts_def)

text \<open>A context is fresh when the engine does not have its settings.\<close>

definition fresh :: "gc_ptr \<Rightarrow> gc_server \<Rightarrow> server \<Rightarrow> bool" where
  "fresh gp g s \<longleftrightarrow> curgcp s \<noteq> Some gp \<or> gc_changed (gcs g gp)"

lemma prepare_window:
  assumes ok: "gui_ok g s t" and n: "named_gc gcid g = Some gp" and w: "named ident s = Some w"
    and r: "w_realized (win s w)" "w_output (win s w)"
  shows "\<exists>g' s'. GsPrepareDrawing beyond ident gcid g s = Some (Some (DrawableWindow w), g', s') \<and> gui_ok g' s' t \<and> win s' = win s \<and>
    curgcp s' = Some gp \<and> agrees (gcs g' gp) g' (settings s') \<and> listgcp g' = listgcp g \<and> (\<exists>cs. engine_calls s' = engine_calls s @ cs) \<and>
    gcs g' = (gcs g)(gp := (if fresh gp g s then move_gradation (win s w) (gcs g gp) else gcs g gp)\<lparr>gc_changed := False\<rparr>) \<and>
    (fresh gp g s \<longrightarrow> gr_pfont (settings s') = font_of (gcs g gp) g) \<and>
    (fresh gp g s \<or> clipwp s \<noteq> Some w \<longrightarrow> rgn_pts (clip_state.clipregion (eng_clip s')) = context_pts (gcs g gp) g (win s) t w)"
proof -
  obtain cid cp where f: "GsFindGC gcid g s = Some (Some gp, gc_cached cid cp g, s)" "gcs_ok (gc_cached cid cp g)"
    by (rule find_gc [OF gui_okD(1) [OF ok] n])
  have gp: "gp \<in> set (listgcp g)" using n named_gc_iff [OF gui_okD(1) [OF ok]] by blast
  obtain g1 s1 where c: "chosen gp (gc_cached cid cp g) s = (g1, s1)" by fastforce
  note C = chosen_ok [OF gui_ok_cached [OF ok f(2)] _ c, unfolded gc_cached_simps, OF gp]
  have w1: "named ident s1 = Some w"
    using w named_node [OF gui_okD(3) [OF ok]] named_node [OF gui_okD(3) [OF C(1)]] by (simp add: C(5))
  obtain cid' cw where f1: "GsFindWindow ident s1 = Some (Some w, with_cache cid' cw s1)" "gui_ok g1 (with_cache cid' cw s1) t" "w \<in> set (nodes t)"
    by (rule find_named [OF C(1) w1])
  let ?s2 = "with_cache cid' cw s1" and ?gc = "gcs g1 gp"
  have s2: "win ?s2 = win s" "clipwp ?s2 = clipwp s" "curgcp ?s2 = Some gp" using C by (simp_all add: with_cache_def)
  obtain ec where clip: "clip_window beyond ?gc g1 w ?s2 =
      Some (if Some w \<noteq> clipwp ?s2 \<or> gc_changed ?gc then ?s2\<lparr>clipwp := Some w, eng_clip := ec\<rparr> else ?s2)"
    "rgn_pts (clip_state.clipregion ec) = context_pts ?gc g1 (win ?s2) t w"
    using clip_ok [OF f1(2,3), of beyond ?gc] r s2 by auto
  define s3 where "s3 = (if Some w \<noteq> clipwp ?s2 \<or> gc_changed ?gc then ?s2\<lparr>clipwp := Some w, eng_clip := ec\<rparr> else ?s2)"
  have "server_ok s3 t"
    by (rule server_ok_undrawn [OF gui_okD(3) [OF f1(2)]])
      (use server_ok_evq [OF gui_okD(3) [OF f1(2)]] f1(3) in \<open>auto simp: s3_def\<close>)
  then have ok3: "gui_ok g1 s3 t" by (rule gui_ok_server [OF f1(2)]) (simp_all add: s3_def)
  have c3: "curgcp s3 = Some gp" "win s3 = win s" using s2 by (simp_all add: s3_def)
  have gc: "?gc = (gcs g gp)\<lparr>gc_changed := fresh gp g s\<rparr>" using C(7) by (simp add: fresh_def)
  obtain g' cs where e: "enable_gc gp (DrawableWindow w) g1 s3 = Some (Some (DrawableWindow w), g', engine cs s3)" "gui_ok g' (engine cs s3) t"
    "gcs g' = (gcs g1)(gp := (if gc_changed ?gc then shown_gc (DrawableWindow w) s3 ?gc else ?gc)\<lparr>gc_changed := False\<rparr>)"
    "listgcp g' = listgcp g1" "agrees (gcs g' gp) g' (settings (engine cs s3))"
    "gc_changed ?gc \<longrightarrow> gr_pfont (settings (engine cs s3)) = font_of ?gc g1"
    using enable_ok [OF ok3 c3(1), of "DrawableWindow w"] by blast
  have prep: "GsPrepareDrawing beyond ident gcid g s = Some (Some (DrawableWindow w), g', engine cs s3)"
    unfolding prepare_unfold [OF f(1)] c using f1(1) clip(1) [folded s3_def] e(1) r s2(1) by simp
  have grad: "(move_gradation v (p\<lparr>gc_changed := b\<rparr>))\<lparr>gc_changed := False\<rparr> = (move_gradation v p)\<lparr>gc_changed := False\<rparr>" for v p b
    by (simp add: move_gradation_def Let_def)
  have "gcs g' = (gcs g)(gp := (if fresh gp g s then move_gradation (win s w) (gcs g gp) else gcs g gp)\<lparr>gc_changed := False\<rparr>)"
    unfolding e(3) C(7) by (simp add: gc fresh_def shown_gc_def c3(2) grad fun_eq_iff)
  moreover have "gr_pfont (settings (engine cs s3)) = font_of (gcs g gp) g" if "fresh gp g s"
  proof -
    have "font_of ?gc g1 = font_of (gcs g gp) g"
      using C(8) [of "gcs g gp"] by (simp add: gc font_of_def GsFindFont_def gc_cached_def cong: option.case_cong)
    then show ?thesis using e(6) that by (simp add: gc)
  qed
  moreover have "rgn_pts (clip_state.clipregion (eng_clip (engine cs s3))) = context_pts (gcs g gp) g (win s) t w"
    if "fresh gp g s \<or> clipwp s \<noteq> Some w"
  proof -
    have "eng_clip (engine cs s3) = ec" using that s2 by (auto simp: s3_def gc engine_def)
    moreover have "context_pts ?gc g1 (win ?s2) t w = context_pts (gcs g gp) g (win s) t w"
      using C(4) by (simp add: gc s2 C(5) context_pts_def region_map_def GsFindRegion_def)
    ultimately show ?thesis using clip(2) by simp
  qed
  moreover have "engine_calls (engine cs s3) = engine_calls s @ cs"
    using c by (auto simp: engine_def s3_def with_cache_def chosen_def split: if_splits)
  moreover have "win (engine cs s3) = win s" using c3(2) by (simp add: engine_def)
  ultimately show ?thesis using prep e C(3) c3 by (intro exI [of _ g'] exI [of _ "engine cs s3"]) simp
qed

end
