(* ===== verification/Gc_Props.thy ===== *)
theory Gc_Props
  imports Gc_Draw
begin

text \<open>
  The properties of graphics contexts: one invariant for the contexts, the regions, the windows and the settings of the engine, kept by
  every call of a client; what a drawing request draws with; and a copied stipple that is freed twice.
\<close>

section \<open>Drawing requests\<close>

datatype request_call =
    LineRequest MWCOORD MWCOORD MWCOORD MWCOORD
  | RectRequest MWCOORD MWCOORD MWCOORD MWCOORD
  | FillRectRequest MWCOORD MWCOORD MWCOORD MWCOORD
  | BitmapRequest MWCOORD MWCOORD MWCOORD MWCOORD "16 word list"
  | PointRequest MWCOORD MWCOORD
  | PointsRequest "(MWCOORD \<times> MWCOORD) list"
  | PolyRequest bool "(MWCOORD \<times> MWCOORD) list"
  | FillPolyRequest bool "(MWCOORD \<times> MWCOORD) list"

fun draw_request ::
  "MWCOORD \<Rightarrow> GR_WINDOW_ID \<Rightarrow> nat \<Rightarrow> request_call \<Rightarrow> gc_server \<Rightarrow> server \<Rightarrow> (gc_server \<times> server) option" where
  "draw_request beyond ident gc (LineRequest x1 y1 x2 y2) = GrLine beyond ident gc x1 y1 x2 y2"
| "draw_request beyond ident gc (RectRequest x y width height) = GrRect beyond ident gc x y width height"
| "draw_request beyond ident gc (FillRectRequest x y width height) = GrFillRect beyond ident gc x y width height"
| "draw_request beyond ident gc (BitmapRequest x y width height bits) = GrBitmap beyond ident gc x y width height bits"
| "draw_request beyond ident gc (PointRequest x y) = GrPoint beyond ident gc x y"
| "draw_request beyond ident gc (PointsRequest ps) = GrPoints beyond ident gc ps"
| "draw_request beyond ident gc (PolyRequest mem ps) = GrPoly beyond mem ident gc ps"
| "draw_request beyond ident gc (FillPolyRequest mem ps) = GrFillPoly beyond mem ident gc ps"

lemma draws_ok:
  assumes "gui_ok g s t"
  shows "gui_ok g (add_draws ds s) t"
proof -
  have "server_ok (add_draws ds s) t" unfolding add_draws_def by (rule engine_ok [OF gui_okD(3) [OF assms]])
  then show ?thesis using gui_okD [OF assms] believed_cong [OF gui_okD(4) [OF assms]] by (simp add: gui_ok_def)
qed

text \<open>A request that names a window and a context, or can report that it does not.\<close>

lemma prepare_ok:
  assumes ok: "gui_ok g s t" and f: "findable gcid g s" and w: "named ident s = Some w"
    and out: "w_output (win s w) \<or> can_report s"
  shows "\<exists>r g' s'. GsPrepareDrawing beyond ident gcid g s = Some (r, g', s') \<and> gui_ok g' s' t \<and> (r = None \<or> r = Some (DrawableWindow w))"
proof (cases "named_gc gcid g")
  case None
  then show ?thesis using no_gc [OF ok None] f by (auto simp: findable_def GsPrepareDrawing_def)
next
  case (Some gp)
  show ?thesis
  proof (cases "w_output (win s w) \<and> w_realized (win s w)")
    case True
    then show ?thesis using prepare_window [OF ok Some w, of beyond] by blast
  next
    case False
    obtain cid cp where f: "GsFindGC gcid g s = Some (Some gp, gc_cached cid cp g, s)" "gcs_ok (gc_cached cid cp g)"
      by (rule find_gc [OF gui_okD(1) [OF ok] Some])
    have gp: "gp \<in> set (listgcp g)" using Some named_gc_iff [OF gui_okD(1) [OF ok]] by blast
    obtain g1 s1 where c: "chosen gp (gc_cached cid cp g) s = (g1, s1)" by fastforce
    note C = chosen_ok [OF gui_ok_cached [OF ok f(2)] _ c, unfolded gc_cached_simps, OF gp]
    have w1: "named ident s1 = Some w"
      using w named_node [OF gui_okD(3) [OF ok]] named_node [OF gui_okD(3) [OF C(1)]] by (simp add: C(5))
    obtain cid' cw where f1: "GsFindWindow ident s1 = Some (Some w, with_cache cid' cw s1)" "gui_ok g1 (with_cache cid' cw s1) t"
      by (rule find_named [OF C(1) w1])
    have e: "evqueues s1 = evqueues s" using c by (auto simp: chosen_def split: if_splits)
    show ?thesis
    proof (cases "w_output (win s w)")
      case True
      then show ?thesis unfolding prepare_unfold [OF f(1)] c using f1 False C(5) by (simp add: with_cache_def)
    next
      case in_only: False
      then have "can_report (with_cache cid' cw s1)" using out e by (simp add: can_report_def with_cache_def)
      then obtain q where "server_error GR_ERROR_INPUT_ONLY_WINDOW ident (with_cache cid' cw s1) = Some ((with_cache cid' cw s1)\<lparr>evqueues := q\<rparr>)"
        "gui_ok g1 ((with_cache cid' cw s1)\<lparr>evqueues := q\<rparr>) t" using report [OF f1(2), of GR_ERROR_INPUT_ONLY_WINDOW ident] by auto
      then show ?thesis unfolding prepare_unfold [OF f(1)] c using f1 in_only C(5) by (simp add: with_cache_def)
    qed
  qed
qed

lemma request_ok:
  assumes "gui_ok g s t" and "findable gcid g s" and "named ident s = Some w" and "w_output (win s w) \<or> can_report s"
  shows "\<exists>g' s'. request beyond ident gcid f g s = Some (g', s') \<and> gui_ok g' s' t"
proof -
  obtain r g' s' where p: "GsPrepareDrawing beyond ident gcid g s = Some (r, g', s')" "gui_ok g' s' t" "r = None \<or> r = Some (DrawableWindow w)"
    using prepare_ok [OF assms, of beyond] by blast
  from p(3) show ?thesis
  proof
    assume "r = None"
    then show ?thesis using p by (simp add: request_def)
  next
    assume "r = Some (DrawableWindow w)"
    then show ?thesis using p draws_ok [OF p(2)] by (simp add: request_def draw_on_def)
  qed
qed

lemma draw_request_ok:
  assumes "gui_ok g s t" and "findable gcid g s" and "named ident s = Some w" and "w_output (win s w) \<or> can_report s"
  shows "\<exists>g' s'. draw_request beyond ident gcid r g s = Some (g', s') \<and> gui_ok g' s' t"
  by (cases r) (simp_all add: request_ok [OF assms] GrLine_def GrRect_def GrFillRect_def GrBitmap_def GrPoint_def GrPoints_def GrPoly_def
      GrFillPoly_def)

section \<open>Calls of regions and windows\<close>

lemma region_step_more:
  assumes "region_step beyond c g s = Some (g', s')" and "region_call_ok c g"
  shows "gr_regions.more g' = gr_regions.more g" "s' = s"
proof -
  have on: "on_region d f g = Some h \<Longrightarrow> gr_regions.more h = gr_regions.more g" for d f h
    by (auto simp: on_region_def split: option.splits)
  have ons: "on_regions f d a b g = Some h \<Longrightarrow> gr_regions.more h = gr_regions.more g" for f d a b h
    by (auto simp: on_regions_def split: option.splits)
  show "gr_regions.more g' = gr_regions.more g" "s' = s"
    using assms on ons by (cases c; force simp: GrNewRegion_def GrDestroyRegion_def GrUnionRectWithRegion_def GrOffsetRegion_def GrUnionRegion_def
        GrSubtractRegion_def GrXorRegion_def GrIntersectRegion_def Let_def split: option.splits list.splits)+
qed

lemma more_fields:
  fixes g g' :: gc_server
  assumes "gr_regions.more g' = gr_regions.more g"
  shows "gcs g' = gcs g" "listgcp g' = listgcp g" "cachegcid g' = cachegcid g" "cachegcp g' = cachegcp g" "nextgcid g' = nextgcid g"
    "free_gcs g' = free_gcs g" "bitmaps g' = bitmaps g" "free_bitmaps g' = free_bitmaps g" "listfontp g' = listfontp g" "stdfont g' = stdfont g"
  using assms by (cases g; cases g'; simp)+

lemma region_call_gui:
  assumes ok: "gui_ok g s t" and c: "region_call_ok c g"
  shows "\<exists>g'. region_step beyond c g s = Some (g', s) \<and> gui_ok g' s t"
proof -
  obtain g' s' where r: "region_step beyond c g s = Some (g', s')" "regions_ok g'"
    using region_step_refines [OF gui_okD(2) [OF ok] c, of beyond s] by blast
  note m = region_step_more [OF r(1) c]
  note F = more_fields [OF m(1)]
  have "gcs_ok g'" using gui_okD(1) [OF ok] by (simp add: gcs_ok_def stipple_of_def F)
  moreover have "agrees gc g' d" if "agrees gc g d" for gc d by (rule agrees_cong [OF that]) (simp_all add: F)
  then have "believed g' s" using gui_okD(4) [OF ok] by (simp add: believed_def F)
  ultimately show ?thesis using r m(2) gui_okD(3) [OF ok] by (simp add: gui_ok_def)
qed

lemma window_call_gui:
  assumes ok: "gui_ok g s t" and p: "permitted c s"
  shows "\<exists>s' t'. client_call beyond c s = Some s' \<and> gui_ok g s' t'"
proof -
  obtain s' t' where s': "client_call beyond c s = Some s'" "server_ok s' t'" using call_ok [OF gui_okD(3) [OF ok] p] by blast
  then have "quiet s s'" using quiet_call by (auto simp: quietly_def)
  then show ?thesis using s' gui_okD [OF ok] believed_quiet [OF gui_okD(4) [OF ok]] by (auto simp: gui_ok_def)
qed

section \<open>All calls\<close>

datatype gui_call =
    NewGC
  | DestroyGC nat
  | CopyGC nat
  | SetGC nat attribute
  | Draw GR_WINDOW_ID nat request_call
  | DestroyFont nat
  | RegionCall region_call
  | WindowCall window_call

fun gui_step :: "MWCOORD \<Rightarrow> gui_call \<Rightarrow> gc_server \<Rightarrow> server \<Rightarrow> (gc_server \<times> server) option" where
  "gui_step beyond NewGC g s = map_option snd (GrNewGC g s)"
| "gui_step beyond (DestroyGC gc) g s = GrDestroyGC gc g s"
| "gui_step beyond (CopyGC gc) g s = map_option snd (GrCopyGC gc g s)"
| "gui_step beyond (SetGC gc a) g s = set_attribute gc a g s"
| "gui_step beyond (Draw ident gc r) g s = draw_request beyond ident gc r g s"
| "gui_step beyond (DestroyFont font) g s = Some (GrDestroyFont font g s)"
| "gui_step beyond (RegionCall c) g s = region_step beyond c g s"
| "gui_step beyond (WindowCall c) g s = map_option (Pair g) (client_call beyond c s)"

text \<open>
  The calls that are served: an error can be reported unless there is none, memory is there for what is made, and a context with a
  stipple is not copied (see \<open>copied_stipple_freed_twice\<close>).
\<close>

fun gui_permitted :: "gui_call \<Rightarrow> gc_server \<Rightarrow> server \<Rightarrow> bool" where
  "gui_permitted NewGC g s \<longleftrightarrow> free_gcs g \<noteq> []"
| "gui_permitted (DestroyGC gc) g s \<longleftrightarrow> findable gc g s"
| "gui_permitted (CopyGC gc) g s \<longleftrightarrow>
     free_gcs g \<noteq> [] \<and> (case named_gc gc g of None \<Rightarrow> False | Some gp \<Rightarrow> fst (gc_stipple (gcs g gp)) = None)"
| "gui_permitted (SetGC gc a) g s \<longleftrightarrow> findable gc g s \<and> attribute_ok a g s"
| "gui_permitted (Draw ident gc r) g s \<longleftrightarrow>
     findable gc g s \<and> (case named ident s of None \<Rightarrow> False | Some w \<Rightarrow> w_output (win s w) \<or> can_report s)"
| "gui_permitted (DestroyFont font) g s \<longleftrightarrow> True"
| "gui_permitted (RegionCall c) g s \<longleftrightarrow> region_call_ok c g"
| "gui_permitted (WindowCall c) g s \<longleftrightarrow> permitted c s"

lemma gui_call_ok:
  assumes ok: "gui_ok g s t" and p: "gui_permitted c g s"
  shows "\<exists>g' s' t'. gui_step beyond c g s = Some (g', s') \<and> gui_ok g' s' t'"
proof (cases c)
  case NewGC
  then show ?thesis using new_gc_ok [OF ok] p by auto
next
  case (DestroyGC gc)
  then show ?thesis using destroy_gc_ok [OF ok] p by fastforce
next
  case (CopyGC gc)
  then obtain gp where "named_gc gc g = Some gp" "stipple_of g gp = None" "free_gcs g \<noteq> []"
    using p by (auto simp: stipple_of_def split: option.splits)
  then show ?thesis using copy_gc_ok [OF ok] CopyGC by fastforce
next
  case (SetGC gc a)
  then show ?thesis using set_attribute_ok [OF ok] p by fastforce
next
  case (Draw ident gc r)
  then show ?thesis using draw_request_ok [OF ok] p by (fastforce split: option.splits)
next
  case (DestroyFont font)
  then show ?thesis using destroy_font_ok [OF ok, of font] by (cases "GrDestroyFont font g s") auto
next
  case (RegionCall c)
  then show ?thesis using region_call_gui [OF ok] p by fastforce
next
  case (WindowCall c)
  then show ?thesis using window_call_gui [OF ok] p by fastforce
qed

text \<open>The states that are reached by permitted calls.\<close>

inductive works :: "MWCOORD \<Rightarrow> gc_server \<Rightarrow> server \<Rightarrow> gc_server \<Rightarrow> server \<Rightarrow> bool" for beyond where
  works_none: "works beyond g s g s"
| works_call: "works beyond g s g1 s1 \<Longrightarrow> gui_permitted c g1 s1 \<Longrightarrow> gui_step beyond c g1 s1 = Some (g2, s2) \<Longrightarrow> works beyond g s g2 s2"

lemma works_ok: "works beyond g s g' s' \<Longrightarrow> gui_ok g s t \<Longrightarrow> \<exists>t'. gui_ok g' s' t'"
proof (induction rule: works.induct)
  case (works_call g s g1 s1 c g2 s2)
  then obtain t1 where "gui_ok g1 s1 t1" by blast
  from gui_call_ok [OF this works_call.hyps(2), of beyond] works_call.hyps(3) show ?case by auto
qed blast

text \<open>
  C38. After any sequence of permitted calls of the clients that make, copy, change and destroy graphics contexts, draw, destroy fonts, change
  regions and change windows, the next permitted call returns.  Not permitted (\<open>gui_permitted\<close>) are: making something without memory;
  copying a context that has a stipple, where \<open>copied_stipple_freed_twice\<close> applies; a call whose error cannot be reported; a stipple
  with too little data; a tile or a drawable that is no window; and the calls on regions and windows that \<open>region_call_ok\<close> and \<open>permitted\<close>
  exclude.  And the invariant \<open>gui_ok\<close> holds again: contexts, regions and windows are
  well-formed, and whenever the server believes that the engine has the settings of a context, the context exists and the engine has
  them, although window operations draw with settings of their own.
\<close>

theorem gui_calls_invariant:
  assumes "gui_ok g s t" and "works beyond g s g1 s1" and "gui_permitted c g1 s1"
  shows "\<exists>g2 s2 t2. gui_step beyond c g1 s1 = Some (g2, s2) \<and> gui_ok g2 s2 t2"
proof -
  obtain t1 where "gui_ok g1 s1 t1" using works_ok [OF assms(2,1)] by blast
  from gui_call_ok [OF this assms(3)] show ?thesis .
qed

definition client_gcs :: gc_server where
  "client_gcs = gr_regions.extend client_regions
    \<lparr>gcs = (\<lambda>_. default_gc 0 None), listgcp = [], cachegcid = 0, cachegcp = None, nextgcid = 1000, free_gcs = [0, 1, 2],
     bitmaps = (\<lambda>_. None), free_bitmaps = [0, 1], listfontp = [], stdfont = Some 0\<rparr>"

lemma client_regions_ok: "regions_ok client_regions"
  by (simp add: regions_ok_def region_ptrs_def client_regions_def GdAllocRectRegion_ok)

lemma client_gcs_ok: "gui_ok client_gcs client_server client_tree"
proof -
  have f: "listregionp client_gcs = listregionp client_regions" "rgns client_gcs = rgns client_regions"
    "free_rgns client_gcs = free_rgns client_regions" "nextregionid client_gcs = nextregionid client_regions"
    by (simp_all add: client_gcs_def gr_regions.defs)
  have "gcs_ok client_gcs" by (simp add: gcs_ok_def client_gcs_def gr_regions.defs)
  moreover have "regions_ok client_gcs" using client_regions_ok by (simp add: regions_ok_def region_ptrs_def f)
  moreover have "believed client_gcs client_server" by (simp add: believed_def client_defs)
  ultimately show ?thesis using client_server_ok by (simp add: gui_ok_def)
qed

text \<open>The first context of a client.\<close>

definition first_gc :: gc_server where
  "first_gc = add_gc 0 [1, 2] (default_gc 1000 None) client_gcs"

lemma first_gc: "GrNewGC client_gcs client_server = Some (1000, first_gc, client_server)" "gui_ok first_gc client_server client_tree"
  "named_gc 1000 first_gc = Some 0"
proof -
  have f: "free_gcs client_gcs = [0, 1, 2]" "nextgcid client_gcs = 1000" by (simp_all add: client_gcs_def gr_regions.defs)
  have c: "curclient (evqueues client_server) = None" by (simp add: client_defs initial_queues_def)
  show n: "GrNewGC client_gcs client_server = Some (1000, first_gc, client_server)" by (simp add: GrNewGC_def f c first_gc_def)
  show "gui_ok first_gc client_server client_tree" using new_gc_ok [OF client_gcs_ok] f n by auto
  show "named_gc 1000 first_gc = Some 0" by (simp add: named_gc_def first_gc_def add_gc_def default_gc_def)
qed

theorem gui_calls_invariant_witness:
  "\<exists>g2 s2 t2. gui_step 0 NewGC client_gcs client_server = Some (first_gc, client_server) \<and>
     gui_step 0 (Draw 2 1000 (FillRectRequest 1 1 3 3)) first_gc client_server = Some (g2, s2) \<and> gui_ok g2 s2 t2"
proof -
  have n: "gui_step 0 NewGC client_gcs client_server = Some (first_gc, client_server)" using first_gc(1) by simp
  have "gui_permitted NewGC client_gcs client_server" by (simp add: client_gcs_def gr_regions.defs)
  from works_call [OF works_none this n] have w: "works 0 client_gcs client_server first_gc client_server" .
  have "w_output (win client_server 1)" by (simp add: client_defs)
  then have p: "gui_permitted (Draw 2 1000 (FillRectRequest 1 1 3 3)) first_gc client_server"
    by (simp add: findable_def first_gc(3) client_named)
  show ?thesis using gui_calls_invariant [OF client_gcs_ok w p] n by blast
qed

section \<open>What a request draws\<close>

definition clamped :: "MWCOORD \<Rightarrow> MWCOORD" where
  "clamped c = max MIN_COORD (min c MAX_COORD)"

fun drawn :: "request_call \<Rightarrow> MWCOORD \<Rightarrow> MWCOORD \<Rightarrow> draw_call list" where
  "drawn (LineRequest x1 y1 x2 y2) x y = [DrawLine (x + clamped x1) (y + clamped y1) (x + min x2 MAX_COORD) (y + clamped y2) True]"
| "drawn (RectRequest a b width height) x y = [DrawRect (x + a) (y + b) width height]"
| "drawn (FillRectRequest a b width height) x y = [DrawFillRect (x + a) (y + b) width height]"
| "drawn (BitmapRequest a b width height bits) x y = [DrawBitmap (x + a) (y + b) width height bits]"
| "drawn (PointRequest a b) x y = [DrawPoint (x + a) (y + b)]"
| "drawn (PointsRequest ps) x y = map (\<lambda>(a, b). DrawPoint (a + x) (b + y)) ps"
| "drawn (PolyRequest mem ps) x y = (if mem then [DrawPoly (map (\<lambda>(a, b). (clamped a + x, clamped b + y)) ps)] else [])"
| "drawn (FillPolyRequest mem ps) x y = (if mem then [DrawFillPoly (map (\<lambda>(a, b). (clamped a + x, clamped b + y)) ps)] else [])"

lemma clamp_eq: "(if c > MAX_COORD then MAX_COORD else if c < MIN_COORD then MIN_COORD else c) = clamped c"
  by (simp add: clamped_def)

lemma clamp_point_eq: "clamp_point x y = (\<lambda>(a, b). (clamped a + x, clamped b + y))"
  by (simp add: clamp_point_def clamped_def fun_eq_iff)

lemma line_call_eq:
  "line_call x1 y1 x2 y2 x y = DrawLine (x + clamped x1) (y + clamped y1) (x + min x2 MAX_COORD) (y + clamped y2) True"
  by (simp add: line_call_def clamped_def Let_def)

lemma draw_request_drawn: "draw_request beyond ident gc r = request beyond ident gc (drawn r)"
proof -
  have same: "request beyond ident gc f = request beyond ident gc (drawn r)" if "\<And>x y. f x y = drawn r x y" for f r
    by (rule arg_cong [where f = "request beyond ident gc"]) (intro ext that)
  show ?thesis
    by (cases r) (simp_all only: draw_request.simps GrLine_def GrRect_def GrFillRect_def GrBitmap_def GrPoint_def GrPoints_def GrPoly_def
        GrFillPoly_def, (rule same, simp add: line_call_eq clamp_point_eq)+)
qed

text \<open>
  C39. A drawing request on a visible window with a graphics context draws its figure at the place of the window while the engine has
  exactly the settings of this context (after \<open>GrDestroyFont\<close> perhaps no font); a context that the engine did not have or that was
  changed is handed over, and then, or when the clip region is that of another window, the region drawn in becomes the visible part of
  the window inside the region of the context.  The context itself changes only in its gradation, which is moved by the place of
  the window each time it is handed over.  The end of a line is not brought into range on the left.
\<close>

theorem requests_draw_with_context:
  assumes "gui_ok g s t" and "named_gc gc g = Some gp" and "named ident s = Some w" and "w_realized (win s w)" and "w_output (win s w)"
  shows "\<exists>g' s' cs rgn. draw_request beyond ident gc r g s = Some (g', s') \<and>
    engine_calls s' = engine_calls s @ cs @ map (CallDraw rgn) (drawn r (w_x (win s w)) (w_y (win s w))) \<and>
    agrees (gcs g' gp) g' (settings s') \<and> (fresh gp g s \<longrightarrow> gr_pfont (settings s') = font_of (gcs g gp) g) \<and>
    (fresh gp g s \<or> clipwp s \<noteq> Some w \<longrightarrow> rgn_pts rgn = context_pts (gcs g gp) g (win s) t w) \<and>
    gcs g' = (gcs g)(gp := (if fresh gp g s then move_gradation (win s w) (gcs g gp) else gcs g gp)\<lparr>gc_changed := False\<rparr>)"
proof -
  obtain g' s1 cs where p: "GsPrepareDrawing beyond ident gc g s = Some (Some (DrawableWindow w), g', s1)" "win s1 = win s"
    "agrees (gcs g' gp) g' (settings s1)" "engine_calls s1 = engine_calls s @ cs"
    "gcs g' = (gcs g)(gp := (if fresh gp g s then move_gradation (win s w) (gcs g gp) else gcs g gp)\<lparr>gc_changed := False\<rparr>)"
    "fresh gp g s \<longrightarrow> gr_pfont (settings s1) = font_of (gcs g gp) g"
    "fresh gp g s \<or> clipwp s \<noteq> Some w \<longrightarrow> rgn_pts (clip_state.clipregion (eng_clip s1)) = context_pts (gcs g gp) g (win s) t w"
    using prepare_window [OF assms, of beyond] by blast
  let ?ds = "drawn r (w_x (win s w)) (w_y (win s w))"
  have r: "draw_request beyond ident gc r g s = Some (g', add_draws ?ds s1)"
    unfolding draw_request_drawn request_def p(1) by (simp add: draw_on_def dp_x_def dp_y_def p(2))
  have "engine_calls (add_draws ?ds s1) = engine_calls s @ cs @ map (CallDraw (clip_state.clipregion (eng_clip s1))) ?ds"
    by (simp add: add_draws_def engine_def p(4))
  then show ?thesis using r p(3,5,6,7) by (intro exI [of _ g'] exI [of _ "add_draws ?ds s1"] exI [of _ cs] exI [of _ "clip_state.clipregion (eng_clip s1)"]) simp
qed

theorem requests_draw_with_context_witness:
  "\<exists>g' s' rgn. GrFillRect 0 2 1000 1 2 3 4 first_gc client_server = Some (g', s') \<and>
     last (engine_calls s') = CallDraw rgn (DrawFillRect 11 12 3 4) \<and> gr_foreground (settings s') = 0xFFFFFFFF"
proof -
  have w: "w_realized (win client_server 1)" "w_output (win client_server 1)" "w_x (win client_server 1) = 10" "w_y (win client_server 1) = 10"
    by (simp_all add: client_defs)
  obtain g' s' cs rgn where d: "draw_request 0 2 1000 (FillRectRequest 1 2 3 4) first_gc client_server = Some (g', s')"
    "engine_calls s' = engine_calls client_server @ cs @ map (CallDraw rgn) (drawn (FillRectRequest 1 2 3 4) 10 10)"
    "agrees (gcs g' 0) g' (settings s')"
    "gcs g' = (gcs first_gc)(0 := (if fresh 0 first_gc client_server then move_gradation (win client_server 1) (gcs first_gc 0)
       else gcs first_gc 0)\<lparr>gc_changed := False\<rparr>)"
    using requests_draw_with_context [OF first_gc(2,3) client_named(2) w(1,2), of 0 "FillRectRequest 1 2 3 4"] unfolding w(3,4) by blast
  have "gc_fgispixelval (gcs g' 0) = False" "gc_foreground (gcs g' 0) = 0xFFFFFFFF"
    unfolding d(4) by (simp_all add: first_gc_def add_gc_def default_gc_def move_gradation_def Let_def)
  then have "gr_foreground (settings s') = GdFindColor 0xFFFFFFFF" using d(3) by (simp add: agrees_def)
  then have "gr_foreground (settings s') = 0xFFFFFFFF" by (simp add: GdFindColor_def)
  then show ?thesis using d(1,2) by (intro exI [of _ g'] exI [of _ s'] exI [of _ rgn]) simp
qed

section \<open>A copied stipple\<close>

text \<open>
  C40. \<open>GrCopyGC\<close> copies the address of a stipple bitmap: when both contexts are destroyed, the bitmap is freed twice.
\<close>

theorem copied_stipple_freed_twice:
  assumes "gcs_ok g" and "named_gc gc g = Some gp" and "fst (gc_stipple (gcs g gp)) = Some b" and "free_gcs g \<noteq> []"
  shows "\<exists>n g1 g2 s2. GrCopyGC gc g s = Some (n, g1, s) \<and> GrDestroyGC gc g1 s = Some (g2, s2) \<and> GrDestroyGC n g2 s2 = None"
proof -
  note f = find_gc_cached [OF assms(1,2)]
  obtain q rest where q: "free_gcs g = q # rest" using assms(4) by (cases "free_gcs g") auto
  have gp: "gp \<in> set (listgcp g)" "gc_id (gcs g gp) = gc" using named_gc_iff [OF assms(1)] assms(2) by auto
  have ne: "q \<noteq> gp" "q \<notin> set (listgcp g)" using assms(1) gp(1) q by (auto simp: gcs_ok_def)
  have bits: "bitmaps g b \<noteq> None" using gcs_ok_stipple(1) [OF assms(1) gp(1)] assms(3) by (simp add: stipple_of_def)
  let ?p = "(gcs g gp)\<lparr>gc_id := nextgcid g, gc_changed := True, gc_owner := curclient (evqueues s)\<rparr>"
  define g1 where "g1 = add_gc q rest ?p (gc_cached gc (Some gp) g)"
  have copy: "GrCopyGC gc g s = Some (nextgcid g, g1, s)" using f(1) q by (simp add: GrCopyGC_def g1_def)
  have F: "cachegcid g1 = gc" "cachegcp g1 = Some gp" "listgcp g1 = q # listgcp g" "bitmaps g1 = bitmaps g" "gcs g1 = (gcs g)(q := ?p)"
    by (simp_all add: g1_def add_gc_def gc_cached_def)
  define g2 where "g2 = g1\<lparr>cachegcid := 0, cachegcp := None, listgcp := remove1 gp (listgcp g1), bitmaps := (bitmaps g1)(b := None),
    free_bitmaps := b # free_bitmaps g1, free_gcs := gp # free_gcs g1\<rparr>"
  define s2 where "s2 = (if curgcp s = Some gp then s\<lparr>curgcp := None\<rparr> else s)"
  have "GsFindGC gc g1 s = Some (Some gp, g1, s)" using f(3) F(1,2) by (simp add: GsFindGC_def)
  then have "GrDestroyGC gc g1 s = Some (g2, s2)"
    using F ne(1) assms(3) bits by (simp add: GrDestroyGC_def Let_def free_stipple_def g2_def s2_def)
  moreover have "GrDestroyGC (nextgcid g) g2 s2 = None"
  proof -
    have G: "cachegcid g2 = 0" "listgcp g2 = q # remove1 gp (listgcp g)" "gcs g2 = (gcs g)(q := ?p)" "bitmaps g2 b = None"
      using F ne(1) by (simp_all add: g2_def)
    have "GsFindGC (nextgcid g) g2 s2 = Some (Some q, g2\<lparr>cachegcid := nextgcid g, cachegcp := Some q\<rparr>, s2)"
      using G by (auto simp: GsFindGC_def)
    then show ?thesis using G assms(3) by (simp add: GrDestroyGC_def Let_def free_stipple_def)
  qed
  ultimately show ?thesis using copy by blast
qed

definition stippled_gc :: gc_server where
  "stippled_gc = first_gc\<lparr>gcs := (gcs first_gc)(0 := (gcs first_gc 0)\<lparr>gc_stipple := (Some 0, 8, 1)\<rparr>), bitmaps := [0 \<mapsto> [0xAA00]],
     free_bitmaps := [1]\<rparr>"

theorem copied_stipple_freed_twice_witness:
  "\<exists>n g1 g2 s2. GrCopyGC 1000 stippled_gc client_server = Some (n, g1, client_server) \<and>
     GrDestroyGC 1000 g1 client_server = Some (g2, s2) \<and> GrDestroyGC n g2 s2 = None"
proof (rule copied_stipple_freed_twice)
  show "gcs_ok stippled_gc"
    by (simp add: gcs_ok_def stippled_gc_def first_gc_def add_gc_def default_gc_def client_gcs_def gr_regions.defs stipple_of_def)
  show "named_gc 1000 stippled_gc = Some 0"
    by (simp add: named_gc_def stippled_gc_def first_gc_def add_gc_def default_gc_def client_gcs_def gr_regions.defs)
  show "fst (gc_stipple (gcs stippled_gc 0)) = Some 0" by (simp add: stippled_gc_def)
  show "free_gcs stippled_gc \<noteq> []" by (simp add: stippled_gc_def first_gc_def add_gc_def)
qed

section \<open>The dashes of a border\<close>

text \<open>
  \<open>GsDrawBorder\<close> calls \<open>GdSetDash\<close> with null pointers, which leaves the dashes of the last context in force; the lines of
  a border of width 1 are drawn with them.
\<close>

lemma border_keeps_dashes:
  assumes "GsDrawBorder beyond wp s = Some s'"
  shows "gr_dashmask (settings s') = gr_dashmask (settings s) \<and> gr_dashcount (settings s') = gr_dashcount (settings s)"
proof -
  have same: "settings (upd_win w f r) = settings r" "settings (r\<lparr>clipwp := a\<rparr>) = settings r" "settings (r\<lparr>curgcp := c\<rparr>) = settings r"
    for w f r a c by (simp_all add: settings_def upd_win_def)
  have clip: "settings r' = settings r" if "GsSetClipWindow beyond wp None False r = Some r'" for r r'
  proof -
    have "engine_calls r' = engine_calls r"
      using that by (auto simp: GsSetClipWindow_def Let_def bind_eq_Some_conv split: if_splits prod.splits)
    then show ?thesis by (simp add: settings_def)
  qed
  show ?thesis using assms
    by (auto simp: GsDrawBorder_def Let_def bind_eq_Some_conv same settings_engine GdSetDash_def GdSetForegroundColor_def GdSetMode_def GdSetFillMode_def
        dest!: clip split: if_splits)
qed

end
