(* ===== verification/Spec2Isabelle.thy ===== *)
theory Spec2Isabelle
  imports Rgn_Props Scr_Props Cur_Props Mse_Props Draw_Props Img_Props Evt_Props Dlv_Keys Wop_Props Gc_Props
begin

text \<open>
  A verification library for the window system of the firmware (\<open>src/nanox\<close>, a Nano-X server derived
  from Microwindows), the vendor's own code in this repository.

  \<^bold>\<open>The program.\<close>  Drawing requests pass through four layers.  The device-independent engine
  (\<open>engine/\<close>) receives points, lines, rectangles and images in device coordinates, cuts them at the
  clip region and takes the software cursor away from the place it draws to.  The clip region is a
  set of pixels kept as bands of rectangles (\<open>engine/devrgn.c\<close>).  The screen driver
  (\<open>drivers/scr_gen32.c\<close>) writes 32-bit pixels in four modes - copy, clear, XOR and alpha blending.
  Mouse input (\<open>engine/devmouse.c\<close>) moves the cursor.

  \<^bold>\<open>The theories.\<close>
  \<^item> \<open>Prelude\<close>: the coordinate type, rectangles, the collections of simplification rules.
  \<^item> \<open>Rgn_Model\<close>, \<open>Rgn_Callbacks\<close>, \<open>Rgn_Ops\<close>: \<open>devrgn.c\<close> - region objects, the band sweep
    \<open>REGION_RegionOp\<close> with its callbacks, union, intersection, difference, XOR, queries, bitmap
    regions.  A region is its list of rectangles with its extents and capacity, \<open>rgn_pts\<close> the set of
    its pixels.  \<open>Rgn_Geom\<close> holds the mathematics of bands (a set of pixels has exactly one canonical
    list), \<open>Rgn_Sweep\<close> the invariant of the sweep, \<open>Rgn_Queries\<close> and \<open>Rgn_Bitmap\<close> the rest, and
    \<open>Rgn_Props\<close> the theorems: every operation returns the canonical list of the set it should,
    whatever objects the caller passes twice, and where this fails.
  \<^item> \<open>Scr_Model\<close>, \<open>Scr_Lemmas\<close>, \<open>Scr_Blend\<close>, \<open>Scr_Props\<close>: \<open>scr_gen32.c\<close> - pixels, lines, rectangles and
    block copies.  Memory is a function from word addresses to words; the loops over rows and columns
    are passes over lists of addresses, and the theorems reduce them to single pixels.  The error of
    the blending formula over an opaque background is bounded.
  \<^item> \<open>Img_Model\<close>, \<open>Img_Props\<close>: the same file - scaled copies, images, gradation.
  \<^item> \<open>Cur_Model\<close>, \<open>Cur_Proofs\<close>, \<open>Cur_Props\<close>: the software cursor of \<open>devmouse.c\<close>.  Its contract
    \<open>cursor_ok\<close> says what the screen shows; the locale \<open>cursor_screen\<close> is the screen it needs,
    interpreted on the 32-bit driver.
    The arrays of the code are maps from indices; \<open>cursor_fits\<close>, \<open>image_fits\<close> and \<open>within_arrays\<close> state their bounds.
  \<^item> \<open>Mse_Model\<close>, \<open>Mse_Props\<close>: mouse position, limits, acceleration, rotation, calibration; what samples of the
    driver do to position and buttons, one at a time and in sequences.
  \<^item> \<open>Clip_Model\<close>, \<open>Clip_Props\<close>: \<open>engine/devclip2.c\<close>, the clip region with its cache rectangle.
  \<^item> \<open>Draw_Model\<close>, \<open>Draw_Proofs\<close>, \<open>Draw_Props\<close>: clipped points, straight lines, frames and fills of
    \<open>engine/devdraw.c\<close>, on top of regions, clipping, cursor and driver.  The locale \<open>drawing\<close> is what
    they need of a driver; its interpretation \<open>gen32_drawing\<close> rests on the driver's theorems, so that
    the theorems speak about the composition of all the layers.

  \<^item> \<open>Evt_Model\<close>, \<open>Evt_Queue\<close>, \<open>Evt_Props\<close>: the server's event queues (\<open>nanox/srvevent.c\<close>), singly linked
    lists with head and tail pointers and a list of free elements.  The locale \<open>event_queue\<close> is their
    contract; the theorem \<open>queues_refine_lists\<close> is a refinement of one list per client.

  \<^item> \<open>Win_Model\<close>, \<open>Win_Tree\<close>, \<open>Win_Clip\<close>, \<open>Win_Props\<close>, \<open>Win_Hit\<close>: the windows of the server
    (\<open>nanox/srvclip2.c\<close>, \<open>nanox/srvutil.c\<close>).  Windows are linked structures in memory; \<open>window_tree\<close> relates them to a tree,
    in which every window has a lineage of ancestors with their earlier siblings.  The theorems say which points
    \<open>GsSetClipWindow\<close> leaves visible, which window \<open>GsFindVisibleWindow\<close> finds, and that the two agree.  The region operations
    are used through the locale \<open>region_algebra\<close> of \<open>Rgn_Algebra\<close>.

  \<^item> \<open>Dlv_Model\<close>, \<open>Dlv_Lemmas\<close>, \<open>Dlv_Walks\<close>, \<open>Dlv_Mouse\<close>, \<open>Dlv_Props\<close>, \<open>Dlv_Keys\<close>: the delivery of events to clients
    (\<open>nanox/srvevent.c\<close>), the mouse and the focus window, the shape of the cursor (\<open>nanox/srvutil.c\<close>) and the grabbed keys
    (\<open>nanox/srvfunc.c\<close>), on top of the window tree and the event queues.  Each operation is described by the messages it
    queues (\<open>sent\<close>); the loops that walk to the root go along the lineage of a window and so always end.

  \<^item> \<open>Wop_Model\<close>: the calls of clients on windows (\<open>nanox/srvfunc.c\<close>) and what they use (\<open>nanox/srvutil.c\<close>): backgrounds,
    borders, exposure, realizing, unrealizing, destroying.  The invariant of the server is \<open>server_ok s t\<close>: the pointers form the tree \<open>t\<close>,
    the list of windows holds the same windows, a window is realized just when it and its ancestors are mapped, and no remembered window is
    outside the tree.  \<open>Wop_Draw\<close> shows that drawing returns and changes no window, \<open>Wop_Map\<close> and \<open>Wop_Vis\<close> treat visibility,
    \<open>Wop_Place\<close> and \<open>Wop_Move\<close> the calls that keep the tree, \<open>Wop_Edit\<close>, \<open>Wop_Order\<close>, \<open>Wop_New\<close>, \<open>Wop_Destroy\<close>
    and \<open>Wop_Reparent\<close> those that relink it.  The locale \<open>forest_walk\<close> is the walk over siblings and their children that five recursive functions of the code
    share; each interpretation is one of them.  \<open>Wop_Props\<close> states what the calls do, and the invariant for every sequence of permitted calls.

  \<^item> \<open>Reg_Model\<close>, \<open>Reg_Props\<close>: the regions of the clients (\<open>nanox/srvfunc.c\<close>), identifiers for regions of the engine.  The calls that \<open>region_call_ok\<close> admits
    refine operations on a map from identifiers to sets of points.

  \<^item> \<open>Gc_Model\<close>: graphics contexts with all their attributes, \<open>GsPrepareDrawing\<close>, the drawing requests (\<open>nanox/srvfunc.c\<close>,
    \<open>nanox/srvutil.c\<close>) and the variables of the engine that they set (\<open>engine/devdraw.c\<close>, \<open>devstipple.c\<close>).  The calls to the engine
    are recorded, and \<open>settings\<close> reads the values of its variables off the record.  \<open>Gc_Quiet\<close> shows that a window operation either
    leaves the settings alone or clears \<open>curgcp\<close>; \<open>Gc_Agree\<close> says when the settings are those of a context, \<open>Gc_Calls\<close> and
    \<open>Gc_Draw\<close> that every call keeps the invariant \<open>gui_ok\<close>: what the server believes about the engine is true.  \<open>Gc_Props\<close> states
    this for every sequence of permitted calls, and what a request draws, where and with which settings.

  \<^bold>\<open>Conventions.\<close>  \<open>MWCOORD\<close> (a C \<open>int\<close>) is \<^typ>\<open>int\<close>, which is unbounded.  Hypotheses bound values where the code
  depends on it: the coordinates of the clip cache and of lines and rectangles, the sizes of scaled copies, the size of a cursor and
  its image; \<open>SAFE_PLUS\<close> cuts sums as the code does.  Elsewhere sums of coordinates that clients choose are
  unbounded without a hypothesis - the rectangles and offsets of regions (\<open>devrgn.c\<close>, \<open>GrUnionRectWithRegion\<close>, \<open>GrOffsetRegion\<close>), the places
  of windows in \<open>NewWindow\<close> and \<open>GrReparentWindow\<close>, the figures of drawing requests, the movements and calibration of the mouse - and the theorems
  describe the C code while these sums fit in an \<open>int\<close>.
  The places where unsigned and signed numbers meet are written out (\<open>unsigned_range\<close>).  Pixels are
  \<^typ>\<open>32 word\<close> with the wrap-around of C.  Static variables are records that operations take and
  return.  Errors are options: memory exhaustion, division by zero, a loop that does not end.  A loop that
  may not end is a \<open>partial_function (option)\<close>, and the theorems about it state that it returns.  No model
  uses fuel.  The counters of identifiers for contexts and regions (\<open>int\<close> in C) are unbounded.

  \<^bold>\<open>Not modelled.\<close>  Fonts, text and image decoders (glue over libraries and file formats); filling of polygons, arcs, drawing with
  stipples and tiles, diagonal lines, glyph drawing of the driver (a request for them is modelled up to the call of the engine); the
  server's main loop, protocol and locks (I/O); timers, selections and the making of pixmaps; and the bundled third-party code (Linux,
  busybox, U-Boot, DirectFB).
\<close>

end
